(* ===== verification/SupPrelude.thy ===== *)
theory SupPrelude
  imports Main "HOL-Library.Word"
begin

text \<open>
  Shared vocabulary of the development: machine word abbreviations, the IPRT status
  codes (include/iprt/err.h, include/VBox/err.h) with their success and failure tests,
  the pointer validity test of an AMD64 ring-0 build, and the singly linked list idioms
  of the C code (walk to the first match, unlink it, change it in place) as functions
  on lists with their lemmas.
\<close>

unbundle bit_operations_syntax

type_synonym u8 = "8 word"
type_synonym u16 = "16 word"
type_synonym u32 = "32 word"
type_synonym u64 = "64 word"
type_synonym addr = "64 word"
type_synonym status = int

named_theorems rc_simps \<open>status codes and their tests\<close>
named_theorems walk_simps \<open>linked list idioms\<close>

subsection \<open>Status codes\<close>

abbreviation VINF_SUCCESS :: status where "VINF_SUCCESS \<equiv> 0"
abbreviation VERR_GENERAL_FAILURE :: status where "VERR_GENERAL_FAILURE \<equiv> -1"
abbreviation VERR_INVALID_PARAMETER :: status where "VERR_INVALID_PARAMETER \<equiv> -2"
abbreviation VERR_INVALID_MAGIC :: status where "VERR_INVALID_MAGIC \<equiv> -3"
abbreviation VERR_INVALID_HANDLE :: status where "VERR_INVALID_HANDLE \<equiv> -4"
abbreviation VERR_INVALID_POINTER :: status where "VERR_INVALID_POINTER \<equiv> -6"
abbreviation VERR_NO_MEMORY :: status where "VERR_NO_MEMORY \<equiv> -8"
abbreviation VERR_ALREADY_LOADED :: status where "VERR_ALREADY_LOADED \<equiv> -9"
abbreviation VERR_PERMISSION_DENIED :: status where "VERR_PERMISSION_DENIED \<equiv> -10"
abbreviation VERR_VERSION_MISMATCH :: status where "VERR_VERSION_MISMATCH \<equiv> -11"
abbreviation VERR_WRONG_ORDER :: status where "VERR_WRONG_ORDER \<equiv> -22"
abbreviation VERR_INVALID_FUNCTION :: status where "VERR_INVALID_FUNCTION \<equiv> -36"
abbreviation VERR_NOT_SUPPORTED :: status where "VERR_NOT_SUPPORTED \<equiv> -37"
abbreviation VERR_ACCESS_DENIED :: status where "VERR_ACCESS_DENIED \<equiv> -38"
abbreviation VERR_TRY_AGAIN :: status where "VERR_TRY_AGAIN \<equiv> -52"
abbreviation VERR_MEMORY_BUSY :: status where "VERR_MEMORY_BUSY \<equiv> -67"
abbreviation VERR_NOT_FOUND :: status where "VERR_NOT_FOUND \<equiv> -78"
abbreviation VERR_NO_MORE_HANDLES :: status where "VERR_NO_MORE_HANDLES \<equiv> -81"
abbreviation VERR_PAGE_COUNT_OUT_OF_RANGE :: status where "VERR_PAGE_COUNT_OUT_OF_RANGE \<equiv> -84"
abbreviation VINF_OBJECT_DESTROYED :: status where "VINF_OBJECT_DESTROYED \<equiv> 85"
abbreviation VERR_DANGLING_OBJECTS :: status where "VERR_DANGLING_OBJECTS \<equiv> -86"
abbreviation VERR_NO_EXEC_MEMORY :: status where "VERR_NO_EXEC_MEMORY \<equiv> -96"
abbreviation VERR_ALREADY_EXISTS :: status where "VERR_ALREADY_EXISTS \<equiv> -105"
abbreviation VERR_INTERNAL_ERROR :: status where "VERR_INTERNAL_ERROR \<equiv> -225"
abbreviation VERR_INTERNAL_ERROR_2 :: status where "VERR_INTERNAL_ERROR_2 \<equiv> -226"
abbreviation VERR_INTERNAL_ERROR_3 :: status where "VERR_INTERNAL_ERROR_3 \<equiv> -227"
abbreviation VERR_INTERNAL_ERROR_4 :: status where "VERR_INTERNAL_ERROR_4 \<equiv> -228"
abbreviation VERR_INTERNAL_ERROR_5 :: status where "VERR_INTERNAL_ERROR_5 \<equiv> -229"
abbreviation VERR_MODULE_NOT_FOUND :: status where "VERR_MODULE_NOT_FOUND \<equiv> -610"
abbreviation VERR_CPU_OFFLINE :: status where "VERR_CPU_OFFLINE \<equiv> -800"
abbreviation VERR_CPU_NOT_FOUND :: status where "VERR_CPU_NOT_FOUND \<equiv> -801"
abbreviation VERR_UNSUPPORTED_CPU :: status where "VERR_UNSUPPORTED_CPU \<equiv> -1002"
abbreviation VERR_VMX_NO_VMX :: status where "VERR_VMX_NO_VMX \<equiv> -4009"
abbreviation VERR_VMX_MSR_LOCKED_OR_DISABLED :: status where "VERR_VMX_MSR_LOCKED_OR_DISABLED \<equiv> -4013"
abbreviation VERR_SVM_NO_SVM :: status where "VERR_SVM_NO_SVM \<equiv> -4052"
abbreviation VERR_SVM_DISABLED :: status where "VERR_SVM_DISABLED \<equiv> -4053"
abbreviation VERR_TOO_MANY_CPUS :: status where "VERR_TOO_MANY_CPUS \<equiv> -1019"
abbreviation VERR_SUPDRV_COMPONENT_NOT_FOUND :: status where
  "VERR_SUPDRV_COMPONENT_NOT_FOUND \<equiv> -3700"
abbreviation VERR_SUPDRV_INTERFACE_NOT_SUPPORTED :: status where
  "VERR_SUPDRV_INTERFACE_NOT_SUPPORTED \<equiv> -3701"
abbreviation VERR_SUPDRV_SERVICE_NOT_FOUND :: status where
  "VERR_SUPDRV_SERVICE_NOT_FOUND \<equiv> -3702"

definition RT_SUCCESS :: "status \<Rightarrow> bool" where
  [rc_simps]: "RT_SUCCESS rc = (0 \<le> rc)"

definition RT_FAILURE :: "status \<Rightarrow> bool" where
  [rc_simps]: "RT_FAILURE rc = (\<not> RT_SUCCESS rc)"

lemma RT_SUCCESS_numerals [simp]:
  "RT_SUCCESS 0" "RT_SUCCESS 1" "RT_SUCCESS (numeral n)"
  "\<not> RT_SUCCESS (- 1)" "\<not> RT_SUCCESS (- numeral n)"
  by (simp_all add: rc_simps)

lemma RT_FAILURE_numerals [simp]:
  "\<not> RT_FAILURE 0" "\<not> RT_FAILURE 1" "\<not> RT_FAILURE (numeral n)"
  "RT_FAILURE (- 1)" "RT_FAILURE (- numeral n)"
  by (simp_all add: rc_simps)

lemma RT_SUCCESS_not_FAILURE [simp]: "(\<not> RT_FAILURE rc) = RT_SUCCESS rc"
  by (simp add: rc_simps)

subsection \<open>Pointers and pages\<close>

text \<open>
  \<open>RT_VALID_PTR\<close> of include/iprt/cdefs.h for an AMD64 ring-0 build: not in the first or
  the last page and canonical.
\<close>

definition RT_VALID_PTR :: "addr \<Rightarrow> bool" where
  "RT_VALID_PTR p \<longleftrightarrow>
     0x2000 \<le> p + 0x1000 \<and>
     (p AND 0xffff800000000000 = 0xffff800000000000 \<or> p AND 0xffff800000000000 = 0)"

lemma RT_VALID_PTR_not_null [simp]: "\<not> RT_VALID_PTR 0"
  by (simp add: RT_VALID_PTR_def)

abbreviation PAGE_SHIFT :: nat where "PAGE_SHIFT \<equiv> 12"
abbreviation PAGE_SIZE :: "'a::len word" where "PAGE_SIZE \<equiv> 0x1000"
abbreviation PAGE_OFFSET_MASK :: "'a::len word" where "PAGE_OFFSET_MASK \<equiv> 0xfff"

subsection \<open>Linked list idioms\<close>

primrec update_first :: "('a \<Rightarrow> bool) \<Rightarrow> ('a \<Rightarrow> 'a) \<Rightarrow> 'a list \<Rightarrow> 'a list" where
  "update_first P f [] = []"
| "update_first P f (x # xs) = (if P x then f x # xs else x # update_first P f xs)"

primrec remove_first :: "('a \<Rightarrow> bool) \<Rightarrow> 'a list \<Rightarrow> 'a list" where
  "remove_first P [] = []"
| "remove_first P (x # xs) = (if P x then xs else x # remove_first P xs)"

lemma length_update_first [simp]: "length (update_first P f xs) = length xs"
  by (induction xs) auto

lemma map_update_first [walk_simps]:
  "(\<And>x. g (f x) = g x) \<Longrightarrow> map g (update_first P f xs) = map g xs"
  by (induction xs) auto

lemma update_first_id [walk_simps]: "find P xs = None \<Longrightarrow> update_first P f xs = xs"
  by (induction xs) (auto split: if_splits)

lemma remove_first_id [walk_simps]: "find P xs = None \<Longrightarrow> remove_first P xs = xs"
  by (induction xs) (auto split: if_splits)

lemma set_remove_first_subset: "set (remove_first P xs) \<subseteq> set xs"
  by (induction xs) auto

lemma set_update_first_subset: "set (update_first P f xs) \<subseteq> set xs \<union> f ` set xs"
  by (induction xs) auto

lemma distinct_map_remove_first [walk_simps]:
  "distinct (map g xs) \<Longrightarrow> distinct (map g (remove_first P xs))"
  by (induction xs) (auto dest: set_remove_first_subset [THEN subsetD])

lemma find_SomeD: "find P xs = Some x \<Longrightarrow> x \<in> set xs \<and> P x"
  by (auto simp: find_Some_iff)

lemma find_None_iff_set: "find P xs = None \<longleftrightarrow> (\<forall>x\<in>set xs. \<not> P x)"
  by (auto simp: find_None_iff)

lemma remove_first_split:
  "find P xs = Some x \<Longrightarrow> \<exists>ys zs. xs = ys @ x # zs \<and> (\<forall>y\<in>set ys. \<not> P y) \<and> remove_first P xs = ys @ zs"
proof (induction xs)
  case (Cons a xs)
  show ?case
  proof (cases "P a")
    case True
    with Cons.prems show ?thesis by (intro exI [of _ "[]"] exI [of _ xs]) simp
  next
    case False
    with Cons obtain ys zs where "xs = ys @ x # zs" "\<forall>y\<in>set ys. \<not> P y" "remove_first P xs = ys @ zs"
      by auto
    with False show ?thesis by (intro exI [of _ "a # ys"] exI [of _ zs]) simp
  qed
qed simp

lemma update_first_split:
  "find P xs = Some x \<Longrightarrow> \<exists>ys zs. xs = ys @ x # zs \<and> (\<forall>y\<in>set ys. \<not> P y) \<and> update_first P f xs = ys @ f x # zs"
proof (induction xs)
  case (Cons a xs)
  show ?case
  proof (cases "P a")
    case True
    with Cons.prems show ?thesis by (intro exI [of _ "[]"] exI [of _ xs]) simp
  next
    case False
    with Cons obtain ys zs where "xs = ys @ x # zs" "\<forall>y\<in>set ys. \<not> P y" "update_first P f xs = ys @ f x # zs"
      by auto
    with False show ?thesis by (intro exI [of _ "a # ys"] exI [of _ zs]) simp
  qed
qed simp

subsection \<open>Counts kept in lists of records\<close>

text \<open>The count a list of records holds for a key: usage records of objects and of images.\<close>

primrec key_count :: "('a \<Rightarrow> 'k) \<Rightarrow> ('a \<Rightarrow> nat) \<Rightarrow> 'a list \<Rightarrow> 'k \<Rightarrow> nat" where
  "key_count key cnt [] p = 0"
| "key_count key cnt (u # us) p = (if key u = p then cnt u else 0) + key_count key cnt us p"

lemma key_count_append [simp]: "key_count key cnt (us @ vs) p = key_count key cnt us p + key_count key cnt vs p"
  by (induction us) auto

lemma key_count_zero: "\<forall>u\<in>set us. key u \<noteq> p \<Longrightarrow> key_count key cnt us p = 0"
  by (induction us) auto

lemma key_count_zeroD: "key_count key cnt us p = 0 \<Longrightarrow> u \<in> set us \<Longrightarrow> 0 < cnt u \<Longrightarrow> key u \<noteq> p"
  by (induction us) (auto split: if_splits)

lemma key_count_split:
  assumes "distinct (map key us)" "us = ys @ u # zs" "key u = q"
  shows "key_count key cnt ys q = 0" "key_count key cnt zs q = 0"
proof -
  have "\<forall>y\<in>set ys. key y \<noteq> q" "\<forall>z\<in>set zs. key z \<noteq> q"
    using assms by (auto simp: image_iff)
  then show "key_count key cnt ys q = 0" "key_count key cnt zs q = 0" by (auto intro: key_count_zero)
qed

lemma key_count_find:
  assumes "distinct (map key us)" "find (\<lambda>u. key u = p) us = Some u"
  shows "key_count key cnt us p = cnt u"
proof -
  obtain ys zs where e: "us = ys @ u # zs"
    using remove_first_split [OF assms(2)] by blast
  have u: "key u = p" using find_SomeD [OF assms(2)] by simp
  show ?thesis using key_count_split [OF assms(1) e u] u by (simp add: e)
qed

lemma key_count_update:
  assumes "distinct (map key us)" "find (\<lambda>u. key u = q) us = Some u" "key (f u) = q"
  shows "key_count key cnt (update_first (\<lambda>u. key u = q) f us) p =
         (if q = p then cnt (f u) else key_count key cnt us p)"
proof -
  obtain ys zs where e: "us = ys @ u # zs" "update_first (\<lambda>u. key u = q) f us = ys @ f u # zs"
    using update_first_split [OF assms(2)] by blast
  have u: "key u = q" using find_SomeD [OF assms(2)] by simp
  show ?thesis using key_count_split [OF assms(1) e(1) u] u assms(3)
    unfolding e(2) unfolding e(1) by auto
qed

lemma key_count_remove:
  assumes "distinct (map key us)" "find (\<lambda>u. key u = q) us = Some u"
  shows "key_count key cnt (remove_first (\<lambda>u. key u = q) us) p = (if q = p then 0 else key_count key cnt us p)"
proof -
  obtain ys zs where e: "us = ys @ u # zs" "remove_first (\<lambda>u. key u = q) us = ys @ zs"
    using remove_first_split [OF assms(2)] by blast
  have u: "key u = q" using find_SomeD [OF assms(2)] by simp
  show ?thesis using key_count_split [OF assms(1) e(1) u] u unfolding e(2) unfolding e(1) by auto
qed

subsection \<open>Word counters\<close>

lemma unat_inc: "unat (x::'a::len word) + 1 < 2 ^ LENGTH('a) \<Longrightarrow> unat (x + 1) = unat x + 1"
  by (simp add: unat_word_ariths)

lemma unat_dec: "0 < unat (x::'a::len word) \<Longrightarrow> unat (x - 1) = unat x - 1"
  by (metis Suc_pred' add_diff_cancel_left' diff_Suc_1 plus_1_eq_Suc unat_minus_one unat_eq_zero less_numeral_extra(3))

lemma unat_gt1: "(1 < (x::u32)) = (1 < unat x)"
  by (simp add: word_less_nat_alt)

lemma unat_ucast_u32: "unat (ucast (x::u32) :: u64) = unat x"
proof -
  have "unat x < 2 ^ 64" using unsigned_less [of x, where ?'a = nat] by simp
  then show ?thesis by (simp add: unsigned_ucast_eq take_bit_nat_eq_self)
qed

lemma unat_plus32: "unat x + unat y < 2 ^ 32 \<Longrightarrow> unat (x + y :: u32) = unat x + unat y"
  by (simp add: unat_word_ariths)

end
