(* ===== verification/SupIface.thy ===== *)
theory SupIface
  imports SupPrelude
begin

text \<open>
  The interfaces the components rely on, as locales: reference counted resources, which the
  objects of the driver are; maps from handles, which the handle tables are; and linked registries, which
  component factories and notification callbacks are. Each provider interprets its locale in its own theory.
\<close>

subsection \<open>Reference counted resources\<close>

datatype ('h, 'o) refop = Retain 'h 'o | Release 'h 'o

text \<open>
  Holders \<open>h\<close> (sessions) own references to resources \<open>x\<close>. A provider promises that each
  operation that succeeds keeps its invariant and changes one count by one, and that a
  resource is alive exactly as long as somebody holds a reference.
\<close>

locale refcounted =
  fixes inv :: "'s \<Rightarrow> bool"
    and refs :: "'s \<Rightarrow> 'h \<Rightarrow> 'o \<Rightarrow> nat"
    and alive :: "'s \<Rightarrow> 'o \<Rightarrow> bool"
    and retain :: "'s \<Rightarrow> 'h \<Rightarrow> 'o \<Rightarrow> 's option"
    and release :: "'s \<Rightarrow> 'h \<Rightarrow> 'o \<Rightarrow> 's option"
  assumes inv_retain: "inv s \<Longrightarrow> retain s h x = Some s' \<Longrightarrow> inv s'"
    and refs_retain: "inv s \<Longrightarrow> retain s h x = Some s' \<Longrightarrow>
          refs s' k y = refs s k y + of_bool (k = h \<and> y = x)"
    and inv_release: "inv s \<Longrightarrow> release s h x = Some s' \<Longrightarrow> inv s'"
    and refs_release: "inv s \<Longrightarrow> release s h x = Some s' \<Longrightarrow>
          refs s k y = refs s' k y + of_bool (k = h \<and> y = x)"
    and alive_iff: "inv s \<Longrightarrow> alive s x \<longleftrightarrow> (\<exists>h. 0 < refs s h x)"
begin

lemma retain_alive: "inv s \<Longrightarrow> retain s h x = Some s' \<Longrightarrow> alive s' x"
  using alive_iff [OF inv_retain] refs_retain [of s h x s' h x] by fastforce

lemma retain_release:
  assumes "inv s" "retain s h x = Some s1" "release s1 h x = Some s2"
  shows "refs s2 k y = refs s k y" "alive s2 y = alive s y"
proof -
  show r: "refs s2 k y = refs s k y" for k y
    using refs_retain [OF assms(1,2), of k y] refs_release [OF inv_retain [OF assms(1,2)] assms(3), of k y]
    by simp
  show "alive s2 y = alive s y"
    using alive_iff [OF assms(1)] alive_iff [OF inv_release [OF inv_retain [OF assms(1,2)] assms(3)]] r
    by simp
qed

lemma release_keeps:
  assumes "inv s" "release s h x = Some s'" "0 < refs s k x" "k \<noteq> h"
  shows "alive s' x"
  using alive_iff [OF inv_release [OF assms(1,2)], of x] refs_release [OF assms(1,2), of k x] assms(3,4)
  by auto

lemma last_release:
  assumes "inv s" "release s h x = Some s'" "\<And>k. refs s k x = of_bool (k = h)"
  shows "\<not> alive s' x"
  using alive_iff [OF inv_release [OF assms(1,2)], of x] refs_release [OF assms(1,2), of _ x] assms(3)
  by (auto split: if_splits)

primrec run :: "'s \<Rightarrow> ('h, 'o) refop list \<Rightarrow> 's option" where
  "run s [] = Some s"
| "run s (e # es) =
     Option.bind (case e of Retain h x \<Rightarrow> retain s h x | Release h x \<Rightarrow> release s h x) (\<lambda>s'. run s' es)"

lemma run_step:
  assumes "inv s" "run s (e # es) = Some s'"
  obtains s1 where "inv s1" "run s1 es = Some s'"
    "\<And>k y. refs s1 k y + of_bool (e = Release k y) = refs s k y + of_bool (e = Retain k y)"
proof -
  have "\<exists>s1. inv s1 \<and> run s1 es = Some s' \<and>
          (\<forall>k y. refs s1 k y + of_bool (e = Release k y) = refs s k y + of_bool (e = Retain k y))"
  proof (cases e)
    case (Retain h x)
    with assms(2) obtain s1 where s1: "retain s h x = Some s1" "run s1 es = Some s'"
      by (auto simp: bind_eq_Some_conv)
    have "refs s1 k y + of_bool (e = Release k y) = refs s k y + of_bool (e = Retain k y)" for k y
      using refs_retain [OF assms(1) s1(1), of k y] Retain by (cases "k = h \<and> y = x") auto
    with s1 show ?thesis using inv_retain [OF assms(1)] by blast
  next
    case (Release h x)
    with assms(2) obtain s1 where s1: "release s h x = Some s1" "run s1 es = Some s'"
      by (auto simp: bind_eq_Some_conv)
    have "refs s1 k y + of_bool (e = Release k y) = refs s k y + of_bool (e = Retain k y)" for k y
      using refs_release [OF assms(1) s1(1), of k y] Release by (cases "k = h \<and> y = x") auto
    with s1 show ?thesis using inv_release [OF assms(1)] by blast
  qed
  then show thesis using that by blast
qed

lemma run_balance:
  assumes "inv s" "run s es = Some s'"
  shows "inv s'" "refs s' k y + count_list es (Release k y) = refs s k y + count_list es (Retain k y)"
proof -
  have "inv s' \<and> refs s' k y + count_list es (Release k y) = refs s k y + count_list es (Retain k y)"
    using assms
  proof (induction es arbitrary: s)
    case (Cons e es)
    from run_step [OF Cons.prems] obtain s1 where s1: "inv s1" "run s1 es = Some s'"
      and eq: "refs s1 k y + of_bool (e = Release k y) = refs s k y + of_bool (e = Retain k y)"
      by metis
    from Cons.IH [OF s1] eq show ?case by (auto split: if_splits)
  qed simp
  then show "inv s'" "refs s' k y + count_list es (Release k y) = refs s k y + count_list es (Retain k y)"
    by auto
qed

lemma run_alive:
  assumes "inv s" "run s es = Some s'"
  shows "alive s' x \<longleftrightarrow> (\<exists>k. count_list es (Release k x) < refs s k x + count_list es (Retain k x))"
  using alive_iff [OF run_balance(1) [OF assms], of x] run_balance(2) [OF assms, of _ x]
  by (metis less_add_same_cancel2)

end

subsection \<open>Handle maps\<close>

text \<open>
  A table that hands out handles for values: an allocation returns a handle that was not in
  use and changes nothing else, a free forgets exactly one handle.
\<close>

locale handle_map =
  fixes ok :: "'t \<Rightarrow> bool"
    and look :: "'t \<Rightarrow> 'h \<rightharpoonup> 'v"
    and valid :: "'v \<Rightarrow> bool"
    and alloc :: "'t \<Rightarrow> 'v \<Rightarrow> ('h \<times> 't) option"
    and free :: "'t \<Rightarrow> 'h \<Rightarrow> 't option"
  assumes alloc_ok: "ok t \<Longrightarrow> valid v \<Longrightarrow> alloc t v = Some (h, t') \<Longrightarrow>
          ok t' \<and> look t h = None \<and> look t' = (look t)(h \<mapsto> v)"
    and free_ok: "ok t \<Longrightarrow> look t h \<noteq> None \<Longrightarrow>
          \<exists>t'. free t h = Some t' \<and> ok t' \<and> look t' = (look t)(h := None)"
begin

lemma alloc_free:
  assumes "ok t" "valid v" "alloc t v = Some (h, t1)"
  obtains t2 where "free t1 h = Some t2" "ok t2" "look t2 = look t"
proof -
  note a = alloc_ok [OF assms]
  then obtain t2 where "free t1 h = Some t2" "ok t2" "look t2 = (look t1)(h := None)"
    using free_ok [of t1 h] by auto
  moreover have "(look t1)(h := None) = look t" using a by auto
  ultimately show thesis using that by metis
qed

lemma alloc_distinct:
  assumes "ok t" "valid v" "valid v'" "alloc t v = Some (h, t1)" "alloc t1 v' = Some (h', t2)"
  shows "h \<noteq> h'" "look t2 h = Some v" "look t2 h' = Some v'"
  using alloc_ok [OF assms(1,2,4)] alloc_ok [of t1 v' h' t2] assms(3,5) by auto

lemma free_other:
  assumes "ok t" "look t h \<noteq> None" "free t h = Some t'" "k \<noteq> h"
  shows "look t' k = look t k"
  using free_ok [OF assms(1,2)] assms(3,4) by auto

end

subsection \<open>Registries\<close>

text \<open>
  A list of registrations without duplicates: adding refuses what is there already, removing
  refuses what is not, and both leave all other registrations alone.
\<close>

locale registry =
  fixes ok :: "'s \<Rightarrow> bool"
    and entries :: "'s \<Rightarrow> 'k list"
    and add :: "'s \<Rightarrow> 'k \<Rightarrow> 's option"
    and del :: "'s \<Rightarrow> 'k \<Rightarrow> 's option"
  assumes distinct_entries: "ok s \<Longrightarrow> distinct (entries s)"
    and add_ok: "ok s \<Longrightarrow> add s k = Some s' \<Longrightarrow>
          ok s' \<and> k \<notin> set (entries s) \<and> set (entries s') = insert k (set (entries s))"
    and del_ok: "ok s \<Longrightarrow> del s k = Some s' \<Longrightarrow>
          ok s' \<and> k \<in> set (entries s) \<and> entries s' = remove1 k (entries s)"
begin

lemma del_set:
  assumes "ok s" "del s k = Some s'"
  shows "set (entries s') = set (entries s) - {k}"
  using del_ok [OF assms] distinct_entries [OF assms(1)] by simp

lemma add_del:
  assumes "ok s" "add s k = Some s1" "del s1 k = Some s2"
  shows "ok s2" "set (entries s2) = set (entries s)"
proof -
  have 1: "ok s1" "k \<notin> set (entries s)" "set (entries s1) = insert k (set (entries s))"
    using add_ok [OF assms(1,2)] by blast+
  show "ok s2" using del_ok [OF 1(1) assms(3)] by blast
  show "set (entries s2) = set (entries s)" using del_set [OF 1(1) assms(3)] 1(2,3) by simp
qed

lemma del_twice:
  assumes "ok s" "del s k = Some s1"
  shows "del s1 k = None"
proof (cases "del s1 k")
  case (Some s2)
  have "ok s1" using del_ok [OF assms] by blast
  then have "k \<in> set (entries s1)" using del_ok [OF _ Some] by blast
  then show ?thesis unfolding del_set [OF assms] by blast
qed

lemma add_twice:
  assumes "ok s" "add s k = Some s1"
  shows "add s1 k = None"
proof (cases "add s1 k")
  case (Some s2)
  have "ok s1" using add_ok [OF assms] by blast
  then have "k \<notin> set (entries s1)" using add_ok [OF _ Some] by blast
  moreover have "k \<in> set (entries s1)" using add_ok [OF assms] by blast
  ultimately show ?thesis by blast
qed

end

end
