(* ===== verification/SupState.thy ===== *)
theory SupState
  imports SupPrelude
begin

text \<open>
  The data of the support driver, after SUPDrvInternal.h: objects and their per-session
  usage records, memory tracking records and bundles, loader images, component factory
  registrations, the session and the device extension. The whole driver is one record
  \<open>supdrv\<close>: the device extension, and partial maps from addresses to the heap blocks the C
  code reaches through pointers. An address that is not in the domain of its map is not
  allocated; dereferencing it is undefined behaviour in C, and every operation of the
  model then returns \<open>None\<close>. A singly linked list is the HOL list of its nodes.
  Locks are not part of the state: an operation runs as one step, apart from the places
  where the code drops a lock and checks again, which are modelled explicitly.
\<close>

subsection \<open>Objects and usage records\<close>

abbreviation SUPDRVOBJ_MAGIC :: u32 where "SUPDRVOBJ_MAGIC \<equiv> 0x18900915"
abbreviation SUPDRVOBJ_MAGIC_DEAD :: u32 where "SUPDRVOBJ_MAGIC_DEAD \<equiv> 0x19760112"
abbreviation BIRD :: u32 where "BIRD \<equiv> 0x64726962"
abbreviation BIRD_INV :: u32 where "BIRD_INV \<equiv> 0x62697264"

text \<open>The enumeration \<open>SUPDRVOBJTYPE\<close> is kept as the integer the C code compares.\<close>

abbreviation (input) SUPDRVOBJTYPE_INVALID :: nat where "SUPDRVOBJTYPE_INVALID \<equiv> 0"
abbreviation (input) SUPDRVOBJTYPE_SEM_EVENT :: nat where "SUPDRVOBJTYPE_SEM_EVENT \<equiv> 4"
abbreviation (input) SUPDRVOBJTYPE_SEM_EVENT_MULTI :: nat where "SUPDRVOBJTYPE_SEM_EVENT_MULTI \<equiv> 5"
abbreviation (input) SUPDRVOBJTYPE_END :: nat where "SUPDRVOBJTYPE_END \<equiv> 7"

record SUPDRVOBJ =
  obj_u32Magic :: u32
  obj_enmType :: nat
  obj_pfnDestructor :: addr
  obj_pvUser1 :: addr
  obj_pvUser2 :: addr
  obj_cUsage :: u32
  obj_CreatorUid :: u32
  obj_CreatorGid :: u32
  obj_CreatorProcess :: u32

record SUPDRVUSAGE =
  usg_pObj :: addr
  usg_cUsage :: u32

subsection \<open>Tracked memory\<close>

datatype SUPDRVMEMREFTYPE =
    MEMREF_TYPE_UNUSED
  | MEMREF_TYPE_LOCKED
  | MEMREF_TYPE_CONT
  | MEMREF_TYPE_LOW
  | MEMREF_TYPE_MEM
  | MEMREF_TYPE_PAGE

text \<open>The handle 0 is \<open>NIL_RTR0MEMOBJ\<close>.\<close>

record SUPDRVMEMREF =
  mr_MemObj :: addr
  mr_MapObjR3 :: addr
  mr_eType :: SUPDRVMEMREFTYPE

text \<open>\<open>bdl_aMem\<close> has 64 entries (\<open>RT_ELEMENTS(pBundle->aMem)\<close>).\<close>

record SUPDRVBUNDLE =
  bdl_aMem :: "SUPDRVMEMREF list"
  bdl_cUsed :: u32

text \<open>
  IPRT memory objects (internal/memobj.h), without the magic: an object is in the store as long as
  its handle is allocated. \<open>mo_pParent\<close> is the child side of the union \<open>uRel\<close>, the two fields
  after it the parent side. \<open>mo_fNative\<close> is not a field of the code: it says that the memory
  itself was not given back to the host yet.
\<close>

datatype RTR0MEMOBJTYPE =
    RTR0MEMOBJTYPE_PAGE
  | RTR0MEMOBJTYPE_LOW
  | RTR0MEMOBJTYPE_CONT
  | RTR0MEMOBJTYPE_LOCK
  | RTR0MEMOBJTYPE_PHYS
  | RTR0MEMOBJTYPE_PHYS_NC
  | RTR0MEMOBJTYPE_RES_VIRT
  | RTR0MEMOBJTYPE_MAPPING

record RTR0MEMOBJINTERNAL =
  mo_enmType :: RTR0MEMOBJTYPE
  mo_cb :: u64
  mo_pv :: addr
  mo_R0Process :: addr
  mo_Phys :: u64
  mo_pParent :: addr
  mo_cMappingsAllocated :: u32
  mo_papMappings :: "addr list"
  mo_fProtChanged :: bool
  mo_fNative :: bool

subsection \<open>Loader images\<close>

text \<open>The image state is the I/O control code of the last operation.\<close>

datatype SUPLDRSTATE = SUP_LDR_OPEN | SUP_LDR_LOAD | SUP_LDR_FREE

record SUPLDRSYM =
  sym_offName :: u32
  sym_offSymbol :: u32

text \<open>
  \<open>img_szName\<close> holds the bytes of the name that were allocated, the terminator included.
  A table pointer is \<open>None\<close> when it is NULL. \<open>img_abBits\<close> is the memory \<open>pvImage\<close> points to.
\<close>

record SUPDRVLDRIMAGE =
  img_pvImage :: addr
  img_pvImageAlloc :: addr
  img_cbImageWithTabs :: u32
  img_cbImageBits :: u32
  img_cSymbols :: u32
  img_paSymbols :: "SUPLDRSYM list option"
  img_pachStrTab :: "u8 list option"
  img_cbStrTab :: u32
  img_pfnModuleInit :: addr
  img_pfnModuleTerm :: addr
  img_pfnServiceReqHandler :: addr
  img_uState :: SUPLDRSTATE
  img_cUsage :: u32
  img_fNative :: bool
  img_szName :: "u8 list"
  img_abBits :: "u8 list"

record SUPDRVLDRUSAGE =
  lus_pImage :: addr
  lus_cUsage :: u32

subsection \<open>Component factories\<close>

record SUPDRVFACTORY =
  fct_szName :: "u8 list"
  fct_pfnQueryFactoryInterface :: addr

record SUPDRVFACTORYREG =
  reg_pFactory :: addr
  reg_pSession :: addr
  reg_cchName :: nat

subsection \<open>Handle tables\<close>

text \<open>
  IPRT handle tables (common/misc/handletable.h). \<open>ht_entries\<close> is the table indexed by the
  flat index \<open>i\<close> (\<open>papvLevel1[i / 2048][i % 2048]\<close>); it has \<open>ht_cCur\<close> entries. Entries keep the
  encoding of the code: an object pointer, or a tagged index with the two low bits set.
\<close>

record RTHTENTRYCTX =
  hte_pvObj :: u64
  hte_pvCtx :: u64

record RTHANDLETABLEINT =
  ht_uBase :: u32
  ht_cCur :: u32
  ht_cMax :: u32
  ht_cCurAllocated :: u32
  ht_cLevel1 :: u32
  ht_iFreeHead :: u32
  ht_iFreeTail :: u32
  ht_entries :: "RTHTENTRYCTX list"

subsection \<open>The global information page\<close>

datatype SUPGIPCPUSTATE =
    SUPGIPCPUSTATE_INVALID
  | SUPGIPCPUSTATE_ABSENT
  | SUPGIPCPUSTATE_OFFLINE
  | SUPGIPCPUSTATE_ONLINE

datatype SUPGIPMODE = SUPGIPMODE_INVALID | SUPGIPMODE_SYNC_TSC | SUPGIPMODE_ASYNC_TSC

record SUPGIPCPU =
  cpu_u32TransactionId :: u32
  cpu_u32UpdateIntervalTSC :: u32
  cpu_u64NanoTS :: u64
  cpu_u64TSC :: u64
  cpu_u64CpuHz :: u64
  cpu_cErrors :: u32
  cpu_iTSCHistoryHead :: u32
  cpu_au32TSCHistory :: "u32 list"
  cpu_u32PrevUpdateIntervalNS :: u32
  cpu_enmState :: SUPGIPCPUSTATE
  cpu_idCpu :: u32
  cpu_iCpuSet :: int
  cpu_idApic :: u16

record SUPGLOBALINFOPAGE =
  gip_u32Magic :: u32
  gip_u32Version :: u32
  gip_u32Mode :: SUPGIPMODE
  gip_cCpus :: u16
  gip_cPages :: u16
  gip_u32UpdateHz :: u32
  gip_u32UpdateIntervalNS :: u32
  gip_u64NanoTSLastUpdateHz :: u64
  gip_OnlineCpuSet :: "nat set"
  gip_PresentCpuSet :: "nat set"
  gip_PossibleCpuSet :: "nat set"
  gip_cOnlineCpus :: u16
  gip_cPresentCpus :: u16
  gip_cPossibleCpus :: u16
  gip_idCpuMax :: u32
  gip_aiCpuFromApicId :: "u16 list"
  gip_aiCpuFromCpuSetIdx :: "u16 list"
  gip_aCPUs :: "SUPGIPCPU list"

subsection \<open>Sessions, the device extension, the driver\<close>

text \<open>
  \<open>ses_Bundle\<close> is the chain of bundles, the one embedded in the session first.
  A handle table is \<open>None\<close> once it is destroyed.
\<close>

record SUPDRVSESSION =
  ses_u32Cookie :: u32
  ses_pVM :: addr
  ses_hHandleTable :: "RTHANDLETABLEINT option"
  ses_pLdrUsage :: "SUPDRVLDRUSAGE list"
  ses_GipMapObjR3 :: addr
  ses_fGipReferenced :: bool
  ses_Bundle :: "SUPDRVBUNDLE list"
  ses_pUsage :: "SUPDRVUSAGE list"
  ses_Uid :: u32
  ses_Gid :: u32
  ses_Process :: u32
  ses_R0Process :: addr

text \<open>
  \<open>dx_pUsageFree\<close> counts the records of the free list: their contents are never read.
  The GIP is the page itself, \<open>None\<close> while there is none; \<open>dx_fGipPublished\<close> says whether the global
  \<open>g_pSUPGlobalInfoPage\<close> points to it. \<open>dx_fGipTimer\<close> says whether \<open>pGipTimer\<close> is set.
\<close>

record SUPDRVDEVEXT =
  dx_pObjs :: "addr list"
  dx_pUsageFree :: nat
  dx_u32Cookie :: u32
  dx_cbSession :: u32
  dx_pvVMMR0 :: addr
  dx_pfnVMMR0EntryInt :: addr
  dx_pfnVMMR0EntryFast :: addr
  dx_pfnVMMR0EntryEx :: addr
  dx_pLdrImages :: "addr list"
  dx_pGip :: "SUPGLOBALINFOPAGE option"
  dx_fGipPublished :: bool
  dx_HCPhysGip :: u64
  dx_cGipUsers :: u32
  dx_GipMemObj :: addr
  dx_fGipTimer :: bool
  dx_u32SystemTimerGranularityGrant :: u32
  dx_idGipMaster :: u32
  dx_pComponentFactoryHead :: "SUPDRVFACTORYREG list"

text \<open>
  What the driver makes other code do is recorded in order: calls of object destructors,
  of module initialisation and termination functions, of the native unloader, timer starts
  and stops, calls of the VMMR0 entry points, and semaphore operations (\<open>EvSemCall\<close> with a
  number for the operation and the semaphore).
\<close>

datatype sup_event =
    EvDestructor addr addr addr addr
  | EvModuleInit addr
  | EvModuleTerm addr
  | EvNativeUnload addr
  | EvTimerStart
  | EvTimerStop
  | EvTimerDestroy
  | EvVMMR0 addr addr nat
  | EvSemDestroy addr
  | EvSemCall nat addr

record supdrv =
  w_devext :: SUPDRVDEVEXT
  w_sess :: "addr \<rightharpoonup> SUPDRVSESSION"
  w_objs :: "addr \<rightharpoonup> SUPDRVOBJ"
  w_imgs :: "addr \<rightharpoonup> SUPDRVLDRIMAGE"
  w_memobjs :: "addr \<rightharpoonup> RTR0MEMOBJINTERNAL"
  w_factories :: "addr \<rightharpoonup> SUPDRVFACTORY"
  w_trace :: "sup_event list"

definition SUP_IS_SESSION_VALID :: "addr \<Rightarrow> SUPDRVSESSION \<Rightarrow> bool" where
  "SUP_IS_SESSION_VALID pSession s \<longleftrightarrow> RT_VALID_PTR pSession \<and> ses_u32Cookie s = BIRD_INV"

subsection \<open>State updates\<close>

definition set_sess :: "supdrv \<Rightarrow> addr \<Rightarrow> SUPDRVSESSION \<Rightarrow> supdrv" where
  "set_sess w p s = w\<lparr>w_sess := (w_sess w)(p \<mapsto> s)\<rparr>"

definition set_obj :: "supdrv \<Rightarrow> addr \<Rightarrow> SUPDRVOBJ \<Rightarrow> supdrv" where
  "set_obj w p ob = w\<lparr>w_objs := (w_objs w)(p \<mapsto> ob)\<rparr>"

definition set_dx :: "supdrv \<Rightarrow> (SUPDRVDEVEXT \<Rightarrow> SUPDRVDEVEXT) \<Rightarrow> supdrv" where
  "set_dx w f = w\<lparr>w_devext := f (w_devext w)\<rparr>"

definition set_img :: "supdrv \<Rightarrow> addr \<Rightarrow> SUPDRVLDRIMAGE \<Rightarrow> supdrv" where
  "set_img w p im = w\<lparr>w_imgs := (w_imgs w)(p \<mapsto> im)\<rparr>"

definition log_ev :: "supdrv \<Rightarrow> sup_event \<Rightarrow> supdrv" where
  "log_ev w e = w\<lparr>w_trace := w_trace w @ [e]\<rparr>"

named_theorems state_simps \<open>reading the driver's state after an update\<close>

lemma set_sess_sel [simp, state_simps]:
  "w_devext (set_sess w p s) = w_devext w" "w_sess (set_sess w p s) = (w_sess w)(p \<mapsto> s)"
  "w_objs (set_sess w p s) = w_objs w" "w_imgs (set_sess w p s) = w_imgs w"
  "w_memobjs (set_sess w p s) = w_memobjs w" "w_factories (set_sess w p s) = w_factories w"
  "w_trace (set_sess w p s) = w_trace w"
  by (simp_all add: set_sess_def)

lemma set_obj_sel [simp, state_simps]:
  "w_devext (set_obj w p b) = w_devext w" "w_sess (set_obj w p b) = w_sess w"
  "w_objs (set_obj w p b) = (w_objs w)(p \<mapsto> b)" "w_imgs (set_obj w p b) = w_imgs w"
  "w_memobjs (set_obj w p b) = w_memobjs w" "w_factories (set_obj w p b) = w_factories w"
  "w_trace (set_obj w p b) = w_trace w"
  by (simp_all add: set_obj_def)

lemma set_img_sel [simp, state_simps]:
  "w_devext (set_img w p b) = w_devext w" "w_sess (set_img w p b) = w_sess w"
  "w_objs (set_img w p b) = w_objs w" "w_imgs (set_img w p b) = (w_imgs w)(p \<mapsto> b)"
  "w_memobjs (set_img w p b) = w_memobjs w" "w_factories (set_img w p b) = w_factories w"
  "w_trace (set_img w p b) = w_trace w"
  by (simp_all add: set_img_def)

lemma set_dx_sel [simp, state_simps]:
  "w_devext (set_dx w f) = f (w_devext w)" "w_sess (set_dx w f) = w_sess w"
  "w_objs (set_dx w f) = w_objs w" "w_imgs (set_dx w f) = w_imgs w"
  "w_memobjs (set_dx w f) = w_memobjs w" "w_factories (set_dx w f) = w_factories w"
  "w_trace (set_dx w f) = w_trace w"
  by (simp_all add: set_dx_def)

lemma log_ev_sel [simp, state_simps]:
  "w_devext (log_ev w e) = w_devext w" "w_sess (log_ev w e) = w_sess w"
  "w_objs (log_ev w e) = w_objs w" "w_imgs (log_ev w e) = w_imgs w"
  "w_memobjs (log_ev w e) = w_memobjs w" "w_factories (log_ev w e) = w_factories w"
  "w_trace (log_ev w e) = w_trace w @ [e]"
  by (simp_all add: log_ev_def)

subsection \<open>Walking linked lists\<close>

text \<open>
  The first node of a list that satisfies a test, each node being read through its pointer:
  the outer \<open>None\<close> is a dangling pointer, the inner one the end of the list.
\<close>

primrec deref_find :: "(addr \<rightharpoonup> 'b) \<Rightarrow> ('b \<Rightarrow> bool) \<Rightarrow> addr list \<Rightarrow> (addr \<times> 'b) option option" where
  "deref_find h P [] = Some None"
| "deref_find h P (p # ps) =
     (case h p of
        None \<Rightarrow> None
      | Some b \<Rightarrow> if P b then Some (Some (p, b)) else deref_find h P ps)"

lemma deref_find_safe: "set ps \<subseteq> dom h \<Longrightarrow> deref_find h P ps \<noteq> None"
  by (induction ps) auto

lemma deref_find_Some:
  "deref_find h P ps = Some (Some (p, b)) \<Longrightarrow> p \<in> set ps \<and> h p = Some b \<and> P b"
  by (induction ps) (auto split: option.splits if_splits)

lemma deref_find_None:
  "deref_find h P ps = Some None \<Longrightarrow> p \<in> set ps \<Longrightarrow> \<exists>b. h p = Some b \<and> \<not> P b"
  by (induction ps) (auto split: option.splits if_splits)

lemma deref_find_unique:
  "set ps \<subseteq> dom h \<Longrightarrow> p \<in> set ps \<Longrightarrow> h p = Some b \<Longrightarrow> P b \<Longrightarrow>
   (\<And>q c. q \<in> set ps \<Longrightarrow> h q = Some c \<Longrightarrow> P c \<Longrightarrow> q = p) \<Longrightarrow> deref_find h P ps = Some (Some (p, b))"
proof (induction ps)
  case (Cons q ps)
  from Cons.prems(1) obtain c where c: "h q = Some c" by auto
  show ?case
  proof (cases "P c")
    case True
    then have "q = p" by (rule Cons.prems(5) [OF list.set_intros(1) c])
    then show ?thesis using Cons.prems(3,4) by simp
  next
    case False
    have "q \<noteq> p" using Cons.prems(3,4) c False by auto
    then have "p \<in> set ps" using Cons.prems(2) by simp
    moreover have "set ps \<subseteq> dom h" using Cons.prems(1) by simp
    moreover have "q' = p" if "q' \<in> set ps" "h q' = Some c'" "P c'" for q' c'
      by (rule Cons.prems(5) [OF _ that(2,3)]) (simp add: that(1))
    ultimately have "deref_find h P ps = Some (Some (p, b))"
      using Cons.IH Cons.prems(3,4) by blast
    then show ?thesis using c False by simp
  qed
qed simp

subsection \<open>Sums over sessions\<close>

definition sess_total :: "(SUPDRVSESSION \<Rightarrow> nat) \<Rightarrow> supdrv \<Rightarrow> nat" where
  "sess_total f w = (\<Sum>q\<in>dom (w_sess w). f (the (w_sess w q)))"

definition sess_other :: "(SUPDRVSESSION \<Rightarrow> nat) \<Rightarrow> supdrv \<Rightarrow> addr \<Rightarrow> nat" where
  "sess_other f w sp = (\<Sum>q\<in>dom (w_sess w) - {sp}. f (the (w_sess w q)))"

lemma sess_total_split:
  "finite (dom (w_sess w)) \<Longrightarrow> w_sess w sp = Some s \<Longrightarrow> sess_total f w = f s + sess_other f w sp"
  unfolding sess_total_def sess_other_def by (subst sum.remove [of _ sp]) auto

lemma sess_other_upd: "w_sess w' = (w_sess w)(sp := x) \<Longrightarrow> sess_other f w' sp = sess_other f w sp"
  unfolding sess_other_def by (rule sum.cong) auto

lemma sess_sums_cong:
  "w_sess w' = w_sess w \<Longrightarrow> sess_total f w' = sess_total f w"
  "w_sess w' = w_sess w \<Longrightarrow> sess_other f w' sp = sess_other f w sp"
  by (simp_all add: sess_total_def sess_other_def)

lemma sess_other_zeroD:
  assumes "finite (dom (w_sess w))" "sess_other f w sp = 0" "w_sess w q = Some t" "q \<noteq> sp"
  shows "f t = 0"
proof -
  have "q \<in> dom (w_sess w) - {sp}" using assms(3,4) by auto
  then have "f (the (w_sess w q)) = 0" using assms(1,2) by (simp add: sess_other_def)
  then show ?thesis using assms(3) by simp
qed

subsection \<open>C strings in byte buffers\<close>

text \<open>
  \<open>RTStrEnd\<close>: the offset of the first terminator among the first \<open>n\<close> bytes. The buffers the
  driver scans are at least that long, so the scan never leaves them.
\<close>

definition RTStrEnd :: "u8 list \<Rightarrow> nat \<Rightarrow> nat option" where
  "RTStrEnd s n =
     (let i = length (takeWhile (\<lambda>c. c \<noteq> 0) (take n s))
      in if i < length (take n s) then Some i else None)"

text \<open>The bytes of a terminated string, without the terminator.\<close>

definition cstr :: "u8 list \<Rightarrow> u8 list" where
  "cstr s = takeWhile (\<lambda>c. c \<noteq> 0) s"

lemma RTStrEnd_Some:
  assumes "RTStrEnd s n = Some i"
  shows "i < n" "i < length s" "s ! i = 0" "take i s = cstr s" "length (cstr s) = i"
proof -
  let ?t = "take n s"
  from assms have i: "i = length (takeWhile (\<lambda>c. c \<noteq> 0) ?t)" and lt: "i < length ?t"
    by (auto simp: RTStrEnd_def Let_def split: if_splits)
  show "i < n" "i < length s" using lt by auto
  show z: "s ! i = 0" using lt i nth_length_takeWhile [of "\<lambda>c. c \<noteq> 0" ?t] by simp
  have nz: "\<forall>j<i. s ! j \<noteq> 0"
  proof (intro allI impI)
    fix j assume "j < i"
    then have "takeWhile (\<lambda>c. c \<noteq> 0) ?t ! j \<in> set (takeWhile (\<lambda>c. c \<noteq> 0) ?t)"
      using i by auto
    then have "takeWhile (\<lambda>c. c \<noteq> 0) ?t ! j \<noteq> 0" by (auto dest: set_takeWhileD)
    then show "s ! j \<noteq> 0" using \<open>j < i\<close> i lt takeWhile_nth [of j "\<lambda>c. c \<noteq> 0" ?t] by simp
  qed
  show "take i s = cstr s"
    unfolding cstr_def by (rule sym, rule takeWhile_eq_take_P_nth) (use nz z in auto)
  then show "length (cstr s) = i" using lt by (metis length_take min.absorb4 min_less_iff_conj)
qed

subsection \<open>Concrete states\<close>

text \<open>A fresh session, an idle device extension and an empty driver, for evaluation.\<close>

definition sess0 :: SUPDRVSESSION where
  "sess0 = \<lparr>ses_u32Cookie = BIRD_INV, ses_pVM = 0, ses_hHandleTable = None, ses_pLdrUsage = [],
     ses_GipMapObjR3 = 0, ses_fGipReferenced = False, ses_Bundle = [], ses_pUsage = [], ses_Uid = 0,
     ses_Gid = 0, ses_Process = 1, ses_R0Process = 1\<rparr>"

definition dx0 :: SUPDRVDEVEXT where
  "dx0 = \<lparr>dx_pObjs = [], dx_pUsageFree = 0, dx_u32Cookie = BIRD, dx_cbSession = 0, dx_pvVMMR0 = 0,
     dx_pfnVMMR0EntryInt = 0, dx_pfnVMMR0EntryFast = 0, dx_pfnVMMR0EntryEx = 0, dx_pLdrImages = [],
     dx_pGip = None, dx_fGipPublished = False, dx_HCPhysGip = 0, dx_cGipUsers = 0, dx_GipMemObj = 0, dx_fGipTimer = False,
     dx_u32SystemTimerGranularityGrant = 0, dx_idGipMaster = 0, dx_pComponentFactoryHead = []\<rparr>"

definition supdrv0 :: supdrv where
  "supdrv0 = \<lparr>w_devext = dx0, w_sess = Map.empty, w_objs = Map.empty, w_imgs = Map.empty,
     w_memobjs = Map.empty, w_factories = Map.empty, w_trace = []\<rparr>"

end
