(* ===== verification/SupObj.thy ===== *)
theory SupObj
  imports SupState SupIface
begin

text \<open>
  Reference counted objects (SUPDrv.c: \<open>SUPR0ObjRegister\<close>, \<open>SUPR0ObjAddRef\<close>,
  \<open>SUPR0ObjAddRefEx\<close>, \<open>SUPR0ObjRelease\<close>, \<open>SUPR0ObjVerifyAccess\<close>, and the object part of
  \<open>supdrvCleanupSession\<close>). An object carries the sum of all references; each session has a
  usage record per object it references. The invariant \<open>obj_inv\<close> says that the sum is right,
  that no usage record points to freed memory, and that every object is referenced; all
  operations keep it and are memory safe under it.
\<close>

named_theorems obj_defs \<open>definitions of the object operations\<close>

subsection \<open>Operations\<close>

abbreviation uses :: "addr \<Rightarrow> SUPDRVUSAGE \<Rightarrow> bool" where
  "uses p u \<equiv> usg_pObj u = p"

definition obj_new :: "SUPDRVSESSION \<Rightarrow> nat \<Rightarrow> addr \<Rightarrow> addr \<Rightarrow> addr \<Rightarrow> SUPDRVOBJ" where
  "obj_new s enmType pfnDestructor pvUser1 pvUser2 =
     \<lparr>obj_u32Magic = SUPDRVOBJ_MAGIC, obj_enmType = enmType, obj_pfnDestructor = pfnDestructor,
      obj_pvUser1 = pvUser1, obj_pvUser2 = pvUser2, obj_cUsage = 1, obj_CreatorUid = ses_Uid s,
      obj_CreatorGid = ses_Gid s, obj_CreatorProcess = ses_Process s\<rparr>"

text \<open>
  \<open>pNew\<close> is what the allocation of the object returns (0 is NULL), \<open>fMem\<close> says whether a
  usage record can be allocated. The Linux \<open>supdrvOSObjInitCreator\<close> does nothing.
\<close>

definition SUPR0ObjRegister ::
  "supdrv \<Rightarrow> addr \<Rightarrow> nat \<Rightarrow> addr \<Rightarrow> addr \<Rightarrow> addr \<Rightarrow> addr \<Rightarrow> bool \<Rightarrow> (addr \<times> supdrv) option" where
  [obj_defs]: "SUPR0ObjRegister w pSession enmType pfnDestructor pvUser1 pvUser2 pNew fMem =
     (case w_sess w pSession of
        None \<Rightarrow> None
      | Some s \<Rightarrow>
          if \<not> SUP_IS_SESSION_VALID pSession s then Some (0, w)
          else if \<not> (SUPDRVOBJTYPE_INVALID < enmType \<and> enmType < SUPDRVOBJTYPE_END) then Some (0, w)
          else if \<not> RT_VALID_PTR pfnDestructor then Some (0, w)
          else if pNew = 0 then Some (0, w)
          else if dx_pUsageFree (w_devext w) = 0 \<and> \<not> fMem then Some (0, w)
          else
            let pObj = obj_new s enmType pfnDestructor pvUser1 pvUser2;
                pUsage = \<lparr>usg_pObj = pNew, usg_cUsage = 1\<rparr>
            in Some (pNew,
                 set_sess
                   (set_obj
                     (set_dx w (\<lambda>d. d\<lparr>dx_pUsageFree := dx_pUsageFree d - 1,
                                       dx_pObjs := pNew # dx_pObjs d\<rparr>))
                     pNew pObj)
                   pSession (s\<lparr>ses_pUsage := pUsage # ses_pUsage s\<rparr>)))"

text \<open>
  The second half of \<open>SUPR0ObjAddRefEx\<close>, under the spinlock: count the reference, find the
  session's record or use the preallocated one, put an unused one on the free list.
\<close>

definition obj_reference :: "supdrv \<Rightarrow> addr \<Rightarrow> addr \<Rightarrow> bool \<Rightarrow> (status \<times> supdrv) option" where
  [obj_defs]: "obj_reference w pObj pSession fPre =
     (case (w_objs w pObj, w_sess w pSession) of
        (Some ob, Some s) \<Rightarrow>
          let w1 = set_obj w pObj (ob\<lparr>obj_cUsage := obj_cUsage ob + 1\<rparr>);
              pre_back = (\<lambda>w. if fPre then set_dx w (\<lambda>d. d\<lparr>dx_pUsageFree := dx_pUsageFree d + 1\<rparr>) else w)
          in if find (uses pObj) (ses_pUsage s) \<noteq> None then
               Some (VINF_SUCCESS, pre_back (set_sess w1 pSession (s\<lparr>ses_pUsage :=
                 update_first (uses pObj) (\<lambda>u. u\<lparr>usg_cUsage := usg_cUsage u + 1\<rparr>) (ses_pUsage s)\<rparr>)))
             else if fPre then
               Some (VINF_SUCCESS, set_sess w1 pSession (s\<lparr>ses_pUsage :=
                 \<lparr>usg_pObj = pObj, usg_cUsage = 1\<rparr> # ses_pUsage s\<rparr>))
             else
               Some (VERR_TRY_AGAIN, set_obj w1 pObj (ob\<lparr>obj_cUsage := obj_cUsage ob + 1 - 1\<rparr>))
      | _ \<Rightarrow> None)"

text \<open>
  When there is no free usage record and blocking is allowed, the spinlock is dropped around
  the allocation and the magic is checked again. \<open>env\<close> is what other threads do meanwhile;
  it is the identity when nobody interferes.
\<close>

definition SUPR0ObjAddRefEx ::
  "(supdrv \<Rightarrow> supdrv) \<Rightarrow> supdrv \<Rightarrow> addr \<Rightarrow> addr \<Rightarrow> bool \<Rightarrow> bool \<Rightarrow> (status \<times> supdrv) option" where
  [obj_defs]: "SUPR0ObjAddRefEx env w pvObj pSession fNoBlocking fMem =
     (case w_sess w pSession of
        None \<Rightarrow> None
      | Some s \<Rightarrow>
          if \<not> SUP_IS_SESSION_VALID pSession s then Some (VERR_INVALID_PARAMETER, w)
          else if \<not> RT_VALID_PTR pvObj then Some (VERR_INVALID_POINTER, w)
          else (case w_objs w pvObj of
              None \<Rightarrow> None
            | Some ob \<Rightarrow>
                if obj_u32Magic ob \<noteq> SUPDRVOBJ_MAGIC \<and> obj_u32Magic ob \<noteq> SUPDRVOBJ_MAGIC_DEAD
                then Some (VERR_INVALID_PARAMETER, w)
                else if obj_u32Magic ob \<noteq> SUPDRVOBJ_MAGIC then Some (VERR_WRONG_ORDER, w)
                else if 0 < dx_pUsageFree (w_devext w) then
                  obj_reference (set_dx w (\<lambda>d. d\<lparr>dx_pUsageFree := dx_pUsageFree d - 1\<rparr>)) pvObj pSession True
                else if fNoBlocking then obj_reference w pvObj pSession False
                else if \<not> fMem then Some (VERR_NO_MEMORY, w)
                else (case w_objs (env w) pvObj of
                    None \<Rightarrow> None
                  | Some ob' \<Rightarrow>
                      if obj_u32Magic ob' \<noteq> SUPDRVOBJ_MAGIC then Some (VERR_WRONG_ORDER, env w)
                      else obj_reference (env w) pvObj pSession True)))"

definition SUPR0ObjAddRef ::
  "(supdrv \<Rightarrow> supdrv) \<Rightarrow> supdrv \<Rightarrow> addr \<Rightarrow> addr \<Rightarrow> bool \<Rightarrow> (status \<times> supdrv) option" where
  [obj_defs]: "SUPR0ObjAddRef env w pvObj pSession fMem = SUPR0ObjAddRefEx env w pvObj pSession False fMem"

text \<open>Unlinking a dead object, calling its destructor and freeing it.\<close>

definition obj_destroy :: "supdrv \<Rightarrow> addr \<Rightarrow> SUPDRVOBJ \<Rightarrow> supdrv" where
  [obj_defs]: "obj_destroy w pObj ob =
     (let w1 = set_dx w (\<lambda>d. d\<lparr>dx_pObjs := remove1 pObj (dx_pObjs d)\<rparr>);
          w2 = (if obj_pfnDestructor ob \<noteq> 0
                then log_ev w1 (EvDestructor (obj_pfnDestructor ob) pObj (obj_pvUser1 ob) (obj_pvUser2 ob))
                else w1)
      in w2\<lparr>w_objs := (w_objs w2)(pObj := None)\<rparr>)"

definition SUPR0ObjRelease :: "supdrv \<Rightarrow> addr \<Rightarrow> addr \<Rightarrow> (status \<times> supdrv) option" where
  [obj_defs]: "SUPR0ObjRelease w pvObj pSession =
     (case w_sess w pSession of
        None \<Rightarrow> None
      | Some s \<Rightarrow>
          if \<not> SUP_IS_SESSION_VALID pSession s then Some (VERR_INVALID_PARAMETER, w)
          else if \<not> RT_VALID_PTR pvObj then Some (VERR_INVALID_PARAMETER, w)
          else (case w_objs w pvObj of
              None \<Rightarrow> None
            | Some ob \<Rightarrow>
                if obj_u32Magic ob \<noteq> SUPDRVOBJ_MAGIC then Some (VERR_INVALID_PARAMETER, w)
                else (case find (uses pvObj) (ses_pUsage s) of
                    None \<Rightarrow> Some (VERR_INVALID_PARAMETER, w)
                  | Some u \<Rightarrow>
                      if 1 < usg_cUsage u then
                        Some (VINF_SUCCESS,
                          set_sess (set_obj w pvObj (ob\<lparr>obj_cUsage := obj_cUsage ob - 1\<rparr>)) pSession
                            (s\<lparr>ses_pUsage := update_first (uses pvObj)
                                 (\<lambda>u. u\<lparr>usg_cUsage := usg_cUsage u - 1\<rparr>) (ses_pUsage s)\<rparr>))
                      else
                        let w1 = set_dx (set_sess w pSession
                                   (s\<lparr>ses_pUsage := remove_first (uses pvObj) (ses_pUsage s)\<rparr>))
                                   (\<lambda>d. d\<lparr>dx_pUsageFree := dx_pUsageFree d + 1\<rparr>)
                        in if 1 < obj_cUsage ob then
                             Some (VINF_SUCCESS, set_obj w1 pvObj (ob\<lparr>obj_cUsage := obj_cUsage ob - 1\<rparr>))
                           else Some (VINF_OBJECT_DESTROYED, obj_destroy w1 pvObj ob))))"

text \<open>The Linux \<open>supdrvOSObjCanAccess\<close> leaves every decision to the default policy.\<close>

definition supdrvOSObjCanAccess :: "SUPDRVOBJ \<Rightarrow> SUPDRVSESSION \<Rightarrow> status \<Rightarrow> bool \<times> status" where
  [obj_defs]: "supdrvOSObjCanAccess ob s rc = (False, rc)"

definition SUPR0ObjVerifyAccess :: "supdrv \<Rightarrow> addr \<Rightarrow> addr \<Rightarrow> status option" where
  [obj_defs]: "SUPR0ObjVerifyAccess w pvObj pSession =
     (case w_sess w pSession of
        None \<Rightarrow> None
      | Some s \<Rightarrow>
          if \<not> SUP_IS_SESSION_VALID pSession s then Some VERR_INVALID_PARAMETER
          else if \<not> RT_VALID_PTR pvObj then Some VERR_INVALID_PARAMETER
          else (case w_objs w pvObj of
              None \<Rightarrow> None
            | Some ob \<Rightarrow>
                if obj_u32Magic ob \<noteq> SUPDRVOBJ_MAGIC then Some VERR_INVALID_PARAMETER
                else (case supdrvOSObjCanAccess ob s VERR_INTERNAL_ERROR of
                    (True, rc) \<Rightarrow> Some rc
                  | (False, _) \<Rightarrow>
                      if obj_CreatorUid ob = ses_Uid s then Some VINF_SUCCESS
                      else Some VERR_PERMISSION_DENIED)))"

text \<open>
  The loop of \<open>supdrvCleanupSession\<close> that drops the session's references. A usage record is
  unlinked first; the object loses the record's count, or is unlinked and destroyed.
\<close>

primrec cleanup_objs :: "supdrv \<Rightarrow> addr \<Rightarrow> SUPDRVSESSION \<Rightarrow> SUPDRVUSAGE list \<Rightarrow> supdrv option" where
  "cleanup_objs w pSession s [] = Some w"
| "cleanup_objs w pSession s (u # us) =
     (let w1 = set_sess w pSession (s\<lparr>ses_pUsage := us\<rparr>)
      in case w_objs w (usg_pObj u) of
           None \<Rightarrow> None
         | Some ob \<Rightarrow>
             if usg_cUsage u < obj_cUsage ob then
               cleanup_objs (set_obj w1 (usg_pObj u) (ob\<lparr>obj_cUsage := obj_cUsage ob - usg_cUsage u\<rparr>))
                 pSession s us
             else cleanup_objs (obj_destroy w1 (usg_pObj u) ob) pSession s us)"

subsection \<open>Counting references\<close>

abbreviation refs_in :: "SUPDRVUSAGE list \<Rightarrow> addr \<Rightarrow> nat" where
  "refs_in \<equiv> key_count usg_pObj (\<lambda>u. unat (usg_cUsage u))"

definition sess_refs :: "SUPDRVSESSION \<Rightarrow> addr \<Rightarrow> nat" where
  "sess_refs s p = refs_in (ses_pUsage s) p"

definition other_refs :: "supdrv \<Rightarrow> addr \<Rightarrow> addr \<Rightarrow> nat" where
  "other_refs w sp p = sess_other (\<lambda>s. sess_refs s p) w sp"

definition total_refs :: "supdrv \<Rightarrow> addr \<Rightarrow> nat" where
  "total_refs w p = sess_total (\<lambda>s. sess_refs s p) w"

definition usage_ok :: "(addr \<rightharpoonup> SUPDRVOBJ) \<Rightarrow> SUPDRVSESSION \<Rightarrow> bool" where
  "usage_ok h s \<longleftrightarrow>
     distinct (map usg_pObj (ses_pUsage s)) \<and>
     (\<forall>u\<in>set (ses_pUsage s). usg_pObj u \<in> dom h \<and> 0 < unat (usg_cUsage u))"

definition obj_ok :: "supdrv \<Rightarrow> addr \<Rightarrow> SUPDRVOBJ \<Rightarrow> bool" where
  "obj_ok w p ob \<longleftrightarrow>
     obj_u32Magic ob = SUPDRVOBJ_MAGIC \<and> RT_VALID_PTR p \<and>
     unat (obj_cUsage ob) = total_refs w p \<and> 0 < total_refs w p"

definition obj_inv :: "supdrv \<Rightarrow> bool" where
  "obj_inv w \<longleftrightarrow>
     finite (dom (w_sess w)) \<and> distinct (dx_pObjs (w_devext w)) \<and>
     set (dx_pObjs (w_devext w)) = dom (w_objs w) \<and>
     (\<forall>p ob. w_objs w p = Some ob \<longrightarrow> obj_ok w p ob) \<and>
     (\<forall>p s. w_sess w p = Some s \<longrightarrow> usage_ok (w_objs w) s)"

lemma total_split:
  "finite (dom (w_sess w)) \<Longrightarrow> w_sess w sp = Some s \<Longrightarrow>
   total_refs w p = sess_refs s p + other_refs w sp p"
  unfolding total_refs_def other_refs_def by (rule sess_total_split)

lemma other_refs_set_sess [simp]: "other_refs (set_sess w sp s) sp p = other_refs w sp p"
  unfolding other_refs_def sess_other_def by (rule sum.cong) auto

lemma other_refs_cong: "w_sess w' = w_sess w \<Longrightarrow> other_refs w' sp p = other_refs w sp p"
  by (simp add: other_refs_def sess_other_def)

lemma total_refs_cong: "w_sess w' = w_sess w \<Longrightarrow> total_refs w' p = total_refs w p"
  by (simp add: total_refs_def sess_total_def)

lemma refs_frame [simp]:
  "total_refs (set_obj w q b) p = total_refs w p" "total_refs (set_dx w f) p = total_refs w p"
  "total_refs (log_ev w e) p = total_refs w p" "total_refs (w\<lparr>w_objs := h\<rparr>) p = total_refs w p"
  "other_refs (set_obj w q b) sp p = other_refs w sp p" "other_refs (set_dx w f) sp p = other_refs w sp p"
  "other_refs (log_ev w e) sp p = other_refs w sp p" "other_refs (w\<lparr>w_objs := h\<rparr>) sp p = other_refs w sp p"
  by (simp_all add: total_refs_def sess_total_def other_refs_def sess_other_def)

lemma total_set_sess:
  "finite (dom (w_sess w)) \<Longrightarrow>
   total_refs (set_sess w sp s) p = sess_refs s p + other_refs w sp p"
  using total_split [of "set_sess w sp s" sp s p] by simp

lemmas refs_in_zero = key_count_zero [where key = usg_pObj and cnt = "\<lambda>u. unat (usg_cUsage u)"]
  and refs_in_zeroD = key_count_zeroD [where key = usg_pObj and cnt = "\<lambda>u. unat (usg_cUsage u)"]
  and refs_in_split = key_count_split [where key = usg_pObj and cnt = "\<lambda>u. unat (usg_cUsage u)"]
  and refs_in_find = key_count_find [where key = usg_pObj and cnt = "\<lambda>u. unat (usg_cUsage u)"]
  and refs_in_update = key_count_update [where key = usg_pObj and cnt = "\<lambda>u. unat (usg_cUsage u)"]
  and refs_in_remove = key_count_remove [where key = usg_pObj and cnt = "\<lambda>u. unat (usg_cUsage u)"]

lemma sess_refs_upd [simp]: "sess_refs (s\<lparr>ses_pUsage := us\<rparr>) p = refs_in us p"
  by (simp add: sess_refs_def)

lemma ses_pUsage_id [simp]: "s\<lparr>ses_pUsage := ses_pUsage s\<rparr> = s"
  by simp

subsection \<open>The invariant is kept\<close>

lemma other_refs_zeroD:
  "finite (dom (w_sess w)) \<Longrightarrow> other_refs w sp p = 0 \<Longrightarrow> w_sess w q = Some t \<Longrightarrow> q \<noteq> sp \<Longrightarrow> sess_refs t p = 0"
  unfolding other_refs_def by (rule sess_other_zeroD)

lemma usage_ok_no_refs:
  "usage_ok h t \<Longrightarrow> sess_refs t p = 0 \<Longrightarrow> \<forall>u\<in>set (ses_pUsage t). usg_pObj u \<noteq> p"
  using refs_in_zeroD [of "ses_pUsage t" p] by (auto simp: usage_ok_def sess_refs_def)

lemma usage_ok_upd:
  "usage_ok h t \<Longrightarrow> (v = None \<Longrightarrow> sess_refs t p = 0) \<Longrightarrow> usage_ok (h(p := v)) t"
  using usage_ok_no_refs [of h t p] by (auto simp: usage_ok_def)

lemma usage_ok_update:
  assumes "usage_ok h s" "find (uses p) (ses_pUsage s) = Some u" "\<And>v. usg_pObj (f v) = usg_pObj v"
    "0 < unat (usg_cUsage (f u))" "dom h' = dom h"
  shows "usage_ok h' (s\<lparr>ses_pUsage := update_first (uses p) f (ses_pUsage s)\<rparr>)"
proof -
  obtain ys zs where sp: "ses_pUsage s = ys @ u # zs" "update_first (uses p) f (ses_pUsage s) = ys @ f u # zs"
    using update_first_split [OF assms(2)] by blast
  have ih: "usage_ok h s" "usg_pObj (f u) = usg_pObj u" using assms by auto
  show ?thesis using ih assms(4,5) unfolding usage_ok_def
    by (simp add: sp(2)) (simp add: sp(1))
qed

text \<open>
  The one preservation lemma all operations use: session \<open>sp\<close> changes its references to \<open>p\<close>
  only, and the heap block at \<open>p\<close> is changed accordingly (\<open>None\<close>: freed).
\<close>

lemma obj_inv_step:
  assumes inv: "obj_inv w" and s: "w_sess w sp = Some s"
    and sess: "w_sess w' = (w_sess w)(sp \<mapsto> s')" and objs: "w_objs w' = (w_objs w)(p := v)"
    and list: "distinct (dx_pObjs (w_devext w'))" "set (dx_pObjs (w_devext w')) = dom (w_objs w')"
    and refs: "\<And>q. q \<noteq> p \<Longrightarrow> sess_refs s' q = sess_refs s q"
    and us: "usage_ok (w_objs w') s'"
    and dead: "v = None \<Longrightarrow> sess_refs s' p = 0 \<and> other_refs w sp p = 0"
    and live: "\<And>ob. v = Some ob \<Longrightarrow> obj_u32Magic ob = SUPDRVOBJ_MAGIC \<and> RT_VALID_PTR p \<and>
                unat (obj_cUsage ob) = sess_refs s' p + other_refs w sp p \<and> 0 < unat (obj_cUsage ob)"
  shows "obj_inv w'"
proof -
  have fin: "finite (dom (w_sess w))" and fin': "finite (dom (w_sess w'))"
    using inv sess by (auto simp: obj_inv_def)
  have oth: "other_refs w' sp q = other_refs w sp q" for q
    unfolding other_refs_def sess_other_def by (rule sum.cong) (auto simp: sess)
  have tot': "total_refs w' q = sess_refs s' q + other_refs w sp q" for q
    using total_split [OF fin', of sp s'] sess oth by simp
  have tot: "total_refs w q = sess_refs s q + other_refs w sp q" for q
    by (rule total_split [OF fin s])
  have ok: "obj_ok w' q ob" if "w_objs w' q = Some ob" for q ob
  proof (cases "q = p")
    case True
    then show ?thesis using live [of ob] that by (simp add: obj_ok_def tot' objs del: add_gr_0)
  next
    case False
    then have "obj_ok w q ob" using that inv by (auto simp: objs obj_inv_def)
    then show ?thesis using refs [OF False] by (simp add: obj_ok_def tot tot')
  qed
  have "usage_ok (w_objs w') t" if "w_sess w' q = Some t" for q t
  proof (cases "q = sp")
    case True
    then show ?thesis using us that sess by simp
  next
    case False
    then have t: "w_sess w q = Some t" using that sess by simp
    then have "usage_ok (w_objs w) t" using inv by (auto simp: obj_inv_def)
    then show ?thesis unfolding objs
      by (rule usage_ok_upd) (use dead other_refs_zeroD [OF fin _ t False] in auto)
  qed
  with ok list fin' show ?thesis by (simp add: obj_inv_def)
qed

lemma obj_invD:
  assumes "obj_inv w" "w_sess w sp = Some s"
  shows "finite (dom (w_sess w))" "usage_ok (w_objs w) s" "distinct (map usg_pObj (ses_pUsage s))"
    "total_refs w p = sess_refs s p + other_refs w sp p"
    "w_objs w p = Some ob \<Longrightarrow> obj_ok w p ob"
    "find (uses p) (ses_pUsage s) = Some u \<Longrightarrow>
       w_objs w p \<noteq> None \<and> sess_refs s p = unat (usg_cUsage u) \<and> 0 < unat (usg_cUsage u)"
    "find (uses p) (ses_pUsage s) = None \<Longrightarrow> sess_refs s p = 0"
proof -
  show fin: "finite (dom (w_sess w))" and ok: "usage_ok (w_objs w) s"
    using assms by (auto simp: obj_inv_def)
  then show d: "distinct (map usg_pObj (ses_pUsage s))" by (simp add: usage_ok_def)
  show "total_refs w p = sess_refs s p + other_refs w sp p" by (rule total_split [OF fin assms(2)])
  show "w_objs w p = Some ob \<Longrightarrow> obj_ok w p ob" using assms by (auto simp: obj_inv_def)
  show "w_objs w p \<noteq> None \<and> sess_refs s p = unat (usg_cUsage u) \<and> 0 < unat (usg_cUsage u)"
    if f: "find (uses p) (ses_pUsage s) = Some u"
    using find_SomeD [OF f] ok refs_in_find [OF d f] by (auto simp: usage_ok_def sess_refs_def)
  show "find (uses p) (ses_pUsage s) = None \<Longrightarrow> sess_refs s p = 0"
    unfolding sess_refs_def by (rule refs_in_zero) (simp add: find_None_iff_set)
qed

lemma obj_list:
  assumes "obj_inv w"
  shows "distinct (dx_pObjs (w_devext w))" "set (dx_pObjs (w_devext w)) = dom (w_objs w)"
  using assms by (auto simp: obj_inv_def)

lemma no_refs_unallocated:
  assumes "obj_inv w" "w_objs w p = None"
  shows "total_refs w p = 0" "other_refs w sp p = 0" "w_sess w sp = Some s \<Longrightarrow> sess_refs s p = 0"
proof -
  have z: "sess_refs s p = 0" if "w_sess w q = Some s" for q s
  proof -
    have "usage_ok (w_objs w) s" using assms(1) that by (auto simp: obj_inv_def)
    then have "\<forall>u\<in>set (ses_pUsage s). usg_pObj u \<noteq> p" using assms(2) by (auto simp: usage_ok_def)
    then show ?thesis by (simp add: sess_refs_def refs_in_zero)
  qed
  then show "total_refs w p = 0" "other_refs w sp p = 0"
    by (auto simp: total_refs_def sess_total_def other_refs_def sess_other_def)
  show "w_sess w sp = Some s \<Longrightarrow> sess_refs s p = 0" by (rule z)
qed

lemma obj_inv_frame:
  assumes "w_sess w' = w_sess w" "w_objs w' = w_objs w" "dx_pObjs (w_devext w') = dx_pObjs (w_devext w)"
  shows "obj_inv w' = obj_inv w"
  using total_refs_cong [OF assms(1)] by (simp add: obj_inv_def obj_ok_def assms)

text \<open>The invariant only looks at the sessions' usage records.\<close>

lemma obj_inv_usages:
  assumes u: "\<And>sp. map_option ses_pUsage (w_sess w' sp) = map_option ses_pUsage (w_sess w sp)"
    and o: "w_objs w' = w_objs w" and l: "dx_pObjs (w_devext w') = dx_pObjs (w_devext w)"
  shows "obj_inv w' = obj_inv w"
proof -
  have n: "w_sess w' sp = None \<longleftrightarrow> w_sess w sp = None" for sp
    using u [of sp] by (metis option.map_disc_iff)
  then have d: "dom (w_sess w') = dom (w_sess w)" by (auto simp: dom_def)
  have the: "ses_pUsage (the (w_sess w' sp)) = ses_pUsage (the (w_sess w sp))" if "sp \<in> dom (w_sess w)" for sp
    using u [of sp] n [of sp] that by auto
  have t: "total_refs w' p = total_refs w p" for p
    unfolding total_refs_def sess_total_def d
    by (rule sum.cong [OF refl]) (simp add: sess_refs_def the)
  have "(\<forall>sp s. w_sess w' sp = Some s \<longrightarrow> usage_ok (w_objs w) s) = (\<forall>sp s. w_sess w sp = Some s \<longrightarrow> usage_ok (w_objs w) s)"
  proof -
    have "(\<forall>s. w_sess w' sp = Some s \<longrightarrow> usage_ok (w_objs w) s) = (\<forall>s. w_sess w sp = Some s \<longrightarrow> usage_ok (w_objs w) s)" for sp
      using u [of sp] by (cases "w_sess w sp"; cases "w_sess w' sp") (simp_all add: usage_ok_def)
    then show ?thesis by blast
  qed
  then show ?thesis using t d by (simp add: obj_inv_def obj_ok_def o l)
qed

lemma obj_inv_set_sess:
  "obj_inv w \<Longrightarrow> w_sess w sp = Some t \<Longrightarrow> ses_pUsage t' = ses_pUsage t \<Longrightarrow> obj_inv (set_sess w sp t')"
  using obj_inv_usages [of "set_sess w sp t'" w] by simp

definition obj_refs :: "supdrv \<Rightarrow> addr \<Rightarrow> addr \<Rightarrow> nat" where
  "obj_refs w sp p = (case w_sess w sp of None \<Rightarrow> 0 | Some s \<Rightarrow> sess_refs s p)"

lemma obj_refs_same: "w_sess w sp = Some s \<Longrightarrow> obj_refs w sp y = sess_refs s y"
  by (simp add: obj_refs_def)

lemma obj_refs_upd:
  "w_sess w' = (w_sess w)(sp \<mapsto> s') \<Longrightarrow>
   obj_refs w' k y = (if k = sp then sess_refs s' y else obj_refs w k y)"
  by (simp add: obj_refs_def)

lemma SUPR0ObjRegister_ok:
  assumes inv: "obj_inv w" and fresh: "pNew = 0 \<or> (RT_VALID_PTR pNew \<and> w_objs w pNew = None)"
    and r: "SUPR0ObjRegister w sp ty d u1 u2 pNew fMem = Some (p, w')"
  shows "obj_inv w'"
    and "p \<noteq> 0 \<Longrightarrow> p = pNew \<and> obj_refs w' k y = obj_refs w k y + of_bool (k = sp \<and> y = p)"
    and "p = 0 \<Longrightarrow> w' = w"
proof -
  have "obj_inv w' \<and> (p \<noteq> 0 \<longrightarrow> p = pNew \<and> obj_refs w' k y = obj_refs w k y + of_bool (k = sp \<and> y = p)) \<and>
        (p = 0 \<longrightarrow> w' = w)"
  proof (cases "p = 0")
    case True
    then show ?thesis using r inv
      by (auto simp: SUPR0ObjRegister_def Let_def split: option.splits if_splits)
  next
    case False
    from r False obtain s where s: "w_sess w sp = Some s" and p: "p = pNew"
      and w': "w' = set_sess (set_obj (set_dx w (\<lambda>d. d\<lparr>dx_pUsageFree := dx_pUsageFree d - 1,
                   dx_pObjs := pNew # dx_pObjs d\<rparr>)) pNew (obj_new s ty d u1 u2)) sp
                 (s\<lparr>ses_pUsage := \<lparr>usg_pObj = pNew, usg_cUsage = 1\<rparr> # ses_pUsage s\<rparr>)"
      by (auto simp: SUPR0ObjRegister_def Let_def split: option.splits if_splits)
    have n: "w_objs w pNew = None" and v: "RT_VALID_PTR pNew" using fresh False p by auto
    note z = no_refs_unallocated [OF inv n]
    have uok: "usage_ok (w_objs w) s" by (rule obj_invD(2) [OF inv s])
    have "obj_inv w'"
      by (rule obj_inv_step [OF inv s, where p = pNew and v = "Some (obj_new s ty d u1 u2)"
             and s' = "s\<lparr>ses_pUsage := \<lparr>usg_pObj = pNew, usg_cUsage = 1\<rparr> # ses_pUsage s\<rparr>"])
        (use z(2) z(3) [OF s] n v obj_list [OF inv] uok in
          \<open>auto simp: w' sess_refs_def usage_ok_def obj_new_def\<close>)
    moreover have "obj_refs w' k y = obj_refs w k y + of_bool (k = sp \<and> y = p)"
      by (simp add: w' obj_refs_def s p sess_refs_def)
    ultimately show ?thesis using p False by simp
  qed
  then show "obj_inv w'"
    and "p \<noteq> 0 \<Longrightarrow> p = pNew \<and> obj_refs w' k y = obj_refs w k y + of_bool (k = sp \<and> y = p)"
    and "p = 0 \<Longrightarrow> w' = w" by auto
qed

text \<open>The counter of an object is a 32-bit word that no operation checks for overflow.\<close>

definition obj_room :: "supdrv \<Rightarrow> addr \<Rightarrow> bool" where
  "obj_room w p \<longleftrightarrow> total_refs w p + 1 < 2 ^ 32"

lemma obj_reference_ok:
  assumes inv: "obj_inv w" and s: "w_sess w sp = Some s" and ob: "w_objs w p = Some ob"
    and room: "obj_room w p"
  obtains w' where "obj_reference w p sp fPre =
      Some (if fPre \<or> find (uses p) (ses_pUsage s) \<noteq> None then VINF_SUCCESS else VERR_TRY_AGAIN, w')"
    "obj_inv w'" "\<not> fPre \<and> find (uses p) (ses_pUsage s) = None \<Longrightarrow> w' = w"
    "fPre \<or> find (uses p) (ses_pUsage s) \<noteq> None \<Longrightarrow>
       \<forall>k y. obj_refs w' k y = obj_refs w k y + of_bool (k = sp \<and> y = p)"
proof -
  let ?f = "\<lambda>u. u\<lparr>usg_cUsage := usg_cUsage u + 1\<rparr>"
  note D = obj_invD [OF inv s]
  have ok: "obj_ok w p ob" by (rule D(5) [OF ob])
  have tot: "unat (obj_cUsage ob) = sess_refs s p + other_refs w sp p"
    and lt: "sess_refs s p + other_refs w sp p + 1 < 2 ^ 32"
    using ok D(4) [of p] room by (auto simp: obj_ok_def obj_room_def)
  have inc: "unat (obj_cUsage ob + 1) = unat (obj_cUsage ob) + 1"
    by (rule unat_inc) (use tot lt in simp)
  show thesis
  proof (cases "find (uses p) (ses_pUsage s)")
    case (Some u)
    let ?us = "update_first (uses p) ?f (ses_pUsage s)"
    have u: "sess_refs s p = unat (usg_cUsage u)" "0 < unat (usg_cUsage u)" "usg_pObj u = p"
      using D(6) [OF Some] find_SomeD [OF Some] by auto
    have incu: "unat (usg_cUsage u + 1) = unat (usg_cUsage u) + 1"
      by (rule unat_inc) (use u lt in simp)
    have r: "refs_in ?us y = (if p = y then sess_refs s p + 1 else sess_refs s y)" for y
      using refs_in_update [OF D(3) Some, of ?f y] u incu by (cases "p = y") (auto simp: sess_refs_def)
    define w' where "w' = snd (the (obj_reference w p sp fPre))"
    have w': "obj_reference w p sp fPre = Some (VINF_SUCCESS, w')"
      and e: "w_sess w' = (w_sess w)(sp \<mapsto> s\<lparr>ses_pUsage := ?us\<rparr>)"
        "w_objs w' = (w_objs w)(p \<mapsto> ob\<lparr>obj_cUsage := obj_cUsage ob + 1\<rparr>)"
        "dx_pObjs (w_devext w') = dx_pObjs (w_devext w)"
          using Some s ob by (simp_all add: w'_def obj_reference_def Let_def)
    have uok: "usage_ok (w_objs w') (s\<lparr>ses_pUsage := ?us\<rparr>)"
      by (rule usage_ok_update [OF D(2) Some]) (use e(2) ob u in \<open>auto simp: incu\<close>)
    have "obj_inv w'"
      by (rule obj_inv_step [OF inv s e(1,2)])
        (use obj_list [OF inv] ob uok r ok tot inc in \<open>auto simp: e obj_ok_def\<close>)
    moreover have "\<forall>k y. obj_refs w' k y = obj_refs w k y + of_bool (k = sp \<and> y = p)"
      using r by (auto simp: obj_refs_upd [OF e(1)] obj_refs_same [OF s])
    ultimately show thesis using that w' Some by simp
  next
    case None
    have z: "sess_refs s p = 0" by (rule D(7) [OF None])
    show thesis
    proof (cases fPre)
      case False
      have "w\<lparr>w_objs := (w_objs w)(p \<mapsto> ob)\<rparr> = w" using ob by (simp add: fun_upd_idem)
      then have "obj_reference w p sp fPre = Some (VERR_TRY_AGAIN, w)"
        using None s ob False by (simp add: obj_reference_def set_obj_def)
      with that [of w] False None inv show thesis by simp
    next
      case True
      let ?us = "\<lparr>usg_pObj = p, usg_cUsage = 1\<rparr> # ses_pUsage s"
      define w' where "w' = snd (the (obj_reference w p sp fPre))"
      have w': "obj_reference w p sp fPre = Some (VINF_SUCCESS, w')"
        and e: "w_sess w' = (w_sess w)(sp \<mapsto> s\<lparr>ses_pUsage := ?us\<rparr>)"
          "w_objs w' = (w_objs w)(p \<mapsto> ob\<lparr>obj_cUsage := obj_cUsage ob + 1\<rparr>)"
          "dx_pObjs (w_devext w') = dx_pObjs (w_devext w)"
              using None s ob True by (simp_all add: w'_def obj_reference_def Let_def)
      have uok: "usage_ok (w_objs w') (s\<lparr>ses_pUsage := ?us\<rparr>)"
        using D(2) usage_ok_no_refs [OF D(2) z] e(2) by (auto simp: usage_ok_def)
      have "obj_inv w'"
        by (rule obj_inv_step [OF inv s e(1,2)])
          (use obj_list [OF inv] ob uok z ok tot inc in \<open>auto simp: e obj_ok_def sess_refs_def\<close>)
      moreover have "\<forall>k y. obj_refs w' k y = obj_refs w k y + of_bool (k = sp \<and> y = p)"
        by (auto simp: obj_refs_upd [OF e(1)] obj_refs_same [OF s] sess_refs_def)
      ultimately show thesis using that w' True by simp
    qed
  qed
qed

lemma SUPR0ObjAddRefEx_ok:
  assumes inv: "obj_inv w" and s: "w_sess w sp = Some s" and v: "SUP_IS_SESSION_VALID sp s"
    and ob: "w_objs w p = Some ob" and room: "obj_room w p"
    and env: "obj_inv (env w)" "w_sess (env w) sp = Some s'" "w_objs (env w) p = Some ob'" "obj_room (env w) p"
  obtains rc w' w0 where "SUPR0ObjAddRefEx env w p sp fNoBlocking fMem = Some (rc, w')"
    "obj_inv w'" "w0 = w \<or> w0 = env w"
    "rc = VINF_SUCCESS \<Longrightarrow> \<forall>k y. obj_refs w' k y = obj_refs w0 k y + of_bool (k = sp \<and> y = p)"
    "rc \<noteq> VINF_SUCCESS \<Longrightarrow> w' = w"
    "rc = VINF_SUCCESS \<or> rc = VERR_TRY_AGAIN \<and> fNoBlocking \<or> rc = VERR_NO_MEMORY \<and> \<not> fMem"
proof -
  have ok: "obj_ok w p ob" "obj_ok (env w) p ob'"
    using obj_invD(5) [OF inv s ob] obj_invD(5) [OF env(1,2,3)] .
  let ?w1 = "set_dx w (\<lambda>d. d\<lparr>dx_pUsageFree := dx_pUsageFree d - 1\<rparr>)"
  have inv1: "obj_inv ?w1" using inv obj_inv_frame [of ?w1 w] by simp
  consider "0 < dx_pUsageFree (w_devext w)" | "dx_pUsageFree (w_devext w) = 0" "fNoBlocking"
    | "dx_pUsageFree (w_devext w) = 0" "\<not> fNoBlocking" "\<not> fMem"
    | "dx_pUsageFree (w_devext w) = 0" "\<not> fNoBlocking" "fMem" by blast
  then show thesis
  proof cases
    case 1
    from obj_reference_ok [OF inv1, of sp s p ob True] obtain w' where
      w': "obj_reference ?w1 p sp True = Some (VINF_SUCCESS, w')" "obj_inv w'"
        "\<forall>k y. obj_refs w' k y = obj_refs ?w1 k y + of_bool (k = sp \<and> y = p)"
      using s ob room by (auto simp: obj_room_def)
    then show thesis using that [of VINF_SUCCESS w' w] 1 ok s ob v
      by (simp add: SUPR0ObjAddRefEx_def obj_ok_def obj_refs_def)
  next
    case 2
    show thesis
    proof (rule obj_reference_ok [OF inv s ob room, where fPre = False], goal_cases)
      case (1 w')
      then show thesis using that [OF _ \<open>obj_inv w'\<close>, of _ w] 2 ok s ob v
        by (cases "find (uses p) (ses_pUsage s)") (auto simp: SUPR0ObjAddRefEx_def obj_ok_def)
    qed
  next
    case 3
    then show thesis using that [of VERR_NO_MEMORY w w] ok s ob v inv
      by (simp add: SUPR0ObjAddRefEx_def obj_ok_def)
  next
    case 4
    from obj_reference_ok [OF env(1,2,3,4), of True] obtain w' where
      w': "obj_reference (env w) p sp True = Some (VINF_SUCCESS, w')" "obj_inv w'"
        "\<forall>k y. obj_refs w' k y = obj_refs (env w) k y + of_bool (k = sp \<and> y = p)" by auto
    then show thesis using that [of VINF_SUCCESS w' "env w"] 4 ok s ob v env
      by (simp add: SUPR0ObjAddRefEx_def obj_ok_def)
  qed
qed

lemma SUPR0ObjAddRefEx_D:
  assumes inv: "obj_inv w" and s: "w_sess w sp = Some s" and v: "SUP_IS_SESSION_VALID sp s"
    and ob: "w_objs w p = Some ob" and room: "obj_room w p"
    and r: "SUPR0ObjAddRefEx id w p sp fNoBlocking fMem = Some (rc, w')"
  shows "obj_inv w'"
    "rc = VINF_SUCCESS \<Longrightarrow> obj_refs w' k y = obj_refs w k y + of_bool (k = sp \<and> y = p)"
proof -
  have e: "obj_inv (id w)" "w_sess (id w) sp = Some s" "w_objs (id w) p = Some ob" "obj_room (id w) p"
    using assms by auto
  have "obj_inv w' \<and> (rc = VINF_SUCCESS \<longrightarrow> obj_refs w' k y = obj_refs w k y + of_bool (k = sp \<and> y = p))"
  proof (rule SUPR0ObjAddRefEx_ok [where env = id, OF inv s v ob room e, of fNoBlocking fMem], goal_cases)
    case (1 rc1 w1 w0)
    have "rc1 = rc" "w1 = w'" "w0 = w" using 1(1,3) r by simp_all
    with 1(2,4) show ?case by simp
  qed
  then show "obj_inv w'"
    "rc = VINF_SUCCESS \<Longrightarrow> obj_refs w' k y = obj_refs w k y + of_bool (k = sp \<and> y = p)" by auto
qed

lemma obj_destroy_sel [simp]:
  "w_sess (obj_destroy w p ob) = w_sess w"
  "w_objs (obj_destroy w p ob) = (w_objs w)(p := None)"
  "w_imgs (obj_destroy w p ob) = w_imgs w"
  "w_memobjs (obj_destroy w p ob) = w_memobjs w"
  "w_factories (obj_destroy w p ob) = w_factories w"
  "w_devext (obj_destroy w p ob) = (w_devext w)\<lparr>dx_pObjs := remove1 p (dx_pObjs (w_devext w))\<rparr>"
  "w_trace (obj_destroy w p ob) = w_trace w @
     (if obj_pfnDestructor ob = 0 then []
      else [EvDestructor (obj_pfnDestructor ob) p (obj_pvUser1 ob) (obj_pvUser2 ob)])"
  by (auto simp: obj_destroy_def Let_def)

definition obj_events :: "addr \<Rightarrow> SUPDRVOBJ \<Rightarrow> sup_event list" where
  "obj_events p ob = (if obj_pfnDestructor ob = 0 then []
     else [EvDestructor (obj_pfnDestructor ob) p (obj_pvUser1 ob) (obj_pvUser2 ob)])"

lemma SUPR0ObjRelease_ok:
  assumes inv: "obj_inv w" and s: "w_sess w sp = Some s" and v: "SUP_IS_SESSION_VALID sp s"
    and ob: "w_objs w p = Some ob"
  obtains rc w' where "SUPR0ObjRelease w p sp = Some (rc, w')" "obj_inv w'"
    "obj_refs w sp p = 0 \<Longrightarrow> rc = VERR_INVALID_PARAMETER \<and> w' = w"
    "0 < obj_refs w sp p \<Longrightarrow> total_refs w p = 1 \<Longrightarrow> rc = VINF_OBJECT_DESTROYED \<and>
       w_objs w' = (w_objs w)(p := None) \<and> w_trace w' = w_trace w @ obj_events p ob"
    "0 < obj_refs w sp p \<Longrightarrow> total_refs w p \<noteq> 1 \<Longrightarrow> rc = VINF_SUCCESS \<and>
       w_objs w' = (w_objs w)(p \<mapsto> ob\<lparr>obj_cUsage := obj_cUsage ob - 1\<rparr>) \<and> w_trace w' = w_trace w"
    "0 < obj_refs w sp p \<Longrightarrow> \<forall>k y. obj_refs w k y = obj_refs w' k y + of_bool (k = sp \<and> y = p)"
proof -
  note D = obj_invD [OF inv s]
  have ok: "obj_ok w p ob" by (rule D(5) [OF ob])
  have tot: "unat (obj_cUsage ob) = total_refs w p" "total_refs w p = sess_refs s p + other_refs w sp p"
    using ok D(4) [of p] by (auto simp: obj_ok_def)
  have cnt: "1 < obj_cUsage ob \<longleftrightarrow> 1 < total_refs w p" using tot by (simp add: unat_gt1)
  have refs: "obj_refs w sp p = sess_refs s p" using s by (simp add: obj_refs_def)
  show thesis
  proof (cases "find (uses p) (ses_pUsage s)")
    case None
    then show thesis using that [of VERR_INVALID_PARAMETER w] D(7) [OF None] ok s ob v inv refs
      by (auto simp: SUPR0ObjRelease_def obj_ok_def)
  next
    case (Some u)
    have u: "sess_refs s p = unat (usg_cUsage u)" "0 < unat (usg_cUsage u)" "usg_pObj u = p"
      using D(6) [OF Some] find_SomeD [OF Some] by auto
    have dec: "unat (obj_cUsage ob - 1) = total_refs w p - 1"
      using tot u unat_dec [of "obj_cUsage ob"] by simp
    show thesis
    proof (cases "1 < usg_cUsage u")
      case True
      let ?f = "\<lambda>u. u\<lparr>usg_cUsage := usg_cUsage u - 1\<rparr>"
      let ?us = "update_first (uses p) ?f (ses_pUsage s)"
      have u1: "1 < unat (usg_cUsage u)" and du: "unat (usg_cUsage u - 1) = unat (usg_cUsage u) - 1"
        using True unat_dec [of "usg_cUsage u"] by (auto simp: unat_gt1)
      have r: "refs_in ?us y = (if p = y then sess_refs s p - 1 else sess_refs s y)" for y
        using refs_in_update [OF D(3) Some, of ?f y] u du by (cases "p = y") (auto simp: sess_refs_def)
      define w' where "w' = snd (the (SUPR0ObjRelease w p sp))"
      have w': "SUPR0ObjRelease w p sp = Some (VINF_SUCCESS, w')"
        and e: "w_sess w' = (w_sess w)(sp \<mapsto> s\<lparr>ses_pUsage := ?us\<rparr>)"
          "w_objs w' = (w_objs w)(p \<mapsto> ob\<lparr>obj_cUsage := obj_cUsage ob - 1\<rparr>)"
          "w_devext w' = w_devext w" "w_trace w' = w_trace w"
              using Some s ob v ok True by (simp_all add: w'_def SUPR0ObjRelease_def obj_ok_def Let_def)
    have uok: "usage_ok (w_objs w') (s\<lparr>ses_pUsage := ?us\<rparr>)"
      by (rule usage_ok_update [OF D(2) Some]) (use e(2) ob u u1 in \<open>auto simp: du\<close>)
      have "obj_inv w'"
        by (rule obj_inv_step [OF inv s e(1,2)])
          (use obj_list [OF inv] ob uok r ok tot dec u u1 in \<open>auto simp: e obj_ok_def\<close>)
      moreover have "\<forall>k y. obj_refs w k y = obj_refs w' k y + of_bool (k = sp \<and> y = p)"
        using r u by (auto simp: obj_refs_upd [OF e(1)] obj_refs_same [OF s])
      ultimately show thesis using that w' e tot u u1 refs by simp
    next
      case False
      let ?us = "remove_first (uses p) (ses_pUsage s)"
      have u1: "unat (usg_cUsage u) = 1" using False u(2) by (auto simp: unat_gt1)
      have r: "refs_in ?us y = (if p = y then 0 else sess_refs s y)" for y
        using refs_in_remove [OF D(3) Some, of y] by (simp add: sess_refs_def)
      have nu: "\<forall>z\<in>set ?us. usg_pObj z \<noteq> p"
      proof -
        obtain ys zs where sp: "ses_pUsage s = ys @ u # zs" "?us = ys @ zs"
          using remove_first_split [OF Some] by blast
        have "distinct (map usg_pObj (ys @ u # zs))" using D(3) by (simp add: sp(1))
        then show ?thesis unfolding sp(2) using u by (auto simp: image_iff)
      qed
      have uok: "usage_ok ((w_objs w)(p := x)) (s\<lparr>ses_pUsage := ?us\<rparr>)" for x
        using D(2) nu set_remove_first_subset [of "uses p" "ses_pUsage s"]
        by (auto simp: usage_ok_def distinct_map_remove_first)
      show thesis
      proof (cases "1 < total_refs w p")
        case True
        define w' where "w' = snd (the (SUPR0ObjRelease w p sp))"
        have w': "SUPR0ObjRelease w p sp = Some (VINF_SUCCESS, w')"
          and e: "w_sess w' = (w_sess w)(sp \<mapsto> s\<lparr>ses_pUsage := ?us\<rparr>)"
            "w_objs w' = (w_objs w)(p \<mapsto> ob\<lparr>obj_cUsage := obj_cUsage ob - 1\<rparr>)"
            "dx_pObjs (w_devext w') = dx_pObjs (w_devext w)" "w_trace w' = w_trace w"
                  using Some s ob v ok True False cnt by (simp_all add: w'_def SUPR0ObjRelease_def obj_ok_def Let_def)
        have "obj_inv w'"
          by (rule obj_inv_step [OF inv s e(1,2)])
            (use obj_list [OF inv] ob uok r ok tot dec u u1 True in \<open>auto simp: e obj_ok_def\<close>)
        moreover have "\<forall>k y. obj_refs w k y = obj_refs w' k y + of_bool (k = sp \<and> y = p)"
          using r u u1 by (auto simp: obj_refs_upd [OF e(1)] obj_refs_same [OF s])
        ultimately show thesis using that w' e True u refs by simp
      next
        case one: False
        define w' where "w' = snd (the (SUPR0ObjRelease w p sp))"
        have w': "SUPR0ObjRelease w p sp = Some (VINF_OBJECT_DESTROYED, w')"
          and e: "w_sess w' = (w_sess w)(sp \<mapsto> s\<lparr>ses_pUsage := ?us\<rparr>)"
            "w_objs w' = (w_objs w)(p := None)"
            "dx_pObjs (w_devext w') = remove1 p (dx_pObjs (w_devext w))"
            "w_trace w' = w_trace w @ obj_events p ob"
                  using Some s ob v ok one False cnt by (simp_all add: w'_def SUPR0ObjRelease_def obj_ok_def Let_def obj_events_def Let_def)
        have o: "other_refs w sp p = 0" using one tot u u1 by simp
        have "obj_inv w'"
          by (rule obj_inv_step [OF inv s e(1,2)])
            (use obj_list [OF inv] ob uok r o in \<open>auto simp: e\<close>)
        moreover have "\<forall>k y. obj_refs w k y = obj_refs w' k y + of_bool (k = sp \<and> y = p)"
          using r u u1 by (auto simp: obj_refs_upd [OF e(1)] obj_refs_same [OF s])
        ultimately show thesis using that w' e one tot u u1 refs by simp
      qed
    qed
  qed
qed

subsection \<open>Dropping all references of a session\<close>

lemma other_refs_upd_sess:
  "w_sess w' = (w_sess w)(sp := x) \<Longrightarrow> other_refs w' sp p = other_refs w sp p"
  unfolding other_refs_def sess_other_def by (rule sum.cong) auto

text \<open>Only the object list of the device extension changes.\<close>

definition dx_frame :: "supdrv \<Rightarrow> supdrv \<Rightarrow> bool" where
  "dx_frame w w' \<longleftrightarrow> (\<exists>l. w_devext w' = (w_devext w)\<lparr>dx_pObjs := l\<rparr>)"

lemma dx_frameI: "w_devext w' = (w_devext w)\<lparr>dx_pObjs := l\<rparr> \<Longrightarrow> dx_frame w w'"
  by (auto simp: dx_frame_def)

lemma dx_frame_refl: "dx_frame w w"
  by (rule dx_frameI [where l = "dx_pObjs (w_devext w)"]) simp

lemma dx_frame_trans: "dx_frame w w1 \<Longrightarrow> dx_frame w1 w2 \<Longrightarrow> dx_frame w w2"
  by (auto simp: dx_frame_def)

lemma cleanup_objs_step:
  assumes inv: "obj_inv w" and s: "w_sess w sp = Some (s\<lparr>ses_pUsage := u # us\<rparr>)"
  obtains w1 where "cleanup_objs w sp s (u # us) = cleanup_objs w1 sp s us" "obj_inv w1"
    "w_sess w1 = (w_sess w)(sp \<mapsto> s\<lparr>ses_pUsage := us\<rparr>)"
    "\<forall>q. q \<noteq> usg_pObj u \<longrightarrow> w_objs w1 q = w_objs w q"
    "w_objs w1 (usg_pObj u) \<noteq> None \<longleftrightarrow> 0 < other_refs w sp (usg_pObj u)"
    "w_trace w1 = w_trace w @ (if other_refs w sp (usg_pObj u) = 0
        then obj_events (usg_pObj u) (the (w_objs w (usg_pObj u))) else [])"
    "dx_frame w w1"
proof -
  let ?p = "usg_pObj u"
  note D = obj_invD [OF inv s]
  have uu: "0 < unat (usg_cUsage u)" "?p \<in> dom (w_objs w)" "distinct (map usg_pObj (u # us))"
    using D(2) by (auto simp: usage_ok_def)
  then obtain ob where ob: "w_objs w ?p = Some ob" by auto
  have ok: "obj_ok w ?p ob" by (rule D(5) [OF ob])
  have z: "refs_in us ?p = 0" by (rule refs_in_split(2) [OF uu(3), of "[]"]) auto
  have tot: "unat (obj_cUsage ob) = unat (usg_cUsage u) + other_refs w sp ?p"
    using ok D(4) [of ?p] z by (simp add: obj_ok_def)
  have uok: "usage_ok ((w_objs w)(?p := x)) (s\<lparr>ses_pUsage := us\<rparr>)" for x
    using D(2) uu(3) by (auto simp: usage_ok_def image_iff)
  have refs: "q \<noteq> ?p \<Longrightarrow> refs_in us q = refs_in (u # us) q" for q by simp
  show thesis
  proof (cases "usg_cUsage u < obj_cUsage ob")
    case True
    let ?w1 = "set_obj (set_sess w sp (s\<lparr>ses_pUsage := us\<rparr>)) ?p (ob\<lparr>obj_cUsage := obj_cUsage ob - usg_cUsage u\<rparr>)"
    have o: "0 < other_refs w sp ?p" and c: "unat (obj_cUsage ob - usg_cUsage u) = other_refs w sp ?p"
      using True tot by (auto simp: word_less_nat_alt unat_sub order_less_imp_le word_le_nat_alt)
    have e: "w_sess ?w1 = (w_sess w)(sp \<mapsto> s\<lparr>ses_pUsage := us\<rparr>)"
      "w_objs ?w1 = (w_objs w)(?p \<mapsto> ob\<lparr>obj_cUsage := obj_cUsage ob - usg_cUsage u\<rparr>)" by simp_all
    have "obj_inv ?w1"
      by (rule obj_inv_step [OF inv s e])
        (use obj_list [OF inv] ob uok refs z ok o c in \<open>auto simp: obj_ok_def\<close>)
    moreover have "dx_frame w ?w1" by (rule dx_frameI [where l = "dx_pObjs (w_devext w)"]) simp
    ultimately show thesis using that [of ?w1] True o ob by simp
  next
    case False
    let ?w1 = "obj_destroy (set_sess w sp (s\<lparr>ses_pUsage := us\<rparr>)) ?p ob"
    have o: "other_refs w sp ?p = 0" using False tot by (simp add: word_less_nat_alt)
    have e: "w_sess ?w1 = (w_sess w)(sp \<mapsto> s\<lparr>ses_pUsage := us\<rparr>)"
      "w_objs ?w1 = (w_objs w)(?p := None)" by simp_all
    have "obj_inv ?w1"
      by (rule obj_inv_step [OF inv s e])
        (use obj_list [OF inv] uok refs z o in auto)
    moreover have "dx_frame w ?w1" by (rule dx_frameI [where l = "remove1 ?p (dx_pObjs (w_devext w))"]) simp
    ultimately show thesis using that [of ?w1] False o ob by (simp add: obj_events_def)
  qed
qed

lemma cleanup_objs_ok:
  assumes "obj_inv w" "w_sess w sp = Some (s\<lparr>ses_pUsage := us\<rparr>)"
  shows "\<exists>w'. cleanup_objs w sp s us = Some w' \<and> obj_inv w' \<and>
    w_sess w' = (w_sess w)(sp \<mapsto> s\<lparr>ses_pUsage := []\<rparr>) \<and>
    (\<forall>p. p \<in> dom (w_objs w') \<longleftrightarrow> 0 < other_refs w sp p) \<and>
    w_trace w' = w_trace w @ concat (map (\<lambda>p. obj_events p (the (w_objs w p)))
       (filter (\<lambda>p. other_refs w sp p = 0) (map usg_pObj us))) \<and>
    dx_frame w w'"
  using assms
proof (induction us arbitrary: w)
  case Nil
  have "p \<in> dom (w_objs w) \<longleftrightarrow> 0 < other_refs w sp p" for p
  proof (cases "w_objs w p")
    case None
    then show ?thesis using no_refs_unallocated(2) [OF Nil(1) None] by auto
  next
    case (Some ob)
    then show ?thesis using obj_invD(4,5) [OF Nil] by (auto simp: obj_ok_def)
  qed
  then show ?case using Nil dx_frame_refl [of w] by (auto simp: fun_upd_idem)
next
  case (Cons u us)
  obtain w1 where e: "cleanup_objs w sp s (u # us) = cleanup_objs w1 sp s us" and inv: "obj_inv w1"
    and s1: "w_sess w1 = (w_sess w)(sp \<mapsto> s\<lparr>ses_pUsage := us\<rparr>)"
    and ob: "\<forall>q. q \<noteq> usg_pObj u \<longrightarrow> w_objs w1 q = w_objs w q"
    and tr: "w_trace w1 = w_trace w @ (if other_refs w sp (usg_pObj u) = 0
        then obj_events (usg_pObj u) (the (w_objs w (usg_pObj u))) else [])"
    and dx: "dx_frame w w1"
    by (rule cleanup_objs_step [OF Cons.prems])
  have o: "other_refs w1 sp p = other_refs w sp p" for p by (rule other_refs_upd_sess [OF s1])
  have nu: "usg_pObj u \<notin> usg_pObj ` set us"
    using obj_invD(3) [OF Cons.prems] by simp
  have ev: "map (\<lambda>p. obj_events p (the (w_objs w1 p))) (filter (\<lambda>p. other_refs w sp p = 0) (map usg_pObj us)) =
        map (\<lambda>p. obj_events p (the (w_objs w p))) (filter (\<lambda>p. other_refs w sp p = 0) (map usg_pObj us))"
    by (rule map_cong) (use nu ob in \<open>auto simp: image_iff\<close>)
  have "w_sess w1 sp = Some (s\<lparr>ses_pUsage := us\<rparr>)" using s1 by simp
  from Cons.IH [OF inv this, unfolded o s1 fun_upd_upd] obtain w' where
    w': "cleanup_objs w1 sp s us = Some w'" "obj_inv w'"
      "w_sess w' = (w_sess w)(sp \<mapsto> s\<lparr>ses_pUsage := []\<rparr>)"
      "\<forall>p. p \<in> dom (w_objs w') \<longleftrightarrow> 0 < other_refs w sp p"
      "w_trace w' = w_trace w1 @ concat (map (\<lambda>p. obj_events p (the (w_objs w1 p)))
         (filter (\<lambda>p. other_refs w sp p = 0) (map usg_pObj us)))"
    and l: "dx_frame w1 w'"
    by blast
  have "dx_frame w w'" using dx_frame_trans [OF dx l] .
  with w' show ?case unfolding e ev tr by (simp add: fun_upd_def)
qed

subsection \<open>Objects as a reference counted resource\<close>

definition obj_retain :: "supdrv \<Rightarrow> addr \<Rightarrow> addr \<Rightarrow> supdrv option" where
  "obj_retain w sp p =
     (if obj_room w p then
        (case SUPR0ObjAddRef id w p sp True of
           Some (rc, w') \<Rightarrow> if rc = VINF_SUCCESS then Some w' else None
         | None \<Rightarrow> None)
      else None)"

definition obj_release :: "supdrv \<Rightarrow> addr \<Rightarrow> addr \<Rightarrow> supdrv option" where
  "obj_release w sp p =
     (case SUPR0ObjRelease w p sp of
        Some (rc, w') \<Rightarrow> if RT_SUCCESS rc then Some w' else None
      | None \<Rightarrow> None)"

lemma obj_retainD:
  assumes "obj_inv w" "obj_retain w sp p = Some w'"
  shows "obj_inv w'" "obj_refs w' k y = obj_refs w k y + of_bool (k = sp \<and> y = p)"
proof -
  have room: "obj_room w p" and r: "SUPR0ObjAddRefEx id w p sp False True = Some (VINF_SUCCESS, w')"
    using assms(2) by (auto simp: obj_retain_def SUPR0ObjAddRef_def split: if_splits option.splits)
  then obtain s ob where s: "w_sess w sp = Some s" "SUP_IS_SESSION_VALID sp s" "w_objs w p = Some ob"
    by (auto simp: SUPR0ObjAddRefEx_def split: option.splits if_splits)
  show "obj_inv w'" "obj_refs w' k y = obj_refs w k y + of_bool (k = sp \<and> y = p)"
    using SUPR0ObjAddRefEx_D [OF assms(1) s room r] by simp_all
qed

lemma SUPR0ObjRelease_D:
  assumes "obj_inv w" "w_sess w sp = Some s" "SUP_IS_SESSION_VALID sp s" "w_objs w p = Some ob"
    "SUPR0ObjRelease w p sp = Some (rc, w')"
  shows "obj_inv w'"
    "RT_SUCCESS rc \<Longrightarrow> obj_refs w k y = obj_refs w' k y + of_bool (k = sp \<and> y = p)"
proof -
  have "obj_inv w' \<and> (RT_SUCCESS rc \<longrightarrow> obj_refs w k y = obj_refs w' k y + of_bool (k = sp \<and> y = p))"
  proof (rule SUPR0ObjRelease_ok [OF assms(1-4)], goal_cases)
    case (1 rc1 w1)
    have e: "rc1 = rc" "w1 = w'" using 1(1) assms(5) by simp_all
    show ?case
    proof (cases "obj_refs w sp p = 0")
      case True
      with 1(2,3) e show ?thesis by simp
    next
      case False
      then have "\<forall>k y. obj_refs w k y = obj_refs w' k y + of_bool (k = sp \<and> y = p)" using 1(6) e by blast
      then show ?thesis using 1(2) e by blast
    qed
  qed
  then show "obj_inv w'"
    "RT_SUCCESS rc \<Longrightarrow> obj_refs w k y = obj_refs w' k y + of_bool (k = sp \<and> y = p)" by auto
qed

lemma obj_releaseD:
  assumes "obj_inv w" "obj_release w sp p = Some w'"
  shows "obj_inv w'" "obj_refs w k y = obj_refs w' k y + of_bool (k = sp \<and> y = p)"
proof -
  obtain rc where r: "SUPR0ObjRelease w p sp = Some (rc, w')" "RT_SUCCESS rc"
    using assms(2) by (auto simp: obj_release_def split: if_splits option.splits)
  then obtain s ob where s: "w_sess w sp = Some s" "SUP_IS_SESSION_VALID sp s" "w_objs w p = Some ob"
    by (auto simp: SUPR0ObjRelease_def split: option.splits if_splits)
  show "obj_inv w'" "obj_refs w k y = obj_refs w' k y + of_bool (k = sp \<and> y = p)"
    using SUPR0ObjRelease_D [OF assms(1) s r(1)] r(2) by simp_all
qed

lemma obj_alive_iff:
  assumes "obj_inv w"
  shows "p \<in> dom (w_objs w) \<longleftrightarrow> (\<exists>sp. 0 < obj_refs w sp p)"
proof -
  have fin: "finite (dom (w_sess w))" using assms by (simp add: obj_inv_def)
  have "total_refs w p = 0 \<longleftrightarrow> (\<forall>q\<in>dom (w_sess w). sess_refs (the (w_sess w q)) p = 0)"
    unfolding total_refs_def sess_total_def by (rule sum_eq_0_iff [OF fin])
  also have "\<dots> \<longleftrightarrow> (\<forall>sp. obj_refs w sp p = 0)"
    unfolding obj_refs_def by (force split: option.splits)
  finally have "0 < total_refs w p \<longleftrightarrow> (\<exists>sp. 0 < obj_refs w sp p)" by auto
  moreover have "p \<in> dom (w_objs w) \<longleftrightarrow> 0 < total_refs w p"
    using assms no_refs_unallocated(1) [OF assms, of p] by (cases "w_objs w p") (auto simp: obj_inv_def obj_ok_def)
  ultimately show ?thesis by simp
qed

interpretation objs: refcounted obj_inv obj_refs "\<lambda>w p. p \<in> dom (w_objs w)" obj_retain obj_release
  by unfold_locales
    (rule obj_retainD obj_releaseD obj_alive_iff; assumption)+

subsection \<open>Reachable states\<close>

text \<open>
  Any thread can run any operation at any time; the allocator returns NULL or unused memory,
  and no counter is at its limit.
\<close>

inductive obj_step :: "supdrv \<Rightarrow> supdrv \<Rightarrow> bool" where
  open_session:
    "w_sess w sp = None \<Longrightarrow> ses_pUsage s = [] \<Longrightarrow> obj_step w (set_sess w sp s)"
| register:
    "pNew = 0 \<or> (RT_VALID_PTR pNew \<and> w_objs w pNew = None) \<Longrightarrow>
     SUPR0ObjRegister w sp ty d u1 u2 pNew fMem = Some (p, w') \<Longrightarrow> obj_step w w'"
| addref:
    "obj_room w p \<Longrightarrow> SUPR0ObjAddRefEx id w p sp fNoBlocking fMem = Some (rc, w') \<Longrightarrow> obj_step w w'"
| release:
    "SUPR0ObjRelease w p sp = Some (rc, w') \<Longrightarrow> obj_step w w'"
| cleanup:
    "w_sess w sp = Some s \<Longrightarrow> cleanup_objs w sp s (ses_pUsage s) = Some w' \<Longrightarrow> obj_step w w'"

inductive_cases obj_stepE: "obj_step w w'"

lemma obj_inv_init: "obj_inv supdrv0"
  by (simp add: obj_inv_def supdrv0_def dx0_def)

lemma obj_inv_open:
  assumes "obj_inv w" "w_sess w sp = None" "ses_pUsage s = []"
  shows "obj_inv (set_sess w sp s)"
proof -
  have fin: "finite (dom (w_sess w))" using assms by (simp add: obj_inv_def)
  have "other_refs w sp p = total_refs w p" for p
    using assms(2) by (simp add: other_refs_def sess_other_def total_refs_def sess_total_def domIff)
  moreover have "sess_refs s p = 0" for p by (simp add: sess_refs_def assms(3))
  ultimately have "total_refs (set_sess w sp s) p = total_refs w p" for p
    by (simp add: total_set_sess [OF fin])
  then show ?thesis using assms by (auto simp: obj_inv_def obj_ok_def usage_ok_def)
qed

lemma obj_step_inv:
  assumes "obj_step w w'" "obj_inv w"
  shows "obj_inv w'"
  using assms
proof (cases rule: obj_step.cases)
  case (open_session sp s)
  then show ?thesis using obj_inv_open assms(2) by simp
next
  case register
  then show ?thesis using SUPR0ObjRegister_ok(1) [OF assms(2)] by blast
next
  case (addref p sp nb fMem rc)
  show ?thesis
  proof (cases "\<exists>s ob. w_sess w sp = Some s \<and> SUP_IS_SESSION_VALID sp s \<and> w_objs w p = Some ob")
    case True
    then obtain s ob where s: "w_sess w sp = Some s" "SUP_IS_SESSION_VALID sp s" "w_objs w p = Some ob" by blast
    show ?thesis by (rule SUPR0ObjAddRefEx_D [OF assms(2) s addref])
  next
    case False
    then have "w' = w" using addref(2) by (auto simp: SUPR0ObjAddRefEx_def split: option.splits if_splits)
    then show ?thesis using assms(2) by simp
  qed
next
  case (release p sp rc)
  show ?thesis
  proof (cases "\<exists>s ob. w_sess w sp = Some s \<and> SUP_IS_SESSION_VALID sp s \<and> w_objs w p = Some ob")
    case True
    then obtain s ob where s: "w_sess w sp = Some s" "SUP_IS_SESSION_VALID sp s" "w_objs w p = Some ob" by blast
    show ?thesis by (rule SUPR0ObjRelease_D [OF assms(2) s release])
  next
    case False
    then have "w' = w" using release by (auto simp: SUPR0ObjRelease_def split: option.splits if_splits)
    then show ?thesis using assms(2) by simp
  qed
next
  case (cleanup sp s)
  then show ?thesis using cleanup_objs_ok [OF assms(2), where sp = sp and s = s and us = "ses_pUsage s"] by auto
qed

lemma obj_reachable_inv: "obj_step\<^sup>*\<^sup>* supdrv0 w \<Longrightarrow> obj_inv w"
  by (induction rule: rtranclp_induct) (auto simp: obj_inv_init intro: obj_step_inv)

subsection \<open>What the operations leave alone\<close>

text \<open>Sessions change in their usage records only.\<close>

definition sess_frame :: "supdrv \<Rightarrow> supdrv \<Rightarrow> bool" where
  "sess_frame w w' \<longleftrightarrow>
     (\<forall>sp. map_option (\<lambda>s. s\<lparr>ses_pUsage := []\<rparr>) (w_sess w' sp) = map_option (\<lambda>s. s\<lparr>ses_pUsage := []\<rparr>) (w_sess w sp))"

lemma sess_frame_refl [simp]: "sess_frame w w"
  by (simp add: sess_frame_def)

lemma sess_frame_trans: "sess_frame w w1 \<Longrightarrow> sess_frame w1 w2 \<Longrightarrow> sess_frame w w2"
  by (simp add: sess_frame_def)

lemma sess_frame_upd:
  "w_sess w sp = Some s \<Longrightarrow> w_sess w' = (w_sess w)(sp \<mapsto> s\<lparr>ses_pUsage := us\<rparr>) \<Longrightarrow> sess_frame w w'"
  by (simp add: sess_frame_def)

lemma sess_frame_same: "w_sess w' = w_sess w \<Longrightarrow> sess_frame w w'"
  by (simp add: sess_frame_def)

lemma sess_frameD:
  assumes "sess_frame w w'" "w_sess w sp = Some s"
  obtains us where "w_sess w' sp = Some (s\<lparr>ses_pUsage := us\<rparr>)"
proof -
  have "map_option (\<lambda>s. s\<lparr>ses_pUsage := []\<rparr>) (w_sess w' sp) = Some (s\<lparr>ses_pUsage := []\<rparr>)"
    using assms by (simp add: sess_frame_def)
  then obtain s' where s': "w_sess w' sp = Some s'" "s'\<lparr>ses_pUsage := []\<rparr> = s\<lparr>ses_pUsage := []\<rparr>"
    by auto
  then have "s' = s\<lparr>ses_pUsage := ses_pUsage s'\<rparr>"
    by (cases s, cases s') simp
  with s'(1) that show thesis by metis
qed

lemma obj_reference_frame: "obj_reference w p sp fPre = Some (rc, w') \<Longrightarrow> sess_frame w w'"
  by (auto simp: obj_reference_def Let_def sess_frame_def split: option.splits if_splits)

lemma SUPR0ObjAddRefEx_frame: "SUPR0ObjAddRefEx id w p sp nb fMem = Some (rc, w') \<Longrightarrow> sess_frame w w'"
  by (auto simp: SUPR0ObjAddRefEx_def dest!: obj_reference_frame split: option.splits if_splits)
    (simp_all add: sess_frame_def)

lemma SUPR0ObjRelease_frame: "SUPR0ObjRelease w p sp = Some (rc, w') \<Longrightarrow> sess_frame w w'"
  by (auto simp: SUPR0ObjRelease_def Let_def sess_frame_def split: option.splits if_splits)

lemma SUPR0ObjRegister_frame:
  "SUPR0ObjRegister w sp ty d u1 u2 pNew fMem = Some (p, w') \<Longrightarrow> sess_frame w w'"
  by (auto simp: SUPR0ObjRegister_def Let_def sess_frame_def split: option.splits if_splits)

subsection \<open>Properties\<close>

text \<open>One session at 0x10000 and a second one at 0x11000, both referencing the object at 0x20000.\<close>

definition obj_ex :: supdrv where
  "obj_ex = supdrv0\<lparr>w_devext := dx0\<lparr>dx_pObjs := [0x20000]\<rparr>,
     w_sess := [0x10000 \<mapsto> sess0\<lparr>ses_pUsage := [\<lparr>usg_pObj = 0x20000, usg_cUsage = 1\<rparr>]\<rparr>,
                0x11000 \<mapsto> sess0\<lparr>ses_pUsage := [\<lparr>usg_pObj = 0x20000, usg_cUsage = 2\<rparr>]\<rparr>],
     w_objs := [0x20000 \<mapsto> (obj_new sess0 4 0x30000 0x40 0)\<lparr>obj_cUsage := 3\<rparr>]\<rparr>"

lemma obj_ex_inv: "obj_inv obj_ex"
  by (simp add: obj_inv_def obj_ex_def supdrv0_def obj_ok_def usage_ok_def obj_new_def RT_VALID_PTR_def
      total_refs_def sess_total_def sess_refs_def)

lemma obj_ex_simps:
  "w_sess obj_ex 0x10000 = Some (sess0\<lparr>ses_pUsage := [\<lparr>usg_pObj = 0x20000, usg_cUsage = 1\<rparr>]\<rparr>)"
  "w_sess obj_ex 0x11000 = Some (sess0\<lparr>ses_pUsage := [\<lparr>usg_pObj = 0x20000, usg_cUsage = 2\<rparr>]\<rparr>)"
  "w_objs obj_ex 0x20000 = Some ((obj_new sess0 4 0x30000 0x40 0)\<lparr>obj_cUsage := 3\<rparr>)"
  "total_refs obj_ex 0x20000 = 3" "dom (w_objs obj_ex) = {0x20000}"
  by (simp_all add: obj_ex_def supdrv0_def total_refs_def sess_total_def sess_refs_def)

lemma obj_ex_valid: "SUP_IS_SESSION_VALID 0x10000 (sess0\<lparr>ses_pUsage := us\<rparr>)"
  by (simp add: SUP_IS_SESSION_VALID_def sess0_def RT_VALID_PTR_def)

text \<open>
  C5: Releasing a reference on a live object never touches freed memory and keeps the
  reference counts consistent. It fails exactly when the session holds no reference. The
  object is unlinked, destroyed and freed, with one call of its destructor, exactly when the
  released reference was the last one over all sessions; otherwise its counter drops by one.
\<close>

theorem SUPR0ObjRelease_correct:
  assumes "obj_inv w" "w_sess w sp = Some s" "SUP_IS_SESSION_VALID sp s" "w_objs w p = Some ob"
  shows "\<exists>rc w'. SUPR0ObjRelease w p sp = Some (rc, w') \<and> obj_inv w' \<and>
    (if obj_refs w sp p = 0 then rc = VERR_INVALID_PARAMETER \<and> w' = w
     else if total_refs w p = 1 then
       rc = VINF_OBJECT_DESTROYED \<and> w_objs w' = (w_objs w)(p := None) \<and>
       w_trace w' = w_trace w @ obj_events p ob
     else rc = VINF_SUCCESS \<and> w_objs w' = (w_objs w)(p \<mapsto> ob\<lparr>obj_cUsage := obj_cUsage ob - 1\<rparr>) \<and>
       w_trace w' = w_trace w)"
proof (rule SUPR0ObjRelease_ok [OF assms], goal_cases)
  case (1 rc w')
  show ?case by (intro exI [of _ rc] exI [of _ w']) (use 1(1-5) in simp)
qed

theorem SUPR0ObjRelease_correct_witness:
  "\<exists>rc w'. SUPR0ObjRelease obj_ex 0x20000 0x10000 = Some (rc, w') \<and> obj_inv w'"
  using SUPR0ObjRelease_correct [OF obj_ex_inv obj_ex_simps(1) obj_ex_valid obj_ex_simps(3)] by blast

text \<open>
  C19: Taking a reference while other threads run during the allocation of the usage record:
  as long as they keep the invariant, the session and the object, the call is memory safe,
  keeps the invariant, and either succeeds and adds exactly one reference of the calling
  session or fails without any change; it fails only when it may not block or when there is
  no memory.
\<close>

theorem SUPR0ObjAddRefEx_interference:
  assumes "obj_inv w" "w_sess w sp = Some s" "SUP_IS_SESSION_VALID sp s"
    "w_objs w p = Some ob" "obj_room w p"
    "obj_inv (env w)" "w_sess (env w) sp = Some s'" "w_objs (env w) p = Some ob'" "obj_room (env w) p"
  shows "\<exists>rc w' w0. SUPR0ObjAddRefEx env w p sp fNoBlocking fMem = Some (rc, w') \<and> obj_inv w' \<and>
    (w0 = w \<or> w0 = env w) \<and>
    (if rc = VINF_SUCCESS then \<forall>k y. obj_refs w' k y = obj_refs w0 k y + of_bool (k = sp \<and> y = p)
     else w' = w \<and> (rc = VERR_TRY_AGAIN \<and> fNoBlocking \<or> rc = VERR_NO_MEMORY \<and> \<not> fMem))"
proof (rule SUPR0ObjAddRefEx_ok [where env = env, OF assms, of fNoBlocking fMem], goal_cases)
  case (1 rc w' w0)
  then show ?case by (intro exI [of _ rc] exI [of _ w'] exI [of _ w0]) presburger
qed

theorem SUPR0ObjAddRefEx_interference_witness:
  "\<exists>rc w'. SUPR0ObjAddRefEx (\<lambda>w. snd (the (SUPR0ObjRelease w 0x20000 0x11000))) obj_ex
      0x20000 0x10000 False True = Some (rc, w') \<and> obj_inv w'"
proof -
  let ?w = "snd (the (SUPR0ObjRelease obj_ex 0x20000 0x11000))"
  have v: "SUP_IS_SESSION_VALID 0x11000 (sess0\<lparr>ses_pUsage := us\<rparr>)" for us
    by (simp add: SUP_IS_SESSION_VALID_def sess0_def RT_VALID_PTR_def)
  have e: "SUPR0ObjRelease obj_ex 0x20000 0x11000 = Some (0, ?w)"
    using v by (simp add: SUPR0ObjRelease_def obj_ex_simps RT_VALID_PTR_def obj_new_def)
  have 1: "obj_inv ?w" by (rule SUPR0ObjRelease_D(1) [OF obj_ex_inv obj_ex_simps(2) v obj_ex_simps(3) e])
  have 2: "w_sess ?w 0x10000 = w_sess obj_ex 0x10000" "w_objs ?w 0x20000 \<noteq> None"
    using v by (simp_all add: SUPR0ObjRelease_def obj_ex_simps RT_VALID_PTR_def obj_new_def)
  have 3: "obj_room ?w 0x20000"
    using v by (simp add: SUPR0ObjRelease_def obj_ex_simps RT_VALID_PTR_def obj_new_def obj_room_def
        total_refs_def sess_total_def sess_refs_def) (simp add: obj_ex_def supdrv0_def)
  have 4: "obj_room obj_ex 0x20000" by (simp add: obj_room_def obj_ex_simps)
  from 2 obtain ob where 5: "w_objs ?w 0x20000 = Some ob" by auto
  from SUPR0ObjAddRefEx_interference [where env = "\<lambda>w. snd (the (SUPR0ObjRelease w 0x20000 0x11000))",
      OF obj_ex_inv obj_ex_simps(1) obj_ex_valid obj_ex_simps(3) 4 1 2(1) [unfolded obj_ex_simps] 5 3]
  show ?thesis by blast
qed

text \<open>
  Dropping the references of a closing session never touches freed memory. Afterwards the
  session holds no reference, no other session lost one, exactly the objects that other
  sessions still reference are alive, and the destructor of each object that died ran once,
  in the order of the usage records.
\<close>

theorem cleanup_objs_correct:
  assumes "obj_inv w" "w_sess w sp = Some s"
  shows "\<exists>w'. cleanup_objs w sp s (ses_pUsage s) = Some w' \<and> obj_inv w' \<and>
    w_sess w' = (w_sess w)(sp \<mapsto> s\<lparr>ses_pUsage := []\<rparr>) \<and>
    (\<forall>p. p \<in> dom (w_objs w') \<longleftrightarrow> 0 < other_refs w sp p) \<and>
    w_trace w' = w_trace w @ concat (map (\<lambda>p. obj_events p (the (w_objs w p)))
       (filter (\<lambda>p. other_refs w sp p = 0) (map usg_pObj (ses_pUsage s))))"
  using cleanup_objs_ok [OF assms(1), where sp = sp and s = s and us = "ses_pUsage s"] assms(2) by auto

theorem cleanup_objs_correct_witness:
  "\<exists>w'. cleanup_objs obj_ex 0x11000 (sess0\<lparr>ses_pUsage := [\<lparr>usg_pObj = 0x20000, usg_cUsage = 2\<rparr>]\<rparr>)
     [\<lparr>usg_pObj = 0x20000, usg_cUsage = 2\<rparr>] = Some w' \<and> obj_inv w'"
  using cleanup_objs_correct [OF obj_ex_inv obj_ex_simps(2)] by auto

text \<open>
  C20: Whatever sequence of successful reference and release operations the sessions run, in
  any interleaving, every session's references are those it had, plus those it took, minus
  those it released, and an object is alive afterwards exactly if some session still holds
  one.
\<close>

theorem obj_ops_balance:
  assumes "obj_inv w" "objs.run w es = Some w'"
  shows "obj_refs w' sp p + count_list es (Release sp p) = obj_refs w sp p + count_list es (Retain sp p) \<and>
    (p \<in> dom (w_objs w') \<longleftrightarrow>
      (\<exists>k. count_list es (Release k p) < obj_refs w k p + count_list es (Retain k p)))"
  using objs.run_balance(2) [OF assms] objs.run_alive [OF assms] by blast

theorem obj_ops_balance_witness:
  "\<exists>w'. objs.run obj_ex [Release 0x10000 0x20000] = Some w' \<and>
    obj_refs w' 0x10000 0x20000 + 1 = obj_refs obj_ex 0x10000 0x20000"
proof -
  have e: "objs.run obj_ex [Release 0x10000 0x20000] = obj_release obj_ex 0x10000 0x20000"
    by (simp add: bind_eq_Some_conv)
  have "obj_release obj_ex 0x10000 0x20000 \<noteq> None"
    using obj_ex_valid by (simp add: obj_release_def SUPR0ObjRelease_def obj_ex_simps RT_VALID_PTR_def obj_new_def)
  then obtain w' where w': "objs.run obj_ex [Release 0x10000 0x20000] = Some w'" using e by auto
  from obj_ops_balance [OF obj_ex_inv w', of "0x10000" "0x20000"] w' show ?thesis by auto
qed

text \<open>
  In every state the object operations can reach from a freshly loaded driver, with any
  number of sessions and any interleaving, the object list and the usage records are
  consistent, and registering, referencing, releasing and cleaning up are memory safe for
  every live object and every session.
\<close>

theorem obj_reachable_safe:
  assumes "obj_step\<^sup>*\<^sup>* supdrv0 w" "w_sess w sp = Some s"
  shows "obj_inv w \<and> cleanup_objs w sp s (ses_pUsage s) \<noteq> None \<and>
    SUPR0ObjRegister w sp ty d u1 u2 pNew fMem \<noteq> None \<and>
    (\<forall>p\<in>dom (w_objs w). SUPR0ObjRelease w p sp \<noteq> None \<and>
       SUPR0ObjAddRefEx id w p sp fNoBlocking fMem \<noteq> None \<and> SUPR0ObjVerifyAccess w p sp \<noteq> None)"
proof -
  have inv: "obj_inv w" by (rule obj_reachable_inv [OF assms(1)])
  have c: "cleanup_objs w sp s (ses_pUsage s) \<noteq> None"
    using cleanup_objs_ok [OF inv, where sp = sp and s = s and us = "ses_pUsage s"] assms(2) by auto
  have r: "SUPR0ObjRegister w sp ty d u1 u2 pNew fMem \<noteq> None"
    by (simp add: SUPR0ObjRegister_def assms(2) Let_def)
  have "SUPR0ObjRelease w p sp \<noteq> None \<and> SUPR0ObjAddRefEx id w p sp fNoBlocking fMem \<noteq> None \<and>
      SUPR0ObjVerifyAccess w p sp \<noteq> None" if "p \<in> dom (w_objs w)" for p
    using that assms(2)
    by (auto simp: SUPR0ObjRelease_def SUPR0ObjAddRefEx_def SUPR0ObjVerifyAccess_def supdrvOSObjCanAccess_def obj_reference_def
        Let_def split: option.splits)
  with inv c r show ?thesis by blast
qed

theorem obj_reachable_safe_witness:
  "obj_inv (set_sess supdrv0 0x10000 sess0) \<and>
   SUPR0ObjRegister (set_sess supdrv0 0x10000 sess0) 0x10000 4 0x30000 0 0 0x20000 True \<noteq> None"
proof -
  have "obj_step supdrv0 (set_sess supdrv0 0x10000 sess0)"
    by (rule obj_step.open_session) (simp_all add: supdrv0_def sess0_def)
  then have "obj_step\<^sup>*\<^sup>* supdrv0 (set_sess supdrv0 0x10000 sess0)" by (rule r_into_rtranclp)
  from obj_reachable_safe [OF this, of "0x10000" sess0]
  show ?thesis by simp
qed

text \<open>
  The recheck after the allocation reads the object: if the last reference was released by
  another thread meanwhile, that memory is already free.
\<close>

lemma AddRefEx_recheck_freed:
  assumes "w_sess w sp = Some s" "SUP_IS_SESSION_VALID sp s" "RT_VALID_PTR p"
    "w_objs w p = Some ob" "obj_u32Magic ob = SUPDRVOBJ_MAGIC"
    "dx_pUsageFree (w_devext w) = 0" "w_objs (env w) p = None"
  shows "SUPR0ObjAddRefEx env w p sp False True = None"
  using assms by (simp add: SUPR0ObjAddRefEx_def)

end
