(* ===== verification/RTHandleTable.thy ===== *)
theory RTHandleTable
  imports SupState SupIface
begin

text \<open>
  IPRT handle tables with contexts (Runtime/common/misc/handletable.h, handletable.cpp,
  handletablectx.cpp), which give sessions their semaphore handles. Free entries are chained
  through the table itself by tagged indices. The invariant \<open>ht_ok\<close> describes that chain, and
  \<open>ht_map\<close> is the abstract contract: a finite map from handles to pairs of object and
  context, which allocation, lookup and free refine.
\<close>

named_theorems ht_defs \<open>definitions of the handle table operations\<close>

subsection \<open>Entries\<close>

abbreviation (input) RTHT_LEVEL2_ENTRIES :: nat where "RTHT_LEVEL2_ENTRIES \<equiv> 2048"
abbreviation NIL_RTHT_INDEX :: u32 where "NIL_RTHT_INDEX \<equiv> 0xffffffff"

definition RTHT_IS_FREE :: "u64 \<Rightarrow> bool" where
  "RTHT_IS_FREE pvObj \<longleftrightarrow> pvObj AND 3 = 3"

definition RTHT_SET_FREE_IDX :: "u32 \<Rightarrow> u64" where
  "RTHT_SET_FREE_IDX idx = push_bit 2 (ucast idx) OR 3"

definition RTHT_GET_FREE_IDX :: "u64 \<Rightarrow> u32" where
  "RTHT_GET_FREE_IDX iNext = ucast (drop_bit 2 iNext)"

text \<open>The context of free entries, \<open>(void *)~(uintptr_t)7\<close>.\<close>

definition HT_CTX_FREE :: u64 where "HT_CTX_FREE = NOT 7"

lemma RTHT_IS_FREE_SET [simp]: "RTHT_IS_FREE (RTHT_SET_FREE_IDX i)"
  by (simp add: RTHT_IS_FREE_def RTHT_SET_FREE_IDX_def)

lemma RTHT_GET_SET [simp]: "RTHT_GET_FREE_IDX (RTHT_SET_FREE_IDX i) = i"
  by (rule bit_word_eqI) (auto simp: RTHT_GET_FREE_IDX_def RTHT_SET_FREE_IDX_def bit_simps)

subsection \<open>Operations\<close>

definition rtHandleTableLookupWithCtxIdx :: "RTHANDLETABLEINT \<Rightarrow> u32 \<Rightarrow> RTHTENTRYCTX option" where
  [ht_defs]: "rtHandleTableLookupWithCtxIdx pThis i =
     (if i < ht_cCur pThis then
        (if unat i < length (ht_entries pThis) then Some (ht_entries pThis ! unat i) else None)
      else None)"

definition rtHandleTableLookupWithCtx :: "RTHANDLETABLEINT \<Rightarrow> u32 \<Rightarrow> RTHTENTRYCTX option" where
  [ht_defs]: "rtHandleTableLookupWithCtx pThis h = rtHandleTableLookupWithCtxIdx pThis (h - ht_uBase pThis)"

definition ht_store :: "RTHANDLETABLEINT \<Rightarrow> u32 \<Rightarrow> RTHTENTRYCTX \<Rightarrow> RTHANDLETABLEINT" where
  "ht_store pThis i e = pThis\<lparr>ht_entries := (ht_entries pThis)[unat i := e]\<rparr>"

lemma ht_store_sel [simp]:
  "ht_uBase (ht_store t i e) = ht_uBase t" "ht_cCur (ht_store t i e) = ht_cCur t"
  "ht_cMax (ht_store t i e) = ht_cMax t" "ht_cCurAllocated (ht_store t i e) = ht_cCurAllocated t"
  "ht_cLevel1 (ht_store t i e) = ht_cLevel1 t" "ht_iFreeHead (ht_store t i e) = ht_iFreeHead t"
  "ht_iFreeTail (ht_store t i e) = ht_iFreeTail t"
  "ht_entries (ht_store t i e) = (ht_entries t)[unat i := e]"
  by (simp_all add: ht_store_def)

text \<open>\<open>fMem\<close>: the allocation succeeds; \<open>rcLock\<close>: the status of the spinlock creation.\<close>

definition RTHandleTableCreateEx ::
  "u32 \<Rightarrow> u32 \<Rightarrow> bool \<Rightarrow> status \<Rightarrow> status \<times> RTHANDLETABLEINT option" where
  [ht_defs]: "RTHandleTableCreateEx uBase cMax fMem rcLock =
     (if cMax = 0 then (VERR_INVALID_PARAMETER, None)
      else if \<not> uBase \<le> 0xffffffff - cMax then (VERR_INVALID_PARAMETER, None)
      else
        let cMax1 = (if 0xffffffff - 2048 \<le> cMax then 0xffffffff - 2048 + 1 else cMax);
            cMax2 = ((cMax1 + 2048 - 1) div 2048) * 2048;
            cLevel1 = cMax2 div 2048
        in if \<not> fMem then (VERR_NO_MEMORY, None)
           else if RT_FAILURE rcLock then (rcLock, None)
           else (VINF_SUCCESS,
             Some \<lparr>ht_uBase = uBase, ht_cCur = 0, ht_cMax = cMax2, ht_cCurAllocated = 0,
                   ht_cLevel1 = (if cLevel1 < 256 then cLevel1 else 0),
                   ht_iFreeHead = NIL_RTHT_INDEX, ht_iFreeTail = NIL_RTHT_INDEX, ht_entries = []\<rparr>))"

text \<open>
  One round of the allocation loop under the lock: take the head of the free list, give up
  when the table is full, or decide to expand, with the new size of the first level (0 when
  it is large enough).
\<close>

definition rtHandleTableAllocTry ::
  "RTHANDLETABLEINT \<Rightarrow> u64 \<Rightarrow> u64 \<Rightarrow> ((status \<times> u32 \<times> RTHANDLETABLEINT) + u32) option" where
  [ht_defs]: "rtHandleTableAllocTry pThis pvObj pvCtx =
     (let i = ht_iFreeHead pThis
      in if i \<noteq> NIL_RTHT_INDEX then
           (case rtHandleTableLookupWithCtxIdx pThis i of
              None \<Rightarrow> None
            | Some pFree \<Rightarrow>
                let t1 = (if i = ht_iFreeTail pThis
                          then pThis\<lparr>ht_iFreeTail := NIL_RTHT_INDEX, ht_iFreeHead := NIL_RTHT_INDEX\<rparr>
                          else pThis\<lparr>ht_iFreeHead := RTHT_GET_FREE_IDX (hte_pvObj pFree)\<rparr>);
                    t2 = t1\<lparr>ht_cCurAllocated := ht_cCurAllocated t1 + 1\<rparr>
                in Some (Inl (VINF_SUCCESS, i + ht_uBase pThis,
                     ht_store t2 i \<lparr>hte_pvObj = pvObj, hte_pvCtx = pvCtx\<rparr>)))
         else if ht_cMax pThis \<le> ht_cCur pThis then
           Some (Inl (VERR_NO_MORE_HANDLES, ht_uBase pThis - 1, pThis))
         else
           let iLevel1 = ht_cCur pThis div 2048;
               cLevel1 = (if ht_cLevel1 pThis \<le> iLevel1 then ht_cLevel1 pThis + 512 else 0);
               cLevel1' = (if ht_cMax pThis div 2048 < cLevel1 then ht_cMax pThis div 2048 else cLevel1)
           in Some (Inr cLevel1'))"

definition ht_new_table :: "u32 \<Rightarrow> RTHTENTRYCTX list" where
  [ht_defs]: "ht_new_table cCur =
     map (\<lambda>i. \<lparr>hte_pvObj = RTHT_SET_FREE_IDX (if i < RTHT_LEVEL2_ENTRIES - 1
                              then of_nat i + 1 + cCur else NIL_RTHT_INDEX),
              hte_pvCtx = HT_CTX_FREE\<rparr>) [0..<RTHT_LEVEL2_ENTRIES]"

text \<open>
  The expansion, back under the lock: another thread may have expanded the table meanwhile.
\<close>

definition rtHandleTableExpand :: "RTHANDLETABLEINT \<Rightarrow> u32 \<Rightarrow> RTHANDLETABLEINT option" where
  [ht_defs]: "rtHandleTableExpand pThis cLevel1 =
     (let t1 = (if cLevel1 \<noteq> 0 \<and> ht_cLevel1 pThis < cLevel1 then pThis\<lparr>ht_cLevel1 := cLevel1\<rparr> else pThis);
          iLevel1New = ht_cCur t1 div 2048
      in if iLevel1New < ht_cLevel1 t1 \<and> ht_cCur t1 < ht_cMax t1 then
           let t2 = t1\<lparr>ht_entries := ht_entries t1 @ ht_new_table (ht_cCur t1)\<rparr>;
               t3 = (if ht_iFreeTail t2 = NIL_RTHT_INDEX then Some (t2\<lparr>ht_iFreeHead := ht_cCur t2\<rparr>)
                     else (case rtHandleTableLookupWithCtxIdx t2 (ht_iFreeTail t2) of
                         None \<Rightarrow> None
                       | Some pPrev \<Rightarrow> Some (ht_store t2 (ht_iFreeTail t2)
                           (pPrev\<lparr>hte_pvObj := RTHT_SET_FREE_IDX (ht_cCur t2)\<rparr>))))
           in Option.bind t3 (\<lambda>t3. Some (t3\<lparr>ht_iFreeTail := ht_cCur t3 + 2048 - 1,
                                             ht_cCur := ht_cCur t3 + 2048\<rparr>))
         else Some t1)"

text \<open>
  The loop. \<open>fMem1\<close> and \<open>fMem2\<close> are the outcomes of the two allocations; \<open>None\<close> is a
  dereference of NULL or a loop without end.
\<close>

partial_function (option) rtHandleTableAllocLoop ::
  "bool \<Rightarrow> bool \<Rightarrow> u64 \<Rightarrow> u64 \<Rightarrow> RTHANDLETABLEINT \<Rightarrow> (status \<times> u32 \<times> RTHANDLETABLEINT) option" where
  "rtHandleTableAllocLoop fMem1 fMem2 pvObj pvCtx pThis =
     Option.bind (rtHandleTableAllocTry pThis pvObj pvCtx) (\<lambda>r.
       case r of
         Inl x \<Rightarrow> Some x
       | Inr cLevel1 \<Rightarrow>
           if cLevel1 \<noteq> 0 \<and> \<not> fMem1 then Some (VERR_NO_MEMORY, ht_uBase pThis - 1, pThis)
           else if \<not> fMem2 then Some (VERR_NO_MEMORY, ht_uBase pThis - 1, pThis)
           else Option.bind (rtHandleTableExpand pThis cLevel1) (rtHandleTableAllocLoop fMem1 fMem2 pvObj pvCtx))"

definition RTHandleTableAllocWithCtx ::
  "bool \<Rightarrow> bool \<Rightarrow> RTHANDLETABLEINT \<Rightarrow> u64 \<Rightarrow> u64 \<Rightarrow> (status \<times> u32 \<times> RTHANDLETABLEINT) option" where
  [ht_defs]: "RTHandleTableAllocWithCtx fMem1 fMem2 pThis pvObj pvCtx =
     (if RTHT_IS_FREE pvObj then Some (VERR_INVALID_PARAMETER, 0, pThis)
      else rtHandleTableAllocLoop fMem1 fMem2 pvObj pvCtx pThis)"

text \<open>
  \<open>pfnRetain\<close> is the retainer with the state it acts on; \<open>None\<close> in place of the function is a
  NULL callback, and the function returns \<open>None\<close> when it has undefined behaviour.
\<close>

type_synonym 's retainer = "('s \<Rightarrow> u64 \<Rightarrow> (status \<times> 's) option) option"

definition ht_retain :: "'s retainer \<Rightarrow> 's \<Rightarrow> u64 \<Rightarrow> (u64 \<times> 's) option" where
  [ht_defs]: "ht_retain pfnRetain x pvObj =
     (case pfnRetain of
        None \<Rightarrow> Some (pvObj, x)
      | Some f \<Rightarrow> (case f x pvObj of
            None \<Rightarrow> None
          | Some (rc, x') \<Rightarrow> Some (if RT_FAILURE rc then 0 else pvObj, x')))"

definition RTHandleTableLookupWithCtx ::
  "'s retainer \<Rightarrow> 's \<Rightarrow> RTHANDLETABLEINT \<Rightarrow> u32 \<Rightarrow> u64 \<Rightarrow> (u64 \<times> 's) option" where
  [ht_defs]: "RTHandleTableLookupWithCtx pfnRetain x pThis h pvCtx =
     (case rtHandleTableLookupWithCtx pThis h of
        None \<Rightarrow> Some (0, x)
      | Some pEntry \<Rightarrow>
          if hte_pvCtx pEntry = pvCtx then
            (if \<not> RTHT_IS_FREE (hte_pvObj pEntry) then ht_retain pfnRetain x (hte_pvObj pEntry)
             else Some (0, x))
          else Some (0, x))"

definition ht_link_free :: "RTHANDLETABLEINT \<Rightarrow> u32 \<Rightarrow> RTHANDLETABLEINT option" where
  [ht_defs]: "ht_link_free pThis i =
     (let t1 = ht_store pThis i \<lparr>hte_pvObj = RTHT_SET_FREE_IDX NIL_RTHT_INDEX, hte_pvCtx = HT_CTX_FREE\<rparr>;
          t2 = (if ht_iFreeTail t1 = NIL_RTHT_INDEX then
                  Some (t1\<lparr>ht_iFreeHead := i, ht_iFreeTail := i\<rparr>)
                else (case rtHandleTableLookupWithCtxIdx t1 (ht_iFreeTail t1) of
                    None \<Rightarrow> None
                  | Some pPrev \<Rightarrow>
                      Some ((ht_store t1 (ht_iFreeTail t1) (pPrev\<lparr>hte_pvObj := RTHT_SET_FREE_IDX i\<rparr>))
                              \<lparr>ht_iFreeTail := i\<rparr>)))
      in Option.bind t2 (\<lambda>t2. Some (t2\<lparr>ht_cCurAllocated := ht_cCurAllocated t2 - 1\<rparr>)))"

definition RTHandleTableFreeWithCtx ::
  "'s retainer \<Rightarrow> 's \<Rightarrow> RTHANDLETABLEINT \<Rightarrow> u32 \<Rightarrow> u64 \<Rightarrow> (u64 \<times> RTHANDLETABLEINT \<times> 's) option" where
  [ht_defs]: "RTHandleTableFreeWithCtx pfnRetain x pThis h pvCtx =
     (case rtHandleTableLookupWithCtx pThis h of
        None \<Rightarrow> Some (0, pThis, x)
      | Some pEntry \<Rightarrow>
          if hte_pvCtx pEntry = pvCtx then
            (if \<not> RTHT_IS_FREE (hte_pvObj pEntry) then
               Option.bind (ht_retain pfnRetain x (hte_pvObj pEntry)) (\<lambda>(pvObj, x').
                 if pvObj \<noteq> 0 then
                   Option.bind (ht_link_free pThis (h - ht_uBase pThis)) (\<lambda>t'. Some (pvObj, t', x'))
                 else Some (0, pThis, x'))
             else Some (0, pThis, x))
          else Some (0, pThis, x))"

text \<open>
  The walk of \<open>RTHandleTableDestroy\<close>: the arguments (handle, object, context) of the calls of
  \<open>pfnDelete\<close> in order. \<open>cLeft\<close> is only tested between second level tables.
\<close>

definition ht_level2_calls :: "RTHANDLETABLEINT \<Rightarrow> nat \<Rightarrow> (u32 \<times> u64 \<times> u64) list" where
  [ht_defs]: "ht_level2_calls pThis i1 =
     map (\<lambda>i. (ht_uBase pThis + of_nat i, hte_pvObj (ht_entries pThis ! i), hte_pvCtx (ht_entries pThis ! i)))
       (filter (\<lambda>i. \<not> RTHT_IS_FREE (hte_pvObj (ht_entries pThis ! i)))
          [i1 * RTHT_LEVEL2_ENTRIES..<i1 * RTHT_LEVEL2_ENTRIES + RTHT_LEVEL2_ENTRIES])"

fun ht_destroy_walk :: "RTHANDLETABLEINT \<Rightarrow> nat \<Rightarrow> nat list \<Rightarrow> (u32 \<times> u64 \<times> u64) list" where
  "ht_destroy_walk pThis cLeft [] = []"
| "ht_destroy_walk pThis cLeft (i1 # is) =
     (if 0 < cLeft then
        (let cs = (if (i1 + 1) * RTHT_LEVEL2_ENTRIES \<le> length (ht_entries pThis)
                   then ht_level2_calls pThis i1 else [])
         in cs @ ht_destroy_walk pThis (cLeft - length cs) is)
      else [])"

definition RTHandleTableDestroy :: "RTHANDLETABLEINT option \<Rightarrow> (u32 \<times> u64 \<times> u64) list" where
  [ht_defs]: "RTHandleTableDestroy hHandleTable =
     (case hHandleTable of
        None \<Rightarrow> []
      | Some pThis \<Rightarrow> ht_destroy_walk pThis (unat (ht_cCurAllocated pThis)) [0..<unat (ht_cLevel1 pThis)])"

subsection \<open>Invariant and abstraction\<close>

fun chain_ok :: "RTHTENTRYCTX list \<Rightarrow> nat list \<Rightarrow> bool" where
  "chain_ok es (i # j # is) =
     (RTHT_GET_FREE_IDX (hte_pvObj (es ! i)) = of_nat j \<and> chain_ok es (j # is))"
| "chain_ok es is = True"

definition free_idx :: "RTHTENTRYCTX list \<Rightarrow> nat set" where
  "free_idx es = {i. i < length es \<and> RTHT_IS_FREE (hte_pvObj (es ! i))}"

definition ht_sizes :: "RTHANDLETABLEINT \<Rightarrow> bool" where
  "ht_sizes t \<longleftrightarrow>
     length (ht_entries t) = unat (ht_cCur t) \<and> 2048 dvd unat (ht_cCur t) \<and>
     unat (ht_cCur t) \<le> unat (ht_cMax t) \<and> 2048 dvd unat (ht_cMax t) \<and>
     unat (ht_cMax t) \<le> 0xfffff800 \<and>
     unat (ht_cCur t) div 2048 \<le> unat (ht_cLevel1 t) \<and> unat (ht_cLevel1 t) \<le> unat (ht_cMax t) div 2048 \<and>
     (unat (ht_cMax t) div 2048 < 256 \<longrightarrow> unat (ht_cLevel1 t) = unat (ht_cMax t) div 2048)"

definition ht_free :: "RTHANDLETABLEINT \<Rightarrow> nat list \<Rightarrow> bool" where
  "ht_free t fl \<longleftrightarrow>
     distinct fl \<and> set fl = free_idx (ht_entries t) \<and> chain_ok (ht_entries t) fl \<and>
     unat (ht_cCurAllocated t) + length fl = length (ht_entries t) \<and>
     ht_iFreeHead t = (if fl = [] then NIL_RTHT_INDEX else of_nat (hd fl)) \<and>
     ht_iFreeTail t = (if fl = [] then NIL_RTHT_INDEX else of_nat (last fl))"

definition ht_ok :: "RTHANDLETABLEINT \<Rightarrow> bool" where
  "ht_ok t \<longleftrightarrow> ht_sizes t \<and> (\<exists>fl. ht_free t fl)"

definition ht_map :: "RTHANDLETABLEINT \<Rightarrow> u32 \<rightharpoonup> u64 \<times> u64" where
  "ht_map t h =
     (case rtHandleTableLookupWithCtx t h of
        None \<Rightarrow> None
      | Some e \<Rightarrow> if RTHT_IS_FREE (hte_pvObj e) then None else Some (hte_pvObj e, hte_pvCtx e))"

lemma chain_ok_update: "i \<notin> set fl \<Longrightarrow> chain_ok (es[i := e]) fl = chain_ok es fl"
  by (induction es fl rule: chain_ok.induct) auto

lemma chain_ok_update_last: "distinct fl \<Longrightarrow> fl \<noteq> [] \<Longrightarrow> chain_ok (es[last fl := e]) fl = chain_ok es fl"
proof (induction es fl rule: chain_ok.induct)
  case (1 es i j js)
  then have "last (j # js) \<noteq> i" using last_in_set [of "j # js"] by auto
  with 1 show ?case by (simp add: nth_list_update)
qed simp_all

lemma chain_ok_append:
  "chain_ok es (xs @ ys) \<longleftrightarrow> chain_ok es xs \<and> chain_ok es ys \<and>
     (xs \<noteq> [] \<and> ys \<noteq> [] \<longrightarrow> RTHT_GET_FREE_IDX (hte_pvObj (es ! last xs)) = of_nat (hd ys))"
  by (induction es xs rule: chain_ok.induct) (cases ys; auto)+

lemma chain_ok_prefix: "\<forall>i\<in>set fl. i < length es \<Longrightarrow> chain_ok (es @ es') fl = chain_ok es fl"
  by (induction es fl rule: chain_ok.induct) (auto simp: nth_append)

subsection \<open>Taking and returning entries\<close>

lemma ht_sizes_bound: "ht_sizes t \<Longrightarrow> length (ht_entries t) \<le> 0xfffff800"
  by (simp add: ht_sizes_def)

lemma lookup_idx:
  "ht_sizes t \<Longrightarrow> rtHandleTableLookupWithCtxIdx t i =
     (if unat i < length (ht_entries t) then Some (ht_entries t ! unat i) else None)"
  by (simp add: rtHandleTableLookupWithCtxIdx_def ht_sizes_def word_less_nat_alt)

lemma of_nat_idx: "i < 0xfffff800 \<Longrightarrow> unat (of_nat i :: u32) = i"
  by (simp add: unat_of_nat)

lemma of_nat_idx_inj: "i < 0xfffff800 \<Longrightarrow> j < 0xfffff800 \<Longrightarrow> (of_nat i :: u32) = of_nat j \<longleftrightarrow> i = j"
  by (metis of_nat_idx)

lemma of_nat_idx_not_NIL: "i < 0xfffff800 \<Longrightarrow> (of_nat i :: u32) \<noteq> NIL_RTHT_INDEX"
proof
  assume "i < 0xfffff800" and "(of_nat i :: u32) = NIL_RTHT_INDEX"
  then have "unat (of_nat i :: u32) = unat NIL_RTHT_INDEX" by simp
  then show False using of_nat_idx [of i] \<open>i < 0xfffff800\<close> by simp
qed

lemma free_idx_lt: "i \<in> free_idx es \<Longrightarrow> i < length es"
  by (simp add: free_idx_def)

lemma free_idx_update:
  "i < length es \<Longrightarrow> free_idx (es[i := e]) =
     (if RTHT_IS_FREE (hte_pvObj e) then insert i (free_idx es) else free_idx es - {i})"
  by (auto simp: free_idx_def nth_list_update split: if_splits)

lemma ht_map_idx:
  "ht_sizes t \<Longrightarrow> ht_map t h =
     (let i = unat (h - ht_uBase t); e = ht_entries t ! i in
      if i < length (ht_entries t) \<and> i \<notin> free_idx (ht_entries t)
      then Some (hte_pvObj e, hte_pvCtx e) else None)"
  by (auto simp: ht_map_def rtHandleTableLookupWithCtx_def lookup_idx free_idx_def Let_def)

lemma unat_handle_inj: "unat (h - b) = unat (h' - b) \<longleftrightarrow> h = (h' :: u32)"
  by (metis add_diff_cancel_right' diff_add_cancel word_unat_eq_iff)

text \<open>The head of the free list is taken.\<close>

lemma alloc_take:
  assumes sz: "ht_sizes t" and fl: "ht_free t (i # r)" and nf: "\<not> RTHT_IS_FREE pvObj"
  obtains t' where "rtHandleTableAllocTry t pvObj pvCtx = Some (Inl (VINF_SUCCESS, of_nat i + ht_uBase t, t'))"
    "ht_sizes t'" "ht_free t' r" "ht_uBase t' = ht_uBase t"
    "ht_entries t' = (ht_entries t)[i := \<lparr>hte_pvObj = pvObj, hte_pvCtx = pvCtx\<rparr>]"
proof -
  let ?es = "ht_entries t" and ?e = "\<lparr>hte_pvObj = pvObj, hte_pvCtx = pvCtx\<rparr>"
  have F: "distinct (i # r)" "set (i # r) = free_idx ?es" "chain_ok ?es (i # r)"
    "unat (ht_cCurAllocated t) + length (i # r) = length ?es"
    "ht_iFreeHead t = of_nat i" "ht_iFreeTail t = of_nat (last (i # r))"
    using fl by (auto simp: ht_free_def)
  have lt: "j < length ?es" "j < 0xfffff800" if "j \<in> set (i # r)" for j
  proof -
    have "j \<in> free_idx ?es" using that unfolding F(2) .
    then show "j < length ?es" by (rule free_idx_lt)
    then show "j < 0xfffff800" using ht_sizes_bound [OF sz] by simp
  qed
  have ui: "unat (of_nat i :: u32) = i" "(of_nat i :: u32) \<noteq> NIL_RTHT_INDEX"
    using of_nat_idx of_nat_idx_not_NIL lt(2) [of i] by auto
  have tail: "ht_iFreeHead t = ht_iFreeTail t \<longleftrightarrow> r = []"
  proof (cases r)
    case (Cons j js)
    have "last r \<in> set r" using Cons by simp
    then have "last r \<noteq> i" using F(1) by auto
    then have "(of_nat (last r) :: u32) \<noteq> of_nat i"
      using of_nat_idx_inj lt(2) [of "last r"] lt(2) [of i] \<open>last r \<in> set r\<close> by simp
    then show ?thesis using F(5,6) Cons by auto
  qed (use F in simp)
  have cnt: "unat (ht_cCurAllocated t + 1) = unat (ht_cCurAllocated t) + 1"
    by (rule unat_inc) (use F(4) ht_sizes_bound [OF sz] in simp)
  define t' where "t' = ht_store
      ((if r = [] then t\<lparr>ht_iFreeTail := NIL_RTHT_INDEX, ht_iFreeHead := NIL_RTHT_INDEX\<rparr>
        else t\<lparr>ht_iFreeHead := RTHT_GET_FREE_IDX (hte_pvObj (?es ! i))\<rparr>)
       \<lparr>ht_cCurAllocated := ht_cCurAllocated t + 1\<rparr>) (of_nat i) ?e"
  have s: "rtHandleTableAllocTry t pvObj pvCtx = Some (Inl (VINF_SUCCESS, of_nat i + ht_uBase t, t'))"
    using ui lt(1) [of i] tail F(5)
    by (simp add: rtHandleTableAllocTry_def lookup_idx [OF sz] t'_def Let_def)
  have e: "ht_entries t' = ?es[i := ?e]" by (simp add: t'_def ht_store_def ui)
  have sz': "ht_sizes t'" using sz by (simp add: ht_sizes_def t'_def)
  have "chain_ok (?es[i := ?e]) r"
    using F(1,3) chain_ok_append [of ?es "[i]" r] by (simp add: chain_ok_update)
  moreover have "set r = free_idx (?es[i := ?e])"
  proof -
    have "i \<in> free_idx ?es" using F(2) by (metis list.set_intros(1))
    moreover have "set r = free_idx ?es - {i}" using F(1,2) by (metis distinct.simps(2) insert_Diff_single insert_absorb insert_ident list.simps(15) Diff_insert_absorb)
    ultimately show ?thesis using nf by (simp add: free_idx_update free_idx_lt)
  qed
  moreover have "r \<noteq> [] \<Longrightarrow> RTHT_GET_FREE_IDX (hte_pvObj (?es ! i)) = of_nat (hd r)"
    using F(3) by (cases r) auto
  ultimately have "ht_free t' r"
    using F(1,4,5,6) cnt unfolding ht_free_def e
    by (auto simp: t'_def)
  with s sz' e that show thesis by (simp add: t'_def)
qed

text \<open>An entry is appended to the free list.\<close>

lemma link_free_ok:
  assumes sz: "ht_sizes t" and fl: "ht_free t fl" and i: "unat h < length (ht_entries t)"
    and used: "unat h \<notin> free_idx (ht_entries t)"
  obtains t' where "ht_link_free t h = Some t'" "ht_sizes t'" "ht_free t' (fl @ [unat h])"
    "ht_uBase t' = ht_uBase t" "length (ht_entries t') = length (ht_entries t)"
    "\<forall>k. k < length (ht_entries t) \<and> k \<notin> free_idx (ht_entries t) \<and> k \<noteq> unat h \<longrightarrow>
       ht_entries t' ! k = ht_entries t ! k"
proof -
  let ?es = "ht_entries t" and ?i = "unat h"
  let ?f = "\<lparr>hte_pvObj = RTHT_SET_FREE_IDX NIL_RTHT_INDEX, hte_pvCtx = HT_CTX_FREE\<rparr>"
  let ?es1 = "?es[?i := ?f]"
  have F: "distinct fl" "set fl = free_idx ?es" "chain_ok ?es fl"
    "unat (ht_cCurAllocated t) + length fl = length ?es"
    "ht_iFreeHead t = (if fl = [] then NIL_RTHT_INDEX else of_nat (hd fl))"
    "ht_iFreeTail t = (if fl = [] then NIL_RTHT_INDEX else of_nat (last fl))"
    using fl by (auto simp: ht_free_def)
  have nin: "?i \<notin> set fl" using used F(2) by simp
  have cnt: "unat (ht_cCurAllocated t - 1) + 1 = unat (ht_cCurAllocated t)"
  proof -
    have "card (free_idx ?es) < length ?es"
    proof -
      have "free_idx ?es \<subset> {..<length ?es}" using i used by (auto simp: free_idx_def)
      then show ?thesis using psubset_card_mono [of "{..<length ?es}" "free_idx ?es"] by simp
    qed
    then have "length fl < length ?es" using F(1,2) distinct_card [of fl] by simp
    then have "0 < unat (ht_cCurAllocated t)" using F(4) by simp
    then show ?thesis using unat_dec [of "ht_cCurAllocated t"] by simp
  qed
  have ch1: "chain_ok ?es1 fl" using F(3) nin by (simp add: chain_ok_update)
  have fi1: "free_idx ?es1 = insert ?i (set fl)" using i F(2) by (simp add: free_idx_update)
  show thesis
  proof (cases "fl = []")
    case True
    define t' where "t' = (ht_store t h ?f)\<lparr>ht_iFreeHead := h, ht_iFreeTail := h,
      ht_cCurAllocated := ht_cCurAllocated t - 1\<rparr>"
    have r: "ht_link_free t h = Some t'"
      using F(6) True by (simp add: ht_link_free_def Let_def t'_def)
    have "ht_sizes t'" using sz by (simp add: ht_sizes_def t'_def)
    moreover have "ht_free t' (fl @ [?i])"
      using True fi1 F(4) cnt by (simp add: ht_free_def t'_def)
    ultimately show thesis using that [OF r] by (simp add: t'_def)
  next
    case False
    let ?l = "last fl"
    let ?p = "(?es ! ?l)\<lparr>hte_pvObj := RTHT_SET_FREE_IDX h\<rparr>"
    have lin: "?l \<in> set fl" using False by simp
    then have l: "?l < length ?es" "?l \<noteq> ?i" using F(2) free_idx_lt nin by auto
    have ul: "unat (of_nat ?l :: u32) = ?l" "(of_nat ?l :: u32) \<noteq> NIL_RTHT_INDEX"
      using of_nat_idx [of ?l] of_nat_idx_not_NIL [of ?l] l ht_sizes_bound [OF sz] by auto
    define t' where "t' = (ht_store (ht_store t h ?f) (of_nat ?l) ?p)\<lparr>ht_iFreeTail := h,
      ht_cCurAllocated := ht_cCurAllocated t - 1\<rparr>"
    have sz1: "ht_sizes (ht_store t h ?f)" using sz by (simp add: ht_sizes_def)
    have r: "ht_link_free t h = Some t'"
      using F(6) False ul l
      by (simp add: ht_link_free_def Let_def t'_def lookup_idx [OF sz1])
    have e: "ht_entries t' = ?es1[?l := ?p]" by (simp add: t'_def ht_store_def ul)
    have "chain_ok (?es1[?l := ?p]) (fl @ [?i])"
      using ch1 False F(1) l i by (simp add: chain_ok_append chain_ok_update_last)
    moreover have "free_idx (?es1[?l := ?p]) = set (fl @ [?i])"
      using fi1 l lin by (auto simp: free_idx_update)
    ultimately have "ht_free t' (fl @ [?i])"
      using F(1,4,5) False nin cnt unfolding ht_free_def e by (simp add: t'_def)
    moreover have "ht_sizes t'" using sz by (simp add: ht_sizes_def t'_def)
    moreover have "\<forall>k. k < length ?es \<and> k \<notin> free_idx ?es \<and> k \<noteq> ?i \<longrightarrow> ht_entries t' ! k = ?es ! k"
      using lin F(2) unfolding e by (metis nth_list_update_neq)
    ultimately show thesis using that [OF r] by (simp add: t'_def)
  qed
qed

text \<open>The table grows by one second level table, whoever expanded it before.\<close>

lemma new_table_nth:
  "k < 2048 \<Longrightarrow> ht_new_table c ! k = \<lparr>hte_pvObj = RTHT_SET_FREE_IDX (if k < 2047 then of_nat k + 1 + c else NIL_RTHT_INDEX),
     hte_pvCtx = HT_CTX_FREE\<rparr>"
  by (simp add: ht_new_table_def)

lemma length_new_table [simp]: "length (ht_new_table c) = 2048"
  by (simp add: ht_new_table_def)

lemma chain_upt:
  "\<forall>k. a \<le> k \<and> k + 1 < b \<longrightarrow> RTHT_GET_FREE_IDX (hte_pvObj (es ! k)) = of_nat (k + 1) \<Longrightarrow>
   chain_ok es [a..<b]"
proof (induction "b - a" arbitrary: a)
  case (Suc n)
  then have *: "[a..<b] = a # [Suc a..<b]" by (simp add: upt_conv_Cons)
  have "chain_ok es [Suc a..<b]" using Suc by (intro Suc.hyps(1)) auto
  moreover have "Suc a < b \<Longrightarrow> [Suc a..<b] = Suc a # [Suc (Suc a)..<b]" by (simp add: upt_conv_Cons)
  ultimately show ?case using Suc.prems unfolding *
    by (cases "Suc a < b") (auto simp del: upt_Suc)
qed simp

lemma free_idx_append:
  "free_idx (es @ es') = free_idx es \<union> (\<lambda>i. i + length es) ` free_idx es'"
proof -
  have "x \<in> (\<lambda>i. i + length es) ` free_idx es'"
    if "x < length es + length es'" "\<not> x < length es" "RTHT_IS_FREE (hte_pvObj (es' ! (x - length es)))" for x
    using that by (intro image_eqI [of _ _ "x - length es"]) (auto simp: free_idx_def)
  then show ?thesis by (auto simp: free_idx_def nth_append)
qed

lemma free_idx_new: "free_idx (ht_new_table c) = {..<2048}"
  by (auto simp: free_idx_def new_table_nth)

lemma dvd_step: "(m::nat) dvd a \<Longrightarrow> m dvd b \<Longrightarrow> a < b \<Longrightarrow> a + m \<le> b"
  by (metis dvd_diff_nat dvd_imp_le le_add_diff_inverse less_imp_le_nat nat_add_left_cancel_le zero_less_diff)

lemma expand_cur:
  assumes sz: "ht_sizes t" and lt: "ht_cCur t < ht_cMax t"
  shows "unat (ht_cCur t + 2048) = unat (ht_cCur t) + 2048" "unat (ht_cCur t) + 2048 \<le> unat (ht_cMax t)"
    "2048 dvd unat (ht_cCur t) + 2048"
proof -
  show le: "unat (ht_cCur t) + 2048 \<le> unat (ht_cMax t)"
    by (rule dvd_step) (use sz lt in \<open>auto simp: ht_sizes_def word_less_nat_alt\<close>)
  then have "unat (ht_cCur t) + 2048 < 2 ^ 32" using sz by (simp add: ht_sizes_def)
  then show "unat (ht_cCur t + 2048) = unat (ht_cCur t) + 2048"
    by (simp add: unat_word_ariths)
  show "2048 dvd unat (ht_cCur t) + 2048" using sz by (simp add: ht_sizes_def)
qed

lemma expand_ok:
  assumes sz: "ht_sizes t" and fl: "ht_free t fl" and lv: "unat cLevel1 \<le> unat (ht_cMax t) div 2048"
  obtains t' fl' where "rtHandleTableExpand t cLevel1 = Some t'" "ht_sizes t'" "ht_free t' (fl @ fl')"
    "ht_uBase t' = ht_uBase t" "ht_cMax t' = ht_cMax t"
    "\<forall>h. ht_map t' h = ht_map t h"
    "ht_cCur t < ht_cMax t \<and> unat (ht_cCur t) div 2048 < max (unat cLevel1) (unat (ht_cLevel1 t)) \<longrightarrow> fl' \<noteq> []"
proof -
  let ?es = "ht_entries t"
  let ?n = "length ?es"
  let ?t1 = "if cLevel1 \<noteq> 0 \<and> ht_cLevel1 t < cLevel1 then t\<lparr>ht_cLevel1 := cLevel1\<rparr> else t"
  have sz1: "ht_sizes ?t1" using sz lv by (auto simp: ht_sizes_def word_less_nat_alt)
  have n: "?n = unat (ht_cCur t)" using sz by (simp add: ht_sizes_def)
  have cur: "ht_cCur t = of_nat ?n" by (simp add: n)
  have F: "distinct fl" "set fl = free_idx ?es" "chain_ok ?es fl"
    "unat (ht_cCurAllocated t) + length fl = ?n"
    "ht_iFreeHead t = (if fl = [] then NIL_RTHT_INDEX else of_nat (hd fl))"
    "ht_iFreeTail t = (if fl = [] then NIL_RTHT_INDEX else of_nat (last fl))"
    using fl by (auto simp: ht_free_def)
  show thesis
  proof (cases "ht_cCur ?t1 div 2048 < ht_cLevel1 ?t1 \<and> ht_cCur ?t1 < ht_cMax ?t1")
    case False
    have r: "rtHandleTableExpand t cLevel1 = Some ?t1"
      using False by (simp only: rtHandleTableExpand_def Let_def if_False)
    have m: "ht_map ?t1 h = ht_map t h" for h
      by (simp add: ht_map_idx [OF sz] ht_map_idx [OF sz1])
    have f: "ht_free ?t1 (fl @ [])" using fl by (simp add: ht_free_def)
    show thesis
      by (rule that [OF r sz1 f])
        (use m False in \<open>auto simp: word_less_nat_alt unat_div word_le_nat_alt not_less split: if_splits\<close>)
  next
    case True
    have lt: "ht_cCur t < ht_cMax t" using True by (auto split: if_splits)
    have lv1: "unat (ht_cCur t) div 2048 < unat (ht_cLevel1 ?t1)"
      using True by (auto simp: word_less_nat_alt unat_div split: if_splits)
    note C = expand_cur [OF sz lt]
    let ?nt = "ht_new_table (ht_cCur t)" and ?fl' = "[?n..<?n + 2048]"
    let ?es1 = "?es @ ?nt"
    let ?es2 = "if fl = [] then ?es1 else ?es1[last fl := (?es ! last fl)\<lparr>hte_pvObj := RTHT_SET_FREE_IDX (ht_cCur t)\<rparr>]"
    have fll: "i < ?n" if "i \<in> set fl" for i using that F(2) free_idx_lt by auto
    have l: "last fl < ?n" "unat (of_nat (last fl) :: u32) = last fl" "(of_nat (last fl) :: u32) \<noteq> NIL_RTHT_INDEX"
      if "fl \<noteq> []"
      using that fll [of "last fl"] of_nat_idx [of "last fl"] of_nat_idx_not_NIL [of "last fl"]
        ht_sizes_bound [OF sz] by auto
    define t' where "t' = ?t1\<lparr>ht_entries := ?es2, ht_iFreeHead := (if fl = [] then ht_cCur t else ht_iFreeHead t),
      ht_iFreeTail := ht_cCur t + 2048 - 1, ht_cCur := ht_cCur t + 2048\<rparr>"
    have r: "rtHandleTableExpand t cLevel1 = Some t'"
    proof (cases "fl = []")
      case True
      then show ?thesis
        using F(6) \<open>ht_cCur ?t1 div 2048 < ht_cLevel1 ?t1 \<and> ht_cCur ?t1 < ht_cMax ?t1\<close>
        unfolding rtHandleTableExpand_def t'_def Let_def by (simp split: if_splits)
    next
      case False
      then have lk: "rtHandleTableLookupWithCtxIdx (?t1\<lparr>ht_entries := ?es1\<rparr>) (ht_iFreeTail t) = Some (?es ! last fl)"
        using F(6) l [OF False] n
        by (simp add: rtHandleTableLookupWithCtxIdx_def word_less_nat_alt nth_append)
      from False lk show ?thesis
        using F(6) l [OF False] \<open>ht_cCur ?t1 div 2048 < ht_cLevel1 ?t1 \<and> ht_cCur ?t1 < ht_cMax ?t1\<close>
        unfolding rtHandleTableExpand_def t'_def Let_def
        by (cases "cLevel1 \<noteq> 0 \<and> ht_cLevel1 t < cLevel1") (auto simp: ht_store_def simp del: de_Morgan_conj)
    qed
    have sz': "ht_sizes t'"
      using sz1 C n lv1 unfolding ht_sizes_def t'_def by (auto split: if_splits)
    have fi1: "free_idx ?es1 = set fl \<union> {?n..<?n + 2048}"
    proof -
      have "(\<lambda>i. i + ?n) ` {..<2048} = {?n..<?n + 2048}"
        by (simp add: lessThan_atLeast0 add.commute)
      then show ?thesis using F(2) by (simp add: free_idx_append free_idx_new)
    qed
    have fi2: "free_idx ?es2 = set (fl @ ?fl')"
    proof (cases "fl = []")
      case True
      then show ?thesis using fi1 by simp
    next
      case False
      have "free_idx (?es1[last fl := (?es ! last fl)\<lparr>hte_pvObj := RTHT_SET_FREE_IDX (ht_cCur t)\<rparr>]) =
          insert (last fl) (free_idx ?es1)"
        by (subst free_idx_update) (use l [OF False] in simp_all)
      also have "\<dots> = set (fl @ ?fl')" unfolding fi1 using False by auto
      finally show ?thesis using False by (simp only: if_False)
    qed
    have new: "RTHT_GET_FREE_IDX (hte_pvObj (?es1 ! k)) = of_nat (k + 1)" if "?n \<le> k" "k + 1 < ?n + 2048" for k
    proof -
      have "(of_nat (k - ?n) :: u32) + 1 + of_nat ?n = of_nat (k + 1)"
        using that by (simp flip: of_nat_add add: algebra_simps)
      moreover have "k - ?n < 2047" using that by arith
      ultimately show ?thesis using that by (simp add: nth_append new_table_nth cur)
    qed
    have ch1: "chain_ok ?es1 fl" "chain_ok ?es1 ?fl'"
      using F(3) fll new by (auto simp: chain_ok_prefix intro!: chain_upt simp del: of_nat_Suc)
    have ch: "chain_ok ?es2 (fl @ ?fl')"
    proof (cases "fl = []")
      case False
      have "last fl \<notin> set ?fl'" using l [OF False] by auto
      then show ?thesis
        using False ch1 F(1) l [OF False] cur
        by (auto simp: chain_ok_append chain_ok_update_last chain_ok_update hd_append)
    qed (use ch1 in simp)
    have "ht_free t' (fl @ ?fl')"
    proof -
      have "distinct (fl @ ?fl')" using F(1) fll by fastforce
      moreover have "ht_cCur t + 2048 - 1 = of_nat (?n + 2047)" by (simp add: cur)
      moreover have "hd (fl @ ?fl') = (if fl = [] then ?n else hd fl)" "last (fl @ ?fl') = ?n + 2047"
        by (simp_all add: hd_append del: upt_rec_numeral upt_Suc)
      ultimately show ?thesis
        using fi2 ch F(4,5) cur unfolding ht_free_def by (auto simp: t'_def split: if_splits)
    qed
    moreover have "ht_map t' h = ht_map t h" for h
    proof -
      let ?i = "unat (h - ht_uBase t)"
      have "?i < length ?es2 \<and> ?i \<notin> free_idx ?es2 \<longleftrightarrow> ?i < ?n \<and> ?i \<notin> free_idx ?es"
        using fi2 F(2) by auto
      moreover have "?es2 ! ?i = ?es ! ?i" if "?i < ?n" "?i \<notin> free_idx ?es"
      proof -
        have "?i \<noteq> last fl" if "fl \<noteq> []" using that F(2) \<open>?i \<notin> free_idx ?es\<close> last_in_set by metis
        then show ?thesis using that by (auto simp: nth_append nth_list_update_neq)
      qed
      ultimately show ?thesis
        unfolding ht_map_idx [OF sz] ht_map_idx [OF sz'] Let_def by (auto simp: t'_def)
    qed
    ultimately show thesis
      by (intro that [OF r sz' , of ?fl']) (auto simp: t'_def)
  qed
qed

lemma alloc_take_map:
  assumes sz: "ht_sizes t" and fl: "ht_free t fl" "fl \<noteq> []" and nf: "\<not> RTHT_IS_FREE pvObj"
  obtains h t' where "rtHandleTableAllocTry t pvObj pvCtx = Some (Inl (VINF_SUCCESS, h, t'))" "ht_ok t'"
    "ht_map t h = None" "ht_map t' = (ht_map t)(h \<mapsto> (pvObj, pvCtx))" "ht_uBase t' = ht_uBase t"
proof -
  let ?es = "ht_entries t" and ?e = "\<lparr>hte_pvObj = pvObj, hte_pvCtx = pvCtx\<rparr>"
  obtain i r where ir: "fl = i # r" using fl(2) by (cases fl) auto
  obtain t' where t': "rtHandleTableAllocTry t pvObj pvCtx = Some (Inl (VINF_SUCCESS, of_nat i + ht_uBase t, t'))"
    "ht_sizes t'" "ht_free t' r" "ht_uBase t' = ht_uBase t" "ht_entries t' = ?es[i := ?e]"
    by (rule alloc_take [OF sz fl(1) [unfolded ir] nf])
  have i: "i < length ?es" "i \<in> free_idx ?es"
    using fl(1) free_idx_lt unfolding ht_free_def ir by auto
  have ui: "unat (of_nat i :: u32) = i" by (rule of_nat_idx) (use i ht_sizes_bound [OF sz] in simp)
  have "ht_map t' = (ht_map t)(of_nat i + ht_uBase t \<mapsto> (pvObj, pvCtx))"
  proof
    fix h show "ht_map t' h = ((ht_map t)(of_nat i + ht_uBase t \<mapsto> (pvObj, pvCtx))) h"
  proof (cases "unat (h - ht_uBase t) = i")
    case True
    then have "h - ht_uBase t = of_nat i" using ui by (simp add: word_unat_eq_iff)
    then have "h = of_nat i + ht_uBase t" by (simp add: diff_eq_eq)
    then show ?thesis
      using i nf by (simp add: ht_map_idx [OF t'(2)] t'(4,5) Let_def ui free_idx_update)
  next
    case False
    then have "h \<noteq> of_nat i + ht_uBase t" using ui by auto
    then show ?thesis
      using False i nf by (simp add: ht_map_idx [OF t'(2)] ht_map_idx [OF sz] t'(4,5) Let_def free_idx_update)
  qed
  qed
  moreover have "ht_map t (of_nat i + ht_uBase t) = None"
    using i by (simp add: ht_map_idx [OF sz] Let_def ui)
  moreover have "ht_ok t'" using t'(2,3) by (auto simp: ht_ok_def)
  ultimately show thesis using that [OF t'(1)] t'(4) by blast
qed

text \<open>
  The table is full when all handles of its range are in use; it never expands otherwise than
  by a table with free entries, so the allocation loop makes at most two rounds.
\<close>

definition ht_full :: "RTHANDLETABLEINT \<Rightarrow> bool" where
  "ht_full t \<longleftrightarrow> (\<forall>h. unat (h - ht_uBase t) < unat (ht_cMax t) \<longrightarrow> ht_map t h \<noteq> None)"

lemma alloc_try_cases:
  assumes sz: "ht_sizes t" and fl: "ht_free t []"
  shows "(ht_cMax t = ht_cCur t \<and> ht_full t \<and>
           rtHandleTableAllocTry t pvObj pvCtx = Some (Inl (VERR_NO_MORE_HANDLES, ht_uBase t - 1, t))) \<or>
         (\<exists>c. ht_cCur t < ht_cMax t \<and> rtHandleTableAllocTry t pvObj pvCtx = Some (Inr c) \<and>
           unat c \<le> unat (ht_cMax t) div 2048 \<and>
           unat (ht_cCur t) div 2048 < max (unat c) (unat (ht_cLevel1 t)))"
proof -
  have F: "free_idx (ht_entries t) = {}" "ht_iFreeHead t = NIL_RTHT_INDEX"
    using fl by (auto simp: ht_free_def)
  have S: "length (ht_entries t) = unat (ht_cCur t)" "unat (ht_cCur t) \<le> unat (ht_cMax t)"
    "2048 dvd unat (ht_cCur t)" "2048 dvd unat (ht_cMax t)" "unat (ht_cMax t) \<le> 0xfffff800"
    "unat (ht_cCur t) div 2048 \<le> unat (ht_cLevel1 t)" "unat (ht_cLevel1 t) \<le> unat (ht_cMax t) div 2048"
    using sz by (auto simp: ht_sizes_def)
  show ?thesis
  proof (cases "ht_cMax t \<le> ht_cCur t")
    case True
    then have e: "ht_cMax t = ht_cCur t" using S(2) by (simp add: word_le_nat_alt word_unat_eq_iff)
    have "ht_full t" unfolding ht_full_def
      using F(1) S(1) e by (simp add: ht_map_idx [OF sz] Let_def)
    then show ?thesis using True F(2) e by (simp add: rtHandleTableAllocTry_def)
  next
    case False
    then have lt: "unat (ht_cCur t) < unat (ht_cMax t)" by (simp add: word_le_nat_alt)
    then have d: "unat (ht_cCur t) div 2048 < unat (ht_cMax t) div 2048"
      using div_le_mono [OF dvd_step [OF S(3,4)], of 2048] by simp
    let ?c0 = "if ht_cLevel1 t \<le> ht_cCur t div 2048 then ht_cLevel1 t + 512 else 0"
    let ?c = "if ht_cMax t div 2048 < ?c0 then ht_cMax t div 2048 else ?c0"
    have r: "rtHandleTableAllocTry t pvObj pvCtx = Some (Inr ?c)"
      using False F(2) by (simp add: rtHandleTableAllocTry_def Let_def)
    have u: "unat (ht_cMax t div 2048) = unat (ht_cMax t) div 2048" "unat (ht_cCur t div 2048) = unat (ht_cCur t) div 2048"
      by (simp_all add: unat_div)
    have le: "unat ?c \<le> unat (ht_cMax t) div 2048"
      using u by (auto simp: word_less_nat_alt not_less)
    have "unat (ht_cCur t) div 2048 < max (unat ?c) (unat (ht_cLevel1 t))"
    proof (cases "ht_cLevel1 t \<le> ht_cCur t div 2048")
      case True
      have "unat (ht_cLevel1 t) + 512 < 2 ^ 32" using S(5,7) by simp
      then have "unat (ht_cLevel1 t + 512) = unat (ht_cLevel1 t) + 512" by (simp add: unat_word_ariths)
      moreover have "unat (ht_cLevel1 t) = unat (ht_cCur t) div 2048"
        using True S(6) u(2) by (simp add: word_le_nat_alt)
      ultimately show ?thesis using True d u(1) by (auto simp: word_less_nat_alt)
    next
      case False
      then show ?thesis using u(2) by (simp add: word_le_nat_alt)
    qed
    with r le lt show ?thesis by (auto simp: word_less_nat_alt simp del: de_Morgan_disj de_Morgan_conj)
  qed
qed

lemma alloc_ok:
  assumes ok: "ht_ok t" and nf: "\<not> RTHT_IS_FREE pvObj"
  obtains (alloc) h t' where "rtHandleTableAllocLoop f1 f2 pvObj pvCtx t = Some (VINF_SUCCESS, h, t')" "ht_ok t'"
      "ht_map t h = None" "ht_map t' = (ht_map t)(h \<mapsto> (pvObj, pvCtx))"
    | (full) "rtHandleTableAllocLoop f1 f2 pvObj pvCtx t = Some (VERR_NO_MORE_HANDLES, ht_uBase t - 1, t)" "ht_full t"
    | (nomem) "rtHandleTableAllocLoop f1 f2 pvObj pvCtx t = Some (VERR_NO_MEMORY, ht_uBase t - 1, t)" "\<not> (f1 \<and> f2)"
proof -
  obtain fl where sz: "ht_sizes t" and fl: "ht_free t fl" using ok by (auto simp: ht_ok_def)
  show thesis
  proof (cases "fl = []")
    case False
    obtain h t' where t': "rtHandleTableAllocTry t pvObj pvCtx = Some (Inl (VINF_SUCCESS, h, t'))" "ht_ok t'"
      "ht_map t h = None" "ht_map t' = (ht_map t)(h \<mapsto> (pvObj, pvCtx))"
      by (rule alloc_take_map [OF sz fl False nf])
    then show thesis using alloc by (simp add: rtHandleTableAllocLoop.simps)
  next
    case True
    from alloc_try_cases [OF sz fl [unfolded True], of pvObj pvCtx] show thesis
    proof (elim disjE exE conjE)
      assume "rtHandleTableAllocTry t pvObj pvCtx = Some (Inl (VERR_NO_MORE_HANDLES, ht_uBase t - 1, t))" "ht_full t"
      then show thesis using full by (simp add: rtHandleTableAllocLoop.simps)
    next
      fix c assume c: "ht_cCur t < ht_cMax t" "rtHandleTableAllocTry t pvObj pvCtx = Some (Inr c)"
        "unat c \<le> unat (ht_cMax t) div 2048" "unat (ht_cCur t) div 2048 < max (unat c) (unat (ht_cLevel1 t))"
      obtain t1 fl1 where t1: "rtHandleTableExpand t c = Some t1" "ht_sizes t1" "ht_free t1 (fl @ fl1)"
        "\<forall>h. ht_map t1 h = ht_map t h"
        and ne: "ht_cCur t < ht_cMax t \<and> unat (ht_cCur t) div 2048 < max (unat c) (unat (ht_cLevel1 t)) \<longrightarrow> fl1 \<noteq> []"
        by (rule expand_ok [OF sz fl c(3)])
      have "fl @ fl1 \<noteq> []" using ne c(1,4) by simp
      then obtain h t' where t': "rtHandleTableAllocTry t1 pvObj pvCtx = Some (Inl (VINF_SUCCESS, h, t'))" "ht_ok t'"
        "ht_map t1 h = None" "ht_map t' = (ht_map t1)(h \<mapsto> (pvObj, pvCtx))"
        by (rule alloc_take_map [OF t1(2,3) _ nf])
      have m: "ht_map t1 = ht_map t" using t1(4) by auto
      consider "c \<noteq> 0 \<and> \<not> f1 \<or> \<not> f2" | "\<not> (c \<noteq> 0 \<and> \<not> f1)" "f2" by blast
      then show thesis
      proof cases
        case 1
        then show thesis using nomem c(2) by (auto simp: rtHandleTableAllocLoop.simps [of _ _ _ _ t])
      next
        case 2
        have "rtHandleTableAllocLoop f1 f2 pvObj pvCtx t = rtHandleTableAllocLoop f1 f2 pvObj pvCtx t1"
          using 2 c(2) t1(1) by (auto simp: rtHandleTableAllocLoop.simps [of _ _ _ _ t])
        also have "\<dots> = Some (VINF_SUCCESS, h, t')"
          using t'(1) by (simp add: rtHandleTableAllocLoop.simps)
        finally show thesis using alloc t'(2-4) m by simp
      qed
    qed
  qed
qed

lemma free_map:
  assumes ok: "ht_ok t" and m: "ht_map t h = Some v"
  obtains t' where "ht_link_free t (h - ht_uBase t) = Some t'" "ht_ok t'" "ht_map t' = (ht_map t)(h := None)"
proof -
  obtain fl where sz: "ht_sizes t" and fl: "ht_free t fl" using ok by (auto simp: ht_ok_def)
  let ?i = "unat (h - ht_uBase t)" and ?es = "ht_entries t"
  have i: "?i < length ?es" "?i \<notin> free_idx ?es"
    using m by (auto simp: ht_map_idx [OF sz] Let_def split: if_splits)
  obtain t' where t': "ht_link_free t (h - ht_uBase t) = Some t'" "ht_sizes t'" "ht_free t' (fl @ [?i])"
    "ht_uBase t' = ht_uBase t" "length (ht_entries t') = length ?es"
    "\<forall>k. k < length ?es \<and> k \<notin> free_idx ?es \<and> k \<noteq> ?i \<longrightarrow> ht_entries t' ! k = ?es ! k"
    by (rule link_free_ok [OF sz fl i])
  have fi: "free_idx (ht_entries t') = insert ?i (free_idx ?es)"
    using t'(3) fl by (auto simp: ht_free_def)
  have "ht_map t' k = ((ht_map t)(h := None)) k" for k
  proof (cases "k = h")
    case True
    then show ?thesis using fi by (simp add: ht_map_idx [OF t'(2)] t'(4) Let_def)
  next
    case False
    then have "unat (k - ht_uBase t) \<noteq> ?i" by (simp add: unat_handle_inj)
    then show ?thesis using False fi t'(5,6)
      by (auto simp: ht_map_idx [OF t'(2)] ht_map_idx [OF sz] t'(4) Let_def)
  qed
  then have "ht_map t' = (ht_map t)(h := None)" by blast
  moreover have "ht_ok t'" using t'(2,3) by (auto simp: ht_ok_def)
  ultimately show thesis using that [OF t'(1)] by blast
qed

subsection \<open>Lookup and free against the map\<close>

lemma ht_map_entry:
  "ht_map t h = Some (ob, c) \<longleftrightarrow>
     (\<exists>e. rtHandleTableLookupWithCtx t h = Some e \<and> \<not> RTHT_IS_FREE (hte_pvObj e) \<and> hte_pvObj e = ob \<and> hte_pvCtx e = c)"
  by (auto simp: ht_map_def split: option.splits if_splits)

lemma RTHandleTableLookupWithCtx_map:
  "RTHandleTableLookupWithCtx f x t h c =
     (case ht_map t h of
        Some (ob, c') \<Rightarrow> if c' = c then ht_retain f x ob else Some (0, x)
      | None \<Rightarrow> Some (0, x))"
  by (auto simp: RTHandleTableLookupWithCtx_def ht_map_def split: option.splits)

lemma RTHandleTableFreeWithCtx_map:
  "RTHandleTableFreeWithCtx f x t h c =
     (case ht_map t h of
        Some (ob, c') \<Rightarrow>
          if c' = c then
            Option.bind (ht_retain f x ob) (\<lambda>(pvObj, x').
              if pvObj \<noteq> 0 then Option.bind (ht_link_free t (h - ht_uBase t)) (\<lambda>t'. Some (pvObj, t', x'))
              else Some (0, t, x'))
          else Some (0, t, x)
      | None \<Rightarrow> Some (0, t, x))"
  by (auto simp: RTHandleTableFreeWithCtx_def ht_map_def split: option.splits)

subsection \<open>Creation and destruction\<close>

definition ht_init :: "u32 \<Rightarrow> u32 \<Rightarrow> RTHANDLETABLEINT" where
  "ht_init uBase cMax = \<lparr>ht_uBase = uBase, ht_cCur = 0, ht_cMax = cMax, ht_cCurAllocated = 0,
     ht_cLevel1 = (if cMax div 2048 < 256 then cMax div 2048 else 0),
     ht_iFreeHead = NIL_RTHT_INDEX, ht_iFreeTail = NIL_RTHT_INDEX, ht_entries = []\<rparr>"

lemma ht_init_ok:
  assumes "2048 dvd unat c" "unat c \<le> 0xfffff800"
  shows "ht_ok (ht_init b c)" "ht_map (ht_init b c) = Map.empty"
proof -
  have sz: "ht_sizes (ht_init b c)"
    using assms unfolding ht_sizes_def by (auto simp: ht_init_def word_less_nat_alt unat_div)
  have "ht_free (ht_init b c) []" by (simp add: ht_free_def free_idx_def ht_init_def)
  with sz show "ht_ok (ht_init b c)" by (auto simp: ht_ok_def)
  show "ht_map (ht_init b c) = Map.empty"
    by (rule ext) (simp add: ht_map_idx [OF sz] Let_def, simp add: ht_init_def)
qed

definition ht_round :: "u32 \<Rightarrow> u32" where
  "ht_round cMax = (((if 0xffffffff - 2048 \<le> cMax then 0xffffffff - 2048 + 1 else cMax) + 2048 - 1) div 2048) * 2048"

lemma ht_round:
  "2048 dvd unat (ht_round cMax)" "unat (ht_round cMax) \<le> 0xfffff800"
  "unat cMax \<le> unat (ht_round cMax) \<or> 0xfffff7ff \<le> unat cMax"
proof -
  define c1 where "c1 = (if 0xffffffff - 2048 \<le> cMax then 0xffffffff - 2048 + 1 else cMax)"
  have c1: "unat c1 \<le> 0xfffff800" "0xfffff7ff \<le> unat cMax \<or> c1 = cMax"
    by (auto simp: word_le_nat_alt c1_def)
  have "unat (c1 + 2048 - 1) = unat c1 + 2047"
    using c1(1) by (simp add: unat_word_ariths)
  then have d: "unat ((c1 + 2048 - 1) div 2048) = (unat c1 + 2047) div 2048"
    by (simp add: unat_div)
  have le: "(unat c1 + 2047) div 2048 \<le> 0x1fffff" using c1(1) by simp
  then have "unat (((c1 + 2048 - 1) div 2048) * 2048) = (unat c1 + 2047) div 2048 * 2048"
    by (subst unat_word_ariths(2)) (simp only: d, simp)
  then have c2: "unat (ht_round cMax) = (unat c1 + 2047) div 2048 * 2048"
    by (simp add: ht_round_def c1_def)
  show "2048 dvd unat (ht_round cMax)" unfolding c2 by simp
  show "unat (ht_round cMax) \<le> 0xfffff800" unfolding c2 using le by simp
  show "unat cMax \<le> unat (ht_round cMax) \<or> 0xfffff7ff \<le> unat cMax"
    using c1(2) unfolding c2 by auto
qed

lemma RTHandleTableCreateEx_init:
  "RTHandleTableCreateEx uBase cMax fMem rcLock =
     (if cMax = 0 \<or> \<not> uBase \<le> 0xffffffff - cMax then (VERR_INVALID_PARAMETER, None)
      else if \<not> fMem then (VERR_NO_MEMORY, None)
      else if RT_FAILURE rcLock then (rcLock, None)
      else (VINF_SUCCESS, Some (ht_init uBase (ht_round cMax))))"
  unfolding RTHandleTableCreateEx_def ht_init_def ht_round_def Let_def
  by (cases "cMax = 0"; cases "uBase \<le> 0xffffffff - cMax"; cases fMem; cases "RT_FAILURE rcLock") simp_all

lemma RTHandleTableCreateEx_ok:
  assumes "RTHandleTableCreateEx uBase cMax fMem rcLock = (rc, Some t)"
  shows "ht_ok t" "ht_map t = Map.empty"
proof -
  have t: "t = ht_init uBase (ht_round cMax)"
    using assms by (auto simp: RTHandleTableCreateEx_init split: if_splits)
  show "ht_ok t" "ht_map t = Map.empty"
    unfolding t by (rule ht_init_ok [OF ht_round(1,2)])+
qed

text \<open>Destruction walks all second level tables and so reaches every used entry once.\<close>

definition ht_used :: "RTHANDLETABLEINT \<Rightarrow> nat \<Rightarrow> nat \<Rightarrow> nat list" where
  "ht_used t a b = filter (\<lambda>i. \<not> RTHT_IS_FREE (hte_pvObj (ht_entries t ! i))) [a..<b]"

definition ht_call :: "RTHANDLETABLEINT \<Rightarrow> nat \<Rightarrow> u32 \<times> u64 \<times> u64" where
  "ht_call t i = (ht_uBase t + of_nat i, hte_pvObj (ht_entries t ! i), hte_pvCtx (ht_entries t ! i))"

lemma level2_calls: "ht_level2_calls t i1 = map (ht_call t) (ht_used t (i1 * 2048) ((i1 + 1) * 2048))"
  by (simp add: ht_level2_calls_def ht_call_def ht_used_def add.commute)

lemma ht_used_append: "a \<le> b \<Longrightarrow> b \<le> c \<Longrightarrow> ht_used t a b @ ht_used t b c = ht_used t a c"
  unfolding ht_used_def filter_append [symmetric] by (metis upt_add_eq_append le_add_diff_inverse)

lemma destroy_walk:
  assumes "2048 dvd length (ht_entries t)" "length (ht_entries t) \<le> m * 2048"
    "cLeft = length (ht_used t (k * 2048) (length (ht_entries t)))"
  shows "ht_destroy_walk t cLeft [k..<m] = map (ht_call t) (ht_used t (k * 2048) (length (ht_entries t)))"
  using assms(3)
proof (induction "m - k" arbitrary: k cLeft)
  case 0
  then have "ht_used t (k * 2048) (length (ht_entries t)) = []"
    using assms(2) by (simp add: ht_used_def)
  then show ?case using 0 by simp
next
  case (Suc n)
  let ?N = "length (ht_entries t)"
  have k: "[k..<m] = k # [Suc k..<m]" using Suc(2) by (simp add: upt_conv_Cons)
  show ?case
  proof (cases "(k + 1) * 2048 \<le> ?N")
    case True
    have split: "ht_used t (k * 2048) ?N = ht_used t (k * 2048) ((k + 1) * 2048) @ ht_used t (Suc k * 2048) ?N"
      using True ht_used_append [of "k * 2048" "(k + 1) * 2048" ?N t] by simp
    have "ht_destroy_walk t (length (ht_used t (Suc k * 2048) ?N)) [Suc k..<m] =
        map (ht_call t) (ht_used t (Suc k * 2048) ?N)"
      by (rule Suc(1)) (use Suc(2) in auto)
    then show ?thesis unfolding k Suc(3)
      using True by (simp only: ht_destroy_walk.simps level2_calls Let_def split) simp
  next
    case False
    have "?N \<le> k * 2048"
      using False assms(1) by (auto elim!: dvdE)
    then have "ht_used t (k * 2048) ?N = []" by (simp add: ht_used_def)
    then show ?thesis using Suc(3) k by simp
  qed
qed

subsection \<open>Handle tables as handle maps\<close>

definition ht_alloc :: "RTHANDLETABLEINT \<Rightarrow> u64 \<times> u64 \<Rightarrow> (u32 \<times> RTHANDLETABLEINT) option" where
  "ht_alloc t v =
     (case RTHandleTableAllocWithCtx True True t (fst v) (snd v) of
        Some (rc, h, t') \<Rightarrow> if rc = VINF_SUCCESS then Some (h, t') else None
      | None \<Rightarrow> None)"

definition ht_release :: "RTHANDLETABLEINT \<Rightarrow> u32 \<Rightarrow> RTHANDLETABLEINT option" where
  "ht_release t h = ht_link_free t (h - ht_uBase t)"

interpretation hts: handle_map ht_ok ht_map "\<lambda>v. \<not> RTHT_IS_FREE (fst v)" ht_alloc ht_release
proof unfold_locales
  fix t v h t'
  assume ok: "ht_ok t" and nf: "\<not> RTHT_IS_FREE (fst v)" and a: "ht_alloc t v = Some (h, t')"
  show "ht_ok t' \<and> ht_map t h = None \<and> ht_map t' = (ht_map t)(h \<mapsto> v)"
    by (cases rule: alloc_ok [OF ok nf, of True True "snd v"])
      (use a nf in \<open>auto simp: ht_alloc_def RTHandleTableAllocWithCtx_def\<close>)
next
  fix t h
  assume "ht_ok t" "ht_map t h \<noteq> None"
  then obtain v where "ht_map t h = Some v" by auto
  then show "\<exists>t'. ht_release t h = Some t' \<and> ht_ok t' \<and> ht_map t' = (ht_map t)(h := None)"
    using free_map [OF \<open>ht_ok t\<close>] unfolding ht_release_def by metis
qed

subsection \<open>Properties\<close>

definition ht_ex :: RTHANDLETABLEINT where
  "ht_ex = ht_init 1 2048"

lemma ht_ex_ok: "ht_ok ht_ex" "ht_map ht_ex = Map.empty"
  unfolding ht_ex_def by (rule ht_init_ok; simp)+

text \<open>
  C7: Allocating a handle always returns, however full or fragmented the table is. On success
  the handle was not in use and now maps to the object and context, no other handle changes;
  the table is refused as full only when every handle of its range is in use; a failed
  allocation of memory leaves the table alone.
\<close>

theorem RTHandleTableAllocWithCtx_refines:
  assumes "ht_ok t" "\<not> RTHT_IS_FREE pvObj"
  shows "\<exists>rc h t'. RTHandleTableAllocWithCtx f1 f2 t pvObj pvCtx = Some (rc, h, t') \<and> ht_ok t' \<and>
    (if rc = VINF_SUCCESS then ht_map t h = None \<and> ht_map t' = (ht_map t)(h \<mapsto> (pvObj, pvCtx))
     else t' = t \<and> (rc = VERR_NO_MORE_HANDLES \<and> ht_full t \<or> rc = VERR_NO_MEMORY \<and> \<not> (f1 \<and> f2)))"
  using alloc_ok [OF assms, of f1 f2 pvCtx] assms
  by (cases rule: alloc_ok [OF assms, of f1 f2 pvCtx]) (auto simp: RTHandleTableAllocWithCtx_def)

theorem RTHandleTableAllocWithCtx_refines_witness:
  "\<exists>rc h t'. RTHandleTableAllocWithCtx True True ht_ex 0x20000 4 = Some (rc, h, t') \<and> ht_ok t'"
proof -
  have "\<not> RTHT_IS_FREE 0x20000" by (simp add: RTHT_IS_FREE_def)
  from RTHandleTableAllocWithCtx_refines [OF ht_ex_ok(1) this, of True True 4] show ?thesis by blast
qed

text \<open>
  C21: Freeing a handle with the right context, when the retainer accepts, returns the object
  and removes exactly this handle; with a wrong context, an unused handle or a refusing
  retainer it returns NULL and the table does not change. A lookup returns an object exactly
  when the map has one for this handle and context and the retainer accepts.
\<close>

theorem RTHandleTableFreeWithCtx_refines:
  assumes "ht_ok t" "\<And>x ob. f x ob \<noteq> None" "ht_map t h = Some (ob, c')" "ob \<noteq> 0"
  shows "\<exists>rc x' t'. f x ob = Some (rc, x') \<and> ht_ok t' \<and>
    RTHandleTableLookupWithCtx (Some f) x t h c =
      Some (if c' = c \<and> RT_SUCCESS rc then ob else 0, if c' = c then x' else x) \<and>
    RTHandleTableFreeWithCtx (Some f) x t h c =
      Some (if c' = c \<and> RT_SUCCESS rc then ob else 0, t', if c' = c then x' else x) \<and>
    (if c' = c \<and> RT_SUCCESS rc then ht_map t' = (ht_map t)(h := None) else t' = t)"
proof -
  obtain rc x' where f: "f x ob = Some (rc, x')" using assms(2) [of x ob] by auto
  obtain t1 where t1: "ht_link_free t (h - ht_uBase t) = Some t1" "ht_ok t1" "ht_map t1 = (ht_map t)(h := None)"
    by (rule free_map [OF assms(1,3)])
  show ?thesis
  proof (intro exI conjI)
    show "f x ob = Some (rc, x')" by (rule f)
    show "ht_ok (if c' = c \<and> RT_SUCCESS rc then t1 else t)" using t1(2) assms(1) by simp
    show "RTHandleTableLookupWithCtx (Some f) x t h c =
      Some (if c' = c \<and> RT_SUCCESS rc then ob else 0, if c' = c then x' else x)"
      using f by (simp add: RTHandleTableLookupWithCtx_map assms(3) ht_retain_def RT_FAILURE_def)
    show "RTHandleTableFreeWithCtx (Some f) x t h c =
      Some (if c' = c \<and> RT_SUCCESS rc then ob else 0, if c' = c \<and> RT_SUCCESS rc then t1 else t,
        if c' = c then x' else x)"
      using f assms(4) t1(1) by (simp add: RTHandleTableFreeWithCtx_map assms(3) ht_retain_def RT_FAILURE_def)
    show "if c' = c \<and> RT_SUCCESS rc then ht_map (if c' = c \<and> RT_SUCCESS rc then t1 else t) = (ht_map t)(h := None)
      else (if c' = c \<and> RT_SUCCESS rc then t1 else t) = t" using t1(3) by simp
  qed
qed

theorem RTHandleTableFreeWithCtx_refines_witness:
  "\<exists>h t1 t2 x. ht_alloc ht_ex (0x20000, 4) = Some (h, t1) \<and>
     RTHandleTableFreeWithCtx (Some (\<lambda>(x::nat) _. Some (0, x))) 0 t1 h 4 = Some (0x20000, t2, x) \<and>
     ht_map t2 h = None"
proof -
  have nf: "\<not> RTHT_IS_FREE 0x20000" by (simp add: RTHT_IS_FREE_def)
  obtain h t1 where a: "ht_alloc ht_ex (0x20000, 4) = Some (h, t1)"
  proof (cases rule: alloc_ok [OF ht_ex_ok(1) nf, of True True 4])
    case (2)
    have "ht_map ht_ex 1 \<noteq> None" using 2(2) by (simp add: ht_full_def ht_ex_def ht_init_def)
    then show ?thesis using ht_ex_ok(2) by simp
  qed (use that nf in \<open>auto simp: ht_alloc_def RTHandleTableAllocWithCtx_def\<close>)
  have ok: "ht_ok t1 \<and> ht_map ht_ex h = None \<and> ht_map t1 = (ht_map ht_ex)(h \<mapsto> (0x20000, 4))"
    by (rule hts.alloc_ok [OF ht_ex_ok(1) _ a]) (simp add: nf)
  then have "ht_ok t1" "ht_map t1 h = Some (0x20000, 4)" by auto
  from RTHandleTableFreeWithCtx_refines [OF this(1) _ this(2), of "\<lambda>x _. Some (0, x)" 0 4] a
  show ?thesis by auto
qed

text \<open>
  Expanding the table after the lock was dropped is safe whatever other threads did to
  the table meanwhile, as long as they kept it well formed: no handle in use changes, and the
  free list stays consistent.
\<close>

theorem rtHandleTableExpand_race:
  assumes "ht_ok t" "unat cLevel1 \<le> unat (ht_cMax t) div 2048"
  shows "\<exists>t'. rtHandleTableExpand t cLevel1 = Some t' \<and> ht_ok t' \<and> ht_map t' = ht_map t \<and>
    ht_cMax t' = ht_cMax t \<and> ht_uBase t' = ht_uBase t"
proof -
  obtain fl where sz: "ht_sizes t" and fl: "ht_free t fl" using assms(1) by (auto simp: ht_ok_def)
  show ?thesis
    by (rule expand_ok [OF sz fl assms(2)]) (auto simp: ht_ok_def)
qed

theorem rtHandleTableExpand_race_witness:
  "\<exists>t'. rtHandleTableExpand ht_ex 0 = Some t' \<and> ht_map t' = Map.empty"
proof -
  have "unat (0::u32) \<le> unat (ht_cMax ht_ex) div 2048" by simp
  from rtHandleTableExpand_race [OF ht_ex_ok(1) this] ht_ex_ok(2) show ?thesis by auto
qed

lemma RTHandleTableDestroy_calls:
  assumes "ht_ok t"
  shows "distinct (map fst (RTHandleTableDestroy (Some t))) \<and>
    set (RTHandleTableDestroy (Some t)) = {(h, ob, c). ht_map t h = Some (ob, c)}"
proof -
  obtain fl where sz: "ht_sizes t" and fl: "ht_free t fl" using assms by (auto simp: ht_ok_def)
  let ?es = "ht_entries t" and ?N = "length (ht_entries t)"
  let ?u = "ht_used t 0 ?N"
  have us: "set ?u = {..<?N} - free_idx ?es" by (auto simp: ht_used_def free_idx_def)
  have "distinct ?u" by (simp add: ht_used_def)
  then have "length ?u = card (set ?u)" by (rule distinct_card [symmetric])
  also have "\<dots> = ?N - card (free_idx ?es)"
    unfolding us by (subst card_Diff_subset) (auto simp: free_idx_def)
  also have "card (free_idx ?es) = length fl" using fl distinct_card [of fl] by (simp add: ht_free_def)
  finally have cnt: "unat (ht_cCurAllocated t) = length ?u" using fl unfolding ht_free_def by linarith
  have S: "2048 dvd ?N" "?N \<le> unat (ht_cLevel1 t) * 2048"
    using sz by (auto simp: ht_sizes_def elim!: dvdE)
  have d: "RTHandleTableDestroy (Some t) = map (ht_call t) ?u"
    using destroy_walk [OF S, of "unat (ht_cCurAllocated t)" 0] cnt by (simp add: RTHandleTableDestroy_def)
  have lt: "i < 0xfffff800" if "i \<in> set ?u" for i using that ht_sizes_bound [OF sz] unfolding us by simp
  have ui: "unat (of_nat i :: u32) = i" if "i \<in> set ?u" for i by (rule of_nat_idx [OF lt [OF that]])
  have "inj_on (\<lambda>i. ht_uBase t + of_nat i) (set ?u)"
    by (rule inj_onI) (metis add_left_cancel ui)
  then have "distinct (map fst (map (ht_call t) ?u))"
    by (simp add: ht_call_def comp_def distinct_map ht_used_def)
  moreover have "set (map (ht_call t) ?u) = {(h, ob, c). ht_map t h = Some (ob, c)}" (is "?L = ?R")
  proof
    show "?L \<subseteq> ?R"
    proof
      fix x assume "x \<in> ?L"
      then obtain i where i: "i \<in> set ?u" and x: "x = ht_call t i" unfolding set_map by blast
      have "i < ?N" "i \<notin> free_idx ?es" using i unfolding us by auto
      then have "ht_map t (ht_uBase t + of_nat i) = Some (hte_pvObj (?es ! i), hte_pvCtx (?es ! i))"
        using ui [OF i] by (simp add: ht_map_idx [OF sz] Let_def)
      then show "x \<in> ?R" by (simp add: x ht_call_def)
    qed
    show "?R \<subseteq> ?L"
    proof safe
      fix h ob c assume m: "ht_map t h = Some (ob, c)"
      let ?i = "unat (h - ht_uBase t)"
      have "?i \<in> set ?u" "ht_call t ?i = (h, ob, c)"
        using m us by (auto simp: ht_call_def ht_map_idx [OF sz] Let_def split: if_splits)
      then show "(h, ob, c) \<in> set (map (ht_call t) ?u)" by (metis image_eqI set_map)
    qed
  qed
  ultimately show ?thesis unfolding d by simp
qed

text \<open>
  Destroying a table calls the delete callback exactly once for every handle in use, in
  ascending order of the table, with the object and context the handle maps to.
\<close>

theorem RTHandleTableDestroy_once:
  assumes "ht_ok t"
  shows "distinct (map fst (RTHandleTableDestroy (Some t))) \<and>
    set (RTHandleTableDestroy (Some t)) = {(h, ob, c). ht_map t h = Some (ob, c)}"
  by (rule RTHandleTableDestroy_calls [OF assms])

theorem RTHandleTableDestroy_once_witness:
  "set (RTHandleTableDestroy (Some ht_ex)) = {}"
  using RTHandleTableDestroy_once [OF ht_ex_ok(1)] ht_ex_ok(2) by simp

end
