(* ===== verification/SupSem.thy ===== *)
theory SupSem
  imports SupObj RTHandleTable
begin

text \<open>
  Event semaphores (SUPDrvSem.c): objects whose handles live in the session's handle table,
  with the callbacks of that table from SUPDrv.c. The kernel's semaphores (\<open>RTSemEvent*\<close>,
  \<open>RTSemEventMulti*\<close>) are parameters: an operation runs the primitive, which answers a status and,
  as other threads run meanwhile, the driver's state after it; the call is recorded in the trace. The invariant \<open>sem_inv\<close> says that a session holds at least
  one reference for each of its handles.
\<close>

named_theorems sem_defs \<open>definitions of the semaphore operations\<close>

subsection \<open>Handle table callbacks\<close>

abbreviation (input) SUPDRV_HANDLE_CTX_EVENT :: u64 where "SUPDRV_HANDLE_CTX_EVENT \<equiv> 4"
abbreviation (input) SUPDRV_HANDLE_CTX_EVENT_MULTI :: u64 where "SUPDRV_HANDLE_CTX_EVENT_MULTI \<equiv> 5"

definition supdrvSessionObjHandleRetain :: "addr \<Rightarrow> supdrv \<Rightarrow> u64 \<Rightarrow> (status \<times> supdrv) option" where
  [sem_defs]: "supdrvSessionObjHandleRetain pvUser w pvObj = SUPR0ObjAddRefEx id w pvObj pvUser True False"

definition supdrvSessionObjHandleDelete :: "addr \<Rightarrow> supdrv \<Rightarrow> u64 \<Rightarrow> supdrv option" where
  [sem_defs]: "supdrvSessionObjHandleDelete pvUser w pvObj = map_option snd (SUPR0ObjRelease w pvObj pvUser)"

definition set_ht :: "supdrv \<Rightarrow> addr \<Rightarrow> RTHANDLETABLEINT \<Rightarrow> supdrv" where
  "set_ht w pSession t =
     (case w_sess w pSession of
        None \<Rightarrow> w
      | Some s \<Rightarrow> set_sess w pSession (s\<lparr>ses_hHandleTable := Some t\<rparr>))"

subsection \<open>Shared bodies\<close>

text \<open>
  The event and the multiple release event functions have the same bodies up to the object
  type, the handle context and the primitives. \<open>NIL_RTHANDLETABLE\<close> makes the IPRT functions
  fail.
\<close>

definition sem_create ::
  "nat \<Rightarrow> u64 \<Rightarrow> addr \<Rightarrow> supdrv \<Rightarrow> addr \<Rightarrow> addr \<Rightarrow> status \<Rightarrow> addr \<Rightarrow> addr \<Rightarrow> bool \<Rightarrow> bool \<Rightarrow> bool \<Rightarrow>
   (status \<times> u32 option \<times> supdrv) option" where
  [sem_defs]: "sem_create enmType ctx pfnDtor w pSession phEvent rcReal hEventReal pNew fMem f1 f2 =
     (case w_sess w pSession of
        None \<Rightarrow> None
      | Some s \<Rightarrow>
          if \<not> SUP_IS_SESSION_VALID pSession s then Some (VERR_INVALID_PARAMETER, None, w)
          else if \<not> RT_VALID_PTR phEvent then Some (VERR_INVALID_POINTER, None, w)
          else if RT_SUCCESS rcReal then
            Option.bind (SUPR0ObjRegister w pSession enmType pfnDtor hEventReal 0 pNew fMem) (\<lambda>(pvObj, w1).
              if pvObj \<noteq> 0 then
                (case ses_hHandleTable s of
                   None \<Rightarrow> map_option (\<lambda>(_, w2). (VERR_INVALID_HANDLE, None, w2)) (SUPR0ObjRelease w1 pvObj pSession)
                 | Some t \<Rightarrow>
                     Option.bind (RTHandleTableAllocWithCtx f1 f2 t pvObj ctx) (\<lambda>(rc, h32, t').
                       if RT_SUCCESS rc then Some (VINF_SUCCESS, Some h32, set_ht w1 pSession t')
                       else map_option (\<lambda>(_, w2). (rc, None, w2))
                              (SUPR0ObjRelease (set_ht w1 pSession t') pvObj pSession)))
              else Some (rcReal, None, log_ev w1 (EvSemDestroy hEventReal)))
          else Some (rcReal, None, w))"

text \<open>Handles are passed in as pointers and must fit 32 bits.\<close>

definition sem_handle :: "addr \<Rightarrow> u32 option" where
  [sem_defs]: "sem_handle hEvent = (let h32 = ucast hEvent :: u32 in if ucast h32 \<noteq> hEvent then None else Some h32)"

definition sem_close :: "u64 \<Rightarrow> supdrv \<Rightarrow> addr \<Rightarrow> addr \<Rightarrow> (status \<times> supdrv) option" where
  [sem_defs]: "sem_close ctx w pSession hEvent =
     (case w_sess w pSession of
        None \<Rightarrow> None
      | Some s \<Rightarrow>
          if \<not> SUP_IS_SESSION_VALID pSession s then Some (VERR_INVALID_PARAMETER, w)
          else if hEvent = 0 then Some (VINF_SUCCESS, w)
          else (case sem_handle hEvent of
              None \<Rightarrow> Some (VERR_INVALID_HANDLE, w)
            | Some h32 \<Rightarrow>
                (case ses_hHandleTable s of
                   None \<Rightarrow> Some (VERR_INVALID_HANDLE, w)
                 | Some t \<Rightarrow>
                     Option.bind (RTHandleTableFreeWithCtx (Some (supdrvSessionObjHandleRetain pSession)) w t h32 ctx)
                       (\<lambda>(pObj, t', w1).
                          if pObj = 0 then Some (VERR_INVALID_HANDLE, w1)
                          else Option.bind (SUPR0ObjRelease (set_ht w1 pSession t') pObj pSession)
                                 (\<lambda>(_, w2). SUPR0ObjRelease w2 pObj pSession)))))"

text \<open>
  \<open>op\<close> numbers the primitive. \<open>prim\<close> is called with the semaphore in the state that holds the
  reference; it answers the status it returns and the state the other threads leave when it returns.
\<close>

type_synonym sem_prim = "addr \<Rightarrow> supdrv \<Rightarrow> status \<times> supdrv"

definition sem_op :: "u64 \<Rightarrow> nat \<Rightarrow> supdrv \<Rightarrow> addr \<Rightarrow> addr \<Rightarrow> sem_prim \<Rightarrow> (status \<times> supdrv) option" where
  [sem_defs]: "sem_op ctx op w pSession hEvent prim =
     (case w_sess w pSession of
        None \<Rightarrow> None
      | Some s \<Rightarrow>
          if \<not> SUP_IS_SESSION_VALID pSession s then Some (VERR_INVALID_PARAMETER, w)
          else (case sem_handle hEvent of
              None \<Rightarrow> Some (VERR_INVALID_HANDLE, w)
            | Some h32 \<Rightarrow>
                (case ses_hHandleTable s of
                   None \<Rightarrow> Some (VERR_INVALID_HANDLE, w)
                 | Some t \<Rightarrow>
                     Option.bind (RTHandleTableLookupWithCtx (Some (supdrvSessionObjHandleRetain pSession)) w t h32 ctx)
                       (\<lambda>(pObj, w1).
                          if pObj = 0 then Some (VERR_INVALID_HANDLE, w1)
                          else (case w_objs w1 pObj of
                              None \<Rightarrow> None
                            | Some ob \<Rightarrow>
                                let (rc, w2) = prim (obj_pvUser1 ob) (log_ev w1 (EvSemCall op (obj_pvUser1 ob)))
                                in map_option (\<lambda>(_, w3). (rc, w3)) (SUPR0ObjRelease w2 pObj pSession))))))"

subsection \<open>The functions of SUPDrvSem.c\<close>

definition supR0SemEventDestructor :: "supdrv \<Rightarrow> addr \<Rightarrow> addr \<Rightarrow> addr \<Rightarrow> supdrv" where
  "supR0SemEventDestructor w pvObj pvUser1 pvUser2 = log_ev w (EvSemDestroy pvUser1)"

definition SUPSemEventCreate where
  [sem_defs]: "SUPSemEventCreate = sem_create SUPDRVOBJTYPE_SEM_EVENT SUPDRV_HANDLE_CTX_EVENT"

definition SUPSemEventClose where
  [sem_defs]: "SUPSemEventClose = sem_close SUPDRV_HANDLE_CTX_EVENT"

definition SUPSemEventSignal where
  [sem_defs]: "SUPSemEventSignal = sem_op SUPDRV_HANDLE_CTX_EVENT 0"

definition supR0SemEventMultiDestructor :: "supdrv \<Rightarrow> addr \<Rightarrow> addr \<Rightarrow> addr \<Rightarrow> supdrv" where
  "supR0SemEventMultiDestructor w pvObj pvUser1 pvUser2 = log_ev w (EvSemDestroy pvUser1)"

definition SUPSemEventMultiCreate where
  [sem_defs]: "SUPSemEventMultiCreate = sem_create SUPDRVOBJTYPE_SEM_EVENT_MULTI SUPDRV_HANDLE_CTX_EVENT_MULTI"

definition SUPSemEventMultiClose where
  [sem_defs]: "SUPSemEventMultiClose = sem_close SUPDRV_HANDLE_CTX_EVENT_MULTI"

definition SUPSemEventMultiSignal where
  [sem_defs]: "SUPSemEventMultiSignal = sem_op SUPDRV_HANDLE_CTX_EVENT_MULTI 0"

definition SUPSemEventMultiReset where
  [sem_defs]: "SUPSemEventMultiReset = sem_op SUPDRV_HANDLE_CTX_EVENT_MULTI 1"

text \<open>
  Waiting passes flags and a timeout to the primitive \<open>RTSemEvent(Multi)WaitEx\<close>, given
  the semaphore, the flags and the timeout.
\<close>

abbreviation (input) RTSEMWAIT_FLAGS_RELATIVE :: u32 where "RTSEMWAIT_FLAGS_RELATIVE \<equiv> 1"
abbreviation (input) RTSEMWAIT_FLAGS_ABSOLUTE :: u32 where "RTSEMWAIT_FLAGS_ABSOLUTE \<equiv> 2"
abbreviation (input) RTSEMWAIT_FLAGS_NANOSECS :: u32 where "RTSEMWAIT_FLAGS_NANOSECS \<equiv> 4"
abbreviation (input) RTSEMWAIT_FLAGS_MILLISECS :: u32 where "RTSEMWAIT_FLAGS_MILLISECS \<equiv> 8"
abbreviation (input) RTSEMWAIT_FLAGS_INDEFINITE :: u32 where "RTSEMWAIT_FLAGS_INDEFINITE \<equiv> 16"
abbreviation (input) RTSEMWAIT_FLAGS_INTERRUPTIBLE :: u32 where "RTSEMWAIT_FLAGS_INTERRUPTIBLE \<equiv> 32"
abbreviation (input) RTSEMWAIT_FLAGS_UNINTERRUPTIBLE :: u32 where "RTSEMWAIT_FLAGS_UNINTERRUPTIBLE \<equiv> 64"
abbreviation (input) RT_INDEFINITE_WAIT :: u32 where "RT_INDEFINITE_WAIT \<equiv> 0xffffffff"

type_synonym wait_prim = "addr \<Rightarrow> u32 \<Rightarrow> u64 \<Rightarrow> supdrv \<Rightarrow> status \<times> supdrv"

definition supR0SemEventWaitEx ::
  "wait_prim \<Rightarrow> supdrv \<Rightarrow> addr \<Rightarrow> addr \<Rightarrow> u32 \<Rightarrow> u64 \<Rightarrow> (status \<times> supdrv) option" where
  [sem_defs]: "supR0SemEventWaitEx prim w pSession hEvent fFlags uTimeout =
     sem_op SUPDRV_HANDLE_CTX_EVENT 2 w pSession hEvent (\<lambda>h. prim h fFlags uTimeout)"

definition supR0SemEventMultiWaitEx ::
  "wait_prim \<Rightarrow> supdrv \<Rightarrow> addr \<Rightarrow> addr \<Rightarrow> u32 \<Rightarrow> u64 \<Rightarrow> (status \<times> supdrv) option" where
  [sem_defs]: "supR0SemEventMultiWaitEx prim w pSession hEvent fFlags uTimeout =
     sem_op SUPDRV_HANDLE_CTX_EVENT_MULTI 2 w pSession hEvent (\<lambda>h. prim h fFlags uTimeout)"

definition SUPSemEventWait ::
  "wait_prim \<Rightarrow> supdrv \<Rightarrow> addr \<Rightarrow> addr \<Rightarrow> u32 \<Rightarrow> (status \<times> supdrv) option" where
  [sem_defs]: "SUPSemEventWait prim w pSession hEvent cMillies =
     (let fFlags = RTSEMWAIT_FLAGS_RELATIVE OR RTSEMWAIT_FLAGS_MILLISECS OR RTSEMWAIT_FLAGS_UNINTERRUPTIBLE;
          fFlags' = (if cMillies = RT_INDEFINITE_WAIT then fFlags OR RTSEMWAIT_FLAGS_INDEFINITE else fFlags)
      in supR0SemEventWaitEx prim w pSession hEvent fFlags' (ucast cMillies))"

definition SUPSemEventWaitNoResume ::
  "wait_prim \<Rightarrow> supdrv \<Rightarrow> addr \<Rightarrow> addr \<Rightarrow> u32 \<Rightarrow> (status \<times> supdrv) option" where
  [sem_defs]: "SUPSemEventWaitNoResume prim w pSession hEvent cMillies =
     (let fFlags = RTSEMWAIT_FLAGS_RELATIVE OR RTSEMWAIT_FLAGS_MILLISECS OR RTSEMWAIT_FLAGS_INTERRUPTIBLE;
          fFlags' = (if cMillies = RT_INDEFINITE_WAIT then fFlags OR RTSEMWAIT_FLAGS_INDEFINITE else fFlags)
      in supR0SemEventWaitEx prim w pSession hEvent fFlags' (ucast cMillies))"

definition SUPSemEventWaitNsAbsIntr ::
  "wait_prim \<Rightarrow> supdrv \<Rightarrow> addr \<Rightarrow> addr \<Rightarrow> u64 \<Rightarrow> (status \<times> supdrv) option" where
  [sem_defs]: "SUPSemEventWaitNsAbsIntr prim w pSession hEvent uNsTimeout =
     (let fFlags = RTSEMWAIT_FLAGS_ABSOLUTE OR RTSEMWAIT_FLAGS_NANOSECS OR RTSEMWAIT_FLAGS_INTERRUPTIBLE
      in supR0SemEventWaitEx prim w pSession hEvent fFlags uNsTimeout)"

definition SUPSemEventWaitNsRelIntr ::
  "wait_prim \<Rightarrow> supdrv \<Rightarrow> addr \<Rightarrow> addr \<Rightarrow> u64 \<Rightarrow> (status \<times> supdrv) option" where
  [sem_defs]: "SUPSemEventWaitNsRelIntr prim w pSession hEvent uNsTimeout =
     (let fFlags = RTSEMWAIT_FLAGS_RELATIVE OR RTSEMWAIT_FLAGS_NANOSECS OR RTSEMWAIT_FLAGS_INTERRUPTIBLE
      in supR0SemEventWaitEx prim w pSession hEvent fFlags uNsTimeout)"

definition SUPSemEventMultiWait ::
  "wait_prim \<Rightarrow> supdrv \<Rightarrow> addr \<Rightarrow> addr \<Rightarrow> u32 \<Rightarrow> (status \<times> supdrv) option" where
  [sem_defs]: "SUPSemEventMultiWait prim w pSession hEvent cMillies =
     (let fFlags = RTSEMWAIT_FLAGS_RELATIVE OR RTSEMWAIT_FLAGS_MILLISECS OR RTSEMWAIT_FLAGS_UNINTERRUPTIBLE;
          fFlags' = (if cMillies = RT_INDEFINITE_WAIT then fFlags OR RTSEMWAIT_FLAGS_INDEFINITE else fFlags)
      in supR0SemEventMultiWaitEx prim w pSession hEvent fFlags' (ucast cMillies))"

definition SUPSemEventMultiWaitNoResume ::
  "wait_prim \<Rightarrow> supdrv \<Rightarrow> addr \<Rightarrow> addr \<Rightarrow> u32 \<Rightarrow> (status \<times> supdrv) option" where
  [sem_defs]: "SUPSemEventMultiWaitNoResume prim w pSession hEvent cMillies =
     (let fFlags = RTSEMWAIT_FLAGS_RELATIVE OR RTSEMWAIT_FLAGS_MILLISECS OR RTSEMWAIT_FLAGS_INTERRUPTIBLE;
          fFlags' = (if cMillies = RT_INDEFINITE_WAIT then fFlags OR RTSEMWAIT_FLAGS_INDEFINITE else fFlags)
      in supR0SemEventMultiWaitEx prim w pSession hEvent fFlags' (ucast cMillies))"

definition SUPSemEventMultiWaitNsAbsIntr ::
  "wait_prim \<Rightarrow> supdrv \<Rightarrow> addr \<Rightarrow> addr \<Rightarrow> u64 \<Rightarrow> (status \<times> supdrv) option" where
  [sem_defs]: "SUPSemEventMultiWaitNsAbsIntr prim w pSession hEvent uNsTimeout =
     (let fFlags = RTSEMWAIT_FLAGS_ABSOLUTE OR RTSEMWAIT_FLAGS_NANOSECS OR RTSEMWAIT_FLAGS_INTERRUPTIBLE
      in supR0SemEventMultiWaitEx prim w pSession hEvent fFlags uNsTimeout)"

definition SUPSemEventMultiWaitNsRelIntr ::
  "wait_prim \<Rightarrow> supdrv \<Rightarrow> addr \<Rightarrow> addr \<Rightarrow> u64 \<Rightarrow> (status \<times> supdrv) option" where
  [sem_defs]: "SUPSemEventMultiWaitNsRelIntr prim w pSession hEvent uNsTimeout =
     (let fFlags = RTSEMWAIT_FLAGS_RELATIVE OR RTSEMWAIT_FLAGS_NANOSECS OR RTSEMWAIT_FLAGS_INTERRUPTIBLE
      in supR0SemEventMultiWaitEx prim w pSession hEvent fFlags uNsTimeout)"

subsection \<open>Invariant\<close>

definition tables_of :: "supdrv \<Rightarrow> addr \<Rightarrow> RTHANDLETABLEINT option" where
  "tables_of w sp = Option.bind (w_sess w sp) ses_hHandleTable"

definition handle_refs :: "RTHANDLETABLEINT \<Rightarrow> addr \<Rightarrow> nat" where
  "handle_refs t p = card {h. \<exists>c. ht_map t h = Some (p, c)}"

text \<open>A session holds a reference for each handle; object pointers look used and are not NULL.\<close>

definition sem_inv :: "supdrv \<Rightarrow> bool" where
  "sem_inv w \<longleftrightarrow> obj_inv w \<and>
     (\<forall>sp t. tables_of w sp = Some t \<longrightarrow>
        ht_ok t \<and> (\<forall>p. handle_refs t p \<le> obj_refs w sp p) \<and> (\<forall>h c. ht_map t h \<noteq> Some (0, c)))"

lemma tables_of_frame: "sess_frame w w' \<Longrightarrow> tables_of w' sp = tables_of w sp"
proof -
  assume f: "sess_frame w w'"
  show ?thesis
  proof (cases "w_sess w sp")
    case None
    then show ?thesis using f by (simp add: tables_of_def sess_frame_def) (metis None_eq_map_option_iff bind.bind_lzero)
  next
    case (Some s)
    obtain us where "w_sess w' sp = Some (s\<lparr>ses_pUsage := us\<rparr>)" by (rule sess_frameD [OF f Some])
    then show ?thesis using Some by (simp add: tables_of_def)
  qed
qed

lemma sess_frame_dom: "sess_frame w w' \<Longrightarrow> dom (w_sess w') = dom (w_sess w)"
proof -
  assume "sess_frame w w'"
  then have "w_sess w' k = None \<longleftrightarrow> w_sess w k = None" for k
    unfolding sess_frame_def by (metis option.map_disc_iff)
  then show ?thesis by (auto simp: dom_def)
qed

lemma handle_refs_pos: "ht_map t h = Some (p, c) \<Longrightarrow> 0 < handle_refs t p"
  unfolding handle_refs_def by (rule card_gt_0_iff [THEN iffD2]) (auto intro: finite_subset [OF _ finite])

lemma handle_refs_remove:
  assumes "ht_map t h = Some (p, c)" "ht_map t' = (ht_map t)(h := None)"
  shows "handle_refs t q = handle_refs t' q + of_bool (q = p)"
proof (cases "q = p")
  case True
  have "{k. \<exists>c. ht_map t k = Some (p, c)} = insert h {k. \<exists>c. ht_map t' k = Some (p, c)}"
    using assms by auto
  then have "handle_refs t p = Suc (handle_refs t' p)"
    unfolding handle_refs_def using assms(2) by (simp add: card_insert_disjoint)
  then show ?thesis using True by simp
next
  case False
  then have "{k. \<exists>c. ht_map t k = Some (q, c)} = {k. \<exists>c. ht_map t' k = Some (q, c)}"
    using assms by auto
  then show ?thesis using False by (simp add: handle_refs_def)
qed

lemma set_ht_sel [simp]:
  "w_objs (set_ht w sp t) = w_objs w" "w_devext (set_ht w sp t) = w_devext w" "w_trace (set_ht w sp t) = w_trace w"
  by (auto simp: set_ht_def split: option.splits)

lemma set_ht_refs [simp]: "obj_refs (set_ht w sp t) k p = obj_refs w k p"
  by (auto simp: set_ht_def obj_refs_def sess_refs_def split: option.splits)

lemma total_refs_obj_refs: "total_refs w p = (\<Sum>sp\<in>dom (w_sess w). obj_refs w sp p)"
  unfolding total_refs_def sess_total_def by (rule sum.cong) (auto simp: obj_refs_def)

lemma dom_set_ht [simp]: "dom (w_sess (set_ht w sp t)) = dom (w_sess w)"
  by (auto simp: set_ht_def split: option.splits)

lemma total_refs_set_ht [simp]: "total_refs (set_ht w sp t) p = total_refs w p"
  by (simp add: total_refs_obj_refs)

lemma set_ht_inv: "obj_inv w \<Longrightarrow> obj_inv (set_ht w sp t)"
  unfolding obj_inv_def obj_ok_def
  by (auto simp: set_ht_def usage_ok_def split: option.splits)
    (metis total_refs_set_ht set_ht_def option.simps(5))+

lemma sem_invI:
  assumes "obj_inv w" "\<And>k t. tables_of w k = Some t \<Longrightarrow>
      ht_ok t \<and> (\<forall>p. handle_refs t p \<le> obj_refs w k p) \<and> (\<forall>h c. ht_map t h \<noteq> Some (0, c))"
  shows "sem_inv w"
  using assms by (auto simp: sem_inv_def)

lemma sem_invD:
  assumes "sem_inv w"
  shows "obj_inv w" "tables_of w k = Some t \<Longrightarrow> ht_ok t" "tables_of w k = Some t \<Longrightarrow> handle_refs t p \<le> obj_refs w k p"
    "tables_of w k = Some t \<Longrightarrow> ht_map t h \<noteq> Some (0, c)"
  using assms by (auto simp: sem_inv_def)

lemma sem_handle_live:
  assumes "sem_inv w" "tables_of w sp = Some t" "ht_map t h = Some (p, c)"
  shows "p \<noteq> 0" "0 < obj_refs w sp p" "\<exists>ob. w_objs w p = Some ob"
proof -
  show "p \<noteq> 0" using sem_invD(4) [OF assms(1,2), of h c] assms(3) by auto
  show r: "0 < obj_refs w sp p"
    using sem_invD(3) [OF assms(1,2), of p] handle_refs_pos [OF assms(3)] by linarith
  show "\<exists>ob. w_objs w p = Some ob"
    using obj_alive_iff [OF sem_invD(1) [OF assms(1)], of p] r by blast
qed

subsection \<open>Handle lookups always get their reference\<close>

text \<open>
  The retainer runs under a spinlock and may not allocate, but the session already has a
  usage record for every object in its table.
\<close>

lemma retain_ok:
  assumes inv: "obj_inv w" and s: "w_sess w sp = Some s" and v: "SUP_IS_SESSION_VALID sp s"
    and r: "0 < obj_refs w sp p" and ob: "w_objs w p = Some ob" and room: "obj_room w p"
  obtains w' where "supdrvSessionObjHandleRetain sp w p = Some (VINF_SUCCESS, w')" "obj_inv w'"
    "\<forall>k y. obj_refs w' k y = obj_refs w k y + of_bool (k = sp \<and> y = p)" "sess_frame w w'"
    "w_objs w' = (w_objs w)(p \<mapsto> ob\<lparr>obj_cUsage := obj_cUsage ob + 1\<rparr>)" "w_trace w' = w_trace w"
    "total_refs w' p = total_refs w p + 1"
proof -
  have ok: "obj_ok w p ob" by (rule obj_invD(5) [OF inv s ob])
  have "find (uses p) (ses_pUsage s) \<noteq> None"
    using r obj_invD(7) [OF inv s, of p] by (auto simp: obj_refs_def s)
  then obtain u where u: "find (uses p) (ses_pUsage s) = Some u" by auto
  define w' where "w' = snd (the (supdrvSessionObjHandleRetain sp w p))"
  have e: "supdrvSessionObjHandleRetain sp w p = Some (VINF_SUCCESS, w')"
    "w_objs w' = (w_objs w)(p \<mapsto> ob\<lparr>obj_cUsage := obj_cUsage ob + 1\<rparr>)" "w_trace w' = w_trace w"
    unfolding w'_def using s v ob ok u
    by (cases "0 < dx_pUsageFree (w_devext w)";
        simp add: supdrvSessionObjHandleRetain_def SUPR0ObjAddRefEx_def obj_ok_def obj_reference_def Let_def)+
  from e(1) have e': "SUPR0ObjAddRefEx id w p sp True False = Some (VINF_SUCCESS, w')"
    by (simp add: supdrvSessionObjHandleRetain_def)
  have inv': "obj_inv w'" by (rule SUPR0ObjAddRefEx_D(1) [OF inv s v ob room e'])
  have refs: "\<forall>k y. obj_refs w' k y = obj_refs w k y + of_bool (k = sp \<and> y = p)"
    using SUPR0ObjAddRefEx_D(2) [OF inv s v ob room e'] by blast
  have f: "sess_frame w w'" by (rule SUPR0ObjAddRefEx_frame [OF e'])
  have cnt: "unat (obj_cUsage ob + 1) = unat (obj_cUsage ob) + 1"
    by (rule unat_inc) (use room ok in \<open>simp add: obj_room_def obj_ok_def\<close>)
  obtain us where s': "w_sess w' sp = Some (s\<lparr>ses_pUsage := us\<rparr>)" by (rule sess_frameD [OF f s])
  have "obj_ok w' p (ob\<lparr>obj_cUsage := obj_cUsage ob + 1\<rparr>)"
    by (rule obj_invD(5) [OF inv' s']) (simp add: e)
  then have "total_refs w' p = total_refs w p + 1" using ok cnt by (simp add: obj_ok_def)
  with that e inv' refs f show thesis by simp
qed

lemma valid_frame: "SUP_IS_SESSION_VALID sp s \<Longrightarrow> SUP_IS_SESSION_VALID sp (s\<lparr>ses_pUsage := us\<rparr>)"
  by (simp add: SUP_IS_SESSION_VALID_def)

lemma valid_ht [simp]: "SUP_IS_SESSION_VALID sp (s\<lparr>ses_hHandleTable := t\<rparr>) = SUP_IS_SESSION_VALID sp s"
  by (simp add: SUP_IS_SESSION_VALID_def)

text \<open>A release that is known to succeed.\<close>

lemma release_ok:
  assumes inv: "obj_inv w" and s: "w_sess w sp = Some s" and v: "SUP_IS_SESSION_VALID sp s"
    and r: "0 < obj_refs w sp p" and ob: "w_objs w p = Some ob"
  obtains w' where
    "SUPR0ObjRelease w p sp = Some (if total_refs w p = 1 then VINF_OBJECT_DESTROYED else VINF_SUCCESS, w')"
    "obj_inv w'" "\<forall>k y. obj_refs w k y = obj_refs w' k y + of_bool (k = sp \<and> y = p)" "sess_frame w w'"
    "w_objs w' = (w_objs w)(p := if total_refs w p = 1 then None else Some (ob\<lparr>obj_cUsage := obj_cUsage ob - 1\<rparr>))"
    "w_trace w' = w_trace w @ (if total_refs w p = 1 then obj_events p ob else [])"
proof -
  show thesis
  proof (rule SUPR0ObjRelease_ok [OF inv s v ob], goal_cases)
    case (1 rc w')
    have f: "sess_frame w w'" by (rule SUPR0ObjRelease_frame [OF 1(1)])
    have refs: "\<forall>k y. obj_refs w k y = obj_refs w' k y + of_bool (k = sp \<and> y = p)" using 1(6) r by blast
    have rc: "rc = (if total_refs w p = 1 then VINF_OBJECT_DESTROYED else VINF_SUCCESS)"
      and o: "w_objs w' = (w_objs w)(p := if total_refs w p = 1 then None else Some (ob\<lparr>obj_cUsage := obj_cUsage ob - 1\<rparr>))"
      and tr: "w_trace w' = w_trace w @ (if total_refs w p = 1 then obj_events p ob else [])"
      using 1(4,5) r by auto
    show ?case by (rule that [OF 1(1) [unfolded rc] 1(2) refs f o tr])
  qed
qed

lemma set_ht_sess: "w_sess w sp = Some s \<Longrightarrow> w_sess (set_ht w sp t) sp = Some (s\<lparr>ses_hHandleTable := Some t\<rparr>)"
  by (simp add: set_ht_def)

lemma tables_of_set_ht:
  "w_sess w sp \<noteq> None \<Longrightarrow> tables_of (set_ht w sp t) k = (if k = sp then Some t else tables_of w k)"
  by (auto simp: set_ht_def tables_of_def)

lemma total_refs_Suc:
  assumes "obj_inv w" "w_sess w sp = Some s" "\<forall>k y. obj_refs w k y = obj_refs w' k y + of_bool (k = sp \<and> y = p)"
    "obj_inv w'" "sess_frame w w'"
  shows "total_refs w p = total_refs w' p + 1"
proof -
  have fin: "finite (dom (w_sess w))" using assms(1) by (simp add: obj_inv_def)
  have d: "dom (w_sess w') = dom (w_sess w)"
    by (rule sess_frame_dom [OF assms(5)])
  have "total_refs w p = (\<Sum>k\<in>dom (w_sess w). obj_refs w' k p + of_bool (k = sp))"
    unfolding total_refs_obj_refs by (rule sum.cong) (use assms(3) in auto)
  also have "\<dots> = total_refs w' p + (\<Sum>k\<in>dom (w_sess w). of_bool (k = sp))"
    unfolding total_refs_obj_refs d by (rule sum.distrib)
  also have "(\<Sum>k\<in>dom (w_sess w). of_bool (k = sp)) = (1::nat)"
    using fin assms(2) by (simp add: of_bool_def sum.delta domI)
  finally show ?thesis .
qed

subsection \<open>Using a handle\<close>

lemma retain_some: "supdrvSessionObjHandleRetain sp w p = Some (VINF_SUCCESS, w') \<Longrightarrow>
  ht_retain (Some (supdrvSessionObjHandleRetain sp)) w p = Some (p, w')"
  by (simp add: ht_retain_def)

text \<open>
  The session holds a reference to the object that none of its handles stands for: the one a
  running operation took. What other threads do keeps it.
\<close>

definition sem_held :: "supdrv \<Rightarrow> addr \<Rightarrow> addr \<Rightarrow> bool" where
  "sem_held w sp p \<longleftrightarrow> sem_inv w \<and> (\<exists>s. w_sess w sp = Some s \<and> SUP_IS_SESSION_VALID sp s) \<and>
     (\<exists>t. tables_of w sp = Some t \<and> handle_refs t p < obj_refs w sp p)"

lemma sem_retain_held:
  assumes inv: "sem_inv w" and s: "w_sess w sp = Some s" and v: "SUP_IS_SESSION_VALID sp s"
    and t: "tables_of w sp = Some t" and m: "ht_map t h = Some (p, ctx)" and ob: "w_objs w p = Some ob" and room: "obj_room w p"
  obtains w1 where "RTHandleTableLookupWithCtx (Some (supdrvSessionObjHandleRetain sp)) w t h ctx = Some (p, w1)"
    "sem_held w1 sp p" "\<forall>k y. obj_refs w1 k y = obj_refs w k y + of_bool (k = sp \<and> y = p)"
    "w_objs w1 = (w_objs w)(p \<mapsto> ob\<lparr>obj_cUsage := obj_cUsage ob + 1\<rparr>)" "\<forall>k. tables_of w1 k = tables_of w k" "w_trace w1 = w_trace w"
proof -
  note I = sem_invD(1) [OF inv]
  note L = sem_handle_live [OF inv t m]
  obtain w1 where w1: "supdrvSessionObjHandleRetain sp w p = Some (VINF_SUCCESS, w1)" "obj_inv w1"
    "\<forall>k y. obj_refs w1 k y = obj_refs w k y + of_bool (k = sp \<and> y = p)" "sess_frame w w1"
    "w_objs w1 = (w_objs w)(p \<mapsto> ob\<lparr>obj_cUsage := obj_cUsage ob + 1\<rparr>)" "w_trace w1 = w_trace w"
    "total_refs w1 p = total_refs w p + 1"
    by (rule retain_ok [OF I s v L(2) ob room])
  note tab = tables_of_frame [OF w1(4)]
  have i: "sem_inv w1"
    using sem_invD [OF inv] w1(2,3) by (intro sem_invI) (auto simp: tab intro: le_SucI)
  obtain us where s1: "w_sess w1 sp = Some (s\<lparr>ses_pUsage := us\<rparr>)" by (rule sess_frameD [OF w1(4) s])
  have "handle_refs t p < obj_refs w1 sp p" using sem_invD(3) [OF inv t, of p] w1(3) by simp
  then have "sem_held w1 sp p" using i s1 valid_frame [OF v] t tab by (auto simp: sem_held_def)
  moreover have "RTHandleTableLookupWithCtx (Some (supdrvSessionObjHandleRetain sp)) w t h ctx = Some (p, w1)"
    using m retain_some [OF w1(1)] by (simp add: RTHandleTableLookupWithCtx_map)
  ultimately show thesis using that w1(3,5,6) tab by blast
qed

text \<open>Giving back such a reference.\<close>

lemma sem_release_held:
  assumes held: "sem_held w sp p"
  obtains ob w' where "w_objs w p = Some ob"
    "SUPR0ObjRelease w p sp = Some (if total_refs w p = 1 then VINF_OBJECT_DESTROYED else VINF_SUCCESS, w')" "sem_inv w'"
    "\<forall>k y. obj_refs w k y = obj_refs w' k y + of_bool (k = sp \<and> y = p)" "\<forall>k. tables_of w' k = tables_of w k"
    "w_objs w' = (w_objs w)(p := if total_refs w p = 1 then None else Some (ob\<lparr>obj_cUsage := obj_cUsage ob - 1\<rparr>))"
    "w_trace w' = w_trace w @ (if total_refs w p = 1 then obj_events p ob else [])"
proof -
  from held obtain s t where h: "sem_inv w" "w_sess w sp = Some s" "SUP_IS_SESSION_VALID sp s" "tables_of w sp = Some t"
    "handle_refs t p < obj_refs w sp p" unfolding sem_held_def by blast
  note I = sem_invD(1) [OF h(1)]
  have r: "0 < obj_refs w sp p" using h(5) by simp
  obtain ob where ob: "w_objs w p = Some ob" using obj_alive_iff [OF I, of p] r by blast
  obtain w' where w': "SUPR0ObjRelease w p sp = Some (if total_refs w p = 1 then VINF_OBJECT_DESTROYED else VINF_SUCCESS, w')"
    "obj_inv w'" "\<forall>k y. obj_refs w k y = obj_refs w' k y + of_bool (k = sp \<and> y = p)" "sess_frame w w'"
    "w_objs w' = (w_objs w)(p := if total_refs w p = 1 then None else Some (ob\<lparr>obj_cUsage := obj_cUsage ob - 1\<rparr>))"
    "w_trace w' = w_trace w @ (if total_refs w p = 1 then obj_events p ob else [])"
    by (rule release_ok [OF I h(2,3) r ob])
  note tab = tables_of_frame [OF w'(4)]
  have "handle_refs u y \<le> obj_refs w' k y" if u: "tables_of w k = Some u" for k u y
  proof (cases "k = sp \<and> y = p")
    case True
    then show ?thesis using h(4,5) u w'(3) [rule_format, of sp p] by simp
  next
    case False
    then have "obj_refs w k y = obj_refs w' k y" using w'(3) [rule_format, of k y] by auto
    then show ?thesis using sem_invD(3) [OF h(1) u, of y] by simp
  qed
  then have "sem_inv w'" using sem_invD [OF h(1)] w'(2) by (intro sem_invI) (auto simp: tab)
  with that [OF ob w'(1) _ w'(3) _ w'(5,6)] tab show thesis by blast
qed

lemma sem_held_log: "sem_held (log_ev w e) sp p = sem_held w sp p"
  using obj_inv_frame [of "log_ev w e" w] by (simp add: sem_held_def sem_inv_def tables_of_def obj_refs_def)

text \<open>
  An operation runs its primitive in a state in which the session holds one reference more.
  Whatever other threads make of that state, as long as they leave that reference, it is given back.
\<close>

lemma sem_op_ok:
  assumes inv: "sem_inv w" and s: "w_sess w sp = Some s" and v: "SUP_IS_SESSION_VALID sp s"
    and t: "tables_of w sp = Some t" and h: "sem_handle hEvent = Some h"
    and m: "ht_map t h = Some (p, ctx)" and ob: "w_objs w p = Some ob" and room: "obj_room w p"
  shows "\<exists>w1. sem_held w1 sp p \<and> (\<forall>k y. obj_refs w1 k y = obj_refs w k y + of_bool (k = sp \<and> y = p)) \<and>
    w_objs w1 = (w_objs w)(p \<mapsto> ob\<lparr>obj_cUsage := obj_cUsage ob + 1\<rparr>) \<and> (\<forall>k. tables_of w1 k = tables_of w k) \<and>
    w_trace w1 = w_trace w @ [EvSemCall op (obj_pvUser1 ob)] \<and>
    (\<forall>rc w2. prim (obj_pvUser1 ob) w1 = (rc, w2) \<and> sem_held w2 sp p \<longrightarrow>
       (\<exists>ob2 w3. w_objs w2 p = Some ob2 \<and> sem_op ctx op w sp hEvent prim = Some (rc, w3) \<and> sem_inv w3 \<and>
          (\<forall>k y. obj_refs w2 k y = obj_refs w3 k y + of_bool (k = sp \<and> y = p)) \<and> (\<forall>k. tables_of w3 k = tables_of w2 k) \<and>
          w_objs w3 = (w_objs w2)(p := if total_refs w2 p = 1 then None else Some (ob2\<lparr>obj_cUsage := obj_cUsage ob2 - 1\<rparr>)) \<and>
          w_trace w3 = w_trace w2 @ (if total_refs w2 p = 1 then obj_events p ob2 else [])))"
proof -
  obtain w1 where l: "RTHandleTableLookupWithCtx (Some (supdrvSessionObjHandleRetain sp)) w t h ctx = Some (p, w1)"
    "sem_held w1 sp p" "\<forall>k y. obj_refs w1 k y = obj_refs w k y + of_bool (k = sp \<and> y = p)"
    "w_objs w1 = (w_objs w)(p \<mapsto> ob\<lparr>obj_cUsage := obj_cUsage ob + 1\<rparr>)" "\<forall>k. tables_of w1 k = tables_of w k" "w_trace w1 = w_trace w"
    by (rule sem_retain_held [OF inv s v t m ob room])
  let ?w1 = "log_ev w1 (EvSemCall op (obj_pvUser1 ob))"
  have th: "ses_hHandleTable s = Some t" using t s by (simp add: tables_of_def)
  have e: "sem_op ctx op w sp hEvent prim =
      (let (rc, w2) = prim (obj_pvUser1 ob) ?w1 in map_option (\<lambda>(_, w3). (rc, w3)) (SUPR0ObjRelease w2 p sp))"
    using s v h th l(1,4) sem_handle_live(1) [OF inv t m] by (simp add: sem_op_def)
  have "\<exists>ob2 w3. w_objs w2 p = Some ob2 \<and> sem_op ctx op w sp hEvent prim = Some (rc, w3) \<and> sem_inv w3 \<and>
      (\<forall>k y. obj_refs w2 k y = obj_refs w3 k y + of_bool (k = sp \<and> y = p)) \<and> (\<forall>k. tables_of w3 k = tables_of w2 k) \<and>
      w_objs w3 = (w_objs w2)(p := if total_refs w2 p = 1 then None else Some (ob2\<lparr>obj_cUsage := obj_cUsage ob2 - 1\<rparr>)) \<and>
      w_trace w3 = w_trace w2 @ (if total_refs w2 p = 1 then obj_events p ob2 else [])"
    if "prim (obj_pvUser1 ob) ?w1 = (rc, w2)" "sem_held w2 sp p" for rc w2
  proof (rule sem_release_held [OF that(2)], goal_cases)
    case (1 ob2 w3)
    have "sem_op ctx op w sp hEvent prim = Some (rc, w3)" using e that(1) 1(2) by simp
    with 1(1,3-7) show ?case by blast
  qed
  moreover have "sem_held ?w1 sp p" using l(2) by (simp add: sem_held_log)
  ultimately show ?thesis
    by (intro exI [of _ ?w1]) (use l(3-6) in \<open>simp add: obj_refs_def tables_of_def\<close>)
qed

lemma sem_close_ok:
  assumes inv: "sem_inv w" and s: "w_sess w sp = Some s" and v: "SUP_IS_SESSION_VALID sp s"
    and t: "tables_of w sp = Some t" and h: "sem_handle hEvent = Some h" and nz: "hEvent \<noteq> 0"
    and m: "ht_map t h = Some (p, ctx)" and ob: "w_objs w p = Some ob" and room: "obj_room w p"
  obtains w' t' where
    "sem_close ctx w sp hEvent = Some (if total_refs w p = 1 then VINF_OBJECT_DESTROYED else VINF_SUCCESS, w')"
    "sem_inv w'" "tables_of w' sp = Some t'" "ht_map t' = (ht_map t)(h := None)"
    "\<forall>k y. obj_refs w k y = obj_refs w' k y + of_bool (k = sp \<and> y = p)"
    "p \<in> dom (w_objs w') \<longleftrightarrow> total_refs w p \<noteq> 1"
    "w_trace w' = w_trace w @ (if total_refs w p = 1 then obj_events p ob else [])"
proof -
  note I = sem_invD(1) [OF inv]
  note L = sem_handle_live [OF inv t m]
  have th: "ses_hHandleTable s = Some t" using t s by (simp add: tables_of_def)
  obtain w1 where w1: "supdrvSessionObjHandleRetain sp w p = Some (VINF_SUCCESS, w1)" "obj_inv w1"
    "\<forall>k y. obj_refs w1 k y = obj_refs w k y + of_bool (k = sp \<and> y = p)" "sess_frame w w1"
    "w_objs w1 = (w_objs w)(p \<mapsto> ob\<lparr>obj_cUsage := obj_cUsage ob + 1\<rparr>)" "w_trace w1 = w_trace w"
    "total_refs w1 p = total_refs w p + 1"
    by (rule retain_ok [OF I s v L(2) ob room])
  obtain t' where t': "ht_link_free t (h - ht_uBase t) = Some t'" "ht_ok t'" "ht_map t' = (ht_map t)(h := None)"
    by (rule free_map [OF sem_invD(2) [OF inv t] m])
  let ?w2 = "set_ht w1 sp t'"
  obtain us where s1: "w_sess w1 sp = Some (s\<lparr>ses_pUsage := us\<rparr>)" by (rule sess_frameD [OF w1(4) s])
  let ?s2 = "s\<lparr>ses_pUsage := us, ses_hHandleTable := Some t'\<rparr>"
  have s2: "w_sess ?w2 sp = Some ?s2" using set_ht_sess [OF s1] by simp
  have v2: "SUP_IS_SESSION_VALID sp ?s2" using v by (simp add: SUP_IS_SESSION_VALID_def)
  have i2: "obj_inv ?w2" by (rule set_ht_inv [OF w1(2)])
  have r2: "obj_refs ?w2 sp p = obj_refs w sp p + 1" using w1(3) by simp
  have o2: "w_objs ?w2 p = Some (ob\<lparr>obj_cUsage := obj_cUsage ob + 1\<rparr>)" by (simp add: w1)
  have t2: "total_refs ?w2 p \<noteq> 1" using w1(7) obj_invD(5) [OF I s ob] by (simp add: obj_ok_def)
  obtain w3 where w3: "SUPR0ObjRelease ?w2 p sp = Some (VINF_SUCCESS, w3)" "obj_inv w3"
    "\<forall>k y. obj_refs ?w2 k y = obj_refs w3 k y + of_bool (k = sp \<and> y = p)" "sess_frame ?w2 w3"
    "w_objs w3 = (w_objs ?w2)(p \<mapsto> ob)" "w_trace w3 = w_trace ?w2"
  proof (rule release_ok [OF i2 s2 v2 _ o2], goal_cases)
    case (2 w3)
    with that [of w3] t2 show ?case by simp
  qed (use r2 in simp)
  have r3: "\<forall>k y. obj_refs w3 k y = obj_refs w k y"
  proof (intro allI)
    fix k y show "obj_refs w3 k y = obj_refs w k y"
      using w1(3) w3(3) by (metis add_right_cancel set_ht_refs)
  qed
  obtain us3 where s3: "w_sess w3 sp = Some (?s2\<lparr>ses_pUsage := us3\<rparr>)" by (rule sess_frameD [OF w3(4) s2])
  have o3: "w_objs w3 p = Some ob" by (simp add: w3)
  have r3p: "0 < obj_refs w3 sp p" using r3 L(2) by simp
  have t3: "total_refs w3 p = total_refs w p"
    using total_refs_Suc [OF i2 s2 w3(3) w3(2,4)] w1(7) by simp
  obtain w4 where w4:
    "SUPR0ObjRelease w3 p sp = Some (if total_refs w3 p = 1 then VINF_OBJECT_DESTROYED else VINF_SUCCESS, w4)"
    "obj_inv w4" "\<forall>k y. obj_refs w3 k y = obj_refs w4 k y + of_bool (k = sp \<and> y = p)" "sess_frame w3 w4"
    "w_objs w4 = (w_objs w3)(p := if total_refs w3 p = 1 then None else Some (ob\<lparr>obj_cUsage := obj_cUsage ob - 1\<rparr>))"
    "w_trace w4 = w_trace w3 @ (if total_refs w3 p = 1 then obj_events p ob else [])"
    by (rule release_ok [OF w3(2) s3 valid_frame [OF v2] r3p o3])
  have tab: "tables_of w4 k = (if k = sp then Some t' else tables_of w k)" for k
    using tables_of_frame [OF w4(4), of k] tables_of_frame [OF w3(4), of k] tables_of_frame [OF w1(4), of k]
      tables_of_set_ht [of w1 sp t' k] s1 by simp
  have refs: "\<forall>k y. obj_refs w k y = obj_refs w4 k y + of_bool (k = sp \<and> y = p)"
    using r3 w4(3) by simp
  have "sem_inv w4"
  proof (rule sem_invI [OF w4(2)])
    fix k u assume u: "tables_of w4 k = Some u"
    show "ht_ok u \<and> (\<forall>q. handle_refs u q \<le> obj_refs w4 k q) \<and> (\<forall>h c. ht_map u h \<noteq> Some (0, c))"
    proof (cases "k = sp")
      case True
      then have u: "u = t'" using u tab by simp
      have "handle_refs t' q \<le> obj_refs w4 sp q" for q
        using handle_refs_remove [OF m t'(3), of q] sem_invD(3) [OF inv t, of q] refs [rule_format, of sp q]
        by (cases "q = p") auto
      moreover have "ht_map t' h' \<noteq> Some (0, c)" for h' c
        using sem_invD(4) [OF inv t, of h' c] t'(3) by simp
      ultimately show ?thesis using True u t'(2) by simp
    next
      case False
      then have u': "tables_of w k = Some u" using u tab by simp
      show ?thesis using sem_invD(2,3,4) [OF inv u'] refs [rule_format, of k] False by auto
    qed
  qed
  moreover have "sem_close ctx w sp hEvent =
      Some (if total_refs w p = 1 then VINF_OBJECT_DESTROYED else VINF_SUCCESS, w4)"
    using s v h nz th m L(1) retain_some [OF w1(1)] t'(1) w3(1) w4(1) t3
    by (simp add: sem_close_def RTHandleTableFreeWithCtx_map)
  ultimately show thesis
    using that [of w4 t'] tab t'(3) refs t3 w4(5,6) w3(6) w1(6) o3 by auto
qed

subsection \<open>Creating a semaphore\<close>

lemma sem_inv_register:
  assumes inv: "sem_inv w" and fresh: "pNew = 0 \<or> (RT_VALID_PTR pNew \<and> w_objs w pNew = None)"
    and r: "SUPR0ObjRegister w sp ty d u1 u2 pNew fMem = Some (p, w1)" and p: "p \<noteq> 0"
  shows "sem_inv w1" "p = pNew" "\<forall>k y. obj_refs w1 k y = obj_refs w k y + of_bool (k = sp \<and> y = p)"
    "sess_frame w w1"
proof -
  note R = SUPR0ObjRegister_ok [OF sem_invD(1) [OF inv] fresh r]
  show f: "sess_frame w w1" by (rule SUPR0ObjRegister_frame [OF r])
  show "p = pNew" using R(2) p by blast
  show refs: "\<forall>k y. obj_refs w1 k y = obj_refs w k y + of_bool (k = sp \<and> y = p)" using R(2) p by blast
  show "sem_inv w1"
  proof (rule sem_invI [OF R(1)])
    fix k t assume "tables_of w1 k = Some t"
    then have "tables_of w k = Some t" using tables_of_frame [OF f] by simp
    from sem_invD(2,3,4) [OF inv this]
    show "ht_ok t \<and> (\<forall>p. handle_refs t p \<le> obj_refs w1 k p) \<and> (\<forall>h c. ht_map t h \<noteq> Some (0, c))"
      by (simp add: refs le_trans [OF _ le_add1])
  qed
qed

lemma sem_inv_new_handle:
  assumes inv: "sem_inv w" and t: "tables_of w sp = Some t" and ok: "ht_ok t'"
    and n: "ht_map t h = None" and m: "ht_map t' = (ht_map t)(h \<mapsto> (p, ctx))" and p: "p \<noteq> 0"
    and room: "handle_refs t p < obj_refs w sp p"
  shows "sem_inv (set_ht w sp t')"
proof (rule sem_invI [OF set_ht_inv [OF sem_invD(1) [OF inv]]])
  have s: "w_sess w sp \<noteq> None" using t by (cases "w_sess w sp") (auto simp: tables_of_def)
  fix k u assume u: "tables_of (set_ht w sp t') k = Some u"
  show "ht_ok u \<and> (\<forall>q. handle_refs u q \<le> obj_refs (set_ht w sp t') k q) \<and> (\<forall>h c. ht_map u h \<noteq> Some (0, c))"
  proof (cases "k = sp")
    case True
    then have u: "u = t'" using u s by (simp add: tables_of_set_ht)
    have m1: "ht_map t' h = Some (p, ctx)" using m by simp
    have bk: "ht_map t = (ht_map t')(h := None)" using n m by auto
    have "handle_refs t' q \<le> obj_refs w sp q" for q
      using handle_refs_remove [OF m1 bk, of q] room sem_invD(3) [OF inv t, of q] by (cases "q = p") auto
    then show ?thesis using True u ok m p sem_invD(4) [OF inv t] by simp
  next
    case False
    then have "tables_of w k = Some u" using u s by (simp add: tables_of_set_ht)
    from sem_invD(2,3,4) [OF inv this] show ?thesis by simp
  qed
qed

lemma set_ht_same: "tables_of w sp = Some t \<Longrightarrow> set_ht w sp t = w"
  by (auto simp: tables_of_def set_ht_def set_sess_def bind_eq_Some_conv fun_upd_idem)

lemma sem_create_ok:
  assumes inv: "sem_inv w" and s: "w_sess w sp = Some s" and v: "SUP_IS_SESSION_VALID sp s"
    and t: "tables_of w sp = Some t"
    and fresh: "pNew = 0 \<or> (RT_VALID_PTR pNew \<and> w_objs w pNew = None \<and> \<not> RTHT_IS_FREE pNew)"
  shows "\<exists>rc oh w' t'. sem_create ty ctx d w sp ph rcReal hReal pNew fMem f1 f2 = Some (rc, oh, w') \<and>
    sem_inv w' \<and> tables_of w' sp = Some t' \<and>
    (case oh of
       Some h \<Rightarrow> rc = VINF_SUCCESS \<and> ht_map t h = None \<and> ht_map t' = (ht_map t)(h \<mapsto> (pNew, ctx)) \<and>
         (\<forall>k y. obj_refs w' k y = obj_refs w k y + of_bool (k = sp \<and> y = pNew))
     | None \<Rightarrow> t' = t \<and> (\<forall>k y. obj_refs w' k y = obj_refs w k y))"
proof -
  let ?C = "sem_create ty ctx d w sp ph rcReal hReal pNew fMem f1 f2"
  let ?P = "\<lambda>rc oh w' t'. sem_inv w' \<and> tables_of w' sp = Some t' \<and>
    (case oh of
       Some h \<Rightarrow> rc = VINF_SUCCESS \<and> ht_map t h = None \<and> ht_map t' = (ht_map t)(h \<mapsto> (pNew, ctx)) \<and>
         (\<forall>k y. obj_refs w' k y = obj_refs w k y + of_bool (k = sp \<and> y = pNew))
     | None \<Rightarrow> t' = t \<and> (\<forall>k y. obj_refs w' k y = obj_refs w k y))"
  have th: "ses_hHandleTable s = Some t" using t s by (simp add: tables_of_def)
  have fresh': "pNew = 0 \<or> (RT_VALID_PTR pNew \<and> w_objs w pNew = None)" using fresh by auto
  have goalI: "\<exists>rc oh w' t'. ?C = Some (rc, oh, w') \<and> ?P rc oh w' t'" if "?C = Some (rc, oh, w')" "?P rc oh w' t'"
    for rc oh w' t' using that by blast
  show ?thesis
  proof (cases "RT_VALID_PTR ph \<and> RT_SUCCESS rcReal")
    case False
    then obtain rc where "?C = Some (rc, None, w)"
      using s v by (cases "RT_VALID_PTR ph") (auto simp: sem_create_def)
    then show ?thesis by (rule goalI [where t' = t]) (use inv t in simp)
  next
    case True
    obtain p w1 where r: "SUPR0ObjRegister w sp ty d hReal 0 pNew fMem = Some (p, w1)"
      using s by (fastforce simp: SUPR0ObjRegister_def Let_def)
    show ?thesis
    proof (cases "p = 0")
      case True: True
      have "w1 = w" using SUPR0ObjRegister_ok(3) [OF sem_invD(1) [OF inv] fresh' r] True by simp
      then have "?C = Some (rcReal, None, log_ev w (EvSemDestroy hReal))"
        using s v r True \<open>RT_VALID_PTR ph \<and> RT_SUCCESS rcReal\<close> by (simp add: sem_create_def)
      moreover have "sem_inv (log_ev w e)" for e
        using inv obj_inv_frame [of "log_ev w e" w] by (simp add: sem_inv_def tables_of_def obj_refs_def)
      ultimately show ?thesis
        by (elim goalI [where t' = t]) (use t in \<open>simp add: tables_of_def obj_refs_def\<close>)
    next
      case False
      note R = sem_inv_register [OF inv fresh' r False]
      have p: "p \<noteq> 0" "\<not> RTHT_IS_FREE p" using fresh R(2) False by auto
      have t1: "tables_of w1 sp = Some t" using tables_of_frame [OF R(4)] t by simp
      obtain us where s1: "w_sess w1 sp = Some (s\<lparr>ses_pUsage := us\<rparr>)" by (rule sess_frameD [OF R(4) s])
      have z: "obj_refs w sp p = 0"
      proof -
        have "w_objs w p = None" using fresh R(2) False by auto
        then show ?thesis using obj_alive_iff [OF sem_invD(1) [OF inv], of p] by (auto simp: domIff)
      qed
      have hr: "handle_refs t p < obj_refs w1 sp p"
        using sem_invD(3) [OF inv t, of p] z R(3) by simp
      have fail: ?thesis if "RTHandleTableAllocWithCtx f1 f2 t p ctx = Some (rc, h, t)" "\<not> RT_SUCCESS rc" for rc h
      proof -
        have r1: "0 < obj_refs w1 sp p" using R(3) by simp
        obtain ob where ob: "w_objs w1 p = Some ob"
          using obj_alive_iff [OF sem_invD(1) [OF R(1)], of p] r1 by blast
        obtain w2 where w2: "SUPR0ObjRelease w1 p sp = Some (if total_refs w1 p = 1 then VINF_OBJECT_DESTROYED else VINF_SUCCESS, w2)"
          "obj_inv w2" "\<forall>k y. obj_refs w1 k y = obj_refs w2 k y + of_bool (k = sp \<and> y = p)" "sess_frame w1 w2"
          "w_objs w2 = (w_objs w1)(p := if total_refs w1 p = 1 then None else Some (ob\<lparr>obj_cUsage := obj_cUsage ob - 1\<rparr>))"
          "w_trace w2 = w_trace w1 @ (if total_refs w1 p = 1 then obj_events p ob else [])"
          by (rule release_ok [OF sem_invD(1) [OF R(1)] s1 valid_frame [OF v] r1 ob])
        have refs: "\<forall>k y. obj_refs w2 k y = obj_refs w k y" using R(3) w2(3) by (metis add_right_cancel)
        have tab: "tables_of w2 k = tables_of w k" for k
          using tables_of_frame [OF w2(4)] tables_of_frame [OF R(4)] by simp
        have "sem_inv w2" using sem_invD [OF inv] w2(2) by (intro sem_invI) (auto simp: tab refs)
        moreover have "?C = Some (rc, None, w2)"
          using s v r False True th that w2(1) set_ht_same [OF t1] by (simp add: sem_create_def)
        ultimately show ?thesis by (elim goalI [where t' = t]) (use tab t refs in simp)
      qed
      show ?thesis
      proof (cases rule: alloc_ok [OF sem_invD(2) [OF inv t] p(2), of f1 f2 ctx])
        case (1 h t')
        have hc: "\<forall>k y. obj_refs w1 k y = obj_refs w k y + of_bool (k = sp \<and> y = pNew)" using R(2,3) by simp
        have i: "sem_inv (set_ht w1 sp t')"
          by (rule sem_inv_new_handle [OF R(1) t1 1(2) 1(3) 1(4) p(1) hr])
        have C: "?C = Some (VINF_SUCCESS, Some h, set_ht w1 sp t')"
          using s v r False True th 1(1) p(2) by (simp add: sem_create_def RTHandleTableAllocWithCtx_def)
        show ?thesis
          by (rule goalI [OF C, of t']) (use i 1 hc R(2) s1 in \<open>simp add: tables_of_set_ht\<close>)
      next
        case 2
        then show ?thesis using fail p(2) by (simp add: RTHandleTableAllocWithCtx_def)
      next
        case 3
        then show ?thesis using fail p(2) by (simp add: RTHandleTableAllocWithCtx_def)
      qed
    qed
  qed
qed

text \<open>
  When the object cannot be registered, the status of the semaphore's creation is returned
  unchanged: the caller sees success but gets no handle.
\<close>

lemma SUPSemEventCreate_unregistered:
  assumes "w_sess w sp = Some s" "SUP_IS_SESSION_VALID sp s" "RT_VALID_PTR ph"
  shows "SUPSemEventCreate d w sp ph VINF_SUCCESS hReal 0 fMem f1 f2 =
    Some (VINF_SUCCESS, None, log_ev w (EvSemDestroy hReal))"
  using assms by (simp add: SUPSemEventCreate_def sem_create_def SUPR0ObjRegister_def)

subsection \<open>Properties\<close>

lemma handle_refs_le: "ht_sizes t \<Longrightarrow> handle_refs t p \<le> length (ht_entries t)"
proof -
  assume sz: "ht_sizes t"
  let ?f = "\<lambda>i. of_nat i + ht_uBase t"
  have "{h. \<exists>c. ht_map t h = Some (p, c)} \<subseteq> ?f ` {..<length (ht_entries t)}"
  proof
    fix h assume "h \<in> {h. \<exists>c. ht_map t h = Some (p, c)}"
    then have "unat (h - ht_uBase t) < length (ht_entries t)"
      by (auto simp: ht_map_idx [OF sz] Let_def split: if_splits)
    moreover have "h = ?f (unat (h - ht_uBase t))" by simp
    ultimately show "h \<in> ?f ` {..<length (ht_entries t)}" by blast
  qed
  then have "handle_refs t p \<le> card (?f ` {..<length (ht_entries t)})"
    unfolding handle_refs_def by (rule card_mono [OF finite_imageI [OF finite_lessThan]])
  also have "\<dots> \<le> length (ht_entries t)"
    using card_image_le [of "{..<length (ht_entries t)}" ?f] by simp
  finally show ?thesis .
qed

text \<open>A session whose table is full of handles for one object.\<close>

definition ht_full_ex :: RTHANDLETABLEINT where
  "ht_full_ex = (ht_init 1 2048)\<lparr>ht_cCur := 2048, ht_cCurAllocated := 2048,
     ht_entries := replicate 2048 \<lparr>hte_pvObj = 0x20000, hte_pvCtx = 4\<rparr>\<rparr>"

lemma ht_full_ex_ok: "ht_sizes ht_full_ex" "ht_ok ht_full_ex"
  "ht_map ht_full_ex h = (if unat (h - 1) < 2048 then Some (0x20000, 4) else None)"
proof -
  show sz: "ht_sizes ht_full_ex" by (simp add: ht_sizes_def ht_full_ex_def ht_init_def)
  have f: "free_idx (ht_entries ht_full_ex) = {}"
    by (simp add: free_idx_def ht_full_ex_def RTHT_IS_FREE_def nth_replicate)
  have "ht_free ht_full_ex []" unfolding ht_free_def f by (simp add: ht_full_ex_def ht_init_def)
  with sz show "ht_ok ht_full_ex" by (auto simp: ht_ok_def)
  show "ht_map ht_full_ex h = (if unat (h - 1) < 2048 then Some (0x20000, 4) else None)"
    by (simp add: ht_map_idx [OF sz] Let_def f, simp add: ht_full_ex_def ht_init_def nth_replicate)
qed

definition sem_ex :: supdrv where
  "sem_ex = supdrv0\<lparr>w_devext := dx0\<lparr>dx_pObjs := [0x20000]\<rparr>,
     w_sess := [0x10000 \<mapsto> sess0\<lparr>ses_pUsage := [\<lparr>usg_pObj = 0x20000, usg_cUsage = 3000\<rparr>],
       ses_hHandleTable := Some ht_full_ex\<rparr>],
     w_objs := [0x20000 \<mapsto> (obj_new sess0 4 0x30000 0x40 0)\<lparr>obj_cUsage := 3000\<rparr>]\<rparr>"

lemma sem_ex_simps:
  "w_sess sem_ex 0x10000 = Some (sess0\<lparr>ses_pUsage := [\<lparr>usg_pObj = 0x20000, usg_cUsage = 3000\<rparr>],
     ses_hHandleTable := Some ht_full_ex\<rparr>)"
  "tables_of sem_ex sp = (if sp = 0x10000 then Some ht_full_ex else None)"
  "w_objs sem_ex 0x20000 = Some ((obj_new sess0 4 0x30000 0x40 0)\<lparr>obj_cUsage := 3000\<rparr>)"
  "obj_room sem_ex 0x20000" "sem_handle 5 = Some 5" "ht_map ht_full_ex 5 = Some (0x20000, 4)"
  by (simp_all add: sem_ex_def supdrv0_def tables_of_def obj_room_def total_refs_def sess_total_def sess_refs_def
      sem_handle_def ht_full_ex_ok(3))

lemma sem_ex_valid: "SUP_IS_SESSION_VALID 0x10000 (sess0\<lparr>ses_pUsage := us, ses_hHandleTable := t\<rparr>)"
  by (simp add: SUP_IS_SESSION_VALID_def sess0_def RT_VALID_PTR_def)

lemma sem_ex_inv: "sem_inv sem_ex"
proof (rule sem_invI)
  show "obj_inv sem_ex"
    by (simp add: obj_inv_def sem_ex_def supdrv0_def obj_ok_def usage_ok_def obj_new_def RT_VALID_PTR_def
        total_refs_def sess_total_def sess_refs_def)
  fix k t assume "tables_of sem_ex k = Some t"
  then have k: "k = 0x10000" "t = ht_full_ex" by (auto simp: sem_ex_simps split: if_splits)
  have n: "length (ht_entries ht_full_ex) = 2048"
    using ht_full_ex_ok(1) by (simp add: ht_sizes_def) (simp add: ht_full_ex_def)
  have "handle_refs t p \<le> obj_refs sem_ex k p" for p
  proof (cases "p = 0x20000")
    case True
    have "obj_refs sem_ex k p = 3000" by (simp add: obj_refs_def sem_ex_simps sess_refs_def k True)
    then show ?thesis using handle_refs_le [OF ht_full_ex_ok(1), of p] n k by simp
  next
    case False
    then have "handle_refs t p = 0" by (auto simp: handle_refs_def k ht_full_ex_ok(3))
    then show ?thesis by simp
  qed
  then show "ht_ok t \<and> (\<forall>p. handle_refs t p \<le> obj_refs sem_ex k p) \<and> (\<forall>h c. ht_map t h \<noteq> Some (0, c))"
    using ht_full_ex_ok k by simp
qed

text \<open>
  C22: Closing an event by a valid handle removes exactly that handle and gives up exactly
  one reference of the session; the event object is destroyed exactly when that was the last
  reference. The two releases the code makes never touch freed memory.
\<close>

theorem SUPSemEventClose_correct:
  assumes "sem_inv w" "w_sess w sp = Some s" "SUP_IS_SESSION_VALID sp s" "tables_of w sp = Some t"
    "sem_handle hEvent = Some h" "hEvent \<noteq> 0" "ht_map t h = Some (p, SUPDRV_HANDLE_CTX_EVENT)"
    "w_objs w p = Some ob" "obj_room w p"
  shows "\<exists>w' t'. SUPSemEventClose w sp hEvent =
      Some (if total_refs w p = 1 then VINF_OBJECT_DESTROYED else VINF_SUCCESS, w') \<and>
    sem_inv w' \<and> tables_of w' sp = Some t' \<and> ht_map t' = (ht_map t)(h := None) \<and>
    (\<forall>k y. obj_refs w k y = obj_refs w' k y + of_bool (k = sp \<and> y = p)) \<and>
    (p \<in> dom (w_objs w') \<longleftrightarrow> total_refs w p \<noteq> 1) \<and>
    w_trace w' = w_trace w @ (if total_refs w p = 1 then obj_events p ob else [])"
proof -
  show ?thesis
    unfolding SUPSemEventClose_def
    by (rule sem_close_ok [OF assms(1-7) assms(8,9)]) (intro exI conjI, assumption+)
qed

theorem SUPSemEventClose_correct_witness:
  "\<exists>w'. SUPSemEventClose sem_ex 0x10000 5 = Some (VINF_SUCCESS, w') \<and> sem_inv w'"
proof -
  have t: "tables_of sem_ex 0x10000 = Some ht_full_ex" by (simp add: sem_ex_simps)
  have "total_refs sem_ex 0x20000 \<noteq> 1" by (simp add: sem_ex_def supdrv0_def total_refs_def sess_total_def sess_refs_def)
  then show ?thesis
    using SUPSemEventClose_correct [OF sem_ex_inv sem_ex_simps(1) sem_ex_valid t sem_ex_simps(5) _
        sem_ex_simps(6) sem_ex_simps(3,4)] by auto
qed

text \<open>
  C23: Waiting on an event by a valid handle holds a reference to the event's object for the time of
  the call. The wait primitive is called on the semaphore of the object the handle was created for,
  in a state in which the session has exactly one reference more than before; taking it cannot fail,
  although the retainer must not block. Other threads may close the handle or do anything else
  meanwhile, as long as they leave that reference: then the object is alive when the primitive
  returns, the call returns the primitive's status and gives up exactly that reference, and it
  destroys the object exactly when all others went away during the wait.
\<close>

theorem supR0SemEventWaitEx_correct:
  assumes "sem_inv w" "w_sess w sp = Some s" "SUP_IS_SESSION_VALID sp s" "tables_of w sp = Some t"
    "sem_handle hEvent = Some h" "ht_map t h = Some (p, SUPDRV_HANDLE_CTX_EVENT)"
    "w_objs w p = Some ob" "obj_room w p"
  shows "\<exists>w1. sem_held w1 sp p \<and> (\<forall>k y. obj_refs w1 k y = obj_refs w k y + of_bool (k = sp \<and> y = p)) \<and>
    w_objs w1 = (w_objs w)(p \<mapsto> ob\<lparr>obj_cUsage := obj_cUsage ob + 1\<rparr>) \<and> (\<forall>k. tables_of w1 k = tables_of w k) \<and>
    w_trace w1 = w_trace w @ [EvSemCall 2 (obj_pvUser1 ob)] \<and>
    (\<forall>rc w2. prim (obj_pvUser1 ob) fFlags uTimeout w1 = (rc, w2) \<and> sem_held w2 sp p \<longrightarrow>
       (\<exists>ob2 w3. w_objs w2 p = Some ob2 \<and> supR0SemEventWaitEx prim w sp hEvent fFlags uTimeout = Some (rc, w3) \<and> sem_inv w3 \<and>
          (\<forall>k y. obj_refs w2 k y = obj_refs w3 k y + of_bool (k = sp \<and> y = p)) \<and> (\<forall>k. tables_of w3 k = tables_of w2 k) \<and>
          w_objs w3 = (w_objs w2)(p := if total_refs w2 p = 1 then None else Some (ob2\<lparr>obj_cUsage := obj_cUsage ob2 - 1\<rparr>)) \<and>
          w_trace w3 = w_trace w2 @ (if total_refs w2 p = 1 then obj_events p ob2 else [])))"
  unfolding supR0SemEventWaitEx_def
  by (rule sem_op_ok [OF assms, where op = 2 and prim = "\<lambda>h. prim h fFlags uTimeout"])

definition wait_quiet_ex :: wait_prim where
  "wait_quiet_ex h f u w = (if h = 0x40 then VINF_SUCCESS else VERR_INVALID_HANDLE, w)"

theorem supR0SemEventWaitEx_correct_witness:
  "\<exists>w'. supR0SemEventWaitEx wait_quiet_ex sem_ex 0x10000 5 8 100 = Some (VINF_SUCCESS, w') \<and> sem_inv w' \<and>
      (\<forall>y. obj_refs w' 0x10000 y = obj_refs sem_ex 0x10000 y)"
proof -
  have t: "tables_of sem_ex 0x10000 = Some ht_full_ex" by (simp add: sem_ex_simps)
  have u: "obj_pvUser1 ((obj_new sess0 4 0x30000 0x40 0)\<lparr>obj_cUsage := 3000\<rparr>) = 0x40" by (simp add: obj_new_def)
  from supR0SemEventWaitEx_correct [OF sem_ex_inv sem_ex_simps(1) sem_ex_valid t sem_ex_simps(5,6,3,4),
      of wait_quiet_ex 8 100, unfolded u]
  obtain w1 where w1: "sem_held w1 0x10000 0x20000"
    "\<forall>k y. obj_refs w1 k y = obj_refs sem_ex k y + of_bool (k = 0x10000 \<and> y = 0x20000)"
    and e: "\<forall>rc w2. wait_quiet_ex 0x40 8 100 w1 = (rc, w2) \<and> sem_held w2 0x10000 0x20000 \<longrightarrow>
      (\<exists>ob2 w3. w_objs w2 0x20000 = Some ob2 \<and> supR0SemEventWaitEx wait_quiet_ex sem_ex 0x10000 5 8 100 = Some (rc, w3) \<and>
        sem_inv w3 \<and> (\<forall>k y. obj_refs w2 k y = obj_refs w3 k y + of_bool (k = 0x10000 \<and> y = 0x20000)) \<and>
        (\<forall>k. tables_of w3 k = tables_of w2 k) \<and>
        w_objs w3 = (w_objs w2)(0x20000 := if total_refs w2 0x20000 = 1 then None else Some (ob2\<lparr>obj_cUsage := obj_cUsage ob2 - 1\<rparr>)) \<and>
        w_trace w3 = w_trace w2 @ (if total_refs w2 0x20000 = 1 then obj_events 0x20000 ob2 else []))"
    by (elim exE conjE) (rule that)
  have "wait_quiet_ex 0x40 8 100 w1 = (VINF_SUCCESS, w1)" by (simp add: wait_quiet_ex_def)
  then obtain w3 where w3: "supR0SemEventWaitEx wait_quiet_ex sem_ex 0x10000 5 8 100 = Some (VINF_SUCCESS, w3)" "sem_inv w3"
    "\<forall>k y. obj_refs w1 k y = obj_refs w3 k y + of_bool (k = 0x10000 \<and> y = 0x20000)"
    using e w1(1) by blast
  have "obj_refs w3 0x10000 y = obj_refs sem_ex 0x10000 y" for y
    using w1(2) [rule_format, of "0x10000" y] w3(3) [rule_format, of "0x10000" y] by simp
  with w3(1,2) show ?thesis by blast
qed

text \<open>
  Creating an event, whatever fails on the way, keeps the invariant. Either the caller
  gets a handle that was not in use, which now names the new object with one reference of
  the session, or handles and references are exactly as before.
\<close>

theorem SUPSemEventCreate_correct:
  assumes "sem_inv w" "w_sess w sp = Some s" "SUP_IS_SESSION_VALID sp s" "tables_of w sp = Some t"
    "pNew = 0 \<or> (RT_VALID_PTR pNew \<and> w_objs w pNew = None \<and> \<not> RTHT_IS_FREE pNew)"
  shows "\<exists>rc oh w' t'. SUPSemEventCreate d w sp ph rcReal hReal pNew fMem f1 f2 = Some (rc, oh, w') \<and>
    sem_inv w' \<and> tables_of w' sp = Some t' \<and>
    (case oh of
       Some h \<Rightarrow> rc = VINF_SUCCESS \<and> ht_map t h = None \<and>
         ht_map t' = (ht_map t)(h \<mapsto> (pNew, SUPDRV_HANDLE_CTX_EVENT)) \<and>
         (\<forall>k y. obj_refs w' k y = obj_refs w k y + of_bool (k = sp \<and> y = pNew))
     | None \<Rightarrow> t' = t \<and> (\<forall>k y. obj_refs w' k y = obj_refs w k y))"
  unfolding SUPSemEventCreate_def by (rule sem_create_ok [OF assms])

theorem SUPSemEventCreate_correct_witness:
  "\<exists>rc oh w'. SUPSemEventCreate 0x30000 sem_ex 0x10000 0x5000 VINF_SUCCESS 0x41 0x21000 True True True =
     Some (rc, oh, w') \<and> sem_inv w'"
proof -
  have t: "tables_of sem_ex 0x10000 = Some ht_full_ex" by (simp add: sem_ex_simps)
  have "(0x21000::u64) = 0 \<or> (RT_VALID_PTR 0x21000 \<and> w_objs sem_ex 0x21000 = None \<and> \<not> RTHT_IS_FREE 0x21000)"
    by (simp add: RT_VALID_PTR_def RTHT_IS_FREE_def sem_ex_def)
  from SUPSemEventCreate_correct [OF sem_ex_inv sem_ex_simps(1) sem_ex_valid t this,
      of "0x30000" "0x5000" VINF_SUCCESS "0x41" True True True]
  show ?thesis by blast
qed

end
