(* ===== verification/SupLdr.thy ===== *)
theory SupLdr
  imports SupObj
begin

text \<open>
  The image loader (SUPDrv.c: \<open>supdrvIOCtl_LdrOpen\<close> to \<open>supdrvIOCtl_CallServiceModule\<close>, and
  the image loop of \<open>supdrvCleanupSession\<close>). Images are shared by name between sessions and
  reference counted like objects; the invariant \<open>ldr_inv\<close> says that an image's counter covers
  all session references to it. The host's native loader is a parameter (the Linux hooks are
  given), as are module initialisation results and service handlers. The block of an image ends behind its name, so
  comparing it with a longer name is \<open>None\<close> (\<open>ldr_name_match\<close>).
\<close>

named_theorems ldr_defs \<open>definitions of the loader operations\<close>

subsection \<open>Requests\<close>

record SUPLDROPEN =
  lo_cbImageWithTabs :: u32
  lo_cbImageBits :: u32
  lo_szName :: "u8 list"

datatype SUPLDRLOADEP =
    SUPLDRLOADEP_NOTHING
  | SUPLDRLOADEP_VMMR0 addr addr addr addr
  | SUPLDRLOADEP_SERVICE addr addr addr addr
  | SUPLDRLOADEP_INVALID nat

record SUPLDRLOAD =
  ll_pvImageBase :: addr
  ll_cbImageWithTabs :: u32
  ll_cbImageBits :: u32
  ll_pfnModuleInit :: addr
  ll_pfnModuleTerm :: addr
  ll_EP :: SUPLDRLOADEP
  ll_offSymbols :: u32
  ll_cSymbols :: u32
  ll_offStrTab :: u32
  ll_cbStrTab :: u32
  ll_abImage :: "u8 list"

text \<open>The native loader of the host, and its Linux version, which supports nothing.\<close>

record SUPDRVOSLDR =
  os_LdrOpen :: "status \<times> addr"
  os_LdrValidatePointer :: "addr \<Rightarrow> status"
  os_LdrLoad :: status

definition linux_osldr :: SUPDRVOSLDR where
  "linux_osldr = \<lparr>os_LdrOpen = (VERR_NOT_SUPPORTED, 0), os_LdrValidatePointer = (\<lambda>_. VERR_NOT_SUPPORTED),
     os_LdrLoad = VERR_NOT_SUPPORTED\<rparr>"

subsection \<open>Usage records and entry points\<close>

definition supdrvLdrAddUsage :: "supdrv \<Rightarrow> addr \<Rightarrow> addr \<Rightarrow> bool \<Rightarrow> (status \<times> supdrv) option" where
  [ldr_defs]: "supdrvLdrAddUsage w pSession pImage fMem =
     (case w_sess w pSession of
        None \<Rightarrow> None
      | Some s \<Rightarrow>
          if find (\<lambda>u. lus_pImage u = pImage) (ses_pLdrUsage s) \<noteq> None then
            Some (VINF_SUCCESS, set_sess w pSession (s\<lparr>ses_pLdrUsage :=
              update_first (\<lambda>u. lus_pImage u = pImage) (\<lambda>u. u\<lparr>lus_cUsage := lus_cUsage u + 1\<rparr>) (ses_pLdrUsage s)\<rparr>))
          else if \<not> fMem then Some (VERR_INTERNAL_ERROR_5, w)
          else Some (VINF_SUCCESS, set_sess w pSession (s\<lparr>ses_pLdrUsage :=
                 \<lparr>lus_pImage = pImage, lus_cUsage = 1\<rparr> # ses_pLdrUsage s\<rparr>)))"

definition supdrvLdrSetVMMR0EPs :: "supdrv \<Rightarrow> addr \<Rightarrow> addr \<Rightarrow> addr \<Rightarrow> addr \<Rightarrow> status \<times> supdrv" where
  [ldr_defs]: "supdrvLdrSetVMMR0EPs w pvVMMR0 pvVMMR0EntryInt pvVMMR0EntryFast pvVMMR0EntryEx =
     (let d = w_devext w
      in if dx_pvVMMR0 d = 0 then
           (VINF_SUCCESS, set_dx w (\<lambda>d. d\<lparr>dx_pvVMMR0 := pvVMMR0, dx_pfnVMMR0EntryInt := pvVMMR0EntryInt,
              dx_pfnVMMR0EntryFast := pvVMMR0EntryFast, dx_pfnVMMR0EntryEx := pvVMMR0EntryEx\<rparr>))
         else if dx_pvVMMR0 d \<noteq> pvVMMR0 \<or> dx_pfnVMMR0EntryInt d \<noteq> pvVMMR0EntryInt \<or>
                 dx_pfnVMMR0EntryFast d \<noteq> pvVMMR0EntryFast \<or> dx_pfnVMMR0EntryEx d \<noteq> pvVMMR0EntryEx
         then (VERR_INVALID_PARAMETER, w)
         else (VINF_SUCCESS, w))"

definition supdrvLdrUnsetVMMR0EPs :: "supdrv \<Rightarrow> supdrv" where
  [ldr_defs]: "supdrvLdrUnsetVMMR0EPs w =
     set_dx w (\<lambda>d. d\<lparr>dx_pvVMMR0 := 0, dx_pfnVMMR0EntryInt := 0, dx_pfnVMMR0EntryFast := 0,
       dx_pfnVMMR0EntryEx := 0\<rparr>)"

text \<open>\<open>(uintptr_t)pv - (uintptr_t)pImage->pvImage < pImage->cbImageBits\<close>\<close>

definition in_image :: "SUPDRVLDRIMAGE \<Rightarrow> addr \<Rightarrow> bool" where
  [ldr_defs]: "in_image im pv \<longleftrightarrow> pv - img_pvImage im < ucast (img_cbImageBits im)"

definition supdrvLdrValidatePointer :: "SUPDRVOSLDR \<Rightarrow> SUPDRVLDRIMAGE \<Rightarrow> addr \<Rightarrow> bool \<Rightarrow> status" where
  [ldr_defs]: "supdrvLdrValidatePointer os pImage pv fMayBeNull =
     (if \<not> fMayBeNull \<or> pv \<noteq> 0 then
        if \<not> in_image pImage pv then VERR_INVALID_PARAMETER
        else if img_fNative pImage then
          (if RT_FAILURE (os_LdrValidatePointer os pv) then os_LdrValidatePointer os pv else VINF_SUCCESS)
        else VINF_SUCCESS
      else VINF_SUCCESS)"

subsection \<open>Opening\<close>

text \<open>
  The name test first reads \<open>szName[cchName]\<close>. The block of an image ends with its own name and its
  terminator (\<open>RT_OFFSETOF(SUPDRVLDRIMAGE, szName[cchName + 1])\<close>), so the test of an image whose name is
  shorter than the requested one reads behind the block: \<open>None\<close>.
\<close>

definition ldr_name_match :: "u8 list \<Rightarrow> u8 list \<Rightarrow> bool option" where
  [ldr_defs]: "ldr_name_match nm szName =
     (let cchName = length (cstr szName)
      in if cchName < length nm then Some (nm ! cchName = 0 \<and> take cchName nm = cstr szName) else None)"

text \<open>The walk over the images; \<open>None\<close> is also a walk onto a freed one.\<close>

primrec ldr_find_name ::
  "(addr \<Rightarrow> SUPDRVLDRIMAGE option) \<Rightarrow> u8 list \<Rightarrow> addr list \<Rightarrow> (addr \<times> SUPDRVLDRIMAGE) option option" where
  "ldr_find_name h szName [] = Some None"
| "ldr_find_name h szName (p # ps) =
     (case h p of
        None \<Rightarrow> None
      | Some im \<Rightarrow>
          (case ldr_name_match (img_szName im) szName of
             None \<Rightarrow> None
           | Some m \<Rightarrow> if m then Some (Some (p, im)) else ldr_find_name h szName ps))"

definition ldr_new_image :: "SUPLDROPEN \<Rightarrow> SUPDRVLDRIMAGE" where
  [ldr_defs]: "ldr_new_image pReq =
     \<lparr>img_pvImage = 0, img_pvImageAlloc = 0, img_cbImageWithTabs = lo_cbImageWithTabs pReq,
      img_cbImageBits = lo_cbImageBits pReq, img_cSymbols = 0, img_paSymbols = None,
      img_pachStrTab = None, img_cbStrTab = 0, img_pfnModuleInit = 0, img_pfnModuleTerm = 0,
      img_pfnServiceReqHandler = 0, img_uState = SUP_LDR_OPEN, img_cUsage = 1, img_fNative = True,
      img_szName = cstr (lo_szName pReq) @ [0], img_abBits = []\<rparr>"

text \<open>
  \<open>pNew\<close> and \<open>pvExec\<close> are the results of the two allocations, \<open>fMem\<close> says whether a usage record
  can be allocated. The answer is \<open>(pvImageBase, fNeedsLoading, fNativeLoader)\<close>. The status of
  \<open>supdrvLdrAddUsage\<close> is ignored, as in the code.
\<close>

definition supdrvIOCtl_LdrOpen ::
  "SUPDRVOSLDR \<Rightarrow> addr \<Rightarrow> addr \<Rightarrow> bool \<Rightarrow> supdrv \<Rightarrow> addr \<Rightarrow> SUPLDROPEN \<Rightarrow>
   (status \<times> (addr \<times> bool \<times> bool) option \<times> supdrv) option" where
  [ldr_defs]: "supdrvIOCtl_LdrOpen os pNew pvExec fMem w pSession pReq =
     (case ldr_find_name (w_imgs w) (lo_szName pReq) (dx_pLdrImages (w_devext w)) of
        None \<Rightarrow> None
      | Some (Some (p, im)) \<Rightarrow>
          map_option (\<lambda>(_, w1). (VINF_SUCCESS, Some (img_pvImage im, img_uState im = SUP_LDR_OPEN, img_fNative im), w1))
            (supdrvLdrAddUsage (set_img w p (im\<lparr>img_cUsage := img_cUsage im + 1\<rparr>)) pSession p fMem)
      | Some None \<Rightarrow>
          if pNew = 0 then Some (VERR_INTERNAL_ERROR_2, None, w)
          else
            let (rc, pv) = os_LdrOpen os;
                im0 = (ldr_new_image pReq)\<lparr>img_pvImage := pv\<rparr>;
                im1 = (if rc = VERR_NOT_SUPPORTED
                       then im0\<lparr>img_pvImageAlloc := pvExec, img_pvImage := (pvExec + 31) AND NOT 31,
                                img_fNative := False\<rparr>
                       else im0);
                rc1 = (if rc = VERR_NOT_SUPPORTED
                       then (if pvExec \<noteq> 0 then VINF_SUCCESS else VERR_NO_EXEC_MEMORY) else rc)
            in if RT_FAILURE rc1 then Some (rc1, None, w)
               else map_option (\<lambda>(_, w1). (VINF_SUCCESS, Some (img_pvImage im1, True, img_fNative im1), w1))
                      (supdrvLdrAddUsage
                        (set_img (set_dx w (\<lambda>d. d\<lparr>dx_pLdrImages := pNew # dx_pLdrImages d\<rparr>)) pNew im1)
                        pSession pNew fMem))"

subsection \<open>Loading\<close>

text \<open>A copy out of the request buffer; \<open>None\<close> is a read past its end.\<close>

definition copy_bytes :: "u8 list \<Rightarrow> nat \<Rightarrow> nat \<Rightarrow> u8 list option" where
  [ldr_defs]: "copy_bytes ab off n = (if off + n \<le> length ab then Some (take n (drop off ab)) else None)"

definition le32 :: "u8 \<Rightarrow> u8 \<Rightarrow> u8 \<Rightarrow> u8 \<Rightarrow> u32" where
  "le32 a b c d = ucast a OR push_bit 8 (ucast b) OR push_bit 16 (ucast c) OR push_bit 24 (ucast d)"

fun ldr_syms :: "u8 list \<Rightarrow> SUPLDRSYM list" where
  "ldr_syms (a # b # c # d # e # f # g # h # r) =
     \<lparr>sym_offName = le32 a b c d, sym_offSymbol = le32 e f g h\<rparr> # ldr_syms r"
| "ldr_syms _ = []"

definition ldr_check_eps :: "SUPDRVOSLDR \<Rightarrow> SUPDRVLDRIMAGE \<Rightarrow> SUPLDRLOADEP \<Rightarrow> status" where
  [ldr_defs]: "ldr_check_eps os pImage ep =
     (case ep of
        SUPLDRLOADEP_NOTHING \<Rightarrow> VINF_SUCCESS
      | SUPLDRLOADEP_VMMR0 pv pvInt pvFast pvEx \<Rightarrow>
          let rc1 = supdrvLdrValidatePointer os pImage pv False;
              rc2 = (if RT_SUCCESS rc1 then supdrvLdrValidatePointer os pImage pvInt False else rc1);
              rc3 = (if RT_SUCCESS rc2 then supdrvLdrValidatePointer os pImage pvFast False else rc2);
              rc4 = (if RT_SUCCESS rc3 then supdrvLdrValidatePointer os pImage pvEx False else rc3)
          in rc4
      | SUPLDRLOADEP_SERVICE pfn r0 r1 r2 \<Rightarrow>
          let rc = supdrvLdrValidatePointer os pImage pfn False
          in if RT_FAILURE rc then rc
             else if r0 \<noteq> 0 \<or> r1 \<noteq> 0 \<or> r2 \<noteq> 0 then VERR_INVALID_PARAMETER
             else rc
      | SUPLDRLOADEP_INVALID n \<Rightarrow> VERR_INVALID_PARAMETER)"

text \<open>The string and symbol tables; each allocation may fail.\<close>

definition ldr_copy_tables :: "SUPDRVLDRIMAGE \<Rightarrow> SUPLDRLOAD \<Rightarrow> bool \<Rightarrow> bool \<Rightarrow> (status \<times> SUPDRVLDRIMAGE) option" where
  [ldr_defs]: "ldr_copy_tables im pReq fMemStr fMemSym =
     Option.bind
       (let im1 = im\<lparr>img_cbStrTab := ll_cbStrTab pReq\<rparr>
        in if ll_cbStrTab pReq \<noteq> 0 then
             (if fMemStr then
                map_option (\<lambda>tab. (VINF_SUCCESS, im1\<lparr>img_pachStrTab := Some tab\<rparr>))
                  (copy_bytes (ll_abImage pReq) (unat (ll_offStrTab pReq)) (unat (ll_cbStrTab pReq)))
              else Some (VERR_INTERNAL_ERROR_3, im1\<lparr>img_pachStrTab := None\<rparr>))
           else Some (VINF_SUCCESS, im1))
       (\<lambda>(rc, im1).
          let im2 = im1\<lparr>img_cSymbols := ll_cSymbols pReq\<rparr>
          in if RT_SUCCESS rc \<and> ll_cSymbols pReq \<noteq> 0 then
               (if fMemSym then
                  map_option (\<lambda>b. (rc, im2\<lparr>img_paSymbols := Some (ldr_syms b)\<rparr>))
                    (copy_bytes (ll_abImage pReq) (unat (ll_offSymbols pReq)) (unat (ll_cSymbols pReq) * 8))
                else Some (VERR_INTERNAL_ERROR_4, im2\<lparr>img_paSymbols := None\<rparr>))
             else Some (rc, im2))"

text \<open>The reset of an image whose loading failed.\<close>

definition ldr_reset_image :: "SUPDRVLDRIMAGE \<Rightarrow> SUPDRVLDRIMAGE" where
  [ldr_defs]: "ldr_reset_image im =
     im\<lparr>img_uState := SUP_LDR_OPEN, img_pfnModuleInit := 0, img_pfnModuleTerm := 0,
        img_pfnServiceReqHandler := 0, img_cbStrTab := 0, img_pachStrTab := None,
        img_paSymbols := None, img_cSymbols := 0\<rparr>"

text \<open>Copying the bits, entry points, module initialisation and the failure path.\<close>

definition ldr_activate ::
  "SUPDRVOSLDR \<Rightarrow> status \<Rightarrow> supdrv \<Rightarrow> addr \<Rightarrow> SUPDRVLDRIMAGE \<Rightarrow> SUPLDRLOAD \<Rightarrow> status \<Rightarrow> (status \<times> supdrv) option" where
  [ldr_defs]: "ldr_activate os rcInit w p im pReq rc0 =
     Option.bind
       (if RT_SUCCESS rc0 then
          (let im1 = im\<lparr>img_uState := SUP_LDR_LOAD, img_pfnModuleInit := ll_pfnModuleInit pReq,
                        img_pfnModuleTerm := ll_pfnModuleTerm pReq\<rparr>
           in if img_fNative im then Some (os_LdrLoad os, im1)
              else map_option (\<lambda>b. (rc0, im1\<lparr>img_abBits := b\<rparr>))
                     (copy_bytes (ll_abImage pReq) 0 (unat (img_cbImageBits im))))
        else Some (rc0, im))
       (\<lambda>(rc1, im1).
          let (rc2, im2, w2) =
                (if RT_SUCCESS rc1 then
                   (case ll_EP pReq of
                      SUPLDRLOADEP_VMMR0 pv pvInt pvFast pvEx \<Rightarrow>
                        (let (rc, w') = supdrvLdrSetVMMR0EPs w pv pvInt pvFast pvEx in (rc, im1, w'))
                    | SUPLDRLOADEP_SERVICE pfn _ _ _ \<Rightarrow> (VINF_SUCCESS, im1\<lparr>img_pfnServiceReqHandler := pfn\<rparr>, w)
                    | _ \<Rightarrow> (VINF_SUCCESS, im1, w))
                 else (rc1, im1, w));
              (rc3, w3) =
                (if RT_SUCCESS rc2 \<and> img_pfnModuleInit im2 \<noteq> 0 then
                   (let w' = log_ev w2 (EvModuleInit (img_pfnModuleInit im2))
                    in (rcInit, if rcInit \<noteq> 0 \<and> dx_pvVMMR0 (w_devext w') = img_pvImage im2
                                then supdrvLdrUnsetVMMR0EPs w' else w'))
                 else (rc2, w2))
          in Some (rc3, set_img w3 p (if RT_FAILURE rc3 then ldr_reset_image im2 else im2)))"

definition ldr_find_usage :: "supdrv \<Rightarrow> SUPDRVSESSION \<Rightarrow> addr \<Rightarrow> (addr \<times> SUPDRVLDRIMAGE) option option" where
  [ldr_defs]: "ldr_find_usage w s pvImageBase =
     deref_find (w_imgs w) (\<lambda>im. img_pvImage im = pvImageBase) (map lus_pImage (ses_pLdrUsage s))"

definition supdrvIOCtl_LdrLoad ::
  "SUPDRVOSLDR \<Rightarrow> bool \<Rightarrow> bool \<Rightarrow> status \<Rightarrow> supdrv \<Rightarrow> addr \<Rightarrow> SUPLDRLOAD \<Rightarrow> (status \<times> supdrv) option" where
  [ldr_defs]: "supdrvIOCtl_LdrLoad os fMemStr fMemSym rcInit w pSession pReq =
     (case w_sess w pSession of
        None \<Rightarrow> None
      | Some s \<Rightarrow>
          (case ldr_find_usage w s (ll_pvImageBase pReq) of
             None \<Rightarrow> None
           | Some None \<Rightarrow> Some (VERR_INVALID_HANDLE, w)
           | Some (Some (p, im)) \<Rightarrow>
               if img_cbImageWithTabs im \<noteq> ll_cbImageWithTabs pReq \<or> img_cbImageBits im \<noteq> ll_cbImageBits pReq
               then Some (VERR_INVALID_HANDLE, w)
               else if img_uState im \<noteq> SUP_LDR_OPEN then Some (VERR_ALREADY_LOADED, w)
               else
                 let rcE = ldr_check_eps os im (ll_EP pReq);
                     rcI = supdrvLdrValidatePointer os im (ll_pfnModuleInit pReq) True;
                     rcT = supdrvLdrValidatePointer os im (ll_pfnModuleTerm pReq) True
                 in if RT_FAILURE rcE then Some (rcE, w)
                    else if RT_FAILURE rcI then Some (rcI, w)
                    else if RT_FAILURE rcT then Some (rcT, w)
                    else Option.bind (ldr_copy_tables im pReq fMemStr fMemSym)
                           (\<lambda>(rc, im1). ldr_activate os rcInit w p im1 pReq rc)))"

subsection \<open>Freeing\<close>

text \<open>Objects whose destructor lies in the image lose it.\<close>

primrec ldr_clear_dtors :: "supdrv \<Rightarrow> SUPDRVLDRIMAGE \<Rightarrow> addr list \<Rightarrow> supdrv option" where
  "ldr_clear_dtors w im [] = Some w"
| "ldr_clear_dtors w im (p # ps) =
     (case w_objs w p of
        None \<Rightarrow> None
      | Some ob \<Rightarrow>
          ldr_clear_dtors (if in_image im (obj_pfnDestructor ob) then set_obj w p (ob\<lparr>obj_pfnDestructor := 0\<rparr>) else w)
            im ps)"

definition ldr_unlink :: "supdrv \<Rightarrow> addr \<Rightarrow> SUPDRVLDRIMAGE \<Rightarrow> supdrv" where
  [ldr_defs]: "ldr_unlink w pImage im =
     (let w1 = set_dx w (\<lambda>d. d\<lparr>dx_pLdrImages := remove1 pImage (dx_pLdrImages d)\<rparr>)
      in if dx_pvVMMR0 (w_devext w1) = img_pvImage im then supdrvLdrUnsetVMMR0EPs w1 else w1)"

definition supdrvLdrFree :: "supdrv \<Rightarrow> addr \<Rightarrow> supdrv option" where
  [ldr_defs]: "supdrvLdrFree w pImage =
     (case w_imgs w pImage of
        None \<Rightarrow> None
      | Some im \<Rightarrow>
          if pImage \<notin> set (dx_pLdrImages (w_devext w)) then None
          else
            let w2 = ldr_unlink w pImage im
            in Option.bind (ldr_clear_dtors w2 im (dx_pObjs (w_devext w2))) (\<lambda>w3.
                 let w4 = (if img_pfnModuleTerm im \<noteq> 0 \<and> img_uState im = SUP_LDR_LOAD
                           then log_ev w3 (EvModuleTerm (img_pfnModuleTerm im)) else w3);
                     w5 = (if img_fNative im then log_ev w4 (EvNativeUnload pImage) else w4)
                 in Some (w5\<lparr>w_imgs := (w_imgs w5)(pImage := None)\<rparr>)))"

text \<open>Is there an object, of anybody or of this session, whose destructor lies in the image?\<close>

definition ldr_dangling :: "supdrv \<Rightarrow> SUPDRVSESSION \<Rightarrow> SUPDRVLDRIMAGE \<Rightarrow> bool option" where
  [ldr_defs]: "ldr_dangling w s im =
     map_option (\<lambda>r. r \<noteq> None)
       (deref_find (w_objs w) (\<lambda>ob. in_image im (obj_pfnDestructor ob))
          (if img_cUsage im \<le> 1 then dx_pObjs (w_devext w) else map usg_pObj (ses_pUsage s)))"

definition supdrvIOCtl_LdrFree :: "supdrv \<Rightarrow> addr \<Rightarrow> addr \<Rightarrow> (status \<times> supdrv) option" where
  [ldr_defs]: "supdrvIOCtl_LdrFree w pSession pvImageBase =
     (case w_sess w pSession of
        None \<Rightarrow> None
      | Some s \<Rightarrow>
          (case ldr_find_usage w s pvImageBase of
             None \<Rightarrow> None
           | Some None \<Rightarrow> Some (VERR_INVALID_HANDLE, w)
           | Some (Some (p, im)) \<Rightarrow>
               (case find (\<lambda>u. lus_pImage u = p) (ses_pLdrUsage s) of
                  None \<Rightarrow> None
                | Some u \<Rightarrow>
                    if img_cUsage im \<le> 1 \<or> lus_cUsage u \<le> 1 then
                      (case ldr_dangling w s im of
                         None \<Rightarrow> None
                       | Some True \<Rightarrow> Some (VINF_SUCCESS, w)
                       | Some False \<Rightarrow>
                           let w1 = set_sess w pSession (s\<lparr>ses_pLdrUsage :=
                                      remove_first (\<lambda>u. lus_pImage u = p) (ses_pLdrUsage s)\<rparr>)
                           in if img_cUsage im \<le> 1 then map_option (\<lambda>w2. (VINF_SUCCESS, w2)) (supdrvLdrFree w1 p)
                              else Some (VINF_SUCCESS, set_img w1 p (im\<lparr>img_cUsage := img_cUsage im - 1\<rparr>)))
                    else
                      Some (VINF_SUCCESS,
                        set_sess (set_img w p (im\<lparr>img_cUsage := img_cUsage im - 1\<rparr>)) pSession
                          (s\<lparr>ses_pLdrUsage := update_first (\<lambda>u. lus_pImage u = p)
                               (\<lambda>u. u\<lparr>lus_cUsage := lus_cUsage u - 1\<rparr>) (ses_pLdrUsage s)\<rparr>)))))"

text \<open>The image loop of \<open>supdrvCleanupSession\<close>; the usage list was taken off the session.\<close>

primrec cleanup_imgs :: "supdrv \<Rightarrow> SUPDRVLDRUSAGE list \<Rightarrow> supdrv option" where
  "cleanup_imgs w [] = Some w"
| "cleanup_imgs w (u # us) =
     (case w_imgs w (lus_pImage u) of
        None \<Rightarrow> None
      | Some im \<Rightarrow>
          if lus_cUsage u < img_cUsage im then
            cleanup_imgs (set_img w (lus_pImage u) (im\<lparr>img_cUsage := img_cUsage im - lus_cUsage u\<rparr>)) us
          else Option.bind (supdrvLdrFree w (lus_pImage u)) (\<lambda>w1. cleanup_imgs w1 us))"

subsection \<open>Symbols\<close>

text \<open>The scan for a symbol of \<open>cb\<close> bytes, terminator included; \<open>None\<close> is a bad read.\<close>

primrec sym_scan :: "u8 list option \<Rightarrow> u32 \<Rightarrow> u8 list \<Rightarrow> SUPLDRSYM list \<Rightarrow> u32 option option" where
  "sym_scan pchStrings cbStrTab name [] = Some None"
| "sym_scan pchStrings cbStrTab name (y # ys) =
     (if unat (sym_offName y) + length name \<le> unat cbStrTab then
        (case Option.bind pchStrings (\<lambda>tab. copy_bytes tab (unat (sym_offName y)) (length name)) of
           None \<Rightarrow> None
         | Some b \<Rightarrow> if b = name then Some (Some (sym_offSymbol y)) else sym_scan pchStrings cbStrTab name ys)
      else sym_scan pchStrings cbStrTab name ys)"

definition ldr_find_symbol :: "SUPDRVLDRIMAGE \<Rightarrow> u8 list \<Rightarrow> u32 option option" where
  [ldr_defs]: "ldr_find_symbol im szSymbol =
     (case img_paSymbols im of
        None \<Rightarrow> if img_cSymbols im = 0 then Some None else None
      | Some syms \<Rightarrow>
          if unat (img_cSymbols im) \<le> length syms then
            sym_scan (img_pachStrTab im) (img_cbStrTab im) (cstr szSymbol @ [0]) (take (unat (img_cSymbols im)) syms)
          else None)"

definition sym_addr :: "SUPDRVLDRIMAGE \<Rightarrow> u32 \<Rightarrow> addr" where
  [ldr_defs]: "sym_addr im offSymbol = img_pvImage im + scast offSymbol"

definition supdrvIOCtl_LdrGetSymbol :: "supdrv \<Rightarrow> addr \<Rightarrow> addr \<Rightarrow> u8 list \<Rightarrow> (status \<times> addr option) option" where
  [ldr_defs]: "supdrvIOCtl_LdrGetSymbol w pSession pvImageBase szSymbol =
     (case w_sess w pSession of
        None \<Rightarrow> None
      | Some s \<Rightarrow>
          (case ldr_find_usage w s pvImageBase of
             None \<Rightarrow> None
           | Some None \<Rightarrow> Some (VERR_INVALID_HANDLE, None)
           | Some (Some (p, im)) \<Rightarrow>
               if img_uState im \<noteq> SUP_LDR_LOAD then Some (VERR_ALREADY_LOADED, None)
               else (case ldr_find_symbol im szSymbol of
                   None \<Rightarrow> None
                 | Some None \<Rightarrow> Some (VERR_GENERAL_FAILURE, Some 0)
                 | Some (Some off) \<Rightarrow> Some (VINF_SUCCESS, Some (sym_addr im off)))))"

text \<open>
  String arguments of kernel callers: NULL, an invalid pointer, or a buffer. \<open>g_aFunctions\<close>
  is the driver's own export table. The second part of the answer is what is written to
  \<open>pfnSymbol\<close>, if anything.
\<close>

datatype cptr = PNull | PBad | PBuf "u8 list"

definition SupDrv_name :: "u8 list" where
  "SupDrv_name = [0x53, 0x75, 0x70, 0x44, 0x72, 0x76]"

definition supdrvIDC_LdrGetSymbol ::
  "(u8 list \<times> addr) list \<Rightarrow> bool \<Rightarrow> supdrv \<Rightarrow> addr \<Rightarrow> cptr \<Rightarrow> cptr \<Rightarrow> (status \<times> addr option \<times> supdrv) option" where
  [ldr_defs]: "supdrvIDC_LdrGetSymbol g_aFunctions fMem w pSession pszModule pszSymbol =
     (case pszSymbol of
        PBuf szSymbol \<Rightarrow>
          if RTStrEnd szSymbol 512 = None then Some (VERR_INVALID_PARAMETER, None, w)
          else if pszModule = PBad then Some (VERR_INVALID_POINTER, None, w)
          else if (case pszModule of PBuf m \<Rightarrow> RTStrEnd m 64 = None | _ \<Rightarrow> False) then Some (VERR_INVALID_PARAMETER, None, w)
          else if (case pszModule of PBuf m \<Rightarrow> cstr m = SupDrv_name | _ \<Rightarrow> True)
          then Some (VINF_SUCCESS, map_option snd (find (\<lambda>(nm, _). nm = cstr szSymbol) g_aFunctions), w)
          else
            (case pszModule of
               PBuf m \<Rightarrow>
                 (case deref_find (w_imgs w) (\<lambda>im. cstr (img_szName im) = cstr m) (dx_pLdrImages (w_devext w)) of
                    None \<Rightarrow> None
                  | Some None \<Rightarrow> Some (VERR_MODULE_NOT_FOUND, None, w)
                  | Some (Some (p, im)) \<Rightarrow>
                      if img_uState im = SUP_LDR_LOAD then
                        (case ldr_find_symbol im szSymbol of
                           None \<Rightarrow> None
                         | Some None \<Rightarrow> Some (VINF_SUCCESS, None, w)
                         | Some (Some off) \<Rightarrow>
                             map_option (\<lambda>(rc, w1). (rc, Some (sym_addr im off), w1))
                               (supdrvLdrAddUsage w pSession p fMem))
                      else Some (VERR_WRONG_ORDER, None, w))
             | _ \<Rightarrow> None)
      | _ \<Rightarrow> Some (VERR_INVALID_POINTER, None, w))"

text \<open>
  \<open>call\<close> is the service request handler at an address, applied to operation, argument and
  whether a packet is passed.
\<close>

definition supdrvIOCtl_CallServiceModule ::
  "(addr \<Rightarrow> u32 \<Rightarrow> u64 \<Rightarrow> bool \<Rightarrow> status) \<Rightarrow> status \<Rightarrow> supdrv \<Rightarrow> addr \<Rightarrow> u8 list \<Rightarrow> u32 \<Rightarrow> u64 \<Rightarrow> bool \<Rightarrow> status option" where
  [ldr_defs]: "supdrvIOCtl_CallServiceModule call rcLock w pSession szName uOperation u64Arg fPkt =
     (if RT_SUCCESS rcLock then
        (case w_sess w pSession of
           None \<Rightarrow> None
         | Some s \<Rightarrow>
             (case deref_find (w_imgs w)
                     (\<lambda>im. img_pfnServiceReqHandler im \<noteq> 0 \<and> cstr (img_szName im) = cstr szName)
                     (map lus_pImage (ses_pLdrUsage s)) of
                None \<Rightarrow> None
              | Some None \<Rightarrow> Some VERR_SUPDRV_SERVICE_NOT_FOUND
              | Some (Some (p, im)) \<Rightarrow> Some (call (img_pfnServiceReqHandler im) uOperation u64Arg fPkt)))
      else Some rcLock)"

subsection \<open>Invariant\<close>

abbreviation img_refs_in :: "SUPDRVLDRUSAGE list \<Rightarrow> addr \<Rightarrow> nat" where
  "img_refs_in \<equiv> key_count lus_pImage (\<lambda>u. unat (lus_cUsage u))"

definition ldr_refs :: "SUPDRVSESSION \<Rightarrow> addr \<Rightarrow> nat" where
  "ldr_refs s p = img_refs_in (ses_pLdrUsage s) p"

definition ldr_total :: "supdrv \<Rightarrow> addr \<Rightarrow> nat" where
  "ldr_total w p = sess_total (\<lambda>s. ldr_refs s p) w"

definition ldr_other :: "supdrv \<Rightarrow> addr \<Rightarrow> addr \<Rightarrow> nat" where
  "ldr_other w sp p = sess_other (\<lambda>s. ldr_refs s p) w sp"

definition ldr_usage_ok :: "(addr \<rightharpoonup> SUPDRVLDRIMAGE) \<Rightarrow> SUPDRVSESSION \<Rightarrow> bool" where
  "ldr_usage_ok h s \<longleftrightarrow>
     distinct (map lus_pImage (ses_pLdrUsage s)) \<and>
     (\<forall>u\<in>set (ses_pLdrUsage s). lus_pImage u \<in> dom h \<and> 0 < unat (lus_cUsage u))"

text \<open>The tables are as long as their counters say; an image that was not loaded has none.\<close>

definition img_tabs_ok :: "SUPDRVLDRIMAGE \<Rightarrow> bool" where
  "img_tabs_ok im \<longleftrightarrow>
     (case img_paSymbols im of
        None \<Rightarrow> img_cSymbols im = 0
      | Some syms \<Rightarrow> length syms = unat (img_cSymbols im)) \<and>
     (case img_pachStrTab im of
        None \<Rightarrow> img_cbStrTab im = 0
      | Some tab \<Rightarrow> length tab = unat (img_cbStrTab im)) \<and>
     (img_uState im = SUP_LDR_OPEN \<longrightarrow> img_paSymbols im = None \<and> img_pachStrTab im = None)"

definition ldr_inv :: "supdrv \<Rightarrow> bool" where
  "ldr_inv w \<longleftrightarrow>
     finite (dom (w_sess w)) \<and> distinct (dx_pLdrImages (w_devext w)) \<and>
     set (dx_pLdrImages (w_devext w)) = dom (w_imgs w) \<and>
     (\<forall>p im. w_imgs w p = Some im \<longrightarrow>
        ldr_total w p \<le> unat (img_cUsage im) \<and> 0 < unat (img_cUsage im) \<and> img_tabs_ok im) \<and>
     (\<forall>p s. w_sess w p = Some s \<longrightarrow> ldr_usage_ok (w_imgs w) s)"

lemma img_tabs_ok_upd [simp]:
  "img_tabs_ok (im\<lparr>img_cUsage := c\<rparr>) = img_tabs_ok im"
  "img_tabs_ok (im\<lparr>img_pvImage := a\<rparr>) = img_tabs_ok im"
  "img_tabs_ok (im\<lparr>img_pvImageAlloc := a\<rparr>) = img_tabs_ok im"
  "img_tabs_ok (im\<lparr>img_fNative := b\<rparr>) = img_tabs_ok im"
  "img_tabs_ok (im\<lparr>img_pfnModuleInit := a\<rparr>) = img_tabs_ok im"
  "img_tabs_ok (im\<lparr>img_pfnModuleTerm := a\<rparr>) = img_tabs_ok im"
  "img_tabs_ok (im\<lparr>img_pfnServiceReqHandler := a\<rparr>) = img_tabs_ok im"
  "img_tabs_ok (im\<lparr>img_abBits := ab\<rparr>) = img_tabs_ok im"
  by (simp_all add: img_tabs_ok_def split: option.split)

lemma ldr_usage_ok_upd:
  assumes "ldr_usage_ok h t" "v = None \<Longrightarrow> ldr_refs t p = 0"
  shows "ldr_usage_ok (h(p := v)) t"
proof -
  have "v = None \<Longrightarrow> \<forall>u\<in>set (ses_pLdrUsage t). lus_pImage u \<noteq> p"
    using assms key_count_zeroD [of lus_pImage "\<lambda>u. unat (lus_cUsage u)" "ses_pLdrUsage t" p]
    by (auto simp: ldr_usage_ok_def ldr_refs_def)
  then show ?thesis using assms(1) by (auto simp: ldr_usage_ok_def)
qed

lemma ldr_inv_step:
  assumes inv: "ldr_inv w" and s: "w_sess w sp = Some s"
    and sess: "w_sess w' = (w_sess w)(sp \<mapsto> s')" and imgs: "w_imgs w' = (w_imgs w)(p := v)"
    and list: "distinct (dx_pLdrImages (w_devext w'))" "set (dx_pLdrImages (w_devext w')) = dom (w_imgs w')"
    and refs: "\<And>q. q \<noteq> p \<Longrightarrow> ldr_refs s' q = ldr_refs s q"
    and us: "ldr_usage_ok (w_imgs w') s'"
    and dead: "v = None \<Longrightarrow> ldr_refs s' p = 0 \<and> ldr_other w sp p = 0"
    and live: "\<And>im. v = Some im \<Longrightarrow> ldr_refs s' p + ldr_other w sp p \<le> unat (img_cUsage im) \<and>
                0 < unat (img_cUsage im) \<and> img_tabs_ok im"
  shows "ldr_inv w'"
proof -
  have fin: "finite (dom (w_sess w))" and fin': "finite (dom (w_sess w'))"
    using inv sess by (auto simp: ldr_inv_def)
  have oth: "ldr_other w' sp q = ldr_other w sp q" for q
    unfolding ldr_other_def by (rule sess_other_upd [OF sess])
  have tot': "ldr_total w' q = ldr_refs s' q + ldr_other w sp q" for q
    unfolding ldr_total_def using sess_total_split [OF fin', of sp s'] sess oth
    by (simp add: ldr_other_def)
  have tot: "ldr_total w q = ldr_refs s q + ldr_other w sp q" for q
    unfolding ldr_total_def ldr_other_def by (rule sess_total_split [OF fin s])
  have ok: "ldr_total w' q \<le> unat (img_cUsage im) \<and> 0 < unat (img_cUsage im) \<and> img_tabs_ok im"
    if im: "w_imgs w' q = Some im" for q im
  proof (cases "q = p")
    case True
    then show ?thesis using live [of im] im by (simp add: tot' imgs)
  next
    case False
    then have "ldr_total w q \<le> unat (img_cUsage im) \<and> 0 < unat (img_cUsage im) \<and> img_tabs_ok im"
      using inv im by (auto simp: ldr_inv_def imgs)
    then show ?thesis using refs [OF False] tot [of q] tot' [of q] by simp
  qed
  have "ldr_usage_ok (w_imgs w') t" if "w_sess w' q = Some t" for q t
  proof (cases "q = sp")
    case True
    then show ?thesis using us that sess by simp
  next
    case False
    then have t: "w_sess w q = Some t" using that sess by simp
    then have "ldr_usage_ok (w_imgs w) t" using inv by (auto simp: ldr_inv_def)
    then show ?thesis unfolding imgs
      by (rule ldr_usage_ok_upd)
        (use dead sess_other_zeroD [OF fin _ t False, of "\<lambda>s. ldr_refs s p"] in \<open>simp add: ldr_other_def\<close>)
  qed
  with ok list fin' show ?thesis by (simp add: ldr_inv_def)
qed

lemma ldr_invD:
  assumes "ldr_inv w" "w_sess w sp = Some s"
  shows "finite (dom (w_sess w))" "ldr_usage_ok (w_imgs w) s" "distinct (map lus_pImage (ses_pLdrUsage s))"
    "ldr_total w p = ldr_refs s p + ldr_other w sp p"
    "w_imgs w p = Some im \<Longrightarrow> ldr_total w p \<le> unat (img_cUsage im) \<and> 0 < unat (img_cUsage im) \<and> img_tabs_ok im"
    "distinct (dx_pLdrImages (w_devext w))" "set (dx_pLdrImages (w_devext w)) = dom (w_imgs w)"
    "find (\<lambda>u. lus_pImage u = p) (ses_pLdrUsage s) = Some u \<Longrightarrow>
       ldr_refs s p = unat (lus_cUsage u) \<and> 0 < unat (lus_cUsage u) \<and> lus_pImage u = p"
    "find (\<lambda>u. lus_pImage u = p) (ses_pLdrUsage s) = None \<Longrightarrow> ldr_refs s p = 0"
proof -
  show fin: "finite (dom (w_sess w))" and ok: "ldr_usage_ok (w_imgs w) s"
    and "distinct (dx_pLdrImages (w_devext w))" and "set (dx_pLdrImages (w_devext w)) = dom (w_imgs w)"
    using assms by (auto simp: ldr_inv_def)
  then show d: "distinct (map lus_pImage (ses_pLdrUsage s))" by (simp add: ldr_usage_ok_def)
  show "ldr_total w p = ldr_refs s p + ldr_other w sp p"
    unfolding ldr_total_def ldr_other_def by (rule sess_total_split [OF fin assms(2)])
  show "w_imgs w p = Some im \<Longrightarrow> ldr_total w p \<le> unat (img_cUsage im) \<and> 0 < unat (img_cUsage im) \<and> img_tabs_ok im"
    using assms by (auto simp: ldr_inv_def)
  show "ldr_refs s p = unat (lus_cUsage u) \<and> 0 < unat (lus_cUsage u) \<and> lus_pImage u = p"
    if f: "find (\<lambda>u. lus_pImage u = p) (ses_pLdrUsage s) = Some u"
    using find_SomeD [OF f] ok key_count_find [OF d f, of "\<lambda>u. unat (lus_cUsage u)"]
    by (auto simp: ldr_usage_ok_def ldr_refs_def)
  show "find (\<lambda>u. lus_pImage u = p) (ses_pLdrUsage s) = None \<Longrightarrow> ldr_refs s p = 0"
    unfolding ldr_refs_def by (rule key_count_zero) (simp add: find_None_iff_set)
qed

lemma ldr_no_refs_unallocated:
  assumes "ldr_inv w" "w_imgs w p = None"
  shows "ldr_other w sp p = 0" "w_sess w q = Some s \<Longrightarrow> ldr_refs s p = 0"
proof -
  have z: "ldr_refs s p = 0" if "w_sess w q = Some s" for q s
  proof -
    have "ldr_usage_ok (w_imgs w) s" using assms(1) that by (auto simp: ldr_inv_def)
    then have "\<forall>u\<in>set (ses_pLdrUsage s). lus_pImage u \<noteq> p" using assms(2) by (auto simp: ldr_usage_ok_def)
    then show ?thesis by (simp add: ldr_refs_def key_count_zero)
  qed
  then show "ldr_other w sp p = 0" by (auto simp: ldr_other_def sess_other_def)
  show "w_sess w q = Some s \<Longrightarrow> ldr_refs s p = 0" by (rule z)
qed

lemma ldr_inv_frame:
  assumes "w_sess w' = w_sess w" "w_imgs w' = w_imgs w" "dx_pLdrImages (w_devext w') = dx_pLdrImages (w_devext w)"
  shows "ldr_inv w' = ldr_inv w"
  using sess_sums_cong [OF assms(1)] by (simp add: ldr_inv_def ldr_total_def assms)

lemma ldr_usage_update:
  assumes "ldr_usage_ok h s" "find (\<lambda>u. lus_pImage u = p) (ses_pLdrUsage s) = Some u"
    "\<And>v. lus_pImage (f v) = lus_pImage v" "0 < unat (lus_cUsage (f u))" "dom h' = dom h"
  shows "ldr_usage_ok h' (s\<lparr>ses_pLdrUsage := update_first (\<lambda>u. lus_pImage u = p) f (ses_pLdrUsage s)\<rparr>)"
proof -
  obtain ys zs where sp: "ses_pLdrUsage s = ys @ u # zs"
    "update_first (\<lambda>u. lus_pImage u = p) f (ses_pLdrUsage s) = ys @ f u # zs"
    using update_first_split [OF assms(2)] by blast
  have ih: "ldr_usage_ok h s" "lus_pImage (f u) = lus_pImage u" using assms by auto
  show ?thesis using ih assms(4,5) unfolding ldr_usage_ok_def
    by (simp add: sp(2)) (simp add: sp(1))
qed

lemma ldr_usage_remove:
  assumes "ldr_usage_ok h s" "find (\<lambda>u. lus_pImage u = p) (ses_pLdrUsage s) = Some u"
  shows "ldr_usage_ok (h(p := v)) (s\<lparr>ses_pLdrUsage := remove_first (\<lambda>u. lus_pImage u = p) (ses_pLdrUsage s)\<rparr>)"
proof -
  obtain ys zs where sp: "ses_pLdrUsage s = ys @ u # zs"
    "remove_first (\<lambda>u. lus_pImage u = p) (ses_pLdrUsage s) = ys @ zs"
    using remove_first_split [OF assms(2)] by blast
  have u: "lus_pImage u = p" using find_SomeD [OF assms(2)] by simp
  have d: "distinct (map lus_pImage (ys @ u # zs))" using assms(1) by (simp add: ldr_usage_ok_def sp(1))
  then have "\<forall>x\<in>set (ys @ zs). lus_pImage x \<noteq> p" unfolding u [symmetric] by (auto simp: image_iff)
  then show ?thesis using assms(1) d unfolding ldr_usage_ok_def
    by (simp add: sp(2)) (auto simp add: sp(1))
qed

lemma ldr_refs_upd [simp]: "ldr_refs (s\<lparr>ses_pLdrUsage := us\<rparr>) p = img_refs_in us p"
  by (simp add: ldr_refs_def)

subsection \<open>Name comparison\<close>

text \<open>Inside the block the test compares the names, and it leaves the block on shorter names.\<close>

lemma ldr_name_match_eq:
  assumes nm: "nm = cs @ [0]" and cs: "0 \<notin> set cs"
  shows "ldr_name_match nm szName = (if length cs < length (cstr szName) then None else Some (cs = cstr szName))"
proof -
  let ?n = "length (cstr szName)"
  have "nm ! ?n = 0 \<and> take ?n nm = cstr szName \<longleftrightarrow> cs = cstr szName" if "\<not> length cs < ?n"
  proof (cases "?n = length cs")
    case True
    then show ?thesis using nm by (auto simp: nth_append)
  next
    case False
    then have "?n < length cs" using that by simp
    then have "nm ! ?n \<in> set cs" using nm by (simp add: nth_append)
    then show ?thesis using cs False by metis
  qed
  then show ?thesis using nm by (simp add: ldr_name_match_def Let_def)
qed

subsection \<open>Freeing images\<close>

definition clear_dtor :: "SUPDRVLDRIMAGE \<Rightarrow> SUPDRVOBJ \<Rightarrow> SUPDRVOBJ" where
  "clear_dtor im ob = (if in_image im (obj_pfnDestructor ob) then ob\<lparr>obj_pfnDestructor := 0\<rparr> else ob)"

lemma ldr_clear_dtors_eq:
  "set ps \<subseteq> dom (w_objs w) \<Longrightarrow> ldr_clear_dtors w im ps =
     Some (w\<lparr>w_objs := (\<lambda>q. if q \<in> set ps then map_option (clear_dtor im) (w_objs w q) else w_objs w q)\<rparr>)"
proof (induction ps arbitrary: w)
  case (Cons p ps)
  then obtain ob where ob: "w_objs w p = Some ob" by auto
  let ?w1 = "if in_image im (obj_pfnDestructor ob) then set_obj w p (ob\<lparr>obj_pfnDestructor := 0\<rparr>) else w"
  have o1: "w_objs ?w1 = (w_objs w)(p \<mapsto> clear_dtor im ob)"
    using ob by (auto simp: clear_dtor_def fun_upd_idem)
  have w1: "?w1 = w\<lparr>w_objs := (w_objs w)(p \<mapsto> clear_dtor im ob)\<rparr>"
    using ob by (auto simp: clear_dtor_def set_obj_def fun_upd_idem)
  have idem: "clear_dtor im (clear_dtor im ob) = clear_dtor im ob"
    by (auto simp: clear_dtor_def)
  have "ldr_clear_dtors w im (p # ps) = ldr_clear_dtors ?w1 im ps" using ob by simp
  also have "\<dots> = Some (?w1\<lparr>w_objs := (\<lambda>q. if q \<in> set ps then map_option (clear_dtor im) (w_objs ?w1 q) else w_objs ?w1 q)\<rparr>)"
    by (rule Cons.IH) (use Cons.prems o1 in auto)
  also have "(\<lambda>q. if q \<in> set ps then map_option (clear_dtor im) (w_objs ?w1 q) else w_objs ?w1 q) =
      (\<lambda>q. if q \<in> set (p # ps) then map_option (clear_dtor im) (w_objs w q) else w_objs w q)"
    unfolding o1 using ob idem by auto
  finally show ?case unfolding w1 by simp
qed simp

lemma obj_inv_map:
  assumes "w_sess w' = w_sess w" "dx_pObjs (w_devext w') = dx_pObjs (w_devext w)"
    and o: "w_objs w' = (\<lambda>q. map_option f (w_objs w q))"
    and f: "\<And>ob. obj_u32Magic (f ob) = obj_u32Magic ob" "\<And>ob. obj_cUsage (f ob) = obj_cUsage ob"
  shows "obj_inv w' = obj_inv w"
proof -
  have d: "dom (w_objs w') = dom (w_objs w)" unfolding o by (auto simp: dom_def)
  have "obj_ok w' p (f ob) = obj_ok w p ob" for p ob
    using total_refs_cong [OF assms(1)] f by (simp add: obj_ok_def)
  then have "(\<forall>ob. w_objs w' p = Some ob \<longrightarrow> obj_ok w' p ob) = (\<forall>ob. w_objs w p = Some ob \<longrightarrow> obj_ok w p ob)" for p
    unfolding o by (cases "w_objs w p") simp_all
  then have "(\<forall>p ob. w_objs w' p = Some ob \<longrightarrow> obj_ok w' p ob) = (\<forall>p ob. w_objs w p = Some ob \<longrightarrow> obj_ok w p ob)"
    by blast
  moreover have "usage_ok (w_objs w') s = usage_ok (w_objs w) s" for s by (simp add: usage_ok_def d)
  ultimately show ?thesis by (simp add: obj_inv_def assms(1,2) d)
qed

definition img_events :: "addr \<Rightarrow> SUPDRVLDRIMAGE \<Rightarrow> sup_event list" where
  "img_events p im =
     (if img_pfnModuleTerm im \<noteq> 0 \<and> img_uState im = SUP_LDR_LOAD then [EvModuleTerm (img_pfnModuleTerm im)] else []) @
     (if img_fNative im then [EvNativeUnload p] else [])"

text \<open>The entry points of VMMR0 are those of the image that is being freed, or unset.\<close>

definition eps_unset :: "SUPDRVDEVEXT \<Rightarrow> bool" where
  "eps_unset d \<longleftrightarrow> dx_pvVMMR0 d = 0 \<and> dx_pfnVMMR0EntryInt d = 0 \<and> dx_pfnVMMR0EntryFast d = 0 \<and> dx_pfnVMMR0EntryEx d = 0"

lemma supdrvLdrFree_ok:
  assumes "obj_inv w" and im: "w_imgs w p = Some im" and l: "p \<in> set (dx_pLdrImages (w_devext w))"
  obtains w' where "supdrvLdrFree w p = Some w'" "obj_inv w'" "w_sess w' = w_sess w"
    "w_imgs w' = (w_imgs w)(p := None)" "dx_pLdrImages (w_devext w') = remove1 p (dx_pLdrImages (w_devext w))"
    "w_objs w' = (\<lambda>q. map_option (clear_dtor im) (w_objs w q))"
    "w_trace w' = w_trace w @ img_events p im"
    "if dx_pvVMMR0 (w_devext w) = img_pvImage im then eps_unset (w_devext w')
     else dx_pvVMMR0 (w_devext w') = dx_pvVMMR0 (w_devext w)"
    "w_memobjs w' = w_memobjs w" "w_factories w' = w_factories w"
proof -
  define w2 where "w2 = ldr_unlink w p im"
  let ?o = "\<lambda>q. map_option (clear_dtor im) (w_objs w q)"
  have f: "w_objs w2 = w_objs w" "w_sess w2 = w_sess w" "w_imgs w2 = w_imgs w" "w_trace w2 = w_trace w"
    "dx_pObjs (w_devext w2) = dx_pObjs (w_devext w)" "w_memobjs w2 = w_memobjs w" "w_factories w2 = w_factories w"
    "dx_pLdrImages (w_devext w2) = remove1 p (dx_pLdrImages (w_devext w))"
    by (simp_all add: w2_def ldr_unlink_def Let_def supdrvLdrUnsetVMMR0EPs_def)
  have e: "if dx_pvVMMR0 (w_devext w) = img_pvImage im then eps_unset (w_devext w2)
     else dx_pvVMMR0 (w_devext w2) = dx_pvVMMR0 (w_devext w)"
    by (simp add: w2_def ldr_unlink_def Let_def supdrvLdrUnsetVMMR0EPs_def eps_unset_def)
  have objs: "set (dx_pObjs (w_devext w)) = dom (w_objs w)" by (rule obj_list(2) [OF assms(1)])
  have o: "(\<lambda>q. if q \<in> set (dx_pObjs (w_devext w2)) then map_option (clear_dtor im) (w_objs w2 q) else w_objs w2 q) = ?o"
    unfolding f objs by (auto simp: fun_eq_iff domIff)
  have c: "ldr_clear_dtors w2 im (dx_pObjs (w_devext w2)) = Some (w2\<lparr>w_objs := ?o\<rparr>)"
    unfolding o [symmetric] by (rule ldr_clear_dtors_eq) (simp add: f objs)
  define w4 where "w4 = (if img_pfnModuleTerm im \<noteq> 0 \<and> img_uState im = SUP_LDR_LOAD
     then log_ev (w2\<lparr>w_objs := ?o\<rparr>) (EvModuleTerm (img_pfnModuleTerm im)) else w2\<lparr>w_objs := ?o\<rparr>)"
  define w5 where "w5 = (if img_fNative im then log_ev w4 (EvNativeUnload p) else w4)"
  define w' where "w' = w5\<lparr>w_imgs := (w_imgs w5)(p := None)\<rparr>"
  have r: "supdrvLdrFree w p = Some w'"
    using im l c by (simp add: supdrvLdrFree_def Let_def w2_def [symmetric] w4_def w5_def w'_def)
  have g: "w_sess w' = w_sess w" "w_imgs w' = (w_imgs w)(p := None)" "w_objs w' = ?o"
    "w_devext w' = w_devext w2" "w_trace w' = w_trace w @ img_events p im"
    "w_memobjs w' = w_memobjs w" "w_factories w' = w_factories w"
    unfolding w'_def w5_def w4_def using f by (auto simp: img_events_def)
  have "obj_inv w' = obj_inv w"
    by (rule obj_inv_map [OF g(1) _ g(3)]) (use g(4) f in \<open>auto simp: clear_dtor_def\<close>)
  with that [OF r] g f e assms(1) show thesis by simp
qed

lemma ldr_find_usageD:
  assumes "ldr_inv w" "w_sess w sp = Some s"
  shows "ldr_find_usage w s base \<noteq> None"
    "ldr_find_usage w s base = Some (Some (p, im)) \<Longrightarrow> w_imgs w p = Some im \<and> img_pvImage im = base \<and>
       (\<exists>u. find (\<lambda>u. lus_pImage u = p) (ses_pLdrUsage s) = Some u)"
    "ldr_find_usage w s base = Some None \<Longrightarrow> 0 < ldr_refs s p \<Longrightarrow> w_imgs w p = Some im \<Longrightarrow> img_pvImage im \<noteq> base"
proof -
  have ok: "ldr_usage_ok (w_imgs w) s" by (rule ldr_invD(2) [OF assms])
  then have "set (map lus_pImage (ses_pLdrUsage s)) \<subseteq> dom (w_imgs w)" by (auto simp: ldr_usage_ok_def)
  then show "ldr_find_usage w s base \<noteq> None" unfolding ldr_find_usage_def by (rule deref_find_safe)
  show "w_imgs w p = Some im \<and> img_pvImage im = base \<and>
      (\<exists>u. find (\<lambda>u. lus_pImage u = p) (ses_pLdrUsage s) = Some u)"
    if f: "ldr_find_usage w s base = Some (Some (p, im))"
  proof -
    have d: "p \<in> set (map lus_pImage (ses_pLdrUsage s)) \<and> w_imgs w p = Some im \<and> img_pvImage im = base"
      by (rule deref_find_Some) (use f in \<open>simp add: ldr_find_usage_def\<close>)
    then have "find (\<lambda>u. lus_pImage u = p) (ses_pLdrUsage s) \<noteq> None" by (auto simp: find_None_iff)
    with d show ?thesis by auto
  qed
  show "img_pvImage im \<noteq> base"
    if "ldr_find_usage w s base = Some None" "0 < ldr_refs s p" "w_imgs w p = Some im"
  proof -
    have "p \<in> set (map lus_pImage (ses_pLdrUsage s))"
      using that(2) key_count_zero [of "ses_pLdrUsage s" lus_pImage p] by (fastforce simp: ldr_refs_def)
    then show ?thesis using deref_find_None [of "w_imgs w" _ _ p] that by (fastforce simp: ldr_find_usage_def)
  qed
qed

lemma remove1_list:
  "distinct xs \<Longrightarrow> set xs = dom m \<Longrightarrow> distinct (remove1 p xs) \<and> set (remove1 p xs) = dom (m(p := None))"
  by auto

lemma supdrvIOCtl_LdrFree_ok:
  assumes oi: "obj_inv w" and li: "ldr_inv w" and s: "w_sess w sp = Some s"
    and f: "ldr_find_usage w s base = Some (Some (p, im))"
  obtains w' where "supdrvIOCtl_LdrFree w sp base = Some (VINF_SUCCESS, w')" "obj_inv w'" "ldr_inv w'"
    "\<forall>k. k \<noteq> sp \<longrightarrow> w_sess w' k = w_sess w k"
    "\<forall>q. q \<noteq> p \<longrightarrow> w_imgs w' q = w_imgs w q"
    "w_imgs w' p = None \<Longrightarrow> unat (img_cUsage im) = 1 \<and> ldr_other w sp p = 0 \<and>
       (\<forall>q ob. w_objs w q = Some ob \<longrightarrow> \<not> in_image im (obj_pfnDestructor ob)) \<and>
       w_trace w' = w_trace w @ img_events p im \<and>
       (dx_pvVMMR0 (w_devext w) = img_pvImage im \<longrightarrow> eps_unset (w_devext w'))"
    "w_imgs w' p \<noteq> None \<Longrightarrow> w_trace w' = w_trace w \<and> w_devext w' = w_devext w \<and> w_objs w' = w_objs w \<and>
       (w' = w \<or> w_imgs w' p = Some (im\<lparr>img_cUsage := img_cUsage im - 1\<rparr>))"
proof -
  note D = ldr_invD [OF li s]
  obtain u where im: "w_imgs w p = Some im" "img_pvImage im = base"
    and u: "find (\<lambda>u. lus_pImage u = p) (ses_pLdrUsage s) = Some u"
    using ldr_find_usageD(2) [OF li s f] by blast
  have U: "ldr_refs s p = unat (lus_cUsage u)" "0 < unat (lus_cUsage u)" "lus_pImage u = p" using D(8) [OF u] by auto
  have C: "unat (lus_cUsage u) + ldr_other w sp p \<le> unat (img_cUsage im)" "0 < unat (img_cUsage im)" "img_tabs_ok im"
    using D(5) [OF im(1)] D(4) [of p] U by auto
  have dec: "unat (img_cUsage im - 1) = unat (img_cUsage im) - 1" by (rule unat_dec [OF C(2)])
  have le1: "img_cUsage im \<le> 1 \<longleftrightarrow> unat (img_cUsage im) = 1" "lus_cUsage u \<le> 1 \<longleftrightarrow> unat (lus_cUsage u) = 1"
    using C(2) U(2) by (auto simp: word_le_nat_alt)
  let ?us = "remove_first (\<lambda>u. lus_pImage u = p) (ses_pLdrUsage s)"
  let ?im = "im\<lparr>img_cUsage := img_cUsage im - 1\<rparr>"
  have rr: "img_refs_in ?us y = (if p = y then 0 else ldr_refs s y)" for y
    using key_count_remove [OF D(3) u, of "\<lambda>u. unat (lus_cUsage u)" y] by (simp add: ldr_refs_def)
  have urm: "ldr_usage_ok ((w_imgs w)(p := v)) (s\<lparr>ses_pLdrUsage := ?us\<rparr>)" for v
    by (rule ldr_usage_remove [OF D(2) u])
  have ou: "set (dx_pObjs (w_devext w)) \<subseteq> dom (w_objs w)" "set (map usg_pObj (ses_pUsage s)) \<subseteq> dom (w_objs w)"
    using obj_list(2) [OF oi] obj_invD(2) [OF oi s] by (auto simp: usage_ok_def)
  then have "ldr_dangling w s im \<noteq> None"
    unfolding ldr_dangling_def using deref_find_safe [of _ "w_objs w"] by simp
  then obtain dang where dang: "ldr_dangling w s im = Some dang" by auto
  let ?w1 = "set_sess w sp (s\<lparr>ses_pLdrUsage := ?us\<rparr>)"
  have oi1: "obj_inv (set_sess w' sp (t\<lparr>ses_pLdrUsage := x\<rparr>))" if "obj_inv w'" "w_sess w' sp = Some t" for w' t x
    by (rule obj_inv_set_sess [OF that]) simp
  show thesis
  proof (cases "img_cUsage im \<le> 1 \<or> lus_cUsage u \<le> 1")
    case False
    let ?f = "\<lambda>u. u\<lparr>lus_cUsage := lus_cUsage u - 1\<rparr>"
    let ?us2 = "update_first (\<lambda>u. lus_pImage u = p) ?f (ses_pLdrUsage s)"
    let ?w' = "set_sess (set_img w p ?im) sp (s\<lparr>ses_pLdrUsage := ?us2\<rparr>)"
    have r: "supdrvIOCtl_LdrFree w sp base = Some (VINF_SUCCESS, ?w')"
      using s f u False by (simp add: supdrvIOCtl_LdrFree_def)
    have gt: "1 < unat (lus_cUsage u)" "1 < unat (img_cUsage im)" using False le1 U C by auto
    have du: "unat (lus_cUsage u - 1) = unat (lus_cUsage u) - 1" by (rule unat_dec [OF U(2)])
    have ru: "img_refs_in ?us2 y = (if p = y then ldr_refs s p - 1 else ldr_refs s y)" for y
      using key_count_update [OF D(3) u, of ?f "\<lambda>u. unat (lus_cUsage u)" y] U du
      by (cases "p = y") (auto simp: ldr_refs_def)
    have uok: "ldr_usage_ok ((w_imgs w)(p \<mapsto> ?im)) (s\<lparr>ses_pLdrUsage := ?us2\<rparr>)"
      by (rule ldr_usage_update [OF D(2) u]) (use du gt im in auto)
    have "ldr_inv ?w'"
      by (rule ldr_inv_step [OF li s, where s' = "s\<lparr>ses_pLdrUsage := ?us2\<rparr>" and p = p and v = "Some ?im"])
        (use D(6,7) im uok ru C dec U gt in auto)
    moreover have "obj_inv ?w'"
      by (rule oi1) (use oi s obj_inv_frame [of "set_img w p ?im" w] in auto)
    ultimately show thesis using that [OF r] im by simp
  next
    case True
    show thesis
    proof (cases dang)
      case True
      have c: "(img_cUsage im \<le> 1 \<or> lus_cUsage u \<le> 1) = True" using \<open>img_cUsage im \<le> 1 \<or> lus_cUsage u \<le> 1\<close> by simp
      have e: "supdrvIOCtl_LdrFree w sp base = Some (VINF_SUCCESS, w)"
        by (simp only: supdrvIOCtl_LdrFree_def s f u dang True c option.case prod.case if_True bool.case)
      show thesis by (rule that [OF e oi li]) (use im(1) in simp_all)
    next
      case False
      show thesis
      proof (cases "img_cUsage im \<le> 1")
        case True
        have one: "unat (img_cUsage im) = 1" using True le1 by simp
        have o: "ldr_other w sp p = 0" using C U one by simp
        have nd: "\<not> in_image im (obj_pfnDestructor ob)" if "w_objs w q = Some ob" for q ob
        proof -
          have "q \<in> set (dx_pObjs (w_devext w))" using that obj_list(2) [OF oi] by auto
          have "deref_find (w_objs w) (\<lambda>ob. in_image im (obj_pfnDestructor ob)) (dx_pObjs (w_devext w)) = Some None"
            using dang False True by (simp add: ldr_dangling_def) (metis not_None_eq surj_pair)
          from deref_find_None [OF this \<open>q \<in> set (dx_pObjs (w_devext w))\<close>] that show ?thesis by auto
        qed
        have oi2: "obj_inv ?w1" by (rule oi1 [OF oi s])
        obtain w2 where w2: "supdrvLdrFree ?w1 p = Some w2" "obj_inv w2" "w_sess w2 = w_sess ?w1"
          "w_imgs w2 = (w_imgs ?w1)(p := None)" "dx_pLdrImages (w_devext w2) = remove1 p (dx_pLdrImages (w_devext ?w1))"
          "w_objs w2 = (\<lambda>q. map_option (clear_dtor im) (w_objs ?w1 q))"
          "w_trace w2 = w_trace ?w1 @ img_events p im"
          "if dx_pvVMMR0 (w_devext ?w1) = img_pvImage im then eps_unset (w_devext w2)
           else dx_pvVMMR0 (w_devext w2) = dx_pvVMMR0 (w_devext ?w1)"
          "w_memobjs w2 = w_memobjs ?w1" "w_factories w2 = w_factories ?w1"
          by (rule supdrvLdrFree_ok [OF oi2, of p im]) (use im D(7) in auto)
        have r: "supdrvIOCtl_LdrFree w sp base = Some (VINF_SUCCESS, w2)"
          using s f u dang False True w2(1) by (simp add: supdrvIOCtl_LdrFree_def)
        have "ldr_inv w2"
          by (rule ldr_inv_step [OF li s, where s' = "s\<lparr>ses_pLdrUsage := ?us\<rparr>" and p = p and v = None])
            (use w2 D(6,7) urm rr o remove1_list [OF D(6,7)] in auto)
        with that [OF r w2(2)] w2 o nd one show thesis by auto
      next
        case gt: False
        let ?w' = "set_img ?w1 p ?im"
        have r: "supdrvIOCtl_LdrFree w sp base = Some (VINF_SUCCESS, ?w')"
          using s f u dang False True gt by (simp add: supdrvIOCtl_LdrFree_def)
        have one: "unat (lus_cUsage u) = 1" using True gt le1 by simp
        have "ldr_inv ?w'"
          by (rule ldr_inv_step [OF li s, where s' = "s\<lparr>ses_pLdrUsage := ?us\<rparr>" and p = p and v = "Some ?im"])
            (use D(6,7) im urm rr C dec one le1 gt in auto)
        moreover have "obj_inv ?w'"
          using oi1 [OF oi s] obj_inv_frame [of ?w' ?w1] by simp
        ultimately show thesis using that [OF r] im by simp
      qed
    qed
  qed
qed

end
