(* ===== verification/SupLdrOps.thy ===== *)
theory SupLdrOps
  imports SupLdr
begin

text \<open>
  Correctness of the image loader: opening, loading, freeing, symbol lookup and the image part
  of session cleanup, over the definitions and the invariant of SupLdr.
\<close>

subsection \<open>Names\<close>

text \<open>Every image has a terminated name and fewer bits than bytes with its tables; no two images have the same name.\<close>

definition ldr_names :: "supdrv \<Rightarrow> bool" where
  "ldr_names w \<longleftrightarrow>
     (\<forall>p im. w_imgs w p = Some im \<longrightarrow>
        img_szName im = cstr (img_szName im) @ [0] \<and> img_cbImageBits im < img_cbImageWithTabs im) \<and>
     (\<forall>p q im jm. w_imgs w p = Some im \<longrightarrow> w_imgs w q = Some jm \<longrightarrow>
        cstr (img_szName im) = cstr (img_szName jm) \<longrightarrow> p = q)"

lemma cstr_nonzero: "0 \<notin> set (cstr s)"
  by (auto simp: cstr_def dest: set_takeWhileD)

lemma cstr_term [simp]: "cstr (cstr s @ [0]) = cstr s"
  using cstr_nonzero [of s] unfolding cstr_def [of "cstr s @ [0]"]
  by (subst takeWhile_append2) auto

lemma ldr_names_match:
  assumes "ldr_names w" "w_imgs w p = Some im"
  shows "ldr_name_match (img_szName im) nm =
    (if length (cstr (img_szName im)) < length (cstr nm) then None else Some (cstr (img_szName im) = cstr nm))"
proof -
  have "img_szName im = cstr (img_szName im) @ [0]" using assms by (auto simp: ldr_names_def)
  from ldr_name_match_eq [OF this cstr_nonzero] show ?thesis .
qed

lemma ldr_names_upd:
  assumes "ldr_names w" "w_imgs w' = (w_imgs w)(p \<mapsto> im)"
    "w_imgs w p = Some jm" "img_szName im = img_szName jm \<and> img_cbImageBits im = img_cbImageBits jm \<and>
       img_cbImageWithTabs im = img_cbImageWithTabs jm"
  shows "ldr_names w'"
proof -
  have n: "\<exists>jm. w_imgs w q = Some jm \<and> img_szName jm = img_szName km \<and> img_cbImageBits jm = img_cbImageBits km \<and>
      img_cbImageWithTabs jm = img_cbImageWithTabs km" if "w_imgs w' q = Some km" for q km
    using that assms by (cases "q = p") auto
  have a: "img_szName km = cstr (img_szName km) @ [0] \<and> img_cbImageBits km < img_cbImageWithTabs km" if "w_imgs w' q = Some km" for q km
    using n [OF that] assms(1) unfolding ldr_names_def by metis
  have b: "q = r" if "w_imgs w' q = Some km" "w_imgs w' r = Some lm"
      "cstr (img_szName km) = cstr (img_szName lm)" for q r km lm
    using n [OF that(1)] n [OF that(2)] assms(1) that(3) by (metis ldr_names_def)
  from a b show ?thesis unfolding ldr_names_def by blast
qed

lemma ldr_names_new:
  assumes "ldr_names w" "w_imgs w' = (w_imgs w)(p \<mapsto> im)" "img_szName im = cstr nm @ [0]"
    "img_cbImageBits im < img_cbImageWithTabs im"
    "\<And>q jm. w_imgs w q = Some jm \<Longrightarrow> cstr (img_szName jm) \<noteq> cstr nm"
  shows "ldr_names w'"
  unfolding ldr_names_def using assms(1-4)
  by (auto simp: ldr_names_def dest: assms(5) assms(5) [THEN not_sym])

lemma ldr_names_remove:
  "ldr_names w \<Longrightarrow> w_imgs w' = (w_imgs w)(p := None) \<Longrightarrow> ldr_names w'"
  unfolding ldr_names_def by (auto split: if_splits)

text \<open>No usage counter is about to overflow.\<close>

definition ldr_room :: "supdrv \<Rightarrow> bool" where
  "ldr_room w \<longleftrightarrow> (\<forall>p im. w_imgs w p = Some im \<longrightarrow> unat (img_cUsage im) + 1 < 2 ^ 32)"

subsection \<open>A concrete loader state\<close>

text \<open>
  Sessions 0x10000 and 0x11000 share the loaded image 0x30000 (\<open>A\<close>, at 0x40000, with one
  symbol \<open>f\<close>); the first also holds the image 0x31000 (\<open>B\<close>, at 0x50000), which is open.
\<close>

definition ldr_ex_A :: SUPDRVLDRIMAGE where
  "ldr_ex_A = \<lparr>img_pvImage = 0x40000, img_pvImageAlloc = 0x40000, img_cbImageWithTabs = 0x40,
     img_cbImageBits = 0x20, img_cSymbols = 1, img_paSymbols = Some [\<lparr>sym_offName = 1, sym_offSymbol = 0x10\<rparr>],
     img_pachStrTab = Some [0, 0x66, 0], img_cbStrTab = 3, img_pfnModuleInit = 0, img_pfnModuleTerm = 0,
     img_pfnServiceReqHandler = 0, img_uState = SUP_LDR_LOAD, img_cUsage = 2, img_fNative = False,
     img_szName = [0x41, 0], img_abBits = []\<rparr>"

definition ldr_ex_B :: SUPDRVLDRIMAGE where
  "ldr_ex_B = (ldr_new_image \<lparr>lo_cbImageWithTabs = 4, lo_cbImageBits = 2, lo_szName = [0x42, 0]\<rparr>)
     \<lparr>img_pvImage := 0x50000, img_fNative := False\<rparr>"

definition ldr_ex :: supdrv where
  "ldr_ex = supdrv0\<lparr>w_devext := dx0\<lparr>dx_pLdrImages := [0x31000, 0x30000]\<rparr>,
     w_sess := [0x10000 \<mapsto> sess0\<lparr>ses_pLdrUsage := [\<lparr>lus_pImage = 0x31000, lus_cUsage = 1\<rparr>, \<lparr>lus_pImage = 0x30000, lus_cUsage = 1\<rparr>]\<rparr>,
                0x11000 \<mapsto> sess0\<lparr>ses_pLdrUsage := [\<lparr>lus_pImage = 0x30000, lus_cUsage = 1\<rparr>]\<rparr>],
     w_imgs := [0x30000 \<mapsto> ldr_ex_A, 0x31000 \<mapsto> ldr_ex_B]\<rparr>"

lemma ldr_ex_simps:
  "w_sess ldr_ex 0x10000 = Some (sess0\<lparr>ses_pLdrUsage := [\<lparr>lus_pImage = 0x31000, lus_cUsage = 1\<rparr>, \<lparr>lus_pImage = 0x30000, lus_cUsage = 1\<rparr>]\<rparr>)"
  "w_sess ldr_ex 0x11000 = Some (sess0\<lparr>ses_pLdrUsage := [\<lparr>lus_pImage = 0x30000, lus_cUsage = 1\<rparr>]\<rparr>)"
  "w_imgs ldr_ex = [0x30000 \<mapsto> ldr_ex_A, 0x31000 \<mapsto> ldr_ex_B]"
  "w_objs ldr_ex = Map.empty" "dx_pObjs (w_devext ldr_ex) = []"
  "dx_pLdrImages (w_devext ldr_ex) = [0x31000, 0x30000]"
  by (simp_all add: ldr_ex_def supdrv0_def dx0_def)

lemma ldr_ex_inv: "obj_inv ldr_ex" "ldr_inv ldr_ex" "ldr_names ldr_ex" "ldr_room ldr_ex"
proof -
  show "obj_inv ldr_ex"
    by (simp add: obj_inv_def ldr_ex_def supdrv0_def dx0_def sess0_def usage_ok_def)
  show "ldr_inv ldr_ex"
    by (simp add: ldr_inv_def ldr_ex_def supdrv0_def ldr_total_def sess_total_def ldr_refs_def ldr_usage_ok_def
        img_tabs_ok_def ldr_ex_A_def ldr_ex_B_def ldr_new_image_def)
  show "ldr_names ldr_ex" "ldr_room ldr_ex"
    by (auto simp: ldr_names_def ldr_room_def ldr_ex_simps ldr_ex_A_def ldr_ex_B_def ldr_new_image_def cstr_def split: if_splits)
qed

subsection \<open>Opening\<close>

text \<open>Adding a usage record succeeds unless memory is needed and missing.\<close>

lemma supdrvLdrAddUsage_ok:
  assumes s: "w_sess w sp = Some s" and ok: "ldr_usage_ok h s" and p: "p \<in> dom h"
    and room: "ldr_refs s p + 1 < 2 ^ 32"
  obtains rc us where
    "supdrvLdrAddUsage w sp p fMem = Some (rc, set_sess w sp (s\<lparr>ses_pLdrUsage := us\<rparr>))"
    "ldr_usage_ok h (s\<lparr>ses_pLdrUsage := us\<rparr>)"
    "\<forall>q. img_refs_in us q = ldr_refs s q + of_bool (q = p \<and> (fMem \<or> 0 < ldr_refs s p))"
    "fMem \<longrightarrow> rc = VINF_SUCCESS"
proof (cases "find (\<lambda>u. lus_pImage u = p) (ses_pLdrUsage s)")
  case (Some u)
  let ?f = "\<lambda>u. u\<lparr>lus_cUsage := lus_cUsage u + 1\<rparr>"
  let ?us = "update_first (\<lambda>u. lus_pImage u = p) ?f (ses_pLdrUsage s)"
  have d: "distinct (map lus_pImage (ses_pLdrUsage s))" and u0: "0 < unat (lus_cUsage u)"
    using ok find_SomeD [OF Some] by (auto simp: ldr_usage_ok_def)
  have r: "ldr_refs s p = unat (lus_cUsage u)"
    using key_count_find [OF d Some, of "\<lambda>u. unat (lus_cUsage u)"] by (simp add: ldr_refs_def)
  then have inc: "unat (lus_cUsage u + 1) = unat (lus_cUsage u) + 1"
    using room by (intro unat_inc) simp
  have e: "supdrvLdrAddUsage w sp p fMem = Some (VINF_SUCCESS, set_sess w sp (s\<lparr>ses_pLdrUsage := ?us\<rparr>))"
    using s Some by (simp add: supdrvLdrAddUsage_def)
  have k: "img_refs_in ?us q = ldr_refs s q + of_bool (q = p \<and> (fMem \<or> 0 < ldr_refs s p))" for q
    using key_count_update [OF d Some, of ?f "\<lambda>u. unat (lus_cUsage u)" q] find_SomeD [OF Some] inc r u0
    by (auto simp: ldr_refs_def)
  have "ldr_usage_ok h (s\<lparr>ses_pLdrUsage := ?us\<rparr>)"
    by (rule ldr_usage_update [OF ok Some]) (simp_all add: inc)
  from that [OF e this] k show thesis by simp
next
  case None
  have r: "ldr_refs s p = 0"
    unfolding ldr_refs_def by (rule key_count_zero) (use None in \<open>simp add: find_None_iff_set\<close>)
  show thesis
  proof (cases fMem)
    case True
    let ?us = "\<lparr>lus_pImage = p, lus_cUsage = 1\<rparr> # ses_pLdrUsage s"
    have e: "supdrvLdrAddUsage w sp p fMem = Some (VINF_SUCCESS, set_sess w sp (s\<lparr>ses_pLdrUsage := ?us\<rparr>))"
      using s None True by (simp add: supdrvLdrAddUsage_def)
    have "ldr_usage_ok h (s\<lparr>ses_pLdrUsage := ?us\<rparr>)"
      using ok p None by (auto simp: ldr_usage_ok_def find_None_iff_set)
    from that [OF e this] True show thesis by (simp add: ldr_refs_def)
  next
    case False
    have e: "supdrvLdrAddUsage w sp p fMem =
        Some (VERR_INTERNAL_ERROR_5, set_sess w sp (s\<lparr>ses_pLdrUsage := ses_pLdrUsage s\<rparr>))"
      using s None False by (simp add: supdrvLdrAddUsage_def set_sess_def fun_upd_idem)
    from that [OF e] ok False r show thesis by (simp add: ldr_refs_def)
  qed
qed

text \<open>
  A request overruns a name block when the walk comes to an image whose name is shorter than the
  requested one before it comes to the image of that name.
\<close>

definition ldr_overrun :: "supdrv \<Rightarrow> u8 list \<Rightarrow> bool" where
  "ldr_overrun w szName \<longleftrightarrow>
     (\<exists>p im ps qs. dx_pLdrImages (w_devext w) = ps @ p # qs \<and> w_imgs w p = Some im \<and>
        length (cstr (img_szName im)) < length (cstr szName) \<and>
        (\<forall>q\<in>set ps. \<forall>jm. w_imgs w q = Some jm \<longrightarrow> cstr (img_szName jm) \<noteq> cstr szName))"

lemma ldr_overrun_list:
  assumes "ldr_names w" "set xs \<subseteq> dom (w_imgs w)"
  shows "case ldr_find_name (w_imgs w) nm xs of
       None \<Rightarrow> \<exists>p im ps qs. xs = ps @ p # qs \<and> w_imgs w p = Some im \<and> length (cstr (img_szName im)) < length (cstr nm) \<and>
          (\<forall>q\<in>set ps. \<forall>jm. w_imgs w q = Some jm \<longrightarrow> cstr (img_szName jm) \<noteq> cstr nm)
     | Some None \<Rightarrow> \<forall>p\<in>set xs. \<forall>im. w_imgs w p = Some im \<longrightarrow>
          cstr (img_szName im) \<noteq> cstr nm \<and> length (cstr nm) \<le> length (cstr (img_szName im))
     | Some (Some (p, im)) \<Rightarrow> w_imgs w p = Some im \<and> cstr (img_szName im) = cstr nm \<and>
          (\<exists>ps qs. xs = ps @ p # qs \<and> (\<forall>q\<in>set ps. \<forall>jm. w_imgs w q = Some jm \<longrightarrow>
             length (cstr nm) \<le> length (cstr (img_szName jm))))"
  using assms(2)
proof (induction xs)
  case (Cons p xs)
  then obtain im where im: "w_imgs w p = Some im" by auto
  note m = ldr_names_match [OF assms(1) im, of nm]
  note IH = Cons.IH [OF order_trans [OF _ Cons.prems]]
  show ?case
  proof (cases "length (cstr (img_szName im)) < length (cstr nm)")
    case True
    then have e: "ldr_find_name (w_imgs w) nm (p # xs) = None" by (simp add: im m)
    have "p # xs = [] @ p # xs \<and> w_imgs w p = Some im \<and> length (cstr (img_szName im)) < length (cstr nm) \<and>
        (\<forall>q\<in>set []. \<forall>jm. w_imgs w q = Some jm \<longrightarrow> cstr (img_szName jm) \<noteq> cstr nm)" using im True by simp
    then show ?thesis unfolding e option.case by blast
  next
    case short: False
    show ?thesis
    proof (cases "cstr (img_szName im) = cstr nm")
      case True
      then have e: "ldr_find_name (w_imgs w) nm (p # xs) = Some (Some (p, im))" by (simp add: im m)
      have "p # xs = [] @ p # xs \<and> (\<forall>q\<in>set []. \<forall>jm. w_imgs w q = Some jm \<longrightarrow> length (cstr nm) \<le> length (cstr (img_szName jm)))"
        by simp
      then show ?thesis using im True unfolding e option.case prod.case by blast
    next
      case False
      then have e: "ldr_find_name (w_imgs w) nm (p # xs) = ldr_find_name (w_imgs w) nm xs" using short by (simp add: im m)
      have c: "\<forall>q\<in>set (p # ps). \<forall>jm. w_imgs w q = Some jm \<longrightarrow> P jm" if "P im" "\<forall>q\<in>set ps. \<forall>jm. w_imgs w q = Some jm \<longrightarrow> P jm" for ps P
        using that im by auto
      show ?thesis
      proof (cases "ldr_find_name (w_imgs w) nm xs")
        case None
        obtain q jm ps qs where "xs = ps @ q # qs" "w_imgs w q = Some jm" "length (cstr (img_szName jm)) < length (cstr nm)"
          "\<forall>q\<in>set ps. \<forall>jm. w_imgs w q = Some jm \<longrightarrow> cstr (img_szName jm) \<noteq> cstr nm"
          using IH [OF set_subset_Cons] unfolding None option.case by blast
        with c [of "\<lambda>jm. cstr (img_szName jm) \<noteq> cstr nm" ps, OF False] have
          "p # xs = (p # ps) @ q # qs \<and> w_imgs w q = Some jm \<and> length (cstr (img_szName jm)) < length (cstr nm) \<and>
            (\<forall>q\<in>set (p # ps). \<forall>jm. w_imgs w q = Some jm \<longrightarrow> cstr (img_szName jm) \<noteq> cstr nm)" by simp
        then show ?thesis unfolding e None option.case by blast
      next
        case (Some r)
        show ?thesis
        proof (cases r)
          case None
          have "\<forall>q\<in>set xs. \<forall>jm. w_imgs w q = Some jm \<longrightarrow> cstr (img_szName jm) \<noteq> cstr nm \<and> length (cstr nm) \<le> length (cstr (img_szName jm))"
            using IH [OF set_subset_Cons] unfolding Some None option.case .
          then show ?thesis using im False short unfolding e Some None option.case by (auto simp: not_less)
        next
          case (Some qj)
          obtain q jm where qj: "qj = (q, jm)" by (cases qj)
          obtain ps qs where
            o: "w_imgs w q = Some jm" "cstr (img_szName jm) = cstr nm" "xs = ps @ q # qs"
              "\<forall>q\<in>set ps. \<forall>jm. w_imgs w q = Some jm \<longrightarrow> length (cstr nm) \<le> length (cstr (img_szName jm))"
            using IH [OF set_subset_Cons] unfolding \<open>ldr_find_name (w_imgs w) nm xs = Some r\<close> Some qj option.case prod.case by blast
          with c [of "\<lambda>jm. length (cstr nm) \<le> length (cstr (img_szName jm))" ps] short have
            "p # xs = (p # ps) @ q # qs \<and> (\<forall>q\<in>set (p # ps). \<forall>jm. w_imgs w q = Some jm \<longrightarrow> length (cstr nm) \<le> length (cstr (img_szName jm)))"
            by (simp add: not_less)
          then show ?thesis using o(1,2) unfolding e \<open>ldr_find_name (w_imgs w) nm xs = Some r\<close> Some qj option.case prod.case by blast
        qed
      qed
    qed
  qed
qed simp

text \<open>The walk ends outside a block exactly then; else it finds the image of the name, if there is one.\<close>

lemma ldr_find_name_ok:
  assumes "ldr_names w" "ldr_inv w"
  shows "case ldr_find_name (w_imgs w) nm (dx_pLdrImages (w_devext w)) of
       None \<Rightarrow> ldr_overrun w nm
     | Some None \<Rightarrow> \<not> ldr_overrun w nm \<and> (\<forall>p im. w_imgs w p = Some im \<longrightarrow> cstr (img_szName im) \<noteq> cstr nm)
     | Some (Some (p, im)) \<Rightarrow> \<not> ldr_overrun w nm \<and> w_imgs w p = Some im \<and> cstr (img_szName im) = cstr nm"
proof -
  let ?xs = "dx_pLdrImages (w_devext w)"
  have l: "set ?xs = dom (w_imgs w)" "distinct ?xs" using assms(2) by (simp_all add: ldr_inv_def)
  note F = ldr_overrun_list [OF assms(1) eq_refl [OF l(1)], of nm]
  consider "ldr_find_name (w_imgs w) nm ?xs = None" | "ldr_find_name (w_imgs w) nm ?xs = Some None"
    | p im where "ldr_find_name (w_imgs w) nm ?xs = Some (Some (p, im))"
    by (metis not_None_eq surj_pair)
  then show ?thesis
  proof cases
    case 1
    then show ?thesis using F by (simp add: ldr_overrun_def)
  next
    case 2
    have "\<not> ldr_overrun w nm"
    proof
      assume "ldr_overrun w nm"
      then obtain p im ps qs where "?xs = ps @ p # qs" "w_imgs w p = Some im" "length (cstr (img_szName im)) < length (cstr nm)"
        unfolding ldr_overrun_def by blast
      then show False using F 2 by fastforce
    qed
    then show ?thesis using 2 F l(1) by auto
  next
    case 3
    with F obtain ps qs where f: "w_imgs w p = Some im" "cstr (img_szName im) = cstr nm" "?xs = ps @ p # qs"
      "\<forall>q\<in>set ps. \<forall>jm. w_imgs w q = Some jm \<longrightarrow> length (cstr nm) \<le> length (cstr (img_szName jm))" by auto
    have "\<not> ldr_overrun w nm"
    proof
      assume "ldr_overrun w nm"
      then obtain q jm ps' qs' where o: "?xs = ps' @ q # qs'" "w_imgs w q = Some jm" "length (cstr (img_szName jm)) < length (cstr nm)"
        "\<forall>q\<in>set ps'. \<forall>jm. w_imgs w q = Some jm \<longrightarrow> cstr (img_szName jm) \<noteq> cstr nm"
        unfolding ldr_overrun_def by blast
      have n: "q \<notin> set ps" "q \<noteq> p" "p \<notin> set ps'" using f o by fastforce+
      have "ps @ p # qs = ps' @ q # qs'" using f(3) o(1) by simp
      then show False using n by (auto simp: append_eq_append_conv2 append_eq_Cons_conv Cons_eq_append_conv)
    qed
    then show ?thesis using 3 f by simp
  qed
qed

lemma ldr_open_old_ok:
  assumes oi: "obj_inv w" and li: "ldr_inv w" and nm: "ldr_names w" and rm: "ldr_room w"
    and s: "w_sess w sp = Some s" and im: "w_imgs w p = Some im"
  obtains rc w' where
    "supdrvLdrAddUsage (set_img w p (im\<lparr>img_cUsage := img_cUsage im + 1\<rparr>)) sp p fMem = Some (rc, w')"
    "obj_inv w'" "ldr_inv w'" "ldr_names w'" "w_imgs w' = (w_imgs w)(p \<mapsto> im\<lparr>img_cUsage := img_cUsage im + 1\<rparr>)"
    "\<exists>t. w_sess w' sp = Some t \<and> ldr_refs t p = ldr_refs s p + of_bool (fMem \<or> 0 < ldr_refs s p)"
proof -
  note D = ldr_invD [OF li s]
  let ?im = "im\<lparr>img_cUsage := img_cUsage im + 1\<rparr>" and ?w = "set_img w p (im\<lparr>img_cUsage := img_cUsage im + 1\<rparr>)"
  have inc: "unat (img_cUsage im + 1) = unat (img_cUsage im) + 1"
    using rm im by (intro unat_inc) (auto simp: ldr_room_def)
  have tot: "ldr_refs s p + ldr_other w sp p \<le> unat (img_cUsage im)" "img_tabs_ok im"
    using D(5) [OF im] D(4) [of p] by auto
  have room: "ldr_refs s p + 1 < 2 ^ 32"
  proof -
    have "unat (img_cUsage im) + 1 < 2 ^ 32" using rm im unfolding ldr_room_def by blast
    with tot(1) show ?thesis by linarith
  qed
  have ok': "ldr_usage_ok (w_imgs ?w) s" using ldr_usage_ok_upd [OF D(2), of "Some ?im" p] by simp
  obtain rc us where us: "supdrvLdrAddUsage ?w sp p fMem = Some (rc, set_sess ?w sp (s\<lparr>ses_pLdrUsage := us\<rparr>))"
    "ldr_usage_ok (w_imgs ?w) (s\<lparr>ses_pLdrUsage := us\<rparr>)"
    "\<forall>q. img_refs_in us q = ldr_refs s q + of_bool (q = p \<and> (fMem \<or> 0 < ldr_refs s p))"
    by (rule supdrvLdrAddUsage_ok [of ?w sp s "w_imgs ?w" p fMem, OF _ ok' _ room]) (use s in auto)
  let ?w' = "set_sess ?w sp (s\<lparr>ses_pLdrUsage := us\<rparr>)"
  have "obj_inv ?w" using oi obj_inv_frame [of ?w w] by simp
  then have 1: "obj_inv ?w'" by (rule obj_inv_set_sess) (use s in simp_all)
  have 2: "ldr_inv ?w'"
    by (rule ldr_inv_step [OF li s, where s' = "s\<lparr>ses_pLdrUsage := us\<rparr>" and p = p and v = "Some ?im"])
      (use D(6,7) us(2) tot inc im in \<open>auto simp: us(3)\<close>)
  have 3: "ldr_names ?w'" by (rule ldr_names_upd [OF nm _ im, of _ ?im]) simp_all
  have 4: "w_imgs ?w' = (w_imgs w)(p \<mapsto> ?im)" by simp
  have 5: "\<exists>t. w_sess ?w' sp = Some t \<and> ldr_refs t p = ldr_refs s p + of_bool (fMem \<or> 0 < ldr_refs s p)"
    by (simp add: us(3))
  show thesis by (rule that [OF us(1) 1 2 3 4 5])
qed

lemma ldr_open_new_ok:
  assumes oi: "obj_inv w" and li: "ldr_inv w" and nm: "ldr_names w"
    and s: "w_sess w sp = Some s" and fr: "w_imgs w p = None"
    and im: "img_szName im = cstr n @ [0]" "img_cUsage im = 1" "img_tabs_ok im" "img_cbImageBits im < img_cbImageWithTabs im"
    and new: "\<And>q jm. w_imgs w q = Some jm \<Longrightarrow> cstr (img_szName jm) \<noteq> cstr n"
  obtains rc w' where
    "supdrvLdrAddUsage (set_img (set_dx w (\<lambda>d. d\<lparr>dx_pLdrImages := p # dx_pLdrImages d\<rparr>)) p im) sp p fMem =
       Some (rc, w')"
    "obj_inv w'" "ldr_inv w'" "ldr_names w'" "w_imgs w' = (w_imgs w)(p \<mapsto> im)"
    "\<exists>t. w_sess w' sp = Some t \<and> ldr_refs t p = ldr_refs s p + of_bool (fMem \<or> 0 < ldr_refs s p)"
proof -
  note D = ldr_invD [OF li s]
  have z: "ldr_refs s p = 0" "ldr_other w sp p = 0"
    using ldr_no_refs_unallocated [OF li fr] s by auto
  let ?w = "set_img (set_dx w (\<lambda>d. d\<lparr>dx_pLdrImages := p # dx_pLdrImages d\<rparr>)) p im"
  have ok': "ldr_usage_ok (w_imgs ?w) s" using ldr_usage_ok_upd [OF D(2), of "Some im" p] by simp
  obtain rc us where us: "supdrvLdrAddUsage ?w sp p fMem = Some (rc, set_sess ?w sp (s\<lparr>ses_pLdrUsage := us\<rparr>))"
    "ldr_usage_ok (w_imgs ?w) (s\<lparr>ses_pLdrUsage := us\<rparr>)"
    "\<forall>q. img_refs_in us q = ldr_refs s q + of_bool (q = p \<and> (fMem \<or> 0 < ldr_refs s p))"
    by (rule supdrvLdrAddUsage_ok [of ?w sp s "w_imgs ?w" p fMem, OF _ ok']) (use s z in auto)
  let ?w' = "set_sess ?w sp (s\<lparr>ses_pLdrUsage := us\<rparr>)"
  have "obj_inv ?w" using oi obj_inv_frame [of ?w w] by simp
  then have 1: "obj_inv ?w'" by (rule obj_inv_set_sess) (use s in simp_all)
  have 2: "ldr_inv ?w'"
    by (rule ldr_inv_step [OF li s, where s' = "s\<lparr>ses_pLdrUsage := us\<rparr>" and p = p and v = "Some im"])
      (use D(6,7) us(2) z im fr in \<open>auto simp: us(3)\<close>)
  have 3: "ldr_names ?w'" by (rule ldr_names_new [OF nm _ im(1,4) new, of _ p]) simp_all
  have 4: "w_imgs ?w' = (w_imgs w)(p \<mapsto> im)" by simp
  have 5: "\<exists>t. w_sess ?w' sp = Some t \<and> ldr_refs t p = ldr_refs s p + of_bool (fMem \<or> 0 < ldr_refs s p)"
    by (simp add: us(3))
  show thesis by (rule that [OF us(1) 1 2 3 4 5])
qed

lemma LdrOpen_ok:
  assumes "obj_inv w" "ldr_inv w" "ldr_names w" "ldr_room w" "w_sess w sp = Some s"
    and "w_imgs w pNew = None" "lo_cbImageBits pReq < lo_cbImageWithTabs pReq"
    and ov: "\<not> ldr_overrun w (lo_szName pReq)"
  shows "\<exists>rc out w'. supdrvIOCtl_LdrOpen os pNew pvExec fMem w sp pReq = Some (rc, out, w') \<and>
     obj_inv w' \<and> ldr_inv w' \<and> ldr_names w' \<and>
     (RT_FAILURE rc \<longrightarrow> w' = w \<and> out = None \<and> (\<forall>p im. w_imgs w p = Some im \<longrightarrow>
        cstr (img_szName im) \<noteq> cstr (lo_szName pReq))) \<and>
     (RT_SUCCESS rc \<longrightarrow> (\<exists>p im t. w_imgs w' = (w_imgs w)(p \<mapsto> im) \<and>
        cstr (img_szName im) = cstr (lo_szName pReq) \<and>
        out = Some (img_pvImage im, img_uState im = SUP_LDR_OPEN, img_fNative im) \<and>
        w_sess w' sp = Some t \<and> ldr_refs t p = ldr_refs s p + of_bool (fMem \<or> 0 < ldr_refs s p) \<and>
        (case w_imgs w p of
           Some jm \<Rightarrow> im = jm\<lparr>img_cUsage := img_cUsage jm + 1\<rparr>
         | None \<Rightarrow> p = pNew \<and> img_cUsage im = 1 \<and> img_uState im = SUP_LDR_OPEN \<and>
             (\<forall>q jm. w_imgs w q = Some jm \<longrightarrow> cstr (img_szName jm) \<noteq> cstr (lo_szName pReq)))))"
proof -
  let ?r = "ldr_find_name (w_imgs w) (lo_szName pReq) (dx_pLdrImages (w_devext w))"
  note F = ldr_find_name_ok [OF assms(3,2), where nm = "lo_szName pReq"]
  show ?thesis
  proof (cases ?r)
    case None
    then show ?thesis using F ov by simp
  next
    case (Some r)
    show ?thesis
    proof (cases r)
      case (Some pim)
      obtain p im where pim: "pim = (p, im)" by (cases pim)
      have r: "?r = Some (Some (p, im))" using \<open>?r = Some r\<close> Some pim by simp
      have im: "w_imgs w p = Some im" "cstr (img_szName im) = cstr (lo_szName pReq)" using F r by auto
      let ?im = "im\<lparr>img_cUsage := img_cUsage im + 1\<rparr>"
      obtain rc w' where g: "supdrvLdrAddUsage (set_img w p ?im) sp p fMem = Some (rc, w')"
        "obj_inv w'" "ldr_inv w'" "ldr_names w'" "w_imgs w' = (w_imgs w)(p \<mapsto> ?im)"
        and t: "\<exists>t. w_sess w' sp = Some t \<and> ldr_refs t p = ldr_refs s p + of_bool (fMem \<or> 0 < ldr_refs s p)"
        by (rule ldr_open_old_ok [OF assms(1-5) im(1), where fMem = fMem])
      have e: "supdrvIOCtl_LdrOpen os pNew pvExec fMem w sp pReq =
          Some (VINF_SUCCESS, Some (img_pvImage im, img_uState im = SUP_LDR_OPEN, img_fNative im), w')"
        by (simp add: supdrvIOCtl_LdrOpen_def r g(1))
      show ?thesis
        by (rule exI, rule exI, rule exI, rule conjI [OF e]) (use g im t in fastforce)
    next
      case None
      have r: "?r = Some None" using \<open>?r = Some r\<close> None by simp
      have new: "cstr (img_szName jm) \<noteq> cstr (lo_szName pReq)" if "w_imgs w q = Some jm" for q jm
        using F r that by auto
      have tab: "img_tabs_ok (ldr_new_image pReq)" by (simp add: img_tabs_ok_def ldr_new_image_def)
      obtain rcO pv where os: "os_LdrOpen os = (rcO, pv)" by (cases "os_LdrOpen os")
      define im1 where "im1 = (if rcO = VERR_NOT_SUPPORTED
        then (ldr_new_image pReq)\<lparr>img_pvImage := pv, img_pvImageAlloc := pvExec,
               img_pvImage := (pvExec + 31) AND NOT 31, img_fNative := False\<rparr>
        else (ldr_new_image pReq)\<lparr>img_pvImage := pv\<rparr>)"
      have im1: "img_szName im1 = cstr (lo_szName pReq) @ [0]" "img_cUsage im1 = 1" "img_tabs_ok im1"
        "img_cbImageBits im1 < img_cbImageWithTabs im1" "img_uState im1 = SUP_LDR_OPEN"
        using tab assms(7) by (auto simp: im1_def) (auto simp: ldr_new_image_def)
      let ?rc = "if rcO = VERR_NOT_SUPPORTED then if pvExec \<noteq> 0 then VINF_SUCCESS else VERR_NO_EXEC_MEMORY else rcO"
      obtain rc w' where g: "supdrvLdrAddUsage
          (set_img (set_dx w (\<lambda>d. d\<lparr>dx_pLdrImages := pNew # dx_pLdrImages d\<rparr>)) pNew im1) sp pNew fMem = Some (rc, w')"
        "obj_inv w'" "ldr_inv w'" "ldr_names w'" "w_imgs w' = (w_imgs w)(pNew \<mapsto> im1)"
        and t: "\<exists>t. w_sess w' sp = Some t \<and> ldr_refs t pNew = ldr_refs s pNew + of_bool (fMem \<or> 0 < ldr_refs s pNew)"
        by (rule ldr_open_new_ok [OF assms(1-3,5,6) im1(1-4) new, where fMem = fMem])
      show ?thesis
      proof (cases "pNew = 0 \<or> RT_FAILURE ?rc")
        case True
        then have "\<exists>rc. supdrvIOCtl_LdrOpen os pNew pvExec fMem w sp pReq = Some (rc, None, w) \<and> RT_FAILURE rc"
          by (auto simp: supdrvIOCtl_LdrOpen_def r os Let_def RT_SUCCESS_def RT_FAILURE_def split: if_splits)
        then show ?thesis using assms(1-3) new by (auto simp: RT_SUCCESS_def RT_FAILURE_def)
      next
        case False
        have e: "supdrvIOCtl_LdrOpen os pNew pvExec fMem w sp pReq =
            Some (VINF_SUCCESS, Some (img_pvImage im1, True, img_fNative im1), w')"
          using False g(1) by (simp add: supdrvIOCtl_LdrOpen_def r os Let_def im1_def)
        show ?thesis
          by (rule exI, rule exI, rule exI, rule conjI [OF e]) (use g im1 t new assms(6) in fastforce)
      qed
    qed
  qed
qed

text \<open>Opening reads behind a name block exactly when the request overruns one.\<close>

lemma LdrOpen_overrun:
  assumes "ldr_inv w" "ldr_names w" "ldr_overrun w (lo_szName pReq)"
  shows "supdrvIOCtl_LdrOpen os pNew pvExec fMem w sp pReq = None"
  using ldr_find_name_ok [OF assms(2,1), where nm = "lo_szName pReq"] assms(3)
  by (auto simp: supdrvIOCtl_LdrOpen_def split: option.splits)

text \<open>
  C24: opening an image with a request that the dispatcher lets through reads behind a block of the
  loader (\<open>szName[cchName]\<close>) exactly when an image with a shorter name is linked before the image of the
  requested name, or when there is no such image. In every other case it keeps the object and loader
  invariants. It succeeds with the one image that has the requested name, counting the reference
  in the image and (memory permitting) in the session: the existing image, whose bits must be
  uploaded only if nobody did so yet, or a new one if no image had the name. A failure changes
  nothing and happens only when no image has the name.
\<close>

theorem supdrvIOCtl_LdrOpen_correct:
  assumes "obj_inv w" "ldr_inv w" "ldr_names w" "ldr_room w" "w_sess w sp = Some s"
    and "w_imgs w pNew = None" "lo_cbImageBits pReq < lo_cbImageWithTabs pReq"
  shows "if ldr_overrun w (lo_szName pReq) then supdrvIOCtl_LdrOpen os pNew pvExec fMem w sp pReq = None
   else \<exists>rc out w'. supdrvIOCtl_LdrOpen os pNew pvExec fMem w sp pReq = Some (rc, out, w') \<and>
     obj_inv w' \<and> ldr_inv w' \<and> ldr_names w' \<and>
     (RT_FAILURE rc \<longrightarrow> w' = w \<and> out = None \<and> (\<forall>p im. w_imgs w p = Some im \<longrightarrow>
        cstr (img_szName im) \<noteq> cstr (lo_szName pReq))) \<and>
     (RT_SUCCESS rc \<longrightarrow> (\<exists>p im t. w_imgs w' = (w_imgs w)(p \<mapsto> im) \<and>
        cstr (img_szName im) = cstr (lo_szName pReq) \<and>
        out = Some (img_pvImage im, img_uState im = SUP_LDR_OPEN, img_fNative im) \<and>
        w_sess w' sp = Some t \<and> ldr_refs t p = ldr_refs s p + of_bool (fMem \<or> 0 < ldr_refs s p) \<and>
        (case w_imgs w p of
           Some jm \<Rightarrow> im = jm\<lparr>img_cUsage := img_cUsage jm + 1\<rparr>
         | None \<Rightarrow> p = pNew \<and> img_cUsage im = 1 \<and> img_uState im = SUP_LDR_OPEN \<and>
             (\<forall>q jm. w_imgs w q = Some jm \<longrightarrow> cstr (img_szName jm) \<noteq> cstr (lo_szName pReq)))))"
proof (cases "ldr_overrun w (lo_szName pReq)")
  case True
  show ?thesis unfolding if_P [OF True] by (rule LdrOpen_overrun [OF assms(2,3) True])
next
  case False
  show ?thesis unfolding if_not_P [OF False] by (rule LdrOpen_ok [OF assms False])
qed

lemma ldr_ex_overrun:
  "ldr_overrun ldr_ex [0x43, 0x43, 0]" "\<not> ldr_overrun ldr_ex [0x42, 0]"
proof -
  show "ldr_overrun ldr_ex [0x43, 0x43, 0]"
    unfolding ldr_overrun_def
    by (intro exI [of _ "0x31000"] exI [of _ ldr_ex_B] exI [of _ "[]"] exI [of _ "[0x30000]"])
      (simp add: ldr_ex_simps ldr_ex_B_def ldr_new_image_def cstr_def)
  show "\<not> ldr_overrun ldr_ex [0x42, 0]"
    by (auto simp: ldr_overrun_def ldr_ex_simps ldr_ex_A_def ldr_ex_B_def ldr_new_image_def cstr_def split: if_splits)
qed

theorem supdrvIOCtl_LdrOpen_correct_witness:
  "(\<exists>rc out w'. supdrvIOCtl_LdrOpen linux_osldr 0x32000 0x60001 True ldr_ex 0x11000
      \<lparr>lo_cbImageWithTabs = 4, lo_cbImageBits = 2, lo_szName = [0x42, 0]\<rparr> = Some (rc, out, w') \<and> ldr_inv w') \<and>
   supdrvIOCtl_LdrOpen linux_osldr 0x32000 0x60001 True ldr_ex 0x11000
      \<lparr>lo_cbImageWithTabs = 4, lo_cbImageBits = 2, lo_szName = [0x43, 0x43, 0]\<rparr> = None"
proof -
  have f: "w_imgs ldr_ex 0x32000 = None" by (simp add: ldr_ex_simps)
  note c = supdrvIOCtl_LdrOpen_correct [where os = linux_osldr and pvExec = "0x60001" and fMem = True, OF ldr_ex_inv ldr_ex_simps(2) f]
  show ?thesis
    using c [of "\<lparr>lo_cbImageWithTabs = 4, lo_cbImageBits = 2, lo_szName = [0x42, 0]\<rparr>"]
      c [of "\<lparr>lo_cbImageWithTabs = 4, lo_cbImageBits = 2, lo_szName = [0x43, 0x43, 0]\<rparr>"] ldr_ex_overrun
    by auto
qed

subsection \<open>Loading\<close>

text \<open>What the dispatcher checked of a load request before it comes here.\<close>

definition load_req_ok :: "SUPLDRLOAD \<Rightarrow> bool" where
  "load_req_ok pReq \<longleftrightarrow>
     length (ll_abImage pReq) = unat (ll_cbImageWithTabs pReq) \<and>
     (ll_cbStrTab pReq = 0 \<or> unat (ll_offStrTab pReq) + unat (ll_cbStrTab pReq) \<le> length (ll_abImage pReq)) \<and>
     (ll_cSymbols pReq = 0 \<or> unat (ll_offSymbols pReq) + unat (ll_cSymbols pReq) * 8 \<le> length (ll_abImage pReq))"

definition ldr_strtab :: "SUPLDRLOAD \<Rightarrow> u8 list" where
  "ldr_strtab pReq = take (unat (ll_cbStrTab pReq)) (drop (unat (ll_offStrTab pReq)) (ll_abImage pReq))"

definition ldr_symtab :: "SUPLDRLOAD \<Rightarrow> SUPLDRSYM list" where
  "ldr_symtab pReq =
     ldr_syms (take (unat (ll_cSymbols pReq) * 8) (drop (unat (ll_offSymbols pReq)) (ll_abImage pReq)))"

definition ldr_tables :: "SUPLDRLOAD \<Rightarrow> SUPDRVLDRIMAGE \<Rightarrow> bool" where
  "ldr_tables pReq im \<longleftrightarrow>
     img_cbStrTab im = ll_cbStrTab pReq \<and> img_cSymbols im = ll_cSymbols pReq \<and>
     img_pachStrTab im = (if ll_cbStrTab pReq = 0 then None else Some (ldr_strtab pReq)) \<and>
     img_paSymbols im = (if ll_cSymbols pReq = 0 then None else Some (ldr_symtab pReq))"

text \<open>The part of an image that loading leaves alone.\<close>

definition img_frame :: "SUPDRVLDRIMAGE \<Rightarrow> SUPDRVLDRIMAGE \<Rightarrow> bool" where
  "img_frame im im' \<longleftrightarrow> img_pvImage im' = img_pvImage im \<and> img_cbImageBits im' = img_cbImageBits im \<and>
     img_cbImageWithTabs im' = img_cbImageWithTabs im \<and> img_fNative im' = img_fNative im \<and>
     img_cUsage im' = img_cUsage im \<and> img_szName im' = img_szName im"

text \<open>An image whose bits nobody uploaded.\<close>

definition img_unloaded :: "SUPDRVLDRIMAGE \<Rightarrow> bool" where
  "img_unloaded im \<longleftrightarrow> img_uState im = SUP_LDR_OPEN \<and> img_cSymbols im = 0 \<and> img_paSymbols im = None \<and>
     img_cbStrTab im = 0 \<and> img_pachStrTab im = None \<and> img_pfnModuleInit im = 0 \<and> img_pfnModuleTerm im = 0 \<and>
     img_pfnServiceReqHandler im = 0"

lemma length_ldr_syms [simp]: "length (ldr_syms b) = length b div 8"
  by (induction b rule: ldr_syms.induct) auto

lemma copy_bytes_Some:
  "off + n \<le> length ab \<Longrightarrow> copy_bytes ab off n = Some (take n (drop off ab))"
  by (simp add: copy_bytes_def)

lemma ldr_tables_ok:
  assumes "load_req_ok pReq" "ldr_tables pReq im" "img_uState im = SUP_LDR_LOAD"
  shows "img_tabs_ok im"
  using assms by (auto simp: load_req_ok_def ldr_tables_def img_tabs_ok_def ldr_strtab_def ldr_symtab_def)

lemma img_unloaded_tabs_ok: "img_unloaded im \<Longrightarrow> img_tabs_ok im"
  by (simp add: img_unloaded_def img_tabs_ok_def)

lemma ldr_copy_tables_ok:
  assumes "load_req_ok pReq" "img_paSymbols im = None" "img_pachStrTab im = None"
  obtains rc im1 where "ldr_copy_tables im pReq b1 b2 = Some (rc, im1)" "img_frame im im1"
    "img_uState im1 = img_uState im" "RT_SUCCESS rc \<longrightarrow> ldr_tables pReq im1"
    "img_pfnServiceReqHandler im1 = img_pfnServiceReqHandler im"
proof -
  have c: "copy_bytes (ll_abImage pReq) (unat (ll_offStrTab pReq)) (unat (ll_cbStrTab pReq)) = Some (ldr_strtab pReq)"
    if "ll_cbStrTab pReq \<noteq> 0"
    using assms(1) that by (simp add: load_req_ok_def ldr_strtab_def copy_bytes_Some)
  have b: "copy_bytes (ll_abImage pReq) (unat (ll_offSymbols pReq)) (unat (ll_cSymbols pReq) * 8) =
      Some (take (unat (ll_cSymbols pReq) * 8) (drop (unat (ll_offSymbols pReq)) (ll_abImage pReq)))"
    if "ll_cSymbols pReq \<noteq> 0"
    using assms(1) that by (simp add: load_req_ok_def copy_bytes_Some)
  have "\<exists>rc im1. ldr_copy_tables im pReq b1 b2 = Some (rc, im1) \<and> img_frame im im1 \<and>
      img_uState im1 = img_uState im \<and> (RT_SUCCESS rc \<longrightarrow> ldr_tables pReq im1) \<and>
      img_pfnServiceReqHandler im1 = img_pfnServiceReqHandler im"
    using assms(2,3) c b
    by (cases "ll_cbStrTab pReq = 0"; cases "ll_cSymbols pReq = 0"; cases b1; cases b2)
      (simp_all add: ldr_copy_tables_def Let_def img_frame_def ldr_tables_def ldr_symtab_def)
  then show thesis using that by blast
qed

text \<open>The state apart from images, entry points and trace.\<close>

definition ldr_frame :: "supdrv \<Rightarrow> supdrv \<Rightarrow> bool" where
  "ldr_frame w w' \<longleftrightarrow> w_sess w' = w_sess w \<and> w_objs w' = w_objs w \<and>
     dx_pObjs (w_devext w') = dx_pObjs (w_devext w) \<and> dx_pLdrImages (w_devext w') = dx_pLdrImages (w_devext w)"

lemma ldr_frame_simps [simp]:
  "ldr_frame w w"
  "ldr_frame w (log_ev w' e) = ldr_frame w w'"
  "ldr_frame w (set_img w' p im) = ldr_frame w w'"
  "ldr_frame w (supdrvLdrUnsetVMMR0EPs w') = ldr_frame w w'"
  "ldr_frame w (snd (supdrvLdrSetVMMR0EPs w' a b c d)) = ldr_frame w w'"
  by (simp_all add: ldr_frame_def supdrvLdrUnsetVMMR0EPs_def supdrvLdrSetVMMR0EPs_def Let_def)

lemma supdrvLdrSetVMMR0EPs_ok:
  assumes "RT_SUCCESS (fst (supdrvLdrSetVMMR0EPs w a b c d))"
  shows "dx_pvVMMR0 (w_devext (snd (supdrvLdrSetVMMR0EPs w a b c d))) = a \<and>
    dx_pfnVMMR0EntryInt (w_devext (snd (supdrvLdrSetVMMR0EPs w a b c d))) = b \<and>
    dx_pfnVMMR0EntryFast (w_devext (snd (supdrvLdrSetVMMR0EPs w a b c d))) = c \<and>
    dx_pfnVMMR0EntryEx (w_devext (snd (supdrvLdrSetVMMR0EPs w a b c d))) = d"
  using assms by (auto simp: supdrvLdrSetVMMR0EPs_def Let_def RT_SUCCESS_def split: if_splits)

lemma ldr_unset_simps [simp]:
  "w_imgs (supdrvLdrUnsetVMMR0EPs w) = w_imgs w" "eps_unset (w_devext (supdrvLdrUnsetVMMR0EPs w))"
  by (simp_all add: supdrvLdrUnsetVMMR0EPs_def eps_unset_def)

definition eps_set :: "SUPDRVDEVEXT \<Rightarrow> addr \<Rightarrow> addr \<Rightarrow> addr \<Rightarrow> addr \<Rightarrow> bool" where
  "eps_set d pv pvInt pvFast pvEx \<longleftrightarrow> dx_pvVMMR0 d = pv \<and> dx_pfnVMMR0EntryInt d = pvInt \<and>
     dx_pfnVMMR0EntryFast d = pvFast \<and> dx_pfnVMMR0EntryEx d = pvEx"

text \<open>
  What a successful load makes of the entry points: those of the request, unless the module's
  own initialisation returned an informational status, which unsets them.
\<close>

definition ldr_eps_done :: "status \<Rightarrow> SUPLDRLOAD \<Rightarrow> supdrv \<Rightarrow> supdrv \<Rightarrow> SUPDRVLDRIMAGE \<Rightarrow> bool" where
  "ldr_eps_done rcInit pReq w w' im \<longleftrightarrow>
     (case ll_EP pReq of
        SUPLDRLOADEP_VMMR0 pv pvInt pvFast pvEx \<Rightarrow>
          eps_set (w_devext w') pv pvInt pvFast pvEx \<or>
          (ll_pfnModuleInit pReq \<noteq> 0 \<and> rcInit \<noteq> 0 \<and> pv = img_pvImage im \<and> eps_unset (w_devext w'))
      | _ \<Rightarrow> w_devext w' = w_devext w \<or>
          (ll_pfnModuleInit pReq \<noteq> 0 \<and> rcInit \<noteq> 0 \<and> dx_pvVMMR0 (w_devext w) = img_pvImage im \<and>
           eps_unset (w_devext w')))"

definition ldr_handler_done :: "SUPLDRLOAD \<Rightarrow> SUPDRVLDRIMAGE \<Rightarrow> SUPDRVLDRIMAGE \<Rightarrow> bool" where
  "ldr_handler_done pReq im im' \<longleftrightarrow> img_pfnServiceReqHandler im' =
     (case ll_EP pReq of SUPLDRLOADEP_SERVICE pfn _ _ _ \<Rightarrow> pfn | _ \<Rightarrow> img_pfnServiceReqHandler im)"

text \<open>
  What a failed load makes of the device extension. Up to the module's own initialisation: nothing.
  When that was called and failed, the entry points are taken back if the image's base was the VMM;
  if the request named another address of the image as the VMM, its entry points stay set, although
  the image is open again.
\<close>

definition eps_put :: "SUPDRVDEVEXT \<Rightarrow> addr \<Rightarrow> addr \<Rightarrow> addr \<Rightarrow> addr \<Rightarrow> SUPDRVDEVEXT" where
  "eps_put d pv pvInt pvFast pvEx = d\<lparr>dx_pvVMMR0 := pv, dx_pfnVMMR0EntryInt := pvInt, dx_pfnVMMR0EntryFast := pvFast,
     dx_pfnVMMR0EntryEx := pvEx\<rparr>"

definition ldr_eps_failed :: "status \<Rightarrow> SUPLDRLOAD \<Rightarrow> supdrv \<Rightarrow> supdrv \<Rightarrow> SUPDRVLDRIMAGE \<Rightarrow> bool" where
  "ldr_eps_failed rcInit pReq w w' im \<longleftrightarrow>
     (if w_trace w' = w_trace w then w_devext w' = w_devext w
      else ll_pfnModuleInit pReq \<noteq> 0 \<and> RT_FAILURE rcInit \<and>
        w_trace w' = w_trace w @ [EvModuleInit (ll_pfnModuleInit pReq)] \<and>
        w_devext w' =
          (case ll_EP pReq of
             SUPLDRLOADEP_VMMR0 pv pvInt pvFast pvEx \<Rightarrow>
               if pv = img_pvImage im then eps_put (w_devext w) 0 0 0 0 else eps_put (w_devext w) pv pvInt pvFast pvEx
           | _ \<Rightarrow> if dx_pvVMMR0 (w_devext w) = img_pvImage im then eps_put (w_devext w) 0 0 0 0 else w_devext w))"

lemma ldr_eps_failed_cong:
  "img_frame im im1 \<Longrightarrow> ldr_eps_failed rcInit pReq w w' im1 = ldr_eps_failed rcInit pReq w w' im"
  by (simp add: ldr_eps_failed_def img_frame_def split: SUPLDRLOADEP.split)

lemma supdrvLdrSetVMMR0EPs_eq:
  "supdrvLdrSetVMMR0EPs w a b c d = (rc, w') \<Longrightarrow>
     w' = (if RT_SUCCESS rc then w\<lparr>w_devext := eps_put (w_devext w) a b c d\<rparr> else w)"
  by (auto simp: supdrvLdrSetVMMR0EPs_def eps_put_def set_dx_def Let_def RT_SUCCESS_def split: if_splits)

lemma supdrvLdrUnset_devext:
  "w_devext (supdrvLdrUnsetVMMR0EPs w) = eps_put (w_devext w) 0 0 0 0" "w_trace (supdrvLdrUnsetVMMR0EPs w) = w_trace w"
  by (simp_all add: supdrvLdrUnsetVMMR0EPs_def eps_put_def set_dx_def)

lemma ldr_handler_done_cong:
  "img_pfnServiceReqHandler im1 = img_pfnServiceReqHandler im \<Longrightarrow>
     ldr_handler_done pReq im1 im' = ldr_handler_done pReq im im'"
  by (simp add: ldr_handler_done_def split: SUPLDRLOADEP.split)

lemma ldr_eps_done_cong:
  "img_frame im im1 \<Longrightarrow> ldr_eps_done rcInit pReq w w' im1 = ldr_eps_done rcInit pReq w w' im"
  by (simp add: ldr_eps_done_def img_frame_def split: SUPLDRLOADEP.split)

lemma ldr_reset_unloaded: "img_frame im im' \<Longrightarrow> img_unloaded (ldr_reset_image im') \<and> img_frame im (ldr_reset_image im')"
  by (simp add: img_unloaded_def ldr_reset_image_def img_frame_def)

lemma ldr_activate_ok:
  assumes rq: "unat (ll_cbImageBits pReq) \<le> length (ll_abImage pReq)" and sz: "img_cbImageBits im = ll_cbImageBits pReq"
  obtains rc w' im' where "ldr_activate os rcInit w p im pReq rc0 = Some (rc, w')"
    "ldr_frame w w'" "w_imgs w' = (w_imgs w)(p \<mapsto> im')" "img_frame im im'"
    "RT_FAILURE rc \<longrightarrow> img_unloaded im' \<and> ldr_eps_failed rcInit pReq w w' im"
    "RT_SUCCESS rc \<longrightarrow> RT_SUCCESS rc0 \<and> img_uState im' = SUP_LDR_LOAD \<and>
       img_pfnModuleInit im' = ll_pfnModuleInit pReq \<and> img_pfnModuleTerm im' = ll_pfnModuleTerm pReq \<and>
       (\<not> img_fNative im \<longrightarrow> img_abBits im' = take (unat (ll_cbImageBits pReq)) (ll_abImage pReq)) \<and>
       (ldr_tables pReq im \<longrightarrow> ldr_tables pReq im') \<and> ldr_handler_done pReq im im' \<and>
       ldr_eps_done rcInit pReq w w' im \<and> (ll_pfnModuleInit pReq \<noteq> 0 \<longrightarrow> RT_SUCCESS rcInit)"
proof -
  let ?im1 = "im\<lparr>img_uState := SUP_LDR_LOAD, img_pfnModuleInit := ll_pfnModuleInit pReq,
                 img_pfnModuleTerm := ll_pfnModuleTerm pReq\<rparr>"
  define st where "st = (if RT_SUCCESS rc0 then
       (if img_fNative im then (os_LdrLoad os, ?im1)
        else (rc0, ?im1\<lparr>img_abBits := take (unat (ll_cbImageBits pReq)) (ll_abImage pReq)\<rparr>))
     else (rc0, im))"
  obtain rc1 im1 where st1: "st = (rc1, im1)" by (cases st)
  have f1: "img_frame im im1" "img_pfnServiceReqHandler im1 = img_pfnServiceReqHandler im"
    using st1 by (auto simp: st_def img_frame_def split: if_splits)
  have l1: "RT_SUCCESS rc0 \<and> img_uState im1 = SUP_LDR_LOAD \<and>
       img_pfnModuleInit im1 = ll_pfnModuleInit pReq \<and> img_pfnModuleTerm im1 = ll_pfnModuleTerm pReq \<and>
       (\<not> img_fNative im \<longrightarrow> img_abBits im1 = take (unat (ll_cbImageBits pReq)) (ll_abImage pReq)) \<and>
       (ldr_tables pReq im \<longrightarrow> ldr_tables pReq im1)" if "RT_SUCCESS rc1"
    using st1 that by (auto simp: st_def ldr_tables_def split: if_splits)
  define ep where "ep = (if RT_SUCCESS rc1 then
                   (case ll_EP pReq of
                      SUPLDRLOADEP_VMMR0 pv pvInt pvFast pvEx \<Rightarrow>
                        (let (rc, w') = supdrvLdrSetVMMR0EPs w pv pvInt pvFast pvEx in (rc, im1, w'))
                    | SUPLDRLOADEP_SERVICE pfn _ _ _ \<Rightarrow> (VINF_SUCCESS, im1\<lparr>img_pfnServiceReqHandler := pfn\<rparr>, w)
                    | _ \<Rightarrow> (VINF_SUCCESS, im1, w))
                 else (rc1, im1, w))"
  obtain rc2 im2 w2 where ep1: "ep = (rc2, im2, w2)" by (cases ep)
  have f2: "img_frame im im2" "ldr_frame w w2" "w_imgs w2 = w_imgs w"
    using ep1 f1 by (auto simp: ep_def img_frame_def supdrvLdrSetVMMR0EPs_def Let_def ldr_frame_def
      split: if_splits SUPLDRLOADEP.splits)
  have g: "eps_set (w_devext w2) pv a b c"
    if "RT_SUCCESS rc2" "ll_EP pReq = SUPLDRLOADEP_VMMR0 pv a b c" "RT_SUCCESS rc1" for pv a b c
    using supdrvLdrSetVMMR0EPs_ok [of w pv a b c] that ep1
    by (auto simp: ep_def eps_set_def split: prod.splits)
  have l2: "RT_SUCCESS rc1 \<and> ldr_handler_done pReq im im2 \<and> img_uState im2 = img_uState im1 \<and>
       img_pfnModuleInit im2 = img_pfnModuleInit im1 \<and> img_pfnModuleTerm im2 = img_pfnModuleTerm im1 \<and>
       img_abBits im2 = img_abBits im1 \<and> (ldr_tables pReq im2 = ldr_tables pReq im1) \<and>
       (case ll_EP pReq of SUPLDRLOADEP_VMMR0 pv a b c \<Rightarrow> eps_set (w_devext w2) pv a b c
        | _ \<Rightarrow> w_devext w2 = w_devext w)" if s2: "RT_SUCCESS rc2"
  proof -
    have s1: "RT_SUCCESS rc1" using ep1 s2 by (auto simp: ep_def split: if_splits)
    then show ?thesis using ep1 g [OF s2] f1(2)
      by (cases "ll_EP pReq") (auto simp: ep_def ldr_handler_done_def ldr_tables_def split: prod.splits)
  qed
  define mi where "mi = (if RT_SUCCESS rc2 \<and> img_pfnModuleInit im2 \<noteq> 0 then
                   (let w' = log_ev w2 (EvModuleInit (img_pfnModuleInit im2))
                    in (rcInit, if rcInit \<noteq> 0 \<and> dx_pvVMMR0 (w_devext w') = img_pvImage im2
                                then supdrvLdrUnsetVMMR0EPs w' else w'))
                 else (rc2, w2))"
  obtain rc3 w3 where mi1: "mi = (rc3, w3)" by (cases mi)
  have f3: "ldr_frame w w3" "w_imgs w3 = w_imgs w" using mi1 f2 by (auto simp: mi_def Let_def split: if_splits)
  have pv: "img_pvImage im2 = img_pvImage im" using f2(1) by (simp add: img_frame_def)
  have l3: "RT_SUCCESS rc2 \<and> (img_pfnModuleInit im2 \<noteq> 0 \<longrightarrow> RT_SUCCESS rcInit) \<and>
       (w_devext w3 = w_devext w2 \<or> img_pfnModuleInit im2 \<noteq> 0 \<and> rcInit \<noteq> 0 \<and>
          dx_pvVMMR0 (w_devext w2) = img_pvImage im \<and> eps_unset (w_devext w3))" if "RT_SUCCESS rc3"
    using mi1 that pv by (auto simp: mi_def Let_def split: if_splits)
  let ?im = "if RT_FAILURE rc3 then ldr_reset_image im2 else im2"
  have r: "ldr_activate os rcInit w p im pReq rc0 = Some (rc3, set_img w3 p ?im)"
  proof -
    have "copy_bytes (ll_abImage pReq) 0 (unat (img_cbImageBits im)) = Some (take (unat (ll_cbImageBits pReq)) (ll_abImage pReq))"
      using rq sz by (simp add: copy_bytes_Some)
    then have "(if RT_SUCCESS rc0 then
          (let im1 = ?im1 in if img_fNative im then Some (os_LdrLoad os, im1)
              else map_option (\<lambda>b. (rc0, im1\<lparr>img_abBits := b\<rparr>))
                     (copy_bytes (ll_abImage pReq) 0 (unat (img_cbImageBits im))))
        else Some (rc0, im)) = Some st" by (simp add: st_def)
    then show ?thesis
      unfolding ldr_activate_def by (simp add: st1 ep_def [symmetric] ep1 mi_def [symmetric] mi1)
  qed
  have fin: "RT_SUCCESS rc3 \<Longrightarrow> ldr_eps_done rcInit pReq w (set_img w3 p ?im) im"
    using l3 l2 l1 by (cases "ll_EP pReq") (auto simp: ldr_eps_done_def eps_set_def)
  have w2: "w2 = (if RT_SUCCESS rc2 then (case ll_EP pReq of SUPLDRLOADEP_VMMR0 pv a b c \<Rightarrow> w\<lparr>w_devext := eps_put (w_devext w) pv a b c\<rparr> | _ \<Rightarrow> w) else w)"
    using ep1 by (auto simp: ep_def split: if_splits SUPLDRLOADEP.splits prod.splits dest!: supdrvLdrSetVMMR0EPs_eq)
  have bad: "RT_FAILURE rc3 \<Longrightarrow> ldr_eps_failed rcInit pReq w (set_img w3 p ?im) im"
  proof (cases "RT_SUCCESS rc2 \<and> img_pfnModuleInit im2 \<noteq> 0")
    case False
    assume "RT_FAILURE rc3"
    then have "w3 = w" using mi1 False w2 by (auto simp: mi_def RT_FAILURE_def RT_SUCCESS_def)
    then show ?thesis by (simp add: ldr_eps_failed_def)
  next
    case True
    assume f: "RT_FAILURE rc3"
    have i: "img_pfnModuleInit im2 = ll_pfnModuleInit pReq" "ll_pfnModuleInit pReq \<noteq> 0" using True l2 l1 by auto
    have m: "rc3 = rcInit" "w3 = (if rcInit \<noteq> 0 \<and> dx_pvVMMR0 (w_devext w2) = img_pvImage im
        then supdrvLdrUnsetVMMR0EPs (log_ev w2 (EvModuleInit (ll_pfnModuleInit pReq))) else log_ev w2 (EvModuleInit (ll_pfnModuleInit pReq)))"
      using mi1 True i(1) pv by (auto simp: mi_def Let_def)
    have nz: "rcInit \<noteq> 0" using f m(1) by (auto simp: RT_FAILURE_def RT_SUCCESS_def)
    have t: "w_trace w2 = w_trace w" using w2 by (auto split: SUPLDRLOADEP.splits)
    have t3: "w_trace (set_img w3 p ?im) = w_trace w @ [EvModuleInit (ll_pfnModuleInit pReq)]"
      using m(2) t by (auto simp: supdrvLdrUnset_devext log_ev_def set_img_def)
    have d3: "w_devext (set_img w3 p ?im) =
        (if dx_pvVMMR0 (w_devext w2) = img_pvImage im then eps_put (w_devext w2) 0 0 0 0 else w_devext w2)"
      using m(2) nz by (auto simp: supdrvLdrUnset_devext)
    show ?thesis
      unfolding ldr_eps_failed_def t3 d3 using i(2) f m(1) True w2
      by (auto simp: eps_put_def split: SUPLDRLOADEP.splits)
  qed
  show thesis
    by (rule that [OF r, where im' = ?im]) (use bad f3 f2(1) ldr_reset_unloaded l1 l2 l3 fin in \<open>auto simp: RT_SUCCESS_def RT_FAILURE_def\<close>)
qed

text \<open>A pointer that passes validation lies in the image, or is an allowed NULL.\<close>

lemma supdrvLdrValidatePointer_in:
  "RT_SUCCESS (supdrvLdrValidatePointer os im pv f) \<Longrightarrow> in_image im pv \<or> f \<and> pv = 0"
  by (auto simp: supdrvLdrValidatePointer_def RT_SUCCESS_def RT_FAILURE_def split: if_splits)

definition ldr_ep_ok :: "SUPDRVLDRIMAGE \<Rightarrow> SUPLDRLOADEP \<Rightarrow> bool" where
  "ldr_ep_ok im ep \<longleftrightarrow>
     (case ep of
        SUPLDRLOADEP_NOTHING \<Rightarrow> True
      | SUPLDRLOADEP_VMMR0 pv a b c \<Rightarrow> in_image im pv \<and> in_image im a \<and> in_image im b \<and> in_image im c
      | SUPLDRLOADEP_SERVICE pfn a b c \<Rightarrow> in_image im pfn \<and> a = 0 \<and> b = 0 \<and> c = 0
      | SUPLDRLOADEP_INVALID n \<Rightarrow> False)"

lemma ldr_check_eps_in: "RT_SUCCESS (ldr_check_eps os im ep) \<Longrightarrow> ldr_ep_ok im ep"
  using supdrvLdrValidatePointer_in [of os im]
  by (cases ep) (auto simp: ldr_check_eps_def ldr_ep_ok_def Let_def RT_SUCCESS_def RT_FAILURE_def split: if_splits)

lemma in_image_frame: "img_frame im im' \<Longrightarrow> in_image im' pv = in_image im pv"
  by (simp add: img_frame_def in_image_def)

lemma ldr_ep_ok_frame: "img_frame im im' \<Longrightarrow> ldr_ep_ok im' ep = ldr_ep_ok im ep"
  using in_image_frame [of im im'] by (simp add: ldr_ep_ok_def split: SUPLDRLOADEP.split)

lemma ldr_inv_img_upd:
  assumes li: "ldr_inv w" and s: "w_sess w sp = Some s" and im: "w_imgs w p = Some im"
    and f: "ldr_frame w w'" "w_imgs w' = (w_imgs w)(p \<mapsto> im')" "img_cUsage im' = img_cUsage im" "img_tabs_ok im'"
  shows "ldr_inv w'"
proof -
  note D = ldr_invD [OF li s]
  show ?thesis
    by (rule ldr_inv_step [OF li s, where s' = s and p = p and v = "Some im'"])
      (use D(6,7) D(5) [OF im] D(4) [of p] f im ldr_usage_ok_upd [OF D(2), of "Some im'" p] s
        in \<open>auto simp: ldr_frame_def fun_upd_idem\<close>)
qed

lemma obj_inv_ldr_frame: "ldr_frame w w' \<Longrightarrow> obj_inv w' = obj_inv w"
  by (rule obj_inv_frame) (simp_all add: ldr_frame_def)

lemma LdrLoad_ok:
  assumes "obj_inv w" "ldr_inv w" "ldr_names w" "w_sess w sp = Some s" "load_req_ok pReq"
  shows "\<exists>rc w'. supdrvIOCtl_LdrLoad os fMemStr fMemSym rcInit w sp pReq = Some (rc, w') \<and>
     obj_inv w' \<and> ldr_inv w' \<and> ldr_names w' \<and> w_sess w' = w_sess w \<and>
     (RT_FAILURE rc \<longrightarrow> w' = w \<or> (\<exists>p im im'. w_imgs w p = Some im \<and> img_uState im = SUP_LDR_OPEN \<and>
        img_pvImage im = ll_pvImageBase pReq \<and> w_imgs w' = (w_imgs w)(p \<mapsto> im') \<and> img_frame im im' \<and> img_unloaded im' \<and>
        ldr_eps_failed rcInit pReq w w' im)) \<and>
     (RT_SUCCESS rc \<longrightarrow> (\<exists>p im im'. w_imgs w p = Some im \<and> img_uState im = SUP_LDR_OPEN \<and>
        img_pvImage im = ll_pvImageBase pReq \<and> 0 < ldr_refs s p \<and> img_cbImageBits im = ll_cbImageBits pReq \<and>
        w_imgs w' = (w_imgs w)(p \<mapsto> im') \<and> img_frame im im' \<and> img_uState im' = SUP_LDR_LOAD \<and>
        (\<not> img_fNative im \<longrightarrow> img_abBits im' = take (unat (ll_cbImageBits pReq)) (ll_abImage pReq)) \<and>
        ldr_tables pReq im' \<and> ldr_ep_ok im' (ll_EP pReq) \<and> ldr_handler_done pReq im im' \<and>
        ldr_eps_done rcInit pReq w w' im \<and>
        img_pfnModuleInit im' = ll_pfnModuleInit pReq \<and> img_pfnModuleTerm im' = ll_pfnModuleTerm pReq \<and>
        (ll_pfnModuleInit pReq \<noteq> 0 \<longrightarrow> in_image im' (ll_pfnModuleInit pReq) \<and> RT_SUCCESS rcInit) \<and>
        (ll_pfnModuleTerm pReq \<noteq> 0 \<longrightarrow> in_image im' (ll_pfnModuleTerm pReq))))"
proof -
  note D = ldr_invD [OF assms(2,4)]
  note F = ldr_find_usageD [OF assms(2,4)]
  have fail: ?thesis if "supdrvIOCtl_LdrLoad os fMemStr fMemSym rcInit w sp pReq = Some (rc, w)" "RT_FAILURE rc" for rc
    using that assms by (auto simp: RT_SUCCESS_def RT_FAILURE_def)
  let ?f = "ldr_find_usage w s (ll_pvImageBase pReq)"
  consider "?f = Some None" | p im where "?f = Some (Some (p, im))"
    using F(1) by (metis not_None_eq surj_pair)
  then show ?thesis
  proof cases
    case 1
    then show ?thesis by (intro fail [of VERR_INVALID_HANDLE]) (simp_all add: supdrvIOCtl_LdrLoad_def assms(4))
  next
    case 2
    then obtain u where im: "w_imgs w p = Some im" "img_pvImage im = ll_pvImageBase pReq"
      and u: "find (\<lambda>u. lus_pImage u = p) (ses_pLdrUsage s) = Some u" using F(2) by blast
    have ref: "0 < ldr_refs s p" using D(8) [OF u] by simp
    have tok: "img_tabs_ok im" using D(5) [OF im(1)] by simp
    let ?rcE = "ldr_check_eps os im (ll_EP pReq)"
    let ?rcI = "supdrvLdrValidatePointer os im (ll_pfnModuleInit pReq) True"
    let ?rcT = "supdrvLdrValidatePointer os im (ll_pfnModuleTerm pReq) True"
    show ?thesis
    proof (cases "img_cbImageWithTabs im \<noteq> ll_cbImageWithTabs pReq \<or> img_cbImageBits im \<noteq> ll_cbImageBits pReq")
      case True
      then show ?thesis by (intro fail [of VERR_INVALID_HANDLE]) (auto simp: supdrvIOCtl_LdrLoad_def assms(4) 2)
    next
      case sz: False
      show ?thesis
      proof (cases "img_uState im = SUP_LDR_OPEN")
        case False
        then show ?thesis using sz
          by (intro fail [of VERR_ALREADY_LOADED]) (simp_all add: supdrvIOCtl_LdrLoad_def assms(4) 2)
      next
        case op: True
        have tabs: "img_paSymbols im = None" "img_pachStrTab im = None"
          using tok op by (auto simp: img_tabs_ok_def)
        show ?thesis
        proof (cases "RT_FAILURE ?rcE \<or> RT_FAILURE ?rcI \<or> RT_FAILURE ?rcT")
          case True
          then have "\<exists>rc. supdrvIOCtl_LdrLoad os fMemStr fMemSym rcInit w sp pReq = Some (rc, w) \<and> RT_FAILURE rc"
            using sz op by (auto simp: supdrvIOCtl_LdrLoad_def assms(4) 2 Let_def RT_SUCCESS_def RT_FAILURE_def)
          then show ?thesis using fail by blast
        next
          case False
          then have ok: "RT_SUCCESS ?rcE" "RT_SUCCESS ?rcI" "RT_SUCCESS ?rcT"
            by (auto simp: RT_SUCCESS_def RT_FAILURE_def)
          obtain rc0 im1 where t: "ldr_copy_tables im pReq fMemStr fMemSym = Some (rc0, im1)" "img_frame im im1"
            "img_uState im1 = img_uState im" "RT_SUCCESS rc0 \<longrightarrow> ldr_tables pReq im1"
            "img_pfnServiceReqHandler im1 = img_pfnServiceReqHandler im"
            by (rule ldr_copy_tables_ok [OF assms(5) tabs, where ?b1.0 = fMemStr and ?b2.0 = fMemSym])
          have "img_cbImageBits im < img_cbImageWithTabs im" using assms(3) im(1) by (auto simp: ldr_names_def)
          then have rq: "unat (ll_cbImageBits pReq) \<le> length (ll_abImage pReq)"
            using sz assms(5) by (auto simp: load_req_ok_def word_less_nat_alt)
          have sz1: "img_cbImageBits im1 = ll_cbImageBits pReq" using t(2) sz by (simp add: img_frame_def)
          obtain rc w' im' where a: "ldr_activate os rcInit w p im1 pReq rc0 = Some (rc, w')"
            "ldr_frame w w'" "w_imgs w' = (w_imgs w)(p \<mapsto> im')" "img_frame im1 im'" "RT_FAILURE rc \<longrightarrow> img_unloaded im' \<and> ldr_eps_failed rcInit pReq w w' im1"
            "RT_SUCCESS rc \<longrightarrow> RT_SUCCESS rc0 \<and> img_uState im' = SUP_LDR_LOAD \<and>
               img_pfnModuleInit im' = ll_pfnModuleInit pReq \<and> img_pfnModuleTerm im' = ll_pfnModuleTerm pReq \<and>
               (\<not> img_fNative im1 \<longrightarrow> img_abBits im' = take (unat (ll_cbImageBits pReq)) (ll_abImage pReq)) \<and>
               (ldr_tables pReq im1 \<longrightarrow> ldr_tables pReq im') \<and> ldr_handler_done pReq im1 im' \<and>
               ldr_eps_done rcInit pReq w w' im1 \<and> (ll_pfnModuleInit pReq \<noteq> 0 \<longrightarrow> RT_SUCCESS rcInit)"
            by (rule ldr_activate_ok [OF rq sz1, where os = os and rcInit = rcInit and w = w and p = p and ?rc0.0 = rc0])
          have e: "supdrvIOCtl_LdrLoad os fMemStr fMemSym rcInit w sp pReq = Some (rc, w')"
            using sz op ok t(1) a(1)
            by (simp add: supdrvIOCtl_LdrLoad_def assms(4) 2 Let_def RT_SUCCESS_def RT_FAILURE_def)
          have fr: "img_frame im im'" using t(2) a(4) by (simp add: img_frame_def)
          have tok': "img_tabs_ok im'"
            using a(5,6) t(4) ldr_tables_ok [OF assms(5)] img_unloaded_tabs_ok
            by (auto simp: RT_SUCCESS_def RT_FAILURE_def)
          have i1: "ldr_inv w'"
            by (rule ldr_inv_img_upd [OF assms(2,4) im(1) a(2,3) _ tok']) (use fr in \<open>simp add: img_frame_def\<close>)
          have i2: "obj_inv w'" using obj_inv_ldr_frame [OF a(2)] assms(1) by simp
          have i3: "ldr_names w'"
            by (rule ldr_names_upd [OF assms(3) a(3) im(1)]) (use fr in \<open>simp add: img_frame_def\<close>)
          have i4: "w_sess w' = w_sess w" using a(2) by (simp add: ldr_frame_def)
          have k: "ldr_handler_done pReq im im'" "ldr_eps_done rcInit pReq w w' im" "ldr_tables pReq im'"
            if "RT_SUCCESS rc"
            using a(6) that t(4) ldr_handler_done_cong [OF t(5)] ldr_eps_done_cong [OF t(2)] by simp_all
          have n: "img_fNative im1 = img_fNative im" using t(2) by (simp add: img_frame_def)
          have ep: "ldr_ep_ok im' (ll_EP pReq)"
            using ldr_check_eps_in [OF ok(1)] ldr_ep_ok_frame [OF fr] by simp
          have p: "ll_pfnModuleInit pReq \<noteq> 0 \<longrightarrow> in_image im' (ll_pfnModuleInit pReq)"
            "ll_pfnModuleTerm pReq \<noteq> 0 \<longrightarrow> in_image im' (ll_pfnModuleTerm pReq)"
            using ok(2,3) [THEN supdrvLdrValidatePointer_in] by (auto simp: in_image_frame [OF fr])
          show ?thesis
            apply (rule exI, rule exI, rule conjI [OF e])
            apply (intro conjI impI)
                 apply (rule i2 i1 i3 i4)+
             apply (rule disjI2, rule exI [of _ p], rule exI [of _ im], rule exI [of _ im'])
            using a(5) op im fr a(3) ldr_eps_failed_cong [OF t(2), of rcInit pReq w w'] apply simp
            apply (rule exI [of _ p], rule exI [of _ im], rule exI [of _ im'])
            using a(3,6) op im fr ref sz ep p k n by simp
        qed
      qed
    qed
  qed
qed

text \<open>
  C25: with a load request as the dispatcher lets it through no byte outside the request is read and
  the invariants are kept. A failure leaves everything as it was, or it is a failure after the
  checks: then all images are as they were, up to the image in question, which is still open and
  has no tables, entry points or handler; the device extension is untouched unless the module's own
  initialisation was called, and when that failed the VMM's entry points are cleared if the VMM is
  the image's base, left as the request sets them if it names another address of the image as the
  VMM, and untouched if it sets none. A success means that the session holds a reference to an
  image at that address that nobody loaded before; it is now loaded, its tables are those of the
  request, every entry point lies inside it, and its module initialisation (if any) succeeded.
\<close>

theorem supdrvIOCtl_LdrLoad_correct:
  assumes "obj_inv w" "ldr_inv w" "ldr_names w" "w_sess w sp = Some s" "load_req_ok pReq"
  shows "\<exists>rc w'. supdrvIOCtl_LdrLoad os fMemStr fMemSym rcInit w sp pReq = Some (rc, w') \<and>
     obj_inv w' \<and> ldr_inv w' \<and> ldr_names w' \<and> w_sess w' = w_sess w \<and>
     (RT_FAILURE rc \<longrightarrow> w' = w \<or> (\<exists>p im im'. w_imgs w p = Some im \<and> img_uState im = SUP_LDR_OPEN \<and>
        img_pvImage im = ll_pvImageBase pReq \<and> w_imgs w' = (w_imgs w)(p \<mapsto> im') \<and> img_frame im im' \<and> img_unloaded im' \<and>
        ldr_eps_failed rcInit pReq w w' im)) \<and>
     (RT_SUCCESS rc \<longrightarrow> (\<exists>p im im'. w_imgs w p = Some im \<and> img_uState im = SUP_LDR_OPEN \<and>
        img_pvImage im = ll_pvImageBase pReq \<and> 0 < ldr_refs s p \<and> img_cbImageBits im = ll_cbImageBits pReq \<and>
        w_imgs w' = (w_imgs w)(p \<mapsto> im') \<and> img_frame im im' \<and> img_uState im' = SUP_LDR_LOAD \<and>
        (\<not> img_fNative im \<longrightarrow> img_abBits im' = take (unat (ll_cbImageBits pReq)) (ll_abImage pReq)) \<and>
        ldr_tables pReq im' \<and> ldr_ep_ok im' (ll_EP pReq) \<and> ldr_handler_done pReq im im' \<and>
        ldr_eps_done rcInit pReq w w' im \<and>
        img_pfnModuleInit im' = ll_pfnModuleInit pReq \<and> img_pfnModuleTerm im' = ll_pfnModuleTerm pReq \<and>
        (ll_pfnModuleInit pReq \<noteq> 0 \<longrightarrow> in_image im' (ll_pfnModuleInit pReq) \<and> RT_SUCCESS rcInit) \<and>
        (ll_pfnModuleTerm pReq \<noteq> 0 \<longrightarrow> in_image im' (ll_pfnModuleTerm pReq))))"
  by (rule LdrLoad_ok [OF assms])

definition load_ex :: SUPLDRLOAD where
  "load_ex = \<lparr>ll_pvImageBase = 0x50000, ll_cbImageWithTabs = 4, ll_cbImageBits = 2, ll_pfnModuleInit = 0x50000,
     ll_pfnModuleTerm = 0, ll_EP = SUPLDRLOADEP_SERVICE 0x50001 0 0 0, ll_offSymbols = 4, ll_cSymbols = 0,
     ll_offStrTab = 2, ll_cbStrTab = 2, ll_abImage = [1, 2, 0x66, 0]\<rparr>"

theorem supdrvIOCtl_LdrLoad_correct_witness:
  "\<exists>rc w'. supdrvIOCtl_LdrLoad linux_osldr True True 0 ldr_ex 0x10000 load_ex = Some (rc, w') \<and> ldr_inv w'"
proof -
  have "load_req_ok load_ex" by (simp add: load_req_ok_def load_ex_def)
  from supdrvIOCtl_LdrLoad_correct [where os = linux_osldr and fMemStr = True and fMemSym = True and rcInit = 0,
      OF ldr_ex_inv(1-3) ldr_ex_simps(1) this]
  show ?thesis by blast
qed

end
