(* ===== verification/SupLdrSyms.thy ===== *)
theory SupLdrSyms
  imports SupLdrOps
begin

text \<open>
  Correctness of the image loader, continued: freeing, symbol lookup, the image part of session
  cleanup, and what the kernel interface does to the reference counts.
\<close>

subsection \<open>Freeing\<close>

text \<open>
  C6: freeing never touches freed memory and keeps the invariants. It answers
  \<open>VERR_INVALID_HANDLE\<close>, and changes nothing, exactly when the session references no image at
  that address. Otherwise it succeeds and only that image is concerned: it goes away only if this
  session held the one reference and no object has its destructor in it; then its termination
  entry point runs if it was loaded and the VMMR0 entry points are unset if they are its own.
  Otherwise its counter drops by one, or nothing happens at all.
\<close>

theorem supdrvIOCtl_LdrFree_correct:
  assumes "obj_inv w" "ldr_inv w" "w_sess w sp = Some s"
  shows "\<exists>rc w'. supdrvIOCtl_LdrFree w sp base = Some (rc, w') \<and> obj_inv w' \<and> ldr_inv w' \<and>
     (if \<exists>p im. 0 < ldr_refs s p \<and> w_imgs w p = Some im \<and> img_pvImage im = base then
        rc = VINF_SUCCESS \<and> (\<exists>p im. 0 < ldr_refs s p \<and> w_imgs w p = Some im \<and> img_pvImage im = base \<and>
          (\<forall>q. q \<noteq> p \<longrightarrow> w_imgs w' q = w_imgs w q) \<and>
          (w_imgs w' p = None \<longrightarrow> ldr_total w p = 1 \<and> unat (img_cUsage im) = 1 \<and>
             (\<forall>q ob. w_objs w q = Some ob \<longrightarrow> \<not> in_image im (obj_pfnDestructor ob)) \<and>
             w_trace w' = w_trace w @ img_events p im \<and>
             (dx_pvVMMR0 (w_devext w) = base \<longrightarrow> eps_unset (w_devext w'))) \<and>
          (w_imgs w' p \<noteq> None \<longrightarrow> w_trace w' = w_trace w \<and>
             (w' = w \<or> w_imgs w' p = Some (im\<lparr>img_cUsage := img_cUsage im - 1\<rparr>))))
      else rc = VERR_INVALID_HANDLE \<and> w' = w)"
proof -
  note F = ldr_find_usageD [OF assms(2,3)]
  note D = ldr_invD [OF assms(2,3)]
  consider (none) "ldr_find_usage w s base = Some None" | (some) p im where "ldr_find_usage w s base = Some (Some (p, im))"
    using F(1) by (metis not_None_eq surj_pair)
  then show ?thesis
  proof cases
    case none
    have "supdrvIOCtl_LdrFree w sp base = Some (VERR_INVALID_HANDLE, w)"
      by (simp add: supdrvIOCtl_LdrFree_def assms(3) none)
    then show ?thesis using F(3) [OF none] assms(1,2) by auto
  next
    case some
    obtain u where im: "w_imgs w p = Some im" "img_pvImage im = base"
      and u: "find (\<lambda>u. lus_pImage u = p) (ses_pLdrUsage s) = Some u" using F(2) some by blast
    have ref: "0 < ldr_refs s p" using D(8) [OF u] by simp
    have ex: "\<exists>p im. 0 < ldr_refs s p \<and> w_imgs w p = Some im \<and> img_pvImage im = base" using im ref by blast
    have tot: "unat (img_cUsage im) = 1 \<Longrightarrow> ldr_other w sp p = 0 \<Longrightarrow> ldr_total w p = 1"
      using D(5) [OF im(1)] D(4) [of p] ref by simp
    show ?thesis
    proof (rule supdrvIOCtl_LdrFree_ok [OF assms some], goal_cases)
      case (1 w')
      show ?case unfolding if_P [OF ex]
        by (intro exI [of _ VINF_SUCCESS] exI [of _ w'] conjI 1(1-3) refl exI [of _ p] exI [of _ im] ref im impI)
          (use 1(5-7) tot im in \<open>auto\<close>)+
    qed
  qed
qed

theorem supdrvIOCtl_LdrFree_correct_witness:
  "\<exists>rc w'. supdrvIOCtl_LdrFree ldr_ex 0x10000 0x40000 = Some (rc, w') \<and> ldr_inv w'"
  using supdrvIOCtl_LdrFree_correct [OF ldr_ex_inv(1,2) ldr_ex_simps(1), where base = "0x40000"] by blast

subsection \<open>Symbols\<close>

definition sym_named :: "u8 list \<Rightarrow> u8 list \<Rightarrow> SUPLDRSYM \<Rightarrow> bool" where
  "sym_named tab name y \<longleftrightarrow> take (length name) (drop (unat (sym_offName y)) tab) = name"

definition img_strtab :: "SUPDRVLDRIMAGE \<Rightarrow> u8 list" where
  "img_strtab im = (case img_pachStrTab im of None \<Rightarrow> [] | Some tab \<Rightarrow> tab)"

definition img_symtab :: "SUPDRVLDRIMAGE \<Rightarrow> SUPLDRSYM list" where
  "img_symtab im = (case img_paSymbols im of None \<Rightarrow> [] | Some syms \<Rightarrow> syms)"

lemma sym_scan_find:
  assumes "length tab = unat cb" "name \<noteq> []"
  shows "sym_scan (Some tab) cb name syms = Some (map_option sym_offSymbol (find (sym_named tab name) syms))"
proof (induction syms)
  case (Cons y ys)
  have "\<not> sym_named tab name y" if "\<not> unat (sym_offName y) + length name \<le> unat cb"
  proof
    assume "sym_named tab name y"
    then have "length (take (length name) (drop (unat (sym_offName y)) tab)) = length name"
      by (simp add: sym_named_def)
    moreover have "0 < length name" using assms(2) by simp
    ultimately show False using that assms(1) unfolding length_take length_drop by linarith
  qed
  with Cons show ?case by (simp add: copy_bytes_def assms(1)) (simp add: sym_named_def)
qed simp

lemma sym_scan_empty: "name \<noteq> [] \<Longrightarrow> sym_scan None 0 name syms = Some None"
  by (induction syms) auto

lemma ldr_find_symbol_find:
  assumes "img_tabs_ok im"
  shows "ldr_find_symbol im sz =
    Some (map_option sym_offSymbol (find (sym_named (img_strtab im) (cstr sz @ [0])) (img_symtab im)))"
proof (cases "img_paSymbols im")
  case None
  then show ?thesis using assms by (simp add: ldr_find_symbol_def img_tabs_ok_def img_symtab_def)
next
  case (Some syms)
  then have len: "length syms = unat (img_cSymbols im)" using assms by (simp add: img_tabs_ok_def)
  show ?thesis
  proof (cases "img_pachStrTab im")
    case None
    then have z: "img_cbStrTab im = 0" using assms by (simp add: img_tabs_ok_def)
    have "find (sym_named [] (cstr sz @ [0])) syms = None"
      by (simp add: find_None_iff_set sym_named_def)
    then show ?thesis using Some None len sym_scan_empty [of "cstr sz @ [0]" syms]
      by (simp add: ldr_find_symbol_def z img_strtab_def img_symtab_def)
  next
    case tab: (Some tab)
    then have "length tab = unat (img_cbStrTab im)" using assms by (simp add: img_tabs_ok_def)
    from sym_scan_find [OF this, of "cstr sz @ [0]" syms] show ?thesis
      using Some tab len by (simp add: ldr_find_symbol_def img_strtab_def img_symtab_def)
  qed
qed

lemma LdrGetSymbol_ok:
  assumes "ldr_inv w" "w_sess w sp = Some s"
  shows "\<exists>rc out. supdrvIOCtl_LdrGetSymbol w sp base szSymbol = Some (rc, out) \<and>
     (if \<exists>p im. 0 < ldr_refs s p \<and> w_imgs w p = Some im \<and> img_pvImage im = base then
        (\<exists>p im. 0 < ldr_refs s p \<and> w_imgs w p = Some im \<and> img_pvImage im = base \<and>
          (if img_uState im \<noteq> SUP_LDR_LOAD then rc = VERR_ALREADY_LOADED \<and> out = None
           else (case find (sym_named (img_strtab im) (cstr szSymbol @ [0])) (img_symtab im) of
               None \<Rightarrow> rc = VERR_GENERAL_FAILURE \<and> out = Some 0
             | Some y \<Rightarrow> rc = VINF_SUCCESS \<and> out = Some (base + scast (sym_offSymbol y)))))
      else rc = VERR_INVALID_HANDLE \<and> out = None)"
proof -
  note F = ldr_find_usageD [OF assms]
  note D = ldr_invD [OF assms]
  consider (none) "ldr_find_usage w s base = Some None" | (some) p im where "ldr_find_usage w s base = Some (Some (p, im))"
    using F(1) by (metis not_None_eq surj_pair)
  then show ?thesis
  proof cases
    case none
    then show ?thesis using F(3) [OF none] by (auto simp: supdrvIOCtl_LdrGetSymbol_def assms(2))
  next
    case some
    obtain u where im: "w_imgs w p = Some im" "img_pvImage im = base"
      and u: "find (\<lambda>u. lus_pImage u = p) (ses_pLdrUsage s) = Some u" using F(2) some by blast
    have ref: "0 < ldr_refs s p" using D(8) [OF u] by simp
    have ex: "\<exists>p im. 0 < ldr_refs s p \<and> w_imgs w p = Some im \<and> img_pvImage im = base" using im ref by blast
    have tok: "img_tabs_ok im" using D(5) [OF im(1)] by simp
    define r where "r = the (supdrvIOCtl_LdrGetSymbol w sp base szSymbol)"
    have r: "supdrvIOCtl_LdrGetSymbol w sp base szSymbol = Some (fst r, snd r) \<and>
       (if img_uState im \<noteq> SUP_LDR_LOAD then fst r = VERR_ALREADY_LOADED \<and> snd r = None
        else (case find (sym_named (img_strtab im) (cstr szSymbol @ [0])) (img_symtab im) of
            None \<Rightarrow> fst r = VERR_GENERAL_FAILURE \<and> snd r = Some 0
          | Some y \<Rightarrow> fst r = VINF_SUCCESS \<and> snd r = Some (base + scast (sym_offSymbol y))))"
      unfolding r_def
      by (simp add: supdrvIOCtl_LdrGetSymbol_def assms(2) some ldr_find_symbol_find [OF tok] sym_addr_def im(2)
          split: option.split)
    show ?thesis unfolding if_P [OF ex]
      by (rule exI [of _ "fst r"], rule exI [of _ "snd r"], rule conjI, use r in blast, rule exI [of _ p], rule exI [of _ im])
        (use r ref im in simp)
  qed
qed

text \<open>
  C26: symbol lookup never reads outside an image's tables. For an image the session references
  it finds the first symbol whose name in the string table is the requested one, terminator
  included, and answers its address; it reports an image that is not loaded, a missing symbol and
  an address that is no image of the session by the three error codes.
\<close>

theorem supdrvIOCtl_LdrGetSymbol_correct:
  assumes "ldr_inv w" "w_sess w sp = Some s"
  shows "\<exists>rc out. supdrvIOCtl_LdrGetSymbol w sp base szSymbol = Some (rc, out) \<and>
     (if \<exists>p im. 0 < ldr_refs s p \<and> w_imgs w p = Some im \<and> img_pvImage im = base then
        (\<exists>p im. 0 < ldr_refs s p \<and> w_imgs w p = Some im \<and> img_pvImage im = base \<and>
          (if img_uState im \<noteq> SUP_LDR_LOAD then rc = VERR_ALREADY_LOADED \<and> out = None
           else (case find (sym_named (img_strtab im) (cstr szSymbol @ [0])) (img_symtab im) of
               None \<Rightarrow> rc = VERR_GENERAL_FAILURE \<and> out = Some 0
             | Some y \<Rightarrow> rc = VINF_SUCCESS \<and> out = Some (base + scast (sym_offSymbol y)))))
      else rc = VERR_INVALID_HANDLE \<and> out = None)"
  by (rule LdrGetSymbol_ok [OF assms])

theorem supdrvIOCtl_LdrGetSymbol_correct_witness:
  "\<exists>rc out. supdrvIOCtl_LdrGetSymbol ldr_ex 0x10000 0x40000 [0x66, 0] = Some (rc, out) \<and>
     supdrvIOCtl_LdrGetSymbol ldr_ex 0x10000 0x40000 [0x66, 0] = Some (VINF_SUCCESS, Some 0x40010)"
proof -
  have "supdrvIOCtl_LdrGetSymbol ldr_ex 0x10000 0x40000 [0x66, 0] = Some (VINF_SUCCESS, Some 0x40010)"
    by (simp add: supdrvIOCtl_LdrGetSymbol_def ldr_ex_simps ldr_find_usage_def ldr_ex_A_def ldr_ex_B_def
        ldr_new_image_def ldr_find_symbol_def cstr_def copy_bytes_def sym_addr_def)
  then show ?thesis
    using supdrvIOCtl_LdrGetSymbol_correct [OF ldr_ex_inv(2) ldr_ex_simps(1), where base = "0x40000" and szSymbol = "[0x66, 0]"] by blast
qed

subsection \<open>Session cleanup\<close>

definition img_after :: "SUPDRVLDRUSAGE list \<Rightarrow> addr \<Rightarrow> SUPDRVLDRIMAGE \<Rightarrow> SUPDRVLDRIMAGE option" where
  "img_after us p im =
     (if img_refs_in us p = 0 then Some im
      else if img_refs_in us p < unat (img_cUsage im)
      then Some (im\<lparr>img_cUsage := img_cUsage im - of_nat (img_refs_in us p)\<rparr>) else None)"

lemma cleanup_imgs_ok:
  "obj_inv w \<Longrightarrow> ldr_inv w \<Longrightarrow> w_sess w sp = Some s \<Longrightarrow> distinct (map lus_pImage us) \<Longrightarrow>
   (\<forall>u\<in>set us. lus_pImage u \<in> dom (w_imgs w) \<and> 0 < unat (lus_cUsage u)) \<Longrightarrow>
   (\<forall>p im. w_imgs w p = Some im \<longrightarrow> img_refs_in us p + ldr_total w p \<le> unat (img_cUsage im)) \<Longrightarrow>
   \<exists>w'. cleanup_imgs w us = Some w' \<and> obj_inv w' \<and> ldr_inv w' \<and> w_sess w' = w_sess w \<and>
     (\<forall>p. w_imgs w' p = Option.bind (w_imgs w p) (img_after us p))"
proof (induction us arbitrary: w)
  case Nil
  have "Option.bind x (img_after [] p) = x" for x p by (cases x) (simp_all add: img_after_def)
  with Nil show ?case by simp
next
  case (Cons u us)
  note oi = Cons.prems(1) and li = Cons.prems(2) and s = Cons.prems(3)
  let ?p = "lus_pImage u"
  note D = ldr_invD [OF li s]
  obtain im where im: "w_imgs w ?p = Some im" using Cons.prems(5) by auto
  have u0: "0 < unat (lus_cUsage u)" using Cons.prems(5) by simp
  have nu: "?p \<notin> set (map lus_pImage us)" and d: "distinct (map lus_pImage us)" using Cons.prems(4) by auto
  then have fresh: "\<forall>v\<in>set us. lus_pImage v \<noteq> ?p" by (auto simp: image_iff)
  then have z: "img_refs_in us ?p = 0" by (rule key_count_zero)
  have le: "unat (lus_cUsage u) + ldr_total w ?p \<le> unat (img_cUsage im)"
    using Cons.prems(6) im z by force
  have tok: "img_tabs_ok im" using D(5) [OF im] by simp
  have after: "img_after (u # us) q im' = img_after us q im'" if "q \<noteq> ?p" for q im'
    using that by (simp add: img_after_def)
  have rest: "\<exists>w'. cleanup_imgs w1 us = Some w' \<and> obj_inv w' \<and> ldr_inv w' \<and> w_sess w' = w_sess w \<and>
      (\<forall>p. w_imgs w' p = Option.bind (w_imgs w p) (img_after (u # us) p))"
    if w1: "obj_inv w1" "ldr_inv w1" "w_sess w1 = w_sess w" "w_imgs w1 = (w_imgs w)(?p := img_after (u # us) ?p im)"
      and c: "\<And>im'. img_after (u # us) ?p im = Some im' \<Longrightarrow> ldr_total w ?p \<le> unat (img_cUsage im')" for w1
  proof -
    have t: "ldr_total w1 q = ldr_total w q" for q
      unfolding ldr_total_def by (rule sess_sums_cong(1) [OF w1(3)])
    have "\<exists>w'. cleanup_imgs w1 us = Some w' \<and> obj_inv w' \<and> ldr_inv w' \<and> w_sess w' = w_sess w1 \<and>
        (\<forall>p. w_imgs w' p = Option.bind (w_imgs w1 p) (img_after us p))"
    proof (rule Cons.IH [OF w1(1,2) _ d])
      show "w_sess w1 sp = Some s" using s w1(3) by simp
      show "\<forall>u\<in>set us. lus_pImage u \<in> dom (w_imgs w1) \<and> 0 < unat (lus_cUsage u)"
        using Cons.prems(5) fresh w1(4) by (auto simp: domIff)
      show "\<forall>q im'. w_imgs w1 q = Some im' \<longrightarrow> img_refs_in us q + ldr_total w1 q \<le> unat (img_cUsage im')"
      proof (intro allI impI)
        fix q im' assume q: "w_imgs w1 q = Some im'"
        show "img_refs_in us q + ldr_total w1 q \<le> unat (img_cUsage im')"
        proof (cases "q = ?p")
          case True
          then show ?thesis using c q w1(4) z t by simp
        next
          case False
          then have "w_imgs w q = Some im'" using q w1(4) by simp
          then have "img_refs_in (u # us) q + ldr_total w q \<le> unat (img_cUsage im')" using Cons.prems(6) by blast
          then show ?thesis using False t by simp
        qed
      qed
    qed
    then obtain w' where w': "cleanup_imgs w1 us = Some w'" "obj_inv w'" "ldr_inv w'" "w_sess w' = w_sess w1"
      "\<forall>p. w_imgs w' p = Option.bind (w_imgs w1 p) (img_after us p)" by blast
    have "w_imgs w' q = Option.bind (w_imgs w q) (img_after (u # us) q)" for q
    proof (cases "q = ?p")
      case True
      have "Option.bind x (img_after us ?p) = x" for x using z by (cases x) (simp_all add: img_after_def)
      then show ?thesis using w'(5) w1(4) im True by simp
    next
      case False
      then show ?thesis using w'(5) w1(4) after [OF False] by (cases "w_imgs w q") simp_all
    qed
    with w' w1(3) show ?thesis by auto
  qed
  have r1: "img_refs_in (u # us) ?p = unat (lus_cUsage u)" using z by simp
  show ?case
  proof (cases "lus_cUsage u < img_cUsage im")
    case True
    let ?im = "im\<lparr>img_cUsage := img_cUsage im - lus_cUsage u\<rparr>"
    have sub: "unat (img_cUsage im - lus_cUsage u) = unat (img_cUsage im) - unat (lus_cUsage u)"
      using True by (intro unat_sub) simp
    have a: "img_after (u # us) ?p im = Some ?im"
      using True u0 unfolding img_after_def r1 by (simp add: word_less_nat_alt)
    have o: "ldr_refs s ?p + ldr_other w sp ?p \<le> unat (img_cUsage im - lus_cUsage u)"
      using D(4) [of ?p] le unfolding sub by linarith
    have g: "0 < unat (img_cUsage im - lus_cUsage u)" using sub True by (simp add: word_less_nat_alt)
    have h: "ldr_usage_ok ((w_imgs w)(?p \<mapsto> ?im)) s" by (rule ldr_usage_ok_upd [OF D(2)]) simp
    have e: "(w_sess w)(sp \<mapsto> s) = w_sess w" using s by (simp add: fun_upd_idem)
    have dm: "insert ?p (dom (w_imgs w)) = dom (w_imgs w)" using im by auto
    have i: "ldr_inv (set_img w ?p ?im)"
      by (rule ldr_inv_step [OF li s, where s' = s and p = ?p and v = "Some ?im"])
        (use o g h e dm D(6,7) tok in simp_all)
    have "\<exists>w'. cleanup_imgs (set_img w ?p ?im) us = Some w' \<and> obj_inv w' \<and> ldr_inv w' \<and> w_sess w' = w_sess w \<and>
        (\<forall>p. w_imgs w' p = Option.bind (w_imgs w p) (img_after (u # us) p))"
      by (rule rest [OF _ i]) (use a sub le oi obj_inv_frame [of "set_img w ?p ?im" w] in auto)
    then show ?thesis using im True by simp
  next
    case False
    then have "unat (img_cUsage im) \<le> unat (lus_cUsage u)" by (simp add: word_less_nat_alt)
    with le have t0: "ldr_total w ?p = 0" and eq: "unat (lus_cUsage u) = unat (img_cUsage im)" by auto
    then have o: "ldr_other w sp ?p = 0" "ldr_refs s ?p = 0" using D(4) [of ?p] by auto
    have a: "img_after (u # us) ?p im = None"
      using u0 eq unfolding img_after_def r1 by simp
    obtain w1 where w1: "supdrvLdrFree w ?p = Some w1" "obj_inv w1" "w_sess w1 = w_sess w"
      "w_imgs w1 = (w_imgs w)(?p := None)" "dx_pLdrImages (w_devext w1) = remove1 ?p (dx_pLdrImages (w_devext w))"
      by (rule supdrvLdrFree_ok [OF oi im]) (use im D(7) in auto)
    have i: "ldr_inv w1"
      by (rule ldr_inv_step [OF li s, where s' = s and p = ?p and v = None])
        (use w1 D(6,7) s o remove1_list [OF D(6,7)] ldr_usage_ok_upd [OF D(2), of None ?p] in \<open>auto simp: fun_upd_idem\<close>)
    have "\<exists>w'. cleanup_imgs w1 us = Some w' \<and> obj_inv w' \<and> ldr_inv w' \<and> w_sess w' = w_sess w \<and>
        (\<forall>p. w_imgs w' p = Option.bind (w_imgs w p) (img_after (u # us) p))"
      by (rule rest [OF w1(2) i w1(3)]) (use a w1(4) in simp_all)
    then show ?thesis using im False w1(1) by simp
  qed
qed

lemma cleanup_imgs_session:
  assumes "obj_inv w" "ldr_inv w" "w_sess w sp = Some s"
  shows "\<exists>w'. cleanup_imgs (set_sess w sp (s\<lparr>ses_pLdrUsage := []\<rparr>)) (ses_pLdrUsage s) = Some w' \<and>
    obj_inv w' \<and> ldr_inv w' \<and> w_sess w' = (w_sess w)(sp \<mapsto> s\<lparr>ses_pLdrUsage := []\<rparr>) \<and>
    (\<forall>p. w_imgs w' p = Option.bind (w_imgs w p) (img_after (ses_pLdrUsage s) p))"
proof -
  note D = ldr_invD [OF assms(2,3)]
  let ?s = "s\<lparr>ses_pLdrUsage := []\<rparr>" let ?w = "set_sess w sp (s\<lparr>ses_pLdrUsage := []\<rparr>)"
  have i1: "obj_inv ?w" by (rule obj_inv_set_sess [OF assms(1,3)]) simp
  have tot: "ldr_total ?w q = ldr_other w sp q" for q
  proof -
    have "ldr_total ?w q = ldr_refs ?s q + ldr_other ?w sp q"
      unfolding ldr_total_def ldr_other_def by (rule sess_total_split) (use D(1) in auto)
    then show ?thesis using sess_other_upd [of ?w w sp "Some ?s"] by (simp add: ldr_other_def ldr_refs_def)
  qed
  have le: "\<forall>q im. w_imgs ?w q = Some im \<longrightarrow> img_refs_in (ses_pLdrUsage s) q + ldr_total ?w q \<le> unat (img_cUsage im)"
    using D(4,5) by (auto simp: tot ldr_refs_def)
  have "ldr_usage_ok (w_imgs w) ?s" by (simp add: ldr_usage_ok_def)
  have i2: "ldr_inv ?w"
    unfolding ldr_inv_def
  proof (intro conjI allI impI)
    show "finite (dom (w_sess ?w))" "distinct (dx_pLdrImages (w_devext ?w))"
      "set (dx_pLdrImages (w_devext ?w)) = dom (w_imgs ?w)" using D(1,6,7) by auto
    show "ldr_total ?w p \<le> unat (img_cUsage im)" "0 < unat (img_cUsage im)" "img_tabs_ok im"
      if "w_imgs ?w p = Some im" for p im using that le D(5) [of p im] by (auto simp: tot D(4))
    show "ldr_usage_ok (w_imgs ?w) t" if "w_sess ?w q = Some t" for q t
      using that assms(2) by (cases "q = sp") (auto simp: ldr_usage_ok_def ldr_inv_def)
  qed
  have us: "\<forall>u\<in>set (ses_pLdrUsage s). lus_pImage u \<in> dom (w_imgs ?w) \<and> 0 < unat (lus_cUsage u)"
    using D(2) by (simp add: ldr_usage_ok_def)
  show ?thesis using cleanup_imgs_ok [OF i1 i2 _ D(3) us le, of sp ?s] by auto
qed

text \<open>
  When a session is cleaned up its usage list is taken off and the images are walked: no
  freed image is touched, the invariants hold afterwards, an image whose references were all the
  session's is freed, every other one keeps exactly the references of the other sessions.
\<close>

theorem cleanup_imgs_correct:
  assumes "obj_inv w" "ldr_inv w" "w_sess w sp = Some s"
  shows "\<exists>w'. cleanup_imgs (set_sess w sp (s\<lparr>ses_pLdrUsage := []\<rparr>)) (ses_pLdrUsage s) = Some w' \<and>
    obj_inv w' \<and> ldr_inv w' \<and> w_sess w' = (w_sess w)(sp \<mapsto> s\<lparr>ses_pLdrUsage := []\<rparr>) \<and>
    (\<forall>p im. w_imgs w p = Some im \<longrightarrow> w_imgs w' p =
       (if ldr_refs s p = 0 then Some im
        else if ldr_refs s p < unat (img_cUsage im)
        then Some (im\<lparr>img_cUsage := img_cUsage im - of_nat (ldr_refs s p)\<rparr>) else None))"
proof -
  obtain w' where c: "cleanup_imgs (set_sess w sp (s\<lparr>ses_pLdrUsage := []\<rparr>)) (ses_pLdrUsage s) = Some w'" "obj_inv w'"
      "ldr_inv w'" "w_sess w' = (w_sess w)(sp \<mapsto> s\<lparr>ses_pLdrUsage := []\<rparr>)"
    and a: "\<forall>p. w_imgs w' p = Option.bind (w_imgs w p) (img_after (ses_pLdrUsage s) p)"
    using cleanup_imgs_session [OF assms] by blast
  show ?thesis by (intro exI [of _ w'] conjI c) (simp add: a img_after_def ldr_refs_def)
qed

theorem cleanup_imgs_correct_witness:
  "\<exists>w'. cleanup_imgs (set_sess ldr_ex 0x11000 (sess0\<lparr>ses_pLdrUsage := []\<rparr>))
      [\<lparr>lus_pImage = 0x30000, lus_cUsage = 1\<rparr>] = Some w' \<and> ldr_inv w' \<and> w_imgs w' 0x30000 \<noteq> None"
proof -
  have i: "w_imgs ldr_ex 0x30000 = Some ldr_ex_A" by (simp add: ldr_ex_simps)
  show ?thesis using cleanup_imgs_correct [OF ldr_ex_inv(1,2) ldr_ex_simps(2)] i
    by (auto simp: ldr_refs_def ldr_ex_A_def)
qed

subsection \<open>The kernel interface\<close>

text \<open>
  Looking up a symbol for another kernel module answers success, and leaves the result
  unset, when a loaded image of that name has no such symbol.
\<close>

theorem supdrvIDC_LdrGetSymbol_silent:
  assumes "ldr_inv w" "ldr_names w" "w_imgs w p = Some im" "img_uState im = SUP_LDR_LOAD"
    and "cstr (img_szName im) = cstr m" "cstr m \<noteq> SupDrv_name"
    and "RTStrEnd m 64 \<noteq> None" "RTStrEnd szSymbol 512 \<noteq> None"
    and "find (sym_named (img_strtab im) (cstr szSymbol @ [0])) (img_symtab im) = None"
  shows "supdrvIDC_LdrGetSymbol g_aFunctions fMem w sp (PBuf m) (PBuf szSymbol) = Some (VINF_SUCCESS, None, w)"
proof -
  have tok: "img_tabs_ok im" and l: "set (dx_pLdrImages (w_devext w)) = dom (w_imgs w)"
    using assms(1,3) by (auto simp: ldr_inv_def)
  have "deref_find (w_imgs w) (\<lambda>im. cstr (img_szName im) = cstr m) (dx_pLdrImages (w_devext w)) = Some (Some (p, im))"
    by (rule deref_find_unique) (use l assms(2,3,5) in \<open>auto simp: ldr_names_def\<close>)
  then show ?thesis
    using assms(4-9) ldr_find_symbol_find [OF tok, of szSymbol] by (simp add: supdrvIDC_LdrGetSymbol_def)
qed

theorem supdrvIDC_LdrGetSymbol_silent_witness:
  "supdrvIDC_LdrGetSymbol [] True ldr_ex 0x10000 (PBuf [0x41, 0]) (PBuf [0x67, 0]) =
     Some (VINF_SUCCESS, None, ldr_ex)"
proof (rule supdrvIDC_LdrGetSymbol_silent [OF ldr_ex_inv(2,3)])
  show "w_imgs ldr_ex 0x30000 = Some ldr_ex_A" by (simp add: ldr_ex_simps)
qed (simp_all add: ldr_ex_A_def cstr_def SupDrv_name_def RTStrEnd_def Let_def img_strtab_def
    img_symtab_def sym_named_def)

text \<open>
  A lookup that succeeds counts a reference of the session, but none in the image: two frees by
  that session take the image away from the other one.
\<close>

lemma supdrvIDC_LdrGetSymbol_uncounted:
  defines "w1 \<equiv> snd (snd (the (supdrvIDC_LdrGetSymbol [] True ldr_ex 0x10000 (PBuf [0x41, 0]) (PBuf [0x66, 0]))))"
  defines "w2 \<equiv> snd (the (supdrvIOCtl_LdrFree w1 0x10000 0x40000))"
  defines "w3 \<equiv> snd (the (supdrvIOCtl_LdrFree w2 0x10000 0x40000))"
  shows "\<not> ldr_inv w1" "w_imgs w3 0x30000 = None"
    "map lus_pImage (ses_pLdrUsage (the (w_sess w3 0x11000))) = [0x30000]"
proof -
  let ?s = "\<lambda>n. sess0\<lparr>ses_pLdrUsage := [\<lparr>lus_pImage = 0x31000, lus_cUsage = 1\<rparr>, \<lparr>lus_pImage = 0x30000, lus_cUsage = n\<rparr>]\<rparr>"
  note defs = ldr_ex_simps SupDrv_name_def RTStrEnd_def Let_def ldr_ex_A_def ldr_ex_B_def ldr_new_image_def
    cstr_def copy_bytes_def ldr_find_symbol_def supdrvLdrAddUsage_def ldr_find_usage_def ldr_dangling_def
    word_le_nat_alt
  have w1: "w1 = set_sess ldr_ex 0x10000 (?s 2)"
    unfolding w1_def by (simp add: supdrvIDC_LdrGetSymbol_def defs)
  have tot: "ldr_total w1 0x30000 = 3"
    unfolding w1 by (simp add: ldr_total_def sess_total_def ldr_refs_def ldr_ex_def supdrv0_def)
  show "\<not> ldr_inv w1"
  proof
    assume "ldr_inv w1"
    moreover have "w_imgs w1 0x30000 = Some ldr_ex_A" by (simp add: w1 ldr_ex_simps)
    ultimately have "ldr_total w1 0x30000 \<le> unat (img_cUsage ldr_ex_A)" by (auto simp: ldr_inv_def)
    then show False by (simp add: tot ldr_ex_A_def)
  qed
  have w2: "w2 = set_sess (set_img w1 0x30000 (ldr_ex_A\<lparr>img_cUsage := 1\<rparr>)) 0x10000 (?s 1)"
    unfolding w2_def w1 by (simp add: supdrvIOCtl_LdrFree_def defs)
  show "w_imgs w3 0x30000 = None"
    unfolding w3_def w2 w1
    by (simp add: supdrvIOCtl_LdrFree_def defs supdrvLdrFree_def ldr_unlink_def supdrvLdrUnsetVMMR0EPs_def)
  show "map lus_pImage (ses_pLdrUsage (the (w_sess w3 0x11000))) = [0x30000]"
    unfolding w3_def w2 w1
    by (simp add: supdrvIOCtl_LdrFree_def defs supdrvLdrFree_def ldr_unlink_def supdrvLdrUnsetVMMR0EPs_def)
qed

end
