(* ===== verification/RTNotify.thy ===== *)
theory RTNotify
  imports SupState SupIface
begin

text \<open>
  The CPU and power notification lists of IPRT's ring-0 part (Runtime/r0drv/mpnotification-r0drv.c
  and powernotification-r0drv.c), which the driver uses to learn of CPUs going on and offline.
  Both files have the same code up to the arguments of the callbacks; they share one state type
  here. The callbacks run without the lock, so everything that happens to the list meanwhile is a
  parameter \<open>env\<close>: a function of the calls made so far and the state at the unlock.
\<close>

named_theorems ntf_defs \<open>definitions of the notification operations\<close>

subsection \<open>State\<close>

text \<open>
  \<open>ntf_list\<close> is the chain of records from \<open>g_pRTMpCallbackHead\<close>, \<open>ntf_recs\<close> the allocated records.
  \<open>ntf_fLock\<close> says whether \<open>g_hRTMpNotifySpinLock\<close> is a lock or NIL.
\<close>

record RTMPNOTIFYREG =
  nr_pfnCallback :: addr
  nr_pvUser :: addr
  nr_bmDone :: u64

record RTNOTIFY =
  ntf_fLock :: bool
  ntf_list :: "addr list"
  ntf_recs :: "addr \<rightharpoonup> RTMPNOTIFYREG"
  ntf_iDoneBit :: u32
  ntf_iGeneration :: u32

type_synonym notify_call = "addr \<times> addr"
type_synonym notify_env = "notify_call list \<Rightarrow> RTNOTIFY \<Rightarrow> RTNOTIFY"

definition nr_key :: "RTMPNOTIFYREG \<Rightarrow> notify_call" where
  "nr_key r = (nr_pfnCallback r, nr_pvUser r)"

subsection \<open>Calling back\<close>

text \<open>\<open>pCur->pNext\<close>, 0 at the end of the chain\<close>

primrec next_of :: "addr list \<Rightarrow> addr \<Rightarrow> addr" where
  "next_of [] p = 0"
| "next_of (q # qs) p = (if q = p then (case qs of [] \<Rightarrow> 0 | r # _ \<Rightarrow> r) else next_of qs p)"

definition ntf_head :: "RTNOTIFY \<Rightarrow> addr" where
  [ntf_defs]: "ntf_head st = (case ntf_list st of [] \<Rightarrow> 0 | p # _ \<Rightarrow> p)"

definition ntf_set_done :: "RTNOTIFY \<Rightarrow> addr \<Rightarrow> RTMPNOTIFYREG \<Rightarrow> nat \<Rightarrow> RTNOTIFY" where
  [ntf_defs]: "ntf_set_done st p r iDone =
     st\<lparr>ntf_recs := (ntf_recs st)(p \<mapsto> r\<lparr>nr_bmDone := set_bit iDone (nr_bmDone r)\<rparr>)\<rparr>"

text \<open>
  The two nested loops: \<open>iGeneration\<close> belongs to the outer one, \<open>pCur\<close> to the inner one. A changed
  generation restarts at the head unless the record was the last one. \<open>None\<close> is a read of a
  record that was freed, or no end.
\<close>

partial_function (option) ntf_walk ::
  "notify_env \<Rightarrow> nat \<Rightarrow> u32 \<Rightarrow> addr \<Rightarrow> notify_call list \<Rightarrow> RTNOTIFY \<Rightarrow> (status \<times> notify_call list \<times> RTNOTIFY) option"
where
  "ntf_walk env iDone iGeneration pCur calls st =
     (if pCur = 0 then Some (VINF_SUCCESS, calls, st)
      else
        (case ntf_recs st pCur of
           None \<Rightarrow> None
         | Some r \<Rightarrow>
             if \<not> bit (nr_bmDone r) iDone then
               let pNext = next_of (ntf_list st) pCur;
                   calls1 = calls @ [nr_key r];
                   st1 = env calls1 (ntf_set_done st pCur r iDone)
               in if \<not> ntf_fLock st1 then Some (VERR_ACCESS_DENIED, calls1, st1)
                  else if ntf_iGeneration st1 \<noteq> iGeneration then
                    (if pNext = 0 then Some (VINF_SUCCESS, calls1, st1)
                     else ntf_walk env iDone (ntf_iGeneration st1) (ntf_head st1) calls1 st1)
                  else ntf_walk env iDone iGeneration pNext calls1 st1
             else ntf_walk env iDone iGeneration (next_of (ntf_list st) pCur) calls st))"

primrec ntf_clear :: "nat \<Rightarrow> (addr \<rightharpoonup> RTMPNOTIFYREG) \<Rightarrow> addr list \<Rightarrow> (addr \<rightharpoonup> RTMPNOTIFYREG) option" where
  "ntf_clear iDone h [] = Some h"
| "ntf_clear iDone h (p # ps) =
     (case h p of
        None \<Rightarrow> None
      | Some r \<Rightarrow> ntf_clear iDone (h(p \<mapsto> r\<lparr>nr_bmDone := unset_bit iDone (nr_bmDone r)\<rparr>)) ps)"

text \<open>
  \<open>RTPowerSignalEvent\<close> reports whether the list was there to the end; the CPU variant has the same
  control flow and no result.
\<close>

definition RTPowerSignalEvent :: "notify_env \<Rightarrow> RTNOTIFY \<Rightarrow> (status \<times> notify_call list \<times> RTNOTIFY) option" where
  [ntf_defs]: "RTPowerSignalEvent env st =
     (let st0 = st\<lparr>ntf_iDoneBit := ntf_iDoneBit st + 1\<rparr>;
          iDone = unat (ntf_iDoneBit st0) mod 64
      in if \<not> ntf_fLock st0 then Some (VERR_ACCESS_DENIED, [], st0)
         else Option.bind (ntf_clear iDone (ntf_recs st0) (ntf_list st0)) (\<lambda>h.
                let st1 = st0\<lparr>ntf_recs := h\<rparr>
                in ntf_walk env iDone (ntf_iGeneration st1) (ntf_head st1) [] st1))"

definition rtMpNotificationDoCallbacks :: "notify_env \<Rightarrow> RTNOTIFY \<Rightarrow> (notify_call list \<times> RTNOTIFY) option" where
  [ntf_defs]: "rtMpNotificationDoCallbacks env st = map_option snd (RTPowerSignalEvent env st)"

subsection \<open>Registering and deregistering\<close>

definition ntf_find :: "RTNOTIFY \<Rightarrow> addr \<Rightarrow> addr \<Rightarrow> (addr \<times> RTMPNOTIFYREG) option option" where
  [ntf_defs]: "ntf_find st pfnCallback pvUser =
     deref_find (ntf_recs st) (\<lambda>r. nr_pvUser r = pvUser \<and> nr_pfnCallback r = pfnCallback) (ntf_list st)"

text \<open>
  \<open>gap\<close> is what happens to the list while the lock is dropped for the allocation, \<open>pNew\<close> its
  result. A record that another thread linked for the same callback meanwhile is freed.
\<close>

definition RTMpNotificationRegister ::
  "(RTNOTIFY \<Rightarrow> RTNOTIFY) \<Rightarrow> RTNOTIFY \<Rightarrow> addr \<Rightarrow> addr \<Rightarrow> addr \<Rightarrow> (status \<times> RTNOTIFY) option" where
  [ntf_defs]: "RTMpNotificationRegister gap st pfnCallback pvUser pNew =
     (if \<not> RT_VALID_PTR pfnCallback then Some (VERR_INVALID_POINTER, st)
      else if \<not> ntf_fLock st then Some (VERR_WRONG_ORDER, st)
      else
        (case ntf_find st pfnCallback pvUser of
           None \<Rightarrow> None
         | Some (Some _) \<Rightarrow> Some (VERR_ALREADY_EXISTS, st)
         | Some None \<Rightarrow>
             let st1 = gap st
             in if pNew = 0 then Some (VERR_NO_MEMORY, st1)
                else if \<not> ntf_fLock st1 then None
                else
                  let r = \<lparr>nr_pfnCallback = pfnCallback, nr_pvUser = pvUser, nr_bmDone = 0xffffffffffffffff\<rparr>;
                      st2 = st1\<lparr>ntf_recs := (ntf_recs st1)(pNew \<mapsto> r)\<rparr>
                  in (case ntf_find st2 pfnCallback pvUser of
                        None \<Rightarrow> None
                      | Some None \<Rightarrow>
                          Some (VINF_SUCCESS, st2\<lparr>ntf_list := ntf_list st2 @ [pNew],
                                                  ntf_iGeneration := ntf_iGeneration st2 + 1\<rparr>)
                      | Some (Some (pCur, _)) \<Rightarrow>
                          Some (VERR_ALREADY_EXISTS, st2\<lparr>ntf_iGeneration := ntf_iGeneration st2 + 1,
                                                         ntf_recs := (ntf_recs st2)(pCur := None)\<rparr>))))"

definition RTMpNotificationDeregister :: "RTNOTIFY \<Rightarrow> addr \<Rightarrow> addr \<Rightarrow> (status \<times> RTNOTIFY) option" where
  [ntf_defs]: "RTMpNotificationDeregister st pfnCallback pvUser =
     (if \<not> RT_VALID_PTR pfnCallback then Some (VERR_INVALID_POINTER, st)
      else if \<not> ntf_fLock st then Some (VERR_WRONG_ORDER, st)
      else
        (case ntf_find st pfnCallback pvUser of
           None \<Rightarrow> None
         | Some None \<Rightarrow> Some (VERR_NOT_FOUND, st)
         | Some (Some (pCur, _)) \<Rightarrow>
             Some (VINF_SUCCESS, st\<lparr>ntf_list := remove1 pCur (ntf_list st),
                                    ntf_iGeneration := ntf_iGeneration st + 1,
                                    ntf_recs := (ntf_recs st)(pCur := None)\<rparr>)))"

definition RTPowerNotificationRegister where
  [ntf_defs]: "RTPowerNotificationRegister = RTMpNotificationRegister"

definition RTPowerNotificationDeregister where
  [ntf_defs]: "RTPowerNotificationDeregister = RTMpNotificationDeregister"

subsection \<open>Starting and stopping\<close>

definition rtR0MpNotificationInit :: "status \<Rightarrow> status \<Rightarrow> RTNOTIFY \<Rightarrow> status \<times> RTNOTIFY" where
  [ntf_defs]: "rtR0MpNotificationInit rcSpin rcNative st =
     (if RT_SUCCESS rcSpin then
        (if RT_SUCCESS rcNative then (rcNative, st\<lparr>ntf_fLock := True\<rparr>)
         else (rcNative, st\<lparr>ntf_fLock := False\<rparr>))
      else (rcSpin, st))"

definition rtR0PowerNotificationInit :: "status \<Rightarrow> RTNOTIFY \<Rightarrow> status \<times> RTNOTIFY" where
  [ntf_defs]: "rtR0PowerNotificationInit rcSpin st =
     (if RT_SUCCESS rcSpin then (rcSpin, st\<lparr>ntf_fLock := True\<rparr>) else (rcSpin, st))"

primrec ntf_free_all :: "(addr \<rightharpoonup> RTMPNOTIFYREG) \<Rightarrow> addr list \<Rightarrow> (addr \<rightharpoonup> RTMPNOTIFYREG) option" where
  "ntf_free_all h [] = Some h"
| "ntf_free_all h (p # ps) = (case h p of None \<Rightarrow> None | Some _ \<Rightarrow> ntf_free_all (h(p := None)) ps)"

definition rtR0MpNotificationTerm :: "RTNOTIFY \<Rightarrow> RTNOTIFY option" where
  [ntf_defs]: "rtR0MpNotificationTerm st =
     (if \<not> ntf_fLock st then Some st
      else map_option
             (\<lambda>h. st\<lparr>ntf_fLock := False, ntf_list := [], ntf_iGeneration := ntf_iGeneration st + 1, ntf_recs := h\<rparr>)
             (ntf_free_all (ntf_recs st) (ntf_list st)))"

definition rtR0PowerNotificationTerm where
  [ntf_defs]: "rtR0PowerNotificationTerm = rtR0MpNotificationTerm"

subsection \<open>The registered callbacks\<close>

definition ntf_keys :: "RTNOTIFY \<Rightarrow> notify_call list" where
  "ntf_keys st = map (\<lambda>p. nr_key (the (ntf_recs st p))) (ntf_list st)"

text \<open>The chain is well formed: distinct allocated records, one for each registration.\<close>

definition ntf_ok :: "RTNOTIFY \<Rightarrow> bool" where
  "ntf_ok st \<longleftrightarrow> distinct (ntf_list st) \<and> 0 \<notin> set (ntf_list st) \<and> set (ntf_list st) \<subseteq> dom (ntf_recs st) \<and>
     distinct (ntf_keys st)"

lemma ntf_keys_set: "k \<in> set (ntf_keys st) \<longleftrightarrow> (\<exists>p\<in>set (ntf_list st). nr_key (the (ntf_recs st p)) = k)"
  by (auto simp: ntf_keys_def)

lemma ntf_find_ok:
  assumes "ntf_ok st"
  shows "case ntf_find st f u of
       None \<Rightarrow> False
     | Some None \<Rightarrow> (f, u) \<notin> set (ntf_keys st)
     | Some (Some (p, r)) \<Rightarrow> p \<in> set (ntf_list st) \<and> ntf_recs st p = Some r \<and> nr_key r = (f, u)"
proof -
  let ?P = "\<lambda>r. nr_pvUser r = u \<and> nr_pfnCallback r = f"
  have sub: "set (ntf_list st) \<subseteq> dom (ntf_recs st)" using assms by (simp add: ntf_ok_def)
  have "ntf_find st f u \<noteq> None" unfolding ntf_find_def by (rule deref_find_safe [OF sub])
  then consider "ntf_find st f u = Some None" | p r where "ntf_find st f u = Some (Some (p, r))"
    by (metis not_None_eq surj_pair)
  then show ?thesis
  proof cases
    case 1
    have "nr_key (the (ntf_recs st p)) \<noteq> (f, u)" if "p \<in> set (ntf_list st)" for p
      using deref_find_None [OF 1 [unfolded ntf_find_def] that] by (auto simp: nr_key_def)
    then show ?thesis using 1 by (auto simp: ntf_keys_set)
  next
    case 2
    from deref_find_Some [OF 2 [unfolded ntf_find_def]] 2 show ?thesis by (simp add: nr_key_def)
  qed
qed

subsection \<open>The walk\<close>

text \<open>The records a walk with bit \<open>i\<close> has still to call, and their registrations.\<close>

definition ntf_undone :: "nat \<Rightarrow> RTNOTIFY \<Rightarrow> addr set" where
  "ntf_undone i st = {p \<in> set (ntf_list st). \<not> bit (nr_bmDone (the (ntf_recs st p))) i}"

definition ntf_todo :: "nat \<Rightarrow> RTNOTIFY \<Rightarrow> notify_call set" where
  "ntf_todo i st = (\<lambda>p. nr_key (the (ntf_recs st p))) ` ntf_undone i st"

text \<open>
  What may happen while a callback runs: as long as the list exists it stays well formed, nothing
  becomes due that was not due before, and every change of the list changes the generation.
\<close>

definition ntf_mod :: "nat \<Rightarrow> RTNOTIFY \<Rightarrow> RTNOTIFY \<Rightarrow> bool" where
  "ntf_mod i st st' \<longleftrightarrow> (ntf_fLock st' \<longrightarrow> ntf_ok st' \<and>
     (\<forall>p\<in>ntf_undone i st'. p \<in> ntf_undone i st \<and> nr_key (the (ntf_recs st' p)) = nr_key (the (ntf_recs st p))) \<and>
     (ntf_iGeneration st' = ntf_iGeneration st \<longrightarrow> ntf_list st' = ntf_list st))"

lemma ntf_mod_refl: "ntf_ok st \<Longrightarrow> ntf_mod i st st"
  by (simp add: ntf_mod_def)

lemma ntf_mod_gone: "\<not> ntf_fLock st' \<Longrightarrow> ntf_mod i st st'"
  by (simp add: ntf_mod_def)

lemma next_of_split:
  "distinct (ps @ p # qs) \<Longrightarrow> next_of (ps @ p # qs) p = (case qs of [] \<Rightarrow> 0 | q # _ \<Rightarrow> q)"
  by (induction ps) auto

lemma bit_set_self: "i < 64 \<Longrightarrow> bit (set_bit i (x::u64)) i"
  by (simp add: bit_set_bit_iff)

lemma bit_set_other: "i \<noteq> j \<Longrightarrow> bit (set_bit i (x::u64)) j = bit x j"
  by (auto simp: bit_set_bit_iff)

lemma ntf_set_done_ok:
  assumes "ntf_ok st" "ntf_recs st p = Some r" "i < 64"
  shows "ntf_ok (ntf_set_done st p r i)" "ntf_undone i (ntf_set_done st p r i) = ntf_undone i st - {p}"
    "ntf_list (ntf_set_done st p r i) = ntf_list st" "ntf_iGeneration (ntf_set_done st p r i) = ntf_iGeneration st"
    "nr_key (the (ntf_recs (ntf_set_done st p r i) q)) = nr_key (the (ntf_recs st q))"
    "ntf_fLock (ntf_set_done st p r i) = ntf_fLock st"
proof -
  show k: "nr_key (the (ntf_recs (ntf_set_done st p r i) q)) = nr_key (the (ntf_recs st q))" for q
    using assms(2) by (simp add: ntf_set_done_def nr_key_def)
  show l: "ntf_list (ntf_set_done st p r i) = ntf_list st" "ntf_iGeneration (ntf_set_done st p r i) = ntf_iGeneration st"
    "ntf_fLock (ntf_set_done st p r i) = ntf_fLock st"
    by (simp_all add: ntf_set_done_def)
  have "ntf_keys (ntf_set_done st p r i) = ntf_keys st" unfolding ntf_keys_def l k ..
  then show "ntf_ok (ntf_set_done st p r i)"
    using assms(1) unfolding ntf_ok_def l by (auto simp: ntf_set_done_def)
  show "ntf_undone i (ntf_set_done st p r i) = ntf_undone i st - {p}"
    using assms(3) bit_set_self by (auto simp: ntf_undone_def ntf_set_done_def)
qed

lemma ntf_todo_mod: "ntf_mod i st st' \<Longrightarrow> ntf_fLock st' \<Longrightarrow> ntf_undone i st' \<subseteq> ntf_undone i st \<and> ntf_todo i st' \<subseteq> ntf_todo i st"
  by (auto simp: ntf_mod_def ntf_todo_def image_iff)

lemma ntf_key_inj:
  assumes "ntf_ok st" "p \<in> set (ntf_list st)" "q \<in> set (ntf_list st)"
    "nr_key (the (ntf_recs st p)) = nr_key (the (ntf_recs st q))"
  shows "p = q"
  using assms unfolding ntf_ok_def ntf_keys_def distinct_map by (metis inj_onD)

lemma ntf_todo_done:
  assumes "ntf_ok st" "p \<in> set (ntf_list st)" "ntf_recs st p = Some r" "i < 64"
  shows "ntf_todo i (ntf_set_done st p r i) = ntf_todo i st - {nr_key r}"
proof -
  let ?k = "\<lambda>q. nr_key (the (ntf_recs st q))"
  have k: "?k p = nr_key r" using assms(3) by simp
  have "inj_on ?k (set (ntf_list st))" using assms(1) by (simp add: ntf_ok_def ntf_keys_def distinct_map)
  then have "inj_on ?k (insert p (ntf_undone i st))"
    by (rule inj_on_subset) (use assms(2) in \<open>auto simp: ntf_undone_def\<close>)
  then have "?k ` (ntf_undone i st - {p}) = ?k ` ntf_undone i st - {?k p}" by (auto simp: inj_on_def)
  then show ?thesis unfolding ntf_todo_def ntf_set_done_ok(2,5) [OF assms(1,3,4)] k .
qed

lemma ntf_walk_ok:
  assumes i: "i < 64"
    and env: "\<And>cs s. ntf_ok s \<Longrightarrow> ntf_fLock s \<Longrightarrow> ntf_mod i s (env cs s)"
    and keep: "\<And>k cs s. k \<in> K \<Longrightarrow> ntf_ok s \<Longrightarrow> ntf_fLock s \<Longrightarrow> k \<in> ntf_todo i s \<Longrightarrow> k \<in> ntf_todo i (env cs s)"
  shows "ntf_ok st \<Longrightarrow> ntf_fLock st \<Longrightarrow> ntf_list st = ps @ qs \<Longrightarrow> ntf_undone i st \<subseteq> set qs \<Longrightarrow>
     distinct calls \<Longrightarrow> set calls \<inter> ntf_todo i st = {} \<Longrightarrow>
     \<exists>rc cs st'. ntf_walk env i (ntf_iGeneration st) (case qs of [] \<Rightarrow> 0 | p # _ \<Rightarrow> p) calls st = Some (rc, calls @ cs, st') \<and>
       distinct (calls @ cs) \<and> set cs \<subseteq> ntf_todo i st \<and>
       (if ntf_fLock st' then rc = VINF_SUCCESS \<and> ntf_ok st' \<and> K \<inter> ntf_todo i st \<subseteq> set cs else rc = VERR_ACCESS_DENIED)"
proof (induction "card (ntf_undone i st)" arbitrary: st ps qs calls rule: less_induct)
  case less
  note outer = less.hyps
  from less.prems show ?case
  proof (induction qs arbitrary: ps)
    case Nil
    then have "ntf_todo i st = {}" by (simp add: ntf_todo_def)
    then show ?case using Nil by (auto simp: ntf_walk.simps)
  next
    case (Cons p qs)
    have p0: "p \<noteq> 0" and pin: "p \<in> set (ntf_list st)" and d: "distinct (ps @ p # qs)"
      and sub: "set (ntf_list st) \<subseteq> dom (ntf_recs st)"
      using Cons.prems(1,3) by (auto simp: ntf_ok_def)
    obtain r where r: "ntf_recs st p = Some r" using pin sub by auto
    have nx: "next_of (ntf_list st) p = (case qs of [] \<Rightarrow> 0 | q # _ \<Rightarrow> q)"
      unfolding Cons.prems(3) by (rule next_of_split [OF d])
    show ?case
    proof (cases "bit (nr_bmDone r) i")
      case True
      have "ntf_undone i st \<subseteq> set qs" using Cons.prems(4) True r by (auto simp: ntf_undone_def)
      moreover have "ntf_walk env i (ntf_iGeneration st) p calls st =
          ntf_walk env i (ntf_iGeneration st) (case qs of [] \<Rightarrow> 0 | q # _ \<Rightarrow> q) calls st"
        by (subst ntf_walk.simps) (simp add: p0 r True nx)
      moreover have "ntf_list st = (ps @ [p]) @ qs" using Cons.prems(3) by simp
      ultimately show ?thesis using Cons.IH [OF Cons.prems(1,2) _ _ Cons.prems(5,6), of "ps @ [p]"] by simp
    next
      case False
      let ?s1 = "ntf_set_done st p r i" and ?calls = "calls @ [nr_key r]"
      let ?s2 = "env ?calls ?s1"
      note S = ntf_set_done_ok [OF Cons.prems(1) r i]
      have pu: "p \<in> ntf_undone i st" using False pin r by (simp add: ntf_undone_def)
      have kin: "nr_key r \<in> ntf_todo i st" using pu r by (force simp: ntf_todo_def)
      have l1: "ntf_fLock ?s1" using S(6) Cons.prems(2) by simp
      have m: "ntf_mod i ?s1 ?s2" by (rule env [OF S(1) l1])
      have td: "ntf_todo i ?s1 = ntf_todo i st - {nr_key r}" by (rule ntf_todo_done [OF Cons.prems(1) pin r i])
      have dc: "distinct ?calls" using Cons.prems(5,6) kin by auto
      show ?thesis
      proof (cases "ntf_fLock ?s2")
        case gone: False
        have "ntf_walk env i (ntf_iGeneration st) p calls st = Some (VERR_ACCESS_DENIED, ?calls, ?s2)"
          by (subst ntf_walk.simps) (simp add: p0 r False gone Let_def)
        then show ?thesis using dc kin gone by auto
      next
        case True
        have ok2: "ntf_ok ?s2" and t2: "ntf_undone i ?s2 \<subseteq> ntf_undone i ?s1" "ntf_todo i ?s2 \<subseteq> ntf_todo i ?s1"
          using m True ntf_todo_mod [OF m True] by (auto simp: ntf_mod_def)
        have u2: "ntf_undone i ?s2 \<subseteq> ntf_undone i st - {p}" using t2(1) S(2) by simp
        have fin: "finite (ntf_undone i st)" by (simp add: ntf_undone_def)
        have card: "card (ntf_undone i ?s2) < card (ntf_undone i st)"
          using u2 pu fin by (intro psubset_card_mono) auto
        have disj: "set ?calls \<inter> ntf_todo i ?s2 = {}" using Cons.prems(6) t2(2) td by auto
        have kp: "K \<inter> ntf_todo i st \<subseteq> insert (nr_key r) (ntf_todo i ?s2)"
          using keep [OF _ S(1) l1, of _ ?calls] td by blast
        have fin2: ?thesis
          if w: "ntf_walk env i (ntf_iGeneration st) p calls st = ntf_walk env i (ntf_iGeneration ?s2) (case q2 of [] \<Rightarrow> 0 | q # _ \<Rightarrow> q) ?calls ?s2"
            and l: "ntf_list ?s2 = p2 @ q2" "ntf_undone i ?s2 \<subseteq> set q2" for p2 q2
        proof -
          obtain rc cs st' where e: "ntf_walk env i (ntf_iGeneration ?s2) (case q2 of [] \<Rightarrow> 0 | q # _ \<Rightarrow> q) ?calls ?s2 =
              Some (rc, ?calls @ cs, st')" "distinct (?calls @ cs)" "set cs \<subseteq> ntf_todo i ?s2"
            "if ntf_fLock st' then rc = VINF_SUCCESS \<and> ntf_ok st' \<and> K \<inter> ntf_todo i ?s2 \<subseteq> set cs else rc = VERR_ACCESS_DENIED"
            using outer [OF card ok2 True l dc disj] by blast
          have 1: "set (nr_key r # cs) \<subseteq> ntf_todo i st" using e(3) t2(2) td kin by auto
          have 2: "distinct (calls @ nr_key r # cs)" using e(2) by simp
          have 3: "K \<inter> ntf_todo i st \<subseteq> set (nr_key r # cs)" if "K \<inter> ntf_todo i ?s2 \<subseteq> set cs"
            using kp that unfolding list.set by blast
          have 4: "ntf_walk env i (ntf_iGeneration st) p calls st = Some (rc, calls @ nr_key r # cs, st')"
            using w e(1) by simp
          show ?thesis unfolding list.case
            by (rule exI [of _ rc], rule exI [of _ "nr_key r # cs"], rule exI [of _ st'], intro conjI 4 2 1)
              (use e(4) 3 in \<open>auto split: if_splits\<close>)
        qed
        have w: "ntf_walk env i (ntf_iGeneration st) p calls st =
            (if ntf_iGeneration ?s2 \<noteq> ntf_iGeneration st then
               (if next_of (ntf_list st) p = 0 then Some (VINF_SUCCESS, ?calls, ?s2)
                else ntf_walk env i (ntf_iGeneration ?s2) (ntf_head ?s2) ?calls ?s2)
             else ntf_walk env i (ntf_iGeneration st) (next_of (ntf_list st) p) ?calls ?s2)"
          by (subst ntf_walk.simps) (simp add: p0 r False True Let_def)
        show ?thesis
        proof (cases "ntf_iGeneration ?s2 = ntf_iGeneration st")
          case gen: True
          then have "ntf_list ?s2 = ntf_list st" using m True S(3,4) by (simp add: ntf_mod_def)
          then have l: "ntf_list ?s2 = (ps @ [p]) @ qs" using Cons.prems(3) by simp
          have "ntf_undone i ?s2 \<subseteq> set qs" using u2 Cons.prems(4) by auto
          from fin2 [OF _ l this] show ?thesis using w gen nx by simp
        next
          case gen: False
          show ?thesis
          proof (cases "next_of (ntf_list st) p = 0")
            case False
            have "ntf_head ?s2 = (case ntf_list ?s2 of [] \<Rightarrow> 0 | q # _ \<Rightarrow> q)" by (simp add: ntf_head_def)
            then show ?thesis
              by (intro fin2 [of "ntf_list ?s2" "[]"]) (use w gen False in \<open>auto simp: ntf_undone_def\<close>)
          next
            case last: True
            have "q \<noteq> 0" if "q \<in> set qs" for q using that Cons.prems(1,3) by (auto simp: ntf_ok_def)
            then have "qs = []" using last nx by (cases qs) auto
            then have "ntf_undone i ?s2 = {}" using u2 Cons.prems(4) by auto
            then have "K \<inter> ntf_todo i st \<subseteq> {nr_key r}" using kp by (simp add: ntf_todo_def)
            then show ?thesis using w gen last dc kin ok2 True by auto
          qed
        qed
      qed
    qed
  qed
qed

lemma ntf_clear_ok:
  "set ps \<subseteq> dom h \<Longrightarrow> ntf_clear i h ps =
     Some (\<lambda>p. if p \<in> set ps then map_option (\<lambda>r. r\<lparr>nr_bmDone := unset_bit i (nr_bmDone r)\<rparr>) (h p) else h p)"
proof (induction ps arbitrary: h)
  case (Cons p ps)
  then obtain r where r: "h p = Some r" by auto
  let ?c = "\<lambda>r. r\<lparr>nr_bmDone := unset_bit i (nr_bmDone r)\<rparr>"
  have "unset_bit i (unset_bit i (x::u64)) = unset_bit i x" for x by (rule bit_eqI) (simp add: bit_unset_bit_iff)
  then have idem: "?c (?c r) = ?c r" by simp
  have "ntf_clear i h (p # ps) = ntf_clear i (h(p \<mapsto> ?c r)) ps" by (simp add: r)
  also have "\<dots> = Some (\<lambda>q. if q \<in> set ps then map_option ?c ((h(p \<mapsto> ?c r)) q) else (h(p \<mapsto> ?c r)) q)"
    by (rule Cons.IH) (use Cons.prems in auto)
  also have "(\<lambda>q. if q \<in> set ps then map_option ?c ((h(p \<mapsto> ?c r)) q) else (h(p \<mapsto> ?c r)) q) =
      (\<lambda>q. if q \<in> set (p # ps) then map_option ?c (h q) else h q)"
    using r idem by (auto simp: fun_eq_iff)
  finally show ?case .
qed simp

lemma ntf_clear_freed: "q \<in> set ps \<Longrightarrow> h q = None \<Longrightarrow> ntf_clear i h ps = None"
proof (induction ps arbitrary: h)
  case (Cons a ps)
  show ?case
  proof (cases "h a")
    case (Some r)
    then have "a \<noteq> q" using Cons.prems by auto
    then show ?thesis using Cons Some by simp
  qed simp
qed simp

lemma ntf_cleared_ok:
  assumes ok: "ntf_ok st" and h: "h = (\<lambda>p. if p \<in> set (ntf_list st)
       then map_option (\<lambda>r. r\<lparr>nr_bmDone := unset_bit i (nr_bmDone r)\<rparr>) (ntf_recs st p) else ntf_recs st p)"
  shows "ntf_ok (st\<lparr>ntf_iDoneBit := b, ntf_recs := h\<rparr>)"
    "ntf_undone i (st\<lparr>ntf_iDoneBit := b, ntf_recs := h\<rparr>) = set (ntf_list st)"
    "ntf_todo i (st\<lparr>ntf_iDoneBit := b, ntf_recs := h\<rparr>) = set (ntf_keys st)"
proof -
  have sub: "set (ntf_list st) \<subseteq> dom (ntf_recs st)" using ok by (simp add: ntf_ok_def)
  have k: "nr_key (the (h p)) = nr_key (the (ntf_recs st p))" if pin: "p \<in> set (ntf_list st)" for p
  proof -
    obtain r where "ntf_recs st p = Some r" using pin sub by auto
    then show ?thesis using pin by (simp add: h nr_key_def)
  qed
  then have keys: "ntf_keys (st\<lparr>ntf_iDoneBit := b, ntf_recs := h\<rparr>) = ntf_keys st" by (simp add: ntf_keys_def)
  have "dom h = dom (ntf_recs st)" by (auto simp: h dom_def split: if_splits)
  then show "ntf_ok (st\<lparr>ntf_iDoneBit := b, ntf_recs := h\<rparr>)" using ok keys by (simp add: ntf_ok_def)
  have "\<not> bit (nr_bmDone (the (h p))) i" if pin: "p \<in> set (ntf_list st)" for p
  proof -
    obtain r where "ntf_recs st p = Some r" using pin sub by auto
    then show ?thesis using pin by (simp add: h bit_unset_bit_iff)
  qed
  then show u: "ntf_undone i (st\<lparr>ntf_iDoneBit := b, ntf_recs := h\<rparr>) = set (ntf_list st)"
    by (auto simp: ntf_undone_def)
  show "ntf_todo i (st\<lparr>ntf_iDoneBit := b, ntf_recs := h\<rparr>) = set (ntf_keys st)"
    unfolding ntf_todo_def u using k by (auto simp: ntf_keys_def image_iff)
qed

subsection \<open>Registration\<close>

lemma ntf_register_new:
  assumes "ntf_ok st" "pNew \<noteq> 0" "ntf_recs st pNew = None" "(f, u) \<notin> set (ntf_keys st)"
  defines "r \<equiv> \<lparr>nr_pfnCallback = f, nr_pvUser = u, nr_bmDone = 0xffffffffffffffff\<rparr>"
  defines "st' \<equiv> st\<lparr>ntf_recs := (ntf_recs st)(pNew \<mapsto> r), ntf_list := ntf_list st @ [pNew],
     ntf_iGeneration := ntf_iGeneration st + 1\<rparr>"
  shows "ntf_ok st'" "ntf_keys st' = ntf_keys st @ [(f, u)]" "i < 64 \<Longrightarrow> ntf_undone i st' = ntf_undone i st"
proof -
  have n: "pNew \<notin> set (ntf_list st)" using assms(1,3) by (auto simp: ntf_ok_def)
  then have "map (\<lambda>p. nr_key (the (((ntf_recs st)(pNew \<mapsto> r)) p))) (ntf_list st) = ntf_keys st"
    unfolding ntf_keys_def by (intro map_cong) auto
  then show k: "ntf_keys st' = ntf_keys st @ [(f, u)]"
    by (simp add: st'_def ntf_keys_def nr_key_def r_def)
  have d: "distinct (ntf_keys st')" unfolding k using assms(1,4) by (simp add: ntf_ok_def)
  show "ntf_ok st'" using assms(1,2) n d unfolding ntf_ok_def by (auto simp: st'_def)
  have all1: "(0xffffffffffffffff :: u64) = - 1" by simp
  have "bit (0xffffffffffffffff :: u64) i" if "i < 64" unfolding all1 using that by (simp add: bit_minus_1_iff)
  then show "i < 64 \<Longrightarrow> ntf_undone i st' = ntf_undone i st"
    using n by (auto simp: ntf_undone_def st'_def r_def)
qed

lemma ntf_register_find:
  assumes "ntf_ok st" "pNew \<notin> set (ntf_list st)"
  shows "ntf_find (st\<lparr>ntf_recs := (ntf_recs st)(pNew \<mapsto> r)\<rparr>) f u = ntf_find st f u"
proof -
  have "deref_find (h(pNew \<mapsto> r)) P ps = deref_find h P ps" if "pNew \<notin> set ps" for h :: "addr \<rightharpoonup> RTMPNOTIFYREG" and P ps
    using that by (induction ps) (auto split: option.split)
  then show ?thesis using assms(2) by (simp add: ntf_find_def)
qed

lemma RTMpNotificationRegister_ok:
  assumes ok: "ntf_ok st" "ntf_fLock st" "RT_VALID_PTR f"
    and gap: "ntf_ok (gap st)" "ntf_fLock (gap st)" "pNew \<noteq> 0 \<Longrightarrow> ntf_recs (gap st) pNew = None"
    and race: "(f, u) \<notin> set (ntf_keys st) \<Longrightarrow> (f, u) \<notin> set (ntf_keys (gap st))"
  shows "RTMpNotificationRegister gap st f u pNew =
     (if (f, u) \<in> set (ntf_keys st) then Some (VERR_ALREADY_EXISTS, st)
      else if pNew = 0 then Some (VERR_NO_MEMORY, gap st)
      else Some (VINF_SUCCESS, (gap st)\<lparr>
             ntf_recs := (ntf_recs (gap st))(pNew \<mapsto> \<lparr>nr_pfnCallback = f, nr_pvUser = u, nr_bmDone = 0xffffffffffffffff\<rparr>),
             ntf_list := ntf_list (gap st) @ [pNew], ntf_iGeneration := ntf_iGeneration (gap st) + 1\<rparr>))"
proof -
  note F = ntf_find_ok [OF ok(1), of f u] and G = ntf_find_ok [OF gap(1), of f u]
  show ?thesis
  proof (cases "ntf_find st f u")
    case None
    then show ?thesis using F by simp
  next
    case (Some x)
    show ?thesis
    proof (cases x)
      case None
      have e: "ntf_find st f u = Some None" using Some None by simp
      have n: "(f, u) \<notin> set (ntf_keys st)" "(f, u) \<notin> set (ntf_keys (gap st))" using F e race by auto
      have g: "ntf_find (gap st) f u = Some None"
      proof -
        have "\<exists>x. ntf_find (gap st) f u = Some x" using G by (auto split: option.splits)
        then obtain y where y: "ntf_find (gap st) f u = Some y" by blast
        have False if "y = Some (p, r)" for p r
        proof -
          have "p \<in> set (ntf_list (gap st))" "nr_key (the (ntf_recs (gap st) p)) = (f, u)"
            using G y that by auto
          then show False using n(2) by (auto simp: ntf_keys_set)
        qed
        then show ?thesis using y by (cases y) auto
      qed
      have l: "pNew \<noteq> 0 \<Longrightarrow> pNew \<notin> set (ntf_list (gap st))" using gap by (auto simp: ntf_ok_def)
      show ?thesis
        using e g n ok gap(2) ntf_register_find [OF gap(1) l]
        by (simp add: RTMpNotificationRegister_def Let_def)
    next
      case (Some pr)
      obtain p r where pr: "pr = (p, r)" by (cases pr)
      have e: "ntf_find st f u = Some (Some (p, r))" using \<open>ntf_find st f u = Some x\<close> Some pr by simp
      have "p \<in> set (ntf_list st)" "nr_key (the (ntf_recs st p)) = (f, u)" using F e by auto
      then have "(f, u) \<in> set (ntf_keys st)" by (auto simp: ntf_keys_set)
      then show ?thesis using e ok by (simp add: RTMpNotificationRegister_def)
    qed
  qed
qed

lemma RTMpNotificationDeregister_ok:
  assumes "ntf_ok st" "ntf_fLock st" "RT_VALID_PTR f"
  obtains st' where
    "RTMpNotificationDeregister st f u = Some (if (f, u) \<in> set (ntf_keys st) then VINF_SUCCESS else VERR_NOT_FOUND, st')"
    "ntf_ok st'" "ntf_fLock st'" "ntf_keys st' = remove1 (f, u) (ntf_keys st)"
    "ntf_undone i st' \<subseteq> ntf_undone i st" "\<forall>q\<in>set (ntf_list st'). ntf_recs st' q = ntf_recs st q"
    "if (f, u) \<in> set (ntf_keys st) then ntf_iGeneration st' = ntf_iGeneration st + 1 else st' = st"
proof -
  note F = ntf_find_ok [OF assms(1), of f u]
  have "\<exists>x. ntf_find st f u = Some x" using F by (auto split: option.splits)
  then consider "ntf_find st f u = Some None" | p r where "ntf_find st f u = Some (Some (p, r))"
    by (metis option.exhaust surj_pair)
  then show thesis
  proof cases
    case 1
    then have n: "(f, u) \<notin> set (ntf_keys st)" using F by simp
    then have "RTMpNotificationDeregister st f u = Some (VERR_NOT_FOUND, st)"
      using 1 assms by (simp add: RTMpNotificationDeregister_def)
    with that [of st] n assms show thesis by (simp add: remove1_idem)
  next
    case 2
    have p: "p \<in> set (ntf_list st)" "ntf_recs st p = Some r" "nr_key r = (f, u)" using F 2 by auto
    then have kin: "(f, u) \<in> set (ntf_keys st)" by (auto simp: ntf_keys_set intro!: bexI [of _ p])
    let ?st = "st\<lparr>ntf_list := remove1 p (ntf_list st), ntf_iGeneration := ntf_iGeneration st + 1,
        ntf_recs := (ntf_recs st)(p := None)\<rparr>"
    have e: "RTMpNotificationDeregister st f u = Some (VINF_SUCCESS, ?st)"
      using 2 assms by (simp add: RTMpNotificationDeregister_def)
    have d: "distinct (ntf_list st)" using assms(1) by (simp add: ntf_ok_def)
    have rec: "\<forall>q\<in>set (ntf_list ?st). ntf_recs ?st q = ntf_recs st q" using d by simp
    obtain ys zs where sp: "ntf_list st = ys @ p # zs" "p \<notin> set ys" using split_list_first [OF p(1)] by blast
    have pz: "p \<notin> set zs" using d sp(1) by simp
    have nk: "nr_key (the (ntf_recs st q)) \<noteq> (f, u)" if "q \<in> set ys" for q
    proof
      assume "nr_key (the (ntf_recs st q)) = (f, u)"
      then have "q = p" by (intro ntf_key_inj [OF assms(1)]) (use that p sp(1) in auto)
      then show False using that sp(2) by simp
    qed
    have k: "ntf_keys ?st = remove1 (f, u) (ntf_keys st)"
    proof -
      have "\<forall>q\<in>set ys. nr_key (the (ntf_recs st q)) \<noteq> (f, u)" using nk by blast
      then have "(f, u) \<notin> (\<lambda>q. nr_key (the (ntf_recs st q))) ` set ys" unfolding image_iff by (metis (no_types))
      then have "(f, u) \<notin> set (map (\<lambda>q. nr_key (the (ntf_recs st q))) ys)" by (simp only: set_map not_False_eq_True)
      then have "remove1 (f, u) (ntf_keys st) = map (\<lambda>q. nr_key (the (ntf_recs st q))) (ys @ zs)"
        using p by (simp add: ntf_keys_def sp(1) remove1_append)
      also have "\<dots> = ntf_keys ?st"
        using sp pz by (auto simp: ntf_keys_def remove1_append)
      finally show ?thesis by simp
    qed
    have "ntf_ok ?st"
      using assms(1) rec unfolding ntf_ok_def k by (auto simp: distinct_remove1 dest: notin_set_remove1)
    moreover have "ntf_undone i ?st \<subseteq> ntf_undone i st" using rec by (auto simp: ntf_undone_def d)
    ultimately show thesis using that [of ?st] e k rec kin assms(2) by simp
  qed
qed

text \<open>Registering and deregistering are allowed while callbacks run.\<close>

lemma ntf_mod_register:
  assumes "ntf_ok st" "ntf_fLock st" "RT_VALID_PTR f" "pNew \<noteq> 0 \<Longrightarrow> ntf_recs st pNew = None" "i < 64"
  shows "ntf_mod i st (snd (the (RTMpNotificationRegister id st f u pNew)))"
proof (cases "(f, u) \<in> set (ntf_keys st) \<or> pNew = 0")
  case True
  then show ?thesis using RTMpNotificationRegister_ok [OF assms(1-3), of id pNew u] assms ntf_mod_refl by auto
next
  case False
  note N = ntf_register_new [OF assms(1) _ _ , of pNew f u]
  have n: "ntf_recs st pNew = None" "pNew \<noteq> 0" using False assms(4) by auto
  then have pl: "p \<noteq> pNew" if "p \<in> set (ntf_list st)" for p using that assms(1) by (auto simp: ntf_ok_def)
  show ?thesis
    using RTMpNotificationRegister_ok [OF assms(1-3), of id pNew u] False assms(1,2,4,5) n N pl
    by (auto simp: ntf_mod_def ntf_undone_def)
qed

lemma ntf_mod_deregister:
  assumes "ntf_ok st" "ntf_fLock st" "RT_VALID_PTR f"
  shows "ntf_mod i st (snd (the (RTMpNotificationDeregister st f u)))"
proof (rule RTMpNotificationDeregister_ok [OF assms, of u i], goal_cases)
  case (1 st')
  have "nr_key (the (ntf_recs st' p)) = nr_key (the (ntf_recs st p))" if "p \<in> ntf_undone i st'" for p
    using that 1(6) by (auto simp: ntf_undone_def)
  then show ?case using 1 by (auto simp: ntf_mod_def split: if_splits)
qed

definition ntf_add :: "addr \<Rightarrow> RTNOTIFY \<Rightarrow> notify_call \<Rightarrow> RTNOTIFY option" where
  "ntf_add pNew st k =
     (if ntf_recs st pNew \<noteq> None then None
      else case RTMpNotificationRegister id st (fst k) (snd k) pNew of
             Some (rc, st') \<Rightarrow> if RT_SUCCESS rc then Some st' else None
           | None \<Rightarrow> None)"

definition ntf_del :: "RTNOTIFY \<Rightarrow> notify_call \<Rightarrow> RTNOTIFY option" where
  "ntf_del st k =
     (case RTMpNotificationDeregister st (fst k) (snd k) of
        Some (rc, st') \<Rightarrow> if RT_SUCCESS rc then Some st' else None
      | None \<Rightarrow> None)"

interpretation ntfs: registry "\<lambda>st. ntf_ok st \<and> ntf_fLock st" ntf_keys "ntf_add pNew" ntf_del for pNew
proof (unfold_locales, goal_cases)
  case (1 s)
  then show ?case by (simp add: ntf_ok_def)
next
  case (2 s k s')
  obtain f u where k: "k = (f, u)" by (cases k)
  have v: "RT_VALID_PTR f"
    using 2(2) by (auto simp: k ntf_add_def RTMpNotificationRegister_def split: if_splits)
  have r: "ntf_recs s pNew = None" using 2(2) by (auto simp: ntf_add_def split: if_splits)
  have n: "(f, u) \<notin> set (ntf_keys s)" "pNew \<noteq> 0"
    using 2 RTMpNotificationRegister_ok [OF conjunct1 [OF 2(1)] conjunct2 [OF 2(1)] v, of id pNew u] r
    by (auto simp: k ntf_add_def split: if_splits)
  note N = ntf_register_new [OF conjunct1 [OF 2(1)] n(2) r n(1)]
  show ?case
    using 2 RTMpNotificationRegister_ok [OF conjunct1 [OF 2(1)] conjunct2 [OF 2(1)] v, of id pNew u] r n N
    by (auto simp: k ntf_add_def)
next
  case (3 s k s')
  obtain f u where k: "k = (f, u)" by (cases k)
  have v: "RT_VALID_PTR f"
    using 3(2) by (auto simp: k ntf_del_def RTMpNotificationDeregister_def split: if_splits)
  show ?case
  proof (rule RTMpNotificationDeregister_ok [OF conjunct1 [OF 3(1)] conjunct2 [OF 3(1)] v, of u 0], goal_cases)
    case (1 st')
    have "(f, u) \<in> set (ntf_keys s) \<and> s' = st'" using 3(2) 1(1) by (auto simp: k ntf_del_def split: if_splits)
    then show ?case using 1 by (simp add: k)
  qed
qed

subsection \<open>Properties\<close>

text \<open>
  C27: signalling an event ends, and never reads a freed record, whatever the callbacks and other
  threads do to the list meanwhile, as long as they leave it well formed, make nothing due and count
  their changes in the generation. No callback is called twice, only registered ones are called, and
  every one that stays registered is called, unless the list was torn down, which is reported.
\<close>

theorem RTPowerSignalEvent_once:
  assumes "ntf_ok st" "ntf_fLock st"
    and "\<And>cs s. ntf_ok s \<Longrightarrow> ntf_fLock s \<Longrightarrow> ntf_mod (unat (ntf_iDoneBit st + 1) mod 64) s (env cs s)"
    and "\<And>k cs s. k \<in> K \<Longrightarrow> ntf_ok s \<Longrightarrow> ntf_fLock s \<Longrightarrow> k \<in> ntf_todo (unat (ntf_iDoneBit st + 1) mod 64) s \<Longrightarrow>
           k \<in> ntf_todo (unat (ntf_iDoneBit st + 1) mod 64) (env cs s)"
  shows "\<exists>rc calls st'. RTPowerSignalEvent env st = Some (rc, calls, st') \<and>
    distinct calls \<and> set calls \<subseteq> set (ntf_keys st) \<and>
    (if ntf_fLock st' then rc = VINF_SUCCESS \<and> ntf_ok st' \<and> K \<inter> set (ntf_keys st) \<subseteq> set calls
     else rc = VERR_ACCESS_DENIED)"
proof -
  let ?i = "unat (ntf_iDoneBit st + 1) mod 64"
  have i: "?i < 64" by simp
  define h where "h = (\<lambda>p. if p \<in> set (ntf_list st)
       then map_option (\<lambda>r. r\<lparr>nr_bmDone := unset_bit ?i (nr_bmDone r)\<rparr>) (ntf_recs st p) else ntf_recs st p)"
  let ?st = "st\<lparr>ntf_iDoneBit := ntf_iDoneBit st + 1, ntf_recs := h\<rparr>"
  note C = ntf_cleared_ok [OF assms(1) h_def, of "ntf_iDoneBit st + 1"]
  have c: "ntf_clear ?i (ntf_recs st) (ntf_list st) = Some h"
    unfolding h_def by (rule ntf_clear_ok) (use assms(1) in \<open>simp add: ntf_ok_def\<close>)
  have e: "RTPowerSignalEvent env st = ntf_walk env ?i (ntf_iGeneration ?st) (case ntf_list st of [] \<Rightarrow> 0 | p # _ \<Rightarrow> p) [] ?st"
    using assms(2) c by (simp add: RTPowerSignalEvent_def Let_def ntf_head_def)
  have "\<exists>rc cs st'. ntf_walk env ?i (ntf_iGeneration ?st) (case ntf_list st of [] \<Rightarrow> 0 | p # _ \<Rightarrow> p) [] ?st = Some (rc, [] @ cs, st') \<and>
       distinct ([] @ cs) \<and> set cs \<subseteq> ntf_todo ?i ?st \<and>
       (if ntf_fLock st' then rc = VINF_SUCCESS \<and> ntf_ok st' \<and> K \<inter> ntf_todo ?i ?st \<subseteq> set cs else rc = VERR_ACCESS_DENIED)"
    by (rule ntf_walk_ok [OF i assms(3,4), where ps = "[]"]) (use C assms(2) in auto)
  then show ?thesis unfolding e C(3) by simp
qed

text \<open>
  C28: registering a callback refines adding to a list of registrations: a duplicate is refused
  without a change, so is a lack of memory, and otherwise the registration goes to the end of what
  the list is when the lock is taken again, provided no other thread registered it in between.
\<close>

theorem RTMpNotificationRegister_refines:
  assumes "ntf_ok st" "ntf_fLock st" "RT_VALID_PTR f" "ntf_ok (gap st)" "ntf_fLock (gap st)"
    and "pNew \<noteq> 0 \<longrightarrow> ntf_recs (gap st) pNew = None"
    and "(f, u) \<in> set (ntf_keys (gap st)) \<longrightarrow> (f, u) \<in> set (ntf_keys st)"
  shows "\<exists>rc st'. RTMpNotificationRegister gap st f u pNew = Some (rc, st') \<and> ntf_ok st' \<and> ntf_fLock st' \<and>
    (if (f, u) \<in> set (ntf_keys st) then rc = VERR_ALREADY_EXISTS \<and> st' = st
     else if pNew = 0 then rc = VERR_NO_MEMORY \<and> st' = gap st
     else rc = VINF_SUCCESS \<and> ntf_keys st' = ntf_keys (gap st) @ [(f, u)])"
proof -
  let ?st = "(gap st)\<lparr>
     ntf_recs := (ntf_recs (gap st))(pNew \<mapsto> \<lparr>nr_pfnCallback = f, nr_pvUser = u, nr_bmDone = 0xffffffffffffffff\<rparr>),
     ntf_list := ntf_list (gap st) @ [pNew], ntf_iGeneration := ntf_iGeneration (gap st) + 1\<rparr>"
  have e: "RTMpNotificationRegister gap st f u pNew =
     (if (f, u) \<in> set (ntf_keys st) then Some (VERR_ALREADY_EXISTS, st)
      else if pNew = 0 then Some (VERR_NO_MEMORY, gap st) else Some (VINF_SUCCESS, ?st))"
    by (rule RTMpNotificationRegister_ok [where gap = gap, OF assms(1-5)]) (use assms(6,7) in blast)+
  show ?thesis
  proof (cases "(f, u) \<in> set (ntf_keys st) \<or> pNew = 0")
    case True
    then show ?thesis unfolding e using assms(1,2,4,5) by auto
  next
    case False
    then have "pNew \<noteq> 0" "ntf_recs (gap st) pNew = None" "(f, u) \<notin> set (ntf_keys (gap st))" using assms(6,7) by auto
    note N = ntf_register_new [OF assms(4) this]
    show ?thesis unfolding e using False N(1,2) assms(5) by simp
  qed
qed

text \<open>
  C29: when another thread registers the same callback while the lock is dropped for the allocation,
  the second search finds its record, and it is that record, still linked, which is freed: the call
  reports the duplicate and leaves a list that holds a freed record, so the next search or event
  reads freed memory.
\<close>

theorem RTMpNotificationRegister_race:
  assumes "ntf_ok st" "ntf_fLock st" "RT_VALID_PTR f" "(f, u) \<notin> set (ntf_keys st)"
    and "ntf_ok (gap st)" "ntf_fLock (gap st)" "pNew \<noteq> 0" "ntf_recs (gap st) pNew = None"
    and "(f, u) \<in> set (ntf_keys (gap st))"
  shows "\<exists>st' p. RTMpNotificationRegister gap st f u pNew = Some (VERR_ALREADY_EXISTS, st') \<and>
    ntf_list st' = ntf_list (gap st) \<and> p \<in> set (ntf_list st') \<and> ntf_recs st' p = None \<and>
    RTPowerSignalEvent env st' = None"
proof -
  note F = ntf_find_ok [OF assms(1), of f u] and G = ntf_find_ok [OF assms(5), of f u]
  have key: "nr_key (the (ntf_recs st' p)) = nr_key r" if "ntf_recs st' p = Some r" for st' p r using that by simp
  have f0: "ntf_find st f u = Some None"
  proof (cases "ntf_find st f u")
    case None
    then show ?thesis using F by simp
  next
    case (Some x)
    have False if "x = Some pr" for pr
      using F Some that assms(4) key by (cases pr) (auto simp: ntf_keys_set)
    then show ?thesis using Some by (cases x) auto
  qed
  obtain p r where g: "ntf_find (gap st) f u = Some (Some (p, r))"
  proof (cases "ntf_find (gap st) f u")
    case None
    then show thesis using G by simp
  next
    case (Some x)
    then show thesis using that G assms(9) by (cases x) auto
  qed
  have p: "p \<in> set (ntf_list (gap st))" using G g by simp
  have l: "pNew \<notin> set (ntf_list (gap st))" using assms(5,8) by (auto simp: ntf_ok_def)
  let ?r = "\<lparr>nr_pfnCallback = f, nr_pvUser = u, nr_bmDone = 0xffffffffffffffff\<rparr>"
  let ?st = "(gap st)\<lparr>ntf_recs := ((ntf_recs (gap st))(pNew \<mapsto> ?r))(p := None), ntf_iGeneration := ntf_iGeneration (gap st) + 1\<rparr>"
  have e: "RTMpNotificationRegister gap st f u pNew = Some (VERR_ALREADY_EXISTS, ?st)"
    using f0 g assms(2,3,6,7) ntf_register_find [OF assms(5) l]
    by (simp add: RTMpNotificationRegister_def Let_def)
  have "RTPowerSignalEvent env ?st = None"
    using p assms(6) ntf_clear_freed [of p "ntf_list (gap st)"] by (simp add: RTPowerSignalEvent_def Let_def)
  then show ?thesis using e p by (intro exI [of _ ?st] exI [of _ p]) simp
qed

text \<open>Stopping frees every record of the list, once each.\<close>

lemma ntf_free_all_ok: "distinct ps \<Longrightarrow> set ps \<subseteq> dom h \<Longrightarrow> ntf_free_all h ps = Some (\<lambda>p. if p \<in> set ps then None else h p)"
proof (induction ps arbitrary: h)
  case (Cons p ps)
  then obtain r where r: "h p = Some r" by auto
  have "ntf_free_all (h(p := None)) ps = Some (\<lambda>q. if q \<in> set ps then None else (h(p := None)) q)"
    by (rule Cons.IH) (use Cons.prems in auto)
  then show ?case using r by (auto simp: fun_eq_iff)
qed simp

lemma rtR0MpNotificationTerm_ok:
  assumes "ntf_ok st" "ntf_fLock st"
  shows "\<exists>st'. rtR0MpNotificationTerm st = Some st' \<and> \<not> ntf_fLock st' \<and> ntf_list st' = [] \<and>
    ntf_recs st' = (\<lambda>p. if p \<in> set (ntf_list st) then None else ntf_recs st p)"
  using assms ntf_free_all_ok [of "ntf_list st" "ntf_recs st"] by (simp add: rtR0MpNotificationTerm_def ntf_ok_def)

subsection \<open>A concrete list\<close>

text \<open>
  Two callbacks are registered; while the first one runs, it deregisters itself and registers a third.
\<close>

definition ntf_ex :: RTNOTIFY where
  "ntf_ex = \<lparr>ntf_fLock = True, ntf_list = [0x10000, 0x20000],
     ntf_recs = [0x10000 \<mapsto> \<lparr>nr_pfnCallback = 0x5000, nr_pvUser = 1, nr_bmDone = 0xffffffffffffffff\<rparr>,
                 0x20000 \<mapsto> \<lparr>nr_pfnCallback = 0x6000, nr_pvUser = 2, nr_bmDone = 0xffffffffffffffff\<rparr>],
     ntf_iDoneBit = 4, ntf_iGeneration = 2\<rparr>"

definition ntf_ex_env :: notify_env where
  "ntf_ex_env calls st = snd (the (RTMpNotificationDeregister st 0x5000 1))"

lemma ntf_ex_ok: "ntf_ok ntf_ex" "ntf_fLock ntf_ex" "RT_VALID_PTR 0x5000" "RT_VALID_PTR 0x7000"
  by (auto simp: ntf_ok_def ntf_ex_def ntf_keys_def nr_key_def RT_VALID_PTR_def)

theorem RTPowerSignalEvent_once_witness:
  "\<exists>rc calls st'. RTPowerSignalEvent ntf_ex_env ntf_ex = Some (rc, calls, st') \<and> distinct calls \<and>
     set calls \<subseteq> set (ntf_keys ntf_ex)"
proof -
  have m: "ntf_mod (unat (ntf_iDoneBit ntf_ex + 1) mod 64) s (ntf_ex_env cs s)" if "ntf_ok s" "ntf_fLock s" for cs s
    unfolding ntf_ex_env_def by (rule ntf_mod_deregister [OF that ntf_ex_ok(3)])
  show ?thesis
    using RTPowerSignalEvent_once [where st = ntf_ex and env = ntf_ex_env and K = "{}", OF ntf_ex_ok(1,2) m] by blast
qed

theorem RTMpNotificationRegister_refines_witness:
  "\<exists>rc st'. RTMpNotificationRegister id ntf_ex 0x7000 3 0x30000 = Some (rc, st') \<and> ntf_ok st'"
proof -
  have "0x30000 \<noteq> (0::addr) \<longrightarrow> ntf_recs (id ntf_ex) 0x30000 = None" by (simp add: ntf_ex_def)
  from RTMpNotificationRegister_refines [where gap = id and u = 3, OF ntf_ex_ok(1,2,4) _ _ this] ntf_ex_ok(1,2)
  show ?thesis by auto
qed

theorem RTMpNotificationRegister_race_witness:
  "\<exists>st'. RTMpNotificationRegister (\<lambda>st. snd (the (RTMpNotificationRegister id st 0x7000 3 0x40000))) ntf_ex 0x7000 3 0x30000 =
     Some (VERR_ALREADY_EXISTS, st') \<and> \<not> set (ntf_list st') \<subseteq> dom (ntf_recs st')"
proof -
  let ?g = "\<lambda>st. snd (the (RTMpNotificationRegister id st 0x7000 3 0x40000))"
  let ?r = "\<lparr>nr_pfnCallback = 0x7000, nr_pvUser = 3, nr_bmDone = 0xffffffffffffffff\<rparr>"
  have n: "(0x7000, 3) \<notin> set (ntf_keys ntf_ex)" and r: "ntf_recs ntf_ex 0x40000 = None" "ntf_recs ntf_ex 0x30000 = None"
    by (simp_all add: ntf_ex_def ntf_keys_def nr_key_def)
  have g: "?g ntf_ex = ntf_ex\<lparr>ntf_recs := (ntf_recs ntf_ex)(0x40000 \<mapsto> ?r), ntf_list := ntf_list ntf_ex @ [0x40000],
      ntf_iGeneration := ntf_iGeneration ntf_ex + 1\<rparr>"
    using RTMpNotificationRegister_ok [OF ntf_ex_ok(1,2,4), of id "0x40000" 3] ntf_ex_ok(1,2) n r by simp
  note N = ntf_register_new [OF ntf_ex_ok(1) _ r(1) n]
  have k: "ntf_ok (?g ntf_ex)" "ntf_fLock (?g ntf_ex)" "ntf_recs (?g ntf_ex) 0x30000 = None"
    "(0x7000, 3) \<in> set (ntf_keys (?g ntf_ex))"
    unfolding g using N(1,2) ntf_ex_ok(2) r(2) by simp_all
  have "(0x30000 :: addr) \<noteq> 0" by simp
  from RTMpNotificationRegister_race [where gap = ?g, OF ntf_ex_ok(1,2,4) n k(1,2) this k(3,4)]
  show ?thesis by blast
qed

end
