(* ===== verification/RTMemObj.thy ===== *)
theory RTMemObj
  imports SupState
begin

text \<open>
  Ring-0 memory objects: the portable part of IPRT (Runtime/r0drv/memobj-r0drv.cpp and
  internal/memobj.h), with the functions that check a request, hand it to the host, keep the
  parent and child relation between an object and its mappings, and free objects. The host's part
  (\<open>rtR0MemObjNative*\<close>) is the parameter \<open>hst\<close>, a record with one function for each call.
  \<open>None\<close> is an access to a freed handle, a fatal assertion, or a second free of the same memory.
\<close>

named_theorems mo_defs \<open>definitions of the memory object functions\<close>

type_synonym memheap = "addr \<rightharpoonup> RTR0MEMOBJINTERNAL"
type_synonym native_result = "status \<times> addr \<times> RTR0MEMOBJINTERNAL"
type_synonym memobj_result = "status \<times> addr \<times> memheap"

record r0host =
  hst_AllocPage :: "memheap \<Rightarrow> u64 \<Rightarrow> bool \<Rightarrow> native_result"
  hst_AllocLow :: "memheap \<Rightarrow> u64 \<Rightarrow> bool \<Rightarrow> native_result"
  hst_AllocCont :: "memheap \<Rightarrow> u64 \<Rightarrow> bool \<Rightarrow> native_result"
  hst_AllocPhys :: "memheap \<Rightarrow> u64 \<Rightarrow> u64 \<Rightarrow> u64 \<Rightarrow> native_result"
  hst_AllocPhysNC :: "memheap \<Rightarrow> u64 \<Rightarrow> u64 \<Rightarrow> native_result"
  hst_EnterPhys :: "memheap \<Rightarrow> u64 \<Rightarrow> u64 \<Rightarrow> u32 \<Rightarrow> native_result"
  hst_LockUser :: "memheap \<Rightarrow> addr \<Rightarrow> u64 \<Rightarrow> u32 \<Rightarrow> addr \<Rightarrow> native_result"
  hst_LockKernel :: "memheap \<Rightarrow> addr \<Rightarrow> u64 \<Rightarrow> u32 \<Rightarrow> native_result"
  hst_ReserveKernel :: "memheap \<Rightarrow> addr \<Rightarrow> u64 \<Rightarrow> u64 \<Rightarrow> native_result"
  hst_ReserveUser :: "memheap \<Rightarrow> addr \<Rightarrow> u64 \<Rightarrow> u64 \<Rightarrow> addr \<Rightarrow> native_result"
  hst_MapKernel :: "memheap \<Rightarrow> RTR0MEMOBJINTERNAL \<Rightarrow> addr \<Rightarrow> u64 \<Rightarrow> u32 \<Rightarrow> u64 \<Rightarrow> u64 \<Rightarrow> native_result"
  hst_MapUser :: "memheap \<Rightarrow> RTR0MEMOBJINTERNAL \<Rightarrow> addr \<Rightarrow> u64 \<Rightarrow> u32 \<Rightarrow> addr \<Rightarrow> native_result"
  hst_Free :: "RTR0MEMOBJINTERNAL \<Rightarrow> status"
  hst_Protect :: "RTR0MEMOBJINTERNAL \<Rightarrow> u64 \<Rightarrow> u64 \<Rightarrow> u32 \<Rightarrow> status"
  hst_GetPagePhysAddr :: "RTR0MEMOBJINTERNAL \<Rightarrow> u64 \<Rightarrow> u64"
  hst_Realloc :: "memheap \<Rightarrow> bool"
  hst_Self :: addr

subsection \<open>Constants\<close>

abbreviation NIL_RTR0PROCESS :: addr where "NIL_RTR0PROCESS \<equiv> 0xffffffffffffffff"
abbreviation NIL_RTHCPHYS :: u64 where "NIL_RTHCPHYS \<equiv> 0xffffffffffffffff"
abbreviation (input) RTMEM_PROT_NONE :: u32 where "RTMEM_PROT_NONE \<equiv> 0"
abbreviation (input) RTMEM_PROT_RW :: u32 where "RTMEM_PROT_RW \<equiv> 3"
abbreviation (input) RTMEM_PROT_RWX :: u32 where "RTMEM_PROT_RWX \<equiv> 7"
abbreviation SZ_2M :: u64 where "SZ_2M \<equiv> 0x200000"
abbreviation SZ_4M :: u64 where "SZ_4M \<equiv> 0x400000"
abbreviation SZ_1G :: u64 where "SZ_1G \<equiv> 0x40000000"

definition RT_ALIGN_Z :: "u64 \<Rightarrow> u64" where
  "RT_ALIGN_Z cb = (cb + 0xfff) AND NOT 0xfff"

subsection \<open>Reading objects\<close>

definition rtR0MemObjIsMapping :: "RTR0MEMOBJINTERNAL \<Rightarrow> bool" where
  "rtR0MemObjIsMapping m = (mo_enmType m = RTR0MEMOBJTYPE_MAPPING)"

definition rtR0MemObjIsProtectable :: "RTR0MEMOBJINTERNAL \<Rightarrow> bool" where
  "rtR0MemObjIsProtectable m =
     (case mo_enmType m of
        RTR0MEMOBJTYPE_MAPPING \<Rightarrow> True
      | RTR0MEMOBJTYPE_PAGE \<Rightarrow> True
      | RTR0MEMOBJTYPE_LOW \<Rightarrow> True
      | RTR0MEMOBJTYPE_CONT \<Rightarrow> True
      | _ \<Rightarrow> False)"

text \<open>The validation of a handle: a bad pointer gives \<open>d\<close>, a freed handle is read.\<close>

definition mo_valid :: "memheap \<Rightarrow> addr \<Rightarrow> 'a \<Rightarrow> (RTR0MEMOBJINTERNAL \<Rightarrow> 'a option) \<Rightarrow> 'a option" where
  "mo_valid h p d f =
     (if \<not> RT_VALID_PTR p then Some d
      else case h p of None \<Rightarrow> None | Some m \<Rightarrow> f m)"

definition RTR0MemObjIsMapping :: "memheap \<Rightarrow> addr \<Rightarrow> bool option" where
  [mo_defs]: "RTR0MemObjIsMapping h p = mo_valid h p False (\<lambda>m. Some (rtR0MemObjIsMapping m))"

definition RTR0MemObjAddress :: "memheap \<Rightarrow> addr \<Rightarrow> addr option" where
  [mo_defs]: "RTR0MemObjAddress h p =
     (if p = 0 then Some 0 else mo_valid h p 0 (\<lambda>m. Some (mo_pv m)))"

definition RTR0MemObjAddressR3 :: "memheap \<Rightarrow> addr \<Rightarrow> addr option" where
  [mo_defs]: "RTR0MemObjAddressR3 h p =
     (if p = 0 then Some 0
      else mo_valid h p 0 (\<lambda>m.
        if (mo_enmType m \<noteq> RTR0MEMOBJTYPE_MAPPING \<or> mo_R0Process m = NIL_RTR0PROCESS) \<and>
           (mo_enmType m \<noteq> RTR0MEMOBJTYPE_LOCK \<or> mo_R0Process m = NIL_RTR0PROCESS) \<and>
           (mo_enmType m \<noteq> RTR0MEMOBJTYPE_PHYS_NC \<or> mo_R0Process m = NIL_RTR0PROCESS) \<and>
           (mo_enmType m \<noteq> RTR0MEMOBJTYPE_RES_VIRT \<or> mo_R0Process m = NIL_RTR0PROCESS)
        then Some 0
        else Some (mo_pv m)))"

definition RTR0MemObjSize :: "memheap \<Rightarrow> addr \<Rightarrow> u64 option" where
  [mo_defs]: "RTR0MemObjSize h p =
     (if p = 0 then Some 0 else mo_valid h p 0 (\<lambda>m. Some (mo_cb m)))"

definition RTR0MemObjGetPagePhysAddr :: "r0host \<Rightarrow> memheap \<Rightarrow> addr \<Rightarrow> u64 \<Rightarrow> u64 option" where
  [mo_defs]: "RTR0MemObjGetPagePhysAddr hst h p iPage =
     mo_valid h p NIL_RTHCPHYS (\<lambda>m.
       let cPages = drop_bit PAGE_SHIFT (mo_cb m)
       in if cPages \<le> iPage then Some NIL_RTHCPHYS
          else if mo_enmType m = RTR0MEMOBJTYPE_CONT then Some (mo_Phys m + iPage * PAGE_SIZE)
          else if mo_enmType m = RTR0MEMOBJTYPE_PHYS then Some (mo_Phys m + iPage * PAGE_SIZE)
          else Some (hst_GetPagePhysAddr hst m iPage))"

subsection \<open>Creating objects\<close>

text \<open>
  \<open>mo_new\<close> stores what the host made; \<open>*pMemObj\<close> stays NIL when it failed. The driver passes the
  address of a local variable for \<open>pMemObj\<close>, so its check is left out.
\<close>

definition mo_new :: "memheap \<Rightarrow> native_result \<Rightarrow> memobj_result" where
  "mo_new h r = (case r of (rc, p, m) \<Rightarrow> if RT_SUCCESS rc then (rc, p, h(p \<mapsto> m)) else (rc, 0, h))"

abbreviation mo_fail :: "memheap \<Rightarrow> status \<Rightarrow> memobj_result" where "mo_fail h rc \<equiv> (rc, 0, h)"

definition RTR0MemObjAllocPage :: "r0host \<Rightarrow> memheap \<Rightarrow> u64 \<Rightarrow> bool \<Rightarrow> memobj_result" where
  [mo_defs]: "RTR0MemObjAllocPage hst h cb fExecutable =
     (if \<not> 0 < cb then mo_fail h VERR_INVALID_PARAMETER
      else if \<not> cb \<le> RT_ALIGN_Z cb then mo_fail h VERR_INVALID_PARAMETER
      else mo_new h (hst_AllocPage hst h (RT_ALIGN_Z cb) fExecutable))"

definition RTR0MemObjAllocLow :: "r0host \<Rightarrow> memheap \<Rightarrow> u64 \<Rightarrow> bool \<Rightarrow> memobj_result" where
  [mo_defs]: "RTR0MemObjAllocLow hst h cb fExecutable =
     (if \<not> 0 < cb then mo_fail h VERR_INVALID_PARAMETER
      else if \<not> cb \<le> RT_ALIGN_Z cb then mo_fail h VERR_INVALID_PARAMETER
      else mo_new h (hst_AllocLow hst h (RT_ALIGN_Z cb) fExecutable))"

definition RTR0MemObjAllocCont :: "r0host \<Rightarrow> memheap \<Rightarrow> u64 \<Rightarrow> bool \<Rightarrow> memobj_result" where
  [mo_defs]: "RTR0MemObjAllocCont hst h cb fExecutable =
     (if \<not> 0 < cb then mo_fail h VERR_INVALID_PARAMETER
      else if \<not> cb \<le> RT_ALIGN_Z cb then mo_fail h VERR_INVALID_PARAMETER
      else mo_new h (hst_AllocCont hst h (RT_ALIGN_Z cb) fExecutable))"

definition RTR0MemObjLockUser :: "r0host \<Rightarrow> memheap \<Rightarrow> addr \<Rightarrow> u64 \<Rightarrow> u32 \<Rightarrow> addr \<Rightarrow> memobj_result" where
  [mo_defs]: "RTR0MemObjLockUser hst h R3Ptr cb fAccess R0Process =
     (let cbAligned = RT_ALIGN_Z (cb + (R3Ptr AND 0xfff));
          R3PtrAligned = R3Ptr AND NOT 0xfff;
          R0Process' = (if R0Process = NIL_RTR0PROCESS then hst_Self hst else R0Process)
      in if \<not> 0 < cb then mo_fail h VERR_INVALID_PARAMETER
         else if \<not> cb \<le> cbAligned then mo_fail h VERR_INVALID_PARAMETER
         else if fAccess AND NOT RTMEM_PROT_RW \<noteq> 0 then mo_fail h VERR_INVALID_PARAMETER
         else if fAccess = 0 then mo_fail h VERR_INVALID_PARAMETER
         else mo_new h (hst_LockUser hst h R3PtrAligned cbAligned fAccess R0Process'))"

definition RTR0MemObjLockKernel :: "r0host \<Rightarrow> memheap \<Rightarrow> addr \<Rightarrow> u64 \<Rightarrow> u32 \<Rightarrow> memobj_result" where
  [mo_defs]: "RTR0MemObjLockKernel hst h pv cb fAccess =
     (let cbAligned = RT_ALIGN_Z (cb + (pv AND 0xfff));
          pvAligned = pv AND NOT 0xfff
      in if \<not> 0 < cb then mo_fail h VERR_INVALID_PARAMETER
         else if \<not> cb \<le> cbAligned then mo_fail h VERR_INVALID_PARAMETER
         else if \<not> RT_VALID_PTR pvAligned then mo_fail h VERR_INVALID_POINTER
         else if fAccess AND NOT RTMEM_PROT_RW \<noteq> 0 then mo_fail h VERR_INVALID_PARAMETER
         else if fAccess = 0 then mo_fail h VERR_INVALID_PARAMETER
         else mo_new h (hst_LockKernel hst h pvAligned cbAligned fAccess))"

definition RTR0MemObjAllocPhysEx :: "r0host \<Rightarrow> memheap \<Rightarrow> u64 \<Rightarrow> u64 \<Rightarrow> u64 \<Rightarrow> memobj_result" where
  [mo_defs]: "RTR0MemObjAllocPhysEx hst h cb PhysHighest uAlignment =
     (let uAlignment' = (if uAlignment = 0 then PAGE_SIZE else uAlignment)
      in if \<not> 0 < cb then mo_fail h VERR_INVALID_PARAMETER
         else if \<not> cb \<le> RT_ALIGN_Z cb then mo_fail h VERR_INVALID_PARAMETER
         else if \<not> cb \<le> PhysHighest then mo_fail h VERR_INVALID_PARAMETER
         else if uAlignment' \<notin> {PAGE_SIZE, SZ_2M, SZ_4M, SZ_1G} then mo_fail h VERR_INVALID_PARAMETER
         else mo_new h (hst_AllocPhys hst h (RT_ALIGN_Z cb) PhysHighest uAlignment'))"

definition RTR0MemObjAllocPhys :: "r0host \<Rightarrow> memheap \<Rightarrow> u64 \<Rightarrow> u64 \<Rightarrow> memobj_result" where
  [mo_defs]: "RTR0MemObjAllocPhys hst h cb PhysHighest =
     (if \<not> 0 < cb then mo_fail h VERR_INVALID_PARAMETER
      else if \<not> cb \<le> RT_ALIGN_Z cb then mo_fail h VERR_INVALID_PARAMETER
      else if \<not> cb \<le> PhysHighest then mo_fail h VERR_INVALID_PARAMETER
      else mo_new h (hst_AllocPhys hst h (RT_ALIGN_Z cb) PhysHighest PAGE_SIZE))"

definition RTR0MemObjAllocPhysNC :: "r0host \<Rightarrow> memheap \<Rightarrow> u64 \<Rightarrow> u64 \<Rightarrow> memobj_result" where
  [mo_defs]: "RTR0MemObjAllocPhysNC hst h cb PhysHighest =
     (if \<not> 0 < cb then mo_fail h VERR_INVALID_PARAMETER
      else if \<not> cb \<le> RT_ALIGN_Z cb then mo_fail h VERR_INVALID_PARAMETER
      else if \<not> cb \<le> PhysHighest then mo_fail h VERR_INVALID_PARAMETER
      else mo_new h (hst_AllocPhysNC hst h (RT_ALIGN_Z cb) PhysHighest))"

text \<open>Cache policies: 0 is don't care, 1 is MMIO.\<close>

definition RTR0MemObjEnterPhys :: "r0host \<Rightarrow> memheap \<Rightarrow> u64 \<Rightarrow> u64 \<Rightarrow> u32 \<Rightarrow> memobj_result" where
  [mo_defs]: "RTR0MemObjEnterPhys hst h Phys cb uCachePolicy =
     (let cbAligned = RT_ALIGN_Z (cb + (Phys AND 0xfff));
          PhysAligned = Phys AND NOT 0xfff
      in if \<not> 0 < cb then mo_fail h VERR_INVALID_PARAMETER
         else if \<not> cb \<le> cbAligned then mo_fail h VERR_INVALID_PARAMETER
         else if Phys = NIL_RTHCPHYS then mo_fail h VERR_INVALID_PARAMETER
         else if uCachePolicy \<notin> {0, 1} then mo_fail h VERR_INVALID_PARAMETER
         else mo_new h (hst_EnterPhys hst h PhysAligned cbAligned uCachePolicy))"

definition RTR0MemObjReserveKernel :: "r0host \<Rightarrow> memheap \<Rightarrow> addr \<Rightarrow> u64 \<Rightarrow> u64 \<Rightarrow> memobj_result" where
  [mo_defs]: "RTR0MemObjReserveKernel hst h pvFixed cb uAlignment =
     (let uAlignment' = (if uAlignment = 0 then PAGE_SIZE else uAlignment)
      in if uAlignment' \<notin> {PAGE_SIZE, SZ_2M, SZ_4M} then mo_fail h VERR_INVALID_PARAMETER
         else if \<not> 0 < cb then mo_fail h VERR_INVALID_PARAMETER
         else if \<not> cb \<le> RT_ALIGN_Z cb then mo_fail h VERR_INVALID_PARAMETER
         else if pvFixed \<noteq> 0xffffffffffffffff \<and> pvFixed AND (uAlignment' - 1) \<noteq> 0 then mo_fail h VERR_INVALID_PARAMETER
         else mo_new h (hst_ReserveKernel hst h pvFixed (RT_ALIGN_Z cb) uAlignment'))"

definition RTR0MemObjReserveUser :: "r0host \<Rightarrow> memheap \<Rightarrow> addr \<Rightarrow> u64 \<Rightarrow> u64 \<Rightarrow> addr \<Rightarrow> memobj_result" where
  [mo_defs]: "RTR0MemObjReserveUser hst h R3PtrFixed cb uAlignment R0Process =
     (let uAlignment' = (if uAlignment = 0 then PAGE_SIZE else uAlignment);
          R0Process' = (if R0Process = NIL_RTR0PROCESS then hst_Self hst else R0Process)
      in if uAlignment' \<notin> {PAGE_SIZE, SZ_2M, SZ_4M} then mo_fail h VERR_INVALID_PARAMETER
         else if \<not> 0 < cb then mo_fail h VERR_INVALID_PARAMETER
         else if \<not> cb \<le> RT_ALIGN_Z cb then mo_fail h VERR_INVALID_PARAMETER
         else if R3PtrFixed \<noteq> 0xffffffffffffffff \<and> R3PtrFixed AND (uAlignment' - 1) \<noteq> 0 then mo_fail h VERR_INVALID_PARAMETER
         else mo_new h (hst_ReserveUser hst h R3PtrFixed (RT_ALIGN_Z cb) uAlignment' R0Process'))"

subsection \<open>Mappings\<close>

text \<open>\<open>fRealloc\<close> says whether the array of the parent can grow; it grows by 32 entries.\<close>

definition rtR0MemObjLink :: "bool \<Rightarrow> memheap \<Rightarrow> addr \<Rightarrow> addr \<Rightarrow> (status \<times> memheap) option" where
  [mo_defs]: "rtR0MemObjLink fRealloc h pParent pChild =
     (case h pParent of None \<Rightarrow> None | Some P \<Rightarrow>
      case h pChild of None \<Rightarrow> None | Some C \<Rightarrow>
        let i = of_nat (length (mo_papMappings P)) :: u32;
            fGrow = (mo_cMappingsAllocated P \<le> i)
        in if fGrow \<and> \<not> fRealloc then Some (VERR_NO_MEMORY, h)
           else
             let cAllocated = (if fGrow then i + 32 else mo_cMappingsAllocated P);
                 P' = P\<lparr>mo_cMappingsAllocated := cAllocated, mo_papMappings := mo_papMappings P @ [pChild]\<rparr>
             in Some (VINF_SUCCESS, h(pParent \<mapsto> P', pChild \<mapsto> C\<lparr>mo_pParent := pParent\<rparr>)))"

text \<open>What both mapping functions do with the host's answer: link the child or destroy it again.\<close>

definition mo_map :: "r0host \<Rightarrow> memheap \<Rightarrow> addr \<Rightarrow> native_result \<Rightarrow> memobj_result option" where
  [mo_defs]: "mo_map hst h pParent r =
     (case r of (rc, pNew, m) \<Rightarrow>
        if RT_SUCCESS rc then
          let h1 = h(pNew \<mapsto> m)
          in (case rtR0MemObjLink (hst_Realloc hst h1) h1 pParent pNew of
                None \<Rightarrow> None
              | Some (rc', h2) \<Rightarrow>
                  if RT_SUCCESS rc' then Some (rc', pNew, h2) else Some (rc', 0, h2(pNew := None)))
        else Some (rc, 0, h))"

definition RTR0MemObjMapKernelEx ::
  "r0host \<Rightarrow> memheap \<Rightarrow> addr \<Rightarrow> addr \<Rightarrow> u64 \<Rightarrow> u32 \<Rightarrow> u64 \<Rightarrow> u64 \<Rightarrow> memobj_result option" where
  [mo_defs]: "RTR0MemObjMapKernelEx hst h MemObjToMap pvFixed uAlignment fProt offSub cbSub =
     mo_valid h MemObjToMap (mo_fail h VERR_INVALID_HANDLE) (\<lambda>m.
       let uAlignment' = (if uAlignment = 0 then PAGE_SIZE else uAlignment)
       in if rtR0MemObjIsMapping m then Some (mo_fail h VERR_INVALID_PARAMETER)
          else if mo_enmType m = RTR0MEMOBJTYPE_RES_VIRT then Some (mo_fail h VERR_INVALID_PARAMETER)
          else if uAlignment' \<notin> {PAGE_SIZE, SZ_2M, SZ_4M} then Some (mo_fail h VERR_INVALID_PARAMETER)
          else if pvFixed \<noteq> 0xffffffffffffffff \<and> pvFixed AND (uAlignment' - 1) \<noteq> 0 then Some (mo_fail h VERR_INVALID_PARAMETER)
          else if fProt = RTMEM_PROT_NONE then Some (mo_fail h VERR_INVALID_PARAMETER)
          else if fProt AND NOT RTMEM_PROT_RWX \<noteq> 0 then Some (mo_fail h VERR_INVALID_PARAMETER)
          else if offSub AND 0xfff \<noteq> 0 then Some (mo_fail h VERR_INVALID_PARAMETER)
          else if \<not> offSub < mo_cb m then Some (mo_fail h VERR_INVALID_PARAMETER)
          else if cbSub AND 0xfff \<noteq> 0 then Some (mo_fail h VERR_INVALID_PARAMETER)
          else if \<not> cbSub \<le> mo_cb m then Some (mo_fail h VERR_INVALID_PARAMETER)
          else if \<not> ((offSub = 0 \<and> cbSub = 0) \<or> offSub + cbSub \<le> mo_cb m) then Some (mo_fail h VERR_INVALID_PARAMETER)
          else
            let cbSub' = (if offSub = 0 \<and> cbSub = mo_cb m then 0 else cbSub)
            in mo_map hst h MemObjToMap (hst_MapKernel hst h m pvFixed uAlignment' fProt offSub cbSub'))"

definition RTR0MemObjMapKernel ::
  "r0host \<Rightarrow> memheap \<Rightarrow> addr \<Rightarrow> addr \<Rightarrow> u64 \<Rightarrow> u32 \<Rightarrow> memobj_result option" where
  [mo_defs]: "RTR0MemObjMapKernel hst h MemObjToMap pvFixed uAlignment fProt =
     RTR0MemObjMapKernelEx hst h MemObjToMap pvFixed uAlignment fProt 0 0"

definition RTR0MemObjMapUser ::
  "r0host \<Rightarrow> memheap \<Rightarrow> addr \<Rightarrow> addr \<Rightarrow> u64 \<Rightarrow> u32 \<Rightarrow> addr \<Rightarrow> memobj_result option" where
  [mo_defs]: "RTR0MemObjMapUser hst h MemObjToMap R3PtrFixed uAlignment fProt R0Process =
     mo_valid h MemObjToMap (mo_fail h VERR_INVALID_HANDLE) (\<lambda>m.
       let uAlignment' = (if uAlignment = 0 then PAGE_SIZE else uAlignment);
           R0Process' = (if R0Process = NIL_RTR0PROCESS then hst_Self hst else R0Process)
       in if rtR0MemObjIsMapping m then Some (mo_fail h VERR_INVALID_PARAMETER)
          else if mo_enmType m = RTR0MEMOBJTYPE_RES_VIRT then Some (mo_fail h VERR_INVALID_PARAMETER)
          else if uAlignment' \<notin> {PAGE_SIZE, SZ_2M, SZ_4M} then Some (mo_fail h VERR_INVALID_PARAMETER)
          else if R3PtrFixed \<noteq> 0xffffffffffffffff \<and> R3PtrFixed AND (uAlignment' - 1) \<noteq> 0 then Some (mo_fail h VERR_INVALID_PARAMETER)
          else if fProt = RTMEM_PROT_NONE then Some (mo_fail h VERR_INVALID_PARAMETER)
          else if fProt AND NOT RTMEM_PROT_RWX \<noteq> 0 then Some (mo_fail h VERR_INVALID_PARAMETER)
          else mo_map hst h MemObjToMap (hst_MapUser hst h m R3PtrFixed uAlignment' fProt R0Process'))"

definition RTR0MemObjProtect ::
  "r0host \<Rightarrow> memheap \<Rightarrow> addr \<Rightarrow> u64 \<Rightarrow> u64 \<Rightarrow> u32 \<Rightarrow> (status \<times> memheap) option" where
  [mo_defs]: "RTR0MemObjProtect hst h p offSub cbSub fProt =
     mo_valid h p (VERR_INVALID_HANDLE, h) (\<lambda>m.
       if \<not> rtR0MemObjIsProtectable m then Some (VERR_INVALID_PARAMETER, h)
       else if offSub AND 0xfff \<noteq> 0 then Some (VERR_INVALID_PARAMETER, h)
       else if \<not> offSub < mo_cb m then Some (VERR_INVALID_PARAMETER, h)
       else if cbSub AND 0xfff \<noteq> 0 then Some (VERR_INVALID_PARAMETER, h)
       else if \<not> cbSub \<le> mo_cb m then Some (VERR_INVALID_PARAMETER, h)
       else if \<not> offSub + cbSub \<le> mo_cb m then Some (VERR_INVALID_PARAMETER, h)
       else if fProt AND NOT RTMEM_PROT_RWX \<noteq> 0 then Some (VERR_INVALID_PARAMETER, h)
       else
         let rc = hst_Protect hst m offSub cbSub fProt
         in if RT_SUCCESS rc then Some (rc, h(p \<mapsto> m\<lparr>mo_fProtChanged := True\<rparr>)) else Some (rc, h))"

subsection \<open>Freeing\<close>

text \<open>Removal from the parent's array: the last entry that is \<open>p\<close> is replaced by the last entry.\<close>

definition mo_unlink :: "addr \<Rightarrow> addr list \<Rightarrow> addr list" where
  "mo_unlink p xs =
     (if p \<in> set xs
      then butlast (xs[length xs - 1 - length (takeWhile (\<lambda>q. q \<noteq> p) (rev xs)) := last xs])
      else xs)"

text \<open>
  The loop over the mappings of an object, last one first (so the list is reversed): the memory of
  each child is given back, its handle is not. The first failure stops the loop.
\<close>

primrec mo_free_children :: "r0host \<Rightarrow> memheap \<Rightarrow> addr list \<Rightarrow> (status \<times> addr list \<times> memheap) option" where
  "mo_free_children hst h [] = Some (VINF_SUCCESS, [], h)"
| "mo_free_children hst h (c # cs) =
     (case h c of
        None \<Rightarrow> None
      | Some m \<Rightarrow>
          if \<not> rtR0MemObjIsMapping m \<or> \<not> mo_fNative m then None
          else if RT_FAILURE (hst_Free hst m) then Some (hst_Free hst m, c # cs, h)
          else mo_free_children hst (h(c \<mapsto> m\<lparr>mo_fNative := False\<rparr>)) cs)"

definition mo_free_self :: "r0host \<Rightarrow> memheap \<Rightarrow> addr \<Rightarrow> RTR0MEMOBJINTERNAL \<Rightarrow> (status \<times> memheap) option" where
  [mo_defs]: "mo_free_self hst h p m =
     (if \<not> mo_fNative m then None
      else if RT_SUCCESS (hst_Free hst m) then
        (if rtR0MemObjIsMapping m then
           (case h (mo_pParent m) of
              None \<Rightarrow> None
            | Some P \<Rightarrow>
                if rtR0MemObjIsMapping P \<or> mo_papMappings P = [] then None
                else Some (hst_Free hst m,
                       (h(mo_pParent m \<mapsto> P\<lparr>mo_papMappings := mo_unlink p (mo_papMappings P)\<rparr>))(p := None)))
         else Some (hst_Free hst m, h(p := None)))
      else Some (hst_Free hst m, h))"

definition RTR0MemObjFree :: "r0host \<Rightarrow> memheap \<Rightarrow> addr \<Rightarrow> bool \<Rightarrow> (status \<times> memheap) option" where
  [mo_defs]: "RTR0MemObjFree hst h p fFreeMappings =
     (if p = 0 then Some (VINF_SUCCESS, h)
      else mo_valid h p (VERR_INVALID_HANDLE, h) (\<lambda>m.
        if \<not> rtR0MemObjIsMapping m \<and> mo_papMappings m \<noteq> [] then
          (if \<not> fFreeMappings then Some (VERR_MEMORY_BUSY, h)
           else
             (case mo_free_children hst h (rev (mo_papMappings m)) of
                None \<Rightarrow> None
              | Some (rc, cs, h1) \<Rightarrow>
                  let m1 = m\<lparr>mo_papMappings := rev cs\<rparr>
                  in if RT_FAILURE rc then Some (rc, h1(p \<mapsto> m1))
                     else mo_free_self hst (h1(p \<mapsto> m1)) p m1))
        else mo_free_self hst h p m))"

subsection \<open>What the host promises\<close>

text \<open>
  The contract of internal/memobj.h: a call that succeeds gives the handle of a new object of the
  requested type and size, and a call that fails changes nothing. A kernel mapping of a part has to
  name its size when it names its offset.
\<close>

definition native_new :: "memheap \<Rightarrow> RTR0MEMOBJTYPE \<Rightarrow> u64 \<Rightarrow> native_result \<Rightarrow> bool" where
  "native_new h ty cb r \<longleftrightarrow>
     (case r of (rc, p, m) \<Rightarrow> RT_SUCCESS rc \<longrightarrow>
        RT_VALID_PTR p \<and> h p = None \<and> mo_enmType m = ty \<and> mo_cb m = cb \<and> mo_cMappingsAllocated m = 0 \<and>
        mo_papMappings m = [] \<and> mo_fNative m)"

definition host_ok :: "r0host \<Rightarrow> bool" where
  "host_ok hst \<longleftrightarrow>
     (\<forall>h cb f. native_new h RTR0MEMOBJTYPE_PAGE cb (hst_AllocPage hst h cb f)) \<and>
     (\<forall>h cb f. native_new h RTR0MEMOBJTYPE_LOW cb (hst_AllocLow hst h cb f)) \<and>
     (\<forall>h cb f. native_new h RTR0MEMOBJTYPE_CONT cb (hst_AllocCont hst h cb f)) \<and>
     (\<forall>h cb ph. native_new h RTR0MEMOBJTYPE_PHYS_NC cb (hst_AllocPhysNC hst h cb ph)) \<and>
     (\<forall>h p cb f r. native_new h RTR0MEMOBJTYPE_LOCK cb (hst_LockUser hst h p cb f r)) \<and>
     (\<forall>h m pv al f off cb. (off \<noteq> 0 \<longrightarrow> cb \<noteq> 0) \<longrightarrow>
        native_new h RTR0MEMOBJTYPE_MAPPING (if cb = 0 then mo_cb m else cb) (hst_MapKernel hst h m pv al f off cb)) \<and>
     (\<forall>h m pv al f r. native_new h RTR0MEMOBJTYPE_MAPPING (mo_cb m) (hst_MapUser hst h m pv al f r)) \<and>
     hst_Self hst \<noteq> NIL_RTR0PROCESS"

lemma host_okD:
  assumes "host_ok hst"
  shows "native_new h RTR0MEMOBJTYPE_PAGE cb (hst_AllocPage hst h cb fx)"
    "native_new h RTR0MEMOBJTYPE_LOW cb (hst_AllocLow hst h cb fx)"
    "native_new h RTR0MEMOBJTYPE_CONT cb (hst_AllocCont hst h cb fx)"
    "native_new h RTR0MEMOBJTYPE_PHYS_NC cb (hst_AllocPhysNC hst h cb ph)"
    "native_new h RTR0MEMOBJTYPE_LOCK cb (hst_LockUser hst h p cb f r)"
    "(off \<noteq> 0 \<longrightarrow> cb \<noteq> 0) \<Longrightarrow>
       native_new h RTR0MEMOBJTYPE_MAPPING (if cb = 0 then mo_cb m else cb) (hst_MapKernel hst h m pv al f off cb)"
    "native_new h RTR0MEMOBJTYPE_MAPPING (mo_cb m) (hst_MapUser hst h m pv al f r)"
    "hst_Self hst \<noteq> NIL_RTR0PROCESS"
proof -
  note d = assms [unfolded host_ok_def]
  show "native_new h RTR0MEMOBJTYPE_PAGE cb (hst_AllocPage hst h cb fx)"
    "native_new h RTR0MEMOBJTYPE_LOW cb (hst_AllocLow hst h cb fx)"
    "native_new h RTR0MEMOBJTYPE_CONT cb (hst_AllocCont hst h cb fx)"
    "native_new h RTR0MEMOBJTYPE_PHYS_NC cb (hst_AllocPhysNC hst h cb ph)"
    "native_new h RTR0MEMOBJTYPE_LOCK cb (hst_LockUser hst h p cb f r)"
    "native_new h RTR0MEMOBJTYPE_MAPPING (mo_cb m) (hst_MapUser hst h m pv al f r)"
    "hst_Self hst \<noteq> NIL_RTR0PROCESS"
    using d by simp_all
  assume o: "off \<noteq> 0 \<longrightarrow> cb \<noteq> 0"
  from d have "\<forall>h m pv al f off cb. (off \<noteq> 0 \<longrightarrow> cb \<noteq> 0) \<longrightarrow>
      native_new h RTR0MEMOBJTYPE_MAPPING (if cb = 0 then mo_cb m else cb) (hst_MapKernel hst h m pv al f off cb)"
    by (elim conjE)
  from this [THEN spec, THEN spec, THEN spec, THEN spec, THEN spec, THEN spec, THEN spec, THEN mp, OF o]
  show "native_new h RTR0MEMOBJTYPE_MAPPING (if cb = 0 then mo_cb m else cb) (hst_MapKernel hst h m pv al f off cb)" .
qed

subsection \<open>The invariant of the objects\<close>

text \<open>
  An object that is no mapping owns its memory and a duplicate free list of mappings, which point
  back to it; a mapping that still owns its memory is in the list of its parent.
\<close>

definition mo_inv :: "memheap \<Rightarrow> bool" where
  "mo_inv h \<longleftrightarrow> (\<forall>p m. h p = Some m \<longrightarrow> RT_VALID_PTR p \<and>
     (if rtR0MemObjIsMapping m
      then mo_fNative m \<longrightarrow> (\<exists>P. h (mo_pParent m) = Some P \<and> \<not> rtR0MemObjIsMapping P \<and> p \<in> set (mo_papMappings P))
      else mo_fNative m \<and> distinct (mo_papMappings m) \<and>
           (\<forall>c\<in>set (mo_papMappings m). \<exists>mc. h c = Some mc \<and> rtR0MemObjIsMapping mc \<and> mo_fNative mc \<and> mo_pParent mc = p)))"

lemma mo_invD:
  assumes "mo_inv h" "h p = Some m"
  shows "RT_VALID_PTR p" "p \<noteq> 0"
    "rtR0MemObjIsMapping m \<Longrightarrow> mo_fNative m \<Longrightarrow> \<exists>P. h (mo_pParent m) = Some P \<and> \<not> rtR0MemObjIsMapping P \<and> p \<in> set (mo_papMappings P)"
    "\<not> rtR0MemObjIsMapping m \<Longrightarrow> mo_fNative m" "\<not> rtR0MemObjIsMapping m \<Longrightarrow> distinct (mo_papMappings m)"
    "\<not> rtR0MemObjIsMapping m \<Longrightarrow> c \<in> set (mo_papMappings m) \<Longrightarrow>
       \<exists>mc. h c = Some mc \<and> rtR0MemObjIsMapping mc \<and> mo_fNative mc \<and> mo_pParent mc = p"
proof -
  have i: "RT_VALID_PTR p \<and>
     (if rtR0MemObjIsMapping m
      then mo_fNative m \<longrightarrow> (\<exists>P. h (mo_pParent m) = Some P \<and> \<not> rtR0MemObjIsMapping P \<and> p \<in> set (mo_papMappings P))
      else mo_fNative m \<and> distinct (mo_papMappings m) \<and>
           (\<forall>c\<in>set (mo_papMappings m). \<exists>mc. h c = Some mc \<and> rtR0MemObjIsMapping mc \<and> mo_fNative mc \<and> mo_pParent mc = p))"
    using assms unfolding mo_inv_def by blast
  then show "RT_VALID_PTR p" ..
  then show "p \<noteq> 0" by auto
  show "rtR0MemObjIsMapping m \<Longrightarrow> mo_fNative m \<Longrightarrow> \<exists>P. h (mo_pParent m) = Some P \<and> \<not> rtR0MemObjIsMapping P \<and> p \<in> set (mo_papMappings P)"
    "\<not> rtR0MemObjIsMapping m \<Longrightarrow> mo_fNative m" "\<not> rtR0MemObjIsMapping m \<Longrightarrow> distinct (mo_papMappings m)"
    "\<not> rtR0MemObjIsMapping m \<Longrightarrow> c \<in> set (mo_papMappings m) \<Longrightarrow>
       \<exists>mc. h c = Some mc \<and> rtR0MemObjIsMapping mc \<and> mo_fNative mc \<and> mo_pParent mc = p"
    using i by (simp_all split: if_splits)
qed

lemma mo_valid_ok: "mo_inv h \<Longrightarrow> h p = Some m \<Longrightarrow> mo_valid h p d f = f m"
  using mo_invD(1) [of h p m] by (simp add: mo_valid_def)

lemma mo_read_ok:
  assumes "mo_inv h" "h p = Some m"
  shows "RTR0MemObjAddress h p = Some (mo_pv m)" "RTR0MemObjSize h p = Some (mo_cb m)"
    "RTR0MemObjIsMapping h p = Some (rtR0MemObjIsMapping m)"
    "\<exists>a. RTR0MemObjAddressR3 h p = Some a"
    "\<exists>a. RTR0MemObjGetPagePhysAddr hst h p i = Some a"
  using mo_invD(2) [OF assms] by (simp_all add: mo_defs mo_valid_ok [OF assms] Let_def)

lemma mo_unlink_ok:
  assumes "distinct xs" "p \<in> set xs"
  shows "distinct (mo_unlink p xs)" "set (mo_unlink p xs) = set xs - {p}"
proof -
  obtain ys zs where e: "xs = ys @ p # zs" using assms(2) by (meson split_list)
  have nz: "p \<notin> set zs" using assms(1) e by simp
  have t: "takeWhile (\<lambda>q. q \<noteq> p) (rev zs @ p # rev ys) = rev zs @ takeWhile (\<lambda>q. q \<noteq> p) (p # rev ys)"
    by (rule takeWhile_append2) (use nz in auto)
  have "length xs - 1 - length (takeWhile (\<lambda>q. q \<noteq> p) (rev xs)) = length ys"
    unfolding e using t by simp
  then have u: "mo_unlink p xs = butlast (ys @ last xs # zs)"
    using assms(2) by (simp add: mo_unlink_def e)
  have "distinct (mo_unlink p xs) \<and> set (mo_unlink p xs) = set xs - {p}"
  proof (cases zs rule: rev_cases)
    case Nil
    then show ?thesis using assms(1) unfolding u by (auto simp: e)
  next
    case (snoc zs' z)
    then have "mo_unlink p xs = ys @ z # zs'" unfolding u by (simp add: e butlast_append)
    then show ?thesis using assms(1) by (auto simp: e snoc)
  qed
  then show "distinct (mo_unlink p xs)" "set (mo_unlink p xs) = set xs - {p}" by auto
qed

lemma mo_invI:
  assumes "\<And>p m. h p = Some m \<Longrightarrow> RT_VALID_PTR p"
    and "\<And>p m. h p = Some m \<Longrightarrow> rtR0MemObjIsMapping m \<Longrightarrow> mo_fNative m \<Longrightarrow>
           \<exists>P. h (mo_pParent m) = Some P \<and> \<not> rtR0MemObjIsMapping P \<and> p \<in> set (mo_papMappings P)"
    and "\<And>p m. h p = Some m \<Longrightarrow> \<not> rtR0MemObjIsMapping m \<Longrightarrow> mo_fNative m \<and> distinct (mo_papMappings m)"
    and "\<And>p m c. h p = Some m \<Longrightarrow> \<not> rtR0MemObjIsMapping m \<Longrightarrow> c \<in> set (mo_papMappings m) \<Longrightarrow>
           \<exists>mc. h c = Some mc \<and> rtR0MemObjIsMapping mc \<and> mo_fNative mc \<and> mo_pParent mc = p"
  shows "mo_inv h"
  unfolding mo_inv_def using assms by (simp split: if_split)

text \<open>Creating an object that is no mapping\<close>

lemma mo_new_ok:
  assumes "mo_inv h" "native_new h ty cb r" "ty \<noteq> RTR0MEMOBJTYPE_MAPPING" "mo_new h r = (rc, p, h')"
  shows "mo_inv h'"
    "if RT_SUCCESS rc
     then \<exists>m. RT_VALID_PTR p \<and> h p = None \<and> h' = h(p \<mapsto> m) \<and> mo_enmType m = ty \<and> mo_cb m = cb \<and>
            mo_papMappings m = [] \<and> mo_fNative m
     else p = 0 \<and> h' = h"
proof -
  obtain rc0 p0 m where r: "r = (rc0, p0, m)" by (cases r)
  show c: "if RT_SUCCESS rc
     then \<exists>m. RT_VALID_PTR p \<and> h p = None \<and> h' = h(p \<mapsto> m) \<and> mo_enmType m = ty \<and> mo_cb m = cb \<and>
            mo_papMappings m = [] \<and> mo_fNative m
     else p = 0 \<and> h' = h"
    using assms(2,4) by (auto simp: r mo_new_def native_new_def split: if_splits)
  show "mo_inv h'"
  proof (cases "RT_SUCCESS rc")
    case True
    with c obtain n where n: "RT_VALID_PTR p" "h p = None" "h' = h(p \<mapsto> n)" "\<not> rtR0MemObjIsMapping n"
      "mo_papMappings n = []" "mo_fNative n" using assms(3) by (auto simp: rtR0MemObjIsMapping_def)
    have d: "q \<noteq> p" if "h q = Some m" for q m using that n(2) by auto
    show ?thesis
    proof (rule mo_invI, goal_cases)
      case (1 q m)
      then show ?case using n mo_invD(1) [OF assms(1)] by (auto split: if_splits)
    next
      case (2 q m)
      then have "q \<noteq> p" "h q = Some m" using n by (auto split: if_splits)
      from mo_invD(3) [OF assms(1) this(2) 2(2,3)] show ?case using d n(3) by auto
    next
      case (3 q m)
      then show ?case using n mo_invD(4,5) [OF assms(1)] by (auto split: if_splits)
    next
      case (4 q m c)
      then have "h q = Some m" using n by (auto split: if_splits)
      from mo_invD(6) [OF assms(1) this 4(2,3)] show ?case using d n(3) by auto
    qed
  next
    case False
    then show ?thesis using c assms(1) by simp
  qed
qed

text \<open>Creating a mapping\<close>

lemma mo_map_ok:
  assumes "mo_inv h" "h pP = Some P" "\<not> rtR0MemObjIsMapping P" "native_new h RTR0MEMOBJTYPE_MAPPING cb r"
  obtains rc p h' where "mo_map hst h pP r = Some (rc, p, h')" "mo_inv h'"
    "if RT_SUCCESS rc
     then \<exists>m a. RT_VALID_PTR p \<and> h p = None \<and> p \<noteq> pP \<and> mo_enmType m = RTR0MEMOBJTYPE_MAPPING \<and> mo_cb m = cb \<and>
            mo_fNative m \<and> mo_pParent m = pP \<and>
            h' = h(pP \<mapsto> P\<lparr>mo_cMappingsAllocated := a, mo_papMappings := mo_papMappings P @ [p]\<rparr>, p \<mapsto> m)
     else p = 0 \<and> h' = h"
proof -
  obtain rc p n where r: "r = (rc, p, n)" by (cases r)
  show thesis
  proof (cases "RT_SUCCESS rc")
    case False
    then show thesis using that [of rc 0 h] assms(1) by (simp add: r mo_map_def)
  next
    case True
    then have n: "RT_VALID_PTR p" "h p = None" "mo_enmType n = RTR0MEMOBJTYPE_MAPPING" "mo_cb n = cb" "mo_fNative n"
      using assms(4) by (auto simp: r native_new_def)
    have ne: "p \<noteq> pP" using n(2) assms(2) by auto
    have undo: "h(p \<mapsto> n, p := None) = h" using n(2) by auto
    let ?i = "of_nat (length (mo_papMappings P)) :: u32"
    let ?grow = "mo_cMappingsAllocated P \<le> ?i"
    let ?a = "if ?grow then ?i + 32 else mo_cMappingsAllocated P"
    let ?P = "P\<lparr>mo_cMappingsAllocated := ?a, mo_papMappings := mo_papMappings P @ [p]\<rparr>"
    let ?m = "n\<lparr>mo_pParent := pP\<rparr>"
    let ?h = "h(pP \<mapsto> ?P, p \<mapsto> ?m)"
    show thesis
    proof (cases "?grow \<and> \<not> hst_Realloc hst (h(p \<mapsto> n))")
      case True
      then have "rtR0MemObjLink (hst_Realloc hst (h(p \<mapsto> n))) (h(p \<mapsto> n)) pP p = Some (VERR_NO_MEMORY, h(p \<mapsto> n))"
        using ne assms(2) by (simp add: rtR0MemObjLink_def Let_def)
      then have "mo_map hst h pP r = Some (VERR_NO_MEMORY, 0, h(p \<mapsto> n, p := None))"
        unfolding r mo_map_def Let_def prod.case using \<open>RT_SUCCESS rc\<close> by (simp del: fun_upd_apply fun_upd_upd)
      then have "mo_map hst h pP r = Some (VERR_NO_MEMORY, 0, h)" unfolding undo .
      then show thesis by (rule that) (use assms(1) in simp_all)
    next
      case False
      have sw: "h(p \<mapsto> n, pP \<mapsto> ?P, p \<mapsto> ?m) = ?h" using ne by (auto simp: fun_eq_iff)
      have "rtR0MemObjLink (hst_Realloc hst (h(p \<mapsto> n))) (h(p \<mapsto> n)) pP p = Some (VINF_SUCCESS, h(p \<mapsto> n, pP \<mapsto> ?P, p \<mapsto> ?m))"
        using ne assms(2) False by (simp add: rtR0MemObjLink_def Let_def)
      then have e: "mo_map hst h pP r = Some (VINF_SUCCESS, p, ?h)"
        unfolding sw using \<open>RT_SUCCESS rc\<close> by (simp add: r mo_map_def)
      have d: "q \<noteq> p" if "h q = Some m" for q m using that n(2) by auto
      have "mo_inv ?h"
      proof (rule mo_invI, goal_cases)
        case (1 q m)
        then show ?case using n(1) assms(2) mo_invD(1) [OF assms(1)] by (auto split: if_splits)
      next
        case (2 q m)
        show ?case
        proof (cases "q = p")
          case True
          then show ?thesis using 2 ne assms(3) by (auto simp: rtR0MemObjIsMapping_def)
        next
          case False
          have "q \<noteq> pP" using 2(1,2) assms(3) ne by (auto simp: rtR0MemObjIsMapping_def)
          then have "h q = Some m" using 2(1) False by simp
          from mo_invD(3) [OF assms(1) this 2(2,3)] obtain Q where
            Q: "h (mo_pParent m) = Some Q" "\<not> rtR0MemObjIsMapping Q" "q \<in> set (mo_papMappings Q)" by blast
          then show ?thesis using d [OF Q(1)] assms(2,3) by (auto simp: rtR0MemObjIsMapping_def)
        qed
      next
        case (3 q m)
        have "p \<notin> set (mo_papMappings P)"
          using mo_invD(6) [OF assms(1-3), of p] n(2) by auto
        then show ?case using 3 n(3) mo_invD(4,5) [OF assms(1)] mo_invD(4,5) [OF assms(1-3)]
          by (auto simp: rtR0MemObjIsMapping_def split: if_splits)
      next
        case (4 q m c)
        show ?case
        proof (cases "q = pP")
          case True
          then have m: "m = ?P" using 4(1) ne by simp
          show ?thesis
          proof (cases "c = p")
            case True
            then show ?thesis using \<open>q = pP\<close> n by (simp add: rtR0MemObjIsMapping_def)
          next
            case False
            then have "c \<in> set (mo_papMappings P)" using 4(3) m by simp
            from mo_invD(6) [OF assms(1-3) this] show ?thesis
              using False \<open>q = pP\<close> assms(2,3) by (auto simp: rtR0MemObjIsMapping_def)
          qed
        next
          case False
          then have hq: "h q = Some m" using 4(1,2) n(3) by (auto simp: rtR0MemObjIsMapping_def split: if_splits)
          from mo_invD(6) [OF assms(1) hq 4(2,3)] obtain mc where
            mc: "h c = Some mc" "rtR0MemObjIsMapping mc" "mo_fNative mc" "mo_pParent mc = q" by blast
          then show ?thesis using d [OF mc(1)] assms(2,3) by auto
        qed
      qed
      moreover have "\<exists>m a. RT_VALID_PTR p \<and> h p = None \<and> p \<noteq> pP \<and> mo_enmType m = RTR0MEMOBJTYPE_MAPPING \<and> mo_cb m = cb \<and>
            mo_fNative m \<and> mo_pParent m = pP \<and>
            ?h = h(pP \<mapsto> P\<lparr>mo_cMappingsAllocated := a, mo_papMappings := mo_papMappings P @ [p]\<rparr>, p \<mapsto> m)"
        by (rule exI [of _ ?m], rule exI [of _ ?a]) (simp add: n ne)
      ultimately show thesis by (intro that [OF e]) simp_all
    qed
  qed
qed

text \<open>Freeing an object without mappings, and freeing a mapping\<close>

lemma mo_free_root:
  assumes "mo_inv h" "h p = Some m" "\<not> rtR0MemObjIsMapping m" "mo_papMappings m = []"
  shows "RTR0MemObjFree hst h p f = Some (hst_Free hst m, if RT_SUCCESS (hst_Free hst m) then h(p := None) else h)"
    "mo_inv (h(p := None))"
proof -
  show "RTR0MemObjFree hst h p f = Some (hst_Free hst m, if RT_SUCCESS (hst_Free hst m) then h(p := None) else h)"
    using assms mo_invD(2,4) [OF assms(1,2)]
    by (simp add: RTR0MemObjFree_def mo_free_self_def mo_valid_ok [OF assms(1,2)])
  show "mo_inv (h(p := None))"
  proof (rule mo_invI, goal_cases)
    case (1 q n)
    then show ?case using mo_invD(1) [OF assms(1)] by (auto split: if_splits)
  next
    case (2 q n)
    then have "h q = Some n" by (auto split: if_splits)
    from mo_invD(3) [OF assms(1) this 2(2,3)] obtain Q where
      Q: "h (mo_pParent n) = Some Q" "\<not> rtR0MemObjIsMapping Q" "q \<in> set (mo_papMappings Q)" by blast
    then show ?case using assms(2,4) by auto
  next
    case (3 q n)
    then show ?case using mo_invD(4,5) [OF assms(1)] by (auto split: if_splits)
  next
    case (4 q n c)
    then have "h q = Some n" by (auto split: if_splits)
    from mo_invD(6) [OF assms(1) this 4(2,3)] obtain mc where
      mc: "h c = Some mc" "rtR0MemObjIsMapping mc" "mo_fNative mc" "mo_pParent mc = q" by blast
    then show ?case using assms(2,3) by auto
  qed
qed

lemma mo_free_mapping:
  assumes "mo_inv h" "h p = Some m" "rtR0MemObjIsMapping m" "mo_fNative m"
  obtains P where "h (mo_pParent m) = Some P" "\<not> rtR0MemObjIsMapping P" "p \<in> set (mo_papMappings P)"
    "RTR0MemObjFree hst h p f = Some (hst_Free hst m,
       if RT_SUCCESS (hst_Free hst m)
       then (h(mo_pParent m \<mapsto> P\<lparr>mo_papMappings := mo_unlink p (mo_papMappings P)\<rparr>))(p := None) else h)"
    "mo_inv ((h(mo_pParent m \<mapsto> P\<lparr>mo_papMappings := mo_unlink p (mo_papMappings P)\<rparr>))(p := None))"
proof -
  from mo_invD(3) [OF assms] obtain P where
    P: "h (mo_pParent m) = Some P" "\<not> rtR0MemObjIsMapping P" "p \<in> set (mo_papMappings P)" by blast
  let ?h = "(h(mo_pParent m \<mapsto> P\<lparr>mo_papMappings := mo_unlink p (mo_papMappings P)\<rparr>))(p := None)"
  have ne: "mo_pParent m \<noteq> p" using P(1,2) assms(2,3) by auto
  have u: "distinct (mo_unlink p (mo_papMappings P))" "set (mo_unlink p (mo_papMappings P)) = set (mo_papMappings P) - {p}"
    using mo_unlink_ok [OF mo_invD(5) [OF assms(1) P(1,2)] P(3)] by simp_all
  have "mo_papMappings P \<noteq> []" using P(3) by auto
  then have e: "RTR0MemObjFree hst h p f = Some (hst_Free hst m, if RT_SUCCESS (hst_Free hst m) then ?h else h)"
    using assms P(1,2) mo_invD(2) [OF assms(1,2)]
    by (simp add: RTR0MemObjFree_def mo_free_self_def mo_valid_ok [OF assms(1,2)])
  have "mo_inv ?h"
  proof (rule mo_invI, goal_cases)
    case (1 q n)
    then show ?case using mo_invD(1) [OF assms(1)] P(1) by (auto split: if_splits)
  next
    case (2 q n)
    then have "h q = Some n" "q \<noteq> p" using P(2) by (auto simp: rtR0MemObjIsMapping_def split: if_splits)
    from mo_invD(3) [OF assms(1) this(1) 2(2,3)] this(2) obtain Q where
      Q: "h (mo_pParent n) = Some Q" "\<not> rtR0MemObjIsMapping Q" "q \<in> set (mo_papMappings Q)" by blast
    have np: "mo_pParent n \<noteq> p" using Q(1,2) assms(2,3) by auto
    show ?case
    proof (cases "mo_pParent n = mo_pParent m")
      case True
      then have "Q = P" using Q(1) P(1) by simp
      then show ?thesis using True np Q \<open>q \<noteq> p\<close> u(2) by (simp add: rtR0MemObjIsMapping_def)
    next
      case False
      then show ?thesis using np Q by simp
    qed
  next
    case (3 q n)
    then show ?case using mo_invD(4,5) [OF assms(1)] mo_invD(4) [OF assms(1) P(1,2)] u(1) by (auto split: if_splits)
  next
    case (4 q n c)
    have "\<exists>n0. h q = Some n0 \<and> \<not> rtR0MemObjIsMapping n0 \<and> c \<in> set (mo_papMappings n0) \<and> (q = mo_pParent m \<longrightarrow> c \<noteq> p)"
    proof (cases "q = mo_pParent m")
      case True
      then have "n = P\<lparr>mo_papMappings := mo_unlink p (mo_papMappings P)\<rparr>" using 4(1) ne by simp
      then have "c \<in> set (mo_papMappings P) - {p}" using 4(3) u(2) by simp
      then show ?thesis using True P(1,2) by blast
    next
      case False
      then show ?thesis using 4 by (intro exI [of _ n]) (simp split: if_splits)
    qed
    then obtain n0 where n0: "h q = Some n0" "\<not> rtR0MemObjIsMapping n0" "c \<in> set (mo_papMappings n0)"
      "q = mo_pParent m \<longrightarrow> c \<noteq> p" by blast
    from mo_invD(6) [OF assms(1) n0(1-3)] obtain mc where
      mc: "h c = Some mc" "rtR0MemObjIsMapping mc" "mo_fNative mc" "mo_pParent mc = q" by blast
    moreover have "c \<noteq> p" using n0(4) mc(1,4) assms(2) by auto
    moreover have "c \<noteq> mo_pParent m" using mc(1,2) P(1,2) by auto
    ultimately show ?case by simp
  qed
  then show thesis by (intro that [OF P e])
qed

text \<open>Freeing the mappings of an object: the memory of the children goes, their handles stay.\<close>

definition mo_released :: "addr set \<Rightarrow> memheap \<Rightarrow> memheap" where
  "mo_released S h = (\<lambda>q. if q \<in> S then map_option (\<lambda>m. m\<lparr>mo_fNative := False\<rparr>) (h q) else h q)"

lemma mo_released_empty [simp]: "mo_released {} h = h"
  by (auto simp: mo_released_def)

lemma mo_free_children_ok:
  assumes "\<forall>c\<in>set cs. \<exists>m. h c = Some m \<and> rtR0MemObjIsMapping m \<and> mo_fNative m" "distinct cs"
  shows "\<exists>rc ds es. mo_free_children hst h cs = Some (rc, es, mo_released (set ds) h) \<and> cs = ds @ es \<and>
    (RT_SUCCESS rc \<longleftrightarrow> es = []) \<and>
    (if es = [] then rc = VINF_SUCCESS else rc = hst_Free hst (the (h (hd es))))"
  using assms
proof (induction cs arbitrary: h)
  case Nil
  then show ?case by simp
next
  case (Cons c cs)
  then obtain m where m: "h c = Some m" "rtR0MemObjIsMapping m" "mo_fNative m" by auto
  show ?case
  proof (cases "RT_SUCCESS (hst_Free hst m)")
    case False
    then show ?thesis using m by (intro exI [of _ "hst_Free hst m"] exI [of _ "[]"] exI [of _ "c # cs"]) (simp add: RT_FAILURE_def)
  next
    case True
    let ?h = "h(c \<mapsto> m\<lparr>mo_fNative := False\<rparr>)"
    have "\<forall>c\<in>set cs. \<exists>m. ?h c = Some m \<and> rtR0MemObjIsMapping m \<and> mo_fNative m" using Cons.prems by auto
    moreover have "distinct cs" using Cons.prems(2) by simp
    ultimately obtain rc ds es where
      ih: "mo_free_children hst ?h cs = Some (rc, es, mo_released (set ds) ?h)" "cs = ds @ es"
      "RT_SUCCESS rc \<longleftrightarrow> es = []" "if es = [] then rc = VINF_SUCCESS else rc = hst_Free hst (the (?h (hd es)))"
      using Cons.IH by blast
    have c: "c \<notin> set ds" "es \<noteq> [] \<longrightarrow> hd es \<noteq> c" using Cons.prems(2) ih(2) by (auto simp: neq_Nil_conv)
    have "mo_released (set ds) ?h = mo_released (set (c # ds)) h"
      using c m by (auto simp: mo_released_def fun_eq_iff)
    then show ?thesis using ih c m True
      by (intro exI [of _ rc] exI [of _ "c # ds"] exI [of _ es]) (auto simp: RT_FAILURE_def)
  qed
qed

text \<open>
  The whole of \<open>RTR0MemObjFree\<close> for an object that is no mapping, when the host frees what it is
  asked to free.
\<close>

lemma mo_inv_released:
  assumes "mo_inv h" "h p = Some m" "\<not> rtR0MemObjIsMapping m"
  shows "mo_inv ((mo_released (set (mo_papMappings m)) h)(p := None))"
proof (rule mo_invI, goal_cases)
  case (1 q n)
  then show ?case using mo_invD(1) [OF assms(1)] by (auto simp: mo_released_def split: if_splits)
next
  case (2 q n)
  then have q: "q \<notin> set (mo_papMappings m)" "h q = Some n" by (auto simp: mo_released_def split: if_splits)
  from mo_invD(3) [OF assms(1) q(2) 2(2,3)] obtain Q where
    Q: "h (mo_pParent n) = Some Q" "\<not> rtR0MemObjIsMapping Q" "q \<in> set (mo_papMappings Q)" by blast
  have "mo_pParent n \<noteq> p" using Q q(1) assms(2) by auto
  moreover have "mo_pParent n \<notin> set (mo_papMappings m)" using Q(1,2) mo_invD(6) [OF assms] by fastforce
  ultimately show ?case using Q by (simp add: mo_released_def)
next
  case (3 q n)
  then have "h q = Some n"
    using mo_invD(6) [OF assms, of q] by (auto simp: mo_released_def rtR0MemObjIsMapping_def split: if_splits)
  then show ?case using 3(2) mo_invD(4,5) [OF assms(1)] by auto
next
  case (4 q n c)
  then have q: "q \<noteq> p" "h q = Some n"
    using mo_invD(6) [OF assms, of q] by (auto simp: mo_released_def rtR0MemObjIsMapping_def split: if_splits)
  from mo_invD(6) [OF assms(1) q(2) 4(2,3)] obtain mc where
    mc: "h c = Some mc" "rtR0MemObjIsMapping mc" "mo_fNative mc" "mo_pParent mc = q" by blast
  have "c \<noteq> p" using mc assms(2,3) by auto
  moreover have "c \<notin> set (mo_papMappings m)" using mo_invD(6) [OF assms, of c] mc q by auto
  ultimately show ?case using mc by (simp add: mo_released_def)
qed

lemma RTR0MemObjFree_root:
  assumes "mo_inv h" "h p = Some m" "\<not> rtR0MemObjIsMapping m" "\<forall>n. RT_SUCCESS (hst_Free hst n)"
  shows "\<exists>rc. RT_SUCCESS rc \<and> RTR0MemObjFree hst h p True = Some (rc, (mo_released (set (mo_papMappings m)) h)(p := None))"
proof (cases "mo_papMappings m = []")
  case True
  show ?thesis using mo_free_root(1) [OF assms(1-3) True, of hst True] assms(4) True by simp
next
  case False
  let ?cs = "rev (mo_papMappings m)"
  have "\<forall>c\<in>set ?cs. \<exists>n. h c = Some n \<and> rtR0MemObjIsMapping n \<and> mo_fNative n" using mo_invD(6) [OF assms(1-3)] by auto
  moreover have "distinct ?cs" using mo_invD(5) [OF assms(1-3)] by simp
  ultimately obtain rc ds es where
    fc: "mo_free_children hst h ?cs = Some (rc, es, mo_released (set ds) h)" "?cs = ds @ es"
    "RT_SUCCESS rc \<longleftrightarrow> es = []" "if es = [] then rc = VINF_SUCCESS else rc = hst_Free hst (the (h (hd es)))"
    using mo_free_children_ok by blast
  have es: "es = []" "rc = VINF_SUCCESS" using fc(3,4) assms(4) by (auto split: if_splits)
  have ds: "set ds = set (mo_papMappings m)" using fc(2) es by (metis append_Nil2 set_rev)
  have "(mo_released (set (mo_papMappings m)) h)(p \<mapsto> m\<lparr>mo_papMappings := []\<rparr>, p := None) =
    (mo_released (set (mo_papMappings m)) h)(p := None)" by simp
  then show ?thesis using False assms fc(1) mo_invD(2,4) [OF assms(1,2)]
    by (simp add: RTR0MemObjFree_def mo_valid_ok [OF assms(1,2)] es ds mo_free_self_def rtR0MemObjIsMapping_def RT_FAILURE_def)
qed

subsection \<open>Page arithmetic\<close>

lemma unat_lt64: "unat (x::u64) < 2 ^ 64"
  using unsigned_less [of x] by simp

lemma unat_page_offset: "unat ((x::u64) AND 0xfff) = unat x mod 4096"
proof -
  have "(0xfff :: u64) = mask 12" by (simp add: mask_eq_exp_minus_1)
  then have "x AND 0xfff = take_bit 12 x" by (simp only: take_bit_eq_mask)
  then show ?thesis by (simp add: take_bit_eq_mod unat_mod)
qed

lemma unat_page_floor: "unat ((x::u64) AND NOT 0xfff) = unat x div 4096 * 4096"
proof -
  have m: "(0xfff :: u64) = mask 12" by (simp add: mask_eq_exp_minus_1)
  have "x AND NOT 0xfff = push_bit 12 (drop_bit 12 x)"
    unfolding m by (rule bit_eqI) (auto simp: bit_simps)
  moreover have "unat x div 4096 * 4096 < 2 ^ 64"
    using unat_lt64 [of x] by (simp add: div_times_less_eq_dividend le_less_trans)
  ultimately show ?thesis
    by (simp add: push_bit_eq_mult drop_bit_eq_div unat_word_ariths unat_div)
qed

lemma RT_ALIGN_Z_unat:
  "unat x + 4095 < 2 ^ 64 \<Longrightarrow> unat (RT_ALIGN_Z x) = (unat x + 4095) div 4096 * 4096"
  "2 ^ 64 \<le> unat x + 4095 \<Longrightarrow> unat (RT_ALIGN_Z x) = 0"
proof -
  have e: "unat (x + 0xfff) = (unat x + 4095) mod 2 ^ 64" by (simp add: unat_word_ariths)
  show "unat x + 4095 < 2 ^ 64 \<Longrightarrow> unat (RT_ALIGN_Z x) = (unat x + 4095) div 4096 * 4096"
    unfolding RT_ALIGN_Z_def unat_page_floor e by simp
  assume o: "2 ^ 64 \<le> unat x + 4095"
  have "(unat x + 4095) mod 2 ^ 64 = unat x + 4095 - 2 ^ 64"
    using o unat_lt64 [of x] by (simp add: le_mod_geq)
  then have "(unat x + 4095) mod 2 ^ 64 < 4096" using unat_lt64 [of x] by simp
  then show "unat (RT_ALIGN_Z x) = 0"
    unfolding RT_ALIGN_Z_def unat_page_floor e by simp
qed

lemma page_round:
  fixes ptr cb :: u64
  assumes "0 < cb" "cb \<le> RT_ALIGN_Z (cb + (ptr AND 0xfff))"
  shows "unat (ptr AND NOT 0xfff) mod 4096 = 0" "unat (ptr AND NOT 0xfff) \<le> unat ptr"
    "unat (RT_ALIGN_Z (cb + (ptr AND 0xfff))) mod 4096 = 0"
    "unat ptr + unat cb \<le> unat (ptr AND NOT 0xfff) + unat (RT_ALIGN_Z (cb + (ptr AND 0xfff)))"
    "unat (ptr AND NOT 0xfff) + unat (RT_ALIGN_Z (cb + (ptr AND 0xfff))) < unat ptr + unat cb + 4096"
proof -
  let ?off = "unat ptr mod 4096"
  let ?c = "cb + (ptr AND 0xfff)"
  have c0: "0 < unat cb" using assms(1) by (simp add: word_less_nat_alt)
  have le: "unat cb \<le> unat (RT_ALIGN_Z ?c)" using assms(2) by (simp add: word_le_nat_alt)
  have off: "?off < 4096" by simp
  have nowrap: "unat cb + ?off < 2 ^ 64"
  proof (rule ccontr)
    assume "\<not> unat cb + ?off < 2 ^ 64"
    then have o: "2 ^ 64 \<le> unat cb + ?off" by simp
    have "unat ?c = (unat cb + ?off) mod 2 ^ 64" by (simp add: unat_word_ariths unat_page_offset)
    also have "\<dots> = unat cb + ?off - 2 ^ 64" using o off unat_lt64 [of cb] by (simp add: le_mod_geq)
    finally have "unat ?c < 4096" using off unat_lt64 [of cb] by simp
    then have "unat (RT_ALIGN_Z ?c) < 8192" using RT_ALIGN_Z_unat(1) [of ?c] by simp
    then show False using le o off by simp
  qed
  have c: "unat ?c = unat cb + ?off"
    using nowrap by (simp add: unat_word_ariths unat_page_offset)
  have nowrap2: "unat ?c + 4095 < 2 ^ 64"
  proof (rule ccontr)
    assume "\<not> unat ?c + 4095 < 2 ^ 64"
    then have "unat (RT_ALIGN_Z ?c) = 0" using RT_ALIGN_Z_unat(2) [of ?c] by simp
    then show False using le c0 by simp
  qed
  note a = RT_ALIGN_Z_unat(1) [OF nowrap2, unfolded c]
  show "unat (ptr AND NOT 0xfff) mod 4096 = 0" "unat (RT_ALIGN_Z ?c) mod 4096 = 0"
    unfolding unat_page_floor a by simp_all
  show "unat (ptr AND NOT 0xfff) \<le> unat ptr" unfolding unat_page_floor by simp
  have d: "unat ptr div 4096 * 4096 = unat ptr - ?off" by (simp add: minus_mod_eq_div_mult)
  have e: "(unat cb + ?off + 4095) div 4096 * 4096 = unat cb + ?off + 4095 - (unat cb + ?off + 4095) mod 4096"
    by (simp add: minus_mod_eq_div_mult)
  have m: "(unat cb + ?off + 4095) mod 4096 \<le> 4095" by (simp add: less_Suc_eq_le [symmetric])
  have o: "?off \<le> unat ptr" by simp
  show "unat ptr + unat cb \<le> unat (ptr AND NOT 0xfff) + unat (RT_ALIGN_Z ?c)"
    unfolding unat_page_floor a d e using m o by linarith
  show "unat (ptr AND NOT 0xfff) + unat (RT_ALIGN_Z ?c) < unat ptr + unat cb + 4096"
    unfolding unat_page_floor a d e using m o by linarith
qed

subsection \<open>Properties\<close>

text \<open>
  What reaches the host when user memory is locked is page aligned and covers the requested
  range, with less than a page to spare at both ends together; sizes whose rounding would wrap
  around are refused.
\<close>

theorem RTR0MemObjLockUser_bounds:
  assumes "RTR0MemObjLockUser hst h R3Ptr cb fAccess R0Process = (rc, p, h')" "RT_SUCCESS rc"
  shows "\<exists>ptr cbAligned proc. mo_new h (hst_LockUser hst h ptr cbAligned fAccess proc) = (rc, p, h') \<and>
    proc \<in> {R0Process, hst_Self hst} \<and> 0 < cb \<and>
    unat ptr mod 4096 = 0 \<and> unat cbAligned mod 4096 = 0 \<and> unat ptr \<le> unat R3Ptr \<and>
    unat R3Ptr + unat cb \<le> unat ptr + unat cbAligned \<and>
    unat ptr + unat cbAligned < unat R3Ptr + unat cb + 4096"
proof -
  let ?c = "RT_ALIGN_Z (cb + (R3Ptr AND 0xfff))"
  let ?proc = "if R0Process = NIL_RTR0PROCESS then hst_Self hst else R0Process"
  have a: "0 < cb" "cb \<le> ?c"
    and e: "mo_new h (hst_LockUser hst h (R3Ptr AND NOT 0xfff) ?c fAccess ?proc) = (rc, p, h')"
    using assms by (simp_all add: RTR0MemObjLockUser_def Let_def split: if_splits)
  have "?proc \<in> {R0Process, hst_Self hst}" by simp
  with e a(1) page_round [OF a] show ?thesis
    by - (rule exI [of _ "R3Ptr AND NOT 0xfff"], rule exI [of _ ?c], rule exI [of _ ?proc], intro conjI; assumption)
qed

lemma RTR0MemObjMapKernelEx_cases:
  assumes "mo_inv h" "h p = Some m"
  shows "RTR0MemObjMapKernelEx hst h p pvFixed al f offSub cbSub = Some (VERR_INVALID_PARAMETER, 0, h) \<or>
    (\<not> rtR0MemObjIsMapping m \<and> offSub < mo_cb m \<and> cbSub \<le> mo_cb m \<and>
     ((offSub = 0 \<and> cbSub = 0) \<or> offSub + cbSub \<le> mo_cb m)) \<and>
    RTR0MemObjMapKernelEx hst h p pvFixed al f offSub cbSub =
      mo_map hst h p (hst_MapKernel hst h m pvFixed (if al = 0 then PAGE_SIZE else al) f offSub
        (if offSub = 0 \<and> cbSub = mo_cb m then 0 else cbSub))"
  by (simp add: RTR0MemObjMapKernelEx_def mo_valid_ok [OF assms] Let_def)

lemma MapKernelEx_ok:
  assumes "mo_inv h" "host_ok hst" "h p = Some m" "mo_cb m < 0x8000000000000000" "offSub \<noteq> 0 \<longrightarrow> cbSub \<noteq> 0"
  shows "\<exists>rc q h'. RTR0MemObjMapKernelEx hst h p pvFixed al f offSub cbSub = Some (rc, q, h') \<and> mo_inv h' \<and>
    (if RT_SUCCESS rc
     then \<not> rtR0MemObjIsMapping m \<and> unat offSub + unat cbSub \<le> unat (mo_cb m) \<and> h q = None \<and>
       (\<exists>c P. h' q = Some c \<and> h' p = Some P \<and> mo_pParent c = p \<and> mo_papMappings P = mo_papMappings m @ [q] \<and>
          mo_cb c = (if cbSub = 0 then mo_cb m else cbSub)) \<and>
       (\<forall>r. r \<notin> {p, q} \<longrightarrow> h' r = h r)
     else q = 0 \<and> h' = h)"
proof -
  let ?al = "if al = 0 then PAGE_SIZE else al"
  let ?cb = "if offSub = 0 \<and> cbSub = mo_cb m then 0 else cbSub"
  let ?ok = "\<not> rtR0MemObjIsMapping m \<and> offSub < mo_cb m \<and> cbSub \<le> mo_cb m \<and>
    ((offSub = 0 \<and> cbSub = 0) \<or> offSub + cbSub \<le> mo_cb m)"
  have "RTR0MemObjMapKernelEx hst h p pvFixed al f offSub cbSub = Some (VERR_INVALID_PARAMETER, 0, h) \<or>
    ?ok \<and> RTR0MemObjMapKernelEx hst h p pvFixed al f offSub cbSub =
      mo_map hst h p (hst_MapKernel hst h m pvFixed ?al f offSub ?cb)"
    by (rule RTR0MemObjMapKernelEx_cases [OF assms(1,3)])
  then show ?thesis
  proof
    assume "RTR0MemObjMapKernelEx hst h p pvFixed al f offSub cbSub = Some (VERR_INVALID_PARAMETER, 0, h)"
    then show ?thesis using assms(1) by simp
  next
    assume ok: "?ok \<and> RTR0MemObjMapKernelEx hst h p pvFixed al f offSub cbSub =
      mo_map hst h p (hst_MapKernel hst h m pvFixed ?al f offSub ?cb)"
    have sz: "unat offSub + unat cbSub \<le> unat (mo_cb m)"
    proof -
      have l: "unat (mo_cb m) < 2 ^ 63" using assms(4) by (simp add: word_less_nat_alt)
      moreover have "unat offSub < unat (mo_cb m)" "unat cbSub \<le> unat (mo_cb m)"
        using ok by (auto simp: word_less_nat_alt word_le_nat_alt)
      ultimately have "unat (offSub + cbSub) = unat offSub + unat cbSub" by (simp add: unat_word_ariths)
      then show ?thesis using ok by (auto simp: word_le_nat_alt)
    qed
    have n: "native_new h RTR0MEMOBJTYPE_MAPPING (if cbSub = 0 then mo_cb m else cbSub)
        (hst_MapKernel hst h m pvFixed ?al f offSub ?cb)"
    proof -
      have "(if ?cb = 0 then mo_cb m else ?cb) = (if cbSub = 0 then mo_cb m else cbSub)"
        "offSub \<noteq> 0 \<longrightarrow> ?cb \<noteq> 0" using assms(5) by simp_all
      then show ?thesis using host_okD(6) [OF assms(2), of offSub ?cb h m pvFixed ?al f] by simp
    qed
    from ok have nm: "\<not> rtR0MemObjIsMapping m" by blast
    show ?thesis
      unfolding conjunct2 [OF ok]
    proof (rule mo_map_ok [OF assms(1,3) nm n, of hst], goal_cases)
      case (1 rc q h')
      show ?case
      proof (intro exI conjI)
        show "if RT_SUCCESS rc
          then \<not> rtR0MemObjIsMapping m \<and> unat offSub + unat cbSub \<le> unat (mo_cb m) \<and> h q = None \<and>
            (\<exists>c P. h' q = Some c \<and> h' p = Some P \<and> mo_pParent c = p \<and> mo_papMappings P = mo_papMappings m @ [q] \<and>
               mo_cb c = (if cbSub = 0 then mo_cb m else cbSub)) \<and>
            (\<forall>r. r \<notin> {p, q} \<longrightarrow> h' r = h r)
          else q = 0 \<and> h' = h"
          using 1(3) nm sz by (auto split: if_splits)
      qed (use 1(1,2) in auto)
    qed
  qed
qed

text \<open>
  C30: a kernel mapping of a part of an object lies inside the object, in spite of the unchecked
  addition of offset and size; it becomes a child of the object and nothing else changes. When the
  mapping cannot be made or linked, nothing changes at all.
\<close>

theorem RTR0MemObjMapKernelEx_correct:
  assumes "mo_inv h" "host_ok hst" "h p = Some m" "mo_cb m < 0x8000000000000000" "offSub \<noteq> 0 \<longrightarrow> cbSub \<noteq> 0"
  shows "\<exists>rc q h'. RTR0MemObjMapKernelEx hst h p pvFixed al f offSub cbSub = Some (rc, q, h') \<and> mo_inv h' \<and>
    (if RT_SUCCESS rc
     then \<not> rtR0MemObjIsMapping m \<and> unat offSub + unat cbSub \<le> unat (mo_cb m) \<and> h q = None \<and>
       (\<exists>c P. h' q = Some c \<and> h' p = Some P \<and> mo_pParent c = p \<and> mo_papMappings P = mo_papMappings m @ [q] \<and>
          mo_cb c = (if cbSub = 0 then mo_cb m else cbSub)) \<and>
       (\<forall>r. r \<notin> {p, q} \<longrightarrow> h' r = h r)
     else q = 0 \<and> h' = h)"
  by (rule MapKernelEx_ok [OF assms])

text \<open>
  Freeing an object with its mappings gives all the memory back and destroys the handle of the
  object, but the handles of its mappings are never destroyed: they stay allocated, with their memory
  gone, and freeing one of them would free that memory a second time.
\<close>

theorem RTR0MemObjFree_leaks:
  assumes "mo_inv h" "h p = Some m" "\<not> rtR0MemObjIsMapping m" "\<forall>n. RT_SUCCESS (hst_Free hst n)"
  shows "\<exists>rc h'. RTR0MemObjFree hst h p True = Some (rc, h') \<and> RT_SUCCESS rc \<and> mo_inv h' \<and> h' p = None \<and>
    (\<forall>c\<in>set (mo_papMappings m). \<exists>mc. h' c = Some mc \<and> \<not> mo_fNative mc \<and> RTR0MemObjFree hst h' c False = None) \<and>
    (\<forall>q. q \<noteq> p \<longrightarrow> q \<notin> set (mo_papMappings m) \<longrightarrow> h' q = h q)"
proof -
  let ?h = "(mo_released (set (mo_papMappings m)) h)(p := None)"
  obtain rc where rc: "RT_SUCCESS rc" "RTR0MemObjFree hst h p True = Some (rc, ?h)"
    using RTR0MemObjFree_root [OF assms] by blast
  have i: "mo_inv ?h" by (rule mo_inv_released [OF assms(1-3)])
  have "\<exists>mc. ?h c = Some mc \<and> \<not> mo_fNative mc \<and> RTR0MemObjFree hst ?h c False = None"
    if c: "c \<in> set (mo_papMappings m)" for c
  proof -
    obtain mc where mc: "h c = Some mc" "rtR0MemObjIsMapping mc" using mo_invD(6) [OF assms(1-3) c] by blast
    have "c \<noteq> p" using mc assms(2,3) by auto
    then have n: "?h c = Some (mc\<lparr>mo_fNative := False\<rparr>)" using mc c by (simp add: mo_released_def)
    then have "RTR0MemObjFree hst ?h c False = None"
      using mc(2) mo_invD(2) [OF i n]
      by (simp add: RTR0MemObjFree_def mo_valid_ok [OF i n] mo_free_self_def rtR0MemObjIsMapping_def)
    with n show ?thesis by simp
  qed
  then show ?thesis using rc i by (intro exI [of _ rc] exI [of _ ?h]) (auto simp: mo_released_def)
qed

subsection \<open>A concrete host\<close>

text \<open>
  A host with a few places for new handles. Objects live at the address of their handle plus a constant.
\<close>

definition host_obj :: "RTR0MEMOBJTYPE \<Rightarrow> u64 \<Rightarrow> addr \<Rightarrow> addr \<Rightarrow> RTR0MEMOBJINTERNAL" where
  "host_obj ty cb pv proc = \<lparr>mo_enmType = ty, mo_cb = cb, mo_pv = pv, mo_R0Process = proc, mo_Phys = 0x5000000,
     mo_pParent = 0, mo_cMappingsAllocated = 0, mo_papMappings = [], mo_fProtChanged = False, mo_fNative = True\<rparr>"

primrec host_pick :: "memheap \<Rightarrow> addr list \<Rightarrow> RTR0MEMOBJTYPE \<Rightarrow> u64 \<Rightarrow> addr \<Rightarrow> native_result" where
  "host_pick h [] ty cb proc = (VERR_NO_MEMORY, 0, host_obj ty cb 0 proc)"
| "host_pick h (p # ps) ty cb proc =
     (if RT_VALID_PTR p \<and> h p = None then (VINF_SUCCESS, p, host_obj ty cb (p + 0x70000000) proc)
      else host_pick h ps ty cb proc)"

abbreviation host_new :: "memheap \<Rightarrow> RTR0MEMOBJTYPE \<Rightarrow> u64 \<Rightarrow> addr \<Rightarrow> native_result" where
  "host_new h \<equiv> host_pick h [0x100000, 0x110000, 0x120000, 0x130000]"

definition host_ex :: r0host where
  "host_ex = \<lparr>
     hst_AllocPage = (\<lambda>h cb f. host_new h RTR0MEMOBJTYPE_PAGE cb NIL_RTR0PROCESS),
     hst_AllocLow = (\<lambda>h cb f. host_new h RTR0MEMOBJTYPE_LOW cb NIL_RTR0PROCESS),
     hst_AllocCont = (\<lambda>h cb f. host_new h RTR0MEMOBJTYPE_CONT cb NIL_RTR0PROCESS),
     hst_AllocPhys = (\<lambda>h cb hi al. host_new h RTR0MEMOBJTYPE_PHYS cb NIL_RTR0PROCESS),
     hst_AllocPhysNC = (\<lambda>h cb hi. host_new h RTR0MEMOBJTYPE_PHYS_NC cb NIL_RTR0PROCESS),
     hst_EnterPhys = (\<lambda>h ph cb pol. host_new h RTR0MEMOBJTYPE_PHYS cb NIL_RTR0PROCESS),
     hst_LockUser = (\<lambda>h pv cb f r. host_new h RTR0MEMOBJTYPE_LOCK cb r),
     hst_LockKernel = (\<lambda>h pv cb f. host_new h RTR0MEMOBJTYPE_LOCK cb NIL_RTR0PROCESS),
     hst_ReserveKernel = (\<lambda>h pv cb al. host_new h RTR0MEMOBJTYPE_RES_VIRT cb NIL_RTR0PROCESS),
     hst_ReserveUser = (\<lambda>h pv cb al r. host_new h RTR0MEMOBJTYPE_RES_VIRT cb r),
     hst_MapKernel = (\<lambda>h m pv al f off cb. host_new h RTR0MEMOBJTYPE_MAPPING (if cb = 0 then mo_cb m else cb) NIL_RTR0PROCESS),
     hst_MapUser = (\<lambda>h m pv al f r. host_new h RTR0MEMOBJTYPE_MAPPING (mo_cb m) r),
     hst_Free = (\<lambda>m. VINF_SUCCESS),
     hst_Protect = (\<lambda>m off cb f. VINF_SUCCESS),
     hst_GetPagePhysAddr = (\<lambda>m i. 0x5000000 + i * PAGE_SIZE),
     hst_Realloc = (\<lambda>h. True),
     hst_Self = 0x1234\<rparr>"

lemma host_pick_ok: "native_new h ty cb (host_pick h ps ty cb proc)"
  by (induction ps) (auto simp: native_new_def host_obj_def)

lemma host_ex_ok: "host_ok host_ex" "\<forall>n. RT_SUCCESS (hst_Free host_ex n)"
  by (simp_all add: host_ok_def host_ex_def host_pick_ok del: host_pick.simps)

lemma mo_inv_empty: "mo_inv Map.empty"
  by (simp add: mo_inv_def)

text \<open>One object of two pages, and the same with one mapping of its second page.\<close>

definition mo_ex :: memheap where
  "mo_ex = [0x100000 \<mapsto> host_obj RTR0MEMOBJTYPE_PAGE 0x2000 0x70100000 NIL_RTR0PROCESS]"

definition mo_ex2 :: memheap where
  "mo_ex2 = [0x100000 \<mapsto> (host_obj RTR0MEMOBJTYPE_PAGE 0x2000 0x70100000 NIL_RTR0PROCESS)\<lparr>
       mo_cMappingsAllocated := 32, mo_papMappings := [0x110000]\<rparr>,
     0x110000 \<mapsto> (host_obj RTR0MEMOBJTYPE_MAPPING 0x1000 0x70110000 NIL_RTR0PROCESS)\<lparr>mo_pParent := 0x100000\<rparr>]"

lemma mo_ex_inv: "mo_inv mo_ex" "mo_inv mo_ex2"
  by (auto simp: mo_inv_def mo_ex_def mo_ex2_def host_obj_def rtR0MemObjIsMapping_def RT_VALID_PTR_def)

theorem RTR0MemObjLockUser_bounds_witness:
  "\<exists>ptr cbAligned proc. mo_new Map.empty (hst_LockUser host_ex Map.empty ptr cbAligned 3 proc) =
       RTR0MemObjLockUser host_ex Map.empty 0x7fff0123 0x1000 3 0x55 \<and>
     unat ptr mod 4096 = 0 \<and> unat (0x7fff0123 :: addr) + unat (0x1000 :: u64) \<le> unat ptr + unat cbAligned"
proof -
  obtain rc p h' where e: "RTR0MemObjLockUser host_ex Map.empty 0x7fff0123 0x1000 3 0x55 = (rc, p, h')"
    by (metis surj_pair)
  have "RT_SUCCESS (fst (RTR0MemObjLockUser host_ex Map.empty 0x7fff0123 0x1000 3 0x55))"
    by (simp add: RTR0MemObjLockUser_def host_ex_def mo_new_def RT_ALIGN_Z_def RT_VALID_PTR_def)
  then have "RT_SUCCESS rc" by (simp add: e)
  from RTR0MemObjLockUser_bounds [OF e this] show ?thesis
    unfolding e by (elim exE conjE) (intro exI conjI; assumption)
qed

theorem RTR0MemObjMapKernelEx_correct_witness:
  "\<exists>rc q h'. RTR0MemObjMapKernelEx host_ex mo_ex 0x100000 0xffffffffffffffff 0 3 0x1000 0x1000 = Some (rc, q, h') \<and> mo_inv h'"
proof -
  have a: "mo_ex 0x100000 = Some (host_obj RTR0MEMOBJTYPE_PAGE 0x2000 0x70100000 NIL_RTR0PROCESS)"
    "mo_cb (host_obj RTR0MEMOBJTYPE_PAGE 0x2000 0x70100000 NIL_RTR0PROCESS) < 0x8000000000000000"
    "(0x1000 :: u64) \<noteq> 0 \<longrightarrow> (0x1000 :: u64) \<noteq> 0"
    by (simp_all add: mo_ex_def host_obj_def)
  from RTR0MemObjMapKernelEx_correct [OF mo_ex_inv(1) host_ex_ok(1) a] show ?thesis by blast
qed

theorem RTR0MemObjFree_leaks_witness:
  "\<exists>rc h' mc. RTR0MemObjFree host_ex mo_ex2 0x100000 True = Some (rc, h') \<and> h' 0x100000 = None \<and> h' 0x110000 = Some mc"
proof -
  let ?m = "(host_obj RTR0MEMOBJTYPE_PAGE 0x2000 0x70100000 NIL_RTR0PROCESS)\<lparr>
       mo_cMappingsAllocated := 32, mo_papMappings := [0x110000]\<rparr>"
  have a: "mo_ex2 0x100000 = Some ?m" "\<not> rtR0MemObjIsMapping ?m" "0x110000 \<in> set (mo_papMappings ?m)"
    by (simp_all add: mo_ex2_def host_obj_def rtR0MemObjIsMapping_def)
  from RTR0MemObjFree_leaks [OF mo_ex_inv(2) a(1,2) host_ex_ok(2)] a(3) show ?thesis by blast
qed

end
