(* ===== verification/SupMem.thy ===== *)
theory SupMem
  imports RTMemObj SupIface
begin

text \<open>
  The memory a session allocates, locks and maps, and how the driver tracks it: the chain of
  bundles of 64 entries in the session (\<open>supdrvMemAdd\<close>, \<open>supdrvMemRelease\<close>) and the operations on
  locked, contiguous, low, ordinary and page memory of SUPDrv.c. The memory objects are those of
  IPRT's portable layer; the host below it is the parameter \<open>hst\<close>.
\<close>

named_theorems mem_defs \<open>definitions of the memory operations\<close>

abbreviation VBOX_MAX_ALLOC_PAGE_COUNT :: u32 where "VBOX_MAX_ALLOC_PAGE_COUNT \<equiv> 0x10000"
abbreviation BUNDLE_ENTRIES :: nat where "BUNDLE_ENTRIES \<equiv> 64"

definition mr_unused :: SUPDRVMEMREF where
  "mr_unused = \<lparr>mr_MemObj = 0, mr_MapObjR3 = 0, mr_eType = MEMREF_TYPE_UNUSED\<rparr>"

subsection \<open>Bundles\<close>

text \<open>The first free slot of a bundle takes the new entry.\<close>

primrec slot_add :: "SUPDRVMEMREF \<Rightarrow> SUPDRVMEMREF list \<Rightarrow> SUPDRVMEMREF list option" where
  "slot_add m [] = None"
| "slot_add m (r # rs) = (if mr_MemObj r = 0 then Some (m # rs) else map_option (Cons r) (slot_add m rs))"

primrec bdl_add :: "SUPDRVMEMREF \<Rightarrow> SUPDRVBUNDLE list \<Rightarrow> SUPDRVBUNDLE list option" where
  "bdl_add m [] = None"
| "bdl_add m (b # bs) =
     (if bdl_cUsed b < of_nat BUNDLE_ENTRIES then
        (case slot_add m (bdl_aMem b) of
           Some a \<Rightarrow> Some (b\<lparr>bdl_cUsed := bdl_cUsed b + 1, bdl_aMem := a\<rparr> # bs)
         | None \<Rightarrow> map_option (Cons b) (bdl_add m bs))
      else map_option (Cons b) (bdl_add m bs))"

definition bdl_new :: "SUPDRVMEMREF \<Rightarrow> SUPDRVBUNDLE" where
  "bdl_new m = \<lparr>bdl_aMem = (replicate BUNDLE_ENTRIES mr_unused)[BUNDLE_ENTRIES - 1 := m], bdl_cUsed = 1\<rparr>"

text \<open>\<open>fAlloc\<close> says whether a new bundle can be allocated; it goes behind the embedded one.\<close>

definition supdrvMemAdd :: "bool \<Rightarrow> SUPDRVMEMREF \<Rightarrow> SUPDRVSESSION \<Rightarrow> status \<times> SUPDRVSESSION" where
  [mem_defs]: "supdrvMemAdd fAlloc m s =
     (case bdl_add m (ses_Bundle s) of
        Some bs \<Rightarrow> (VINF_SUCCESS, s\<lparr>ses_Bundle := bs\<rparr>)
      | None \<Rightarrow>
          if \<not> fAlloc then (VERR_NO_MEMORY, s)
          else (VINF_SUCCESS, s\<lparr>ses_Bundle := take 1 (ses_Bundle s) @ bdl_new m # drop 1 (ses_Bundle s)\<rparr>))"

text \<open>
  The search of a bundle, and of the chain, for the first entry that passes a test; the test may read
  a freed handle (\<open>None\<close>). The result is the entry and the chain with that entry cleared. Bundles
  that count no used entry are skipped.
\<close>

primrec slot_take ::
  "(SUPDRVMEMREF \<Rightarrow> bool option) \<Rightarrow> SUPDRVMEMREF list \<Rightarrow> (SUPDRVMEMREF \<times> SUPDRVMEMREF list) option option" where
  "slot_take P [] = Some None"
| "slot_take P (r # rs) =
     (case P r of
        None \<Rightarrow> None
      | Some True \<Rightarrow> Some (Some (r, mr_unused # rs))
      | Some False \<Rightarrow> map_option (map_option (\<lambda>(x, rs'). (x, r # rs'))) (slot_take P rs))"

primrec bdl_take ::
  "(SUPDRVMEMREF \<Rightarrow> bool option) \<Rightarrow> SUPDRVBUNDLE list \<Rightarrow> (SUPDRVMEMREF \<times> SUPDRVBUNDLE list) option option" where
  "bdl_take P [] = Some None"
| "bdl_take P (b # bs) =
     (if 0 < bdl_cUsed b then
        (case slot_take P (bdl_aMem b) of
           None \<Rightarrow> None
         | Some (Some (r, a)) \<Rightarrow> Some (Some (r, b\<lparr>bdl_aMem := a\<rparr> # bs))
         | Some None \<Rightarrow> map_option (map_option (\<lambda>(x, bs'). (x, b # bs'))) (bdl_take P bs))
      else map_option (map_option (\<lambda>(x, bs'). (x, b # bs'))) (bdl_take P bs))"

text \<open>The test of most searches: the type, and the address in ring-0 or in ring-3.\<close>

definition mem_match :: "memheap \<Rightarrow> SUPDRVMEMREFTYPE \<Rightarrow> addr \<Rightarrow> SUPDRVMEMREF \<Rightarrow> bool option" where
  [mem_defs]: "mem_match h eType uPtr r =
     (if mr_eType r = eType \<and> mr_MemObj r \<noteq> 0 then
        Option.bind (RTR0MemObjAddress h (mr_MemObj r)) (\<lambda>pv.
          if pv = uPtr then Some True
          else if mr_MapObjR3 r \<noteq> 0 then map_option (\<lambda>pvR3. pvR3 = uPtr) (RTR0MemObjAddressR3 h (mr_MapObjR3 r))
          else Some False)
      else Some False)"

text \<open>Both objects of an entry are freed; the driver only asserts that this works.\<close>

definition mem_free_entry :: "r0host \<Rightarrow> memheap \<Rightarrow> SUPDRVMEMREF \<Rightarrow> memheap option" where
  [mem_defs]: "mem_free_entry hst h r =
     Option.bind (if mr_MapObjR3 r \<noteq> 0 then RTR0MemObjFree hst h (mr_MapObjR3 r) False else Some (VINF_SUCCESS, h))
       (\<lambda>(_, h1). map_option snd
          (if mr_MemObj r \<noteq> 0 then RTR0MemObjFree hst h1 (mr_MemObj r) True else Some (VINF_SUCCESS, h1)))"

definition supdrvMemRelease ::
  "r0host \<Rightarrow> supdrv \<Rightarrow> addr \<Rightarrow> SUPDRVSESSION \<Rightarrow> addr \<Rightarrow> SUPDRVMEMREFTYPE \<Rightarrow> (status \<times> supdrv) option" where
  [mem_defs]: "supdrvMemRelease hst w pSession s uPtr eType =
     (if uPtr = 0 then Some (VERR_INVALID_PARAMETER, w)
      else
        (case bdl_take (mem_match (w_memobjs w) eType uPtr) (ses_Bundle s) of
           None \<Rightarrow> None
         | Some None \<Rightarrow> Some (VERR_INVALID_PARAMETER, w)
         | Some (Some (r, bs)) \<Rightarrow>
             map_option (\<lambda>h. (VINF_SUCCESS, (set_sess w pSession (s\<lparr>ses_Bundle := bs\<rparr>))\<lparr>w_memobjs := h\<rparr>))
               (mem_free_entry hst (w_memobjs w) r)))"

subsection \<open>Operations\<close>

text \<open>
  Each operation starts with \<open>SUP_IS_SESSION_VALID\<close>, which reads the session. \<open>fAlloc\<close> is as above.
  Output parameters are results; the pointers to them are parameters where the code checks them.
\<close>

definition with_session :: "supdrv \<Rightarrow> addr \<Rightarrow> 'a \<Rightarrow> (SUPDRVSESSION \<Rightarrow> 'a option) \<Rightarrow> 'a option" where
  "with_session w pSession d f =
     (if \<not> RT_VALID_PTR pSession then Some d
      else case w_sess w pSession of
             None \<Rightarrow> None
           | Some s \<Rightarrow> if \<not> SUP_IS_SESSION_VALID pSession s then Some d else f s)"

definition mem_result :: "supdrv \<Rightarrow> memheap \<Rightarrow> supdrv" where
  "mem_result w h = w\<lparr>w_memobjs := h\<rparr>"

text \<open>Page addresses from the last page to the first, stopping at the first unknown one.\<close>

primrec phys_down :: "r0host \<Rightarrow> memheap \<Rightarrow> addr \<Rightarrow> nat \<Rightarrow> u64 list \<Rightarrow> (bool \<times> u64 list) option" where
  "phys_down hst h p 0 acc = Some (True, acc)"
| "phys_down hst h p (Suc n) acc =
     (case RTR0MemObjGetPagePhysAddr hst h p (of_nat n) of
        None \<Rightarrow> None
      | Some a \<Rightarrow> if a = NIL_RTHCPHYS then Some (False, a # acc) else phys_down hst h p n (a # acc))"

text \<open>Page addresses of pages \<open>i\<close> to \<open>i + n - 1\<close>, unknown ones included.\<close>

primrec phys_up :: "r0host \<Rightarrow> memheap \<Rightarrow> addr \<Rightarrow> nat \<Rightarrow> nat \<Rightarrow> u64 list option" where
  "phys_up hst h p i 0 = Some []"
| "phys_up hst h p i (Suc n) =
     Option.bind (RTR0MemObjGetPagePhysAddr hst h p (of_nat i))
       (\<lambda>a. map_option (Cons a) (phys_up hst h p (Suc i) n))"

definition SUPR0LockMem ::
  "r0host \<Rightarrow> bool \<Rightarrow> supdrv \<Rightarrow> addr \<Rightarrow> addr \<Rightarrow> u32 \<Rightarrow> addr \<Rightarrow> (status \<times> u64 list \<times> supdrv) option" where
  [mem_defs]: "SUPR0LockMem hst fAlloc w pSession pvR3 cPages paPages =
     with_session w pSession (VERR_INVALID_PARAMETER, [], w) (\<lambda>s.
       if \<not> RT_VALID_PTR paPages then Some (VERR_INVALID_PARAMETER, [], w)
       else if RT_ALIGN_Z pvR3 \<noteq> pvR3 \<or> pvR3 = 0 then Some (VERR_INVALID_PARAMETER, [], w)
       else
         let cb = push_bit PAGE_SHIFT (ucast cPages :: u64)
         in (case RTR0MemObjLockUser hst (w_memobjs w) pvR3 cb RTMEM_PROT_RW (hst_Self hst) of (rc, p, h) \<Rightarrow>
              if RT_FAILURE rc then Some (rc, [], mem_result w h)
              else
                (case phys_down hst h p (unat cPages) [] of
                   None \<Rightarrow> None
                 | Some (fOk, pages) \<Rightarrow>
                     (case (if fOk then supdrvMemAdd fAlloc \<lparr>mr_MemObj = p, mr_MapObjR3 = 0, mr_eType = MEMREF_TYPE_LOCKED\<rparr> s
                            else (VERR_INTERNAL_ERROR, s)) of (rc1, s1) \<Rightarrow>
                        let w1 = mem_result (set_sess w pSession s1) h
                        in if RT_SUCCESS rc1 then Some (rc1, pages, w1)
                           else map_option (\<lambda>(_, h2). (rc1, pages, mem_result w1 h2)) (RTR0MemObjFree hst h p False)))))"

definition SUPR0UnlockMem :: "r0host \<Rightarrow> supdrv \<Rightarrow> addr \<Rightarrow> addr \<Rightarrow> (status \<times> supdrv) option" where
  [mem_defs]: "SUPR0UnlockMem hst w pSession pvR3 =
     with_session w pSession (VERR_INVALID_PARAMETER, w)
       (\<lambda>s. supdrvMemRelease hst w pSession s pvR3 MEMREF_TYPE_LOCKED)"

text \<open>
  What the four allocation functions do with a new memory object \<open>p\<close>: map it to the process
  (if \<open>fMapR3\<close>), record both, and undo everything when one of these fails. The recording counts as
  done when its status is exactly \<open>VINF_SUCCESS\<close>.
\<close>

definition mem_map_add ::
  "r0host \<Rightarrow> bool \<Rightarrow> bool \<Rightarrow> SUPDRVMEMREFTYPE \<Rightarrow> supdrv \<Rightarrow> addr \<Rightarrow> SUPDRVSESSION \<Rightarrow> memheap \<Rightarrow> addr \<Rightarrow>
   (status \<times> addr \<times> supdrv) option" where
  [mem_defs]: "mem_map_add hst fAlloc fMapR3 eType w pSession s h p =
     (case (if fMapR3 then RTR0MemObjMapUser hst h p 0xffffffffffffffff 0 RTMEM_PROT_RWX (hst_Self hst)
            else Some (VINF_SUCCESS, 0, h)) of
        None \<Rightarrow> None
      | Some (rc, pMap, h1) \<Rightarrow>
          if RT_SUCCESS rc then
            (case supdrvMemAdd fAlloc \<lparr>mr_MemObj = p, mr_MapObjR3 = pMap, mr_eType = eType\<rparr> s of (rc1, s1) \<Rightarrow>
               let w1 = mem_result (set_sess w pSession s1) h1
               in if rc1 = 0 then Some (rc1, pMap, w1)
                  else Option.bind (RTR0MemObjFree hst h1 pMap False) (\<lambda>(_, h2).
                         map_option (\<lambda>(_, h3). (rc1, 0, mem_result w1 h3)) (RTR0MemObjFree hst h2 p False)))
          else map_option (\<lambda>(_, h2). (rc, 0, mem_result w h2)) (RTR0MemObjFree hst h1 p False))"

definition SUPR0ContAlloc ::
  "r0host \<Rightarrow> bool \<Rightarrow> supdrv \<Rightarrow> addr \<Rightarrow> u32 \<Rightarrow> addr \<Rightarrow> addr \<Rightarrow> addr \<Rightarrow> (status \<times> (addr \<times> addr \<times> u64) option \<times> supdrv) option" where
  [mem_defs]: "SUPR0ContAlloc hst fAlloc w pSession cPages ppvR0 ppvR3 pHCPhys =
     with_session w pSession (VERR_INVALID_PARAMETER, None, w) (\<lambda>s.
       if ppvR3 = 0 \<or> ppvR0 = 0 \<or> pHCPhys = 0 then Some (VERR_INVALID_PARAMETER, None, w)
       else if cPages < 1 \<or> 256 \<le> cPages then Some (VERR_PAGE_COUNT_OUT_OF_RANGE, None, w)
       else
         (case RTR0MemObjAllocCont hst (w_memobjs w) (ucast (push_bit PAGE_SHIFT cPages)) True of (rc, p, h) \<Rightarrow>
            if RT_FAILURE rc then Some (rc, None, mem_result w h)
            else
              (case mem_map_add hst fAlloc True MEMREF_TYPE_CONT w pSession s h p of
                 None \<Rightarrow> None
               | Some (rc1, pMap, w1) \<Rightarrow>
                   if rc1 \<noteq> 0 then Some (rc1, None, w1)
                   else Option.bind (RTR0MemObjAddress (w_memobjs w1) p) (\<lambda>pvR0.
                        Option.bind (RTR0MemObjAddressR3 (w_memobjs w1) pMap) (\<lambda>pvR3.
                        map_option (\<lambda>phys. (VINF_SUCCESS, Some (pvR0, pvR3, phys), w1))
                          (RTR0MemObjGetPagePhysAddr hst (w_memobjs w1) p 0))))))"

definition SUPR0ContFree :: "r0host \<Rightarrow> supdrv \<Rightarrow> addr \<Rightarrow> addr \<Rightarrow> (status \<times> supdrv) option" where
  [mem_defs]: "SUPR0ContFree hst w pSession uPtr =
     with_session w pSession (VERR_INVALID_PARAMETER, w)
       (\<lambda>s. supdrvMemRelease hst w pSession s uPtr MEMREF_TYPE_CONT)"

definition SUPR0LowAlloc ::
  "r0host \<Rightarrow> bool \<Rightarrow> supdrv \<Rightarrow> addr \<Rightarrow> u32 \<Rightarrow> addr \<Rightarrow> addr \<Rightarrow> addr \<Rightarrow> (status \<times> (addr \<times> addr \<times> u64 list) option \<times> supdrv) option" where
  [mem_defs]: "SUPR0LowAlloc hst fAlloc w pSession cPages ppvR0 ppvR3 paPages =
     with_session w pSession (VERR_INVALID_PARAMETER, None, w) (\<lambda>s.
       if ppvR3 = 0 \<or> ppvR0 = 0 \<or> paPages = 0 then Some (VERR_INVALID_PARAMETER, None, w)
       else if cPages < 1 \<or> 256 \<le> cPages then Some (VERR_PAGE_COUNT_OUT_OF_RANGE, None, w)
       else
         (case RTR0MemObjAllocLow hst (w_memobjs w) (ucast (push_bit PAGE_SHIFT cPages)) True of (rc, p, h) \<Rightarrow>
            if RT_FAILURE rc then Some (rc, None, mem_result w h)
            else
              (case mem_map_add hst fAlloc True MEMREF_TYPE_LOW w pSession s h p of
                 None \<Rightarrow> None
               | Some (rc1, pMap, w1) \<Rightarrow>
                   if rc1 \<noteq> 0 then Some (rc1, None, w1)
                   else Option.bind (phys_up hst (w_memobjs w1) p 0 (unat cPages)) (\<lambda>pages.
                        Option.bind (RTR0MemObjAddress (w_memobjs w1) p) (\<lambda>pvR0.
                        map_option (\<lambda>pvR3. (VINF_SUCCESS, Some (pvR0, pvR3, pages), w1))
                          (RTR0MemObjAddressR3 (w_memobjs w1) pMap))))))"

definition SUPR0LowFree :: "r0host \<Rightarrow> supdrv \<Rightarrow> addr \<Rightarrow> addr \<Rightarrow> (status \<times> supdrv) option" where
  [mem_defs]: "SUPR0LowFree hst w pSession uPtr =
     with_session w pSession (VERR_INVALID_PARAMETER, w)
       (\<lambda>s. supdrvMemRelease hst w pSession s uPtr MEMREF_TYPE_LOW)"

definition SUPR0MemAlloc ::
  "r0host \<Rightarrow> bool \<Rightarrow> supdrv \<Rightarrow> addr \<Rightarrow> u32 \<Rightarrow> addr \<Rightarrow> addr \<Rightarrow> (status \<times> (addr \<times> addr) option \<times> supdrv) option" where
  [mem_defs]: "SUPR0MemAlloc hst fAlloc w pSession cb ppvR0 ppvR3 =
     with_session w pSession (VERR_INVALID_PARAMETER, None, w) (\<lambda>s.
       if \<not> RT_VALID_PTR ppvR0 then Some (VERR_INVALID_POINTER, None, w)
       else if \<not> RT_VALID_PTR ppvR3 then Some (VERR_INVALID_POINTER, None, w)
       else if cb < 1 \<or> 0x400000 \<le> cb then Some (VERR_INVALID_PARAMETER, None, w)
       else
         (case RTR0MemObjAllocPage hst (w_memobjs w) (ucast cb) True of (rc, p, h) \<Rightarrow>
            if RT_FAILURE rc then Some (rc, None, mem_result w h)
            else
              (case mem_map_add hst fAlloc True MEMREF_TYPE_MEM w pSession s h p of
                 None \<Rightarrow> None
               | Some (rc1, pMap, w1) \<Rightarrow>
                   if rc1 \<noteq> 0 then Some (rc1, None, w1)
                   else Option.bind (RTR0MemObjAddress (w_memobjs w1) p) (\<lambda>pvR0.
                        map_option (\<lambda>pvR3. (VINF_SUCCESS, Some (pvR0, pvR3), w1))
                          (RTR0MemObjAddressR3 (w_memobjs w1) pMap)))))"

definition SUPR0MemGetPhys ::
  "r0host \<Rightarrow> supdrv \<Rightarrow> addr \<Rightarrow> addr \<Rightarrow> addr \<Rightarrow> (status \<times> u64 list) option" where
  [mem_defs]: "SUPR0MemGetPhys hst w pSession uPtr paPages =
     with_session w pSession (VERR_INVALID_PARAMETER, []) (\<lambda>s.
       if \<not> RT_VALID_PTR paPages then Some (VERR_INVALID_POINTER, [])
       else if uPtr = 0 then Some (VERR_INVALID_PARAMETER, [])
       else
         (case bdl_take (mem_match (w_memobjs w) MEMREF_TYPE_MEM uPtr) (ses_Bundle s) of
            None \<Rightarrow> None
          | Some None \<Rightarrow> Some (VERR_INVALID_PARAMETER, [])
          | Some (Some (r, _)) \<Rightarrow>
              Option.bind (RTR0MemObjSize (w_memobjs w) (mr_MemObj r)) (\<lambda>cb.
                map_option (Pair VINF_SUCCESS)
                  (phys_up hst (w_memobjs w) (mr_MemObj r) 0 (unat (drop_bit PAGE_SHIFT cb))))))"

definition SUPR0MemFree :: "r0host \<Rightarrow> supdrv \<Rightarrow> addr \<Rightarrow> addr \<Rightarrow> (status \<times> supdrv) option" where
  [mem_defs]: "SUPR0MemFree hst w pSession uPtr =
     with_session w pSession (VERR_INVALID_PARAMETER, w)
       (\<lambda>s. supdrvMemRelease hst w pSession s uPtr MEMREF_TYPE_MEM)"

subsection \<open>Page memory\<close>

text \<open>The physical addresses come from the ring-3 mapping, which may be NIL; the pages go downwards.\<close>

primrec phys_map :: "r0host \<Rightarrow> memheap \<Rightarrow> addr \<Rightarrow> nat \<Rightarrow> u64 list \<Rightarrow> u64 list option" where
  "phys_map hst h p 0 acc = Some acc"
| "phys_map hst h p (Suc n) acc =
     Option.bind (RTR0MemObjGetPagePhysAddr hst h p (of_nat n)) (\<lambda>a. phys_map hst h p n (a # acc))"

definition SUPR0PageAllocEx ::
  "r0host \<Rightarrow> bool \<Rightarrow> supdrv \<Rightarrow> addr \<Rightarrow> u32 \<Rightarrow> u32 \<Rightarrow> addr \<Rightarrow> addr \<Rightarrow> addr \<Rightarrow>
   (status \<times> (addr \<times> addr \<times> u64 list) option \<times> supdrv) option" where
  [mem_defs]: "SUPR0PageAllocEx hst fAlloc w pSession cPages fFlags ppvR3 ppvR0 paPages =
     with_session w pSession (VERR_INVALID_PARAMETER, None, w) (\<lambda>s.
       if ppvR3 \<noteq> 0 \<and> \<not> RT_VALID_PTR ppvR3 then Some (VERR_INVALID_POINTER, None, w)
       else if ppvR0 \<noteq> 0 \<and> \<not> RT_VALID_PTR ppvR0 then Some (VERR_INVALID_POINTER, None, w)
       else if ppvR3 = 0 \<and> ppvR0 = 0 then Some (VERR_INVALID_PARAMETER, None, w)
       else if fFlags \<noteq> 0 then Some (VERR_INVALID_PARAMETER, None, w)
       else if cPages < 1 \<or> VBOX_MAX_ALLOC_PAGE_COUNT < cPages then Some (VERR_PAGE_COUNT_OUT_OF_RANGE, None, w)
       else
         (case (if ppvR0 \<noteq> 0 then RTR0MemObjAllocPage hst (w_memobjs w) (ucast cPages * PAGE_SIZE) True
                else RTR0MemObjAllocPhysNC hst (w_memobjs w) (ucast cPages * PAGE_SIZE) NIL_RTHCPHYS) of (rc, p, h) \<Rightarrow>
            if RT_FAILURE rc then Some (rc, None, mem_result w h)
            else
              (case mem_map_add hst fAlloc (ppvR3 \<noteq> 0) MEMREF_TYPE_PAGE w pSession s h p of
                 None \<Rightarrow> None
               | Some (rc1, pMap, w1) \<Rightarrow>
                   if rc1 \<noteq> 0 then Some (rc1, None, w1)
                   else
                     Option.bind (if ppvR3 \<noteq> 0 then RTR0MemObjAddressR3 (w_memobjs w1) pMap else Some 0) (\<lambda>pvR3.
                     Option.bind (if ppvR0 \<noteq> 0 then RTR0MemObjAddress (w_memobjs w1) p else Some 0) (\<lambda>pvR0.
                     map_option (\<lambda>pages. (VINF_SUCCESS, Some (pvR3, pvR0, pages), w1))
                       (if paPages \<noteq> 0 then phys_map hst (w_memobjs w1) pMap (unat cPages) [] else Some []))))))"

text \<open>
  The searches of the next two operations leave the loop over one bundle at the first match but go on
  with the next bundle, so the match in the last bundle counts.
\<close>

primrec bdl_last ::
  "(SUPDRVMEMREF \<Rightarrow> bool option) \<Rightarrow> SUPDRVBUNDLE list \<Rightarrow> SUPDRVMEMREF option \<Rightarrow> SUPDRVMEMREF option option" where
  "bdl_last P [] x = Some x"
| "bdl_last P (b # bs) x =
     (if 0 < bdl_cUsed b then
        (case slot_take P (bdl_aMem b) of
           None \<Rightarrow> None
         | Some (Some (r, _)) \<Rightarrow> bdl_last P bs (Some r)
         | Some None \<Rightarrow> bdl_last P bs x)
      else bdl_last P bs x)"

definition map_match :: "memheap \<Rightarrow> addr \<Rightarrow> SUPDRVMEMREF \<Rightarrow> bool option" where
  [mem_defs]: "map_match h pvR3 r =
     (if mr_eType r = MEMREF_TYPE_PAGE \<and> mr_MemObj r \<noteq> 0 \<and> mr_MapObjR3 r \<noteq> 0 then
        map_option (\<lambda>pv. pv = pvR3) (RTR0MemObjAddressR3 h (mr_MapObjR3 r))
      else if mr_eType r = MEMREF_TYPE_LOCKED \<and> mr_MemObj r \<noteq> 0 \<and> mr_MapObjR3 r = 0 then
        map_option (\<lambda>pv. pv = pvR3) (RTR0MemObjAddressR3 h (mr_MemObj r))
      else Some False)"

text \<open>
  The bounds are 32-bit sums compared with a 64-bit size. \<open>ppvR0\<close> may be NULL for the first check
  but is written on success.
\<close>

definition SUPR0PageMapKernel ::
  "r0host \<Rightarrow> supdrv \<Rightarrow> addr \<Rightarrow> addr \<Rightarrow> u32 \<Rightarrow> u32 \<Rightarrow> u32 \<Rightarrow> addr \<Rightarrow> (status \<times> addr \<times> supdrv) option" where
  [mem_defs]: "SUPR0PageMapKernel hst w pSession pvR3 offSub cbSub fFlags ppvR0 =
     with_session w pSession (VERR_INVALID_PARAMETER, 0, w) (\<lambda>s.
       if ppvR0 \<noteq> 0 \<and> \<not> RT_VALID_PTR ppvR0 then Some (VERR_INVALID_POINTER, 0, w)
       else if fFlags \<noteq> 0 then Some (VERR_INVALID_PARAMETER, 0, w)
       else if offSub AND 0xfff \<noteq> 0 then Some (VERR_INVALID_PARAMETER, 0, w)
       else if cbSub AND 0xfff \<noteq> 0 then Some (VERR_INVALID_PARAMETER, 0, w)
       else if cbSub = 0 then Some (VERR_INVALID_PARAMETER, 0, w)
       else
         (case bdl_last (map_match (w_memobjs w) pvR3) (ses_Bundle s) None of
            None \<Rightarrow> None
          | Some None \<Rightarrow> Some (VERR_INVALID_PARAMETER, 0, w)
          | Some (Some r) \<Rightarrow>
              Option.bind (RTR0MemObjSize (w_memobjs w) (mr_MemObj r)) (\<lambda>cbMemObj.
                if ucast offSub < cbMemObj \<and> ucast cbSub \<le> cbMemObj \<and> ucast (offSub + cbSub) \<le> cbMemObj then
                  Option.bind (RTR0MemObjMapKernelEx hst (w_memobjs w) (mr_MemObj r) 0xffffffffffffffff 0
                                 RTMEM_PROT_RW (ucast offSub) (ucast cbSub)) (\<lambda>(rc, pMap, h).
                    if RT_SUCCESS rc then
                      (if ppvR0 = 0 then None
                       else map_option (\<lambda>pv. (rc, pv, mem_result w h)) (RTR0MemObjAddress h pMap))
                    else Some (rc, 0, mem_result w h))
                else Some (VERR_INVALID_PARAMETER, 0, w))))"

definition prot_match :: "memheap \<Rightarrow> addr \<Rightarrow> addr \<Rightarrow> SUPDRVMEMREF \<Rightarrow> bool option" where
  [mem_defs]: "prot_match h pvR3 pvR0 r =
     (if mr_eType r = MEMREF_TYPE_PAGE \<and> mr_MemObj r \<noteq> 0 \<and> (mr_MapObjR3 r \<noteq> 0 \<or> pvR3 = 0) then
        Option.bind (if pvR0 = 0 then Some True else map_option (\<lambda>pv. pv = pvR0) (RTR0MemObjAddress h (mr_MemObj r)))
          (\<lambda>fR0. if \<not> fR0 then Some False
                  else if pvR3 = 0 then Some True
                  else map_option (\<lambda>pv. pv = pvR3) (RTR0MemObjAddressR3 h (mr_MapObjR3 r)))
      else Some False)"

definition SUPR0PageProtect ::
  "r0host \<Rightarrow> supdrv \<Rightarrow> addr \<Rightarrow> addr \<Rightarrow> addr \<Rightarrow> u32 \<Rightarrow> u32 \<Rightarrow> u32 \<Rightarrow> (status \<times> supdrv) option" where
  [mem_defs]: "SUPR0PageProtect hst w pSession pvR3 pvR0 offSub cbSub fProt =
     with_session w pSession (VERR_INVALID_PARAMETER, w) (\<lambda>s.
       if fProt AND NOT RTMEM_PROT_RWX \<noteq> 0 then Some (VERR_INVALID_PARAMETER, w)
       else if offSub AND 0xfff \<noteq> 0 then Some (VERR_INVALID_PARAMETER, w)
       else if cbSub AND 0xfff \<noteq> 0 then Some (VERR_INVALID_PARAMETER, w)
       else if cbSub = 0 then Some (VERR_INVALID_PARAMETER, w)
       else
         (case bdl_last (prot_match (w_memobjs w) pvR3 pvR0) (ses_Bundle s) None of
            None \<Rightarrow> None
          | Some x \<Rightarrow>
              let hMemObjR0 = (case x of Some r \<Rightarrow> if pvR0 \<noteq> 0 then mr_MemObj r else 0 | None \<Rightarrow> 0);
                  hMemObjR3 = (case x of Some r \<Rightarrow> if pvR3 \<noteq> 0 then mr_MapObjR3 r else 0 | None \<Rightarrow> 0)
              in if hMemObjR0 = 0 \<and> hMemObjR3 = 0 then Some (VERR_INVALID_PARAMETER, w)
                 else
                   Option.bind (if hMemObjR0 \<noteq> 0 then RTR0MemObjSize (w_memobjs w) hMemObjR0
                                else RTR0MemObjSize (w_memobjs w) hMemObjR3) (\<lambda>cbMemObj.
                     if ucast offSub < cbMemObj \<and> ucast cbSub \<le> cbMemObj \<and> ucast (offSub + cbSub) \<le> cbMemObj then
                       Option.bind (if hMemObjR3 \<noteq> 0
                                    then RTR0MemObjProtect hst (w_memobjs w) hMemObjR3 (ucast offSub) (ucast cbSub) fProt
                                    else Some (VINF_SUCCESS, w_memobjs w)) (\<lambda>(rc, h).
                         if hMemObjR0 \<noteq> 0 \<and> RT_SUCCESS rc
                         then map_option (\<lambda>(rc', h'). (rc', mem_result w h'))
                                (RTR0MemObjProtect hst h hMemObjR0 (ucast offSub) (ucast cbSub) fProt)
                         else Some (rc, mem_result w h))
                     else Some (VERR_INVALID_PARAMETER, w))))"

definition SUPR0PageFree :: "r0host \<Rightarrow> supdrv \<Rightarrow> addr \<Rightarrow> addr \<Rightarrow> (status \<times> supdrv) option" where
  [mem_defs]: "SUPR0PageFree hst w pSession pvR3 =
     with_session w pSession (VERR_INVALID_PARAMETER, w)
       (\<lambda>s. supdrvMemRelease hst w pSession s pvR3 MEMREF_TYPE_PAGE)"

subsection \<open>Session cleanup\<close>

text \<open>
  The memory loop of \<open>supdrvCleanupSession\<close>: all entries of all bundles, then the bundles other than
  the embedded one are freed.
\<close>

primrec mem_free_entries :: "r0host \<Rightarrow> memheap \<Rightarrow> SUPDRVMEMREF list \<Rightarrow> memheap option" where
  "mem_free_entries hst h [] = Some h"
| "mem_free_entries hst h (r # rs) =
     (if mr_MemObj r \<noteq> 0
      then Option.bind (mem_free_entry hst h r) (\<lambda>h1. mem_free_entries hst h1 rs)
      else mem_free_entries hst h rs)"

primrec mem_free_bundles :: "r0host \<Rightarrow> memheap \<Rightarrow> SUPDRVBUNDLE list \<Rightarrow> memheap option" where
  "mem_free_bundles hst h [] = Some h"
| "mem_free_bundles hst h (b # bs) =
     Option.bind (mem_free_entries hst h (bdl_aMem b)) (\<lambda>h1. mem_free_bundles hst h1 bs)"

definition mr_cleared :: "SUPDRVMEMREF \<Rightarrow> SUPDRVMEMREF" where
  "mr_cleared r = (if mr_MemObj r \<noteq> 0 then mr_unused else r)"

definition bdl_cleared :: "SUPDRVBUNDLE \<Rightarrow> SUPDRVBUNDLE" where
  "bdl_cleared b = \<lparr>bdl_aMem = map mr_cleared (bdl_aMem b), bdl_cUsed = 0\<rparr>"

definition cleanup_mem :: "r0host \<Rightarrow> supdrv \<Rightarrow> addr \<Rightarrow> supdrv option" where
  [mem_defs]: "cleanup_mem hst w pSession =
     (case w_sess w pSession of
        None \<Rightarrow> None
      | Some s \<Rightarrow>
          map_option (\<lambda>h. mem_result (set_sess w pSession (s\<lparr>ses_Bundle := map bdl_cleared (take 1 (ses_Bundle s))\<rparr>)) h)
            (mem_free_bundles hst (w_memobjs w) (ses_Bundle s)))"

subsection \<open>The tracked entries and their invariant\<close>

definition bdl_refs :: "SUPDRVBUNDLE list \<Rightarrow> SUPDRVMEMREF list" where
  "bdl_refs bs = filter (\<lambda>r. mr_MemObj r \<noteq> 0) (concat (map bdl_aMem bs))"

definition mem_refs :: "SUPDRVSESSION \<Rightarrow> SUPDRVMEMREF list" where
  "mem_refs s = bdl_refs (ses_Bundle s)"

text \<open>A bundle has 64 slots, unused ones are blank, and it counts at least the used ones.\<close>

definition bdl_ok :: "SUPDRVBUNDLE \<Rightarrow> bool" where
  "bdl_ok b \<longleftrightarrow> length (bdl_aMem b) = BUNDLE_ENTRIES \<and>
     (\<forall>r\<in>set (bdl_aMem b). mr_MemObj r = 0 \<longrightarrow> r = mr_unused) \<and>
     length (filter (\<lambda>r. mr_MemObj r \<noteq> 0) (bdl_aMem b)) \<le> unat (bdl_cUsed b) \<and> unat (bdl_cUsed b) \<le> BUNDLE_ENTRIES"

definition bundles_ok :: "SUPDRVSESSION \<Rightarrow> bool" where
  "bundles_ok s \<longleftrightarrow> ses_Bundle s \<noteq> [] \<and> (\<forall>b\<in>set (ses_Bundle s). bdl_ok b)"

text \<open>
  An entry owns an object that is no mapping and, if it has a ring-3 mapping, a child of that object.
  No two entries share an object.
\<close>

definition ref_ok :: "memheap \<Rightarrow> SUPDRVMEMREF \<Rightarrow> bool" where
  "ref_ok h r \<longleftrightarrow> (\<exists>m. h (mr_MemObj r) = Some m \<and> \<not> rtR0MemObjIsMapping m) \<and>
     (mr_MapObjR3 r \<noteq> 0 \<longrightarrow> (\<exists>c. h (mr_MapObjR3 r) = Some c \<and> rtR0MemObjIsMapping c \<and> mo_fNative c \<and>
        mo_pParent c = mr_MemObj r))"

definition mem_inv :: "supdrv \<Rightarrow> bool" where
  "mem_inv w \<longleftrightarrow> mo_inv (w_memobjs w) \<and>
     (\<forall>p s. w_sess w p = Some s \<longrightarrow> bundles_ok s \<and> distinct (map mr_MemObj (mem_refs s)) \<and>
        (\<forall>r\<in>set (mem_refs s). ref_ok (w_memobjs w) r)) \<and>
     (\<forall>p q s t r u. w_sess w p = Some s \<longrightarrow> w_sess w q = Some t \<longrightarrow> p \<noteq> q \<longrightarrow>
        r \<in> set (mem_refs s) \<longrightarrow> u \<in> set (mem_refs t) \<longrightarrow> mr_MemObj r \<noteq> mr_MemObj u)"

subsection \<open>Adding an entry\<close>

abbreviation slot_used :: "SUPDRVMEMREF list \<Rightarrow> SUPDRVMEMREF list" where
  "slot_used \<equiv> filter (\<lambda>r. mr_MemObj r \<noteq> 0)"

lemma bdl_refs_simps [simp]:
  "bdl_refs [] = []" "bdl_refs (b # bs) = slot_used (bdl_aMem b) @ bdl_refs bs"
  "bdl_refs (bs @ cs) = bdl_refs bs @ bdl_refs cs"
  by (simp_all add: bdl_refs_def)

lemma bdl_refs_used: "r \<in> set (bdl_refs bs) \<Longrightarrow> mr_MemObj r \<noteq> 0"
  by (auto simp: bdl_refs_def)

text \<open>\<open>B\<close> is \<open>A\<close> with \<open>m\<close> inserted somewhere.\<close>

definition inserted :: "'a \<Rightarrow> 'a list \<Rightarrow> 'a list \<Rightarrow> bool" where
  "inserted m A B \<longleftrightarrow> (\<exists>xs ys. A = xs @ ys \<and> B = xs @ m # ys)"

lemma inserted_here: "inserted m (xs @ ys) (xs @ m # ys)" "inserted m ys (m # ys)"
  unfolding inserted_def by (metis, metis append_Nil)

lemma inserted_Cons: "inserted m A B \<Longrightarrow> inserted m (x # A) (x # B)"
  unfolding inserted_def by (metis append_Cons)

lemma inserted_append:
  "inserted m A B \<Longrightarrow> inserted m (zs @ A) (zs @ B)" "inserted m A B \<Longrightarrow> inserted m (A @ zs) (B @ zs)"
  unfolding inserted_def by (metis append_assoc, metis append_assoc append_Cons)

lemma inserted_facts:
  assumes "inserted m A B"
  shows "set B = insert m (set A)" "length B = Suc (length A)"
    "distinct (map f B) \<longleftrightarrow> distinct (map f A) \<and> f m \<notin> f ` set A"
  using assms by (auto simp: inserted_def)

lemma slot_add_Some:
  assumes "slot_add m a = Some a'" "mr_MemObj m \<noteq> 0"
  shows "length a' = length a" "set a' \<subseteq> insert m (set a)" "inserted m (slot_used a) (slot_used a')"
proof -
  have "length a' = length a \<and> set a' \<subseteq> insert m (set a) \<and> inserted m (slot_used a) (slot_used a')"
    using assms(1)
  proof (induction a arbitrary: a')
    case (Cons r a)
    show ?case
    proof (cases "mr_MemObj r = 0")
      case True
      then show ?thesis using Cons.prems assms(2) inserted_here(2) by auto
    next
      case False
      then obtain b where b: "slot_add m a = Some b" "a' = r # b" using Cons.prems by auto
      with Cons.IH [OF b(1)] False show ?thesis by (auto intro: inserted_Cons)
    qed
  qed simp
  then show "length a' = length a" "set a' \<subseteq> insert m (set a)" "inserted m (slot_used a) (slot_used a')" by auto
qed

lemma slot_add_None: "slot_add m a = None \<Longrightarrow> slot_used a = a"
  by (induction a) (auto split: if_splits)

text \<open>A bundle that counts fewer than 64 entries has a free slot, so the search never fails there.\<close>

lemma bdl_slot_free:
  assumes "bdl_ok b" "bdl_cUsed b < of_nat BUNDLE_ENTRIES"
  shows "slot_add m (bdl_aMem b) \<noteq> None"
proof
  assume "slot_add m (bdl_aMem b) = None"
  then have "slot_used (bdl_aMem b) = bdl_aMem b" by (rule slot_add_None)
  then show False using assms by (simp add: bdl_ok_def word_less_nat_alt)
qed

abbreviation bdl_count :: "SUPDRVBUNDLE list \<Rightarrow> nat" where
  "bdl_count bs \<equiv> sum_list (map (\<lambda>b. unat (bdl_cUsed b)) bs)"

lemma bdl_ok_add:
  assumes "bdl_ok b" "bdl_cUsed b < of_nat BUNDLE_ENTRIES" "slot_add m (bdl_aMem b) = Some a" "mr_MemObj m \<noteq> 0"
  shows "bdl_ok (b\<lparr>bdl_cUsed := bdl_cUsed b + 1, bdl_aMem := a\<rparr>)" "unat (bdl_cUsed b + 1) = unat (bdl_cUsed b) + 1"
proof -
  have l: "unat (bdl_cUsed b) < 64" using assms(2) by (simp add: word_less_nat_alt)
  then show u: "unat (bdl_cUsed b + 1) = unat (bdl_cUsed b) + 1" by (simp add: unat_word_ariths)
  note S = slot_add_Some [OF assms(3,4)]
  have "\<forall>r\<in>set a. mr_MemObj r = 0 \<longrightarrow> r = mr_unused"
    using S(2) assms(1,4) by (auto simp: bdl_ok_def)
  then show "bdl_ok (b\<lparr>bdl_cUsed := bdl_cUsed b + 1, bdl_aMem := a\<rparr>)"
    using assms(1) l u S(1) inserted_facts(2) [OF S(3)] by (simp add: bdl_ok_def)
qed

lemma bdl_add_ok:
  assumes "\<forall>b\<in>set bs. bdl_ok b" "mr_MemObj m \<noteq> 0"
  shows "case bdl_add m bs of
      None \<Rightarrow> \<forall>b\<in>set bs. unat (bdl_cUsed b) = BUNDLE_ENTRIES
    | Some bs' \<Rightarrow> length bs' = length bs \<and> (\<forall>b\<in>set bs'. bdl_ok b) \<and> bdl_count bs' = bdl_count bs + 1 \<and>
        inserted m (bdl_refs bs) (bdl_refs bs')"
  using assms(1)
proof (induction bs)
  case (Cons b bs)
  have b: "bdl_ok b" using Cons.prems by simp
  show ?case
  proof (cases "bdl_cUsed b < of_nat BUNDLE_ENTRIES")
    case True
    obtain a where a: "slot_add m (bdl_aMem b) = Some a" using bdl_slot_free [OF b True, of m] by blast
    have "inserted m (bdl_refs (b # bs)) (bdl_refs (b\<lparr>bdl_cUsed := bdl_cUsed b + 1, bdl_aMem := a\<rparr> # bs))"
      using inserted_append(2) [OF slot_add_Some(3) [OF a assms(2)]] by simp
    then show ?thesis using True a bdl_ok_add [OF b True a assms(2)] Cons.prems by simp
  next
    case False
    then have n: "unat (bdl_cUsed b) = BUNDLE_ENTRIES"
      using b by (auto simp: bdl_ok_def word_less_nat_alt)
    have e: "bdl_add m (b # bs) = map_option (Cons b) (bdl_add m bs)" using False by simp
    show ?thesis
    proof (cases "bdl_add m bs")
      case None
      then show ?thesis using Cons n unfolding e by simp
    next
      case (Some bs')
      then have "inserted m (slot_used (bdl_aMem b) @ bdl_refs bs) (slot_used (bdl_aMem b) @ bdl_refs bs')"
        using Cons by (intro inserted_append(1)) simp
      then show ?thesis using Some Cons unfolding e by simp
    qed
  qed
qed simp

lemma replicate_last: "(replicate (Suc n) x)[n := m] = replicate n x @ [m]"
  by (induction n) simp_all

lemma bdl_ok_new:
  assumes "mr_MemObj m \<noteq> 0"
  shows "bdl_ok (bdl_new m)" "slot_used (bdl_aMem (bdl_new m)) = [m]" "unat (bdl_cUsed (bdl_new m)) = 1"
proof -
  have e: "bdl_aMem (bdl_new m) = replicate 63 mr_unused @ [m]"
  proof -
    have "(64::nat) = Suc 63" by simp
    then show ?thesis unfolding bdl_new_def by (simp only: SUPDRVBUNDLE.simps diff_Suc_1 replicate_last)
  qed
  have f: "slot_used (replicate n mr_unused) = []" for n by (induction n) (simp_all add: mr_unused_def)
  show u: "slot_used (bdl_aMem (bdl_new m)) = [m]" unfolding e filter_append f using assms by simp
  show c: "unat (bdl_cUsed (bdl_new m)) = 1" by (simp add: bdl_new_def)
  have "\<forall>r\<in>set (bdl_aMem (bdl_new m)). mr_MemObj r = 0 \<longrightarrow> r = mr_unused" unfolding e using assms by simp
  then show "bdl_ok (bdl_new m)" using u c e by (simp add: bdl_ok_def)
qed

lemma bdl_count_full: "\<forall>b\<in>set bs. unat (bdl_cUsed b) = BUNDLE_ENTRIES \<Longrightarrow> bdl_count bs = BUNDLE_ENTRIES * length bs"
  by (induction bs) auto

lemma bdl_count_le: "\<forall>b\<in>set bs. bdl_ok b \<Longrightarrow> bdl_count bs \<le> BUNDLE_ENTRIES * length bs"
  by (induction bs) (auto simp: bdl_ok_def)

text \<open>The whole of \<open>supdrvMemAdd\<close>\<close>

lemma supdrvMemAdd_ok:
  assumes "bundles_ok s" "mr_MemObj m \<noteq> 0"
  obtains bs where
    "supdrvMemAdd fAlloc m s =
       (if bs = ses_Bundle s then (VERR_NO_MEMORY, s) else (VINF_SUCCESS, s\<lparr>ses_Bundle := bs\<rparr>))"
    "bs = ses_Bundle s \<longleftrightarrow> \<not> fAlloc \<and> (\<forall>b\<in>set (ses_Bundle s). unat (bdl_cUsed b) = BUNDLE_ENTRIES)"
    "bundles_ok (s\<lparr>ses_Bundle := bs\<rparr>)"
    "bs \<noteq> ses_Bundle s \<Longrightarrow> inserted m (mem_refs s) (bdl_refs bs) \<and> bdl_count bs = bdl_count (ses_Bundle s) + 1"
proof -
  have ok: "\<forall>b\<in>set (ses_Bundle s). bdl_ok b" using assms(1) by (simp add: bundles_ok_def)
  note A = bdl_add_ok [OF ok assms(2)]
  have ne: "bs \<noteq> ses_Bundle s" if "inserted m (mem_refs s) (bdl_refs bs)" for bs
    using inserted_facts(2) [OF that] by (auto simp: mem_refs_def)
  show thesis
  proof (cases "bdl_add m (ses_Bundle s)")
    case (Some bs)
    then have bs: "length bs = length (ses_Bundle s)" "\<forall>b\<in>set bs. bdl_ok b" "bdl_count bs = bdl_count (ses_Bundle s) + 1"
      "inserted m (mem_refs s) (bdl_refs bs)" using A by (simp_all add: mem_refs_def)
    have nf: "\<not> (\<forall>b\<in>set (ses_Bundle s). unat (bdl_cUsed b) = BUNDLE_ENTRIES)"
      using bdl_count_full [of "ses_Bundle s"] bdl_count_le [OF bs(2)] bs(1,3) by auto
    show thesis
      by (rule that [of bs]) (use Some bs ne nf assms(1) in \<open>auto simp: supdrvMemAdd_def bundles_ok_def\<close>)
  next
    case None
    then have full: "\<forall>b\<in>set (ses_Bundle s). unat (bdl_cUsed b) = BUNDLE_ENTRIES" using A by simp
    show thesis
    proof (cases fAlloc)
      case False
      then show thesis
        by (intro that [of "ses_Bundle s"]) (use None full assms(1) in \<open>auto simp: supdrvMemAdd_def\<close>)
    next
      case True
      let ?bs = "take 1 (ses_Bundle s) @ bdl_new m # drop 1 (ses_Bundle s)"
      obtain b0 bs0 where c: "ses_Bundle s = b0 # bs0" using assms(1) by (auto simp: bundles_ok_def neq_Nil_conv)
      have i: "inserted m (mem_refs s) (bdl_refs ?bs)"
        using inserted_here(1) by (simp add: c mem_refs_def bdl_ok_new [OF assms(2)])
      show thesis
        by (rule that [of ?bs])
          (use None True i ne [OF i] ok bdl_ok_new [OF assms(2)] in \<open>auto simp: supdrvMemAdd_def bundles_ok_def c\<close>)
    qed
  qed
qed

subsection \<open>Finding and taking an entry\<close>

lemma slot_take_ok:
  assumes "\<forall>r\<in>set a. P r = Some (Q r)" "\<And>r. Q r \<Longrightarrow> mr_MemObj r \<noteq> 0"
  shows "\<exists>a'. slot_take P a = Some (map_option (\<lambda>r. (r, a')) (find Q (slot_used a))) \<and>
    (find Q (slot_used a) \<noteq> None \<longrightarrow>
       length a' = length a \<and> set a' \<subseteq> insert mr_unused (set a) \<and> slot_used a' = remove_first Q (slot_used a))"
  using assms(1)
proof (induction a)
  case (Cons r a)
  show ?case
  proof (cases "Q r")
    case True
    then show ?thesis using Cons.prems assms(2) [OF True]
      by (intro exI [of _ "mr_unused # a"]) (auto simp: mr_unused_def)
  next
    case False
    from Cons obtain a' where a': "slot_take P a = Some (map_option (\<lambda>r. (r, a')) (find Q (slot_used a)))"
      "find Q (slot_used a) \<noteq> None \<longrightarrow>
         length a' = length a \<and> set a' \<subseteq> insert mr_unused (set a) \<and> slot_used a' = remove_first Q (slot_used a)"
      by auto
    have "slot_take P (r # a) = Some (map_option (\<lambda>x. (x, r # a')) (find Q (slot_used (r # a))))"
      using Cons.prems False a'(1) by (cases "find Q (slot_used a)") auto
    then show ?thesis using False a'(2) by (intro exI [of _ "r # a'"]) auto
  qed
qed simp

lemma bdl_ok_clear:
  assumes "bdl_ok b" "length a = length (bdl_aMem b)" "set a \<subseteq> insert mr_unused (set (bdl_aMem b))"
    "slot_used a = remove_first Q (slot_used (bdl_aMem b))"
  shows "bdl_ok (b\<lparr>bdl_aMem := a\<rparr>)"
proof -
  have l: "length (remove_first Q xs) \<le> length xs" for xs :: "SUPDRVMEMREF list" by (induction xs) auto
  have "length (slot_used a) \<le> length (slot_used (bdl_aMem b))" unfolding assms(4) by (rule l)
  moreover have "\<forall>r\<in>set a. mr_MemObj r = 0 \<longrightarrow> r = mr_unused" using assms(1,3) by (auto simp: bdl_ok_def)
  ultimately show ?thesis using assms(1,2) by (simp add: bdl_ok_def)
qed

lemma find_append: "find Q (xs @ ys) = (case find Q xs of None \<Rightarrow> find Q ys | Some x \<Rightarrow> Some x)"
  by (induction xs) auto

lemma remove_first_append:
  "remove_first Q (xs @ ys) = (if find Q xs = None then xs @ remove_first Q ys else remove_first Q xs @ ys)"
  by (induction xs) auto

lemma bdl_unused_bundle: "bdl_ok b \<Longrightarrow> bdl_cUsed b = 0 \<Longrightarrow> slot_used (bdl_aMem b) = []"
  by (simp add: bdl_ok_def)

lemma bdl_take_ok:
  assumes "\<forall>b\<in>set bs. bdl_ok b" "\<forall>b\<in>set bs. \<forall>r\<in>set (bdl_aMem b). P r = Some (Q r)" "\<And>r. Q r \<Longrightarrow> mr_MemObj r \<noteq> 0"
  shows "\<exists>bs'. bdl_take P bs = Some (map_option (\<lambda>r. (r, bs')) (find Q (bdl_refs bs))) \<and>
    (find Q (bdl_refs bs) \<noteq> None \<longrightarrow> (\<forall>b\<in>set bs'. bdl_ok b) \<and> bdl_refs bs' = remove_first Q (bdl_refs bs) \<and>
       map bdl_cUsed bs' = map bdl_cUsed bs)"
  using assms(1,2)
proof (induction bs)
  case (Cons b bs)
  have IH: "\<exists>bs'. bdl_take P bs = Some (map_option (\<lambda>r. (r, bs')) (find Q (bdl_refs bs))) \<and>
    (find Q (bdl_refs bs) \<noteq> None \<longrightarrow> (\<forall>b\<in>set bs'. bdl_ok b) \<and> bdl_refs bs' = remove_first Q (bdl_refs bs) \<and>
       map bdl_cUsed bs' = map bdl_cUsed bs)"
    using Cons by simp
  then obtain bs' where bs': "bdl_take P bs = Some (map_option (\<lambda>r. (r, bs')) (find Q (bdl_refs bs)))"
    "find Q (bdl_refs bs) \<noteq> None \<longrightarrow> (\<forall>b\<in>set bs'. bdl_ok b) \<and> bdl_refs bs' = remove_first Q (bdl_refs bs) \<and>
       map bdl_cUsed bs' = map bdl_cUsed bs" by blast
  have b: "bdl_ok b" "\<forall>r\<in>set (bdl_aMem b). P r = Some (Q r)" using Cons.prems by simp_all
  obtain a where a: "slot_take P (bdl_aMem b) = Some (map_option (\<lambda>r. (r, a)) (find Q (slot_used (bdl_aMem b))))"
    "find Q (slot_used (bdl_aMem b)) \<noteq> None \<longrightarrow> length a = length (bdl_aMem b) \<and>
       set a \<subseteq> insert mr_unused (set (bdl_aMem b)) \<and> slot_used a = remove_first Q (slot_used (bdl_aMem b))"
    using slot_take_ok [OF b(2) assms(3)] by blast
  show ?case
  proof (cases "find Q (slot_used (bdl_aMem b))")
    case None
    have "bdl_take P (b # bs) = Some (map_option (\<lambda>r. (r, b # bs')) (find Q (bdl_refs (b # bs))))"
      using a(1) bs'(1) None by (cases "find Q (bdl_refs bs)") (simp_all add: find_append)
    moreover have "find Q (bdl_refs (b # bs)) = find Q (bdl_refs bs)" using None by (simp add: find_append)
    ultimately show ?thesis using bs'(2) None b(1)
      by (intro exI [of _ "b # bs'"]) (simp add: remove_first_append del: bdl_take.simps)
  next
    case (Some r)
    have c: "0 < bdl_cUsed b"
    proof (rule ccontr)
      assume "\<not> 0 < bdl_cUsed b"
      then have "slot_used (bdl_aMem b) = []" using bdl_unused_bundle [OF b(1)] by (simp add: word_greater_zero_iff)
      then show False using Some by simp
    qed
    have "bdl_ok (b\<lparr>bdl_aMem := a\<rparr>)" using bdl_ok_clear [OF b(1), of a Q] a(2) Some by simp
    then show ?thesis using a Some c Cons.prems(1)
      by (intro exI [of _ "b\<lparr>bdl_aMem := a\<rparr> # bs"]) (simp add: find_append remove_first_append)
  qed
qed simp

text \<open>The match of the last bundle is one of the matches, and there is one if there is any.\<close>

lemma bdl_last_ok:
  assumes "\<forall>b\<in>set bs. bdl_ok b" "\<forall>b\<in>set bs. \<forall>r\<in>set (bdl_aMem b). P r = Some (Q r)" "\<And>r. Q r \<Longrightarrow> mr_MemObj r \<noteq> 0"
  shows "\<exists>y. bdl_last P bs x = Some y \<and> (find Q (bdl_refs bs) = None \<longrightarrow> y = x) \<and>
    (find Q (bdl_refs bs) \<noteq> None \<longrightarrow> (\<exists>r\<in>set (bdl_refs bs). Q r \<and> y = Some r))"
  using assms(1,2)
proof (induction bs arbitrary: x)
  case (Cons b bs)
  have b: "bdl_ok b" "\<forall>r\<in>set (bdl_aMem b). P r = Some (Q r)" using Cons.prems by simp_all
  have IH: "\<exists>y. bdl_last P bs x = Some y \<and> (find Q (bdl_refs bs) = None \<longrightarrow> y = x) \<and>
    (find Q (bdl_refs bs) \<noteq> None \<longrightarrow> (\<exists>r\<in>set (bdl_refs bs). Q r \<and> y = Some r))" for x
    using Cons by simp
  obtain a where a: "slot_take P (bdl_aMem b) = Some (map_option (\<lambda>r. (r, a)) (find Q (slot_used (bdl_aMem b))))"
    using slot_take_ok [OF b(2) assms(3)] by blast
  show ?case
  proof (cases "find Q (slot_used (bdl_aMem b))")
    case None
    then have "bdl_last P (b # bs) x = bdl_last P bs x" using a by simp
    then show ?thesis using IH [of x] None by (auto simp: find_append)
  next
    case (Some r)
    have r: "r \<in> set (slot_used (bdl_aMem b))" "Q r" using find_SomeD [OF Some] by auto
    have c: "0 < bdl_cUsed b"
    proof (rule ccontr)
      assume "\<not> 0 < bdl_cUsed b"
      then have "slot_used (bdl_aMem b) = []" using bdl_unused_bundle [OF b(1)] by (simp add: word_greater_zero_iff)
      then show False using Some by simp
    qed
    then have "bdl_last P (b # bs) x = bdl_last P bs (Some r)" using a Some by simp
    then show ?thesis using IH [of "Some r"] Some r by (cases "find Q (bdl_refs bs)") (auto simp: find_append)
  qed
qed simp

subsection \<open>Entries and the store of memory objects\<close>

definition host_frees :: "r0host \<Rightarrow> bool" where
  "host_frees hst \<longleftrightarrow> (\<forall>n. RT_SUCCESS (hst_Free hst n))"

lemma ref_ok_cong:
  assumes "ref_ok h r" "h' (mr_MemObj r) = h (mr_MemObj r)" "mr_MapObjR3 r \<noteq> 0 \<longrightarrow> h' (mr_MapObjR3 r) = h (mr_MapObjR3 r)"
  shows "ref_ok h' r" "mem_match h' ty u r = mem_match h ty u r"
  using assms by (auto simp: ref_ok_def mem_match_def RTR0MemObjAddress_def RTR0MemObjAddressR3_def mo_valid_def)

lemma ref_ok_dom:
  assumes "ref_ok h r"
  shows "mr_MemObj r \<in> dom h" "mr_MapObjR3 r \<noteq> 0 \<Longrightarrow> mr_MapObjR3 r \<in> dom h"
  using assms by (auto simp: ref_ok_def)

lemma mem_match_total:
  assumes "mo_inv h" "ref_ok h r"
  shows "\<exists>x. mem_match h ty u r = Some x"
proof -
  obtain m where m: "h (mr_MemObj r) = Some m" using ref_ok_dom(1) [OF assms(2)] by blast
  show ?thesis
  proof (cases "mr_MapObjR3 r = 0")
    case True
    then show ?thesis using mo_read_ok(1) [OF assms(1) m] by (auto simp: mem_match_def)
  next
    case False
    then obtain c where c: "h (mr_MapObjR3 r) = Some c" using ref_ok_dom(2) [OF assms(2)] by blast
    obtain a where "RTR0MemObjAddressR3 h (mr_MapObjR3 r) = Some a" using mo_read_ok(4) [OF assms(1) c] by blast
    then show ?thesis using mo_read_ok(1) [OF assms(1) m] False by (auto simp: mem_match_def)
  qed
qed

lemma mem_match_used: "mem_match h ty u r = Some True \<Longrightarrow> mr_MemObj r \<noteq> 0"
  by (auto simp: mem_match_def split: if_splits)

text \<open>Freeing the objects of an entry\<close>

lemma mem_free_entry_ok:
  assumes "mo_inv h" "ref_ok h r" "host_frees hst" "h (mr_MemObj r) = Some m"
  shows "\<exists>h'. mem_free_entry hst h r = Some h' \<and> mo_inv h' \<and> h' (mr_MemObj r) = None \<and>
    (mr_MapObjR3 r \<noteq> 0 \<longrightarrow> h' (mr_MapObjR3 r) = None) \<and>
    (\<forall>u. ref_ok h u \<longrightarrow> mr_MemObj u \<noteq> mr_MemObj r \<longrightarrow> ref_ok h' u) \<and>
    (\<forall>q. q \<notin> {mr_MemObj r, mr_MapObjR3 r} \<union> set (mo_papMappings m) \<longrightarrow> h' q = h q) \<and> dom h' \<subseteq> dom h"
proof -
  let ?p = "mr_MemObj r" and ?c = "mr_MapObjR3 r"
  have nm: "\<not> rtR0MemObjIsMapping m" using assms(2,4) by (auto simp: ref_ok_def)
  have p0: "?p \<noteq> 0" using mo_invD(2) [OF assms(1,4)] .
  have frees: "\<forall>n. RT_SUCCESS (hst_Free hst n)" using assms(3) by (simp add: host_frees_def)
  have keep: "ref_ok h' u"
    if u: "ref_ok h u" "mr_MemObj u \<noteq> ?p" and h': "\<And>q. q \<notin> {?p, ?c} \<union> set (mo_papMappings m) \<Longrightarrow> h' q = h q"
      and rc: "?c \<noteq> 0 \<longrightarrow> (\<exists>c. h ?c = Some c \<and> rtR0MemObjIsMapping c \<and> mo_pParent c = ?p)" for u h'
  proof (rule ref_ok_cong(1) [OF u(1)])
    have par: "x \<noteq> ?c \<and> x \<notin> set (mo_papMappings m)"
      if "h x = Some y" "rtR0MemObjIsMapping y \<longrightarrow> mo_pParent y \<noteq> ?p" "x \<noteq> 0" for x y
      using that rc mo_invD(6) [OF assms(1,4) nm, of x] by auto
    obtain n where n: "h (mr_MemObj u) = Some n" "\<not> rtR0MemObjIsMapping n" using u(1) by (auto simp: ref_ok_def)
    from par [OF n(1)] n(2) mo_invD(2) [OF assms(1) n(1)] u(2) h' show "h' (mr_MemObj u) = h (mr_MemObj u)" by simp
    show "mr_MapObjR3 u \<noteq> 0 \<longrightarrow> h' (mr_MapObjR3 u) = h (mr_MapObjR3 u)"
    proof
      assume z: "mr_MapObjR3 u \<noteq> 0"
      then obtain c where c: "h (mr_MapObjR3 u) = Some c" "rtR0MemObjIsMapping c" "mo_pParent c = mr_MemObj u"
        using u(1) by (auto simp: ref_ok_def)
      have "mr_MapObjR3 u \<noteq> ?p" using c(1,2) assms(4) nm by auto
      with par [OF c(1) _ z] c(3) u(2) h' show "h' (mr_MapObjR3 u) = h (mr_MapObjR3 u)" by simp
    qed
  qed
  show ?thesis
  proof (cases "?c = 0")
    case True
    let ?h = "(mo_released (set (mo_papMappings m)) h)(?p := None)"
    obtain rc where "RTR0MemObjFree hst h ?p True = Some (rc, ?h)" using RTR0MemObjFree_root [OF assms(1,4) nm frees] by blast
    then have "mem_free_entry hst h r = Some ?h" using True p0 by (simp add: mem_free_entry_def)
    moreover have "mo_inv ?h" by (rule mo_inv_released [OF assms(1,4) nm])
    moreover have fr: "?h q = h q" if "q \<notin> {?p, ?c} \<union> set (mo_papMappings m)" for q using that by (simp add: mo_released_def)
    moreover have "ref_ok ?h u" if "ref_ok h u" "mr_MemObj u \<noteq> ?p" for u
      by (rule keep [OF that]) (use fr True in auto)
    moreover have "dom ?h \<subseteq> dom h" by (auto simp: mo_released_def split: if_splits)
    ultimately show ?thesis using True by (intro exI [of _ ?h]) simp
  next
    case False
    then obtain c where c: "h ?c = Some c" "rtR0MemObjIsMapping c" "mo_fNative c" "mo_pParent c = ?p"
      using assms(2) by (auto simp: ref_ok_def)
    show ?thesis
    proof (rule mo_free_mapping [OF assms(1) c(1-3), of hst False], goal_cases)
      case (1 P)
      have P: "P = m" using 1(1) c(4) assms(4) by simp
      let ?m = "m\<lparr>mo_papMappings := mo_unlink ?c (mo_papMappings m)\<rparr>"
      let ?h1 = "(h(?p \<mapsto> ?m))(?c := None)"
      have ne: "?p \<noteq> ?c" using c(1,2) assms(4) nm by auto
      have i1: "mo_inv ?h1" using 1(5) unfolding P c(4) .
      have m1: "?h1 ?p = Some ?m" "\<not> rtR0MemObjIsMapping ?m" using ne nm by (simp_all add: rtR0MemObjIsMapping_def)
      define H where "H = (mo_released (set (mo_papMappings ?m)) ?h1)(?p := None)"
      obtain rc where rc: "RTR0MemObjFree hst ?h1 ?p True = Some (rc, H)"
        using RTR0MemObjFree_root [OF i1 m1 frees] unfolding H_def by blast
      have f1: "RTR0MemObjFree hst h ?c False = Some (hst_Free hst c, ?h1)"
        using 1(4) frees unfolding P c(4) by simp
      have e: "mem_free_entry hst h r = Some H"
        unfolding mem_free_entry_def using f1 rc False p0 by simp
      have u: "set (mo_papMappings ?m) \<subseteq> set (mo_papMappings m)"
        using mo_unlink_ok(2) [OF mo_invD(5) [OF assms(1,4) nm], of ?c] 1(3) unfolding P by auto
      have fr: "H q = h q" if "q \<notin> {?p, ?c} \<union> set (mo_papMappings m)" for q
        using that u by (auto simp: mo_released_def H_def)
      have k: "ref_ok H u" if "ref_ok h u" "mr_MemObj u \<noteq> ?p" for u
        by (rule keep [OF that]) (use fr c in auto)
      have n: "H ?p = None" "H ?c = None" by (simp_all add: mo_released_def H_def)
      have i: "mo_inv H" unfolding H_def by (rule mo_inv_released [OF i1 m1])
      have "dom H \<subseteq> dom h" using assms(4) by (auto simp: H_def mo_released_def split: if_splits)
      then show ?case using e i n fr k by blast
    qed
  qed
qed

subsection \<open>Preservation\<close>

lemma mem_result_sel [simp]:
  "w_memobjs (mem_result w h) = h" "w_sess (mem_result w h) = w_sess w" "w_objs (mem_result w h) = w_objs w"
  "w_imgs (mem_result w h) = w_imgs w" "w_devext (mem_result w h) = w_devext w" "w_trace (mem_result w h) = w_trace w"
  "w_factories (mem_result w h) = w_factories w"
  by (simp_all add: mem_result_def)

lemma mem_invD:
  assumes "mem_inv w"
  shows "mo_inv (w_memobjs w)"
    "w_sess w p = Some s \<Longrightarrow> bundles_ok s"
    "w_sess w p = Some s \<Longrightarrow> distinct (map mr_MemObj (mem_refs s))"
    "w_sess w p = Some s \<Longrightarrow> r \<in> set (mem_refs s) \<Longrightarrow> ref_ok (w_memobjs w) r"
    "w_sess w p = Some s \<Longrightarrow> w_sess w q = Some t \<Longrightarrow> p \<noteq> q \<Longrightarrow> r \<in> set (mem_refs s) \<Longrightarrow> u \<in> set (mem_refs t) \<Longrightarrow>
       mr_MemObj r \<noteq> mr_MemObj u"
proof -
  note d = assms [unfolded mem_inv_def]
  show "mo_inv (w_memobjs w)" using d by (rule conjunct1)
  note d2 = conjunct1 [OF conjunct2 [OF d], rule_format] and d3 = conjunct2 [OF conjunct2 [OF d], rule_format]
  show "w_sess w p = Some s \<Longrightarrow> bundles_ok s" "w_sess w p = Some s \<Longrightarrow> distinct (map mr_MemObj (mem_refs s))"
    "w_sess w p = Some s \<Longrightarrow> r \<in> set (mem_refs s) \<Longrightarrow> ref_ok (w_memobjs w) r"
    using d2 by blast+
  show "w_sess w p = Some s \<Longrightarrow> w_sess w q = Some t \<Longrightarrow> p \<noteq> q \<Longrightarrow> r \<in> set (mem_refs s) \<Longrightarrow> u \<in> set (mem_refs t) \<Longrightarrow>
       mr_MemObj r \<noteq> mr_MemObj u"
    by (rule d3)
qed

text \<open>One session and the store of objects change.\<close>

lemma mem_inv_upd:
  assumes "mem_inv w" "mo_inv h" "bundles_ok s'" "distinct (map mr_MemObj (mem_refs s'))"
    and "\<And>r. r \<in> set (mem_refs s') \<Longrightarrow> ref_ok h r"
    and "\<And>q t r. q \<noteq> sp \<Longrightarrow> w_sess w q = Some t \<Longrightarrow> r \<in> set (mem_refs t) \<Longrightarrow>
           ref_ok h r \<and> (\<forall>u\<in>set (mem_refs s'). mr_MemObj u \<noteq> mr_MemObj r)"
  shows "mem_inv (mem_result (set_sess w sp s') h)"
  unfolding mem_inv_def
proof (intro conjI allI impI ballI, goal_cases)
  case 1
  then show ?case using assms(2) by simp
next
  case (2 p s)
  then show ?case using assms(3) mem_invD(2) [OF assms(1)] by (cases "p = sp") simp_all
next
  case (3 p s)
  then show ?case using assms(4) mem_invD(3) [OF assms(1)] by (cases "p = sp") simp_all
next
  case (4 p s r)
  then show ?case using assms(5) assms(6) [of p s r] by (cases "p = sp") simp_all
next
  case (5 p q s t r u)
  show ?case
  proof (cases "p = sp \<or> q = sp")
    case True
    then show ?thesis
    proof
      assume "p = sp"
      then show ?thesis using 5 assms(6) [of q t u] by auto
    next
      assume "q = sp"
      then show ?thesis using 5 assms(6) [of p s r] by auto
    qed
  next
    case False
    then show ?thesis using 5 mem_invD(5) [OF assms(1), of p s q t r u] by simp
  qed
qed

lemma bundles_ok_cong: "ses_Bundle s' = ses_Bundle s \<Longrightarrow> bundles_ok s' = bundles_ok s"
  by (simp add: bundles_ok_def)

subsection \<open>Releasing\<close>

definition mem_hit :: "memheap \<Rightarrow> SUPDRVMEMREFTYPE \<Rightarrow> addr \<Rightarrow> SUPDRVMEMREF \<Rightarrow> bool" where
  "mem_hit h ty u r \<longleftrightarrow> mem_match h ty u r = Some True"

lemma bdl_take_search:
  assumes "bundles_ok s" "\<And>r. r \<in> set (mem_refs s) \<Longrightarrow> \<exists>x. P r = Some x" "\<And>r. mr_MemObj r = 0 \<Longrightarrow> P r = Some False"
  shows "\<forall>b\<in>set (ses_Bundle s). bdl_ok b"
    "\<forall>b\<in>set (ses_Bundle s). \<forall>r\<in>set (bdl_aMem b). P r = Some (P r = Some True)"
    "\<And>r. P r = Some True \<Longrightarrow> mr_MemObj r \<noteq> 0"
proof -
  show "\<forall>b\<in>set (ses_Bundle s). bdl_ok b" using assms(1) by (simp add: bundles_ok_def)
  show "\<forall>b\<in>set (ses_Bundle s). \<forall>r\<in>set (bdl_aMem b). P r = Some (P r = Some True)"
  proof (intro ballI)
    fix b r assume br: "b \<in> set (ses_Bundle s)" "r \<in> set (bdl_aMem b)"
    show "P r = Some (P r = Some True)"
    proof (cases "mr_MemObj r = 0")
      case True
      then show ?thesis using assms(3) by simp
    next
      case False
      then have "r \<in> set (mem_refs s)" using br by (auto simp: mem_refs_def bdl_refs_def)
      then show ?thesis using assms(2) [of r] by auto
    qed
  qed
  show "\<And>r. P r = Some True \<Longrightarrow> mr_MemObj r \<noteq> 0" using assms(3) by fastforce
qed

lemma mem_search_ok:
  assumes "mem_inv w" "w_sess w sp = Some s"
  shows "\<exists>bs. bdl_take (mem_match (w_memobjs w) ty u) (ses_Bundle s) =
      Some (map_option (\<lambda>r. (r, bs)) (find (mem_hit (w_memobjs w) ty u) (mem_refs s))) \<and>
    (find (mem_hit (w_memobjs w) ty u) (mem_refs s) \<noteq> None \<longrightarrow> bundles_ok (s\<lparr>ses_Bundle := bs\<rparr>) \<and>
       bdl_refs bs = remove_first (mem_hit (w_memobjs w) ty u) (mem_refs s) \<and>
       map bdl_cUsed bs = map bdl_cUsed (ses_Bundle s))"
proof -
  have b: "bundles_ok s" by (rule mem_invD(2) [OF assms])
  have t: "\<exists>x. mem_match (w_memobjs w) ty u r = Some x" if "r \<in> set (mem_refs s)" for r
    by (rule mem_match_total [OF mem_invD(1) [OF assms(1)] mem_invD(4) [OF assms that]])
  have z: "mem_match (w_memobjs w) ty u r = Some False" if "mr_MemObj r = 0" for r using that by (simp add: mem_match_def)
  let ?P = "mem_match (w_memobjs w) ty u"
  have h: "mem_hit (w_memobjs w) ty u = (\<lambda>r. ?P r = Some True)" by (simp add: mem_hit_def fun_eq_iff)
  note S = bdl_take_search [where P = ?P, OF b t z]
  obtain bs where
    bs: "bdl_take ?P (ses_Bundle s) = Some (map_option (\<lambda>r. (r, bs)) (find (mem_hit (w_memobjs w) ty u) (mem_refs s)))"
    "find (mem_hit (w_memobjs w) ty u) (mem_refs s) \<noteq> None \<longrightarrow> (\<forall>b\<in>set bs. bdl_ok b) \<and>
       bdl_refs bs = remove_first (mem_hit (w_memobjs w) ty u) (mem_refs s) \<and>
       map bdl_cUsed bs = map bdl_cUsed (ses_Bundle s)"
    unfolding h mem_refs_def using bdl_take_ok [OF S(1,2)] mem_match_used by blast
  have "bs \<noteq> []" if "map bdl_cUsed bs = map bdl_cUsed (ses_Bundle s)"
    using that b by (auto simp: bundles_ok_def)
  with bs show ?thesis by (intro exI [of _ bs]) (auto simp: bundles_ok_def)
qed

lemma supdrvMemRelease_found:
  assumes "mem_inv w" "w_sess w sp = Some s" "host_frees hst" "u \<noteq> 0"
    "find (mem_hit (w_memobjs w) ty u) (mem_refs s) = Some r"
  obtains bs h m where
    "supdrvMemRelease hst w sp s u ty = Some (VINF_SUCCESS, mem_result (set_sess w sp (s\<lparr>ses_Bundle := bs\<rparr>)) h)"
    "mem_inv (mem_result (set_sess w sp (s\<lparr>ses_Bundle := bs\<rparr>)) h)"
    "bdl_refs bs = remove_first (mem_hit (w_memobjs w) ty u) (mem_refs s)"
    "w_memobjs w (mr_MemObj r) = Some m" "h (mr_MemObj r) = None" "mr_MapObjR3 r \<noteq> 0 \<longrightarrow> h (mr_MapObjR3 r) = None"
    "\<forall>q. q \<notin> {mr_MemObj r, mr_MapObjR3 r} \<union> set (mo_papMappings m) \<longrightarrow> h q = w_memobjs w q"
    "map bdl_cUsed bs = map bdl_cUsed (ses_Bundle s)"
proof -
  let ?Q = "mem_hit (w_memobjs w) ty u"
  obtain bs where bs: "bdl_take (mem_match (w_memobjs w) ty u) (ses_Bundle s) = Some (Some (r, bs))"
    "bundles_ok (s\<lparr>ses_Bundle := bs\<rparr>)" "bdl_refs bs = remove_first ?Q (mem_refs s)"
    "map bdl_cUsed bs = map bdl_cUsed (ses_Bundle s)"
    using mem_search_ok [OF assms(1,2), of ty u] assms(5) by auto
  have r: "r \<in> set (mem_refs s)" "?Q r" using find_SomeD [OF assms(5)] by auto
  have ro: "ref_ok (w_memobjs w) r" by (rule mem_invD(4) [OF assms(1,2) r(1)])
  obtain m where m: "w_memobjs w (mr_MemObj r) = Some m" using ref_ok_dom(1) [OF ro] by blast
  from mem_free_entry_ok [OF mem_invD(1) [OF assms(1)] ro assms(3) m] obtain h where
    h: "mem_free_entry hst (w_memobjs w) r = Some h" "mo_inv h" "h (mr_MemObj r) = None"
    "mr_MapObjR3 r \<noteq> 0 \<longrightarrow> h (mr_MapObjR3 r) = None"
    "\<forall>v. ref_ok (w_memobjs w) v \<longrightarrow> mr_MemObj v \<noteq> mr_MemObj r \<longrightarrow> ref_ok h v"
    "\<forall>q. q \<notin> {mr_MemObj r, mr_MapObjR3 r} \<union> set (mo_papMappings m) \<longrightarrow> h q = w_memobjs w q" by blast
  have refs: "mem_refs (s\<lparr>ses_Bundle := bs\<rparr>) = remove_first ?Q (mem_refs s)" using bs(3) by (simp add: mem_refs_def)
  obtain ys zs where split: "mem_refs s = ys @ r # zs" "remove_first ?Q (mem_refs s) = ys @ zs"
    using remove_first_split [OF assms(5)] by blast
  have d: "distinct (map mr_MemObj (mem_refs s))" by (rule mem_invD(3) [OF assms(1,2)])
  have others: "mr_MemObj v \<noteq> mr_MemObj r" if "v \<in> set (mem_refs (s\<lparr>ses_Bundle := bs\<rparr>))" for v
    using that d unfolding refs split(2) unfolding split(1) by (auto simp: image_iff)
  have sub: "set (mem_refs (s\<lparr>ses_Bundle := bs\<rparr>)) \<subseteq> set (mem_refs s)" unfolding refs by (rule set_remove_first_subset)
  have inv: "mem_inv (mem_result (set_sess w sp (s\<lparr>ses_Bundle := bs\<rparr>)) h)"
  proof (rule mem_inv_upd [OF assms(1) h(2) bs(2)], goal_cases)
    case 1
    then show ?case unfolding refs by (rule distinct_map_remove_first [OF d])
  next
    case (2 v)
    then show ?case using h(5) mem_invD(4) [OF assms(1,2)] others sub by blast
  next
    case (3 q t v)
    have "ref_ok h v"
      using h(5) mem_invD(4) [OF assms(1) 3(2,3)] mem_invD(5) [OF assms(1) 3(2) assms(2) 3(1) 3(3) r(1)] by blast
    moreover have "mr_MemObj x \<noteq> mr_MemObj v" if "x \<in> set (mem_refs (s\<lparr>ses_Bundle := bs\<rparr>))" for x
      using mem_invD(5) [OF assms(1) 3(2) assms(2) 3(1) 3(3), of x] subsetD [OF sub that] by simp
    ultimately show ?case by blast
  qed
  have e: "supdrvMemRelease hst w sp s u ty = Some (VINF_SUCCESS, mem_result (set_sess w sp (s\<lparr>ses_Bundle := bs\<rparr>)) h)"
    using assms(4) bs(1) h(1) by (simp add: supdrvMemRelease_def mem_result_def)
  show thesis by (rule that [OF e inv bs(3) m h(3,4,6) bs(4)])
qed

lemma supdrvMemRelease_none:
  assumes "mem_inv w" "w_sess w sp = Some s" "u = 0 \<or> find (mem_hit (w_memobjs w) ty u) (mem_refs s) = None"
  shows "supdrvMemRelease hst w sp s u ty = Some (VERR_INVALID_PARAMETER, w)"
proof (cases "u = 0")
  case True
  then show ?thesis by (simp add: supdrvMemRelease_def)
next
  case False
  then have "bdl_take (mem_match (w_memobjs w) ty u) (ses_Bundle s) = Some None"
    using mem_search_ok [OF assms(1,2), of ty u] assms(3) by auto
  then show ?thesis using False by (simp add: supdrvMemRelease_def)
qed

subsection \<open>Allocating\<close>

text \<open>An object that no mapping is added to the store, then perhaps mapped and recorded.\<close>

lemma set_sess_same: "w_sess w sp = Some s \<Longrightarrow> mem_result (set_sess w sp s) (w_memobjs w) = w"
  by (simp add: mem_result_def set_sess_def fun_upd_idem)

lemma MapUser_ok:
  assumes "mo_inv h" "host_ok hst" "h p = Some m" "\<not> rtR0MemObjIsMapping m" "mo_enmType m \<noteq> RTR0MEMOBJTYPE_RES_VIRT"
  obtains rc q h' where
    "RTR0MemObjMapUser hst h p 0xffffffffffffffff 0 RTMEM_PROT_RWX (hst_Self hst) = Some (rc, q, h')" "mo_inv h'"
    "if RT_SUCCESS rc
     then \<exists>c a. RT_VALID_PTR q \<and> h q = None \<and> q \<noteq> p \<and> mo_enmType c = RTR0MEMOBJTYPE_MAPPING \<and> mo_cb c = mo_cb m \<and>
            mo_fNative c \<and> mo_pParent c = p \<and>
            h' = h(p \<mapsto> m\<lparr>mo_cMappingsAllocated := a, mo_papMappings := mo_papMappings m @ [q]\<rparr>, q \<mapsto> c)
     else q = 0 \<and> h' = h"
proof -
  have e: "RTR0MemObjMapUser hst h p 0xffffffffffffffff 0 RTMEM_PROT_RWX (hst_Self hst) =
      mo_map hst h p (hst_MapUser hst h m 0xffffffffffffffff PAGE_SIZE RTMEM_PROT_RWX (hst_Self hst))"
    using assms(4,5) host_okD(8) [OF assms(2)]
    by (simp add: RTR0MemObjMapUser_def mo_valid_ok [OF assms(1,3)] Let_def)
  have n: "native_new h RTR0MEMOBJTYPE_MAPPING (mo_cb m) (hst_MapUser hst h m 0xffffffffffffffff PAGE_SIZE RTMEM_PROT_RWX (hst_Self hst))"
    by (rule host_okD(7) [OF assms(2)])
  show thesis
    unfolding e
  proof (rule mo_map_ok [OF assms(1,3,4) n, of hst], goal_cases)
    case (1 rc q h')
    have "if RT_SUCCESS rc
     then \<exists>c a. RT_VALID_PTR q \<and> h q = None \<and> q \<noteq> p \<and> mo_enmType c = RTR0MEMOBJTYPE_MAPPING \<and> mo_cb c = mo_cb m \<and>
            mo_fNative c \<and> mo_pParent c = p \<and>
            h' = h(p \<mapsto> m\<lparr>mo_cMappingsAllocated := a, mo_papMappings := mo_papMappings m @ [q]\<rparr>, q \<mapsto> c)
     else q = 0 \<and> h' = h" using 1(3) by (simp split: if_splits)
    with 1 show ?case using that unfolding e by blast
  qed
qed

lemma mem_undo:
  assumes "host_frees hst" "mo_inv h1" "h1 p = Some m1" "\<not> rtR0MemObjIsMapping m1"
    "h1 = h(p \<mapsto> m1)" "h p = None" "mo_papMappings m1 = []"
  shows "RTR0MemObjFree hst h1 p False = Some (hst_Free hst m1, h)" "mo_inv h"
proof -
  have e: "h1(p := None) = h" using assms(5,6) by auto
  show "RTR0MemObjFree hst h1 p False = Some (hst_Free hst m1, h)"
    using mo_free_root(1) [OF assms(2-4,7), of hst False] assms(1) by (simp add: host_frees_def e)
  show "mo_inv h" using mo_free_root(2) [OF assms(2-4,7)] unfolding e .
qed

lemma mo_unlink_single [simp]: "mo_unlink q [q] = []"
  by (simp add: mo_unlink_def)

text \<open>Both objects of a new entry are freed again, the mapping first.\<close>

lemma mem_undo_map:
  assumes "host_frees hst" "mo_inv h2" "h2 = h(p \<mapsto> m\<lparr>mo_cMappingsAllocated := a, mo_papMappings := [q]\<rparr>, q \<mapsto> c)"
    "h p = None" "h q = None" "q \<noteq> p" "\<not> rtR0MemObjIsMapping m" "rtR0MemObjIsMapping c" "mo_fNative c" "mo_pParent c = p"
  shows "\<exists>rc rc' h3. RTR0MemObjFree hst h2 q False = Some (rc, h3) \<and> RTR0MemObjFree hst h3 p False = Some (rc', h)"
proof -
  let ?m = "m\<lparr>mo_cMappingsAllocated := a, mo_papMappings := []\<rparr>"
  have c: "h2 q = Some c" using assms(3) by simp
  have p: "h2 p = Some (m\<lparr>mo_cMappingsAllocated := a, mo_papMappings := [q]\<rparr>)" using assms(3,6) by simp
  show ?thesis
  proof (rule mo_free_mapping [OF assms(2) c assms(8,9), of hst False], goal_cases)
    case (1 P)
    have P: "P = m\<lparr>mo_cMappingsAllocated := a, mo_papMappings := [q]\<rparr>" using 1(1) p assms(10) by simp
    have e: "h2(p \<mapsto> P\<lparr>mo_papMappings := mo_unlink q (mo_papMappings P)\<rparr>, q := None) = h(p \<mapsto> ?m)"
      unfolding P assms(3) using assms(4-6) by (auto simp: fun_eq_iff)
    have f: "RTR0MemObjFree hst h2 q False = Some (hst_Free hst c, h(p \<mapsto> ?m))"
      using 1(4) assms(1) unfolding assms(10) e by (simp add: host_frees_def)
    have i: "mo_inv (h(p \<mapsto> ?m))" using 1(5) unfolding assms(10) e .
    have "RTR0MemObjFree hst (h(p \<mapsto> ?m)) p False = Some (hst_Free hst ?m, h)"
      by (rule mem_undo(1) [OF assms(1) i]) (use assms(4,7) in \<open>simp_all add: rtR0MemObjIsMapping_def\<close>)
    with f show ?case by blast
  qed
qed

lemma mem_inv_add:
  assumes "mem_inv w" "w_sess w sp = Some s" "mo_inv h" "bundles_ok (s\<lparr>ses_Bundle := bs\<rparr>)"
    "inserted r (mem_refs s) (bdl_refs bs)" "ref_ok h r" "w_memobjs w (mr_MemObj r) = None"
    "mr_MapObjR3 r \<noteq> 0 \<longrightarrow> w_memobjs w (mr_MapObjR3 r) = None"
    "\<forall>x. x \<noteq> mr_MemObj r \<longrightarrow> x \<noteq> mr_MapObjR3 r \<longrightarrow> h x = w_memobjs w x"
  shows "mem_inv (mem_result (set_sess w sp (s\<lparr>ses_Bundle := bs\<rparr>)) h)"
proof -
  have refs: "mem_refs (s\<lparr>ses_Bundle := bs\<rparr>) = bdl_refs bs" by (simp add: mem_refs_def)
  have old: "ref_ok h u \<and> mr_MemObj u \<noteq> mr_MemObj r" if u: "ref_ok (w_memobjs w) u" for u
  proof -
    have d: "mr_MemObj u \<in> dom (w_memobjs w)" "mr_MapObjR3 u \<noteq> 0 \<Longrightarrow> mr_MapObjR3 u \<in> dom (w_memobjs w)"
      using ref_ok_dom [OF u] by auto
    have nz: "mr_MemObj u \<noteq> 0" using d(1) mo_invD(2) [OF mem_invD(1) [OF assms(1)]] by blast
    have eq: "h x = w_memobjs w x" if x: "x \<in> dom (w_memobjs w)" "x \<noteq> 0" for x
    proof -
      have "x \<noteq> mr_MemObj r" "x \<noteq> mr_MapObjR3 r" using x assms(7,8) by auto
      then show ?thesis using assms(9) by simp
    qed
    have "ref_ok h u" by (rule ref_ok_cong(1) [OF u]) (use eq d nz in auto)
    moreover have "mr_MemObj u \<noteq> mr_MemObj r" using d(1) assms(7) by auto
    ultimately show ?thesis ..
  qed
  show ?thesis
  proof (rule mem_inv_upd [OF assms(1,3,4)], goal_cases)
    case 1
    have "mr_MemObj r \<notin> mr_MemObj ` set (mem_refs s)"
      using old mem_invD(4) [OF assms(1,2)] by (metis imageE)
    then show ?case
      unfolding refs inserted_facts(3) [OF assms(5), of mr_MemObj] using mem_invD(3) [OF assms(1,2)] by blast
  next
    case (2 u)
    then have "u = r \<or> u \<in> set (mem_refs s)" using inserted_facts(1) [OF assms(5)] refs by simp
    then show ?case using assms(6) old mem_invD(4) [OF assms(1,2)] by blast
  next
    case (3 q t u)
    have "mr_MemObj v \<noteq> mr_MemObj u" if "v \<in> set (mem_refs (s\<lparr>ses_Bundle := bs\<rparr>))" for v
    proof -
      have "v = r \<or> v \<in> set (mem_refs s)" using that inserted_facts(1) [OF assms(5)] refs by simp
      then show ?thesis
        using old [OF mem_invD(4) [OF assms(1) 3(2,3)]] mem_invD(5) [OF assms(1) assms(2) 3(2) 3(1) [symmetric] _ 3(3)] by auto
    qed
    then show ?case using old [OF mem_invD(4) [OF assms(1) 3(2,3)]] by blast
  qed
qed

lemma mem_map_add_ok:
  assumes "mem_inv w" "w_sess w sp = Some s" "host_ok hst" "host_frees hst"
    "h = (w_memobjs w)(p \<mapsto> m)" "w_memobjs w p = None" "mo_inv h" "\<not> rtR0MemObjIsMapping m"
    "mo_enmType m \<noteq> RTR0MEMOBJTYPE_RES_VIRT" "mo_papMappings m = []"
  shows "\<exists>rc q w1. mem_map_add hst fAlloc fMap ty w sp s h p = Some (rc, q, w1) \<and> mem_inv w1 \<and>
    (if rc = 0
     then \<exists>bs h1 m1. w1 = mem_result (set_sess w sp (s\<lparr>ses_Bundle := bs\<rparr>)) h1 \<and>
         inserted \<lparr>mr_MemObj = p, mr_MapObjR3 = q, mr_eType = ty\<rparr> (mem_refs s) (bdl_refs bs) \<and>
         bdl_count bs = bdl_count (ses_Bundle s) + 1 \<and>
         h1 p = Some m1 \<and> mo_pv m1 = mo_pv m \<and> mo_cb m1 = mo_cb m \<and> mo_enmType m1 = mo_enmType m \<and>
         set (mo_papMappings m1) \<subseteq> {q} \<and> (fMap \<longleftrightarrow> q \<noteq> 0) \<and>
         (fMap \<longrightarrow> w_memobjs w q = None \<and> q \<noteq> p \<and>
            (\<exists>c. h1 q = Some c \<and> mo_enmType c = RTR0MEMOBJTYPE_MAPPING \<and> mo_cb c = mo_cb m)) \<and>
         (\<forall>x. x \<noteq> p \<longrightarrow> x \<noteq> q \<longrightarrow> h1 x = w_memobjs w x)
     else q = 0 \<and> w1 = w)"
    (is "\<exists>rc q w1. ?E rc q w1 \<and> mem_inv w1 \<and> ?R rc q w1")
proof -
  let ?r = "\<lambda>q. \<lparr>mr_MemObj = p, mr_MapObjR3 = q, mr_eType = ty\<rparr>"
  have hp: "h p = Some m" using assms(5) by simp
  have p0: "p \<noteq> 0" using mo_invD(2) [OF assms(7) hp] .
  have b: "bundles_ok s" by (rule mem_invD(2) [OF assms(1,2)])
  note same = set_sess_same [OF assms(2)]
  have add: thesis
    if x: "(if fMap then RTR0MemObjMapUser hst h p 0xffffffffffffffff 0 RTMEM_PROT_RWX (hst_Self hst)
            else Some (VINF_SUCCESS, 0, h)) = Some (rc0, q, h1)" "RT_SUCCESS rc0" "mo_inv h1"
      and r: "ref_ok h1 (?r q)" "q \<noteq> 0 \<longrightarrow> w_memobjs w q = None \<and> q \<noteq> p"
        "\<forall>x. x \<noteq> p \<longrightarrow> x \<noteq> q \<longrightarrow> h1 x = w_memobjs w x"
      and fail: "\<exists>rc2 rc3 h2. RTR0MemObjFree hst h1 q False = Some (rc2, h2) \<and>
        RTR0MemObjFree hst h2 p False = Some (rc3, w_memobjs w)"
      and ok: "\<And>bs. ?E 0 q (mem_result (set_sess w sp (s\<lparr>ses_Bundle := bs\<rparr>)) h1) \<Longrightarrow>
        mem_inv (mem_result (set_sess w sp (s\<lparr>ses_Bundle := bs\<rparr>)) h1) \<Longrightarrow>
        inserted (?r q) (mem_refs s) (bdl_refs bs) \<Longrightarrow> bdl_count bs = bdl_count (ses_Bundle s) + 1 \<Longrightarrow> thesis"
      and bad: "?E VERR_NO_MEMORY 0 w \<Longrightarrow> thesis" for rc0 q h1 thesis
  proof (rule supdrvMemAdd_ok [OF b, of "?r q" fAlloc], goal_cases)
    case 1
    then show ?case using p0 by simp
  next
    case (2 bs)
    show ?case
    proof (cases "bs = ses_Bundle s")
      case True
      then have a: "supdrvMemAdd fAlloc (?r q) s = (VERR_NO_MEMORY, s)" using 2(1) by simp
      from fail obtain rc2 rc3 h2 where f: "RTR0MemObjFree hst h1 q False = Some (rc2, h2)"
        "RTR0MemObjFree hst h2 p False = Some (rc3, w_memobjs w)" by blast
      have u: "mem_result (mem_result (set_sess w sp s) h1) (w_memobjs w) = w"
        using same by (simp add: mem_result_def)
      show ?thesis by (rule bad) (use x(1,2) a f u in \<open>simp add: mem_map_add_def Let_def\<close>)
    next
      case False
      then have a: "supdrvMemAdd fAlloc (?r q) s = (VINF_SUCCESS, s\<lparr>ses_Bundle := bs\<rparr>)" using 2(1) by simp
      have i: "inserted (?r q) (mem_refs s) (bdl_refs bs)" "bdl_count bs = bdl_count (ses_Bundle s) + 1"
        using 2(4) [OF False] by blast+
      show ?thesis
      proof (rule ok [OF _ _ i])
        show "?E 0 q (mem_result (set_sess w sp (s\<lparr>ses_Bundle := bs\<rparr>)) h1)"
          using x(1,2) a by (simp add: mem_map_add_def Let_def)
        show "mem_inv (mem_result (set_sess w sp (s\<lparr>ses_Bundle := bs\<rparr>)) h1)"
          by (rule mem_inv_add [OF assms(1,2) x(3) 2(3) i(1) r(1)]) (use assms(6) r in auto)
      qed
    qed
  qed
  show ?thesis
  proof (cases fMap)
    case False
    have r: "ref_ok h (?r 0)" using hp assms(8) by (auto simp: ref_ok_def)
    have u: "RTR0MemObjFree hst h p False = Some (hst_Free hst m, w_memobjs w)"
      by (rule mem_undo(1) [OF assms(4,7) hp assms(8,5,6,10)])
    show ?thesis
    proof (rule add [of VINF_SUCCESS 0 h], goal_cases)
      case 6
      then show ?case using assms(5) by simp
    next
      case 7
      then show ?case using u by (simp add: RTR0MemObjFree_def)
    next
      case (8 bs)
      have "?R 0 0 (mem_result (set_sess w sp (s\<lparr>ses_Bundle := bs\<rparr>)) h)"
        by (subst if_P [OF refl], rule exI [of _ bs], rule exI [of _ h], rule exI [of _ m])
          (use 8(3,4) False hp assms(5,10) in simp)
      then show ?case using 8(1,2) by blast
    next
      case 9
      then show ?case using assms(1) by (intro exI [of _ VERR_NO_MEMORY] exI [of _ 0] exI [of _ w]) simp
    qed (use False assms(7) r in simp_all)
  next
    case True
    show ?thesis
    proof (rule MapUser_ok [OF assms(7,3) hp assms(8,9)], goal_cases)
      case (1 rc q h1)
      show ?case
      proof (cases "RT_SUCCESS rc")
        case False
        then have f: "q = 0" "h1 = h" using 1(3) by auto
        have u: "RTR0MemObjFree hst h p False = Some (hst_Free hst m, w_memobjs w)"
          by (rule mem_undo(1) [OF assms(4,7) hp assms(8,5,6,10)])
        have "mem_result w (w_memobjs w) = w" by (simp add: mem_result_def)
        then have "?E rc 0 w" using True 1(1) False f u by (simp add: mem_map_add_def)
        moreover have "rc \<noteq> 0" using False by auto
        ultimately show ?thesis using assms(1) by (intro exI [of _ rc] exI [of _ 0] exI [of _ w]) simp
      next
        case ok: True
        then obtain c a where c: "RT_VALID_PTR q" "h q = None" "q \<noteq> p" "mo_enmType c = RTR0MEMOBJTYPE_MAPPING"
          "mo_cb c = mo_cb m" "mo_fNative c" "mo_pParent c = p"
          "h1 = h(p \<mapsto> m\<lparr>mo_cMappingsAllocated := a, mo_papMappings := [q]\<rparr>, q \<mapsto> c)"
          using 1(3) assms(10) by auto
        have q0: "q \<noteq> 0" using c(1) by auto
        have wq: "w_memobjs w q = None" using c(2,3) assms(5) by simp
        have h1: "h1 = (w_memobjs w)(p \<mapsto> m\<lparr>mo_cMappingsAllocated := a, mo_papMappings := [q]\<rparr>, q \<mapsto> c)"
          unfolding c(8) assms(5) by simp
        have mc: "rtR0MemObjIsMapping c" using c(4) by (simp add: rtR0MemObjIsMapping_def)
        let ?m = "m\<lparr>mo_cMappingsAllocated := a, mo_papMappings := [q]\<rparr>"
        have p1: "h1 p = Some ?m" "h1 q = Some c" using c(3) by (simp_all add: h1)
        have r: "ref_ok h1 (?r q)" using p1 assms(8) mc c(6,7) by (auto simp: ref_ok_def rtR0MemObjIsMapping_def)
        show ?thesis
        proof (rule add [of rc q h1], goal_cases)
          case 7
          have "\<exists>rc rc' h3. RTR0MemObjFree hst h1 q False = Some (rc, h3) \<and> RTR0MemObjFree hst h3 p False = Some (rc', w_memobjs w)"
            by (rule mem_undo_map [OF assms(4) 1(2) h1 assms(6) wq c(3) assms(8) mc c(6,7)])
          then show ?case by blast
        next
          case (8 bs)
          have "?R 0 q (mem_result (set_sess w sp (s\<lparr>ses_Bundle := bs\<rparr>)) h1)"
            by (subst if_P [OF refl], rule exI [of _ bs], rule exI [of _ h1], rule exI [of _ ?m])
              (use 8(3,4) True p1 q0 wq c(3,4,5) h1 in simp)
          then show ?case using 8(1,2) by blast
        next
          case 9
          then show ?case using assms(1) by (intro exI [of _ VERR_NO_MEMORY] exI [of _ 0] exI [of _ w]) simp
        qed (use True 1(1,2) ok r wq c(3) h1 in auto)
      qed
    qed
  qed
qed

text \<open>What the four kinds of allocation give the driver\<close>

definition alloc_ok :: "memheap \<Rightarrow> RTR0MEMOBJTYPE \<Rightarrow> u64 \<Rightarrow> memobj_result \<Rightarrow> bool" where
  "alloc_ok h ty cb r \<longleftrightarrow>
     (case r of (rc, p, h') \<Rightarrow> mo_inv h' \<and>
        (if RT_SUCCESS rc
         then \<exists>m. RT_VALID_PTR p \<and> h p = None \<and> h' = h(p \<mapsto> m) \<and> mo_enmType m = ty \<and> mo_cb m = RT_ALIGN_Z cb \<and>
                mo_papMappings m = [] \<and> mo_fNative m
         else p = 0 \<and> h' = h))"

lemma alloc_ok_all:
  assumes "mo_inv h" "host_ok hst"
  shows "alloc_ok h RTR0MEMOBJTYPE_PAGE cb (RTR0MemObjAllocPage hst h cb f)"
    "alloc_ok h RTR0MEMOBJTYPE_LOW cb (RTR0MemObjAllocLow hst h cb f)"
    "alloc_ok h RTR0MEMOBJTYPE_CONT cb (RTR0MemObjAllocCont hst h cb f)"
    "alloc_ok h RTR0MEMOBJTYPE_PHYS_NC cb (RTR0MemObjAllocPhysNC hst h cb hi)"
proof -
  have bad: "alloc_ok h ty cb (VERR_INVALID_PARAMETER, 0, h)" for ty using assms(1) by (simp add: alloc_ok_def)
  have new: "alloc_ok h ty cb (mo_new h r)" if "native_new h ty (RT_ALIGN_Z cb) r" "ty \<noteq> RTR0MEMOBJTYPE_MAPPING" for ty r
  proof -
    obtain rc p h' where e: "mo_new h r = (rc, p, h')" by (metis surj_pair)
    show ?thesis using mo_new_ok [OF assms(1) that e] by (simp add: alloc_ok_def e)
  qed
  note d = host_okD(1-4) [OF assms(2)]
  show "alloc_ok h RTR0MEMOBJTYPE_PAGE cb (RTR0MemObjAllocPage hst h cb f)"
    unfolding RTR0MemObjAllocPage_def by (auto intro!: bad new d(1))
  show "alloc_ok h RTR0MEMOBJTYPE_LOW cb (RTR0MemObjAllocLow hst h cb f)"
    unfolding RTR0MemObjAllocLow_def by (auto intro!: bad new d(2))
  show "alloc_ok h RTR0MEMOBJTYPE_CONT cb (RTR0MemObjAllocCont hst h cb f)"
    unfolding RTR0MemObjAllocCont_def by (auto intro!: bad new d(3))
  show "alloc_ok h RTR0MEMOBJTYPE_PHYS_NC cb (RTR0MemObjAllocPhysNC hst h cb hi)"
    unfolding RTR0MemObjAllocPhysNC_def by (auto intro!: bad new d(4))
qed

lemma find_inserted:
  assumes "inserted r A B" "\<forall>u\<in>set A. \<not> Q u" "Q r"
  shows "find Q B = Some r" "remove_first Q B = A"
proof -
  obtain xs ys where e: "A = xs @ ys" "B = xs @ r # ys" using assms(1) by (auto simp: inserted_def)
  have "find Q xs = None" using assms(2) e(1) by (auto simp: find_None_iff)
  then show "find Q B = Some r" "remove_first Q B = A"
    using assms(3) by (simp_all add: e find_append remove_first_append)
qed

lemma with_session_ok:
  "w_sess w sp = Some s \<Longrightarrow> SUP_IS_SESSION_VALID sp s \<Longrightarrow> with_session w sp d f = f s"
  by (simp add: with_session_def SUP_IS_SESSION_VALID_def)

text \<open>
  An object allocated, mapped and recorded is found again by its ring-0 address, and releasing it
  leads back to the objects and the entries there were before.
\<close>

lemma mem_release_new:
  assumes "mem_inv w" "w_sess w sp = Some s" "host_frees hst" "w_memobjs w p = None" "q \<noteq> 0 \<longrightarrow> w_memobjs w q = None \<and> q \<noteq> p"
    "w1 = mem_result (set_sess w sp (s\<lparr>ses_Bundle := bs\<rparr>)) h1" "mem_inv w1"
    "inserted \<lparr>mr_MemObj = p, mr_MapObjR3 = q, mr_eType = ty\<rparr> (mem_refs s) (bdl_refs bs)"
    "h1 p = Some m1" "set (mo_papMappings m1) \<subseteq> {q}" "\<forall>x. x \<noteq> p \<longrightarrow> x \<noteq> q \<longrightarrow> h1 x = w_memobjs w x"
    "mo_pv m1 \<noteq> 0" "\<forall>r\<in>set (mem_refs s). \<not> mem_hit (w_memobjs w) ty (mo_pv m1) r"
  shows "\<exists>w2 s2. supdrvMemRelease hst w1 sp (s\<lparr>ses_Bundle := bs\<rparr>) (mo_pv m1) ty = Some (VINF_SUCCESS, w2) \<and> mem_inv w2 \<and>
    w_memobjs w2 = w_memobjs w \<and> w_sess w2 = (w_sess w)(sp \<mapsto> s2) \<and> mem_refs s2 = mem_refs s"
proof -
  let ?r = "\<lparr>mr_MemObj = p, mr_MapObjR3 = q, mr_eType = ty\<rparr>"
  let ?s1 = "s\<lparr>ses_Bundle := bs\<rparr>"
  have i: "mo_inv h1" using mem_invD(1) [OF assms(7)] by (simp add: assms(6))
  have p0: "p \<noteq> 0" using mo_invD(2) [OF i assms(9)] .
  have s1: "w_sess w1 sp = Some ?s1" by (simp add: assms(6))
  have eq: "h1 x = w_memobjs w x" if "x \<in> dom (w_memobjs w)" "x \<noteq> 0" for x
    using that assms(4,5,11) by (metis domIff)
  have no: "\<not> mem_hit h1 ty (mo_pv m1) r" if r: "r \<in> set (mem_refs s)" for r
  proof -
    have o: "ref_ok (w_memobjs w) r" by (rule mem_invD(4) [OF assms(1,2) r])
    have z: "mr_MemObj r \<noteq> 0" using r bdl_refs_used by (simp add: mem_refs_def)
    have "mem_match h1 ty (mo_pv m1) r = mem_match (w_memobjs w) ty (mo_pv m1) r"
      by (rule ref_ok_cong(2) [OF o]) (use eq ref_ok_dom [OF o] z in auto)
    then show ?thesis using assms(13) r by (simp add: mem_hit_def)
  qed
  have hit: "mem_hit h1 ty (mo_pv m1) ?r"
    using mo_read_ok(1) [OF i assms(9)] p0 by (simp add: mem_hit_def mem_match_def)
  have refs: "mem_refs ?s1 = bdl_refs bs" by (simp add: mem_refs_def)
  have f: "find (mem_hit (w_memobjs w1) ty (mo_pv m1)) (mem_refs ?s1) = Some ?r"
    "remove_first (mem_hit (w_memobjs w1) ty (mo_pv m1)) (mem_refs ?s1) = mem_refs s"
    unfolding refs using find_inserted [OF assms(8), of "mem_hit h1 ty (mo_pv m1)"] no hit by (simp_all add: assms(6))
  show ?thesis
  proof (rule supdrvMemRelease_found [OF assms(7) s1 assms(3,12) f(1)], goal_cases)
    case (1 bs2 h2 m2)
    let ?s2 = "?s1\<lparr>ses_Bundle := bs2\<rparr>"
    have m2: "m2 = m1" using 1(4) assms(9) by (simp add: assms(6))
    have "h2 x = w_memobjs w x" for x
    proof (cases "x = p \<or> (x = q \<and> q \<noteq> 0)")
      case True
      then show ?thesis using 1(5,6) assms(4,5) by auto
    next
      case False
      show ?thesis
      proof (cases "x = 0")
        case True
        have "h2 0 = None" using mo_invD(2) [OF mem_invD(1) [OF 1(2)]] by (cases "h2 0") auto
        moreover have "w_memobjs w 0 = None" using mo_invD(2) [OF mem_invD(1) [OF assms(1)]] by (cases "w_memobjs w 0") auto
        ultimately show ?thesis using True by simp
      next
        case nz: False
        then have "x \<notin> {p, q} \<union> set (mo_papMappings m2)" using False assms(10) m2 by auto
        then have "h2 x = h1 x" using 1(7) by (simp add: assms(6))
        then show ?thesis using False nz assms(11) by metis
      qed
    qed
    then have "h2 = w_memobjs w" by (rule ext)
    moreover have "mem_refs ?s2 = mem_refs s" using 1(3) f(2) by (simp add: mem_refs_def)
    ultimately show ?case using 1(1,2)
      by (intro exI [of _ "mem_result (set_sess w1 sp ?s2) h2"] exI [of _ ?s2]) (simp add: assms(6))
  qed
qed

subsection \<open>Properties\<close>

text \<open>
  C31: adding an entry never fails in a bundle that counts free room (the assertion after the slot
  loop is unreachable); it inserts exactly the new entry among the tracked ones, and it fails only
  when every bundle counts 64 entries and no new bundle can be had, without a change.
\<close>

theorem supdrvMemAdd_refines:
  assumes "bundles_ok s" "mr_MemObj m \<noteq> 0"
  shows "\<exists>rc s'. supdrvMemAdd fAlloc m s = (rc, s') \<and> bundles_ok s' \<and>
    (\<forall>b\<in>set (ses_Bundle s). bdl_cUsed b < 64 \<longrightarrow> slot_add m (bdl_aMem b) \<noteq> None) \<and>
    (if rc = VINF_SUCCESS then \<exists>xs ys. mem_refs s = xs @ ys \<and> mem_refs s' = xs @ m # ys
     else rc = VERR_NO_MEMORY \<and> s' = s \<and> \<not> fAlloc \<and> (\<forall>b\<in>set (ses_Bundle s). unat (bdl_cUsed b) = 64))"
proof (rule supdrvMemAdd_ok [OF assms, of fAlloc], goal_cases)
  case (1 bs)
  have slots: "\<forall>b\<in>set (ses_Bundle s). bdl_cUsed b < 64 \<longrightarrow> slot_add m (bdl_aMem b) \<noteq> None"
    using bdl_slot_free assms(1) by (simp add: bundles_ok_def)
  show ?case
  proof (cases "bs = ses_Bundle s")
    case True
    then show ?thesis using 1(1,2) slots assms(1) by (intro exI [of _ VERR_NO_MEMORY] exI [of _ s]) simp
  next
    case False
    then have "inserted m (mem_refs s) (mem_refs (s\<lparr>ses_Bundle := bs\<rparr>))" using 1(4) by (simp add: mem_refs_def)
    then show ?thesis using False 1(1,3) slots
      by (intro exI [of _ VINF_SUCCESS] exI [of _ "s\<lparr>ses_Bundle := bs\<rparr>"]) (simp add: inserted_def)
  qed
qed

lemma MemAlloc_ok:
  assumes "mem_inv w" "w_sess w sp = Some s" "SUP_IS_SESSION_VALID sp s" "host_ok hst" "host_frees hst"
  shows "\<exists>rc out w1. SUPR0MemAlloc hst fAlloc w sp cb ppvR0 ppvR3 = Some (rc, out, w1) \<and> mem_inv w1 \<and>
    (case out of
       None \<Rightarrow> rc \<noteq> 0 \<and> w1 = w
     | Some (pvR0, pvR3) \<Rightarrow> rc = 0 \<and>
         (\<exists>p q bs h1 m1. w1 = mem_result (set_sess w sp (s\<lparr>ses_Bundle := bs\<rparr>)) h1 \<and>
            inserted \<lparr>mr_MemObj = p, mr_MapObjR3 = q, mr_eType = MEMREF_TYPE_MEM\<rparr> (mem_refs s) (bdl_refs bs) \<and>
            bdl_count bs = bdl_count (ses_Bundle s) + 1 \<and>
            w_memobjs w p = None \<and> w_memobjs w q = None \<and> q \<noteq> 0 \<and> q \<noteq> p \<and>
            h1 p = Some m1 \<and> pvR0 = mo_pv m1 \<and> mo_cb m1 = RT_ALIGN_Z (ucast cb) \<and> set (mo_papMappings m1) \<subseteq> {q} \<and>
            RTR0MemObjAddressR3 h1 q = Some pvR3 \<and> (\<forall>x. x \<noteq> p \<longrightarrow> x \<noteq> q \<longrightarrow> h1 x = w_memobjs w x)))"
proof -
  have i: "mo_inv (w_memobjs w)" by (rule mem_invD(1) [OF assms(1)])
  obtain rc p h where a: "RTR0MemObjAllocPage hst (w_memobjs w) (ucast cb) True = (rc, p, h)" by (metis surj_pair)
  have h: "mo_inv h"
    "if RT_SUCCESS rc
     then \<exists>m. RT_VALID_PTR p \<and> w_memobjs w p = None \<and> h = (w_memobjs w)(p \<mapsto> m) \<and> mo_enmType m = RTR0MEMOBJTYPE_PAGE \<and>
            mo_cb m = RT_ALIGN_Z (ucast cb) \<and> mo_papMappings m = [] \<and> mo_fNative m
     else p = 0 \<and> h = w_memobjs w" 
    using alloc_ok_all(1) [OF i assms(4), of "ucast cb" True] unfolding alloc_ok_def a prod.case by blast+
  have same: "mem_result w (w_memobjs w) = w" by (simp add: mem_result_def)
  consider (bad) rc' where "rc' \<noteq> 0" "SUPR0MemAlloc hst fAlloc w sp cb ppvR0 ppvR3 = Some (rc', None, w)"
    | (good) "RT_SUCCESS rc"
      "SUPR0MemAlloc hst fAlloc w sp cb ppvR0 ppvR3 =
         (case mem_map_add hst fAlloc True MEMREF_TYPE_MEM w sp s h p of
            None \<Rightarrow> None
          | Some (rc1, pMap, w1) \<Rightarrow>
              if rc1 \<noteq> 0 then Some (rc1, None, w1)
              else Option.bind (RTR0MemObjAddress (w_memobjs w1) p) (\<lambda>pvR0.
                   map_option (\<lambda>pvR3. (VINF_SUCCESS, Some (pvR0, pvR3), w1)) (RTR0MemObjAddressR3 (w_memobjs w1) pMap)))"
  proof (cases "RT_VALID_PTR ppvR0 \<and> RT_VALID_PTR ppvR3 \<and> \<not> (cb < 1 \<or> 0x400000 \<le> cb)")
    case True
    then have e: "SUPR0MemAlloc hst fAlloc w sp cb ppvR0 ppvR3 =
         (if RT_FAILURE rc then Some (rc, None, mem_result w h)
          else case mem_map_add hst fAlloc True MEMREF_TYPE_MEM w sp s h p of
            None \<Rightarrow> None
          | Some (rc1, pMap, w1) \<Rightarrow>
              if rc1 \<noteq> 0 then Some (rc1, None, w1)
              else Option.bind (RTR0MemObjAddress (w_memobjs w1) p) (\<lambda>pvR0.
                   map_option (\<lambda>pvR3. (VINF_SUCCESS, Some (pvR0, pvR3), w1)) (RTR0MemObjAddressR3 (w_memobjs w1) pMap)))"
      unfolding SUPR0MemAlloc_def with_session_ok [OF assms(2,3)] a by simp
    show thesis
    proof (cases "RT_SUCCESS rc")
      case True
      show thesis by (rule good [OF True]) (use e True in \<open>simp add: RT_FAILURE_def\<close>)
    next
      case False
      show thesis by (rule bad [of rc]) (use e False h(2) same in \<open>auto simp: RT_FAILURE_def\<close>)
    qed
  next
    case False
    then have "SUPR0MemAlloc hst fAlloc w sp cb ppvR0 ppvR3 \<in>
        {Some (VERR_INVALID_POINTER, None, w), Some (VERR_INVALID_PARAMETER, None, w)}"
      unfolding SUPR0MemAlloc_def with_session_ok [OF assms(2,3)] by simp
    then show thesis using bad by auto
  qed
  then show ?thesis
  proof cases
    case bad
    then show ?thesis using assms(1) by (intro exI [of _ rc'] exI [of _ None] exI [of _ w]) simp
  next
    case good
    then obtain m where m: "RT_VALID_PTR p" "w_memobjs w p = None" "h = (w_memobjs w)(p \<mapsto> m)"
      "mo_enmType m = RTR0MEMOBJTYPE_PAGE" "mo_cb m = RT_ALIGN_Z (ucast cb)" "mo_papMappings m = []" using h(2) by auto
    have ty: "\<not> rtR0MemObjIsMapping m" "mo_enmType m \<noteq> RTR0MEMOBJTYPE_RES_VIRT" using m(4) by (simp_all add: rtR0MemObjIsMapping_def)
    from mem_map_add_ok [OF assms(1,2,4,5) m(3,2) h(1) ty m(6), of fAlloc True MEMREF_TYPE_MEM, unfolded simp_thms]
    obtain rc1 q w1 where A: "mem_map_add hst fAlloc True MEMREF_TYPE_MEM w sp s h p = Some (rc1, q, w1)" "mem_inv w1"
      "if rc1 = 0
       then \<exists>bs h1 m1. w1 = mem_result (set_sess w sp (s\<lparr>ses_Bundle := bs\<rparr>)) h1 \<and>
         inserted \<lparr>mr_MemObj = p, mr_MapObjR3 = q, mr_eType = MEMREF_TYPE_MEM\<rparr> (mem_refs s) (bdl_refs bs) \<and>
         bdl_count bs = bdl_count (ses_Bundle s) + 1 \<and>
         h1 p = Some m1 \<and> mo_pv m1 = mo_pv m \<and> mo_cb m1 = mo_cb m \<and> mo_enmType m1 = mo_enmType m \<and>
         set (mo_papMappings m1) \<subseteq> {q} \<and> q \<noteq> 0 \<and>
         (w_memobjs w q = None \<and> q \<noteq> p \<and>
            (\<exists>c. h1 q = Some c \<and> mo_enmType c = RTR0MEMOBJTYPE_MAPPING \<and> mo_cb c = mo_cb m)) \<and>
         (\<forall>x. x \<noteq> p \<longrightarrow> x \<noteq> q \<longrightarrow> h1 x = w_memobjs w x)
       else q = 0 \<and> w1 = w" by (elim exE conjE) (rule that)
    show ?thesis
    proof (cases "rc1 = 0")
      case False
      then have "SUPR0MemAlloc hst fAlloc w sp cb ppvR0 ppvR3 = Some (rc1, None, w1)" using good(2) A(1) by simp
      then show ?thesis using False A(2,3) by (intro exI [of _ rc1] exI [of _ None] exI [of _ w1]) simp
    next
      case True
      then obtain bs h1 m1 c where B: "w1 = mem_result (set_sess w sp (s\<lparr>ses_Bundle := bs\<rparr>)) h1"
         "inserted \<lparr>mr_MemObj = p, mr_MapObjR3 = q, mr_eType = MEMREF_TYPE_MEM\<rparr> (mem_refs s) (bdl_refs bs)"
         "bdl_count bs = bdl_count (ses_Bundle s) + 1"
         "h1 p = Some m1" "mo_pv m1 = mo_pv m" "mo_cb m1 = mo_cb m" "set (mo_papMappings m1) \<subseteq> {q}" "q \<noteq> 0"
         "w_memobjs w q = None" "q \<noteq> p" "h1 q = Some c" "\<forall>x. x \<noteq> p \<longrightarrow> x \<noteq> q \<longrightarrow> h1 x = w_memobjs w x"
        using A(3) by auto
      have i1: "mo_inv h1" using mem_invD(1) [OF A(2)] by (simp add: B(1))
      obtain pvR3 where r3: "RTR0MemObjAddressR3 h1 q = Some pvR3" using mo_read_ok(4) [OF i1 B(11)] by blast
      have e: "SUPR0MemAlloc hst fAlloc w sp cb ppvR0 ppvR3 = Some (VINF_SUCCESS, Some (mo_pv m1, pvR3), w1)"
        using good(2) A(1) True r3 mo_read_ok(1) [OF i1 B(4)] by (simp add: B(1))
      have "\<exists>p q bs h1 m1. w1 = mem_result (set_sess w sp (s\<lparr>ses_Bundle := bs\<rparr>)) h1 \<and>
            inserted \<lparr>mr_MemObj = p, mr_MapObjR3 = q, mr_eType = MEMREF_TYPE_MEM\<rparr> (mem_refs s) (bdl_refs bs) \<and>
            bdl_count bs = bdl_count (ses_Bundle s) + 1 \<and>
            w_memobjs w p = None \<and> w_memobjs w q = None \<and> q \<noteq> 0 \<and> q \<noteq> p \<and>
            h1 p = Some m1 \<and> mo_pv m = mo_pv m1 \<and> mo_cb m1 = RT_ALIGN_Z (ucast cb) \<and> set (mo_papMappings m1) \<subseteq> {q} \<and>
            RTR0MemObjAddressR3 h1 q = Some pvR3 \<and> (\<forall>x. x \<noteq> p \<longrightarrow> x \<noteq> q \<longrightarrow> h1 x = w_memobjs w x)"
        using B r3 m(2,5) by metis
      then show ?thesis using e A(2) B(5)
        by (intro exI [of _ VINF_SUCCESS] exI [of _ "Some (mo_pv m, pvR3)"] exI [of _ w1]) simp
    qed
  qed
qed

lemma session_valid_bundle [simp]:
  "SUP_IS_SESSION_VALID sp (s\<lparr>ses_Bundle := bs\<rparr>) = SUP_IS_SESSION_VALID sp s"
  by (simp add: SUP_IS_SESSION_VALID_def)

lemma MemFree_ok:
  assumes "mem_inv w" "w_sess w sp = Some s" "SUP_IS_SESSION_VALID sp s" "host_frees hst"
  shows "\<exists>rc w1 s1. SUPR0MemFree hst w sp u = Some (rc, w1) \<and> mem_inv w1 \<and> w_sess w1 = (w_sess w)(sp \<mapsto> s1) \<and>
    SUP_IS_SESSION_VALID sp s1 \<and> bdl_count (ses_Bundle s1) = bdl_count (ses_Bundle s)"
proof (cases "u = 0 \<or> find (mem_hit (w_memobjs w) MEMREF_TYPE_MEM u) (mem_refs s) = None")
  case True
  have "(w_sess w)(sp \<mapsto> s) = w_sess w" using assms(2) by auto
  then show ?thesis
    using supdrvMemRelease_none [OF assms(1,2) True, of hst] assms(1-3)
    by (intro exI [of _ VERR_INVALID_PARAMETER] exI [of _ w] exI [of _ s])
      (simp add: SUPR0MemFree_def with_session_ok)
next
  case False
  then obtain r where u: "u \<noteq> 0" and r: "find (mem_hit (w_memobjs w) MEMREF_TYPE_MEM u) (mem_refs s) = Some r" by auto
  show ?thesis
  proof (rule supdrvMemRelease_found [OF assms(1,2,4) u r], goal_cases)
    case (1 bs h m)
    have "bdl_count bs = bdl_count (ses_Bundle s)"
      using arg_cong [OF 1(8), of "\<lambda>l. sum_list (map unat l)"] by (simp add: comp_def)
    then show ?case using 1(1,2) assms(2,3)
      by (intro exI [of _ VINF_SUCCESS] exI [of _ "mem_result (set_sess w sp (s\<lparr>ses_Bundle := bs\<rparr>)) h"]
            exI [of _ "s\<lparr>ses_Bundle := bs\<rparr>"]) (simp add: SUPR0MemFree_def with_session_ok)
  qed
qed

text \<open>What an allocation recorded, and that freeing it by its address takes everything back.\<close>

lemma MemAlloc_undo:
  assumes "mem_inv w" "w_sess w sp = Some s" "SUP_IS_SESSION_VALID sp s" "host_frees hst" "mem_inv w1"
    and "w1 = mem_result (set_sess w sp (s\<lparr>ses_Bundle := bs\<rparr>)) h1"
    and "inserted \<lparr>mr_MemObj = p, mr_MapObjR3 = q, mr_eType = MEMREF_TYPE_MEM\<rparr> (mem_refs s) (bdl_refs bs)"
    and "w_memobjs w p = None" "w_memobjs w q = None" "q \<noteq> 0" "q \<noteq> p" "h1 p = Some m1" "pvR0 = mo_pv m1"
    and "mo_cb m1 = cb" "set (mo_papMappings m1) \<subseteq> {q}" "RTR0MemObjAddressR3 h1 q = Some pvR3"
    and "\<forall>x. x \<noteq> p \<longrightarrow> x \<noteq> q \<longrightarrow> h1 x = w_memobjs w x"
  shows "\<exists>r s1. w_sess w1 = (w_sess w)(sp \<mapsto> s1) \<and> inserted r (mem_refs s) (mem_refs s1) \<and> mr_eType r = MEMREF_TYPE_MEM \<and>
      RTR0MemObjSize (w_memobjs w1) (mr_MemObj r) = Some cb \<and>
      RTR0MemObjAddress (w_memobjs w1) (mr_MemObj r) = Some pvR0 \<and> RTR0MemObjAddressR3 (w_memobjs w1) (mr_MapObjR3 r) = Some pvR3"
    "pvR0 \<noteq> 0 \<Longrightarrow> \<forall>r\<in>set (mem_refs s). \<not> mem_hit (w_memobjs w) MEMREF_TYPE_MEM pvR0 r \<Longrightarrow>
      \<exists>w2 s2. SUPR0MemFree hst w1 sp pvR0 = Some (VINF_SUCCESS, w2) \<and> w_memobjs w2 = w_memobjs w \<and>
        w_sess w2 = (w_sess w)(sp \<mapsto> s2) \<and> mem_refs s2 = mem_refs s"
proof -
  let ?s1 = "s\<lparr>ses_Bundle := bs\<rparr>"
  have i1: "mo_inv h1" using mem_invD(1) [OF assms(5)] by (simp add: assms(6))
  show "\<exists>r s1. w_sess w1 = (w_sess w)(sp \<mapsto> s1) \<and> inserted r (mem_refs s) (mem_refs s1) \<and> mr_eType r = MEMREF_TYPE_MEM \<and>
      RTR0MemObjSize (w_memobjs w1) (mr_MemObj r) = Some cb \<and>
      RTR0MemObjAddress (w_memobjs w1) (mr_MemObj r) = Some pvR0 \<and> RTR0MemObjAddressR3 (w_memobjs w1) (mr_MapObjR3 r) = Some pvR3"
    using assms(7) mo_read_ok(1,2) [OF i1 assms(12)] assms(13,14,16)
    by (intro exI [of _ "\<lparr>mr_MemObj = p, mr_MapObjR3 = q, mr_eType = MEMREF_TYPE_MEM\<rparr>"] exI [of _ ?s1]) (simp add: assms(6) mem_refs_def)
  assume n: "pvR0 \<noteq> 0" "\<forall>r\<in>set (mem_refs s). \<not> mem_hit (w_memobjs w) MEMREF_TYPE_MEM pvR0 r"
  have e: "SUPR0MemFree hst w1 sp pvR0 = supdrvMemRelease hst w1 sp ?s1 (mo_pv m1) MEMREF_TYPE_MEM"
    using assms(3,13) with_session_ok [of w1 sp ?s1] by (simp add: SUPR0MemFree_def assms(6))
  have q: "q \<noteq> 0 \<longrightarrow> w_memobjs w q = None \<and> q \<noteq> p" using assms(9,11) by simp
  from mem_release_new [OF assms(1,2,4,8) q assms(6,5,7,12,15,17)] n assms(13)
  show "\<exists>w2 s2. SUPR0MemFree hst w1 sp pvR0 = Some (VINF_SUCCESS, w2) \<and> w_memobjs w2 = w_memobjs w \<and>
        w_sess w2 = (w_sess w)(sp \<mapsto> s2) \<and> mem_refs s2 = mem_refs s" unfolding e by auto
qed

text \<open>
  C9: allocating ordinary memory is all or nothing: it changes nothing, or it gives the session exactly
  one new entry whose object has the requested size, rounded up to pages. Freeing that memory by its
  ring-0 address then restores the objects and entries there were before, provided no other memory
  of the session has that address.
\<close>

theorem SUPR0MemAlloc_roundtrip:
  assumes "mem_inv w" "w_sess w sp = Some s" "SUP_IS_SESSION_VALID sp s" "host_ok hst" "host_frees hst"
  shows "\<exists>rc out w1. SUPR0MemAlloc hst fAlloc w sp cb ppvR0 ppvR3 = Some (rc, out, w1) \<and> mem_inv w1 \<and>
    (case out of
       None \<Rightarrow> rc \<noteq> 0 \<and> w1 = w
     | Some (pvR0, pvR3) \<Rightarrow> rc = 0 \<and>
         (\<exists>r s1. w_sess w1 = (w_sess w)(sp \<mapsto> s1) \<and> inserted r (mem_refs s) (mem_refs s1) \<and> mr_eType r = MEMREF_TYPE_MEM \<and>
            RTR0MemObjSize (w_memobjs w1) (mr_MemObj r) = Some (RT_ALIGN_Z (ucast cb)) \<and>
            RTR0MemObjAddress (w_memobjs w1) (mr_MemObj r) = Some pvR0 \<and>
            RTR0MemObjAddressR3 (w_memobjs w1) (mr_MapObjR3 r) = Some pvR3) \<and>
         (pvR0 \<noteq> 0 \<longrightarrow> (\<forall>r\<in>set (mem_refs s). \<not> mem_hit (w_memobjs w) MEMREF_TYPE_MEM pvR0 r) \<longrightarrow>
            (\<exists>w2 s2. SUPR0MemFree hst w1 sp pvR0 = Some (VINF_SUCCESS, w2) \<and> w_memobjs w2 = w_memobjs w \<and>
               w_sess w2 = (w_sess w)(sp \<mapsto> s2) \<and> mem_refs s2 = mem_refs s)))"
proof -
  from MemAlloc_ok [OF assms, of fAlloc cb ppvR0 ppvR3] obtain rc out w1 where
    a: "SUPR0MemAlloc hst fAlloc w sp cb ppvR0 ppvR3 = Some (rc, out, w1)" "mem_inv w1"
    "case out of
       None \<Rightarrow> rc \<noteq> 0 \<and> w1 = w
     | Some (pvR0, pvR3) \<Rightarrow> rc = 0 \<and>
         (\<exists>p q bs h1 m1. w1 = mem_result (set_sess w sp (s\<lparr>ses_Bundle := bs\<rparr>)) h1 \<and>
            inserted \<lparr>mr_MemObj = p, mr_MapObjR3 = q, mr_eType = MEMREF_TYPE_MEM\<rparr> (mem_refs s) (bdl_refs bs) \<and>
            bdl_count bs = bdl_count (ses_Bundle s) + 1 \<and>
            w_memobjs w p = None \<and> w_memobjs w q = None \<and> q \<noteq> 0 \<and> q \<noteq> p \<and>
            h1 p = Some m1 \<and> pvR0 = mo_pv m1 \<and> mo_cb m1 = RT_ALIGN_Z (ucast cb) \<and> set (mo_papMappings m1) \<subseteq> {q} \<and>
            RTR0MemObjAddressR3 h1 q = Some pvR3 \<and> (\<forall>x. x \<noteq> p \<longrightarrow> x \<noteq> q \<longrightarrow> h1 x = w_memobjs w x))" by blast
  show ?thesis
  proof (cases out)
    case None
    then show ?thesis using a by simp
  next
    case (Some pv)
    obtain pvR0 pvR3 where pv: "pv = (pvR0, pvR3)" by (cases pv)
    from a(3) obtain p q bs h1 m1 where b: "w1 = mem_result (set_sess w sp (s\<lparr>ses_Bundle := bs\<rparr>)) h1"
      "inserted \<lparr>mr_MemObj = p, mr_MapObjR3 = q, mr_eType = MEMREF_TYPE_MEM\<rparr> (mem_refs s) (bdl_refs bs)"
      "w_memobjs w p = None" "w_memobjs w q = None" "q \<noteq> 0" "q \<noteq> p" "h1 p = Some m1" "pvR0 = mo_pv m1"
      "mo_cb m1 = RT_ALIGN_Z (ucast cb)" "set (mo_papMappings m1) \<subseteq> {q}" "RTR0MemObjAddressR3 h1 q = Some pvR3"
      "\<forall>x. x \<noteq> p \<longrightarrow> x \<noteq> q \<longrightarrow> h1 x = w_memobjs w x" and rc: "rc = 0"
      unfolding Some pv by auto
    note u = MemAlloc_undo [OF assms(1-3,5) a(2) b]
    show ?thesis
      by (intro exI [of _ rc] exI [of _ out] exI [of _ w1] conjI a(1,2)) (use rc u in \<open>simp only: Some pv option.case prod.case; blast\<close>)
  qed
qed

text \<open>A client that allocates and frees ordinary memory in any order.\<close>

datatype mem_op = OpMemAlloc bool u32 addr addr | OpMemFree addr

definition mem_step :: "r0host \<Rightarrow> addr \<Rightarrow> supdrv \<Rightarrow> mem_op \<Rightarrow> (nat \<times> supdrv) option" where
  "mem_step hst sp w x =
     (case x of
        OpMemAlloc fAlloc cb p0 p3 \<Rightarrow>
          map_option (\<lambda>(rc, _, w1). (if rc = 0 then 1 else 0, w1)) (SUPR0MemAlloc hst fAlloc w sp cb p0 p3)
      | OpMemFree u \<Rightarrow> map_option (\<lambda>(_, w1). (0, w1)) (SUPR0MemFree hst w sp u))"

primrec mem_run :: "r0host \<Rightarrow> addr \<Rightarrow> supdrv \<Rightarrow> mem_op list \<Rightarrow> (nat \<times> supdrv) option" where
  "mem_run hst sp w [] = Some (0, w)"
| "mem_run hst sp w (x # xs) =
     Option.bind (mem_step hst sp w x) (\<lambda>(k, w1). map_option (\<lambda>(n, w2). (k + n, w2)) (mem_run hst sp w1 xs))"

lemma mem_step_ok:
  assumes "mem_inv w" "w_sess w sp = Some s" "SUP_IS_SESSION_VALID sp s" "host_ok hst" "host_frees hst"
  shows "\<exists>k w1 s1. mem_step hst sp w x = Some (k, w1) \<and> mem_inv w1 \<and> w_sess w1 sp = Some s1 \<and> SUP_IS_SESSION_VALID sp s1 \<and>
    bdl_count (ses_Bundle s1) = bdl_count (ses_Bundle s) + k"
proof (cases x)
  case (OpMemAlloc fAlloc cb p0 p3)
  from MemAlloc_ok [OF assms, of fAlloc cb p0 p3] obtain rc out w1 where
    a: "SUPR0MemAlloc hst fAlloc w sp cb p0 p3 = Some (rc, out, w1)" "mem_inv w1" and
    c: "(out = None \<and> rc \<noteq> 0 \<and> w1 = w) \<or> (rc = 0 \<and> (\<exists>bs h1. w1 = mem_result (set_sess w sp (s\<lparr>ses_Bundle := bs\<rparr>)) h1 \<and>
          bdl_count bs = bdl_count (ses_Bundle s) + 1))"
    by (force split: option.splits)
  show ?thesis
  proof (cases "rc = 0")
    case True
    with c obtain bs h1 where b: "w1 = mem_result (set_sess w sp (s\<lparr>ses_Bundle := bs\<rparr>)) h1"
      "bdl_count bs = bdl_count (ses_Bundle s) + 1" by blast
    then show ?thesis using a True assms(3)
      by (intro exI [of _ 1] exI [of _ w1] exI [of _ "s\<lparr>ses_Bundle := bs\<rparr>"]) (simp add: OpMemAlloc mem_step_def)
  next
    case False
    then show ?thesis using a c assms(2,3)
      by (intro exI [of _ 0] exI [of _ w] exI [of _ s]) (simp add: OpMemAlloc mem_step_def)
  qed
next
  case (OpMemFree u)
  from MemFree_ok [OF assms(1-3,5), of u] obtain rc w1 s1 where
    "SUPR0MemFree hst w sp u = Some (rc, w1)" "mem_inv w1" "w_sess w1 = (w_sess w)(sp \<mapsto> s1)"
    "SUP_IS_SESSION_VALID sp s1" "bdl_count (ses_Bundle s1) = bdl_count (ses_Bundle s)" by blast
  then show ?thesis by (intro exI [of _ 0] exI [of _ w1] exI [of _ s1]) (simp add: OpMemFree mem_step_def)
qed

text \<open>
  C32: over any sequence of allocations and releases the driver reads no freed handle and keeps its
  memory invariant; but a released entry never counts as free room again: after \<open>n\<close> successful
  allocations the session has at least one bundle for every 64 of them, however much was released
  in between.
\<close>

theorem supdrvMemRelease_leaks:
  assumes "mem_inv w" "w_sess w sp = Some s" "SUP_IS_SESSION_VALID sp s" "host_ok hst" "host_frees hst"
  shows "\<exists>n w' s'. mem_run hst sp w xs = Some (n, w') \<and> mem_inv w' \<and> w_sess w' sp = Some s' \<and>
    n \<le> 64 * length (ses_Bundle s')"
proof -
  have "\<exists>n w' s'. mem_run hst sp w xs = Some (n, w') \<and> mem_inv w' \<and> w_sess w' sp = Some s' \<and>
    bdl_count (ses_Bundle s') = bdl_count (ses_Bundle s) + n"
    using assms(1-3)
  proof (induction xs arbitrary: w s)
    case Nil
    then show ?case by simp
  next
    case (Cons x xs)
    from mem_step_ok [OF Cons.prems assms(4,5), of x] obtain k w1 s1 where
      1: "mem_step hst sp w x = Some (k, w1)" "mem_inv w1" "w_sess w1 sp = Some s1" "SUP_IS_SESSION_VALID sp s1"
      "bdl_count (ses_Bundle s1) = bdl_count (ses_Bundle s) + k" by blast
    from Cons.IH [OF 1(2-4)] obtain n w' s' where
      "mem_run hst sp w1 xs = Some (n, w')" "mem_inv w'" "w_sess w' sp = Some s'"
      "bdl_count (ses_Bundle s') = bdl_count (ses_Bundle s1) + n" by blast
    then show ?case using 1 by (intro exI [of _ "k + n"] exI [of _ w'] exI [of _ s']) simp
  qed
  then obtain n w' s' where r: "mem_run hst sp w xs = Some (n, w')" "mem_inv w'" "w_sess w' sp = Some s'"
    "bdl_count (ses_Bundle s') = bdl_count (ses_Bundle s) + n" by blast
  have "bdl_count (ses_Bundle s') \<le> 64 * length (ses_Bundle s')"
    using mem_invD(2) [OF r(2,3)] by (intro bdl_count_le) (simp add: bundles_ok_def)
  then show ?thesis using r by (intro exI [of _ n] exI [of _ w'] exI [of _ s']) simp
qed

subsection \<open>A concrete session\<close>

definition sess_mem_ex :: SUPDRVSESSION where
  "sess_mem_ex = sess0\<lparr>ses_Bundle := [\<lparr>bdl_aMem = replicate 64 mr_unused, bdl_cUsed = 0\<rparr>]\<rparr>"

definition mem_ex :: supdrv where
  "mem_ex = supdrv0\<lparr>w_sess := [0x50000 \<mapsto> sess_mem_ex]\<rparr>"

lemma sess_mem_ex_ok: "bundles_ok sess_mem_ex" "mem_refs sess_mem_ex = []" "SUP_IS_SESSION_VALID 0x50000 sess_mem_ex"
proof -
  have u: "mr_MemObj mr_unused = 0" by (simp add: mr_unused_def)
  show "bundles_ok sess_mem_ex" "mem_refs sess_mem_ex = []"
    by (simp_all add: bundles_ok_def bdl_ok_def sess_mem_ex_def mem_refs_def u)
  show "SUP_IS_SESSION_VALID 0x50000 sess_mem_ex"
    by (simp add: SUP_IS_SESSION_VALID_def sess_mem_ex_def sess0_def RT_VALID_PTR_def)
qed

lemma mem_ex_ok: "mem_inv mem_ex" "w_sess mem_ex 0x50000 = Some sess_mem_ex" "host_frees host_ex"
  using sess_mem_ex_ok mo_inv_empty host_ex_ok(2)
  by (auto simp: mem_inv_def mem_ex_def supdrv0_def host_frees_def)

theorem supdrvMemAdd_refines_witness:
  "\<exists>rc s'. supdrvMemAdd True \<lparr>mr_MemObj = 0x100000, mr_MapObjR3 = 0, mr_eType = MEMREF_TYPE_MEM\<rparr> sess_mem_ex = (rc, s') \<and> bundles_ok s'"
  using supdrvMemAdd_refines [OF sess_mem_ex_ok(1), of "\<lparr>mr_MemObj = 0x100000, mr_MapObjR3 = 0, mr_eType = MEMREF_TYPE_MEM\<rparr>" True]
  by auto

theorem SUPR0MemAlloc_roundtrip_witness:
  "\<exists>rc out w1. SUPR0MemAlloc host_ex True mem_ex 0x50000 0x1000 0x60000 0x60008 = Some (rc, out, w1) \<and> mem_inv w1"
  using SUPR0MemAlloc_roundtrip [OF mem_ex_ok(1,2) sess_mem_ex_ok(3) host_ex_ok(1) mem_ex_ok(3), of True "0x1000" "0x60000" "0x60008"]
  by blast

theorem supdrvMemRelease_leaks_witness:
  "\<exists>n w' s'. mem_run host_ex 0x50000 mem_ex [OpMemAlloc True 0x1000 0x60000 0x60008, OpMemFree 0x70100000] = Some (n, w') \<and>
     w_sess w' 0x50000 = Some s' \<and> n \<le> 64 * length (ses_Bundle s')"
  using supdrvMemRelease_leaks [OF mem_ex_ok(1,2) sess_mem_ex_ok(3) host_ex_ok(1) mem_ex_ok(3)] by blast

end
