(* ===== verification/SupMemOps.thy ===== *)
theory SupMemOps
  imports SupMem
begin

text \<open>
  The remaining properties of the memory of a session: every operation is safe and keeps the
  invariant, kernel mappings stay inside their object, and session cleanup frees everything.
\<close>

subsection \<open>Every operation is safe\<close>

text \<open>The object a handle belongs to: the parent of a mapping, or itself.\<close>

definition mo_root :: "addr \<Rightarrow> RTR0MEMOBJINTERNAL \<Rightarrow> addr" where
  "mo_root q n = (if rtR0MemObjIsMapping n then mo_pParent n else q)"

lemma mem_free_entry_frame:
  assumes "mo_inv h" "ref_ok h r" "h (mr_MemObj r) = Some m" "h q = Some n" "mo_root q n \<noteq> mr_MemObj r"
  shows "q \<notin> {mr_MemObj r, mr_MapObjR3 r} \<union> set (mo_papMappings m)"
proof -
  have nm: "\<not> rtR0MemObjIsMapping m" using assms(2,3) by (auto simp: ref_ok_def)
  have 1: "q \<noteq> mr_MemObj r" using assms(3-5) nm by (auto simp: mo_root_def)
  have 2: "q \<noteq> mr_MapObjR3 r"
  proof
    assume q: "q = mr_MapObjR3 r"
    then have "mr_MapObjR3 r \<noteq> 0" using mo_invD(2) [OF assms(1,4)] by simp
    then have "rtR0MemObjIsMapping n" "mo_pParent n = mr_MemObj r" using assms(2,4) q by (auto simp: ref_ok_def)
    then show False using assms(5) by (simp add: mo_root_def)
  qed
  have 3: "q \<notin> set (mo_papMappings m)"
  proof
    assume "q \<in> set (mo_papMappings m)"
    from mo_invD(6) [OF assms(1,3) nm this] assms(4,5) show False by (auto simp: mo_root_def)
  qed
  show ?thesis using 1 2 3 by simp
qed

text \<open>
  What every operation leaves behind: the invariant, at most the bundles of its own session changed,
  with entries for new objects only, and no object changed that belongs to somebody else.
\<close>

definition mem_moved :: "supdrv \<Rightarrow> addr \<Rightarrow> supdrv \<Rightarrow> bool" where
  "mem_moved w sp w1 \<longleftrightarrow> (\<exists>s bs h. w_sess w sp = Some s \<and> SUP_IS_SESSION_VALID sp s \<and>
     w1 = mem_result (set_sess w sp (s\<lparr>ses_Bundle := bs\<rparr>)) h \<and>
     (\<forall>q n. w_memobjs w q = Some n \<longrightarrow> mo_root q n \<notin> mr_MemObj ` set (mem_refs s) \<longrightarrow> h q = Some n) \<and>
     (\<forall>r\<in>set (bdl_refs bs). r \<in> set (mem_refs s) \<or> w_memobjs w (mr_MemObj r) = None))"

definition mem_good :: "supdrv \<Rightarrow> addr \<Rightarrow> supdrv \<Rightarrow> bool" where
  "mem_good w sp w1 \<longleftrightarrow> mem_inv w1 \<and> mem_moved w sp w1"

lemma mem_movedI:
  assumes "w_sess w sp = Some s" "SUP_IS_SESSION_VALID sp s" "w1 = mem_result (set_sess w sp (s\<lparr>ses_Bundle := bs\<rparr>)) h"
    "\<And>q n. w_memobjs w q = Some n \<Longrightarrow> mo_root q n \<notin> mr_MemObj ` set (mem_refs s) \<Longrightarrow> h q = Some n"
    "\<And>r. r \<in> set (bdl_refs bs) \<Longrightarrow> r \<in> set (mem_refs s) \<or> w_memobjs w (mr_MemObj r) = None"
  shows "mem_moved w sp w1"
  unfolding mem_moved_def by (intro exI [of _ s] exI [of _ bs] exI [of _ h] conjI allI impI ballI assms)

lemma mem_moved_sess:
  "mem_moved w sp w1 \<Longrightarrow> \<exists>s1. w_sess w1 = (w_sess w)(sp \<mapsto> s1) \<and> SUP_IS_SESSION_VALID sp s1"
  by (auto simp: mem_moved_def)

lemma mem_good_self: "mem_inv w \<Longrightarrow> w_sess w sp = Some s \<Longrightarrow> SUP_IS_SESSION_VALID sp s \<Longrightarrow> mem_good w sp w"
  unfolding mem_good_def
  by (intro conjI mem_movedI [where s = s and bs = "ses_Bundle s" and h = "w_memobjs w"])
    (simp_all add: set_sess_same mem_refs_def)

text \<open>A new entry for objects that were not there.\<close>

lemma mem_good_new:
  assumes "mem_inv w" "w_sess w sp = Some s" "SUP_IS_SESSION_VALID sp s" "mem_inv w1"
    "w1 = mem_result (set_sess w sp (s\<lparr>ses_Bundle := bs\<rparr>)) h" "inserted r (mem_refs s) (bdl_refs bs)"
    "w_memobjs w (mr_MemObj r) = None" "q = 0 \<or> w_memobjs w q = None" "\<And>x. x \<noteq> mr_MemObj r \<Longrightarrow> x \<noteq> q \<Longrightarrow> h x = w_memobjs w x"
  shows "mem_good w sp w1"
  unfolding mem_good_def
proof (intro conjI assms(4) mem_movedI [OF assms(2,3,5)], goal_cases)
  case (1 x n)
  have "x \<noteq> 0" by (rule mo_invD(2) [OF mem_invD(1) [OF assms(1)] 1(1)])
  then have "x \<noteq> q" "x \<noteq> mr_MemObj r" using 1(1) assms(7,8) by auto
  then show ?case using assms(9) 1(1) by simp
next
  case (2 u)
  then show ?case using assms(6,7) by (auto simp: inserted_def)
qed

lemma mem_result_self [simp]: "mem_result w (w_memobjs w) = w"
  by (simp add: mem_result_def)

lemma release_safe:
  assumes "mem_inv w" "w_sess w sp = Some s" "SUP_IS_SESSION_VALID sp s" "host_frees hst"
  shows "\<exists>rc w1. supdrvMemRelease hst w sp s u ty = Some (rc, w1) \<and> mem_good w sp w1"
proof (cases "u = 0 \<or> find (mem_hit (w_memobjs w) ty u) (mem_refs s) = None")
  case True
  then show ?thesis using supdrvMemRelease_none [OF assms(1,2) True] mem_good_self [OF assms(1-3)] by blast
next
  case False
  then obtain r where u: "u \<noteq> 0" and r: "find (mem_hit (w_memobjs w) ty u) (mem_refs s) = Some r" by auto
  show ?thesis
  proof (rule supdrvMemRelease_found [OF assms(1,2,4) u r], goal_cases)
    case (1 bs h m)
    have ro: "r \<in> set (mem_refs s)" "ref_ok (w_memobjs w) r"
      using find_SomeD [OF r] mem_invD(4) [OF assms(1,2)] by blast+
    have "mem_moved w sp (mem_result (set_sess w sp (s\<lparr>ses_Bundle := bs\<rparr>)) h)"
    proof (rule mem_movedI [OF assms(2,3) refl], goal_cases)
      case (1 q n)
      then have "mo_root q n \<noteq> mr_MemObj r" using ro(1) by blast
      from mem_free_entry_frame [OF mem_invD(1) [OF assms(1)] ro(2) \<open>w_memobjs w (mr_MemObj r) = Some m\<close> 1(1) this]
      show ?case using \<open>\<forall>q. q \<notin> _ \<longrightarrow> h q = w_memobjs w q\<close> 1(1) by simp
    next
      case (2 u)
      then show ?case using set_remove_first_subset 1(3) by fastforce
    qed
    with 1(1,2) show ?case unfolding mem_good_def by blast
  qed
qed

lemma phys_safe:
  assumes "mo_inv h" "p = 0 \<or> h p = Some m"
  shows "\<exists>x. phys_up hst h p i n = Some x" "\<exists>x. phys_map hst h p n acc = Some x" "\<exists>x. phys_down hst h p n acc = Some x"
proof -
  have a: "\<exists>x. RTR0MemObjGetPagePhysAddr hst h p k = Some x" for k
    using assms(2) mo_read_ok(5) [OF assms(1)] by (auto simp: RTR0MemObjGetPagePhysAddr_def mo_valid_def)
  show "\<exists>x. phys_up hst h p i n = Some x"
  proof (induction n arbitrary: i)
    case (Suc n)
    obtain x y where "RTR0MemObjGetPagePhysAddr hst h p (of_nat i) = Some x" "phys_up hst h p (Suc i) n = Some y"
      using a Suc by blast
    then show ?case by simp
  qed simp
  show "\<exists>x. phys_map hst h p n acc = Some x"
  proof (induction n arbitrary: acc)
    case (Suc n)
    obtain x where "RTR0MemObjGetPagePhysAddr hst h p (of_nat n) = Some x" using a by blast
    then show ?case using Suc by simp
  qed simp
  show "\<exists>x. phys_down hst h p n acc = Some x"
  proof (induction n arbitrary: acc)
    case (Suc n)
    obtain x where "RTR0MemObjGetPagePhysAddr hst h p (of_nat n) = Some x" using a by blast
    then show ?case using Suc by auto
  qed auto
qed

text \<open>The common part of the four allocations, ready for the reads that follow it.\<close>

lemma mem_map_add_safe:
  assumes "mem_inv w" "w_sess w sp = Some s" "SUP_IS_SESSION_VALID sp s" "host_ok hst" "host_frees hst"
    "alloc_ok (w_memobjs w) ty0 cb (rc, p, h)" "RT_SUCCESS rc" "ty0 \<noteq> RTR0MEMOBJTYPE_MAPPING" "ty0 \<noteq> RTR0MEMOBJTYPE_RES_VIRT"
  shows "\<exists>rc1 q w1. mem_map_add hst fAlloc fMap ty w sp s h p = Some (rc1, q, w1) \<and> mem_good w sp w1 \<and>
    (rc1 = 0 \<longrightarrow> (\<exists>m. w_memobjs w1 p = Some m) \<and> (if fMap then \<exists>c. w_memobjs w1 q = Some c else q = 0))"
proof -
  obtain m where m: "w_memobjs w p = None" "h = (w_memobjs w)(p \<mapsto> m)" "mo_enmType m = ty0" "mo_papMappings m = []" "mo_inv h"
    using assms(6,7) by (auto simp: alloc_ok_def)
  have t: "\<not> rtR0MemObjIsMapping m" "mo_enmType m \<noteq> RTR0MEMOBJTYPE_RES_VIRT" using m(3) assms(8,9) by (simp_all add: rtR0MemObjIsMapping_def)
  from mem_map_add_ok [OF assms(1,2,4,5) m(2,1,5) t m(4), of fAlloc fMap ty]
  obtain rc1 q w1 where A: "mem_map_add hst fAlloc fMap ty w sp s h p = Some (rc1, q, w1)" "mem_inv w1"
    and R: "rc1 = 0 \<and> (\<exists>bs h1. w1 = mem_result (set_sess w sp (s\<lparr>ses_Bundle := bs\<rparr>)) h1 \<and> (\<exists>m1. h1 p = Some m1) \<and>
        (fMap \<longleftrightarrow> q \<noteq> 0) \<and> (fMap \<longrightarrow> w_memobjs w q = None \<and> (\<exists>c. h1 q = Some c)) \<and>
        inserted \<lparr>mr_MemObj = p, mr_MapObjR3 = q, mr_eType = ty\<rparr> (mem_refs s) (bdl_refs bs) \<and>
        (\<forall>x. x \<noteq> p \<longrightarrow> x \<noteq> q \<longrightarrow> h1 x = w_memobjs w x)) \<or> rc1 \<noteq> 0 \<and> w1 = w"
    by (force split: if_splits)
  show ?thesis
  proof (cases "rc1 = 0")
    case True
    with R obtain bs h1 m1 where b: "w1 = mem_result (set_sess w sp (s\<lparr>ses_Bundle := bs\<rparr>)) h1" "h1 p = Some m1"
      "fMap \<longleftrightarrow> q \<noteq> 0" "fMap \<longrightarrow> (\<exists>c. h1 q = Some c)" "fMap \<longrightarrow> w_memobjs w q = None"
      "inserted \<lparr>mr_MemObj = p, mr_MapObjR3 = q, mr_eType = ty\<rparr> (mem_refs s) (bdl_refs bs)"
      "\<forall>x. x \<noteq> p \<longrightarrow> x \<noteq> q \<longrightarrow> h1 x = w_memobjs w x" by blast
    have "mem_good w sp w1"
      by (rule mem_good_new [OF assms(1-3) A(2) b(1,6)]) (use m(1) b(3,5,7) in auto)
    then show ?thesis using A(1) b(2-4) by (intro exI [of _ rc1] exI [of _ q] exI [of _ w1]) (simp add: b(1))
  next
    case False
    then show ?thesis using A(1) R mem_good_self [OF assms(1-3)] by blast
  qed
qed

lemma mem_good_inv: "mem_good w sp w1 \<Longrightarrow> mo_inv (w_memobjs w1)"
  using mem_invD(1) by (auto simp: mem_good_def)

lemma read_safe:
  assumes "mo_inv h" "h p = Some m"
  obtains a b c where "RTR0MemObjAddress h p = Some a" "RTR0MemObjAddressR3 h p = Some b" "RTR0MemObjGetPagePhysAddr hst h p i = Some c"
  using mo_read_ok [OF assms] by blast

lemma ContAlloc_safe:
  assumes "mem_inv w" "w_sess w sp = Some s" "SUP_IS_SESSION_VALID sp s" "host_ok hst" "host_frees hst"
  shows "\<exists>rc out w1. SUPR0ContAlloc hst fAlloc w sp cPages p0 p3 pp = Some (rc, out, w1) \<and> mem_good w sp w1"
proof -
  note g = mem_good_self [OF assms(1-3)]
  obtain rc p h where a: "RTR0MemObjAllocCont hst (w_memobjs w) (ucast (push_bit PAGE_SHIFT cPages)) True = (rc, p, h)"
    by (metis surj_pair)
  note ao = alloc_ok_all(3) [OF mem_invD(1) [OF assms(1)] assms(4), of "ucast (push_bit PAGE_SHIFT cPages)" True, unfolded a]
  show ?thesis
  proof (cases "(p3 = 0 \<or> p0 = 0 \<or> pp = 0) \<or> (cPages < 1 \<or> 256 \<le> cPages) \<or> RT_FAILURE rc")
    case True
    then show ?thesis using g ao a by (auto simp: SUPR0ContAlloc_def with_session_ok [OF assms(2,3)] alloc_ok_def RT_FAILURE_def)
  next
    case False
    then have s: "RT_SUCCESS rc" by simp
    from mem_map_add_safe [OF assms ao s, of fAlloc True MEMREF_TYPE_CONT] obtain rc1 q w1 where
      m: "mem_map_add hst fAlloc True MEMREF_TYPE_CONT w sp s h p = Some (rc1, q, w1)" "mem_good w sp w1"
      "rc1 = 0 \<longrightarrow> (\<exists>m. w_memobjs w1 p = Some m) \<and> (\<exists>c. w_memobjs w1 q = Some c)" by auto
    have e: "SUPR0ContAlloc hst fAlloc w sp cPages p0 p3 pp =
        (if rc1 \<noteq> 0 then Some (rc1, None, w1)
         else Option.bind (RTR0MemObjAddress (w_memobjs w1) p) (\<lambda>pvR0.
              Option.bind (RTR0MemObjAddressR3 (w_memobjs w1) q) (\<lambda>pvR3.
              map_option (\<lambda>phys. (VINF_SUCCESS, Some (pvR0, pvR3, phys), w1))
                (RTR0MemObjGetPagePhysAddr hst (w_memobjs w1) p 0))))"
      using False s a m(1) by (simp add: SUPR0ContAlloc_def with_session_ok [OF assms(2,3)] RT_FAILURE_def)
    show ?thesis
    proof (cases "rc1 = 0")
      case True
      then obtain x y where x: "w_memobjs w1 p = Some x" "w_memobjs w1 q = Some y" using m(3) by blast
      obtain a1 a2 a3 where "RTR0MemObjAddress (w_memobjs w1) p = Some a1" "RTR0MemObjGetPagePhysAddr hst (w_memobjs w1) p 0 = Some a2"
        "RTR0MemObjAddressR3 (w_memobjs w1) q = Some a3"
        using mo_read_ok [OF mem_good_inv [OF m(2)] x(1)] mo_read_ok(4) [OF mem_good_inv [OF m(2)] x(2)] by blast
      then show ?thesis using True m(2) unfolding e by simp
    next
      case False
      then show ?thesis using m(2) unfolding e by simp
    qed
  qed
qed

lemma LowAlloc_safe:
  assumes "mem_inv w" "w_sess w sp = Some s" "SUP_IS_SESSION_VALID sp s" "host_ok hst" "host_frees hst"
  shows "\<exists>rc out w1. SUPR0LowAlloc hst fAlloc w sp cPages p0 p3 pp = Some (rc, out, w1) \<and> mem_good w sp w1"
proof -
  note g = mem_good_self [OF assms(1-3)]
  obtain rc p h where a: "RTR0MemObjAllocLow hst (w_memobjs w) (ucast (push_bit PAGE_SHIFT cPages)) True = (rc, p, h)"
    by (metis surj_pair)
  note ao = alloc_ok_all(2) [OF mem_invD(1) [OF assms(1)] assms(4), of "ucast (push_bit PAGE_SHIFT cPages)" True, unfolded a]
  show ?thesis
  proof (cases "(p3 = 0 \<or> p0 = 0 \<or> pp = 0) \<or> (cPages < 1 \<or> 256 \<le> cPages) \<or> RT_FAILURE rc")
    case True
    then show ?thesis using g ao a by (auto simp: SUPR0LowAlloc_def with_session_ok [OF assms(2,3)] alloc_ok_def RT_FAILURE_def)
  next
    case False
    then have s: "RT_SUCCESS rc" by simp
    from mem_map_add_safe [OF assms ao s, of fAlloc True MEMREF_TYPE_LOW] obtain rc1 q w1 where
      m: "mem_map_add hst fAlloc True MEMREF_TYPE_LOW w sp s h p = Some (rc1, q, w1)" "mem_good w sp w1"
      "rc1 = 0 \<longrightarrow> (\<exists>m. w_memobjs w1 p = Some m) \<and> (\<exists>c. w_memobjs w1 q = Some c)" by auto
    have e: "SUPR0LowAlloc hst fAlloc w sp cPages p0 p3 pp =
        (if rc1 \<noteq> 0 then Some (rc1, None, w1)
         else Option.bind (phys_up hst (w_memobjs w1) p 0 (unat cPages)) (\<lambda>pages.
              Option.bind (RTR0MemObjAddress (w_memobjs w1) p) (\<lambda>pvR0.
              map_option (\<lambda>pvR3. (VINF_SUCCESS, Some (pvR0, pvR3, pages), w1)) (RTR0MemObjAddressR3 (w_memobjs w1) q))))"
      using False s a m(1) by (simp add: SUPR0LowAlloc_def with_session_ok [OF assms(2,3)] RT_FAILURE_def)
    show ?thesis
    proof (cases "rc1 = 0")
      case True
      then obtain x y where x: "w_memobjs w1 p = Some x" "w_memobjs w1 q = Some y" using m(3) by blast
      note i = mem_good_inv [OF m(2)]
      obtain a1 a2 a3 where "RTR0MemObjAddress (w_memobjs w1) p = Some a1" "phys_up hst (w_memobjs w1) p 0 (unat cPages) = Some a2"
        "RTR0MemObjAddressR3 (w_memobjs w1) q = Some a3"
        using mo_read_ok(1) [OF i x(1)] mo_read_ok(4) [OF i x(2)] phys_safe(1) [OF i disjI2 [OF x(1)]] by blast
      then show ?thesis using True m(2) unfolding e by simp
    next
      case False
      then show ?thesis using m(2) unfolding e by simp
    qed
  qed
qed

lemma PageAllocEx_safe:
  assumes "mem_inv w" "w_sess w sp = Some s" "SUP_IS_SESSION_VALID sp s" "host_ok hst" "host_frees hst"
  shows "\<exists>rc out w1. SUPR0PageAllocEx hst fAlloc w sp cPages fl p3 p0 pp = Some (rc, out, w1) \<and> mem_good w sp w1"
proof -
  note g = mem_good_self [OF assms(1-3)]
  let ?A = "if p0 \<noteq> 0 then RTR0MemObjAllocPage hst (w_memobjs w) (ucast cPages * PAGE_SIZE) True
            else RTR0MemObjAllocPhysNC hst (w_memobjs w) (ucast cPages * PAGE_SIZE) NIL_RTHCPHYS"
  let ?ty = "if p0 \<noteq> 0 then RTR0MEMOBJTYPE_PAGE else RTR0MEMOBJTYPE_PHYS_NC"
  obtain rc p h where a: "?A = (rc, p, h)" by (metis surj_pair)
  have ao: "alloc_ok (w_memobjs w) ?ty (ucast cPages * PAGE_SIZE) (rc, p, h)"
    unfolding a [symmetric] using alloc_ok_all(1,4) [OF mem_invD(1) [OF assms(1)] assms(4)] by simp
  let ?bad = "(p3 \<noteq> 0 \<and> \<not> RT_VALID_PTR p3) \<or> (p0 \<noteq> 0 \<and> \<not> RT_VALID_PTR p0) \<or> (p3 = 0 \<and> p0 = 0) \<or> fl \<noteq> 0 \<or>
     (cPages < 1 \<or> VBOX_MAX_ALLOC_PAGE_COUNT < cPages)"
  show ?thesis
  proof (cases "?bad \<or> RT_FAILURE rc")
    case True
    then have "\<exists>rc'. SUPR0PageAllocEx hst fAlloc w sp cPages fl p3 p0 pp = Some (rc', None, w)"
      using ao unfolding SUPR0PageAllocEx_def with_session_ok [OF assms(2,3)] a
      by (auto simp: alloc_ok_def RT_FAILURE_def)
    then show ?thesis using g by blast
  next
    case False
    then have s: "RT_SUCCESS rc" by simp
    have t: "?ty \<noteq> RTR0MEMOBJTYPE_MAPPING" "?ty \<noteq> RTR0MEMOBJTYPE_RES_VIRT" by simp_all
    from mem_map_add_safe [OF assms ao s t, of fAlloc "p3 \<noteq> 0" MEMREF_TYPE_PAGE] obtain rc1 q w1 where
      m: "mem_map_add hst fAlloc (p3 \<noteq> 0) MEMREF_TYPE_PAGE w sp s h p = Some (rc1, q, w1)" "mem_good w sp w1"
      "rc1 = 0 \<longrightarrow> (\<exists>m. w_memobjs w1 p = Some m) \<and> (if p3 \<noteq> 0 then \<exists>c. w_memobjs w1 q = Some c else q = 0)" by blast
    have e: "SUPR0PageAllocEx hst fAlloc w sp cPages fl p3 p0 pp =
        (if rc1 \<noteq> 0 then Some (rc1, None, w1)
         else Option.bind (if p3 \<noteq> 0 then RTR0MemObjAddressR3 (w_memobjs w1) q else Some 0) (\<lambda>pvR3.
              Option.bind (if p0 \<noteq> 0 then RTR0MemObjAddress (w_memobjs w1) p else Some 0) (\<lambda>pvR0.
              map_option (\<lambda>pages. (VINF_SUCCESS, Some (pvR3, pvR0, pages), w1))
                (if pp \<noteq> 0 then phys_map hst (w_memobjs w1) q (unat cPages) [] else Some []))))"
    proof -
      have n: "\<not> (p3 \<noteq> 0 \<and> \<not> RT_VALID_PTR p3)" "\<not> (p0 \<noteq> 0 \<and> \<not> RT_VALID_PTR p0)" "\<not> (p3 = 0 \<and> p0 = 0)" "\<not> fl \<noteq> 0"
        "\<not> (cPages < 1 \<or> VBOX_MAX_ALLOC_PAGE_COUNT < cPages)" "\<not> RT_FAILURE rc" using False by blast+
      show ?thesis
        unfolding SUPR0PageAllocEx_def with_session_ok [OF assms(2,3)] a if_not_P [OF n(1)] if_not_P [OF n(2)]
          if_not_P [OF n(3)] if_not_P [OF n(4)] if_not_P [OF n(5)] prod.case if_not_P [OF n(6)] m(1) option.case ..
    qed
    show ?thesis
    proof (cases "rc1 = 0")
      case True
      note i = mem_good_inv [OF m(2)]
      obtain x where x: "w_memobjs w1 p = Some x" using m(3) True by blast
      have q: "q = 0 \<or> w_memobjs w1 q = Some (the (w_memobjs w1 q))" using m(3) True by (auto split: if_splits)
      obtain a1 where a1: "(if p3 \<noteq> 0 then RTR0MemObjAddressR3 (w_memobjs w1) q else Some 0) = Some a1"
        using m(3) True mo_read_ok(4) [OF i] by (cases "p3 = 0") auto
      obtain a3 where a3: "(if pp \<noteq> 0 then phys_map hst (w_memobjs w1) q (unat cPages) [] else Some []) = Some a3"
        using phys_safe(2) [OF i q, of hst "unat cPages" "[]"] by (cases "pp = 0") auto
      show ?thesis using True m(2) mo_read_ok(1) [OF i x] unfolding e a1 a3 by (cases "p0 = 0") simp_all
    next
      case False
      then show ?thesis using m(2) unfolding e by simp
    qed
  qed
qed

lemma supdrvMemAdd_rc: "supdrvMemAdd fAlloc m s = (rc, s') \<Longrightarrow> rc = VINF_SUCCESS \<or> rc = VERR_NO_MEMORY"
  by (auto simp: supdrvMemAdd_def split: option.splits if_splits)

lemma LockMem_safe:
  assumes "mem_inv w" "w_sess w sp = Some s" "SUP_IS_SESSION_VALID sp s" "host_ok hst" "host_frees hst"
  shows "\<exists>rc out w1. SUPR0LockMem hst fAlloc w sp pv cPages pp = Some (rc, out, w1) \<and> mem_good w sp w1"
proof -
  note g = mem_good_self [OF assms(1-3)]
  have i: "mo_inv (w_memobjs w)" by (rule mem_invD(1) [OF assms(1)])
  let ?cb = "push_bit PAGE_SHIFT (ucast cPages :: u64)"
  obtain rc p h where a: "RTR0MemObjLockUser hst (w_memobjs w) pv ?cb RTMEM_PROT_RW (hst_Self hst) = (rc, p, h)"
    by (metis surj_pair)
  let ?c = "RT_ALIGN_Z (?cb + (pv AND 0xfff))"
  have "(rc, p, h) = (VERR_INVALID_PARAMETER, 0, w_memobjs w) \<or>
      mo_new (w_memobjs w) (hst_LockUser hst (w_memobjs w) (pv AND NOT 0xfff) ?c RTMEM_PROT_RW (hst_Self hst)) = (rc, p, h)"
    using a host_okD(8) [OF assms(4)] by (auto simp: RTR0MemObjLockUser_def Let_def split: if_splits)
  then have h: "mo_inv h \<and> (if RT_SUCCESS rc
     then \<exists>m. w_memobjs w p = None \<and> h = (w_memobjs w)(p \<mapsto> m) \<and> mo_enmType m = RTR0MEMOBJTYPE_LOCK \<and> mo_papMappings m = []
     else h = w_memobjs w)"
  proof
    assume "(rc, p, h) = (VERR_INVALID_PARAMETER, 0, w_memobjs w)"
    then show ?thesis using i by simp
  next
    assume "mo_new (w_memobjs w) (hst_LockUser hst (w_memobjs w) (pv AND NOT 0xfff) ?c RTMEM_PROT_RW (hst_Self hst)) = (rc, p, h)"
    from mo_new_ok [OF i host_okD(5) [OF assms(4)] _ this] show ?thesis by (auto split: if_splits)
  qed
  show ?thesis
  proof (cases "\<not> RT_VALID_PTR pp \<or> (RT_ALIGN_Z pv \<noteq> pv \<or> pv = 0) \<or> RT_FAILURE rc")
    case True
    then have "\<exists>rc'. SUPR0LockMem hst fAlloc w sp pv cPages pp = Some (rc', [], w)"
      using a h by (auto simp: SUPR0LockMem_def with_session_ok [OF assms(2,3)] Let_def RT_FAILURE_def)
    then show ?thesis using g by blast
  next
    case False
    then have sc: "RT_SUCCESS rc" by simp
    then obtain m where m: "w_memobjs w p = None" "h = (w_memobjs w)(p \<mapsto> m)" "mo_enmType m = RTR0MEMOBJTYPE_LOCK"
      "mo_papMappings m = []" "mo_inv h" using h by auto
    have t: "\<not> rtR0MemObjIsMapping m" "mo_enmType m \<noteq> RTR0MEMOBJTYPE_RES_VIRT" using m(3) by (simp_all add: rtR0MemObjIsMapping_def)
    have hp: "h p = Some m" using m(2) by simp
    obtain fOk pages where ph: "phys_down hst h p (unat cPages) [] = Some (fOk, pages)"
      using phys_safe(3) [OF m(5) disjI2 [OF hp], of hst "unat cPages" "[]"] by auto
    let ?r = "\<lparr>mr_MemObj = p, mr_MapObjR3 = 0, mr_eType = MEMREF_TYPE_LOCKED\<rparr>"
    have e: "SUPR0LockMem hst fAlloc w sp pv cPages pp =
       (case (if fOk then supdrvMemAdd fAlloc ?r s else (VERR_INTERNAL_ERROR, s)) of (rc1, s1) \<Rightarrow>
          let w1 = mem_result (set_sess w sp s1) h
          in if RT_SUCCESS rc1 then Some (rc1, pages, w1)
             else map_option (\<lambda>(_, h2). (rc1, pages, mem_result w1 h2)) (RTR0MemObjFree hst h p False))"
      using False sc a ph unfolding SUPR0LockMem_def with_session_ok [OF assms(2,3)] Let_def by (simp add: RT_FAILURE_def)
    have u: "RTR0MemObjFree hst h p False = Some (hst_Free hst m, w_memobjs w)"
      by (rule mem_undo(1) [OF assms(5) m(5) hp t(1) m(2,1,4)])
    have same: "mem_result (mem_result (set_sess w sp s) h) (w_memobjs w) = w"
      using set_sess_same [OF assms(2)] by (simp add: mem_result_def)
    obtain rc1 s1 where A: "supdrvMemAdd fAlloc ?r s = (rc1, s1)" by (metis surj_pair)
    show ?thesis
    proof (cases "fOk \<and> rc1 = 0")
      case True
      from mem_map_add_ok [OF assms(1,2,4,5) m(2,1,5) t m(4), of fAlloc False MEMREF_TYPE_LOCKED]
      obtain bs h1 where C: "mem_inv (mem_result (set_sess w sp s1) h)"
        "mem_result (set_sess w sp s1) h = mem_result (set_sess w sp (s\<lparr>ses_Bundle := bs\<rparr>)) h1"
        "inserted ?r (mem_refs s) (bdl_refs bs)"
        using A True by (auto simp: mem_map_add_def Let_def)
      have "h1 = h" using arg_cong [OF C(2), of w_memobjs] by simp
      note B = C [unfolded this]
      have "mem_good w sp (mem_result (set_sess w sp s1) h)"
        by (rule mem_good_new [OF assms(1-3) B, of 0]) (simp_all add: m(1,2))
      then show ?thesis using True A unfolding e by (simp add: Let_def)
    next
      case False
      have "fOk \<Longrightarrow> rc1 = VERR_NO_MEMORY \<and> s1 = s"
        using False A supdrvMemAdd_rc [OF A] by (auto simp: supdrvMemAdd_def split: option.splits if_splits)
      then have "\<exists>rc'. SUPR0LockMem hst fAlloc w sp pv cPages pp = Some (rc', pages, w)"
        unfolding e A using u same by (cases fOk) (simp_all add: Let_def)
      then show ?thesis using g by blast
    qed
  qed
qed

text \<open>Only the store of objects changes, and every entry stays good.\<close>

lemma mem_good_heap:
  assumes "mem_inv w" "w_sess w sp = Some s" "SUP_IS_SESSION_VALID sp s" "mo_inv h"
    "\<And>u. ref_ok (w_memobjs w) u \<Longrightarrow> ref_ok h u"
    "\<And>q n. w_memobjs w q = Some n \<Longrightarrow> mo_root q n \<notin> mr_MemObj ` set (mem_refs s) \<Longrightarrow> h q = Some n"
  shows "mem_good w sp (mem_result w h)"
proof -
  have e: "mem_result w h = mem_result (set_sess w sp s) h"
    using assms(2) by (simp add: mem_result_def set_sess_def fun_upd_idem)
  have "mem_inv (mem_result (set_sess w sp s) h)"
  proof (rule mem_inv_upd [OF assms(1,4) mem_invD(2) [OF assms(1,2)] mem_invD(3) [OF assms(1,2)]], goal_cases)
    case (1 r)
    then show ?case using assms(5) mem_invD(4) [OF assms(1,2)] by blast
  next
    case (2 q t r)
    then show ?case using assms(5) mem_invD(4) [OF assms(1) 2(2,3)] mem_invD(5) [OF assms(1) assms(2) 2(2) 2(1) [symmetric]]
      by blast
  qed
  then show ?thesis
    unfolding mem_good_def e
    by (intro conjI mem_movedI [OF assms(2,3), where bs = "ses_Bundle s" and h = h] assms(6)) (simp_all add: mem_refs_def)
qed

lemma map_match_total:
  assumes "mo_inv h" "ref_ok h r"
  shows "\<exists>x. map_match h pv r = Some x" "\<exists>x. prot_match h pv pv0 r = Some x"
proof -
  obtain m where m: "h (mr_MemObj r) = Some m" using ref_ok_dom(1) [OF assms(2)] by blast
  obtain a where a: "RTR0MemObjAddressR3 h (mr_MemObj r) = Some a" using mo_read_ok(4) [OF assms(1) m] by blast
  obtain b where b: "RTR0MemObjAddressR3 h (mr_MapObjR3 r) = Some b"
  proof (cases "mr_MapObjR3 r = 0")
    case True
    then show thesis using that by (simp add: RTR0MemObjAddressR3_def)
  next
    case False
    then obtain c where "h (mr_MapObjR3 r) = Some c" using ref_ok_dom(2) [OF assms(2)] by blast
    then show thesis using that mo_read_ok(4) [OF assms(1)] by blast
  qed
  show "\<exists>x. map_match h pv r = Some x" using a b by (auto simp: map_match_def)
  show "\<exists>x. prot_match h pv pv0 r = Some x"
    using b mo_read_ok(1) [OF assms(1) m] by (auto simp: prot_match_def)
qed

lemma mem_last_ok:
  assumes "mem_inv w" "w_sess w sp = Some s"
    "\<And>r. ref_ok (w_memobjs w) r \<Longrightarrow> \<exists>x. P r = Some x" "\<And>r. mr_MemObj r = 0 \<Longrightarrow> P r = Some False"
  shows "\<exists>y. bdl_last P (ses_Bundle s) None = Some y \<and>
    (\<forall>r. y = Some r \<longrightarrow> r \<in> set (mem_refs s) \<and> P r = Some True)"
proof -
  have t: "\<exists>x. P r = Some x" if "r \<in> set (mem_refs s)" for r
    by (rule assms(3) [OF mem_invD(4) [OF assms(1,2) that]])
  note S = bdl_take_search [where P = P, OF mem_invD(2) [OF assms(1,2)] t assms(4)]
  have u: "P r = Some True \<Longrightarrow> mr_MemObj r \<noteq> 0" for r using assms(4) [of r] by auto
  have "\<exists>y. bdl_last P (ses_Bundle s) None = Some y \<and> (find (\<lambda>r. P r = Some True) (mem_refs s) = None \<longrightarrow> y = None) \<and>
    (find (\<lambda>r. P r = Some True) (mem_refs s) \<noteq> None \<longrightarrow> (\<exists>r\<in>set (mem_refs s). P r = Some True \<and> y = Some r))"
    unfolding mem_refs_def by (rule bdl_last_ok [where Q = "\<lambda>r. P r = Some True", OF S(1,2) u])
  then obtain y where y: "bdl_last P (ses_Bundle s) None = Some y"
    "find (\<lambda>r. P r = Some True) (mem_refs s) = None \<longrightarrow> y = None"
    "find (\<lambda>r. P r = Some True) (mem_refs s) \<noteq> None \<longrightarrow> (\<exists>r\<in>set (mem_refs s). P r = Some True \<and> y = Some r)"
    by (elim exE conjE) (rule that)
  show ?thesis
  proof (intro exI [of _ y] conjI allI impI)
    fix r assume r: "y = Some r"
    then show "r \<in> set (mem_refs s)" "P r = Some True" using y(2,3) by auto
  qed (rule y(1))
qed

text \<open>Linking a mapping and changing a protection keep all entries.\<close>

lemma map_keeps_refs:
  assumes "mo_inv h" "h p = Some P" "\<not> rtR0MemObjIsMapping P" "h q = None" "ref_ok h u" "mo_enmType P' = mo_enmType P"
  shows "ref_ok (h(p \<mapsto> P', q \<mapsto> c)) u"
proof -
  obtain m where m: "h (mr_MemObj u) = Some m" "\<not> rtR0MemObjIsMapping m" using assms(5) by (auto simp: ref_ok_def)
  have "mr_MemObj u \<noteq> q" using m(1) assms(4) by auto
  then have 1: "\<exists>m. (h(p \<mapsto> P', q \<mapsto> c)) (mr_MemObj u) = Some m \<and> \<not> rtR0MemObjIsMapping m"
    using m assms(2,3,6) by (auto simp: rtR0MemObjIsMapping_def)
  have 2: "\<exists>d. (h(p \<mapsto> P', q \<mapsto> c)) (mr_MapObjR3 u) = Some d \<and> rtR0MemObjIsMapping d \<and> mo_fNative d \<and> mo_pParent d = mr_MemObj u"
    if z: "mr_MapObjR3 u \<noteq> 0"
  proof -
    obtain d where d: "h (mr_MapObjR3 u) = Some d" "rtR0MemObjIsMapping d" "mo_fNative d" "mo_pParent d = mr_MemObj u"
      using z assms(5) by (auto simp: ref_ok_def)
    have "mr_MapObjR3 u \<noteq> q" "mr_MapObjR3 u \<noteq> p" using d(1,2) assms(2-4) by auto
    then show ?thesis using d by simp
  qed
  show ?thesis using 1 2 by (auto simp: ref_ok_def)
qed

lemma MapKernelEx_safe:
  assumes "mo_inv h" "host_ok hst" "h p = Some m" "cbSub \<noteq> 0"
  shows "\<exists>rc q h'. RTR0MemObjMapKernelEx hst h p pvFixed al f offSub cbSub = Some (rc, q, h') \<and> mo_inv h' \<and>
    (\<forall>u. ref_ok h u \<longrightarrow> ref_ok h' u) \<and> (RT_SUCCESS rc \<longrightarrow> q \<in> dom h') \<and>
    (\<forall>x n. h x = Some n \<longrightarrow> x \<noteq> p \<longrightarrow> h' x = Some n)"
proof -
  let ?al = "if al = 0 then PAGE_SIZE else al"
  let ?cb = "if offSub = 0 \<and> cbSub = mo_cb m then 0 else cbSub"
  have "RTR0MemObjMapKernelEx hst h p pvFixed al f offSub cbSub = Some (VERR_INVALID_PARAMETER, 0, h) \<or>
    \<not> rtR0MemObjIsMapping m \<and> RTR0MemObjMapKernelEx hst h p pvFixed al f offSub cbSub =
      mo_map hst h p (hst_MapKernel hst h m pvFixed ?al f offSub ?cb)"
    using RTR0MemObjMapKernelEx_cases [OF assms(1,3), of hst pvFixed al f offSub cbSub] by (elim disjE [of "_ = Some _"]) simp_all
  then show ?thesis
  proof
    assume "RTR0MemObjMapKernelEx hst h p pvFixed al f offSub cbSub = Some (VERR_INVALID_PARAMETER, 0, h)"
    then show ?thesis using assms(1) by simp
  next
    assume ok: "\<not> rtR0MemObjIsMapping m \<and> RTR0MemObjMapKernelEx hst h p pvFixed al f offSub cbSub =
      mo_map hst h p (hst_MapKernel hst h m pvFixed ?al f offSub ?cb)"
    have c: "offSub \<noteq> 0 \<longrightarrow> ?cb \<noteq> 0" using assms(4) by simp
    note n = host_okD(6) [OF assms(2) c, of h m pvFixed ?al f]
    show ?thesis
      unfolding conjunct2 [OF ok]
    proof (rule mo_map_ok [OF assms(1,3) conjunct1 [OF ok] n, of hst], goal_cases)
      case (1 rc q h')
      show ?case
      proof (cases "RT_SUCCESS rc")
        case True
        then obtain d a where d: "h q = None" "h' = h(p \<mapsto> m\<lparr>mo_cMappingsAllocated := a, mo_papMappings := mo_papMappings m @ [q]\<rparr>, q \<mapsto> d)"
          using 1(3) by auto
        have "ref_ok h' u" if "ref_ok h u" for u
          unfolding d(2) by (rule map_keeps_refs [OF assms(1,3) conjunct1 [OF ok] d(1) that]) simp
        then show ?thesis using 1(1,2) d by (intro exI [of _ rc] exI [of _ q] exI [of _ h']) auto
      next
        case False
        then show ?thesis using 1 assms(1) by (intro exI [of _ rc] exI [of _ q] exI [of _ h']) simp
      qed
    qed
  qed
qed

lemma ucast_u32_0: "(ucast (x::u32) :: u64) = 0 \<longleftrightarrow> x = 0"
  by (metis unat_ucast_u32 unat_eq_zero)

lemma PageMapKernel_safe:
  assumes "mem_inv w" "w_sess w sp = Some s" "SUP_IS_SESSION_VALID sp s" "host_ok hst" "p0 \<noteq> 0"
  shows "\<exists>rc out w1. SUPR0PageMapKernel hst w sp pvR3 offSub cbSub fl p0 = Some (rc, out, w1) \<and> mem_good w sp w1"
proof -
  note g = mem_good_self [OF assms(1-3)]
  have i: "mo_inv (w_memobjs w)" by (rule mem_invD(1) [OF assms(1)])
  have z: "map_match (w_memobjs w) pvR3 r = Some False" if "mr_MemObj r = 0" for r using that by (simp add: map_match_def)
  obtain y where y: "bdl_last (map_match (w_memobjs w) pvR3) (ses_Bundle s) None = Some y"
    "\<forall>r. y = Some r \<longrightarrow> r \<in> set (mem_refs s)"
    using mem_last_ok [where P = "map_match (w_memobjs w) pvR3", OF assms(1,2) map_match_total(1) [OF i] z] by blast
  show ?thesis
  proof (cases "\<not> RT_VALID_PTR p0 \<or> fl \<noteq> 0 \<or> offSub AND 0xfff \<noteq> 0 \<or> cbSub AND 0xfff \<noteq> 0 \<or> cbSub = 0 \<or> y = None")
    case True
    then have "\<exists>rc. SUPR0PageMapKernel hst w sp pvR3 offSub cbSub fl p0 = Some (rc, 0, w)"
      using y(1) assms(5) unfolding SUPR0PageMapKernel_def with_session_ok [OF assms(2,3)] by auto
    then show ?thesis using g by blast
  next
    case False
    then obtain r where r: "y = Some r" by blast
    have ro: "ref_ok (w_memobjs w) r" using mem_invD(4) [OF assms(1,2)] y(2) r by blast
    obtain m where m: "w_memobjs w (mr_MemObj r) = Some m" using ref_ok_dom(1) [OF ro] by blast
    have cb: "(ucast cbSub :: u64) \<noteq> 0" using False by (simp add: ucast_u32_0)
    from MapKernelEx_safe [OF i assms(4) m cb, of "0xffffffffffffffff" 0 RTMEM_PROT_RW "ucast offSub"] obtain rc q h' where
      k: "RTR0MemObjMapKernelEx hst (w_memobjs w) (mr_MemObj r) 0xffffffffffffffff 0 RTMEM_PROT_RW (ucast offSub) (ucast cbSub) =
        Some (rc, q, h')" "mo_inv h'" "\<forall>u. ref_ok (w_memobjs w) u \<longrightarrow> ref_ok h' u" "RT_SUCCESS rc \<longrightarrow> q \<in> dom h'"
      "\<forall>x n. w_memobjs w x = Some n \<longrightarrow> x \<noteq> mr_MemObj r \<longrightarrow> h' x = Some n" by blast
    have nm: "\<not> rtR0MemObjIsMapping m" using ro m by (auto simp: ref_ok_def)
    have own: "mr_MemObj r \<in> mr_MemObj ` set (mem_refs s)" using y(2) r by blast
    have good: "mem_good w sp (mem_result w h')"
    proof (rule mem_good_heap [OF assms(1-3) k(2)], goal_cases)
      case (2 x n)
      then have "x \<noteq> mr_MemObj r" using own m nm by (auto simp: mo_root_def)
      then show ?case using k(5) 2(1) by blast
    qed (use k(3) in blast)
    have e: "SUPR0PageMapKernel hst w sp pvR3 offSub cbSub fl p0 =
        (if ucast offSub < mo_cb m \<and> ucast cbSub \<le> mo_cb m \<and> ucast (offSub + cbSub) \<le> mo_cb m then
           (if RT_SUCCESS rc then map_option (\<lambda>pv. (rc, pv, mem_result w h')) (RTR0MemObjAddress h' q)
            else Some (rc, 0, mem_result w h'))
         else Some (VERR_INVALID_PARAMETER, 0, w))"
      using False assms(5) y(1) r k(1) mo_read_ok(2) [OF i m]
      unfolding SUPR0PageMapKernel_def with_session_ok [OF assms(2,3)] by simp
    show ?thesis
    proof (cases "RT_SUCCESS rc")
      case True
      then obtain d where "h' q = Some d" using k(4) by blast
      then show ?thesis using mo_read_ok(1) [OF k(2)] good g unfolding e by simp
    next
      case False
      then show ?thesis using good g unfolding e by simp
    qed
  qed
qed

lemma Protect_safe:
  assumes "mo_inv h" "h p = Some m"
  shows "\<exists>rc h'. RTR0MemObjProtect hst h p off cb f = Some (rc, h') \<and> mo_inv h' \<and> (\<forall>u. ref_ok h u \<longrightarrow> ref_ok h' u) \<and> dom h' = dom h \<and>
    (\<forall>x. x \<noteq> p \<longrightarrow> h' x = h x)"
proof -
  let ?m = "m\<lparr>mo_fProtChanged := True\<rparr>"
  have "RTR0MemObjProtect hst h p off cb f = Some (VERR_INVALID_PARAMETER, h) \<or>
    RTR0MemObjProtect hst h p off cb f = Some (hst_Protect hst m off cb f, h) \<or>
    RTR0MemObjProtect hst h p off cb f = Some (hst_Protect hst m off cb f, h(p \<mapsto> ?m))"
    by (simp add: RTR0MemObjProtect_def mo_valid_ok [OF assms] Let_def)
  then have e: "\<exists>rc. RTR0MemObjProtect hst h p off cb f = Some (rc, h) \<or> RTR0MemObjProtect hst h p off cb f = Some (rc, h(p \<mapsto> ?m))"
    by blast
  have sel: "rtR0MemObjIsMapping ?m = rtR0MemObjIsMapping m" by (simp add: rtR0MemObjIsMapping_def)
  have get: "\<exists>n'. (h(p \<mapsto> ?m)) q = Some n' \<and> rtR0MemObjIsMapping n' = rtR0MemObjIsMapping n \<and> mo_fNative n' = mo_fNative n \<and>
      mo_pParent n' = mo_pParent n \<and> mo_papMappings n' = mo_papMappings n" if "h q = Some n" for q n
    using that assms(2) sel by auto
  have put: "\<exists>n. h q = Some n \<and> rtR0MemObjIsMapping n' = rtR0MemObjIsMapping n \<and> mo_fNative n' = mo_fNative n \<and>
      mo_pParent n' = mo_pParent n \<and> mo_papMappings n' = mo_papMappings n" if "(h(p \<mapsto> ?m)) q = Some n'" for q n'
    using that assms(2) sel by (auto split: if_splits)
  have inv: "mo_inv (h(p \<mapsto> ?m))"
  proof (rule mo_invI, goal_cases)
    case (1 q n')
    then show ?case using put mo_invD(1) [OF assms(1)] by blast
  next
    case (2 q n')
    from put [OF 2(1)] obtain n where n: "h q = Some n" "rtR0MemObjIsMapping n" "mo_fNative n" "mo_pParent n' = mo_pParent n" using 2(2,3) by auto
    from mo_invD(3) [OF assms(1) n(1-3)] obtain P where P: "h (mo_pParent n) = Some P" "\<not> rtR0MemObjIsMapping P" "q \<in> set (mo_papMappings P)" by blast
    from get [OF P(1)] P(2,3) n(4) show ?case by auto
  next
    case (3 q n')
    from put [OF 3(1)] 3(2) mo_invD(4,5) [OF assms(1)] show ?case by auto
  next
    case (4 q n' c)
    from put [OF 4(1)] obtain n where n: "h q = Some n" "\<not> rtR0MemObjIsMapping n" "c \<in> set (mo_papMappings n)" using 4(2,3) by auto
    from mo_invD(6) [OF assms(1) n] obtain mc where mc: "h c = Some mc" "rtR0MemObjIsMapping mc" "mo_fNative mc" "mo_pParent mc = q" by blast
    from get [OF mc(1)] mc(2-4) show ?case by auto
  qed
  have ref: "ref_ok (h(p \<mapsto> ?m)) u" if u: "ref_ok h u" for u
  proof -
    obtain n where n: "h (mr_MemObj u) = Some n" "\<not> rtR0MemObjIsMapping n" using u by (auto simp: ref_ok_def)
    have "\<exists>d. (h(p \<mapsto> ?m)) (mr_MapObjR3 u) = Some d \<and> rtR0MemObjIsMapping d \<and> mo_fNative d \<and> mo_pParent d = mr_MemObj u"
      if z: "mr_MapObjR3 u \<noteq> 0"
    proof -
      obtain d where d: "h (mr_MapObjR3 u) = Some d" "rtR0MemObjIsMapping d" "mo_fNative d" "mo_pParent d = mr_MemObj u"
        using z u by (auto simp: ref_ok_def)
      from get [OF d(1)] d(2-4) show ?thesis by auto
    qed
    then show ?thesis using get [OF n(1)] n(2) by (auto simp: ref_ok_def)
  qed
  have dm: "dom (h(p \<mapsto> ?m)) = dom h" using assms(2) by auto
  from e show ?thesis
  proof (elim exE disjE)
    fix rc assume "RTR0MemObjProtect hst h p off cb f = Some (rc, h)"
    then show ?thesis using assms(1) by blast
  next
    fix rc assume "RTR0MemObjProtect hst h p off cb f = Some (rc, h(p \<mapsto> ?m))"
    then show ?thesis using inv ref dm by auto
  qed
qed

lemma PageProtect_safe:
  assumes "mem_inv w" "w_sess w sp = Some s" "SUP_IS_SESSION_VALID sp s"
  shows "\<exists>rc w1. SUPR0PageProtect hst w sp pvR3 pvR0 offSub cbSub f = Some (rc, w1) \<and> mem_good w sp w1"
proof -
  note g = mem_good_self [OF assms(1-3)]
  have i: "mo_inv (w_memobjs w)" by (rule mem_invD(1) [OF assms(1)])
  have z: "prot_match (w_memobjs w) pvR3 pvR0 r = Some False" if "mr_MemObj r = 0" for r using that by (simp add: prot_match_def)
  obtain y where y: "bdl_last (prot_match (w_memobjs w) pvR3 pvR0) (ses_Bundle s) None = Some y"
    "\<forall>r. y = Some r \<longrightarrow> r \<in> set (mem_refs s) \<and> prot_match (w_memobjs w) pvR3 pvR0 r = Some True"
    using mem_last_ok [where P = "prot_match (w_memobjs w) pvR3 pvR0", OF assms(1,2) map_match_total(2) [OF i] z] by blast
  define R0 where "R0 = (case y of Some r \<Rightarrow> if pvR0 \<noteq> 0 then mr_MemObj r else 0 | None \<Rightarrow> 0)"
  define R3 where "R3 = (case y of Some r \<Rightarrow> if pvR3 \<noteq> 0 then mr_MapObjR3 r else 0 | None \<Rightarrow> 0)"
  have dom: "R0 \<noteq> 0 \<Longrightarrow> R0 \<in> dom (w_memobjs w)" "R3 \<noteq> 0 \<Longrightarrow> R3 \<in> dom (w_memobjs w)"
    using y(2) ref_ok_dom mem_invD(4) [OF assms(1,2)] by (auto simp: R0_def R3_def split: option.splits if_splits)
  show ?thesis
  proof (cases "f AND NOT RTMEM_PROT_RWX \<noteq> 0 \<or> offSub AND 0xfff \<noteq> 0 \<or> cbSub AND 0xfff \<noteq> 0 \<or> cbSub = 0 \<or> (R0 = 0 \<and> R3 = 0)")
    case True
    then have "SUPR0PageProtect hst w sp pvR3 pvR0 offSub cbSub f = Some (VERR_INVALID_PARAMETER, w)"
      using y(1) unfolding SUPR0PageProtect_def with_session_ok [OF assms(2,3)] Let_def R0_def R3_def by auto
    then show ?thesis using g by blast
  next
    case False
    let ?o = "ucast offSub :: u64" and ?c = "ucast cbSub :: u64"
    obtain cb where cb: "(if R0 \<noteq> 0 then RTR0MemObjSize (w_memobjs w) R0 else RTR0MemObjSize (w_memobjs w) R3) = Some cb"
      using dom False mo_read_ok(2) [OF i] by (cases "R0 = 0") auto
    obtain rc h where p3: "(if R3 \<noteq> 0 then RTR0MemObjProtect hst (w_memobjs w) R3 ?o ?c f else Some (VINF_SUCCESS, w_memobjs w)) = Some (rc, h)"
      and h: "mo_inv h" "\<forall>u. ref_ok (w_memobjs w) u \<longrightarrow> ref_ok h u" "dom h = dom (w_memobjs w)"
        "\<forall>x. x \<noteq> R3 \<longrightarrow> h x = w_memobjs w x"
    proof (cases "R3 = 0")
      case True
      then show thesis using that [of VINF_SUCCESS "w_memobjs w"] i by simp
    next
      case False
      then obtain m where "w_memobjs w R3 = Some m" using dom(2) by blast
      from Protect_safe [OF i this, of hst ?o ?c f] False show thesis using that by auto
    qed
    have own: "x \<noteq> R3 \<and> x \<noteq> R0" if "w_memobjs w x = Some n" "mo_root x n \<notin> mr_MemObj ` set (mem_refs s)" for x n
      using that y(2) mem_invD(4) [OF assms(1,2)] mo_invD(2) [OF i]
      by (fastforce simp: R0_def R3_def mo_root_def ref_ok_def split: option.splits if_splits)
    have g1: "mem_good w sp (mem_result w h)"
      by (rule mem_good_heap [OF assms(1-3) h(1)]) (use h(2,4) own in auto)
    obtain rc2 h2 where p0: "R0 \<noteq> 0 \<Longrightarrow> RTR0MemObjProtect hst h R0 ?o ?c f = Some (rc2, h2)"
      and h2: "R0 \<noteq> 0 \<Longrightarrow> mo_inv h2 \<and> (\<forall>u. ref_ok h u \<longrightarrow> ref_ok h2 u) \<and> (\<forall>x. x \<noteq> R0 \<longrightarrow> h2 x = h x)"
    proof (cases "R0 = 0")
      case True
      then show thesis using that by blast
    next
      case False
      then obtain m where "h R0 = Some m" using dom(1) h(3) by blast
      from Protect_safe [OF h(1) this, of hst ?o ?c f] show thesis using that by blast
    qed
    have g2: "R0 \<noteq> 0 \<Longrightarrow> mem_good w sp (mem_result w h2)"
      by (rule mem_good_heap [OF assms(1-3)]) (use h2 h(2,4) own in auto)
    have e: "SUPR0PageProtect hst w sp pvR3 pvR0 offSub cbSub f =
       (if ucast offSub < cb \<and> ucast cbSub \<le> cb \<and> ucast (offSub + cbSub) \<le> cb then
          (if R0 \<noteq> 0 \<and> RT_SUCCESS rc then Some (rc2, mem_result w h2) else Some (rc, mem_result w h))
        else Some (VERR_INVALID_PARAMETER, w))"
    proof -
      have "SUPR0PageProtect hst w sp pvR3 pvR0 offSub cbSub f =
         Option.bind (if R0 \<noteq> 0 then RTR0MemObjSize (w_memobjs w) R0 else RTR0MemObjSize (w_memobjs w) R3) (\<lambda>cbMemObj.
           if ucast offSub < cbMemObj \<and> ucast cbSub \<le> cbMemObj \<and> ucast (offSub + cbSub) \<le> cbMemObj then
             Option.bind (if R3 \<noteq> 0 then RTR0MemObjProtect hst (w_memobjs w) R3 ?o ?c f else Some (VINF_SUCCESS, w_memobjs w))
               (\<lambda>(rc, h). if R0 \<noteq> 0 \<and> RT_SUCCESS rc
                  then map_option (\<lambda>(rc', h'). (rc', mem_result w h')) (RTR0MemObjProtect hst h R0 ?o ?c f)
                  else Some (rc, mem_result w h))
           else Some (VERR_INVALID_PARAMETER, w))"
      proof -
        have n: "\<not> f AND NOT RTMEM_PROT_RWX \<noteq> 0" "\<not> offSub AND 0xfff \<noteq> 0" "\<not> cbSub AND 0xfff \<noteq> 0" "\<not> cbSub = 0"
          "\<not> (R0 = 0 \<and> R3 = 0)" using False by blast+
        show ?thesis
          unfolding SUPR0PageProtect_def with_session_ok [OF assms(2,3)] Let_def if_not_P [OF n(1)] if_not_P [OF n(2)]
            if_not_P [OF n(3)] if_not_P [OF n(4)] y(1) option.case R0_def [symmetric] R3_def [symmetric] if_not_P [OF n(5)] ..
      qed
      then show ?thesis unfolding cb p3 using p0 by (cases "R0 = 0") simp_all
    qed
    show ?thesis unfolding e using g g1 g2 by (cases "R0 = 0") auto
  qed
qed

lemma MemGetPhys_safe:
  assumes "mem_inv w" "w_sess w sp = Some s" "SUP_IS_SESSION_VALID sp s"
  shows "\<exists>rc out. SUPR0MemGetPhys hst w sp u pp = Some (rc, out)"
proof (cases "\<not> RT_VALID_PTR pp \<or> u = 0")
  case True
  then show ?thesis by (auto simp: SUPR0MemGetPhys_def with_session_ok [OF assms(2,3)])
next
  case False
  have i: "mo_inv (w_memobjs w)" by (rule mem_invD(1) [OF assms(1)])
  let ?Q = "mem_hit (w_memobjs w) MEMREF_TYPE_MEM u"
  obtain bs where bs: "bdl_take (mem_match (w_memobjs w) MEMREF_TYPE_MEM u) (ses_Bundle s) =
      Some (map_option (\<lambda>r. (r, bs)) (find ?Q (mem_refs s)))" using mem_search_ok [OF assms(1,2)] by blast
  show ?thesis
  proof (cases "find ?Q (mem_refs s)")
    case None
    then show ?thesis using False bs by (simp add: SUPR0MemGetPhys_def with_session_ok [OF assms(2,3)])
  next
    case (Some r)
    have ro: "ref_ok (w_memobjs w) r" using mem_invD(4) [OF assms(1,2)] find_SomeD [OF Some] by blast
    obtain m where m: "w_memobjs w (mr_MemObj r) = Some m" using ref_ok_dom(1) [OF ro] by blast
    obtain xs where xs: "phys_up hst (w_memobjs w) (mr_MemObj r) 0 (unat (drop_bit PAGE_SHIFT (mo_cb m))) = Some xs"
      using phys_safe(1) [OF i disjI2 [OF m]] by blast
    show ?thesis using False bs Some xs mo_read_ok(2) [OF i m] by (simp add: SUPR0MemGetPhys_def with_session_ok [OF assms(2,3)])
  qed
qed

text \<open>The requests a session can make about its memory\<close>

datatype mem_req =
    ReqLockMem addr u32 addr
  | ReqUnlockMem addr
  | ReqContAlloc u32 addr addr addr
  | ReqContFree addr
  | ReqLowAlloc u32 addr addr addr
  | ReqLowFree addr
  | ReqMemAlloc u32 addr addr
  | ReqMemGetPhys addr addr
  | ReqMemFree addr
  | ReqPageAllocEx u32 u32 addr addr addr
  | ReqPageMapKernel addr u32 u32 u32 addr
  | ReqPageProtect addr addr u32 u32 u32
  | ReqPageFree addr

definition mem_exec :: "r0host \<Rightarrow> bool \<Rightarrow> addr \<Rightarrow> supdrv \<Rightarrow> mem_req \<Rightarrow> (status \<times> supdrv) option" where
  "mem_exec hst fAlloc sp w x =
     (case x of
           ReqLockMem pv n pp \<Rightarrow> map_option (\<lambda>(rc, _, w1). (rc, w1)) (SUPR0LockMem hst fAlloc w sp pv n pp)
         | ReqUnlockMem pv \<Rightarrow> SUPR0UnlockMem hst w sp pv
         | ReqContAlloc n p0 p3 pp \<Rightarrow> map_option (\<lambda>(rc, _, w1). (rc, w1)) (SUPR0ContAlloc hst fAlloc w sp n p0 p3 pp)
         | ReqContFree u \<Rightarrow> SUPR0ContFree hst w sp u
         | ReqLowAlloc n p0 p3 pp \<Rightarrow> map_option (\<lambda>(rc, _, w1). (rc, w1)) (SUPR0LowAlloc hst fAlloc w sp n p0 p3 pp)
         | ReqLowFree u \<Rightarrow> SUPR0LowFree hst w sp u
         | ReqMemAlloc cb p0 p3 \<Rightarrow> map_option (\<lambda>(rc, _, w1). (rc, w1)) (SUPR0MemAlloc hst fAlloc w sp cb p0 p3)
         | ReqMemGetPhys u pp \<Rightarrow> map_option (\<lambda>(rc, _). (rc, w)) (SUPR0MemGetPhys hst w sp u pp)
         | ReqMemFree u \<Rightarrow> SUPR0MemFree hst w sp u
         | ReqPageAllocEx n fl p3 p0 pp \<Rightarrow> map_option (\<lambda>(rc, _, w1). (rc, w1)) (SUPR0PageAllocEx hst fAlloc w sp n fl p3 p0 pp)
         | ReqPageMapKernel pv off cb fl p0 \<Rightarrow> map_option (\<lambda>(rc, _, w1). (rc, w1)) (SUPR0PageMapKernel hst w sp pv off cb fl p0)
         | ReqPageProtect p3 p0 off cb f \<Rightarrow> SUPR0PageProtect hst w sp p3 p0 off cb f
         | ReqPageFree pv \<Rightarrow> SUPR0PageFree hst w sp pv)"

lemma MemAlloc_safe:
  assumes "mem_inv w" "w_sess w sp = Some s" "SUP_IS_SESSION_VALID sp s" "host_ok hst" "host_frees hst"
  shows "\<exists>rc out w1. SUPR0MemAlloc hst fAlloc w sp cb p0 p3 = Some (rc, out, w1) \<and> mem_good w sp w1"
proof -
  from MemAlloc_ok [OF assms, of fAlloc cb p0 p3] obtain rc out w1 where
    a: "SUPR0MemAlloc hst fAlloc w sp cb p0 p3 = Some (rc, out, w1)" "mem_inv w1" and
    c: "w1 = w \<or> (\<exists>p q bs h1. w1 = mem_result (set_sess w sp (s\<lparr>ses_Bundle := bs\<rparr>)) h1 \<and>
          inserted \<lparr>mr_MemObj = p, mr_MapObjR3 = q, mr_eType = MEMREF_TYPE_MEM\<rparr> (mem_refs s) (bdl_refs bs) \<and>
          w_memobjs w p = None \<and> w_memobjs w q = None \<and> (\<forall>x. x \<noteq> p \<longrightarrow> x \<noteq> q \<longrightarrow> h1 x = w_memobjs w x))"
    by (force split: option.splits)
  have "mem_good w sp w1"
    using c
  proof
    assume "w1 = w"
    then show ?thesis using mem_good_self [OF assms(1-3)] by simp
  next
    assume "\<exists>p q bs h1. w1 = mem_result (set_sess w sp (s\<lparr>ses_Bundle := bs\<rparr>)) h1 \<and>
          inserted \<lparr>mr_MemObj = p, mr_MapObjR3 = q, mr_eType = MEMREF_TYPE_MEM\<rparr> (mem_refs s) (bdl_refs bs) \<and>
          w_memobjs w p = None \<and> w_memobjs w q = None \<and> (\<forall>x. x \<noteq> p \<longrightarrow> x \<noteq> q \<longrightarrow> h1 x = w_memobjs w x)"
    then obtain p q bs h1 where b: "w1 = mem_result (set_sess w sp (s\<lparr>ses_Bundle := bs\<rparr>)) h1"
      "inserted \<lparr>mr_MemObj = p, mr_MapObjR3 = q, mr_eType = MEMREF_TYPE_MEM\<rparr> (mem_refs s) (bdl_refs bs)"
      "w_memobjs w p = None" "w_memobjs w q = None" "\<forall>x. x \<noteq> p \<longrightarrow> x \<noteq> q \<longrightarrow> h1 x = w_memobjs w x" by (elim exE conjE) (rule that)
    show ?thesis by (rule mem_good_new [OF assms(1-3) a(2) b(1,2), of q]) (use b(3-5) in simp_all)
  qed
  with a(1) show ?thesis by blast
qed

lemma mem_exec_good:
  assumes "mem_inv w" "w_sess w sp = Some s" "SUP_IS_SESSION_VALID sp s" "host_ok hst" "host_frees hst"
    and "\<forall>pv off cb fl. x \<noteq> ReqPageMapKernel pv off cb fl 0"
  shows "\<exists>rc w1. mem_exec hst fAlloc sp w x = Some (rc, w1) \<and> mem_good w sp w1"
proof -
  have alloc: "\<exists>rc w1. map_option (\<lambda>(rc, _, w1). (rc, w1)) r = Some (rc, w1) \<and> mem_good w sp w1"
    if "\<exists>rc out w1. r = Some (rc, out, w1) \<and> mem_good w sp w1" for r :: "(status \<times> 'b \<times> supdrv) option"
    using that by auto
  note rel = release_safe [OF assms(1-3,5)]
  note u = with_session_ok [OF assms(2,3)]
  show ?thesis
  proof (cases x)
    case (ReqLockMem pv n pp)
    then show ?thesis using alloc [OF LockMem_safe [OF assms(1-5)]] by (simp add: mem_exec_def)
  next
    case (ReqUnlockMem pv)
    then show ?thesis using rel by (simp add: mem_exec_def SUPR0UnlockMem_def u)
  next
    case (ReqContAlloc n p0 p3 pp)
    then show ?thesis using alloc [OF ContAlloc_safe [OF assms(1-5)]] by (simp add: mem_exec_def)
  next
    case (ReqContFree pv)
    then show ?thesis using rel by (simp add: mem_exec_def SUPR0ContFree_def u)
  next
    case (ReqLowAlloc n p0 p3 pp)
    then show ?thesis using alloc [OF LowAlloc_safe [OF assms(1-5)]] by (simp add: mem_exec_def)
  next
    case (ReqLowFree pv)
    then show ?thesis using rel by (simp add: mem_exec_def SUPR0LowFree_def u)
  next
    case (ReqMemAlloc cb p0 p3)
    then show ?thesis using alloc [OF MemAlloc_safe [OF assms(1-5)]] by (simp add: mem_exec_def)
  next
    case (ReqMemGetPhys pv pp)
    then show ?thesis using MemGetPhys_safe [OF assms(1-3), of hst pv pp] mem_good_self [OF assms(1-3)] by (auto simp: mem_exec_def)
  next
    case (ReqMemFree pv)
    then show ?thesis using rel by (simp add: mem_exec_def SUPR0MemFree_def u)
  next
    case (ReqPageAllocEx n fl p3 p0 pp)
    then show ?thesis using alloc [OF PageAllocEx_safe [OF assms(1-5)]] by (simp add: mem_exec_def)
  next
    case (ReqPageMapKernel pv off cb fl p0)
    then have "p0 \<noteq> 0" using assms(6) by auto
    from alloc [OF PageMapKernel_safe [OF assms(1-4) this]] show ?thesis by (simp add: ReqPageMapKernel mem_exec_def)
  next
    case (ReqPageProtect p3 p0 off cb f)
    then show ?thesis using PageProtect_safe [OF assms(1-3)] by (simp add: mem_exec_def)
  next
    case (ReqPageFree pv)
    then show ?thesis using rel by (simp add: mem_exec_def SUPR0PageFree_def u)
  qed
qed

text \<open>
  The address of a kernel mapping is stored through the caller's pointer. NULL passes the test of the
  pointer, so a request with NULL does what it would do with a valid pointer until the mapping is made.
\<close>

lemma PageMapKernel_null:
  assumes "w_sess w sp = Some s" "SUP_IS_SESSION_VALID sp s" "p0 \<noteq> 0"
    and "SUPR0PageMapKernel hst w sp pv off cb fl p0 = Some (rc, pv0, w1)" "RT_VALID_PTR p0 \<or> RT_SUCCESS rc"
  shows "map_option (\<lambda>(rc, _, w1). (rc, w1)) (SUPR0PageMapKernel hst w sp pv off cb fl 0) =
    (if RT_SUCCESS rc then None else Some (rc, w1))"
proof (cases "RT_SUCCESS rc")
  case True
  then show ?thesis
    using assms(3-5) unfolding SUPR0PageMapKernel_def with_session_ok [OF assms(1,2)]
    by (auto simp: bind_eq_Some_conv split: if_splits option.splits)
next
  case False
  then have v: "RT_VALID_PTR p0" using assms(5) by blast
  have "SUPR0PageMapKernel hst w sp pv off cb fl 0 = Some (rc, 0, w1)"
    using assms(3,4) v False unfolding SUPR0PageMapKernel_def with_session_ok [OF assms(1,2)]
    by (auto simp: bind_eq_Some_conv split: if_splits option.splits)
  then show ?thesis using False by simp
qed

text \<open>
  C10: a session makes any memory request, with any arguments, while the host's memory functions work
  as documented. The request is undefined in one case: a kernel mapping asked for with NULL as the
  place of its address, where everything else about the request is in order; the code then writes
  through NULL. In every other case no request reads a freed handle, frees memory twice or runs into a
  fatal assertion: it answers, keeps the memory invariant, leaves all other sessions alone and leaves a
  state for which this holds again, so any sequence of requests is covered.
\<close>

theorem mem_requests_safe:
  assumes "mem_inv w" "w_sess w sp = Some s" "SUP_IS_SESSION_VALID sp s" "host_ok hst" "host_frees hst"
  shows "(mem_exec hst fAlloc sp w x = None \<longleftrightarrow>
      (\<exists>pv off cb fl p0 rc w1. x = ReqPageMapKernel pv off cb fl 0 \<and> p0 \<noteq> 0 \<and>
         mem_exec hst fAlloc sp w (ReqPageMapKernel pv off cb fl p0) = Some (rc, w1) \<and> RT_SUCCESS rc)) \<and>
    (\<forall>rc w1. mem_exec hst fAlloc sp w x = Some (rc, w1) \<longrightarrow>
       mem_inv w1 \<and> (\<exists>s1. w_sess w1 = (w_sess w)(sp \<mapsto> s1) \<and> SUP_IS_SESSION_VALID sp s1))"
proof -
  have good: "mem_inv w1 \<and> (\<exists>s1. w_sess w1 = (w_sess w)(sp \<mapsto> s1) \<and> SUP_IS_SESSION_VALID sp s1)" if "mem_good w sp w1" for w1
    using that mem_moved_sess unfolding mem_good_def by blast
  show ?thesis
  proof (cases "\<exists>pv off cb fl. x = ReqPageMapKernel pv off cb fl 0")
    case False
    then have "\<exists>rc w1. mem_exec hst fAlloc sp w x = Some (rc, w1) \<and> mem_good w sp w1" using mem_exec_good [OF assms] by blast
    then show ?thesis using good False by auto
  next
    case True
    then obtain pv off cb fl where x: "x = ReqPageMapKernel pv off cb fl 0" by blast
    have v: "(0x1000 :: addr) \<noteq> 0" "RT_VALID_PTR 0x1000" by (simp_all add: RT_VALID_PTR_def)
    obtain rc pv0 w1 where r: "SUPR0PageMapKernel hst w sp pv off cb fl 0x1000 = Some (rc, pv0, w1)" "mem_good w sp w1"
      using PageMapKernel_safe [OF assms(1-4) v(1)] by blast
    have e: "mem_exec hst fAlloc sp w x = (if RT_SUCCESS rc then None else Some (rc, w1))"
      using PageMapKernel_null [OF assms(2,3) v(1) r(1) disjI1 [OF v(2)]] by (simp add: x mem_exec_def)
    have f: "mem_exec hst fAlloc sp w x = None"
      if "p0 \<noteq> 0" "mem_exec hst fAlloc sp w (ReqPageMapKernel pv off cb fl p0) = Some (rc', w')" "RT_SUCCESS rc'" for p0 rc' w'
      using PageMapKernel_null [OF assms(2,3) that(1), of hst pv off cb fl rc' _ w'] that(2,3) by (auto simp: x mem_exec_def)
    have g: "\<exists>p0 rc w1. p0 \<noteq> 0 \<and> mem_exec hst fAlloc sp w (ReqPageMapKernel pv off cb fl p0) = Some (rc, w1) \<and> RT_SUCCESS rc"
      if "RT_SUCCESS rc"
      using v(1) r(1) that by (intro exI [of _ "0x1000 :: addr"] exI [of _ rc] exI [of _ w1]) (simp add: mem_exec_def)
    have iff: "mem_exec hst fAlloc sp w x = None \<longleftrightarrow>
        (\<exists>p0 rc w1. p0 \<noteq> 0 \<and> mem_exec hst fAlloc sp w (ReqPageMapKernel pv off cb fl p0) = Some (rc, w1) \<and> RT_SUCCESS rc)"
    proof
      assume "mem_exec hst fAlloc sp w x = None"
      then have "RT_SUCCESS rc" using e by (simp split: if_splits)
      then show "\<exists>p0 rc w1. p0 \<noteq> 0 \<and> mem_exec hst fAlloc sp w (ReqPageMapKernel pv off cb fl p0) = Some (rc, w1) \<and> RT_SUCCESS rc"
        by (rule g)
    next
      assume "\<exists>p0 rc w1. p0 \<noteq> 0 \<and> mem_exec hst fAlloc sp w (ReqPageMapKernel pv off cb fl p0) = Some (rc, w1) \<and> RT_SUCCESS rc"
      then show "mem_exec hst fAlloc sp w x = None" using f by blast
    qed
    have "mem_inv v \<and> (\<exists>s1. w_sess v = (w_sess w)(sp \<mapsto> s1) \<and> SUP_IS_SESSION_VALID sp s1)"
      if "mem_exec hst fAlloc sp w x = Some (rv, v)" for rv v
    proof -
      have "v = w1" using that e by (simp split: if_splits)
      then show ?thesis using good [OF r(2)] by simp
    qed
    then show ?thesis using iff x by auto
  qed
qed

subsection \<open>Kernel mappings\<close>

text \<open>
  A kernel mapping the driver makes for a session lies inside one of the session's own objects,
  although the driver's own test adds offset and size in 32 bits, where the sum can wrap; the address
  it gives out is that of the new mapping.
\<close>

theorem SUPR0PageMapKernel_bounds:
  assumes "mem_inv w" "w_sess w sp = Some s" "SUP_IS_SESSION_VALID sp s" "host_ok hst"
    and "\<forall>p m. w_memobjs w p = Some m \<longrightarrow> mo_cb m < 0x8000000000000000"
    and "SUPR0PageMapKernel hst w sp pvR3 offSub cbSub fl p0 = Some (rc, pv, w1)" "RT_SUCCESS rc"
  shows "\<exists>r m q c. r \<in> set (mem_refs s) \<and> w_memobjs w (mr_MemObj r) = Some m \<and>
    unat offSub + unat cbSub \<le> unat (mo_cb m) \<and> 0 < cbSub \<and>
    w_memobjs w q = None \<and> w_memobjs w1 q = Some c \<and> mo_pParent c = mr_MemObj r \<and> mo_cb c = ucast cbSub \<and> pv = mo_pv c"
proof -
  have i: "mo_inv (w_memobjs w)" by (rule mem_invD(1) [OF assms(1)])
  have z: "map_match (w_memobjs w) pvR3 r = Some False" if "mr_MemObj r = 0" for r using that by (simp add: map_match_def)
  obtain y where y: "bdl_last (map_match (w_memobjs w) pvR3) (ses_Bundle s) None = Some y"
    "\<forall>r. y = Some r \<longrightarrow> r \<in> set (mem_refs s)"
    using mem_last_ok [where P = "map_match (w_memobjs w) pvR3", OF assms(1,2) map_match_total(1) [OF i] z] by blast
  have n: "cbSub \<noteq> 0" "y \<noteq> None"
    using assms(6,7) y(1) unfolding SUPR0PageMapKernel_def with_session_ok [OF assms(2,3)]
    by (auto split: if_splits option.splits)
  then obtain r where r: "y = Some r" by blast
  have rs: "r \<in> set (mem_refs s)" using y(2) r by blast
  have ro: "ref_ok (w_memobjs w) r" by (rule mem_invD(4) [OF assms(1,2) rs])
  obtain m where m: "w_memobjs w (mr_MemObj r) = Some m" using ref_ok_dom(1) [OF ro] by blast
  have cb: "(ucast offSub :: u64) \<noteq> 0 \<longrightarrow> (ucast cbSub :: u64) \<noteq> 0" using n(1) by (simp add: ucast_u32_0)
  have sz: "mo_cb m < 0x8000000000000000" using assms(5) m by blast
  from RTR0MemObjMapKernelEx_correct [OF i assms(4) m sz cb, of "0xffffffffffffffff" 0 RTMEM_PROT_RW] obtain rc' q h' where
    k: "RTR0MemObjMapKernelEx hst (w_memobjs w) (mr_MemObj r) 0xffffffffffffffff 0 RTMEM_PROT_RW (ucast offSub) (ucast cbSub) =
        Some (rc', q, h')" "mo_inv h'" and
    ok: "RT_SUCCESS rc' \<Longrightarrow> unat (ucast offSub :: u64) + unat (ucast cbSub :: u64) \<le> unat (mo_cb m) \<and> w_memobjs w q = None \<and>
       (\<exists>c. h' q = Some c \<and> mo_pParent c = mr_MemObj r \<and>
          mo_cb c = (if (ucast cbSub :: u64) = 0 then mo_cb m else ucast cbSub))"
    by (auto split: if_splits)
  have "rc = rc'" "RTR0MemObjAddress h' q = Some pv" "w_memobjs w1 = h'"
    using assms(6,7) y(1) r k(1) mo_read_ok(2) [OF i m]
    unfolding SUPR0PageMapKernel_def with_session_ok [OF assms(2,3)] by (auto split: if_splits)
  moreover obtain c where c: "h' q = Some c" "mo_pParent c = mr_MemObj r" "mo_cb c = ucast cbSub"
    "unat offSub + unat cbSub \<le> unat (mo_cb m)" "w_memobjs w q = None"
    using ok assms(7) calculation(1) n(1) by (auto simp: unat_ucast_u32 ucast_u32_0)
  moreover have "RTR0MemObjAddress h' q = Some (mo_pv c)" by (rule mo_read_ok(1) [OF k(2) c(1)])
  moreover have "0 < cbSub" using n(1) by (simp add: word_greater_zero_iff)
  ultimately show ?thesis using rs m by (intro exI [of _ r] exI [of _ m] exI [of _ q] exI [of _ c]) auto
qed

subsection \<open>Closing a session\<close>

lemma mem_free_entries_ok:
  assumes "mo_inv h" "host_frees hst" "\<forall>r\<in>set (slot_used rs). ref_ok h r" "distinct (map mr_MemObj (slot_used rs))"
  shows "\<exists>h'. mem_free_entries hst h rs = Some h' \<and> mo_inv h' \<and> dom h' \<subseteq> dom h \<and>
    (\<forall>r\<in>set (slot_used rs). h' (mr_MemObj r) = None \<and> (mr_MapObjR3 r \<noteq> 0 \<longrightarrow> h' (mr_MapObjR3 r) = None)) \<and>
    (\<forall>u. ref_ok h u \<longrightarrow> (\<forall>r\<in>set (slot_used rs). mr_MemObj u \<noteq> mr_MemObj r) \<longrightarrow> ref_ok h' u) \<and>
    (\<forall>q n. h q = Some n \<longrightarrow> mr_MemObj ` set (slot_used rs) \<inter> {mo_root q n} = {} \<longrightarrow> h' q = h q)"
  using assms(1,3,4)
proof (induction rs arbitrary: h)
  case (Cons r rs)
  show ?case
  proof (cases "mr_MemObj r = 0")
    case True
    then show ?thesis using Cons by simp
  next
    case False
    have ro: "ref_ok h r" using Cons.prems(2) False by simp
    obtain m where m: "h (mr_MemObj r) = Some m" using ref_ok_dom(1) [OF ro] by blast
    from mem_free_entry_ok [OF Cons.prems(1) ro assms(2) m] obtain h1 where
      h1: "mem_free_entry hst h r = Some h1" "mo_inv h1" "h1 (mr_MemObj r) = None"
      "mr_MapObjR3 r \<noteq> 0 \<longrightarrow> h1 (mr_MapObjR3 r) = None" "dom h1 \<subseteq> dom h"
      "\<forall>u. ref_ok h u \<longrightarrow> mr_MemObj u \<noteq> mr_MemObj r \<longrightarrow> ref_ok h1 u"
      "\<forall>q. q \<notin> {mr_MemObj r, mr_MapObjR3 r} \<union> set (mo_papMappings m) \<longrightarrow> h1 q = h q" by blast
    have ne: "\<forall>u\<in>set (slot_used rs). mr_MemObj u \<noteq> mr_MemObj r" using Cons.prems(3) False by (auto simp: image_iff)
    have "\<forall>u\<in>set (slot_used rs). ref_ok h1 u" using h1(6) ne Cons.prems(2) False by auto
    moreover have "distinct (map mr_MemObj (slot_used rs))" using Cons.prems(3) False by simp
    ultimately obtain h2 where h2: "mem_free_entries hst h1 rs = Some h2" "mo_inv h2" "dom h2 \<subseteq> dom h1"
      "\<forall>r\<in>set (slot_used rs). h2 (mr_MemObj r) = None \<and> (mr_MapObjR3 r \<noteq> 0 \<longrightarrow> h2 (mr_MapObjR3 r) = None)"
      "\<forall>u. ref_ok h1 u \<longrightarrow> (\<forall>r\<in>set (slot_used rs). mr_MemObj u \<noteq> mr_MemObj r) \<longrightarrow> ref_ok h2 u"
      "\<forall>q n. h1 q = Some n \<longrightarrow> mr_MemObj ` set (slot_used rs) \<inter> {mo_root q n} = {} \<longrightarrow> h2 q = h1 q"
      using Cons.IH [OF h1(2)] by blast
    have fr: "h2 q = h q" if q: "h q = Some n" "mr_MemObj ` set (slot_used (r # rs)) \<inter> {mo_root q n} = {}" for q n
    proof -
      have n: "mo_root q n \<noteq> mr_MemObj r" "mr_MemObj ` set (slot_used rs) \<inter> {mo_root q n} = {}" using q(2) False by auto
      have e: "h1 q = h q" by (rule h1(7) [rule_format, OF mem_free_entry_frame [OF Cons.prems(1) ro m q(1) n(1)]])
      have "h1 q = Some n" unfolding e by (rule q(1))
      from h2(6) [rule_format, OF this n(2)] show ?thesis unfolding e .
    qed
    have "h2 (mr_MemObj r) = None \<and> (mr_MapObjR3 r \<noteq> 0 \<longrightarrow> h2 (mr_MapObjR3 r) = None)"
      using h1(3,4) h2(3) by (metis domIff subsetD)
    moreover have "mem_free_entries hst h (r # rs) = Some h2" using False h1(1) h2(1) by simp
    moreover have "dom h2 \<subseteq> dom h" using h1(5) h2(3) by blast
    moreover have "set (slot_used (r # rs)) = insert r (set (slot_used rs))" using False by simp
    ultimately show ?thesis using h1(6) h2(2,4,5) fr by (intro exI [of _ h2]) simp
  qed
qed auto

lemma mem_free_bundles_append:
  "mem_free_bundles hst h bs = mem_free_entries hst h (concat (map bdl_aMem bs))"
proof -
  have a: "mem_free_entries hst h (xs @ ys) = Option.bind (mem_free_entries hst h xs) (\<lambda>h1. mem_free_entries hst h1 ys)" for h xs ys
  proof (induction xs arbitrary: h)
    case (Cons x xs)
    then show ?case by (cases "mem_free_entry hst h x") auto
  qed simp
  show ?thesis by (induction bs arbitrary: h) (simp_all add: a)
qed

lemma cleanup_mem_ok:
  assumes "mem_inv w" "w_sess w sp = Some s" "host_frees hst"
  shows "\<exists>h bs. cleanup_mem hst w sp = Some (mem_result (set_sess w sp (s\<lparr>ses_Bundle := bs\<rparr>)) h) \<and>
    mem_inv (mem_result (set_sess w sp (s\<lparr>ses_Bundle := bs\<rparr>)) h) \<and> bdl_refs bs = [] \<and> length bs = 1 \<and> bdl_count bs = 0 \<and>
    (\<forall>r\<in>set (mem_refs s). h (mr_MemObj r) = None \<and> (mr_MapObjR3 r \<noteq> 0 \<longrightarrow> h (mr_MapObjR3 r) = None)) \<and>
    (\<forall>q t r. q \<noteq> sp \<longrightarrow> w_sess w q = Some t \<longrightarrow> r \<in> set (mem_refs t) \<longrightarrow> ref_ok h r) \<and>
    (\<forall>q n. w_memobjs w q = Some n \<longrightarrow> mr_MemObj ` set (mem_refs s) \<inter> {mo_root q n} = {} \<longrightarrow> h q = w_memobjs w q) \<and>
    (\<forall>q. w_memobjs w q = None \<longrightarrow> h q = None)"
proof -
  let ?rs = "concat (map bdl_aMem (ses_Bundle s))"
  have refs: "slot_used ?rs = mem_refs s" by (simp add: mem_refs_def bdl_refs_def)
  have "\<forall>r\<in>set (slot_used ?rs). ref_ok (w_memobjs w) r" "distinct (map mr_MemObj (slot_used ?rs))"
    unfolding refs using mem_invD(3,4) [OF assms(1,2)] by blast+
  from mem_free_entries_ok [OF mem_invD(1) [OF assms(1)] assms(3) this] obtain h where
    h: "mem_free_bundles hst (w_memobjs w) (ses_Bundle s) = Some h" "mo_inv h" "dom h \<subseteq> dom (w_memobjs w)"
    "\<forall>r\<in>set (mem_refs s). h (mr_MemObj r) = None \<and> (mr_MapObjR3 r \<noteq> 0 \<longrightarrow> h (mr_MapObjR3 r) = None)"
    "\<forall>u. ref_ok (w_memobjs w) u \<longrightarrow> (\<forall>r\<in>set (mem_refs s). mr_MemObj u \<noteq> mr_MemObj r) \<longrightarrow> ref_ok h u"
    "\<forall>q n. w_memobjs w q = Some n \<longrightarrow> mr_MemObj ` set (mem_refs s) \<inter> {mo_root q n} = {} \<longrightarrow> h q = w_memobjs w q"
    unfolding refs mem_free_bundles_append by blast
  let ?s = "s\<lparr>ses_Bundle := map bdl_cleared (take 1 (ses_Bundle s))\<rparr>"
  obtain b bs where b: "ses_Bundle s = b # bs" "bdl_ok b"
    using mem_invD(2) [OF assms(1,2)] by (auto simp: bundles_ok_def neq_Nil_conv)
  have cl: "mr_cleared r = mr_unused" if "r \<in> set (bdl_aMem b)" for r
    using that b(2) by (auto simp: mr_cleared_def bdl_ok_def)
  have u: "slot_used (map mr_cleared (bdl_aMem b)) = []"
    using cl by (auto simp: filter_empty_conv mr_unused_def)
  have blank: "bdl_ok (bdl_cleared b)"
    unfolding bdl_ok_def bdl_cleared_def SUPDRVBUNDLE.simps u using b(2) cl by (auto simp: bdl_ok_def)
  have s1: "mem_refs ?s = []" "bundles_ok ?s" "length (ses_Bundle ?s) = 1" "bdl_count (ses_Bundle ?s) = 0"
    using blank u by (simp_all add: b(1) mem_refs_def bundles_ok_def bdl_cleared_def)
  have keep: "ref_ok h r" if r: "q \<noteq> sp" "w_sess w q = Some t" "r \<in> set (mem_refs t)" for q t r
    using h(5) mem_invD(4) [OF assms(1) r(2,3)] mem_invD(5) [OF assms(1) r(2) assms(2) r(1) r(3)] by blast
  have inv: "mem_inv (mem_result (set_sess w sp ?s) h)"
    by (rule mem_inv_upd [OF assms(1) h(2) s1(2)]) (use s1(1) keep in auto)
  have e: "cleanup_mem hst w sp = Some (mem_result (set_sess w sp ?s) h)" using h(1) assms(2) by (simp add: cleanup_mem_def)
  have m: "bdl_refs (map bdl_cleared (take 1 (ses_Bundle s))) = []" using s1(1) by (simp add: mem_refs_def)
  have gone: "\<forall>q. w_memobjs w q = None \<longrightarrow> h q = None" using h(3) by (auto simp: subset_iff domIff)
  show ?thesis
    using s1(3,4) keep by (intro exI [of _ h] exI [of _ "map bdl_cleared (take 1 (ses_Bundle s))"] conjI e inv m h(4,6) gone) auto
qed

text \<open>
  Closing a session frees every object it tracks and its ring-3 mapping, without touching a freed
  handle; the session keeps one blank bundle, and the objects and entries of all other sessions stay.
\<close>

theorem cleanup_mem_correct:
  assumes "mem_inv w" "w_sess w sp = Some s" "host_frees hst"
  shows "\<exists>w1 s1. cleanup_mem hst w sp = Some w1 \<and> mem_inv w1 \<and> w_sess w1 = (w_sess w)(sp \<mapsto> s1) \<and>
    mem_refs s1 = [] \<and> length (ses_Bundle s1) = 1 \<and> bdl_count (ses_Bundle s1) = 0 \<and>
    (\<forall>r\<in>set (mem_refs s). w_memobjs w1 (mr_MemObj r) = None \<and> (mr_MapObjR3 r \<noteq> 0 \<longrightarrow> w_memobjs w1 (mr_MapObjR3 r) = None)) \<and>
    (\<forall>q t r. q \<noteq> sp \<longrightarrow> w_sess w q = Some t \<longrightarrow> r \<in> set (mem_refs t) \<longrightarrow> ref_ok (w_memobjs w1) r)"
proof -
  from cleanup_mem_ok [OF assms] obtain h bs where
    c: "cleanup_mem hst w sp = Some (mem_result (set_sess w sp (s\<lparr>ses_Bundle := bs\<rparr>)) h)"
      "mem_inv (mem_result (set_sess w sp (s\<lparr>ses_Bundle := bs\<rparr>)) h)" "bdl_refs bs = []" "length bs = 1" "bdl_count bs = 0"
    and h: "\<forall>r\<in>set (mem_refs s). h (mr_MemObj r) = None \<and> (mr_MapObjR3 r \<noteq> 0 \<longrightarrow> h (mr_MapObjR3 r) = None)"
      "\<forall>q t r. q \<noteq> sp \<longrightarrow> w_sess w q = Some t \<longrightarrow> r \<in> set (mem_refs t) \<longrightarrow> ref_ok h r" by blast
  have m: "mem_refs (s\<lparr>ses_Bundle := bs\<rparr>) = []" using c(3) by (simp add: mem_refs_def)
  show ?thesis
    using c(4,5) h m
    by (intro exI [of _ "mem_result (set_sess w sp (s\<lparr>ses_Bundle := bs\<rparr>)) h"] exI [of _ "s\<lparr>ses_Bundle := bs\<rparr>"] conjI c(1,2)) simp_all
qed

subsection \<open>Concrete runs\<close>

text \<open>A session that has locked two pages of its process.\<close>

definition mem_ex1_ref :: SUPDRVMEMREF where
  "mem_ex1_ref = \<lparr>mr_MemObj = 0x100000, mr_MapObjR3 = 0, mr_eType = MEMREF_TYPE_LOCKED\<rparr>"

definition sess_mem_ex1 :: SUPDRVSESSION where
  "sess_mem_ex1 = sess0\<lparr>ses_Bundle := [\<lparr>bdl_aMem = mem_ex1_ref # replicate 63 mr_unused, bdl_cUsed = 1\<rparr>]\<rparr>"

definition mem_ex1 :: supdrv where
  "mem_ex1 = supdrv0\<lparr>w_sess := [0x50000 \<mapsto> sess_mem_ex1],
     w_memobjs := [0x100000 \<mapsto> host_obj RTR0MEMOBJTYPE_LOCK 0x2000 0x7fff0000 0x1234]\<rparr>"

lemma sess_mem_ex1_ok: "bundles_ok sess_mem_ex1" "mem_refs sess_mem_ex1 = [mem_ex1_ref]" "SUP_IS_SESSION_VALID 0x50000 sess_mem_ex1"
proof -
  have u: "mr_MemObj mr_unused = 0" by (simp add: mr_unused_def)
  show "bundles_ok sess_mem_ex1" "mem_refs sess_mem_ex1 = [mem_ex1_ref]"
    by (simp_all add: bundles_ok_def bdl_ok_def sess_mem_ex1_def mem_refs_def u mem_ex1_ref_def)
  show "SUP_IS_SESSION_VALID 0x50000 sess_mem_ex1"
    by (simp add: SUP_IS_SESSION_VALID_def sess_mem_ex1_def sess0_def RT_VALID_PTR_def)
qed

lemma mem_ex1_ok: "mem_inv mem_ex1" "w_sess mem_ex1 0x50000 = Some sess_mem_ex1"
proof -
  have "mo_inv (w_memobjs mem_ex1)"
    by (auto simp: mo_inv_def mem_ex1_def host_obj_def rtR0MemObjIsMapping_def RT_VALID_PTR_def)
  moreover have "ref_ok (w_memobjs mem_ex1) mem_ex1_ref"
    by (simp add: ref_ok_def mem_ex1_ref_def mem_ex1_def host_obj_def rtR0MemObjIsMapping_def)
  ultimately show "mem_inv mem_ex1" using sess_mem_ex1_ok by (auto simp: mem_inv_def mem_ex1_def)
  show "w_sess mem_ex1 0x50000 = Some sess_mem_ex1" by (simp add: mem_ex1_def)
qed

theorem mem_requests_safe_witness:
  "\<exists>rc w1. mem_exec host_ex True 0x50000 mem_ex1 (ReqUnlockMem 0x7fff0000) = Some (rc, w1) \<and> mem_inv w1"
  using mem_requests_safe [OF mem_ex1_ok sess_mem_ex1_ok(3) host_ex_ok(1) mem_ex_ok(3), of True "ReqUnlockMem 0x7fff0000"]
  by (cases "mem_exec host_ex True 0x50000 mem_ex1 (ReqUnlockMem 0x7fff0000)") auto

text \<open>The request that writes through NULL.\<close>

lemma mem_ex1_null: "mem_exec host_ex True 0x50000 mem_ex1 (ReqPageMapKernel 0x7fff0000 0x1000 0x1000 0 0) = None"
proof -
  have h: "w_memobjs mem_ex1 = [0x100000 \<mapsto> host_obj RTR0MEMOBJTYPE_LOCK 0x2000 0x7fff0000 0x1234]" by (simp add: mem_ex1_def)
  have s: "bdl_last (map_match (w_memobjs mem_ex1) 0x7fff0000) (ses_Bundle sess_mem_ex1) None = Some (Some mem_ex1_ref)"
    by (simp add: sess_mem_ex1_def map_match_def mem_ex1_ref_def h RTR0MemObjAddressR3_def mo_valid_def RT_VALID_PTR_def host_obj_def)
  have "SUPR0PageMapKernel host_ex mem_ex1 0x50000 0x7fff0000 0x1000 0x1000 0 0 = None"
    unfolding SUPR0PageMapKernel_def with_session_ok [OF mem_ex1_ok(2) sess_mem_ex1_ok(3)] s
    by (simp add: mem_ex1_ref_def h RTR0MemObjSize_def mo_valid_def RT_VALID_PTR_def host_obj_def RTR0MemObjMapKernelEx_def
        rtR0MemObjIsMapping_def host_ex_def mo_map_def rtR0MemObjLink_def Let_def)
  then show ?thesis by (simp add: mem_exec_def)
qed

theorem SUPR0PageMapKernel_bounds_witness:
  "\<exists>rc pv w1 r m. SUPR0PageMapKernel host_ex mem_ex1 0x50000 0x7fff0000 0x1000 0x1000 0 0x60000 = Some (rc, pv, w1) \<and>
     r \<in> set (mem_refs sess_mem_ex1) \<and> w_memobjs mem_ex1 (mr_MemObj r) = Some m \<and>
     unat (0x1000 :: u32) + unat (0x1000 :: u32) \<le> unat (mo_cb m)"
proof -
  let ?e = "SUPR0PageMapKernel host_ex mem_ex1 0x50000 0x7fff0000 0x1000 0x1000 0 0x60000"
  have i: "mo_inv (w_memobjs mem_ex1)" by (rule mem_invD(1) [OF mem_ex1_ok(1)])
  have h: "w_memobjs mem_ex1 = [0x100000 \<mapsto> host_obj RTR0MEMOBJTYPE_LOCK 0x2000 0x7fff0000 0x1234]" by (simp add: mem_ex1_def)
  have s: "bdl_last (map_match (w_memobjs mem_ex1) 0x7fff0000) (ses_Bundle sess_mem_ex1) None = Some (Some mem_ex1_ref)"
    by (simp add: sess_mem_ex1_def map_match_def mem_ex1_ref_def h RTR0MemObjAddressR3_def mo_valid_def RT_VALID_PTR_def host_obj_def)
  have "\<exists>rc pv w1. ?e = Some (rc, pv, w1) \<and> RT_SUCCESS rc"
    unfolding SUPR0PageMapKernel_def with_session_ok [OF mem_ex1_ok(2) sess_mem_ex1_ok(3)] s
    by (simp add: mem_ex1_ref_def h RTR0MemObjSize_def mo_valid_def RT_VALID_PTR_def host_obj_def RTR0MemObjMapKernelEx_def
        rtR0MemObjIsMapping_def host_ex_def mo_map_def rtR0MemObjLink_def Let_def RTR0MemObjAddress_def)
  then obtain rc pv w1 where e: "?e = Some (rc, pv, w1)" "RT_SUCCESS rc" by blast
  have b: "\<forall>p m. w_memobjs mem_ex1 p = Some m \<longrightarrow> mo_cb m < 0x8000000000000000" by (auto simp: h host_obj_def)
  from SUPR0PageMapKernel_bounds [OF mem_ex1_ok sess_mem_ex1_ok(3) host_ex_ok(1) b e] e(1) show ?thesis by blast
qed

theorem cleanup_mem_correct_witness:
  "\<exists>w1. cleanup_mem host_ex mem_ex1 0x50000 = Some w1 \<and> w_memobjs w1 0x100000 = None"
  using cleanup_mem_correct [OF mem_ex1_ok mem_ex_ok(3)] sess_mem_ex1_ok(2) by (auto simp: mem_ex1_ref_def)

end
