(* ===== verification/SupFactory.thy ===== *)
theory SupFactory
  imports SupMem
begin

text \<open>
  Component factories (SUPDrv.c): kernel modules register a factory under a name, other modules
  ask all factories of a name for an interface. A factory is memory of the module that registers
  it, which the driver reads through the pointer it keeps; the registration records are the list
  \<open>dx_pComponentFactoryHead\<close>. The properties are about the whole life of a registration: it is
  found by its name, it goes when it is deregistered or its session is closed, and no other one is
  touched.
\<close>

subsection \<open>Operations\<close>

text \<open>\<open>rcMtx\<close> is the status of \<open>RTSemFastMutexRequest\<close>; \<open>fAlloc\<close> that of the allocation.\<close>

definition SUPR0ComponentRegisterFactory ::
  "status \<Rightarrow> bool \<Rightarrow> supdrv \<Rightarrow> addr \<Rightarrow> addr \<Rightarrow> (status \<times> supdrv) option" where
  "SUPR0ComponentRegisterFactory rcMtx fAlloc w pSession pFactory =
     with_session w pSession (VERR_INVALID_PARAMETER, w) (\<lambda>s.
       if ses_R0Process s \<noteq> NIL_RTR0PROCESS then Some (VERR_ACCESS_DENIED, w)
       else if \<not> RT_VALID_PTR pFactory then Some (VERR_INVALID_POINTER, w)
       else case w_factories w pFactory of
              None \<Rightarrow> None
            | Some F \<Rightarrow>
                if \<not> RT_VALID_PTR (fct_pfnQueryFactoryInterface F) then Some (VERR_INVALID_POINTER, w)
                else case RTStrEnd (fct_szName F) 56 of
                       None \<Rightarrow> Some (VERR_INVALID_PARAMETER, w)
                     | Some cch \<Rightarrow>
                         if \<not> fAlloc then Some (VERR_NO_MEMORY, w)
                         else if RT_FAILURE rcMtx then Some (rcMtx, w)
                         else if find (\<lambda>r. reg_pFactory r = pFactory) (dx_pComponentFactoryHead (w_devext w)) = None
                         then Some (VINF_SUCCESS, set_dx w (\<lambda>dx. dx\<lparr>dx_pComponentFactoryHead :=
                                dx_pComponentFactoryHead dx @
                                  [\<lparr>reg_pFactory = pFactory, reg_pSession = pSession, reg_cchName = cch\<rparr>]\<rparr>))
                         else Some (VERR_ALREADY_EXISTS, w))"

definition SUPR0ComponentDeregisterFactory ::
  "status \<Rightarrow> supdrv \<Rightarrow> addr \<Rightarrow> addr \<Rightarrow> (status \<times> supdrv) option" where
  "SUPR0ComponentDeregisterFactory rcMtx w pSession pFactory =
     with_session w pSession (VERR_INVALID_PARAMETER, w) (\<lambda>s.
       if ses_R0Process s \<noteq> NIL_RTR0PROCESS then Some (VERR_ACCESS_DENIED, w)
       else if \<not> RT_VALID_PTR pFactory then Some (VERR_INVALID_POINTER, w)
       else if RT_FAILURE rcMtx then Some (rcMtx, w)
       else if find (\<lambda>r. reg_pFactory r = pFactory) (dx_pComponentFactoryHead (w_devext w)) = None
       then Some (VERR_NOT_FOUND, w)
       else Some (VINF_SUCCESS, set_dx w (\<lambda>dx. dx\<lparr>dx_pComponentFactoryHead :=
              remove_first (\<lambda>r. reg_pFactory r = pFactory) (dx_pComponentFactoryHead dx)\<rparr>)))"

text \<open>
  The walk over the registrations. \<open>query\<close> is \<open>pfnQueryFactoryInterface\<close> of the factory, called
  with the factory, the session and the interface; \<open>rc\<close> is the status so far.
\<close>

fun fct_query_walk ::
  "(addr \<Rightarrow> addr) \<Rightarrow> (addr \<rightharpoonup> SUPDRVFACTORY) \<Rightarrow> u8 list \<Rightarrow> status \<Rightarrow> SUPDRVFACTORYREG list \<Rightarrow> (status \<times> addr) option" where
  "fct_query_walk query fs name rc [] = Some (rc, 0)"
| "fct_query_walk query fs name rc (r # rs) =
     (if reg_cchName r \<noteq> length name then fct_query_walk query fs name rc rs
      else case fs (reg_pFactory r) of
             None \<Rightarrow> None
           | Some F \<Rightarrow>
               if take (length name) (fct_szName F) \<noteq> name then fct_query_walk query fs name rc rs
               else let pv = query (reg_pFactory r)
                    in if pv \<noteq> 0 then Some (VINF_SUCCESS, pv)
                       else fct_query_walk query fs name VERR_SUPDRV_INTERFACE_NOT_SUPPORTED rs)"

text \<open>A string argument is a bad pointer (\<open>None\<close>) or the bytes it points to.\<close>

definition SUPR0ComponentQueryFactory ::
  "(addr \<Rightarrow> addr \<Rightarrow> u8 list \<Rightarrow> addr) \<Rightarrow> status \<Rightarrow> supdrv \<Rightarrow> addr \<Rightarrow> u8 list option \<Rightarrow> u8 list option \<Rightarrow> addr \<Rightarrow>
   (status \<times> addr) option" where
  "SUPR0ComponentQueryFactory pfnQuery rcMtx w pSession pszName pszInterfaceUuid ppvFactoryIf =
     with_session w pSession (VERR_INVALID_PARAMETER, 0) (\<lambda>s.
       case pszName of
         None \<Rightarrow> Some (VERR_INVALID_POINTER, 0)
       | Some nm \<Rightarrow>
           case RTStrEnd nm 56 of
             None \<Rightarrow> Some (VERR_INVALID_PARAMETER, 0)
           | Some cchName \<Rightarrow>
               case pszInterfaceUuid of
                 None \<Rightarrow> Some (VERR_INVALID_POINTER, 0)
               | Some uuid \<Rightarrow>
                   if RTStrEnd uuid 37 = None then Some (VERR_INVALID_PARAMETER, 0)
                   else if \<not> RT_VALID_PTR ppvFactoryIf then Some (VERR_INVALID_POINTER, 0)
                   else if RT_FAILURE rcMtx then Some (rcMtx, 0)
                   else fct_query_walk (\<lambda>p. pfnQuery p pSession uuid) (w_factories w) (take cchName nm)
                          VERR_SUPDRV_COMPONENT_NOT_FOUND (dx_pComponentFactoryHead (w_devext w)))"

text \<open>The factory loop of \<open>supdrvCleanupSession\<close>: \<open>pPrev\<close> is the last record that stays.\<close>

primrec fct_cleanup_walk :: "addr \<Rightarrow> SUPDRVFACTORYREG list \<Rightarrow> SUPDRVFACTORYREG list" where
  "fct_cleanup_walk pSession [] = []"
| "fct_cleanup_walk pSession (r # rs) =
     (if reg_pSession r = pSession then fct_cleanup_walk pSession rs else r # fct_cleanup_walk pSession rs)"

definition cleanup_factories :: "supdrv \<Rightarrow> addr \<Rightarrow> supdrv" where
  "cleanup_factories w pSession =
     (if dx_pComponentFactoryHead (w_devext w) \<noteq> []
      then set_dx w (\<lambda>dx. dx\<lparr>dx_pComponentFactoryHead := fct_cleanup_walk pSession (dx_pComponentFactoryHead dx)\<rparr>)
      else w)"

subsection \<open>The invariant\<close>

definition fct_regs :: "supdrv \<Rightarrow> SUPDRVFACTORYREG list" where
  "fct_regs w = dx_pComponentFactoryHead (w_devext w)"

definition fct_keys :: "supdrv \<Rightarrow> addr list" where
  "fct_keys w = map reg_pFactory (fct_regs w)"

text \<open>
  A registration is good when its factory is there, its name terminated and of the length that
  was recorded, and its session a kernel session.
\<close>

definition reg_ok :: "supdrv \<Rightarrow> SUPDRVFACTORYREG \<Rightarrow> bool" where
  "reg_ok w r \<longleftrightarrow>
     (\<exists>F. w_factories w (reg_pFactory r) = Some F \<and> RTStrEnd (fct_szName F) 56 = Some (reg_cchName r) \<and>
          RT_VALID_PTR (fct_pfnQueryFactoryInterface F)) \<and>
     (\<exists>s. w_sess w (reg_pSession r) = Some s \<and> ses_R0Process s = NIL_RTR0PROCESS)"

definition fct_inv :: "supdrv \<Rightarrow> bool" where
  "fct_inv w \<longleftrightarrow> distinct (fct_keys w) \<and> (\<forall>r\<in>set (fct_regs w). reg_ok w r)"

text \<open>The name a registration has.\<close>

definition reg_name :: "supdrv \<Rightarrow> SUPDRVFACTORYREG \<Rightarrow> u8 list" where
  "reg_name w r = cstr (fct_szName (the (w_factories w (reg_pFactory r))))"

declare with_session_ok [simp]

lemma fct_regs_upd [simp]: "fct_regs (set_dx w (\<lambda>dx. dx\<lparr>dx_pComponentFactoryHead := f dx\<rparr>)) = f (w_devext w)"
  by (simp add: fct_regs_def)

lemma reg_ok_set_dx [simp]: "reg_ok (set_dx w f) = reg_ok w"
  by (simp add: reg_ok_def fun_eq_iff)

lemma find_reg_None: "find (\<lambda>r. reg_pFactory r = p) (fct_regs w) = None \<longleftrightarrow> p \<notin> set (fct_keys w)"
  by (auto simp: fct_keys_def find_None_iff_set)

lemma map_remove_first: "map g (remove_first (\<lambda>x. g x = k) xs) = remove1 k (map g xs)"
  by (induction xs) auto

lemma fct_cleanup_walk_filter: "fct_cleanup_walk sp rs = filter (\<lambda>r. reg_pSession r \<noteq> sp) rs"
  by (induction rs) auto

lemma cleanup_factories_regs: "fct_regs (cleanup_factories w sp) = filter (\<lambda>r. reg_pSession r \<noteq> sp) (fct_regs w)"
  by (simp add: cleanup_factories_def fct_cleanup_walk_filter fct_regs_def)

subsection \<open>Registering and deregistering\<close>

lemma register_ok:
  assumes "w_sess w sp = Some s" "SUP_IS_SESSION_VALID sp s" "ses_R0Process s = NIL_RTR0PROCESS"
    and "RT_VALID_PTR pF" "w_factories w pF = Some F" "RT_VALID_PTR (fct_pfnQueryFactoryInterface F)"
    and "RTStrEnd (fct_szName F) 56 = Some cch"
  shows "SUPR0ComponentRegisterFactory rcM fA w sp pF = Some
     (if \<not> fA then (VERR_NO_MEMORY, w) else if RT_FAILURE rcM then (rcM, w)
      else if pF \<in> set (fct_keys w) then (VERR_ALREADY_EXISTS, w)
      else (VINF_SUCCESS, set_dx w (\<lambda>dx. dx\<lparr>dx_pComponentFactoryHead := dx_pComponentFactoryHead dx @
             [\<lparr>reg_pFactory = pF, reg_pSession = sp, reg_cchName = cch\<rparr>]\<rparr>)))"
  using assms find_reg_None [of pF w] by (simp add: SUPR0ComponentRegisterFactory_def fct_regs_def RT_FAILURE_def)

lemma register_success:
  assumes "SUPR0ComponentRegisterFactory rcM fA w sp pF = Some (rc, w')" "RT_SUCCESS rc"
  shows "\<exists>s F cch. w_sess w sp = Some s \<and> ses_R0Process s = NIL_RTR0PROCESS \<and> w_factories w pF = Some F \<and>
    RT_VALID_PTR (fct_pfnQueryFactoryInterface F) \<and> RTStrEnd (fct_szName F) 56 = Some cch \<and>
    pF \<notin> set (fct_keys w) \<and> rc = VINF_SUCCESS \<and>
    w' = set_dx w (\<lambda>dx. dx\<lparr>dx_pComponentFactoryHead := dx_pComponentFactoryHead dx @
             [\<lparr>reg_pFactory = pF, reg_pSession = sp, reg_cchName = cch\<rparr>]\<rparr>)"
proof -
  from assms obtain s where s: "w_sess w sp = Some s" "SUP_IS_SESSION_VALID sp s"
    by (auto simp: SUPR0ComponentRegisterFactory_def with_session_def split: if_splits option.splits)
  then have r: "ses_R0Process s = NIL_RTR0PROCESS" "RT_VALID_PTR pF"
    using assms by (auto simp: SUPR0ComponentRegisterFactory_def split: if_splits)
  then obtain F where F: "w_factories w pF = Some F" "RT_VALID_PTR (fct_pfnQueryFactoryInterface F)"
    using assms s by (auto simp: SUPR0ComponentRegisterFactory_def split: if_splits option.splits)
  then obtain cch where c: "RTStrEnd (fct_szName F) 56 = Some cch"
    using assms s r by (auto simp: SUPR0ComponentRegisterFactory_def split: option.splits)
  show ?thesis
    using assms s r F c unfolding register_ok [OF s r F c]
    by (auto simp: RT_FAILURE_def split: if_splits)
qed

lemma register_failure:
  "SUPR0ComponentRegisterFactory rcM fA w sp pF = Some (rc, w') \<Longrightarrow> RT_FAILURE rc \<Longrightarrow> w' = w"
  by (auto simp: SUPR0ComponentRegisterFactory_def with_session_def split: if_splits option.splits)

lemma deregister_success:
  assumes "SUPR0ComponentDeregisterFactory rcM w sp pF = Some (rc, w')" "RT_SUCCESS rc"
  shows "pF \<in> set (fct_keys w)" "rc = VINF_SUCCESS"
    "w' = set_dx w (\<lambda>dx. dx\<lparr>dx_pComponentFactoryHead :=
              remove_first (\<lambda>r. reg_pFactory r = pF) (dx_pComponentFactoryHead dx)\<rparr>)"
  using assms find_reg_None [of pF w]
  by (auto simp: SUPR0ComponentDeregisterFactory_def with_session_def fct_regs_def RT_FAILURE_def
      split: if_splits option.splits)

lemma deregister_failure:
  "SUPR0ComponentDeregisterFactory rcM w sp pF = Some (rc, w') \<Longrightarrow> RT_FAILURE rc \<Longrightarrow> w' = w"
  by (auto simp: SUPR0ComponentDeregisterFactory_def with_session_def split: if_splits option.splits)

lemma register_inv:
  assumes "fct_inv w" "SUPR0ComponentRegisterFactory rcM fA w sp pF = Some (rc, w')"
  shows "fct_inv w'"
proof (cases "RT_SUCCESS rc")
  case True
  obtain s F cch where r: "w_sess w sp = Some s" "ses_R0Process s = NIL_RTR0PROCESS" "w_factories w pF = Some F"
    "RT_VALID_PTR (fct_pfnQueryFactoryInterface F)" "RTStrEnd (fct_szName F) 56 = Some cch" "pF \<notin> set (fct_keys w)"
    and w': "w' = set_dx w (\<lambda>dx. dx\<lparr>dx_pComponentFactoryHead := dx_pComponentFactoryHead dx @
             [\<lparr>reg_pFactory = pF, reg_pSession = sp, reg_cchName = cch\<rparr>]\<rparr>)"
    using register_success [OF assms(2) True] by (elim exE conjE) (rule that)
  have "reg_ok w \<lparr>reg_pFactory = pF, reg_pSession = sp, reg_cchName = cch\<rparr>" using r by (simp add: reg_ok_def)
  moreover have "fct_regs w' = fct_regs w @ [\<lparr>reg_pFactory = pF, reg_pSession = sp, reg_cchName = cch\<rparr>]"
    "reg_ok w' = reg_ok w" by (simp_all add: w' fct_regs_def)
  ultimately show ?thesis using r(6) assms(1) by (simp add: fct_inv_def fct_keys_def)
next
  case False
  then show ?thesis using register_failure [OF assms(2)] assms(1) by (simp add: RT_FAILURE_def)
qed

lemma deregister_inv:
  assumes "fct_inv w" "SUPR0ComponentDeregisterFactory rcM w sp pF = Some (rc, w')"
  shows "fct_inv w'"
proof (cases "RT_SUCCESS rc")
  case True
  note w' = deregister_success(3) [OF assms(2) True]
  have "fct_regs w' = remove_first (\<lambda>r. reg_pFactory r = pF) (fct_regs w)" "reg_ok w' = reg_ok w"
    by (simp_all add: w' fct_regs_def)
  moreover have "set (remove_first (\<lambda>r. reg_pFactory r = pF) (fct_regs w)) \<subseteq> set (fct_regs w)"
    by (rule set_remove_first_subset)
  ultimately show ?thesis
    using assms(1) distinct_map_remove_first [of reg_pFactory "fct_regs w"] by (auto simp: fct_inv_def fct_keys_def)
next
  case False
  then show ?thesis using deregister_failure [OF assms(2)] assms(1) by (simp add: RT_FAILURE_def)
qed

lemma cleanup_factories_inv: "fct_inv w \<Longrightarrow> fct_inv (cleanup_factories w sp)"
proof -
  assume i: "fct_inv w"
  have "reg_ok (cleanup_factories w sp) = reg_ok w" by (simp add: cleanup_factories_def)
  then show ?thesis
    using i by (auto simp: fct_inv_def fct_keys_def cleanup_factories_regs distinct_map_filter)
qed

subsection \<open>Queries\<close>

text \<open>What a query answers: the first answer among the factories of that name.\<close>

definition fct_answer :: "(addr \<Rightarrow> addr) \<Rightarrow> addr list \<Rightarrow> status \<times> addr" where
  "fct_answer query ps =
     (if ps = [] then (VERR_SUPDRV_COMPONENT_NOT_FOUND, 0)
      else case filter (\<lambda>a. a \<noteq> 0) (map query ps) of
             [] \<Rightarrow> (VERR_SUPDRV_INTERFACE_NOT_SUPPORTED, 0)
           | a # _ \<Rightarrow> (VINF_SUCCESS, a))"

lemma reg_name_match:
  assumes "reg_ok w r"
  obtains F where "w_factories w (reg_pFactory r) = Some F"
    "(reg_cchName r = length name \<and> take (length name) (fct_szName F) = name) = (reg_name w r = name)"
proof -
  from assms obtain F where F: "w_factories w (reg_pFactory r) = Some F"
      "RTStrEnd (fct_szName F) 56 = Some (reg_cchName r)"
    by (auto simp: reg_ok_def)
  have n: "reg_name w r = cstr (fct_szName F)" using F by (simp add: reg_name_def)
  have "(reg_cchName r = length name \<and> take (length name) (fct_szName F) = name) = (reg_name w r = name)"
    unfolding n using RTStrEnd_Some(4,5) [OF F(2)] by auto
  with F show thesis by (intro that)
qed

lemma fct_query_walk_ok:
  assumes "\<forall>r\<in>set rs. reg_ok w r" "rc = VERR_SUPDRV_COMPONENT_NOT_FOUND \<and> ps = [] \<or>
      rc = VERR_SUPDRV_INTERFACE_NOT_SUPPORTED \<and> ps \<noteq> [] \<and> (\<forall>p\<in>set ps. query p = 0)"
  shows "fct_query_walk query (w_factories w) name rc rs =
    Some (fct_answer query (ps @ map reg_pFactory (filter (\<lambda>r. reg_name w r = name) rs)))"
  using assms
proof (induction rs arbitrary: rc ps)
  case Nil
  then have "filter (\<lambda>a. a \<noteq> 0) (map query ps) = []" by (auto simp: filter_empty_conv)
  with Nil show ?case by (auto simp: fct_answer_def)
next
  case (Cons r rs)
  obtain F where F: "w_factories w (reg_pFactory r) = Some F"
      "(reg_cchName r = length name \<and> take (length name) (fct_szName F) = name) = (reg_name w r = name)"
    using reg_name_match Cons.prems(1) by (metis list.set_intros(1))
  show ?case
  proof (cases "reg_name w r = name")
    case False
    then show ?thesis using Cons.IH [of rc ps] Cons.prems F by auto
  next
    case True
    have z: "filter (\<lambda>a. a \<noteq> 0) (map query ps) = []"
      using Cons.prems(2) by (auto simp: filter_empty_conv)
    show ?thesis
    proof (cases "query (reg_pFactory r) = 0")
      case q: True
      then show ?thesis
        using Cons.IH [of VERR_SUPDRV_INTERFACE_NOT_SUPPORTED "ps @ [reg_pFactory r]"] Cons.prems F True by auto
    next
      case False
      then show ?thesis using F True z by (simp add: fct_answer_def)
    qed
  qed
qed

subsection \<open>The registry\<close>

definition fct_client :: "supdrv \<Rightarrow> addr \<Rightarrow> bool" where
  "fct_client w sp \<longleftrightarrow> (\<exists>s. w_sess w sp = Some s \<and> SUP_IS_SESSION_VALID sp s \<and> ses_R0Process s = NIL_RTR0PROCESS)"

definition fct_add :: "addr \<Rightarrow> supdrv \<Rightarrow> addr \<Rightarrow> supdrv option" where
  "fct_add sp w pF =
     (case SUPR0ComponentRegisterFactory VINF_SUCCESS True w sp pF of
        Some (rc, w') \<Rightarrow> if RT_SUCCESS rc then Some w' else None
      | None \<Rightarrow> None)"

definition fct_del :: "addr \<Rightarrow> supdrv \<Rightarrow> addr \<Rightarrow> supdrv option" where
  "fct_del sp w pF =
     (case SUPR0ComponentDeregisterFactory VINF_SUCCESS w sp pF of
        Some (rc, w') \<Rightarrow> if RT_SUCCESS rc then Some w' else None
      | None \<Rightarrow> None)"

lemma fct_add_Some: "fct_add sp w pF = Some w' \<Longrightarrow> SUPR0ComponentRegisterFactory VINF_SUCCESS True w sp pF = Some (VINF_SUCCESS, w')"
  using register_success [of VINF_SUCCESS True w sp pF] by (auto simp: fct_add_def split: option.splits if_splits)

lemma fct_del_Some: "fct_del sp w pF = Some w' \<Longrightarrow> SUPR0ComponentDeregisterFactory VINF_SUCCESS w sp pF = Some (VINF_SUCCESS, w')"
  using deregister_success(2) [of VINF_SUCCESS w sp pF] by (auto simp: fct_del_def split: option.splits if_splits)

lemma register_keys:
  assumes "SUPR0ComponentRegisterFactory rcM fA w sp pF = Some (VINF_SUCCESS, w')"
  shows "pF \<notin> set (fct_keys w)" "fct_keys w' = fct_keys w @ [pF]"
  using register_success [OF assms] by (auto simp: fct_keys_def fct_regs_def)

lemma deregister_keys:
  assumes "SUPR0ComponentDeregisterFactory rcM w sp pF = Some (VINF_SUCCESS, w')"
  shows "pF \<in> set (fct_keys w)" "fct_keys w' = remove1 pF (fct_keys w)"
  using deregister_success [OF assms] by (auto simp: fct_keys_def fct_regs_def map_remove_first)

interpretation fcts: registry fct_inv fct_keys "fct_add sp" "fct_del sp" for sp
proof (unfold_locales, goal_cases)
  case (1 s)
  then show ?case by (simp add: fct_inv_def)
next
  case (2 s k s')
  note r = fct_add_Some [OF 2(2)]
  show ?case using register_inv [OF 2(1) r] register_keys [OF r] by simp
next
  case (3 s k s')
  note r = fct_del_Some [OF 3(2)]
  show ?case using deregister_inv [OF 3(1) r] deregister_keys [OF r] by simp
qed

subsection \<open>The life of the registrations\<close>

text \<open>
  The steps that change the list: a module registers or deregisters, a session is closed. Modules
  free their factory only when it is not registered any more.
\<close>

inductive fct_step :: "supdrv \<Rightarrow> supdrv \<Rightarrow> bool" where
  fct_register: "SUPR0ComponentRegisterFactory rcM fA w sp pF = Some (rc, w') \<Longrightarrow> fct_step w w'"
| fct_deregister: "SUPR0ComponentDeregisterFactory rcM w sp pF = Some (rc, w') \<Longrightarrow> fct_step w w'"
| fct_close: "fct_step w (cleanup_factories w sp \<lparr>w_sess := (w_sess w)(sp := None)\<rparr>)"
| fct_open: "w_sess w sp = None \<Longrightarrow> fct_step w (w\<lparr>w_sess := (w_sess w)(sp \<mapsto> s)\<rparr>)"
| fct_new: "w_factories w pF = None \<Longrightarrow> fct_step w (w\<lparr>w_factories := (w_factories w)(pF \<mapsto> F)\<rparr>)"
| fct_gone: "pF \<notin> set (fct_keys w) \<Longrightarrow> fct_step w (w\<lparr>w_factories := (w_factories w)(pF := None)\<rparr>)"

inductive fct_reach :: "supdrv \<Rightarrow> supdrv \<Rightarrow> bool" for w0 where
  fct_start: "fct_reach w0 w0"
| fct_next: "fct_reach w0 w \<Longrightarrow> fct_step w w' \<Longrightarrow> fct_reach w0 w'"

inductive_cases fct_stepE: "fct_step w w'"

lemma fct_step_inv: "fct_step w w' \<Longrightarrow> fct_inv w \<Longrightarrow> fct_inv w'"
proof (induction rule: fct_step.induct)
  case (fct_register rcM fA w sp pF rc w')
  then show ?case using register_inv by blast
next
  case (fct_deregister rcM w sp pF rc w')
  then show ?case using deregister_inv by blast
next
  case (fct_close w sp)
  let ?w = "cleanup_factories w sp\<lparr>w_sess := (w_sess w)(sp := None)\<rparr>"
  have r: "fct_regs ?w = filter (\<lambda>r. reg_pSession r \<noteq> sp) (fct_regs w)"
    using cleanup_factories_regs [of w sp] by (simp add: fct_regs_def)
  have "reg_ok ?w r" if "reg_ok w r" "reg_pSession r \<noteq> sp" for r
    using that by (simp add: reg_ok_def cleanup_factories_def)
  then show ?case using fct_close by (auto simp: fct_inv_def fct_keys_def r distinct_map_filter)
next
  case (fct_open w sp s)
  have "reg_ok (w\<lparr>w_sess := (w_sess w)(sp \<mapsto> s)\<rparr>) r" if "reg_ok w r" for r
    using that fct_open(1) by (auto simp: reg_ok_def)
  then show ?case using fct_open(2) by (auto simp: fct_inv_def fct_keys_def fct_regs_def)
next
  case (fct_new w pF F)
  have "reg_ok (w\<lparr>w_factories := (w_factories w)(pF \<mapsto> F)\<rparr>) r" if "reg_ok w r" for r
    using that fct_new(1) by (auto simp: reg_ok_def)
  then show ?case using fct_new(2) by (auto simp: fct_inv_def fct_keys_def fct_regs_def)
next
  case (fct_gone pF w)
  have "reg_ok (w\<lparr>w_factories := (w_factories w)(pF := None)\<rparr>) r" if "reg_ok w r" "r \<in> set (fct_regs w)" for r
    using that fct_gone(1) by (auto simp: reg_ok_def fct_keys_def)
  then show ?case using fct_gone(2) by (auto simp: fct_inv_def fct_keys_def fct_regs_def)
qed

lemma fct_reach_inv: "fct_reach w0 w \<Longrightarrow> fct_inv w0 \<Longrightarrow> fct_inv w"
  by (induction rule: fct_reach.induct) (auto intro: fct_step_inv)

subsection \<open>Properties\<close>

text \<open>
  C33: whatever modules register, deregister, allocate and free and whatever sessions are closed, a
  query reads no factory that is gone: it asks the factories of exactly that name in the order of
  their registration and answers with the first interface it gets, and its status tells an unknown
  name from an unsupported interface.
\<close>

theorem SUPR0ComponentQueryFactory_correct:
  assumes "fct_reach w0 w" "fct_inv w0" "w_sess w sp = Some s" "SUP_IS_SESSION_VALID sp s"
    and "RTStrEnd nm 56 = Some n" "RTStrEnd uuid 37 = Some k" "RT_VALID_PTR ppv"
  shows "SUPR0ComponentQueryFactory pfnQuery VINF_SUCCESS w sp (Some nm) (Some uuid) ppv =
    Some (fct_answer (\<lambda>p. pfnQuery p sp uuid)
            (map reg_pFactory (filter (\<lambda>r. reg_name w r = cstr nm) (fct_regs w))))"
proof -
  have i: "\<forall>r\<in>set (fct_regs w). reg_ok w r" using fct_reach_inv [OF assms(1,2)] by (simp add: fct_inv_def)
  have "take n nm = cstr nm" using RTStrEnd_Some(4) [OF assms(5)] .
  then show ?thesis
    using assms(3-7) fct_query_walk_ok [OF i, of VERR_SUPDRV_COMPONENT_NOT_FOUND "[]"]
    by (simp add: SUPR0ComponentQueryFactory_def fct_regs_def)
qed

text \<open>
  C34: a registration succeeds once for a factory, a second one is refused until the factory is
  deregistered, after which the list holds the same factories as before; closing the session of a
  registration removes it as well, and both leave the registrations of others in place and in order.
\<close>

theorem SUPR0ComponentRegisterFactory_roundtrip:
  assumes "fct_inv w" "w_sess w sp = Some s" "SUP_IS_SESSION_VALID sp s" "ses_R0Process s = NIL_RTR0PROCESS"
    and "RT_VALID_PTR pF" "w_factories w pF = Some F" "RT_VALID_PTR (fct_pfnQueryFactoryInterface F)"
    and "RTStrEnd (fct_szName F) 56 = Some n" "pF \<notin> set (fct_keys w)"
  shows "\<exists>w1 w2. SUPR0ComponentRegisterFactory VINF_SUCCESS True w sp pF = Some (VINF_SUCCESS, w1) \<and>
    SUPR0ComponentRegisterFactory VINF_SUCCESS True w1 sp pF = Some (VERR_ALREADY_EXISTS, w1) \<and>
    fct_keys w1 = fct_keys w @ [pF] \<and>
    SUPR0ComponentDeregisterFactory VINF_SUCCESS w1 sp pF = Some (VINF_SUCCESS, w2) \<and>
    SUPR0ComponentDeregisterFactory VINF_SUCCESS w2 sp pF = Some (VERR_NOT_FOUND, w2) \<and>
    fct_regs w2 = fct_regs w \<and>
    fct_regs (cleanup_factories w1 sp) = filter (\<lambda>r. reg_pSession r \<noteq> sp) (fct_regs w)"
proof -
  let ?r = "\<lparr>reg_pFactory = pF, reg_pSession = sp, reg_cchName = n\<rparr>"
  define w1 where "w1 = set_dx w (\<lambda>dx. dx\<lparr>dx_pComponentFactoryHead := dx_pComponentFactoryHead dx @ [?r]\<rparr>)"
  define w2 where "w2 = set_dx w1 (\<lambda>dx. dx\<lparr>dx_pComponentFactoryHead :=
              remove_first (\<lambda>r. reg_pFactory r = pF) (dx_pComponentFactoryHead dx)\<rparr>)"
  have R1: "fct_regs w1 = fct_regs w @ [?r]" by (simp add: w1_def fct_regs_def)
  have "remove_first (\<lambda>r. reg_pFactory r = pF) (rs @ [?r]) = rs" if "pF \<notin> set (map reg_pFactory rs)" for rs
    using that by (induction rs) auto
  then have R2: "fct_regs w2 = fct_regs w"
    using assms(9) R1 by (simp add: w2_def fct_keys_def fct_regs_def [symmetric])
  have k: "pF \<in> set (fct_keys w1)" "pF \<notin> set (fct_keys w2)" using R1 R2 assms(9) by (auto simp: fct_keys_def)
  have s1: "w_sess w1 = w_sess w" "w_factories w1 = w_factories w" "w_sess w2 = w_sess w" by (simp_all add: w1_def w2_def)
  have 1: "SUPR0ComponentRegisterFactory VINF_SUCCESS True w sp pF = Some (VINF_SUCCESS, w1)"
    using register_ok [OF assms(2-8), of VINF_SUCCESS True] assms(9) by (simp add: w1_def)
  have 2: "SUPR0ComponentRegisterFactory VINF_SUCCESS True w1 sp pF = Some (VERR_ALREADY_EXISTS, w1)"
    using register_ok [of w1 sp s pF F n VINF_SUCCESS True] assms(2-8) k(1) by (simp add: s1)
  have 3: "SUPR0ComponentDeregisterFactory VINF_SUCCESS w1 sp pF = Some (VINF_SUCCESS, w2)"
    using assms(2-5) k(1) find_reg_None [of pF w1]
    by (simp add: SUPR0ComponentDeregisterFactory_def s1 w2_def fct_regs_def)
  have 4: "SUPR0ComponentDeregisterFactory VINF_SUCCESS w2 sp pF = Some (VERR_NOT_FOUND, w2)"
    using assms(2-5) k(2) find_reg_None [of pF w2] by (simp add: SUPR0ComponentDeregisterFactory_def s1 fct_regs_def)
  show ?thesis using 1 2 3 4 R1 R2 by (intro exI [of _ w1] exI [of _ w2]) (simp add: fct_keys_def cleanup_factories_regs)
qed

subsection \<open>Witnesses\<close>

text \<open>A kernel session \<open>0x10000\<close>, two factories named ''n'' at \<open>0x20000\<close> (registered) and \<open>0x21000\<close>.\<close>

definition fct_ex_F :: SUPDRVFACTORY where
  "fct_ex_F = \<lparr>fct_szName = 0x6e # replicate 55 0, fct_pfnQueryFactoryInterface = 0x30000\<rparr>"

definition fct_ex :: supdrv where
  "fct_ex = supdrv0\<lparr>
     w_devext := dx0\<lparr>dx_pComponentFactoryHead := [\<lparr>reg_pFactory = 0x20000, reg_pSession = 0x10000, reg_cchName = 1\<rparr>]\<rparr>,
     w_sess := [0x10000 \<mapsto> sess0\<lparr>ses_R0Process := NIL_RTR0PROCESS\<rparr>],
     w_factories := [0x20000 \<mapsto> fct_ex_F, 0x21000 \<mapsto> fct_ex_F]\<rparr>"

lemma fct_ex_simps:
  "w_sess fct_ex 0x10000 = Some (sess0\<lparr>ses_R0Process := NIL_RTR0PROCESS\<rparr>)"
  "fct_regs fct_ex = [\<lparr>reg_pFactory = 0x20000, reg_pSession = 0x10000, reg_cchName = 1\<rparr>]"
  "w_factories fct_ex 0x20000 = Some fct_ex_F" "w_factories fct_ex 0x21000 = Some fct_ex_F"
  "SUP_IS_SESSION_VALID 0x10000 (sess0\<lparr>ses_R0Process := NIL_RTR0PROCESS\<rparr>)"
  "RTStrEnd (fct_szName fct_ex_F) 56 = Some 1" "RT_VALID_PTR (fct_pfnQueryFactoryInterface fct_ex_F)"
  "cstr (fct_szName fct_ex_F) = [0x6e]"
  by (simp_all add: fct_ex_def fct_regs_def fct_ex_F_def RTStrEnd_def SUP_IS_SESSION_VALID_def sess0_def
      RT_VALID_PTR_def word_le_nat_alt cstr_def Let_def)

lemma fct_ex_inv: "fct_inv fct_ex"
  by (simp add: fct_inv_def fct_keys_def reg_ok_def fct_ex_simps)

theorem SUPR0ComponentQueryFactory_correct_witness:
  "SUPR0ComponentQueryFactory (\<lambda>p sp uuid. p + 1) VINF_SUCCESS fct_ex 0x10000 (Some [0x6e, 0])
     (Some [0]) 0x40000 = Some (VINF_SUCCESS, 0x20001)"
proof -
  have "SUPR0ComponentQueryFactory (\<lambda>p sp uuid. p + 1) VINF_SUCCESS fct_ex 0x10000 (Some [0x6e, 0])
     (Some [0]) 0x40000 = Some (fct_answer (\<lambda>p. p + 1)
            (map reg_pFactory (filter (\<lambda>r. reg_name fct_ex r = cstr [0x6e, 0]) (fct_regs fct_ex))))"
    by (rule SUPR0ComponentQueryFactory_correct [OF fct_start fct_ex_inv fct_ex_simps(1,5), where n = 1 and k = 0])
      (simp_all add: RTStrEnd_def RT_VALID_PTR_def word_le_nat_alt Let_def)
  moreover have "cstr [0x6e, 0] = [0x6e]" by (simp add: cstr_def)
  ultimately show ?thesis by (simp add: fct_ex_simps reg_name_def fct_answer_def)
qed

theorem SUPR0ComponentRegisterFactory_roundtrip_witness:
  "\<exists>w1. SUPR0ComponentRegisterFactory VINF_SUCCESS True fct_ex 0x10000 0x21000 = Some (VINF_SUCCESS, w1) \<and>
     fct_keys w1 = [0x20000, 0x21000]"
proof -
  have "RT_VALID_PTR 0x21000" "0x21000 \<notin> set (fct_keys fct_ex)"
    by (simp_all add: RT_VALID_PTR_def word_le_nat_alt fct_keys_def fct_ex_simps)
  then show ?thesis
    using SUPR0ComponentRegisterFactory_roundtrip [OF fct_ex_inv fct_ex_simps(1,5) _ _ fct_ex_simps(4,7,6)]
    by (auto simp: fct_keys_def fct_ex_simps)
qed

end
