(* ===== verification/SupGip.thy ===== *)
theory SupGip
  imports SupMem RTNotify
begin

text \<open>
  The global information page (GIP) of SUPDrv.c: how the page is created and destroyed, how CPUs
  are entered into it when they come and go, and how sessions use it. Time, the CPUs and the timer
  of the host are parameters, collected in \<open>giphost\<close>. A write outside of one of the arrays of the
  page, a division by zero and a failed release assertion are \<open>None\<close>.
\<close>

named_theorems gip_defs \<open>definitions of the GIP functions\<close>

text \<open>
  What the host tells. \<open>gh_OnAll\<close> is the status of \<open>RTMpOnAll\<close> and the CPUs it runs the callback
  on; \<open>gh_Async\<close> the time stamp counter read on a CPU in a round of the drift test.
\<close>

record giphost =
  gh_NanoTS :: u64
  gh_TSC :: "u32 \<Rightarrow> u64"
  gh_ApicId :: "u32 \<Rightarrow> u8"
  gh_SetIndex :: "u32 \<Rightarrow> int"
  gh_IdFromSet :: "nat \<Rightarrow> u32"
  gh_OnAll :: "status \<times> u32 list"
  gh_OnlineSet :: "nat set"
  gh_PossibleSet :: "nat set"
  gh_cCount :: u32
  gh_cOnline :: u32
  gh_cPresent :: u32
  gh_ArraySize :: u32
  gh_MaxCpuId :: u32
  gh_Granularity :: u32
  gh_ReqGranularity :: "u32 \<Rightarrow> status \<times> u32"
  gh_TimerCreate :: "bool \<Rightarrow> status"
  gh_InitTSC :: "nat \<Rightarrow> u64"
  gh_Async :: "nat \<Rightarrow> nat \<Rightarrow> status \<times> u64"
  gh_FirstTSC :: u64
  gh_fForcedAsync :: bool
  gh_CpuId :: "u32 \<Rightarrow> u32 \<times> u32 \<times> u32 \<times> u32"

abbreviation NIL_RTCPUID :: u32 where "NIL_RTCPUID \<equiv> 0xffffffff"
abbreviation UINT16_MAX :: u16 where "UINT16_MAX \<equiv> 0xffff"
abbreviation (input) RTCPUSET_MAX_CPUS :: nat where "RTCPUSET_MAX_CPUS \<equiv> 256"
abbreviation SUPGLOBALINFOPAGE_MAGIC :: u32 where "SUPGLOBALINFOPAGE_MAGIC \<equiv> 0x19590106"
abbreviation SUPGLOBALINFOPAGE_VERSION :: u32 where "SUPGLOBALINFOPAGE_VERSION \<equiv> 0x00030000"
abbreviation GIP_UPDATEHZ_RECALC_FREQ :: "'a::len word" where "GIP_UPDATEHZ_RECALC_FREQ \<equiv> 0x800"
abbreviation (input) RTMEM_PROT_READ :: u32 where "RTMEM_PROT_READ \<equiv> 1"

text \<open>The offset of \<open>aCPUs[n]\<close> in the page: 1280 bytes before the array, 128 bytes for each entry.\<close>

definition gip_offset :: "nat \<Rightarrow> u64" where
  "gip_offset n = 1280 + 128 * of_nat n"

subsection \<open>The page and its CPUs\<close>

definition gip_set_cpu :: "nat \<Rightarrow> (SUPGIPCPU \<Rightarrow> SUPGIPCPU) \<Rightarrow> SUPGLOBALINFOPAGE \<Rightarrow> SUPGLOBALINFOPAGE option" where
  "gip_set_cpu i f gip =
     (if i < length (gip_aCPUs gip) then Some (gip\<lparr>gip_aCPUs := (gip_aCPUs gip)[i := f (gip_aCPUs gip ! i)]\<rparr>)
      else None)"

definition RTCpuSetAddByIndex :: "nat set \<Rightarrow> int \<Rightarrow> nat set" where
  "RTCpuSetAddByIndex S iCpu = (if 0 \<le> iCpu \<and> iCpu < 256 then insert (nat iCpu) S else S)"

definition RTCpuSetDelByIndex :: "nat set \<Rightarrow> int \<Rightarrow> nat set" where
  "RTCpuSetDelByIndex S iCpu = (if 0 \<le> iCpu \<and> iCpu < 256 then S - {nat iCpu} else S)"

definition RTCpuSetIsMember :: "giphost \<Rightarrow> nat set \<Rightarrow> u32 \<Rightarrow> bool" where
  "RTCpuSetIsMember gh S idCpu \<longleftrightarrow> 0 \<le> gh_SetIndex gh idCpu \<and> nat (gh_SetIndex gh idCpu) \<in> S"

text \<open>The index of the first entry of a CPU.\<close>

primrec gip_find_cpu :: "u32 \<Rightarrow> nat \<Rightarrow> SUPGIPCPU list \<Rightarrow> nat option" where
  "gip_find_cpu idCpu i [] = None"
| "gip_find_cpu idCpu i (c # cs) = (if cpu_idCpu c = idCpu then Some i else gip_find_cpu idCpu (i + 1) cs)"

text \<open>
  One pass over the table that tries to claim a free entry, and the 33 tries. \<open>env\<close> is what other
  CPUs do to the table before a pass.
\<close>

primrec gip_claim ::
  "(nat \<Rightarrow> SUPGIPCPU list \<Rightarrow> SUPGIPCPU list) \<Rightarrow> nat \<Rightarrow> u32 \<Rightarrow> nat \<Rightarrow> SUPGIPCPU list \<Rightarrow> nat option \<times> SUPGIPCPU list" where
  "gip_claim env cCpus idCpu 0 cs = (None, cs)"
| "gip_claim env cCpus idCpu (Suc n) cs =
     (let cs1 = env n cs
      in case gip_find_cpu NIL_RTCPUID 0 (take cCpus cs1) of
           Some i \<Rightarrow> (Some i, cs1[i := (cs1 ! i)\<lparr>cpu_idCpu := idCpu\<rparr>])
         | None \<Rightarrow> gip_claim env cCpus idCpu n cs1)"

definition supdrvGipCpuIndexFromCpuId ::
  "(nat \<Rightarrow> SUPGIPCPU list \<Rightarrow> SUPGIPCPU list) \<Rightarrow> SUPGLOBALINFOPAGE \<Rightarrow> u32 \<Rightarrow> (nat \<times> SUPGLOBALINFOPAGE) option" where
  [gip_defs]: "supdrvGipCpuIndexFromCpuId env gip idCpu =
     (let cCpus = unat (gip_cCpus gip)
      in if length (gip_aCPUs gip) < cCpus then None
         else
           case gip_find_cpu idCpu 0 (take cCpus (gip_aCPUs gip)) of
             Some i \<Rightarrow> Some (i, gip)
           | None \<Rightarrow>
               (case gip_claim env cCpus idCpu 33 (gip_aCPUs gip) of
                  (Some i, cs) \<Rightarrow> Some (i, gip\<lparr>gip_aCPUs := cs\<rparr>)
                | (None, cs) \<Rightarrow> None))"

definition supdrvGipMpEventOnline ::
  "giphost \<Rightarrow> (nat \<Rightarrow> SUPGIPCPU list \<Rightarrow> SUPGIPCPU list) \<Rightarrow> u32 \<Rightarrow> SUPGLOBALINFOPAGE \<Rightarrow> u32 \<Rightarrow> SUPGLOBALINFOPAGE option" where
  [gip_defs]: "supdrvGipMpEventOnline gh env self gip idCpu =
     (if idCpu \<noteq> self then None
      else
        let iCpuSet = gh_SetIndex gh idCpu;
            gip1 = gip\<lparr>gip_cPresentCpus := ucast (gh_cPresent gh), gip_cOnlineCpus := ucast (gh_cOnline gh)\<rparr>;
            gip2 = (if 0 \<le> iCpuSet
                    then gip1\<lparr>gip_OnlineCpuSet := RTCpuSetAddByIndex (gip_OnlineCpuSet gip1) iCpuSet,
                              gip_PresentCpuSet := RTCpuSetAddByIndex (gip_PresentCpuSet gip1) iCpuSet\<rparr>
                    else gip1)
        in case supdrvGipCpuIndexFromCpuId env gip2 idCpu of
             None \<Rightarrow> None
           | Some (i, gip3) \<Rightarrow>
               let idApic = gh_ApicId gh self
               in case gip_set_cpu i (\<lambda>c. c\<lparr>cpu_idCpu := idCpu, cpu_iCpuSet := signed_take_bit 15 iCpuSet,
                                            cpu_idApic := ucast idApic\<rparr>) gip3 of
                    None \<Rightarrow> None
                  | Some gip4 \<Rightarrow>
                      if unat idApic < length (gip_aiCpuFromApicId gip4) \<and> 0 \<le> iCpuSet \<and>
                         nat iCpuSet < length (gip_aiCpuFromCpuSetIdx gip4)
                      then gip_set_cpu i (\<lambda>c. c\<lparr>cpu_enmState := SUPGIPCPUSTATE_ONLINE\<rparr>)
                             (gip4\<lparr>gip_aiCpuFromApicId := (gip_aiCpuFromApicId gip4)[unat idApic := of_nat i],
                                   gip_aiCpuFromCpuSetIdx := (gip_aiCpuFromCpuSetIdx gip4)[nat iCpuSet := of_nat i]\<rparr>)
                      else None)"

definition supdrvGipMpEventOffline :: "giphost \<Rightarrow> SUPGLOBALINFOPAGE \<Rightarrow> u32 \<Rightarrow> SUPGLOBALINFOPAGE option" where
  [gip_defs]: "supdrvGipMpEventOffline gh gip idCpu =
     (let iCpuSet = gh_SetIndex gh idCpu
      in if \<not> 0 \<le> iCpuSet then Some gip
         else if \<not> nat iCpuSet < length (gip_aiCpuFromCpuSetIdx gip) then None
         else
           let i = unat (gip_aiCpuFromCpuSetIdx gip ! nat iCpuSet)
           in if \<not> i < unat (gip_cCpus gip) then Some gip
              else if \<not> i < length (gip_aCPUs gip) then None
              else if cpu_idCpu (gip_aCPUs gip ! i) \<noteq> idCpu then Some gip
              else gip_set_cpu i (\<lambda>c. c\<lparr>cpu_enmState := SUPGIPCPUSTATE_OFFLINE\<rparr>)
                     (gip\<lparr>gip_OnlineCpuSet := RTCpuSetDelByIndex (gip_OnlineCpuSet gip) iCpuSet\<rparr>))"

datatype RTMPEVENT = RTMPEVENT_ONLINE | RTMPEVENT_OFFLINE

text \<open>The search for a new master among the CPUs that are online.\<close>

definition gip_new_master :: "giphost \<Rightarrow> u32 \<Rightarrow> u32" where
  "gip_new_master gh idGipMaster =
     (case find (\<lambda>i. RTCpuSetIsMember gh (gh_OnlineSet gh) (gh_IdFromSet gh i) \<and> gh_IdFromSet gh i \<noteq> idGipMaster)
             [0..<RTCPUSET_MAX_CPUS] of
        Some i \<Rightarrow> gh_IdFromSet gh i
      | None \<Rightarrow> NIL_RTCPUID)"

definition supdrvGipMpEvent ::
  "giphost \<Rightarrow> (nat \<Rightarrow> SUPGIPCPU list \<Rightarrow> SUPGIPCPU list) \<Rightarrow> u32 \<Rightarrow> RTMPEVENT \<Rightarrow> u32 \<Rightarrow> SUPDRVDEVEXT \<Rightarrow> SUPDRVDEVEXT option" where
  [gip_defs]: "supdrvGipMpEvent gh env self enmEvent idCpu dx =
     (if idCpu \<noteq> self then None
      else
        Option.bind
          (case dx_pGip dx of
             None \<Rightarrow> Some dx
           | Some gip \<Rightarrow>
               map_option (\<lambda>g. dx\<lparr>dx_pGip := Some g\<rparr>)
                 (case enmEvent of
                    RTMPEVENT_ONLINE \<Rightarrow> supdrvGipMpEventOnline gh env self gip idCpu
                  | RTMPEVENT_OFFLINE \<Rightarrow> supdrvGipMpEventOffline gh gip idCpu))
          (\<lambda>dx1. Some
             (if enmEvent = RTMPEVENT_OFFLINE \<and> dx_idGipMaster dx1 = idCpu
              then dx1\<lparr>dx_idGipMaster := gip_new_master gh idCpu\<rparr> else dx1)))"

subsection \<open>Choosing the mode\<close>

text \<open>
  The loops of \<open>supdrvDetermineAsyncTsc\<close>. The inner one goes over the CPUs of one round and answers
  whether it was left early, whether the counters run backwards, the last time stamp and the
  smallest distance; \<open>offMax\<close> is only logged and left out.
\<close>

primrec async_inner ::
  "(nat \<Rightarrow> status \<times> u64) \<Rightarrow> nat \<Rightarrow> nat list \<Rightarrow> u64 \<Rightarrow> u64 \<Rightarrow> bool \<times> bool \<times> u64 \<times> u64" where
  "async_inner rd cLoops [] PrevTsc offMin = (False, False, PrevTsc, offMin)"
| "async_inner rd cLoops (iCpu # is) PrevTsc offMin =
     (case rd iCpu of (rc, CurTsc) \<Rightarrow>
        if RT_SUCCESS rc then
          if CurTsc \<le> PrevTsc then (True, True, PrevTsc, PrevTsc - CurTsc)
          else
            let off = CurTsc - PrevTsc;
                offMin' = (if (iCpu \<noteq> 0 \<or> cLoops \<noteq> 7) \<and> off < offMin then off else offMin)
            in async_inner rd cLoops is CurTsc offMin'
        else if rc = VERR_NOT_SUPPORTED then (True, False, PrevTsc, offMin)
        else async_inner rd cLoops is PrevTsc offMin)"

primrec async_outer ::
  "(nat \<Rightarrow> nat \<Rightarrow> status \<times> u64) \<Rightarrow> nat \<Rightarrow> nat \<Rightarrow> u64 \<Rightarrow> u64 \<Rightarrow> bool \<times> u64" where
  "async_outer rd iEndCpu 0 PrevTsc offMin = (False, offMin)"
| "async_outer rd iEndCpu (Suc cLoops) PrevTsc offMin =
     (case async_inner (rd cLoops) cLoops [0..<iEndCpu] PrevTsc offMin of
        (fBroke, fAsync, PrevTsc', offMin') \<Rightarrow>
          if fBroke then (fAsync, offMin') else async_outer rd iEndCpu cLoops PrevTsc' offMin')"

definition supdrvDetermineAsyncTsc :: "giphost \<Rightarrow> bool \<times> u64" where
  "supdrvDetermineAsyncTsc gh =
     async_outer (gh_Async gh) (unat (gh_ArraySize gh)) 8 (gh_FirstTSC gh) 0xffffffffffffffff"

text \<open>
  The AMD check reads the vendor, then the power management flags; bit 8 says that the counter is
  invariant.
\<close>

definition amd_drifts :: "(u32 \<Rightarrow> u32 \<times> u32 \<times> u32 \<times> u32) \<Rightarrow> bool" where
  "amd_drifts cpuid =
     (case cpuid 0 of (uEAX, uEBX, uECX, uEDX) \<Rightarrow>
        1 \<le> uEAX \<and> uEBX = 0x68747541 \<and> uECX = 0x444d4163 \<and> uEDX = 0x69746e65 \<and>
        (case cpuid 0x80000000 of (uEAX, _, _, _) \<Rightarrow>
           0x80000007 \<le> uEAX \<and>
           (case cpuid 0x80000007 of (_, _, _, uEDX) \<Rightarrow> uEDX AND 0x100 = 0 \<and> uEDX AND 0x3e \<noteq> 0)))"

definition supdrvGipDeterminTscMode :: "giphost \<Rightarrow> SUPGIPMODE" where
  "supdrvGipDeterminTscMode gh =
     (if 1 < gh_cCount gh then
        if gh_fForcedAsync gh then SUPGIPMODE_ASYNC_TSC
        else if fst (supdrvDetermineAsyncTsc gh) then SUPGIPMODE_ASYNC_TSC
        else if amd_drifts (gh_CpuId gh) then SUPGIPMODE_ASYNC_TSC
        else SUPGIPMODE_SYNC_TSC
      else SUPGIPMODE_SYNC_TSC)"

subsection \<open>Creating and destroying the page\<close>

definition gip_init_cpu :: "giphost \<Rightarrow> u64 \<Rightarrow> u32 \<Rightarrow> nat \<Rightarrow> SUPGIPCPU" where
  "gip_init_cpu gh u64NanoTS uUpdateHz i =
     (let iv = ucast (0x100000000 div (ucast uUpdateHz :: u64)) :: u32
      in \<lparr>cpu_u32TransactionId = 2, cpu_u32UpdateIntervalTSC = iv, cpu_u64NanoTS = u64NanoTS,
          cpu_u64TSC = gh_InitTSC gh i, cpu_u64CpuHz = 0x100000001, cpu_cErrors = 0, cpu_iTSCHistoryHead = 0,
          cpu_au32TSCHistory = replicate 8 iv, cpu_u32PrevUpdateIntervalNS = 0,
          cpu_enmState = SUPGIPCPUSTATE_INVALID, cpu_idCpu = NIL_RTCPUID, cpu_iCpuSet = -1, cpu_idApic = UINT16_MAX\<rparr>)"

definition supdrvGipInit ::
  "giphost \<Rightarrow> SUPDRVDEVEXT \<Rightarrow> u64 \<Rightarrow> u64 \<Rightarrow> u32 \<Rightarrow> nat \<Rightarrow> SUPDRVDEVEXT option" where
  [gip_defs]: "supdrvGipInit gh dx HCPhys u64NanoTS uUpdateHz cCpus =
     (if uUpdateHz = 0 then None
      else Some (dx\<lparr>
        dx_pGip := Some \<lparr>gip_u32Magic = SUPGLOBALINFOPAGE_MAGIC, gip_u32Version = SUPGLOBALINFOPAGE_VERSION,
          gip_u32Mode = supdrvGipDeterminTscMode gh, gip_cCpus = of_nat cCpus,
          gip_cPages = ucast (RT_ALIGN_Z (gip_offset cCpus) div PAGE_SIZE), gip_u32UpdateHz = uUpdateHz,
          gip_u32UpdateIntervalNS = 1000000000 div uUpdateHz, gip_u64NanoTSLastUpdateHz = u64NanoTS,
          gip_OnlineCpuSet = {}, gip_PresentCpuSet = {}, gip_PossibleCpuSet = gh_PossibleSet gh,
          gip_cOnlineCpus = ucast (gh_cOnline gh), gip_cPresentCpus = ucast (gh_cPresent gh),
          gip_cPossibleCpus = ucast (gh_cCount gh), gip_idCpuMax = gh_MaxCpuId gh,
          gip_aiCpuFromApicId = replicate 256 0, gip_aiCpuFromCpuSetIdx = replicate RTCPUSET_MAX_CPUS UINT16_MAX,
          gip_aCPUs = map (gip_init_cpu gh u64NanoTS uUpdateHz) [0..<cCpus]\<rparr>,
        dx_HCPhysGip := HCPhys, dx_cGipUsers := 0\<rparr>))"

text \<open>
  The search for an interval of at least 10 ms: it does not end when the host says that its timer
  has no granularity.
\<close>

partial_function (option) gip_interval :: "u32 \<Rightarrow> u32 \<Rightarrow> u32 option" where
  "gip_interval u32SystemResolution u32Interval =
     (if u32Interval < 10000000 then gip_interval u32SystemResolution (u32Interval + u32SystemResolution)
      else Some u32Interval)"

text \<open>\<open>RTMpOnAll(supdrvGipInitOnCpu)\<close>: each CPU enters itself.\<close>

primrec gip_init_all :: "giphost \<Rightarrow> SUPGLOBALINFOPAGE \<Rightarrow> u32 list \<Rightarrow> SUPGLOBALINFOPAGE option" where
  "gip_init_all gh gip [] = Some gip"
| "gip_init_all gh gip (idCpu # ids) =
     Option.bind (supdrvGipMpEventOnline gh (\<lambda>_ cs. cs) idCpu gip idCpu) (\<lambda>g. gip_init_all gh g ids)"

definition supdrvGipDestroy :: "r0host \<Rightarrow> supdrv \<Rightarrow> supdrv option" where
  [gip_defs]: "supdrvGipDestroy hst w =
     (let w1 = set_dx w (\<lambda>dx. dx\<lparr>dx_pGip := None, dx_fGipPublished := False\<rparr>);
          w2 = (if dx_fGipTimer (w_devext w1)
                then log_ev (set_dx w1 (\<lambda>dx. dx\<lparr>dx_fGipTimer := False\<rparr>)) EvTimerDestroy else w1)
      in Option.bind
           (if dx_GipMemObj (w_devext w2) \<noteq> 0
            then map_option (\<lambda>(_, h). set_dx (mem_result w2 h) (\<lambda>dx. dx\<lparr>dx_GipMemObj := 0\<rparr>))
                   (RTR0MemObjFree hst (w_memobjs w2) (dx_GipMemObj (w_devext w2)) True)
            else Some w2)
           (\<lambda>w3. Some (set_dx w3 (\<lambda>dx. dx\<lparr>dx_u32SystemTimerGranularityGrant := 0\<rparr>))))"

text \<open>
  The code after the page is initialised: the timer, which falls back to the synchronous mode where
  the host has no timer for all CPUs, the notification and the CPUs that are online already.
  \<open>pfn\<close>, \<open>pvDev\<close> and \<open>pNew\<close> are the addresses of the callback, of the device extension and of the new
  registration.
\<close>

definition gip_create_timer :: "giphost \<Rightarrow> SUPDRVDEVEXT \<Rightarrow> SUPGLOBALINFOPAGE \<Rightarrow> status \<times> SUPDRVDEVEXT \<times> SUPGLOBALINFOPAGE" where
  [gip_defs]: "gip_create_timer gh dx gip =
     (let r1 = (if gip_u32Mode gip = SUPGIPMODE_ASYNC_TSC then gh_TimerCreate gh True else VINF_SUCCESS);
          gip1 = (if gip_u32Mode gip = SUPGIPMODE_ASYNC_TSC \<and> r1 = VERR_NOT_SUPPORTED
                  then gip\<lparr>gip_u32Mode := SUPGIPMODE_SYNC_TSC\<rparr> else gip);
          r2 = (if gip_u32Mode gip1 \<noteq> SUPGIPMODE_ASYNC_TSC then gh_TimerCreate gh False else r1)
      in (r2, dx\<lparr>dx_pGip := Some gip1, dx_fGipTimer := RT_SUCCESS r2\<rparr>, gip1))"

definition gip_create_rest ::
  "r0host \<Rightarrow> giphost \<Rightarrow> addr \<Rightarrow> addr \<Rightarrow> addr \<Rightarrow> supdrv \<Rightarrow> SUPGLOBALINFOPAGE \<Rightarrow> RTNOTIFY \<Rightarrow> (status \<times> supdrv \<times> RTNOTIFY) option" where
  [gip_defs]: "gip_create_rest hst gh pfn pvDev pNew w gip ntf =
     (case gip_create_timer gh (w_devext w) gip of (rc, dx1, gip1) \<Rightarrow>
        let w1 = set_dx w (\<lambda>_. dx1)
        in if RT_FAILURE rc then map_option (\<lambda>w'. (rc, w', ntf)) (supdrvGipDestroy hst w1)
           else
             (case RTMpNotificationRegister id ntf pfn pvDev pNew of
                None \<Rightarrow> None
              | Some (rc2, ntf1) \<Rightarrow>
                  if RT_FAILURE rc2 then map_option (\<lambda>w'. (rc2, w', ntf1)) (supdrvGipDestroy hst w1)
                  else
                    let rc3 = fst (gh_OnAll gh)
                    in (case gip_init_all gh gip1 (snd (gh_OnAll gh)) of
                          None \<Rightarrow> None
                        | Some gip2 \<Rightarrow>
                            let w2 = set_dx w1 (\<lambda>dx. dx\<lparr>dx_pGip := Some gip2\<rparr>)
                            in if RT_SUCCESS rc3
                               then Some (VINF_SUCCESS, set_dx w2 (\<lambda>dx. dx\<lparr>dx_fGipPublished := True\<rparr>), ntf1)
                               else (case RTMpNotificationDeregister ntf1 pfn pvDev of
                                       None \<Rightarrow> None
                                     | Some (_, ntf2) \<Rightarrow> map_option (\<lambda>w'. (rc3, w', ntf2)) (supdrvGipDestroy hst w2)))))"

definition supdrvGipCreate ::
  "r0host \<Rightarrow> giphost \<Rightarrow> addr \<Rightarrow> addr \<Rightarrow> addr \<Rightarrow> supdrv \<Rightarrow> RTNOTIFY \<Rightarrow> (status \<times> supdrv \<times> RTNOTIFY) option" where
  [gip_defs]: "supdrvGipCreate hst gh pfn pvDev pNew w ntf =
     (let cCpus = unat (gh_ArraySize gh)
      in if 256 < cCpus then Some (VERR_TOO_MANY_CPUS, w, ntf)
         else
           (case RTR0MemObjAllocCont hst (w_memobjs w) (gip_offset cCpus) False of (rc, p, h) \<Rightarrow>
              let w1 = set_dx (mem_result w h) (\<lambda>dx. dx\<lparr>dx_GipMemObj := p\<rparr>)
              in if RT_FAILURE rc then Some (rc, w1, ntf)
                 else
                   (case RTR0MemObjGetPagePhysAddr hst h p 0 of
                      None \<Rightarrow> None
                    | Some HCPhysGip \<Rightarrow>
                        (case gip_interval (gh_Granularity gh) (gh_Granularity gh) of
                           None \<Rightarrow> None
                         | Some u32Interval \<Rightarrow>
                             (case supdrvGipInit gh (w_devext w1) HCPhysGip (gh_NanoTS gh) (1000000000 div u32Interval) cCpus of
                                None \<Rightarrow> None
                              | Some dx2 \<Rightarrow>
                                  gip_create_rest hst gh pfn pvDev pNew (set_dx w1 (\<lambda>_. dx2)) (the (dx_pGip dx2)) ntf)))))"

subsection \<open>Sessions that use the page\<close>

definition supdrvGipReInitCpu :: "u64 \<Rightarrow> u64 \<Rightarrow> SUPGIPCPU \<Rightarrow> SUPGIPCPU" where
  "supdrvGipReInitCpu tsc u64NanoTS c =
     c\<lparr>cpu_u64NanoTS := u64NanoTS, cpu_u64TSC := tsc - ucast (cpu_u32UpdateIntervalTSC c)\<rparr>"

definition supdrvGipReInitCpuCallback :: "giphost \<Rightarrow> u64 \<Rightarrow> u32 \<Rightarrow> SUPGLOBALINFOPAGE \<Rightarrow> SUPGLOBALINFOPAGE option" where
  [gip_defs]: "supdrvGipReInitCpuCallback gh u64NanoTS idCpu gip =
     (if \<not> unat (gh_ApicId gh idCpu) < length (gip_aiCpuFromApicId gip) then None
      else
        let iCpu = unat (gip_aiCpuFromApicId gip ! unat (gh_ApicId gh idCpu))
        in if \<not> iCpu < unat (gip_cCpus gip) then Some gip
           else if \<not> iCpu < length (gip_aCPUs gip) then None
           else if cpu_idCpu (gip_aCPUs gip ! iCpu) = idCpu
           then gip_set_cpu iCpu (supdrvGipReInitCpu (gh_TSC gh idCpu) u64NanoTS) gip
           else Some gip)"

primrec gip_reinit_all :: "giphost \<Rightarrow> u64 \<Rightarrow> u32 list \<Rightarrow> SUPGLOBALINFOPAGE \<Rightarrow> SUPGLOBALINFOPAGE option" where
  "gip_reinit_all gh ts [] gip = Some gip"
| "gip_reinit_all gh ts (idCpu # ids) gip =
     Option.bind (supdrvGipReInitCpuCallback gh ts idCpu gip) (gip_reinit_all gh ts ids)"

definition gip_granularity :: "giphost \<Rightarrow> u32 option" where
  [gip_defs]: "gip_granularity gh =
     map_option (\<lambda>ns. snd (gh_ReqGranularity gh ns))
       (find (\<lambda>ns. RT_SUCCESS (fst (gh_ReqGranularity gh ns))) [976563, 1000000, 1953125, 2000000])"

text \<open>
  What the first user does: a finer timer, new transaction ids and time stamps, the start of the
  timer. The array \<open>aCPUs\<close> is declared with one entry, so the loop over it is one step. \<open>self\<close> is the
  calling CPU.
\<close>

definition gip_resume :: "giphost \<Rightarrow> u32 \<Rightarrow> SUPDRVDEVEXT \<Rightarrow> SUPGLOBALINFOPAGE \<Rightarrow> SUPDRVDEVEXT option" where
  [gip_defs]: "gip_resume gh self dx gip =
     (if gip_aCPUs gip = [] then None
      else
        let dx1 = (case gip_granularity gh of Some g \<Rightarrow> dx\<lparr>dx_u32SystemTimerGranularityGrant := g\<rparr> | None \<Rightarrow> dx);
            gip1 = (if cpu_u32TransactionId (gip_aCPUs gip ! 0) \<noteq> 2
                    then gip\<lparr>gip_u64NanoTSLastUpdateHz := 0,
                             gip_aCPUs := (gip_aCPUs gip)[0 := (gip_aCPUs gip ! 0)\<lparr>cpu_u32TransactionId :=
                               (cpu_u32TransactionId (gip_aCPUs gip ! 0) + GIP_UPDATEHZ_RECALC_FREQ * 2)
                               AND NOT (GIP_UPDATEHZ_RECALC_FREQ * 2 - 1)\<rparr>]\<rparr>
                    else gip);
            u64NanoTS = gh_NanoTS gh - ucast (gip_u32UpdateIntervalNS gip1)
        in map_option (\<lambda>g. dx1\<lparr>dx_pGip := Some g\<rparr>)
             (if gip_u32Mode gip1 = SUPGIPMODE_SYNC_TSC \<or> gh_cOnline gh = 1
              then gip_set_cpu 0 (supdrvGipReInitCpu (gh_TSC gh self) u64NanoTS) gip1
              else gip_reinit_all gh u64NanoTS (snd (gh_OnAll gh)) gip1))"

text \<open>The global reference: the first one resumes the updates.\<close>

definition gip_reference :: "giphost \<Rightarrow> u32 \<Rightarrow> supdrv \<Rightarrow> addr \<Rightarrow> SUPDRVSESSION \<Rightarrow> supdrv option" where
  [gip_defs]: "gip_reference gh self w pSession s =
     (let w1 = set_dx (set_sess w pSession (s\<lparr>ses_fGipReferenced := True\<rparr>))
                 (\<lambda>dx. dx\<lparr>dx_cGipUsers := dx_cGipUsers dx + 1\<rparr>)
      in if dx_cGipUsers (w_devext w1) = 1
         then (case dx_pGip (w_devext w1) of
                 None \<Rightarrow> None
               | Some gip \<Rightarrow> map_option (\<lambda>dx. log_ev (set_dx w1 (\<lambda>_. dx)) EvTimerStart)
                                (gip_resume gh self (w_devext w1) gip))
         else Some w1)"

text \<open>
  The outputs are the ring-3 address and the physical address, \<open>None\<close> when they are not written.
\<close>

definition SUPR0GipMap ::
  "r0host \<Rightarrow> giphost \<Rightarrow> u32 \<Rightarrow> supdrv \<Rightarrow> addr \<Rightarrow> addr \<Rightarrow> addr \<Rightarrow> (status \<times> (addr \<times> u64) option \<times> supdrv) option" where
  [gip_defs]: "SUPR0GipMap hst gh self w pSession ppGipR3 pHCPhysGip =
     (case w_sess w pSession of
        None \<Rightarrow> None
      | Some s \<Rightarrow>
          if \<not> SUP_IS_SESSION_VALID pSession s then Some (VERR_INVALID_PARAMETER, None, w)
          else if ppGipR3 \<noteq> 0 \<and> \<not> RT_VALID_PTR ppGipR3 then Some (VERR_INVALID_POINTER, None, w)
          else if pHCPhysGip \<noteq> 0 \<and> \<not> RT_VALID_PTR pHCPhysGip then Some (VERR_INVALID_POINTER, None, w)
          else if dx_pGip (w_devext w) = None then Some (VERR_GENERAL_FAILURE, Some (0, NIL_RTHCPHYS), w)
          else
            (case (if ppGipR3 \<noteq> 0 \<and> ses_GipMapObjR3 s = 0
                   then RTR0MemObjMapUser hst (w_memobjs w) (dx_GipMemObj (w_devext w)) 0xffffffffffffffff 0
                          RTMEM_PROT_READ (hst_Self hst)
                   else Some (VINF_SUCCESS, ses_GipMapObjR3 s, w_memobjs w)) of
               None \<Rightarrow> None
             | Some (rc, q, h) \<Rightarrow>
                 let s1 = s\<lparr>ses_GipMapObjR3 := q\<rparr>;
                     w1 = mem_result (set_sess w pSession s1) h;
                     HCPhys = (if pHCPhysGip \<noteq> 0 \<and> RT_SUCCESS rc then dx_HCPhysGip (w_devext w) else NIL_RTHCPHYS)
                 in (case (if ppGipR3 \<noteq> 0 \<and> RT_SUCCESS rc then RTR0MemObjAddressR3 h q else Some 0) of
                       None \<Rightarrow> None
                     | Some pGipR3 \<Rightarrow>
                         if \<not> ses_fGipReferenced s1 \<and> RT_SUCCESS rc
                         then map_option (\<lambda>w2. (if dx_cGipUsers (w_devext w1) + 1 = 1 then VINF_SUCCESS else rc,
                                                Some (pGipR3, HCPhys), w2))
                                (gip_reference gh self w1 pSession s1)
                         else Some (rc, Some (pGipR3, HCPhys), w1))))"

definition SUPR0GipUnmap :: "r0host \<Rightarrow> supdrv \<Rightarrow> addr \<Rightarrow> (status \<times> supdrv) option" where
  [gip_defs]: "SUPR0GipUnmap hst w pSession =
     (case w_sess w pSession of
        None \<Rightarrow> None
      | Some s \<Rightarrow>
          if \<not> SUP_IS_SESSION_VALID pSession s then Some (VERR_INVALID_PARAMETER, w)
          else
            (case (if ses_GipMapObjR3 s \<noteq> 0 then RTR0MemObjFree hst (w_memobjs w) (ses_GipMapObjR3 s) False
                   else Some (VINF_SUCCESS, w_memobjs w)) of
               None \<Rightarrow> None
             | Some (rc, h) \<Rightarrow>
                 let s1 = (if RT_SUCCESS rc then s\<lparr>ses_GipMapObjR3 := 0\<rparr> else s);
                     w1 = mem_result (set_sess w pSession s1) h
                 in if ses_fGipReferenced s1 \<and> rc = 0
                    then
                      let w2 = set_sess w1 pSession (s1\<lparr>ses_fGipReferenced := False\<rparr>)
                      in if 0 < dx_cGipUsers (w_devext w2)
                         then
                           let w3 = set_dx w2 (\<lambda>dx. dx\<lparr>dx_cGipUsers := dx_cGipUsers dx - 1\<rparr>)
                           in if dx_cGipUsers (w_devext w3) = 0
                              then Some (VINF_SUCCESS,
                                     set_dx (log_ev w3 EvTimerStop) (\<lambda>dx. dx\<lparr>dx_u32SystemTimerGranularityGrant := 0\<rparr>))
                              else Some (rc, w3)
                         else Some (rc, w2)
                    else Some (rc, w1)))"

text \<open>The last part of \<open>supdrvCleanupSession\<close>.\<close>

definition cleanup_gip :: "r0host \<Rightarrow> supdrv \<Rightarrow> addr \<Rightarrow> supdrv option" where
  [gip_defs]: "cleanup_gip hst w pSession =
     (case w_sess w pSession of
        None \<Rightarrow> None
      | Some s \<Rightarrow>
          if ses_GipMapObjR3 s \<noteq> 0
          then Option.bind (SUPR0GipUnmap hst w pSession) (\<lambda>(_, w1).
                 map_option (\<lambda>s1. set_sess w1 pSession (s1\<lparr>ses_fGipReferenced := False\<rparr>)) (w_sess w1 pSession))
          else Some w)"

end
