(* ===== verification/SupGipUse.thy ===== *)
theory SupGipUse
  imports SupGip
begin

text \<open>
  The users of the GIP: the page is mapped and updated exactly as long as a session wants it, for
  any sequence of requests, and what the end of a session leaves behind.
\<close>

subsection \<open>The invariant\<close>

definition gip_running :: "sup_event list \<Rightarrow> bool" where
  "gip_running tr = (find (\<lambda>e. e = EvTimerStart \<or> e = EvTimerStop) (rev tr) = Some EvTimerStart)"

lemma gip_running_snoc [simp]:
  "gip_running (tr @ [EvTimerStart])" "\<not> gip_running (tr @ [EvTimerStop])"
  by (simp_all add: gip_running_def)

definition gip_ok :: "SUPGLOBALINFOPAGE \<Rightarrow> bool" where
  "gip_ok gip \<longleftrightarrow> length (gip_aCPUs gip) = unat (gip_cCpus gip) \<and> gip_aCPUs gip \<noteq> [] \<and>
     length (gip_aiCpuFromApicId gip) = 256 \<and> length (gip_aiCpuFromCpuSetIdx gip) = 256"

definition gip_refs :: "SUPDRVSESSION \<Rightarrow> nat" where
  "gip_refs s = of_bool (ses_fGipReferenced s)"

text \<open>The mapping of a session is a mapping of the page, and its own.\<close>

definition gip_map_ok :: "supdrv \<Rightarrow> SUPDRVSESSION \<Rightarrow> bool" where
  "gip_map_ok w s \<longleftrightarrow> (ses_GipMapObjR3 s \<noteq> 0 \<longrightarrow> ses_fGipReferenced s \<and>
     (\<exists>c. w_memobjs w (ses_GipMapObjR3 s) = Some c \<and> rtR0MemObjIsMapping c \<and> mo_fNative c \<and>
          mo_pParent c = dx_GipMemObj (w_devext w)))"

definition gip_page_ok :: "supdrv \<Rightarrow> bool" where
  "gip_page_ok w \<longleftrightarrow> (\<forall>gip. dx_pGip (w_devext w) = Some gip \<longrightarrow> gip_ok gip \<and>
     (\<exists>m. w_memobjs w (dx_GipMemObj (w_devext w)) = Some m \<and> mo_enmType m = RTR0MEMOBJTYPE_CONT))"

definition gip_inv :: "supdrv \<Rightarrow> bool" where
  "gip_inv w \<longleftrightarrow> finite (dom (w_sess w)) \<and> card (dom (w_sess w)) < 2 ^ 32 \<and> mo_inv (w_memobjs w) \<and> gip_page_ok w \<and>
     unat (dx_cGipUsers (w_devext w)) = sess_total gip_refs w \<and>
     (gip_running (w_trace w) \<longleftrightarrow> 0 < sess_total gip_refs w) \<and>
     (\<forall>p s. w_sess w p = Some s \<longrightarrow> gip_map_ok w s) \<and>
     (\<forall>p q s t. w_sess w p = Some s \<longrightarrow> w_sess w q = Some t \<longrightarrow> ses_GipMapObjR3 s \<noteq> 0 \<longrightarrow>
        ses_GipMapObjR3 s = ses_GipMapObjR3 t \<longrightarrow> p = q)"

lemma gip_invD:
  assumes "gip_inv w"
  shows "finite (dom (w_sess w))" "card (dom (w_sess w)) < 2 ^ 32" "mo_inv (w_memobjs w)" "gip_page_ok w"
    "unat (dx_cGipUsers (w_devext w)) = sess_total gip_refs w"
    "gip_running (w_trace w) \<longleftrightarrow> 0 < sess_total gip_refs w"
    "w_sess w p = Some s \<Longrightarrow> gip_map_ok w s"
    "w_sess w p = Some s \<Longrightarrow> w_sess w q = Some t \<Longrightarrow> ses_GipMapObjR3 s \<noteq> 0 \<Longrightarrow>
        ses_GipMapObjR3 s = ses_GipMapObjR3 t \<Longrightarrow> p = q"
  using assms unfolding gip_inv_def by blast+

lemma gip_total_le: "finite (dom (w_sess w)) \<Longrightarrow> sess_total gip_refs w \<le> card (dom (w_sess w))"
  unfolding sess_total_def gip_refs_def by (rule order_trans [OF sum_mono [of _ _ "\<lambda>_. 1"]]) auto

subsection \<open>Resuming the updates\<close>

lemma gip_set_cpu_ok: "gip_ok gip \<Longrightarrow> i < unat (gip_cCpus gip) \<Longrightarrow> \<exists>g. gip_set_cpu i f gip = Some g \<and> gip_ok g"
  by (auto simp: gip_set_cpu_def gip_ok_def)

lemma apic_index: "unat (x::u8) < 256"
  using unsigned_less [of x] by simp

lemma gip_reinit_callback_ok: "gip_ok gip \<Longrightarrow> \<exists>g. supdrvGipReInitCpuCallback gh ts idCpu gip = Some g \<and> gip_ok g"
  using gip_set_cpu_ok apic_index [of "gh_ApicId gh idCpu"]
  by (simp add: supdrvGipReInitCpuCallback_def Let_def) (simp add: gip_ok_def)

lemma gip_reinit_all_ok: "gip_ok gip \<Longrightarrow> \<exists>g. gip_reinit_all gh ts ids gip = Some g \<and> gip_ok g"
proof (induction ids arbitrary: gip)
  case (Cons i ids)
  obtain g where "supdrvGipReInitCpuCallback gh ts i gip = Some g" "gip_ok g"
    using gip_reinit_callback_ok [OF Cons.prems] by blast
  then show ?case using Cons.IH [of g] by simp
qed simp

text \<open>Resuming is safe and touches the page and the timer grant only.\<close>

lemma gip_resume_ok:
  assumes "gip_ok gip"
  shows "\<exists>g x. gip_resume gh self dx gip = Some (dx\<lparr>dx_u32SystemTimerGranularityGrant := x, dx_pGip := Some g\<rparr>) \<and> gip_ok g"
proof -
  let ?c = "gip_aCPUs gip ! 0"
  define gip1 where "gip1 = (if cpu_u32TransactionId ?c \<noteq> 2
      then gip\<lparr>gip_u64NanoTSLastUpdateHz := 0, gip_aCPUs := (gip_aCPUs gip)[0 := ?c\<lparr>cpu_u32TransactionId :=
             (cpu_u32TransactionId ?c + GIP_UPDATEHZ_RECALC_FREQ * 2) AND NOT (GIP_UPDATEHZ_RECALC_FREQ * 2 - 1)\<rparr>]\<rparr>
      else gip)"
  define ts where "ts = gh_NanoTS gh - ucast (gip_u32UpdateIntervalNS gip1)"
  have ok: "gip_ok gip1" using assms by (simp add: gip1_def gip_ok_def)
  have z: "0 < unat (gip_cCpus gip1)" using ok unfolding gip_ok_def by (metis length_greater_0_conv)
  obtain g where g: "(if gip_u32Mode gip1 = SUPGIPMODE_SYNC_TSC \<or> gh_cOnline gh = 1
        then gip_set_cpu 0 (supdrvGipReInitCpu (gh_TSC gh self) ts) gip1
        else gip_reinit_all gh ts (snd (gh_OnAll gh)) gip1) = Some g" "gip_ok g"
    using gip_set_cpu_ok [OF ok z] gip_reinit_all_ok [OF ok] by metis
  let ?dx = "case gip_granularity gh of Some g \<Rightarrow> dx\<lparr>dx_u32SystemTimerGranularityGrant := g\<rparr> | None \<Rightarrow> dx"
  have "gip_aCPUs gip \<noteq> []" using assms by (simp add: gip_ok_def)
  then have "gip_resume gh self dx gip = Some (?dx\<lparr>dx_pGip := Some g\<rparr>)"
    using g(1) unfolding gip_resume_def Let_def gip1_def [symmetric] ts_def [symmetric] by simp
  moreover obtain x where "?dx = dx\<lparr>dx_u32SystemTimerGranularityGrant := x\<rparr>"
  proof (cases "gip_granularity gh")
    case None
    then show thesis by (intro that [of "dx_u32SystemTimerGranularityGrant dx"]) simp
  next
    case (Some x)
    then show thesis by (intro that [of x]) simp
  qed
  ultimately show ?thesis using g(2) by (intro exI [of _ g] exI [of _ x]) simp
qed

subsection \<open>Preservation\<close>

text \<open>One session, the objects and the counter change.\<close>

lemma gip_inv_upd:
  assumes "gip_inv w" "w_sess w sp = Some s" "w_sess w' = (w_sess w)(sp \<mapsto> s')"
    and "mo_inv (w_memobjs w')" "gip_page_ok w'"
    and "unat (dx_cGipUsers (w_devext w')) = gip_refs s' + sess_other gip_refs w sp"
    and "gip_running (w_trace w') \<longleftrightarrow> 0 < gip_refs s' + sess_other gip_refs w sp"
    and "gip_map_ok w' s'"
    and "\<And>q t. q \<noteq> sp \<Longrightarrow> w_sess w q = Some t \<Longrightarrow> gip_map_ok w' t \<and>
           (ses_GipMapObjR3 t \<noteq> 0 \<longrightarrow> ses_GipMapObjR3 t \<noteq> ses_GipMapObjR3 s')"
  shows "gip_inv w'"
proof -
  have d: "dom (w_sess w') = dom (w_sess w)" using assms(2,3) by auto
  have fin: "finite (dom (w_sess w'))" using gip_invD(1) [OF assms(1)] by (simp add: d)
  have "sess_total gip_refs w' = gip_refs s' + sess_other gip_refs w' sp"
    by (rule sess_total_split [OF fin]) (simp add: assms(3))
  then have tot: "sess_total gip_refs w' = gip_refs s' + sess_other gip_refs w sp"
    by (simp add: sess_other_upd [OF assms(3)])
  show ?thesis
    unfolding gip_inv_def
  proof (intro conjI allI impI, goal_cases)
    case (7 p t)
    then show ?case using assms(3,8,9) by (cases "p = sp") auto
  next
    case (8 p q a b)
    have s': "r = sp \<and> t = s' \<or> r \<noteq> sp \<and> w_sess w r = Some t" if "w_sess w' r = Some t" for r t
      using that assms(3) by (auto split: if_splits)
    consider "p = q" | "p = sp" "a = s'" "q \<noteq> sp" "w_sess w q = Some b"
      | "p \<noteq> sp" "w_sess w p = Some a" "q = sp" "b = s'"
      | "w_sess w p = Some a" "w_sess w q = Some b"
      using s' [OF 8(1)] s' [OF 8(2)] by blast
    then show ?case
    proof cases
      case 2
      then show ?thesis using 8(3,4) assms(9) [OF 2(3,4)] by simp
    next
      case 3
      then show ?thesis using 8(3,4) assms(9) [OF 3(1,2)] by simp
    next
      case 4
      then show ?thesis using gip_invD(8) [OF assms(1) 4 8(3,4)] by simp
    qed
  qed (use fin gip_invD(2) [OF assms(1)] assms(4-7) in \<open>simp_all add: d tot\<close>)
qed

lemma gip_total:
  assumes "gip_inv w" "w_sess w sp = Some s"
  shows "unat (dx_cGipUsers (w_devext w)) = gip_refs s + sess_other gip_refs w sp"
    "gip_running (w_trace w) \<longleftrightarrow> 0 < gip_refs s + sess_other gip_refs w sp"
    "gip_refs s + sess_other gip_refs w sp < 2 ^ 32"
proof -
  note t = sess_total_split [OF gip_invD(1) [OF assms(1)] assms(2), of gip_refs]
  show "unat (dx_cGipUsers (w_devext w)) = gip_refs s + sess_other gip_refs w sp"
    "gip_running (w_trace w) \<longleftrightarrow> 0 < gip_refs s + sess_other gip_refs w sp"
    using gip_invD(5,6) [OF assms(1)] unfolding t by simp_all
  show "gip_refs s + sess_other gip_refs w sp < 2 ^ 32"
    using gip_total_le [OF gip_invD(1) [OF assms(1)]] gip_invD(2) [OF assms(1)] unfolding t by linarith
qed

lemma gip_other_room:
  assumes "gip_inv w" "w_sess w sp = Some s"
  shows "sess_other gip_refs w sp + 1 < 2 ^ 32"
proof -
  have f: "finite (dom (w_sess w))" "card (dom (w_sess w)) < 2 ^ 32" using gip_invD(1,2) [OF assms(1)] .
  have "sess_other gip_refs w sp \<le> card (dom (w_sess w) - {sp})"
    unfolding sess_other_def gip_refs_def by (rule order_trans [OF sum_mono [of _ _ "\<lambda>_. 1"]]) auto
  moreover have "card (dom (w_sess w) - {sp}) = card (dom (w_sess w)) - 1"
    using assms(2) by (intro card_Diff_singleton) auto
  moreover have "0 < card (dom (w_sess w))" using assms(2) f by (auto simp: card_gt_0_iff)
  ultimately show ?thesis using f(2) by linarith
qed

text \<open>Mapping the page read-only to the calling process.\<close>

lemma gip_MapUser_ok:
  assumes "mo_inv h" "host_ok hst" "h p = Some m" "mo_enmType m = RTR0MEMOBJTYPE_CONT"
  obtains rc q h' where
    "RTR0MemObjMapUser hst h p 0xffffffffffffffff 0 RTMEM_PROT_READ (hst_Self hst) = Some (rc, q, h')" "mo_inv h'"
    "if RT_SUCCESS rc
     then \<exists>c a. RT_VALID_PTR q \<and> h q = None \<and> q \<noteq> p \<and> mo_enmType c = RTR0MEMOBJTYPE_MAPPING \<and>
            mo_fNative c \<and> mo_pParent c = p \<and>
            h' = h(p \<mapsto> m\<lparr>mo_cMappingsAllocated := a, mo_papMappings := mo_papMappings m @ [q]\<rparr>, q \<mapsto> c)
     else q = 0 \<and> h' = h"
proof -
  have nm: "\<not> rtR0MemObjIsMapping m" using assms(4) by (simp add: rtR0MemObjIsMapping_def)
  have e: "RTR0MemObjMapUser hst h p 0xffffffffffffffff 0 RTMEM_PROT_READ (hst_Self hst) =
      mo_map hst h p (hst_MapUser hst h m 0xffffffffffffffff PAGE_SIZE RTMEM_PROT_READ (hst_Self hst))"
    using nm assms(4) host_okD(8) [OF assms(2)]
    by (simp add: RTR0MemObjMapUser_def mo_valid_ok [OF assms(1,3)] Let_def)
  have n: "native_new h RTR0MEMOBJTYPE_MAPPING (mo_cb m) (hst_MapUser hst h m 0xffffffffffffffff PAGE_SIZE RTMEM_PROT_READ (hst_Self hst))"
    by (rule host_okD(7) [OF assms(2)])
  show thesis
    unfolding e
  proof (rule mo_map_ok [OF assms(1,3) nm n, of hst], goal_cases)
    case (1 rc q h')
    have "if RT_SUCCESS rc
     then \<exists>c a. RT_VALID_PTR q \<and> h q = None \<and> q \<noteq> p \<and> mo_enmType c = RTR0MEMOBJTYPE_MAPPING \<and>
            mo_fNative c \<and> mo_pParent c = p \<and>
            h' = h(p \<mapsto> m\<lparr>mo_cMappingsAllocated := a, mo_papMappings := mo_papMappings m @ [q]\<rparr>, q \<mapsto> c)
     else q = 0 \<and> h' = h" using 1(3) by (auto split: if_splits)
    with 1 show ?case using that unfolding e by blast
  qed
qed


text \<open>The mappings of the other sessions are not touched by what one session does with its own.\<close>

lemma gip_map_ok_keep:
  assumes "gip_map_ok w t" "dx_GipMemObj (w_devext w') = dx_GipMemObj (w_devext w)"
    and "\<And>c. w_memobjs w (ses_GipMapObjR3 t) = Some c \<Longrightarrow> rtR0MemObjIsMapping c \<Longrightarrow> ses_GipMapObjR3 t \<noteq> 0 \<Longrightarrow>
           w_memobjs w' (ses_GipMapObjR3 t) = Some c"
  shows "gip_map_ok w' t"
  using assms unfolding gip_map_ok_def by metis

lemma gip_page_keep:
  assumes "gip_page_ok w" "dx_GipMemObj (w_devext w') = dx_GipMemObj (w_devext w)"
    and "\<And>g. dx_pGip (w_devext w') = Some g \<Longrightarrow> gip_ok g \<and> dx_pGip (w_devext w) \<noteq> None"
    and "\<And>m. w_memobjs w (dx_GipMemObj (w_devext w)) = Some m \<Longrightarrow> mo_enmType m = RTR0MEMOBJTYPE_CONT \<Longrightarrow>
           \<exists>m'. w_memobjs w' (dx_GipMemObj (w_devext w)) = Some m' \<and> mo_enmType m' = RTR0MEMOBJTYPE_CONT"
  shows "gip_page_ok w'"
  unfolding gip_page_ok_def assms(2)
proof (intro allI impI)
  fix g assume g: "dx_pGip (w_devext w') = Some g"
  then obtain g0 where "dx_pGip (w_devext w) = Some g0" using assms(3) by blast
  then obtain m where "w_memobjs w (dx_GipMemObj (w_devext w)) = Some m" "mo_enmType m = RTR0MEMOBJTYPE_CONT"
    using assms(1) by (auto simp: gip_page_ok_def)
  then show "gip_ok g \<and> (\<exists>m. w_memobjs w' (dx_GipMemObj (w_devext w)) = Some m \<and> mo_enmType m = RTR0MEMOBJTYPE_CONT)"
    using assms(3) [OF g] assms(4) by blast
qed

text \<open>Taking the global reference: the counter, and for the first user the timer and the page.\<close>

lemma gip_reference_ok:
  assumes "dx_pGip (w_devext w) = Some gip" "gip_ok gip"
  shows "\<exists>w2. gip_reference gh self w sp s = Some w2 \<and> w_sess w2 = (w_sess w)(sp \<mapsto> s\<lparr>ses_fGipReferenced := True\<rparr>) \<and>
    w_memobjs w2 = w_memobjs w \<and> dx_GipMemObj (w_devext w2) = dx_GipMemObj (w_devext w) \<and>
    dx_cGipUsers (w_devext w2) = dx_cGipUsers (w_devext w) + 1 \<and>
    (\<exists>g. dx_pGip (w_devext w2) = Some g \<and> gip_ok g) \<and>
    (if dx_cGipUsers (w_devext w) = 0 then w_trace w2 = w_trace w @ [EvTimerStart] else w_trace w2 = w_trace w)"
proof -
  let ?w1 = "set_dx (set_sess w sp (s\<lparr>ses_fGipReferenced := True\<rparr>)) (\<lambda>dx. dx\<lparr>dx_cGipUsers := dx_cGipUsers dx + 1\<rparr>)"
  have z: "(dx_cGipUsers (w_devext w) + 1 = 1) = (dx_cGipUsers (w_devext w) = 0)" by (metis add_cancel_left_left add.commute)
  obtain g x where r: "gip_resume gh self (w_devext ?w1) gip =
      Some ((w_devext ?w1)\<lparr>dx_u32SystemTimerGranularityGrant := x, dx_pGip := Some g\<rparr>)" "gip_ok g"
    using gip_resume_ok [OF assms(2)] by blast
  show ?thesis
  proof (cases "dx_cGipUsers (w_devext w) = 0")
    case True
    let ?w2 = "log_ev (set_dx ?w1 (\<lambda>_. (w_devext ?w1)\<lparr>dx_u32SystemTimerGranularityGrant := x, dx_pGip := Some g\<rparr>)) EvTimerStart"
    have "gip_reference gh self w sp s = Some ?w2"
      using r(1) assms(1) True by (simp add: gip_reference_def)
    then show ?thesis using r(2) True by (intro exI [of _ ?w2]) simp
  next
    case False
    then have "gip_reference gh self w sp s = Some ?w1" using z by (simp add: gip_reference_def)
    then show ?thesis using assms False by (intro exI [of _ ?w1]) simp
  qed
qed


text \<open>The mapping part of \<open>SUPR0GipMap\<close>.\<close>

definition gip_map_part :: "r0host \<Rightarrow> supdrv \<Rightarrow> SUPDRVSESSION \<Rightarrow> addr \<Rightarrow> memobj_result option" where
  "gip_map_part hst w s ppGipR3 =
     (if ppGipR3 \<noteq> 0 \<and> ses_GipMapObjR3 s = 0
      then RTR0MemObjMapUser hst (w_memobjs w) (dx_GipMemObj (w_devext w)) 0xffffffffffffffff 0
             RTMEM_PROT_READ (hst_Self hst)
      else Some (VINF_SUCCESS, ses_GipMapObjR3 s, w_memobjs w))"

definition gip_mid :: "supdrv \<Rightarrow> addr \<Rightarrow> addr \<Rightarrow> memheap \<Rightarrow> bool" where
  "gip_mid w sp q h \<longleftrightarrow> mo_inv h \<and>
     (q \<noteq> 0 \<longrightarrow> (\<exists>c. h q = Some c \<and> rtR0MemObjIsMapping c \<and> mo_fNative c \<and> mo_pParent c = dx_GipMemObj (w_devext w))) \<and>
     (\<forall>p t. p \<noteq> sp \<longrightarrow> w_sess w p = Some t \<longrightarrow> ses_GipMapObjR3 t \<noteq> 0 \<longrightarrow>
        ses_GipMapObjR3 t \<noteq> q \<and> h (ses_GipMapObjR3 t) = w_memobjs w (ses_GipMapObjR3 t)) \<and>
     (\<forall>m. w_memobjs w (dx_GipMemObj (w_devext w)) = Some m \<longrightarrow> mo_enmType m = RTR0MEMOBJTYPE_CONT \<longrightarrow>
        (\<exists>m'. h (dx_GipMemObj (w_devext w)) = Some m' \<and> mo_enmType m' = RTR0MEMOBJTYPE_CONT))"

lemma gip_other_map:
  assumes "gip_inv w" "w_sess w p = Some t" "ses_GipMapObjR3 t \<noteq> 0"
  shows "\<exists>c. w_memobjs w (ses_GipMapObjR3 t) = Some c \<and> rtR0MemObjIsMapping c \<and> mo_fNative c \<and>
     mo_pParent c = dx_GipMemObj (w_devext w)"
  using gip_invD(7) [OF assms(1,2)] assms(3) by (simp add: gip_map_ok_def)

lemma gip_mid_same:
  assumes "gip_inv w" "w_sess w sp = Some s"
  shows "gip_mid w sp (ses_GipMapObjR3 s) (w_memobjs w)"
  using gip_invD(3) [OF assms(1)] gip_other_map [OF assms] gip_invD(8) [OF assms(1) assms(2)]
  unfolding gip_mid_def by metis

lemma gip_map_part_ok:
  assumes "gip_inv w" "host_ok hst" "w_sess w sp = Some s" "dx_pGip (w_devext w) = Some gip"
  shows "\<exists>rc q h. gip_map_part hst w s pp = Some (rc, q, h) \<and>
    (if RT_SUCCESS rc then gip_mid w sp q h \<and> (pp \<noteq> 0 \<longrightarrow> q \<noteq> 0) \<and> (ses_fGipReferenced s \<or> ses_GipMapObjR3 s = 0)
     else q = 0 \<and> ses_GipMapObjR3 s = 0 \<and> h = w_memobjs w)"
proof (cases "pp \<noteq> 0 \<and> ses_GipMapObjR3 s = 0")
  case False
  then have e: "gip_map_part hst w s pp = Some (VINF_SUCCESS, ses_GipMapObjR3 s, w_memobjs w)"
    unfolding gip_map_part_def by (rule if_not_P)
  have "ses_fGipReferenced s \<or> ses_GipMapObjR3 s = 0"
    using gip_invD(7) [OF assms(1,3)] by (auto simp: gip_map_ok_def)
  then show ?thesis using e False gip_mid_same [OF assms(1,3)] by auto
next
  case True
  let ?h = "w_memobjs w" and ?p = "dx_GipMemObj (w_devext w)"
  obtain m where m: "?h ?p = Some m" "mo_enmType m = RTR0MEMOBJTYPE_CONT"
    using gip_invD(4) [OF assms(1)] assms(4) by (auto simp: gip_page_ok_def)
  have nm: "\<not> rtR0MemObjIsMapping m" using m(2) by (simp add: rtR0MemObjIsMapping_def)
  show ?thesis
  proof (rule gip_MapUser_ok [OF gip_invD(3) [OF assms(1)] assms(2) m], goal_cases)
    case (1 rc q h')
    have e: "gip_map_part hst w s pp = Some (rc, q, h')"
      unfolding gip_map_part_def by (subst if_P [OF True]) (rule 1(1))
    show ?case
    proof (cases "RT_SUCCESS rc")
      case False
      then show ?thesis using e 1(3) True by auto
    next
      case rc: True
      then obtain c a where c: "RT_VALID_PTR q" "?h q = None" "q \<noteq> ?p" "mo_enmType c = RTR0MEMOBJTYPE_MAPPING"
        "mo_fNative c" "mo_pParent c = ?p"
        "h' = ?h(?p \<mapsto> m\<lparr>mo_cMappingsAllocated := a, mo_papMappings := mo_papMappings m @ [q]\<rparr>, q \<mapsto> c)"
        using 1(3) by (simp only: if_True) (elim exE conjE, rule that)
      have q: "q \<noteq> 0" using c(1) by auto
      have "ses_GipMapObjR3 t \<noteq> q \<and> h' (ses_GipMapObjR3 t) = ?h (ses_GipMapObjR3 t)"
        if t: "w_sess w x = Some t" "ses_GipMapObjR3 t \<noteq> 0" for x t
      proof -
        obtain d where d: "?h (ses_GipMapObjR3 t) = Some d" "rtR0MemObjIsMapping d"
          using gip_other_map [OF assms(1) t] by blast
        have "ses_GipMapObjR3 t \<noteq> ?p" using d nm m(1) by auto
        moreover have "ses_GipMapObjR3 t \<noteq> q" using d c(2) by auto
        ultimately show ?thesis by (simp add: c(7))
      qed
      moreover have "h' q = Some c" "h' ?p = Some (m\<lparr>mo_cMappingsAllocated := a, mo_papMappings := mo_papMappings m @ [q]\<rparr>)"
        using c(3) by (simp_all add: c(7))
      moreover have "mo_enmType (m\<lparr>mo_cMappingsAllocated := a, mo_papMappings := mo_papMappings m @ [q]\<rparr>) = RTR0MEMOBJTYPE_CONT"
        using m(2) by simp
      ultimately have "gip_mid w sp q h'"
        using 1(2) c(4-6) unfolding gip_mid_def rtR0MemObjIsMapping_def by metis
      then show ?thesis using e rc q True by auto
    qed
  qed
qed

lemma gip_mid_inv:
  assumes "gip_inv w" "w_sess w sp = Some s" "gip_mid w sp q h" "w_sess w' = (w_sess w)(sp \<mapsto> s')"
    and "w_memobjs w' = h" "dx_GipMemObj (w_devext w') = dx_GipMemObj (w_devext w)"
    and "\<And>g. dx_pGip (w_devext w') = Some g \<Longrightarrow> gip_ok g \<and> dx_pGip (w_devext w) \<noteq> None"
    and "ses_GipMapObjR3 s' = q" "q \<noteq> 0 \<Longrightarrow> ses_fGipReferenced s'"
    and "unat (dx_cGipUsers (w_devext w')) = gip_refs s' + sess_other gip_refs w sp"
    and "gip_running (w_trace w') \<longleftrightarrow> 0 < gip_refs s' + sess_other gip_refs w sp"
  shows "gip_inv w'"
proof -
  note m = assms(3) [unfolded gip_mid_def]
  have mi: "mo_inv (w_memobjs w')" using m assms(5) by simp
  have pg: "gip_page_ok w'"
    by (rule gip_page_keep [OF gip_invD(4) [OF assms(1)] assms(6,7)]) (use m assms(5) in auto)
  have own: "gip_map_ok w' s'" using m assms(5,6,8,9) by (simp add: gip_map_ok_def)
  show ?thesis
  proof (rule gip_inv_upd [OF assms(1,2,4) mi pg assms(10,11) own], rule conjI)
    fix p t assume p: "p \<noteq> sp" "w_sess w p = Some t"
    show "gip_map_ok w' t"
      by (rule gip_map_ok_keep [OF gip_invD(7) [OF assms(1) p(2)] assms(6)]) (use m p assms(5) in auto)
    show "ses_GipMapObjR3 t \<noteq> 0 \<longrightarrow> ses_GipMapObjR3 t \<noteq> ses_GipMapObjR3 s'"
      using m p assms(8) by auto
  qed
qed


subsection \<open>Requests\<close>

lemma GipMap_unfold:
  assumes "w_sess w sp = Some s" "SUP_IS_SESSION_VALID sp s" "pp = 0 \<or> RT_VALID_PTR pp" "ph = 0 \<or> RT_VALID_PTR ph"
    "dx_pGip (w_devext w) \<noteq> None" "gip_map_part hst w s pp = Some (rc, q, h)"
    "(if pp \<noteq> 0 \<and> RT_SUCCESS rc then RTR0MemObjAddressR3 h q else Some 0) = Some a"
  shows "\<exists>hc. SUPR0GipMap hst gh self w sp pp ph =
    (let s1 = s\<lparr>ses_GipMapObjR3 := q\<rparr>; w1 = mem_result (set_sess w sp s1) h
     in if \<not> ses_fGipReferenced s \<and> RT_SUCCESS rc
        then map_option (\<lambda>w2. (if dx_cGipUsers (w_devext w) + 1 = 1 then VINF_SUCCESS else rc, Some (a, hc), w2))
               (gip_reference gh self w1 sp s1)
        else Some (rc, Some (a, hc), w1))"
proof -
  have n: "\<not> (pp \<noteq> 0 \<and> \<not> RT_VALID_PTR pp)" "\<not> (ph \<noteq> 0 \<and> \<not> RT_VALID_PTR ph)" using assms(3,4) by auto
  show ?thesis
    unfolding SUPR0GipMap_def assms(1) option.case gip_map_part_def [symmetric] assms(6) prod.case Let_def
      if_not_P [OF assms(5)] if_not_P [OF n(1)] if_not_P [OF n(2)] assms(7)
    using assms(2) by (simp add: exI)
qed

lemma GipMap_ok:
  assumes "gip_inv w" "host_ok hst" "w_sess w sp = Some s" "SUP_IS_SESSION_VALID sp s"
  shows "\<exists>rc out w' s'. SUPR0GipMap hst gh self w sp pp ph = Some (rc, out, w') \<and> gip_inv w' \<and>
    w_sess w' = (w_sess w)(sp \<mapsto> s') \<and> SUP_IS_SESSION_VALID sp s' \<and>
    (if RT_SUCCESS rc then ses_fGipReferenced s' \<and> (pp \<noteq> 0 \<longrightarrow> ses_GipMapObjR3 s' \<noteq> 0) else s' = s)"
proof -
  have same: "w_sess w = (w_sess w)(sp \<mapsto> s)" using assms(3) by (simp add: fun_upd_idem)
  consider "pp \<noteq> 0 \<and> \<not> RT_VALID_PTR pp \<or> ph \<noteq> 0 \<and> \<not> RT_VALID_PTR ph \<or> dx_pGip (w_devext w) = None"
    | gip where "pp = 0 \<or> RT_VALID_PTR pp" "ph = 0 \<or> RT_VALID_PTR ph" "dx_pGip (w_devext w) = Some gip" by blast
  then show ?thesis
  proof cases
    case 1
    then have "\<exists>rc out. SUPR0GipMap hst gh self w sp pp ph = Some (rc, out, w) \<and> RT_FAILURE rc"
      using assms(3,4) by (auto simp: SUPR0GipMap_def)
    then obtain rc out where "SUPR0GipMap hst gh self w sp pp ph = Some (rc, out, w)" "\<not> RT_SUCCESS rc"
      by (auto simp: RT_FAILURE_def)
    then show ?thesis using assms(1,4) same by (intro exI [of _ rc] exI [of _ out] exI [of _ w] exI [of _ s]) simp
  next
    case 2
    have ok: "gip_ok gip" using gip_invD(4) [OF assms(1)] 2(3) by (simp add: gip_page_ok_def)
    obtain rc q h where m: "gip_map_part hst w s pp = Some (rc, q, h)"
      "if RT_SUCCESS rc then gip_mid w sp q h \<and> (pp \<noteq> 0 \<longrightarrow> q \<noteq> 0) \<and> (ses_fGipReferenced s \<or> ses_GipMapObjR3 s = 0)
       else q = 0 \<and> ses_GipMapObjR3 s = 0 \<and> h = w_memobjs w"
      using gip_map_part_ok [OF assms(1-3) 2(3)] by blast
    have "\<exists>a. (if pp \<noteq> 0 \<and> RT_SUCCESS rc then RTR0MemObjAddressR3 h q else Some 0) = Some a"
    proof (cases "pp \<noteq> 0 \<and> RT_SUCCESS rc")
      case True
      then have g: "gip_mid w sp q h" "q \<noteq> 0" using m(2) by simp_all
      obtain c where c: "h q = Some c" using g unfolding gip_mid_def by blast
      have "mo_inv h" using g(1) by (simp add: gip_mid_def)
      from mo_read_ok(4) [OF this c] show ?thesis using True by simp
    qed auto
    then obtain a where a: "(if pp \<noteq> 0 \<and> RT_SUCCESS rc then RTR0MemObjAddressR3 h q else Some 0) = Some a" by blast
    have ne: "dx_pGip (w_devext w) \<noteq> None" using 2(3) by simp
    let ?s1 = "s\<lparr>ses_GipMapObjR3 := q\<rparr>"
    let ?w1 = "mem_result (set_sess w sp ?s1) h"
    obtain hc where e: "SUPR0GipMap hst gh self w sp pp ph =
      (if \<not> ses_fGipReferenced s \<and> RT_SUCCESS rc
        then map_option (\<lambda>w2. (if dx_cGipUsers (w_devext w) + 1 = 1 then VINF_SUCCESS else rc, Some (a, hc), w2))
               (gip_reference gh self ?w1 sp ?s1)
        else Some (rc, Some (a, hc), ?w1))"
      using GipMap_unfold [OF assms(3,4) 2(1,2) ne m(1) a, where gh = gh and self = self] unfolding Let_def
      by (elim exE) (rule that)
    note tot = gip_total [OF assms(1,3)]
    have v: "SUP_IS_SESSION_VALID sp (s\<lparr>ses_GipMapObjR3 := q\<rparr>)"
      "SUP_IS_SESSION_VALID sp (s\<lparr>ses_GipMapObjR3 := q, ses_fGipReferenced := True\<rparr>)"
      using assms(4) by (simp_all add: SUP_IS_SESSION_VALID_def)
    show ?thesis
    proof (cases "RT_SUCCESS rc")
      case False
      then have q: "q = ses_GipMapObjR3 s" "h = w_memobjs w" using m(2) by simp_all
      have s0: "?s1 = s" unfolding q(1) by simp
      have "mem_result (set_sess w sp s) h = w" unfolding q(2) by (rule set_sess_same [OF assms(3)])
      note s1 = s0 this
      have "SUPR0GipMap hst gh self w sp pp ph = Some (rc, Some (a, hc), w)"
        unfolding e s1 using False by simp
      then show ?thesis using assms(1,4) same False
        by (intro exI [of _ rc] exI [of _ "Some (a, hc)"] exI [of _ w] exI [of _ s]) simp
    next
      case True
      then have g: "gip_mid w sp q h" "pp \<noteq> 0 \<longrightarrow> q \<noteq> 0" "ses_fGipReferenced s \<or> ses_GipMapObjR3 s = 0"
        using m(2) by simp_all
      show ?thesis
      proof (cases "ses_fGipReferenced s")
        case r: True
        have "gip_inv ?w1"
          by (rule gip_mid_inv [OF assms(1,3) g(1), where s' = "?s1"]) (use r tot ok 2(3) in \<open>simp_all add: gip_refs_def\<close>)
        then show ?thesis unfolding e using r v(1) g(2) True
          by (intro exI [of _ rc] exI [of _ "Some (a, hc)"] exI [of _ ?w1] exI [of _ ?s1]) simp
      next
        case r: False
        have p: "dx_pGip (w_devext ?w1) = Some gip" using 2(3) by simp
        obtain w2 where w2: "gip_reference gh self ?w1 sp ?s1 = Some w2"
          "w_sess w2 = (w_sess ?w1)(sp \<mapsto> ?s1\<lparr>ses_fGipReferenced := True\<rparr>)" "w_memobjs w2 = w_memobjs ?w1"
          "dx_GipMemObj (w_devext w2) = dx_GipMemObj (w_devext ?w1)"
          "dx_cGipUsers (w_devext w2) = dx_cGipUsers (w_devext ?w1) + 1"
          "\<exists>g. dx_pGip (w_devext w2) = Some g \<and> gip_ok g"
          "if dx_cGipUsers (w_devext ?w1) = 0 then w_trace w2 = w_trace ?w1 @ [EvTimerStart] else w_trace w2 = w_trace ?w1"
          using gip_reference_ok [OF p ok, of gh self sp ?s1] by blast
        have u: "unat (dx_cGipUsers (w_devext w)) = sess_other gip_refs w sp" using tot(1) r by (simp add: gip_refs_def)
        have users: "unat (dx_cGipUsers (w_devext w2)) = 1 + sess_other gip_refs w sp"
          using gip_other_room [OF assms(1,3)] u unfolding w2(5) by (simp add: unat_inc)
        have run: "gip_running (w_trace w2)"
          using w2(7) tot(2) u r by (auto simp: gip_refs_def unat_eq_0 split: if_splits)
        have "gip_inv w2"
          by (rule gip_mid_inv [OF assms(1,3) g(1), where s' = "?s1\<lparr>ses_fGipReferenced := True\<rparr>"])
            (use w2 users run 2(3) in \<open>auto simp: gip_refs_def\<close>)
        moreover obtain rc' where "SUPR0GipMap hst gh self w sp pp ph = Some (rc', Some (a, hc), w2)" "RT_SUCCESS rc'"
          unfolding e w2(1) using r True by auto
        ultimately show ?thesis using v(2) g(2) w2(2)
          by (intro exI [of _ rc'] exI [of _ "Some (a, hc)"] exI [of _ w2] exI [of _ "?s1\<lparr>ses_fGipReferenced := True\<rparr>"]) simp
      qed
    qed
  qed
qed


lemma GipUnmap_ok:
  assumes "gip_inv w" "w_sess w sp = Some s" "SUP_IS_SESSION_VALID sp s"
  shows "\<exists>rc w' s'. SUPR0GipUnmap hst w sp = Some (rc, w') \<and> gip_inv w' \<and>
    w_sess w' = (w_sess w)(sp \<mapsto> s') \<and> SUP_IS_SESSION_VALID sp s' \<and>
    (rc = VINF_SUCCESS \<longrightarrow> \<not> ses_fGipReferenced s' \<and> ses_GipMapObjR3 s' = 0) \<and>
    (RT_FAILURE rc \<longrightarrow> s' = s) \<and>
    (ses_GipMapObjR3 s \<noteq> 0 \<longrightarrow> rc = hst_Free hst (the (w_memobjs w (ses_GipMapObjR3 s)))) \<and>
    (ses_GipMapObjR3 s = 0 \<longrightarrow> rc = VINF_SUCCESS)"
proof -
  let ?q = "ses_GipMapObjR3 s" and ?h = "w_memobjs w" and ?p = "dx_GipMemObj (w_devext w)"
  obtain rc h where f: "(if ?q \<noteq> 0 then RTR0MemObjFree hst ?h ?q False else Some (VINF_SUCCESS, ?h)) = Some (rc, h)"
    "RT_SUCCESS rc \<Longrightarrow> gip_mid w sp 0 h" "RT_FAILURE rc \<Longrightarrow> h = ?h"
    "?q \<noteq> 0 \<Longrightarrow> rc = hst_Free hst (the (?h ?q))" "?q = 0 \<Longrightarrow> rc = VINF_SUCCESS"
  proof (cases "?q = 0")
    case True
    have "gip_mid w sp 0 ?h" using gip_mid_same [OF assms(1,2)] True by simp
    then show thesis by (intro that [of VINF_SUCCESS ?h]) (use True in simp_all)
  next
    case False
    obtain c where c: "?h ?q = Some c" "rtR0MemObjIsMapping c" "mo_fNative c" "mo_pParent c = ?p"
      using gip_other_map [OF assms(1,2) False] by blast
    show thesis
    proof (rule mo_free_mapping [OF gip_invD(3) [OF assms(1)] c(1-3), of hst False], goal_cases)
      case (1 P)
      let ?h' = "(?h(mo_pParent c \<mapsto> P\<lparr>mo_papMappings := mo_unlink ?q (mo_papMappings P)\<rparr>))(?q := None)"
      have ne: "?p \<noteq> ?q" using 1(1,2) c by auto
      have oth: "?h' (ses_GipMapObjR3 t) = ?h (ses_GipMapObjR3 t)"
        if t: "x \<noteq> sp" "w_sess w x = Some t" "ses_GipMapObjR3 t \<noteq> 0" for x t
      proof -
        obtain d where d: "?h (ses_GipMapObjR3 t) = Some d" "rtR0MemObjIsMapping d"
          using gip_other_map [OF assms(1) t(2,3)] by blast
        have "ses_GipMapObjR3 t \<noteq> ?p" using d 1(1,2) c(4) by auto
        moreover have "ses_GipMapObjR3 t \<noteq> ?q" using gip_invD(8) [OF assms(1) t(2) assms(2) t(3)] t(1) by blast
        ultimately show ?thesis by (simp add: c(4))
      qed
      have pg: "?h' ?p = Some (P\<lparr>mo_papMappings := mo_unlink ?q (mo_papMappings P)\<rparr>)" using ne by (simp add: c(4))
      have tm: "mo_enmType m = RTR0MEMOBJTYPE_CONT \<Longrightarrow>
          mo_enmType (P\<lparr>mo_papMappings := mo_unlink ?q (mo_papMappings P)\<rparr>) = RTR0MEMOBJTYPE_CONT"
        if "?h ?p = Some m" for m using that 1(1) c(4) by simp
      have mid: "gip_mid w sp 0 ?h'"
        unfolding gip_mid_def using 1(5) oth pg tm by metis
      show ?case
      proof (cases "RT_SUCCESS (hst_Free hst c)")
        case True
        then show ?thesis using 1(4) mid False c(1) by (intro that [of "hst_Free hst c" ?h']) (simp_all add: RT_FAILURE_def)
      next
        case fl: False
        then show ?thesis using 1(4) False c(1) by (intro that [of "hst_Free hst c" ?h]) simp_all
      qed
    qed
  qed
  have d: "SUPR0GipUnmap hst w sp = (let s1 = (if RT_SUCCESS rc then s\<lparr>ses_GipMapObjR3 := 0\<rparr> else s);
                     w1 = mem_result (set_sess w sp s1) h
                 in if ses_fGipReferenced s1 \<and> rc = 0
                    then
                      let w2 = set_sess w1 sp (s1\<lparr>ses_fGipReferenced := False\<rparr>)
                      in if 0 < dx_cGipUsers (w_devext w2)
                         then
                           let w3 = set_dx w2 (\<lambda>dx. dx\<lparr>dx_cGipUsers := dx_cGipUsers dx - 1\<rparr>)
                           in if dx_cGipUsers (w_devext w3) = 0
                              then Some (VINF_SUCCESS,
                                     set_dx (log_ev w3 EvTimerStop) (\<lambda>dx. dx\<lparr>dx_u32SystemTimerGranularityGrant := 0\<rparr>))
                              else Some (rc, w3)
                         else Some (rc, w2)
                    else Some (rc, w1))"
    unfolding SUPR0GipUnmap_def using assms(2,3) f(1) by simp
  note tot = gip_total [OF assms(1,2)]
  have ok: "gip_ok g" if "dx_pGip (w_devext w) = Some g" for g
    using gip_invD(4) [OF assms(1)] that by (simp add: gip_page_ok_def)
  have v: "SUP_IS_SESSION_VALID sp (s\<lparr>ses_GipMapObjR3 := 0\<rparr>)"
      "SUP_IS_SESSION_VALID sp (s\<lparr>ses_GipMapObjR3 := 0, ses_fGipReferenced := False\<rparr>)"
      using assms(3) by (simp_all add: SUP_IS_SESSION_VALID_def)
  consider "RT_FAILURE rc" | "RT_SUCCESS rc" "\<not> (ses_fGipReferenced s \<and> rc = 0)" | "rc = 0" "ses_fGipReferenced s"
    by (auto simp: RT_FAILURE_def)
  then show ?thesis
  proof cases
    case 1
    have nr: "\<not> RT_SUCCESS rc" "rc \<noteq> 0" using 1 by (auto simp: rc_simps)
    have "SUPR0GipUnmap hst w sp = Some (rc, w)"
      unfolding d using nr f(3) [OF 1] set_sess_same [OF assms(2)] by (simp add: Let_def)
    moreover have "w_sess w = (w_sess w)(sp \<mapsto> s)" using assms(2) by (simp add: fun_upd_idem)
    ultimately show ?thesis using assms(1,3) nr f(4,5) by (intro exI [of _ rc] exI [of _ w] exI [of _ s]) auto
  next
    case 2
    let ?w1 = "mem_result (set_sess w sp (s\<lparr>ses_GipMapObjR3 := 0\<rparr>)) h"
    have n: "\<not> (ses_fGipReferenced (s\<lparr>ses_GipMapObjR3 := 0\<rparr>) \<and> rc = 0)" using 2(2) by simp
    have e: "SUPR0GipUnmap hst w sp = Some (rc, ?w1)"
      unfolding d Let_def if_P [OF 2(1)] if_not_P [OF n] ..
    have "gip_inv ?w1"
      by (rule gip_mid_inv [OF assms(1,2) f(2) [OF 2(1)], where s' = "s\<lparr>ses_GipMapObjR3 := 0\<rparr>"])
        (use tot ok in \<open>simp_all add: gip_refs_def\<close>)
    then show ?thesis using e v 2 f(4,5)
      by (intro exI [of _ rc] exI [of _ ?w1] exI [of _ "s\<lparr>ses_GipMapObjR3 := 0\<rparr>"]) (auto simp: RT_FAILURE_def)
  next
    case 3
    let ?s' = "s\<lparr>ses_GipMapObjR3 := 0, ses_fGipReferenced := False\<rparr>"
    have m: "gip_mid w sp 0 h" using f(2) 3(1) by simp
    have u: "unat (dx_cGipUsers (w_devext w)) = sess_other gip_refs w sp + 1" using tot(1) 3(2) by (simp add: gip_refs_def)
    then have gt: "0 < dx_cGipUsers (w_devext w)" by (simp add: word_less_nat_alt)
    have u1: "unat (dx_cGipUsers (w_devext w) - 1) = sess_other gip_refs w sp"
      using unat_dec [of "dx_cGipUsers (w_devext w)"] u by simp
    let ?w3 = "set_dx (set_sess (mem_result (set_sess w sp (s\<lparr>ses_GipMapObjR3 := 0\<rparr>)) h) sp ?s')
        (\<lambda>dx. dx\<lparr>dx_cGipUsers := dx_cGipUsers dx - 1\<rparr>)"
    define w' where "w' = (if dx_cGipUsers (w_devext w) - 1 = 0
        then set_dx (log_ev ?w3 EvTimerStop) (\<lambda>dx. dx\<lparr>dx_u32SystemTimerGranularityGrant := 0\<rparr>) else ?w3)"
    have e: "SUPR0GipUnmap hst w sp = Some (VINF_SUCCESS, w')"
      unfolding d Let_def w'_def using 3 gt by simp
    have z: "(dx_cGipUsers (w_devext w) - 1 = 0) = (sess_other gip_refs w sp = 0)" using u1 by (metis unat_eq_0)
    have s': "w_sess w' = (w_sess w)(sp \<mapsto> ?s')" "w_memobjs w' = h"
      "dx_GipMemObj (w_devext w') = dx_GipMemObj (w_devext w)" "dx_pGip (w_devext w') = dx_pGip (w_devext w)"
      "dx_cGipUsers (w_devext w') = dx_cGipUsers (w_devext w) - 1"
      by (simp_all add: w'_def)
    have run: "gip_running (w_trace w') \<longleftrightarrow> 0 < sess_other gip_refs w sp"
      using tot(2) 3(2) z by (simp add: w'_def gip_refs_def)
    have "gip_inv w'"
      by (rule gip_mid_inv [OF assms(1,2) m s'(1-3)]) (use ok s' u1 run in \<open>auto simp: gip_refs_def\<close>)
    then show ?thesis using e s'(1) v(2) f(4,5) 3(1)
      by (intro exI [of _ VINF_SUCCESS] exI [of _ w'] exI [of _ ?s']) simp
  qed
qed


subsection \<open>Sequences of requests\<close>

datatype gip_req = GipMap giphost u32 addr addr addr | GipUnmap addr

fun gip_req_sess :: "gip_req \<Rightarrow> addr" where
  "gip_req_sess (GipMap gh self sp pp ph) = sp"
| "gip_req_sess (GipUnmap sp) = sp"

fun gip_do :: "r0host \<Rightarrow> supdrv \<Rightarrow> gip_req \<Rightarrow> supdrv option" where
  "gip_do hst w (GipMap gh self sp pp ph) = map_option (\<lambda>(rc, out, w'). w') (SUPR0GipMap hst gh self w sp pp ph)"
| "gip_do hst w (GipUnmap sp) = map_option (\<lambda>(rc, w'). w') (SUPR0GipUnmap hst w sp)"

primrec gip_run :: "r0host \<Rightarrow> supdrv \<Rightarrow> gip_req list \<Rightarrow> supdrv option" where
  "gip_run hst w [] = Some w"
| "gip_run hst w (r # rs) = Option.bind (gip_do hst w r) (\<lambda>w1. gip_run hst w1 rs)"

definition gip_valid :: "supdrv \<Rightarrow> addr set" where
  "gip_valid w = {sp. \<exists>s. w_sess w sp = Some s \<and> SUP_IS_SESSION_VALID sp s}"

lemma gip_valid_upd: "w_sess w' = (w_sess w)(sp \<mapsto> s') \<Longrightarrow> SUP_IS_SESSION_VALID sp s' \<Longrightarrow> gip_valid w \<subseteq> gip_valid w'"
  by (auto simp: gip_valid_def)

lemma gip_do_ok:
  assumes "gip_inv w" "host_ok hst" "gip_req_sess r \<in> gip_valid w"
  shows "\<exists>w'. gip_do hst w r = Some w' \<and> gip_inv w' \<and> gip_valid w \<subseteq> gip_valid w'"
proof (cases r)
  case (GipMap gh self sp pp ph)
  then obtain s where s: "w_sess w sp = Some s" "SUP_IS_SESSION_VALID sp s" using assms(3) by (auto simp: gip_valid_def)
  obtain rc out w' s' where "SUPR0GipMap hst gh self w sp pp ph = Some (rc, out, w')" "gip_inv w'"
    "w_sess w' = (w_sess w)(sp \<mapsto> s')" "SUP_IS_SESSION_VALID sp s'"
    using GipMap_ok [OF assms(1,2) s] by blast
  then show ?thesis using GipMap gip_valid_upd by (intro exI [of _ w']) simp
next
  case (GipUnmap sp)
  then obtain s where s: "w_sess w sp = Some s" "SUP_IS_SESSION_VALID sp s" using assms(3) by (auto simp: gip_valid_def)
  obtain rc w' s' where "SUPR0GipUnmap hst w sp = Some (rc, w')" "gip_inv w'"
    "w_sess w' = (w_sess w)(sp \<mapsto> s')" "SUP_IS_SESSION_VALID sp s'"
    using GipUnmap_ok [OF assms(1) s] by blast
  then show ?thesis using GipUnmap gip_valid_upd by (intro exI [of _ w']) simp
qed

lemma gip_referenced_total:
  assumes "finite (dom (w_sess w))"
  shows "0 < sess_total gip_refs w \<longleftrightarrow> (\<exists>p s. w_sess w p = Some s \<and> ses_fGipReferenced s)"
proof -
  have "(sess_total gip_refs w = 0) = (\<forall>p\<in>dom (w_sess w). \<not> ses_fGipReferenced (the (w_sess w p)))"
    unfolding sess_total_def gip_refs_def by (simp only: sum_eq_0_iff [OF assms] of_bool_eq_0_iff)
  then have "(0 < sess_total gip_refs w) = (\<exists>p\<in>dom (w_sess w). ses_fGipReferenced (the (w_sess w p)))" by auto
  also have "\<dots> = (\<exists>p s. w_sess w p = Some s \<and> ses_fGipReferenced s)" by force
  finally show ?thesis .
qed

subsection \<open>Properties\<close>

text \<open>
  C8: whatever the sessions request, in any order and with any failures of the host, every request
  is memory safe and the number of users of the page is the number of sessions that reference it.
  The timer that updates the page runs exactly while some session references it, and every mapping
  handed out belongs to the page and to one session only.
\<close>

theorem gip_users_correct:
  assumes "gip_inv w" "host_ok hst" "\<forall>r\<in>set rs. gip_req_sess r \<in> gip_valid w"
  shows "\<exists>w'. gip_run hst w rs = Some w' \<and> gip_inv w' \<and>
    (gip_running (w_trace w') \<longleftrightarrow> (\<exists>p s. w_sess w' p = Some s \<and> ses_fGipReferenced s)) \<and>
    unat (dx_cGipUsers (w_devext w')) = sess_total gip_refs w'"
  using assms(1,3)
proof (induction rs arbitrary: w)
  case Nil
  then show ?case using gip_referenced_total [OF gip_invD(1) [OF Nil(1)]] gip_invD(5,6) [OF Nil(1)] by simp
next
  case (Cons r rs)
  have "gip_req_sess r \<in> gip_valid w" using Cons.prems(2) by simp
  then obtain w1 where w1: "gip_do hst w r = Some w1" "gip_inv w1" "gip_valid w \<subseteq> gip_valid w1"
    using gip_do_ok [OF Cons.prems(1) assms(2)] by blast
  have "\<forall>r\<in>set rs. gip_req_sess r \<in> gip_valid w1" using Cons.prems(2) w1(3) by auto
  from Cons.IH [OF w1(2) this] show ?case using w1(1) by simp
qed

text \<open>
  C35: the end of a session, when the host frees its mapping, drops its reference to the page if and
  only if the session had mapped the page. A session that only asked for the physical address
  stays counted, and the timer runs on.
\<close>

theorem cleanup_gip_correct:
  assumes "gip_inv w" "w_sess w sp = Some s" "SUP_IS_SESSION_VALID sp s" "\<forall>n. hst_Free hst n = VINF_SUCCESS"
  shows "\<exists>w'. cleanup_gip hst w sp = Some w' \<and>
    (unat (dx_cGipUsers (w_devext w')) = sess_other gip_refs w sp \<longleftrightarrow> \<not> (ses_fGipReferenced s \<and> ses_GipMapObjR3 s = 0)) \<and>
    (ses_fGipReferenced s \<and> ses_GipMapObjR3 s = 0 \<longrightarrow> gip_running (w_trace w') \<and>
       unat (dx_cGipUsers (w_devext w')) = sess_other gip_refs w sp + 1) \<and>
    (ses_GipMapObjR3 s \<noteq> 0 \<longrightarrow> ses_GipMapObjR3 (the (w_sess w' sp)) = 0)"
proof (cases "ses_GipMapObjR3 s = 0")
  case True
  then show ?thesis using gip_total [OF assms(1,2)] assms(2) by (auto simp: cleanup_gip_def gip_refs_def)
next
  case False
  obtain rc w1 s1 where u: "SUPR0GipUnmap hst w sp = Some (rc, w1)" "gip_inv w1" "w_sess w1 = (w_sess w)(sp \<mapsto> s1)"
    "rc = VINF_SUCCESS \<longrightarrow> \<not> ses_fGipReferenced s1 \<and> ses_GipMapObjR3 s1 = 0"
    "rc = hst_Free hst (the (w_memobjs w (ses_GipMapObjR3 s)))"
    using GipUnmap_ok [OF assms(1-3), of hst] False by blast
  have r: "\<not> ses_fGipReferenced s1" "ses_GipMapObjR3 s1 = 0" using u(4,5) assms(4) by simp_all
  have s1: "w_sess w1 sp = Some s1" using u(3) by simp
  have "unat (dx_cGipUsers (w_devext w1)) = sess_other gip_refs w sp"
    using gip_total(1) [OF u(2) s1] r(1) sess_other_upd [OF u(3), of gip_refs] by (simp add: gip_refs_def)
  then show ?thesis using False assms(2) u(1) s1 r by (simp add: cleanup_gip_def)
qed


subsection \<open>Witnesses\<close>

text \<open>A page with one CPU, and two sessions that do not use it yet.\<close>

definition gip_ex_host :: giphost where
  "gip_ex_host = \<lparr>gh_NanoTS = 5000, gh_TSC = (\<lambda>_. 7000), gh_ApicId = (\<lambda>_. 0), gh_SetIndex = (\<lambda>c. int (unat c)),
     gh_IdFromSet = of_nat, gh_OnAll = (0, [0]), gh_OnlineSet = {0}, gh_PossibleSet = {0}, gh_cCount = 1, gh_cOnline = 1,
     gh_cPresent = 1, gh_ArraySize = 1, gh_MaxCpuId = 0, gh_Granularity = 1000000, gh_ReqGranularity = (\<lambda>n. (0, n)),
     gh_TimerCreate = (\<lambda>_. 0), gh_InitTSC = (\<lambda>_. 100), gh_Async = (\<lambda>_ _. (0, 0)), gh_FirstTSC = 0,
     gh_fForcedAsync = False, gh_CpuId = (\<lambda>_. (0, 0, 0, 0))\<rparr>"

definition gip_ex_page :: SUPGLOBALINFOPAGE where
  "gip_ex_page = the (dx_pGip (the (supdrvGipInit gip_ex_host dx0 0x4000 5000 100 1)))"

definition gip_ex_mem :: RTR0MEMOBJINTERNAL where
  "gip_ex_mem = \<lparr>mo_enmType = RTR0MEMOBJTYPE_CONT, mo_cb = 0x1000, mo_pv = 0x90000, mo_R0Process = 0, mo_Phys = 0x4000,
     mo_pParent = 0, mo_cMappingsAllocated = 0, mo_papMappings = [], mo_fProtChanged = False, mo_fNative = True\<rparr>"

definition gip_ex :: supdrv where
  "gip_ex = supdrv0\<lparr>w_devext := dx0\<lparr>dx_pGip := Some gip_ex_page, dx_GipMemObj := 0x70000\<rparr>,
     w_sess := [0x10000 \<mapsto> sess0, 0x11000 \<mapsto> sess0], w_memobjs := [0x70000 \<mapsto> gip_ex_mem]\<rparr>"

lemma gip_ex_inv: "gip_inv gip_ex" "gip_valid gip_ex = {0x10000, 0x11000}"
proof -
  have "gip_ok gip_ex_page" by (simp add: gip_ok_def gip_ex_page_def supdrvGipInit_def)
  moreover have "mo_inv [0x70000 \<mapsto> gip_ex_mem]"
    by (simp add: mo_inv_def gip_ex_mem_def rtR0MemObjIsMapping_def RT_VALID_PTR_def word_le_nat_alt)
  moreover have "sess_total gip_refs gip_ex = 0"
    by (simp add: gip_ex_def sess_total_def gip_refs_def sess0_def supdrv0_def)
  ultimately show "gip_inv gip_ex"
    unfolding gip_inv_def
    by (simp add: gip_ex_def supdrv0_def dx0_def gip_page_ok_def gip_map_ok_def gip_ex_mem_def sess0_def gip_running_def card_insert_if)
  show "gip_valid gip_ex = {0x10000, 0x11000}"
    by (auto simp: gip_valid_def gip_ex_def SUP_IS_SESSION_VALID_def sess0_def RT_VALID_PTR_def word_le_nat_alt split: if_splits)
qed

theorem gip_users_correct_witness:
  "\<exists>w'. gip_run host_ex gip_ex [GipMap gip_ex_host 0 0x10000 0x50000 0, GipMap gip_ex_host 0 0x11000 0 0x51000, GipUnmap 0x10000] = Some w' \<and>
     gip_inv w'"
  using gip_users_correct [OF gip_ex_inv(1) host_ex_ok(1),
      of "[GipMap gip_ex_host 0 0x10000 0x50000 0, GipMap gip_ex_host 0 0x11000 0 0x51000, GipUnmap 0x10000]"]
  by (auto simp: gip_ex_inv(2))

text \<open>The second session of this state asked for the physical address only.\<close>

definition gip_ex1 :: supdrv where
  "gip_ex1 = gip_ex\<lparr>w_devext := (w_devext gip_ex)\<lparr>dx_cGipUsers := 1\<rparr>, w_trace := [EvTimerStart],
     w_sess := (w_sess gip_ex)(0x11000 \<mapsto> sess0\<lparr>ses_fGipReferenced := True\<rparr>)\<rparr>"

lemma gip_ex1_inv: "gip_inv gip_ex1"
proof (rule gip_inv_upd [OF gip_ex_inv(1), where sp = "0x11000" and s' = "sess0\<lparr>ses_fGipReferenced := True\<rparr>"])
  show "w_sess gip_ex 0x11000 = Some sess0" by (simp add: gip_ex_def)
  show "w_sess gip_ex1 = (w_sess gip_ex)(0x11000 \<mapsto> sess0\<lparr>ses_fGipReferenced := True\<rparr>)" by (simp add: gip_ex1_def)
  show "mo_inv (w_memobjs gip_ex1)" using gip_invD(3) [OF gip_ex_inv(1)] by (simp add: gip_ex1_def)
  show "gip_page_ok gip_ex1" using gip_invD(4) [OF gip_ex_inv(1)] by (simp add: gip_ex1_def gip_page_ok_def)
  have "sess_other gip_refs gip_ex 0x11000 = 0"
    by (simp add: sess_other_def gip_ex_def gip_refs_def sess0_def supdrv0_def)
  then show "unat (dx_cGipUsers (w_devext gip_ex1)) =
      gip_refs (sess0\<lparr>ses_fGipReferenced := True\<rparr>) + sess_other gip_refs gip_ex 0x11000"
    "gip_running (w_trace gip_ex1) \<longleftrightarrow>
      0 < gip_refs (sess0\<lparr>ses_fGipReferenced := True\<rparr>) + sess_other gip_refs gip_ex 0x11000"
    by (simp_all add: gip_ex1_def gip_refs_def gip_running_def)
  show "gip_map_ok gip_ex1 (sess0\<lparr>ses_fGipReferenced := True\<rparr>)" by (simp add: gip_map_ok_def sess0_def)
  fix q t assume "w_sess gip_ex q = Some t"
  then have "ses_GipMapObjR3 t = 0" by (auto simp: gip_ex_def sess0_def split: if_splits)
  then show "gip_map_ok gip_ex1 t \<and> (ses_GipMapObjR3 t \<noteq> 0 \<longrightarrow>
      ses_GipMapObjR3 t \<noteq> ses_GipMapObjR3 (sess0\<lparr>ses_fGipReferenced := True\<rparr>))" by (simp add: gip_map_ok_def)
qed

theorem cleanup_gip_correct_witness:
  "\<exists>w'. cleanup_gip (host_ex\<lparr>hst_Free := \<lambda>_. 0\<rparr>) gip_ex1 0x11000 = Some w' \<and> gip_running (w_trace w')"
proof -
  have s: "w_sess gip_ex1 0x11000 = Some (sess0\<lparr>ses_fGipReferenced := True\<rparr>)" by (simp add: gip_ex1_def)
  have v: "SUP_IS_SESSION_VALID 0x11000 (sess0\<lparr>ses_fGipReferenced := True\<rparr>)"
    by (simp add: SUP_IS_SESSION_VALID_def sess0_def RT_VALID_PTR_def word_le_nat_alt)
  show ?thesis
    using cleanup_gip_correct [OF gip_ex1_inv s v, of "host_ex\<lparr>hst_Free := \<lambda>_. 0\<rparr>"] by (auto simp: sess0_def)
qed

end
