(* ===== verification/SupGipCpu.thy ===== *)
theory SupGipCpu
  imports SupGipUse
begin

text \<open>
  CPUs that come and go: the entry a CPU gets, the tables that lead to it, the hand-over of the
  master, the test for drifting time stamp counters and the choice of the update interval.
\<close>

subsection \<open>Finding and claiming an entry\<close>

lemma gip_find_cpu_Some:
  "gip_find_cpu idCpu k cs = Some i \<Longrightarrow> k \<le> i \<and> i < k + length cs \<and> cpu_idCpu (cs ! (i - k)) = idCpu"
proof (induction cs arbitrary: k)
  case (Cons c cs)
  show ?case
  proof (cases "cpu_idCpu c = idCpu")
    case False
    then have "Suc k \<le> i \<and> i < Suc k + length cs \<and> cpu_idCpu (cs ! (i - Suc k)) = idCpu"
      using Cons.IH [of "k + 1"] Cons.prems by simp
    then show ?thesis by (auto simp: nth_Cons' Suc_diff_Suc)
  qed (use Cons.prems in auto)
qed simp

lemma gip_find_cpu_None: "gip_find_cpu idCpu k cs = None \<longleftrightarrow> (\<forall>c\<in>set cs. cpu_idCpu c \<noteq> idCpu)"
  by (induction cs arbitrary: k) auto

lemma gip_claim_id:
  "gip_claim (\<lambda>_ cs. cs) m idCpu (Suc n) cs =
     (case gip_find_cpu NIL_RTCPUID 0 (take m cs) of
        Some i \<Rightarrow> (Some i, cs[i := (cs ! i)\<lparr>cpu_idCpu := idCpu\<rparr>])
      | None \<Rightarrow> (None, cs))"
  by (induction n) (auto split: option.splits)

text \<open>What the clock of an entry is; neither claiming nor entering a CPU touches it.\<close>

definition cpu_clock :: "SUPGIPCPU \<Rightarrow> u32 \<times> u32 \<times> u64 \<times> u64" where
  "cpu_clock c = (cpu_u32TransactionId c, cpu_u32UpdateIntervalTSC c, cpu_u64NanoTS c, cpu_u64TSC c)"

definition gip_same_clock :: "SUPGLOBALINFOPAGE \<Rightarrow> SUPGLOBALINFOPAGE \<Rightarrow> bool" where
  "gip_same_clock g g' \<longleftrightarrow> gip_u32Mode g' = gip_u32Mode g \<and> gip_u32UpdateIntervalNS g' = gip_u32UpdateIntervalNS g \<and>
     map cpu_clock (gip_aCPUs g') = map cpu_clock (gip_aCPUs g)"

lemma gip_same_clock_trans: "gip_same_clock g g1 \<Longrightarrow> gip_same_clock g1 g2 \<Longrightarrow> gip_same_clock g g2"
  by (simp add: gip_same_clock_def)

lemma map_update_same: "f x = f (xs ! i) \<Longrightarrow> map f (xs[i := x]) = map f xs"
  by (metis list_update_beyond list_update_id map_update not_le nth_map)

text \<open>The index is that of an entry of the CPU, or of a free entry, which then is the CPU's.\<close>

lemma CpuIndex_ok:
  assumes "gip_ok gip"
  shows "case supdrvGipCpuIndexFromCpuId (\<lambda>_ cs. cs) gip idCpu of
      None \<Rightarrow> \<forall>c\<in>set (gip_aCPUs gip). cpu_idCpu c \<noteq> idCpu \<and> cpu_idCpu c \<noteq> NIL_RTCPUID
    | Some (i, g) \<Rightarrow> i < unat (gip_cCpus gip) \<and> (cpu_idCpu (gip_aCPUs gip ! i) = idCpu \<or>
          cpu_idCpu (gip_aCPUs gip ! i) = NIL_RTCPUID \<and> (\<forall>c\<in>set (gip_aCPUs gip). cpu_idCpu c \<noteq> idCpu)) \<and>
        g = gip\<lparr>gip_aCPUs := (gip_aCPUs gip)[i := (gip_aCPUs gip ! i)\<lparr>cpu_idCpu := idCpu\<rparr>]\<rparr>"
proof -
  let ?cs = "gip_aCPUs gip" and ?n = "unat (gip_cCpus gip)"
  have l: "length ?cs = ?n" using assms by (simp add: gip_ok_def)
  show ?thesis
  proof (cases "gip_find_cpu idCpu 0 ?cs")
    case (Some i)
    then have i: "i < ?n" "cpu_idCpu (?cs ! i) = idCpu" using gip_find_cpu_Some [OF Some] l by auto
    have "(?cs ! i)\<lparr>cpu_idCpu := cpu_idCpu (?cs ! i)\<rparr> = ?cs ! i" by simp
    then have "?cs[i := (?cs ! i)\<lparr>cpu_idCpu := idCpu\<rparr>] = ?cs" unfolding i(2) by simp
    then show ?thesis using Some i l by (simp add: supdrvGipCpuIndexFromCpuId_def Let_def)
  next
    case None
    then have n: "\<forall>c\<in>set ?cs. cpu_idCpu c \<noteq> idCpu" by (simp add: gip_find_cpu_None)
    have "gip_claim (\<lambda>_ cs. cs) ?n idCpu 33 ?cs = gip_claim (\<lambda>_ cs. cs) ?n idCpu (Suc 32) ?cs" by simp
    then have c: "gip_claim (\<lambda>_ cs. cs) ?n idCpu 33 ?cs = (case gip_find_cpu NIL_RTCPUID 0 ?cs of
        Some i \<Rightarrow> (Some i, ?cs[i := (?cs ! i)\<lparr>cpu_idCpu := idCpu\<rparr>]) | None \<Rightarrow> (None, ?cs))"
      unfolding gip_claim_id by (simp add: l)
    show ?thesis
    proof (cases "gip_find_cpu NIL_RTCPUID 0 ?cs")
      case s: (Some i)
      then have "i < ?n" "cpu_idCpu (?cs ! i) = NIL_RTCPUID" using gip_find_cpu_Some [OF s] l by auto
      then show ?thesis using None n c s l by (simp add: supdrvGipCpuIndexFromCpuId_def Let_def)
    next
      case s: None
      then have "\<forall>c\<in>set ?cs. cpu_idCpu c \<noteq> NIL_RTCPUID" by (simp add: gip_find_cpu_None)
      then show ?thesis using None n c s l by (simp add: supdrvGipCpuIndexFromCpuId_def Let_def)
    qed
  qed
qed

lemma CpuIndex_clock:
  assumes "gip_ok gip" "supdrvGipCpuIndexFromCpuId (\<lambda>_ cs. cs) gip idCpu = Some (i, g)"
  shows "i < unat (gip_cCpus gip)" "gip_ok g" "gip_same_clock gip g"
proof -
  have i: "i < unat (gip_cCpus gip)"
    and g: "g = gip\<lparr>gip_aCPUs := (gip_aCPUs gip)[i := (gip_aCPUs gip ! i)\<lparr>cpu_idCpu := idCpu\<rparr>]\<rparr>"
    using CpuIndex_ok [OF assms(1), of idCpu] assms(2) by simp_all
  show "i < unat (gip_cCpus gip)" by (rule i)
  show "gip_ok g" using assms(1) by (simp add: g gip_ok_def)
  show "gip_same_clock gip g" by (simp add: g gip_same_clock_def map_update_same cpu_clock_def)
qed

subsection \<open>Entering a CPU\<close>

text \<open>What the entry of a CPU looks like when it is online.\<close>

definition cpu_online :: "giphost \<Rightarrow> u32 \<Rightarrow> SUPGIPCPU \<Rightarrow> SUPGIPCPU" where
  "cpu_online gh idCpu c = c\<lparr>cpu_idCpu := idCpu, cpu_iCpuSet := signed_take_bit 15 (gh_SetIndex gh idCpu),
     cpu_idApic := ucast (gh_ApicId gh idCpu), cpu_enmState := SUPGIPCPUSTATE_ONLINE\<rparr>"

lemma MpEventOnline_unfold:
  assumes "gip_ok gip"
  shows "supdrvGipMpEventOnline gh (\<lambda>_ cs. cs) idCpu gip idCpu =
    (case supdrvGipCpuIndexFromCpuId (\<lambda>_ cs. cs) gip idCpu of
       None \<Rightarrow> None
     | Some (i, g) \<Rightarrow>
         if 0 \<le> gh_SetIndex gh idCpu \<and> gh_SetIndex gh idCpu < 256
         then Some (gip\<lparr>gip_cPresentCpus := ucast (gh_cPresent gh), gip_cOnlineCpus := ucast (gh_cOnline gh),
           gip_OnlineCpuSet := insert (nat (gh_SetIndex gh idCpu)) (gip_OnlineCpuSet gip),
           gip_PresentCpuSet := insert (nat (gh_SetIndex gh idCpu)) (gip_PresentCpuSet gip),
           gip_aCPUs := (gip_aCPUs gip)[i := cpu_online gh idCpu (gip_aCPUs gip ! i)],
           gip_aiCpuFromApicId := (gip_aiCpuFromApicId gip)[unat (gh_ApicId gh idCpu) := of_nat i],
           gip_aiCpuFromCpuSetIdx := (gip_aiCpuFromCpuSetIdx gip)[nat (gh_SetIndex gh idCpu) := of_nat i]\<rparr>)
         else None)"
proof -
  let ?s = "gh_SetIndex gh idCpu"
  let ?g1 = "gip\<lparr>gip_cPresentCpus := ucast (gh_cPresent gh), gip_cOnlineCpus := ucast (gh_cOnline gh)\<rparr>"
  let ?g2 = "if 0 \<le> ?s then ?g1\<lparr>gip_OnlineCpuSet := RTCpuSetAddByIndex (gip_OnlineCpuSet ?g1) ?s,
                              gip_PresentCpuSet := RTCpuSetAddByIndex (gip_PresentCpuSet ?g1) ?s\<rparr> else ?g1"
  have a: "gip_aCPUs ?g2 = gip_aCPUs gip" "gip_cCpus ?g2 = gip_cCpus gip" "gip_aiCpuFromApicId ?g2 = gip_aiCpuFromApicId gip"
    "gip_aiCpuFromCpuSetIdx ?g2 = gip_aiCpuFromCpuSetIdx gip" by simp_all
  have ok: "gip_ok ?g2" using assms a by (simp add: gip_ok_def)
  have len: "length (gip_aCPUs gip) = unat (gip_cCpus gip)" "length (gip_aiCpuFromApicId gip) = 256"
    "length (gip_aiCpuFromCpuSetIdx gip) = 256" using assms by (simp_all add: gip_ok_def)
  have ix: "supdrvGipCpuIndexFromCpuId (\<lambda>_ cs. cs) ?g2 idCpu =
      map_option (\<lambda>(i, g). (i, ?g2\<lparr>gip_aCPUs := gip_aCPUs g\<rparr>)) (supdrvGipCpuIndexFromCpuId (\<lambda>_ cs. cs) gip idCpu)"
    by (auto simp: supdrvGipCpuIndexFromCpuId_def Let_def split: option.splits prod.splits)
  show ?thesis
  proof (cases "supdrvGipCpuIndexFromCpuId (\<lambda>_ cs. cs) gip idCpu")
    case None
    then show ?thesis using ix unfolding supdrvGipMpEventOnline_def by (simp add: Let_def)
  next
    case (Some x)
    obtain i g where x: "x = (i, g)" by (cases x)
    have i: "i < unat (gip_cCpus gip)" and
      g: "g = gip\<lparr>gip_aCPUs := (gip_aCPUs gip)[i := (gip_aCPUs gip ! i)\<lparr>cpu_idCpu := idCpu\<rparr>]\<rparr>"
      using CpuIndex_ok [OF assms, of idCpu] Some x by simp_all
    have s: "supdrvGipCpuIndexFromCpuId (\<lambda>_ cs. cs) ?g2 idCpu = Some (i, ?g2\<lparr>gip_aCPUs := gip_aCPUs g\<rparr>)"
      using ix Some x by simp
    show ?thesis
    proof (cases "0 \<le> ?s \<and> ?s < 256")
      case True
      then have "nat ?s < 256" by linarith
      then show ?thesis using True s Some x i len apic_index [of "gh_ApicId gh idCpu"]
        by (simp add: supdrvGipMpEventOnline_def Let_def gip_set_cpu_def g cpu_online_def RTCpuSetAddByIndex_def)
    next
      case False
      then show ?thesis using s Some x i len
        by (auto simp: supdrvGipMpEventOnline_def Let_def gip_set_cpu_def g split: option.splits)
    qed
  qed
qed

lemma MpEventOnline_clock:
  assumes "gip_ok gip" "supdrvGipMpEventOnline gh (\<lambda>_ cs. cs) idCpu gip idCpu = Some g"
  shows "gip_ok g" "gip_same_clock gip g"
proof -
  have "gip_ok g \<and> gip_same_clock gip g"
    using assms(2) assms(1) unfolding MpEventOnline_unfold [OF assms(1)]
    by (auto simp: gip_ok_def gip_same_clock_def map_update_same cpu_clock_def cpu_online_def split: option.splits if_splits)
  then show "gip_ok g" "gip_same_clock gip g" by simp_all
qed

lemma unat_of_nat_u16: "i < unat (n::u16) \<Longrightarrow> unat (of_nat i :: u16) = i"
proof -
  assume i: "i < unat n"
  have "unat n < 65536" using unsigned_less [of n] by simp
  with i show ?thesis by (simp add: unat_of_nat)
qed

subsection \<open>Passing on the master\<close>

lemma gip_new_master_ok:
  "gip_new_master gh m = NIL_RTCPUID \<or>
   gip_new_master gh m \<noteq> m \<and> RTCpuSetIsMember gh (gh_OnlineSet gh) (gip_new_master gh m)"
  unfolding gip_new_master_def by (auto split: option.split dest!: find_SomeD)

lemma gip_new_master_found:
  assumes "i < 256" "RTCpuSetIsMember gh (gh_OnlineSet gh) (gh_IdFromSet gh i)" "gh_IdFromSet gh i \<noteq> m"
  shows "gip_new_master gh m \<noteq> m \<and> RTCpuSetIsMember gh (gh_OnlineSet gh) (gip_new_master gh m)"
proof -
  let ?P = "\<lambda>i. RTCpuSetIsMember gh (gh_OnlineSet gh) (gh_IdFromSet gh i) \<and> gh_IdFromSet gh i \<noteq> m"
  have "find ?P [0..<256] \<noteq> None" using assms unfolding find_None_iff_set by auto
  then obtain j where j: "find ?P [0..<256] = Some j" by blast
  from find_SomeD [OF j] show ?thesis unfolding gip_new_master_def j by simp
qed

subsection \<open>The drift test and the update interval\<close>

text \<open>
  The counters read in one round or in all rounds, in the order of the reads; a CPU that is offline
  does not count.
\<close>

primrec async_ok :: "(nat \<Rightarrow> status \<times> u64) \<Rightarrow> u64 \<Rightarrow> nat list \<Rightarrow> bool" where
  "async_ok rd prev [] = True"
| "async_ok rd prev (i # is) =
     (if RT_SUCCESS (fst (rd i)) then prev < snd (rd i) \<and> async_ok rd (snd (rd i)) is else async_ok rd prev is)"

lemma async_inner_ok:
  "async_inner rd cLoops is prev off = (False, b, prev', off') \<Longrightarrow> async_ok rd prev is \<and> prev \<le> prev'"
proof (induction "is" arbitrary: prev off)
  case (Cons i "is")
  obtain rc ts where r: "rd i = (rc, ts)" by (cases "rd i")
  show ?case
  proof (cases "RT_SUCCESS rc")
    case True
    then have gt: "\<not> ts \<le> prev" using Cons.prems r by (auto split: if_splits)
    then have "async_ok rd ts is \<and> ts \<le> prev'" using Cons.IH Cons.prems True r by (auto simp: Let_def)
    then show ?thesis using gt True r by auto
  next
    case False
    then have "async_ok rd prev is \<and> prev \<le> prev'" using Cons.IH Cons.prems r by (auto split: if_splits)
    then show ?thesis using False r by simp
  qed
qed simp

lemma async_inner_break:
  "async_inner rd cLoops is prev off = (True, False, prev', off') \<Longrightarrow> \<exists>i\<in>set is. fst (rd i) = VERR_NOT_SUPPORTED"
proof (induction "is" arbitrary: prev off)
  case (Cons i "is")
  obtain rc ts where r: "rd i = (rc, ts)" by (cases "rd i")
  show ?case
  proof (cases "rc = VERR_NOT_SUPPORTED")
    case False
    then have "\<exists>p off. async_inner rd cLoops is p off = (True, False, prev', off')"
      using Cons.prems r by (auto simp: Let_def split: if_splits)
    then show ?thesis using Cons.IH by auto
  qed (use r in simp)
qed simp

text \<open>
  Where the host can run code on a CPU, the counters count as synchronous only when every one of
  the eight rounds saw them strictly increasing over all CPUs that are online.
\<close>

lemma async_outer_sync:
  assumes "async_outer rd n c prev off = (False, off')" "\<forall>c i. fst (rd c i) \<noteq> VERR_NOT_SUPPORTED"
  shows "\<forall>k<c. \<exists>p\<ge>prev. async_ok (rd k) p [0..<n]"
  using assms(1)
proof (induction c arbitrary: prev off)
  case (Suc c)
  obtain b a p' o' where r: "async_inner (rd c) c [0..<n] prev off = (b, a, p', o')" by (metis prod_cases4)
  have nb: "\<not> b"
  proof
    assume b
    with Suc.prems r have "\<not> a" by simp
    with \<open>b\<close> r show False using async_inner_break [of "rd c" c "[0..<n]" prev off p' o'] assms(2) by simp
  qed
  then have ok: "async_ok (rd c) prev [0..<n]" "prev \<le> p'"
    using async_inner_ok [of "rd c" c "[0..<n]" prev off a p' o'] r nb by auto
  have "\<forall>k<c. \<exists>p\<ge>p'. async_ok (rd k) p [0..<n]" using Suc.IH [of p' o'] Suc.prems r nb by simp
  then show ?case using ok by (metis less_Suc_eq order.trans order.refl)
qed simp

text \<open>The search for the interval ends when the timer has a granularity, and gives a multiple of it.\<close>

lemma gip_interval_ok:
  assumes "0 < unat g" "unat iv = k * unat g" "0 < k"
  shows "\<exists>n. gip_interval g iv = Some n \<and> (\<exists>m\<ge>k. unat n = m * unat g \<and> 10000000 \<le> unat n \<and>
     (iv < 10000000 \<longrightarrow> unat n < 10000000 + unat g))"
  using assms
proof (induction "10000000 - unat iv" arbitrary: iv k rule: less_induct)
  case less
  show ?case
  proof (cases "iv < 10000000")
    case False
    then have "gip_interval g iv = Some iv" by (subst gip_interval.simps) simp
    then show ?thesis using less.prems False by (auto simp: word_less_nat_alt)
  next
    case True
    then have lt: "unat iv < 10000000" by (simp add: word_less_nat_alt)
    have gl: "unat g \<le> unat iv" using less.prems(2,3) by (cases k) auto
    have sum: "unat (iv + g) = unat iv + unat g" using lt gl by (simp add: unat_word_ariths)
    have k: "unat (iv + g) = Suc k * unat g" using sum less.prems(2) by simp
    have "10000000 - unat (iv + g) < 10000000 - unat iv" using sum lt less.prems(1) by linarith
    from less.hyps [OF this less.prems(1) k] obtain n m where
      n: "gip_interval g (iv + g) = Some n" "Suc k \<le> m" "unat n = m * unat g" "10000000 \<le> unat n"
      "iv + g < 10000000 \<longrightarrow> unat n < 10000000 + unat g" by auto
    have "gip_interval g iv = gip_interval g (iv + g)"
      unfolding gip_interval.simps [of g iv] by (rule if_P [OF True])
    also note n(1)
    finally have iv: "gip_interval g iv = Some n" .
    have "unat n < 10000000 + unat g"
    proof (cases "iv + g < 10000000")
      case False
      then have "gip_interval g (iv + g) = Some (iv + g)" by (subst gip_interval.simps) simp
      then show ?thesis using n(1) sum lt by simp
    qed (use n(5) in simp)
    then show ?thesis using n(2-4) Suc_leD [OF n(2)] iv by blast
  qed
qed

text \<open>Without a granularity the search does not end.\<close>

lemma gip_interval_diverges: "gip_interval 0 0 = None"
proof (cases "gip_interval 0 0")
  case (Some n)
  have "\<not> ((0::u32) = 0 \<and> (0::u32) = 0)"
    by (rule gip_interval.raw_induct [OF _ Some, where P = "\<lambda>g iv n. \<not> (g = 0 \<and> iv = 0)"]) (fastforce split: if_splits)
  then show ?thesis by simp
qed

subsection \<open>Properties\<close>

text \<open>No two entries belong to the same CPU.\<close>

definition gip_ids :: "SUPGLOBALINFOPAGE \<Rightarrow> bool" where
  "gip_ids g \<longleftrightarrow> (\<forall>i<length (gip_aCPUs g). \<forall>j<length (gip_aCPUs g).
     cpu_idCpu (gip_aCPUs g ! i) = cpu_idCpu (gip_aCPUs g ! j) \<longrightarrow> cpu_idCpu (gip_aCPUs g ! i) \<noteq> NIL_RTCPUID \<longrightarrow> i = j)"

lemma gip_idsD:
  "gip_ids g \<Longrightarrow> i < length (gip_aCPUs g) \<Longrightarrow> j < length (gip_aCPUs g) \<Longrightarrow>
     cpu_idCpu (gip_aCPUs g ! i) = cpu_idCpu (gip_aCPUs g ! j) \<Longrightarrow> cpu_idCpu (gip_aCPUs g ! i) \<noteq> NIL_RTCPUID \<Longrightarrow> i = j"
  by (simp add: gip_ids_def)

text \<open>The entry of a CPU, or a free one if the CPU has none.\<close>

definition gip_entry_for :: "SUPGLOBALINFOPAGE \<Rightarrow> u32 \<Rightarrow> nat \<Rightarrow> bool" where
  "gip_entry_for gip idCpu i \<longleftrightarrow>
     (if \<exists>c\<in>set (gip_aCPUs gip). cpu_idCpu c = idCpu then cpu_idCpu (gip_aCPUs gip ! i) = idCpu
      else cpu_idCpu (gip_aCPUs gip ! i) = NIL_RTCPUID)"

lemma gip_ids_online:
  assumes "gip_ids gip" "i < length (gip_aCPUs gip)" "gip_entry_for gip idCpu i"
    and g: "gip_aCPUs g = (gip_aCPUs gip)[i := c]" "cpu_idCpu c = idCpu"
  shows "gip_ids g"
proof -
  have n: "k = i" if "k < length (gip_aCPUs gip)" "cpu_idCpu (gip_aCPUs gip ! k) = idCpu" "idCpu \<noteq> NIL_RTCPUID" for k
  proof -
    have "\<exists>c\<in>set (gip_aCPUs gip). cpu_idCpu c = idCpu" using that nth_mem by blast
    then have "cpu_idCpu (gip_aCPUs gip ! i) = idCpu" using assms(3) by (simp add: gip_entry_for_def)
    then show ?thesis using gip_idsD [OF assms(1) that(1) assms(2)] that by simp
  qed
  have l: "length (gip_aCPUs g) = length (gip_aCPUs gip)" by (simp add: g(1))
  have c: "cpu_idCpu (gip_aCPUs g ! k) = (if k = i then idCpu else cpu_idCpu (gip_aCPUs gip ! k))" for k
    using assms(2) g(2) by (simp add: g(1))
  show ?thesis
    unfolding gip_ids_def
  proof (intro allI impI)
    fix j k assume a: "j < length (gip_aCPUs g)" "k < length (gip_aCPUs g)"
      "cpu_idCpu (gip_aCPUs g ! j) = cpu_idCpu (gip_aCPUs g ! k)" "cpu_idCpu (gip_aCPUs g ! j) \<noteq> NIL_RTCPUID"
    show "j = k"
    proof (cases "j = i \<or> k = i")
      case True
      then show ?thesis using a n [of j] n [of k] by (auto simp: c l split: if_splits)
    next
      case False
      then show ?thesis using a gip_idsD [OF assms(1), of j k] by (simp add: c l)
    qed
  qed
qed

lemma CpuIndex_entry:
  assumes "gip_ok gip" "supdrvGipCpuIndexFromCpuId (\<lambda>_ cs. cs) gip idCpu = Some (i, g)"
  shows "i < unat (gip_cCpus gip)" "i < length (gip_aCPUs gip)" "gip_entry_for gip idCpu i"
proof -
  have l: "length (gip_aCPUs gip) = unat (gip_cCpus gip)" using assms(1) by (simp add: gip_ok_def)
  have c: "i < unat (gip_cCpus gip)" "cpu_idCpu (gip_aCPUs gip ! i) = idCpu \<or>
      cpu_idCpu (gip_aCPUs gip ! i) = NIL_RTCPUID \<and> (\<forall>c\<in>set (gip_aCPUs gip). cpu_idCpu c \<noteq> idCpu)"
    using CpuIndex_ok [OF assms(1), of idCpu] assms(2) by simp_all
  show "i < unat (gip_cCpus gip)" "i < length (gip_aCPUs gip)" using c(1) l by simp_all
  then have "gip_aCPUs gip ! i \<in> set (gip_aCPUs gip)" by simp
  then show "gip_entry_for gip idCpu i" using c(2) by (auto simp: gip_entry_for_def)
qed

text \<open>A CPU that has an entry gets that one back.\<close>

lemma MpEventOnline_again:
  assumes ok: "gip_ok g" and i: "i < length (gip_aCPUs g)" "cpu_idCpu (gip_aCPUs g ! i) = idCpu"
    and u: "\<And>k. k < length (gip_aCPUs g) \<Longrightarrow> cpu_idCpu (gip_aCPUs g ! k) = idCpu \<Longrightarrow> k = i"
    and s: "0 \<le> gh_SetIndex gh idCpu" "gh_SetIndex gh idCpu < 256"
  shows "\<exists>g'. supdrvGipMpEventOnline gh (\<lambda>_ cs. cs) idCpu g idCpu = Some g' \<and>
    gip_aCPUs g' = (gip_aCPUs g)[i := cpu_online gh idCpu (gip_aCPUs g ! i)]"
proof -
  have m: "gip_aCPUs g ! i \<in> set (gip_aCPUs g)" using i(1) by simp
  have "supdrvGipCpuIndexFromCpuId (\<lambda>_ cs. cs) g idCpu \<noteq> None"
  proof
    assume "supdrvGipCpuIndexFromCpuId (\<lambda>_ cs. cs) g idCpu = None"
    then have "\<forall>c\<in>set (gip_aCPUs g). cpu_idCpu c \<noteq> idCpu" using CpuIndex_ok [OF ok, of idCpu] by simp
    then show False using m i(2) by blast
  qed
  then obtain k g0 where k: "supdrvGipCpuIndexFromCpuId (\<lambda>_ cs. cs) g idCpu = Some (k, g0)" by auto
  note K = CpuIndex_entry [OF ok k]
  have "\<exists>c\<in>set (gip_aCPUs g). cpu_idCpu c = idCpu" using m i(2) by blast
  then have "cpu_idCpu (gip_aCPUs g ! k) = idCpu" using K(3) unfolding gip_entry_for_def by (simp only: if_True)
  then have "k = i" using u K(2) by blast
  then show ?thesis using k s unfolding MpEventOnline_unfold [OF ok] by simp
qed

lemma MpEventOnline_ok:
  assumes "gip_ok gip"
  shows "case supdrvGipMpEventOnline gh (\<lambda>_ cs. cs) idCpu gip idCpu of
      None \<Rightarrow> \<not> (0 \<le> gh_SetIndex gh idCpu \<and> gh_SetIndex gh idCpu < 256) \<or>
              (\<forall>c\<in>set (gip_aCPUs gip). cpu_idCpu c \<noteq> idCpu \<and> cpu_idCpu c \<noteq> NIL_RTCPUID)
    | Some g \<Rightarrow> 0 \<le> gh_SetIndex gh idCpu \<and> gh_SetIndex gh idCpu < 256 \<and> gip_ok g \<and> gip_same_clock gip g \<and>
        (gip_ids gip \<longrightarrow> gip_ids g) \<and>
        (\<exists>i<unat (gip_cCpus gip).
           (if \<exists>c\<in>set (gip_aCPUs gip). cpu_idCpu c = idCpu then cpu_idCpu (gip_aCPUs gip ! i) = idCpu
            else cpu_idCpu (gip_aCPUs gip ! i) = NIL_RTCPUID) \<and>
           gip_aCPUs g = (gip_aCPUs gip)[i := cpu_online gh idCpu (gip_aCPUs gip ! i)] \<and>
           unat (gip_aiCpuFromApicId g ! unat (gh_ApicId gh idCpu)) = i \<and>
           unat (gip_aiCpuFromCpuSetIdx g ! nat (gh_SetIndex gh idCpu)) = i \<and>
           gip_OnlineCpuSet g = insert (nat (gh_SetIndex gh idCpu)) (gip_OnlineCpuSet gip) \<and>
           (\<exists>g'. supdrvGipMpEventOffline gh g idCpu = Some g' \<and>
              g' = g\<lparr>gip_OnlineCpuSet := gip_OnlineCpuSet gip - {nat (gh_SetIndex gh idCpu)},
                     gip_aCPUs := (gip_aCPUs g)[i := (gip_aCPUs g ! i)\<lparr>cpu_enmState := SUPGIPCPUSTATE_OFFLINE\<rparr>]\<rparr> \<and>
              (gip_ids gip \<and> idCpu \<noteq> NIL_RTCPUID \<longrightarrow>
                 (\<exists>g''. supdrvGipMpEventOnline gh (\<lambda>_ cs. cs) idCpu g' idCpu = Some g'' \<and> gip_aCPUs g'' = gip_aCPUs g))))"
proof -
  let ?s = "gh_SetIndex gh idCpu"
  note C = CpuIndex_ok [OF assms, of idCpu]
  show ?thesis
  proof (cases "supdrvGipCpuIndexFromCpuId (\<lambda>_ cs. cs) gip idCpu")
    case None
    then show ?thesis using C unfolding MpEventOnline_unfold [OF assms] by simp
  next
    case (Some x)
    obtain i g0 where x: "x = (i, g0)" by (cases x)
    note i = CpuIndex_entry [OF assms Some [unfolded x]]
    show ?thesis
    proof (cases "0 \<le> ?s \<and> ?s < 256")
      case False
      have "supdrvGipMpEventOnline gh (\<lambda>_ cs. cs) idCpu gip idCpu = None"
        unfolding MpEventOnline_unfold [OF assms] Some x option.case prod.case by (rule if_not_P [OF False])
      then show ?thesis using False by simp
    next
      case s: True
      obtain g where g: "supdrvGipMpEventOnline gh (\<lambda>_ cs. cs) idCpu gip idCpu = Some g"
        "gip_aCPUs g = (gip_aCPUs gip)[i := cpu_online gh idCpu (gip_aCPUs gip ! i)]" "gip_cCpus g = gip_cCpus gip"
        "gip_aiCpuFromApicId g = (gip_aiCpuFromApicId gip)[unat (gh_ApicId gh idCpu) := of_nat i]"
        "gip_aiCpuFromCpuSetIdx g = (gip_aiCpuFromCpuSetIdx gip)[nat ?s := of_nat i]"
        "gip_OnlineCpuSet g = insert (nat ?s) (gip_OnlineCpuSet gip)"
        using Some x s unfolding MpEventOnline_unfold [OF assms] by simp
      note ok = MpEventOnline_clock [OF assms g(1)]
      have len: "length (gip_aCPUs gip) = unat (gip_cCpus gip)" "length (gip_aiCpuFromApicId gip) = 256"
        "length (gip_aiCpuFromCpuSetIdx gip) = 256" using assms by (simp_all add: gip_ok_def)
      have n: "nat ?s < 256" using s by linarith
      have ix: "unat (gip_aiCpuFromApicId g ! unat (gh_ApicId gh idCpu)) = i" "unat (gip_aiCpuFromCpuSetIdx g ! nat ?s) = i"
        using n len apic_index [of "gh_ApicId gh idCpu"] unat_of_nat_u16 [OF i(1)] by (simp_all add: g)
      have id: "cpu_idCpu (gip_aCPUs g ! i) = idCpu" using i(2) by (simp add: g cpu_online_def)
      have li: "i < length (gip_aCPUs g)" "nat ?s < length (gip_aiCpuFromCpuSetIdx g)" using i(1) len n by (simp_all add: g)
      have ids: "gip_ids gip \<Longrightarrow> gip_ids g"
        by (rule gip_ids_online [OF _ i(2,3) g(2)]) (simp_all add: cpu_online_def)
      have del: "RTCpuSetDelByIndex (gip_OnlineCpuSet g) ?s = gip_OnlineCpuSet gip - {nat ?s}"
        using g(6) s by (auto simp: RTCpuSetDelByIndex_def)
      define g' where "g' = g\<lparr>gip_OnlineCpuSet := gip_OnlineCpuSet gip - {nat ?s},
        gip_aCPUs := (gip_aCPUs g)[i := (gip_aCPUs g ! i)\<lparr>cpu_enmState := SUPGIPCPUSTATE_OFFLINE\<rparr>]\<rparr>"
      have g': "supdrvGipMpEventOffline gh g idCpu = Some g'"
        using s li ix(2) id i(1) g(3) del by (simp add: supdrvGipMpEventOffline_def Let_def gip_set_cpu_def g'_def)
      have again: "\<exists>g''. supdrvGipMpEventOnline gh (\<lambda>_ cs. cs) idCpu g' idCpu = Some g'' \<and> gip_aCPUs g'' = gip_aCPUs g"
        if dist: "gip_ids gip" "idCpu \<noteq> NIL_RTCPUID"
      proof -
        have a: "gip_aCPUs g' = (gip_aCPUs g)[i := (gip_aCPUs g ! i)\<lparr>cpu_enmState := SUPGIPCPUSTATE_OFFLINE\<rparr>]" by (simp add: g'_def)
        have ok': "gip_ok g'" using ok(1) by (simp add: gip_ok_def g'_def)
        have l': "i < length (gip_aCPUs g')" "cpu_idCpu (gip_aCPUs g' ! i) = idCpu" using li(1) id by (simp_all add: a)
        have u: "k = i" if k: "k < length (gip_aCPUs g')" "cpu_idCpu (gip_aCPUs g' ! k) = idCpu" for k
        proof (rule ccontr)
          assume "k \<noteq> i"
          then have "k < length (gip_aCPUs g)" "cpu_idCpu (gip_aCPUs g ! k) = idCpu" using k by (simp_all add: a)
          then show False using gip_idsD [OF ids [OF dist(1)], of k i] li(1) id dist(2) \<open>k \<noteq> i\<close> by simp
        qed
        obtain g'' where g'': "supdrvGipMpEventOnline gh (\<lambda>_ cs. cs) idCpu g' idCpu = Some g''"
          "gip_aCPUs g'' = (gip_aCPUs g')[i := cpu_online gh idCpu (gip_aCPUs g' ! i)]"
          using MpEventOnline_again [OF ok' l' u] s by blast
        have "cpu_online gh idCpu (gip_aCPUs g' ! i) = gip_aCPUs g ! i"
          using li(1) i(2) by (simp add: a g(2) cpu_online_def)
        then have "gip_aCPUs g'' = gip_aCPUs g" using li(1) by (simp add: g''(2) a)
        with g''(1) show ?thesis by blast
      qed
      have off: "supdrvGipMpEventOffline gh g idCpu = Some g' \<and>
          g' = g\<lparr>gip_OnlineCpuSet := gip_OnlineCpuSet gip - {nat ?s},
            gip_aCPUs := (gip_aCPUs g)[i := (gip_aCPUs g ! i)\<lparr>cpu_enmState := SUPGIPCPUSTATE_OFFLINE\<rparr>]\<rparr> \<and>
          (gip_ids gip \<and> idCpu \<noteq> NIL_RTCPUID \<longrightarrow>
             (\<exists>g''. supdrvGipMpEventOnline gh (\<lambda>_ cs. cs) idCpu g' idCpu = Some g'' \<and> gip_aCPUs g'' = gip_aCPUs g))"
        using g' again by (simp add: g'_def)
      show ?thesis unfolding g(1) option.case gip_entry_for_def [symmetric]
        using ok s i ids g(2,6) ix off by blast
    qed
  qed
qed



end
