(* ===== verification/SupGipTime.thy ===== *)
theory SupGipTime
  imports SupGip
begin

text \<open>
  The clock of the GIP: the updates the timer makes (SUPDrv.c) as sequences of stores, and the
  reader \<open>rtTimeNanoTSInternalRef\<close> (common/time/timesupref.h), which has to cope with updates that
  happen while it reads.
\<close>

named_theorems time_defs \<open>definitions of the clock functions\<close>

subsection \<open>Updating the data of a CPU\<close>

text \<open>The new interval and its slack, from the frequency, the history, the last delta and the head.\<close>

definition gip_new_interval :: "u32 \<Rightarrow> u32 list \<Rightarrow> u32 \<Rightarrow> u32 \<Rightarrow> u32 \<times> u32" where
  "gip_new_interval hz hist delta head =
     (if 1000 \<le> hz then
        let a = drop_bit 2 (hist ! 0 + hist ! 1 + hist ! 2 + hist ! 3);
            b = drop_bit 2 (hist ! 4 + hist ! 5 + hist ! 6 + hist ! 7);
            iv = drop_bit 1 (b + a)
        in (iv, drop_bit 14 iv)
      else if 90 \<le> hz then
        let iv = drop_bit 1 (delta + hist ! unat ((head - 1) AND 7))
        in (iv, drop_bit 7 iv)
      else (delta, drop_bit 6 delta))"

text \<open>
  The entry after each store, in the order of the stores. The loop that resets the history is eight
  stores; where the code does not store there is no step or one that changes nothing. The first part
  takes the time and the delta, the second one calculates the interval and the frequency.
\<close>

definition gip_measure :: "SUPGIPCPU \<Rightarrow> u64 \<Rightarrow> u64 \<Rightarrow> u64 \<Rightarrow> SUPGIPCPU list \<times> u64" where
  [time_defs]: "gip_measure c u64NanoTS u64TSC iTick =
     (let c1 = c\<lparr>cpu_u32PrevUpdateIntervalNS := ucast (u64NanoTS - cpu_u64NanoTS c)\<rparr>;
          c2 = c1\<lparr>cpu_u64NanoTS := u64NanoTS\<rparr>;
          delta0 = u64TSC - cpu_u64TSC c2;
          c3 = c2\<lparr>cpu_u64TSC := u64TSC\<rparr>;
          fOver = (drop_bit 32 delta0 \<noteq> 0);
          delta = (if fOver then ucast (cpu_u32UpdateIntervalTSC c3) else delta0) :: u64;
          c4 = (if fOver then c3\<lparr>cpu_cErrors := cpu_cErrors c3 + 1\<rparr> else c3);
          fReset = ((cpu_u32TransactionId c4 = 5 \<or> cpu_u32TransactionId c4 = 7) \<and> (iTick = 2 \<or> iTick = 3));
          rs = (if fReset
                then map (\<lambda>i. c4\<lparr>cpu_au32TSCHistory := replicate (Suc i) (ucast delta) @ drop (Suc i) (cpu_au32TSCHistory c4)\<rparr>) [0..<8]
                else [])
      in ([c1, c2, c3, c4] @ rs, delta))"

definition gip_compute :: "u32 \<Rightarrow> SUPGIPCPU \<Rightarrow> u32 \<Rightarrow> SUPGIPCPU list" where
  [time_defs]: "gip_compute uUpdateHz c5 delta =
     (let head = (cpu_iTSCHistoryHead c5 + 1) AND 7;
          c6 = c5\<lparr>cpu_iTSCHistoryHead := head\<rparr>;
          c7 = c6\<lparr>cpu_au32TSCHistory := (cpu_au32TSCHistory c6)[unat head := delta]\<rparr>;
          iv = fst (gip_new_interval uUpdateHz (cpu_au32TSCHistory c7) delta head);
          slack = snd (gip_new_interval uUpdateHz (cpu_au32TSCHistory c7) delta head);
          c8 = c7\<lparr>cpu_u32UpdateIntervalTSC := iv + slack\<rparr>;
          c9 = c8\<lparr>cpu_u64CpuHz := ucast iv * ucast uUpdateHz\<rparr>
      in [c6, c7, c8, c9])"

definition supdrvGipDoUpdateCpu :: "u32 \<Rightarrow> SUPGIPCPU \<Rightarrow> u64 \<Rightarrow> u64 \<Rightarrow> u64 \<Rightarrow> SUPGIPCPU list" where
  [time_defs]: "supdrvGipDoUpdateCpu uUpdateHz c u64NanoTS u64TSC iTick =
     (case gip_measure c u64NanoTS u64TSC iTick of (cs, u64TSCDelta) \<Rightarrow>
        cs @ gip_compute uUpdateHz (last cs) (ucast u64TSCDelta))"

definition gip_put :: "SUPGLOBALINFOPAGE \<Rightarrow> nat \<Rightarrow> SUPGIPCPU \<Rightarrow> SUPGLOBALINFOPAGE" where
  "gip_put gip i c = gip\<lparr>gip_aCPUs := (gip_aCPUs gip)[i := c]\<rparr>"

definition cpu_inc_tid :: "SUPGIPCPU \<Rightarrow> SUPGIPCPU" where
  "cpu_inc_tid c = c\<lparr>cpu_u32TransactionId := cpu_u32TransactionId c + 1\<rparr>"

definition cpu_inc_errors :: "SUPGIPCPU \<Rightarrow> SUPGIPCPU" where
  "cpu_inc_errors c = c\<lparr>cpu_cErrors := cpu_cErrors c + 1\<rparr>"

text \<open>The new frequency every 2048th time; the division traps when no time has passed.\<close>

definition gip_recalc :: "SUPGLOBALINFOPAGE \<Rightarrow> u32 \<Rightarrow> u64 \<Rightarrow> SUPGLOBALINFOPAGE list option" where
  [time_defs]: "gip_recalc gip tid u64NanoTS =
     (if tid AND (GIP_UPDATEHZ_RECALC_FREQ * 2 - 2) \<noteq> 0 then Some []
      else if gip_u64NanoTSLastUpdateHz gip = 0 then Some [gip\<lparr>gip_u64NanoTSLastUpdateHz := u64NanoTS\<rparr>]
      else
        let u64Delta = u64NanoTS - gip_u64NanoTSLastUpdateHz gip
        in if u64Delta = 0 then None
           else
             let hz = ucast ((1000000000 * GIP_UPDATEHZ_RECALC_FREQ) div u64Delta) :: u32;
                 g1 = gip\<lparr>gip_u32UpdateHz := hz\<rparr>;
                 g2 = g1\<lparr>gip_u32UpdateIntervalNS := 1000000000 div hz\<rparr>
             in if hz \<le> 2000 \<and> 30 \<le> hz
                then Some [g1, g2, g2\<lparr>gip_u64NanoTSLastUpdateHz := u64NanoTS\<rparr>]
                else Some [gip\<lparr>gip_u64NanoTSLastUpdateHz := u64NanoTS\<rparr>])"

text \<open>
  One transaction on entry \<open>i\<close>: the page after each store. \<open>fRecalc\<close> tells \<open>supdrvGipUpdate\<close> from
  \<open>supdrvGipUpdatePerCpu\<close>.
\<close>

definition gip_transaction ::
  "bool \<Rightarrow> SUPGLOBALINFOPAGE \<Rightarrow> nat \<Rightarrow> u64 \<Rightarrow> u64 \<Rightarrow> u64 \<Rightarrow> SUPGLOBALINFOPAGE list option" where
  [time_defs]: "gip_transaction fRecalc gip i u64NanoTS u64TSC iTick =
     (let c1 = cpu_inc_tid (gip_aCPUs gip ! i);
          g1 = gip_put gip i c1
      in if cpu_u32TransactionId c1 AND 1 = 0
         then Some [g1, gip_put gip i (cpu_inc_tid c1), gip_put gip i (cpu_inc_errors (cpu_inc_tid c1))]
         else
           (case (if fRecalc then gip_recalc g1 (cpu_u32TransactionId c1) u64NanoTS else Some []) of
              None \<Rightarrow> None
            | Some gs \<Rightarrow>
                let g2 = last (g1 # gs);
                    cs = supdrvGipDoUpdateCpu (gip_u32UpdateHz g2) c1 u64NanoTS u64TSC iTick
                in Some (g1 # gs @ map (gip_put g2 i) cs @ [gip_put g2 i (cpu_inc_tid (last cs))])))"

definition supdrvGipUpdate ::
  "giphost \<Rightarrow> u32 \<Rightarrow> SUPGLOBALINFOPAGE \<Rightarrow> u64 \<Rightarrow> u64 \<Rightarrow> u32 \<Rightarrow> u64 \<Rightarrow> SUPGLOBALINFOPAGE list option" where
  [time_defs]: "supdrvGipUpdate gh self gip u64NanoTS u64TSC idCpu iTick =
     (if gip_u32Mode gip \<noteq> SUPGIPMODE_ASYNC_TSC then
        if gip_aCPUs gip = [] then None else gip_transaction True gip 0 u64NanoTS u64TSC iTick
      else if \<not> unat (gh_ApicId gh self) < length (gip_aiCpuFromApicId gip) then None
      else
        let iCpu = unat (gip_aiCpuFromApicId gip ! unat (gh_ApicId gh self))
        in if unat (gip_cCpus gip) \<le> iCpu then Some []
           else if \<not> iCpu < length (gip_aCPUs gip) then None
           else if cpu_idCpu (gip_aCPUs gip ! iCpu) \<noteq> idCpu then Some []
           else gip_transaction True gip iCpu u64NanoTS u64TSC iTick)"

definition supdrvGipUpdatePerCpu ::
  "giphost \<Rightarrow> (nat \<Rightarrow> SUPGIPCPU list \<Rightarrow> SUPGIPCPU list) \<Rightarrow> u32 \<Rightarrow> SUPGLOBALINFOPAGE \<Rightarrow> u64 \<Rightarrow> u64 \<Rightarrow> u32 \<Rightarrow> u8 \<Rightarrow> u64 \<Rightarrow>
   SUPGLOBALINFOPAGE list option" where
  [time_defs]: "supdrvGipUpdatePerCpu gh env self gip u64NanoTS u64TSC idCpu idApic iTick =
     Option.bind
       (if iTick = 1 then
          Option.bind (supdrvGipCpuIndexFromCpuId env gip idCpu) (\<lambda>(i, g).
            if \<not> i < length (gip_aCPUs g) then None
            else if cpu_enmState (gip_aCPUs g ! i) = SUPGIPCPUSTATE_OFFLINE
            then map_option (\<lambda>g2. [g, g2]) (supdrvGipMpEventOnline gh env self g idCpu)
            else Some [g])
        else Some [])
       (\<lambda>gs.
          let gip1 = last (gip # gs)
          in if \<not> unat idApic < length (gip_aiCpuFromApicId gip1) then None
             else
               let iCpu = unat (gip_aiCpuFromApicId gip1 ! unat idApic)
               in if \<not> iCpu < unat (gip_cCpus gip1) then Some gs
                  else if \<not> iCpu < length (gip_aCPUs gip1) then None
                  else if cpu_idCpu (gip_aCPUs gip1 ! iCpu) = idCpu
                  then map_option (\<lambda>ts. gs @ ts) (gip_transaction False gip1 iCpu u64NanoTS u64TSC iTick)
                  else Some gs)"

text \<open>The two timer callbacks; without a page they would read through a null pointer.\<close>

definition supdrvGipSyncTimer :: "giphost \<Rightarrow> u32 \<Rightarrow> SUPDRVDEVEXT \<Rightarrow> u64 \<Rightarrow> SUPDRVDEVEXT option" where
  [time_defs]: "supdrvGipSyncTimer gh self dx iTick =
     (case dx_pGip dx of
        None \<Rightarrow> None
      | Some gip \<Rightarrow>
          map_option (\<lambda>gs. dx\<lparr>dx_pGip := Some (last (gip # gs))\<rparr>)
            (supdrvGipUpdate gh self gip (gh_NanoTS gh) (gh_TSC gh self) NIL_RTCPUID iTick))"

definition supdrvGipAsyncTimer ::
  "giphost \<Rightarrow> (nat \<Rightarrow> SUPGIPCPU list \<Rightarrow> SUPGIPCPU list) \<Rightarrow> u32 \<Rightarrow> SUPDRVDEVEXT \<Rightarrow> u64 \<Rightarrow> SUPDRVDEVEXT option" where
  [time_defs]: "supdrvGipAsyncTimer gh env self dx iTick =
     (case dx_pGip dx of
        None \<Rightarrow> None
      | Some gip \<Rightarrow>
          map_option (\<lambda>gs. dx\<lparr>dx_pGip := Some (last (gip # gs))\<rparr>)
            (if dx_idGipMaster dx = self
             then supdrvGipUpdate gh self gip (gh_NanoTS gh) (gh_TSC gh self) self iTick
             else supdrvGipUpdatePerCpu gh env self gip (gh_NanoTS gh) (gh_TSC gh self) self (gh_ApicId gh self) iTick))"

subsection \<open>Reading the clock\<close>

text \<open>
  One round of the loop of \<open>rtTimeNanoTSInternalRef\<close> with transaction ids: the page as it is at each
  of the reads, in the order of the code. \<open>fMoved\<close> says that the thread changed the CPU meanwhile
  (asynchronous mode); \<open>None\<close> means that the round is repeated.
\<close>

definition nano_read ::
  "nat \<Rightarrow> bool \<Rightarrow> SUPGLOBALINFOPAGE \<Rightarrow> SUPGLOBALINFOPAGE \<Rightarrow> SUPGLOBALINFOPAGE \<Rightarrow> SUPGLOBALINFOPAGE \<Rightarrow> SUPGLOBALINFOPAGE \<Rightarrow>
   SUPGLOBALINFOPAGE \<Rightarrow> (u32 \<times> u64 \<times> u64 \<times> u32) option" where
  [time_defs]: "nano_read i fMoved g0 g1 g2 g3 g4 g5 =
     (let u32TransactionId = cpu_u32TransactionId (gip_aCPUs g0 ! i);
          u32UpdateIntervalTSC = cpu_u32UpdateIntervalTSC (gip_aCPUs g1 ! i);
          u64NanoTS = cpu_u64NanoTS (gip_aCPUs g2 ! i);
          u64TSC = cpu_u64TSC (gip_aCPUs g3 ! i);
          u32NanoTSFactor0 = gip_u32UpdateIntervalNS g4
      in if fMoved then None
         else if cpu_u32TransactionId (gip_aCPUs g5 ! i) \<noteq> u32TransactionId \<or> u32TransactionId AND 1 \<noteq> 0 then None
         else Some (u32UpdateIntervalTSC, u64NanoTS, u64TSC, u32NanoTSFactor0))"

text \<open>
  What happens to the time that was calculated: it is later than the previous one, it is moved
  one nanosecond past it, the clock resumes, or it is bad.
\<close>

datatype nano_case = NanoLater | NanoStep | NanoResume | NanoBad

definition nano_case_of :: "u64 \<Rightarrow> u64 \<Rightarrow> u32 \<Rightarrow> nano_case" where
  "nano_case_of u64DeltaPrev u64PrevNanoTS u32NanoTSFactor0 =
     (if 0 < u64DeltaPrev \<and> u64DeltaPrev < 86000000000000 then NanoLater
      else if sint u64DeltaPrev \<le> 0 \<and> 0 \<le> sint u64DeltaPrev + uint (u32NanoTSFactor0 * 2) then NanoStep
      else if u64PrevNanoTS = 0 then NanoResume
      else NanoBad)"

text \<open>
  The calculation after the loop: whether the interval has expired, what case it is and the time.
  \<open>None\<close> is the divide error of the 64 by 32 bit division.
\<close>

definition nano_calc :: "u32 \<Rightarrow> u64 \<Rightarrow> u64 \<Rightarrow> u32 \<Rightarrow> u64 \<Rightarrow> u64 \<Rightarrow> (bool \<times> nano_case \<times> u64) option" where
  [time_defs]: "nano_calc u32UpdateIntervalTSC u64NanoTS0 u64TSC u32NanoTSFactor0 uNow u64PrevNanoTS =
     (let d0 = uNow - u64TSC;
          fExpired = (ucast u32UpdateIntervalTSC < d0);
          d1 = (if fExpired then ucast u32UpdateIntervalTSC else d0);
          d2 = ucast (ucast d1 :: u32) * ucast u32NanoTSFactor0 :: u64
      in if u32UpdateIntervalTSC = 0 \<or> \<not> d2 div ucast u32UpdateIntervalTSC < 0x100000000 then None
         else
           let u64NanoTS = u64NanoTS0 + d2 div ucast u32UpdateIntervalTSC;
               k = nano_case_of (u64NanoTS - u64PrevNanoTS) u64PrevNanoTS u32NanoTSFactor0
           in Some (fExpired, k, if k = NanoStep then u64PrevNanoTS + 1 else u64NanoTS))"

text \<open>
  Publishing the time in \<open>*pu64Prev\<close>: \<open>prev\<close> is the cell, \<open>env n\<close> what other threads do to it before
  the read and before the exchange of a try. First one exchange against the value read at the start,
  then at most 25 tries.
\<close>

primrec nano_tries :: "(nat \<Rightarrow> u64 \<Rightarrow> u64) \<Rightarrow> nat \<Rightarrow> u64 \<Rightarrow> u64 \<Rightarrow> u64" where
  "nano_tries env 0 t prev = prev"
| "nano_tries env (Suc n) t prev =
     (let p = env (2 * n + 1) prev
      in if t \<le> p then p
         else let q = env (2 * n) p
              in if q = p then t else nano_tries env n t q)"

definition nano_publish :: "(nat \<Rightarrow> u64 \<Rightarrow> u64) \<Rightarrow> u64 \<Rightarrow> u64 \<Rightarrow> u64 \<Rightarrow> u64" where
  [time_defs]: "nano_publish env u64PrevNanoTS u64NanoTS prev =
     (if prev = u64PrevNanoTS then u64NanoTS else nano_tries env 25 u64NanoTS prev)"

end
