(* ===== verification/SupGipClock.thy ===== *)
theory SupGipClock
  imports SupGipTime SupGipCpu
begin

text \<open>
  The properties of the clock: a reader never mixes data of two updates, the time it calculates is
  bounded by the update interval and does not go backwards, and the updates keep the interval and
  the frequency within the range of the measured deltas.
\<close>

subsection \<open>Stores of the timer as seen by a reader of one entry\<close>

definition gip_tid :: "nat \<Rightarrow> SUPGLOBALINFOPAGE \<Rightarrow> u32" where
  "gip_tid j g = cpu_u32TransactionId (gip_aCPUs g ! j)"

text \<open>
  The data of an entry. The factor is a field of the page, which belongs to the transactions of
  entry 0 in synchronous mode and to none of entry \<open>j\<close> otherwise.
\<close>

definition gip_data :: "nat \<Rightarrow> SUPGLOBALINFOPAGE \<Rightarrow> u32 \<times> u64 \<times> u64 \<times> u32" where
  "gip_data j g = (let c = gip_aCPUs g ! j
     in (cpu_u32UpdateIntervalTSC c, cpu_u64NanoTS c, cpu_u64TSC c,
         if gip_u32Mode g = SUPGIPMODE_ASYNC_TSC then 0 else gip_u32UpdateIntervalNS g))"

text \<open>A store changes the data only while the transaction id is odd, and the id only by one.\<close>

definition gip_wstep :: "nat \<Rightarrow> SUPGLOBALINFOPAGE \<Rightarrow> SUPGLOBALINFOPAGE \<Rightarrow> bool" where
  "gip_wstep j g g' \<longleftrightarrow>
     (gip_tid j g' = gip_tid j g \<and> (odd (gip_tid j g) \<or> gip_data j g' = gip_data j g)) \<or>
     (gip_tid j g' = gip_tid j g + 1 \<and> gip_data j g' = gip_data j g)"

text \<open>Stores on one entry while its id is odd.\<close>

lemma measure_tid: "c' \<in> set (fst (gip_measure c ns tsc tick)) \<Longrightarrow> cpu_u32TransactionId c' = cpu_u32TransactionId c"
  by (auto simp: gip_measure_def Let_def split: if_splits)

lemma measure_nonempty: "fst (gip_measure c ns tsc tick) \<noteq> []"
  by (simp add: gip_measure_def Let_def)

lemma compute_tid: "c' \<in> set (gip_compute hz c d) \<Longrightarrow> cpu_u32TransactionId c' = cpu_u32TransactionId c"
  by (auto simp: gip_compute_def Let_def)

lemma DoUpdate_tid:
  assumes "c' \<in> set (supdrvGipDoUpdateCpu hz c ns tsc tick)"
  shows "cpu_u32TransactionId c' = cpu_u32TransactionId c"
proof -
  let ?m = "gip_measure c ns tsc tick"
  have "cpu_u32TransactionId (last (fst ?m)) = cpu_u32TransactionId c"
    by (rule measure_tid [OF last_in_set [OF measure_nonempty]])
  then show ?thesis using assms measure_tid compute_tid
    by (auto simp: supdrvGipDoUpdateCpu_def case_prod_unfold)
qed

lemma DoUpdate_nonempty: "supdrvGipDoUpdateCpu hz c ns tsc tick \<noteq> []"
  by (simp add: supdrvGipDoUpdateCpu_def gip_compute_def Let_def case_prod_unfold)

lemma successively_snoc: "successively P xs \<Longrightarrow> xs \<noteq> [] \<Longrightarrow> P (last xs) y \<Longrightarrow> successively P (xs @ [y])"
  by (simp add: successively_append_iff)

lemma successively_join:
  "successively P (g # hs) \<Longrightarrow> successively P (last (g # hs) # ts) \<Longrightarrow> successively P (g # hs @ ts)"
  by (induction hs arbitrary: g) auto

lemma successively_all:
  "(\<And>x y. x \<in> set xs \<Longrightarrow> y \<in> set xs \<Longrightarrow> P x y) \<Longrightarrow> successively P xs"
  by (induction xs rule: induct_list012) auto

lemma gip_put_sel [simp]:
  "i < length (gip_aCPUs g) \<Longrightarrow> gip_aCPUs (gip_put g i c) ! i = c"
  "j \<noteq> i \<Longrightarrow> gip_aCPUs (gip_put g i c) ! j = gip_aCPUs g ! j"
  "length (gip_aCPUs (gip_put g i c)) = length (gip_aCPUs g)"
  "gip_u32Mode (gip_put g i c) = gip_u32Mode g" "gip_u32UpdateIntervalNS (gip_put g i c) = gip_u32UpdateIntervalNS g"
  "gip_ok (gip_put g i c) = gip_ok g" "gip_u32UpdateHz (gip_put g i c) = gip_u32UpdateHz g"
  by (simp_all add: gip_put_def gip_ok_def)

lemma recalc_ok:
  assumes "gip_recalc g t ns = Some gs" "g' \<in> set gs"
  shows "gip_aCPUs g' = gip_aCPUs g" "gip_u32Mode g' = gip_u32Mode g" "gip_ok g' = gip_ok g"
  using assms by (auto simp: gip_recalc_def Let_def gip_ok_def split: if_splits)

lemma odd_iff_and1: "odd (w :: u32) \<longleftrightarrow> w AND 1 \<noteq> 0"
  by (simp add: and_one_eq odd_iff_mod_2_eq_one)

text \<open>A sequence of such stores that keeps the shape and the mode of the page.\<close>

definition gip_stores :: "nat \<Rightarrow> SUPGLOBALINFOPAGE \<Rightarrow> SUPGLOBALINFOPAGE list \<Rightarrow> bool" where
  "gip_stores j g gs \<longleftrightarrow> successively (gip_wstep j) (g # gs) \<and> gip_ok (last (g # gs)) = gip_ok g \<and>
     (\<forall>x\<in>set gs. gip_u32Mode x = gip_u32Mode g) \<and> length (gip_aCPUs (last (g # gs))) = length (gip_aCPUs g)"

lemma gip_stores_Nil [simp]: "gip_stores j g []"
  by (simp add: gip_stores_def)

lemma gip_stores_last: "gip_stores j g gs \<Longrightarrow> gip_u32Mode (last (g # gs)) = gip_u32Mode g"
  by (cases gs rule: rev_cases) (auto simp: gip_stores_def)

lemma gip_stores_join:
  assumes "gip_stores j g hs" "gip_stores j (last (g # hs)) ts"
  shows "gip_stores j g (hs @ ts)"
proof -
  have l: "last (g # hs @ ts) = last (last (g # hs) # ts)" by (cases ts) auto
  have "successively (gip_wstep j) (g # hs @ ts)"
    by (rule successively_join) (use assms in \<open>simp_all only: gip_stores_def\<close>)
  then show ?thesis using assms gip_stores_last [OF assms(1)] unfolding gip_stores_def l
    by (auto simp del: last.simps)
qed

lemma transaction_steps:
  assumes "gip_transaction fRecalc g i ns tsc tick = Some gs" "i < length (gip_aCPUs g)"
    "gip_u32Mode g = SUPGIPMODE_ASYNC_TSC \<or> j = i"
  shows "gip_stores j g gs"
proof -
  let ?c1 = "cpu_inc_tid (gip_aCPUs g ! i)"
  let ?g1 = "gip_put g i ?c1"
  have tid1: "cpu_u32TransactionId ?c1 = cpu_u32TransactionId (gip_aCPUs g ! i) + 1" by (simp add: cpu_inc_tid_def)
  have s1: "gip_wstep j g ?g1"
    using assms(2) by (cases "j = i") (auto simp: gip_wstep_def gip_tid_def gip_data_def Let_def cpu_inc_tid_def)
  show ?thesis
  proof (cases "cpu_u32TransactionId ?c1 AND 1 = 0")
    case True
    then have gs: "gs = [?g1, gip_put g i (cpu_inc_tid ?c1), gip_put g i (cpu_inc_errors (cpu_inc_tid ?c1))]"
      using assms(1) by (simp add: gip_transaction_def Let_def)
    show ?thesis
      using s1 assms(2) unfolding gs gip_stores_def
      by (cases "j = i") (auto simp: gip_wstep_def gip_tid_def gip_data_def Let_def cpu_inc_tid_def cpu_inc_errors_def)
  next
    case False
    then have od: "odd (cpu_u32TransactionId ?c1)" by (simp add: odd_iff_and1)
    obtain rs where rs: "(if fRecalc then gip_recalc ?g1 (cpu_u32TransactionId ?c1) ns else Some []) = Some rs"
      using assms(1) False by (auto simp: gip_transaction_def Let_def split: option.splits)
    let ?g2 = "last (?g1 # rs)"
    let ?cs = "supdrvGipDoUpdateCpu (gip_u32UpdateHz ?g2) ?c1 ns tsc tick"
    let ?m = "?g1 # rs @ map (gip_put ?g2 i) ?cs"
    have gs: "gs = ?m @ [gip_put ?g2 i (cpu_inc_tid (last ?cs))]"
      using assms(1) False rs by (simp add: gip_transaction_def Let_def)
    have r: "gip_aCPUs x = gip_aCPUs ?g1 \<and> gip_u32Mode x = gip_u32Mode ?g1 \<and> gip_ok x = gip_ok ?g1" if "x \<in> set (?g1 # rs)" for x
    proof (cases "x \<in> set rs")
      case True
      then have "gip_recalc ?g1 (cpu_u32TransactionId ?c1) ns = Some rs" using rs by (auto split: if_splits)
      from recalc_ok [OF this True] show ?thesis by simp
    next
      case False
      then show ?thesis using that by simp
    qed
    have r2: "gip_aCPUs ?g2 = gip_aCPUs ?g1" "gip_u32Mode ?g2 = gip_u32Mode ?g1" "gip_ok ?g2 = gip_ok ?g1"
      using r [OF last_in_set [OF list.distinct(2)]] by blast+
    have len: "i < length (gip_aCPUs ?g2)" using assms(2) r2(1) by simp
    have all: "gip_u32Mode x = gip_u32Mode g \<and>
        (if j = i then gip_tid j x = cpu_u32TransactionId ?c1 else gip_aCPUs x ! j = gip_aCPUs g ! j)" if "x \<in> set ?m" for x
    proof -
      from that consider "x \<in> set (?g1 # rs)" | c where "c \<in> set ?cs" "x = gip_put ?g2 i c" by auto
      then show ?thesis
      proof cases
        case 1
        then show ?thesis using r [OF 1] assms(2) by (auto simp: gip_tid_def)
      next
        case 2
        then show ?thesis using len r2 DoUpdate_tid [OF 2(1)] assms(2) by (auto simp: gip_tid_def)
      qed
    qed
    have steps: "successively (gip_wstep j) ?m"
    proof (rule successively_all)
      fix x y assume xy: "x \<in> set ?m" "y \<in> set ?m"
      show "gip_wstep j x y"
        using all [OF xy(1)] all [OF xy(2)] od assms(3)
        by (cases "j = i") (auto simp: gip_wstep_def gip_tid_def gip_data_def Let_def)
    qed
    have ne: "map (gip_put ?g2 i) ?cs \<noteq> []" using DoUpdate_nonempty by simp
    have lm: "last ?m = gip_put ?g2 i (last ?cs)" using ne DoUpdate_nonempty by (simp add: last_map)
    have "gip_wstep j (last ?m) (gip_put ?g2 i (cpu_inc_tid (last ?cs)))"
      unfolding lm using len by (cases "j = i") (auto simp: gip_wstep_def gip_tid_def gip_data_def Let_def cpu_inc_tid_def)
    then have "successively (gip_wstep j) gs"
      unfolding gs by (rule successively_snoc [OF steps list.distinct(2) [of ?g1]])
    then have "successively (gip_wstep j) (g # gs)"
      using s1 unfolding gs append_Cons by (simp only: successively.simps(3))
    moreover have "last (g # gs) = gip_put ?g2 i (cpu_inc_tid (last ?cs))" unfolding gs by simp
    moreover have "\<forall>x\<in>set gs. gip_u32Mode x = gip_u32Mode g"
    proof
      fix x assume "x \<in> set gs"
      then consider "x \<in> set ?m" | "x = gip_put ?g2 i (cpu_inc_tid (last ?cs))" unfolding gs by auto
      then show "gip_u32Mode x = gip_u32Mode g" by cases (use all r2(2) in simp_all)
    qed
    ultimately show ?thesis unfolding gip_stores_def using r2 by simp
  qed
qed


subsection \<open>Updates of any CPU\<close>

lemma update_steps:
  assumes "supdrvGipUpdate gh self g ns tsc idCpu tick = Some gs" "gip_u32Mode g = SUPGIPMODE_ASYNC_TSC \<or> j = 0"
  shows "gip_stores j g gs"
proof (cases "gip_u32Mode g = SUPGIPMODE_ASYNC_TSC")
  case False
  then have j: "j = 0" using assms(2) by simp
  have "gip_aCPUs g \<noteq> [] \<and> gip_transaction True g 0 ns tsc tick = Some gs"
    using assms(1) unfolding supdrvGipUpdate_def if_P [OF False] by (simp split: if_splits)
  then show ?thesis using transaction_steps [of True g 0 ns tsc tick gs j] j by simp
next
  case True
  let ?i = "unat (gip_aiCpuFromApicId g ! unat (gh_ApicId gh self))"
  consider "gs = []" | "gip_transaction True g ?i ns tsc tick = Some gs" "?i < length (gip_aCPUs g)"
  proof -
    have n: "\<not> gip_u32Mode g \<noteq> SUPGIPMODE_ASYNC_TSC" using True by simp
    have "gs = [] \<or> (gip_transaction True g ?i ns tsc tick = Some gs \<and> ?i < length (gip_aCPUs g))"
      using assms(1) unfolding supdrvGipUpdate_def Let_def if_not_P [OF n] by (simp split: if_split_asm)
    then show thesis using that by blast
  qed
  then show ?thesis
  proof cases
    case 2
    then show ?thesis using transaction_steps [OF 2, of j] True by simp
  qed simp
qed

lemma same_clock_stores:
  assumes "gip_same_clock g g'" "j < length (gip_aCPUs g)" "gip_ok g' = gip_ok g"
  shows "gip_stores j g [g']"
proof -
  have m: "map cpu_clock (gip_aCPUs g') = map cpu_clock (gip_aCPUs g)" using assms(1) by (simp add: gip_same_clock_def)
  then have l: "length (gip_aCPUs g') = length (gip_aCPUs g)" by (metis length_map)
  have "cpu_clock (gip_aCPUs g' ! j) = cpu_clock (gip_aCPUs g ! j)" using m l assms(2) by (metis nth_map)
  then have "gip_wstep j g g'"
    using assms(1) by (simp add: gip_wstep_def gip_tid_def gip_data_def gip_same_clock_def cpu_clock_def Let_def)
  then show ?thesis using assms(1,3) l by (simp add: gip_stores_def gip_same_clock_def)
qed

lemma update_cpu_steps:
  assumes "supdrvGipUpdatePerCpu gh (\<lambda>_ cs. cs) idCpu g ns tsc idCpu idApic tick = Some gs" "gip_ok g"
    "gip_u32Mode g = SUPGIPMODE_ASYNC_TSC" "j < length (gip_aCPUs g)"
  shows "gip_stores j g gs"
proof -
  define first where "first = (if tick = 1 then
          Option.bind (supdrvGipCpuIndexFromCpuId (\<lambda>_ cs. cs) g idCpu) (\<lambda>(i, g).
            if \<not> i < length (gip_aCPUs g) then None
            else if cpu_enmState (gip_aCPUs g ! i) = SUPGIPCPUSTATE_OFFLINE
            then map_option (\<lambda>g2. [g, g2]) (supdrvGipMpEventOnline gh (\<lambda>_ cs. cs) idCpu g idCpu)
            else Some [g])
        else Some [])"
  obtain hs where hs: "first = Some hs" using assms(1) unfolding supdrvGipUpdatePerCpu_def first_def [symmetric] by (cases first) auto
  let ?g1 = "last (g # hs)"
  have h: "gip_stores j g hs"
  proof (cases "tick = 1")
    case False
    then show ?thesis using hs by (simp add: first_def)
  next
    case True
    then obtain i ga where c: "supdrvGipCpuIndexFromCpuId (\<lambda>_ cs. cs) g idCpu = Some (i, ga)"
      using hs by (auto simp: first_def bind_eq_Some_conv)
    note ca = CpuIndex_clock [OF assms(2) c]
    have wa: "gip_stores j g [ga]" using same_clock_stores [OF ca(3) assms(4)] ca(2) assms(2) by simp
    then have la: "j < length (gip_aCPUs ga)" using assms(4) by (simp add: gip_stores_def)
    consider "hs = [ga]" | gb where "hs = [ga] @ [gb]" "supdrvGipMpEventOnline gh (\<lambda>_ cs. cs) idCpu ga idCpu = Some gb"
      using hs c True by (auto simp: first_def split: if_splits)
    then show ?thesis
    proof cases
      case 2
      note cb = MpEventOnline_clock [OF ca(2) 2(2)]
      have "gip_stores j ga [gb]" using same_clock_stores [OF cb(2) la] cb(1) ca(2) by simp
      then show ?thesis unfolding 2(1) by (intro gip_stores_join [OF wa]) simp
    qed (use wa in simp)
  qed
  let ?i = "unat (gip_aiCpuFromApicId ?g1 ! unat idApic)"
  consider "gs = hs" | ts where "gs = hs @ ts" "gip_transaction False ?g1 ?i ns tsc tick = Some ts" "?i < length (gip_aCPUs ?g1)"
    using assms(1) hs unfolding supdrvGipUpdatePerCpu_def first_def [symmetric]
    by (auto simp: Let_def simp del: last.simps split: if_splits)
  then show ?thesis
  proof cases
    case 2
    have m: "gip_u32Mode ?g1 = SUPGIPMODE_ASYNC_TSC \<or> j = ?i" using gip_stores_last [OF h] assms(3) by simp
    show ?thesis unfolding 2(1) by (rule gip_stores_join [OF h transaction_steps [OF 2(2,3) m]])
  qed (use h in simp)
qed

subsection \<open>Histories\<close>

text \<open>The timer ticks of the CPUs: on the master, and on the other CPUs in asynchronous mode.\<close>

datatype gip_tick =
    TickMaster giphost u32 u64 u64 u32 u64
  | TickCpu giphost u64 u64 u32 u8 u64

fun gip_tick_do :: "SUPGLOBALINFOPAGE \<Rightarrow> gip_tick \<Rightarrow> SUPGLOBALINFOPAGE list option" where
  "gip_tick_do g (TickMaster gh self ns tsc idCpu tick) = supdrvGipUpdate gh self g ns tsc idCpu tick"
| "gip_tick_do g (TickCpu gh ns tsc idCpu idApic tick) =
     (if gip_u32Mode g = SUPGIPMODE_ASYNC_TSC
      then supdrvGipUpdatePerCpu gh (\<lambda>_ cs. cs) idCpu g ns tsc idCpu idApic tick else Some [])"

primrec gip_history :: "SUPGLOBALINFOPAGE \<Rightarrow> gip_tick list \<Rightarrow> SUPGLOBALINFOPAGE list option" where
  "gip_history g [] = Some [g]"
| "gip_history g (t # ts) =
     Option.bind (gip_tick_do g t) (\<lambda>gs. map_option (\<lambda>rs. g # gs @ tl rs) (gip_history (last (g # gs)) ts))"

lemma gip_tick_steps:
  assumes "gip_tick_do g t = Some gs" "gip_ok g" "gip_u32Mode g = SUPGIPMODE_ASYNC_TSC \<or> j = 0" "j < length (gip_aCPUs g)"
  shows "gip_stores j g gs"
proof (cases t)
  case (TickMaster gh self ns tsc idCpu tick)
  then show ?thesis using update_steps [OF _ assms(3)] assms(1) by simp
next
  case (TickCpu gh ns tsc idCpu idApic tick)
  then show ?thesis using update_cpu_steps [OF _ assms(2) _ assms(4)] assms(1)
    by (cases "gip_u32Mode g = SUPGIPMODE_ASYNC_TSC") auto
qed

lemma gip_history_steps:
  assumes "gip_history g ts = Some gs" "gip_ok g" "gip_u32Mode g = SUPGIPMODE_ASYNC_TSC \<or> j = 0" "j < length (gip_aCPUs g)"
  shows "\<exists>rs. gs = g # rs \<and> gip_stores j g rs"
  using assms
proof (induction ts arbitrary: g gs)
  case Nil
  then show ?case by auto
next
  case (Cons t ts)
  then obtain hs rs where h: "gip_tick_do g t = Some hs" "gip_history (last (g # hs)) ts = Some rs" "gs = g # hs @ tl rs"
    by (auto simp: bind_eq_Some_conv simp del: last.simps)
  note st = gip_tick_steps [OF h(1) Cons.prems(2-4)]
  have "gip_ok (last (g # hs))" "gip_u32Mode (last (g # hs)) = SUPGIPMODE_ASYNC_TSC \<or> j = 0"
    "j < length (gip_aCPUs (last (g # hs)))"
    using st gip_stores_last [OF st] Cons.prems(2-4) unfolding gip_stores_def by (simp_all del: last.simps)
  from Cons.IH [OF h(2) this] obtain rs' where rs: "rs = last (g # hs) # rs'" "gip_stores j (last (g # hs)) rs'" by blast
  show ?case using gip_stores_join [OF st rs(2)] h(3) rs(1) by (intro exI [of _ "hs @ rs'"]) simp
qed


subsection \<open>A reader between the stores\<close>

text \<open>Along a history the id grows by a number of steps, and while it is even and does not grow nothing changes.\<close>

lemma gip_count:
  assumes "\<forall>i. t \<le> i \<longrightarrow> i < k \<longrightarrow> gip_wstep j (gs ! i) (gs ! Suc i)" "t \<le> k"
  shows "\<exists>n\<le>k - t. gip_tid j (gs ! k) = gip_tid j (gs ! t) + of_nat n \<and>
    (n = 0 \<longrightarrow> even (gip_tid j (gs ! t)) \<longrightarrow>
       (\<forall>i. t \<le> i \<longrightarrow> i \<le> k \<longrightarrow> gip_data j (gs ! i) = gip_data j (gs ! t)))"
  using assms(2,1)
proof (induction k rule: dec_induct)
  case base
  then show ?case by auto
next
  case (step k)
  have pre: "\<forall>i. t \<le> i \<longrightarrow> i < k \<longrightarrow> gip_wstep j (gs ! i) (gs ! Suc i)" using step.prems by simp
  from step.IH [OF pre] obtain n where n: "n \<le> k - t" "gip_tid j (gs ! k) = gip_tid j (gs ! t) + of_nat n"
    "n = 0 \<longrightarrow> even (gip_tid j (gs ! t)) \<longrightarrow> (\<forall>i. t \<le> i \<longrightarrow> i \<le> k \<longrightarrow> gip_data j (gs ! i) = gip_data j (gs ! t))"
    by blast
  have w: "gip_wstep j (gs ! k) (gs ! Suc k)" using step.prems step.hyps by simp
  show ?case
  proof (cases "gip_tid j (gs ! Suc k) = gip_tid j (gs ! k) + 1")
    case True
    then have "gip_tid j (gs ! Suc k) = gip_tid j (gs ! t) + of_nat (Suc n)" using n(2) by simp
    moreover have "Suc n \<le> Suc k - t" using n(1) step.hyps by simp
    ultimately show ?thesis by blast
  next
    case False
    then have e: "gip_tid j (gs ! Suc k) = gip_tid j (gs ! k)"
      "odd (gip_tid j (gs ! k)) \<or> gip_data j (gs ! Suc k) = gip_data j (gs ! k)"
      using w by (auto simp: gip_wstep_def)
    have same: "gip_data j (gs ! i) = gip_data j (gs ! t)" if z: "n = 0" "even (gip_tid j (gs ! t))" "t \<le> i" "i \<le> Suc k" for i
    proof (cases "i = Suc k")
      case True
      have "even (gip_tid j (gs ! k))" using n(2) z(1,2) by simp
      then have "gip_data j (gs ! Suc k) = gip_data j (gs ! k)" using e(2) by blast
      also have "\<dots> = gip_data j (gs ! t)" using n(3) [rule_format, OF z(1,2) step.hyps(1) order_refl] .
      finally show ?thesis using True by simp
    next
      case False
      then have "i \<le> k" using z(4) by simp
      then show ?thesis using n(3) [rule_format, OF z(1,2,3)] by blast
    qed
    have "n \<le> Suc k - t" using n(1) by simp
    moreover have "gip_tid j (gs ! Suc k) = gip_tid j (gs ! t) + of_nat n" unfolding e(1) by (rule n(2))
    ultimately show ?thesis using same by blast
  qed
qed

lemma unat_lt32: "unat (x::u32) < 2 ^ 32"
  using unsigned_less [of x] by simp

lemma of_nat_u32_0: "n < 2 ^ 32 \<Longrightarrow> (of_nat n :: u32) = 0 \<Longrightarrow> n = 0"
  by (drule arg_cong [where f = unat]) (simp add: unat_of_nat)

subsection \<open>The calculation\<close>

lemmas unat_u32_u64 [simp] = unat_ucast_u32

lemma u64_mult_u32: "unat ((ucast (a::u32) :: u64) * ucast (b::u32)) = unat a * unat b"
proof -
  have "unat a \<le> 2 ^ 32 - 1" "unat b \<le> 2 ^ 32 - 1" using unat_lt32 [of a] unat_lt32 [of b] by simp_all
  then have "unat a * unat b \<le> (2 ^ 32 - 1) * (2 ^ 32 - 1)" by (rule mult_le_mono)
  then show ?thesis by (simp add: unat_word_ariths unsigned_ucast_eq)
qed

text \<open>What a round that is not repeated says about the stores in between.\<close>

lemma history_count:
  assumes "gip_history g ticks = Some gs" "gip_ok g" "gip_u32Mode g = SUPGIPMODE_ASYNC_TSC \<or> j = 0"
    "j < length (gip_aCPUs g)" "t \<le> k" "k < length gs" "k - t < 2 ^ 32"
    "gip_tid j (gs ! k) = gip_tid j (gs ! t)" "even (gip_tid j (gs ! t))" "t \<le> i" "i \<le> k"
  shows "gip_data j (gs ! i) = gip_data j (gs ! t)"
proof -
  from gip_history_steps [OF assms(1-4)] obtain rs where rs: "gs = g # rs" "gip_stores j g rs" by blast
  have "successively (gip_wstep j) gs" using rs(2) unfolding rs(1) gip_stores_def by blast
  then have "\<forall>i. t \<le> i \<longrightarrow> i < k \<longrightarrow> gip_wstep j (gs ! i) (gs ! Suc i)"
    using assms(6) by (simp add: successively_conv_nth)
  from gip_count [OF this assms(5)] obtain n where
    n: "n \<le> k - t" "gip_tid j (gs ! k) = gip_tid j (gs ! t) + of_nat n"
      "n = 0 \<longrightarrow> even (gip_tid j (gs ! t)) \<longrightarrow> (\<forall>i. t \<le> i \<longrightarrow> i \<le> k \<longrightarrow> gip_data j (gs ! i) = gip_data j (gs ! t))"
    by blast
  have "(of_nat n :: u32) = 0" using n(2) unfolding assms(8) by simp
  then have "n = 0" using of_nat_u32_0 [of n] n(1) assms(7) by linarith
  then show ?thesis using n(3) assms(9-11) by blast
qed

lemma history_mode:
  assumes "gip_history g ticks = Some gs" "gip_ok g" "gip_u32Mode g = SUPGIPMODE_ASYNC_TSC \<or> j = 0"
    "j < length (gip_aCPUs g)" "i < length gs"
  shows "gip_u32Mode (gs ! i) = gip_u32Mode g"
proof -
  from gip_history_steps [OF assms(1-4)] obtain rs where rs: "gs = g # rs" "gip_stores j g rs" by blast
  then have "gs ! i \<in> set (g # rs)" using assms(5) nth_mem by blast
  then show ?thesis using rs(2) by (auto simp: gip_stores_def)
qed

text \<open>
  C11: A reader that accepts a round has a consistent view. Let the timers of all CPUs tick in any
  order and take the page after every single store; a reader of an entry may see it at six later and
  later moments (fewer than \<open>2 ^ 32\<close> stores apart, since the id wraps). If the round is not repeated,
  no update was in progress, all values (in synchronous mode the factor of the page too) are those
  of one moment, and they stay in force over the whole round. A round without an update in between
  is accepted.
\<close>

theorem nano_read_consistent:
  assumes "gip_history g ticks = Some gs" "gip_ok g" "gip_u32Mode g = SUPGIPMODE_ASYNC_TSC \<or> j = 0"
    "j < length (gip_aCPUs g)"
    "t0 \<le> t1" "t1 \<le> t2" "t2 \<le> t3" "t3 \<le> t4" "t4 \<le> t5" "t5 < length gs" "t5 - t0 < 2 ^ 32"
  shows "(\<forall>fMoved iv ns tsc f.
      nano_read j fMoved (gs ! t0) (gs ! t1) (gs ! t2) (gs ! t3) (gs ! t4) (gs ! t5) = Some (iv, ns, tsc, f) \<longrightarrow>
      even (gip_tid j (gs ! t0)) \<and>
      (iv, ns, tsc, if gip_u32Mode g = SUPGIPMODE_ASYNC_TSC then 0 else f) = gip_data j (gs ! t0) \<and>
      (\<forall>i. t0 \<le> i \<longrightarrow> i \<le> t5 \<longrightarrow> gip_data j (gs ! i) = gip_data j (gs ! t0))) \<and>
    (even (gip_tid j (gs ! t0)) \<longrightarrow> t5 = t0 \<longrightarrow>
      nano_read j False (gs ! t0) (gs ! t1) (gs ! t2) (gs ! t3) (gs ! t4) (gs ! t5) \<noteq> None)"
proof (intro conjI allI impI)
  fix fMoved iv ns tsc f
  assume r: "nano_read j fMoved (gs ! t0) (gs ! t1) (gs ! t2) (gs ! t3) (gs ! t4) (gs ! t5) = Some (iv, ns, tsc, f)"
  have tid: "gip_tid j (gs ! t5) = gip_tid j (gs ! t0)" "even (gip_tid j (gs ! t0))"
    using r odd_iff_and1 [of "gip_tid j (gs ! t0)"] by (auto simp: nano_read_def gip_tid_def Let_def split: if_splits)
  have v: "iv = cpu_u32UpdateIntervalTSC (gip_aCPUs (gs ! t1) ! j)" "ns = cpu_u64NanoTS (gip_aCPUs (gs ! t2) ! j)"
    "tsc = cpu_u64TSC (gip_aCPUs (gs ! t3) ! j)" "f = gip_u32UpdateIntervalNS (gs ! t4)"
    using r by (auto simp: nano_read_def Let_def split: if_splits)
  have t: "t0 \<le> t5" using assms(5-9) by linarith
  have d: "gip_data j (gs ! i) = gip_data j (gs ! t0)" if "t0 \<le> i" "i \<le> t5" for i
    by (rule history_count [OF assms(1-4) t assms(10,11) tid that])
  have m: "gip_u32Mode (gs ! i) = gip_u32Mode g" if "i \<le> t5" for i
    using history_mode [OF assms(1-4)] assms(10) that by simp
  have "gip_data j (gs ! t1) = gip_data j (gs ! t0)" "gip_data j (gs ! t2) = gip_data j (gs ! t0)"
    "gip_data j (gs ! t3) = gip_data j (gs ! t0)" "gip_data j (gs ! t4) = gip_data j (gs ! t0)"
    by (rule d; use assms(5-9) in linarith)+
  moreover have "gip_u32Mode (gs ! t0) = gip_u32Mode g" "gip_u32Mode (gs ! t4) = gip_u32Mode g"
    using assms(5-9) by (simp_all add: m)
  ultimately have "(iv, ns, tsc, if gip_u32Mode g = SUPGIPMODE_ASYNC_TSC then 0 else f) = gip_data j (gs ! t0)"
    unfolding v gip_data_def Let_def by (simp split: if_splits)
  then have "even (gip_tid j (gs ! t0)) \<and>
      (iv, ns, tsc, if gip_u32Mode g = SUPGIPMODE_ASYNC_TSC then 0 else f) = gip_data j (gs ! t0) \<and>
      (\<forall>i. t0 \<le> i \<longrightarrow> i \<le> t5 \<longrightarrow> gip_data j (gs ! i) = gip_data j (gs ! t0))"
    using tid(2) d by blast
  then show "even (gip_tid j (gs ! t0))"
    "(iv, ns, tsc, if gip_u32Mode g = SUPGIPMODE_ASYNC_TSC then 0 else f) = gip_data j (gs ! t0)"
    "\<And>i. t0 \<le> i \<Longrightarrow> i \<le> t5 \<Longrightarrow> gip_data j (gs ! i) = gip_data j (gs ! t0)" by blast+
next
  assume "even (gip_tid j (gs ! t0))" "t5 = t0"
  then show "nano_read j False (gs ! t0) (gs ! t1) (gs ! t2) (gs ! t3) (gs ! t4) (gs ! t5) \<noteq> None"
    by (simp add: nano_read_def gip_tid_def Let_def and_one_eq mod_2_eq_odd)
qed

text \<open>One tick of the example page: the id is odd in the states 1 to 9 and the reader accepts state 10.\<close>

definition clock_ex_tick :: gip_tick where
  "clock_ex_tick = TickMaster gip_ex_host 0 8000 17000 NIL_RTCPUID 1"

lemma clock_ex:
  obtains gs where "gip_history gip_ex_page [clock_ex_tick] = Some gs" "length gs = 11"
    "map (gip_tid 0) gs = 2 # replicate 9 3 @ [4]" "snd (gip_data 0 (gs ! 10)) = (8000, 17000, 10000000)"
proof -
  have p: "gip_ex_page = gip_ex_page\<lparr>gip_u32Mode := SUPGIPMODE_SYNC_TSC, gip_u32UpdateHz := 100, gip_u32UpdateIntervalNS := 10000000,
     gip_aCPUs := [gip_init_cpu gip_ex_host 5000 100 0]\<rparr>"
    by (simp add: gip_ex_page_def supdrvGipInit_def gip_ex_host_def supdrvGipDeterminTscMode_def supdrvDetermineAsyncTsc_def)
  let ?c = "gip_init_cpu gip_ex_host 5000 100 0"
  have c: "cpu_u32TransactionId ?c = 2" "cpu_u64TSC ?c = 100" by (simp_all add: gip_init_cpu_def gip_ex_host_def Let_def)
  let ?c1 = "cpu_inc_tid ?c"
  let ?cs = "supdrvGipDoUpdateCpu 100 ?c1 8000 17000 1"
  have f: "gip_u32Mode gip_ex_page = SUPGIPMODE_SYNC_TSC" "gip_u32UpdateHz gip_ex_page = 100" "gip_u32UpdateIntervalNS gip_ex_page = 10000000"
     "gip_aCPUs gip_ex_page = [?c]" by (subst p, simp)+
  define g1 where "g1 = gip_put gip_ex_page 0 ?c1"
  define ts where "ts = g1 # map (gip_put g1 0) ?cs @ [gip_put g1 0 (cpu_inc_tid (last ?cs))]"
  have t: "gip_tick_do gip_ex_page clock_ex_tick = Some ts"
    using f c by (simp add: clock_ex_tick_def supdrvGipUpdate_def gip_transaction_def Let_def cpu_inc_tid_def gip_recalc_def ts_def g1_def)
  have l: "length ?cs = 8" using c by (simp add: supdrvGipDoUpdateCpu_def gip_measure_def gip_compute_def Let_def cpu_inc_tid_def)
  have tid: "map cpu_u32TransactionId ?cs = replicate 8 3"
    using DoUpdate_tid [of _ 100 ?c1 8000 17000 1] c l by (intro replicate_eqI) (auto simp: cpu_inc_tid_def)
  have d: "cpu_u64NanoTS (last ?cs) = 8000" "cpu_u64TSC (last ?cs) = 17000"
    using c by (simp_all add: supdrvGipDoUpdateCpu_def gip_measure_def gip_compute_def Let_def cpu_inc_tid_def)
  show thesis
  proof (rule that [of "gip_ex_page # ts"])
    show "gip_history gip_ex_page [clock_ex_tick] = Some (gip_ex_page # ts)" by (simp add: t)
    show "length (gip_ex_page # ts) = 11" using l by (simp add: ts_def)
    show "map (gip_tid 0) (gip_ex_page # ts) = 2 # replicate 9 3 @ [4]"
    proof -
      have "map (gip_tid 0) (map (gip_put g1 0) ?cs) = map cpu_u32TransactionId ?cs"
        using f by (simp add: gip_tid_def gip_put_def g1_def)
      moreover have "cpu_u32TransactionId (last ?cs) = 3"
        using DoUpdate_tid [OF last_in_set [OF DoUpdate_nonempty], of 100 ?c1 8000 17000 1] c by (simp add: cpu_inc_tid_def)
      ultimately show ?thesis
        using f c unfolding tid ts_def by (simp add: gip_tid_def gip_put_def g1_def cpu_inc_tid_def eval_nat_numeral)
    qed
    show "snd (gip_data 0 ((gip_ex_page # ts) ! 10)) = (8000, 17000, 10000000)"
      using d l f by (simp add: ts_def g1_def gip_data_def nth_append Let_def cpu_inc_tid_def gip_put_def)
  qed
qed

theorem nano_read_consistent_witness:
  "\<exists>gs iv f. gip_history gip_ex_page [clock_ex_tick] = Some gs \<and>
     nano_read 0 False (gs ! 0) (gs ! 3) (gs ! 3) (gs ! 4) (gs ! 5) (gs ! 10) = None \<and>
     nano_read 0 False (gs ! 10) (gs ! 10) (gs ! 10) (gs ! 10) (gs ! 10) (gs ! 10) = Some (iv, 8000, 17000, f) \<and>
     (iv, 8000, 17000, f) = gip_data 0 (gs ! 10)"
proof -
  obtain gs where gs: "gip_history gip_ex_page [clock_ex_tick] = Some gs" "length gs = 11"
    "map (gip_tid 0) gs = 2 # replicate 9 3 @ [4]" "snd (gip_data 0 (gs ! 10)) = (8000, 17000, 10000000)" by (rule clock_ex)
  have ok: "gip_ok gip_ex_page" "gip_u32Mode gip_ex_page = SUPGIPMODE_SYNC_TSC" "0 < length (gip_aCPUs gip_ex_page)"
    using gip_invD(4) [OF gip_ex_inv(1)]
    by (simp_all add: gip_page_ok_def gip_ex_def gip_ok_def gip_ex_page_def supdrvGipInit_def gip_ex_host_def
          supdrvGipDeterminTscMode_def supdrvDetermineAsyncTsc_def)
  have "map (gip_tid 0) gs ! 0 = 2" "map (gip_tid 0) gs ! 10 = 4" unfolding gs(3) by (simp_all add: nth_append)
  then have tid: "gip_tid 0 (gs ! 0) = 2" "gip_tid 0 (gs ! 10) = 4" using gs(2) by simp_all
  have l: "10 < length gs" "(10::nat) - 10 < 2 ^ 32" using gs(2) by simp_all
  note C = nano_read_consistent [OF gs(1) ok(1) disjI2 [OF refl] ok(3) le_refl le_refl le_refl le_refl le_refl l]
  obtain iv ns tsc f where r: "nano_read 0 False (gs ! 10) (gs ! 10) (gs ! 10) (gs ! 10) (gs ! 10) (gs ! 10) = Some (iv, ns, tsc, f)"
    using C tid(2) by auto
  have d: "(iv, ns, tsc, f) = gip_data 0 (gs ! 10)" using C r ok(2) by simp
  then have v: "ns = 8000" "tsc = 17000" using gs(4) by (metis Pair_inject snd_conv)+
  have "nano_read 0 False (gs ! 0) (gs ! 3) (gs ! 3) (gs ! 4) (gs ! 5) (gs ! 10) = None"
    using tid by (simp add: nano_read_def gip_tid_def Let_def)
  then show ?thesis using gs(1) r d unfolding v by blast
qed

subsection \<open>The time a reader calculates\<close>

lemma unat_u64_u32: "unat (x::u64) < 2 ^ 32 \<Longrightarrow> unat (ucast x :: u32) = unat x"
  by (simp add: unsigned_ucast_eq take_bit_nat_eq_self)

text \<open>The nanoseconds since the last update: the ticks, at most the interval, scaled by the factor.\<close>

definition nano_since :: "u32 \<Rightarrow> u64 \<Rightarrow> u32 \<Rightarrow> u64 \<Rightarrow> nat" where
  "nano_since iv tsc f now = min (unat (now - tsc)) (unat iv) * unat f div unat iv"

lemma nano_since_le: "nano_since iv tsc f now \<le> unat f"
proof (cases "iv = 0")
  case False
  then have "0 < unat iv" by (simp add: unat_gt_0)
  moreover have "min (unat (now - tsc)) (unat iv) * unat f \<le> unat iv * unat f" by simp
  ultimately show ?thesis unfolding nano_since_def
    by (metis div_le_mono nonzero_mult_div_cancel_left not_less_zero)
qed (simp add: nano_since_def)

lemma nano_since_mono: "unat (now - tsc) \<le> unat (now' - tsc) \<Longrightarrow> nano_since iv tsc f now \<le> nano_since iv tsc f now'"
  unfolding nano_since_def by (intro div_le_mono mult_le_mono1 min.mono order_refl)

lemma nano_calc_Some:
  assumes "iv \<noteq> 0"
  shows "nano_calc iv ns0 tsc f now prev =
    (let t = ns0 + of_nat (nano_since iv tsc f now);
         k = nano_case_of (t - prev) prev f
     in Some (unat iv < unat (now - tsc), k, if k = NanoStep then prev + 1 else t))"
proof -
  let ?d0 = "now - tsc"
  define d1 where "d1 = (if ucast iv < ?d0 then ucast iv else ?d0)"
  have e: "(ucast iv < ?d0) = (unat iv < unat ?d0)" by (simp add: word_less_nat_alt)
  have d1: "unat d1 = min (unat ?d0) (unat iv)" unfolding d1_def e by (simp add: min_def)
  have "unat d1 < 2 ^ 32" using d1 unat_lt32 [of iv] by linarith
  then have "unat (ucast (ucast d1 :: u32) * ucast f :: u64) = unat d1 * unat f"
    by (simp add: u64_mult_u32 unat_u64_u32)
  then have q: "unat (ucast (ucast d1 :: u32) * ucast f div ucast iv :: u64) = nano_since iv tsc f now"
    unfolding nano_since_def d1 [symmetric] by (simp add: unat_div)
  then have q2: "ucast (ucast d1 :: u32) * ucast f div ucast iv = (of_nat (nano_since iv tsc f now) :: u64)"
    unfolding q [symmetric] by simp
  have "unat f < 0x100000000" using unat_lt32 [of f] by simp
  then have "nano_since iv tsc f now < 0x100000000" using nano_since_le [of iv tsc f now] by linarith
  then have lt: "ucast (ucast d1 :: u32) * ucast f div ucast iv < (0x100000000 :: u64)"
    unfolding word_less_nat_alt q by simp
  show ?thesis
    using assms lt unfolding nano_calc_def Let_def d1_def [symmetric] q2 by (simp add: e)
qed

lemma nano_tries_ge:
  assumes "\<And>n p. p \<le> env n p"
  shows "prev \<le> nano_tries env n t prev"
proof (induction n arbitrary: prev)
  case (Suc n)
  let ?p = "env (2 * n + 1) prev"
  have p: "prev \<le> ?p" by (rule assms)
  have q: "?p \<le> env (2 * n) ?p" by (rule assms)
  show ?case
    using p q Suc.IH [of "env (2 * n) ?p"] by (auto simp: Let_def not_le)
qed simp

lemma nano_case_later:
  assumes "nano_case_of (t - prev) prev f = NanoLater" "unat prev + 86000000000000 \<le> 2 ^ 64"
  shows "prev < t \<and> t - prev < 86000000000000"
proof -
  have d: "0 < t - prev" "t - prev < 86000000000000" using assms(1) by (auto simp: nano_case_of_def split: if_splits)
  have "unat (t - prev) < 86000000000000" using d(2) by (simp add: word_less_nat_alt)
  then have "unat (prev + (t - prev)) = unat prev + unat (t - prev)"
    using assms(2) by (intro unat_add_lem [THEN iffD1]) simp
  moreover have "0 < unat (t - prev)" using d(1) by (simp add: word_less_nat_alt)
  ultimately show ?thesis using d(2) by (simp add: word_less_nat_alt)
qed

text \<open>
  What a reader should do with the time it calculated, in numbers without wrap-around: it is taken if it
  is less than a day ahead of the previous one; if it lies at most two intervals behind, the clock
  is stepped by a nanosecond; from a zero previous time the clock resumes; all else is reported.
\<close>

definition nano_verdict :: "nat \<Rightarrow> nat \<Rightarrow> nat \<Rightarrow> nano_case" where
  "nano_verdict calc prev slack =
     (if prev < calc \<and> calc < prev + 86000000000000 then NanoLater
      else if calc \<le> prev \<and> prev \<le> calc + slack then NanoStep
      else if prev = 0 then NanoResume
      else NanoBad)"

lemma unat_less_uint: "unat (x::u64) < 2 ^ 63 \<Longrightarrow> uint x < 2 ^ 63"
  by (metis of_nat_less_iff of_nat_numeral of_nat_power uint_nat)

lemma nano_case_of_eq:
  assumes c: "unat t < 2 ^ 63" and p: "unat prev < 2 ^ 63"
  shows "nano_case_of (t - prev) prev f = nano_verdict (unat t) (unat prev) (2 * unat f mod 2 ^ 32)"
proof -
  have b: "uint t < 2 ^ 63" "uint prev < 2 ^ 63" using unat_less_uint c p by blast+
  have nn: "0 \<le> uint t" "0 \<le> uint prev" by simp_all
  have un: "int (unat t) = uint t" "int (unat prev) = uint prev" "int (unat f) = uint f" by simp_all
  have sd: "sint (t - prev) = uint t - uint prev"
  proof -
    have "uint (t - prev) = take_bit 64 (uint t - uint prev)" by (simp add: uint_word_ariths take_bit_eq_mod)
    then have "sint (t - prev) = signed_take_bit 63 (uint t - uint prev)"
      by (simp add: sint_uint signed_take_bit_take_bit)
    also have "\<dots> = uint t - uint prev" using b nn by (intro signed_take_bit_int_eq_self) linarith+
    finally show ?thesis .
  qed
  have ud: "uint (t - prev) = (if uint prev \<le> uint t then uint t - uint prev else uint t - uint prev + 2 ^ 64)"
    using b nn by (simp add: uint_sub_if' word_size)
  have f2: "uint (f * 2) = int (2 * unat f mod 2 ^ 32)"
    by (simp add: uint_word_ariths un(3) zmod_int mult.commute)
  have z: "prev = 0 \<longleftrightarrow> unat prev = 0" by (simp add: unat_eq_0)
  have l: "0 < t - prev \<and> t - prev < 86000000000000 \<longleftrightarrow> unat prev < unat t \<and> unat t < unat prev + 86000000000000"
  proof -
    have w: "0 < t - prev \<and> t - prev < 86000000000000 \<longleftrightarrow> 0 < uint (t - prev) \<and> uint (t - prev) < 86000000000000"
      by (simp add: word_less_def)
    have n: "unat prev < unat t \<longleftrightarrow> uint prev < uint t" "unat t < unat prev + 86000000000000 \<longleftrightarrow> uint t < uint prev + 86000000000000"
      using un by linarith+
    show ?thesis
    proof (cases "uint prev \<le> uint t")
      case True
      show ?thesis unfolding w n ud if_P [OF True] by linarith
    next
      case False
      have pw: "(2::int) ^ 63 = 9223372036854775808" "(2::int) ^ 64 = 18446744073709551616" by simp_all
      have "\<not> uint t - uint prev + 2 ^ 64 < 86000000000000" using b(2) nn(1) unfolding pw by linarith
      then show ?thesis unfolding w n ud if_not_P [OF False] using False by linarith
    qed
  qed
  have st: "sint (t - prev) \<le> 0 \<and> 0 \<le> sint (t - prev) + uint (f * 2) \<longleftrightarrow>
      unat t \<le> unat prev \<and> unat prev \<le> unat t + 2 * unat f mod 2 ^ 32"
    unfolding sd f2 using un by linarith
  show ?thesis unfolding nano_case_of_def nano_verdict_def l st z by (rule refl)
qed

lemma nano_tries_id: "nano_tries (\<lambda>_ p. p) 25 t cell = max t cell"
  by (simp add: max_def eval_nat_numeral Let_def)

text \<open>
  C37: The time a reader calculates from one consistent view. The divide error cannot happen unless
  the interval is zero. The time is the last update plus the ticks since then, capped at the interval
  and scaled, which is at most the factor, so that a later reading of the same data never gets an
  earlier time. As long as the times are below 2 to the 63 nanoseconds it is taken as it is exactly
  if it is less than a day ahead of the previous one, stepped one nanosecond past the previous one
  exactly if it is at most twice the interval behind, and else the clock resumes from a previous time of zero or the time is
  reported as bad. A time that is taken as later or stepped is later than the previous one and by less than a
  day. Publishing it replaces the previous time if that is still published; if others published
  meanwhile and only move the cell forward, nothing they published is taken back, and once they stop
  the cell ends with the later of the two.
\<close>

theorem nano_calc_correct:
  assumes "iv \<noteq> 0"
  shows "\<exists>e k t. nano_calc iv ns0 tsc f now prev = Some (e, k, t) \<and>
    (e \<longleftrightarrow> unat iv < unat (now - tsc)) \<and>
    (k \<noteq> NanoStep \<longrightarrow> t = ns0 + of_nat (nano_since iv tsc f now)) \<and>
    nano_since iv tsc f now \<le> unat f \<and>
    (\<forall>now'. unat (now - tsc) \<le> unat (now' - tsc) \<longrightarrow> nano_since iv tsc f now \<le> nano_since iv tsc f now') \<and>
    (unat ns0 + unat f < 2 ^ 63 \<longrightarrow> unat prev < 2 ^ 63 \<longrightarrow>
       k = nano_verdict (unat ns0 + nano_since iv tsc f now) (unat prev) (2 * unat f mod 2 ^ 32) \<and>
       unat t = (if k = NanoStep then unat prev + 1 else unat ns0 + nano_since iv tsc f now)) \<and>
    (k = NanoLater \<or> k = NanoStep \<longrightarrow> unat prev + 86000000000000 \<le> 2 ^ 64 \<longrightarrow> prev < t \<and> t - prev < 86000000000000) \<and>
    (\<forall>env cell. (\<forall>n p. p \<le> env n p) \<longrightarrow>
       (if cell = prev then nano_publish env prev t cell = t else cell \<le> nano_publish env prev t cell)) \<and>
    (\<forall>cell. nano_publish (\<lambda>_ p. p) prev t cell = (if cell = prev then t else max t cell))"
proof -
  define t0 where "t0 = ns0 + of_nat (nano_since iv tsc f now)"
  define k where "k = nano_case_of (t0 - prev) prev f"
  define t where "t = (if k = NanoStep then prev + 1 else t0)"
  have c: "nano_calc iv ns0 tsc f now prev = Some (unat iv < unat (now - tsc), k, t)"
    unfolding nano_calc_Some [OF assms] Let_def t0_def [symmetric] k_def [symmetric] t_def [symmetric] by (rule refl)
  have later: "prev < t \<and> t - prev < 86000000000000"
    if "k = NanoLater \<or> k = NanoStep" "unat prev + 86000000000000 \<le> 2 ^ 64"
  proof (cases "k = NanoStep")
    case True
    have "unat (prev + 1) = unat prev + unat (1::u64)" using that(2) by (intro unat_add_lem [THEN iffD1]) simp
    then show ?thesis using True by (simp add: t_def word_less_nat_alt)
  next
    case False
    then show ?thesis using that nano_case_later [of t0 prev f] by (simp add: t_def k_def)
  qed
  have num: "k = nano_verdict (unat ns0 + nano_since iv tsc f now) (unat prev) (2 * unat f mod 2 ^ 32) \<and>
      unat t = (if k = NanoStep then unat prev + 1 else unat ns0 + nano_since iv tsc f now)"
    if "unat ns0 + unat f < 2 ^ 63" "unat prev < 2 ^ 63"
  proof -
    have s: "unat ns0 + nano_since iv tsc f now < 2 ^ 63" using that(1) nano_since_le [of iv tsc f now] by linarith
    have n: "unat (of_nat (nano_since iv tsc f now) :: u64) = nano_since iv tsc f now"
      using s by (simp add: unsigned_of_nat take_bit_nat_eq_self)
    have u: "unat t0 = unat ns0 + nano_since iv tsc f now"
      unfolding t0_def using s n by (subst unat_add_lem [THEN iffD1]) simp_all
    have p1: "unat (prev + 1) = unat prev + 1"
      using that(2) by (subst unat_add_lem [THEN iffD1]) simp_all
    have "k = nano_verdict (unat t0) (unat prev) (2 * unat f mod 2 ^ 32)"
      unfolding k_def by (rule nano_case_of_eq) (use s u that(2) in simp_all)
    then show ?thesis using u p1 by (simp add: t_def)
  qed
  have pub: "if cell = prev then nano_publish env prev t cell = t else cell \<le> nano_publish env prev t cell"
    if "\<forall>n p. p \<le> env n p" for env cell
    using that nano_tries_ge [of env cell 25 t] by (simp add: nano_publish_def)
  have pub_id: "nano_publish (\<lambda>_ p. p) prev t cell = (if cell = prev then t else max t cell)" for cell
    by (simp add: nano_publish_def nano_tries_id)
  have k0: "k \<noteq> NanoStep \<longrightarrow> t = ns0 + of_nat (nano_since iv tsc f now)" by (simp add: t_def t0_def)
  show ?thesis
    using c nano_since_le nano_since_mono later pub pub_id num k0
    by (intro exI [of _ "unat iv < unat (now - tsc)"] exI [of _ k] exI [of _ t] conjI allI impI) blast+
qed

text \<open>A time that is three nanoseconds behind is stepped; ten minutes behind it is bad.\<close>

theorem nano_calc_correct_witness:
  "nano_calc 1000 5000 100 10000 600 10003 = Some (False, NanoStep, 10004) \<and>
   nano_publish (\<lambda>_ p. p) 10003 10004 9500 = 10004 \<and>
   (\<exists>e t. nano_calc 1000 5000 100 10000 600 600000010000 = Some (e, NanoBad, t))"
proof -
  have i: "(1000::u32) \<noteq> 0" by simp
  have s: "nano_since 1000 100 10000 600 = 5000" by (simp add: nano_since_def)
  from nano_calc_correct [OF i, of 5000 100 10000 600 10003]
  obtain e k t where t: "nano_calc 1000 5000 100 10000 600 10003 = Some (e, k, t)" "e \<longleftrightarrow> (1000::nat) < 500"
    "k = nano_verdict 10000 10003 20000" "unat t = (if k = NanoStep then 10004 else 10000)"
    "\<forall>cell. nano_publish (\<lambda>_ p. p) 10003 t cell = (if cell = 10003 then t else max t cell)"
    by (auto simp: s)
  have k: "k = NanoStep" "\<not> e" using t(2,3) by (simp_all add: nano_verdict_def)
  have "unat t = unat (10004 :: u64)" using t(4) k(1) by simp
  then have v: "t = 10004" by (rule word_unat_eq_iff [THEN iffD2])
  from nano_calc_correct [OF i, of 5000 100 10000 600 600000010000]
  have bad: "\<exists>e t. nano_calc 1000 5000 100 10000 600 600000010000 = Some (e, NanoBad, t)"
    by (auto simp: s nano_verdict_def)
  show ?thesis using t(1,5) k v bad by (simp add: max_def)
qed

subsection \<open>The bounds of an update\<close>

lemma unat_shr: "unat (drop_bit n (w::u32)) = unat w div 2 ^ n"
  using unat_lt32 [of w] unfolding unsigned_drop_bit_eq by (simp add: drop_bit_eq_div take_bit_nat_eq_self)

lemma avg2:
  fixes a b :: u32
  assumes "lo \<le> unat a" "unat a \<le> hi" "lo \<le> unat b" "unat b \<le> hi" "4 * hi < (2::nat) ^ 32"
  shows "lo \<le> unat (drop_bit 1 (a + b))" "unat (drop_bit 1 (a + b)) \<le> hi"
proof -
  have "unat (a + b) = unat a + unat b" using assms by (intro unat_add_lem [THEN iffD1]) simp
  then show "lo \<le> unat (drop_bit 1 (a + b))" "unat (drop_bit 1 (a + b)) \<le> hi"
    using assms by (simp_all add: unat_shr)
qed

lemma avg4:
  fixes a b c d :: u32
  assumes "lo \<le> unat a" "unat a \<le> hi" "lo \<le> unat b" "unat b \<le> hi" "lo \<le> unat c" "unat c \<le> hi"
    "lo \<le> unat d" "unat d \<le> hi" "4 * hi < (2::nat) ^ 32"
  shows "lo \<le> unat (drop_bit 2 (a + b + c + d))" "unat (drop_bit 2 (a + b + c + d)) \<le> hi"
proof -
  have 1: "unat (a + b) = unat a + unat b" using assms by (intro unat_add_lem [THEN iffD1]) simp
  have 2: "unat (a + b + c) = unat (a + b) + unat c" using assms 1 by (intro unat_add_lem [THEN iffD1]) simp
  have "unat (a + b + c + d) = unat (a + b + c) + unat d" using assms 1 2 by (intro unat_add_lem [THEN iffD1]) simp
  then show "lo \<le> unat (drop_bit 2 (a + b + c + d))" "unat (drop_bit 2 (a + b + c + d)) \<le> hi"
    using assms 1 2 by (simp_all add: unat_shr)
qed

definition hist_ok :: "nat \<Rightarrow> nat \<Rightarrow> u32 list \<Rightarrow> bool" where
  "hist_ok lo hi hs \<longleftrightarrow> length hs = 8 \<and> (\<forall>h\<in>set hs. lo \<le> unat h \<and> unat h \<le> hi)"

lemma hist_okD: "hist_ok lo hi hs \<Longrightarrow> i < 8 \<Longrightarrow> lo \<le> unat (hs ! i) \<and> unat (hs ! i) \<le> hi"
  by (simp add: hist_ok_def)

lemma hist_ok_upd: "hist_ok lo hi hs \<Longrightarrow> lo \<le> unat d \<Longrightarrow> unat d \<le> hi \<Longrightarrow> hist_ok lo hi (hs[i := d])"
  by (auto simp: hist_ok_def dest: set_update_subset_insert [THEN subsetD])

lemma and7: "unat ((x::u32) AND 7) < 8"
proof -
  have "x AND 7 = take_bit 3 x" by (simp add: take_bit_eq_mask mask_eq_exp_minus_1)
  then show ?thesis by (simp add: unsigned_take_bit_eq take_bit_nat_less_exp [of 3, simplified])
qed

lemma gip_new_interval_bounds:
  assumes "hist_ok lo hi hs" "lo \<le> unat d" "unat d \<le> hi" "4 * hi < 2 ^ 32"
  shows "lo \<le> unat (fst (gip_new_interval hz hs d head))" "unat (fst (gip_new_interval hz hs d head)) \<le> hi"
    "unat (snd (gip_new_interval hz hs d head)) \<le> hi div 64"
proof -
  note h = hist_okD [OF assms(1), THEN conjunct1] hist_okD [OF assms(1), THEN conjunct2]
  let ?a = "drop_bit 2 (hs ! 0 + hs ! 1 + hs ! 2 + hs ! 3)" and ?b = "drop_bit 2 (hs ! 4 + hs ! 5 + hs ! 6 + hs ! 7)"
  let ?p = "hs ! unat ((head - 1) AND 7)"
  have a: "lo \<le> unat ?a" "unat ?a \<le> hi" by (intro avg4 [where lo = lo and hi = hi] h assms(4); simp)+
  have b: "lo \<le> unat ?b" "unat ?b \<le> hi" by (intro avg4 [where lo = lo and hi = hi] h assms(4); simp)+
  have m: "lo \<le> unat (drop_bit 1 (?b + ?a))" "unat (drop_bit 1 (?b + ?a)) \<le> hi" by (rule avg2 [OF b a assms(4)])+
  have p: "lo \<le> unat ?p" "unat ?p \<le> hi" by (rule h [OF and7])+
  have q: "lo \<le> unat (drop_bit 1 (d + ?p))" "unat (drop_bit 1 (d + ?p)) \<le> hi" by (rule avg2 [OF assms(2,3) p assms(4)])+
  have sl: "unat (drop_bit n x) \<le> hi div 64" if "6 \<le> n" "unat x \<le> hi" for n and x :: u32
  proof -
    have "(2::nat) ^ 6 \<le> 2 ^ n" using that(1) by (intro power_increasing) simp_all
    then have "unat x div 2 ^ n \<le> unat x div 64" by (intro div_le_mono2) simp_all
    also have "\<dots> \<le> hi div 64" using that(2) by (rule div_le_mono)
    finally show ?thesis by (simp add: unat_shr)
  qed
  show "lo \<le> unat (fst (gip_new_interval hz hs d head))" "unat (fst (gip_new_interval hz hs d head)) \<le> hi"
    "unat (snd (gip_new_interval hz hs d head)) \<le> hi div 64"
    unfolding gip_new_interval_def Let_def
    by (cases "1000 \<le> hz"; cases "90 \<le> hz"; simp only: if_True if_False fst_conv snd_conv m q assms(2,3);
        (intro sl m q assms; simp)?)+
qed

text \<open>What the first part of an update leaves.\<close>

lemma measure_last:
  fixes c :: SUPGIPCPU
  assumes "gip_measure c ns tsc tick = (cs, delta)" "length (cpu_au32TSCHistory c) = 8"
  defines "over \<equiv> drop_bit 32 (tsc - cpu_u64TSC c) \<noteq> 0"
  shows "delta = (if over then ucast (cpu_u32UpdateIntervalTSC c) else tsc - cpu_u64TSC c)"
    "cpu_u32TransactionId (last cs) = cpu_u32TransactionId c" "cpu_u64NanoTS (last cs) = ns" "cpu_u64TSC (last cs) = tsc"
    "cpu_cErrors (last cs) = cpu_cErrors c + of_bool over"
    "cpu_au32TSCHistory (last cs) = cpu_au32TSCHistory c \<or> cpu_au32TSCHistory (last cs) = replicate 8 (ucast delta)"
proof -
  have u: "[0..<8] = [0, 1, 2, 3, 4, 5, 6, 7::nat]" by (simp add: upt_rec)
  have r: "replicate 8 x = x # replicate 7 x" for x :: u32 by (simp add: eval_nat_numeral)
  note m = assms(1) [unfolded gip_measure_def Let_def, THEN sym]
  show "delta = (if over then ucast (cpu_u32UpdateIntervalTSC c) else tsc - cpu_u64TSC c)"
    "cpu_u32TransactionId (last cs) = cpu_u32TransactionId c" "cpu_u64NanoTS (last cs) = ns" "cpu_u64TSC (last cs) = tsc"
    "cpu_cErrors (last cs) = cpu_cErrors c + of_bool over"
    "cpu_au32TSCHistory (last cs) = cpu_au32TSCHistory c \<or> cpu_au32TSCHistory (last cs) = replicate 8 (ucast delta)"
    using m assms(2) unfolding over_def u by (simp_all add: r split: if_splits)
qed

lemma compute_last:
  assumes "gip_compute hz c d = cs" 
  defines "h \<equiv> (cpu_iTSCHistoryHead c + 1) AND 7"
  defines "hist \<equiv> (cpu_au32TSCHistory c)[unat h := d]"
  shows "cpu_au32TSCHistory (last cs) = hist"
    "cpu_u32UpdateIntervalTSC (last cs) = fst (gip_new_interval hz hist d h) + snd (gip_new_interval hz hist d h)"
    "cpu_u64CpuHz (last cs) = ucast (fst (gip_new_interval hz hist d h)) * ucast hz"
    "cpu_u32TransactionId (last cs) = cpu_u32TransactionId c" "cpu_u64NanoTS (last cs) = cpu_u64NanoTS c"
    "cpu_u64TSC (last cs) = cpu_u64TSC c" "cpu_cErrors (last cs) = cpu_cErrors c" "cs \<noteq> []"
  unfolding assms(1) [symmetric] h_def hist_def by (simp_all add: gip_compute_def Let_def)

text \<open>
  C38: The bounds of an update. When the history and the new delta (the interval, when the TSC made
  a jump of more than 32 bits, which is counted as an error) lie in a range whose upper end
  is below \<open>2 ^ 30\<close>, they stay there, the new interval is in the range plus a slack of at most 1/64,
  and the frequency of the CPU is between those of the ends of the range: the 32-bit sums do not
  wrap for any update rate. The time and the TSC are those of the timer and the transaction id is
  that of the caller, in all stores.
\<close>

theorem supdrvGipDoUpdateCpu_bounds:
  assumes "hist_ok lo hi (cpu_au32TSCHistory c)" "4 * hi < 2 ^ 32"
    "if drop_bit 32 (tsc - cpu_u64TSC c) \<noteq> 0
     then lo \<le> unat (cpu_u32UpdateIntervalTSC c) \<and> unat (cpu_u32UpdateIntervalTSC c) \<le> hi
     else lo \<le> unat (tsc - cpu_u64TSC c) \<and> unat (tsc - cpu_u64TSC c) \<le> hi"
  shows "let cs = supdrvGipDoUpdateCpu hz c ns tsc tick; c' = last cs
    in hist_ok lo hi (cpu_au32TSCHistory c') \<and>
       lo \<le> unat (cpu_u32UpdateIntervalTSC c') \<and> unat (cpu_u32UpdateIntervalTSC c') \<le> hi + hi div 64 \<and>
       lo * unat hz \<le> unat (cpu_u64CpuHz c') \<and> unat (cpu_u64CpuHz c') \<le> hi * unat hz \<and>
       cpu_u64NanoTS c' = ns \<and> cpu_u64TSC c' = tsc \<and>
       cpu_cErrors c' = cpu_cErrors c + of_bool (drop_bit 32 (tsc - cpu_u64TSC c) \<noteq> 0) \<and>
       (\<forall>x\<in>set cs. cpu_u32TransactionId x = cpu_u32TransactionId c)"
proof -
  obtain ms delta where m: "gip_measure c ns tsc tick = (ms, delta)" by (cases "gip_measure c ns tsc tick")
  define d where "d = (ucast delta :: u32)"
  define cs where "cs = gip_compute hz (last ms) d"
  have U: "supdrvGipDoUpdateCpu hz c ns tsc tick = ms @ cs" by (simp add: supdrvGipDoUpdateCpu_def m cs_def d_def)
  have len: "length (cpu_au32TSCHistory c) = 8" using assms(1) by (simp add: hist_ok_def)
  note M = measure_last [OF m len]
  note C = compute_last [OF cs_def [symmetric]]
  have d: "lo \<le> unat d" "unat d \<le> hi"
    using assms(2,3) unfolding d_def M(1) by (auto simp: unat_u64_u32 split: if_splits)
  have "hist_ok lo hi (cpu_au32TSCHistory (last ms))" using M(6) assms(1) d unfolding d_def by (auto simp: hist_ok_def)
  then have h: "hist_ok lo hi ((cpu_au32TSCHistory (last ms))[i := d])" for i by (rule hist_ok_upd [OF _ d])
  note I = gip_new_interval_bounds [OF h d assms(2)]
  have l: "last (ms @ cs) = last cs" using C(8) by simp
  have "unat (fst (gip_new_interval hz ((cpu_au32TSCHistory (last ms))[i := d]) d j) +
      snd (gip_new_interval hz ((cpu_au32TSCHistory (last ms))[i := d]) d j)) =
      unat (fst (gip_new_interval hz ((cpu_au32TSCHistory (last ms))[i := d]) d j)) +
      unat (snd (gip_new_interval hz ((cpu_au32TSCHistory (last ms))[i := d]) d j))" for i j
    using I [of hz i j] assms(2) by (intro unat_add_lem [THEN iffD1]) simp
  then have iv: "lo \<le> unat (cpu_u32UpdateIntervalTSC (last cs))" "unat (cpu_u32UpdateIntervalTSC (last cs)) \<le> hi + hi div 64"
    using I unfolding C(2) by (simp_all add: add_mono trans_le_add1)
  have t: "\<forall>x\<in>set (ms @ cs). cpu_u32TransactionId x = cpu_u32TransactionId c"
    using DoUpdate_tid unfolding U [symmetric] by blast
  show ?thesis
    unfolding Let_def U l using h iv M C t by (simp add: C(1,3) u64_mult_u32 I)
qed

theorem supdrvGipDoUpdateCpu_bounds_witness:
  "hist_ok 900 1100 (replicate 8 1000) \<and>
   unat (cpu_u32UpdateIntervalTSC (last (supdrvGipDoUpdateCpu 100
     ((gip_init_cpu gip_ex_host 5000 100 0)\<lparr>cpu_au32TSCHistory := replicate 8 1000\<rparr>) 8000 1150 4))) \<le> 1117"
proof -
  let ?c = "(gip_init_cpu gip_ex_host 5000 100 0)\<lparr>cpu_au32TSCHistory := replicate 8 1000\<rparr>"
  have h: "hist_ok 900 1100 (replicate 8 1000)" by (simp add: hist_ok_def)
  then have h': "hist_ok 900 1100 (cpu_au32TSCHistory ?c)" by simp
  have tsc: "cpu_u64TSC ?c = 100" by (simp add: gip_init_cpu_def gip_ex_host_def Let_def)
  have d: "drop_bit 32 (1150 - cpu_u64TSC ?c) = 0" "900 \<le> unat (1150 - cpu_u64TSC ?c)" "unat (1150 - cpu_u64TSC ?c) \<le> 1100"
    unfolding tsc by simp_all
  have b: "4 * 1100 < (2::nat) ^ 32" by simp
  show ?thesis
    using h supdrvGipDoUpdateCpu_bounds [OF h' b, of 1150 100 8000 4] d by (simp add: Let_def)
qed

end
