(* ===== verification/SupSession.thy ===== *)
theory SupSession
  imports SupLdrSyms SupMemOps SupFactory SupGipUse SupSem
begin

text \<open>
  The life of the driver and of a session (SUPDrv.c): the device extension, creating a session and
  closing it. Closing composes the parts of the components, in the order of the code: the handle
  table, the object references, the tracked memory, the component factories, the images, the GIP.
\<close>

subsection \<open>The device extension\<close>

definition dx_zero :: SUPDRVDEVEXT where
  "dx_zero = dx0\<lparr>dx_u32Cookie := 0\<rparr>"

text \<open>
  The absolute symbols at the head of the table of exported symbols, on a 64-bit host that is not
  Darwin: \<open>SUPR0AbsIs64bit\<close>, then the selectors \<open>(cs, ss, ds, es, fs, gs)\<close> of the kernel.
\<close>

definition fix_abs_symbols ::
  "u64 \<times> u64 \<times> u64 \<times> u64 \<times> u64 \<times> u64 \<Rightarrow> (u8 list \<times> u64) list \<Rightarrow> (u8 list \<times> u64) list" where
  "fix_abs_symbols sel fns =
     (case sel of (cs, ss, ds, es, fs, gs) \<Rightarrow>
        zip (map fst (take 10 fns)) [1, cs, ss, ds, cs, ss, ds, es, fs, gs] @ drop 10 fns)"

text \<open>
  \<open>locks\<close> are the statuses of creating the spinlock and the three mutexes, which are not part of
  the model; each is destroyed again when a later step fails. The last result is \<open>g_aFunctions\<close>.
\<close>

definition supdrvInitDevExt ::
  "r0host \<Rightarrow> giphost \<Rightarrow> addr \<Rightarrow> addr \<Rightarrow> addr \<Rightarrow> status \<times> status \<times> status \<times> status \<Rightarrow> u64 \<times> u64 \<times> u64 \<times> u64 \<times> u64 \<times> u64 \<Rightarrow>
   u64 \<Rightarrow> supdrv \<Rightarrow> RTNOTIFY \<Rightarrow> (u8 list \<times> u64) list \<Rightarrow> (status \<times> supdrv \<times> RTNOTIFY \<times> (u8 list \<times> u64) list) option" where
  "supdrvInitDevExt hst gh pfn pvDev pNew locks sel cbSession w ntf fns =
     (case locks of (rcSpinlock, rcLdr, rcFactory, rcGip) \<Rightarrow>
        let w1 = set_dx w (\<lambda>_. dx_zero)
        in if RT_FAILURE rcSpinlock then Some (rcSpinlock, w1, ntf, fns)
           else if RT_FAILURE rcLdr then Some (rcLdr, w1, ntf, fns)
           else if RT_FAILURE rcFactory then Some (rcFactory, w1, ntf, fns)
           else if RT_FAILURE rcGip then Some (rcGip, w1, ntf, fns)
           else
             (case supdrvGipCreate hst gh pfn pvDev pNew w1 ntf of
                None \<Rightarrow> None
              | Some (rc, w2, ntf2) \<Rightarrow>
                  if RT_SUCCESS rc
                  then Some (VINF_SUCCESS, set_dx w2 (\<lambda>d. d\<lparr>dx_u32Cookie := BIRD, dx_cbSession := ucast cbSession\<rparr>), ntf2,
                    fix_abs_symbols sel fns)
                  else Some (rc, w2, ntf2, fns)))"

text \<open>Objects that are left are freed without a call of their destructors.\<close>

primrec free_objs :: "(addr \<rightharpoonup> SUPDRVOBJ) \<Rightarrow> addr list \<Rightarrow> (addr \<rightharpoonup> SUPDRVOBJ) option" where
  "free_objs h [] = Some h"
| "free_objs h (p # ps) = (case h p of None \<Rightarrow> None | Some _ \<Rightarrow> free_objs (h(p := None)) ps)"

definition supdrvDeleteDevExt :: "r0host \<Rightarrow> supdrv \<Rightarrow> supdrv option" where
  "supdrvDeleteDevExt hst w =
     Option.bind (free_objs (w_objs w) (dx_pObjs (w_devext w))) (\<lambda>h.
       supdrvGipDestroy hst ((set_dx w (\<lambda>d. d\<lparr>dx_pObjs := [], dx_pUsageFree := 0\<rparr>))\<lparr>w_objs := h\<rparr>))"

subsection \<open>Sessions\<close>

text \<open>
  \<open>pNew\<close> is the new session, 0 when there is no memory; \<open>fMem\<close> and \<open>rcLock\<close> are for the handle
  table, \<open>procs\<close> is the calling process.
\<close>

definition supdrvCreateSession ::
  "addr \<Rightarrow> status \<Rightarrow> bool \<Rightarrow> status \<Rightarrow> u32 \<times> addr \<Rightarrow> bool \<Rightarrow> supdrv \<Rightarrow> status \<times> addr \<times> supdrv" where
  "supdrvCreateSession pNew rcSpinlock fMem rcLock procs fUser w =
     (if pNew = 0 then (VERR_NO_MEMORY, 0, w)
      else if rcSpinlock \<noteq> 0 then (rcSpinlock, 0, w)
      else
        (case RTHandleTableCreateEx 1 32768 fMem rcLock of (rc, t) \<Rightarrow>
           if RT_SUCCESS rc
           then (VINF_SUCCESS, pNew, set_sess w pNew
             \<lparr>ses_u32Cookie = BIRD_INV, ses_pVM = 0, ses_hHandleTable = t, ses_pLdrUsage = [],
              ses_GipMapObjR3 = 0, ses_fGipReferenced = False,
              ses_Bundle = [\<lparr>bdl_aMem = replicate BUNDLE_ENTRIES mr_unused, bdl_cUsed = 0\<rparr>], ses_pUsage = [],
              ses_Uid = 0xffffffff, ses_Gid = 0xffffffff,
              ses_Process = (if fUser then fst procs else 0xffffffff),
              ses_R0Process = (if fUser then snd procs else NIL_RTR0PROCESS)\<rparr>)
           else (rc, 0, w)))"

text \<open>The calls of the delete callback while the handle table is destroyed.\<close>

primrec ht_delete_calls :: "supdrv \<Rightarrow> addr \<Rightarrow> (u32 \<times> u64 \<times> u64) list \<Rightarrow> supdrv option" where
  "ht_delete_calls w pSession [] = Some w"
| "ht_delete_calls w pSession (x # xs) =
     Option.bind (supdrvSessionObjHandleDelete pSession w (fst (snd x))) (\<lambda>w1. ht_delete_calls w1 pSession xs)"

definition supdrvCleanupSession :: "r0host \<Rightarrow> supdrv \<Rightarrow> addr \<Rightarrow> supdrv option" where
  "supdrvCleanupSession hst w pSession =
     Option.bind (w_sess w pSession) (\<lambda>s.
     Option.bind (ht_delete_calls w pSession (RTHandleTableDestroy (ses_hHandleTable s))) (\<lambda>w1.
     Option.bind (w_sess w1 pSession) (\<lambda>s1.
       let s2 = s1\<lparr>ses_hHandleTable := None\<rparr>
       in Option.bind (cleanup_objs (set_sess w1 pSession s2) pSession s2 (ses_pUsage s2)) (\<lambda>w3.
          Option.bind (cleanup_mem hst w3 pSession) (\<lambda>w4.
            let w5 = cleanup_factories w4 pSession
            in Option.bind (w_sess w5 pSession) (\<lambda>s5.
               Option.bind (cleanup_imgs (set_sess w5 pSession (s5\<lparr>ses_pLdrUsage := []\<rparr>)) (ses_pLdrUsage s5)) (\<lambda>w6.
                 cleanup_gip hst w6 pSession)))))))"

definition supdrvCloseSession :: "r0host \<Rightarrow> supdrv \<Rightarrow> addr \<Rightarrow> supdrv option" where
  "supdrvCloseSession hst w pSession =
     map_option (\<lambda>w'. w'\<lparr>w_sess := (w_sess w')(pSession := None)\<rparr>) (supdrvCleanupSession hst w pSession)"

subsection \<open>What the invariants look at\<close>

text \<open>Each invariant depends on its view of the state only, so an operation that keeps the view keeps it.\<close>

definition sess_view :: "(SUPDRVSESSION \<Rightarrow> 'b) \<Rightarrow> supdrv \<Rightarrow> addr \<rightharpoonup> 'b" where
  "sess_view f w = (\<lambda>p. map_option f (w_sess w p))"

definition sem_view :: "supdrv \<Rightarrow> _" where
  "sem_view w = (sess_view ses_pUsage w, sess_view ses_hHandleTable w, w_objs w, dx_pObjs (w_devext w))"

definition ldr_view :: "supdrv \<Rightarrow> _" where
  "ldr_view w = (sess_view ses_pLdrUsage w, w_imgs w, dx_pLdrImages (w_devext w))"

definition mem_view :: "supdrv \<Rightarrow> _" where
  "mem_view w = (sess_view ses_Bundle w, w_memobjs w)"

definition gip_view :: "supdrv \<Rightarrow> _" where
  "gip_view w = (sess_view (\<lambda>s. (ses_GipMapObjR3 s, ses_fGipReferenced s)) w, w_memobjs w,
     dx_pGip (w_devext w), dx_GipMemObj (w_devext w), dx_cGipUsers (w_devext w), gip_running (w_trace w))"

lemma sess_view_dom: "sess_view f w' = sess_view f w \<Longrightarrow> dom (w_sess w') = dom (w_sess w)"
  unfolding sess_view_def fun_eq_iff dom_def by (metis option.map_disc_iff)

lemma sess_view_total:
  assumes "sess_view f w' = sess_view f w"
  shows "sess_total (\<lambda>s. g (f s)) w' = sess_total (\<lambda>s. g (f s)) w"
  unfolding sess_total_def sess_view_dom [OF assms]
proof (rule sum.cong [OF refl])
  fix q assume "q \<in> dom (w_sess w)"
  moreover have "map_option f (w_sess w' q) = map_option f (w_sess w q)" using assms by (simp add: sess_view_def fun_eq_iff)
  ultimately show "g (f (the (w_sess w' q))) = g (f (the (w_sess w q)))" by (cases "w_sess w' q") auto
qed

lemma sess_viewD:
  assumes "sess_view f w' = sess_view f w" "w_sess w' p = Some s'"
  obtains s where "w_sess w p = Some s" "f s = f s'"
proof -
  have "map_option f (w_sess w' p) = map_option f (w_sess w p)" using assms(1) by (simp add: sess_view_def fun_eq_iff)
  then show thesis using assms(2) that by (cases "w_sess w p") auto
qed

lemma obj_inv_view:
  assumes "sess_view ses_pUsage w' = sess_view ses_pUsage w" "w_objs w' = w_objs w" "dx_pObjs (w_devext w') = dx_pObjs (w_devext w)"
  shows "obj_inv w' = obj_inv w"
  by (rule obj_inv_usages) (use assms in \<open>simp_all add: sess_view_def fun_eq_iff\<close>)

lemma obj_refs_view: "sess_view ses_pUsage w' = sess_view ses_pUsage w \<Longrightarrow> obj_refs w' k p = obj_refs w k p"
proof -
  assume "sess_view ses_pUsage w' = sess_view ses_pUsage w"
  then have "map_option ses_pUsage (w_sess w' k) = map_option ses_pUsage (w_sess w k)" by (simp add: sess_view_def fun_eq_iff)
  then show ?thesis by (cases "w_sess w k"; cases "w_sess w' k") (auto simp: obj_refs_def sess_refs_def)
qed

lemma tables_of_view: "sess_view ses_hHandleTable w' = sess_view ses_hHandleTable w \<Longrightarrow> tables_of w' k = tables_of w k"
proof -
  assume "sess_view ses_hHandleTable w' = sess_view ses_hHandleTable w"
  then have "map_option ses_hHandleTable (w_sess w' k) = map_option ses_hHandleTable (w_sess w k)"
    by (simp add: sess_view_def fun_eq_iff)
  then show ?thesis by (cases "w_sess w k"; cases "w_sess w' k") (auto simp: tables_of_def)
qed

lemma sem_inv_tables:
  assumes "sess_view ses_pUsage w' = sess_view ses_pUsage w" "sess_view ses_hHandleTable w' = sess_view ses_hHandleTable w"
    "obj_inv w'" "sem_inv w"
  shows "sem_inv w'"
  using assms(3,4) by (simp add: sem_inv_def obj_refs_view [OF assms(1)] tables_of_view [OF assms(2)])

lemma sem_inv_view:
  assumes "sem_view w' = sem_view w" "sem_inv w"
  shows "sem_inv w'"
proof -
  have v: "sess_view ses_pUsage w' = sess_view ses_pUsage w" "sess_view ses_hHandleTable w' = sess_view ses_hHandleTable w"
    "w_objs w' = w_objs w" "dx_pObjs (w_devext w') = dx_pObjs (w_devext w)"
    using assms(1) by (simp_all add: sem_view_def)
  have "obj_inv w'" unfolding obj_inv_view [OF v(1,3,4)] by (rule sem_invD(1) [OF assms(2)])
  then show ?thesis by (rule sem_inv_tables [OF v(1,2) _ assms(2)])
qed

lemma ldr_inv_view:
  assumes "ldr_view w' = ldr_view w" "ldr_inv w"
  shows "ldr_inv w'"
proof -
  have v: "sess_view ses_pLdrUsage w' = sess_view ses_pLdrUsage w" "w_imgs w' = w_imgs w"
    "dx_pLdrImages (w_devext w') = dx_pLdrImages (w_devext w)" using assms(1) by (simp_all add: ldr_view_def)
  have t: "ldr_total w' p = ldr_total w p" for p
    using sess_view_total [OF v(1), of "\<lambda>us. img_refs_in us p"] by (simp add: ldr_total_def ldr_refs_def)
  have u: "ldr_usage_ok (w_imgs w) s'" if z: "w_sess w' p = Some s'" for p s'
  proof -
    obtain s where "w_sess w p = Some s" "ses_pLdrUsage s = ses_pLdrUsage s'" by (rule sess_viewD [OF v(1) z])
    then show ?thesis using assms(2) unfolding ldr_inv_def ldr_usage_ok_def by metis
  qed
  show ?thesis using assms(2) u unfolding ldr_inv_def t v sess_view_dom [OF v(1)] by blast
qed

text \<open>The same bundles with a store of memory objects where every entry is still good.\<close>

lemma mem_inv_keep:
  assumes "sess_view ses_Bundle w' = sess_view ses_Bundle w" "mem_inv w" "mo_inv (w_memobjs w')"
    "\<And>p s r. w_sess w p = Some s \<Longrightarrow> r \<in> set (mem_refs s) \<Longrightarrow> ref_ok (w_memobjs w') r"
  shows "mem_inv w'"
proof -
  have s: "\<exists>s. w_sess w p = Some s \<and> mem_refs s = mem_refs s' \<and> bundles_ok s = bundles_ok s'" if z: "w_sess w' p = Some s'" for p s'
  proof -
    obtain s where "w_sess w p = Some s" "ses_Bundle s = ses_Bundle s'" by (rule sess_viewD [OF assms(1) z])
    then show ?thesis by (simp add: mem_refs_def bundles_ok_def)
  qed
  show ?thesis
    unfolding mem_inv_def
  proof (intro conjI allI impI ballI, goal_cases)
    case 1
    then show ?case by (rule assms(3))
  next
    case (2 p s')
    then show ?case using s mem_invD(2) [OF assms(2)] by metis
  next
    case (3 p s')
    then show ?case using s mem_invD(3) [OF assms(2)] by metis
  next
    case (4 p s' r)
    then show ?case using s assms(4) by metis
  next
    case (5 p q s t r u)
    then show ?case using s [OF 5(1)] s [OF 5(2)] mem_invD(5) [OF assms(2) _ _ 5(3)] by metis
  qed
qed

lemma mem_inv_view:
  assumes "mem_view w' = mem_view w" "mem_inv w"
  shows "mem_inv w'"
proof -
  have v: "sess_view ses_Bundle w' = sess_view ses_Bundle w" "w_memobjs w' = w_memobjs w"
    using assms(1) by (simp_all add: mem_view_def)
  show ?thesis by (rule mem_inv_keep [OF v(1) assms(2)]) (use mem_invD(1,4) [OF assms(2)] in \<open>simp_all add: v(2)\<close>)
qed

lemma gip_inv_view:
  assumes "gip_view w' = gip_view w" "gip_inv w"
  shows "gip_inv w'"
proof -
  let ?f = "\<lambda>s. (ses_GipMapObjR3 s, ses_fGipReferenced s)"
  have v: "sess_view ?f w' = sess_view ?f w" "w_memobjs w' = w_memobjs w"
    "dx_pGip (w_devext w') = dx_pGip (w_devext w)" "dx_GipMemObj (w_devext w') = dx_GipMemObj (w_devext w)"
    "dx_cGipUsers (w_devext w') = dx_cGipUsers (w_devext w)" "gip_running (w_trace w') = gip_running (w_trace w)"
    using assms(1) by (simp_all add: gip_view_def)
  have s: "\<exists>s. w_sess w p = Some s \<and> ses_GipMapObjR3 s = ses_GipMapObjR3 s' \<and> (gip_map_ok w s \<longleftrightarrow> gip_map_ok w' s')"
    if z: "w_sess w' p = Some s'" for p s'
  proof -
    obtain s where "w_sess w p = Some s" "?f s = ?f s'" by (rule sess_viewD [OF v(1) z])
    then show ?thesis by (simp add: gip_map_ok_def v)
  qed
  have t: "sess_total gip_refs w' = sess_total gip_refs w"
    using sess_view_total [OF v(1), of "\<lambda>x. of_bool (snd x)"] by (simp add: gip_refs_def [abs_def])
  show ?thesis
    unfolding gip_inv_def t sess_view_dom [OF v(1)] v(2,5,6)
  proof (intro conjI allI impI, goal_cases)
    case (7 p s')
    then show ?case using s gip_invD(7) [OF assms(2)] by metis
  next
    case (8 p q a b)
    then show ?case using s [OF 8(1)] s [OF 8(2)] gip_invD(8) [OF assms(2)] by metis
  qed (use gip_invD(1-6) [OF assms(2)] v in \<open>simp_all add: gip_page_ok_def\<close>)
qed

subsection \<open>What each step leaves alone\<close>

lemma gip_running_other [simp]: "e \<noteq> EvTimerStart \<Longrightarrow> e \<noteq> EvTimerStop \<Longrightarrow> gip_running (tr @ [e]) = gip_running tr"
  by (simp add: gip_running_def)

lemma sess_view_comp:
  assumes "sess_view k w' = sess_view k w" "\<And>s. f s = g (k s)"
  shows "sess_view f w' = sess_view f w"
proof -
  have "sess_view f x = map_option g \<circ> sess_view k x" for x
    by (rule ext) (simp add: sess_view_def option.map_comp comp_def assms(2) [symmetric])
  then show ?thesis using assms(1) by simp
qed

text \<open>The parts of the state that the object operations do not touch.\<close>

definition obj_rest :: "supdrv \<Rightarrow> _" where
  "obj_rest w = (sess_view (\<lambda>s. s\<lparr>ses_pUsage := []\<rparr>) w, w_imgs w, w_memobjs w, w_factories w,
     (w_devext w)\<lparr>dx_pObjs := [], dx_pUsageFree := 0\<rparr>, gip_running (w_trace w))"

lemma obj_rest_views:
  assumes "obj_rest w' = obj_rest w"
  shows "sess_view (\<lambda>s. s\<lparr>ses_pUsage := []\<rparr>) w' = sess_view (\<lambda>s. s\<lparr>ses_pUsage := []\<rparr>) w"
    "sess_view ses_hHandleTable w' = sess_view ses_hHandleTable w"
    "ldr_view w' = ldr_view w" "mem_view w' = mem_view w" "gip_view w' = gip_view w"
    "dx_pComponentFactoryHead (w_devext w') = dx_pComponentFactoryHead (w_devext w)"
    "dx_GipMemObj (w_devext w') = dx_GipMemObj (w_devext w)"
proof -
  have r: "sess_view (\<lambda>s. s\<lparr>ses_pUsage := []\<rparr>) w' = sess_view (\<lambda>s. s\<lparr>ses_pUsage := []\<rparr>) w"
    "w_imgs w' = w_imgs w" "w_memobjs w' = w_memobjs w"
    "(w_devext w')\<lparr>dx_pObjs := [], dx_pUsageFree := 0\<rparr> = (w_devext w)\<lparr>dx_pObjs := [], dx_pUsageFree := 0\<rparr>"
    "gip_running (w_trace w') = gip_running (w_trace w)"
    using assms by (simp_all add: obj_rest_def)
  show "sess_view (\<lambda>s. s\<lparr>ses_pUsage := []\<rparr>) w' = sess_view (\<lambda>s. s\<lparr>ses_pUsage := []\<rparr>) w" by (rule r(1))
  note c = sess_view_comp [OF r(1)]
  have h: "sess_view ses_hHandleTable w' = sess_view ses_hHandleTable w" by (rule c [of _ ses_hHandleTable]) simp
  have l: "sess_view ses_pLdrUsage w' = sess_view ses_pLdrUsage w" by (rule c [of _ ses_pLdrUsage]) simp
  have b: "sess_view ses_Bundle w' = sess_view ses_Bundle w" by (rule c [of _ ses_Bundle]) simp
  have g: "sess_view (\<lambda>s. (ses_GipMapObjR3 s, ses_fGipReferenced s)) w' = sess_view (\<lambda>s. (ses_GipMapObjR3 s, ses_fGipReferenced s)) w"
    by (rule c [of _ "\<lambda>s. (ses_GipMapObjR3 s, ses_fGipReferenced s)"]) simp
  have d: "dx_pLdrImages (w_devext w') = dx_pLdrImages (w_devext w)" "dx_pGip (w_devext w') = dx_pGip (w_devext w)"
    "dx_GipMemObj (w_devext w') = dx_GipMemObj (w_devext w)" "dx_cGipUsers (w_devext w') = dx_cGipUsers (w_devext w)"
    "dx_pComponentFactoryHead (w_devext w') = dx_pComponentFactoryHead (w_devext w)"
    using arg_cong [OF r(4), of dx_pLdrImages] arg_cong [OF r(4), of dx_pGip] arg_cong [OF r(4), of dx_GipMemObj]
      arg_cong [OF r(4), of dx_cGipUsers] arg_cong [OF r(4), of dx_pComponentFactoryHead] by simp_all
  show "sess_view ses_hHandleTable w' = sess_view ses_hHandleTable w" by (rule h)
  show "ldr_view w' = ldr_view w" by (simp add: ldr_view_def l r(2) d(1))
  show "mem_view w' = mem_view w" by (simp add: mem_view_def b r(3))
  show "gip_view w' = gip_view w" by (simp add: gip_view_def g r(3,5) d)
  show "dx_pComponentFactoryHead (w_devext w') = dx_pComponentFactoryHead (w_devext w)" by (rule d(5))
  show "dx_GipMemObj (w_devext w') = dx_GipMemObj (w_devext w)" by (rule d(3))
qed

lemma obj_rest_set_sess:
  "w_sess w sp = Some t \<Longrightarrow> s\<lparr>ses_pUsage := []\<rparr> = t\<lparr>ses_pUsage := []\<rparr> \<Longrightarrow> obj_rest (set_sess w sp s) = obj_rest w"
  by (auto simp: obj_rest_def sess_view_def fun_eq_iff)

lemma obj_rest_set_obj [simp]: "obj_rest (set_obj w p b) = obj_rest w"
  by (simp add: obj_rest_def sess_view_def)

lemma obj_rest_set_dx: "(\<And>d. (f d)\<lparr>dx_pObjs := [], dx_pUsageFree := 0\<rparr> = d\<lparr>dx_pObjs := [], dx_pUsageFree := 0\<rparr>) \<Longrightarrow> obj_rest (set_dx w f) = obj_rest w"
  by (simp add: obj_rest_def sess_view_def)

lemma obj_rest_destroy [simp]: "obj_rest (obj_destroy w p ob) = obj_rest w" "w_sess (obj_destroy w p ob) = w_sess w"
  by (simp_all add: obj_destroy_def Let_def obj_rest_def sess_view_def)

lemma SUPR0ObjRelease_rest:
  assumes "SUPR0ObjRelease w p sp = Some (rc, w')"
  shows "obj_rest w' = obj_rest w"
proof (cases "w_sess w sp")
  case None
  then show ?thesis using assms by (simp add: SUPR0ObjRelease_def)
next
  case (Some s)
  have r: "obj_rest (set_sess w sp (s\<lparr>ses_pUsage := us\<rparr>)) = obj_rest w" for us by (rule obj_rest_set_sess [OF Some]) simp
  have r': "obj_rest (set_sess (set_obj w q b) sp (s\<lparr>ses_pUsage := us\<rparr>)) = obj_rest w" for us q b
    using obj_rest_set_sess [of "set_obj w q b" sp s "s\<lparr>ses_pUsage := us\<rparr>"] Some by simp
  have d: "obj_rest (set_dx x (\<lambda>d. d\<lparr>dx_pUsageFree := dx_pUsageFree d + 1\<rparr>)) = obj_rest x" for x by (rule obj_rest_set_dx) simp
  show ?thesis
    using assms Some r r' d by (auto simp: SUPR0ObjRelease_def Let_def split: if_splits option.splits)
qed

lemma SUPR0ObjRelease_other: "SUPR0ObjRelease w p sp = Some (rc, w') \<Longrightarrow> k \<noteq> sp \<Longrightarrow> w_sess w' k = w_sess w k"
  by (auto simp: SUPR0ObjRelease_def Let_def split: if_splits option.splits)

lemma cleanup_objs_rest:
  "cleanup_objs w sp s us = Some w' \<Longrightarrow> w_sess w sp = Some t \<Longrightarrow> s\<lparr>ses_pUsage := []\<rparr> = t\<lparr>ses_pUsage := []\<rparr> \<Longrightarrow> obj_rest w' = obj_rest w"
proof (induction us arbitrary: w t)
  case (Cons u us)
  let ?w1 = "set_sess w sp (s\<lparr>ses_pUsage := us\<rparr>)"
  have r: "obj_rest ?w1 = obj_rest w" by (rule obj_rest_set_sess [OF Cons.prems(2)]) (use Cons.prems(3) in simp)
  have k: "s\<lparr>ses_pUsage := []\<rparr> = (s\<lparr>ses_pUsage := us\<rparr>)\<lparr>ses_pUsage := []\<rparr>" by simp
  obtain ob where ob: "w_objs w (usg_pObj u) = Some ob" using Cons.prems(1) by (auto simp: Let_def split: option.splits)
  show ?case
  proof (cases "usg_cUsage u < obj_cUsage ob")
    case True
    then have "cleanup_objs (set_obj ?w1 (usg_pObj u) (ob\<lparr>obj_cUsage := obj_cUsage ob - usg_cUsage u\<rparr>)) sp s us = Some w'"
      using Cons.prems(1) ob by (simp add: Let_def)
    from Cons.IH [OF this _ k] show ?thesis using r by simp
  next
    case False
    then have "cleanup_objs (obj_destroy ?w1 (usg_pObj u) ob) sp s us = Some w'" using Cons.prems(1) ob by (simp add: Let_def)
    from Cons.IH [OF this _ k] show ?thesis using r by simp
  qed
qed simp

text \<open>The delete callbacks: each gives up one reference of the session.\<close>

definition call_count :: "(u32 \<times> u64 \<times> u64) list \<Rightarrow> u64 \<Rightarrow> nat" where
  "call_count xs p = length (filter (\<lambda>x. fst (snd x) = p) xs)"

lemma ht_delete_calls_ok:
  "obj_inv w \<Longrightarrow> w_sess w sp = Some s \<Longrightarrow> SUP_IS_SESSION_VALID sp s \<Longrightarrow> (\<forall>p. call_count xs p \<le> obj_refs w sp p) \<Longrightarrow>
   \<exists>w' s'. ht_delete_calls w sp xs = Some w' \<and> obj_inv w' \<and> obj_rest w' = obj_rest w \<and> w_sess w' sp = Some s' \<and>
     s'\<lparr>ses_pUsage := []\<rparr> = s\<lparr>ses_pUsage := []\<rparr> \<and> (\<forall>k. k \<noteq> sp \<longrightarrow> w_sess w' k = w_sess w k)"
proof (induction xs arbitrary: w s)
  case Nil
  show ?case
    by (intro exI [of _ w] exI [of _ s] conjI ht_delete_calls.simps(1) Nil.prems(1,2) refl allI impI)
next
  case (Cons x xs)
  let ?p = "fst (snd x)"
  have "0 < call_count (x # xs) ?p" by (simp add: call_count_def)
  then have r: "0 < obj_refs w sp ?p" by (rule less_le_trans [OF _ Cons.prems(4) [rule_format]])
  then have "?p \<in> dom (w_objs w)" unfolding obj_alive_iff [OF Cons.prems(1)] by (rule exI)
  then obtain ob where ob: "w_objs w ?p = Some ob" by (auto simp: dom_def)
  show ?case
  proof (rule SUPR0ObjRelease_ok [OF Cons.prems(1-3) ob], goal_cases)
    case (1 rc w1)
    have rest: "obj_rest w1 = obj_rest w" by (rule SUPR0ObjRelease_rest [OF 1(1)])
    have refs: "\<forall>k y. obj_refs w k y = obj_refs w1 k y + of_bool (k = sp \<and> y = ?p)" by (rule 1(6) [OF r])
    obtain us where s1: "w_sess w1 sp = Some (s\<lparr>ses_pUsage := us\<rparr>)"
      by (rule sess_frameD [OF SUPR0ObjRelease_frame [OF 1(1)] Cons.prems(2)])
    have v1: "SUP_IS_SESSION_VALID sp (s\<lparr>ses_pUsage := us\<rparr>)" by (rule valid_frame [OF Cons.prems(3)])
    have "\<forall>p. call_count xs p \<le> obj_refs w1 sp p"
    proof
      fix p
      have c: "call_count (x # xs) p = call_count xs p + of_bool (p = ?p)" by (simp add: call_count_def)
      have "call_count (x # xs) p \<le> obj_refs w sp p" using Cons.prems(4) by blast
      moreover have "obj_refs w sp p = obj_refs w1 sp p + of_bool (p = ?p)" using refs by simp
      ultimately show "call_count xs p \<le> obj_refs w1 sp p" unfolding c by simp
    qed
    from Cons.IH [OF 1(2) s1 v1 this] obtain w' s' where w': "ht_delete_calls w1 sp xs = Some w'" "obj_inv w'"
      "obj_rest w' = obj_rest w1" "w_sess w' sp = Some s'" "s'\<lparr>ses_pUsage := []\<rparr> = (s\<lparr>ses_pUsage := us\<rparr>)\<lparr>ses_pUsage := []\<rparr>"
      "\<forall>k. k \<noteq> sp \<longrightarrow> w_sess w' k = w_sess w1 k" by blast
    have "ht_delete_calls w sp (x # xs) = Some w'" using 1(1) w'(1) by (simp add: supdrvSessionObjHandleDelete_def)
    moreover have "w_sess w' k = w_sess w k" if "k \<noteq> sp" for k using w'(6) SUPR0ObjRelease_other [OF 1(1)] that by simp
    ultimately show ?case using w'(2-5) rest by (intro exI [of _ w'] exI [of _ s']) simp
  qed
qed

text \<open>The handles of a table are as many calls of the callback as the references they hold.\<close>

lemma destroy_call_count:
  assumes "ht_ok t"
  shows "call_count (RTHandleTableDestroy (Some t)) p = handle_refs t p"
proof -
  let ?L = "RTHandleTableDestroy (Some t)" and ?P = "\<lambda>x::u32 \<times> u64 \<times> u64. fst (snd x) = p"
  note L = RTHandleTableDestroy_calls [OF assms]
  have "distinct (map fst (filter ?P ?L))" using L by (simp add: distinct_map_filter)
  then have "length (map fst (filter ?P ?L)) = card (set (map fst (filter ?P ?L)))" by (rule distinct_card [symmetric])
  moreover have "set (map fst (filter ?P ?L)) = {h. \<exists>c. ht_map t h = Some (p, c)}" using L by force
  ultimately show ?thesis by (simp add: call_count_def handle_refs_def)
qed

lemma drop_table_sem_inv:
  assumes "sem_inv w" "obj_inv w1" "sess_view ses_hHandleTable w1 = sess_view ses_hHandleTable w"
    "w_sess w1 sp = Some s1" "\<forall>k p. k \<noteq> sp \<longrightarrow> obj_refs w1 k p = obj_refs w k p"
  shows "sem_inv (set_sess w1 sp (s1\<lparr>ses_hHandleTable := None\<rparr>))"
proof (rule sem_invI)
  let ?w = "set_sess w1 sp (s1\<lparr>ses_hHandleTable := None\<rparr>)"
  have v: "sess_view ses_pUsage ?w = sess_view ses_pUsage w1" using assms(4) by (auto simp: sess_view_def fun_eq_iff)
  show "obj_inv ?w" using obj_inv_view [OF v] assms(2) by simp
  fix k t assume t: "tables_of ?w k = Some t"
  then have k: "k \<noteq> sp" "tables_of w1 k = Some t" by (auto simp: tables_of_def split: if_splits)
  then have "tables_of w k = Some t" using tables_of_view [OF assms(3)] by simp
  note D = sem_invD(2-4) [OF assms(1) this]
  show "ht_ok t \<and> (\<forall>p. handle_refs t p \<le> obj_refs ?w k p) \<and> (\<forall>h c. ht_map t h \<noteq> Some (0, c))"
    using D assms(5) k(1) by (simp add: obj_refs_view [OF v])
qed

text \<open>The memory step: the session's bundles and the store of memory objects.\<close>

lemma mem_step_views:
  assumes "w_sess w sp = Some s" "w' = mem_result (set_sess w sp (s\<lparr>ses_Bundle := bs\<rparr>)) h"
  shows "sem_view w' = sem_view w" "ldr_view w' = ldr_view w"
  using assms by (auto simp: sem_view_def ldr_view_def sess_view_def fun_eq_iff)

lemma mem_step_gip:
  assumes "gip_inv w" "w_sess w sp = Some s" "w' = mem_result (set_sess w sp (s\<lparr>ses_Bundle := bs\<rparr>)) h" "mo_inv h"
    "\<forall>q n. w_memobjs w q = Some n \<longrightarrow> mr_MemObj ` set (mem_refs s) \<inter> {mo_root q n} = {} \<longrightarrow> h q = w_memobjs w q"
    "\<forall>r\<in>set (mem_refs s). mr_MemObj r \<noteq> dx_GipMemObj (w_devext w)"
  shows "gip_inv w'"
proof -
  let ?g = "dx_GipMemObj (w_devext w)"
  have own: "mr_MemObj ` set (mem_refs s) \<inter> {?g} = {}" using assms(6) by auto
  have keep: "h q = Some n" if "w_memobjs w q = Some n" "mo_root q n = ?g" for q n
  proof -
    have "mr_MemObj ` set (mem_refs s) \<inter> {mo_root q n} = {}" unfolding that(2) by (rule own)
    then show ?thesis using assms(5) [rule_format, OF that(1)] that(1) by (rule_tac trans)
  qed
  have mapped: "gip_map_ok w' t'" if t: "w_sess w p = Some t" "ses_GipMapObjR3 t' = ses_GipMapObjR3 t" "ses_fGipReferenced t' = ses_fGipReferenced t" for p t t'
  proof -
    have "gip_map_ok w t" by (rule gip_invD(7) [OF assms(1) t(1)])
    then show ?thesis
      using keep t(2,3) unfolding gip_map_ok_def assms(3) by (auto simp: mo_root_def)
  qed
  have page: "gip_page_ok w'"
  proof (rule gip_page_keep [OF gip_invD(4) [OF assms(1)]], goal_cases)
    case 1
    then show ?case by (simp add: assms(3))
  next
    case (2 g)
    then show ?case using gip_invD(4) [OF assms(1)] by (simp add: assms(3) gip_page_ok_def)
  next
    case (3 m)
    then have "mo_root ?g m = ?g" by (simp add: mo_root_def rtR0MemObjIsMapping_def)
    then show ?case using keep [OF 3(1)] 3(2) by (simp add: assms(3))
  qed
  note tot = gip_total [OF assms(1,2)]
  show ?thesis
  proof (rule gip_inv_upd [OF assms(1,2), where s' = "s\<lparr>ses_Bundle := bs\<rparr>"], goal_cases)
    case 1
    then show ?case by (simp add: assms(3))
  next
    case 2
    then show ?case using assms(4) by (simp add: assms(3))
  next
    case 3
    then show ?case by (rule page)
  next
    case 4
    then show ?case using tot by (simp add: assms(3) gip_refs_def)
  next
    case 5
    then show ?case using tot gip_invD(5,6) [OF assms(1)] by (simp add: assms(3) gip_refs_def)
  next
    case 6
    then show ?case by (rule mapped [OF assms(2)]) simp_all
  next
    case (7 q t)
    then show ?case using mapped [OF 7(2)] gip_invD(8) [OF assms(1) 7(2) assms(2)] 7(1) by auto
  qed
qed

text \<open>The factory step.\<close>

lemma factories_views [simp]:
  "sem_view (cleanup_factories w sp) = sem_view w" "ldr_view (cleanup_factories w sp) = ldr_view w"
  "mem_view (cleanup_factories w sp) = mem_view w" "gip_view (cleanup_factories w sp) = gip_view w"
  "w_sess (cleanup_factories w sp) = w_sess w" "w_memobjs (cleanup_factories w sp) = w_memobjs w"
  "w_imgs (cleanup_factories w sp) = w_imgs w" "w_objs (cleanup_factories w sp) = w_objs w"
  "dx_GipMemObj (w_devext (cleanup_factories w sp)) = dx_GipMemObj (w_devext w)"
  "dx_pGip (w_devext (cleanup_factories w sp)) = dx_pGip (w_devext w)"
  "dx_pComponentFactoryHead (w_devext (cleanup_factories w sp)) =
     filter (\<lambda>r. reg_pSession r \<noteq> sp) (dx_pComponentFactoryHead (w_devext w))"
  by (simp_all add: cleanup_factories_def fct_cleanup_walk_filter sem_view_def ldr_view_def mem_view_def gip_view_def sess_view_def)

text \<open>The image step.\<close>

definition img_rest :: "supdrv \<Rightarrow> _" where
  "img_rest w = (w_sess w, w_memobjs w, w_factories w,
     (w_devext w)\<lparr>dx_pLdrImages := [], dx_pvVMMR0 := 0, dx_pfnVMMR0EntryInt := 0, dx_pfnVMMR0EntryFast := 0, dx_pfnVMMR0EntryEx := 0\<rparr>,
     gip_running (w_trace w), dom (w_objs w))"

lemma img_rest_simps [simp]:
  "img_rest (set_img w p im) = img_rest w" "img_rest (w\<lparr>w_imgs := m\<rparr>) = img_rest w"
  "img_rest (log_ev w (EvModuleTerm a)) = img_rest w" "img_rest (log_ev w (EvNativeUnload a)) = img_rest w"
  "img_rest (ldr_unlink w p im) = img_rest w"
  "w_objs w p \<noteq> None \<Longrightarrow> img_rest (set_obj w p b) = img_rest w"
  by (auto simp: img_rest_def ldr_unlink_def supdrvLdrUnsetVMMR0EPs_def Let_def)

lemma ldr_clear_dtors_rest: "ldr_clear_dtors w im ps = Some w' \<Longrightarrow> img_rest w' = img_rest w"
  by (induction ps arbitrary: w) (auto split: option.splits if_splits)

lemma supdrvLdrFree_rest: "supdrvLdrFree w p = Some w' \<Longrightarrow> img_rest w' = img_rest w"
  by (auto simp: supdrvLdrFree_def Let_def bind_eq_Some_conv dest!: ldr_clear_dtors_rest split: option.splits if_splits)

lemma cleanup_imgs_rest: "cleanup_imgs w us = Some w' \<Longrightarrow> img_rest w' = img_rest w"
proof (induction us arbitrary: w)
  case (Cons u us)
  then obtain im where im: "w_imgs w (lus_pImage u) = Some im" by (auto split: option.splits)
  show ?case
  proof (cases "lus_cUsage u < img_cUsage im")
    case True
    then show ?thesis using Cons.IH Cons.prems im by fastforce
  next
    case False
    then obtain w1 where w1: "supdrvLdrFree w (lus_pImage u) = Some w1" "cleanup_imgs w1 us = Some w'"
      using Cons.prems im by (auto simp: bind_eq_Some_conv)
    show ?thesis using Cons.IH [OF w1(2)] supdrvLdrFree_rest [OF w1(1)] by simp
  qed
qed simp

lemma img_rest_views:
  assumes "img_rest w' = img_rest w"
  shows "w_sess w' = w_sess w" "mem_view w' = mem_view w" "gip_view w' = gip_view w" "dom (w_objs w') = dom (w_objs w)"
    "w_memobjs w' = w_memobjs w" "dx_pComponentFactoryHead (w_devext w') = dx_pComponentFactoryHead (w_devext w)"
    "dx_GipMemObj (w_devext w') = dx_GipMemObj (w_devext w)"
proof -
  let ?z = "\<lambda>d. d\<lparr>dx_pLdrImages := [], dx_pvVMMR0 := 0, dx_pfnVMMR0EntryInt := 0, dx_pfnVMMR0EntryFast := 0, dx_pfnVMMR0EntryEx := 0\<rparr>"
  have r: "w_sess w' = w_sess w" "w_memobjs w' = w_memobjs w" "?z (w_devext w') = ?z (w_devext w)"
    "gip_running (w_trace w') = gip_running (w_trace w)" "dom (w_objs w') = dom (w_objs w)"
    using assms by (simp_all add: img_rest_def)
  have d: "dx_pGip (w_devext w') = dx_pGip (w_devext w)" "dx_GipMemObj (w_devext w') = dx_GipMemObj (w_devext w)"
    "dx_cGipUsers (w_devext w') = dx_cGipUsers (w_devext w)"
    "dx_pComponentFactoryHead (w_devext w') = dx_pComponentFactoryHead (w_devext w)"
    using arg_cong [OF r(3), of dx_pGip] arg_cong [OF r(3), of dx_GipMemObj] arg_cong [OF r(3), of dx_cGipUsers]
      arg_cong [OF r(3), of dx_pComponentFactoryHead] by simp_all
  show "w_sess w' = w_sess w" "dom (w_objs w') = dom (w_objs w)" "w_memobjs w' = w_memobjs w" by (rule r)+
  show "dx_pComponentFactoryHead (w_devext w') = dx_pComponentFactoryHead (w_devext w)"
    "dx_GipMemObj (w_devext w') = dx_GipMemObj (w_devext w)" by (rule d)+
  show "mem_view w' = mem_view w" "gip_view w' = gip_view w"
    by (simp_all add: mem_view_def gip_view_def sess_view_def r(1,2,4) d)
qed

text \<open>The last step: the mapping of the GIP.\<close>

definition gip_rest :: "supdrv \<Rightarrow> _" where
  "gip_rest w = (sess_view (\<lambda>s. s\<lparr>ses_GipMapObjR3 := 0, ses_fGipReferenced := False\<rparr>) w, w_objs w, w_imgs w, w_factories w,
     (w_devext w)\<lparr>dx_cGipUsers := 0, dx_u32SystemTimerGranularityGrant := 0\<rparr>)"

lemma GipUnmap_rest:
  assumes "SUPR0GipUnmap hst w sp = Some (rc, w')"
  shows "gip_rest w' = gip_rest w \<and> (w_memobjs w' = w_memobjs w \<or>
    (\<exists>s rc. w_sess w sp = Some s \<and> ses_GipMapObjR3 s \<noteq> 0 \<and>
       RTR0MemObjFree hst (w_memobjs w) (ses_GipMapObjR3 s) False = Some (rc, w_memobjs w')))"
proof (cases "w_sess w sp")
  case None
  then show ?thesis using assms by (simp add: SUPR0GipUnmap_def)
next
  case (Some s)
  let ?k = "\<lambda>s. s\<lparr>ses_GipMapObjR3 := 0, ses_fGipReferenced := False\<rparr>"
  have r: "gip_rest (mem_result (set_sess w sp t) h) = gip_rest w" "gip_rest (set_sess (mem_result (set_sess w sp u) h) sp t) = gip_rest w"
    if "?k t = ?k s" for t u h
    using that Some by (auto simp: gip_rest_def sess_view_def fun_eq_iff)
  have d: "gip_rest (set_dx x f) = gip_rest x" if "\<And>d. (f d)\<lparr>dx_cGipUsers := 0, dx_u32SystemTimerGranularityGrant := 0\<rparr> =
      d\<lparr>dx_cGipUsers := 0, dx_u32SystemTimerGranularityGrant := 0\<rparr>" for x f
    using that by (simp add: gip_rest_def sess_view_def)
  have l: "gip_rest (log_ev x e) = gip_rest x" for x e by (simp add: gip_rest_def sess_view_def)
  show ?thesis
    using assms Some r d l by (auto simp: SUPR0GipUnmap_def Let_def split: if_splits option.splits)
qed

lemma gip_rest_views:
  assumes "gip_rest w' = gip_rest w"
  shows "sem_view w' = sem_view w" "ldr_view w' = ldr_view w" "sess_view ses_Bundle w' = sess_view ses_Bundle w"
    "w_imgs w' = w_imgs w" "w_objs w' = w_objs w" "dx_GipMemObj (w_devext w') = dx_GipMemObj (w_devext w)"
    "dx_pComponentFactoryHead (w_devext w') = dx_pComponentFactoryHead (w_devext w)" "dx_pGip (w_devext w') = dx_pGip (w_devext w)"
proof -
  let ?z = "\<lambda>d. d\<lparr>dx_cGipUsers := 0, dx_u32SystemTimerGranularityGrant := 0\<rparr>"
  have r: "sess_view (\<lambda>s. s\<lparr>ses_GipMapObjR3 := 0, ses_fGipReferenced := False\<rparr>) w' =
      sess_view (\<lambda>s. s\<lparr>ses_GipMapObjR3 := 0, ses_fGipReferenced := False\<rparr>) w"
    "w_objs w' = w_objs w" "w_imgs w' = w_imgs w" "?z (w_devext w') = ?z (w_devext w)"
    using assms by (simp_all add: gip_rest_def)
  have d: "dx_pObjs (w_devext w') = dx_pObjs (w_devext w)" "dx_pLdrImages (w_devext w') = dx_pLdrImages (w_devext w)"
    "dx_GipMemObj (w_devext w') = dx_GipMemObj (w_devext w)"
    "dx_pComponentFactoryHead (w_devext w') = dx_pComponentFactoryHead (w_devext w)" "dx_pGip (w_devext w') = dx_pGip (w_devext w)"
    using arg_cong [OF r(4), of dx_pObjs] arg_cong [OF r(4), of dx_pLdrImages] arg_cong [OF r(4), of dx_GipMemObj]
      arg_cong [OF r(4), of dx_pComponentFactoryHead] arg_cong [OF r(4), of dx_pGip] by simp_all
  have v: "sess_view ses_pUsage w' = sess_view ses_pUsage w" "sess_view ses_hHandleTable w' = sess_view ses_hHandleTable w"
    "sess_view ses_pLdrUsage w' = sess_view ses_pLdrUsage w"
    by (rule sess_view_comp [OF r(1), of _ ses_pUsage], simp) (rule sess_view_comp [OF r(1), of _ ses_hHandleTable], simp,
        rule sess_view_comp [OF r(1), of _ ses_pLdrUsage], simp)
  show "sess_view ses_Bundle w' = sess_view ses_Bundle w" by (rule sess_view_comp [OF r(1), of _ ses_Bundle]) simp
  show "sem_view w' = sem_view w" "ldr_view w' = ldr_view w" by (simp_all add: sem_view_def ldr_view_def v r d)
  show "w_imgs w' = w_imgs w" "w_objs w' = w_objs w" by (rule r)+
  show "dx_GipMemObj (w_devext w') = dx_GipMemObj (w_devext w)"
    "dx_pComponentFactoryHead (w_devext w') = dx_pComponentFactoryHead (w_devext w)" "dx_pGip (w_devext w') = dx_pGip (w_devext w)"
    by (rule d)+
qed

text \<open>No session tracks the memory of the GIP.\<close>

definition gip_apart :: "supdrv \<Rightarrow> bool" where
  "gip_apart w \<longleftrightarrow> (\<forall>p s r. w_sess w p = Some s \<longrightarrow> r \<in> set (mem_refs s) \<longrightarrow> mr_MemObj r \<noteq> dx_GipMemObj (w_devext w))"

lemma GipUnmap_mem_inv:
  assumes "SUPR0GipUnmap hst w sp = Some (rc, w')" "gip_inv w" "mem_inv w" "gip_apart w"
  shows "mem_inv w'" "w_memobjs w q = None \<Longrightarrow> w_memobjs w' q = None"
proof -
  note R = GipUnmap_rest [OF assms(1)]
  have b: "sess_view ses_Bundle w' = sess_view ses_Bundle w" using R gip_rest_views(3) by blast
  have m: "mo_inv (w_memobjs w') \<and> (\<forall>p s r. w_sess w p = Some s \<longrightarrow> r \<in> set (mem_refs s) \<longrightarrow> ref_ok (w_memobjs w') r) \<and>
    (\<forall>q. w_memobjs w q = None \<longrightarrow> w_memobjs w' q = None)"
  proof (cases "w_memobjs w' = w_memobjs w")
    case True
    then show ?thesis using mem_invD(1,4) [OF assms(3)] by simp
  next
    case False
    with R obtain s rc0 where s: "w_sess w sp = Some s" "ses_GipMapObjR3 s \<noteq> 0"
      "RTR0MemObjFree hst (w_memobjs w) (ses_GipMapObjR3 s) False = Some (rc0, w_memobjs w')" by blast
    let ?q = "ses_GipMapObjR3 s" and ?h = "w_memobjs w" and ?g = "dx_GipMemObj (w_devext w)"
    obtain c where c: "?h ?q = Some c" "rtR0MemObjIsMapping c" "mo_fNative c" "mo_pParent c = ?g"
      using gip_other_map [OF assms(2) s(1,2)] by blast
    show ?thesis
    proof (rule mo_free_mapping [OF gip_invD(3) [OF assms(2)] c(1-3), of hst False], goal_cases)
      case (1 P)
      let ?P = "P\<lparr>mo_papMappings := mo_unlink ?q (mo_papMappings P)\<rparr>"
      have h': "w_memobjs w' = (?h(?g \<mapsto> ?P))(?q := None)" using 1(4) s(3) False c(4) by (auto split: if_splits)
      have P: "?h ?g = Some P" "\<not> rtR0MemObjIsMapping P" using 1(1,2) c(4) by simp_all
      have "ref_ok (w_memobjs w') r" if r: "w_sess w p = Some t" "r \<in> set (mem_refs t)" for p t r
      proof -
        have ok: "ref_ok ?h r" by (rule mem_invD(4) [OF assms(3) r])
        have ne: "mr_MemObj r \<noteq> ?g" using assms(4) r unfolding gip_apart_def by blast
        show ?thesis
        proof (rule ref_ok_cong(1) [OF ok])
          show "w_memobjs w' (mr_MemObj r) = ?h (mr_MemObj r)" using ok c(1,2) ne by (auto simp: h' ref_ok_def)
          show "mr_MapObjR3 r \<noteq> 0 \<longrightarrow> w_memobjs w' (mr_MapObjR3 r) = ?h (mr_MapObjR3 r)"
            using ok c(1,4) P ne by (auto simp: h' ref_ok_def)
        qed
      qed
      moreover have "mo_inv (w_memobjs w')" using 1(5) unfolding h' c(4) .
      moreover have "\<forall>q. ?h q = None \<longrightarrow> w_memobjs w' q = None" using P(1) by (auto simp: h')
      ultimately show ?case by blast
    qed
  qed
  show "mem_inv w'" by (rule mem_inv_keep [OF b assms(3)]) (use m in blast)+
  show "w_memobjs w q = None \<Longrightarrow> w_memobjs w' q = None" using m by blast
qed

lemma gip_step:
  assumes "gip_inv w" "mem_inv w" "gip_apart w" "w_sess w sp = Some s" "SUP_IS_SESSION_VALID sp s" "\<forall>n. hst_Free hst n = VINF_SUCCESS"
  shows "\<exists>w' s'. cleanup_gip hst w sp = Some w' \<and> gip_inv w' \<and> mem_inv w' \<and> gip_rest w' = gip_rest w \<and>
    w_sess w' = (w_sess w)(sp \<mapsto> s') \<and> (\<forall>q. w_memobjs w q = None \<longrightarrow> w_memobjs w' q = None) \<and>
    ses_GipMapObjR3 s' = 0 \<and> (ses_fGipReferenced s' \<longleftrightarrow> ses_fGipReferenced s \<and> ses_GipMapObjR3 s = 0)"
proof (cases "ses_GipMapObjR3 s = 0")
  case True
  then have "cleanup_gip hst w sp = Some w" using assms(4) by (simp add: cleanup_gip_def)
  moreover have "w_sess w = (w_sess w)(sp \<mapsto> s)" using assms(4) by (simp add: fun_upd_idem)
  ultimately show ?thesis using assms(1,2) True by (intro exI [of _ w] exI [of _ s]) simp
next
  case False
  obtain rc w1 s1 where u: "SUPR0GipUnmap hst w sp = Some (rc, w1)" "gip_inv w1" "w_sess w1 = (w_sess w)(sp \<mapsto> s1)"
    "rc = VINF_SUCCESS \<longrightarrow> \<not> ses_fGipReferenced s1 \<and> ses_GipMapObjR3 s1 = 0"
    "rc = hst_Free hst (the (w_memobjs w (ses_GipMapObjR3 s)))"
    using GipUnmap_ok [OF assms(1,4,5), of hst] False by blast
  have r: "\<not> ses_fGipReferenced s1" "ses_GipMapObjR3 s1 = 0" using u(4,5) assms(6) by simp_all
  have s1: "w_sess w1 sp = Some s1" using u(3) by simp
  have "set_sess w1 sp (s1\<lparr>ses_fGipReferenced := False\<rparr>) = w1"
    using s1 r(1) by (simp add: set_sess_def fun_upd_idem)
  then have c: "cleanup_gip hst w sp = Some w1" using False assms(4) u(1) s1 by (simp add: cleanup_gip_def)
  show ?thesis
    using c u(2,3) r False GipUnmap_mem_inv [OF u(1) assms(1-3)] GipUnmap_rest [OF u(1)]
    by (intro exI [of _ w1] exI [of _ s1]) simp
qed

subsection \<open>A session without resources goes away\<close>

abbreviation (input) drop_sess :: "supdrv \<Rightarrow> addr \<Rightarrow> supdrv" where
  "drop_sess w sp \<equiv> w\<lparr>w_sess := (w_sess w)(sp := None)\<rparr>"

lemma drop_sess_total:
  assumes "finite (dom (w_sess w))" "w_sess w sp = Some s"
  shows "sess_total f (drop_sess w sp) = sess_other f w sp" "sess_total f w = f s + sess_total f (drop_sess w sp)"
proof -
  have "dom (w_sess (drop_sess w sp)) = dom (w_sess w) - {sp}" by auto
  then show "sess_total f (drop_sess w sp) = sess_other f w sp"
    unfolding sess_total_def sess_other_def by (intro sum.cong) auto
  then show "sess_total f w = f s + sess_total f (drop_sess w sp)" using sess_total_split [OF assms] by simp
qed

lemma drop_sess_sem:
  assumes "sem_inv w" "w_sess w sp = Some s" "ses_pUsage s = []"
  shows "sem_inv (drop_sess w sp)"
proof -
  let ?w = "drop_sess w sp"
  have i: "obj_inv w" and fin: "finite (dom (w_sess w))" using sem_invD(1) [OF assms(1)] by (auto simp: obj_inv_def)
  have t: "total_refs ?w p = total_refs w p" for p
    using drop_sess_total(2) [OF fin assms(2), of "\<lambda>s. sess_refs s p"] assms(3) by (simp add: total_refs_def sess_refs_def)
  have o: "obj_inv ?w"
    using i fin unfolding obj_inv_def obj_ok_def t by (auto split: if_splits)
  show ?thesis
  proof (rule sem_invI [OF o])
    fix k x assume "tables_of ?w k = Some x"
    then have k: "k \<noteq> sp" "tables_of w k = Some x" by (auto simp: tables_of_def split: if_splits)
    have "obj_refs ?w k p = obj_refs w k p" for p using k(1) by (simp add: obj_refs_def)
    then show "ht_ok x \<and> (\<forall>p. handle_refs x p \<le> obj_refs ?w k p) \<and> (\<forall>h c. ht_map x h \<noteq> Some (0, c))"
      using sem_invD(2-4) [OF assms(1) k(2)] by simp
  qed
qed

lemma drop_sess_ldr:
  assumes "ldr_inv w" "w_sess w sp = Some s" "ses_pLdrUsage s = []"
  shows "ldr_inv (drop_sess w sp)"
proof -
  have fin: "finite (dom (w_sess w))" using assms(1) by (simp add: ldr_inv_def)
  have t: "ldr_total (drop_sess w sp) p = ldr_total w p" for p
    using drop_sess_total(2) [OF fin assms(2), of "\<lambda>s. ldr_refs s p"] assms(3) by (simp add: ldr_total_def ldr_refs_def)
  show ?thesis using assms(1) unfolding ldr_inv_def t by (auto split: if_splits)
qed

lemma drop_sess_mem: "mem_inv w \<Longrightarrow> mem_inv (drop_sess w sp)"
  by (auto simp: mem_inv_def split: if_splits)

lemma drop_sess_gip:
  assumes "gip_inv w" "w_sess w sp = Some s"
  shows "gip_inv (drop_sess w sp) \<longleftrightarrow> \<not> ses_fGipReferenced s"
proof
  have fin: "finite (dom (w_sess w))" by (rule gip_invD(1) [OF assms(1)])
  note t = drop_sess_total(2) [OF fin assms(2), of gip_refs]
  {
    assume "gip_inv (drop_sess w sp)"
    from gip_invD(5) [OF this] gip_invD(5) [OF assms(1)] t show "\<not> ses_fGipReferenced s"
      by (auto simp: gip_refs_def)
  next
    assume n: "\<not> ses_fGipReferenced s"
    have e: "sess_total gip_refs (drop_sess w sp) = sess_total gip_refs w" using t n by (simp add: gip_refs_def)
    have m: "gip_map_ok (drop_sess w sp) t \<longleftrightarrow> gip_map_ok w t" for t by (simp add: gip_map_ok_def)
    have p: "gip_page_ok (drop_sess w sp) \<longleftrightarrow> gip_page_ok w" by (simp add: gip_page_ok_def)
    have d: "dom (w_sess (drop_sess w sp)) = dom (w_sess w) - {sp}" by auto
    have c: "card (dom (w_sess w) - {sp}) < 2 ^ 32"
      using card_Diff1_le [of "dom (w_sess w)" sp] gip_invD(2) [OF assms(1)] by linarith
    show "gip_inv (drop_sess w sp)"
      unfolding gip_inv_def e m p d
    proof (intro conjI allI impI, goal_cases)
      case (7 q t)
      then show ?case using gip_invD(7) [OF assms(1), of q t] by (simp split: if_splits)
    next
      case (8 x y a b)
      then have "w_sess w x = Some a" "w_sess w y = Some b" by (simp_all split: if_splits)
      then show ?case by (rule gip_invD(8) [OF assms(1) _ _ 8(3,4)])
    qed (use fin c gip_invD(3-6) [OF assms(1)] in simp_all)
  }
qed


subsection \<open>Closing a session\<close>

lemma close_objs:
  assumes "sem_inv w" "w_sess w sp = Some s" "SUP_IS_SESSION_VALID sp s"
  shows "\<exists>w1 s1 w3. ht_delete_calls w sp (RTHandleTableDestroy (ses_hHandleTable s)) = Some w1 \<and> w_sess w1 sp = Some s1 \<and>
    cleanup_objs (set_sess w1 sp (s1\<lparr>ses_hHandleTable := None\<rparr>)) sp (s1\<lparr>ses_hHandleTable := None\<rparr>) (ses_pUsage s1) = Some w3 \<and>
    sem_inv w3 \<and> obj_rest w3 = obj_rest (set_sess w sp (s\<lparr>ses_hHandleTable := None\<rparr>)) \<and>
    w_sess w3 = (w_sess w)(sp \<mapsto> s\<lparr>ses_hHandleTable := None, ses_pUsage := []\<rparr>) \<and>
    (\<forall>p. p \<in> dom (w_objs w3) \<longleftrightarrow> 0 < other_refs w sp p)"
proof -
  let ?L = "RTHandleTableDestroy (ses_hHandleTable s)"
  have "\<forall>p. call_count ?L p \<le> obj_refs w sp p"
  proof (cases "ses_hHandleTable s")
    case None
    then show ?thesis by (simp add: call_count_def RTHandleTableDestroy_def)
  next
    case (Some t)
    then have "tables_of w sp = Some t" using assms(2) by (simp add: tables_of_def)
    from sem_invD(2,3) [OF assms(1) this] show ?thesis using Some destroy_call_count by simp
  qed
  from ht_delete_calls_ok [OF sem_invD(1) [OF assms(1)] assms(2,3) this] obtain w1 s1 where
    w1: "ht_delete_calls w sp ?L = Some w1" "obj_inv w1" "obj_rest w1 = obj_rest w" "w_sess w1 sp = Some s1"
      "s1\<lparr>ses_pUsage := []\<rparr> = s\<lparr>ses_pUsage := []\<rparr>" "\<forall>k. k \<noteq> sp \<longrightarrow> w_sess w1 k = w_sess w k" by blast
  let ?s2 = "s1\<lparr>ses_hHandleTable := None\<rparr>" let ?w2 = "set_sess w1 sp ?s2"
  have "\<forall>k p. k \<noteq> sp \<longrightarrow> obj_refs w1 k p = obj_refs w k p" using w1(6) by (simp add: obj_refs_def)
  from drop_table_sem_inv [OF assms(1) w1(2) obj_rest_views(2) [OF w1(3)] w1(4) this] have i2: "sem_inv ?w2" .
  have us: "w_sess ?w2 sp = Some (?s2\<lparr>ses_pUsage := ses_pUsage s1\<rparr>)" by simp
  from cleanup_objs_ok [OF sem_invD(1) [OF i2] us] obtain w3 where
    w3: "cleanup_objs ?w2 sp ?s2 (ses_pUsage s1) = Some w3" "obj_inv w3"
      "w_sess w3 = (w_sess ?w2)(sp \<mapsto> ?s2\<lparr>ses_pUsage := []\<rparr>)"
      "\<forall>p. p \<in> dom (w_objs w3) \<longleftrightarrow> 0 < other_refs ?w2 sp p" by blast
  have s3: "?s2\<lparr>ses_pUsage := []\<rparr> = s\<lparr>ses_hHandleTable := None, ses_pUsage := []\<rparr>"
    using arg_cong [OF w1(5), of "\<lambda>s. s\<lparr>ses_hHandleTable := None, ses_pUsage := []\<rparr>"] by simp
  have sess3: "w_sess w3 = (w_sess w)(sp \<mapsto> s\<lparr>ses_hHandleTable := None, ses_pUsage := []\<rparr>)"
    unfolding w3(3) s3 using w1(6) by (intro ext) simp
  have oth: "other_refs ?w2 sp p = other_refs w sp p" for p
    using sess_other_upd [of ?w2 w sp "Some ?s2"] w1(6) unfolding other_refs_def by (auto simp: fun_eq_iff)
  have rest: "obj_rest w3 = obj_rest ?w2" by (rule cleanup_objs_rest [OF w3(1)]) simp_all
  have rest2: "obj_rest ?w2 = obj_rest (set_sess w sp (s\<lparr>ses_hHandleTable := None\<rparr>))"
  proof -
    have "sess_view (\<lambda>s. s\<lparr>ses_pUsage := []\<rparr>) ?w2 = sess_view (\<lambda>s. s\<lparr>ses_pUsage := []\<rparr>) (set_sess w sp (s\<lparr>ses_hHandleTable := None\<rparr>))"
      using w1(6) s3 by (intro ext) (simp add: sess_view_def)
    then show ?thesis using w1(3) by (simp add: obj_rest_def)
  qed
  have "sem_inv w3"
  proof (rule sem_invI [OF w3(2)])
    fix k t assume t: "tables_of w3 k = Some t"
    then have k: "k \<noteq> sp" "tables_of ?w2 k = Some t" using w1(6) by (auto simp: tables_of_def sess3 split: if_splits)
    have "obj_refs w3 k p = obj_refs ?w2 k p" for p using k(1) by (simp add: obj_refs_def w3(3))
    then show "ht_ok t \<and> (\<forall>p. handle_refs t p \<le> obj_refs w3 k p) \<and> (\<forall>h c. ht_map t h \<noteq> Some (0, c))"
      using sem_invD(2-4) [OF i2 k(2)] by simp
  qed
  then show ?thesis using w1(1,4) w3(1,4) sess3 oth rest rest2 by (intro exI [of _ w1] exI [of _ s1] exI [of _ w3]) simp
qed


lemma mem_step:
  assumes "sem_inv w" "ldr_inv w" "mem_inv w" "gip_inv w" "gip_apart w" "w_sess w sp = Some s" "host_frees hst"
  shows "\<exists>w' bs. cleanup_mem hst w sp = Some w' \<and> sem_inv w' \<and> ldr_inv w' \<and> mem_inv w' \<and> gip_inv w' \<and>
    w_objs w' = w_objs w \<and> w_imgs w' = w_imgs w \<and> w_devext w' = w_devext w \<and>
    w_sess w' = (w_sess w)(sp \<mapsto> s\<lparr>ses_Bundle := bs\<rparr>) \<and> bdl_refs bs = [] \<and>
    (\<forall>r\<in>set (mem_refs s). w_memobjs w' (mr_MemObj r) = None \<and> (mr_MapObjR3 r \<noteq> 0 \<longrightarrow> w_memobjs w' (mr_MapObjR3 r) = None)) \<and>
    (\<forall>q. w_memobjs w q = None \<longrightarrow> w_memobjs w' q = None)"
proof -
  from cleanup_mem_ok [OF assms(3,6,7)] obtain h bs where
    c: "cleanup_mem hst w sp = Some (mem_result (set_sess w sp (s\<lparr>ses_Bundle := bs\<rparr>)) h)"
      "mem_inv (mem_result (set_sess w sp (s\<lparr>ses_Bundle := bs\<rparr>)) h)" "bdl_refs bs = []"
    and h: "\<forall>r\<in>set (mem_refs s). h (mr_MemObj r) = None \<and> (mr_MapObjR3 r \<noteq> 0 \<longrightarrow> h (mr_MapObjR3 r) = None)"
      "\<forall>q n. w_memobjs w q = Some n \<longrightarrow> mr_MemObj ` set (mem_refs s) \<inter> {mo_root q n} = {} \<longrightarrow> h q = w_memobjs w q"
      "\<forall>q. w_memobjs w q = None \<longrightarrow> h q = None" by blast
  define w4 where w4: "w4 = mem_result (set_sess w sp (s\<lparr>ses_Bundle := bs\<rparr>)) h"
  note c = c(1,2) [folded w4] c(3)
  have own: "\<forall>r\<in>set (mem_refs s). mr_MemObj r \<noteq> dx_GipMemObj (w_devext w)"
    using assms(5,6) unfolding gip_apart_def by blast
  have "mo_inv h" using mem_invD(1) [OF c(2)] by (simp add: w4)
  from mem_step_gip [OF assms(4,6) w4 this h(2) own] have "gip_inv w4" .
  moreover note v = mem_step_views [OF assms(6) w4]
  have "sem_inv w4" "ldr_inv w4" by (rule sem_inv_view [OF v(1) assms(1)], rule ldr_inv_view [OF v(2) assms(2)])
  ultimately show ?thesis
    by (intro exI [of _ w4] exI [of _ bs] conjI c) (use h(1,3) in \<open>simp_all add: w4\<close>)
qed

lemma img_step:
  assumes "sem_inv w" "ldr_inv w" "mem_inv w" "gip_inv w" "w_sess w sp = Some s"
  shows "\<exists>w'. cleanup_imgs (set_sess w sp (s\<lparr>ses_pLdrUsage := []\<rparr>)) (ses_pLdrUsage s) = Some w' \<and>
    sem_inv w' \<and> ldr_inv w' \<and> mem_inv w' \<and> gip_inv w' \<and> w_sess w' = (w_sess w)(sp \<mapsto> s\<lparr>ses_pLdrUsage := []\<rparr>) \<and>
    (\<forall>p. w_imgs w' p = Option.bind (w_imgs w p) (img_after (ses_pLdrUsage s) p)) \<and>
    img_rest w' = img_rest (set_sess w sp (s\<lparr>ses_pLdrUsage := []\<rparr>))"
proof -
  let ?w = "set_sess w sp (s\<lparr>ses_pLdrUsage := []\<rparr>)"
  from cleanup_imgs_session [OF sem_invD(1) [OF assms(1)] assms(2,5)] obtain w' where
    c: "cleanup_imgs ?w (ses_pLdrUsage s) = Some w'" "obj_inv w'" "ldr_inv w'" "w_sess w' = (w_sess w)(sp \<mapsto> s\<lparr>ses_pLdrUsage := []\<rparr>)"
      "\<forall>p. w_imgs w' p = Option.bind (w_imgs w p) (img_after (ses_pLdrUsage s) p)" by blast
  note r = cleanup_imgs_rest [OF c(1)] note v = img_rest_views [OF r]
  have s: "sess_view f w' = sess_view f w" if "f (s\<lparr>ses_pLdrUsage := []\<rparr>) = f s" for f :: "SUPDRVSESSION \<Rightarrow> 'z"
    using that assms(5) by (auto simp: sess_view_def c(4) fun_eq_iff)
  have sem: "sem_inv w'" by (rule sem_inv_tables [OF _ _ c(2) assms(1)]) (simp_all add: s)
  have mem: "mem_inv w'" by (rule mem_inv_view [OF _ assms(3)]) (simp add: mem_view_def s v(5))
  have "gip_view ?w = gip_view w" using assms(5) by (auto simp: gip_view_def sess_view_def fun_eq_iff)
  then have "gip_inv w'" using gip_inv_view [OF _ assms(4)] v(3) by simp
  then show ?thesis by (intro exI [of _ w'] conjI c r sem mem)
qed

lemma close_rest:
  assumes "sem_inv w" "ldr_inv w" "mem_inv w" "gip_inv w" "gip_apart w" "w_sess w sp = Some s" "SUP_IS_SESSION_VALID sp s"
    "\<forall>n. hst_Free hst n = VINF_SUCCESS"
  shows "\<exists>w4 s5 w6 w7 s7. cleanup_mem hst w sp = Some w4 \<and> w_sess (cleanup_factories w4 sp) sp = Some s5 \<and>
    cleanup_imgs (set_sess (cleanup_factories w4 sp) sp (s5\<lparr>ses_pLdrUsage := []\<rparr>)) (ses_pLdrUsage s5) = Some w6 \<and>
    cleanup_gip hst w6 sp = Some w7 \<and> w_sess w7 = (w_sess w)(sp \<mapsto> s7) \<and> ses_pUsage s7 = ses_pUsage s \<and> ses_pLdrUsage s7 = [] \<and>
    sem_inv w7 \<and> ldr_inv w7 \<and> mem_inv w7 \<and> gip_inv w7 \<and> gip_apart w7 \<and> dom (w_objs w7) = dom (w_objs w) \<and>
    (\<forall>p. w_imgs w7 p = Option.bind (w_imgs w p) (img_after (ses_pLdrUsage s) p)) \<and>
    (\<forall>r\<in>set (mem_refs s). w_memobjs w7 (mr_MemObj r) = None \<and> (mr_MapObjR3 r \<noteq> 0 \<longrightarrow> w_memobjs w7 (mr_MapObjR3 r) = None)) \<and>
    dx_pComponentFactoryHead (w_devext w7) = filter (\<lambda>r. reg_pSession r \<noteq> sp) (dx_pComponentFactoryHead (w_devext w)) \<and>
    (ses_fGipReferenced s7 \<longleftrightarrow> ses_fGipReferenced s \<and> ses_GipMapObjR3 s = 0) \<and>
    dx_pGip (w_devext w7) = dx_pGip (w_devext w) \<and> dx_GipMemObj (w_devext w7) = dx_GipMemObj (w_devext w) \<and>
    (\<forall>q. w_memobjs w q = None \<longrightarrow> w_memobjs w7 q = None)"
proof -
  have frees: "host_frees hst" using assms(8) by (simp add: host_frees_def)
  from mem_step [OF assms(1-6) frees] obtain w4 bs where
    c4: "cleanup_mem hst w sp = Some w4" "sem_inv w4" "ldr_inv w4" "mem_inv w4" "gip_inv w4"
    and f4: "w_objs w4 = w_objs w" "w_imgs w4 = w_imgs w" "w_devext w4 = w_devext w"
      "w_sess w4 = (w_sess w)(sp \<mapsto> s\<lparr>ses_Bundle := bs\<rparr>)"
    and h: "bdl_refs bs = []"
      "\<forall>r\<in>set (mem_refs s). w_memobjs w4 (mr_MemObj r) = None \<and> (mr_MapObjR3 r \<noteq> 0 \<longrightarrow> w_memobjs w4 (mr_MapObjR3 r) = None)"
      "\<forall>q. w_memobjs w q = None \<longrightarrow> w_memobjs w4 q = None" by blast
  let ?w5 = "cleanup_factories w4 sp" and ?s5 = "s\<lparr>ses_Bundle := bs\<rparr>"
  have s5: "w_sess ?w5 sp = Some ?s5" by (simp add: f4)
  have i5: "sem_inv ?w5" "ldr_inv ?w5" "mem_inv ?w5" "gip_inv ?w5"
    by (rule sem_inv_view [OF _ c4(2)], simp, rule ldr_inv_view [OF _ c4(3)], simp,
        rule mem_inv_view [OF _ c4(4)], simp, rule gip_inv_view [OF _ c4(5)], simp)
  from img_step [OF i5 s5] obtain w6 where
    w6: "cleanup_imgs (set_sess ?w5 sp (?s5\<lparr>ses_pLdrUsage := []\<rparr>)) (ses_pLdrUsage ?s5) = Some w6"
      "sem_inv w6" "ldr_inv w6" "mem_inv w6" "gip_inv w6" "w_sess w6 = (w_sess ?w5)(sp \<mapsto> ?s5\<lparr>ses_pLdrUsage := []\<rparr>)"
      "\<forall>p. w_imgs w6 p = Option.bind (w_imgs ?w5 p) (img_after (ses_pLdrUsage ?s5) p)"
      "img_rest w6 = img_rest (set_sess ?w5 sp (?s5\<lparr>ses_pLdrUsage := []\<rparr>))" by blast
  note r6 = img_rest_views [OF w6(8)]
  define s6 where s6: "s6 = ?s5\<lparr>ses_pLdrUsage := []\<rparr>"
  have w6s: "w_sess w6 = (w_sess w)(sp \<mapsto> s6)" unfolding w6(6) s6 by (simp add: f4)
  have m6: "mem_refs s6 = []" by (simp add: s6 mem_refs_def h(1))
  have gm6: "dx_GipMemObj (w_devext w6) = dx_GipMemObj (w_devext w)" by (simp add: r6(7) f4)
  have apart6: "gip_apart w6"
    using assms(5) m6 unfolding gip_apart_def gm6 w6s by auto
  have valid6: "SUP_IS_SESSION_VALID sp s6" using assms(7) by (simp add: s6 SUP_IS_SESSION_VALID_def)
  have sp6: "w_sess w6 sp = Some s6" by (simp add: w6s)
  from gip_step [OF w6(5,4) apart6 sp6 valid6 assms(8)] obtain w7 s7 where
    w7: "cleanup_gip hst w6 sp = Some w7" "gip_inv w7" "mem_inv w7" "gip_rest w7 = gip_rest w6"
      "w_sess w7 = (w_sess w6)(sp \<mapsto> s7)" "\<forall>q. w_memobjs w6 q = None \<longrightarrow> w_memobjs w7 q = None"
      "ses_fGipReferenced s7 \<longleftrightarrow> ses_fGipReferenced s6 \<and> ses_GipMapObjR3 s6 = 0" by blast
  note r7 = gip_rest_views [OF w7(4)]
  have w7s: "w_sess w7 = (w_sess w)(sp \<mapsto> s7)" unfolding w7(5) w6s by simp
  have "sess_view ses_Bundle w7 sp = sess_view ses_Bundle w6 sp" "sess_view ses_pUsage w7 sp = sess_view ses_pUsage w6 sp"
    "sess_view ses_pLdrUsage w7 sp = sess_view ses_pLdrUsage w6 sp"
    using r7(1-3) by (simp_all add: sem_view_def ldr_view_def)
  then have k7: "ses_Bundle s7 = ses_Bundle s6" "ses_pUsage s7 = ses_pUsage s" "ses_pLdrUsage s7 = []"
    by (simp_all add: sess_view_def w7s w6s s6)
  have apart7: "gip_apart w7"
    using assms(5) m6 k7(1) unfolding gip_apart_def r7(6) gm6 w7s mem_refs_def by auto
  have sem7: "sem_inv w7" by (rule sem_inv_view [OF r7(1) w6(2)])
  have ldr7: "ldr_inv w7" by (rule ldr_inv_view [OF r7(2) w6(3)])
  have objs: "dom (w_objs w7) = dom (w_objs w)" by (simp add: r7(5) r6(4) f4)
  have imgs: "\<forall>p. w_imgs w7 p = Option.bind (w_imgs w p) (img_after (ses_pLdrUsage s) p)" using w6(7) by (simp add: r7(4) f4)
  have mems: "\<forall>r\<in>set (mem_refs s). w_memobjs w7 (mr_MemObj r) = None \<and> (mr_MapObjR3 r \<noteq> 0 \<longrightarrow> w_memobjs w7 (mr_MapObjR3 r) = None)"
    using h(2) w7(6) by (simp add: r6(5))
  have fct: "dx_pComponentFactoryHead (w_devext w7) = filter (\<lambda>r. reg_pSession r \<noteq> sp) (dx_pComponentFactoryHead (w_devext w))"
    by (simp add: r7(7) r6(6) f4)
  have ref: "ses_fGipReferenced s7 \<longleftrightarrow> ses_fGipReferenced s \<and> ses_GipMapObjR3 s = 0" using w7(7) by (simp add: s6)
  have "gip_view w6 = gip_view (set_sess ?w5 sp (?s5\<lparr>ses_pLdrUsage := []\<rparr>))" by (rule r6(3))
  then have "dx_pGip (w_devext w6) = dx_pGip (w_devext ?w5)" by (simp add: gip_view_def)
  then have page: "dx_pGip (w_devext w7) = dx_pGip (w_devext w)" "dx_GipMemObj (w_devext w7) = dx_GipMemObj (w_devext w)"
    by (simp_all add: r7(6,8) gm6 f4)
  have gone: "\<forall>q. w_memobjs w q = None \<longrightarrow> w_memobjs w7 q = None" using h(3) w7(6) by (simp add: r6(5))
  show ?thesis
    by (rule exI [of _ w4], rule exI [of _ ?s5], rule exI [of _ w6], rule exI [of _ w7], rule exI [of _ s7])
      (intro conjI c4(1) s5 w6(1) w7(1) w7s k7(2,3) sem7 ldr7 w7(2,3) apart7 objs imgs mems fct ref page gone)
qed


definition sys_inv :: "supdrv \<Rightarrow> bool" where
  "sys_inv w \<longleftrightarrow> sem_inv w \<and> ldr_inv w \<and> mem_inv w \<and> gip_inv w \<and> gip_apart w"

lemma close_objs_views:
  assumes "w_sess w sp = Some s" "obj_rest w' = obj_rest (set_sess w sp (s\<lparr>ses_hHandleTable := None\<rparr>))"
  shows "ldr_view w' = ldr_view w" "mem_view w' = mem_view w" "gip_view w' = gip_view w"
    "dx_pComponentFactoryHead (w_devext w') = dx_pComponentFactoryHead (w_devext w)"
    "dx_GipMemObj (w_devext w') = dx_GipMemObj (w_devext w)"
  using obj_rest_views(3-7) [OF assms(2)] assms(1)
  by (auto simp: ldr_view_def mem_view_def gip_view_def sess_view_def fun_eq_iff)

lemma supdrvCloseSession_ok:
  assumes "sys_inv w" "w_sess w sp = Some s" "SUP_IS_SESSION_VALID sp s" "\<forall>n. hst_Free hst n = VINF_SUCCESS"
  shows "\<exists>w'. supdrvCloseSession hst w sp = Some w' \<and> w_sess w' = (w_sess w)(sp := None) \<and>
    sem_inv w' \<and> ldr_inv w' \<and> mem_inv w' \<and>
    (\<forall>p. p \<in> dom (w_objs w') \<longleftrightarrow> 0 < other_refs w sp p) \<and>
    (\<forall>p. w_imgs w' p = Option.bind (w_imgs w p) (img_after (ses_pLdrUsage s) p)) \<and>
    (\<forall>r\<in>set (mem_refs s). w_memobjs w' (mr_MemObj r) = None \<and> (mr_MapObjR3 r \<noteq> 0 \<longrightarrow> w_memobjs w' (mr_MapObjR3 r) = None)) \<and>
    dx_pComponentFactoryHead (w_devext w') = filter (\<lambda>r. reg_pSession r \<noteq> sp) (dx_pComponentFactoryHead (w_devext w)) \<and>
    (sys_inv w' \<longleftrightarrow> \<not> (ses_fGipReferenced s \<and> ses_GipMapObjR3 s = 0)) \<and>
    dx_pGip (w_devext w') = dx_pGip (w_devext w) \<and> dx_GipMemObj (w_devext w') = dx_GipMemObj (w_devext w) \<and>
    (\<forall>q. w_memobjs w q = None \<longrightarrow> w_memobjs w' q = None)"
proof -
  have i: "sem_inv w" "ldr_inv w" "mem_inv w" "gip_inv w" "gip_apart w" using assms(1) by (auto simp: sys_inv_def)
  from close_objs [OF i(1) assms(2,3)] obtain w1 s1 w3 where
    c1: "ht_delete_calls w sp (RTHandleTableDestroy (ses_hHandleTable s)) = Some w1" "w_sess w1 sp = Some s1"
      "cleanup_objs (set_sess w1 sp (s1\<lparr>ses_hHandleTable := None\<rparr>)) sp (s1\<lparr>ses_hHandleTable := None\<rparr>) (ses_pUsage s1) = Some w3"
    and i3: "sem_inv w3" and r3: "obj_rest w3 = obj_rest (set_sess w sp (s\<lparr>ses_hHandleTable := None\<rparr>))"
    and w3: "w_sess w3 = (w_sess w)(sp \<mapsto> s\<lparr>ses_hHandleTable := None, ses_pUsage := []\<rparr>)"
      "\<forall>p. p \<in> dom (w_objs w3) \<longleftrightarrow> 0 < other_refs w sp p" by blast
  note v3 = close_objs_views [OF assms(2) r3]
  have imgs3: "w_imgs w3 = w_imgs w" using v3(1) by (simp add: ldr_view_def)
  let ?s3 = "s\<lparr>ses_hHandleTable := None, ses_pUsage := []\<rparr>"
  have apart3: "gip_apart w3" using i(5) assms(2) unfolding gip_apart_def v3(5) w3(1) by (auto simp: mem_refs_def)
  have s3: "w_sess w3 sp = Some ?s3" "SUP_IS_SESSION_VALID sp ?s3" using assms(3) by (simp_all add: w3 SUP_IS_SESSION_VALID_def)
  have k: "ses_pUsage ?s3 = []" "ses_pLdrUsage ?s3 = ses_pLdrUsage s" "mem_refs ?s3 = mem_refs s"
    "ses_fGipReferenced ?s3 = ses_fGipReferenced s" "ses_GipMapObjR3 ?s3 = ses_GipMapObjR3 s" by (simp_all add: mem_refs_def)
  from close_rest [OF i3 ldr_inv_view [OF v3(1) i(2)] mem_inv_view [OF v3(2) i(3)] gip_inv_view [OF v3(3) i(4)] apart3 s3 assms(4),
      unfolded k]
  obtain w4 s5 w6 w7 s7 where
    c4: "cleanup_mem hst w3 sp = Some w4" "w_sess (cleanup_factories w4 sp) sp = Some s5"
      "cleanup_imgs (set_sess (cleanup_factories w4 sp) sp (s5\<lparr>ses_pLdrUsage := []\<rparr>)) (ses_pLdrUsage s5) = Some w6"
      "cleanup_gip hst w6 sp = Some w7"
    and w7: "w_sess w7 = (w_sess w3)(sp \<mapsto> s7)" "ses_pUsage s7 = []" "ses_pLdrUsage s7 = []"
      "sem_inv w7" "ldr_inv w7" "mem_inv w7" "gip_inv w7" "gip_apart w7" "dom (w_objs w7) = dom (w_objs w3)"
      "\<forall>p. w_imgs w7 p = Option.bind (w_imgs w3 p) (img_after (ses_pLdrUsage s) p)"
      "\<forall>r\<in>set (mem_refs s). w_memobjs w7 (mr_MemObj r) = None \<and> (mr_MapObjR3 r \<noteq> 0 \<longrightarrow> w_memobjs w7 (mr_MapObjR3 r) = None)"
      "dx_pComponentFactoryHead (w_devext w7) = filter (\<lambda>r. reg_pSession r \<noteq> sp) (dx_pComponentFactoryHead (w_devext w3))"
      "ses_fGipReferenced s7 \<longleftrightarrow> ses_fGipReferenced s \<and> ses_GipMapObjR3 s = 0"
      "dx_pGip (w_devext w7) = dx_pGip (w_devext w3)" "dx_GipMemObj (w_devext w7) = dx_GipMemObj (w_devext w3)"
      "\<forall>q. w_memobjs w3 q = None \<longrightarrow> w_memobjs w7 q = None"
    by (elim exE conjE)
  have run: "supdrvCloseSession hst w sp = Some (drop_sess w7 sp)"
    using c4(2) by (simp add: supdrvCloseSession_def supdrvCleanupSession_def assms(2) c1 c4(1,3,4) Let_def)
  have s7: "w_sess w7 sp = Some s7" by (simp add: w7(1))
  note d = drop_sess_sem [OF w7(4) s7 w7(2)] drop_sess_ldr [OF w7(5) s7 w7(3)] drop_sess_mem [OF w7(6), of sp]
  have apart: "gip_apart (drop_sess w7 sp)" using w7(8) by (auto simp: gip_apart_def split: if_splits)
  have sess: "w_sess (drop_sess w7 sp) = (w_sess w)(sp := None)" by (simp add: w7(1) w3(1))
  have inv: "sys_inv (drop_sess w7 sp) \<longleftrightarrow> \<not> (ses_fGipReferenced s \<and> ses_GipMapObjR3 s = 0)"
    using d apart drop_sess_gip [OF w7(7) s7] w7(13) by (simp add: sys_inv_def)
  have page: "dx_pGip (w_devext w3) = dx_pGip (w_devext w)" using v3(3) by (simp add: gip_view_def)
  have mo3: "w_memobjs w3 = w_memobjs w" using v3(2) by (simp add: mem_view_def)
  show ?thesis
    by (intro exI [of _ "drop_sess w7 sp"] conjI run sess d inv)
      (use w7(14-16) v3(5) page w7(9-12) w3(2) imgs3 v3(4) mo3 in simp_all)
qed

text \<open>
  C4: closing a valid session of a consistent driver never touches freed memory and leaves a
  consistent driver without that session: the objects that remain are the ones other sessions
  refer to, each image keeps the references of the others or is unloaded, the memory tracked by
  the session is freed with its mappings, and no factory of the session is left. Only the count of
  the users of the GIP can be left behind: the whole invariant holds afterwards exactly when the
  session did not refer to the GIP without a mapping in ring-3.
\<close>

theorem supdrvCloseSession_correct:
  assumes "sys_inv w" "w_sess w sp = Some s" "SUP_IS_SESSION_VALID sp s" "\<forall>n. hst_Free hst n = VINF_SUCCESS"
  shows "\<exists>w'. supdrvCloseSession hst w sp = Some w' \<and> w_sess w' = (w_sess w)(sp := None) \<and>
    sem_inv w' \<and> ldr_inv w' \<and> mem_inv w' \<and>
    (\<forall>p. p \<in> dom (w_objs w') \<longleftrightarrow> 0 < other_refs w sp p) \<and>
    (\<forall>p. w_imgs w' p = Option.bind (w_imgs w p) (img_after (ses_pLdrUsage s) p)) \<and>
    (\<forall>r\<in>set (mem_refs s). w_memobjs w' (mr_MemObj r) = None \<and> (mr_MapObjR3 r \<noteq> 0 \<longrightarrow> w_memobjs w' (mr_MapObjR3 r) = None)) \<and>
    dx_pComponentFactoryHead (w_devext w') = filter (\<lambda>r. reg_pSession r \<noteq> sp) (dx_pComponentFactoryHead (w_devext w)) \<and>
    (sys_inv w' \<longleftrightarrow> \<not> (ses_fGipReferenced s \<and> ses_GipMapObjR3 s = 0))"
  using supdrvCloseSession_ok [OF assms] by blast


text \<open>
  Two sessions that share an object and an image. The first has a handle table, an image of its own
  and two locked pages.
\<close>

definition close_ex_s :: SUPDRVSESSION where
  "close_ex_s = sess0\<lparr>ses_pUsage := [\<lparr>usg_pObj = 0x20000, usg_cUsage = 3000\<rparr>], ses_hHandleTable := Some ht_full_ex,
     ses_pLdrUsage := [\<lparr>lus_pImage = 0x31000, lus_cUsage = 1\<rparr>, \<lparr>lus_pImage = 0x30000, lus_cUsage = 1\<rparr>],
     ses_Bundle := ses_Bundle sess_mem_ex1\<rparr>"

definition close_ex_t :: SUPDRVSESSION where
  "close_ex_t = sess0\<lparr>ses_pUsage := [\<lparr>usg_pObj = 0x20000, usg_cUsage = 2\<rparr>],
     ses_pLdrUsage := [\<lparr>lus_pImage = 0x30000, lus_cUsage = 1\<rparr>], ses_Bundle := ses_Bundle sess_mem_ex\<rparr>"

definition close_ex :: supdrv where
  "close_ex = supdrv0\<lparr>w_devext := dx0\<lparr>dx_pObjs := [0x20000], dx_pLdrImages := [0x31000, 0x30000],
       dx_pGip := Some gip_ex_page, dx_GipMemObj := 0x70000\<rparr>,
     w_sess := [0x10000 \<mapsto> close_ex_s, 0x11000 \<mapsto> close_ex_t],
     w_objs := [0x20000 \<mapsto> (obj_new sess0 4 0x30000 0x40 0)\<lparr>obj_cUsage := 3002\<rparr>],
     w_imgs := w_imgs ldr_ex,
     w_memobjs := [0x70000 \<mapsto> gip_ex_mem, 0x100000 \<mapsto> host_obj RTR0MEMOBJTYPE_LOCK 0x2000 0x7fff0000 0x1234]\<rparr>"

lemma close_ex_sess: "w_sess close_ex = [0x10000 \<mapsto> close_ex_s, 0x11000 \<mapsto> close_ex_t]"
  "mem_refs close_ex_s = [mem_ex1_ref]" "mem_refs close_ex_t = []" "bundles_ok close_ex_s" "bundles_ok close_ex_t"
  "SUP_IS_SESSION_VALID 0x10000 close_ex_s"
  using sess_mem_ex_ok(1,2) sess_mem_ex1_ok(1,2)
  by (simp_all add: close_ex_def close_ex_s_def close_ex_t_def mem_refs_def bundles_ok_def SUP_IS_SESSION_VALID_def sess0_def
      RT_VALID_PTR_def)

lemma close_ex_obj: "obj_inv close_ex"
  by (simp add: obj_inv_def close_ex_def close_ex_s_def close_ex_t_def supdrv0_def obj_ok_def usage_ok_def obj_new_def
      RT_VALID_PTR_def total_refs_def sess_total_def sess_refs_def)

lemma close_ex_sem: "sem_inv close_ex"
proof (rule sem_invI [OF close_ex_obj])
  fix k t assume "tables_of close_ex k = Some t"
  then have k: "k = 0x10000" "t = ht_full_ex"
    by (auto simp: tables_of_def close_ex_sess close_ex_s_def close_ex_t_def sess0_def split: if_splits)
  have "tables_of sem_ex 0x10000 = Some ht_full_ex" by (simp add: sem_ex_simps)
  note D = sem_invD(2-4) [OF sem_ex_inv this]
  have "obj_refs sem_ex 0x10000 p = obj_refs close_ex 0x10000 p" for p
    by (simp add: obj_refs_def close_ex_sess close_ex_s_def sem_ex_simps sess_refs_def)
  then show "ht_ok t \<and> (\<forall>p. handle_refs t p \<le> obj_refs close_ex k p) \<and> (\<forall>h c. ht_map t h \<noteq> Some (0, c))"
    using D unfolding k by simp
qed

lemma close_ex_ldr: "ldr_inv close_ex"
proof (rule ldr_inv_view [OF _ ldr_ex_inv(2)])
  show "ldr_view close_ex = ldr_view ldr_ex"
    by (auto simp: ldr_view_def sess_view_def close_ex_def close_ex_s_def close_ex_t_def ldr_ex_def supdrv0_def fun_eq_iff)
qed

lemma close_ex_mem: "mem_inv close_ex"
proof -
  have "mo_inv (w_memobjs close_ex)"
    by (auto simp: mo_inv_def close_ex_def host_obj_def gip_ex_mem_def rtR0MemObjIsMapping_def RT_VALID_PTR_def word_le_nat_alt)
  moreover have "ref_ok (w_memobjs close_ex) mem_ex1_ref"
    by (simp add: ref_ok_def mem_ex1_ref_def close_ex_def host_obj_def rtR0MemObjIsMapping_def)
  ultimately show ?thesis by (auto simp: mem_inv_def close_ex_sess split: if_splits)
qed

lemma close_ex_gip: "gip_inv close_ex" "gip_apart close_ex"
proof -
  have p: "gip_page_ok gip_ex" by (rule gip_invD(4) [OF gip_ex_inv(1)])
  then have "gip_page_ok close_ex" by (simp add: gip_page_ok_def close_ex_def gip_ex_def)
  moreover have "sess_total gip_refs close_ex = 0"
    by (simp add: close_ex_sess sess_total_def gip_refs_def close_ex_s_def close_ex_t_def sess0_def)
  moreover have "dx_cGipUsers (w_devext close_ex) = 0" "\<not> gip_running (w_trace close_ex)"
    by (simp_all add: close_ex_def dx0_def supdrv0_def gip_running_def)
  ultimately show "gip_inv close_ex"
    unfolding gip_inv_def using mem_invD(1) [OF close_ex_mem]
    by (auto simp: close_ex_sess gip_map_ok_def close_ex_s_def close_ex_t_def sess0_def card_insert_if split: if_splits)
  show "gip_apart close_ex"
    by (auto simp: gip_apart_def close_ex_sess mem_ex1_ref_def close_ex_def split: if_splits)
qed

theorem supdrvCloseSession_correct_witness:
  "\<exists>w'. supdrvCloseSession host_ex close_ex 0x10000 = Some w' \<and> sys_inv w' \<and> w_sess w' = [0x11000 \<mapsto> close_ex_t] \<and>
     w_imgs w' 0x31000 = None \<and> w_imgs w' 0x30000 \<noteq> None \<and> w_memobjs w' 0x100000 = None"
proof -
  have i: "sys_inv close_ex" using close_ex_sem close_ex_ldr close_ex_mem close_ex_gip by (simp add: sys_inv_def)
  have s: "w_sess close_ex 0x10000 = Some close_ex_s" by (simp add: close_ex_sess)
  have f: "\<forall>n. hst_Free host_ex n = VINF_SUCCESS" by (simp add: host_ex_def)
  from supdrvCloseSession_correct [OF i s close_ex_sess(6) f] obtain w' where
    w': "supdrvCloseSession host_ex close_ex 0x10000 = Some w'" "w_sess w' = (w_sess close_ex)(0x10000 := None)"
      "\<forall>p. w_imgs w' p = Option.bind (w_imgs close_ex p) (img_after (ses_pLdrUsage close_ex_s) p)"
      "\<forall>r\<in>set (mem_refs close_ex_s). w_memobjs w' (mr_MemObj r) = None"
      "sys_inv w' \<longleftrightarrow> \<not> (ses_fGipReferenced close_ex_s \<and> ses_GipMapObjR3 close_ex_s = 0)" by blast
  have "sys_inv w'" using w'(5) by (simp add: close_ex_s_def sess0_def)
  moreover have "w_sess w' = [0x11000 \<mapsto> close_ex_t]" unfolding w'(2) by (auto simp: close_ex_sess fun_eq_iff)
  moreover have "w_imgs w' 0x31000 = None" "w_imgs w' 0x30000 \<noteq> None"
    by (simp_all add: w'(3) img_after_def close_ex_def close_ex_s_def ldr_ex_simps ldr_ex_A_def ldr_ex_B_def ldr_new_image_def)
  moreover have "w_memobjs w' 0x100000 = None" using w'(4) by (simp add: close_ex_sess mem_ex1_ref_def)
  ultimately show ?thesis using w'(1) by (intro exI [of _ w']) simp
qed


subsection \<open>A new session\<close>

definition sess_fresh :: "addr \<Rightarrow> SUPDRVSESSION \<Rightarrow> bool" where
  "sess_fresh sp s \<longleftrightarrow> ses_u32Cookie s = BIRD_INV \<and> ses_pUsage s = [] \<and> ses_pLdrUsage s = [] \<and> bundles_ok s \<and> mem_refs s = [] \<and>
     ses_GipMapObjR3 s = 0 \<and> \<not> ses_fGipReferenced s \<and>
     (\<exists>t. ses_hHandleTable s = Some t \<and> ht_ok t \<and> ht_map t = Map.empty)"

lemma sess_fresh_total:
  assumes "finite (dom (w_sess w))" "w_sess w sp = None" "f s = 0"
  shows "sess_total f (set_sess w sp s) = sess_total f w"
proof -
  let ?w = "set_sess w sp s"
  have "sess_total f ?w = f s + sess_total f (drop_sess ?w sp)" by (rule drop_sess_total(2)) (use assms(1) in simp_all)
  moreover have "sess_total f (drop_sess ?w sp) = sess_total f w"
    by (rule sess_sums_cong(1)) (use assms(2) in \<open>simp add: fun_upd_idem\<close>)
  ultimately show ?thesis using assms(3) by simp
qed

lemma gip_inv_fresh:
  assumes "gip_inv w" "w_sess w sp = None" "ses_GipMapObjR3 s = 0" "\<not> ses_fGipReferenced s" "card (dom (w_sess w)) + 1 < 2 ^ 32"
  shows "gip_inv (set_sess w sp s)"
proof -
  let ?w = "set_sess w sp s"
  have fin: "finite (dom (w_sess w))" by (rule gip_invD(1) [OF assms(1)])
  have e: "sess_total gip_refs ?w = sess_total gip_refs w" by (rule sess_fresh_total [OF fin assms(2)]) (simp add: gip_refs_def assms(4))
  have m: "gip_map_ok ?w t \<longleftrightarrow> gip_map_ok w t" for t by (simp add: gip_map_ok_def)
  have p: "gip_page_ok ?w \<longleftrightarrow> gip_page_ok w" by (simp add: gip_page_ok_def)
  have d: "dom (w_sess ?w) = insert sp (dom (w_sess w))" by auto
  have c: "card (insert sp (dom (w_sess w))) < 2 ^ 32" using fin assms(2,5) by (simp add: card_insert_if dom_def)
  show ?thesis
    unfolding gip_inv_def e m p d
  proof (intro conjI allI impI, goal_cases)
    case (7 q t)
    then show ?case using gip_invD(7) [OF assms(1), of q t] assms(3) by (cases "q = sp") (auto simp: gip_map_ok_def)
  next
    case (8 x y a b)
    then have "x \<noteq> sp" "y \<noteq> sp" using assms(3) by auto
    then have "w_sess w x = Some a" "w_sess w y = Some b" using 8(1,2) by simp_all
    then show ?case by (rule gip_invD(8) [OF assms(1) _ _ 8(3,4)])
  qed (use fin c gip_invD(3-6) [OF assms(1)] in simp_all)
qed

lemma sess_fresh_inv:
  assumes "sys_inv w" "w_sess w sp = None" "sess_fresh sp s" "card (dom (w_sess w)) + 1 < 2 ^ 32"
  shows "sys_inv (set_sess w sp s)"
proof -
  let ?w = "set_sess w sp s"
  have i: "sem_inv w" "ldr_inv w" "mem_inv w" "gip_inv w" "gip_apart w" using assms(1) by (auto simp: sys_inv_def)
  have f: "ses_pUsage s = []" "ses_pLdrUsage s = []" "bundles_ok s" "mem_refs s = []" "ses_GipMapObjR3 s = 0" "\<not> ses_fGipReferenced s"
    using assms(3) by (auto simp: sess_fresh_def)
  have fin: "finite (dom (w_sess w))" by (rule gip_invD(1) [OF i(4)])
  note tot = sess_fresh_total [OF fin assms(2)]
  have o: "obj_inv ?w"
  proof -
    have "total_refs ?w p = total_refs w p" for p unfolding total_refs_def by (rule tot) (simp add: sess_refs_def f)
    then show ?thesis using sem_invD(1) [OF i(1)] unfolding obj_inv_def obj_ok_def by (auto simp: usage_ok_def f)
  qed
  have sem: "sem_inv ?w"
  proof (rule sem_invI [OF o])
    fix k t assume t: "tables_of ?w k = Some t"
    show "ht_ok t \<and> (\<forall>p. handle_refs t p \<le> obj_refs ?w k p) \<and> (\<forall>h c. ht_map t h \<noteq> Some (0, c))"
    proof (cases "k = sp")
      case True
      then have "ht_ok t" "ht_map t = Map.empty" using t assms(3) by (auto simp: tables_of_def sess_fresh_def)
      then show ?thesis by (simp add: handle_refs_def)
    next
      case False
      then have k: "tables_of w k = Some t" using t by (simp add: tables_of_def)
      have "obj_refs ?w k p = obj_refs w k p" for p using False by (simp add: obj_refs_def)
      then show ?thesis using sem_invD(2-4) [OF i(1) k] by simp
    qed
  qed
  have ldr: "ldr_inv ?w"
  proof -
    have "ldr_total ?w p = ldr_total w p" for p unfolding ldr_total_def by (rule tot) (simp add: ldr_refs_def f)
    then show ?thesis using i(2) unfolding ldr_inv_def by (auto simp: ldr_usage_ok_def f)
  qed
  have mem: "mem_inv ?w" using i(3) f(3,4) unfolding mem_inv_def by (auto split: if_splits)
  have g: "gip_inv ?w"
  proof (rule gip_inv_fresh)
    show "gip_inv w" "w_sess w sp = None" "ses_GipMapObjR3 s = 0" "\<not> ses_fGipReferenced s" "card (dom (w_sess w)) + 1 < 2 ^ 32"
      by (rule i(4) assms(2,4) f(5,6))+
  qed
  have "gip_apart ?w" using i(5) f(4) by (auto simp: gip_apart_def split: if_splits)
  then show ?thesis using sem ldr mem g by (simp add: sys_inv_def)
qed

lemma supdrvCreateSession_ok:
  assumes "sys_inv w" "pNew \<noteq> 0" "w_sess w pNew = None" "card (dom (w_sess w)) + 1 < 2 ^ 32"
  shows "\<exists>rc p w'. supdrvCreateSession pNew rcSpinlock fMem rcLock procs fUser w = (rc, p, w') \<and> sys_inv w' \<and>
    (if rc = VINF_SUCCESS then p = pNew \<and> (\<exists>s. sess_fresh pNew s \<and> w' = set_sess w pNew s) else p = 0 \<and> w' = w)"
proof (cases "rcSpinlock = 0 \<and> RT_SUCCESS (fst (RTHandleTableCreateEx 1 32768 fMem rcLock))")
  case True
  obtain rc t where t: "RTHandleTableCreateEx 1 32768 fMem rcLock = (rc, t)" by fastforce
  with True obtain t' where t': "rc = VINF_SUCCESS" "t = Some t'"
    by (auto simp: RTHandleTableCreateEx_init RT_FAILURE_def split: if_splits)
  note h = RTHandleTableCreateEx_ok [OF t [unfolded t'(2)]]
  let ?r = "supdrvCreateSession pNew rcSpinlock fMem rcLock procs fUser w"
  obtain s where s: "?r = (VINF_SUCCESS, pNew, set_sess w pNew s)" "sess_fresh pNew s"
    using True t t' assms(2) h
    by (auto simp: supdrvCreateSession_def sess_fresh_def bundles_ok_def bdl_ok_def mem_refs_def mr_unused_def)
  then show ?thesis using sess_fresh_inv [OF assms(1,3) s(2) assms(4)] by auto
next
  case False
  then show ?thesis using assms(1,2)
    by (auto simp: supdrvCreateSession_def RTHandleTableCreateEx_init RT_FAILURE_def split: if_splits)
qed

end
