(* ===== verification/SupIoc.thy ===== *)
theory SupIoc
  imports SupLdrOps "HOL-Library.Monad_Syntax"
begin

unbundle bit_operations_syntax

text \<open>
  The I/O control requests (SUPDrvIOC.h, first half of \<open>supdrvIOCtl\<close>): the layout of the request
  buffer and, for each request, the validation that comes before anything is executed. The buffer
  is a list of bytes, all reads and writes go through \<open>get\<close> and \<open>put\<close> functions that answer
  \<open>None\<close> outside of it, and offsets and sizes are those of the structures on AMD64 Linux.
\<close>

subsection \<open>Bytes\<close>

definition le_word :: "u8 list \<Rightarrow> 'a::len word" where
  "le_word bs = word_of_int (horner_sum uint 256 bs)"

definition le_bytes :: "nat \<Rightarrow> 'a::len word \<Rightarrow> u8 list" where
  "le_bytes n x = map (\<lambda>i. ucast (drop_bit (8 * i) x)) [0..<n]"

definition get8 :: "u8 list \<Rightarrow> nat \<Rightarrow> u8 option" where
  "get8 b i = (if i < length b then Some (b ! i) else None)"

definition get32 :: "u8 list \<Rightarrow> nat \<Rightarrow> u32 option" where
  "get32 b i = map_option le_word (copy_bytes b i 4)"

definition get64 :: "u8 list \<Rightarrow> nat \<Rightarrow> u64 option" where
  "get64 b i = map_option le_word (copy_bytes b i 8)"

definition put :: "u8 list \<Rightarrow> nat \<Rightarrow> u8 list \<Rightarrow> u8 list option" where
  "put b i bs = (if i + length bs \<le> length b then Some (take i b @ bs @ drop (i + length bs) b) else None)"

text \<open>\<open>memchr\<close> for the terminator among \<open>n\<close> bytes from \<open>p\<close>: it stops at the first one it finds.\<close>

fun mem_end :: "u8 list \<Rightarrow> nat \<Rightarrow> nat \<Rightarrow> bool option" where
  "mem_end b p 0 = Some False"
| "mem_end b p (Suc n) = do { c \<leftarrow> get8 b p; if c = 0 then Some True else mem_end b (Suc p) n }"

subsection \<open>Request codes\<close>

definition SUP_CTL_CODE_SIZE :: "u64 \<Rightarrow> u64 \<Rightarrow> u64" where
  "SUP_CTL_CODE_SIZE Function Size = 0xC0005600 OR push_bit 16 Size OR (Function OR 128)"

definition SUP_CTL_CODE_BIG :: "u64 \<Rightarrow> u64" where
  "SUP_CTL_CODE_BIG Function = 0x5600 OR (Function OR 128)"

definition SUP_CTL_CODE_FAST :: "u64 \<Rightarrow> u64" where
  "SUP_CTL_CODE_FAST Function = 0x5600 OR (Function OR 128)"

definition SUP_CTL_CODE_NO_SIZE :: "u64 \<Rightarrow> u64" where
  "SUP_CTL_CODE_NO_SIZE uIOCtl = uIOCtl AND NOT 0x3fff0000"

abbreviation (input) SUP_IOCTL_COOKIE :: u64 where "SUP_IOCTL_COOKIE \<equiv> SUP_CTL_CODE_SIZE 1 56"

text \<open>The header: \<open>u32Cookie\<close>, \<open>u32SessionCookie\<close>, \<open>cbIn\<close>, \<open>cbOut\<close>, \<open>fFlags\<close>, \<open>rc\<close>.\<close>

record SUPREQHDR =
  hdr_u32Cookie :: u32
  hdr_u32SessionCookie :: u32
  hdr_cbIn :: u32
  hdr_cbOut :: u32
  hdr_fFlags :: u32

definition get_hdr :: "u8 list \<Rightarrow> SUPREQHDR option" where
  "get_hdr b = do {
     c \<leftarrow> get32 b 0; sc \<leftarrow> get32 b 4; cbIn \<leftarrow> get32 b 8; cbOut \<leftarrow> get32 b 12; f \<leftarrow> get32 b 16;
     Some \<lparr>hdr_u32Cookie = c, hdr_u32SessionCookie = sc, hdr_cbIn = cbIn, hdr_cbOut = cbOut, hdr_fFlags = f\<rparr> }"

text \<open>The inputs of the requests. Strings and packets are the bytes of their fields.\<close>

datatype ioc_req =
    IocCookie "u8 list" u32
  | IocQueryFuncs
  | IocLdrOpen SUPLDROPEN
  | IocLdrLoad SUPLDRLOAD
  | IocLdrFree addr
  | IocLdrGetSymbol addr "u8 list"
  | IocCallVmmr0 addr u32 u32 u64 bool
  | IocGetPagingMode
  | IocLowAlloc u32
  | IocLowFree addr
  | IocGipMap
  | IocGipUnmap
  | IocSetVmForFast addr
  | IocPageAllocEx u32 bool bool
  | IocPageMapKernel addr u32 u32 u32
  | IocPageProtect addr addr u32 u32 u32
  | IocPageFree addr
  | IocPageLock addr u32
  | IocPageUnlock addr
  | IocContAlloc u32
  | IocContFree addr
  | IocCallService "u8 list" u32 u64 bool
  | IocLoggerSettings u32 u32 "u8 list" u32 u32 u32
  | IocSemOp2 u32 u32 u32 u64
  | IocSemOp3 u32 u32 u32
  | IocVtCaps

text \<open>A failed check sets \<open>Hdr.rc\<close> and ends the request; an unknown code does nothing.\<close>

datatype ioc_check = IocBad | IocUnknown | IocOk ioc_req

subsection \<open>The validation macros\<close>

text \<open>The expected sizes are read from the request only when the test gets there.\<close>

definition REQ_CHECK_SIZE_IN :: "SUPREQHDR \<Rightarrow> u64 option \<Rightarrow> ioc_check option \<Rightarrow> ioc_check option" where
  "REQ_CHECK_SIZE_IN hdr cbInExpect k = do { n \<leftarrow> cbInExpect; if ucast (hdr_cbIn hdr) \<noteq> n then Some IocBad else k }"

definition REQ_CHECK_SIZE_OUT :: "SUPREQHDR \<Rightarrow> u64 option \<Rightarrow> ioc_check option \<Rightarrow> ioc_check option" where
  "REQ_CHECK_SIZE_OUT hdr cbOutExpect k = do { n \<leftarrow> cbOutExpect; if ucast (hdr_cbOut hdr) \<noteq> n then Some IocBad else k }"

definition REQ_CHECK_SIZES :: "SUPREQHDR \<Rightarrow> u64 option \<Rightarrow> u64 option \<Rightarrow> ioc_check option \<Rightarrow> ioc_check option" where
  "REQ_CHECK_SIZES hdr cbInExpect cbOutExpect k = REQ_CHECK_SIZE_IN hdr cbInExpect (REQ_CHECK_SIZE_OUT hdr cbOutExpect k)"

definition REQ_CHECK_EXPR :: "bool \<Rightarrow> ioc_check option \<Rightarrow> ioc_check option" where
  "REQ_CHECK_EXPR c k = (if c then k else Some IocBad)"

named_theorems ioc_defs

lemmas [ioc_defs] = REQ_CHECK_SIZE_IN_def REQ_CHECK_SIZE_OUT_def REQ_CHECK_SIZES_def REQ_CHECK_EXPR_def

subsection \<open>Cookie and functions\<close>

definition ioc_cookie :: "SUPREQHDR \<Rightarrow> u8 list \<Rightarrow> ioc_check option" where
  [ioc_defs]: "ioc_cookie hdr b =
     REQ_CHECK_SIZES hdr (Some 48) (Some 56)
       (do { szMagic \<leftarrow> copy_bytes b 24 16; u32MinVersion \<leftarrow> get32 b 44; Some (IocOk (IocCookie szMagic u32MinVersion)) })"

definition ioc_query_funcs :: "nat \<Rightarrow> SUPREQHDR \<Rightarrow> u8 list \<Rightarrow> ioc_check option" where
  [ioc_defs]: "ioc_query_funcs cFuncs hdr b =
     REQ_CHECK_SIZES hdr (Some 24) (Some (32 + of_nat cFuncs * 40)) (Some (IocOk IocQueryFuncs))"

subsection \<open>The loader\<close>

definition supdrvCheckInvalidChar :: "u8 list \<Rightarrow> u8 list \<Rightarrow> bool" where
  "supdrvCheckInvalidChar pszStr pszChars = list_ex (\<lambda>c. c \<in> set (cstr pszChars)) (cstr pszStr)"

text \<open>The characters ;:()[]{}/\|&*%\#@!~`"' and the terminator.\<close>

abbreviation (input) ldr_bad_chars :: "u8 list" where
  "ldr_bad_chars \<equiv> [0x3b, 0x3a, 0x28, 0x29, 0x5b, 0x5d, 0x7b, 0x7d, 0x2f, 0x5c, 0x7c, 0x26, 0x2a, 0x25, 0x23, 0x40,
     0x21, 0x7e, 0x60, 0x22, 0x27, 0]"

definition ioc_ldr_open :: "SUPREQHDR \<Rightarrow> u8 list \<Rightarrow> ioc_check option" where
  [ioc_defs]: "ioc_ldr_open hdr b =
     REQ_CHECK_SIZES hdr (Some 328) (Some 40) (do {
       cbImageWithTabs \<leftarrow> get32 b 24; cbImageBits \<leftarrow> get32 b 28;
       szName \<leftarrow> copy_bytes b 32 32; szFilename \<leftarrow> copy_bytes b 64 260;
       REQ_CHECK_EXPR (0 < cbImageWithTabs) (
       REQ_CHECK_EXPR (cbImageWithTabs < 0x1000000) (
       REQ_CHECK_EXPR (0 < cbImageBits) (
       REQ_CHECK_EXPR (cbImageBits < cbImageWithTabs) (
       REQ_CHECK_EXPR (szName ! 0 \<noteq> 0) (
       REQ_CHECK_EXPR (RTStrEnd szName 32 \<noteq> None) (
       REQ_CHECK_EXPR (\<not> supdrvCheckInvalidChar szName ldr_bad_chars) (
       REQ_CHECK_EXPR (RTStrEnd szFilename 260 \<noteq> None) (
         Some (IocOk (IocLdrOpen
           \<lparr>lo_cbImageWithTabs = cbImageWithTabs, lo_cbImageBits = cbImageBits, lo_szName = szName\<rparr>)))))))))) })"

text \<open>The loop over the symbols: \<open>Some False\<close> is a failed check. Sums of two 32-bit fields wrap.\<close>

primrec ioc_check_syms :: "u8 list \<Rightarrow> u32 \<Rightarrow> u32 \<Rightarrow> u32 \<Rightarrow> u32 \<Rightarrow> nat \<Rightarrow> nat \<Rightarrow> bool option" where
  "ioc_check_syms b cbImage offSyms offStrTab cbStrTab i 0 = Some True"
| "ioc_check_syms b cbImage offSyms offStrTab cbStrTab i (Suc n) = do {
     offSymbol \<leftarrow> get32 b (108 + unat offSyms + 8 * i + 4);
     if \<not> offSymbol < cbImage then Some False
     else do {
       offName \<leftarrow> get32 b (108 + unat offSyms + 8 * i);
       if \<not> offName < cbStrTab then Some False
       else do {
         fEnd \<leftarrow> mem_end b (108 + unat (offStrTab + offName)) (unat (cbStrTab - offName));
         if \<not> fEnd then Some False
         else ioc_check_syms b cbImage offSyms offStrTab cbStrTab (Suc i) n } } }"

definition get_eps :: "u8 list \<Rightarrow> SUPLDRLOADEP option" where
  "get_eps b = do {
     eEPType \<leftarrow> get32 b 80; p0 \<leftarrow> get64 b 40; p1 \<leftarrow> get64 b 48; p2 \<leftarrow> get64 b 56; p3 \<leftarrow> get64 b 64;
     Some (if eEPType = 0 then SUPLDRLOADEP_NOTHING
           else if eEPType = 1 then SUPLDRLOADEP_VMMR0 p0 p1 p2 p3
           else if eEPType = 2 then SUPLDRLOADEP_SERVICE p0 p1 p2 p3
           else SUPLDRLOADEP_INVALID (unat eEPType)) }"

definition ioc_ldr_load :: "SUPREQHDR \<Rightarrow> u8 list \<Rightarrow> ioc_check option" where
  [ioc_defs]: "ioc_ldr_load hdr b =
     REQ_CHECK_EXPR (112 \<le> hdr_cbIn hdr) (
     REQ_CHECK_SIZES hdr (map_option (\<lambda>cb. 108 + ucast cb) (get32 b 104)) (Some 24) (do {
       cbImage \<leftarrow> get32 b 104; offSyms \<leftarrow> get32 b 88; cSyms \<leftarrow> get32 b 92; offStrTab \<leftarrow> get32 b 96; cbStrTab \<leftarrow> get32 b 100;
       REQ_CHECK_EXPR (cSyms \<le> 16384) (
       REQ_CHECK_EXPR (cSyms = 0 \<or>
           offSyms < cbImage \<and> (ucast offSyms + ucast cSyms * 8 :: u64) \<le> ucast cbImage) (
       REQ_CHECK_EXPR (cbStrTab = 0 \<or>
           offStrTab < cbImage \<and> offStrTab + cbStrTab \<le> cbImage \<and> cbStrTab \<le> cbImage) (do {
         fSyms \<leftarrow> ioc_check_syms b cbImage offSyms offStrTab cbStrTab 0 (unat cSyms);
         REQ_CHECK_EXPR fSyms (do {
           pfnInit \<leftarrow> get64 b 24; pfnTerm \<leftarrow> get64 b 32; ep \<leftarrow> get_eps b; pvBase \<leftarrow> get64 b 72; cbBits \<leftarrow> get32 b 84;
           abImage \<leftarrow> copy_bytes b 108 (unat cbImage);
           Some (IocOk (IocLdrLoad
             \<lparr>ll_pvImageBase = pvBase, ll_cbImageWithTabs = cbImage, ll_cbImageBits = cbBits, ll_pfnModuleInit = pfnInit,
              ll_pfnModuleTerm = pfnTerm, ll_EP = ep, ll_offSymbols = offSyms, ll_cSymbols = cSyms,
              ll_offStrTab = offStrTab, ll_cbStrTab = cbStrTab, ll_abImage = abImage\<rparr>)) }) }))) }))"

definition ioc_ldr_free :: "SUPREQHDR \<Rightarrow> u8 list \<Rightarrow> ioc_check option" where
  [ioc_defs]: "ioc_ldr_free hdr b =
     REQ_CHECK_SIZES hdr (Some 32) (Some 24) (map_option (\<lambda>pv. IocOk (IocLdrFree pv)) (get64 b 24))"

definition ioc_ldr_get_symbol :: "SUPREQHDR \<Rightarrow> u8 list \<Rightarrow> ioc_check option" where
  [ioc_defs]: "ioc_ldr_get_symbol hdr b =
     REQ_CHECK_SIZES hdr (Some 96) (Some 32) (do {
       pvImageBase \<leftarrow> get64 b 24; szSymbol \<leftarrow> copy_bytes b 32 64;
       REQ_CHECK_EXPR (RTStrEnd szSymbol 64 \<noteq> None) (Some (IocOk (IocLdrGetSymbol pvImageBase szSymbol))) })"

subsection \<open>Calls of the VMM and of services\<close>

text \<open>Both request packets start with a magic and their size; \<open>pkt\<close> is where they are.\<close>

definition ioc_packet :: "SUPREQHDR \<Rightarrow> u8 list \<Rightarrow> nat \<Rightarrow> u32 \<Rightarrow> ioc_check option \<Rightarrow> ioc_check option" where
  [ioc_defs]: "ioc_packet hdr b pkt magic k =
     REQ_CHECK_EXPR (of_nat pkt + 8 \<le> hdr_cbIn hdr) (do {
       u32Magic \<leftarrow> get32 b pkt;
       REQ_CHECK_EXPR (u32Magic = magic) (do {
         cbReq \<leftarrow> get32 b (pkt + 4);
         REQ_CHECK_SIZES hdr (Some (of_nat pkt + ucast cbReq)) (Some (of_nat pkt + ucast cbReq)) k }) })"

definition ioc_call_args :: "u8 list \<Rightarrow> bool \<Rightarrow> ioc_check option" where
  [ioc_defs]: "ioc_call_args b fPkt = do {
     pVMR0 \<leftarrow> get64 b 24; idCpu \<leftarrow> get32 b 32; uOperation \<leftarrow> get32 b 36; u64Arg \<leftarrow> get64 b 40;
     Some (IocOk (IocCallVmmr0 pVMR0 idCpu uOperation u64Arg fPkt)) }"

definition ioc_call_vmmr0 :: "SUPREQHDR \<Rightarrow> u8 list \<Rightarrow> ioc_check option" where
  [ioc_defs]: "ioc_call_vmmr0 hdr b =
     (if hdr_cbIn hdr = 48 then REQ_CHECK_SIZES hdr (Some 48) (Some 48) (ioc_call_args b False)
      else ioc_packet hdr b 48 0x19730211 (ioc_call_args b True))"

definition ioc_call_vmmr0_big :: "SUPREQHDR \<Rightarrow> u8 list \<Rightarrow> ioc_check option" where
  [ioc_defs]: "ioc_call_vmmr0_big hdr b = ioc_packet hdr b 48 0x19730211 (ioc_call_args b True)"

definition ioc_service_args :: "u8 list \<Rightarrow> bool \<Rightarrow> ioc_check option" where
  [ioc_defs]: "ioc_service_args b fPkt = do {
     szName \<leftarrow> copy_bytes b 24 28; uOperation \<leftarrow> get32 b 52; u64Arg \<leftarrow> get64 b 56;
     REQ_CHECK_EXPR (RTStrEnd szName 28 \<noteq> None) (Some (IocOk (IocCallService szName uOperation u64Arg fPkt))) }"

definition ioc_call_service :: "SUPREQHDR \<Rightarrow> u8 list \<Rightarrow> ioc_check option" where
  [ioc_defs]: "ioc_call_service hdr b =
     (if hdr_cbIn hdr = 64 then REQ_CHECK_SIZES hdr (Some 64) (Some 64) (ioc_service_args b False)
      else ioc_packet hdr b 64 0x19640416 (ioc_service_args b True))"

subsection \<open>Memory\<close>

definition ioc_low_alloc :: "SUPREQHDR \<Rightarrow> u8 list \<Rightarrow> ioc_check option" where
  [ioc_defs]: "ioc_low_alloc hdr b =
     REQ_CHECK_EXPR (hdr_cbIn hdr \<le> 28) (
     REQ_CHECK_SIZES hdr (Some 28)
         (map_option (\<lambda>cPages. ucast (ucast (40 + ucast cPages * 8 :: u64) :: u32)) (get32 b 24))
       (map_option (\<lambda>cPages. IocOk (IocLowAlloc cPages)) (get32 b 24)))"

definition ioc_page_alloc_ex :: "SUPREQHDR \<Rightarrow> u8 list \<Rightarrow> ioc_check option" where
  [ioc_defs]: "ioc_page_alloc_ex hdr b =
     REQ_CHECK_EXPR (hdr_cbIn hdr \<le> 32) (
     REQ_CHECK_SIZES hdr (Some 32) (map_option (\<lambda>cPages. 40 + ucast cPages * 8) (get32 b 24)) (do {
       cPages \<leftarrow> get32 b 24; fK \<leftarrow> get8 b 28; fU \<leftarrow> get8 b 29; r0 \<leftarrow> get8 b 30; r1 \<leftarrow> get8 b 31;
       REQ_CHECK_EXPR (fK \<noteq> 0 \<or> fU \<noteq> 0) (
       REQ_CHECK_EXPR (fU \<noteq> 0) (
       REQ_CHECK_EXPR (r0 = 0 \<and> r1 = 0) (
         Some (IocOk (IocPageAllocEx cPages (fK \<noteq> 0) (fU \<noteq> 0)))))) }))"

definition ioc_page_map_kernel :: "SUPREQHDR \<Rightarrow> u8 list \<Rightarrow> ioc_check option" where
  [ioc_defs]: "ioc_page_map_kernel hdr b =
     REQ_CHECK_SIZES hdr (Some 48) (Some 48) (do {
       pvR3 \<leftarrow> get64 b 24; offSub \<leftarrow> get32 b 32; cbSub \<leftarrow> get32 b 36; fFlags \<leftarrow> get32 b 40;
       REQ_CHECK_EXPR (fFlags = 0) (
       REQ_CHECK_EXPR (offSub AND 0xfff = 0) (
       REQ_CHECK_EXPR (cbSub \<noteq> 0 \<and> cbSub AND 0xfff = 0) (
         Some (IocOk (IocPageMapKernel pvR3 offSub cbSub fFlags))))) })"

definition ioc_page_protect :: "SUPREQHDR \<Rightarrow> u8 list \<Rightarrow> ioc_check option" where
  [ioc_defs]: "ioc_page_protect hdr b =
     REQ_CHECK_SIZES hdr (Some 56) (Some 56) (do {
       pvR3 \<leftarrow> get64 b 24; pvR0 \<leftarrow> get64 b 32; offSub \<leftarrow> get32 b 40; cbSub \<leftarrow> get32 b 44; fProt \<leftarrow> get32 b 48;
       REQ_CHECK_EXPR (fProt AND NOT 7 = 0) (
       REQ_CHECK_EXPR (offSub AND 0xfff = 0) (
       REQ_CHECK_EXPR (cbSub \<noteq> 0 \<and> cbSub AND 0xfff = 0) (
         Some (IocOk (IocPageProtect pvR3 pvR0 offSub cbSub fProt))))) })"

definition ioc_page_lock :: "SUPREQHDR \<Rightarrow> u8 list \<Rightarrow> ioc_check option" where
  [ioc_defs]: "ioc_page_lock hdr b =
     REQ_CHECK_SIZE_IN hdr (Some 40) (
     REQ_CHECK_SIZE_OUT hdr (map_option (\<lambda>cPages. 24 + ucast cPages * 8) (get32 b 32)) (do {
       pvR3 \<leftarrow> get64 b 24; cPages \<leftarrow> get32 b 32;
       REQ_CHECK_EXPR (0 < cPages) (
       REQ_CHECK_EXPR (PAGE_SIZE \<le> pvR3) (
         Some (IocOk (IocPageLock pvR3 cPages)))) }))"

text \<open>Requests whose input is a ring-3 address only.\<close>

definition ioc_addr_only :: "(addr \<Rightarrow> ioc_req) \<Rightarrow> SUPREQHDR \<Rightarrow> u8 list \<Rightarrow> ioc_check option" where
  [ioc_defs]: "ioc_addr_only f hdr b = REQ_CHECK_SIZES hdr (Some 32) (Some 24) (map_option (\<lambda>pv. IocOk (f pv)) (get64 b 24))"

definition ioc_cont_alloc :: "SUPREQHDR \<Rightarrow> u8 list \<Rightarrow> ioc_check option" where
  [ioc_defs]: "ioc_cont_alloc hdr b =
     REQ_CHECK_SIZES hdr (Some 28) (Some 48) (map_option (\<lambda>cPages. IocOk (IocContAlloc cPages)) (get32 b 24))"

definition ioc_set_vm :: "SUPREQHDR \<Rightarrow> u8 list \<Rightarrow> ioc_check option" where
  [ioc_defs]: "ioc_set_vm hdr b =
     REQ_CHECK_SIZES hdr (Some 32) (Some 24) (do {
       pVMR0 \<leftarrow> get64 b 24;
       REQ_CHECK_EXPR (pVMR0 = 0 \<or> RT_VALID_PTR pVMR0 \<and> pVMR0 AND 0xfff = 0) (Some (IocOk (IocSetVmForFast pVMR0))) })"

subsection \<open>Loggers and semaphores\<close>

definition ioc_logger :: "SUPREQHDR \<Rightarrow> u8 list \<Rightarrow> ioc_check option" where
  [ioc_defs]: "ioc_logger hdr b =
     REQ_CHECK_SIZE_OUT hdr (Some 24) (
     REQ_CHECK_EXPR (45 \<le> hdr_cbIn hdr) (
       let cbStrTab = ucast (hdr_cbIn hdr) - 44 :: u64
       in do {
         fWhich \<leftarrow> get32 b 24; fWhat \<leftarrow> get32 b 28; offFlags \<leftarrow> get32 b 32; offGroups \<leftarrow> get32 b 36; offDest \<leftarrow> get32 b 40;
         REQ_CHECK_EXPR (ucast offGroups < cbStrTab) (
         REQ_CHECK_EXPR (ucast offFlags < cbStrTab) (
         REQ_CHECK_EXPR (ucast offDest < cbStrTab) (do {
           chLast \<leftarrow> get8 b (44 + unat (cbStrTab - 1));
           REQ_CHECK_EXPR (chLast = 0) (
           REQ_CHECK_EXPR (fWhich \<le> 1) (
           REQ_CHECK_EXPR (fWhat \<le> 2) (do {
             szStrings \<leftarrow> copy_bytes b 44 (unat cbStrTab);
             Some (IocOk (IocLoggerSettings fWhich fWhat szStrings offGroups offFlags offDest)) }))) }))) }))"

definition ioc_sem_op2 :: "SUPREQHDR \<Rightarrow> u8 list \<Rightarrow> ioc_check option" where
  [ioc_defs]: "ioc_sem_op2 hdr b =
     REQ_CHECK_SIZES hdr (Some 48) (Some 24) (do {
       uType \<leftarrow> get32 b 24; hSem \<leftarrow> get32 b 28; uOp \<leftarrow> get32 b 32; uReserved \<leftarrow> get32 b 36; uArg \<leftarrow> get64 b 40;
       REQ_CHECK_EXPR (uReserved = 0) (Some (IocOk (IocSemOp2 uType hSem uOp uArg))) })"

text \<open>Creating and asking for the resolution need a NIL handle.\<close>

definition ioc_sem_op3 :: "SUPREQHDR \<Rightarrow> u8 list \<Rightarrow> ioc_check option" where
  [ioc_defs]: "ioc_sem_op3 hdr b =
     REQ_CHECK_SIZES hdr (Some 48) (Some 48) (do {
       uType \<leftarrow> get32 b 24; hSem \<leftarrow> get32 b 28; uOp \<leftarrow> get32 b 32; u32Reserved \<leftarrow> get32 b 36; u64Reserved \<leftarrow> get64 b 40;
       REQ_CHECK_EXPR (u32Reserved = 0 \<and> u64Reserved = 0) (
       REQ_CHECK_EXPR (uType \<le> 1 \<and> uOp \<le> 1 \<longrightarrow> hSem = 0) (
         Some (IocOk (IocSemOp3 uType hSem uOp)))) })"

subsection \<open>The switch\<close>

definition ioc_parse :: "nat \<Rightarrow> u64 \<Rightarrow> SUPREQHDR \<Rightarrow> u8 list \<Rightarrow> ioc_check option" where
  "ioc_parse cFuncs uIOCtl hdr b =
     (let c = SUP_CTL_CODE_NO_SIZE uIOCtl; sz = (\<lambda>f. c = SUP_CTL_CODE_SIZE f 0); big = (\<lambda>f. c = SUP_CTL_CODE_BIG f)
      in if sz 1 then ioc_cookie hdr b
         else if big 2 then ioc_query_funcs cFuncs hdr b
         else if big 14 then ioc_page_lock hdr b
         else if sz 15 then ioc_addr_only IocPageUnlock hdr b
         else if sz 16 then ioc_cont_alloc hdr b
         else if sz 17 then ioc_addr_only IocContFree hdr b
         else if sz 3 then ioc_ldr_open hdr b
         else if big 4 then ioc_ldr_load hdr b
         else if sz 5 then ioc_ldr_free hdr b
         else if sz 6 then ioc_ldr_get_symbol hdr b
         else if sz 7 then ioc_call_vmmr0 hdr b
         else if big 27 then ioc_call_vmmr0_big hdr b
         else if sz 18 then REQ_CHECK_SIZES hdr (Some 24) (Some 28) (Some (IocOk IocGetPagingMode))
         else if big 8 then ioc_low_alloc hdr b
         else if sz 9 then ioc_addr_only IocLowFree hdr b
         else if sz 20 then REQ_CHECK_SIZES hdr (Some 24) (Some 48) (Some (IocOk IocGipMap))
         else if sz 21 then REQ_CHECK_SIZES hdr (Some 24) (Some 24) (Some (IocOk IocGipUnmap))
         else if sz 19 then ioc_set_vm hdr b
         else if big 10 then ioc_page_alloc_ex hdr b
         else if sz 11 then ioc_page_map_kernel hdr b
         else if sz 12 then ioc_page_protect hdr b
         else if sz 13 then ioc_addr_only IocPageFree hdr b
         else if sz 22 then ioc_call_service hdr b
         else if sz 23 then ioc_logger hdr b
         else if sz 24 then ioc_sem_op2 hdr b
         else if sz 25 then ioc_sem_op3 hdr b
         else if sz 26 then REQ_CHECK_SIZES hdr (Some 24) (Some 28) (REQ_CHECK_EXPR (hdr_cbIn hdr \<le> 24) (Some (IocOk IocVtCaps)))
         else Some IocUnknown)"


subsection \<open>Reads inside the buffer\<close>

lemma copy_bytes_in: "i + n \<le> length b \<Longrightarrow> copy_bytes b i n = Some (take n (drop i b))"
  by (simp add: copy_bytes_def)

lemma get_in:
  "i + 4 \<le> length b \<Longrightarrow> get32 b i = Some (le_word (take 4 (drop i b)))"
  "i + 8 \<le> length b \<Longrightarrow> get64 b i = Some (le_word (take 8 (drop i b)))"
  "i < length b \<Longrightarrow> get8 b i = Some (b ! i)"
  by (simp_all add: get32_def get64_def get8_def copy_bytes_in)

lemma mem_end_in: "p + n \<le> length b \<Longrightarrow> \<exists>f. mem_end b p n = Some f"
  by (induction n arbitrary: p) (auto simp: get_in)

lemma put_in: "i + length bs \<le> length b \<Longrightarrow> \<exists>b'. put b i bs = Some b' \<and> length b' = length b"
  by (simp add: put_def)

text \<open>A successful search finds the terminator, and the scan reads nothing behind it.\<close>

lemma mem_end_True: "mem_end b p n = Some True \<Longrightarrow> \<exists>k<n. p + k < length b \<and> b ! (p + k) = 0 \<and> (\<forall>j<k. b ! (p + j) \<noteq> 0)"
proof (induction n arbitrary: p)
  case (Suc n)
  then obtain c where c: "get8 b p = Some c" by (cases "get8 b p") auto
  then have p: "p < length b" "c = b ! p" by (auto simp: get8_def split: if_splits)
  show ?case
  proof (cases "c = 0")
    case True
    then show ?thesis using p by (intro exI [of _ 0]) simp
  next
    case False
    then have "mem_end b (Suc p) n = Some True" using Suc.prems c by simp
    from Suc.IH [OF this] obtain k where k: "k < n" "Suc p + k < length b" "b ! (Suc p + k) = 0" "\<forall>j<k. b ! (Suc p + j) \<noteq> 0" by blast
    have "\<forall>j<Suc k. b ! (p + j) \<noteq> 0"
    proof (intro allI impI)
      fix j assume "j < Suc k"
      then show "b ! (p + j) \<noteq> 0" using k(4) False p(2) by (cases j) auto
    qed
    then show ?thesis using k by (intro exI [of _ "Suc k"]) simp
  qed
qed simp

lemma get_hdr_in: "24 \<le> length b \<Longrightarrow> \<exists>hdr. get_hdr b = Some hdr"
  by (simp add: get_hdr_def get_in)

text \<open>The symbol loop stays inside the image when the tables do.\<close>

lemma check_syms_in:
  assumes "108 + unat cb \<le> length b" "unat cb < 0x1000000" "unat offSyms + 8 * N \<le> unat cb"
    "offStr < cb" "cbStr \<le> cb" "offStr + cbStr \<le> cb"
  shows "i + n = N \<Longrightarrow> \<exists>f. ioc_check_syms b cb offSyms offStr cbStr i n = Some f"
proof (induction n arbitrary: i)
  case (Suc n)
  have i: "108 + unat offSyms + 8 * i + 4 + 4 \<le> length b" "108 + unat offSyms + 8 * i + 4 \<le> length b"
    using assms(1,3) Suc.prems by auto
  obtain nm :: u32 where nm: "get32 b (108 + unat offSyms + 8 * i) = Some nm" using get_in(1) [OF i(2)] by blast
  have s: "unat offStr + unat cbStr < 2 ^ 32" using assms(2,4,5) by (simp add: word_less_nat_alt word_le_nat_alt)
  have "\<exists>f. mem_end b (108 + unat (offStr + nm)) (unat (cbStr - nm)) = Some f" if l: "nm < cbStr"
  proof (rule mem_end_in)
    have n: "unat nm < unat cbStr" using l by (simp add: word_less_nat_alt)
    have "unat (offStr + nm) = unat offStr + unat nm" using s n by (simp add: unat_plus32)
    moreover have "unat (cbStr - nm) = unat cbStr - unat nm" using n by (simp add: unat_sub_if')
    moreover have "unat offStr + unat cbStr \<le> unat cb" using assms(6) s by (simp add: word_le_nat_alt unat_plus32)
    ultimately show "108 + unat (offStr + nm) + unat (cbStr - nm) \<le> length b" using assms(1) n by simp
  qed
  moreover have "\<exists>f. ioc_check_syms b cb offSyms offStr cbStr (Suc i) n = Some f" using Suc.IH Suc.prems by simp
  ultimately show ?case using get_in(1) [OF i(1)] nm by (auto split: bind_split)
qed auto


text \<open>The macros go on only under what they have tested.\<close>

lemma size_eq: "ucast (x :: u32) = (n :: u64) \<Longrightarrow> unat x = unat n"
proof -
  assume "ucast x = n"
  then have "unat n = unat (ucast x :: u64)" by simp
  moreover have "unat (ucast x :: u64) = unat x" by (rule unat_ucast_u32)
  ultimately show ?thesis by simp
qed

named_theorems ioc_total

lemma check_size_in_total [ioc_total]:
  assumes "\<exists>n. e = Some n" "\<And>n. e = Some n \<Longrightarrow> unat (hdr_cbIn hdr) = unat n \<Longrightarrow> \<exists>c. k = Some c"
  shows "\<exists>c. REQ_CHECK_SIZE_IN hdr e k = Some c"
  using assms size_eq by (auto simp: REQ_CHECK_SIZE_IN_def)

lemma check_size_out_total [ioc_total]:
  assumes "\<exists>n. e = Some n" "\<And>n. e = Some n \<Longrightarrow> unat (hdr_cbOut hdr) = unat n \<Longrightarrow> \<exists>c. k = Some c"
  shows "\<exists>c. REQ_CHECK_SIZE_OUT hdr e k = Some c"
  using assms size_eq by (auto simp: REQ_CHECK_SIZE_OUT_def)

lemma check_sizes_total [ioc_total]:
  assumes "\<exists>n. e = Some n" "\<And>n. e = Some n \<Longrightarrow> unat (hdr_cbIn hdr) = unat n \<Longrightarrow> \<exists>m. e' = Some m"
    "\<And>n. e = Some n \<Longrightarrow> unat (hdr_cbIn hdr) = unat n \<Longrightarrow> \<exists>c. k = Some c"
  shows "\<exists>c. REQ_CHECK_SIZES hdr e e' k = Some c"
  unfolding REQ_CHECK_SIZES_def
proof (rule check_size_in_total [OF assms(1)])
  fix n assume n: "e = Some n" "unat (hdr_cbIn hdr) = unat n"
  show "\<exists>c. REQ_CHECK_SIZE_OUT hdr e' k = Some c"
    by (rule check_size_out_total [OF assms(2) [OF n] assms(3) [OF n]])
qed

lemma check_expr_total [ioc_total]: "(c \<Longrightarrow> \<exists>r. k = Some r) \<Longrightarrow> \<exists>r. REQ_CHECK_EXPR c k = Some r"
  by (simp add: REQ_CHECK_EXPR_def)

lemma bind_total [ioc_total]:
  "\<exists>x. e = Some x \<Longrightarrow> (\<And>x. e = Some x \<Longrightarrow> \<exists>c. k x = Some c) \<Longrightarrow> \<exists>c. Option.bind e k = Some c"
  by auto

lemma map_total [ioc_total]: "\<exists>x. e = Some x \<Longrightarrow> \<exists>c. map_option f e = Some c"
  by auto

lemma if_total: "\<exists>c. x = Some c \<Longrightarrow> \<exists>c. y = Some c \<Longrightarrow> \<exists>c. (if t then x else y) = Some c"
  by simp

lemma some_total [ioc_total]: "\<exists>c. Some x = Some c"
  by simp

lemma ioc_small_total:
  assumes "unat (hdr_cbIn hdr) \<le> length b"
  shows "\<exists>c. ioc_cookie hdr b = Some c" "\<exists>c. ioc_query_funcs n hdr b = Some c" "\<exists>c. ioc_ldr_open hdr b = Some c"
    "\<exists>c. ioc_ldr_free hdr b = Some c" "\<exists>c. ioc_ldr_get_symbol hdr b = Some c" "\<exists>c. ioc_addr_only f hdr b = Some c"
    "\<exists>c. ioc_cont_alloc hdr b = Some c" "\<exists>c. ioc_set_vm hdr b = Some c" "\<exists>c. ioc_page_lock hdr b = Some c"
    "\<exists>c. ioc_page_map_kernel hdr b = Some c" "\<exists>c. ioc_page_protect hdr b = Some c" "\<exists>c. ioc_sem_op2 hdr b = Some c"
    "\<exists>c. ioc_sem_op3 hdr b = Some c" "\<exists>c. ioc_low_alloc hdr b = Some c" "\<exists>c. ioc_page_alloc_ex hdr b = Some c"
  unfolding ioc_cookie_def ioc_query_funcs_def ioc_ldr_open_def ioc_ldr_free_def ioc_ldr_get_symbol_def ioc_addr_only_def
    ioc_cont_alloc_def ioc_set_vm_def ioc_page_lock_def ioc_page_map_kernel_def ioc_page_protect_def ioc_sem_op2_def
    ioc_sem_op3_def ioc_low_alloc_def ioc_page_alloc_ex_def
  by (intro ioc_total; use assms in \<open>simp add: get_in copy_bytes_in\<close>)+


lemma ioc_packet_total:
  assumes "unat (hdr_cbIn hdr) \<le> length b" "pkt \<le> 64" "pkt + 8 \<le> length b \<Longrightarrow> \<exists>c. k = Some c"
  shows "\<exists>c. ioc_packet hdr b pkt magic k = Some c"
proof -
  have n: "pkt + 8 \<le> length b" if c: "of_nat pkt + 8 \<le> hdr_cbIn hdr"
  proof -
    have "unat (of_nat pkt + 8 :: u32) = pkt + 8" using assms(2) by (simp add: unat_word_ariths unat_of_nat)
    then show ?thesis using c assms(1) by (simp add: word_le_nat_alt)
  qed
  show ?thesis
    unfolding ioc_packet_def by (intro ioc_total assms(3)) (use n in \<open>simp_all add: get_in\<close>)
qed

lemma ioc_call_total:
  assumes "unat (hdr_cbIn hdr) \<le> length b"
  shows "\<exists>c. ioc_call_vmmr0 hdr b = Some c" "\<exists>c. ioc_call_vmmr0_big hdr b = Some c" "\<exists>c. ioc_call_service hdr b = Some c"
proof -
  have v: "\<exists>c. ioc_call_args b f = Some c" if "48 \<le> length b" for f
    unfolding ioc_call_args_def by (intro ioc_total) (use that in \<open>simp_all add: get_in\<close>)
  have s: "\<exists>c. ioc_service_args b f = Some c" if "64 \<le> length b" for f
    unfolding ioc_service_args_def by (intro ioc_total) (use that in \<open>simp_all add: get_in copy_bytes_in\<close>)
  have p: "\<exists>c. ioc_packet hdr b 48 0x19730211 (ioc_call_args b True) = Some c"
    by (rule ioc_packet_total [OF assms]) (use v in simp_all)
  show "\<exists>c. ioc_call_vmmr0_big hdr b = Some c" unfolding ioc_call_vmmr0_big_def by (rule p)
  have q: "\<exists>c. REQ_CHECK_SIZES hdr (Some 48) (Some 48) (ioc_call_args b False) = Some c"
    by (intro ioc_total v) (use assms in simp)
  then show "\<exists>c. ioc_call_vmmr0 hdr b = Some c" using p by (simp add: ioc_call_vmmr0_def)
  have "\<exists>c. REQ_CHECK_SIZES hdr (Some 64) (Some 64) (ioc_service_args b False) = Some c"
    by (intro ioc_total s) (use assms in simp)
  moreover have "\<exists>c. ioc_packet hdr b 64 0x19640416 (ioc_service_args b True) = Some c"
    by (rule ioc_packet_total [OF assms]) (use s in simp_all)
  ultimately show "\<exists>c. ioc_call_service hdr b = Some c" by (simp add: ioc_call_service_def)
qed

lemma ioc_logger_total:
  assumes "unat (hdr_cbIn hdr) \<le> length b"
  shows "\<exists>c. ioc_logger hdr b = Some c"
proof (cases "45 \<le> hdr_cbIn hdr")
  case True
  then have l: "45 \<le> unat (hdr_cbIn hdr)" by (simp add: word_le_nat_alt)
  have c: "unat (ucast (hdr_cbIn hdr) - 44 :: u64) = unat (hdr_cbIn hdr) - 44" "unat (ucast (hdr_cbIn hdr) - 45 :: u64) = unat (hdr_cbIn hdr) - 45"
    using l by (simp_all add: unat_sub_if' unat_ucast_u32)
  show ?thesis
    unfolding ioc_logger_def Let_def
    by (intro ioc_total) (use l c assms in \<open>simp_all add: get_in copy_bytes_in\<close>)
next
  case False
  then show ?thesis unfolding ioc_logger_def by (intro ioc_total) simp_all
qed

lemma load_size:
  assumes "ucast (cbIn :: u32) = (108 + ucast (cb :: u32) :: u64)"
  shows "unat cbIn = 108 + unat cb"
proof -
  have "unat (108 + ucast cb :: u64) = 108 + unat cb"
    using unsigned_less [of cb, where ?'a = nat] by (simp add: unat_word_ariths unat_ucast_u32)
  then show ?thesis using size_eq [OF assms] by simp
qed


text \<open>The checks of the tables before the loop over the symbols.\<close>

definition load_tabs_in :: "u32 \<Rightarrow> u32 \<Rightarrow> u32 \<Rightarrow> u32 \<Rightarrow> u32 \<Rightarrow> bool" where
  "load_tabs_in cb off cs so sc \<longleftrightarrow>
     (cs = 0 \<or> off < cb \<and> (ucast off + ucast cs * 8 :: u64) \<le> ucast cb) \<and> cs \<le> 16384 \<and>
     (sc = 0 \<or> so < cb \<and> so + sc \<le> cb \<and> sc \<le> cb)"

lemma load_tabs_inD:
  assumes "load_tabs_in cb off cs so sc" "unat cb < 0x1000000"
  shows "cs \<noteq> 0 \<Longrightarrow> unat off + 8 * unat cs \<le> unat cb" "sc \<noteq> 0 \<Longrightarrow> unat so + unat sc \<le> unat cb"
proof -
  assume z: "cs \<noteq> 0"
  have c: "unat off < 2 ^ 24" "unat cs \<le> 16384" using assms z by (auto simp: load_tabs_in_def word_less_nat_alt word_le_nat_alt)
  have "unat (ucast off + ucast cs * 8 :: u64) = unat off + unat cs * 8"
    using c by (simp add: unat_word_ariths unat_ucast_u32)
  then show "unat off + 8 * unat cs \<le> unat cb" using assms(1) z by (simp add: load_tabs_in_def word_le_nat_alt unat_ucast_u32)
next
  assume z: "sc \<noteq> 0"
  have "unat so + unat sc < 2 ^ 32" using assms z by (auto simp: load_tabs_in_def word_less_nat_alt word_le_nat_alt)
  from unat_plus32 [OF this] show "unat so + unat sc \<le> unat cb" using assms(1) z by (simp add: load_tabs_in_def word_le_nat_alt)
qed

lemma load_syms_total:
  assumes "load_tabs_in cb off cs so sc" "unat cb < 0x1000000" "108 + unat cb \<le> length b"
  shows "\<exists>f. ioc_check_syms b cb off so sc 0 (unat cs) = Some f"
proof (cases "unat cs")
  case (Suc j)
  then have cs: "cs \<noteq> 0" by auto
  note sy = load_tabs_inD(1) [OF assms(1,2) cs]
  show ?thesis
  proof (cases "sc = 0")
    case True
    have "116 + unat off \<le> length b" using sy Suc assms(3) by simp
    then show ?thesis using Suc True by (auto simp: get_in)
  next
    case False
    then show ?thesis using check_syms_in [OF assms(3,2) sy] assms(1) by (simp add: load_tabs_in_def)
  qed
qed auto

text \<open>An accepted load request is one that the loader can work on.\<close>

lemma ioc_ldr_load_ok:
  assumes "unat (hdr_cbIn hdr) \<le> length b" "length b \<le> 0x1000000"
  shows "\<exists>c. ioc_ldr_load hdr b = Some c \<and> (\<forall>q. c = IocOk (IocLdrLoad q) \<longrightarrow> load_req_ok q)"
proof (cases "112 \<le> hdr_cbIn hdr")
  case False
  then show ?thesis by (simp add: ioc_ldr_load_def REQ_CHECK_EXPR_def)
next
  case big: True
  then have l: "112 \<le> length b" using assms(1) by (simp add: word_le_nat_alt)
  obtain cb :: u32 where cb: "get32 b 104 = Some cb" using l by (simp add: get_in)
  show ?thesis
  proof (cases "ucast (hdr_cbIn hdr) = (108 + ucast cb :: u64) \<and> ucast (hdr_cbOut hdr) = (24 :: u64)")
    case False
    then show ?thesis using big cb
      by (auto simp: ioc_ldr_load_def REQ_CHECK_EXPR_def REQ_CHECK_SIZES_def REQ_CHECK_SIZE_IN_def REQ_CHECK_SIZE_OUT_def)
  next
    case True
    then have n: "unat (hdr_cbIn hdr) = 108 + unat cb" using load_size by blast
    then have nb: "108 + unat cb \<le> length b" using assms(1) by simp
    let ?off = "le_word (take 4 (drop 88 b)) :: u32" and ?cs = "le_word (take 4 (drop 92 b)) :: u32"
    let ?so = "le_word (take 4 (drop 96 b)) :: u32" and ?sc = "le_word (take 4 (drop 100 b)) :: u32"
    let ?T = "load_tabs_in cb ?off ?cs ?so ?sc"
    obtain ep where ep: "get_eps b = Some ep" using l by (simp add: get_eps_def get_in)
    have ab: "copy_bytes b 108 (unat cb) = Some (take (unat cb) (drop 108 b))" by (rule copy_bytes_in [OF nb])
    have k: "ioc_ldr_load hdr b = (if ?T then Option.bind (ioc_check_syms b cb ?off ?so ?sc 0 (unat ?cs)) (\<lambda>f. REQ_CHECK_EXPR f
          (Some (IocOk (IocLdrLoad
             \<lparr>ll_pvImageBase = le_word (take 8 (drop 72 b)), ll_cbImageWithTabs = cb, ll_cbImageBits = le_word (take 4 (drop 84 b)),
              ll_pfnModuleInit = le_word (take 8 (drop 24 b)), ll_pfnModuleTerm = le_word (take 8 (drop 32 b)), ll_EP = ep,
              ll_offSymbols = ?off, ll_cSymbols = ?cs, ll_offStrTab = ?so, ll_cbStrTab = ?sc,
              ll_abImage = take (unat cb) (drop 108 b)\<rparr>)))) else Some IocBad)"
      using big cb True l nb
      by (simp add: ioc_ldr_load_def REQ_CHECK_EXPR_def REQ_CHECK_SIZES_def REQ_CHECK_SIZE_IN_def REQ_CHECK_SIZE_OUT_def
          load_tabs_in_def get_in ab ep cong del: if_weak_cong)
    show ?thesis
    proof (cases ?T)
      case False
      show ?thesis unfolding k if_not_P [OF False] by simp
    next
      case T: True
      have m: "unat cb < 0x1000000" using nb assms(2) by simp
      have t: "?cs = 0 \<or> unat ?off + unat ?cs * 8 \<le> unat cb" "?sc = 0 \<or> unat ?so + unat ?sc \<le> unat cb"
        using load_tabs_inD [OF T m] by (metis mult.commute)+
      obtain f where f: "ioc_check_syms b cb ?off ?so ?sc 0 (unat ?cs) = Some f" using load_syms_total [OF T m nb] by blast
      show ?thesis
        unfolding k if_P [OF T] f using t nb
        by (cases f) (auto simp: REQ_CHECK_EXPR_def load_req_ok_def)
    qed
  qed
qed


lemma ioc_parse_ok:
  assumes "unat (hdr_cbIn hdr) \<le> length b" "length b \<le> 0x1000000"
  shows "\<exists>c. ioc_parse cFuncs uIOCtl hdr b = Some c"
proof -
  have l: "\<exists>c. ioc_ldr_load hdr b = Some c" using ioc_ldr_load_ok [OF assms] by blast
  have e: "\<exists>c. REQ_CHECK_SIZES hdr (Some m) (Some n) (Some x) = Some c"
    "\<exists>c. REQ_CHECK_SIZES hdr (Some m) (Some n) (REQ_CHECK_EXPR t (Some x)) = Some c" for m n x t
    by (intro ioc_total; simp)+
  note all = ioc_small_total [OF assms(1)] ioc_call_total [OF assms(1)] ioc_logger_total [OF assms(1)] l e
  show ?thesis
    unfolding ioc_parse_def Let_def by (intro all some_total if_total)
qed

end
