(* ===== verification/SupCaps.thy ===== *)
theory SupCaps
  imports SupState
begin

unbundle bit_operations_syntax

text \<open>
  What the driver tells about the host CPU (\<open>SUPR0GetPagingMode\<close>, \<open>SUPR0QueryVTCaps\<close>) and the
  settings of its loggers (\<open>supdrvIOCtl_LoggerSettings\<close>). Registers, CPUID leaves, model specific
  registers and the logger library are parameters.
\<close>

subsection \<open>The paging mode\<close>

datatype SUPPAGINGMODE =
    SUPPAGINGMODE_INVALID
  | SUPPAGINGMODE_32_BIT
  | SUPPAGINGMODE_32_BIT_GLOBAL
  | SUPPAGINGMODE_PAE
  | SUPPAGINGMODE_PAE_GLOBAL
  | SUPPAGINGMODE_PAE_NX
  | SUPPAGINGMODE_PAE_GLOBAL_NX
  | SUPPAGINGMODE_AMD64
  | SUPPAGINGMODE_AMD64_GLOBAL
  | SUPPAGINGMODE_AMD64_NX
  | SUPPAGINGMODE_AMD64_GLOBAL_NX

text \<open>The CPU: \<open>cpu_id\<close> answers \<open>(eax, ebx, ecx, edx)\<close>.\<close>

record hostcpu =
  cpu_cr0 :: u64
  cpu_cr4 :: u64
  cpu_fHasCpuId :: bool
  cpu_id :: "u32 \<Rightarrow> u32 \<times> u32 \<times> u32 \<times> u32"
  cpu_msr :: "u32 \<Rightarrow> u64"

definition cpu_edx :: "hostcpu \<Rightarrow> u32 \<Rightarrow> u32" where
  "cpu_edx cpu leaf = (case cpu_id cpu leaf of (a, b, c, d) \<Rightarrow> d)"

definition paging_nx_lma :: "hostcpu \<Rightarrow> u32" where
  "paging_nx_lma cpu =
     (if cpu_cr4 cpu AND 0x20 \<noteq> 0 then
        let fAmdFeatures = cpu_edx cpu 0x80000001
        in if fAmdFeatures AND (0x100000 OR 0x20000000) \<noteq> 0 then
             let efer = cpu_msr cpu 0xc0000080
             in (if fAmdFeatures AND 0x100000 \<noteq> 0 \<and> efer AND 0x800 \<noteq> 0 then 1 else 0) OR
                (if fAmdFeatures AND 0x20000000 \<noteq> 0 \<and> efer AND 0x400 \<noteq> 0 then 2 else 0)
           else 0
      else 0)"

definition SUPR0GetPagingMode :: "hostcpu \<Rightarrow> SUPPAGINGMODE" where
  "SUPR0GetPagingMode cpu =
     (if cpu_cr0 cpu AND (0x80000000 OR 1) \<noteq> 0x80000000 OR 1 then SUPPAGINGMODE_INVALID
      else
        let x = (cpu_cr4 cpu AND (0x20 OR 0x80)) OR ucast (paging_nx_lma cpu)
        in if x = 0 then SUPPAGINGMODE_32_BIT
           else if x = 0x80 then SUPPAGINGMODE_32_BIT_GLOBAL
           else if x = 0x20 then SUPPAGINGMODE_PAE
           else if x = 0x20 OR 1 then SUPPAGINGMODE_PAE_NX
           else if x = 0x20 OR 0x80 then SUPPAGINGMODE_PAE_GLOBAL
           else if x = 0x20 OR 0x80 OR 1 then SUPPAGINGMODE_PAE_GLOBAL
           else if x = 2 OR 0x20 then SUPPAGINGMODE_AMD64
           else if x = 2 OR 0x20 OR 1 then SUPPAGINGMODE_AMD64_NX
           else if x = 2 OR 0x20 OR 0x80 then SUPPAGINGMODE_AMD64_GLOBAL
           else if x = 2 OR 0x20 OR 0x80 OR 1 then SUPPAGINGMODE_AMD64_GLOBAL_NX
           else SUPPAGINGMODE_INVALID)"

subsection \<open>Hardware virtualization\<close>

abbreviation (input) SUPVTCAPS_AMD_V :: u32 where "SUPVTCAPS_AMD_V \<equiv> 1"
abbreviation (input) SUPVTCAPS_VT_X :: u32 where "SUPVTCAPS_VT_X \<equiv> 2"
abbreviation (input) SUPVTCAPS_NESTED_PAGING :: u32 where "SUPVTCAPS_NESTED_PAGING \<equiv> 4"

definition vtcaps_intel :: "hostcpu \<Rightarrow> u32 \<Rightarrow> u32 \<Rightarrow> status \<times> u32" where
  "vtcaps_intel cpu u32FeaturesECX u32FeaturesEDX =
     (if u32FeaturesECX AND 0x20 \<noteq> 0 \<and> u32FeaturesEDX AND 0x20 \<noteq> 0 \<and> u32FeaturesEDX AND 0x1000000 \<noteq> 0 then
        let val = cpu_msr cpu 0x3a
        in if val AND (4 OR 1) = 4 OR 1 \<or> val AND 1 = 0 then
             (if (ucast (drop_bit 32 (cpu_msr cpu 0x482)) :: u32) AND 0x80000000 \<noteq> 0 \<and>
                 (ucast (drop_bit 32 (cpu_msr cpu 0x48b)) :: u32) AND 2 \<noteq> 0
              then (VINF_SUCCESS, SUPVTCAPS_VT_X OR SUPVTCAPS_NESTED_PAGING)
              else (VINF_SUCCESS, SUPVTCAPS_VT_X))
           else (VERR_VMX_MSR_LOCKED_OR_DISABLED, 0)
      else (VERR_VMX_NO_VMX, 0))"

definition vtcaps_amd :: "hostcpu \<Rightarrow> u32 \<Rightarrow> u32 \<Rightarrow> status \<times> u32" where
  "vtcaps_amd cpu u32AMDFeatureECX u32FeaturesEDX =
     (if u32AMDFeatureECX AND 4 \<noteq> 0 \<and> u32FeaturesEDX AND 0x20 \<noteq> 0 \<and> u32FeaturesEDX AND 0x1000000 \<noteq> 0 then
        (if cpu_msr cpu 0xc0010114 AND 0x10 = 0 then
           (if cpu_edx cpu 0x8000000a AND 1 \<noteq> 0
            then (VINF_SUCCESS, SUPVTCAPS_AMD_V OR SUPVTCAPS_NESTED_PAGING)
            else (VINF_SUCCESS, SUPVTCAPS_AMD_V))
         else (VERR_SVM_DISABLED, 0))
      else (VERR_SVM_NO_SVM, 0))"

text \<open>The second result is \<open>*pfCaps\<close>, \<open>None\<close> when it is not written.\<close>

definition SUPR0QueryVTCaps :: "hostcpu \<Rightarrow> supdrv \<Rightarrow> addr \<Rightarrow> addr \<Rightarrow> (status \<times> u32 option) option" where
  "SUPR0QueryVTCaps cpu w pSession pfCaps =
     (case w_sess w pSession of
        None \<Rightarrow> None
      | Some s \<Rightarrow>
          if \<not> SUP_IS_SESSION_VALID pSession s then Some (VERR_INVALID_PARAMETER, None)
          else if \<not> RT_VALID_PTR pfCaps then Some (VERR_INVALID_POINTER, None)
          else if cpu_fHasCpuId cpu then
            (case cpu_id cpu 0 of (_, ebx, ecx, edx) \<Rightarrow>
             case cpu_id cpu 1 of (_, _, u32FeaturesECX, u32FeaturesEDX) \<Rightarrow>
             case cpu_id cpu 0x80000001 of (_, _, u32AMDFeatureECX, _) \<Rightarrow>
               if ebx = 0x756e6547 \<and> ecx = 0x6c65746e \<and> edx = 0x49656e69
               then (case vtcaps_intel cpu u32FeaturesECX u32FeaturesEDX of (rc, c) \<Rightarrow> Some (rc, Some c))
               else if ebx = 0x68747541 \<and> ecx = 0x444d4163 \<and> edx = 0x69746e65
               then (case vtcaps_amd cpu u32AMDFeatureECX u32FeaturesEDX of (rc, c) \<Rightarrow> Some (rc, Some c))
               else Some (VERR_UNSUPPORTED_CPU, Some 0))
          else Some (VERR_UNSUPPORTED_CPU, Some 0))"

subsection \<open>Loggers\<close>

text \<open>
  The default instances of the debug and the release logger (0 is none) and the instances that
  were destroyed, latest first. The library: \<open>lg_Flags\<close> and \<open>lg_Groups\<close> set a logger up with a
  string, \<open>lg_Create\<close> makes one, \<open>lg_Destroy\<close> is the status of destroying one.
\<close>

record logstate =
  log_debug :: addr
  log_release :: addr
  log_destroyed :: "addr list"

record loghost =
  lg_Flags :: "addr \<Rightarrow> u8 list \<Rightarrow> status"
  lg_Groups :: "addr \<Rightarrow> u8 list \<Rightarrow> status"
  lg_Create :: "u8 list \<Rightarrow> bool \<Rightarrow> status \<times> addr"
  lg_Destroy :: "addr \<Rightarrow> status"

definition log_get :: "u32 \<Rightarrow> logstate \<Rightarrow> addr" where
  "log_get fWhich l = (if fWhich = 0 then log_debug l else log_release l)"

text \<open>Setting a default instance answers the old one.\<close>

definition log_set :: "u32 \<Rightarrow> addr \<Rightarrow> logstate \<Rightarrow> logstate" where
  "log_set fWhich p l = (if fWhich = 0 then l\<lparr>log_debug := p\<rparr> else l\<lparr>log_release := p\<rparr>)"

definition log_free :: "addr \<Rightarrow> logstate \<Rightarrow> logstate" where
  "log_free p l = (if p = 0 then l else l\<lparr>log_destroyed := p # log_destroyed l\<rparr>)"

text \<open>A string of the request: the bytes from its offset on; \<open>None\<close> is an offset behind the end.\<close>

definition log_str :: "u8 list \<Rightarrow> u32 \<Rightarrow> u8 list option" where
  "log_str szStrings off = (if unat off < length szStrings then Some (cstr (drop (unat off) szStrings)) else None)"

definition supdrvIOCtl_LoggerSettings ::
  "loghost \<Rightarrow> logstate \<Rightarrow> u32 \<Rightarrow> u32 \<Rightarrow> u8 list \<Rightarrow> u32 \<Rightarrow> u32 \<Rightarrow> u32 \<Rightarrow> (status \<times> logstate) option" where
  "supdrvIOCtl_LoggerSettings lg l fWhich fWhat szStrings offGroups offFlags offDest =
     (case (log_str szStrings offGroups, log_str szStrings offFlags, log_str szStrings offDest) of
        (Some szGroup, Some szFlags, Some szDest) \<Rightarrow>
          if fWhat = 2 \<and> (szGroup \<noteq> [] \<or> szFlags \<noteq> [] \<or> szDest \<noteq> []) then Some (VERR_INVALID_PARAMETER, l)
          else if fWhat = 2 \<and> fWhich = 1 then Some (VERR_ACCESS_DENIED, l)
          else if 2 < fWhat then Some (VERR_INTERNAL_ERROR, l)
          else if 1 < fWhich then Some (VERR_INTERNAL_ERROR, l)
          else
            let pLogger = log_get fWhich l
            in if fWhat = 0 then
                 (if pLogger \<noteq> 0 then
                    (let rc = lg_Flags lg pLogger szFlags
                     in Some (if RT_SUCCESS rc then lg_Groups lg pLogger szGroup else rc, l))
                  else Some (VERR_NOT_FOUND, l))
               else if fWhat = 1 then
                 (if pLogger \<noteq> 0 then Some (VERR_ALREADY_EXISTS, l)
                  else
                    (case lg_Create lg szGroup (fWhich = 0) of (rc, pNew) \<Rightarrow>
                       if RT_SUCCESS rc then
                         (let rc1 = lg_Flags lg pNew szFlags
                          in if RT_SUCCESS rc1
                             then Some (rc1, log_free (log_get fWhich l) (log_set fWhich pNew l))
                             else Some (rc1, log_free pNew l))
                       else Some (rc, l)))
               else
                 (let pOld = log_get fWhich l
                  in Some (lg_Destroy lg pOld, log_free pOld (log_set fWhich 0 l)))
      | _ \<Rightarrow> None)"

subsection \<open>Correctness\<close>

text \<open>The mode as the flags of the CPU define it, and the flags.\<close>

definition paging_mode :: "bool \<Rightarrow> bool \<Rightarrow> bool \<Rightarrow> bool \<Rightarrow> SUPPAGINGMODE" where
  "paging_mode pae pge nx lma =
     (if pae \<and> lma then
        (if pge then (if nx then SUPPAGINGMODE_AMD64_GLOBAL_NX else SUPPAGINGMODE_AMD64_GLOBAL)
         else (if nx then SUPPAGINGMODE_AMD64_NX else SUPPAGINGMODE_AMD64))
      else if pae then
        (if pge then (if nx then SUPPAGINGMODE_PAE_GLOBAL_NX else SUPPAGINGMODE_PAE_GLOBAL)
         else (if nx then SUPPAGINGMODE_PAE_NX else SUPPAGINGMODE_PAE))
      else if pge then SUPPAGINGMODE_32_BIT_GLOBAL else SUPPAGINGMODE_32_BIT)"


definition cpu_pae :: "hostcpu \<Rightarrow> bool" where
  "cpu_pae cpu \<longleftrightarrow> bit (cpu_cr4 cpu) 5"

definition cpu_pge :: "hostcpu \<Rightarrow> bool" where
  "cpu_pge cpu \<longleftrightarrow> bit (cpu_cr4 cpu) 7"

definition cpu_nx :: "hostcpu \<Rightarrow> bool" where
  "cpu_nx cpu \<longleftrightarrow> cpu_edx cpu 0x80000001 AND 0x100000 \<noteq> 0 \<and> cpu_msr cpu 0xc0000080 AND 0x800 \<noteq> 0"

definition cpu_lma :: "hostcpu \<Rightarrow> bool" where
  "cpu_lma cpu \<longleftrightarrow> cpu_edx cpu 0x80000001 AND 0x20000000 \<noteq> 0 \<and> cpu_msr cpu 0xc0000080 AND 0x400 \<noteq> 0"

lemma and_bit: "x AND 2 ^ n = (if bit x n then 2 ^ n else 0)" for x :: "'a::len word"
  by (rule bit_word_eqI) (auto simp: bit_simps)

lemma cr4_bits:
  fixes x :: u64
  shows "x AND (0x20 OR 0x80) = (if bit x 5 then 0x20 else 0) OR (if bit x 7 then 0x80 else 0)"
    "x AND 0x20 = (if bit x 5 then 0x20 else 0)"
proof -
  have a: "x AND 0x20 = (if bit x 5 then 0x20 else 0)" and b: "x AND 0x80 = (if bit x 7 then 0x80 else 0)"
    using and_bit [of x 5] and_bit [of x 7] by simp_all
  show "x AND 0x20 = (if bit x 5 then 0x20 else 0)" by (rule a)
  show "x AND (0x20 OR 0x80) = (if bit x 5 then 0x20 else 0) OR (if bit x 7 then 0x80 else 0)"
    unfolding a [symmetric] b [symmetric] by (rule bit.conj_disj_distrib)
qed

lemma and_or_zero: "x AND (m OR n) = 0 \<longleftrightarrow> x AND m = 0 \<and> x AND n = 0" for x :: "'a::len word"
  by (auto simp: bit.conj_disj_distrib or_eq_0_iff)

text \<open>
  C40: the paging mode the driver reports is the one the control registers, the CPUID features and
  EFER define, except that PAE paging with global pages and NX is reported without NX.
\<close>

theorem SUPR0GetPagingMode_mode:
  "SUPR0GetPagingMode cpu =
    (if cpu_cr0 cpu AND 0x80000001 \<noteq> 0x80000001 then SUPPAGINGMODE_INVALID
     else if cpu_pae cpu \<and> cpu_pge cpu \<and> cpu_nx cpu \<and> \<not> cpu_lma cpu then SUPPAGINGMODE_PAE_GLOBAL
     else paging_mode (cpu_pae cpu) (cpu_pge cpu) (cpu_nx cpu) (cpu_lma cpu))"
proof -
  have f: "cpu_edx cpu 0x80000001 AND (0x100000 OR 0x20000000) \<noteq> 0" if "cpu_nx cpu \<or> cpu_lma cpu"
    unfolding and_or_zero using that by (auto simp: cpu_nx_def cpu_lma_def)
  have n: "paging_nx_lma cpu = (if cpu_pae cpu then (if cpu_nx cpu then 1 else 0) OR (if cpu_lma cpu then 2 else 0) else 0)"
    unfolding paging_nx_lma_def Let_def cr4_bits
    using f by (auto simp: cpu_pae_def cpu_nx_def cpu_lma_def)
  show ?thesis
    unfolding SUPR0GetPagingMode_def n Let_def paging_mode_def cr4_bits cpu_pae_def [symmetric] cpu_pge_def [symmetric]
    by (cases "cpu_pae cpu"; cases "cpu_pge cpu"; cases "cpu_nx cpu"; cases "cpu_lma cpu"; simp)
qed

text \<open>
  No request makes a default logger out of a destroyed one, loses the release logger or destroys it.
\<close>

definition log_ok :: "logstate \<Rightarrow> bool" where
  "log_ok l \<longleftrightarrow> (log_debug l = 0 \<or> log_debug l \<notin> set (log_destroyed l)) \<and>
     (log_release l = 0 \<or> log_release l \<notin> set (log_destroyed l)) \<and> (log_debug l \<noteq> log_release l \<or> log_debug l = 0)"

lemma supdrvIOCtl_LoggerSettings_ok:
  assumes "supdrvIOCtl_LoggerSettings lg l fWhich fWhat szStrings offGroups offFlags offDest = Some (rc, l')" "log_ok l"
    "\<forall>g d. snd (lg_Create lg g d) \<notin> set (log_destroyed l) \<union> {0, log_release l, log_debug l}"
  shows "log_ok l' \<and> (log_release l \<noteq> 0 \<longrightarrow> log_release l' = log_release l)"
proof -
  have n: "\<And>g d r p. lg_Create lg g d = (r, p) \<Longrightarrow> p \<notin> set (log_destroyed l) \<and> p \<noteq> 0 \<and> p \<noteq> log_release l \<and> p \<noteq> log_debug l"
    using assms(3) by (metis Un_iff insertCI snd_conv)
  have w: "fWhat = 0 \<or> fWhat = 1 \<or> fWhat = 2 \<or> 2 < fWhat" "fWhich = 0 \<or> fWhich = 1 \<or> 1 < fWhich" by unat_arith+
  show ?thesis
    using assms(1,2)
    by (cases "2 < fWhat"; cases "1 < fWhich"; use w in \<open>elim disjE\<close>)
      (auto simp: supdrvIOCtl_LoggerSettings_def Let_def log_get_def log_set_def log_free_def log_ok_def
        split: option.splits if_splits prod.splits dest!: n)
qed

end
