(* ===== verification/SupIoctl.thy ===== *)
theory SupIoctl
  imports SupIoc SupCaps SupSession SupLdrSyms SupSem SupMemOps SupGipUse
begin

unbundle bit_operations_syntax

text \<open>
  The control function of the driver (\<open>supdrvIOCtl\<close> and \<open>supdrvIOCtlFast\<close>): what an accepted request
  executes, and the whole function over the request buffer. Everything the driver calls
  outside of it is in the record \<open>ioc_env\<close>.
\<close>

subsection \<open>The environment\<close>

text \<open>
  \<open>env_buf\<close> is the address of the request buffer and \<open>env_local\<close> that of a local variable.
  \<open>env_pNew\<close>, \<open>env_pvExec\<close>, \<open>env_fMem\<close>, \<open>env_fMem1\<close>, \<open>env_fMem2\<close> and \<open>env_fAlloc\<close> are the answers of
  the allocators, \<open>env_rcInit\<close> the status of a module initialisation, \<open>env_rcLock\<close> that of taking
  the loader mutex. \<open>env_VMMR0EntryEx\<close> is the entry point of the VMM at an address: it gets the
  packet, if any, and answers the status, the packet after the call and the driver state.
  \<open>env_SemCreate\<close> is the answer of creating a native semaphore, \<open>env_SemOp\<close> that of an operation
  on it and \<open>env_SemWait\<close> that of a wait, both with the state the other threads leave meanwhile.
\<close>

record ioc_env =
  env_hst :: r0host
  env_gh :: giphost
  env_idCpu :: u32
  env_cpu :: hostcpu
  env_lg :: loghost
  env_aFunctions :: "(u8 list \<times> addr) list"
  env_buf :: addr
  env_local :: addr
  env_os :: SUPDRVOSLDR
  env_pNew :: addr
  env_pvExec :: addr
  env_fMem :: bool
  env_fMem1 :: bool
  env_fMem2 :: bool
  env_fAlloc :: bool
  env_rcInit :: status
  env_rcLock :: status
  env_VMMR0EntryEx :: "addr \<Rightarrow> addr \<Rightarrow> u32 \<Rightarrow> u32 \<Rightarrow> u8 list option \<Rightarrow> u64 \<Rightarrow> addr \<Rightarrow> supdrv \<Rightarrow> status \<times> u8 list option \<times> supdrv"
  env_Service :: "addr \<Rightarrow> u32 \<Rightarrow> u64 \<Rightarrow> bool \<Rightarrow> status"
  env_pfnSemDtor :: "nat \<Rightarrow> addr"
  env_SemCreate :: "status \<times> addr"
  env_SemOp :: sem_prim
  env_SemWait :: wait_prim
  env_Resolution :: "nat \<Rightarrow> u32"

text \<open>
  What a request leaves: the status in \<open>Hdr.rc\<close>, the fields it writes (offset and bytes), \<open>Hdr.cbOut\<close>
  if it is changed, the driver and the loggers.
\<close>

record ioc_reply =
  rep_rc :: status
  rep_out :: "(nat \<times> u8 list) list"
  rep_cbOut :: "u32 option"
  rep_drv :: supdrv
  rep_log :: logstate

abbreviation (input) le32s :: "u32 \<Rightarrow> u8 list" where "le32s \<equiv> le_bytes 4"
abbreviation (input) le64s :: "u64 \<Rightarrow> u8 list" where "le64s \<equiv> le_bytes 8"
abbreviation (input) bool8 :: "bool \<Rightarrow> u8 list" where "bool8 f \<equiv> [if f then 1 else 0]"

definition rep :: "logstate \<Rightarrow> status \<Rightarrow> (nat \<times> u8 list) list \<Rightarrow> supdrv \<Rightarrow> ioc_reply" where
  "rep l rc out w = \<lparr>rep_rc = rc, rep_out = out, rep_cbOut = None, rep_drv = w, rep_log = l\<rparr>"

text \<open>Requests that shorten the output to the header when they fail.\<close>

definition rep_short :: "logstate \<Rightarrow> status \<Rightarrow> (nat \<times> u8 list) list \<Rightarrow> supdrv \<Rightarrow> ioc_reply" where
  "rep_short l rc out w =
     \<lparr>rep_rc = rc, rep_out = out, rep_cbOut = (if RT_FAILURE rc then Some 24 else None), rep_drv = w, rep_log = l\<rparr>"

definition pages_out :: "nat \<Rightarrow> u64 list \<Rightarrow> nat \<times> u8 list" where
  "pages_out off pages = (off, concat (map le64s pages))"

named_theorems exec_defs \<open>definitions of the executed requests\<close>

subsection \<open>Cookie and functions\<close>

abbreviation (input) SUPDRV_IOC_VERSION :: u32 where "SUPDRV_IOC_VERSION \<equiv> 0x00190000"

text \<open>The magic is "The Magic Word!".\<close>

definition exec_cookie :: "ioc_env \<Rightarrow> supdrv \<Rightarrow> logstate \<Rightarrow> addr \<Rightarrow> u8 list \<Rightarrow> u32 \<Rightarrow> ioc_reply option" where
  [exec_defs]: "exec_cookie env w l pSession szMagic u32MinVersion =
     (if cstr szMagic \<noteq> [0x54, 0x68, 0x65, 0x20, 0x4d, 0x61, 0x67, 0x69, 0x63, 0x20, 0x57, 0x6f, 0x72, 0x64, 0x21]
      then Some (rep l VERR_INVALID_MAGIC [] w)
      else if SUPDRV_IOC_VERSION < u32MinVersion \<or>
              u32MinVersion AND 0xffff0000 \<noteq> SUPDRV_IOC_VERSION AND 0xffff0000
      then Some (rep l VERR_VERSION_MISMATCH
             [(24, le32s 0xffffffff), (28, le32s 0xffffffff), (32, le32s 0xffffffff), (36, le32s SUPDRV_IOC_VERSION),
              (48, le64s 0), (40, le32s 0)] w)
      else
        map_option (\<lambda>s. rep l VINF_SUCCESS
             [(24, le32s (dx_u32Cookie (w_devext w))), (28, le32s (ses_u32Cookie s)), (32, le32s SUPDRV_IOC_VERSION),
              (36, le32s SUPDRV_IOC_VERSION), (48, le64s pSession), (40, le32s (of_nat (length (env_aFunctions env))))] w)
          (w_sess w pSession))"

definition func_bytes :: "u8 list \<times> addr \<Rightarrow> u8 list" where
  [exec_defs]: "func_bytes f = (case f of (szName, pfn) \<Rightarrow> take 32 (szName @ replicate 32 0) @ le64s pfn)"

definition exec_query_funcs :: "ioc_env \<Rightarrow> supdrv \<Rightarrow> logstate \<Rightarrow> ioc_reply option" where
  [exec_defs]: "exec_query_funcs env w l =
     Some (rep l VINF_SUCCESS
       [(24, le32s (of_nat (length (env_aFunctions env)))), (32, concat (map func_bytes (env_aFunctions env)))] w)"

subsection \<open>Memory\<close>

definition exec_page_lock :: "ioc_env \<Rightarrow> supdrv \<Rightarrow> logstate \<Rightarrow> addr \<Rightarrow> addr \<Rightarrow> u32 \<Rightarrow> ioc_reply option" where
  [exec_defs]: "exec_page_lock env w l pSession pvR3 cPages =
     map_option (\<lambda>(rc, pages, w1). rep_short l rc [pages_out (24 + 8 * (unat cPages - length pages)) pages] w1)
       (SUPR0LockMem (env_hst env) (env_fAlloc env) w pSession pvR3 cPages (env_buf env + 24))"

definition exec_cont_alloc :: "ioc_env \<Rightarrow> supdrv \<Rightarrow> logstate \<Rightarrow> addr \<Rightarrow> u32 \<Rightarrow> ioc_reply option" where
  [exec_defs]: "exec_cont_alloc env w l pSession cPages =
     map_option (\<lambda>(rc, out, w1). rep_short l rc
           (case out of None \<Rightarrow> [] | Some (pvR0, pvR3, HCPhys) \<Rightarrow> [(24, le64s pvR0), (32, le64s pvR3), (40, le64s HCPhys)]) w1)
       (SUPR0ContAlloc (env_hst env) (env_fAlloc env) w pSession cPages (env_buf env + 24) (env_buf env + 32) (env_buf env + 40))"

definition exec_low_alloc :: "ioc_env \<Rightarrow> supdrv \<Rightarrow> logstate \<Rightarrow> addr \<Rightarrow> u32 \<Rightarrow> ioc_reply option" where
  [exec_defs]: "exec_low_alloc env w l pSession cPages =
     map_option (\<lambda>(rc, out, w1). rep_short l rc
           (case out of None \<Rightarrow> [] | Some (pvR0, pvR3, pages) \<Rightarrow> [(32, le64s pvR0), (24, le64s pvR3), pages_out 40 pages]) w1)
       (SUPR0LowAlloc (env_hst env) (env_fAlloc env) w pSession cPages (env_buf env + 32) (env_buf env + 24) (env_buf env + 40))"

text \<open>Without a kernel mapping the field \<open>pvR0\<close> is not written.\<close>

definition exec_page_alloc_ex :: "ioc_env \<Rightarrow> supdrv \<Rightarrow> logstate \<Rightarrow> addr \<Rightarrow> u32 \<Rightarrow> bool \<Rightarrow> bool \<Rightarrow> ioc_reply option" where
  [exec_defs]: "exec_page_alloc_ex env w l pSession cPages fKernelMapping fUserMapping =
     map_option (\<lambda>(rc, out, w1). rep_short l rc
           (case out of None \<Rightarrow> []
            | Some (pvR3, pvR0, pages) \<Rightarrow>
                (if fUserMapping then [(24, le64s pvR3)] else []) @
                (if fKernelMapping then [(32, le64s pvR0)] else []) @ [pages_out 40 pages]) w1)
       (SUPR0PageAllocEx (env_hst env) (env_fAlloc env) w pSession cPages 0
          (if fUserMapping then env_buf env + 24 else 0) (if fKernelMapping then env_buf env + 32 else 0) (env_buf env + 40))"

definition exec_page_map_kernel :: "ioc_env \<Rightarrow> supdrv \<Rightarrow> logstate \<Rightarrow> addr \<Rightarrow> addr \<Rightarrow> u32 \<Rightarrow> u32 \<Rightarrow> u32 \<Rightarrow> ioc_reply option" where
  [exec_defs]: "exec_page_map_kernel env w l pSession pvR3 offSub cbSub fFlags =
     map_option (\<lambda>(rc, pvR0, w1). rep_short l rc (if RT_SUCCESS rc then [(24, le64s pvR0)] else []) w1)
       (SUPR0PageMapKernel (env_hst env) w pSession pvR3 offSub cbSub fFlags (env_buf env + 24))"

text \<open>Requests that answer a status only.\<close>

definition exec_status :: "logstate \<Rightarrow> (status \<times> supdrv) option \<Rightarrow> ioc_reply option" where
  [exec_defs]: "exec_status l r = map_option (\<lambda>(rc, w1). rep l rc [] w1) r"

subsection \<open>The loader and the VMM\<close>

definition exec_ldr_open :: "ioc_env \<Rightarrow> supdrv \<Rightarrow> logstate \<Rightarrow> addr \<Rightarrow> SUPLDROPEN \<Rightarrow> ioc_reply option" where
  [exec_defs]: "exec_ldr_open env w l pSession pReq =
     map_option (\<lambda>(rc, out, w1). rep l rc
           (case out of None \<Rightarrow> []
            | Some (pvImageBase, fNeedsLoading, fNative) \<Rightarrow>
                [(24, le64s pvImageBase), (32, bool8 fNeedsLoading), (33, bool8 fNative)]) w1)
       (supdrvIOCtl_LdrOpen (env_os env) (env_pNew env) (env_pvExec env) (env_fMem env) w pSession pReq)"

definition exec_ldr_get_symbol :: "supdrv \<Rightarrow> logstate \<Rightarrow> addr \<Rightarrow> addr \<Rightarrow> u8 list \<Rightarrow> ioc_reply option" where
  [exec_defs]: "exec_ldr_get_symbol w l pSession pvImageBase szSymbol =
     map_option (\<lambda>(rc, out). rep l rc (case out of None \<Rightarrow> [] | Some pvSymbol \<Rightarrow> [(24, le64s pvSymbol)]) w)
       (supdrvIOCtl_LdrGetSymbol w pSession pvImageBase szSymbol)"

definition exec_call_vmmr0 ::
  "ioc_env \<Rightarrow> supdrv \<Rightarrow> logstate \<Rightarrow> addr \<Rightarrow> addr \<Rightarrow> u32 \<Rightarrow> u32 \<Rightarrow> u64 \<Rightarrow> u8 list option \<Rightarrow> ioc_reply option" where
  [exec_defs]: "exec_call_vmmr0 env w l pSession pVMR0 idCpu uOperation u64Arg pkt =
     (if dx_pfnVMMR0EntryEx (w_devext w) \<noteq> 0 then
        (case env_VMMR0EntryEx env (dx_pfnVMMR0EntryEx (w_devext w)) pVMR0 idCpu uOperation pkt u64Arg pSession w of
           (rc, pkt', w1) \<Rightarrow> Some (rep l rc (case (pkt, pkt') of (Some _, Some bs) \<Rightarrow> [(48, bs)] | _ \<Rightarrow> []) w1))
      else Some (rep l VERR_WRONG_ORDER [] w))"

subsection \<open>CPU, GIP and the session\<close>

primrec paging_code :: "SUPPAGINGMODE \<Rightarrow> u32" where
  "paging_code SUPPAGINGMODE_INVALID = 0"
| "paging_code SUPPAGINGMODE_32_BIT = 1"
| "paging_code SUPPAGINGMODE_32_BIT_GLOBAL = 2"
| "paging_code SUPPAGINGMODE_PAE = 3"
| "paging_code SUPPAGINGMODE_PAE_GLOBAL = 4"
| "paging_code SUPPAGINGMODE_PAE_NX = 5"
| "paging_code SUPPAGINGMODE_PAE_GLOBAL_NX = 6"
| "paging_code SUPPAGINGMODE_AMD64 = 7"
| "paging_code SUPPAGINGMODE_AMD64_GLOBAL = 8"
| "paging_code SUPPAGINGMODE_AMD64_NX = 9"
| "paging_code SUPPAGINGMODE_AMD64_GLOBAL_NX = 10"

definition exec_vt_caps :: "ioc_env \<Rightarrow> supdrv \<Rightarrow> logstate \<Rightarrow> addr \<Rightarrow> ioc_reply option" where
  [exec_defs]: "exec_vt_caps env w l pSession =
     map_option (\<lambda>(rc, caps). rep_short l rc (case caps of None \<Rightarrow> [] | Some c \<Rightarrow> [(24, le32s c)]) w)
       (SUPR0QueryVTCaps (env_cpu env) w pSession (env_buf env + 24))"

text \<open>\<open>pDevExt->pGip\<close> is the address of the memory object of the page.\<close>

definition exec_gip_map :: "ioc_env \<Rightarrow> supdrv \<Rightarrow> logstate \<Rightarrow> addr \<Rightarrow> ioc_reply option" where
  [exec_defs]: "exec_gip_map env w l pSession =
     (case SUPR0GipMap (env_hst env) (env_gh env) (env_idCpu env) w pSession (env_buf env + 32) (env_buf env + 24) of
        None \<Rightarrow> None
      | Some (rc, out, w1) \<Rightarrow>
          let o1 = (case out of None \<Rightarrow> [] | Some (pGipR3, HCPhys) \<Rightarrow> [(32, le64s pGipR3), (24, le64s HCPhys)])
          in if RT_SUCCESS rc
             then map_option (\<lambda>pGip. rep l rc (o1 @ [(40, le64s pGip)]) w1)
                    (RTR0MemObjAddress (w_memobjs w1) (dx_GipMemObj (w_devext w1)))
             else Some (rep l rc o1 w1))"

definition exec_set_vm :: "supdrv \<Rightarrow> logstate \<Rightarrow> addr \<Rightarrow> addr \<Rightarrow> ioc_reply option" where
  [exec_defs]: "exec_set_vm w l pSession pVMR0 =
     map_option (\<lambda>s. rep l VINF_SUCCESS [] (set_sess w pSession (s\<lparr>ses_pVM := pVMR0\<rparr>))) (w_sess w pSession)"

subsection \<open>Semaphores\<close>

definition exec_sem_op2 :: "ioc_env \<Rightarrow> supdrv \<Rightarrow> addr \<Rightarrow> u32 \<Rightarrow> addr \<Rightarrow> u32 \<Rightarrow> u64 \<Rightarrow> (status \<times> supdrv) option" where
  [exec_defs]: "exec_sem_op2 env w pSession uType hEvent uOp uArg =
     (if uType = 0 then
        (if uOp = 0 then SUPSemEventWaitNoResume (env_SemWait env) w pSession hEvent (ucast uArg)
         else if uOp = 1 then SUPSemEventWaitNsAbsIntr (env_SemWait env) w pSession hEvent uArg
         else if uOp = 2 then SUPSemEventWaitNsRelIntr (env_SemWait env) w pSession hEvent uArg
         else if uOp = 3 then SUPSemEventSignal w pSession hEvent (env_SemOp env)
         else if uOp = 5 then SUPSemEventClose w pSession hEvent
         else Some (VERR_INVALID_FUNCTION, w))
      else if uType = 1 then
        (if uOp = 0 then SUPSemEventMultiWaitNoResume (env_SemWait env) w pSession hEvent (ucast uArg)
         else if uOp = 1 then SUPSemEventMultiWaitNsAbsIntr (env_SemWait env) w pSession hEvent uArg
         else if uOp = 2 then SUPSemEventMultiWaitNsRelIntr (env_SemWait env) w pSession hEvent uArg
         else if uOp = 3 then SUPSemEventMultiSignal w pSession hEvent (env_SemOp env)
         else if uOp = 5 then SUPSemEventMultiClose w pSession hEvent
         else if uOp = 4 then SUPSemEventMultiReset w pSession hEvent (env_SemOp env)
         else Some (VERR_INVALID_FUNCTION, w))
      else Some (VERR_INVALID_PARAMETER, w))"

text \<open>The handle of a failed creation is the NIL handle that came in.\<close>

definition exec_sem_op3 :: "ioc_env \<Rightarrow> supdrv \<Rightarrow> logstate \<Rightarrow> addr \<Rightarrow> u32 \<Rightarrow> u32 \<Rightarrow> ioc_reply option" where
  [exec_defs]: "exec_sem_op3 env w l pSession uType uOp =
     (let created = map_option (\<lambda>(rc, h, w1). rep l rc [(24, le32s (case h of None \<Rightarrow> 0 | Some h32 \<Rightarrow> h32))] w1)
      in if uType = 0 then
           (if uOp = 0 then
              created (SUPSemEventCreate (env_pfnSemDtor env 0) w pSession (env_local env) (fst (env_SemCreate env))
                (snd (env_SemCreate env)) (env_pNew env) (env_fMem env) (env_fMem1 env) (env_fMem2 env))
            else if uOp = 1 then
              Some ((rep l VINF_SUCCESS [(24, le32s (env_Resolution env 0))] w)\<lparr>rep_cbOut := Some 48\<rparr>)
            else Some (rep l VERR_INVALID_FUNCTION [] w))
         else if uType = 1 then
           (if uOp = 0 then
              created (SUPSemEventMultiCreate (env_pfnSemDtor env 1) w pSession (env_local env) (fst (env_SemCreate env))
                (snd (env_SemCreate env)) (env_pNew env) (env_fMem env) (env_fMem1 env) (env_fMem2 env))
            else if uOp = 1 then Some (rep l VINF_SUCCESS [(24, le32s (env_Resolution env 1))] w)
            else Some (rep l VERR_INVALID_FUNCTION [] w))
         else Some (rep l VERR_INVALID_PARAMETER [] w))"

subsection \<open>The control function\<close>

text \<open>The packets of calls are the bytes of the buffer behind the fixed part.\<close>

definition ioc_exec ::
  "ioc_env \<Rightarrow> supdrv \<Rightarrow> logstate \<Rightarrow> addr \<Rightarrow> SUPREQHDR \<Rightarrow> u8 list \<Rightarrow> ioc_req \<Rightarrow> ioc_reply option" where
  "ioc_exec env w l pSession hdr b req =
     (case req of
        IocCookie szMagic v \<Rightarrow> exec_cookie env w l pSession szMagic v
      | IocQueryFuncs \<Rightarrow> exec_query_funcs env w l
      | IocLdrOpen r \<Rightarrow> exec_ldr_open env w l pSession r
      | IocLdrLoad r \<Rightarrow>
          exec_status l (supdrvIOCtl_LdrLoad (env_os env) (env_fMem1 env) (env_fMem2 env) (env_rcInit env) w pSession r)
      | IocLdrFree pv \<Rightarrow> exec_status l (supdrvIOCtl_LdrFree w pSession pv)
      | IocLdrGetSymbol pv sz \<Rightarrow> exec_ldr_get_symbol w l pSession pv sz
      | IocCallVmmr0 pVMR0 idCpu uOp u64Arg fPkt \<Rightarrow>
          (if fPkt then
             Option.bind (copy_bytes b 48 (unat (hdr_cbIn hdr) - 48))
               (\<lambda>pkt. exec_call_vmmr0 env w l pSession pVMR0 idCpu uOp u64Arg (Some pkt))
           else exec_call_vmmr0 env w l pSession pVMR0 idCpu uOp u64Arg None)
      | IocGetPagingMode \<Rightarrow> Some (rep l VINF_SUCCESS [(24, le32s (paging_code (SUPR0GetPagingMode (env_cpu env))))] w)
      | IocLowAlloc cPages \<Rightarrow> exec_low_alloc env w l pSession cPages
      | IocLowFree pv \<Rightarrow> exec_status l (SUPR0LowFree (env_hst env) w pSession pv)
      | IocGipMap \<Rightarrow> exec_gip_map env w l pSession
      | IocGipUnmap \<Rightarrow> exec_status l (SUPR0GipUnmap (env_hst env) w pSession)
      | IocSetVmForFast pv \<Rightarrow> exec_set_vm w l pSession pv
      | IocPageAllocEx cPages fK fU \<Rightarrow> exec_page_alloc_ex env w l pSession cPages fK fU
      | IocPageMapKernel pv off cb fl \<Rightarrow> exec_page_map_kernel env w l pSession pv off cb fl
      | IocPageProtect pv3 pv0 off cb prot \<Rightarrow>
          exec_status l (SUPR0PageProtect (env_hst env) w pSession pv3 pv0 off cb prot)
      | IocPageFree pv \<Rightarrow> exec_status l (SUPR0PageFree (env_hst env) w pSession pv)
      | IocPageLock pv cPages \<Rightarrow> exec_page_lock env w l pSession pv cPages
      | IocPageUnlock pv \<Rightarrow> exec_status l (SUPR0UnlockMem (env_hst env) w pSession pv)
      | IocContAlloc cPages \<Rightarrow> exec_cont_alloc env w l pSession cPages
      | IocContFree pv \<Rightarrow> exec_status l (SUPR0ContFree (env_hst env) w pSession pv)
      | IocCallService szName uOp u64Arg fPkt \<Rightarrow>
          map_option (\<lambda>rc. rep l rc [] w)
            (supdrvIOCtl_CallServiceModule (env_Service env) (env_rcLock env) w pSession szName uOp u64Arg fPkt)
      | IocLoggerSettings fWhich fWhat sz offGroups offFlags offDest \<Rightarrow>
          map_option (\<lambda>(rc, l1). rep l1 rc [] w)
            (supdrvIOCtl_LoggerSettings (env_lg env) l fWhich fWhat sz offGroups offFlags offDest)
      | IocSemOp2 uType hSem uOp uArg \<Rightarrow> exec_status l (exec_sem_op2 env w pSession uType (ucast hSem) uOp uArg)
      | IocSemOp3 uType hSem uOp \<Rightarrow> exec_sem_op3 env w l pSession uType uOp
      | IocVtCaps \<Rightarrow> exec_vt_caps env w l pSession)"

text \<open>Writing a reply to the buffer; \<open>None\<close> is a write outside of it.\<close>

primrec put_all :: "u8 list \<Rightarrow> (nat \<times> u8 list) list \<Rightarrow> u8 list option" where
  "put_all b [] = Some b"
| "put_all b (x # xs) = Option.bind (put b (fst x) (snd x)) (\<lambda>b1. put_all b1 xs)"

definition put_reply :: "u8 list \<Rightarrow> ioc_reply \<Rightarrow> u8 list option" where
  "put_reply b r =
     put_all b (rep_out r @ (20, le_bytes 4 (word_of_int (rep_rc r) :: u32)) #
       (case rep_cbOut r of None \<Rightarrow> [] | Some cb \<Rightarrow> [(12, le32s cb)]))"

type_synonym ioc_result = "(status \<times> u8 list \<times> supdrv \<times> logstate) option"

text \<open>The switch: checking, executing and replying.\<close>

definition ioc_switch :: "ioc_env \<Rightarrow> u64 \<Rightarrow> supdrv \<Rightarrow> logstate \<Rightarrow> addr \<Rightarrow> SUPREQHDR \<Rightarrow> u8 list \<Rightarrow> ioc_result" where
  "ioc_switch env uIOCtl w l pSession hdr b = do {
     c \<leftarrow> ioc_parse (length (env_aFunctions env)) uIOCtl hdr b;
     (case c of
        IocUnknown \<Rightarrow> Some (VERR_GENERAL_FAILURE, b, w, l)
      | IocBad \<Rightarrow>
          map_option (\<lambda>b1. (VERR_INVALID_PARAMETER, b1, w, l)) (put b 20 (le_bytes 4 (word_of_int VERR_INVALID_PARAMETER :: u32)))
      | IocOk req \<Rightarrow> do {
          r \<leftarrow> ioc_exec env w l pSession hdr b req;
          b1 \<leftarrow> put_reply b r;
          Some (0, b1, rep_drv r, rep_log r) }) }"

definition supdrvIOCtl :: "ioc_env \<Rightarrow> u64 \<Rightarrow> supdrv \<Rightarrow> logstate \<Rightarrow> addr \<Rightarrow> u8 list \<Rightarrow> ioc_result" where
  "supdrvIOCtl env uIOCtl w l pSession b = do {
     hdr \<leftarrow> get_hdr b;
     if hdr_fFlags hdr AND 0xff0000ff \<noteq> 0x42000042 \<or> hdr_cbIn hdr < 24 \<or> hdr_cbOut hdr < 24
     then Some (VERR_INVALID_PARAMETER, b, w, l)
     else if \<not> RT_VALID_PTR pSession then Some (VERR_INVALID_PARAMETER, b, w, l)
     else if uIOCtl = SUP_IOCTL_COOKIE then
       (if hdr_u32Cookie hdr \<noteq> 0x69726f74 then Some (VERR_INVALID_PARAMETER, b, w, l)
        else ioc_switch env uIOCtl w l pSession hdr b)
     else if hdr_u32Cookie hdr \<noteq> dx_u32Cookie (w_devext w) then Some (VERR_INVALID_PARAMETER, b, w, l)
     else do {
       s \<leftarrow> w_sess w pSession;
       if hdr_u32SessionCookie hdr \<noteq> ses_u32Cookie s then Some (VERR_INVALID_PARAMETER, b, w, l)
       else ioc_switch env uIOCtl w l pSession hdr b } }"

text \<open>
  The fast requests take nothing but the code and the CPU; the second result is the call of the VMM
  that is made: entry point, VM, CPU and operation.
\<close>

definition supdrvIOCtlFast ::
  "u64 \<Rightarrow> u32 \<Rightarrow> supdrv \<Rightarrow> addr \<Rightarrow> (status \<times> (addr \<times> addr \<times> u32 \<times> u32) option) option" where
  "supdrvIOCtlFast uIOCtl idCpu w pSession =
     (if \<not> RT_VALID_PTR pSession then Some (VERR_INTERNAL_ERROR, None)
      else do {
        s \<leftarrow> w_sess w pSession;
        let pfn = dx_pfnVMMR0EntryFast (w_devext w)
        in if ses_pVM s = 0 \<or> pfn = 0 then Some (VERR_INTERNAL_ERROR, None)
           else if uIOCtl = SUP_CTL_CODE_FAST 64 then Some (VINF_SUCCESS, Some (pfn, ses_pVM s, idCpu, 0))
           else if uIOCtl = SUP_CTL_CODE_FAST 65 then Some (VINF_SUCCESS, Some (pfn, ses_pVM s, idCpu, 1))
           else if uIOCtl = SUP_CTL_CODE_FAST 66 then Some (VINF_SUCCESS, Some (pfn, ses_pVM s, idCpu, 2))
           else Some (VERR_INTERNAL_ERROR, None) })"


subsection \<open>Outputs inside the buffer\<close>

lemma length_le_bytes [simp]: "length (le_bytes n x) = n"
  by (simp add: le_bytes_def)

lemma length_le64s [simp]: "length (concat (map (\<lambda>x. le_bytes 8 (x :: u64)) xs)) = 8 * length xs"
  by (induction xs) auto

lemma length_func_bytes [simp]: "length (func_bytes f) = 40"
  by (cases f) (auto simp: func_bytes_def min_def)

lemma length_funcs [simp]: "length (concat (map func_bytes fs)) = 40 * length fs"
  by (induction fs) auto

lemma phys_down_length:
  "phys_down hst h p n acc = Some (f, pages) \<Longrightarrow> length pages \<le> n + length acc"
  by (induction n arbitrary: acc) (fastforce split: option.splits if_splits)+

lemma phys_up_length: "phys_up hst h p i n = Some pages \<Longrightarrow> length pages = n"
  by (induction n arbitrary: i pages) (auto split: bind_splits)

lemma phys_map_length: "phys_map hst h p n acc = Some pages \<Longrightarrow> length pages = n + length acc"
  by (induction n arbitrary: acc) (fastforce split: bind_splits)+

lemma LockMem_length:
  "SUPR0LockMem hst fAlloc w sp pvR3 cPages pa = Some (rc, pages, w') \<Longrightarrow> length pages \<le> unat cPages"
  using phys_down_length [of hst _ _ "unat cPages" "[]"]
  by (fastforce simp: SUPR0LockMem_def with_session_def Let_def split: option.splits if_splits prod.splits)

lemma LowAlloc_length:
  "SUPR0LowAlloc hst fAlloc w sp cPages a b c = Some (rc, Some (x, y, pages), w') \<Longrightarrow>
     length pages = unat cPages \<and> unat cPages < 256"
  by (auto simp: SUPR0LowAlloc_def with_session_def word_le_nat_alt dest!: phys_up_length
      split: option.splits if_splits prod.splits bind_splits)

lemma PageAllocEx_length:
  "SUPR0PageAllocEx hst fAlloc w sp cPages fl a b c = Some (rc, Some (x, y, pages), w') \<Longrightarrow> length pages \<le> unat cPages"
  by (auto simp: SUPR0PageAllocEx_def with_session_def dest!: phys_map_length
      split: option.splits if_splits prod.splits bind_splits)

text \<open>The bytes an accepted request may write.\<close>

definition req_room :: "nat \<Rightarrow> SUPREQHDR \<Rightarrow> ioc_req \<Rightarrow> nat" where
  "req_room cFuncs hdr req =
     (case req of
        IocCookie _ _ \<Rightarrow> 56
      | IocQueryFuncs \<Rightarrow> 32 + 40 * cFuncs
      | IocLdrOpen _ \<Rightarrow> 40
      | IocLdrGetSymbol _ _ \<Rightarrow> 32
      | IocCallVmmr0 _ _ _ _ fPkt \<Rightarrow> if fPkt then max 48 (unat (hdr_cbIn hdr)) else 24
      | IocGetPagingMode \<Rightarrow> 28
      | IocLowAlloc c \<Rightarrow> if unat c < 256 then 40 + 8 * unat c else 24
      | IocGipMap \<Rightarrow> 48
      | IocPageAllocEx c _ _ \<Rightarrow> 40 + 8 * unat c
      | IocPageMapKernel _ _ _ _ \<Rightarrow> 48
      | IocPageLock _ c \<Rightarrow> 24 + 8 * unat c
      | IocContAlloc _ \<Rightarrow> 48
      | IocSemOp3 _ _ _ \<Rightarrow> 48
      | IocVtCaps \<Rightarrow> 28
      | _ \<Rightarrow> 24)"

definition out_in :: "nat \<Rightarrow> nat \<times> u8 list \<Rightarrow> bool" where
  "out_in n x \<longleftrightarrow> fst x + length (snd x) \<le> n"

text \<open>The entry point of the VMM leaves the size of a packet alone.\<close>

definition env_ok :: "ioc_env \<Rightarrow> bool" where
  "env_ok env \<longleftrightarrow> (\<forall>f v i u pkt a s w rc pkt' w1.
     env_VMMR0EntryEx env f v i u (Some pkt) a s w = (rc, Some pkt', w1) \<longrightarrow> length pkt' = length pkt)"

lemma exec_status_out: "exec_status l x = Some r \<Longrightarrow> \<forall>y\<in>set (rep_out r). out_in n y"
  by (auto simp: exec_status_def rep_def)

lemma exec_out:
  assumes "ioc_exec env w l sp hdr b req = Some r" "env_ok env"
  shows "\<forall>x\<in>set (rep_out r). out_in (req_room (length (env_aFunctions env)) hdr req) x"
proof (cases req)
  case (IocPageLock pv c)
  then show ?thesis using assms(1) LockMem_length
    by (fastforce simp: ioc_exec_def exec_page_lock_def rep_short_def req_room_def out_in_def pages_out_def)
next
  case (IocLowAlloc c)
  then show ?thesis using assms(1)
    by (auto simp: ioc_exec_def exec_low_alloc_def rep_short_def req_room_def out_in_def pages_out_def
        dest!: LowAlloc_length split: option.splits)
next
  case (IocPageAllocEx c fK fU)
  then show ?thesis using assms(1)
    by (auto simp: ioc_exec_def exec_page_alloc_ex_def rep_short_def req_room_def out_in_def pages_out_def
        dest!: PageAllocEx_length split: option.splits)
next
  case (IocCallVmmr0 pv id uop arg fPkt)
  then show ?thesis using assms
    by (fastforce simp: ioc_exec_def exec_call_vmmr0_def rep_def req_room_def out_in_def env_ok_def copy_bytes_def
        split: option.splits if_splits prod.splits)
next
  case (IocSemOp3 a b c)
  then show ?thesis using assms(1)
    by (auto simp: ioc_exec_def exec_sem_op3_def Let_def rep_def req_room_def out_in_def split: if_splits option.splits)
next
  case IocGipMap
  then show ?thesis using assms(1)
    by (auto simp: ioc_exec_def exec_gip_map_def Let_def rep_def req_room_def out_in_def split: if_splits option.splits)
next
  case (IocCookie m v)
  then show ?thesis using assms(1)
    by (auto simp: ioc_exec_def exec_cookie_def rep_def req_room_def out_in_def split: if_splits)
next
  case (IocContAlloc c)
  then show ?thesis using assms(1)
    by (auto simp: ioc_exec_def exec_cont_alloc_def rep_short_def req_room_def out_in_def split: option.splits)
next
  case (IocLdrOpen q)
  then show ?thesis using assms(1)
    by (auto simp: ioc_exec_def exec_ldr_open_def rep_def req_room_def out_in_def split: option.splits)
next
  case (IocLdrGetSymbol pv sz)
  then show ?thesis using assms(1)
    by (auto simp: ioc_exec_def exec_ldr_get_symbol_def rep_def req_room_def out_in_def split: option.splits)
next
  case (IocPageMapKernel pv off cb fl)
  then show ?thesis using assms(1)
    by (auto simp: ioc_exec_def exec_page_map_kernel_def rep_short_def req_room_def out_in_def split: if_splits)
next
  case IocVtCaps
  then show ?thesis using assms(1)
    by (auto simp: ioc_exec_def exec_vt_caps_def rep_short_def req_room_def out_in_def split: option.splits)
next
  case IocQueryFuncs
  then show ?thesis using assms(1) by (auto simp: ioc_exec_def exec_query_funcs_def rep_def req_room_def out_in_def)
next
  case IocGetPagingMode
  then show ?thesis using assms(1) by (auto simp: ioc_exec_def rep_def req_room_def out_in_def)
next
  case (IocSetVmForFast pv)
  then show ?thesis using assms(1) by (auto simp: ioc_exec_def exec_set_vm_def rep_def)
next
  case (IocCallService sz u a f)
  then show ?thesis using assms(1) by (auto simp: ioc_exec_def rep_def)
next
  case (IocLoggerSettings a c d e f g)
  then show ?thesis using assms(1) by (auto simp: ioc_exec_def rep_def)
qed (use assms(1) in \<open>simp_all add: ioc_exec_def exec_status_out\<close>)

lemma put_all_in:
  "\<forall>x\<in>set xs. out_in (length b) x \<Longrightarrow> \<exists>b'. put_all b xs = Some b' \<and> length b' = length b"
proof (induction xs arbitrary: b)
  case (Cons x xs)
  then have "fst x + length (snd x) \<le> length b" by (simp add: out_in_def)
  from put_in [OF this] obtain b1 where "put b (fst x) (snd x) = Some b1" "length b1 = length b" by blast
  then show ?case using Cons.IH [of b1] Cons.prems by simp
qed simp


text \<open>The checks of a request make room for its outputs.\<close>

abbreviation (input) hdr_room :: "SUPREQHDR \<Rightarrow> nat" where
  "hdr_room hdr \<equiv> max (unat (hdr_cbIn hdr)) (unat (hdr_cbOut hdr))"

lemma checkD:
  "REQ_CHECK_SIZE_IN hdr e k = Some (IocOk req) \<Longrightarrow> \<exists>n. e = Some n \<and> unat (hdr_cbIn hdr) = unat n \<and> k = Some (IocOk req)"
  "REQ_CHECK_SIZE_OUT hdr e k = Some (IocOk req) \<Longrightarrow> \<exists>n. e = Some n \<and> unat (hdr_cbOut hdr) = unat n \<and> k = Some (IocOk req)"
  "REQ_CHECK_EXPR c k = Some (IocOk req) \<Longrightarrow> c \<and> k = Some (IocOk req)"
  by (auto simp: REQ_CHECK_SIZE_IN_def REQ_CHECK_SIZE_OUT_def REQ_CHECK_EXPR_def size_eq split: bind_splits if_splits)

lemma checksD:
  "REQ_CHECK_SIZES hdr e e' k = Some (IocOk req) \<Longrightarrow> \<exists>n m. e = Some n \<and> unat (hdr_cbIn hdr) = unat n \<and>
     e' = Some m \<and> unat (hdr_cbOut hdr) = unat m \<and> k = Some (IocOk req)"
  unfolding REQ_CHECK_SIZES_def by (auto dest!: checkD)

lemma unat_pages: "unat (c :: u64) \<le> 40 \<Longrightarrow> unat (c + ucast (n :: u32) * 8 :: u64) = unat c + 8 * unat n"
  using unsigned_less [of n, where ?'a = nat] by (simp add: unat_word_ariths unat_ucast_u32)

lemma unat_pages32: "unat (n :: u32) < 256 \<Longrightarrow> unat (ucast (ucast (40 + ucast n * 8 :: u64) :: u32) :: u64) = 40 + 8 * unat n"
  by (simp add: unat_ucast_u32 unat_word_ariths unsigned_ucast_eq take_bit_eq_mod)

lemma small_room:
  "ioc_cookie hdr b = Some (IocOk req) \<Longrightarrow> req_room n hdr req \<le> hdr_room hdr"
  "ioc_ldr_open hdr b = Some (IocOk req) \<Longrightarrow> req_room n hdr req \<le> hdr_room hdr"
  "ioc_ldr_get_symbol hdr b = Some (IocOk req) \<Longrightarrow> req_room n hdr req \<le> hdr_room hdr"
  "ioc_cont_alloc hdr b = Some (IocOk req) \<Longrightarrow> req_room n hdr req \<le> hdr_room hdr"
  "ioc_page_map_kernel hdr b = Some (IocOk req) \<Longrightarrow> req_room n hdr req \<le> hdr_room hdr"
  "ioc_sem_op3 hdr b = Some (IocOk req) \<Longrightarrow> req_room n hdr req \<le> hdr_room hdr"
  unfolding ioc_cookie_def ioc_ldr_open_def ioc_ldr_get_symbol_def ioc_cont_alloc_def ioc_page_map_kernel_def ioc_sem_op3_def
  by (auto simp: req_room_def dest!: checksD checkD split: bind_splits)

lemma array_room:
  "ioc_page_lock hdr b = Some (IocOk req) \<Longrightarrow> req_room n hdr req \<le> hdr_room hdr"
  "ioc_low_alloc hdr b = Some (IocOk req) \<Longrightarrow> 24 \<le> hdr_room hdr \<Longrightarrow> req_room n hdr req \<le> hdr_room hdr"
  "ioc_page_alloc_ex hdr b = Some (IocOk req) \<Longrightarrow> req_room n hdr req \<le> hdr_room hdr"
  unfolding ioc_page_lock_def ioc_low_alloc_def ioc_page_alloc_ex_def
  by (auto simp: req_room_def unat_pages unat_pages32 dest!: checksD checkD split: bind_splits)

lemma query_room: "ioc_query_funcs n hdr b = Some (IocOk req) \<Longrightarrow> n < 2 ^ 32 \<Longrightarrow> req_room n hdr req \<le> hdr_room hdr"
  unfolding ioc_query_funcs_def by (auto simp: req_room_def unat_word_ariths unat_of_nat dest!: checksD)

lemma packet_room:
  assumes "ioc_packet hdr b pkt magic k = Some (IocOk req)" "pkt \<le> 64"
  shows "k = Some (IocOk req) \<and> pkt \<le> unat (hdr_cbIn hdr)"
proof -
  have "unat (of_nat pkt + 8 :: u32) = pkt + 8" using assms(2) by (simp add: unat_word_ariths unat_of_nat)
  then show ?thesis using assms unfolding ioc_packet_def by (auto simp: word_le_nat_alt dest!: checksD checkD split: bind_splits)
qed

lemma call_room:
  assumes "24 \<le> hdr_room hdr"
  shows "ioc_call_vmmr0 hdr b = Some (IocOk req) \<Longrightarrow> req_room n hdr req \<le> hdr_room hdr"
    "ioc_call_vmmr0_big hdr b = Some (IocOk req) \<Longrightarrow> req_room n hdr req \<le> hdr_room hdr"
    "ioc_call_service hdr b = Some (IocOk req) \<Longrightarrow> req_room n hdr req \<le> hdr_room hdr"
  using assms unfolding ioc_call_vmmr0_def ioc_call_vmmr0_big_def ioc_call_service_def ioc_call_args_def ioc_service_args_def
  by (auto simp: req_room_def dest!: packet_room checksD checkD split: bind_splits if_splits)

lemma header_room:
  assumes "24 \<le> hdr_room hdr"
  shows "ioc_ldr_load hdr b = Some (IocOk req) \<Longrightarrow> req_room n hdr req \<le> hdr_room hdr"
    "ioc_ldr_free hdr b = Some (IocOk req) \<Longrightarrow> req_room n hdr req \<le> hdr_room hdr"
    "ioc_page_protect hdr b = Some (IocOk req) \<Longrightarrow> req_room n hdr req \<le> hdr_room hdr"
    "ioc_set_vm hdr b = Some (IocOk req) \<Longrightarrow> req_room n hdr req \<le> hdr_room hdr"
    "ioc_logger hdr b = Some (IocOk req) \<Longrightarrow> req_room n hdr req \<le> hdr_room hdr"
    "ioc_sem_op2 hdr b = Some (IocOk req) \<Longrightarrow> req_room n hdr req \<le> hdr_room hdr"
  using assms unfolding ioc_ldr_load_def ioc_ldr_free_def ioc_page_protect_def ioc_set_vm_def ioc_logger_def ioc_sem_op2_def Let_def
  by (auto simp: req_room_def dest!: checksD checkD split: bind_splits)

lemma addr_room:
  "ioc_addr_only f hdr b = Some (IocOk req) \<Longrightarrow> 24 \<le> hdr_room hdr \<Longrightarrow> (\<And>pv. req_room n hdr (f pv) = 24) \<Longrightarrow>
     req_room n hdr req \<le> hdr_room hdr"
  unfolding ioc_addr_only_def by (auto dest!: checksD)

lemma if_someE: "(if t then x else y) = Some c \<Longrightarrow> (x = Some c \<Longrightarrow> R) \<Longrightarrow> (y = Some c \<Longrightarrow> R) \<Longrightarrow> R"
  by (simp split: if_splits)

lemma parse_room:
  assumes "ioc_parse n uIOCtl hdr b = Some (IocOk req)" "24 \<le> hdr_room hdr" "n < 2 ^ 32"
  shows "req_room n hdr req \<le> hdr_room hdr"
proof -
  have e: "REQ_CHECK_SIZES hdr (Some 24) (Some m) (Some (IocOk q)) = Some (IocOk req) \<Longrightarrow> req_room n hdr q \<le> unat m \<Longrightarrow>
      req_room n hdr req \<le> hdr_room hdr"
    "REQ_CHECK_SIZES hdr (Some 24) (Some m) (REQ_CHECK_EXPR t (Some (IocOk q))) = Some (IocOk req) \<Longrightarrow>
      req_room n hdr q \<le> unat m \<Longrightarrow> req_room n hdr req \<le> hdr_room hdr" for m t q
    by (auto dest!: checksD checkD)
  have a: "req_room n hdr (IocPageUnlock pv) = 24" "req_room n hdr (IocContFree pv) = 24" "req_room n hdr (IocLowFree pv) = 24"
    "req_room n hdr (IocPageFree pv) = 24" for pv by (simp_all add: req_room_def)
  have k: "req_room n hdr IocGetPagingMode \<le> unat (28 :: u64)" "req_room n hdr IocGipMap \<le> unat (48 :: u64)"
    "req_room n hdr IocGipUnmap \<le> unat (24 :: u64)" "req_room n hdr IocVtCaps \<le> unat (28 :: u64)"
    by (simp_all add: req_room_def)
  note rooms = small_room array_room(1,3) array_room(2) [OF _ assms(2)] query_room [OF _ assms(3)] call_room [OF assms(2)]
    header_room [OF assms(2)] addr_room [OF _ assms(2) a(1)] addr_room [OF _ assms(2) a(2)]
    addr_room [OF _ assms(2) a(3)] addr_room [OF _ assms(2) a(4)]
    e(1) [OF _ k(1)] e(1) [OF _ k(2)] e(1) [OF _ k(3)] e(2) [OF _ k(4)]
  show ?thesis using assms(1) unfolding ioc_parse_def Let_def
    by (elim if_someE rooms) simp
qed


text \<open>
  A rejected request changes the status field at most. An accepted one is executed and answered
  inside the buffer.
\<close>

definition rejected :: "ioc_result \<Rightarrow> u8 list \<Rightarrow> supdrv \<Rightarrow> logstate \<Rightarrow> bool" where
  "rejected r b w l \<longleftrightarrow> (\<exists>rc b'. r = Some (rc, b', w, l) \<and> (rc = VERR_INVALID_PARAMETER \<or> rc = VERR_GENERAL_FAILURE) \<and>
     (b' = b \<or> put b 20 (le_bytes 4 (word_of_int VERR_INVALID_PARAMETER :: u32)) = Some b'))"

definition answered :: "ioc_env \<Rightarrow> ioc_result \<Rightarrow> u8 list \<Rightarrow> supdrv \<Rightarrow> logstate \<Rightarrow> addr \<Rightarrow> SUPREQHDR \<Rightarrow> ioc_req \<Rightarrow> bool" where
  "answered env r b w l sp hdr req \<longleftrightarrow>
     (case ioc_exec env w l sp hdr b req of
        None \<Rightarrow> r = None
      | Some x \<Rightarrow> \<exists>b'. put_reply b x = Some b' \<and> length b' = length b \<and> r = Some (0, b', rep_drv x, rep_log x))"

definition buf_ok :: "ioc_env \<Rightarrow> SUPREQHDR \<Rightarrow> u8 list \<Rightarrow> bool" where
  "buf_ok env hdr b \<longleftrightarrow> get_hdr b = Some hdr \<and> unat (hdr_cbIn hdr) \<le> length b \<and> unat (hdr_cbOut hdr) \<le> length b \<and>
     length b \<le> 0x1000000 \<and> length (env_aFunctions env) < 2 ^ 32"

lemma reply_in:
  assumes "ioc_exec env w l sp hdr b req = Some r" "env_ok env" "req_room (length (env_aFunctions env)) hdr req \<le> length b" "24 \<le> length b"
  shows "\<exists>b'. put_reply b r = Some b' \<and> length b' = length b"
  unfolding put_reply_def
proof (rule put_all_in)
  have "\<forall>x\<in>set (rep_out r). out_in (length b) x" using exec_out [OF assms(1,2)] assms(3) by (fastforce simp: out_in_def)
  then show "\<forall>x\<in>set (rep_out r @ (20, le_bytes 4 (word_of_int (rep_rc r) :: u32)) # (case rep_cbOut r of None \<Rightarrow> [] | Some cb \<Rightarrow> [(12, le32s cb)])).
      out_in (length b) x"
    using assms(4) by (auto simp: out_in_def split: option.splits)
qed

lemma ioc_switch_cases:
  assumes "buf_ok env hdr b" "env_ok env" "24 \<le> hdr_cbIn hdr"
  shows "rejected (ioc_switch env uIOCtl w l sp hdr b) b w l \<or>
    (\<exists>req. ioc_parse (length (env_aFunctions env)) uIOCtl hdr b = Some (IocOk req) \<and>
       answered env (ioc_switch env uIOCtl w l sp hdr b) b w l sp hdr req)"
proof -
  have b: "unat (hdr_cbIn hdr) \<le> length b" "length b \<le> 0x1000000" "hdr_room hdr \<le> length b" "length (env_aFunctions env) < 2 ^ 32"
    using assms(1) by (simp_all add: buf_ok_def)
  have n: "24 \<le> hdr_room hdr" "24 \<le> length b" using assms(3) b(1) by (simp_all add: word_le_nat_alt)
  obtain c where c: "ioc_parse (length (env_aFunctions env)) uIOCtl hdr b = Some c" using ioc_parse_ok [OF b(1,2)] by blast
  show ?thesis
  proof (cases c)
    case IocBad
    have "20 + length (le_bytes 4 (word_of_int VERR_INVALID_PARAMETER :: u32)) \<le> length b" using n by simp
    from put_in [OF this] show ?thesis using c IocBad by (auto simp: ioc_switch_def rejected_def)
  next
    case IocUnknown
    then show ?thesis using c by (simp add: ioc_switch_def rejected_def)
  next
    case (IocOk req)
    have "req_room (length (env_aFunctions env)) hdr req \<le> length b"
      by (rule order_trans [OF parse_room [OF c [unfolded IocOk] n(1) b(4)] b(3)])
    note r = reply_in [OF _ assms(2) this n(2)]
    have "answered env (ioc_switch env uIOCtl w l sp hdr b) b w l sp hdr req"
      using r c IocOk by (cases "ioc_exec env w l sp hdr b req") (fastforce simp: answered_def ioc_switch_def)+
    then show ?thesis using c IocOk by blast
  qed
qed

text \<open>The parts of the header that have to be right, for a request other than the cookie request.\<close>

definition hdr_ok :: "u64 \<Rightarrow> supdrv \<Rightarrow> SUPDRVSESSION \<Rightarrow> SUPREQHDR \<Rightarrow> bool" where
  "hdr_ok uIOCtl w s hdr \<longleftrightarrow> hdr_fFlags hdr AND 0xff0000ff = 0x42000042 \<and> 24 \<le> hdr_cbIn hdr \<and> 24 \<le> hdr_cbOut hdr \<and>
     (if uIOCtl = SUP_IOCTL_COOKIE then hdr_u32Cookie hdr = 0x69726f74
      else hdr_u32Cookie hdr = dx_u32Cookie (w_devext w) \<and> hdr_u32SessionCookie hdr = ses_u32Cookie s)"

lemma supdrvIOCtl_bad_hdr:
  assumes "get_hdr b = Some hdr" "w_sess w sp = Some s" "RT_VALID_PTR sp" "\<not> hdr_ok uIOCtl w s hdr"
  shows "supdrvIOCtl env uIOCtl w l sp b = Some (VERR_INVALID_PARAMETER, b, w, l)"
  using assms by (auto simp: supdrvIOCtl_def hdr_ok_def)

lemma supdrvIOCtl_cases:
  assumes "buf_ok env hdr b" "env_ok env" "w_sess w sp = Some s" "RT_VALID_PTR sp"
  shows "rejected (supdrvIOCtl env uIOCtl w l sp b) b w l \<or>
    (\<exists>req. hdr_ok uIOCtl w s hdr \<and> ioc_parse (length (env_aFunctions env)) uIOCtl hdr b = Some (IocOk req) \<and>
       answered env (supdrvIOCtl env uIOCtl w l sp b) b w l sp hdr req)"
proof (cases "hdr_ok uIOCtl w s hdr")
  case True
  have h: "get_hdr b = Some hdr" using assms(1) by (simp add: buf_ok_def)
  have e: "supdrvIOCtl env uIOCtl w l sp b = ioc_switch env uIOCtl w l sp hdr b"
    using True h assms(3,4) by (auto simp: supdrvIOCtl_def hdr_ok_def)
  have "24 \<le> hdr_cbIn hdr" using True by (simp add: hdr_ok_def)
  from ioc_switch_cases [OF assms(1,2) this] show ?thesis using True unfolding e by blast
next
  case False
  have "get_hdr b = Some hdr" using assms(1) by (simp add: buf_ok_def)
  from supdrvIOCtl_bad_hdr [OF this assms(3,4) False] show ?thesis by (simp add: rejected_def)
qed

end
