(* ===== verification/SupSystem.thy ===== *)
theory SupSystem
  imports SupIoctl
begin

text \<open>
  The driver as a whole: every control request, whatever it contains, is safe and keeps the
  invariants of all parts at once. The steps are proved per group of requests; a group
  keeps the invariants of the others because it leaves their views of the state alone.
\<close>

subsection \<open>The invariant\<close>

text \<open>
  A session that requests can reach is valid, has its handle table, and holds a reference to
  the GIP only together with a mapping. Without a GIP there is no memory object for it.
\<close>

definition sess_good :: "addr \<Rightarrow> SUPDRVSESSION \<Rightarrow> bool" where
  "sess_good p s \<longleftrightarrow> SUP_IS_SESSION_VALID p s \<and> ses_hHandleTable s \<noteq> None \<and> (ses_fGipReferenced s \<longrightarrow> ses_GipMapObjR3 s \<noteq> 0)"

definition sessions_good :: "supdrv \<Rightarrow> bool" where
  "sessions_good w \<longleftrightarrow> (\<forall>p s. w_sess w p = Some s \<longrightarrow> sess_good p s)"

definition gip_there :: "supdrv \<Rightarrow> bool" where
  "gip_there w \<longleftrightarrow> (dx_pGip (w_devext w) = None \<longrightarrow> dx_GipMemObj (w_devext w) = 0)"

definition drv_inv :: "supdrv \<Rightarrow> bool" where
  "drv_inv w \<longleftrightarrow> sys_inv w \<and> ldr_names w \<and> sessions_good w \<and> gip_there w"

lemma drv_invD:
  assumes "drv_inv w"
  shows "sem_inv w" "obj_inv w" "ldr_inv w" "mem_inv w" "gip_inv w" "gip_apart w" "ldr_names w" "sessions_good w" "gip_there w"
  using assms sem_invD(1) by (auto simp: drv_inv_def sys_inv_def)

lemma drv_inv_sess:
  assumes "drv_inv w" "w_sess w sp = Some s"
  shows "SUP_IS_SESSION_VALID sp s" "RT_VALID_PTR sp" "\<exists>t. ses_hHandleTable s = Some t" "\<exists>t. tables_of w sp = Some t"
    "ses_fGipReferenced s \<Longrightarrow> ses_GipMapObjR3 s \<noteq> 0"
  using drv_invD(8) [OF assms(1)] assms(2)
  by (auto simp: sessions_good_def sess_good_def SUP_IS_SESSION_VALID_def tables_of_def)

lemma drv_invI:
  assumes "sem_inv w" "ldr_inv w" "mem_inv w" "gip_inv w" "gip_apart w" "ldr_names w" "sessions_good w" "gip_there w"
  shows "drv_inv w"
  using assms by (simp add: drv_inv_def sys_inv_def)

abbreviation good_view :: "supdrv \<Rightarrow> _" where
  "good_view \<equiv> sess_view (\<lambda>s. (ses_u32Cookie s, ses_hHandleTable s = None, ses_fGipReferenced s, ses_GipMapObjR3 s))"

lemma sessions_good_view:
  assumes "good_view w' = good_view w" "sessions_good w"
  shows "sessions_good w'"
  unfolding sessions_good_def
proof (intro allI impI)
  fix p s' assume "w_sess w' p = Some s'"
  from sess_viewD [OF assms(1) this] obtain s where "w_sess w p = Some s"
    "(ses_u32Cookie s, ses_hHandleTable s = None, ses_fGipReferenced s, ses_GipMapObjR3 s) =
     (ses_u32Cookie s', ses_hHandleTable s' = None, ses_fGipReferenced s', ses_GipMapObjR3 s')" by blast
  moreover from this(1) have "sess_good p s" using assms(2) by (simp add: sessions_good_def)
  ultimately show "sess_good p s'" by (auto simp: sess_good_def SUP_IS_SESSION_VALID_def)
qed

lemma sessions_good_upd:
  "sessions_good w \<Longrightarrow> w_sess w' = (w_sess w)(sp \<mapsto> s') \<Longrightarrow> sess_good sp s' \<Longrightarrow> sessions_good w'"
  by (simp add: sessions_good_def)

lemma gip_apart_view:
  assumes "sess_view ses_Bundle w' = sess_view ses_Bundle w" "dx_GipMemObj (w_devext w') = dx_GipMemObj (w_devext w)" "gip_apart w"
  shows "gip_apart w'"
  unfolding gip_apart_def
proof (intro allI impI)
  fix p s' r assume a: "w_sess w' p = Some s'" "r \<in> set (mem_refs s')"
  obtain s where "w_sess w p = Some s" "ses_Bundle s = ses_Bundle s'" by (rule sess_viewD [OF assms(1) a(1)])
  then show "mr_MemObj r \<noteq> dx_GipMemObj (w_devext w')"
    using assms(2,3) a(2) unfolding gip_apart_def mem_refs_def by metis
qed

lemma ldr_names_imgs: "w_imgs w' = w_imgs w \<Longrightarrow> ldr_names w' = ldr_names w"
  by (simp add: ldr_names_def)

text \<open>A step that keeps the view of every part keeps the invariant.\<close>

lemma drv_inv_views:
  assumes "drv_inv w" "sem_view w' = sem_view w" "ldr_view w' = ldr_view w" "mem_view w' = mem_view w" "gip_view w' = gip_view w"
    "good_view w' = good_view w"
  shows "drv_inv w'"
proof -
  note I = drv_invD [OF assms(1)]
  show ?thesis
  proof (rule drv_invI)
    show "gip_apart w'" by (rule gip_apart_view [OF _ _ I(6)]) (use assms(4,5) in \<open>simp_all add: mem_view_def gip_view_def\<close>)
    show "ldr_names w'" using I(7) ldr_names_imgs [of w' w] assms(3) by (simp add: ldr_view_def)
    show "gip_there w'" using I(9) assms(5) by (simp add: gip_there_def gip_view_def)
  qed (rule sem_inv_view [OF assms(2) I(1)] ldr_inv_view [OF assms(3) I(3)] mem_inv_view [OF assms(4) I(4)]
      gip_inv_view [OF assms(5) I(5)] sessions_good_view [OF assms(6) I(8)])+
qed

lemmas drv_views = sem_view_def ldr_view_def mem_view_def gip_view_def

subsection \<open>Memory\<close>

text \<open>A step of the memory operations of a session.\<close>

lemma mem_good_drv:
  assumes "drv_inv w" "mem_good w sp w1"
  shows "drv_inv w1 \<and> dom (w_sess w1) = dom (w_sess w)"
proof -
  note I = drv_invD [OF assms(1)]
  have m1: "mem_inv w1" using assms(2) by (simp add: mem_good_def)
  from assms(2) obtain s bs h where s: "w_sess w sp = Some s" "SUP_IS_SESSION_VALID sp s"
    and w1: "w1 = mem_result (set_sess w sp (s\<lparr>ses_Bundle := bs\<rparr>)) h"
    and keep: "\<forall>q n. w_memobjs w q = Some n \<longrightarrow> mo_root q n \<notin> mr_MemObj ` set (mem_refs s) \<longrightarrow> h q = Some n"
    and new: "\<forall>r\<in>set (bdl_refs bs). r \<in> set (mem_refs s) \<or> w_memobjs w (mr_MemObj r) = None"
    unfolding mem_good_def mem_moved_def by blast
  let ?g = "dx_GipMemObj (w_devext w)"
  have own: "\<forall>r\<in>set (mem_refs s). mr_MemObj r \<noteq> ?g" using I(6) s(1) unfolding gip_apart_def by blast
  have mo: "mo_inv h" using mem_invD(1) [OF m1] by (simp add: w1)
  have keep': "\<forall>q n. w_memobjs w q = Some n \<longrightarrow> mr_MemObj ` set (mem_refs s) \<inter> {mo_root q n} = {} \<longrightarrow> h q = w_memobjs w q"
    using keep by auto
  note v = mem_step_views [OF s(1) w1]
  have dx: "w_devext w1 = w_devext w" "w_imgs w1 = w_imgs w" "w_memobjs w1 = h"
    "w_sess w1 = (w_sess w)(sp \<mapsto> s\<lparr>ses_Bundle := bs\<rparr>)" by (simp_all add: w1)
  have there: "gip_there w1" using I(9) by (simp add: gip_there_def dx)
  have apart: "gip_apart w1"
    unfolding gip_apart_def dx
  proof (intro allI impI)
    fix p t r assume a: "((w_sess w)(sp \<mapsto> s\<lparr>ses_Bundle := bs\<rparr>)) p = Some t" "r \<in> set (mem_refs t)"
    show "mr_MemObj r \<noteq> ?g"
    proof (cases "p = sp")
      case False
      then show ?thesis using a I(6) unfolding gip_apart_def by simp
    next
      case True
      then have t: "t = s\<lparr>ses_Bundle := bs\<rparr>" using a(1) by simp
      have r: "r \<in> set (bdl_refs bs)" using a(2) by (simp add: t mem_refs_def)
      have "ref_ok h r" using mem_invD(4) [OF m1, of sp t r] a True by (simp add: dx)
      then obtain n where "h (mr_MemObj r) = Some n" using ref_ok_dom(1) by blast
      then have nz: "mr_MemObj r \<noteq> 0" by (rule mo_invD(2) [OF mo])
      have "?g = 0 \<or> (\<exists>m. w_memobjs w ?g = Some m)"
        using I(9) gip_invD(4) [OF I(5)] by (cases "dx_pGip (w_devext w)") (auto simp: gip_there_def gip_page_ok_def)
      then show ?thesis using new r own nz by force
    qed
  qed
  have good: "sessions_good w1"
    by (rule sessions_good_upd [OF I(8) dx(4)])
      (use I(8) s(1) in \<open>auto simp: sessions_good_def sess_good_def SUP_IS_SESSION_VALID_def\<close>)
  have "ldr_names w1" using I(7) ldr_names_imgs [OF dx(2)] by simp
  moreover have "gip_inv w1" by (rule mem_step_gip [OF I(5) s(1) w1 mo keep' own])
  moreover have "dom (w_sess w1) = dom (w_sess w)" using s(1) by (auto simp: dx)
  ultimately show ?thesis
    using drv_invI [OF sem_inv_view [OF v(1) I(1)] ldr_inv_view [OF v(2) I(3)] m1 _ apart _ good there] by blast
qed


subsection \<open>Semaphores\<close>

text \<open>What the semaphore operations leave alone; a handle table that exists stays.\<close>

definition sem_rest :: "supdrv \<Rightarrow> _" where
  "sem_rest w = (sess_view (\<lambda>s. (s\<lparr>ses_pUsage := [], ses_hHandleTable := None\<rparr>, ses_hHandleTable s = None)) w,
     w_imgs w, w_memobjs w, (w_devext w)\<lparr>dx_pObjs := [], dx_pUsageFree := 0\<rparr>, gip_running (w_trace w))"

lemma sem_rest_obj: "obj_rest w' = obj_rest w \<Longrightarrow> sem_rest w' = sem_rest w"
proof -
  assume r: "obj_rest w' = obj_rest w"
  have "sess_view (\<lambda>s. (s\<lparr>ses_pUsage := [], ses_hHandleTable := None\<rparr>, ses_hHandleTable s = None)) w' =
      sess_view (\<lambda>s. (s\<lparr>ses_pUsage := [], ses_hHandleTable := None\<rparr>, ses_hHandleTable s = None)) w"
    by (rule sess_view_comp [OF obj_rest_views(1) [OF r], of _ "\<lambda>s. (s\<lparr>ses_hHandleTable := None\<rparr>, ses_hHandleTable s = None)"]) simp
  then show ?thesis using r by (simp add: sem_rest_def obj_rest_def)
qed

lemma sem_rest_set_ht: "tables_of w sp \<noteq> None \<Longrightarrow> sem_rest (set_ht w sp t) = sem_rest w"
  by (auto simp: sem_rest_def set_ht_def tables_of_def sess_view_def fun_eq_iff split: option.splits)

lemma sem_rest_log [simp]: "e \<noteq> EvTimerStart \<Longrightarrow> e \<noteq> EvTimerStop \<Longrightarrow> sem_rest (log_ev w e) = sem_rest w"
  by (simp add: sem_rest_def sess_view_def)

lemma obj_rest_reference:
  assumes "obj_reference w p sp f = Some (rc, w')"
  shows "obj_rest w' = obj_rest w"
proof -
  obtain ob s where a: "w_objs w p = Some ob" "w_sess w sp = Some s"
    using assms by (auto simp: obj_reference_def split: option.splits)
  have r: "obj_rest (set_sess (set_obj w p b) sp (s\<lparr>ses_pUsage := us\<rparr>)) = obj_rest w" for us b
    using obj_rest_set_sess [of "set_obj w p b" sp s "s\<lparr>ses_pUsage := us\<rparr>"] a by simp
  have d: "obj_rest (set_dx x (\<lambda>d. d\<lparr>dx_pUsageFree := dx_pUsageFree d + 1\<rparr>)) = obj_rest x" for x by (rule obj_rest_set_dx) simp
  show ?thesis using assms a r d by (auto simp: obj_reference_def Let_def split: if_splits)
qed

lemma retain_rest:
  assumes "supdrvSessionObjHandleRetain sp w p = Some (rc, w')"
  shows "obj_rest w' = obj_rest w"
proof -
  have d: "obj_rest (set_dx w (\<lambda>d. d\<lparr>dx_pUsageFree := dx_pUsageFree d - 1\<rparr>)) = obj_rest w" by (rule obj_rest_set_dx) simp
  show ?thesis using assms d
    by (auto simp: supdrvSessionObjHandleRetain_def SUPR0ObjAddRefEx_def dest!: obj_rest_reference split: option.splits if_splits)
qed

lemma SUPR0ObjRegister_rest:
  assumes "SUPR0ObjRegister w sp ty d u1 u2 pNew fMem = Some (p, w')"
  shows "obj_rest w' = obj_rest w"
proof (cases "w_sess w sp")
  case None
  then show ?thesis using assms by (simp add: SUPR0ObjRegister_def)
next
  case (Some s)
  let ?x = "\<lambda>b. set_obj (set_dx w (\<lambda>d. d\<lparr>dx_pUsageFree := dx_pUsageFree d - 1, dx_pObjs := pNew # dx_pObjs d\<rparr>)) pNew b"
  have r: "obj_rest (set_sess (?x b) sp (s\<lparr>ses_pUsage := us\<rparr>)) = obj_rest w" for us b
  proof -
    have "obj_rest (set_sess (?x b) sp (s\<lparr>ses_pUsage := us\<rparr>)) = obj_rest (?x b)"
      by (rule obj_rest_set_sess [where t = s]) (use Some in simp_all)
    moreover have "obj_rest (?x b) = obj_rest w" unfolding obj_rest_set_obj by (rule obj_rest_set_dx) simp
    ultimately show ?thesis by simp
  qed
  show ?thesis using assms Some r by (auto simp: SUPR0ObjRegister_def Let_def split: if_splits)
qed

lemma tables_of_obj_rest: "obj_rest w' = obj_rest w \<Longrightarrow> tables_of w' k = tables_of w k"
  by (rule tables_of_view [OF obj_rest_views(2)])

lemma ht_retain_rest:
  "ht_retain (Some (supdrvSessionObjHandleRetain sp)) w ob = Some (p, w') \<Longrightarrow> obj_rest w' = obj_rest w"
  by (auto simp: ht_retain_def dest!: retain_rest split: option.splits prod.splits if_splits bind_splits)

lemma set_ht_obj_rest:
  assumes "obj_rest w1 = obj_rest w" "ses_hHandleTable s = Some t0" "w_sess w sp = Some s"
  shows "sem_rest (set_ht w1 sp t') = sem_rest w"
proof -
  have "tables_of w1 sp \<noteq> None" using tables_of_obj_rest [OF assms(1), of sp] assms(2,3) by (simp add: tables_of_def)
  from sem_rest_set_ht [OF this, of t'] show ?thesis using sem_rest_obj [OF assms(1)] by simp
qed

lemma SUPR0ObjRelease_sem_rest: "SUPR0ObjRelease w p sp = Some (rc, w') \<Longrightarrow> sem_rest w' = sem_rest w"
  by (rule sem_rest_obj [OF SUPR0ObjRelease_rest])

lemma sem_lookup_rest:
  assumes "RTHandleTableLookupWithCtx (Some (supdrvSessionObjHandleRetain sp)) w t h ctx = Some (p, w1)"
  shows "sem_rest w1 = sem_rest w"
proof -
  have "obj_rest w1 = obj_rest w"
    using assms ht_retain_rest by (auto simp: RTHandleTableLookupWithCtx_map split: option.splits if_splits)
  then show ?thesis by (rule sem_rest_obj)
qed

lemma sem_close_rest:
  assumes "sem_close ctx w sp hEvent = Some (rc, w')"
  shows "sem_rest w' = sem_rest w"
proof -
  obtain s where s: "w_sess w sp = Some s" using assms by (auto simp: sem_close_def split: option.splits)
  show ?thesis
  proof (cases "SUP_IS_SESSION_VALID sp s \<and> hEvent \<noteq> 0 \<and> sem_handle hEvent \<noteq> None \<and> ses_hHandleTable s \<noteq> None")
    case False
    then have "w' = w" using assms s by (auto simp: sem_close_def split: option.splits if_splits)
    then show ?thesis by simp
  next
    case True
    then obtain h t where h: "SUP_IS_SESSION_VALID sp s" "hEvent \<noteq> 0" "sem_handle hEvent = Some h" "ses_hHandleTable s = Some t" by auto
    from assms h s obtain p t' w1 where
      l: "RTHandleTableFreeWithCtx (Some (supdrvSessionObjHandleRetain sp)) w t h ctx = Some (p, t', w1)"
      and k: "p = 0 \<and> w' = w1 \<or> (\<exists>rc' rc'' w2. SUPR0ObjRelease (set_ht w1 sp t') p sp = Some (rc', w2) \<and> SUPR0ObjRelease w2 p sp = Some (rc'', w'))"
      by (fastforce simp: sem_close_def bind_eq_Some_conv split: if_splits)
    have r: "obj_rest w1 = obj_rest w"
      using l ht_retain_rest by (auto simp: RTHandleTableFreeWithCtx_map bind_eq_Some_conv split: option.splits if_splits)
    have "sem_rest (set_ht w1 sp t') = sem_rest w" by (rule set_ht_obj_rest [OF r h(4) s])
    then show ?thesis using k SUPR0ObjRelease_sem_rest sem_rest_obj [OF r] by fastforce
  qed
qed

lemma sem_create_rest:
  assumes "sem_create ty ctx d w sp ph rcReal hReal pNew fMem f1 f2 = Some (rc, oh, w')" "tables_of w sp = Some t"
  shows "sem_rest w' = sem_rest w"
proof -
  obtain s where s: "w_sess w sp = Some s" using assms by (auto simp: sem_create_def split: option.splits)
  have h: "ses_hHandleTable s = Some t" using assms(2) s by (simp add: tables_of_def)
  show ?thesis
  proof (cases "SUP_IS_SESSION_VALID sp s \<and> RT_VALID_PTR ph \<and> RT_SUCCESS rcReal")
    case False
    then have "w' = w" using assms(1) s by (auto simp: sem_create_def split: if_splits)
    then show ?thesis by simp
  next
    case True
    with assms(1) s h obtain p w1 where
      l: "SUPR0ObjRegister w sp ty d hReal 0 pNew fMem = Some (p, w1)"
      and k: "w' = log_ev w1 (EvSemDestroy hReal) \<or> (\<exists>t' rc'. w' = set_ht w1 sp t' \<or> SUPR0ObjRelease (set_ht w1 sp t') p sp = Some (rc', w'))"
      by (fastforce simp: sem_create_def bind_eq_Some_conv split: if_splits)
    have r: "obj_rest w1 = obj_rest w" by (rule SUPR0ObjRegister_rest [OF l])
    have "sem_rest (set_ht w1 sp t') = sem_rest w" for t' by (rule set_ht_obj_rest [OF r h s])
    then show ?thesis using k SUPR0ObjRelease_sem_rest sem_rest_obj [OF r] by fastforce
  qed
qed


lemma sem_rest_drv:
  assumes "drv_inv w" "sem_inv w'" "sem_rest w' = sem_rest w"
  shows "drv_inv w' \<and> dom (w_sess w') = dom (w_sess w)"
proof -
  note I = drv_invD [OF assms(1)]
  have r: "sess_view (\<lambda>s. (s\<lparr>ses_pUsage := [], ses_hHandleTable := None\<rparr>, ses_hHandleTable s = None)) w' =
      sess_view (\<lambda>s. (s\<lparr>ses_pUsage := [], ses_hHandleTable := None\<rparr>, ses_hHandleTable s = None)) w"
    "w_imgs w' = w_imgs w" "w_memobjs w' = w_memobjs w"
    "(w_devext w')\<lparr>dx_pObjs := [], dx_pUsageFree := 0\<rparr> = (w_devext w)\<lparr>dx_pObjs := [], dx_pUsageFree := 0\<rparr>"
    "gip_running (w_trace w') = gip_running (w_trace w)"
    using assms(3) by (simp_all add: sem_rest_def)
  have d: "dx_pLdrImages (w_devext w') = dx_pLdrImages (w_devext w)" "dx_pGip (w_devext w') = dx_pGip (w_devext w)"
    "dx_GipMemObj (w_devext w') = dx_GipMemObj (w_devext w)" "dx_cGipUsers (w_devext w') = dx_cGipUsers (w_devext w)"
    using arg_cong [OF r(4), of dx_pLdrImages] arg_cong [OF r(4), of dx_pGip] arg_cong [OF r(4), of dx_GipMemObj]
      arg_cong [OF r(4), of dx_cGipUsers] by simp_all
  note c = sess_view_comp [OF r(1)]
  have l: "sess_view ses_pLdrUsage w' = sess_view ses_pLdrUsage w" by (rule c [of _ "\<lambda>x. ses_pLdrUsage (fst x)"]) simp
  have b: "sess_view ses_Bundle w' = sess_view ses_Bundle w" by (rule c [of _ "\<lambda>x. ses_Bundle (fst x)"]) simp
  have g: "sess_view (\<lambda>s. (ses_GipMapObjR3 s, ses_fGipReferenced s)) w' = sess_view (\<lambda>s. (ses_GipMapObjR3 s, ses_fGipReferenced s)) w"
    by (rule c [of _ "\<lambda>x. (ses_GipMapObjR3 (fst x), ses_fGipReferenced (fst x))"]) simp
  have v: "good_view w' = good_view w"
    by (rule c [of _ "\<lambda>x. (ses_u32Cookie (fst x), snd x, ses_fGipReferenced (fst x), ses_GipMapObjR3 (fst x))"]) simp
  have "ldr_inv w'" by (rule ldr_inv_view [OF _ I(3)]) (simp add: ldr_view_def l r(2) d)
  moreover have "mem_inv w'" by (rule mem_inv_view [OF _ I(4)]) (simp add: mem_view_def b r(3))
  moreover have "gip_inv w'" by (rule gip_inv_view [OF _ I(5)]) (simp add: gip_view_def g r(3,5) d)
  moreover have "gip_apart w'" by (rule gip_apart_view [OF b d(3) I(6)])
  moreover have "ldr_names w'" using I(7) ldr_names_imgs [OF r(2)] by simp
  moreover have "sessions_good w'" by (rule sessions_good_view [OF v I(8)])
  moreover have "gip_there w'" using I(9) by (simp add: gip_there_def d)
  ultimately show ?thesis using drv_invI [OF assms(2)] sess_view_dom [OF b] by blast
qed

text \<open>
  What other threads may do while a primitive of the kernel runs: they keep the invariant and the
  sessions, and they do not give back a reference that somebody else took.
\<close>

definition sem_prim_fits :: "sem_prim \<Rightarrow> bool" where
  "sem_prim_fits prim \<longleftrightarrow> (\<forall>h w1 rc w2. prim h w1 = (rc, w2) \<longrightarrow> drv_inv w1 \<longrightarrow>
     drv_inv w2 \<and> dom (w_sess w2) = dom (w_sess w1) \<and> (\<forall>sp p. sem_held w1 sp p \<longrightarrow> sem_held w2 sp p))"

text \<open>Handles that are no handles are refused, the others are used.\<close>

lemma sem_op_run:
  assumes "drv_inv w" "w_sess w sp = Some s" "ses_hHandleTable s = Some t" "tables_of w sp = Some t" "sem_handle hEvent = Some h"
    and "ht_map t h = Some (p, ctx)" "w_objs w p = Some ob" "obj_room w p" "sem_prim_fits prim"
  shows "\<exists>rc w'. sem_op ctx n w sp hEvent prim = Some (rc, w') \<and> drv_inv w' \<and> dom (w_sess w') = dom (w_sess w)"
proof -
  note I = drv_invD [OF assms(1)] note S = drv_inv_sess [OF assms(1,2)]
  obtain w0 where l: "RTHandleTableLookupWithCtx (Some (supdrvSessionObjHandleRetain sp)) w t h ctx = Some (p, w0)"
    "sem_held w0 sp p" "w_objs w0 = (w_objs w)(p \<mapsto> ob\<lparr>obj_cUsage := obj_cUsage ob + 1\<rparr>)"
    by (rule sem_retain_held [OF I(1) assms(2) S(1) assms(4,6,7,8)])
  let ?w1 = "log_ev w0 (EvSemCall n (obj_pvUser1 ob))"
  have held: "sem_held ?w1 sp p" using l(2) by (simp add: sem_held_log)
  have "sem_rest ?w1 = sem_rest w" using sem_lookup_rest [OF l(1)] by simp
  moreover have "sem_inv ?w1" using held by (simp add: sem_held_def)
  ultimately have w1: "drv_inv ?w1" "dom (w_sess ?w1) = dom (w_sess w)" using sem_rest_drv [OF assms(1)] by blast+
  obtain rc w2 where p: "prim (obj_pvUser1 ob) ?w1 = (rc, w2)" by (cases "prim (obj_pvUser1 ob) ?w1")
  have w2: "drv_inv w2" "dom (w_sess w2) = dom (w_sess w)" "sem_held w2 sp p"
    using assms(9) p w1 held unfolding sem_prim_fits_def by blast+
  show ?thesis
  proof (rule sem_release_held [OF w2(3)], goal_cases)
    case (1 ob2 w3)
    have "sem_op ctx n w sp hEvent prim = Some (rc, w3)"
      using assms(2,3,5) S(1) l(1,3) sem_handle_live(1) [OF I(1) assms(4,6)] p 1(2) by (simp add: sem_op_def)
    moreover have "drv_inv w3 \<and> dom (w_sess w3) = dom (w_sess w2)"
      by (rule sem_rest_drv [OF w2(1) 1(3) SUPR0ObjRelease_sem_rest [OF 1(2)]])
    ultimately show ?case using w2(2) by simp
  qed
qed

lemma sem_op_drv:
  assumes "drv_inv w" "w_sess w sp = Some s" "\<forall>p. obj_room w p" "sem_prim_fits prim"
  shows "\<exists>rc w'. sem_op ctx n w sp hEvent prim = Some (rc, w') \<and> drv_inv w' \<and> dom (w_sess w') = dom (w_sess w)"
proof -
  note I = drv_invD [OF assms(1)] note S = drv_inv_sess [OF assms(1,2)]
  obtain t where t: "ses_hHandleTable s = Some t" "tables_of w sp = Some t" using S(3) assms(2) by (auto simp: tables_of_def)
  show ?thesis
  proof (cases "sem_handle hEvent")
    case None
    then show ?thesis using assms(1,2) S(1) by (simp add: sem_op_def)
  next
    case (Some h)
    show ?thesis
    proof (cases "\<exists>p. ht_map t h = Some (p, ctx)")
      case True
      then obtain p where p: "ht_map t h = Some (p, ctx)" by blast
      obtain ob where ob: "w_objs w p = Some ob" using sem_handle_live(3) [OF I(1) t(2) p] by blast
      show ?thesis by (rule sem_op_run [OF assms(1,2) t Some p ob spec [OF assms(3)] assms(4)])
    next
      case False
      then have "RTHandleTableLookupWithCtx (Some (supdrvSessionObjHandleRetain sp)) w t h ctx = Some (0, w)"
        by (auto simp: RTHandleTableLookupWithCtx_map split: option.splits)
      then show ?thesis using assms(1,2) S(1) t(1) Some by (simp add: sem_op_def)
    qed
  qed
qed

lemma sem_close_drv:
  assumes "drv_inv w" "w_sess w sp = Some s" "\<forall>p. obj_room w p"
  shows "\<exists>rc w'. sem_close ctx w sp hEvent = Some (rc, w') \<and> drv_inv w' \<and> dom (w_sess w') = dom (w_sess w)"
proof -
  note I = drv_invD [OF assms(1)] note S = drv_inv_sess [OF assms(1,2)]
  obtain t where t: "ses_hHandleTable s = Some t" "tables_of w sp = Some t" using S(3) assms(2) by (auto simp: tables_of_def)
  have "\<exists>rc w'. sem_close ctx w sp hEvent = Some (rc, w') \<and> sem_inv w'"
  proof (cases "hEvent = 0 \<or> sem_handle hEvent = None")
    case True
    then show ?thesis using assms(2) S(1) I(1) by (cases "hEvent = 0") (simp_all add: sem_close_def)
  next
    case False
    then obtain h where h: "hEvent \<noteq> 0" "sem_handle hEvent = Some h" by auto
    show ?thesis
    proof (cases "\<exists>p. ht_map t h = Some (p, ctx)")
      case True
      then obtain p where p: "ht_map t h = Some (p, ctx)" by blast
      obtain ob where ob: "w_objs w p = Some ob" using sem_handle_live(3) [OF I(1) t(2) p] by blast
      show ?thesis
        by (rule sem_close_ok [OF I(1) assms(2) S(1) t(2) h(2,1) p ob]) (use assms(3) in auto)
    next
      case False
      then have "RTHandleTableFreeWithCtx (Some (supdrvSessionObjHandleRetain sp)) w t h ctx = Some (0, t, w)"
        by (auto simp: RTHandleTableFreeWithCtx_map split: option.splits)
      then show ?thesis using assms(2) S(1) I(1) t(1) h by (simp add: sem_close_def)
    qed
  qed
  then show ?thesis using sem_rest_drv [OF assms(1)] sem_close_rest by blast
qed

lemma sem_create_drv:
  assumes "drv_inv w" "w_sess w sp = Some s"
    "pNew = 0 \<or> (RT_VALID_PTR pNew \<and> w_objs w pNew = None \<and> \<not> RTHT_IS_FREE pNew)"
  shows "\<exists>rc oh w'. sem_create ty ctx d w sp ph rcReal hReal pNew fMem f1 f2 = Some (rc, oh, w') \<and> drv_inv w' \<and>
    dom (w_sess w') = dom (w_sess w)"
proof -
  note I = drv_invD [OF assms(1)] note S = drv_inv_sess [OF assms(1,2)]
  obtain t where t: "tables_of w sp = Some t" using S(4) by blast
  from sem_create_ok [OF I(1) assms(2) S(1) t assms(3), of ty ctx d ph rcReal hReal fMem f1 f2]
  obtain rc oh w' where c: "sem_create ty ctx d w sp ph rcReal hReal pNew fMem f1 f2 = Some (rc, oh, w')" "sem_inv w'" by blast
  then show ?thesis using sem_rest_drv [OF assms(1) c(2) sem_create_rest [OF c(1) t]] by blast
qed


subsection \<open>Images\<close>

definition ldr_rest :: "supdrv \<Rightarrow> _" where
  "ldr_rest w = (sess_view (\<lambda>s. s\<lparr>ses_pLdrUsage := []\<rparr>) w, w_memobjs w,
     (w_devext w)\<lparr>dx_pLdrImages := [], dx_pvVMMR0 := 0, dx_pfnVMMR0EntryInt := 0, dx_pfnVMMR0EntryFast := 0, dx_pfnVMMR0EntryEx := 0\<rparr>,
     gip_running (w_trace w))"

lemma ldr_rest_simps [simp]:
  "ldr_rest (set_img w p im) = ldr_rest w"
  "e \<noteq> EvTimerStart \<Longrightarrow> e \<noteq> EvTimerStop \<Longrightarrow> ldr_rest (log_ev w e) = ldr_rest w"
  "ldr_rest (set_dx w (\<lambda>d. d\<lparr>dx_pLdrImages := f d\<rparr>)) = ldr_rest w"
  "ldr_rest (supdrvLdrUnsetVMMR0EPs w) = ldr_rest w"
  by (simp_all add: ldr_rest_def sess_view_def supdrvLdrUnsetVMMR0EPs_def)

lemma ldr_rest_set_sess:
  "w_sess w sp = Some s \<Longrightarrow> ldr_rest (set_sess w sp (s\<lparr>ses_pLdrUsage := us\<rparr>)) = ldr_rest w"
  by (auto simp: ldr_rest_def sess_view_def fun_eq_iff)

lemma ldr_rest_img:
  assumes "img_rest w' = img_rest w"
  shows "ldr_rest w' = ldr_rest w"
  using assms by (simp add: img_rest_def ldr_rest_def sess_view_def)

lemma ldr_rest_drv:
  assumes "drv_inv w" "obj_inv w'" "ldr_inv w'" "ldr_names w'" "ldr_rest w' = ldr_rest w"
  shows "drv_inv w' \<and> dom (w_sess w') = dom (w_sess w)"
proof -
  note I = drv_invD [OF assms(1)]
  let ?z = "\<lambda>d. d\<lparr>dx_pLdrImages := [], dx_pvVMMR0 := 0, dx_pfnVMMR0EntryInt := 0, dx_pfnVMMR0EntryFast := 0, dx_pfnVMMR0EntryEx := 0\<rparr>"
  have r: "sess_view (\<lambda>s. s\<lparr>ses_pLdrUsage := []\<rparr>) w' = sess_view (\<lambda>s. s\<lparr>ses_pLdrUsage := []\<rparr>) w"
    "w_memobjs w' = w_memobjs w" "?z (w_devext w') = ?z (w_devext w)" "gip_running (w_trace w') = gip_running (w_trace w)"
    using assms(5) by (simp_all add: ldr_rest_def)
  have d: "dx_pGip (w_devext w') = dx_pGip (w_devext w)" "dx_GipMemObj (w_devext w') = dx_GipMemObj (w_devext w)"
    "dx_cGipUsers (w_devext w') = dx_cGipUsers (w_devext w)"
    using arg_cong [OF r(3), of dx_pGip] arg_cong [OF r(3), of dx_GipMemObj] arg_cong [OF r(3), of dx_cGipUsers] by simp_all
  note c = sess_view_comp [OF r(1)]
  have u: "sess_view ses_pUsage w' = sess_view ses_pUsage w" by (rule c [of _ ses_pUsage]) simp
  have h: "sess_view ses_hHandleTable w' = sess_view ses_hHandleTable w" by (rule c [of _ ses_hHandleTable]) simp
  have b: "sess_view ses_Bundle w' = sess_view ses_Bundle w" by (rule c [of _ ses_Bundle]) simp
  have g: "sess_view (\<lambda>s. (ses_GipMapObjR3 s, ses_fGipReferenced s)) w' = sess_view (\<lambda>s. (ses_GipMapObjR3 s, ses_fGipReferenced s)) w"
    by (rule c [of _ "\<lambda>s. (ses_GipMapObjR3 s, ses_fGipReferenced s)"]) simp
  have v: "good_view w' = good_view w"
    by (rule c [of _ "\<lambda>s. (ses_u32Cookie s, ses_hHandleTable s = None, ses_fGipReferenced s, ses_GipMapObjR3 s)"]) simp
  have "sem_inv w'" by (rule sem_inv_tables [OF u h assms(2) I(1)])
  moreover have "mem_inv w'" by (rule mem_inv_view [OF _ I(4)]) (simp add: mem_view_def b r(2))
  moreover have "gip_inv w'" by (rule gip_inv_view [OF _ I(5)]) (simp add: gip_view_def g r(2,4) d)
  moreover have "gip_apart w'" by (rule gip_apart_view [OF b d(2) I(6)])
  moreover have "sessions_good w'" by (rule sessions_good_view [OF v I(8)])
  moreover have "gip_there w'" using I(9) by (simp add: gip_there_def d)
  ultimately show ?thesis using drv_invI [OF _ assms(3) _ _ _ assms(4)] sess_view_dom [OF b] by blast
qed

lemma supdrvLdrAddUsage_rest:
  "supdrvLdrAddUsage w sp p fMem = Some (rc, w') \<Longrightarrow> ldr_rest w' = ldr_rest w"
  by (auto simp: supdrvLdrAddUsage_def ldr_rest_set_sess split: option.splits if_splits)

lemma LdrOpen_drv:
  assumes "drv_inv w" "w_sess w sp = Some s" "ldr_room w" "w_imgs w pNew = None" "lo_cbImageBits q < lo_cbImageWithTabs q"
    "\<not> ldr_overrun w (lo_szName q)"
  shows "\<exists>rc out w'. supdrvIOCtl_LdrOpen os pNew pvExec fMem w sp q = Some (rc, out, w') \<and> drv_inv w' \<and>
    dom (w_sess w') = dom (w_sess w)"
proof -
  note I = drv_invD [OF assms(1)]
  from LdrOpen_ok [OF I(2,3,7) assms(3,2,4,5,6), of os pvExec fMem] obtain rc out w' where
    o: "supdrvIOCtl_LdrOpen os pNew pvExec fMem w sp q = Some (rc, out, w')" "obj_inv w'" "ldr_inv w'" "ldr_names w'" by blast
  have "ldr_rest w' = ldr_rest w"
    using o(1) by (auto simp: supdrvIOCtl_LdrOpen_def Let_def split: option.splits if_splits prod.splits dest!: supdrvLdrAddUsage_rest)
  then show ?thesis using ldr_rest_drv [OF assms(1) o(2-4)] o(1) by blast
qed

lemma ldr_activate_rest:
  assumes "ldr_activate os rcInit w p im q rc0 = Some (rc, w')"
  shows "ldr_rest w' = ldr_rest w"
proof -
  let ?X = "\<lambda>rc1 im1. if RT_SUCCESS rc1 then
       (case ll_EP q of
          SUPLDRLOADEP_VMMR0 pv pvInt pvFast pvEx \<Rightarrow>
            (case supdrvLdrSetVMMR0EPs w pv pvInt pvFast pvEx of (rc, w') \<Rightarrow> (rc, im1, w'))
        | SUPLDRLOADEP_SERVICE pfn _ _ _ \<Rightarrow> (VINF_SUCCESS, im1\<lparr>img_pfnServiceReqHandler := pfn\<rparr>, w)
        | _ \<Rightarrow> (VINF_SUCCESS, im1, w))
     else (rc1, im1, w)"
  let ?Y = "\<lambda>rc2 im2 w2. if RT_SUCCESS rc2 \<and> img_pfnModuleInit im2 \<noteq> 0 then
       (rcInit, if rcInit \<noteq> 0 \<and> dx_pvVMMR0 (w_devext (log_ev w2 (EvModuleInit (img_pfnModuleInit im2)))) = img_pvImage im2
                then supdrvLdrUnsetVMMR0EPs (log_ev w2 (EvModuleInit (img_pfnModuleInit im2)))
                else log_ev w2 (EvModuleInit (img_pfnModuleInit im2)))
     else (rc2, w2)"
  have v: "ldr_rest (snd (supdrvLdrSetVMMR0EPs w a b c d)) = ldr_rest w" for a b c d
    by (simp add: supdrvLdrSetVMMR0EPs_def Let_def ldr_rest_def sess_view_def)
  have x: "ldr_rest (snd (snd (?X rc1 im1))) = ldr_rest w" for rc1 im1
    by (simp add: v case_prod_beta split: SUPLDRLOADEP.split)
  have y: "ldr_rest (snd (?Y rc2 im2 w2)) = ldr_rest w2" for rc2 im2 w2 by (simp add: Let_def)
  obtain rc1 im1 where b: "(case ?X rc1 im1 of (rc2, im2, w2) \<Rightarrow> case ?Y rc2 im2 w2 of (rc3, w3) \<Rightarrow>
      Some (rc3, set_img w3 p (if RT_FAILURE rc3 then ldr_reset_image im2 else im2))) = Some (rc, w')"
    using assms unfolding ldr_activate_def bind_eq_Some_conv Let_def by (elim exE conjE) (simp only: split_paired_all prod.case)
  obtain rc2 im2 w2 where X: "?X rc1 im1 = (rc2, im2, w2)" by (metis surj_pair)
  obtain rc3 w3 where Y: "?Y rc2 im2 w2 = (rc3, w3)" by (metis surj_pair)
  have "ldr_rest w3 = ldr_rest w" using x [of rc1 im1] y [of rc2 im2 w2] unfolding X Y by simp
  then show ?thesis using b unfolding X Y prod.case Y by auto
qed

lemma LdrLoad_drv:
  assumes "drv_inv w" "w_sess w sp = Some s" "load_req_ok q"
  shows "\<exists>rc w'. supdrvIOCtl_LdrLoad os fMemStr fMemSym rcInit w sp q = Some (rc, w') \<and> drv_inv w' \<and>
    dom (w_sess w') = dom (w_sess w)"
proof -
  note I = drv_invD [OF assms(1)]
  from LdrLoad_ok [OF I(2,3,7) assms(2,3), of os fMemStr fMemSym rcInit] obtain rc w' where
    o: "supdrvIOCtl_LdrLoad os fMemStr fMemSym rcInit w sp q = Some (rc, w')" "obj_inv w'" "ldr_inv w'" "ldr_names w'" by blast
  have "ldr_rest w' = ldr_rest w"
    using o(1) by (auto simp: supdrvIOCtl_LdrLoad_def Let_def bind_eq_Some_conv dest!: ldr_activate_rest split: option.splits if_splits)
  then show ?thesis using ldr_rest_drv [OF assms(1) o(2-4)] o(1) by blast
qed

lemma LdrFree_drv:
  assumes "drv_inv w" "w_sess w sp = Some s"
  shows "\<exists>rc w'. supdrvIOCtl_LdrFree w sp base = Some (rc, w') \<and> drv_inv w' \<and> dom (w_sess w') = dom (w_sess w)"
proof -
  note I = drv_invD [OF assms(1)]
  note F = ldr_find_usageD [OF I(3) assms(2)]
  consider (none) "ldr_find_usage w s base = Some None" | (some) p im where "ldr_find_usage w s base = Some (Some (p, im))"
    using F(1) by (metis not_None_eq surj_pair)
  then show ?thesis
  proof cases
    case none
    then show ?thesis using assms by (simp add: supdrvIOCtl_LdrFree_def)
  next
    case some
    have im: "w_imgs w p = Some im" using F(2) some by blast
    show ?thesis
    proof (rule supdrvIOCtl_LdrFree_ok [OF I(2,3) assms(2) some], goal_cases)
      case (1 w')
      have n: "\<exists>jm. w_imgs w q = Some jm \<and> img_szName km = img_szName jm \<and> img_cbImageBits km = img_cbImageBits jm \<and>
          img_cbImageWithTabs km = img_cbImageWithTabs jm" if "w_imgs w' q = Some km" for q km
        using that 1(5,7) im by (cases "q = p") auto
      have "ldr_names w'"
        unfolding ldr_names_def
      proof (intro conjI allI impI, goal_cases)
        case (1 q km)
        then show ?case using n [OF 1] I(7) unfolding ldr_names_def by metis
      next
        case (2 q km)
        then show ?case using n [OF 2] I(7) unfolding ldr_names_def by metis
      next
        case (3 q r km jm)
        then show ?case using n [OF 3(1)] n [OF 3(2)] I(7) unfolding ldr_names_def by metis
      qed
      moreover have "ldr_rest w' = ldr_rest w"
        using 1(1) assms(2)
        by (auto simp: supdrvIOCtl_LdrFree_def Let_def ldr_rest_set_sess dest!: supdrvLdrFree_rest ldr_rest_img
            split: option.splits if_splits bool.splits)
      ultimately show ?case using 1(1) ldr_rest_drv [OF assms(1) 1(2,3)] by blast
    qed
  qed
qed


subsection \<open>The global information page\<close>

definition gipm_rest :: "supdrv \<Rightarrow> _" where
  "gipm_rest w = (sess_view (\<lambda>s. s\<lparr>ses_GipMapObjR3 := 0, ses_fGipReferenced := False\<rparr>) w, w_objs w, w_imgs w,
     (w_devext w)\<lparr>dx_cGipUsers := 0, dx_u32SystemTimerGranularityGrant := 0, dx_pGip := None\<rparr>, dx_pGip (w_devext w) = None)"

lemma gipm_rest_unmap: "gip_rest w' = gip_rest w \<Longrightarrow> gipm_rest w' = gipm_rest w"
proof -
  let ?z = "\<lambda>d. d\<lparr>dx_cGipUsers := 0, dx_u32SystemTimerGranularityGrant := 0\<rparr>"
  assume r: "gip_rest w' = gip_rest w"
  then have d: "?z (w_devext w') = ?z (w_devext w)" by (simp add: gip_rest_def)
  have "dx_pGip (w_devext w') = dx_pGip (w_devext w)" using arg_cong [OF d, of dx_pGip] by simp
  moreover have "(w_devext w')\<lparr>dx_cGipUsers := 0, dx_u32SystemTimerGranularityGrant := 0, dx_pGip := None\<rparr> =
      (w_devext w)\<lparr>dx_cGipUsers := 0, dx_u32SystemTimerGranularityGrant := 0, dx_pGip := None\<rparr>"
    using arg_cong [OF d, of "\<lambda>d. d\<lparr>dx_pGip := None\<rparr>"] by simp
  ultimately show ?thesis using r by (simp add: gipm_rest_def gip_rest_def)
qed

lemma gipm_rest_set_sess:
  "w_sess w sp = Some t \<Longrightarrow> s\<lparr>ses_GipMapObjR3 := 0, ses_fGipReferenced := False\<rparr> = t\<lparr>ses_GipMapObjR3 := 0, ses_fGipReferenced := False\<rparr> \<Longrightarrow>
     gipm_rest (set_sess w sp s) = gipm_rest w"
  by (auto simp: gipm_rest_def sess_view_def fun_eq_iff)

lemma gip_resume_rest:
  "gip_resume gh self dx gip = Some dx' \<Longrightarrow>
     dx'\<lparr>dx_cGipUsers := 0, dx_u32SystemTimerGranularityGrant := 0, dx_pGip := None\<rparr> =
     dx\<lparr>dx_cGipUsers := 0, dx_u32SystemTimerGranularityGrant := 0, dx_pGip := None\<rparr> \<and> dx_pGip dx' \<noteq> None"
  by (auto simp: gip_resume_def Let_def split: if_splits option.splits)

lemma gip_reference_rest:
  assumes "gip_reference gh self w sp s = Some w'" "w_sess w sp = Some s"
  shows "gipm_rest w' = gipm_rest w \<and> w_memobjs w' = w_memobjs w"
proof -
  let ?w1 = "set_dx (set_sess w sp (s\<lparr>ses_fGipReferenced := True\<rparr>)) (\<lambda>dx. dx\<lparr>dx_cGipUsers := dx_cGipUsers dx + 1\<rparr>)"
  have "gipm_rest ?w1 = gipm_rest (set_sess w sp (s\<lparr>ses_fGipReferenced := True\<rparr>))" by (simp add: gipm_rest_def sess_view_def)
  also have "\<dots> = gipm_rest w" by (rule gipm_rest_set_sess [OF assms(2)]) simp
  finally have r1: "gipm_rest ?w1 = gipm_rest w" .
  show ?thesis
  proof (cases "dx_cGipUsers (w_devext ?w1) = 1")
    case False
    then have "w' = ?w1" using assms(1) by (simp add: gip_reference_def Let_def)
    then show ?thesis using r1 by simp
  next
    case True
    then obtain gip dx where g: "dx_pGip (w_devext ?w1) = Some gip" "gip_resume gh self (w_devext ?w1) gip = Some dx"
      "w' = log_ev (set_dx ?w1 (\<lambda>_. dx)) EvTimerStart"
      using assms(1) by (auto simp: gip_reference_def Let_def split: option.splits)
    have "gipm_rest w' = gipm_rest ?w1" using gip_resume_rest [OF g(2)] g(1) by (simp add: g(3) gipm_rest_def sess_view_def)
    then show ?thesis using r1 by (simp add: g(3))
  qed
qed

lemma GipMap_rest:
  assumes "SUPR0GipMap hst gh self w sp pp ph = Some (rc, out, w')" "w_sess w sp = Some s"
  shows "gipm_rest w' = gipm_rest w \<and> (w_memobjs w' = w_memobjs w \<or> dx_pGip (w_devext w) \<noteq> None \<and>
    (\<exists>rc q. RTR0MemObjMapUser hst (w_memobjs w) (dx_GipMemObj (w_devext w)) 0xffffffffffffffff 0 RTMEM_PROT_READ (hst_Self hst) =
       Some (rc, q, w_memobjs w')))"
proof (cases "SUP_IS_SESSION_VALID sp s \<and> \<not> (pp \<noteq> 0 \<and> \<not> RT_VALID_PTR pp) \<and> \<not> (ph \<noteq> 0 \<and> \<not> RT_VALID_PTR ph) \<and> dx_pGip (w_devext w) \<noteq> None")
  case False
  then have "w' = w" using assms by (auto simp: SUPR0GipMap_def split: if_splits)
  then show ?thesis by simp
next
  case True
  let ?w1 = "\<lambda>q h. mem_result (set_sess w sp (s\<lparr>ses_GipMapObjR3 := q\<rparr>)) h"
  have r1: "gipm_rest (?w1 q h) = gipm_rest w" for q h
  proof -
    have "gipm_rest (?w1 q h) = gipm_rest (set_sess w sp (s\<lparr>ses_GipMapObjR3 := q\<rparr>))" by (simp add: gipm_rest_def sess_view_def)
    also have "\<dots> = gipm_rest w" by (rule gipm_rest_set_sess [OF assms(2)]) simp
    finally show ?thesis .
  qed
  obtain rc1 q h where m: "gip_map_part hst w s pp = Some (rc1, q, h)"
    and w': "w' = ?w1 q h \<or> gip_reference gh self (?w1 q h) sp (s\<lparr>ses_GipMapObjR3 := q\<rparr>) = Some w'"
    using assms True unfolding SUPR0GipMap_def gip_map_part_def [symmetric]
    by (fastforce simp: Let_def split: option.splits if_splits)
  have s1: "w_sess (?w1 q h) sp = Some (s\<lparr>ses_GipMapObjR3 := q\<rparr>)" by simp
  have "gipm_rest w' = gipm_rest w \<and> w_memobjs w' = h"
    using w' r1 [of q h] gip_reference_rest [OF _ s1] by fastforce
  then show ?thesis using m True by (auto simp: gip_map_part_def split: if_splits)
qed

lemma gipm_rest_drv:
  assumes "drv_inv w" "mem_inv w'" "gip_inv w'" "gipm_rest w' = gipm_rest w" "w_sess w' = (w_sess w)(sp \<mapsto> s')"
    "w_sess w sp = Some s" "SUP_IS_SESSION_VALID sp s'" "ses_fGipReferenced s' \<longrightarrow> ses_GipMapObjR3 s' \<noteq> 0"
  shows "drv_inv w' \<and> dom (w_sess w') = dom (w_sess w)"
proof -
  note I = drv_invD [OF assms(1)]
  let ?z = "\<lambda>d. d\<lparr>dx_cGipUsers := 0, dx_u32SystemTimerGranularityGrant := 0, dx_pGip := None\<rparr>"
  have r: "sess_view (\<lambda>s. s\<lparr>ses_GipMapObjR3 := 0, ses_fGipReferenced := False\<rparr>) w' =
      sess_view (\<lambda>s. s\<lparr>ses_GipMapObjR3 := 0, ses_fGipReferenced := False\<rparr>) w"
    "w_objs w' = w_objs w" "w_imgs w' = w_imgs w" "?z (w_devext w') = ?z (w_devext w)"
    "dx_pGip (w_devext w') = None \<longleftrightarrow> dx_pGip (w_devext w) = None"
    using assms(4) by (simp_all add: gipm_rest_def)
  have d: "dx_pObjs (w_devext w') = dx_pObjs (w_devext w)" "dx_pLdrImages (w_devext w') = dx_pLdrImages (w_devext w)"
    "dx_GipMemObj (w_devext w') = dx_GipMemObj (w_devext w)"
    using arg_cong [OF r(4), of dx_pObjs] arg_cong [OF r(4), of dx_pLdrImages] arg_cong [OF r(4), of dx_GipMemObj] by simp_all
  note c = sess_view_comp [OF r(1)]
  have u: "sess_view ses_pUsage w' = sess_view ses_pUsage w" by (rule c [of _ ses_pUsage]) simp
  have h: "sess_view ses_hHandleTable w' = sess_view ses_hHandleTable w" by (rule c [of _ ses_hHandleTable]) simp
  have l: "sess_view ses_pLdrUsage w' = sess_view ses_pLdrUsage w" by (rule c [of _ ses_pLdrUsage]) simp
  have b: "sess_view ses_Bundle w' = sess_view ses_Bundle w" by (rule c [of _ ses_Bundle]) simp
  have "sem_inv w'" by (rule sem_inv_view [OF _ I(1)]) (simp add: sem_view_def u h r(2) d)
  moreover have "ldr_inv w'" by (rule ldr_inv_view [OF _ I(3)]) (simp add: ldr_view_def l r(3) d)
  moreover have "gip_apart w'" by (rule gip_apart_view [OF b d(3) I(6)])
  moreover have "ldr_names w'" using I(7) ldr_names_imgs [OF r(3)] by simp
  moreover have "sessions_good w'"
  proof (rule sessions_good_upd [OF I(8) assms(5)])
    have "ses_hHandleTable s' = ses_hHandleTable s"
      using arg_cong [OF h, of "\<lambda>f. f sp"] assms(5,6) by (simp add: sess_view_def)
    then show "sess_good sp s'" using assms(7,8) drv_inv_sess(3) [OF assms(1,6)] by (simp add: sess_good_def)
  qed
  moreover have "gip_there w'" using I(9) by (simp add: gip_there_def d(3) r(5))
  ultimately show ?thesis using drv_invI [OF _ _ assms(2,3)] sess_view_dom [OF b] by blast
qed

lemma GipMap_drv:
  assumes "drv_inv w" "w_sess w sp = Some s" "host_ok hst" "pp \<noteq> 0"
  shows "\<exists>rc out w'. SUPR0GipMap hst gh self w sp pp ph = Some (rc, out, w') \<and> drv_inv w' \<and> dom (w_sess w') = dom (w_sess w)"
proof -
  note I = drv_invD [OF assms(1)] note S = drv_inv_sess [OF assms(1,2)]
  obtain rc out w' s' where g: "SUPR0GipMap hst gh self w sp pp ph = Some (rc, out, w')" "gip_inv w'"
    "w_sess w' = (w_sess w)(sp \<mapsto> s')" "SUP_IS_SESSION_VALID sp s'"
    "if RT_SUCCESS rc then ses_fGipReferenced s' \<and> (pp \<noteq> 0 \<longrightarrow> ses_GipMapObjR3 s' \<noteq> 0) else s' = s"
    using GipMap_ok [OF I(5) assms(3,2) S(1), of gh self pp ph] by blast
  note R = GipMap_rest [OF g(1) assms(2)]
  have b: "sess_view ses_Bundle w' = sess_view ses_Bundle w"
  proof -
    have "sess_view (\<lambda>s. s\<lparr>ses_GipMapObjR3 := 0, ses_fGipReferenced := False\<rparr>) w' =
      sess_view (\<lambda>s. s\<lparr>ses_GipMapObjR3 := 0, ses_fGipReferenced := False\<rparr>) w" using R by (simp add: gipm_rest_def)
    from sess_view_comp [OF this, of ses_Bundle ses_Bundle] show ?thesis by simp
  qed
  have "mem_inv w'"
  proof (rule mem_inv_keep [OF b I(4) gip_invD(3) [OF g(2)]])
    fix p t r assume t: "w_sess w p = Some t" "r \<in> set (mem_refs t)"
    have ok: "ref_ok (w_memobjs w) r" by (rule mem_invD(4) [OF I(4) t])
    show "ref_ok (w_memobjs w') r"
    proof (cases "w_memobjs w' = w_memobjs w")
      case True
      then show ?thesis using ok by simp
    next
      case False
      with R obtain rc1 q where m: "dx_pGip (w_devext w) \<noteq> None"
        "RTR0MemObjMapUser hst (w_memobjs w) (dx_GipMemObj (w_devext w)) 0xffffffffffffffff 0 RTMEM_PROT_READ (hst_Self hst) =
           Some (rc1, q, w_memobjs w')" by blast
      obtain mo where mo: "w_memobjs w (dx_GipMemObj (w_devext w)) = Some mo" "mo_enmType mo = RTR0MEMOBJTYPE_CONT"
        using gip_invD(4) [OF I(5)] m(1) by (auto simp: gip_page_ok_def)
      have nm: "\<not> rtR0MemObjIsMapping mo" using mo(2) by (simp add: rtR0MemObjIsMapping_def)
      show ?thesis
      proof (rule gip_MapUser_ok [OF gip_invD(3) [OF I(5)] assms(3) mo], goal_cases)
        case (1 rc2 q2 h')
        then have h': "h' = w_memobjs w'" "rc2 = rc1" "q2 = q" using m(2) by simp_all
        then obtain c a where "w_memobjs w q = None"
          "w_memobjs w' = (w_memobjs w)(dx_GipMemObj (w_devext w) \<mapsto> mo\<lparr>mo_cMappingsAllocated := a, mo_papMappings := mo_papMappings mo @ [q]\<rparr>, q \<mapsto> c)"
          using 1(3) False by (auto split: if_splits)
        then show ?case using map_keeps_refs [OF gip_invD(3) [OF I(5)] mo(1) nm _ ok] by simp
      qed
    qed
  qed
  moreover have "ses_fGipReferenced s' \<longrightarrow> ses_GipMapObjR3 s' \<noteq> 0" using g(5) S(5) assms(4) by (auto split: if_splits)
  ultimately show ?thesis using gipm_rest_drv [OF assms(1) _ g(2) conjunct1 [OF R] g(3) assms(2) g(4)] g(1) by blast
qed

lemma GipUnmap_drv:
  assumes "drv_inv w" "w_sess w sp = Some s" "\<forall>n. hst_Free hst n = VINF_SUCCESS"
  shows "\<exists>rc w'. SUPR0GipUnmap hst w sp = Some (rc, w') \<and> drv_inv w' \<and> dom (w_sess w') = dom (w_sess w)"
proof -
  note I = drv_invD [OF assms(1)] note S = drv_inv_sess [OF assms(1,2)]
  obtain rc w' s' where g: "SUPR0GipUnmap hst w sp = Some (rc, w')" "gip_inv w'" "w_sess w' = (w_sess w)(sp \<mapsto> s')"
    "SUP_IS_SESSION_VALID sp s'" "rc = VINF_SUCCESS \<longrightarrow> \<not> ses_fGipReferenced s' \<and> ses_GipMapObjR3 s' = 0"
    "ses_GipMapObjR3 s \<noteq> 0 \<longrightarrow> rc = hst_Free hst (the (w_memobjs w (ses_GipMapObjR3 s)))" "ses_GipMapObjR3 s = 0 \<longrightarrow> rc = VINF_SUCCESS"
    using GipUnmap_ok [OF I(5) assms(2) S(1), of hst] by blast
  have "rc = VINF_SUCCESS" using g(6,7) assms(3) by metis
  then have "ses_fGipReferenced s' \<longrightarrow> ses_GipMapObjR3 s' \<noteq> 0" using g(5) by simp
  then show ?thesis
    using gipm_rest_drv [OF assms(1) GipUnmap_mem_inv(1) [OF g(1) I(5,4,6)] g(2) gipm_rest_unmap [OF conjunct1 [OF GipUnmap_rest [OF g(1)]]]
        g(3) assms(2) g(4)] g(1) by blast
qed


subsection \<open>The requests\<close>

text \<open>
  What the surroundings of the driver do: the host's memory functions work as documented, the allocators answer
  with addresses that are not in use, the request buffer does not lie at the end of the address space,
  and the VMM, which changes the driver through the functions above only, keeps the invariant, as do
  the threads that run during an operation on a semaphore.
\<close>

definition env_fits :: "ioc_env \<Rightarrow> supdrv \<Rightarrow> bool" where
  "env_fits env w \<longleftrightarrow> host_ok (env_hst env) \<and> (\<forall>n. hst_Free (env_hst env) n = VINF_SUCCESS) \<and>
     (env_pNew env = 0 \<or> RT_VALID_PTR (env_pNew env) \<and> w_objs w (env_pNew env) = None \<and> \<not> RTHT_IS_FREE (env_pNew env)) \<and>
     w_imgs w (env_pNew env) = None \<and> env_buf env + 24 \<noteq> 0 \<and> env_buf env + 32 \<noteq> 0 \<and>
     sem_prim_fits (env_SemOp env) \<and> (\<forall>f t. sem_prim_fits (\<lambda>h. env_SemWait env h f t)) \<and>
     (\<forall>f v i u pkt a s rc pkt' w1. env_VMMR0EntryEx env f v i u pkt a s w = (rc, pkt', w1) \<longrightarrow>
        drv_inv w1 \<and> dom (w_sess w1) = dom (w_sess w))"

text \<open>The 32-bit reference counts are not at their ends.\<close>

definition counts_fit :: "supdrv \<Rightarrow> bool" where
  "counts_fit w \<longleftrightarrow> (\<forall>p. obj_room w p) \<and> ldr_room w"

definition kept :: "supdrv \<Rightarrow> supdrv \<Rightarrow> bool" where
  "kept w w' \<longleftrightarrow> drv_inv w' \<and> dom (w_sess w') = dom (w_sess w)"

lemma kept_self: "drv_inv w \<Longrightarrow> kept w w"
  by (simp add: kept_def)

text \<open>What the checks of a request guarantee about its contents.\<close>

definition req_ok :: "SUPREQHDR \<Rightarrow> ioc_req \<Rightarrow> bool" where
  "req_ok hdr req =
     (case req of
        IocLdrOpen q \<Rightarrow> lo_cbImageBits q < lo_cbImageWithTabs q
      | IocLdrLoad q \<Rightarrow> load_req_ok q
      | IocLoggerSettings _ _ sz a b c \<Rightarrow> unat a < length sz \<and> unat b < length sz \<and> unat c < length sz
      | IocCallVmmr0 _ _ _ _ fPkt \<Rightarrow> fPkt \<longrightarrow> 48 \<le> unat (hdr_cbIn hdr)
      | _ \<Rightarrow> True)"

lemma small_req_ok:
  "ioc_cookie hdr b = Some (IocOk req) \<Longrightarrow> req_ok hdr req"
  "ioc_query_funcs n hdr b = Some (IocOk req) \<Longrightarrow> req_ok hdr req"
  "ioc_ldr_open hdr b = Some (IocOk req) \<Longrightarrow> req_ok hdr req"
  "ioc_ldr_free hdr b = Some (IocOk req) \<Longrightarrow> req_ok hdr req"
  "ioc_ldr_get_symbol hdr b = Some (IocOk req) \<Longrightarrow> req_ok hdr req"
  "ioc_cont_alloc hdr b = Some (IocOk req) \<Longrightarrow> req_ok hdr req"
  "ioc_page_map_kernel hdr b = Some (IocOk req) \<Longrightarrow> req_ok hdr req"
  "ioc_page_protect hdr b = Some (IocOk req) \<Longrightarrow> req_ok hdr req"
  "ioc_page_lock hdr b = Some (IocOk req) \<Longrightarrow> req_ok hdr req"
  "ioc_low_alloc hdr b = Some (IocOk req) \<Longrightarrow> req_ok hdr req"
  "ioc_page_alloc_ex hdr b = Some (IocOk req) \<Longrightarrow> req_ok hdr req"
  "ioc_set_vm hdr b = Some (IocOk req) \<Longrightarrow> req_ok hdr req"
  "ioc_sem_op2 hdr b = Some (IocOk req) \<Longrightarrow> req_ok hdr req"
  "ioc_sem_op3 hdr b = Some (IocOk req) \<Longrightarrow> req_ok hdr req"
  unfolding ioc_cookie_def ioc_query_funcs_def ioc_ldr_open_def ioc_ldr_free_def ioc_ldr_get_symbol_def ioc_cont_alloc_def
    ioc_page_map_kernel_def ioc_page_protect_def ioc_page_lock_def ioc_low_alloc_def ioc_page_alloc_ex_def ioc_set_vm_def
    ioc_sem_op2_def ioc_sem_op3_def
  by (auto simp: req_ok_def dest!: checksD checkD split: bind_splits)

lemma call_req_ok:
  "ioc_call_vmmr0 hdr b = Some (IocOk req) \<Longrightarrow> req_ok hdr req"
  "ioc_call_vmmr0_big hdr b = Some (IocOk req) \<Longrightarrow> req_ok hdr req"
  "ioc_call_service hdr b = Some (IocOk req) \<Longrightarrow> req_ok hdr req"
  unfolding ioc_call_vmmr0_def ioc_call_vmmr0_big_def ioc_call_service_def ioc_call_args_def ioc_service_args_def
  by (auto simp: req_ok_def dest!: packet_room checksD checkD split: bind_splits if_splits)

lemma logger_req_ok:
  assumes "ioc_logger hdr b = Some (IocOk req)"
  shows "req_ok hdr req"
  using assms unfolding ioc_logger_def Let_def
  by (auto simp: req_ok_def copy_bytes_def word_less_nat_alt unat_ucast_u32 dest!: checksD checkD split: bind_splits if_splits)

lemma load_req_ok_parse:
  assumes "ioc_ldr_load hdr b = Some (IocOk req)" "unat (hdr_cbIn hdr) \<le> length b" "length b \<le> 0x1000000"
  shows "req_ok hdr req"
proof -
  have "\<exists>q. req = IocLdrLoad q"
    using assms(1) unfolding ioc_ldr_load_def by (auto dest!: checksD checkD split: bind_splits)
  then show ?thesis using ioc_ldr_load_ok [OF assms(2,3)] assms(1) by (auto simp: req_ok_def)
qed

text \<open>A load request that is accepted lies in its buffer, even if nobody looked before.\<close>

lemma load_req_in:
  assumes "ioc_ldr_load hdr b = Some (IocOk req)"
  shows "unat (hdr_cbIn hdr) \<le> length b"
proof -
  have "\<exists>cb. ucast (hdr_cbIn hdr) = (108 + ucast cb :: u64) \<and> ucast (hdr_cbOut hdr) = (24 :: u64) \<and> 108 + unat (cb :: u32) \<le> length b"
    using assms unfolding ioc_ldr_load_def REQ_CHECK_SIZES_def REQ_CHECK_SIZE_IN_def REQ_CHECK_SIZE_OUT_def
    by (auto simp: copy_bytes_def dest!: checkD(3) split: bind_splits if_splits)
  then show ?thesis using load_size by metis
qed

lemma addr_req_ok: "ioc_addr_only f hdr b = Some (IocOk req) \<Longrightarrow> (\<And>pv. req_ok hdr (f pv)) \<Longrightarrow> req_ok hdr req"
  unfolding ioc_addr_only_def by (auto dest!: checksD)

lemma parse_req_ok:
  assumes "ioc_parse n uIOCtl hdr b = Some (IocOk req)" "length b \<le> 0x1000000"
  shows "req_ok hdr req"
proof -
  have load: "ioc_ldr_load hdr b = Some (IocOk req) \<Longrightarrow> req_ok hdr req"
    using load_req_ok_parse [OF _ load_req_in assms(2)] by blast
  have e: "REQ_CHECK_SIZES hdr (Some 24) (Some m) (Some (IocOk q)) = Some (IocOk req) \<Longrightarrow> req_ok hdr q \<Longrightarrow> req_ok hdr req"
    "REQ_CHECK_SIZES hdr (Some 24) (Some m) (REQ_CHECK_EXPR t (Some (IocOk q))) = Some (IocOk req) \<Longrightarrow> req_ok hdr q \<Longrightarrow> req_ok hdr req" for m t q
    by (auto dest!: checksD checkD)
  have a: "req_ok hdr (IocPageUnlock pv)" "req_ok hdr (IocContFree pv)" "req_ok hdr (IocLowFree pv)" "req_ok hdr (IocPageFree pv)" for pv
    by (simp_all add: req_ok_def)
  have k: "req_ok hdr IocGetPagingMode" "req_ok hdr IocGipMap" "req_ok hdr IocGipUnmap" "req_ok hdr IocVtCaps" by (simp_all add: req_ok_def)
  note oks = small_req_ok call_req_ok logger_req_ok load addr_req_ok [OF _ a(1)] addr_req_ok [OF _ a(2)]
    addr_req_ok [OF _ a(3)] addr_req_ok [OF _ a(4)] e(1) [OF _ k(1)] e(1) [OF _ k(2)] e(1) [OF _ k(3)] e(2) [OF _ k(4)]
  show ?thesis using assms(1) unfolding ioc_parse_def Let_def by (elim if_someE oks) simp
qed


text \<open>Answers that come with a state, and with outputs besides.\<close>

lemma status_kept:
  "\<exists>rc w1. r = Some (rc, w1) \<and> kept w w1 \<Longrightarrow> \<exists>q. exec_status l r = Some q \<and> kept w (rep_drv q)"
  by (auto simp: exec_status_def rep_def)

lemma mem_kept:
  assumes "drv_inv w"
  shows "\<exists>rc out w1. r = Some (rc, out, w1) \<and> mem_good w sp w1 \<Longrightarrow> \<exists>rc out w1. r = Some (rc, out, w1) \<and> kept w w1"
    "\<exists>rc w1. r' = Some (rc, w1) \<and> mem_good w sp w1 \<Longrightarrow> \<exists>rc w1. r' = Some (rc, w1) \<and> kept w w1"
  unfolding kept_def using mem_good_drv [OF assms] by blast+

lemma out_kept:
  assumes "\<exists>rc out w1. r = Some (rc, out, w1) \<and> kept w w1"
  shows "\<exists>q. map_option (\<lambda>(rc, out, w1). rep_short l rc (f rc out) w1) r = Some q \<and> kept w (rep_drv q)"
    "\<exists>q. map_option (\<lambda>(rc, out, w1). rep l rc (f rc out) w1) r = Some q \<and> kept w (rep_drv q)"
  using assms by (elim exE conjE, simp add: rep_short_def rep_def)+

lemma exec_memory_kept:
  assumes "drv_inv w" "w_sess w sp = Some s" "env_fits env w"
  shows "\<exists>q. exec_page_lock env w l sp pv n = Some q \<and> kept w (rep_drv q)"
    "\<exists>q. exec_cont_alloc env w l sp n = Some q \<and> kept w (rep_drv q)"
    "\<exists>q. exec_low_alloc env w l sp n = Some q \<and> kept w (rep_drv q)"
    "\<exists>q. exec_page_alloc_ex env w l sp n fK fU = Some q \<and> kept w (rep_drv q)"
    "\<exists>q. exec_page_map_kernel env w l sp pv off cb fl = Some q \<and> kept w (rep_drv q)"
    "\<exists>q. exec_status l (SUPR0PageProtect (env_hst env) w sp pv pv0 off cb fl) = Some q \<and> kept w (rep_drv q)"
    "\<exists>q. exec_status l (SUPR0LowFree (env_hst env) w sp pv) = Some q \<and> kept w (rep_drv q)"
    "\<exists>q. exec_status l (SUPR0ContFree (env_hst env) w sp pv) = Some q \<and> kept w (rep_drv q)"
    "\<exists>q. exec_status l (SUPR0PageFree (env_hst env) w sp pv) = Some q \<and> kept w (rep_drv q)"
    "\<exists>q. exec_status l (SUPR0UnlockMem (env_hst env) w sp pv) = Some q \<and> kept w (rep_drv q)"
proof -
  note I = drv_invD [OF assms(1)] note S = drv_inv_sess [OF assms(1,2)]
  have h: "host_ok (env_hst env)" "host_frees (env_hst env)" "env_buf env + 24 \<noteq> 0"
    using assms(3) by (simp_all add: env_fits_def host_frees_def)
  note a = I(4) assms(2) S(1)
  note k = mem_kept(1) [OF assms(1)] note k' = mem_kept(2) [OF assms(1)]
  note rel = k' [OF release_safe [OF a h(2)]]
  show "\<exists>q. exec_page_lock env w l sp pv n = Some q \<and> kept w (rep_drv q)"
    unfolding exec_page_lock_def by (rule out_kept(1) [OF k [OF LockMem_safe [OF a h(1,2)]]])
  show "\<exists>q. exec_cont_alloc env w l sp n = Some q \<and> kept w (rep_drv q)"
    unfolding exec_cont_alloc_def by (rule out_kept(1) [OF k [OF ContAlloc_safe [OF a h(1,2)]]])
  show "\<exists>q. exec_low_alloc env w l sp n = Some q \<and> kept w (rep_drv q)"
    unfolding exec_low_alloc_def by (rule out_kept(1) [OF k [OF LowAlloc_safe [OF a h(1,2)]]])
  show "\<exists>q. exec_page_alloc_ex env w l sp n fK fU = Some q \<and> kept w (rep_drv q)"
    unfolding exec_page_alloc_ex_def by (rule out_kept(1) [OF k [OF PageAllocEx_safe [OF a h(1,2)]]])
  show "\<exists>q. exec_page_map_kernel env w l sp pv off cb fl = Some q \<and> kept w (rep_drv q)"
    unfolding exec_page_map_kernel_def by (rule out_kept(1) [OF k [OF PageMapKernel_safe [OF a h(1,3)]]])
  show "\<exists>q. exec_status l (SUPR0PageProtect (env_hst env) w sp pv pv0 off cb fl) = Some q \<and> kept w (rep_drv q)"
    by (rule status_kept [OF k' [OF PageProtect_safe [OF a]]])
  show "\<exists>q. exec_status l (SUPR0LowFree (env_hst env) w sp pv) = Some q \<and> kept w (rep_drv q)"
    "\<exists>q. exec_status l (SUPR0ContFree (env_hst env) w sp pv) = Some q \<and> kept w (rep_drv q)"
    "\<exists>q. exec_status l (SUPR0PageFree (env_hst env) w sp pv) = Some q \<and> kept w (rep_drv q)"
    "\<exists>q. exec_status l (SUPR0UnlockMem (env_hst env) w sp pv) = Some q \<and> kept w (rep_drv q)"
    unfolding SUPR0LowFree_def SUPR0ContFree_def SUPR0PageFree_def SUPR0UnlockMem_def with_session_ok [OF assms(2) S(1)]
    by (rule status_kept [OF rel])+
qed

lemmas sem_wrappers = SUPSemEventCreate_def SUPSemEventClose_def SUPSemEventSignal_def SUPSemEventMultiCreate_def
  SUPSemEventMultiClose_def SUPSemEventMultiSignal_def SUPSemEventMultiReset_def SUPSemEventWaitNoResume_def
  SUPSemEventWaitNsAbsIntr_def SUPSemEventWaitNsRelIntr_def SUPSemEventMultiWaitNoResume_def SUPSemEventMultiWaitNsAbsIntr_def
  SUPSemEventMultiWaitNsRelIntr_def supR0SemEventWaitEx_def supR0SemEventMultiWaitEx_def

lemma if_kept:
  "\<exists>rc w1. a = Some (rc, w1) \<and> kept w w1 \<Longrightarrow> \<exists>rc w1. b = Some (rc, w1) \<and> kept w w1 \<Longrightarrow>
     \<exists>rc w1. (if c then a else b) = Some (rc, w1) \<and> kept w w1"
  "\<exists>q. x = Some q \<and> kept w (rep_drv q) \<Longrightarrow> \<exists>q. y = Some q \<and> kept w (rep_drv q) \<Longrightarrow>
     \<exists>q. (if c then x else y) = Some q \<and> kept w (rep_drv q)"
  by simp_all

lemma exec_sem_kept:
  assumes "drv_inv w" "w_sess w sp = Some s" "env_fits env w" "counts_fit w"
  shows "\<exists>q. exec_status l (exec_sem_op2 env w sp ty h uop arg) = Some q \<and> kept w (rep_drv q)"
    "\<exists>q. exec_sem_op3 env w l sp ty uop = Some q \<and> kept w (rep_drv q)"
proof -
  have room: "\<forall>p. obj_room w p" using assms(4) by (simp add: counts_fit_def)
  have prims: "sem_prim_fits (env_SemOp env)" "sem_prim_fits (\<lambda>h. env_SemWait env h f t)" for f t
    using assms(3) by (simp_all add: env_fits_def)
  note o = sem_op_drv [OF assms(1,2) room prims(1), folded kept_def] sem_op_drv [OF assms(1,2) room prims(2), folded kept_def]
  note c = sem_close_drv [OF assms(1,2) room, folded kept_def]
  have e: "\<exists>rc w'. Some (rc0, w) = Some (rc, w') \<and> kept w w'" for rc0 :: status using kept_self [OF assms(1)] by blast
  have r: "\<exists>q. Some (rep l rc0 out w) = Some q \<and> kept w (rep_drv q)"
    "\<exists>q. Some ((rep l rc0 out w)\<lparr>rep_cbOut := cb\<rparr>) = Some q \<and> kept w (rep_drv q)" for rc0 out cb
    using kept_self [OF assms(1)] by (simp_all add: rep_def)
  show "\<exists>q. exec_status l (exec_sem_op2 env w sp ty h uop arg) = Some q \<and> kept w (rep_drv q)"
    by (rule status_kept) (unfold exec_sem_op2_def sem_wrappers Let_def, intro o c e if_kept)
  have p: "env_pNew env = 0 \<or> RT_VALID_PTR (env_pNew env) \<and> w_objs w (env_pNew env) = None \<and> \<not> RTHT_IS_FREE (env_pNew env)"
    using assms(3) by (simp add: env_fits_def)
  note n = sem_create_drv [OF assms(1,2) p, folded kept_def]
  show "\<exists>q. exec_sem_op3 env w l sp ty uop = Some q \<and> kept w (rep_drv q)"
    unfolding exec_sem_op3_def sem_wrappers Let_def by (intro out_kept(2) n r if_kept)
qed

lemma exec_gip_kept:
  assumes "drv_inv w" "w_sess w sp = Some s" "env_fits env w"
  shows "\<exists>q. exec_gip_map env w l sp = Some q \<and> kept w (rep_drv q)"
    "\<exists>q. exec_status l (SUPR0GipUnmap (env_hst env) w sp) = Some q \<and> kept w (rep_drv q)"
proof -
  have h: "host_ok (env_hst env)" "\<forall>n. hst_Free (env_hst env) n = VINF_SUCCESS" "env_buf env + 32 \<noteq> 0"
    using assms(3) by (simp_all add: env_fits_def)
  show "\<exists>q. exec_status l (SUPR0GipUnmap (env_hst env) w sp) = Some q \<and> kept w (rep_drv q)"
    by (rule status_kept) (rule GipUnmap_drv [OF assms(1,2) h(2), folded kept_def])
  obtain rc out w1 where g: "SUPR0GipMap (env_hst env) (env_gh env) (env_idCpu env) w sp (env_buf env + 32) (env_buf env + 24) = Some (rc, out, w1)"
    and k: "kept w w1"
    using GipMap_drv [OF assms(1,2) h(1,3), folded kept_def] by blast
  have d: "drv_inv w1" using k by (simp add: kept_def)
  let ?g = "dx_GipMemObj (w_devext w1)"
  have "\<exists>a. RTR0MemObjAddress (w_memobjs w1) ?g = Some a"
  proof (cases "dx_pGip (w_devext w1)")
    case None
    then have "?g = 0" using drv_invD(9) [OF d] by (simp add: gip_there_def)
    then show ?thesis by (simp add: RTR0MemObjAddress_def mo_valid_def)
  next
    case (Some gip)
    then obtain m where "w_memobjs w1 ?g = Some m" using gip_invD(4) [OF drv_invD(5) [OF d]] by (auto simp: gip_page_ok_def)
    then show ?thesis using mo_read_ok(1) [OF gip_invD(3) [OF drv_invD(5) [OF d]]] by blast
  qed
  then obtain a where a: "RTR0MemObjAddress (w_memobjs w1) ?g = Some a" by blast
  show "\<exists>q. exec_gip_map env w l sp = Some q \<and> kept w (rep_drv q)"
    unfolding exec_gip_map_def g option.case prod.case Let_def a
    by (rule if_kept(2)) (use k in \<open>simp_all add: rep_def\<close>)
qed

lemma exec_ldr_kept:
  assumes "drv_inv w" "w_sess w sp = Some s" "env_fits env w" "counts_fit w"
  shows "lo_cbImageBits q < lo_cbImageWithTabs q \<Longrightarrow> \<not> ldr_overrun w (lo_szName q) \<Longrightarrow> \<exists>x. exec_ldr_open env w l sp q = Some x \<and> kept w (rep_drv x)"
    "load_req_ok r \<Longrightarrow> \<exists>x. exec_status l (supdrvIOCtl_LdrLoad (env_os env) m1 m2 rc0 w sp r) = Some x \<and> kept w (rep_drv x)"
    "\<exists>x. exec_status l (supdrvIOCtl_LdrFree w sp pv) = Some x \<and> kept w (rep_drv x)"
    "\<exists>x. exec_ldr_get_symbol w l sp pv sz = Some x \<and> kept w (rep_drv x)"
    "\<exists>rc. supdrvIOCtl_CallServiceModule call rcLock w sp nm op arg f = Some rc"
proof -
  have e: "w_imgs w (env_pNew env) = None" "ldr_room w" using assms(3,4) by (simp_all add: env_fits_def counts_fit_def)
  show "\<exists>x. exec_ldr_open env w l sp q = Some x \<and> kept w (rep_drv x)" if "lo_cbImageBits q < lo_cbImageWithTabs q" "\<not> ldr_overrun w (lo_szName q)"
    unfolding exec_ldr_open_def by (rule out_kept(2) [OF LdrOpen_drv [OF assms(1,2) e(2,1) that, folded kept_def]])
  show "\<exists>x. exec_status l (supdrvIOCtl_LdrLoad (env_os env) m1 m2 rc0 w sp r) = Some x \<and> kept w (rep_drv x)" if "load_req_ok r"
    by (rule status_kept [OF LdrLoad_drv [OF assms(1,2) that, folded kept_def]])
  show "\<exists>x. exec_status l (supdrvIOCtl_LdrFree w sp pv) = Some x \<and> kept w (rep_drv x)"
    by (rule status_kept [OF LdrFree_drv [OF assms(1,2), folded kept_def]])
  show "\<exists>x. exec_ldr_get_symbol w l sp pv sz = Some x \<and> kept w (rep_drv x)"
    using LdrGetSymbol_ok [OF drv_invD(3) [OF assms(1)] assms(2), of pv sz] kept_self [OF assms(1)]
    by (auto simp: exec_ldr_get_symbol_def rep_def)
  have d: "deref_find (w_imgs w) P (map lus_pImage (ses_pLdrUsage s)) \<noteq> None" for P
    by (rule deref_find_safe) (use ldr_invD(2) [OF drv_invD(3) [OF assms(1)] assms(2)] in \<open>auto simp: ldr_usage_ok_def\<close>)
  show "\<exists>rc. supdrvIOCtl_CallServiceModule call rcLock w sp nm op arg f = Some rc"
    using assms(2) by (simp add: supdrvIOCtl_CallServiceModule_def d split: option.split)
qed


lemma exec_rest_kept:
  assumes "drv_inv w" "w_sess w sp = Some s"
  shows "\<exists>x. exec_cookie env w l sp m v = Some x \<and> kept w (rep_drv x)"
    "\<exists>x. exec_query_funcs env w l = Some x \<and> kept w (rep_drv x)"
    "\<exists>x. exec_vt_caps env w l sp = Some x \<and> kept w (rep_drv x)"
    "\<exists>x. exec_set_vm w l sp pv = Some x \<and> kept w (rep_drv x)"
proof -
  note I = drv_invD [OF assms(1)] note S = drv_inv_sess [OF assms(1,2)]
  show "\<exists>x. exec_cookie env w l sp m v = Some x \<and> kept w (rep_drv x)"
    unfolding exec_cookie_def by (intro if_kept(2)) (use assms(2) kept_self [OF assms(1)] in \<open>simp_all add: rep_def\<close>)
  show "\<exists>x. exec_query_funcs env w l = Some x \<and> kept w (rep_drv x)"
    using kept_self [OF assms(1)] by (simp add: exec_query_funcs_def rep_def)
  have "SUPR0QueryVTCaps (env_cpu env) w sp (env_buf env + 24) \<noteq> None"
    using assms(2) S(1) by (simp add: SUPR0QueryVTCaps_def split: prod.split)
  then obtain a b where "SUPR0QueryVTCaps (env_cpu env) w sp (env_buf env + 24) = Some (a, b)" by auto
  then show "\<exists>x. exec_vt_caps env w l sp = Some x \<and> kept w (rep_drv x)"
    using kept_self [OF assms(1)] by (simp add: exec_vt_caps_def rep_short_def)
  let ?t = "s\<lparr>ses_pVM := pv\<rparr>" let ?w = "set_sess w sp ?t"
  have v: "sess_view f ?w = sess_view f w" if "f ?t = f s" for f :: "SUPDRVSESSION \<Rightarrow> 'z"
    using that assms(2) by (auto simp: sess_view_def fun_eq_iff)
  have "drv_inv ?w" by (rule drv_inv_views [OF assms(1)]) (simp_all add: drv_views v)
  then show "\<exists>x. exec_set_vm w l sp pv = Some x \<and> kept w (rep_drv x)"
    using assms(2) by (auto simp: exec_set_vm_def rep_def kept_def)
qed

lemma LoggerSettings_total:
  assumes "unat offGroups < length sz" "unat offFlags < length sz" "unat offDest < length sz"
  shows "\<exists>r. supdrvIOCtl_LoggerSettings lg l fWhich fWhat sz offGroups offFlags offDest = Some r"
  using assms by (simp add: supdrvIOCtl_LoggerSettings_def log_str_def Let_def split: prod.split)

lemma exec_call_kept:
  assumes "drv_inv w" "env_fits env w"
  shows "\<exists>x. exec_call_vmmr0 env w l sp pv idc uop arg pkt = Some x \<and> kept w (rep_drv x)"
proof -
  obtain rc pkt' w1 where c: "env_VMMR0EntryEx env (dx_pfnVMMR0EntryEx (w_devext w)) pv idc uop pkt arg sp w = (rc, pkt', w1)"
    by (metis surj_pair)
  have "kept w w1" using assms(2) c unfolding env_fits_def kept_def by blast
  then show ?thesis using kept_self [OF assms(1)] by (simp add: exec_call_vmmr0_def c rep_def)
qed

text \<open>
  Whatever a checked request asks for, if it is done it keeps the invariant. It is done if the bytes the
  request consists of are there, unless it opens an image with a name that overruns that of another one.
\<close>

definition req_overrun :: "supdrv \<Rightarrow> ioc_req \<Rightarrow> bool" where
  "req_overrun w req \<longleftrightarrow> (case req of IocLdrOpen q \<Rightarrow> ldr_overrun w (lo_szName q) | _ \<Rightarrow> False)"

definition req_there :: "SUPREQHDR \<Rightarrow> u8 list \<Rightarrow> ioc_req \<Rightarrow> bool" where
  "req_there hdr b req \<longleftrightarrow> (case req of IocCallVmmr0 _ _ _ _ fPkt \<Rightarrow> fPkt \<longrightarrow> unat (hdr_cbIn hdr) \<le> length b | _ \<Rightarrow> True)"

lemma ioc_exec_kept:
  assumes "drv_inv w" "w_sess w sp = Some s" "env_fits env w" "counts_fit w" "req_ok hdr req" "req_there hdr b req" "\<not> req_overrun w req"
  shows "\<exists>x. ioc_exec env w l sp hdr b req = Some x \<and> kept w (rep_drv x)"
proof -
  note M = exec_memory_kept [OF assms(1-3)] note L = exec_ldr_kept [OF assms(1-4)]
  note G = exec_gip_kept [OF assms(1-3)] note E = exec_sem_kept [OF assms(1-4)] note R = exec_rest_kept [OF assms(1,2)]
  note C = exec_call_kept [OF assms(1,3)]
  have s: "\<exists>x. map_option (\<lambda>(rc, l1). rep l1 rc [] w) r = Some x \<and> kept w (rep_drv x)" if "\<exists>y. r = Some y" for r
    using that kept_self [OF assms(1)] by (auto simp: rep_def)
  have s': "\<exists>x. map_option (\<lambda>rc. rep l rc [] w) r = Some x \<and> kept w (rep_drv x)" if "\<exists>y. r = Some y" for r
    using that kept_self [OF assms(1)] by (auto simp: rep_def)
  have g: "\<exists>x. Some (rep l rc out w) = Some x \<and> kept w (rep_drv x)" for rc out
    using kept_self [OF assms(1)] by (simp add: rep_def)
  show ?thesis
  proof (cases req)
    case (IocCallVmmr0 pv idc uop arg fPkt)
    show ?thesis
    proof (cases fPkt)
      case True
      then have "48 + (unat (hdr_cbIn hdr) - 48) \<le> length b" using assms(5,6) by (simp add: req_ok_def req_there_def IocCallVmmr0)
      from copy_bytes_in [OF this] show ?thesis using C True by (simp add: ioc_exec_def IocCallVmmr0)
    next
      case False
      then show ?thesis using C by (simp add: ioc_exec_def IocCallVmmr0)
    qed
  next
    case (IocLdrOpen q)
    then show ?thesis using L(1) assms(5,7) by (simp add: ioc_exec_def req_ok_def req_overrun_def)
  next
    case (IocLdrLoad q)
    then show ?thesis using L(2) assms(5) by (simp add: ioc_exec_def req_ok_def)
  next
    case (IocLoggerSettings a c sz d e f)
    then show ?thesis using s [OF LoggerSettings_total, of d sz e f] assms(5) by (simp add: ioc_exec_def req_ok_def)
  next
    case (IocCallService nm uop arg f)
    then show ?thesis using s' [OF L(5)] by (simp add: ioc_exec_def)
  qed (simp_all only: ioc_exec_def ioc_req.case M L G E R g)
qed

lemma ioc_exec_overrun:
  assumes "drv_inv w" "req_overrun w req"
  shows "ioc_exec env w l sp hdr b req = None"
proof -
  obtain q where q: "req = IocLdrOpen q" "ldr_overrun w (lo_szName q)"
    using assms(2) by (cases req) (auto simp: req_overrun_def)
  show ?thesis using LdrOpen_overrun [OF drv_invD(3,7) [OF assms(1)] q(2)] by (simp add: q(1) ioc_exec_def exec_ldr_open_def)
qed

lemma ioc_exec_some:
  assumes "drv_inv w" "w_sess w sp = Some s" "env_fits env w" "counts_fit w" "req_ok hdr req" "ioc_exec env w l sp hdr b req = Some x"
  shows "kept w (rep_drv x)"
proof -
  have o: "\<not> req_overrun w req" using ioc_exec_overrun [OF assms(1)] assms(6) by fastforce
  have t: "req_there hdr b req"
    using assms(5,6) by (auto simp: req_there_def req_ok_def ioc_exec_def copy_bytes_def split: ioc_req.splits if_splits bind_splits)
  show ?thesis using ioc_exec_kept [OF assms(1-5) t o, of l] assms(6) by simp
qed

text \<open>A request overruns: it gets as far as opening an image, with such a name.\<close>

definition ioc_overrun :: "ioc_env \<Rightarrow> u64 \<Rightarrow> supdrv \<Rightarrow> SUPDRVSESSION \<Rightarrow> SUPREQHDR \<Rightarrow> u8 list \<Rightarrow> bool" where
  "ioc_overrun env uIOCtl w s hdr b \<longleftrightarrow> hdr_ok uIOCtl w s hdr \<and>
     (\<exists>q. ioc_parse (length (env_aFunctions env)) uIOCtl hdr b = Some (IocOk (IocLdrOpen q)) \<and> ldr_overrun w (lo_szName q))"

lemma supdrvIOCtl_hdr_ok:
  "get_hdr b = Some hdr \<Longrightarrow> w_sess w sp = Some s \<Longrightarrow> RT_VALID_PTR sp \<Longrightarrow> hdr_ok uIOCtl w s hdr \<Longrightarrow>
     supdrvIOCtl env uIOCtl w l sp b = ioc_switch env uIOCtl w l sp hdr b"
  by (auto simp: supdrvIOCtl_def hdr_ok_def)

lemma supdrvIOCtl_overrun:
  assumes "drv_inv w" "w_sess w sp = Some s" "get_hdr b = Some hdr" "ioc_overrun env uIOCtl w s hdr b"
  shows "supdrvIOCtl env uIOCtl w l sp b = None"
proof -
  obtain q where q: "hdr_ok uIOCtl w s hdr" "ioc_parse (length (env_aFunctions env)) uIOCtl hdr b = Some (IocOk (IocLdrOpen q))"
    "ldr_overrun w (lo_szName q)" using assms(4) by (auto simp: ioc_overrun_def)
  have "req_overrun w (IocLdrOpen q)" using q(3) by (simp add: req_overrun_def)
  from ioc_exec_overrun [OF assms(1) this] have "ioc_switch env uIOCtl w l sp hdr b = None" using q(2) by (simp add: ioc_switch_def)
  then show ?thesis using supdrvIOCtl_hdr_ok [OF assms(3,2) drv_inv_sess(2) [OF assms(1,2)] q(1)] by simp
qed

lemma supdrvIOCtl_ok:
  assumes "drv_inv w" "w_sess w sp = Some s" "env_fits env w" "counts_fit w" "env_ok env" "buf_ok env hdr b"
    "\<not> ioc_overrun env uIOCtl w s hdr b"
  shows "\<exists>rc b' w' l'. supdrvIOCtl env uIOCtl w l sp b = Some (rc, b', w', l') \<and> length b' = length b \<and> kept w w' \<and>
    (rc \<noteq> 0 \<longrightarrow> (rc = VERR_INVALID_PARAMETER \<or> rc = VERR_GENERAL_FAILURE) \<and> w' = w \<and> l' = l)"
proof -
  have sp: "RT_VALID_PTR sp" by (rule drv_inv_sess(2) [OF assms(1,2)])
  have b: "unat (hdr_cbIn hdr) \<le> length b" "length b \<le> 0x1000000" using assms(6) by (simp_all add: buf_ok_def)
  from supdrvIOCtl_cases [OF assms(6,5,2) sp, of uIOCtl l] show ?thesis
  proof (elim disjE exE conjE)
    assume "rejected (supdrvIOCtl env uIOCtl w l sp b) b w l"
    then obtain rc b' where r: "supdrvIOCtl env uIOCtl w l sp b = Some (rc, b', w, l)"
      "rc = VERR_INVALID_PARAMETER \<or> rc = VERR_GENERAL_FAILURE"
      "b' = b \<or> put b 20 (le_bytes 4 (word_of_int VERR_INVALID_PARAMETER :: u32)) = Some b'" by (auto simp: rejected_def)
    have "length b' = length b" using r(3) by (auto simp: put_def split: if_splits)
    then show ?thesis using r(1,2) kept_self [OF assms(1)] by blast
  next
    fix req
    assume h: "hdr_ok uIOCtl w s hdr" and p: "ioc_parse (length (env_aFunctions env)) uIOCtl hdr b = Some (IocOk req)"
      and a: "answered env (supdrvIOCtl env uIOCtl w l sp b) b w l sp hdr req"
    have o: "\<not> req_overrun w req"
      using assms(7) h p unfolding ioc_overrun_def req_overrun_def by (cases req) auto
    have t: "req_there hdr b req" using b(1) by (simp add: req_there_def split: ioc_req.split)
    obtain x where x: "ioc_exec env w l sp hdr b req = Some x" "kept w (rep_drv x)"
      using ioc_exec_kept [OF assms(1-4) parse_req_ok [OF p b(2)] t o] by blast
    then show ?thesis using a by (auto simp: answered_def)
  qed
qed

text \<open>
  If a request is done at all, whatever its bytes and whatever lies in its buffer, it keeps the
  invariant and the sessions.
\<close>

lemma put_length: "put b i x = Some b' \<Longrightarrow> length b' = length b"
  by (auto simp: put_def split: if_splits)

lemma put_all_length: "put_all b xs = Some b' \<Longrightarrow> length b' = length b"
  by (induction xs arbitrary: b) (auto dest: put_length split: bind_splits)

lemma ioc_switch_some:
  assumes "drv_inv w" "w_sess w sp = Some s" "env_fits env w" "counts_fit w" "length b \<le> 0x1000000"
    "ioc_switch env uIOCtl w l sp hdr b = Some (rc, b', w', l')"
  shows "length b' = length b \<and> kept w w' \<and> (rc \<noteq> 0 \<longrightarrow> (rc = VERR_INVALID_PARAMETER \<or> rc = VERR_GENERAL_FAILURE) \<and> w' = w \<and> l' = l)"
proof -
  obtain c where c: "ioc_parse (length (env_aFunctions env)) uIOCtl hdr b = Some c"
    using assms(6) by (auto simp: ioc_switch_def split: bind_splits)
  show ?thesis
  proof (cases c)
    case (IocOk req)
    then obtain x b1 where x: "ioc_exec env w l sp hdr b req = Some x" "put_reply b x = Some b1" "(rc, b', w', l') = (0, b1, rep_drv x, rep_log x)"
      using assms(6) c by (auto simp: ioc_switch_def split: bind_splits)
    have "length b1 = length b" using x(2) put_all_length by (auto simp: put_reply_def)
    then show ?thesis using ioc_exec_some [OF assms(1-4) parse_req_ok [OF c [unfolded IocOk] assms(5)] x(1)] x(3) by simp
  qed (use assms(6) c kept_self [OF assms(1)] in \<open>auto simp: ioc_switch_def dest: put_length\<close>)
qed

lemma supdrvIOCtl_some:
  assumes "drv_inv w" "w_sess w sp = Some s" "env_fits env w" "counts_fit w" "length b \<le> 0x1000000"
    "supdrvIOCtl env uIOCtl w l sp b = Some (rc, b', w', l')"
  shows "length b' = length b \<and> kept w w' \<and> (rc \<noteq> 0 \<longrightarrow> (rc = VERR_INVALID_PARAMETER \<or> rc = VERR_GENERAL_FAILURE) \<and> w' = w \<and> l' = l)"
proof -
  from assms(6) obtain hdr where "(rc, b', w', l') = (VERR_INVALID_PARAMETER, b, w, l) \<or>
      ioc_switch env uIOCtl w l sp hdr b = Some (rc, b', w', l')"
    by (auto simp: supdrvIOCtl_def split: bind_splits if_splits)
  then show ?thesis using ioc_switch_some [OF assms(1-5)] kept_self [OF assms(1)] by blast
qed

end
