(* ===== verification/SupReach.thy ===== *)
theory SupReach
  imports SupSystem SupGipCpu
begin

text \<open>
  The life of the driver: it is initialised, which establishes the invariant, sessions are created, make requests and
  are closed. All sessions can be closed in any order, and then nothing that they shared is left.
\<close>

subsection \<open>Initialisation\<close>

definition drv_start :: "supdrv \<Rightarrow> bool" where
  "drv_start w \<longleftrightarrow> w_sess w = Map.empty \<and> w_objs w = Map.empty \<and> dx_pObjs (w_devext w) = [] \<and>
     w_imgs w = Map.empty \<and> dx_pLdrImages (w_devext w) = [] \<and> mo_inv (w_memobjs w) \<and> gip_page_ok w \<and> gip_there w \<and>
     dx_cGipUsers (w_devext w) = 0 \<and> \<not> gip_running (w_trace w)"

lemma no_sess_total [simp]: "w_sess w = Map.empty \<Longrightarrow> sess_total f w = 0"
  by (simp add: sess_total_def)

lemma drv_start_inv:
  assumes "drv_start w"
  shows "drv_inv w"
proof -
  note S = assms [unfolded drv_start_def]
  have o: "obj_inv w" using S by (simp add: obj_inv_def)
  have "sem_inv w" by (rule sem_invI [OF o]) (use S in \<open>simp add: tables_of_def\<close>)
  moreover have "ldr_inv w" using S by (simp add: ldr_inv_def)
  moreover have "mem_inv w" using S by (simp add: mem_inv_def)
  moreover have "gip_inv w" using S by (simp add: gip_inv_def)
  moreover have "gip_apart w" using S by (simp add: gip_apart_def)
  moreover have "ldr_names w" using S by (simp add: ldr_names_def)
  moreover have "sessions_good w" using S by (simp add: sessions_good_def)
  moreover have "gip_there w" using S by simp
  ultimately show ?thesis by (rule drv_invI)
qed

lemma gip_init_all_ok: "gip_init_all gh gip ids = Some g \<Longrightarrow> gip_ok gip \<Longrightarrow> gip_ok g"
proof (induction ids arbitrary: gip)
  case (Cons i ids)
  from Cons.prems(1) obtain g1 where g: "supdrvGipMpEventOnline gh (\<lambda>_ cs. cs) i gip i = Some g1" "gip_init_all gh g1 ids = Some g"
    by (auto simp: bind_eq_Some_conv)
  show ?case by (rule Cons.IH [OF g(2) MpEventOnline_clock(1) [OF Cons.prems(2) g(1)]])
qed simp

lemma supdrvGipInit_ok:
  assumes "supdrvGipInit gh dx ph ns hz n = Some dx'" "0 < n" "n \<le> 256"
  shows "\<exists>gip. gip_ok gip \<and> dx' = dx\<lparr>dx_pGip := Some gip, dx_HCPhysGip := ph, dx_cGipUsers := 0\<rparr>"
proof -
  have "unat (of_nat n :: u16) = n" using assms(3) by (simp add: unat_of_nat)
  then show ?thesis
    using assms by (intro exI [of _ "the (dx_pGip dx')"]) (auto simp: supdrvGipInit_def gip_ok_def split: if_splits)
qed

lemma gip_create_timer_ok:
  assumes "gip_create_timer gh dx gip = (rc, dx', gip')" "gip_ok gip"
  shows "gip_ok gip' \<and> (\<exists>f. dx' = dx\<lparr>dx_pGip := Some gip', dx_fGipTimer := f\<rparr>)"
  using assms by (auto simp: gip_create_timer_def gip_ok_def Let_def split: if_splits)

text \<open>A page that was created successfully is in order, and nothing else is touched.\<close>

lemma supdrvGipCreate_ok:
  assumes "supdrvGipCreate hst gh pfn pvDev pNew w ntf = Some (rc, w', ntf')" "RT_SUCCESS rc" "host_ok hst" "mo_inv (w_memobjs w)"
    "0 < unat (gh_ArraySize gh)"
  shows "\<exists>gip p m ph f. gip_ok gip \<and> mo_enmType m = RTR0MEMOBJTYPE_CONT \<and> mo_inv ((w_memobjs w)(p \<mapsto> m)) \<and>
    w' = (set_dx w (\<lambda>d. d\<lparr>dx_GipMemObj := p, dx_pGip := Some gip, dx_HCPhysGip := ph, dx_cGipUsers := 0, dx_fGipTimer := f,
      dx_fGipPublished := True\<rparr>))\<lparr>w_memobjs := (w_memobjs w)(p \<mapsto> m)\<rparr>"
proof -
  let ?n = "unat (gh_ArraySize gh)"
  obtain rc1 p h where a: "RTR0MemObjAllocCont hst (w_memobjs w) (gip_offset ?n) False = (rc1, p, h)" by (metis surj_pair)
  have n: "?n \<le> 256" using assms(1,2) by (auto simp: supdrvGipCreate_def RT_FAILURE_def Let_def split: if_splits)
  have rc1: "RT_SUCCESS rc1" using assms(1,2) n a by (auto simp: supdrvGipCreate_def RT_FAILURE_def Let_def split: if_splits)
  from alloc_ok_all(3) [OF assms(4,3), of "gip_offset ?n" False, unfolded a alloc_ok_def] rc1 obtain m where
    m: "h = (w_memobjs w)(p \<mapsto> m)" "mo_enmType m = RTR0MEMOBJTYPE_CONT" "mo_inv h" by auto
  let ?w1 = "set_dx (mem_result w h) (\<lambda>dx. dx\<lparr>dx_GipMemObj := p\<rparr>)"
  obtain ph iv dx2 where c: "supdrvGipInit gh (w_devext ?w1) ph (gh_NanoTS gh) (1000000000 div iv) ?n = Some dx2"
    "gip_create_rest hst gh pfn pvDev pNew (set_dx ?w1 (\<lambda>_. dx2)) (the (dx_pGip dx2)) ntf = Some (rc, w', ntf')"
    using assms(1) n a rc1 by (auto simp: supdrvGipCreate_def RT_FAILURE_def Let_def split: option.splits)
  from supdrvGipInit_ok [OF c(1) assms(5) n] obtain gip where
    g: "gip_ok gip" "dx2 = (w_devext ?w1)\<lparr>dx_pGip := Some gip, dx_HCPhysGip := ph, dx_cGipUsers := 0\<rparr>" by blast
  obtain rc2 dx3 gip3 where t: "gip_create_timer gh dx2 gip = (rc2, dx3, gip3)" by (metis surj_pair)
  from gip_create_timer_ok [OF t g(1)] obtain f where t3: "gip_ok gip3" "dx3 = dx2\<lparr>dx_pGip := Some gip3, dx_fGipTimer := f\<rparr>" by blast
  have r2: "RT_SUCCESS rc2"
    using c(2) assms(2) t g(2) by (auto simp: gip_create_rest_def RT_FAILURE_def Let_def map_option_case split: if_splits option.splits)
  obtain gip4 where g4: "gip_init_all gh gip3 (snd (gh_OnAll gh)) = Some gip4"
    and w': "w' = set_dx (set_dx (set_dx (set_dx ?w1 (\<lambda>_. dx2)) (\<lambda>_. dx3)) (\<lambda>dx. dx\<lparr>dx_pGip := Some gip4\<rparr>)) (\<lambda>dx. dx\<lparr>dx_fGipPublished := True\<rparr>)"
    using c(2) assms(2) t g(2) r2
    by (auto simp: gip_create_rest_def RT_FAILURE_def Let_def map_option_case split: if_splits option.splits)
  show ?thesis
    by (intro exI [of _ gip4] exI [of _ p] exI [of _ m] exI [of _ ph] exI [of _ f] conjI gip_init_all_ok [OF g4 t3(1)] m(2))
      (use m(1,3) in \<open>simp_all add: w' t3(2) g(2) set_dx_def\<close>)
qed

lemma supdrvInitDevExt_start:
  assumes "supdrvInitDevExt hst gh pfn pvDev pNew locks sel cbSession supdrv0 ntf fns = Some (rc, w', ntf', fns')" "RT_SUCCESS rc"
    "host_ok hst" "0 < unat (gh_ArraySize gh)"
  shows "drv_start w'"
proof -
  let ?w1 = "set_dx supdrv0 (\<lambda>_. dx_zero)"
  obtain a b c d where l: "locks = (a, b, c, d)" by (cases locks)
  have k: "\<not> RT_FAILURE a" "\<not> RT_FAILURE b" "\<not> RT_FAILURE c" "\<not> RT_FAILURE d"
    using assms(1,2) unfolding supdrvInitDevExt_def l by (auto simp: RT_FAILURE_def Let_def split: if_splits)
  obtain rc2 w2 ntf2 where g: "supdrvGipCreate hst gh pfn pvDev pNew ?w1 ntf = Some (rc2, w2, ntf2)" "RT_SUCCESS rc2"
    and w': "w' = set_dx w2 (\<lambda>d. d\<lparr>dx_u32Cookie := BIRD, dx_cbSession := ucast cbSession\<rparr>)"
    using assms(1,2) k unfolding supdrvInitDevExt_def l by (auto simp: RT_FAILURE_def Let_def split: if_splits option.splits)
  have "mo_inv (w_memobjs ?w1)" by (simp add: supdrv0_def mo_inv_def)
  from supdrvGipCreate_ok [OF g assms(3) this assms(4)] show ?thesis
    by (auto simp: w' drv_start_def gip_page_ok_def gip_there_def supdrv0_def dx_zero_def dx0_def gip_running_def)
qed

subsection \<open>Creating and closing sessions\<close>

lemma CreateSession_drv:
  assumes "drv_inv w" "pNew = 0 \<or> RT_VALID_PTR pNew \<and> w_sess w pNew = None" "card (dom (w_sess w)) + 1 < 2 ^ 32"
    "supdrvCreateSession pNew rcSpinlock fMem rcLock procs fUser w = (rc, p, w')"
  shows "drv_inv w' \<and> (if rc = VINF_SUCCESS then p = pNew \<and> dom (w_sess w') = insert pNew (dom (w_sess w)) else p = 0 \<and> w' = w)"
proof (cases "pNew = 0")
  case True
  then show ?thesis using assms(1,4) by (auto simp: supdrvCreateSession_def)
next
  case False
  note I = drv_invD [OF assms(1)]
  have n: "RT_VALID_PTR pNew" "w_sess w pNew = None" using assms(2) False by simp_all
  have sys: "sys_inv w" using assms(1) by (simp add: drv_inv_def)
  from supdrvCreateSession_ok [OF sys False n(2) assms(3), of rcSpinlock fMem rcLock procs fUser, unfolded assms(4)] have r:
    "sys_inv w'" "if rc = VINF_SUCCESS then p = pNew \<and> (\<exists>s. sess_fresh pNew s \<and> w' = set_sess w pNew s) else p = 0 \<and> w' = w"
    by simp_all
  show ?thesis
  proof (cases "rc = VINF_SUCCESS")
    case True
    then obtain s where s: "sess_fresh pNew s" "w' = set_sess w pNew s" "p = pNew" using r(2) by auto
    have "sess_good pNew s" using s(1) n(1) by (auto simp: sess_fresh_def sess_good_def SUP_IS_SESSION_VALID_def)
    then have "sessions_good w'" by (intro sessions_good_upd [OF I(8)]) (simp_all add: s(2))
    moreover have "ldr_names w'" using I(7) ldr_names_imgs [of w' w] by (simp add: s(2))
    moreover have "gip_there w'" using I(9) by (simp add: gip_there_def s(2))
    ultimately show ?thesis using r(1) True s by (simp add: drv_inv_def)
  next
    case f: False
    then show ?thesis using r(2) assms(1) by simp
  qed
qed

lemma img_after_names: "img_after us p im = Some jm \<Longrightarrow> img_szName jm = img_szName im \<and> img_cbImageBits jm = img_cbImageBits im \<and>
    img_cbImageWithTabs jm = img_cbImageWithTabs im"
  by (auto simp: img_after_def split: if_splits)

text \<open>
  What will be left of an image once all sessions are closed: the references to it that no session has recorded.
  Closing a session changes nothing of that.
\<close>

definition img_left :: "supdrv \<Rightarrow> addr \<Rightarrow> SUPDRVLDRIMAGE option" where
  "img_left w p = Option.bind (w_imgs w p) (\<lambda>im. if ldr_total w p < unat (img_cUsage im)
     then Some (im\<lparr>img_cUsage := img_cUsage im - of_nat (ldr_total w p)\<rparr>) else None)"

lemma img_left_close:
  assumes "ldr_inv w" "w_sess w sp = Some s" "w_sess w' = (w_sess w)(sp := None)"
    "w_imgs w' p = Option.bind (w_imgs w p) (img_after (ses_pLdrUsage s) p)"
  shows "img_left w' p = img_left w p"
proof (cases "w_imgs w p")
  case None
  then show ?thesis using assms(4) by (simp add: img_left_def)
next
  case (Some im)
  let ?a = "img_refs_in (ses_pLdrUsage s) p" and ?o = "ldr_total w' p" and ?c = "img_cUsage im"
  have "ldr_total w' p = ldr_other w sp p"
    using drop_sess_total(1) [OF ldr_invD(1) [OF assms(1,2)] assms(2)] sess_sums_cong(1) [of w' "drop_sess w sp"] assms(3)
    by (simp add: ldr_total_def ldr_other_def)
  then have t: "ldr_total w p = ?a + ?o" using ldr_invD(4) [OF assms(1,2), of p] by (simp add: ldr_refs_def)
  have le: "?a + ?o \<le> unat ?c" using ldr_invD(5) [OF assms(1,2) Some] t by simp
  show ?thesis
  proof (cases "?a < unat ?c")
    case True
    have "?a < 2 ^ LENGTH(32)" by (rule order.strict_trans [OF True unsigned_less])
    then have a: "unat (of_nat ?a :: u32) = ?a" by (simp add: unat_of_nat)
    have u: "unat (?c - of_nat ?a) = unat ?c - ?a"
      using unat_sub [of "of_nat ?a" ?c] a True by (simp add: word_le_nat_alt)
    have im: "w_imgs w' p = Some (im\<lparr>img_cUsage := ?c - of_nat ?a\<rparr>)" using assms(4) Some True by (simp add: img_after_def)
    have c: "?o < unat ?c - ?a \<longleftrightarrow> ?a + ?o < unat ?c" by auto
    show ?thesis unfolding img_left_def im Some t by (simp add: u c diff_diff_eq)
  next
    case False
    then have "w_imgs w' p = None \<or> ?a = 0 \<and> unat ?c = 0" using assms(4) Some by (auto simp: img_after_def)
    then show ?thesis using False Some ldr_invD(5) [OF assms(1,2) Some] by (auto simp: img_left_def t)
  qed
qed

lemma CloseSession_drv:
  assumes "drv_inv w" "w_sess w sp = Some s" "\<forall>n. hst_Free hst n = VINF_SUCCESS"
  shows "\<exists>w'. supdrvCloseSession hst w sp = Some w' \<and> drv_inv w' \<and> w_sess w' = (w_sess w)(sp := None) \<and>
    (\<forall>p. p \<in> dom (w_objs w') \<longleftrightarrow> 0 < other_refs w sp p) \<and>
    (\<forall>r\<in>set (mem_refs s). w_memobjs w' (mr_MemObj r) = None \<and> (mr_MapObjR3 r \<noteq> 0 \<longrightarrow> w_memobjs w' (mr_MapObjR3 r) = None)) \<and>
    dx_pComponentFactoryHead (w_devext w') = filter (\<lambda>r. reg_pSession r \<noteq> sp) (dx_pComponentFactoryHead (w_devext w)) \<and>
    (\<forall>q. w_memobjs w q = None \<longrightarrow> w_memobjs w' q = None) \<and> (\<forall>p. img_left w' p = img_left w p)"
proof -
  note I = drv_invD [OF assms(1)] note S = drv_inv_sess [OF assms(1,2)]
  have sys: "sys_inv w" using assms(1) by (simp add: drv_inv_def)
  from supdrvCloseSession_ok [OF sys assms(2) S(1) assms(3)] obtain w' where
    w': "supdrvCloseSession hst w sp = Some w'" "w_sess w' = (w_sess w)(sp := None)"
      "\<forall>p. p \<in> dom (w_objs w') \<longleftrightarrow> 0 < other_refs w sp p"
      "\<forall>p. w_imgs w' p = Option.bind (w_imgs w p) (img_after (ses_pLdrUsage s) p)"
      "\<forall>r\<in>set (mem_refs s). w_memobjs w' (mr_MemObj r) = None \<and> (mr_MapObjR3 r \<noteq> 0 \<longrightarrow> w_memobjs w' (mr_MapObjR3 r) = None)"
      "dx_pComponentFactoryHead (w_devext w') = filter (\<lambda>r. reg_pSession r \<noteq> sp) (dx_pComponentFactoryHead (w_devext w))"
      "sys_inv w' \<longleftrightarrow> \<not> (ses_fGipReferenced s \<and> ses_GipMapObjR3 s = 0)"
      "dx_pGip (w_devext w') = dx_pGip (w_devext w)" "dx_GipMemObj (w_devext w') = dx_GipMemObj (w_devext w)"
      "\<forall>q. w_memobjs w q = None \<longrightarrow> w_memobjs w' q = None" by blast
  have left: "\<forall>p. img_left w' p = img_left w p" using img_left_close [OF I(3) assms(2) w'(2)] w'(4) by simp
  have imgs: "\<exists>im. w_imgs w p = Some im \<and> img_szName jm = img_szName im \<and> img_cbImageBits jm = img_cbImageBits im \<and>
    img_cbImageWithTabs jm = img_cbImageWithTabs im" if "w_imgs w' p = Some jm" for p jm
    using that w'(4) img_after_names by (auto simp: bind_eq_Some_conv)
  have names: "ldr_names w'"
    unfolding ldr_names_def
  proof (intro conjI allI impI, goal_cases)
    case (1 p jm)
    from imgs [OF 1] I(7) show ?case by (auto simp: ldr_names_def)
  next
    case (2 p jm)
    from imgs [OF 2] I(7) show ?case by (auto simp: ldr_names_def)
  next
    case (3 p q im jm)
    from imgs [OF 3(1)] imgs [OF 3(2)] obtain im0 jm0 where "w_imgs w p = Some im0" "w_imgs w q = Some jm0"
      "cstr (img_szName im0) = cstr (img_szName jm0)" using 3(3) by auto
    then show ?case using I(7) unfolding ldr_names_def by blast
  qed
  have good: "sessions_good w'" using I(8) by (auto simp: sessions_good_def w'(2) split: if_splits)
  have "gip_there w'" using I(9) by (simp add: gip_there_def w'(8,9))
  then have "drv_inv w'" using w'(7) S(5) names good by (auto simp: drv_inv_def)
  then show ?thesis using w' left by blast
qed

subsection \<open>Closing every session\<close>

text \<open>Closing sessions one after the other.\<close>

primrec close_all :: "r0host \<Rightarrow> supdrv \<Rightarrow> addr list \<Rightarrow> supdrv option" where
  "close_all hst w [] = Some w"
| "close_all hst w (p # ps) = Option.bind (supdrvCloseSession hst w p) (\<lambda>w1. close_all hst w1 ps)"

text \<open>A tracked object and its mapping in ring-3 are gone.\<close>

definition refs_gone :: "supdrv \<Rightarrow> SUPDRVMEMREF \<Rightarrow> bool" where
  "refs_gone w r \<longleftrightarrow> w_memobjs w (mr_MemObj r) = None \<and> (mr_MapObjR3 r \<noteq> 0 \<longrightarrow> w_memobjs w (mr_MapObjR3 r) = None)"

lemma close_all_drv:
  assumes "drv_inv w" "\<forall>n. hst_Free hst n = VINF_SUCCESS" "distinct ps" "set ps \<subseteq> dom (w_sess w)"
  shows "\<exists>w'. close_all hst w ps = Some w' \<and> drv_inv w' \<and> dom (w_sess w') = dom (w_sess w) - set ps \<and>
    dx_pComponentFactoryHead (w_devext w') = filter (\<lambda>r. reg_pSession r \<notin> set ps) (dx_pComponentFactoryHead (w_devext w)) \<and>
    (\<forall>q. w_memobjs w q = None \<longrightarrow> w_memobjs w' q = None) \<and> (\<forall>p. img_left w' p = img_left w p) \<and>
    (\<forall>p\<in>set ps. \<forall>r\<in>set (mem_refs (the (w_sess w p))). refs_gone w' r)"
  using assms(1,3,4)
proof (induction ps arbitrary: w)
  case (Cons p ps)
  obtain s where s: "w_sess w p = Some s" using Cons.prems(3) by auto
  from CloseSession_drv [OF Cons.prems(1) s assms(2)] obtain w1 where
    w1: "supdrvCloseSession hst w p = Some w1" "drv_inv w1" "w_sess w1 = (w_sess w)(p := None)"
      "dx_pComponentFactoryHead (w_devext w1) = filter (\<lambda>r. reg_pSession r \<noteq> p) (dx_pComponentFactoryHead (w_devext w))"
      "\<forall>r\<in>set (mem_refs s). refs_gone w1 r" "\<forall>q. w_memobjs w q = None \<longrightarrow> w_memobjs w1 q = None" "\<forall>q. img_left w1 q = img_left w q"
    unfolding refs_gone_def by blast
  have d: "dom (w_sess w1) = dom (w_sess w) - {p}" by (simp add: w1(3))
  have "distinct ps" "set ps \<subseteq> dom (w_sess w1)" using Cons.prems(2,3) d by auto
  from Cons.IH [OF w1(2) this] obtain w' where
    w': "close_all hst w1 ps = Some w'" "drv_inv w'" "dom (w_sess w') = dom (w_sess w1) - set ps"
      "dx_pComponentFactoryHead (w_devext w') = filter (\<lambda>r. reg_pSession r \<notin> set ps) (dx_pComponentFactoryHead (w_devext w1))"
      "\<forall>q. w_memobjs w1 q = None \<longrightarrow> w_memobjs w' q = None" "\<forall>q. img_left w' q = img_left w1 q"
      "\<forall>q\<in>set ps. \<forall>r\<in>set (mem_refs (the (w_sess w1 q))). refs_gone w' r" by blast
  have run: "close_all hst w (p # ps) = Some w'" using w'(1) w1(1) by simp
  have dom: "dom (w_sess w') = dom (w_sess w) - set (p # ps)" by (auto simp: w'(3) d)
  have fct: "dx_pComponentFactoryHead (w_devext w') = filter (\<lambda>r. reg_pSession r \<notin> set (p # ps)) (dx_pComponentFactoryHead (w_devext w))"
    by (auto simp: w'(4) w1(4) intro: filter_cong)
  have keep: "\<forall>q. w_memobjs w q = None \<longrightarrow> w_memobjs w' q = None" using w1(6) w'(5) by blast
  have left: "\<forall>q. img_left w' q = img_left w q" using w1(7) w'(6) by simp
  have p: "\<forall>r\<in>set (mem_refs (the (w_sess w p))). refs_gone w' r" using w1(5) w'(5) s by (simp add: refs_gone_def)
  have "\<forall>q\<in>set ps. \<forall>r\<in>set (mem_refs (the (w_sess w q))). refs_gone w' r"
    using w'(7) Cons.prems(2) by (auto simp: w1(3) split: if_splits)
  then have refs: "\<forall>q\<in>set (p # ps). \<forall>r\<in>set (mem_refs (the (w_sess w q))). refs_gone w' r" using p by simp
  show ?case by (intro exI [of _ w'] conjI run w'(2) dom fct keep left refs)
qed simp

lemma obj_dom_refs:
  assumes "obj_inv w"
  shows "p \<in> dom (w_objs w) \<longleftrightarrow> 0 < total_refs w p"
proof
  assume "p \<in> dom (w_objs w)"
  then show "0 < total_refs w p" using assms by (auto simp: obj_inv_def obj_ok_def)
next
  assume "0 < total_refs w p"
  then have "\<not> (\<forall>q\<in>dom (w_sess w). sess_refs (the (w_sess w q)) p = 0)" 
    unfolding total_refs_def sess_total_def by (metis sum.neutral less_numeral_extra(3))
  then obtain q s where s: "w_sess w q = Some s" "sess_refs s p \<noteq> 0" by auto
  then obtain u where "find (uses p) (ses_pUsage s) = Some u" using obj_invD(7) [OF assms s(1)] by fastforce
  then show "p \<in> dom (w_objs w)" using obj_invD(6) [OF assms s(1)] by auto
qed

lemma idle_ok:
  assumes "drv_inv w" "w_sess w = Map.empty"
  shows "w_objs w = Map.empty" "dx_pObjs (w_devext w) = []" "dx_cGipUsers (w_devext w) = 0" "\<not> gip_running (w_trace w)"
proof -
  note I = drv_invD [OF assms(1)]
  have "p \<notin> dom (w_objs w)" for p unfolding obj_dom_refs [OF I(2)] by (simp add: total_refs_def assms(2))
  then show o: "w_objs w = Map.empty" by (auto simp: fun_eq_iff)
  then show "dx_pObjs (w_devext w) = []" using I(2) by (simp add: obj_inv_def)
  show "\<not> gip_running (w_trace w)" using gip_invD(6) [OF I(5)] by (simp add: assms(2))
  have "unat (dx_cGipUsers (w_devext w)) = 0" using gip_invD(5) [OF I(5)] by (simp add: assms(2))
  then show "dx_cGipUsers (w_devext w) = 0" by (simp add: unat_eq_0)
qed

lemma close_all_idle_drv:
  assumes "drv_inv w" "\<forall>n. hst_Free hst n = VINF_SUCCESS" "distinct ps" "set ps = dom (w_sess w)"
  shows "\<exists>w'. close_all hst w ps = Some w' \<and> w_sess w' = Map.empty \<and> w_objs w' = Map.empty \<and> dx_pObjs (w_devext w') = [] \<and>
    dx_cGipUsers (w_devext w') = 0 \<and> \<not> gip_running (w_trace w') \<and>
    (\<forall>r\<in>set (dx_pComponentFactoryHead (w_devext w')). reg_pSession r \<notin> set ps) \<and>
    (\<forall>p s r. w_sess w p = Some s \<longrightarrow> r \<in> set (mem_refs s) \<longrightarrow> w_memobjs w' (mr_MemObj r) = None \<and>
       (mr_MapObjR3 r \<noteq> 0 \<longrightarrow> w_memobjs w' (mr_MapObjR3 r) = None)) \<and>
    (\<forall>p. w_imgs w' p = img_left w p)"
proof -
  have "set ps \<subseteq> dom (w_sess w)" using assms(4) by simp
  from close_all_drv [OF assms(1-3) this] obtain w' where
    w': "close_all hst w ps = Some w'" "drv_inv w'" "dom (w_sess w') = dom (w_sess w) - set ps"
      "dx_pComponentFactoryHead (w_devext w') = filter (\<lambda>r. reg_pSession r \<notin> set ps) (dx_pComponentFactoryHead (w_devext w))"
      "\<forall>p. img_left w' p = img_left w p" "\<forall>p\<in>set ps. \<forall>r\<in>set (mem_refs (the (w_sess w p))). refs_gone w' r" by blast
  have e: "w_sess w' = Map.empty" using w'(3) assms(4) by simp
  note idle = idle_ok [OF w'(2) e]
  have imgs: "\<forall>p. w_imgs w' p = img_left w p"
  proof
    fix p
    have "w_imgs w' p = img_left w' p"
      using drv_invD(3) [OF w'(2)] e by (cases "w_imgs w' p") (auto simp: img_left_def ldr_total_def ldr_inv_def)
    then show "w_imgs w' p = img_left w p" using w'(5) by simp
  qed
  have refs: "\<forall>p s r. w_sess w p = Some s \<longrightarrow> r \<in> set (mem_refs s) \<longrightarrow> w_memobjs w' (mr_MemObj r) = None \<and>
      (mr_MapObjR3 r \<noteq> 0 \<longrightarrow> w_memobjs w' (mr_MapObjR3 r) = None)"
    using w'(6) assms(4) unfolding refs_gone_def by (metis domI option.sel)
  show ?thesis by (intro exI [of _ w'] conjI w'(1) e idle imgs refs) (simp add: w'(4))
qed

text \<open>What the invariant says of the counts, the users of the GIP, the names and the sessions.\<close>

lemma drv_inv_facts:
  assumes "drv_inv w"
  shows "(\<forall>p. p \<in> dom (w_objs w) \<longleftrightarrow> 0 < total_refs w p) \<and>
    (\<forall>p ob. w_objs w p = Some ob \<longrightarrow> unat (obj_cUsage ob) = total_refs w p) \<and>
    unat (dx_cGipUsers (w_devext w)) = sess_total gip_refs w \<and>
    (gip_running (w_trace w) \<longleftrightarrow> (\<exists>p s. w_sess w p = Some s \<and> ses_fGipReferenced s)) \<and>
    (\<forall>p q im jm. w_imgs w p = Some im \<longrightarrow> w_imgs w q = Some jm \<longrightarrow> cstr (img_szName im) = cstr (img_szName jm) \<longrightarrow> p = q) \<and>
    (\<forall>p s. w_sess w p = Some s \<longrightarrow> SUP_IS_SESSION_VALID p s \<and> ses_hHandleTable s \<noteq> None)"
proof -
  note I = drv_invD [OF assms]
  have objs: "\<forall>p ob. w_objs w p = Some ob \<longrightarrow> unat (obj_cUsage ob) = total_refs w p" using I(2) by (auto simp: obj_inv_def obj_ok_def)
  have run: "gip_running (w_trace w) \<longleftrightarrow> (\<exists>p s. w_sess w p = Some s \<and> ses_fGipReferenced s)"
    using gip_invD(6) [OF I(5)] gip_referenced_total [OF gip_invD(1) [OF I(5)]] by simp
  have names: "\<forall>p q im jm. w_imgs w p = Some im \<longrightarrow> w_imgs w q = Some jm \<longrightarrow> cstr (img_szName im) = cstr (img_szName jm) \<longrightarrow> p = q"
    using I(7) unfolding ldr_names_def by blast
  have good: "\<forall>p s. w_sess w p = Some s \<longrightarrow> SUP_IS_SESSION_VALID p s \<and> ses_hHandleTable s \<noteq> None"
    using I(8) by (auto simp: sessions_good_def sess_good_def)
  show ?thesis using obj_dom_refs [OF I(2)] objs gip_invD(5) [OF I(5)] run names good by simp
qed

subsection \<open>Properties\<close>


subsection \<open>Witnesses\<close>

text \<open>A host with one CPU loads the driver, and a process opens it.\<close>

definition reach_ex_ntf :: RTNOTIFY where
  "reach_ex_ntf = \<lparr>ntf_fLock = True, ntf_list = [], ntf_recs = Map.empty, ntf_iDoneBit = 0, ntf_iGeneration = 0\<rparr>"

lemma init_ex_mem:
  fixes m defines "m \<equiv> host_obj RTR0MEMOBJTYPE_CONT 0x1000 0x70100000 NIL_RTR0PROCESS"
  shows "RTR0MemObjAllocCont host_ex Map.empty (gip_offset 1) False = (VINF_SUCCESS, 0x100000, [0x100000 \<mapsto> m])"
    "RTR0MemObjGetPagePhysAddr host_ex [0x100000 \<mapsto> m] 0x100000 0 = Some 0x5000000"
  unfolding m_def
  by (simp add: RTR0MemObjAllocCont_def mo_defs mo_new_def gip_offset_def host_ex_def RT_ALIGN_Z_def RT_VALID_PTR_def)
    (simp add: mo_defs mo_valid_def RT_VALID_PTR_def host_obj_def)

lemma init_ex_rest:
  assumes "gip_ok gip" "gip_u32Mode gip = SUPGIPMODE_SYNC_TSC" "cpu_idCpu (gip_aCPUs gip ! 0) = NIL_RTCPUID"
  shows "\<exists>w2 ntf2. gip_create_rest host_ex gip_ex_host 0x7000 0x8000 0x9000 w gip reach_ex_ntf = Some (VINF_SUCCESS, w2, ntf2)"
proof -
  have t: "gip_create_timer gip_ex_host dx gip = (VINF_SUCCESS, dx\<lparr>dx_pGip := Some gip, dx_fGipTimer := True\<rparr>, gip)" for dx
    by (simp add: gip_create_timer_def assms(2) gip_ex_host_def)
  have n: "RTMpNotificationRegister id reach_ex_ntf 0x7000 0x8000 0x9000 =
      Some (VINF_SUCCESS, reach_ex_ntf\<lparr>ntf_recs := [0x9000 \<mapsto> \<lparr>nr_pfnCallback = 0x7000, nr_pvUser = 0x8000, nr_bmDone = 0xffffffffffffffff\<rparr>],
        ntf_list := [0x9000], ntf_iGeneration := 1\<rparr>)"
    by (simp add: RTMpNotificationRegister_def reach_ex_ntf_def ntf_defs RT_VALID_PTR_def)
  have l: "gip_aCPUs gip \<noteq> []" "length (gip_aCPUs gip) = unat (gip_cCpus gip)" using assms(1) by (simp_all add: gip_ok_def)
  have x: "supdrvGipCpuIndexFromCpuId (\<lambda>_ cs. cs) gip 0 \<noteq> None"
    using CpuIndex_ok [OF assms(1), of 0] assms(3) nth_mem [of 0 "gip_aCPUs gip"] l(1) by (auto split: option.splits)
  then obtain g2 where g2: "gip_init_all gip_ex_host gip [0] = Some g2"
    by (auto simp: MpEventOnline_unfold [OF assms(1)] gip_ex_host_def)
  have h: "gh_OnAll gip_ex_host = (VINF_SUCCESS, [0])" by (simp add: gip_ex_host_def)
  show ?thesis
    unfolding gip_create_rest_def t prod.case n h option.case fst_conv snd_conv g2 Let_def by simp
qed

lemma init_ex: "\<exists>w ntf' fns'. supdrvInitDevExt host_ex gip_ex_host 0x7000 0x8000 0x9000 (0, 0, 0, 0) (0x10, 0x18, 0x18, 0, 0, 0) 64
    supdrv0 reach_ex_ntf [] = Some (VINF_SUCCESS, w, ntf', fns')"
proof -
  have g: "gip_interval 1000000 1000000 = Some 10000000"
    by (simp add: gip_interval.simps)
  let ?m = "host_obj RTR0MEMOBJTYPE_CONT 0x1000 0x70100000 NIL_RTR0PROCESS"
  have h: "gh_ArraySize gip_ex_host = 1" "gh_Granularity gip_ex_host = 1000000"
    by (simp_all add: gip_ex_host_def)
  have e: "w_memobjs supdrv0 = Map.empty" by (simp add: supdrv0_def)
  have i: "\<exists>gip. supdrvGipInit gip_ex_host dx 0x5000000 (gh_NanoTS gip_ex_host) 100 1 =
      Some (dx\<lparr>dx_pGip := Some gip, dx_HCPhysGip := 0x5000000, dx_cGipUsers := 0\<rparr>) \<and> gip_u32Mode gip = SUPGIPMODE_SYNC_TSC \<and>
      gip_ok gip \<and> cpu_idCpu (gip_aCPUs gip ! 0) = NIL_RTCPUID" for dx
    by (rule exI [of _ "the (dx_pGip (the (supdrvGipInit gip_ex_host dx 0x5000000 (gh_NanoTS gip_ex_host) 100 1)))"])
      (simp add: supdrvGipInit_def gip_ok_def gip_init_cpu_def supdrvGipDeterminTscMode_def gip_ex_host_def)
  define w1 where "w1 = set_dx (mem_result (set_dx supdrv0 (\<lambda>_. dx_zero)) [0x100000 \<mapsto> ?m]) (\<lambda>dx. dx\<lparr>dx_GipMemObj := 0x100000\<rparr>)"
  obtain gip where gip: "supdrvGipInit gip_ex_host (w_devext w1) 0x5000000 (gh_NanoTS gip_ex_host) 100 1 =
      Some ((w_devext w1)\<lparr>dx_pGip := Some gip, dx_HCPhysGip := 0x5000000, dx_cGipUsers := 0\<rparr>)" "gip_u32Mode gip = SUPGIPMODE_SYNC_TSC"
      "gip_ok gip" "cpu_idCpu (gip_aCPUs gip ! 0) = NIL_RTCPUID" using i by blast
  let ?gw = "set_dx w1 (\<lambda>_. (w_devext w1)\<lparr>dx_pGip := Some gip, dx_HCPhysGip := 0x5000000, dx_cGipUsers := 0\<rparr>)"
  have "supdrvGipCreate host_ex gip_ex_host 0x7000 0x8000 0x9000 (set_dx supdrv0 (\<lambda>_. dx_zero)) reach_ex_ntf =
      gip_create_rest host_ex gip_ex_host 0x7000 0x8000 0x9000 ?gw gip reach_ex_ntf"
    using gip(1) by (simp add: supdrvGipCreate_def g init_ex_mem [simplified] h e w1_def [symmetric] Let_def)
  then show ?thesis
    using init_ex_rest [OF gip(3,2,4), of ?gw] by (auto simp: supdrvInitDevExt_def Let_def)
qed

lemma reach_ex: "\<exists>w s. drv_inv w \<and> w_sess w = [0x10000 \<mapsto> s] \<and> w_objs w = Map.empty \<and> w_imgs w = Map.empty"
proof -
  obtain w ntf' fns' where l: "supdrvInitDevExt host_ex gip_ex_host 0x7000 0x8000 0x9000 (0, 0, 0, 0) (0x10, 0x18, 0x18, 0, 0, 0) 64
    supdrv0 reach_ex_ntf [] = Some (VINF_SUCCESS, w, ntf', fns')" using init_ex by blast
  have a: "0 < unat (gh_ArraySize gip_ex_host)" by (simp add: gip_ex_host_def)
  have st: "drv_start w" by (rule supdrvInitDevExt_start [OF l _ host_ex_ok(1) a]) simp
  note i = drv_start_inv [OF st]
  note S = st [unfolded drv_start_def]
  obtain rc p w' where c: "supdrvCreateSession 0x10000 0 True 0 (7, 0x1234) True w = (rc, p, w')" by (metis surj_pair)
  have n: "(0x10000 :: addr) = 0 \<or> RT_VALID_PTR 0x10000 \<and> w_sess w 0x10000 = None" "card (dom (w_sess w)) + 1 < 2 ^ 32"
    using S by (simp_all add: RT_VALID_PTR_def)
  have rc: "rc = VINF_SUCCESS" "w_objs w' = w_objs w" "w_imgs w' = w_imgs w"
    using c by (auto simp: supdrvCreateSession_def RTHandleTableCreateEx_init split: if_splits prod.splits)
  have d: "drv_inv w'" "dom (w_sess w') = {0x10000}" using CreateSession_drv [OF i n c] rc(1) S by simp_all
  obtain s where s: "w_sess w' 0x10000 = Some s" using d(2) by blast
  have "w_sess w' = [0x10000 \<mapsto> s]" using s d(2) by (fastforce simp: fun_eq_iff dom_def)
  then show ?thesis
    using d(1) rc(2,3) S by (intro exI [of _ w'] exI [of _ s]) simp
qed

lemma host_ex_frees: "\<forall>n. hst_Free host_ex n = VINF_SUCCESS"
  by (simp add: host_ex_def)

text \<open>A request to connect, in an environment where nothing can be allocated.\<close>

definition reach_ex_env :: ioc_env where
  "reach_ex_env = \<lparr>env_hst = host_ex, env_gh = gip_ex_host, env_idCpu = 0,
     env_cpu = \<lparr>cpu_cr0 = 0x80000001, cpu_cr4 = 0x20, cpu_fHasCpuId = True, cpu_id = (\<lambda>_. (0, 0, 0, 0)), cpu_msr = (\<lambda>_. 0)\<rparr>,
     env_lg = \<lparr>lg_Flags = (\<lambda>_ _. 0), lg_Groups = (\<lambda>_ _. 0), lg_Create = (\<lambda>_ _. (VERR_NO_MEMORY, 0)), lg_Destroy = (\<lambda>_. 0)\<rparr>,
     env_aFunctions = [], env_buf = 0x50000, env_local = 0x60000, env_os = linux_osldr, env_pNew = 0,
     env_pvExec = 0, env_fMem = False, env_fMem1 = False, env_fMem2 = False, env_fAlloc = False, env_rcInit = 0, env_rcLock = 0,
     env_VMMR0EntryEx = (\<lambda>f v i u pkt a s w. (VERR_NOT_SUPPORTED, pkt, w)), env_Service = (\<lambda>_ _ _ _. 0), env_pfnSemDtor = (\<lambda>_. 0x7100),
     env_SemCreate = (VERR_NO_MEMORY, 0), env_SemOp = (\<lambda>_ w. (0, w)), env_SemWait = (\<lambda>_ _ _ w. (0, w)), env_Resolution = (\<lambda>_. 1)\<rparr>"

definition reach_ex_req :: "u8 list" where
  "reach_ex_req = [0x74, 0x6f, 0x72, 0x69] @ [0, 0, 0, 0] @ [48, 0, 0, 0] @ [56, 0, 0, 0] @ [0x42, 0, 0, 0x42] @ [0, 0, 0, 0] @
     [0x54, 0x68, 0x65, 0x20, 0x4d, 0x61, 0x67, 0x69, 0x63, 0x20, 0x57, 0x6f, 0x72, 0x64, 0x21, 0] @ [0, 0, 0x19, 0] @ [0, 0, 0x19, 0] @
     replicate 8 0"

definition reach_ex_hdr :: SUPREQHDR where
  "reach_ex_hdr = \<lparr>hdr_u32Cookie = 0x69726f74, hdr_u32SessionCookie = 0, hdr_cbIn = 48, hdr_cbOut = 56, hdr_fFlags = 0x42000042\<rparr>"

lemma reach_ex_buf: "buf_ok reach_ex_env reach_ex_hdr reach_ex_req" "length reach_ex_req = 56"
  by (simp_all add: buf_ok_def reach_ex_env_def reach_ex_hdr_def reach_ex_req_def get_hdr_def get32_def copy_bytes_def le_word_def)

lemma reach_ex_env_fits:
  assumes "drv_inv w" "w_objs w = Map.empty" "w_imgs w = Map.empty"
  shows "env_fits reach_ex_env w" "counts_fit w" "env_ok reach_ex_env"
proof -
  show "env_fits reach_ex_env w"
    using host_ex_ok(1) host_ex_frees assms by (simp add: env_fits_def reach_ex_env_def sem_prim_fits_def)
  have "total_refs w p = 0" for p using obj_dom_refs [OF drv_invD(2) [OF assms(1)], of p] assms(2) by simp
  then show "counts_fit w" using assms(3) by (simp add: counts_fit_def obj_room_def ldr_room_def)
  show "env_ok reach_ex_env" by (simp add: env_ok_def reach_ex_env_def)
qed

definition reach_ex_log :: logstate where
  "reach_ex_log = \<lparr>log_debug = 0, log_release = 0x20000, log_destroyed = []\<rparr>"

lemma reach_ex_overrun:
  assumes "w_imgs w = Map.empty"
  shows "\<not> ioc_overrun env uIOCtl w s hdr b"
  using assms by (simp add: ioc_overrun_def ldr_overrun_def)


end
