(* ===== verification/SupIocType.thy ===== *)
theory SupIocType
  imports SupReach
begin

unbundle bit_operations_syntax

text \<open>
  What the validation of a control request promises to the code that executes it: every field of an
  accepted request is of the type the executing function takes for granted. Strings end inside their
  fields, names have no character with a meaning to a file system or a shell, sizes and offsets are whole pages,
  tables lie inside the image they come with, and reserved fields are clear.
\<close>

definition req_typed :: "ioc_req \<Rightarrow> bool" where
  "req_typed req =
     (case req of
        IocCookie szMagic _ \<Rightarrow> length szMagic = 16
      | IocLdrOpen q \<Rightarrow>
          0 < lo_cbImageBits q \<and> lo_cbImageBits q < lo_cbImageWithTabs q \<and> lo_cbImageWithTabs q < 0x1000000 \<and>
          length (lo_szName q) = 32 \<and> 0 < length (cstr (lo_szName q)) \<and> length (cstr (lo_szName q)) < 32 \<and>
          set (cstr (lo_szName q)) \<inter> set (cstr ldr_bad_chars) = {}
      | IocLdrLoad q \<Rightarrow> load_req_ok q \<and> unat (ll_cSymbols q) \<le> 16384
      | IocLdrGetSymbol _ sz \<Rightarrow> length sz = 64 \<and> length (cstr sz) < 64
      | IocCallService sz _ _ _ \<Rightarrow> length sz = 28 \<and> length (cstr sz) < 28
      | IocSetVmForFast pv \<Rightarrow> pv = 0 \<or> RT_VALID_PTR pv \<and> pv AND 0xfff = 0
      | IocPageAllocEx _ _ fUser \<Rightarrow> fUser
      | IocPageMapKernel _ off cb fl \<Rightarrow> off AND 0xfff = 0 \<and> cb AND 0xfff = 0 \<and> cb \<noteq> 0 \<and> fl = 0
      | IocPageProtect _ _ off cb prot \<Rightarrow> off AND 0xfff = 0 \<and> cb AND 0xfff = 0 \<and> cb \<noteq> 0 \<and> prot AND NOT 7 = 0
      | IocPageLock pv cPages \<Rightarrow> 0 < cPages \<and> PAGE_SIZE \<le> pv
      | IocLoggerSettings fWhich fWhat sz a b c \<Rightarrow>
          fWhich \<le> 1 \<and> fWhat \<le> 2 \<and> sz \<noteq> [] \<and> last sz = 0 \<and> unat a < length sz \<and> unat b < length sz \<and> unat c < length sz
      | IocSemOp3 uType hSem uOp \<Rightarrow> uType \<le> 1 \<longrightarrow> uOp \<le> 1 \<longrightarrow> hSem = 0
      | _ \<Rightarrow> True)"

lemma str_field: "RTStrEnd sz n = Some y \<Longrightarrow> length (cstr sz) < n"
  using RTStrEnd_Some(1,5) by fastforce

lemma bad_char_free: "\<not> supdrvCheckInvalidChar sz bad \<Longrightarrow> set (cstr sz) \<inter> set (cstr bad) = {}"
  by (auto simp: supdrvCheckInvalidChar_def list_ex_iff)

lemma cstr_start: "sz ! 0 \<noteq> 0 \<Longrightarrow> length sz = 32 \<Longrightarrow> cstr sz \<noteq> []"
  by (cases sz) (simp_all add: cstr_def)

lemma copy_length: "copy_bytes b i n = Some x \<Longrightarrow> length x = n"
  by (auto simp: copy_bytes_def split: if_splits)

lemma ldr_open_typed: "ioc_ldr_open hdr b = Some (IocOk req) \<Longrightarrow> req_typed req"
  unfolding ioc_ldr_open_def
  by (auto simp: req_typed_def dest!: checksD checkD bad_char_free copy_length str_field dest: cstr_start split: bind_splits)

lemma small_typed:
  "ioc_cookie hdr b = Some (IocOk req) \<Longrightarrow> req_typed req"
  "ioc_query_funcs n hdr b = Some (IocOk req) \<Longrightarrow> req_typed req"
  "ioc_ldr_free hdr b = Some (IocOk req) \<Longrightarrow> req_typed req"
  "ioc_ldr_get_symbol hdr b = Some (IocOk req) \<Longrightarrow> req_typed req"
  "ioc_cont_alloc hdr b = Some (IocOk req) \<Longrightarrow> req_typed req"
  "ioc_low_alloc hdr b = Some (IocOk req) \<Longrightarrow> req_typed req"
  "ioc_set_vm hdr b = Some (IocOk req) \<Longrightarrow> req_typed req"
  "ioc_sem_op2 hdr b = Some (IocOk req) \<Longrightarrow> req_typed req"
  "ioc_sem_op3 hdr b = Some (IocOk req) \<Longrightarrow> req_typed req"
  unfolding ioc_cookie_def ioc_query_funcs_def ioc_ldr_free_def ioc_ldr_get_symbol_def ioc_cont_alloc_def
    ioc_low_alloc_def ioc_set_vm_def ioc_sem_op2_def ioc_sem_op3_def
  by (auto simp: req_typed_def dest!: checksD checkD copy_length str_field split: bind_splits)

lemma page_typed:
  "ioc_page_map_kernel hdr b = Some (IocOk req) \<Longrightarrow> req_typed req"
  "ioc_page_protect hdr b = Some (IocOk req) \<Longrightarrow> req_typed req"
  "ioc_page_lock hdr b = Some (IocOk req) \<Longrightarrow> req_typed req"
  "ioc_page_alloc_ex hdr b = Some (IocOk req) \<Longrightarrow> req_typed req"
  unfolding ioc_page_map_kernel_def ioc_page_protect_def ioc_page_lock_def ioc_page_alloc_ex_def
  by (auto simp: req_typed_def dest!: checksD checkD split: bind_splits)

lemma packet_k: "ioc_packet hdr b pkt magic k = Some (IocOk req) \<Longrightarrow> k = Some (IocOk req)"
  unfolding ioc_packet_def by (auto dest!: checksD checkD split: bind_splits)

lemma call_typed:
  "ioc_call_vmmr0 hdr b = Some (IocOk req) \<Longrightarrow> req_typed req"
  "ioc_call_vmmr0_big hdr b = Some (IocOk req) \<Longrightarrow> req_typed req"
  "ioc_call_service hdr b = Some (IocOk req) \<Longrightarrow> req_typed req"
  unfolding ioc_call_vmmr0_def ioc_call_vmmr0_big_def ioc_call_service_def ioc_call_args_def ioc_service_args_def
  by (auto simp: req_typed_def dest!: packet_k checksD checkD copy_length str_field split: bind_splits if_splits)

lemma logger_typed:
  assumes "ioc_logger hdr b = Some (IocOk req)"
  shows "req_typed req"
proof -
  let ?n = "unat (ucast (hdr_cbIn hdr) - 44 :: u64)"
  have l: "last x = 0" "length x = ?n" if c: "copy_bytes b 44 ?n = Some x" and g: "get8 b (44 + unat (ucast (hdr_cbIn hdr) - 45 :: u64)) = Some 0"
      and h: "45 \<le> hdr_cbIn hdr" for x
  proof -
    have k: "45 \<le> unat (hdr_cbIn hdr)" using h by (simp add: word_le_nat_alt)
    have n: "?n = unat (hdr_cbIn hdr) - 44" "unat (ucast (hdr_cbIn hdr) - 45 :: u64) = unat (hdr_cbIn hdr) - 45"
      using k by (simp_all add: unat_sub_if' unat_ucast_u32)
    have x: "x = take ?n (drop 44 b)" "44 + ?n \<le> length b" using c by (auto simp: copy_bytes_def split: if_splits)
    then have "last x = b ! (44 + (?n - 1))" using k n by (simp add: last_conv_nth)
    then show "last x = 0" "length x = ?n" using g k n x by (auto simp: get8_def split: if_splits)
  qed
  have e: "copy_bytes b 44 ?n \<noteq> Some []" if "unat d < ?n" for d :: u32 using that copy_length by fastforce
  show ?thesis
    using assms unfolding ioc_logger_def Let_def
    by (auto simp: req_typed_def word_less_nat_alt unat_ucast_u32 l e dest!: checksD checkD split: bind_splits if_splits)
qed

lemma load_typed:
  assumes "ioc_ldr_load hdr b = Some (IocOk req)" "unat (hdr_cbIn hdr) \<le> length b" "length b \<le> 0x1000000"
  shows "req_typed req"
proof -
  have "\<exists>q. req = IocLdrLoad q \<and> ll_cSymbols q \<le> 16384"
    using assms(1) unfolding ioc_ldr_load_def by (auto dest!: checksD checkD split: bind_splits)
  then show ?thesis using ioc_ldr_load_ok [OF assms(2,3)] assms(1) by (auto simp: req_typed_def word_le_nat_alt)
qed

lemma addr_typed: "ioc_addr_only f hdr b = Some (IocOk req) \<Longrightarrow> (\<And>pv. req_typed (f pv)) \<Longrightarrow> req_typed req"
  unfolding ioc_addr_only_def by (auto dest!: checksD)

lemma parse_typed:
  assumes "ioc_parse n uIOCtl hdr b = Some (IocOk req)" "unat (hdr_cbIn hdr) \<le> length b" "length b \<le> 0x1000000"
  shows "req_typed req"
proof -
  have e: "REQ_CHECK_SIZES hdr (Some 24) (Some m) (Some (IocOk q)) = Some (IocOk req) \<Longrightarrow> req_typed q \<Longrightarrow> req_typed req"
    "REQ_CHECK_SIZES hdr (Some 24) (Some m) (REQ_CHECK_EXPR t (Some (IocOk q))) = Some (IocOk req) \<Longrightarrow> req_typed q \<Longrightarrow> req_typed req" for m t q
    by (auto dest!: checksD checkD)
  have a: "req_typed (IocPageUnlock pv)" "req_typed (IocContFree pv)" "req_typed (IocLowFree pv)" "req_typed (IocPageFree pv)" for pv
    by (simp_all add: req_typed_def)
  have k: "req_typed IocGetPagingMode" "req_typed IocGipMap" "req_typed IocGipUnmap" "req_typed IocVtCaps" by (simp_all add: req_typed_def)
  note oks = small_typed page_typed ldr_open_typed call_typed logger_typed load_typed [OF _ assms(2,3)] addr_typed [OF _ a(1)]
    addr_typed [OF _ a(2)] addr_typed [OF _ a(3)] addr_typed [OF _ a(4)] e(1) [OF _ k(1)] e(1) [OF _ k(2)] e(1) [OF _ k(3)] e(2) [OF _ k(4)]
  show ?thesis using assms(1) unfolding ioc_parse_def Let_def by (elim if_someE oks) simp
qed

text \<open>
  C12: the validation of a request always answers, without reading outside of the buffer, and what it
  accepts is well typed and has room for its answer in the buffer.
\<close>

theorem ioc_parse_typed:
  assumes "buf_ok env hdr b" "24 \<le> hdr_room hdr"
  shows "\<exists>c. ioc_parse (length (env_aFunctions env)) uIOCtl hdr b = Some c \<and>
    (\<forall>req. c = IocOk req \<longrightarrow> req_typed req \<and> req_room (length (env_aFunctions env)) hdr req \<le> length b)"
proof -
  have b: "unat (hdr_cbIn hdr) \<le> length b" "length b \<le> 0x1000000" "length (env_aFunctions env) < 2 ^ 32" "hdr_room hdr \<le> length b"
    using assms(1) by (simp_all add: buf_ok_def)
  obtain c where c: "ioc_parse (length (env_aFunctions env)) uIOCtl hdr b = Some c" using ioc_parse_ok [OF b(1,2)] by blast
  have "req_typed req \<and> req_room (length (env_aFunctions env)) hdr req \<le> length b" if "c = IocOk req" for req
    using parse_typed [OF _ b(1,2)] parse_room [OF _ assms(2) b(3)] c that b(4) order_trans by blast
  then show ?thesis using c by blast
qed

subsection \<open>Witness\<close>

lemma cookie_ex_parse: "\<exists>req. ioc_parse n SUP_IOCTL_COOKIE reach_ex_hdr reach_ex_req = Some (IocOk req)"
  by (simp add: ioc_parse_def ioc_defs SUP_CTL_CODE_SIZE_def SUP_CTL_CODE_NO_SIZE_def reach_ex_hdr_def reach_ex_req_def get32_def
      copy_bytes_def)

theorem ioc_parse_typed_witness:
  "\<exists>req. ioc_parse (length (env_aFunctions reach_ex_env)) SUP_IOCTL_COOKIE reach_ex_hdr reach_ex_req = Some (IocOk req) \<and> req_typed req"
proof -
  have "24 \<le> hdr_room reach_ex_hdr" by (simp add: reach_ex_hdr_def)
  from ioc_parse_typed [OF reach_ex_buf(1) this, of SUP_IOCTL_COOKIE] cookie_ex_parse show ?thesis by fastforce
qed

end
