(* ===== verification/SupLinux.thy ===== *)
theory SupLinux
  imports SupReach
begin

unbundle bit_operations_syntax

text \<open>
  The Linux glue (linux/SUPDrv-linux.c): opening and closing the device and the entry points for the
  control requests, which bring the request into a kernel buffer and the answer back. A user
  process can change its memory at any time, so both fetches have their own result.
\<close>

subsection \<open>Error codes\<close>

definition VBoxDrvLinuxErr2LinuxErr :: "status \<Rightarrow> int" where
  "VBoxDrvLinuxErr2LinuxErr rc =
     (if rc = VINF_SUCCESS then 0
      else if rc = VERR_GENERAL_FAILURE then -13
      else if rc = VERR_INVALID_PARAMETER then -22
      else if rc = VERR_INVALID_MAGIC then -84
      else if rc = VERR_INVALID_HANDLE then -6
      else if rc = VERR_INVALID_POINTER then -14
      else if rc = -5 then -37
      else if rc = VERR_ALREADY_LOADED then -17
      else if rc = VERR_PERMISSION_DENIED then -1
      else if rc = VERR_VERSION_MISMATCH then -38
      else if rc = -7 then -1000
      else -1)"

subsection \<open>Opening and closing\<close>

text \<open>
  \<open>hard\<close> is the effective user when the driver is built with hardening. The last result but one is
  \<open>pFilp->private_data\<close>.
\<close>

definition VBoxDrvLinuxCreate ::
  "u32 option \<Rightarrow> u32 \<Rightarrow> u32 \<Rightarrow> addr \<Rightarrow> status \<Rightarrow> bool \<Rightarrow> status \<Rightarrow> u32 \<times> addr \<Rightarrow> supdrv \<Rightarrow> int \<times> addr option \<times> supdrv" where
  "VBoxDrvLinuxCreate hard uid gid pNew rcSpinlock fMem rcLock procs w =
     (if hard \<noteq> None \<and> hard \<noteq> Some 0 then (-1, None, w)
      else
        (case supdrvCreateSession pNew rcSpinlock fMem rcLock procs True w of (rc, p, w1) \<Rightarrow>
           (VBoxDrvLinuxErr2LinuxErr rc, Some p,
            if rc = 0 then (case w_sess w1 p of None \<Rightarrow> w1 | Some s \<Rightarrow> set_sess w1 p (s\<lparr>ses_Uid := uid, ses_Gid := gid\<rparr>)) else w1)))"

definition VBoxDrvLinuxClose :: "r0host \<Rightarrow> supdrv \<Rightarrow> addr \<Rightarrow> (int \<times> supdrv) option" where
  "VBoxDrvLinuxClose hst w pSession = map_option (\<lambda>w1. (0, w1)) (supdrvCloseSession hst w pSession)"

subsection \<open>Control requests\<close>

text \<open>
  What the process and the kernel allocator answer: the header of the first fetch, the request of
  the second one for a size, and the contents of a new heap block. \<open>None\<close> is a fault or a lack of memory.
\<close>

record lxuser =
  lx_hdr :: "u8 list option"
  lx_in :: "nat \<Rightarrow> u8 list option"
  lx_Alloc :: "nat \<Rightarrow> u8 list option"
  lx_fOut :: bool

type_synonym lx_result = "(int \<times> u8 list \<times> supdrv \<times> logstate) option"

text \<open>
  The results are the answer of the call and the bytes copied to the process; \<open>None\<close> is an access
  outside of the buffer, or one of \<open>supdrvIOCtl\<close>.
\<close>

definition VBoxDrvLinuxIOCtlSlow :: "lxuser \<Rightarrow> ioc_env \<Rightarrow> u32 \<Rightarrow> supdrv \<Rightarrow> logstate \<Rightarrow> addr \<Rightarrow> lx_result" where
  "VBoxDrvLinuxIOCtlSlow u env uCmd w l pSession =
     (case lx_hdr u of
        None \<Rightarrow> Some (-14, [], w, l)
      | Some h \<Rightarrow> do {
          Hdr \<leftarrow> get_hdr h;
          if hdr_fFlags Hdr AND 0xff0000ff \<noteq> 0x42000042 then Some (-22, [], w, l)
          else
            let cbBuf = max (hdr_cbIn Hdr) (hdr_cbOut Hdr); cbCmd = drop_bit 16 uCmd AND 0x3fff
            in if 0x1000000 < cbBuf then Some (-7, [], w, l)
               else if cbBuf \<noteq> cbCmd \<and> cbCmd \<noteq> 0 then Some (-22, [], w, l)
               else
                 (case lx_Alloc u (unat cbBuf) of
                    None \<Rightarrow> Some (-12, [], w, l)
                  | Some m \<Rightarrow>
                      (case lx_in u (unat (hdr_cbIn Hdr)) of
                         None \<Rightarrow> Some (-14, [], w, l)
                       | Some bs \<Rightarrow> do {
                           b \<leftarrow> put m 0 bs;
                           (rc, b1, w1, l1) \<leftarrow> supdrvIOCtl env (ucast uCmd) w l pSession b;
                           if rc = 0 then do {
                             cbOut \<leftarrow> get32 b1 12;
                             out \<leftarrow> copy_bytes b1 0 (unat (if cbBuf < cbOut then cbBuf else cbOut));
                             Some (if lx_fOut u then (0, out, w1, l1) else (-14, [], w1, l1)) }
                           else Some (-22, [], w1, l1) })) })"

text \<open>
  The fast requests: \<open>run\<close> is what the entry point of the VMM does to the driver. Their answer is
  the status of \<open>supdrvIOCtlFast\<close>.
\<close>

definition VBoxDrvLinuxIOCtl ::
  "lxuser \<Rightarrow> ioc_env \<Rightarrow> (addr \<times> addr \<times> u32 \<times> u32 \<Rightarrow> supdrv \<Rightarrow> supdrv) \<Rightarrow> u32 \<Rightarrow> u64 \<Rightarrow> supdrv \<Rightarrow> logstate \<Rightarrow> addr \<Rightarrow> lx_result" where
  "VBoxDrvLinuxIOCtl u env run uCmd ulArg w l pSession =
     (if ucast uCmd = SUP_CTL_CODE_FAST 64 \<or> ucast uCmd = SUP_CTL_CODE_FAST 65 \<or> ucast uCmd = SUP_CTL_CODE_FAST 66 then
        map_option (\<lambda>(rc, call). (rc, [], (case call of None \<Rightarrow> w | Some c \<Rightarrow> run c w), l))
          (supdrvIOCtlFast (ucast uCmd) (ucast ulArg) w pSession)
      else VBoxDrvLinuxIOCtlSlow u env uCmd w l pSession)"

subsection \<open>Sessions\<close>

lemma set_ids_drv:
  assumes "drv_inv w" "w_sess w p = Some s"
  shows "drv_inv (set_sess w p (s\<lparr>ses_Uid := uid, ses_Gid := gid\<rparr>))"
proof -
  let ?w = "set_sess w p (s\<lparr>ses_Uid := uid, ses_Gid := gid\<rparr>)"
  have v: "sess_view f ?w = sess_view f w" if "f (s\<lparr>ses_Uid := uid, ses_Gid := gid\<rparr>) = f s" for f :: "SUPDRVSESSION \<Rightarrow> 'z"
    using that assms(2) by (auto simp: sess_view_def fun_eq_iff)
  show ?thesis by (rule drv_inv_views [OF assms(1)]) (simp_all add: drv_views v)
qed

text \<open>Opening the device gives a new session to the process, or an error and nothing else.\<close>

lemma LinuxCreate_drv:
  assumes "drv_inv w" "pNew = 0 \<or> RT_VALID_PTR pNew \<and> w_sess w pNew = None" "card (dom (w_sess w)) + 1 < 2 ^ 32"
    "VBoxDrvLinuxCreate hard uid gid pNew rcSpinlock fMem rcLock procs w = (rc, p, w')"
  shows "drv_inv w' \<and> (if rc = 0 then p = Some pNew \<and> dom (w_sess w') = insert pNew (dom (w_sess w)) else w' = w)"
proof (cases "hard \<noteq> None \<and> hard \<noteq> Some 0")
  case True
  then show ?thesis using assms(1,4) by (auto simp: VBoxDrvLinuxCreate_def)
next
  case False
  obtain rc1 p1 w1 where c: "supdrvCreateSession pNew rcSpinlock fMem rcLock procs True w = (rc1, p1, w1)" by (metis surj_pair)
  note C = CreateSession_drv [OF assms(1-3) c]
  have e: "VBoxDrvLinuxErr2LinuxErr rc1 = 0 \<longleftrightarrow> rc1 = 0" by (simp add: VBoxDrvLinuxErr2LinuxErr_def)
  show ?thesis
  proof (cases "rc1 = 0")
    case True
    then obtain s where s: "p1 = pNew" "w_sess w1 pNew = Some s" using C by auto
    then have "rc = 0" "p = Some pNew" "w' = set_sess w1 pNew (s\<lparr>ses_Uid := uid, ses_Gid := gid\<rparr>)"
      using assms(4) False c True e by (auto simp: VBoxDrvLinuxCreate_def)
    then show ?thesis using set_ids_drv [OF conjunct1 [OF C] s(2)] C True by auto
  next
    case f: False
    then have "rc \<noteq> 0" "w' = w1" using assms(4) False c e by (auto simp: VBoxDrvLinuxCreate_def)
    then show ?thesis using C f assms(1) by simp
  qed
qed

subsection \<open>Requests that do not change under way\<close>

text \<open>What the copies and the allocator guarantee, and a process that leaves its request alone.\<close>

definition lx_ok :: "lxuser \<Rightarrow> bool" where
  "lx_ok u \<longleftrightarrow> (\<forall>h. lx_hdr u = Some h \<longrightarrow> length h = 24) \<and> (\<forall>n bs. lx_in u n = Some bs \<longrightarrow> length bs = n) \<and>
     (\<forall>n m. lx_Alloc u n = Some m \<longrightarrow> length m = n)"

definition lx_same :: "lxuser \<Rightarrow> bool" where
  "lx_same u \<longleftrightarrow> (\<forall>h n bs. lx_hdr u = Some h \<longrightarrow> lx_in u n = Some bs \<longrightarrow> take n h = take 24 bs)"

text \<open>
  The buffer the driver gets overruns: its request opens an image with a name that overruns that of a loaded one.
\<close>

definition lx_overrun :: "lxuser \<Rightarrow> ioc_env \<Rightarrow> u32 \<Rightarrow> supdrv \<Rightarrow> SUPDRVSESSION \<Rightarrow> bool" where
  "lx_overrun u env uCmd w s \<longleftrightarrow> (\<exists>h hdr m bs. lx_hdr u = Some h \<and> get_hdr h = Some hdr \<and>
     lx_Alloc u (unat (max (hdr_cbIn hdr) (hdr_cbOut hdr))) = Some m \<and> lx_in u (unat (hdr_cbIn hdr)) = Some bs \<and>
     ioc_overrun env (ucast uCmd) w s hdr (bs @ drop (length bs) m))"

lemma get32_prefix:
  assumes "take n b = take n c" "n \<le> length b" "n \<le> length c" "i + 4 \<le> n"
  shows "get32 b i = get32 c i"
proof -
  have t: "take 4 (drop i x) = drop i (take (i + 4) (take n x))" for x :: "u8 list"
    using assms(4) by (simp add: min_def take_drop add.commute)
  show ?thesis
    using assms(2-4) t [of b] t [of c] assms(1) by (simp add: get32_def copy_bytes_def)
qed

lemma get_hdr_prefix:
  assumes "take 24 b = take 24 c" "24 \<le> length b" "24 \<le> length c"
  shows "get_hdr b = get_hdr c"
  using get32_prefix [OF assms] by (simp add: get_hdr_def)

lemma get_hdr_some: "24 \<le> length b \<Longrightarrow> \<exists>hdr. get_hdr b = Some hdr"
  by (simp add: get_hdr_def get32_def copy_bytes_def)

lemma put_start: "length bs \<le> length m \<Longrightarrow> put m 0 bs = Some (bs @ drop (length bs) m)"
  by (simp add: put_def)

lemma IOCtlSlow_ok:
  assumes "drv_inv w" "w_sess w sp = Some s" "env_fits env w" "counts_fit w" "env_ok env" "length (env_aFunctions env) < 2 ^ 32"
    "lx_ok u" "lx_same u" "\<forall>h hdr. lx_hdr u = Some h \<longrightarrow> get_hdr h = Some hdr \<longrightarrow> 24 \<le> hdr_cbIn hdr"
    "\<not> lx_overrun u env uCmd w s"
  shows "\<exists>rc out w' l'. VBoxDrvLinuxIOCtlSlow u env uCmd w l sp = Some (rc, out, w', l') \<and> kept w w' \<and>
    (rc \<noteq> 0 \<longrightarrow> out = [] \<and> (lx_fOut u \<longrightarrow> w' = w \<and> l' = l))"
proof (cases "lx_hdr u")
  case None
  then show ?thesis using kept_self [OF assms(1)] by (simp add: VBoxDrvLinuxIOCtlSlow_def)
next
  case (Some h)
  have lh: "length h = 24" using assms(7) Some by (simp add: lx_ok_def)
  then obtain hdr where hdr: "get_hdr h = Some hdr" using get_hdr_some [of h] by auto
  have in24: "24 \<le> hdr_cbIn hdr" by (rule assms(9) [rule_format, OF Some hdr])
  let ?n = "max (hdr_cbIn hdr) (hdr_cbOut hdr)" let ?c = "drop_bit 16 uCmd AND 0x3fff"
  note def = VBoxDrvLinuxIOCtlSlow_def Some hdr
  show ?thesis
  proof (cases "hdr_fFlags hdr AND 0xff0000ff = 0x42000042 \<and> \<not> 0x1000000 < ?n \<and> \<not> (?n \<noteq> ?c \<and> ?c \<noteq> 0)")
    case False
    then show ?thesis using kept_self [OF assms(1)] by (auto simp: def Let_def)
  next
    case True
    show ?thesis
    proof (cases "lx_Alloc u (unat ?n) = None \<or> lx_in u (unat (hdr_cbIn hdr)) = None")
      case n: True
      then show ?thesis using True kept_self [OF assms(1)] by (auto simp: def Let_def split: option.split)
    next
      case False
      then obtain m bs where m: "lx_Alloc u (unat ?n) = Some m" and bs: "lx_in u (unat (hdr_cbIn hdr)) = Some bs" by auto
      have len: "length m = unat ?n" "length bs = unat (hdr_cbIn hdr)" using assms(7) m bs by (auto simp: lx_ok_def)
      have le: "unat (hdr_cbIn hdr) \<le> unat ?n" "unat (hdr_cbOut hdr) \<le> unat ?n" by (simp_all add: unat_mono max_def word_le_nat_alt)
      define b where b: "b = bs @ drop (length bs) m"
      have put: "put m 0 bs = Some b" unfolding b by (rule put_start) (use len le in simp)
      have lb: "length b = unat ?n" using len le by (simp add: b)
      have n24: "24 \<le> unat (hdr_cbIn hdr)" using in24 by (simp add: word_le_nat_alt)
      have "take (unat (hdr_cbIn hdr)) h = take 24 bs" using assms(8) Some bs unfolding lx_same_def by blast
      then have "take 24 b = take 24 h" using n24 len(2) lh by (simp add: b)
      then have hb: "get_hdr b = Some hdr" using get_hdr_prefix [of b h] hdr lb le n24 lh by simp
      have "unat ?n \<le> 0x1000000" using True by (simp add: not_less word_le_nat_alt)
      then have buf: "buf_ok env hdr b" using hb lb le assms(6) by (simp add: buf_ok_def)
      have no: "\<not> ioc_overrun env (ucast uCmd) w s hdr b" using assms(10) Some hdr m bs unfolding lx_overrun_def b by blast
      from supdrvIOCtl_ok [OF assms(1-5) buf no, of l] obtain rc b1 w1 l1 where
        r: "supdrvIOCtl env (ucast uCmd) w l sp b = Some (rc, b1, w1, l1)" "length b1 = length b" "kept w w1"
          "rc \<noteq> 0 \<longrightarrow> w1 = w \<and> l1 = l" by blast
      obtain cb where cb: "get32 b1 12 = Some cb" using r(2) lb le n24 by (simp add: get32_def copy_bytes_def)
      have "unat (if ?n < cb then ?n else cb) \<le> length b1" using r(2) lb by (simp add: word_less_nat_alt)
      then obtain out where out: "copy_bytes b1 0 (unat (if ?n < cb then ?n else cb)) = Some out" by (simp add: copy_bytes_def)
      have "VBoxDrvLinuxIOCtlSlow u env uCmd w l sp =
          Some (if rc = 0 then if lx_fOut u then (0, out, w1, l1) else (-14, [], w1, l1) else (-22, [], w1, l1))"
        using True m bs put r(1) cb out by (auto simp: def Let_def)
      then show ?thesis using r(3,4) by (auto split: if_splits)
    qed
  qed
qed

text \<open>Whatever the process does to its memory meanwhile: what is done at all keeps the invariant.\<close>

lemma IOCtlSlow_some:
  assumes "drv_inv w" "w_sess w sp = Some s" "env_fits env w" "counts_fit w" "lx_ok u"
    "VBoxDrvLinuxIOCtlSlow u env uCmd w l sp = Some (rc, out, w', l')"
  shows "kept w w' \<and> (rc \<noteq> 0 \<longrightarrow> out = [] \<and> (lx_fOut u \<longrightarrow> w' = w \<and> l' = l))"
proof (cases "out = [] \<and> w' = w \<and> l' = l")
  case True
  then show ?thesis using kept_self [OF assms(1)] by simp
next
  case False
  obtain h hdr where hdr: "lx_hdr u = Some h" "get_hdr h = Some hdr"
    using assms(6) False by (auto simp: VBoxDrvLinuxIOCtlSlow_def split: option.splits bind_splits)
  let ?n = "max (hdr_cbIn hdr) (hdr_cbOut hdr)"
  have le: "?n \<le> 0x1000000"
    using assms(6) False hdr by (auto simp: VBoxDrvLinuxIOCtlSlow_def Let_def not_less split: if_splits)
  obtain m bs b where b: "lx_Alloc u (unat ?n) = Some m" "lx_in u (unat (hdr_cbIn hdr)) = Some bs" "put m 0 bs = Some b"
    using assms(6) False hdr by (auto simp: VBoxDrvLinuxIOCtlSlow_def Let_def split: if_splits option.splits bind_splits)
  obtain rc1 b1 where r: "supdrvIOCtl env (ucast uCmd) w l sp b = Some (rc1, b1, w', l')" "rc \<noteq> 0 \<longrightarrow> out = [] \<and> (lx_fOut u \<longrightarrow> rc1 \<noteq> 0)"
    using assms(6) False hdr b by (auto simp: VBoxDrvLinuxIOCtlSlow_def Let_def split: if_splits bind_splits)
  have "length b = unat ?n" using put_length [OF b(3)] b(1) assms(5) by (auto simp: lx_ok_def)
  then have "length b \<le> 0x1000000" using le by (simp add: word_le_nat_alt)
  from supdrvIOCtl_some [OF assms(1-4) this r(1)] show ?thesis using r(2) by blast
qed

text \<open>
  A request that says both its sizes are less than those of a header makes the driver read the header behind the
  end of the buffer: only the upper bound of the sizes is checked on the way.
\<close>

lemma VBoxDrvLinuxIOCtlSlow_short:
  assumes "lx_ok u" "lx_hdr u = Some h" "get_hdr h = Some hdr" "hdr_fFlags hdr AND 0xff0000ff = 0x42000042"
    "hdr_cbIn hdr < 20" "hdr_cbOut hdr < 20" "drop_bit 16 uCmd AND 0x3fff = 0"
    "lx_Alloc u (unat (max (hdr_cbIn hdr) (hdr_cbOut hdr))) = Some m" "lx_in u (unat (hdr_cbIn hdr)) = Some bs"
  shows "VBoxDrvLinuxIOCtlSlow u env uCmd w l sp = None"
proof -
  let ?n = "max (hdr_cbIn hdr) (hdr_cbOut hdr)"
  have n: "?n < 20" using assms(5,6) by simp
  have small: "\<not> 0x1000000 < ?n" using n by (auto simp: word_less_nat_alt)
  have no: "get_hdr b = None" if b: "put m 0 bs = Some b" for b
  proof -
    have "length b < 20" using put_length [OF b] assms(1,8) n by (auto simp: lx_ok_def word_less_nat_alt)
    then have "get32 b 16 = None" by (simp add: get32_def copy_bytes_def)
    then show ?thesis by (simp add: get_hdr_def split: bind_splits)
  qed
  have "supdrvIOCtl env (ucast uCmd) w l sp b = None" if "put m 0 bs = Some b" for b
    using no [OF that] by (simp add: supdrvIOCtl_def)
  then show ?thesis
    using assms(2-4,7-9) small by (cases "put m 0 bs") (simp_all add: VBoxDrvLinuxIOCtlSlow_def Let_def)
qed

subsection \<open>Requests byte by byte\<close>

lemma uint_byte: "uint (ucast (drop_bit k (x :: 'a::len word)) :: u8) = uint x div 2 ^ k mod 256"
proof -
  have "take_bit LENGTH('a) (uint x) = uint x" by (simp add: take_bit_int_eq_self_iff)
  then have "uint (ucast (drop_bit k x) :: u8) = take_bit 8 (drop_bit k (uint x))" by (simp add: unsigned_ucast_eq unsigned_drop_bit_eq)
  then show ?thesis by (simp add: take_bit_eq_mod drop_bit_eq_div)
qed

lemma bytes_sum: "horner_sum uint 256 (map (\<lambda>i. ucast (drop_bit (8 * i) (x :: 'a::len word)) :: u8) [0..<n]) = uint x mod 256 ^ n"
proof (induction n)
  case (Suc n)
  have "2 ^ (8 * n) = (256 :: int) ^ n" by (simp add: power_mult)
  moreover have "uint x mod 256 ^ Suc n = 256 ^ n * (uint x div 256 ^ n mod 256) + uint x mod 256 ^ n"
    using zmod_zmult2_eq [of 256 "uint x" "256 ^ n"] by (simp add: mult.commute)
  ultimately show ?case using Suc by (simp add: horner_sum_append uint_byte)
qed simp

lemma le_word_bytes [simp]:
  "le_word (le_bytes 4 (x :: u32)) = x" "le_word (le_bytes 8 (y :: u64)) = y"
  using unsigned_less [of x, where ?'a = int] unsigned_less [of y, where ?'a = int]
  by (simp_all add: le_word_def le_bytes_def bytes_sum)

definition hdr_bytes :: "u32 \<Rightarrow> u32 \<Rightarrow> u32 \<Rightarrow> u32 \<Rightarrow> u8 list" where
  "hdr_bytes u32Cookie u32SessionCookie cbIn cbOut =
     le_bytes 4 u32Cookie @ le_bytes 4 u32SessionCookie @ le_bytes 4 cbIn @ le_bytes 4 cbOut @ le_bytes 4 (0x42000042 :: u32) @ replicate 4 0"

lemma length_hdr_bytes [simp]: "length (hdr_bytes c sc i o') = 24"
  by (simp add: hdr_bytes_def)

lemma get_hdr_bytes: "get_hdr (hdr_bytes c sc i o' @ bs) =
    Some \<lparr>hdr_u32Cookie = c, hdr_u32SessionCookie = sc, hdr_cbIn = i, hdr_cbOut = o', hdr_fFlags = 0x42000042\<rparr>"
  by (simp add: get_hdr_def get32_def copy_bytes_def hdr_bytes_def)

lemmas ctl_codes = SUP_CTL_CODE_SIZE_def SUP_CTL_CODE_BIG_def SUP_CTL_CODE_NO_SIZE_def SUP_CTL_CODE_FAST_def

text \<open>
  C14: the header is fetched twice, and the buffer has the size the first one says. A process that changes the
  output size in between from 24 to 28 bytes makes the driver write the paging mode behind the end of the
  buffer, in every state of the driver.
\<close>

theorem VBoxDrvLinuxIOCtlSlow_double_fetch:
  assumes "SUP_IS_SESSION_VALID sp s" "w_sess w sp = Some s" "c = dx_u32Cookie (w_devext w)" "sc = ses_u32Cookie s"
    "lx_hdr u = Some (hdr_bytes c sc 24 24)" "lx_in u 24 = Some (hdr_bytes c sc 24 28)" "lx_Alloc u 24 = Some m" "length m = 24"
  shows "VBoxDrvLinuxIOCtlSlow u env (ucast (SUP_CTL_CODE_SIZE 18 0)) w l sp = None"
proof -
  let ?b = "hdr_bytes c sc 24 28" let ?u = "ucast (ucast (SUP_CTL_CODE_SIZE 18 0) :: u32) :: u64"
  let ?h = "\<lparr>hdr_u32Cookie = c, hdr_u32SessionCookie = sc, hdr_cbIn = 24, hdr_cbOut = 28, hdr_fFlags = 0x42000042\<rparr>"
  have h: "get_hdr (hdr_bytes c sc i o') =
    Some \<lparr>hdr_u32Cookie = c, hdr_u32SessionCookie = sc, hdr_cbIn = i, hdr_cbOut = o', hdr_fFlags = 0x42000042\<rparr>" for i o'
    using get_hdr_bytes [of c sc i o' "[]"] by simp
  have sp: "RT_VALID_PTR sp" using assms(1) by (simp add: SUP_IS_SESSION_VALID_def)
  have p: "ioc_parse n ?u ?h ?b = Some (IocOk IocGetPagingMode)" for n
    by (simp add: ioc_parse_def ctl_codes ioc_defs)
  have "put_reply ?b (rep l rc [(24, le_bytes 4 x)] w) = None" for rc and x :: u32
    by (simp add: put_reply_def rep_def put_def)
  then have "ioc_switch env ?u w l sp ?h ?b = None"
    by (simp add: ioc_switch_def p ioc_exec_def)
  then have "supdrvIOCtl env ?u w l sp ?b = None"
    using assms(2-4) sp h [of 24 28] by (simp add: supdrvIOCtl_def ctl_codes)
  moreover have "put m 0 ?b = Some ?b" using assms(8) by (simp add: put_def)
  ultimately show ?thesis
    using assms(5-7) h [of 24 24] by (simp add: VBoxDrvLinuxIOCtlSlow_def ctl_codes)
qed

text \<open>Writing to the buffer leaves the other bytes alone.\<close>

lemma put_other:
  assumes "put b i bs = Some b'" "j + k \<le> i \<or> i + length bs \<le> j"
  shows "take k (drop j b') = take k (drop j b)" "length b' = length b"
proof -
  have b': "b' = take i b @ bs @ drop (i + length bs) b" "i + length bs \<le> length b" using assms(1) by (auto simp: put_def split: if_splits)
  show "length b' = length b" using b' by simp
  show "take k (drop j b') = take k (drop j b)"
  proof (cases "j + k \<le> i")
    case True
    then have "take (j + k) b' = take (j + k) b" using b'(2) by (simp add: b'(1) min_def)
    then show ?thesis by (simp add: take_drop add.commute)
  next
    case False
    then have j: "i + length bs \<le> j" using assms(2) by simp
    then have "drop j b' = drop j b" using b'(2) by (simp add: b'(1))
    then show ?thesis by simp
  qed
qed

lemma get32_other: "put b i bs = Some b' \<Longrightarrow> j + 4 \<le> i \<or> i + length bs \<le> j \<Longrightarrow> get32 b' j = get32 b j"
  using put_other [of b i bs b' j 4] by (simp add: get32_def copy_bytes_def)

definition page_alloc_req :: "u32 \<Rightarrow> u32 \<Rightarrow> u32 \<Rightarrow> u8 list" where
  "page_alloc_req c sc cPages = hdr_bytes c sc 32 (40 + 8 * cPages) @ le_bytes 4 cPages @ [0, 1, 0, 0]"

lemma page_alloc_hdr:
  "get_hdr (page_alloc_req c sc n @ bs) =
     Some \<lparr>hdr_u32Cookie = c, hdr_u32SessionCookie = sc, hdr_cbIn = 32, hdr_cbOut = 40 + 8 * n, hdr_fFlags = 0x42000042\<rparr>"
  "length (page_alloc_req c sc n) = 32" "get32 (page_alloc_req c sc n @ bs) 24 = Some n" "get32 (page_alloc_req c sc n @ bs) 12 = Some (40 + 8 * n)"
  "get8 (page_alloc_req c sc n @ bs) 28 = Some 0" "get8 (page_alloc_req c sc n @ bs) 29 = Some 1"
  "get8 (page_alloc_req c sc n @ bs) 30 = Some 0" "get8 (page_alloc_req c sc n @ bs) 31 = Some 0"
  unfolding page_alloc_req_def
  by (simp_all add: get_hdr_bytes) (simp_all add: get32_def get8_def copy_bytes_def hdr_bytes_def nth_append)

lemma put_reply_short:
  assumes "put_reply b (rep_short l rc [(24, le_bytes 8 (v :: u64)), (40, bs)] w) = Some b'" "RT_SUCCESS rc" "40 \<le> length b"
  shows "take 8 (drop 32 b') = take 8 (drop 32 b)" "get32 b' 12 = get32 b 12" "length b' = length b"
proof -
  obtain b1 b2 where p: "put b 24 (le_bytes 8 v) = Some b1" "put b1 40 bs = Some b2" "put b2 20 (le_bytes 4 (word_of_int rc :: u32)) = Some b'"
    using assms(1,2) by (auto simp: put_reply_def rep_short_def RT_FAILURE_def bind_eq_Some_conv)
  show "length b' = length b" using put_other(2) [OF p(1), of 0 0] put_other(2) [OF p(2), of 0 0] put_other(2) [OF p(3), of 0 0] by simp
  show "take 8 (drop 32 b') = take 8 (drop 32 b)"
    using put_other(1) [OF p(1), of 32 8] put_other(1) [OF p(2), of 32 8] put_other(1) [OF p(3), of 32 8] by simp
  show "get32 b' 12 = get32 b 12"
    using get32_other [OF p(1), of 12] get32_other [OF p(2), of 12] get32_other [OF p(3), of 12] by simp
qed

lemma page_alloc_switch:
  assumes "SUPR0PageAllocEx (env_hst env) (env_fAlloc env) w sp n 0 (env_buf env + 24) 0 (env_buf env + 40) = Some (rc, Some (pvR3, pvR0, pages), w1)"
    "RT_SUCCESS rc" "b = page_alloc_req c sc n @ bs" "length b = 40 + 8 * unat n" "unat n < 2 ^ 20" "env_ok env"
    "hdr = \<lparr>hdr_u32Cookie = c, hdr_u32SessionCookie = sc, hdr_cbIn = 32, hdr_cbOut = 40 + 8 * n, hdr_fFlags = 0x42000042\<rparr>"
  shows "\<exists>b'. ioc_switch env (SUP_CTL_CODE_BIG 10) w l sp hdr b = Some (0, b', w1, l) \<and>
    take 8 (drop 32 b') = take 8 (drop 32 b) \<and> get32 b' 12 = Some (40 + 8 * n) \<and> length b' = length b"
proof -
  note H = page_alloc_hdr(3-8) [of c sc n bs, folded assms(3)]
  have "unat (8 * n) = 8 * unat n" using assms(5) by (subst unat_mult_lem [THEN iffD1]) simp_all
  then have u: "unat (40 + 8 * n) = 40 + 8 * unat n" using assms(5) by (subst unat_add_lem [THEN iffD1]) simp_all
  have "(ucast (40 + 8 * n) :: u64) = 40 + ucast n * 8"
    using u assms(5) unat_pages [of 40 n] by (simp add: word_unat_eq_iff unat_ucast_u32)
  then have p: "ioc_parse k (SUP_CTL_CODE_BIG 10) hdr b = Some (IocOk (IocPageAllocEx n False True))" for k
    using H by (simp add: ioc_parse_def ctl_codes ioc_defs assms(7))
  let ?r = "rep_short l rc [(24, le_bytes 8 pvR3), (40, concat (map (le_bytes 8) pages))] w1"
  have x: "ioc_exec env w l sp hdr b (IocPageAllocEx n False True) = Some ?r"
    by (simp add: ioc_exec_def exec_page_alloc_ex_def assms(1) pages_out_def)
  have "req_room k hdr (IocPageAllocEx n False True) \<le> length b" for k using assms(4) by (simp add: req_room_def)
  from reply_in [OF x assms(6) this] assms(4) obtain b' where b': "put_reply b ?r = Some b'" by auto
  have "40 \<le> length b" using assms(4) by simp
  from put_reply_short [OF b' assms(2) this] b' x p H show ?thesis
    by (intro exI [of _ b']) (simp add: ioc_switch_def rep_short_def)
qed

text \<open>
  C39: a process that allocates pages without a kernel mapping gets eight bytes of the kernel's heap with each
  successful request: they are in the field of the kernel address, which is behind the input, nobody
  writes it, and it is copied back.
\<close>

theorem VBoxDrvLinuxIOCtlSlow_leaks_heap:
  assumes "SUP_IS_SESSION_VALID sp s" "w_sess w sp = Some s" "c = dx_u32Cookie (w_devext w)" "sc = ses_u32Cookie s" "env_ok env"
    "lx_hdr u = Some (take 24 (page_alloc_req c sc n))" "lx_in u 32 = Some (page_alloc_req c sc n)" "lx_fOut u"
    "lx_Alloc u (40 + 8 * unat n) = Some m" "length m = 40 + 8 * unat n" "unat n < 2 ^ 20"
    "SUPR0PageAllocEx (env_hst env) (env_fAlloc env) w sp n 0 (env_buf env + 24) 0 (env_buf env + 40) = Some (rc, Some (pvR3, pvR0, pages), w1)"
    "RT_SUCCESS rc"
  shows "\<exists>out. VBoxDrvLinuxIOCtlSlow u env (ucast (SUP_CTL_CODE_BIG 10)) w l sp = Some (0, out, w1, l) \<and>
    length out = length m \<and> take 8 (drop 32 out) = take 8 (drop 32 m)"
proof -
  let ?q = "page_alloc_req c sc n" let ?u = "SUP_CTL_CODE_BIG 10"
  let ?h = "\<lparr>hdr_u32Cookie = c, hdr_u32SessionCookie = sc, hdr_cbIn = 32, hdr_cbOut = 40 + 8 * n, hdr_fFlags = 0x42000042\<rparr>"
  define b where b: "b = ?q @ drop 32 m"
  have lq: "length ?q = 32" by (rule page_alloc_hdr(2))
  have lb: "length b = 40 + 8 * unat n" using assms(10) lq by (simp add: b)
  have hb: "get_hdr b = Some ?h" unfolding b by (rule page_alloc_hdr(1))
  have h: "get_hdr (take 24 ?q) = Some ?h"
    using get_hdr_prefix [of "take 24 ?q" b] hb lq lb by (simp add: b)
  have put: "put m 0 ?q = Some b" using put_start [of ?q m] lq assms(10) by (simp add: b)
  have "unat (8 * n) = 8 * unat n" using assms(11) by (subst unat_mult_lem [THEN iffD1]) simp_all
  then have un: "unat (40 + 8 * n) = 40 + 8 * unat n" using assms(11) by (subst unat_add_lem [THEN iffD1]) simp_all
  then have mx: "max 32 (40 + 8 * n) = 40 + 8 * n" by (simp add: max_def word_le_nat_alt)
  have small: "\<not> 0x1000000 < 40 + 8 * n" using un assms(11) by (simp add: word_less_nat_alt)
  have sp: "RT_VALID_PTR sp" using assms(1) by (simp add: SUP_IS_SESSION_VALID_def)
  obtain b' where b': "ioc_switch env ?u w l sp ?h b = Some (0, b', w1, l)" "take 8 (drop 32 b') = take 8 (drop 32 b)"
    "get32 b' 12 = Some (40 + 8 * n)" "length b' = length b"
    using page_alloc_switch [OF assms(12,13) b lb assms(11,5) refl] by blast
  have "supdrvIOCtl env ?u w l sp b = Some (0, b', w1, l)"
    using b'(1) hb assms(2-4) sp un by (simp add: supdrvIOCtl_def ctl_codes word_less_nat_alt)
  moreover have "ucast (ucast ?u :: u32) = ?u" "drop_bit 16 (ucast ?u :: u32) AND 0x3fff = 0" by (simp_all add: ctl_codes)
  ultimately have "VBoxDrvLinuxIOCtlSlow u env (ucast ?u) w l sp = Some (0, b', w1, l)"
    using h assms(6-9) put b'(3,4) lb un mx small by (simp add: VBoxDrvLinuxIOCtlSlow_def copy_bytes_def Let_def)
  moreover have "drop 32 b = drop 32 m" using lq by (simp add: b)
  ultimately show ?thesis using b'(2,4) lb assms(10) by auto
qed

lemma fast_total:
  assumes "w_sess w sp = Some s"
  shows "\<exists>rc call. supdrvIOCtlFast uIOCtl idCpu w sp = Some (rc, call) \<and> (rc \<noteq> 0 \<longrightarrow> call = None)"
  using assms by (auto simp: supdrvIOCtlFast_def Let_def split: if_splits)

lemma LinuxIOCtl_ok:
  assumes "drv_inv w" "w_sess w sp = Some s" "env_fits env w" "counts_fit w" "env_ok env" "length (env_aFunctions env) < 2 ^ 32"
    "lx_ok u" "lx_same u" "\<forall>h hdr. lx_hdr u = Some h \<longrightarrow> get_hdr h = Some hdr \<longrightarrow> 24 \<le> hdr_cbIn hdr" "\<not> lx_overrun u env uCmd w s"
  shows "VBoxDrvLinuxIOCtl u env run uCmd ulArg w l sp \<noteq> None"
proof (cases "ucast uCmd = SUP_CTL_CODE_FAST 64 \<or> ucast uCmd = SUP_CTL_CODE_FAST 65 \<or> ucast uCmd = SUP_CTL_CODE_FAST 66")
  case True
  then show ?thesis using fast_total [OF assms(2), of "ucast uCmd" "ucast ulArg"] by (auto simp: VBoxDrvLinuxIOCtl_def)
next
  case False
  then show ?thesis using IOCtlSlow_ok [OF assms, of l] by (auto simp: VBoxDrvLinuxIOCtl_def)
qed

lemma LinuxIOCtl_some:
  assumes "drv_inv w" "w_sess w sp = Some s" "env_fits env w" "counts_fit w" "lx_ok u" "\<forall>c. kept w (run c w)"
    "VBoxDrvLinuxIOCtl u env run uCmd ulArg w l sp = Some (rc, out, w', l')"
  shows "kept w w' \<and> (rc \<noteq> 0 \<longrightarrow> out = [] \<and> (lx_fOut u \<longrightarrow> w' = w \<and> l' = l))"
proof (cases "ucast uCmd = SUP_CTL_CODE_FAST 64 \<or> ucast uCmd = SUP_CTL_CODE_FAST 65 \<or> ucast uCmd = SUP_CTL_CODE_FAST 66")
  case True
  from fast_total [OF assms(2)] obtain rc1 call where
    f: "supdrvIOCtlFast (ucast uCmd) (ucast ulArg) w sp = Some (rc1, call)" "rc1 \<noteq> 0 \<longrightarrow> call = None" by blast
  then show ?thesis
    using True assms(6,7) kept_self [OF assms(1)] by (auto simp: VBoxDrvLinuxIOCtl_def split: option.splits)
next
  case False
  then show ?thesis using IOCtlSlow_some [OF assms(1-5), of uCmd l] assms(7) by (auto simp: VBoxDrvLinuxIOCtl_def)
qed

text \<open>
  C13: whatever a process hands to the device, also if it changes its request while the driver works on it: a call
  that answers keeps the invariant and the sessions, and one that fails gives no bytes and changes nothing, unless all
  that failed is the copy of the answer to the process. A call answers, without an access outside of its buffer, if
  the process leaves the request alone, says that its input is no shorter than a header, and does not open an image
  with a name that overruns that of a loaded one.
\<close>

theorem VBoxDrvLinuxIOCtl_safe:
  assumes "drv_inv w" "w_sess w sp = Some s" "env_fits env w" "counts_fit w" "env_ok env" "length (env_aFunctions env) < 2 ^ 32"
    "lx_ok u" "\<forall>c. kept w (run c w)"
  shows "(\<forall>rc out w' l'. VBoxDrvLinuxIOCtl u env run uCmd ulArg w l sp = Some (rc, out, w', l') \<longrightarrow>
      drv_inv w' \<and> dom (w_sess w') = dom (w_sess w) \<and> (rc \<noteq> 0 \<longrightarrow> out = [] \<and> (lx_fOut u \<longrightarrow> w' = w \<and> l' = l))) \<and>
    (lx_same u \<and> (\<forall>h hdr. lx_hdr u = Some h \<longrightarrow> get_hdr h = Some hdr \<longrightarrow> 24 \<le> hdr_cbIn hdr) \<and> \<not> lx_overrun u env uCmd w s \<longrightarrow>
      (\<exists>rc out w' l'. VBoxDrvLinuxIOCtl u env run uCmd ulArg w l sp = Some (rc, out, w', l')))"
proof (intro conjI allI impI)
  fix rc out w' l' assume r: "VBoxDrvLinuxIOCtl u env run uCmd ulArg w l sp = Some (rc, out, w', l')"
  note k = LinuxIOCtl_some [OF assms(1-4,7,8) r]
  show "drv_inv w'" "dom (w_sess w') = dom (w_sess w)" using k by (simp_all add: kept_def)
  show "out = []" if "rc \<noteq> 0" using k that by blast
  show "w' = w" if "rc \<noteq> 0" "lx_fOut u" using k that by blast
  show "l' = l" if "rc \<noteq> 0" "lx_fOut u" using k that by blast
next
  assume "lx_same u \<and> (\<forall>h hdr. lx_hdr u = Some h \<longrightarrow> get_hdr h = Some hdr \<longrightarrow> 24 \<le> hdr_cbIn hdr) \<and> \<not> lx_overrun u env uCmd w s"
  then show "\<exists>rc out w' l'. VBoxDrvLinuxIOCtl u env run uCmd ulArg w l sp = Some (rc, out, w', l')"
    using LinuxIOCtl_ok [OF assms(1-7), of uCmd run ulArg l] by auto
qed

subsection \<open>Witnesses\<close>

definition lx_ex_user :: lxuser where
  "lx_ex_user = \<lparr>lx_hdr = Some (take 24 reach_ex_req), lx_in = (\<lambda>n. if n \<le> 56 then Some (take n reach_ex_req) else None),
     lx_Alloc = (\<lambda>n. Some (replicate n 0)), lx_fOut = True\<rparr>"

theorem VBoxDrvLinuxIOCtl_safe_witness:
  "\<exists>w. drv_inv w \<and> (\<exists>rc out w' l'. VBoxDrvLinuxIOCtl lx_ex_user reach_ex_env (\<lambda>_ w. w) (ucast SUP_IOCTL_COOKIE) 0 w reach_ex_log 0x10000 =
     Some (rc, out, w', l') \<and> drv_inv w')"
proof -
  obtain w s where w: "drv_inv w" "w_sess w = [0x10000 \<mapsto> s]" "w_objs w = Map.empty" "w_imgs w = Map.empty" using reach_ex by blast
  have s: "w_sess w 0x10000 = Some s" by (simp add: w(2))
  note env = reach_ex_env_fits [OF w(1,3,4)]
  have n: "length (env_aFunctions reach_ex_env) < 2 ^ 32" by (simp add: reach_ex_env_def)
  have u: "lx_ok lx_ex_user" "lx_same lx_ex_user"
    by (simp_all add: lx_ok_def lx_same_def lx_ex_user_def reach_ex_buf(2) min.commute)
  have "get_hdr (take 24 reach_ex_req) = Some reach_ex_hdr"
    using get_hdr_prefix [of "take 24 reach_ex_req" reach_ex_req] reach_ex_buf by (simp add: buf_ok_def)
  then have c: "\<forall>h hdr. lx_hdr lx_ex_user = Some h \<longrightarrow> get_hdr h = Some hdr \<longrightarrow> 24 \<le> hdr_cbIn hdr"
    by (simp add: lx_ex_user_def reach_ex_hdr_def)
  have o: "\<not> lx_overrun lx_ex_user reach_ex_env (ucast SUP_IOCTL_COOKIE) w s"
    unfolding lx_overrun_def using reach_ex_overrun [OF w(4)] by blast
  have k: "\<forall>c. kept w ((\<lambda>_ w. w) c w)" using kept_self [OF w(1)] by simp
  from VBoxDrvLinuxIOCtl_safe [where run = "\<lambda>_ w. w" and uCmd = "ucast SUP_IOCTL_COOKIE" and ulArg = 0 and l = reach_ex_log,
      OF w(1) s env n u(1) k]
  show ?thesis using u(2) c o w(1) by blast
qed

lemma mem_ex_sess: "w_sess mem_ex 0x50000 = Some sess_mem_ex" "dx_u32Cookie (w_devext mem_ex) = BIRD" "ses_u32Cookie sess_mem_ex = BIRD_INV"
  by (simp_all add: mem_ex_def supdrv0_def dx0_def sess_mem_ex_def sess0_def)

theorem VBoxDrvLinuxIOCtlSlow_double_fetch_witness:
  "VBoxDrvLinuxIOCtlSlow \<lparr>lx_hdr = Some (hdr_bytes BIRD BIRD_INV 24 24), lx_in = (\<lambda>_. Some (hdr_bytes BIRD BIRD_INV 24 28)),
     lx_Alloc = (\<lambda>n. Some (replicate n 0)), lx_fOut = True\<rparr> reach_ex_env (ucast (SUP_CTL_CODE_SIZE 18 0)) mem_ex reach_ex_log 0x50000 = None"
  by (rule VBoxDrvLinuxIOCtlSlow_double_fetch [OF sess_mem_ex_ok(3) mem_ex_sess(1), where c = BIRD and sc = BIRD_INV and m = "replicate 24 0"])
    (simp_all add: mem_ex_sess)

lemma page_alloc_ex: "\<exists>pvR3 pvR0 pages w1. SUPR0PageAllocEx host_ex False mem_ex 0x50000 1 0 0x50018 0 0x50028 =
    Some (0, Some (pvR3, pvR0, pages), w1)"
proof -
  let ?m = "host_obj RTR0MEMOBJTYPE_PHYS_NC 0x1000 0x70100000 NIL_RTR0PROCESS"
  let ?n = "host_obj RTR0MEMOBJTYPE_MAPPING 0x1000 0x70110000 0x1234"
  define h :: memheap where "h = [0x100000 \<mapsto> ?m]"
  define h1 :: memheap where "h1 = [0x100000 \<mapsto> ?m\<lparr>mo_cMappingsAllocated := 32, mo_papMappings := [0x110000]\<rparr>, 0x110000 \<mapsto> ?n\<lparr>mo_pParent := 0x100000\<rparr>]"
  have w: "w_memobjs mem_ex = Map.empty" by (simp add: mem_ex_def supdrv0_def)
  have a: "RTR0MemObjAllocPhysNC host_ex Map.empty 0x1000 NIL_RTHCPHYS = (0, 0x100000, h)"
    by (simp add: RTR0MemObjAllocPhysNC_def mo_new_def host_ex_def RT_ALIGN_Z_def RT_VALID_PTR_def h_def)
  have m: "RTR0MemObjMapUser host_ex h 0x100000 0xffffffffffffffff 0 RTMEM_PROT_RWX (hst_Self host_ex) = Some (0, 0x110000, h1)"
    by (simp add: RTR0MemObjMapUser_def mo_valid_def mo_map_def rtR0MemObjLink_def host_ex_def RT_VALID_PTR_def h_def h1_def
        host_obj_def rtR0MemObjIsMapping_def Let_def fun_eq_iff)
  have r: "replicate 64 mr_unused = mr_unused # replicate 63 mr_unused"
    using replicate_Suc [of 63 mr_unused] by simp
  then have "slot_add x (replicate BUNDLE_ENTRIES mr_unused) = Some (x # replicate 63 mr_unused)" for x
    by (simp only: r slot_add.simps) (simp add: mr_unused_def)
  then obtain s1 where s: "supdrvMemAdd False \<lparr>mr_MemObj = 0x100000, mr_MapObjR3 = 0x110000, mr_eType = MEMREF_TYPE_PAGE\<rparr> sess_mem_ex = (0, s1)"
    by (simp add: supdrvMemAdd_def sess_mem_ex_def)
  have t: "RTR0MemObjAddressR3 h1 0x110000 = Some 0x70110000" "RTR0MemObjGetPagePhysAddr host_ex h1 0x110000 0 = Some 0x5000000"
    by (simp_all add: mo_defs mo_valid_def RT_VALID_PTR_def h1_def host_obj_def host_ex_def)
  show ?thesis
    unfolding SUPR0PageAllocEx_def with_session_ok [OF mem_ex_sess(1) sess_mem_ex_ok(3)] mem_map_add_def
    by (simp add: w a m s t RT_VALID_PTR_def RT_FAILURE_def)
qed

theorem VBoxDrvLinuxIOCtlSlow_leaks_heap_witness:
  "\<exists>out w1. VBoxDrvLinuxIOCtlSlow \<lparr>lx_hdr = Some (take 24 (page_alloc_req BIRD BIRD_INV 1)), lx_in = (\<lambda>_. Some (page_alloc_req BIRD BIRD_INV 1)),
     lx_Alloc = (\<lambda>n. Some (replicate n 0x5a)), lx_fOut = True\<rparr> reach_ex_env (ucast (SUP_CTL_CODE_BIG 10)) mem_ex reach_ex_log 0x50000 =
     Some (0, out, w1, reach_ex_log) \<and> take 8 (drop 32 out) = replicate 8 0x5a"
proof -
  obtain pvR3 pvR0 pages w1 where a: "SUPR0PageAllocEx host_ex False mem_ex 0x50000 1 0 0x50018 0 0x50028 =
    Some (0, Some (pvR3, pvR0, pages), w1)" using page_alloc_ex by blast
  show ?thesis
    using VBoxDrvLinuxIOCtlSlow_leaks_heap [OF sess_mem_ex_ok(3) mem_ex_sess(1), of BIRD BIRD_INV reach_ex_env
        "\<lparr>lx_hdr = Some (take 24 (page_alloc_req BIRD BIRD_INV 1)), lx_in = (\<lambda>_. Some (page_alloc_req BIRD BIRD_INV 1)),
          lx_Alloc = (\<lambda>n. Some (replicate n 0x5a)), lx_fOut = True\<rparr>" 1 "replicate 48 0x5a" 0 pvR3 pvR0 pages w1 reach_ex_log] a
    by (auto simp: mem_ex_sess reach_ex_env_def env_ok_def)
qed

end
