(* ===== verification/SupIdc.thy ===== *)
theory SupIdc
  imports SupLinux SupFactory
begin

unbundle bit_operations_syntax

text \<open>
  The interface for other kernel modules (inter-driver communication): the request dispatcher
  \<open>supdrvIDC\<close> of SUPDrv.c, its Linux entry point, and the client library the other modules link
  (SUPR0IdcClient.c, SUPR0IdcClientComponent.c, SUPR0IdcClientStubs.c and the Linux part). A packet is
  the list of its bytes, with the header in the first 16, so that the unions of
  inputs and outputs share their bytes as in C. \<open>None\<close> is an access to freed memory or outside of a packet.
\<close>

subsection \<open>The driver\<close>

abbreviation (input) SUPDRV_IDC_VERSION :: u32 where "SUPDRV_IDC_VERSION \<equiv> 0x00010000"

definition SUP_IDC_CODE :: "u32 \<Rightarrow> u32" where
  "SUP_IDC_CODE Function = 0xc0ffee00 OR (0xff AND Function)"

text \<open>
  What the calls of the driver depend on: \<open>idc_pNew\<close>, \<open>idc_rcSpinlock\<close>, \<open>idc_fMem\<close>, \<open>idc_rcLock\<close> and
  \<open>idc_fAlloc\<close> are the answers of the allocators, \<open>idc_rcMtx\<close> the status of taking the factory mutex,
  \<open>idc_str\<close> the string at an address, \<open>idc_aFunctions\<close> the exported functions.
\<close>

record idc_env =
  idc_hst :: r0host
  idc_aFunctions :: "(u8 list \<times> addr) list"
  idc_str :: "addr \<Rightarrow> cptr"
  idc_uRevision :: u32
  idc_pNew :: addr
  idc_rcSpinlock :: status
  idc_fMem :: bool
  idc_rcLock :: status
  idc_procs :: "u32 \<times> addr"
  idc_fAlloc :: bool
  idc_rcMtx :: status
  idc_pReq :: addr
  idc_junk :: "nat \<Rightarrow> u8"

type_synonym idc_result = "(status \<times> u8 list \<times> supdrv) option"

definition put_rc :: "u8 list \<Rightarrow> status \<Rightarrow> u8 list option" where
  "put_rc b rc = put b 4 (le_bytes 4 (word_of_int rc :: u32))"

text \<open>A refused request gets its status in the header and as the answer.\<close>

definition idc_refuse :: "u8 list \<Rightarrow> supdrv \<Rightarrow> idc_result" where
  "idc_refuse b w = map_option (\<lambda>b1. (VERR_INVALID_PARAMETER, b1, w)) (put_rc b VERR_INVALID_PARAMETER)"

definition REQ_CHECK_IDC_SIZE :: "u8 list \<Rightarrow> supdrv \<Rightarrow> u32 \<Rightarrow> idc_result \<Rightarrow> idc_result" where
  "REQ_CHECK_IDC_SIZE b w cbExpect k = do { cb \<leftarrow> get32 b 0; if cb \<noteq> cbExpect then idc_refuse b w else k }"

text \<open>The outputs of a connection: session, session version, driver version, revision.\<close>

definition idc_connect_out :: "u8 list \<Rightarrow> addr \<Rightarrow> u32 \<Rightarrow> u32 \<Rightarrow> u8 list option" where
  "idc_connect_out b pSession uSessionVersion uDriverRevision =
     put_all b [(16, le_bytes 8 pSession), (24, le_bytes 4 uSessionVersion), (28, le_bytes 4 SUPDRV_IDC_VERSION),
       (32, le_bytes 4 uDriverRevision)]"

definition idc_new_session :: "idc_env \<Rightarrow> supdrv \<Rightarrow> u8 list \<Rightarrow> idc_result" where
  "idc_new_session env w b = do {
     b1 \<leftarrow> idc_connect_out b 0 SUPDRV_IDC_VERSION (idc_uRevision env);
     (case supdrvCreateSession (idc_pNew env) (idc_rcSpinlock env) (idc_fMem env) (idc_rcLock env) (idc_procs env) False w of
        (rc, pNew, w1) \<Rightarrow> do {
          b2 \<leftarrow> put_rc b1 rc;
          if RT_FAILURE rc then Some (VINF_SUCCESS, b2, w1)
          else map_option (\<lambda>b3. (VINF_SUCCESS, b3, w1)) (put_all b2 [(16, le_bytes 8 pNew), (8, le_bytes 8 pNew)]) }) }"

definition idc_connect :: "idc_env \<Rightarrow> supdrv \<Rightarrow> addr \<Rightarrow> u8 list \<Rightarrow> idc_result" where
  "idc_connect env w pSession b = REQ_CHECK_IDC_SIZE b w 40 (do {
     pHdrSession \<leftarrow> get64 b 8; u32MagicCookie \<leftarrow> get32 b 16; uReqVersion \<leftarrow> get32 b 20; uMinVersion \<leftarrow> get32 b 24;
     if pHdrSession \<noteq> 0 then idc_refuse b w
     else if u32MagicCookie \<noteq> 0x69726f74 then idc_refuse b w
     else if uReqVersion < uMinVersion \<or> uMinVersion AND 0xffff0000 \<noteq> uReqVersion AND 0xffff0000 then idc_refuse b w
     else if pSession \<noteq> 0 then idc_refuse b w
     else if SUPDRV_IDC_VERSION < uMinVersion \<or> uMinVersion AND 0xffff0000 \<noteq> SUPDRV_IDC_VERSION AND 0xffff0000 then do {
       b1 \<leftarrow> idc_connect_out b 0 0xffffffff (idc_uRevision env);
       map_option (\<lambda>b2. (VINF_SUCCESS, b2, w)) (put_rc b1 VERR_VERSION_MISMATCH) }
     else idc_new_session env w b })"

definition idc_disconnect :: "idc_env \<Rightarrow> supdrv \<Rightarrow> addr \<Rightarrow> u8 list \<Rightarrow> idc_result" where
  "idc_disconnect env w pSession b = REQ_CHECK_IDC_SIZE b w 16 (do {
     w1 \<leftarrow> supdrvCloseSession (idc_hst env) w pSession;
     map_option (\<lambda>b1. (VINF_SUCCESS, b1, w1)) (put_rc b VINF_SUCCESS) })"

definition idc_ptr :: "idc_env \<Rightarrow> addr \<Rightarrow> cptr" where
  "idc_ptr env p = (if p = 0 then PNull else if \<not> RT_VALID_PTR p then PBad else idc_str env p)"

definition idc_get_symbol :: "idc_env \<Rightarrow> supdrv \<Rightarrow> addr \<Rightarrow> u8 list \<Rightarrow> idc_result" where
  "idc_get_symbol env w pSession b = REQ_CHECK_IDC_SIZE b w 32 (do {
     pszModule \<leftarrow> get64 b 16; pszSymbol \<leftarrow> get64 b 24;
     (rc, pfnSymbol, w1) \<leftarrow>
       supdrvIDC_LdrGetSymbol (idc_aFunctions env) (idc_fMem env) w pSession (idc_ptr env pszModule) (idc_ptr env pszSymbol);
     b1 \<leftarrow> (case pfnSymbol of None \<Rightarrow> Some b | Some pfn \<Rightarrow> put b 16 (le_bytes 8 pfn));
     map_option (\<lambda>b2. (VINF_SUCCESS, b2, w1)) (put_rc b1 rc) })"

definition idc_register :: "idc_env \<Rightarrow> supdrv \<Rightarrow> addr \<Rightarrow> u8 list \<Rightarrow> idc_result" where
  "idc_register env w pSession b = REQ_CHECK_IDC_SIZE b w 24 (do {
     pFactory \<leftarrow> get64 b 16;
     (rc, w1) \<leftarrow> SUPR0ComponentRegisterFactory (idc_rcMtx env) (idc_fAlloc env) w pSession pFactory;
     map_option (\<lambda>b1. (VINF_SUCCESS, b1, w1)) (put_rc b rc) })"

definition idc_deregister :: "idc_env \<Rightarrow> supdrv \<Rightarrow> addr \<Rightarrow> u8 list \<Rightarrow> idc_result" where
  "idc_deregister env w pSession b = REQ_CHECK_IDC_SIZE b w 24 (do {
     pFactory \<leftarrow> get64 b 16;
     (rc, w1) \<leftarrow> SUPR0ComponentDeregisterFactory (idc_rcMtx env) w pSession pFactory;
     map_option (\<lambda>b1. (VINF_SUCCESS, b1, w1)) (put_rc b rc) })"

definition idc_switch :: "idc_env \<Rightarrow> u32 \<Rightarrow> supdrv \<Rightarrow> addr \<Rightarrow> u8 list \<Rightarrow> idc_result" where
  "idc_switch env uReq w pSession b =
     (if uReq = SUP_IDC_CODE 1 then idc_connect env w pSession b
      else if uReq = SUP_IDC_CODE 2 then idc_disconnect env w pSession b
      else if uReq = SUP_IDC_CODE 3 then idc_get_symbol env w pSession b
      else if uReq = SUP_IDC_CODE 10 then idc_register env w pSession b
      else if uReq = SUP_IDC_CODE 11 then idc_deregister env w pSession b
      else Some (VERR_NOT_SUPPORTED, b, w))"

definition supdrvIDC :: "idc_env \<Rightarrow> u32 \<Rightarrow> supdrv \<Rightarrow> addr \<Rightarrow> u8 list \<Rightarrow> idc_result" where
  "supdrvIDC env uReq w pSession b =
     (if pSession \<noteq> 0 then do {
        s \<leftarrow> w_sess w pSession;
        if ses_R0Process s \<noteq> NIL_RTR0PROCESS then Some (VERR_INVALID_PARAMETER, b, w) else idc_switch env uReq w pSession b }
      else idc_switch env uReq w pSession b)"

text \<open>There is one device extension, so every live session passes the test that it belongs to it.\<close>

definition SUPDrvLinuxIDC :: "idc_env \<Rightarrow> u32 \<Rightarrow> supdrv \<Rightarrow> u8 list \<Rightarrow> idc_result" where
  "SUPDrvLinuxIDC env uReq w b =
     (if \<not> RT_VALID_PTR (idc_pReq env) then Some (VERR_INVALID_POINTER, b, w)
      else do {
        pSession \<leftarrow> get64 b 8;
        if pSession \<noteq> 0 then
          (if \<not> RT_VALID_PTR pSession then Some (VERR_INVALID_PARAMETER, b, w)
           else Option.bind (w_sess w pSession) (\<lambda>_. supdrvIDC env uReq w pSession b))
        else if uReq \<noteq> SUP_IDC_CODE 1 then Some (VERR_INVALID_PARAMETER, b, w)
        else supdrvIDC env uReq w pSession b })"

subsection \<open>The client library\<close>

text \<open>
  The memory of a client: the handles (\<open>pHandle->s.pSession\<close>), \<open>g_pMainHandle\<close>, and the cached
  function pointers of the stubs.
\<close>

datatype idc_fn = IdcObjRegister | IdcObjAddRef | IdcObjRelease | IdcObjVerifyAccess

record idcclient =
  cl_pSession :: "addr \<Rightarrow> addr"
  cl_g_pMainHandle :: addr
  cl_pfn :: "idc_fn \<Rightarrow> addr"

definition supR0IdcNativeCall :: "idc_env \<Rightarrow> u32 \<Rightarrow> supdrv \<Rightarrow> u8 list \<Rightarrow> idc_result" where
  "supR0IdcNativeCall env iReq w b = do {
     (rc, b1, w1) \<leftarrow> SUPDrvLinuxIDC env iReq w b;
     if RT_SUCCESS rc then map_option (\<lambda>r. (sint r, b1, w1)) (get32 b1 4) else Some (rc, b1, w1) }"

definition supR0IdcNativeOpen :: "idc_env \<Rightarrow> supdrv \<Rightarrow> u8 list \<Rightarrow> idc_result" where
  "supR0IdcNativeOpen env w b = supR0IdcNativeCall env (SUP_IDC_CODE 1) w b"

definition supR0IdcNativeClose :: "idc_env \<Rightarrow> supdrv \<Rightarrow> u8 list \<Rightarrow> idc_result" where
  "supR0IdcNativeClose env w b = supR0IdcNativeCall env (SUP_IDC_CODE 2) w b"

text \<open>A packet on the stack: the header, the inputs, and whatever the rest contains.\<close>

definition idc_packet :: "idc_env \<Rightarrow> nat \<Rightarrow> addr \<Rightarrow> u8 list \<Rightarrow> u8 list" where
  "idc_packet env cb pSession ins =
     le_bytes 4 (of_nat cb :: u32) @ le_bytes 4 (word_of_int VERR_WRONG_ORDER :: u32) @ le_bytes 8 pSession @ ins @
     map (idc_junk env) [0..<cb - 16 - length ins]"

definition SUPR0IdcClose :: "idc_env \<Rightarrow> idcclient \<Rightarrow> supdrv \<Rightarrow> addr \<Rightarrow> (status \<times> idcclient \<times> supdrv) option" where
  "SUPR0IdcClose env cl w pHandle =
     (if \<not> RT_VALID_PTR pHandle then Some (VERR_INVALID_POINTER, cl, w)
      else if cl_pSession cl pHandle = 0 then Some (VERR_INVALID_HANDLE, cl, w)
      else if \<not> RT_VALID_PTR (cl_pSession cl pHandle) then Some (VERR_INVALID_HANDLE, cl, w)
      else
        map_option (\<lambda>(rc, _, w1).
            (rc,
             if RT_SUCCESS rc
             then cl\<lparr>cl_pSession := (cl_pSession cl)(pHandle := 0),
                     cl_g_pMainHandle := (if cl_g_pMainHandle cl = pHandle then 0 else cl_g_pMainHandle cl)\<rparr>
             else cl, w1))
          (supR0IdcNativeClose env w (idc_packet env 16 (cl_pSession cl pHandle) [])))"

text \<open>
  The versions a client passes: 0 is the default, which is the first version with the
  major number of the library.
\<close>

definition idc_version :: "u32 \<Rightarrow> u32" where
  "idc_version uVersion =
     (let uDefaultMinVersion = SUPDRV_IDC_VERSION AND 0xffff0000
      in if uVersion = 0 \<or> uVersion < uDefaultMinVersion then uDefaultMinVersion else uVersion)"

text \<open>Where the optional outputs point; what is stored there: \<open>None\<close> if nothing.\<close>

type_synonym idc_outs = "u32 option \<times> u32 option \<times> u32 option"

definition idc_out :: "addr \<times> addr \<times> addr \<Rightarrow> u32 \<times> u32 \<times> u32 \<Rightarrow> idc_outs" where
  "idc_out ps vs =
     (case (ps, vs) of ((p1, p2, p3), (v1, v2, v3)) \<Rightarrow>
        (if p1 \<noteq> 0 then Some v1 else None, if p2 \<noteq> 0 then Some v2 else None, if p3 \<noteq> 0 then Some v3 else None))"

text \<open>The answer of the driver is checked once more before it is trusted.\<close>

definition idc_opened ::
  "idc_env \<Rightarrow> idcclient \<Rightarrow> addr \<Rightarrow> u32 \<Rightarrow> addr \<times> addr \<times> addr \<Rightarrow> status \<Rightarrow> u8 list \<Rightarrow> supdrv \<Rightarrow>
   (status \<times> idc_outs \<times> idcclient \<times> supdrv) option" where
  "idc_opened env cl pHandle uMinVersion ps rc b w = do {
     pSession \<leftarrow> get64 b 16; uSessionVersion \<leftarrow> get32 b 24; uDriverVersion \<leftarrow> get32 b 28; uDriverRevision \<leftarrow> get32 b 32;
     let cl1 = cl\<lparr>cl_pSession := (cl_pSession cl)(pHandle := pSession)\<rparr>;
         out = idc_out ps (uSessionVersion, uDriverVersion, uDriverRevision)
     in if RT_VALID_PTR pSession \<and> uMinVersion \<le> uSessionVersion \<and>
           uSessionVersion AND 0xffff0000 = SUPDRV_IDC_VERSION AND 0xffff0000
        then Some (rc, out, if cl_g_pMainHandle cl1 = 0 then cl1\<lparr>cl_g_pMainHandle := pHandle\<rparr> else cl1, w)
        else map_option (\<lambda>(_, cl2, w2). (VERR_VERSION_MISMATCH, out, cl2, w2)) (SUPR0IdcClose env cl1 w pHandle) }"

definition SUPR0IdcOpen ::
  "idc_env \<Rightarrow> idcclient \<Rightarrow> supdrv \<Rightarrow> addr \<Rightarrow> u32 \<Rightarrow> u32 \<Rightarrow> addr \<times> addr \<times> addr \<Rightarrow>
   (status \<times> idc_outs \<times> idcclient \<times> supdrv) option" where
  "SUPR0IdcOpen env cl w pHandle uReqVersion uMinVersion ps =
     (case ps of (puSessionVersion, puDriverVersion, puDriverRevision) \<Rightarrow>
        if \<not> RT_VALID_PTR pHandle then Some (VERR_INVALID_POINTER, (None, None, None), cl, w)
        else
          let cl0 = cl\<lparr>cl_pSession := (cl_pSession cl)(pHandle := 0)\<rparr>;
              o1 = (if puSessionVersion \<noteq> 0 then Some 0 else None); o2 = (if puDriverVersion \<noteq> 0 then Some 0 else None)
          in if puSessionVersion \<noteq> 0 \<and> \<not> RT_VALID_PTR puSessionVersion then Some (VERR_INVALID_POINTER, (None, None, None), cl0, w)
             else if puDriverVersion \<noteq> 0 \<and> \<not> RT_VALID_PTR puDriverVersion then Some (VERR_INVALID_POINTER, (o1, None, None), cl0, w)
             else if puDriverRevision \<noteq> 0 \<and> \<not> RT_VALID_PTR puDriverRevision then Some (VERR_INVALID_POINTER, (o1, o2, None), cl0, w)
             else if uMinVersion \<noteq> 0 \<and> uMinVersion AND 0xffff0000 \<noteq> SUPDRV_IDC_VERSION AND 0xffff0000
             then Some (VERR_INVALID_PARAMETER, idc_out ps (0, 0, 0), cl0, w)
             else if uReqVersion \<noteq> 0 \<and> uReqVersion AND 0xffff0000 \<noteq> SUPDRV_IDC_VERSION AND 0xffff0000
             then Some (VERR_INVALID_PARAMETER, idc_out ps (0, 0, 0), cl0, w)
             else do {
               (rc, b, w1) \<leftarrow> supR0IdcNativeOpen env w (idc_packet env 40 0
                  (le_bytes 4 (0x69726f74 :: u32) @ le_bytes 4 (idc_version uReqVersion) @ le_bytes 4 (idc_version uMinVersion)));
               if RT_SUCCESS rc then idc_opened env cl0 pHandle (idc_version uMinVersion) ps rc b w1
               else Some (rc, idc_out ps (0, 0, 0), cl0, w1) })"

definition SUPR0IdcGetSession :: "idcclient \<Rightarrow> addr \<Rightarrow> addr" where
  "SUPR0IdcGetSession cl pHandle =
     (if \<not> RT_VALID_PTR pHandle then 0
      else if \<not> RT_VALID_PTR (cl_pSession cl pHandle) then 0 else cl_pSession cl pHandle)"

definition supR0IdcGetHandleFromSession :: "idcclient \<Rightarrow> addr \<Rightarrow> addr" where
  "supR0IdcGetHandleFromSession cl pSession =
     (let pHandle = cl_g_pMainHandle cl
      in if RT_VALID_PTR pHandle \<and> cl_pSession cl pHandle = pSession then pHandle else 0)"

definition idc_component_call :: "idc_env \<Rightarrow> u32 \<Rightarrow> idcclient \<Rightarrow> supdrv \<Rightarrow> addr \<Rightarrow> addr \<Rightarrow> (status \<times> supdrv) option" where
  "idc_component_call env iReq cl w pHandle pFactory =
     (if \<not> RT_VALID_PTR pHandle then Some (VERR_INVALID_HANDLE, w)
      else if \<not> RT_VALID_PTR (cl_pSession cl pHandle) then Some (VERR_INVALID_HANDLE, w)
      else map_option (\<lambda>(rc, _, w1). (rc, w1))
             (supR0IdcNativeCall env iReq w (idc_packet env 24 (cl_pSession cl pHandle) (le_bytes 8 pFactory))))"

definition SUPR0IdcComponentRegisterFactory :: "idc_env \<Rightarrow> idcclient \<Rightarrow> supdrv \<Rightarrow> addr \<Rightarrow> addr \<Rightarrow> (status \<times> supdrv) option" where
  "SUPR0IdcComponentRegisterFactory env = idc_component_call env (SUP_IDC_CODE 10)"

definition SUPR0IdcComponentDeregisterFactory :: "idc_env \<Rightarrow> idcclient \<Rightarrow> supdrv \<Rightarrow> addr \<Rightarrow> addr \<Rightarrow> (status \<times> supdrv) option" where
  "SUPR0IdcComponentDeregisterFactory env = idc_component_call env (SUP_IDC_CODE 11)"

text \<open>The stubs: \<open>name\<close> is the address of the name of the function, a constant of the client.\<close>

definition supR0IdcGetSymbol :: "idc_env \<Rightarrow> idcclient \<Rightarrow> supdrv \<Rightarrow> addr \<Rightarrow> idc_fn \<Rightarrow> addr \<Rightarrow> (idcclient \<times> supdrv) option" where
  "supR0IdcGetSymbol env cl w pHandle fn pszName = do {
     (rc, b, w1) \<leftarrow> supR0IdcNativeCall env (SUP_IDC_CODE 3) w
       (idc_packet env 32 (cl_pSession cl pHandle) (le_bytes 8 (0 :: addr) @ le_bytes 8 pszName));
     if RT_SUCCESS rc then map_option (\<lambda>pfn. (cl\<lparr>cl_pfn := (cl_pfn cl)(fn := pfn)\<rparr>, w1)) (get64 b 16)
     else Some (cl, w1) }"

definition supR0IdcGetSymbolBySession ::
  "idc_env \<Rightarrow> idcclient \<Rightarrow> supdrv \<Rightarrow> addr \<Rightarrow> idc_fn \<Rightarrow> addr \<Rightarrow> (idcclient \<times> supdrv) option" where
  "supR0IdcGetSymbolBySession env cl w pSession fn pszName =
     (let pHandle = supR0IdcGetHandleFromSession cl pSession
      in if pHandle \<noteq> 0 then supR0IdcGetSymbol env cl w pHandle fn pszName else Some (cl, w))"

text \<open>
  Every stub looks its function up once; \<open>call\<close> is the call of the function at an address and \<open>d\<close> what
  the stub answers when there is none.
\<close>

definition idc_stub ::
  "idc_env \<Rightarrow> idcclient \<Rightarrow> supdrv \<Rightarrow> addr \<Rightarrow> idc_fn \<Rightarrow> addr \<Rightarrow> 'a \<Rightarrow> (addr \<Rightarrow> supdrv \<Rightarrow> ('a \<times> supdrv) option) \<Rightarrow>
   ('a \<times> idcclient \<times> supdrv) option" where
  "idc_stub env cl w pSession fn pszName d call = do {
     (cl1, w1) \<leftarrow> (if cl_pfn cl fn = 0 then supR0IdcGetSymbolBySession env cl w pSession fn pszName else Some (cl, w));
     if cl_pfn cl1 fn = 0 then Some (d, cl1, w1)
     else map_option (\<lambda>(r, w2). (r, cl1, w2)) (call (cl_pfn cl1 fn) w1) }"

text \<open>The four stubs; \<open>call\<close> passes the arguments of the caller on to the function found.\<close>

definition stub_SUPR0ObjRegister ::
  "idc_env \<Rightarrow> idcclient \<Rightarrow> supdrv \<Rightarrow> addr \<Rightarrow> addr \<Rightarrow> (addr \<Rightarrow> supdrv \<Rightarrow> (addr \<times> supdrv) option) \<Rightarrow> (addr \<times> idcclient \<times> supdrv) option" where
  "stub_SUPR0ObjRegister env cl w pSession pszName call = idc_stub env cl w pSession IdcObjRegister pszName 0 call"

definition stub_SUPR0ObjAddRef ::
  "idc_env \<Rightarrow> idcclient \<Rightarrow> supdrv \<Rightarrow> addr \<Rightarrow> addr \<Rightarrow> (addr \<Rightarrow> supdrv \<Rightarrow> (status \<times> supdrv) option) \<Rightarrow> (status \<times> idcclient \<times> supdrv) option" where
  "stub_SUPR0ObjAddRef env cl w pSession pszName call = idc_stub env cl w pSession IdcObjAddRef pszName VERR_NOT_SUPPORTED call"

definition stub_SUPR0ObjRelease ::
  "idc_env \<Rightarrow> idcclient \<Rightarrow> supdrv \<Rightarrow> addr \<Rightarrow> addr \<Rightarrow> (addr \<Rightarrow> supdrv \<Rightarrow> (status \<times> supdrv) option) \<Rightarrow> (status \<times> idcclient \<times> supdrv) option" where
  "stub_SUPR0ObjRelease env cl w pSession pszName call = idc_stub env cl w pSession IdcObjRelease pszName VERR_NOT_SUPPORTED call"

definition stub_SUPR0ObjVerifyAccess ::
  "idc_env \<Rightarrow> idcclient \<Rightarrow> supdrv \<Rightarrow> addr \<Rightarrow> addr \<Rightarrow> (addr \<Rightarrow> supdrv \<Rightarrow> (status \<times> supdrv) option) \<Rightarrow> (status \<times> idcclient \<times> supdrv) option" where
  "stub_SUPR0ObjVerifyAccess env cl w pSession pszName call = idc_stub env cl w pSession IdcObjVerifyAccess pszName VERR_NOT_SUPPORTED call"

subsection \<open>Packets\<close>

lemma get64_other: "put b i bs = Some b' \<Longrightarrow> j + 8 \<le> i \<or> i + length bs \<le> j \<Longrightarrow> get64 b' j = get64 b j"
  using put_other [of b i bs b' j 8] by (simp add: get64_def copy_bytes_def)

lemma get_at:
  "length xs = i \<Longrightarrow> get32 (xs @ le_bytes 4 (x :: u32) @ ys) i = Some x"
  "length xs = i \<Longrightarrow> get64 (xs @ le_bytes 8 (y :: u64) @ ys) i = Some y"
  by (simp_all add: get32_def get64_def copy_bytes_def)

lemma put_same:
  "put b i (le_bytes 4 (x :: u32)) = Some b' \<Longrightarrow> get32 b' i = Some x"
  "put b i (le_bytes 8 (y :: u64)) = Some b' \<Longrightarrow> get64 b' i = Some y"
  using get_at [of "take i b" i] by (auto simp: put_def split: if_splits)

lemma put_fits: "i + length bs \<le> length b \<Longrightarrow> \<exists>b'. put b i bs = Some b' \<and> length b' = length b"
  by (simp add: put_def)

lemma length_packet: "16 + length ins \<le> cb \<Longrightarrow> length (idc_packet env cb p ins) = cb"
  by (simp add: idc_packet_def)

lemma packet_hdr:
  "get32 (idc_packet env cb p ins) 0 = Some (of_nat cb)" "get64 (idc_packet env cb p ins) 8 = Some p"
  unfolding idc_packet_def using get_at(1) [of "[]" 0] get_at(2) [of "le_bytes 4 x @ le_bytes 4 (y :: u32)" 8 p for x y :: u32]
  by simp_all

text \<open>The outputs of a connection can be read back, and leave the status alone.\<close>

lemma connect_out:
  assumes "40 \<le> length b"
  shows "\<exists>b'. idc_connect_out b p v r = Some b' \<and> length b' = length b \<and> get64 b' 16 = Some p \<and> get32 b' 24 = Some v \<and>
    get32 b' 28 = Some SUPDRV_IDC_VERSION \<and> get32 b' 32 = Some r \<and> get64 b' 8 = get64 b 8"
proof -
  obtain b1 where b1: "put b 16 (le_bytes 8 p) = Some b1" "length b1 = length b" using put_fits [of 16 "le_bytes 8 p" b] assms by auto
  obtain b2 where b2: "put b1 24 (le_bytes 4 v) = Some b2" "length b2 = length b" using put_fits [of 24 "le_bytes 4 v" b1] assms b1(2) by auto
  obtain b3 where b3: "put b2 28 (le_bytes 4 SUPDRV_IDC_VERSION) = Some b3" "length b3 = length b"
    using put_fits [of 28 "le_bytes 4 SUPDRV_IDC_VERSION" b2] assms b2(2) by auto
  obtain b4 where b4: "put b3 32 (le_bytes 4 r) = Some b4" "length b4 = length b" using put_fits [of 32 "le_bytes 4 r" b3] assms b3(2) by auto
  show ?thesis
    using b1 b2 b3 b4 put_same(2) [OF b1(1)] put_same(1) [OF b2(1)] put_same(1) [OF b3(1)] put_same(1) [OF b4(1)]
      get64_other [OF b2(1), of 16] get64_other [OF b3(1), of 16] get64_other [OF b4(1), of 16] get32_other [OF b3(1), of 24]
      get32_other [OF b4(1), of 24] get32_other [OF b4(1), of 28] get64_other [OF b1(1), of 8] get64_other [OF b2(1), of 8]
      get64_other [OF b3(1), of 8] get64_other [OF b4(1), of 8]
    by (simp add: idc_connect_out_def)
qed

lemma put_rc_ok:
  assumes "8 \<le> length b"
  shows "\<exists>b'. put_rc b rc = Some b' \<and> length b' = length b \<and> get32 b' 4 = Some (word_of_int rc) \<and>
    (\<forall>j\<ge>8. get32 b' j = get32 b j \<and> get64 b' j = get64 b j)"
proof -
  obtain b' where b': "put_rc b rc = Some b'" "length b' = length b"
    using put_fits [of 4 "le_bytes 4 (word_of_int rc :: u32)" b] assms by (auto simp: put_rc_def)
  then show ?thesis using put_same(1) [of b 4 _ b'] get32_other [of b 4 _ b'] get64_other [of b 4 _ b'] by (auto simp: put_rc_def)
qed

lemma idc_codes: "SUP_IDC_CODE 1 = 0xc0ffee01" "SUP_IDC_CODE 2 = 0xc0ffee02" "SUP_IDC_CODE 3 = 0xc0ffee03"
  "SUP_IDC_CODE 10 = 0xc0ffee0a" "SUP_IDC_CODE 11 = 0xc0ffee0b"
  by (simp_all add: SUP_IDC_CODE_def)
subsection \<open>Every request is safe\<close>

text \<open>
  What the host guarantees: a new session gets a free address, and memory can be freed.
\<close>

definition idc_fits :: "idc_env \<Rightarrow> supdrv \<Rightarrow> bool" where
  "idc_fits env w \<longleftrightarrow> (idc_pNew env = 0 \<or> RT_VALID_PTR (idc_pNew env) \<and> w_sess w (idc_pNew env) = None) \<and>
     card (dom (w_sess w)) + 1 < 2 ^ 32 \<and> (\<forall>n. hst_Free (idc_hst env) n = VINF_SUCCESS)"

text \<open>
  The requests for which the driver reads through a dangling pointer of the caller: one with a session that is not there,
  and the registration of a factory that is not there, by a session of the kernel.
\<close>

definition idc_dead :: "idc_env \<Rightarrow> supdrv \<Rightarrow> u32 \<Rightarrow> u8 list \<Rightarrow> addr \<Rightarrow> bool" where
  "idc_dead env w uReq b sp \<longleftrightarrow> RT_VALID_PTR (idc_pReq env) \<and> RT_VALID_PTR sp \<and>
     (case w_sess w sp of
        None \<Rightarrow> True
      | Some s \<Rightarrow> uReq = SUP_IDC_CODE 10 \<and> ses_R0Process s = NIL_RTR0PROCESS \<and> length b = 24 \<and>
          (\<exists>p. get64 b 16 = Some p \<and> RT_VALID_PTR p \<and> w_factories w p = None))"

text \<open>
  What the successful lookup of a symbol in a loaded image does: the session gets one more usage of the image,
  and the image, its count included, stays as it is.
\<close>

definition idc_uncounted :: "supdrv \<Rightarrow> addr \<Rightarrow> supdrv \<Rightarrow> bool" where
  "idc_uncounted w sp w' \<longleftrightarrow> w_imgs w' = w_imgs w \<and>
     (\<exists>p im. w_imgs w p = Some im \<and> img_uState im = SUP_LDR_LOAD \<and> supdrvLdrAddUsage w sp p True = Some (VINF_SUCCESS, w'))"

text \<open>A request is answered in its packet, with a state of which \<open>P\<close> holds.\<close>

definition idc_safe :: "(supdrv \<Rightarrow> bool) \<Rightarrow> idc_result \<Rightarrow> u8 list \<Rightarrow> supdrv \<Rightarrow> bool" where
  "idc_safe P r b w \<longleftrightarrow> (\<exists>rc b' w'. r = Some (rc, b', w') \<and> length b' = length b \<and> P w' \<and> (rc \<noteq> 0 \<longrightarrow> w' = w))"

lemma idc_safe_mono: "idc_safe P r b w \<Longrightarrow> (\<And>w'. P w' \<Longrightarrow> Q w') \<Longrightarrow> idc_safe Q r b w"
  by (auto simp: idc_safe_def)

lemma idc_size:
  assumes "P w" "get32 b 0 = Some cb" "unat cb = length b" "8 \<le> length b" "cb = n \<Longrightarrow> idc_safe P k b w"
  shows "idc_safe P (REQ_CHECK_IDC_SIZE b w n k) b w"
  using assms put_rc_ok [OF assms(4), of VERR_INVALID_PARAMETER] by (auto simp: REQ_CHECK_IDC_SIZE_def idc_refuse_def idc_safe_def)

lemma idc_refuse_safe: "P w \<Longrightarrow> 8 \<le> length b \<Longrightarrow> idc_safe P (idc_refuse b w) b w"
  using put_rc_ok [of b VERR_INVALID_PARAMETER] by (auto simp: idc_refuse_def idc_safe_def)

lemma idc_done_safe: "P w' \<Longrightarrow> 8 \<le> length b \<Longrightarrow> idc_safe P (map_option (\<lambda>b1. (VINF_SUCCESS, b1, w')) (put_rc b rc)) b w"
  using put_rc_ok [of b rc] by (auto simp: idc_safe_def)

lemma new_session_ok:
  assumes "40 \<le> length b"
    "supdrvCreateSession (idc_pNew env) (idc_rcSpinlock env) (idc_fMem env) (idc_rcLock env) (idc_procs env) False w = (rc, p, w1)"
  shows "\<exists>b'. idc_new_session env w b = Some (VINF_SUCCESS, b', w1) \<and> length b' = length b \<and> get32 b' 4 = Some (word_of_int rc) \<and>
    (RT_SUCCESS rc \<longrightarrow> get64 b' 16 = Some p \<and> get32 b' 24 = Some SUPDRV_IDC_VERSION \<and> get32 b' 28 = Some SUPDRV_IDC_VERSION \<and>
      get32 b' 32 = Some (idc_uRevision env))"
proof -
  obtain b1 where b1: "idc_connect_out b 0 SUPDRV_IDC_VERSION (idc_uRevision env) = Some b1" "length b1 = length b"
    "get32 b1 24 = Some SUPDRV_IDC_VERSION" "get32 b1 28 = Some SUPDRV_IDC_VERSION" "get32 b1 32 = Some (idc_uRevision env)"
    using connect_out [OF assms(1), of 0 SUPDRV_IDC_VERSION "idc_uRevision env"] by blast
  obtain b2 where b2: "put_rc b1 rc = Some b2" "length b2 = length b" "get32 b2 4 = Some (word_of_int rc)"
    "\<forall>j\<ge>8. get32 b2 j = get32 b1 j" using put_rc_ok [of b1 rc] assms(1) b1(2) by auto
  obtain b3 where b3: "put b2 16 (le_bytes 8 p) = Some b3" "length b3 = length b"
    using put_fits [of 16 "le_bytes 8 p" b2] assms(1) b2(2) by auto
  obtain b4 where b4: "put b3 8 (le_bytes 8 p) = Some b4" "length b4 = length b"
    using put_fits [of 8 "le_bytes 8 p" b3] assms(1) b3(2) by auto
  have o: "get32 b4 j = get32 b2 j" if "j + 4 \<le> 8 \<or> 24 \<le> j" for j
    using get32_other [OF b3(1), of j] get32_other [OF b4(1), of j] that by auto
  have p16: "get64 b4 16 = Some p" using put_same(2) [OF b3(1)] get64_other [OF b4(1), of 16] by simp
  show ?thesis
  proof (cases "RT_SUCCESS rc")
    case True
    then show ?thesis using b1 b2 b3 b4 o p16 by (simp add: idc_new_session_def assms(2) RT_FAILURE_def)
  next
    case False
    then show ?thesis using b1 b2 by (simp add: idc_new_session_def assms(2) RT_FAILURE_def)
  qed
qed

lemma idc_connect_safe:
  assumes "drv_inv w" "idc_fits env w" "get32 b 0 = Some cb" "unat cb = length b" "16 \<le> length b"
  shows "idc_safe drv_inv (idc_connect env w sp b) b w"
  unfolding idc_connect_def
proof (rule idc_size [where P = drv_inv, OF assms(1,3,4)])
  show "8 \<le> length b" using assms(5) by simp
  assume "cb = 40"
  then have l: "40 \<le> length b" using assms(4) by simp
  obtain rc p w1 where c: "supdrvCreateSession (idc_pNew env) (idc_rcSpinlock env) (idc_fMem env) (idc_rcLock env) (idc_procs env) False w =
    (rc, p, w1)" by (metis surj_pair)
  have "drv_inv w1" using CreateSession_drv [OF assms(1) _ _ c] assms(2) by (simp add: idc_fits_def)
  then have n: "idc_safe drv_inv (idc_new_session env w b) b w" using new_session_ok [OF l c] by (auto simp: idc_safe_def)
  obtain b1 where b1: "idc_connect_out b 0 0xffffffff (idc_uRevision env) = Some b1" "length b1 = length b"
    using connect_out [OF l] by blast
  have m: "idc_safe drv_inv (Option.bind (idc_connect_out b 0 0xffffffff (idc_uRevision env))
      (\<lambda>b1. map_option (\<lambda>b2. (VINF_SUCCESS, b2, w)) (put_rc b1 VERR_VERSION_MISMATCH))) b w"
    using idc_done_safe [of drv_inv, OF assms(1), of b1 VERR_VERSION_MISMATCH w] b1 l by (simp add: idc_safe_def)
  have r: "idc_safe drv_inv (idc_refuse b w) b w" using idc_refuse_safe [of drv_inv, OF assms(1)] l by simp
  show "idc_safe drv_inv (do {
     pHdrSession \<leftarrow> get64 b 8; u32MagicCookie \<leftarrow> get32 b 16; uReqVersion \<leftarrow> get32 b 20; uMinVersion \<leftarrow> get32 b 24;
     if pHdrSession \<noteq> 0 then idc_refuse b w
     else if u32MagicCookie \<noteq> 0x69726f74 then idc_refuse b w
     else if uReqVersion < uMinVersion \<or> uMinVersion AND 0xffff0000 \<noteq> uReqVersion AND 0xffff0000 then idc_refuse b w
     else if sp \<noteq> 0 then idc_refuse b w
     else if SUPDRV_IDC_VERSION < uMinVersion \<or> uMinVersion AND 0xffff0000 \<noteq> SUPDRV_IDC_VERSION AND 0xffff0000 then do {
       b1 \<leftarrow> idc_connect_out b 0 0xffffffff (idc_uRevision env);
       map_option (\<lambda>b2. (VINF_SUCCESS, b2, w)) (put_rc b1 VERR_VERSION_MISMATCH) }
     else idc_new_session env w b }) b w"
    using l n m r by (simp add: get_in)
qed

lemma factory_drv:
  assumes "drv_inv w"
  shows "drv_inv (set_dx w (\<lambda>dx. dx\<lparr>dx_pComponentFactoryHead := f dx\<rparr>))" (is "drv_inv ?w")
proof -
  have v: "sess_view g ?w = sess_view g w" for g by (simp add: sess_view_def)
  show ?thesis by (rule drv_inv_views [OF assms]) (simp_all add: drv_views v)
qed

lemma register_drv:
  assumes "drv_inv w" "w_sess w sp = Some s"
  shows "RT_VALID_PTR p \<longrightarrow> w_factories w p \<noteq> None \<Longrightarrow>
      \<exists>rc w1. SUPR0ComponentRegisterFactory rcMtx fAlloc w sp p = Some (rc, w1) \<and> drv_inv w1 \<and> w_sess w1 = w_sess w"
    "\<exists>rc w1. SUPR0ComponentDeregisterFactory rcMtx w sp p = Some (rc, w1) \<and> drv_inv w1 \<and> w_sess w1 = w_sess w"
proof -
  note v = drv_inv_sess(1) [OF assms(1,2)]
  assume "RT_VALID_PTR p \<longrightarrow> w_factories w p \<noteq> None"
  then obtain F where "\<not> RT_VALID_PTR p \<or> w_factories w p = Some F" by blast
  then show "\<exists>rc w1. SUPR0ComponentRegisterFactory rcMtx fAlloc w sp p = Some (rc, w1) \<and> drv_inv w1 \<and> w_sess w1 = w_sess w"
    unfolding SUPR0ComponentRegisterFactory_def with_session_ok [OF assms(2) v] using assms(1) factory_drv [OF assms(1)]
    by (auto split: option.split)
next
  note v = drv_inv_sess(1) [OF assms(1,2)]
  show "\<exists>rc w1. SUPR0ComponentDeregisterFactory rcMtx w sp p = Some (rc, w1) \<and> drv_inv w1 \<and> w_sess w1 = w_sess w"
    unfolding SUPR0ComponentDeregisterFactory_def with_session_ok [OF assms(2) v] using assms(1) factory_drv [OF assms(1)]
    by auto
qed

text \<open>A lookup is answered, and all it can do is to add the usage.\<close>

lemma find_symbol_total: "ldr_inv w \<Longrightarrow> w_imgs w p = Some im \<Longrightarrow> ldr_find_symbol im sz \<noteq> None"
  by (auto simp: ldr_inv_def ldr_find_symbol_find)

lemma add_usage_uncounted:
  assumes "w_sess w sp = Some s" "w_imgs w p = Some im" "img_uState im = SUP_LDR_LOAD"
  shows "\<exists>rc w1. supdrvLdrAddUsage w sp p fMem = Some (rc, w1) \<and> (w1 = w \<or> idc_uncounted w sp w1)"
proof -
  have "\<exists>w1. supdrvLdrAddUsage w sp p True = Some (VINF_SUCCESS, w1) \<and> w_imgs w1 = w_imgs w"
    using assms(1) by (cases "find (\<lambda>u. lus_pImage u = p) (ses_pLdrUsage s) = None") (simp_all add: supdrvLdrAddUsage_def)
  then obtain w1 where w1: "supdrvLdrAddUsage w sp p True = Some (VINF_SUCCESS, w1)" "w_imgs w1 = w_imgs w" by blast
  have "idc_uncounted w sp w1" using w1 assms(2,3) by (auto simp: idc_uncounted_def)
  moreover have "supdrvLdrAddUsage w sp p fMem = Some (VINF_SUCCESS, w1) \<or> (\<exists>rc. supdrvLdrAddUsage w sp p fMem = Some (rc, w))"
    using assms(1) w1(1) by (cases fMem) (auto simp: supdrvLdrAddUsage_def split: if_splits)
  ultimately show ?thesis by blast
qed

lemma idc_symbol_cases:
  assumes "ldr_inv w" "w_sess w sp = Some s"
  shows "\<exists>rc out w1. supdrvIDC_LdrGetSymbol fns fMem w sp pm ps = Some (rc, out, w1) \<and> (w1 = w \<or> idc_uncounted w sp w1)"
proof (cases "\<exists>m sz. pm = PBuf m \<and> ps = PBuf sz \<and> RTStrEnd sz 512 \<noteq> None \<and> RTStrEnd m 64 \<noteq> None \<and> cstr m \<noteq> SupDrv_name")
  case False
  then show ?thesis by (cases ps; cases pm) (auto simp: supdrvIDC_LdrGetSymbol_def)
next
  case True
  then obtain m sz where m: "pm = PBuf m" "ps = PBuf sz" "RTStrEnd sz 512 \<noteq> None" "RTStrEnd m 64 \<noteq> None" "cstr m \<noteq> SupDrv_name" by blast
  let ?P = "\<lambda>im. cstr (img_szName im) = cstr m"
  have "deref_find (w_imgs w) ?P (dx_pLdrImages (w_devext w)) \<noteq> None" by (rule deref_find_safe) (use assms(1) in \<open>simp add: ldr_inv_def\<close>)
  then obtain r where r: "deref_find (w_imgs w) ?P (dx_pLdrImages (w_devext w)) = Some r" by blast
  show ?thesis
  proof (cases r)
    case None
    then show ?thesis using m r by (simp add: supdrvIDC_LdrGetSymbol_def)
  next
    case (Some q)
    obtain p im where q: "q = (p, im)" by (cases q)
    have p: "w_imgs w p = Some im" using deref_find_Some [of "w_imgs w" ?P] r Some q by blast
    obtain x where x: "ldr_find_symbol im sz = Some x" using find_symbol_total [OF assms(1) p, of sz] by blast
    show ?thesis
    proof (cases "img_uState im = SUP_LDR_LOAD \<and> x \<noteq> None")
      case False
      then show ?thesis using m r Some q x by (cases x) (auto simp: supdrvIDC_LdrGetSymbol_def)
    next
      case t: True
      then obtain off where off: "x = Some off" by auto
      from add_usage_uncounted [OF assms(2) p conjunct1 [OF t], of fMem] obtain rc w1 where
        "supdrvLdrAddUsage w sp p fMem = Some (rc, w1)" "w1 = w \<or> idc_uncounted w sp w1" by blast
      then show ?thesis using m r Some q x off t by (simp add: supdrvIDC_LdrGetSymbol_def)
    qed
  qed
qed

lemma idc_calls_safe:
  assumes "drv_inv w" "idc_fits env w" "get32 b 0 = Some cb" "unat cb = length b" "16 \<le> length b" "w_sess w sp = Some s"
  shows "idc_safe drv_inv (idc_disconnect env w sp b) b w" "idc_safe drv_inv (idc_deregister env w sp b) b w"
    "(\<And>p. length b = 24 \<Longrightarrow> get64 b 16 = Some p \<Longrightarrow> RT_VALID_PTR p \<Longrightarrow> w_factories w p \<noteq> None) \<Longrightarrow>
       idc_safe drv_inv (idc_register env w sp b) b w"
    "idc_safe (\<lambda>w'. w' = w \<or> idc_uncounted w sp w') (idc_get_symbol env w sp b) b w"
proof -
  have l: "8 \<le> length b" using assms(5) by simp
  have h: "\<forall>n. hst_Free (idc_hst env) n = VINF_SUCCESS" using assms(2) by (simp add: idc_fits_def)
  obtain w1 where "supdrvCloseSession (idc_hst env) w sp = Some w1" "drv_inv w1"
    using CloseSession_drv [OF assms(1,6) h] by blast
  then show "idc_safe drv_inv (idc_disconnect env w sp b) b w"
    unfolding idc_disconnect_def by (intro idc_size [where P = drv_inv, OF assms(1,3,4) l]) (simp add: idc_done_safe l)
  show "idc_safe drv_inv (idc_deregister env w sp b) b w"
    unfolding idc_deregister_def
  proof (rule idc_size [where P = drv_inv, OF assms(1,3,4) l])
    assume "cb = 24"
    then obtain p where p: "get64 b 16 = Some p" using assms(4) by (auto simp: get_in)
    from register_drv(2) [OF assms(1,6), of "idc_rcMtx env" p] obtain rc w1 where
      "SUPR0ComponentDeregisterFactory (idc_rcMtx env) w sp p = Some (rc, w1)" "drv_inv w1" by blast
    with p idc_done_safe [of drv_inv, OF this(2) l] show "idc_safe drv_inv (do {
        pFactory \<leftarrow> get64 b 16;
        (rc, w1) \<leftarrow> SUPR0ComponentDeregisterFactory (idc_rcMtx env) w sp pFactory;
        map_option (\<lambda>b1. (VINF_SUCCESS, b1, w1)) (put_rc b rc) }) b w" by simp
  qed
next
  have l: "8 \<le> length b" using assms(5) by simp
  assume own: "\<And>p. length b = 24 \<Longrightarrow> get64 b 16 = Some p \<Longrightarrow> RT_VALID_PTR p \<Longrightarrow> w_factories w p \<noteq> None"
  show "idc_safe drv_inv (idc_register env w sp b) b w"
    unfolding idc_register_def
  proof (rule idc_size [where P = drv_inv, OF assms(1,3,4) l])
    assume "cb = 24"
    then have l24: "length b = 24" using assms(4) by simp
    then obtain p where p: "get64 b 16 = Some p" by (auto simp: get_in)
    from register_drv(1) [OF assms(1,6), of p "idc_rcMtx env" "idc_fAlloc env"] own [OF l24 p] obtain rc w1 where
      "SUPR0ComponentRegisterFactory (idc_rcMtx env) (idc_fAlloc env) w sp p = Some (rc, w1)" "drv_inv w1" by blast
    with p idc_done_safe [of drv_inv, OF this(2) l] show "idc_safe drv_inv (do {
        pFactory \<leftarrow> get64 b 16;
        (rc, w1) \<leftarrow> SUPR0ComponentRegisterFactory (idc_rcMtx env) (idc_fAlloc env) w sp pFactory;
        map_option (\<lambda>b1. (VINF_SUCCESS, b1, w1)) (put_rc b rc) }) b w" by simp
  qed
next
  have l: "8 \<le> length b" using assms(5) by simp
  let ?P = "\<lambda>w'. w' = w \<or> idc_uncounted w sp w'"
  show "idc_safe ?P (idc_get_symbol env w sp b) b w"
    unfolding idc_get_symbol_def
  proof (rule idc_size [where P = ?P, OF disjI1 [OF refl] assms(3,4) l])
    assume "cb = 32"
    then have l32: "length b = 32" using assms(4) by simp
    then obtain p q where p: "get64 b 16 = Some p" "get64 b 24 = Some q" by (simp add: get_in)
    obtain rc out w1 where r: "supdrvIDC_LdrGetSymbol (idc_aFunctions env) (idc_fMem env) w sp (idc_ptr env p) (idc_ptr env q) = Some (rc, out, w1)" "?P w1"
      using idc_symbol_cases [OF drv_invD(3) [OF assms(1)] assms(6)] by blast
    have "\<exists>b1. (case out of None \<Rightarrow> Some b | Some pfn \<Rightarrow> put b 16 (le_bytes 8 pfn)) = Some b1 \<and> length b1 = length b"
      using put_fits [of 16 "le_bytes 8 x" b for x :: u64] l32 by (cases out) auto
    then obtain b1 where b1: "(case out of None \<Rightarrow> Some b | Some pfn \<Rightarrow> put b 16 (le_bytes 8 pfn)) = Some b1" "length b1 = length b" by blast
    then have "idc_safe ?P (map_option (\<lambda>b2. (VINF_SUCCESS, b2, w1)) (put_rc b1 rc)) b w"
      using idc_done_safe [of ?P, OF r(2), of b1 rc w] l by (simp add: idc_safe_def)
    with p r(1) b1(1) show "idc_safe ?P (do {
        pszModule \<leftarrow> get64 b 16; pszSymbol \<leftarrow> get64 b 24;
        (rc, pfnSymbol, w1) \<leftarrow>
          supdrvIDC_LdrGetSymbol (idc_aFunctions env) (idc_fMem env) w sp (idc_ptr env pszModule) (idc_ptr env pszSymbol);
        b1 \<leftarrow> (case pfnSymbol of None \<Rightarrow> Some b | Some pfn \<Rightarrow> put b 16 (le_bytes 8 pfn));
        map_option (\<lambda>b2. (VINF_SUCCESS, b2, w1)) (put_rc b1 rc) }) b w" by simp
  qed
qed

lemma register_dead:
  assumes "w_sess w sp = Some s" "SUP_IS_SESSION_VALID sp s" "ses_R0Process s = NIL_RTR0PROCESS" "get32 b 0 = Some 24"
    "get64 b 16 = Some p" "RT_VALID_PTR p" "w_factories w p = None"
  shows "idc_register env w sp b = None"
  using assms(3-7)
  by (simp add: idc_register_def REQ_CHECK_IDC_SIZE_def SUPR0ComponentRegisterFactory_def with_session_ok [OF assms(1,2)])

lemma LinuxIDC_ok:
  assumes "drv_inv w" "idc_fits env w" "get32 b 0 = Some cb" "unat cb = length b" "16 \<le> length b" "get64 b 8 = Some sp"
  shows "if idc_dead env w uReq b sp then SUPDrvLinuxIDC env uReq w b = None
    else idc_safe (\<lambda>w'. drv_inv w' \<or> uReq = SUP_IDC_CODE 3 \<and> idc_uncounted w sp w') (SUPDrvLinuxIDC env uReq w b) b w"
proof -
  define P where P: "P = (\<lambda>w'. drv_inv w' \<or> uReq = SUP_IDC_CODE 3 \<and> idc_uncounted w sp w')"
  have n: "idc_safe P (Some (rc, b, w)) b w" for rc using assms(1) by (simp add: idc_safe_def P)
  have d: "idc_safe drv_inv r b w \<Longrightarrow> idc_safe P r b w" for r by (erule idc_safe_mono) (simp add: P)
  note con = d [OF idc_connect_safe [OF assms(1-5)]]
  have "if idc_dead env w uReq b sp then SUPDrvLinuxIDC env uReq w b = None else idc_safe P (SUPDrvLinuxIDC env uReq w b) b w"
  proof (cases "RT_VALID_PTR (idc_pReq env) \<and> RT_VALID_PTR sp")
    case False
    have "sp = 0 \<Longrightarrow> uReq = SUP_IDC_CODE 1 \<Longrightarrow> idc_safe P (supdrvIDC env uReq w sp b) b w"
      using con by (simp add: supdrvIDC_def idc_switch_def)
    moreover have "\<not> idc_dead env w uReq b sp" using False by (auto simp: idc_dead_def)
    ultimately show ?thesis unfolding SUPDrvLinuxIDC_def using assms(6) False n by auto
  next
    case v: True
    then have z: "sp \<noteq> 0" by auto
    show ?thesis
    proof (cases "w_sess w sp")
      case None
      then show ?thesis using v z assms(6) by (simp add: idc_dead_def SUPDrvLinuxIDC_def)
    next
      case (Some s)
      have run: "SUPDrvLinuxIDC env uReq w b =
          (if ses_R0Process s \<noteq> NIL_RTR0PROCESS then Some (VERR_INVALID_PARAMETER, b, w) else idc_switch env uReq w sp b)"
        using v z Some assms(6) by (simp add: SUPDrvLinuxIDC_def supdrvIDC_def)
      note C = idc_calls_safe [OF assms(1-5) Some]
      have sym: "idc_safe P (idc_get_symbol env w sp b) b w" if "uReq = SUP_IDC_CODE 3"
        by (rule idc_safe_mono [OF C(4)]) (use that assms(1) in \<open>auto simp: P\<close>)
      show ?thesis
      proof (cases "idc_dead env w uReq b sp")
        case True
        then obtain p where p: "uReq = SUP_IDC_CODE 10" "ses_R0Process s = NIL_RTR0PROCESS" "length b = 24" "get64 b 16 = Some p"
          "RT_VALID_PTR p" "w_factories w p = None" using Some by (auto simp: idc_dead_def)
        have "cb = 24" using assms(4) p(3) by (simp add: word_unat_eq_iff)
        then have "idc_register env w sp b = None"
          using register_dead [OF Some drv_inv_sess(1) [OF assms(1) Some] p(2) _ p(4-6)] assms(3) by simp
        then have "idc_switch env uReq w sp b = None" using p(1) by (simp add: idc_switch_def idc_codes)
        then show ?thesis using True p(2) run by simp
      next
        case False
        have "ses_R0Process s = NIL_RTR0PROCESS \<Longrightarrow> uReq = SUP_IDC_CODE 10 \<Longrightarrow> idc_safe P (idc_register env w sp b) b w"
          using d [OF C(3)] False v Some by (auto simp: idc_dead_def)
        then show ?thesis using False con n d [OF C(1)] d [OF C(2)] sym by (simp add: run idc_switch_def)
      qed
    qed
  qed
  then show ?thesis unfolding P .
qed


lemma sint_rc: "- (2 ^ 31) \<le> rc \<Longrightarrow> rc < 2 ^ 31 \<Longrightarrow> sint (word_of_int rc :: u32) = rc"
  by (simp add: signed_take_bit_int_eq_self sint_sbintrunc')
subsection \<open>Opening and closing a connection\<close>

lemma connect_packet:
  fixes rq mn :: u32 and env :: idc_env
  defines "b \<equiv> idc_packet env 40 0 (le_bytes 4 (0x69726f74 :: u32) @ le_bytes 4 rq @ le_bytes 4 mn)"
  shows "length b = 40" "get32 b 0 = Some 40" "get64 b 8 = Some 0" "get32 b 16 = Some 0x69726f74" "get32 b 20 = Some rq" "get32 b 24 = Some mn"
proof -
  let ?h = "le_bytes 4 (of_nat 40 :: u32) @ le_bytes 4 (word_of_int VERR_WRONG_ORDER :: u32) @ le_bytes 8 (0 :: u64)"
  let ?j = "map (idc_junk env) [0..<40 - 16 - 12]"
  have e: "b = ?h @ le_bytes 4 (0x69726f74 :: u32) @ le_bytes 4 rq @ le_bytes 4 mn @ ?j"
    by (simp add: b_def idc_packet_def)
  show "length b = 40" "get32 b 0 = Some 40" "get64 b 8 = Some 0"
    using packet_hdr [of env 40 0] by (simp_all add: b_def length_packet)
  show "get32 b 16 = Some 0x69726f74" unfolding e by (rule get_at(1)) simp
  show "get32 b 20 = Some rq" unfolding e using get_at(1) [of "?h @ le_bytes 4 (0x69726f74 :: u32)" 20 rq] by simp
  show "get32 b 24 = Some mn" unfolding e using get_at(1) [of "?h @ le_bytes 4 (0x69726f74 :: u32) @ le_bytes 4 rq" 24 mn] by simp
qed

text \<open>The status the driver gives to a connection with a requested and a minimal version.\<close>

definition idc_verdict :: "u32 \<Rightarrow> u32 \<Rightarrow> status" where
  "idc_verdict uReqVersion uMinVersion =
     (if uReqVersion < uMinVersion \<or> uMinVersion AND 0xffff0000 \<noteq> uReqVersion AND 0xffff0000 then VERR_INVALID_PARAMETER
      else if SUPDRV_IDC_VERSION < uMinVersion \<or> uMinVersion AND 0xffff0000 \<noteq> SUPDRV_IDC_VERSION AND 0xffff0000
      then VERR_VERSION_MISMATCH
      else VINF_SUCCESS)"

definition status32 :: "status \<Rightarrow> bool" where
  "status32 rc \<longleftrightarrow> - (2 ^ 31) \<le> rc \<and> rc < 2 ^ 31"

lemma NativeOpen_ok:
  fixes rq mn :: u32 and env :: idc_env
  defines "b \<equiv> idc_packet env 40 0 (le_bytes 4 (0x69726f74 :: u32) @ le_bytes 4 rq @ le_bytes 4 mn)"
  assumes "RT_VALID_PTR (idc_pReq env)" "status32 rc"
    "supdrvCreateSession (idc_pNew env) (idc_rcSpinlock env) (idc_fMem env) (idc_rcLock env) (idc_procs env) False w = (rc, p, w1)"
  shows "\<exists>b'. supR0IdcNativeOpen env w b =
      (if idc_verdict rq mn = VINF_SUCCESS then Some (rc, b', w1) else Some (idc_verdict rq mn, b', w)) \<and>
    (idc_verdict rq mn = VINF_SUCCESS \<longrightarrow> RT_SUCCESS rc \<longrightarrow> get64 b' 16 = Some p \<and> get32 b' 24 = Some SUPDRV_IDC_VERSION \<and>
      get32 b' 28 = Some SUPDRV_IDC_VERSION \<and> get32 b' 32 = Some (idc_uRevision env))"
proof -
  note P = connect_packet [of env rq mn, folded b_def]
  have c: "supR0IdcNativeOpen env w b = Option.bind (idc_connect env w 0 b)
    (\<lambda>(rc, b1, w1). if RT_SUCCESS rc then map_option (\<lambda>r. (sint r, b1, w1)) (get32 b1 4) else Some (rc, b1, w1))"
    using assms(2) P(3) by (simp add: supR0IdcNativeOpen_def supR0IdcNativeCall_def SUPDrvLinuxIDC_def supdrvIDC_def idc_switch_def)
  show ?thesis
  proof (cases "rq < mn \<or> mn AND 0xffff0000 \<noteq> rq AND 0xffff0000")
    case True
    obtain b' where "put_rc b VERR_INVALID_PARAMETER = Some b'" using put_rc_ok [of b] P(1) by auto
    then have "idc_connect env w 0 b = Some (VERR_INVALID_PARAMETER, b', w)"
      using True P(2-6) by (auto simp: idc_connect_def REQ_CHECK_IDC_SIZE_def idc_refuse_def)
    then show ?thesis using True by (auto simp: c idc_verdict_def)
  next
    case v: False
    show ?thesis
    proof (cases "SUPDRV_IDC_VERSION < mn \<or> mn AND 0xffff0000 \<noteq> SUPDRV_IDC_VERSION AND 0xffff0000")
      case True
      obtain b1 where b1: "idc_connect_out b 0 0xffffffff (idc_uRevision env) = Some b1" "length b1 = 40"
        using connect_out [of b 0 "0xffffffff" "idc_uRevision env"] P(1) by auto
      obtain b2 where b2: "put_rc b1 VERR_VERSION_MISMATCH = Some b2" "get32 b2 4 = Some (word_of_int VERR_VERSION_MISMATCH)"
        using put_rc_ok [of b1 VERR_VERSION_MISMATCH] b1(2) by auto
      have "idc_connect env w 0 b = Some (VINF_SUCCESS, b2, w)"
        using True v P(2-6) b1(1) b2(1) by (auto simp: idc_connect_def REQ_CHECK_IDC_SIZE_def)
      moreover have "sint (word_of_int VERR_VERSION_MISMATCH :: u32) = VERR_VERSION_MISMATCH" by (rule sint_rc) simp_all
      ultimately show ?thesis using True v b2(2) by (auto simp: c idc_verdict_def)
    next
      case False
      have l: "40 \<le> length b" using P(1) by simp
      from new_session_ok [OF l assms(4)] obtain b' where
        b': "idc_new_session env w b = Some (VINF_SUCCESS, b', w1)" "get32 b' 4 = Some (word_of_int rc)"
          "RT_SUCCESS rc \<longrightarrow> get64 b' 16 = Some p \<and> get32 b' 24 = Some SUPDRV_IDC_VERSION \<and> get32 b' 28 = Some SUPDRV_IDC_VERSION \<and>
            get32 b' 32 = Some (idc_uRevision env)" by blast
      have "idc_connect env w 0 b = Some (VINF_SUCCESS, b', w1)"
        using False v P(2-6) b'(1) by (auto simp: idc_connect_def REQ_CHECK_IDC_SIZE_def)
      moreover have "sint (word_of_int rc :: u32) = rc" using assms(3) by (intro sint_rc) (simp_all add: status32_def)
      ultimately show ?thesis using False v b'(2,3) by (auto simp: c idc_verdict_def)
    qed
  qed
qed
lemma CreateSession_kernel:
  assumes "supdrvCreateSession pNew rcSpinlock fMem rcLock procs False w = (rc, p, w1)" "rcSpinlock \<le> 0"
  shows "rc = VINF_SUCCESS \<and> pNew \<noteq> 0 \<and> p = pNew \<and> (\<exists>s. w_sess w1 pNew = Some s \<and> ses_R0Process s = NIL_RTR0PROCESS) \<or> RT_FAILURE rc"
  using assms
  by (auto simp: supdrvCreateSession_def RTHandleTableCreateEx_def RT_FAILURE_def RT_SUCCESS_def Let_def split: if_splits prod.splits)

lemma SUPR0IdcOpen_ok:
  assumes "drv_inv w" "RT_VALID_PTR pHandle" "RT_VALID_PTR (idc_pReq env)" "idc_fits env w" "idc_rcSpinlock env \<le> 0"
    "p1 = 0 \<or> RT_VALID_PTR p1" "p2 = 0 \<or> RT_VALID_PTR p2" "p3 = 0 \<or> RT_VALID_PTR p3"
    "supdrvCreateSession (idc_pNew env) (idc_rcSpinlock env) (idc_fMem env) (idc_rcLock env) (idc_procs env) False w = (rcS, pS, wS)"
    "status32 rcS"
  shows "\<exists>rc out cl' w'. SUPR0IdcOpen env cl w pHandle uReq uMin (p1, p2, p3) = Some (rc, out, cl', w') \<and> drv_inv w' \<and>
    rc = (if uMin \<noteq> 0 \<and> uMin AND 0xffff0000 \<noteq> 0x10000 \<or> uReq \<noteq> 0 \<and> uReq AND 0xffff0000 \<noteq> 0x10000 then VERR_INVALID_PARAMETER
      else if idc_verdict (idc_version uReq) (idc_version uMin) \<noteq> 0 then idc_verdict (idc_version uReq) (idc_version uMin) else rcS) \<and>
    (if rc = 0
     then w' = wS \<and> cl_pSession cl' pHandle = idc_pNew env \<and> SUPR0IdcGetSession cl' pHandle = idc_pNew env \<and>
       (\<exists>s. w_sess w' (idc_pNew env) = Some s \<and> ses_R0Process s = NIL_RTR0PROCESS) \<and>
       out = idc_out (p1, p2, p3) (SUPDRV_IDC_VERSION, SUPDRV_IDC_VERSION, idc_uRevision env)
     else w' = w \<and> cl' = cl\<lparr>cl_pSession := (cl_pSession cl)(pHandle := 0)\<rparr> \<and> out = idc_out (p1, p2, p3) (0, 0, 0))"
proof -
  let ?v = "idc_verdict (idc_version uReq) (idc_version uMin)"
  let ?bad = "uMin \<noteq> 0 \<and> uMin AND 0xffff0000 \<noteq> 0x10000 \<or> uReq \<noteq> 0 \<and> uReq AND 0xffff0000 \<noteq> 0x10000"
  have fit: "idc_pNew env = 0 \<or> RT_VALID_PTR (idc_pNew env) \<and> w_sess w (idc_pNew env) = None" "card (dom (w_sess w)) + 1 < 2 ^ 32"
    using assms(4) by (simp_all add: idc_fits_def)
  note S = CreateSession_drv [OF assms(1) fit assms(9)] note K = CreateSession_kernel [OF assms(9,5)]
  obtain b' where o: "supR0IdcNativeOpen env w (idc_packet env 40 0
        (le_bytes 4 (0x69726f74 :: u32) @ le_bytes 4 (idc_version uReq) @ le_bytes 4 (idc_version uMin))) =
      (if ?v = VINF_SUCCESS then Some (rcS, b', wS) else Some (?v, b', w))"
    "?v = VINF_SUCCESS \<Longrightarrow> RT_SUCCESS rcS \<Longrightarrow> get64 b' 16 = Some pS \<and> get32 b' 24 = Some SUPDRV_IDC_VERSION \<and>
      get32 b' 28 = Some SUPDRV_IDC_VERSION \<and> get32 b' 32 = Some (idc_uRevision env)"
    using NativeOpen_ok [OF assms(3,10,9), of "idc_version uReq" "idc_version uMin"] by blast
  let ?cl0 = "cl\<lparr>cl_pSession := (cl_pSession cl)(pHandle := 0)\<rparr>"
  have vs: "RT_SUCCESS ?v \<longleftrightarrow> ?v = VINF_SUCCESS" by (simp add: idc_verdict_def)
  have d: "SUPR0IdcOpen env cl w pHandle uReq uMin (p1, p2, p3) =
      (if ?bad then Some (VERR_INVALID_PARAMETER, idc_out (p1, p2, p3) (0, 0, 0), ?cl0, w)
       else if ?v \<noteq> VINF_SUCCESS then Some (?v, idc_out (p1, p2, p3) (0, 0, 0), ?cl0, w)
       else if RT_SUCCESS rcS then idc_opened env ?cl0 pHandle (idc_version uMin) (p1, p2, p3) rcS b' wS
       else Some (rcS, idc_out (p1, p2, p3) (0, 0, 0), ?cl0, wS))"
    using assms(2,6-8) o(1) vs by (auto simp: SUPR0IdcOpen_def Let_def)
  show ?thesis
  proof (cases "\<not> ?bad \<and> ?v = VINF_SUCCESS \<and> rcS = VINF_SUCCESS")
    case True
    then have p: "pS = idc_pNew env" "RT_VALID_PTR (idc_pNew env)" using K fit(1) by (auto simp: RT_FAILURE_def)
    have m: "idc_version uMin \<le> SUPDRV_IDC_VERSION" using True by (auto simp: idc_verdict_def split: if_splits)
    have g: "get64 b' 16 = Some pS" "get32 b' 24 = Some SUPDRV_IDC_VERSION" "get32 b' 28 = Some SUPDRV_IDC_VERSION"
      "get32 b' 32 = Some (idc_uRevision env)" using o(2) True by simp_all
    let ?cl1 = "?cl0\<lparr>cl_pSession := (cl_pSession ?cl0)(pHandle := idc_pNew env)\<rparr>"
    let ?cl2 = "if cl_g_pMainHandle ?cl1 = 0 then ?cl1\<lparr>cl_g_pMainHandle := pHandle\<rparr> else ?cl1"
    have "SUPR0IdcOpen env cl w pHandle uReq uMin (p1, p2, p3) =
        Some (VINF_SUCCESS, idc_out (p1, p2, p3) (SUPDRV_IDC_VERSION, SUPDRV_IDC_VERSION, idc_uRevision env), ?cl2, wS)"
      unfolding d using True g p m by (simp add: idc_opened_def Let_def)
    moreover have "cl_pSession ?cl2 pHandle = idc_pNew env" "SUPR0IdcGetSession ?cl2 pHandle = idc_pNew env"
      using p(2) assms(2) by (simp_all add: SUPR0IdcGetSession_def)
    ultimately show ?thesis using True S K by (auto simp: RT_FAILURE_def)
  next
    case False
    then have "SUPR0IdcOpen env cl w pHandle uReq uMin (p1, p2, p3) =
        Some (if ?bad then VERR_INVALID_PARAMETER else if ?v \<noteq> 0 then ?v else rcS, idc_out (p1, p2, p3) (0, 0, 0), ?cl0, w)"
      unfolding d using K S by (auto simp: RT_FAILURE_def)
    then show ?thesis using False assms(1) by auto
  qed
qed

text \<open>
  The outputs when a pointer of the caller is refused: the pointers are checked one after the other, and each is
  cleared before the next one is checked.
\<close>

definition ptr_bad :: "addr \<Rightarrow> bool" where
  "ptr_bad p \<longleftrightarrow> p \<noteq> 0 \<and> \<not> RT_VALID_PTR p"

definition idc_cleared :: "addr \<Rightarrow> addr \<times> addr \<times> addr \<Rightarrow> idc_outs" where
  "idc_cleared pHandle ps =
     (case ps of (p1, p2, p3) \<Rightarrow>
        (if \<not> RT_VALID_PTR pHandle \<or> ptr_bad p1 then (None, None, None)
         else if ptr_bad p2 then (fst (idc_out ps (0, 0, 0)), None, None)
         else if ptr_bad p3 then (fst (idc_out ps (0, 0, 0)), fst (snd (idc_out ps (0, 0, 0))), None)
         else idc_out ps (0, 0, 0)))"

text \<open>
  C16: opening a connection for a kernel module. Invalid pointers are refused first, then the versions decide: another
  major number, a minimal version above the requested one (also when the request is the default, in spite of the comment)
  and a minimal version the driver does not have are refused with their own status. Then the handle gets a new session
  of the kernel and the three outputs are set where there is room for them. On every failure the driver is as before and
  the handle is closed: its session is null, whatever it was, unless the handle itself is not a valid pointer.
\<close>

theorem SUPR0IdcOpen_correct:
  assumes "drv_inv w" "RT_VALID_PTR (idc_pReq env)" "idc_fits env w" "idc_rcSpinlock env \<le> 0"
    "supdrvCreateSession (idc_pNew env) (idc_rcSpinlock env) (idc_fMem env) (idc_rcLock env) (idc_procs env) False w = (rcS, pS, wS)"
    "status32 rcS"
  shows "\<exists>rc out cl' w'. SUPR0IdcOpen env cl w pHandle uReq uMin (p1, p2, p3) = Some (rc, out, cl', w') \<and> drv_inv w' \<and>
    rc = (if \<not> RT_VALID_PTR pHandle \<or> ptr_bad p1 \<or> ptr_bad p2 \<or> ptr_bad p3 then VERR_INVALID_POINTER
      else if uMin \<noteq> 0 \<and> uMin AND 0xffff0000 \<noteq> 0x10000 \<or> uReq \<noteq> 0 \<and> uReq AND 0xffff0000 \<noteq> 0x10000 then VERR_INVALID_PARAMETER
      else if idc_verdict (idc_version uReq) (idc_version uMin) \<noteq> 0 then idc_verdict (idc_version uReq) (idc_version uMin) else rcS) \<and>
    (if rc = 0
     then w' = wS \<and> cl_pSession cl' pHandle = idc_pNew env \<and> SUPR0IdcGetSession cl' pHandle = idc_pNew env \<and>
       (\<exists>s. w_sess w' (idc_pNew env) = Some s \<and> ses_R0Process s = NIL_RTR0PROCESS) \<and>
       out = idc_out (p1, p2, p3) (SUPDRV_IDC_VERSION, SUPDRV_IDC_VERSION, idc_uRevision env)
     else w' = w \<and> cl' = (if RT_VALID_PTR pHandle then cl\<lparr>cl_pSession := (cl_pSession cl)(pHandle := 0)\<rparr> else cl) \<and>
       out = idc_cleared pHandle (p1, p2, p3))"
proof (cases "\<not> RT_VALID_PTR pHandle \<or> ptr_bad p1 \<or> ptr_bad p2 \<or> ptr_bad p3")
  case True
  then show ?thesis using assms(1) by (auto simp: SUPR0IdcOpen_def idc_cleared_def idc_out_def ptr_bad_def Let_def)
next
  case False
  then have h: "RT_VALID_PTR pHandle" and p: "p1 = 0 \<or> RT_VALID_PTR p1" "p2 = 0 \<or> RT_VALID_PTR p2" "p3 = 0 \<or> RT_VALID_PTR p3"
    by (auto simp: ptr_bad_def)
  have c: "idc_cleared pHandle (p1, p2, p3) = idc_out (p1, p2, p3) (0, 0, 0)" using False by (simp add: idc_cleared_def)
  show ?thesis
    unfolding c if_not_P [OF False] if_P [OF h] by (rule SUPR0IdcOpen_ok [OF assms(1) h assms(2-4) p assms(5,6)])
qed

lemma IdcClose_ok:
  assumes "drv_inv w" "w_sess w sp = Some s" "ses_R0Process s = NIL_RTR0PROCESS" "\<forall>n. hst_Free (idc_hst env) n = VINF_SUCCESS"
    "RT_VALID_PTR (idc_pReq env)" "RT_VALID_PTR pHandle" "cl_pSession cl pHandle = sp"
  shows "\<exists>cl' w'. SUPR0IdcClose env cl w pHandle = Some (VINF_SUCCESS, cl', w') \<and> supdrvCloseSession (idc_hst env) w sp = Some w' \<and>
    cl_pSession cl' = (cl_pSession cl)(pHandle := 0) \<and> cl_g_pMainHandle cl' \<noteq> pHandle"
proof -
  have v: "RT_VALID_PTR sp" by (rule drv_inv_sess(2) [OF assms(1,2)])
  then have z: "sp \<noteq> 0" by auto
  obtain w' where w': "supdrvCloseSession (idc_hst env) w sp = Some w'" using CloseSession_drv [OF assms(1,2,4)] by blast
  let ?b = "idc_packet env 16 sp []"
  have h: "get32 ?b 0 = Some 16" "get64 ?b 8 = Some sp" "length ?b = 16" using packet_hdr [of env 16 sp "[]"] by (simp_all add: length_packet)
  obtain b1 where b1: "put_rc ?b VINF_SUCCESS = Some b1" "get32 b1 4 = Some 0" using put_rc_ok [of ?b VINF_SUCCESS] h(3) by auto
  have "idc_switch env (SUP_IDC_CODE 2) w sp ?b = idc_disconnect env w sp ?b" by (simp add: idc_switch_def idc_codes)
  then have "supR0IdcNativeClose env w ?b = Some (VINF_SUCCESS, b1, w')"
    using h b1 w' v z assms(2,3,5)
    by (simp add: supR0IdcNativeClose_def supR0IdcNativeCall_def SUPDrvLinuxIDC_def supdrvIDC_def idc_disconnect_def REQ_CHECK_IDC_SIZE_def)
  then show ?thesis using w' v z assms(6,7) by (auto simp: SUPR0IdcClose_def)
qed

text \<open>
  C17: a kernel module that opens a connection and closes it again leaves the driver with the sessions and the
  objects it had and with the factories of all other sessions, and its handle is closed.
\<close>

theorem SUPR0IdcClose_roundtrip:
  assumes "drv_inv w" "RT_VALID_PTR pHandle" "RT_VALID_PTR (idc_pReq env)" "idc_fits env w" "idc_rcSpinlock env \<le> 0"
    "SUPR0IdcOpen env cl w pHandle uReq uMin (0, 0, 0) = Some (VINF_SUCCESS, out, cl1, w1)"
    "status32 (fst (supdrvCreateSession (idc_pNew env) (idc_rcSpinlock env) (idc_fMem env) (idc_rcLock env) (idc_procs env) False w))"
  shows "\<exists>cl2 w2. SUPR0IdcClose env cl1 w1 pHandle = Some (VINF_SUCCESS, cl2, w2) \<and> drv_inv w2 \<and> w_sess w2 = w_sess w \<and>
    dom (w_objs w2) = dom (w_objs w) \<and>
    dx_pComponentFactoryHead (w_devext w2) = filter (\<lambda>r. reg_pSession r \<noteq> idc_pNew env) (dx_pComponentFactoryHead (w_devext w)) \<and>
    SUPR0IdcGetSession cl2 pHandle = 0"
proof -
  let ?p = "idc_pNew env"
  obtain rcS pS wS where c: "supdrvCreateSession ?p (idc_rcSpinlock env) (idc_fMem env) (idc_rcLock env) (idc_procs env) False w = (rcS, pS, wS)"
    by (metis surj_pair)
  have st: "status32 rcS" using assms(7) c by simp
  from SUPR0IdcOpen_ok [OF assms(1-5) _ _ _ c st, of 0 0 0 cl uReq uMin] assms(6) obtain s where
    o: "w1 = wS" "cl_pSession cl1 pHandle = ?p" "w_sess w1 ?p = Some s" "ses_R0Process s = NIL_RTR0PROCESS" "drv_inv w1" "rcS = 0"
    by (auto split: if_splits)
  have fit: "?p = 0 \<or> RT_VALID_PTR ?p \<and> w_sess w ?p = None" "card (dom (w_sess w)) + 1 < 2 ^ 32" and
    h: "\<forall>n. hst_Free (idc_hst env) n = VINF_SUCCESS" using assms(4) by (simp_all add: idc_fits_def)
  have p: "RT_VALID_PTR ?p" "w_sess w ?p = None"
    using fit(1) drv_inv_sess(2) [OF o(5,3)] CreateSession_kernel [OF c assms(5)] o(6) by (auto simp: RT_FAILURE_def)
  have w1: "w1 = set_sess w ?p s"
    using c o(1,3,6) by (auto simp: supdrvCreateSession_def split: if_splits prod.splits)
  from IdcClose_ok [OF o(5,3,4) h assms(3,2) o(2)] obtain cl2 w2 where
    r: "SUPR0IdcClose env cl1 w1 pHandle = Some (VINF_SUCCESS, cl2, w2)" "supdrvCloseSession (idc_hst env) w1 ?p = Some w2"
      "cl_pSession cl2 = (cl_pSession cl1)(pHandle := 0)" by blast
  from CloseSession_drv [OF o(5,3) h] r(2) have
    C: "drv_inv w2" "w_sess w2 = (w_sess w1)(?p := None)"
      "dx_pComponentFactoryHead (w_devext w2) = filter (\<lambda>r. reg_pSession r \<noteq> ?p) (dx_pComponentFactoryHead (w_devext w1))" by auto
  have s2: "w_sess w2 = w_sess w" using C(2) p(2) by (simp add: w1 fun_upd_idem)
  have "total_refs w2 q = total_refs w q" for q by (rule total_refs_cong) (simp add: s2)
  then have d: "dom (w_objs w2) = dom (w_objs w)"
    unfolding set_eq_iff obj_dom_refs [OF drv_invD(2) [OF C(1)]] obj_dom_refs [OF drv_invD(2) [OF assms(1)]] by simp
  have "w_devext w1 = w_devext w" by (simp add: w1)
  then show ?thesis using r(1,3) C(1,3) s2 d assms(2) by (auto simp: SUPR0IdcGetSession_def)
qed
subsection \<open>Looking up symbols\<close>

text \<open>A symbol request of a kernel session, with what the lookup answered.\<close>

lemma symbol_call:
  fixes pm ps sp :: addr and env :: idc_env
  defines "b \<equiv> idc_packet env 32 sp (le_bytes 8 pm @ le_bytes 8 ps)"
  assumes "RT_VALID_PTR sp" "w_sess w sp = Some s" "ses_R0Process s = NIL_RTR0PROCESS" "RT_VALID_PTR (idc_pReq env)"
    "supdrvIDC_LdrGetSymbol (idc_aFunctions env) (idc_fMem env) w sp (idc_ptr env pm) (idc_ptr env ps) = Some (rc, out, w1)" "status32 rc"
  shows "\<exists>b'. supR0IdcNativeCall env (SUP_IDC_CODE 3) w b = Some (rc, b', w1) \<and>
    get64 b' 16 = Some (case out of None \<Rightarrow> pm | Some pfn \<Rightarrow> pfn)"
proof -
  note v = assms(2)
  then have z: "sp \<noteq> 0" by auto
  have e: "b = (le_bytes 4 (of_nat 32 :: u32) @ le_bytes 4 (word_of_int VERR_WRONG_ORDER :: u32) @ le_bytes 8 sp) @ le_bytes 8 pm @ le_bytes 8 ps @ []"
    by (simp add: b_def idc_packet_def)
  have h: "get32 b 0 = Some 32" "get64 b 8 = Some sp" "length b = 32"
    using packet_hdr [of env 32 sp] by (simp_all add: b_def length_packet)
  have p: "get64 b 16 = Some pm" unfolding e by (rule get_at(2)) simp
  have q: "get64 b 24 = Some ps"
    unfolding e using get_at(2) [of "(le_bytes 4 (of_nat 32 :: u32) @ le_bytes 4 (word_of_int VERR_WRONG_ORDER :: u32) @ le_bytes 8 sp) @ le_bytes 8 pm" 24 ps "[]"]
    by simp
  obtain b1 where b1: "(case out of None \<Rightarrow> Some b | Some pfn \<Rightarrow> put b 16 (le_bytes 8 pfn)) = Some b1" "length b1 = 32"
    "get64 b1 16 = Some (case out of None \<Rightarrow> pm | Some pfn \<Rightarrow> pfn)"
  proof (cases out)
    case (Some x)
    obtain b1 where b1: "put b 16 (le_bytes 8 x) = Some b1" "length b1 = 32" using put_fits [of 16 "le_bytes 8 x" b] h(3) by auto
    then show ?thesis using that [of b1] Some put_same(2) [OF b1(1)] by simp
  qed (use that [of b] h(3) p in simp)
  obtain b2 where b2: "put_rc b1 rc = Some b2" "get32 b2 4 = Some (word_of_int rc)" "get64 b2 16 = get64 b1 16"
    using put_rc_ok [of b1 rc] b1(2) by auto
  have r: "sint (word_of_int rc :: u32) = rc" using assms(7) by (intro sint_rc) (simp_all add: status32_def)
  have "idc_switch env (SUP_IDC_CODE 3) w sp b = idc_get_symbol env w sp b" by (simp add: idc_switch_def idc_codes)
  then have "SUPDrvLinuxIDC env (SUP_IDC_CODE 3) w b = Some (VINF_SUCCESS, b2, w1)"
    using h p q b1(1) b2(1) v z assms(3-6)
    by (simp add: SUPDrvLinuxIDC_def supdrvIDC_def idc_get_symbol_def REQ_CHECK_IDC_SIZE_def)
  then show ?thesis using b1(3) b2(2,3) r by (simp add: supR0IdcNativeCall_def)
qed

text \<open>
  C18: a kernel module that asks for a symbol which a loaded image does not have is told success, and finds in the place of the
  function the bytes of its own request: the address of the name of the module, because input and output
  share them.
\<close>

theorem idc_missing_symbol:
  assumes "RT_VALID_PTR sp" "w_sess w sp = Some s" "ses_R0Process s = NIL_RTR0PROCESS" "RT_VALID_PTR (idc_pReq env)"
    "idc_ptr env pm = PBuf m" "idc_ptr env ps = PBuf sz" "RTStrEnd m 64 \<noteq> None" "RTStrEnd sz 512 \<noteq> None"
    "w_imgs w p = Some im" "img_uState im = SUP_LDR_LOAD" "cstr (img_szName im) = cstr m" "cstr m \<noteq> SupDrv_name"
    "find (sym_named (img_strtab im) (cstr sz @ [0])) (img_symtab im) = None" "ldr_inv w" "ldr_names w"
  shows "\<exists>b'. supR0IdcNativeCall env (SUP_IDC_CODE 3) w (idc_packet env 32 sp (le_bytes 8 pm @ le_bytes 8 ps)) = Some (VINF_SUCCESS, b', w) \<and>
    get64 b' 16 = Some pm"
proof -
  have "supdrvIDC_LdrGetSymbol (idc_aFunctions env) (idc_fMem env) w sp (idc_ptr env pm) (idc_ptr env ps) = Some (VINF_SUCCESS, None, w)"
    unfolding assms(5,6)
    by (rule supdrvIDC_LdrGetSymbol_silent [OF assms(14,15,9-12,7,8,13)])
  from symbol_call [OF assms(1-4) this] show ?thesis by (simp add: status32_def)
qed

text \<open>The stubs of a client call the function of the driver, or give up when it has none of that name.\<close>

lemma idc_stub_ok:
  assumes "drv_inv w" "w_sess w sp = Some s" "ses_R0Process s = NIL_RTR0PROCESS" "RT_VALID_PTR (idc_pReq env)"
    "RT_VALID_PTR (cl_g_pMainHandle cl)" "cl_pSession cl (cl_g_pMainHandle cl) = sp" "cl_pfn cl fn = 0"
    "idc_ptr env ps = PBuf sz" "RTStrEnd sz 512 \<noteq> None"
  shows "idc_stub env cl w sp fn ps d call =
    (case find (\<lambda>(nm, _). nm = cstr sz) (idc_aFunctions env) of
       None \<Rightarrow> Some (d, cl, w)
     | Some (_, pfn) \<Rightarrow>
         if pfn = 0 then Some (d, cl, w)
         else map_option (\<lambda>(r, w2). (r, cl\<lparr>cl_pfn := (cl_pfn cl)(fn := pfn)\<rparr>, w2)) (call pfn w))"
proof -
  let ?out = "map_option snd (find (\<lambda>(nm, _). nm = cstr sz) (idc_aFunctions env))"
  have n: "idc_ptr env 0 = PNull" by (simp add: idc_ptr_def)
  have g: "supdrvIDC_LdrGetSymbol (idc_aFunctions env) (idc_fMem env) w sp (idc_ptr env 0) (idc_ptr env ps) = Some (VINF_SUCCESS, ?out, w)"
    unfolding n assms(8) using assms(9) by (auto simp: supdrvIDC_LdrGetSymbol_def)
  have st: "status32 VINF_SUCCESS" by (simp add: status32_def)
  from symbol_call [OF drv_inv_sess(2) [OF assms(1,2)] assms(2-4) g st] obtain b' where
    b': "supR0IdcNativeCall env (SUP_IDC_CODE 3) w (idc_packet env 32 sp (le_bytes 8 (0 :: addr) @ le_bytes 8 ps)) = Some (VINF_SUCCESS, b', w)"
      "get64 b' 16 = Some (case ?out of None \<Rightarrow> 0 | Some pfn \<Rightarrow> pfn)" by blast
  have "cl_g_pMainHandle cl \<noteq> 0" using assms(5) by auto
  moreover have z: "cl\<lparr>cl_pfn := (cl_pfn cl)(fn := 0)\<rparr> = cl" using assms(7) by (simp add: fun_upd_idem)
  ultimately have "supR0IdcGetSymbolBySession env cl w sp fn ps = Some (cl\<lparr>cl_pfn := (cl_pfn cl)(fn := (case ?out of None \<Rightarrow> 0 | Some pfn \<Rightarrow> pfn))\<rparr>, w)"
    using assms(5,6) b' by (simp add: supR0IdcGetSymbolBySession_def supR0IdcGetHandleFromSession_def supR0IdcGetSymbol_def Let_def)
  then show ?thesis using assms(7) z by (auto simp: idc_stub_def split: option.split)
qed

subsection \<open>Witnesses\<close>

text \<open>
  A module connects to the driver when one process has it open; the strings at 0x60000 and 0x61000 are names of an
  image and of a symbol.
\<close>

definition idc_ex_env :: idc_env where
  "idc_ex_env = \<lparr>idc_hst = host_ex, idc_aFunctions = [], idc_str = (\<lambda>p. if p = 0x60000 then PBuf [0x41, 0] else PBuf [0x67, 0]),
     idc_uRevision = 7, idc_pNew = 0x20000, idc_rcSpinlock = 0, idc_fMem = True, idc_rcLock = 0, idc_procs = (7, 0x1234),
     idc_fAlloc = True, idc_rcMtx = 0, idc_pReq = 0x30000, idc_junk = (\<lambda>_. 0x5a)\<rparr>"

definition idc_ex_cl :: idcclient where
  "idc_ex_cl = \<lparr>cl_pSession = (\<lambda>_. 0), cl_g_pMainHandle = 0, cl_pfn = (\<lambda>_. 0)\<rparr>"

lemma idc_ex_fits:
  assumes "w_sess w = [0x10000 \<mapsto> s]"
  shows "idc_fits idc_ex_env w" "RT_VALID_PTR (idc_pReq idc_ex_env)" "idc_rcSpinlock idc_ex_env \<le> 0"
  using host_ex_frees by (simp_all add: idc_fits_def idc_ex_env_def assms RT_VALID_PTR_def)

lemma idc_ex_session:
  "\<exists>wS. supdrvCreateSession (idc_pNew idc_ex_env) (idc_rcSpinlock idc_ex_env) (idc_fMem idc_ex_env) (idc_rcLock idc_ex_env)
     (idc_procs idc_ex_env) False w = (0, 0x20000, wS)"
  by (simp add: idc_ex_env_def supdrvCreateSession_def RTHandleTableCreateEx_init)


theorem SUPR0IdcOpen_correct_witness:
  "\<exists>w cl' w'. drv_inv w \<and> drv_inv w' \<and> SUPR0IdcOpen idc_ex_env idc_ex_cl w 0x40000 0 0 (0x41000, 0x41008, 0) =
     Some (0, (Some 0x10000, Some 0x10000, None), cl', w') \<and> SUPR0IdcGetSession cl' 0x40000 = 0x20000"
proof -
  obtain w s where w: "drv_inv w" "w_sess w = [0x10000 \<mapsto> s]" using reach_ex by blast
  note F = idc_ex_fits [OF w(2)]
  obtain wS where c: "supdrvCreateSession (idc_pNew idc_ex_env) (idc_rcSpinlock idc_ex_env) (idc_fMem idc_ex_env) (idc_rcLock idc_ex_env)
     (idc_procs idc_ex_env) False w = (0, 0x20000, wS)" using idc_ex_session by blast
  have p: "RT_VALID_PTR 0x40000" "\<not> ptr_bad 0x41000" "\<not> ptr_bad 0x41008" "\<not> ptr_bad 0" by (simp_all add: ptr_bad_def RT_VALID_PTR_def)
  have st: "status32 0" by (simp add: status32_def)
  have v: "idc_verdict (idc_version 0) (idc_version 0) = 0" by (simp add: idc_verdict_def idc_version_def Let_def)
  from SUPR0IdcOpen_correct [OF w(1) F(2,1,3) c st, of idc_ex_cl "0x40000" 0 0 "0x41000" "0x41008" 0] v p show ?thesis
    using w(1) by (auto simp: idc_out_def idc_ex_env_def)
qed

theorem SUPR0IdcClose_roundtrip_witness:
  "\<exists>w cl1 w1 cl2 w2. SUPR0IdcOpen idc_ex_env idc_ex_cl w 0x40000 0 0 (0, 0, 0) = Some (0, (None, None, None), cl1, w1) \<and>
     w_sess w1 \<noteq> w_sess w \<and> SUPR0IdcClose idc_ex_env cl1 w1 0x40000 = Some (0, cl2, w2) \<and> w_sess w2 = w_sess w"
proof -
  obtain w s where w: "drv_inv w" "w_sess w = [0x10000 \<mapsto> s]" using reach_ex by blast
  note F = idc_ex_fits [OF w(2)]
  obtain wS where c: "supdrvCreateSession (idc_pNew idc_ex_env) (idc_rcSpinlock idc_ex_env) (idc_fMem idc_ex_env) (idc_rcLock idc_ex_env)
     (idc_procs idc_ex_env) False w = (0, 0x20000, wS)" using idc_ex_session by blast
  have h: "RT_VALID_PTR 0x40000" by (simp add: RT_VALID_PTR_def)
  have st: "status32 0" by (simp add: status32_def)
  have v: "idc_verdict (idc_version 0) (idc_version 0) = 0" by (simp add: idc_verdict_def idc_version_def Let_def)
  from SUPR0IdcOpen_ok [OF w(1) h F(2,1,3) _ _ _ c st, of 0 0 0 idc_ex_cl 0 0] v obtain cl1 w1 where
    o: "SUPR0IdcOpen idc_ex_env idc_ex_cl w 0x40000 0 0 (0, 0, 0) = Some (0, (None, None, None), cl1, w1)" "w_sess w1 0x20000 \<noteq> None"
    by (auto simp: idc_out_def idc_ex_env_def)
  have n: "w_sess w1 \<noteq> w_sess w" using o(2) w(2) by auto
  from SUPR0IdcClose_roundtrip [OF w(1) h F(2,1,3) o(1)] c st obtain cl2 w2 where
    "SUPR0IdcClose idc_ex_env cl1 w1 0x40000 = Some (0, cl2, w2)" "w_sess w2 = w_sess w" by auto
  with o(1) n show ?thesis by blast
qed

text \<open>A session of a kernel module among the images of an example of the loader.\<close>

definition idc_ex_sess :: SUPDRVSESSION where
  "idc_ex_sess = sess0\<lparr>ses_R0Process := NIL_RTR0PROCESS,
     ses_pLdrUsage := [\<lparr>lus_pImage = 0x31000, lus_cUsage = 1\<rparr>, \<lparr>lus_pImage = 0x30000, lus_cUsage = 1\<rparr>]\<rparr>"

definition idc_ex_ldr :: supdrv where
  "idc_ex_ldr = set_sess ldr_ex 0x10000 idc_ex_sess"

theorem idc_missing_symbol_witness:
  "\<exists>b'. supR0IdcNativeCall idc_ex_env (SUP_IDC_CODE 3) idc_ex_ldr (idc_packet idc_ex_env 32 0x10000 (le_bytes 8 (0x60000 :: addr) @ le_bytes 8 (0x61000 :: addr))) =
     Some (VINF_SUCCESS, b', idc_ex_ldr) \<and> get64 b' 16 = Some 0x60000"
proof (rule idc_missing_symbol [where s = idc_ex_sess and p = "0x30000" and im = ldr_ex_A])
  show "w_imgs idc_ex_ldr 0x30000 = Some ldr_ex_A" by (simp add: idc_ex_ldr_def ldr_ex_simps)
  show "ldr_inv idc_ex_ldr"
    by (simp add: idc_ex_ldr_def idc_ex_sess_def ldr_inv_def ldr_ex_def supdrv0_def ldr_total_def sess_total_def ldr_refs_def ldr_usage_ok_def
        img_tabs_ok_def ldr_ex_A_def ldr_ex_B_def ldr_new_image_def)
  show "ldr_names idc_ex_ldr"
    by (auto simp: idc_ex_ldr_def ldr_names_def ldr_ex_simps ldr_ex_A_def ldr_ex_B_def ldr_new_image_def cstr_def split: if_splits)
  show "ses_R0Process idc_ex_sess = NIL_RTR0PROCESS" by (simp add: idc_ex_sess_def)
  show "idc_ptr idc_ex_env 0x60000 = PBuf [0x41, 0]" "idc_ptr idc_ex_env 0x61000 = PBuf [0x67, 0]"
    by (simp_all add: idc_ptr_def idc_ex_env_def RT_VALID_PTR_def)
qed (simp_all add: idc_ex_ldr_def idc_ex_env_def RT_VALID_PTR_def RTStrEnd_def Let_def ldr_ex_A_def cstr_def SupDrv_name_def img_strtab_def
    img_symtab_def sym_named_def)

end
