(* ===== verification/SupDevice.thy ===== *)
theory SupDevice
  imports SupIdc SupGipClock
begin

text \<open>
  The driver on a Linux host, with everything that can happen to it: processes open, use and close the
  device, other kernel modules load, connect and register factories, the timer of the GIP fires, and CPUs come
  and go. The steps are the entry points of linux/SUPDrv-linux.c and the callbacks of SUPDrv.c.
\<close>

subsection \<open>Updates of the page\<close>

text \<open>The timer and the CPU notification change nothing but the page and the master.\<close>

lemma gip_page_drv:
  assumes "drv_inv w" "dx_pGip (w_devext w) = Some gip" "gip_ok gip'"
  shows "drv_inv (w\<lparr>w_devext := (w_devext w)\<lparr>dx_pGip := Some gip', dx_idGipMaster := m\<rparr>\<rparr>)" (is "drv_inv ?w")
proof -
  note I = drv_invD [OF assms(1)]
  have v: "sess_view f ?w = sess_view f w" for f by (simp add: sess_view_def)
  have t: "sess_total f ?w = sess_total f w" for f by (simp add: sess_total_def)
  show ?thesis
  proof (rule drv_invI)
    show "sem_inv ?w" by (rule sem_inv_view [OF _ I(1)]) (simp add: sem_view_def v)
    show "ldr_inv ?w" by (rule ldr_inv_view [OF _ I(3)]) (simp add: ldr_view_def v)
    show "mem_inv ?w" by (rule mem_inv_view [OF _ I(4)]) (simp add: mem_view_def v)
    show "gip_inv ?w" using I(5) assms(2,3) by (simp add: gip_inv_def gip_page_ok_def gip_map_ok_def t)
    show "gip_apart ?w" by (rule gip_apart_view [OF _ _ I(6)]) (simp_all add: v)
    show "ldr_names ?w" using I(7) ldr_names_imgs [of ?w w] by simp
    show "sessions_good ?w" by (rule sessions_good_view [OF _ I(8)]) (simp add: v)
    show "gip_there ?w" by (simp add: gip_there_def)
  qed
qed

text \<open>The page of a driver in order.\<close>

lemma drv_gip_ok: "drv_inv w \<Longrightarrow> dx_pGip (w_devext w) = Some gip \<Longrightarrow> gip_ok gip"
  using gip_invD(4) [OF drv_invD(5)] by (simp add: gip_page_ok_def)

lemma stores_page_drv:
  assumes "drv_inv w" "dx_pGip (w_devext w) = Some gip" "gip_stores j gip gs"
  shows "drv_inv (w\<lparr>w_devext := (w_devext w)\<lparr>dx_pGip := Some (last (gip # gs))\<rparr>\<rparr>)"
proof -
  have "gip_ok (last (gip # gs))" using assms(3) drv_gip_ok [OF assms(1,2)] by (simp add: gip_stores_def)
  from gip_page_drv [OF assms(1,2) this, of "dx_idGipMaster (w_devext w)"] show ?thesis by simp
qed

lemma SyncTimer_drv:
  assumes "drv_inv w" "supdrvGipSyncTimer gh self (w_devext w) iTick = Some dx"
  shows "drv_inv (w\<lparr>w_devext := dx\<rparr>)"
proof -
  obtain gip gs where g: "dx_pGip (w_devext w) = Some gip"
    "supdrvGipUpdate gh self gip (gh_NanoTS gh) (gh_TSC gh self) NIL_RTCPUID iTick = Some gs"
    "dx = (w_devext w)\<lparr>dx_pGip := Some (last (gip # gs))\<rparr>"
    using assms(2) by (auto simp: supdrvGipSyncTimer_def split: option.splits)
  show ?thesis unfolding g(3) by (rule stores_page_drv [OF assms(1) g(1) update_steps [OF g(2)], of 0]) simp
qed

lemma AsyncTimer_drv:
  assumes "drv_inv w" "dx_pGip (w_devext w) = Some gip" "gip_u32Mode gip = SUPGIPMODE_ASYNC_TSC"
    "supdrvGipAsyncTimer gh (\<lambda>_ cs. cs) self (w_devext w) iTick = Some dx"
  shows "drv_inv (w\<lparr>w_devext := dx\<rparr>)"
proof -
  have l: "0 < length (gip_aCPUs gip)" using drv_gip_ok [OF assms(1,2)] unfolding gip_ok_def length_greater_0_conv by blast
  obtain gs where gs: "(if dx_idGipMaster (w_devext w) = self then supdrvGipUpdate gh self gip (gh_NanoTS gh) (gh_TSC gh self) self iTick
      else supdrvGipUpdatePerCpu gh (\<lambda>_ cs. cs) self gip (gh_NanoTS gh) (gh_TSC gh self) self (gh_ApicId gh self) iTick) = Some gs"
    "dx = (w_devext w)\<lparr>dx_pGip := Some (last (gip # gs))\<rparr>"
    using assms(4) unfolding supdrvGipAsyncTimer_def assms(2) option.case map_option_eq_Some by blast
  have "gip_stores 0 gip gs"
  proof (cases "dx_idGipMaster (w_devext w) = self")
    case True
    show ?thesis by (rule update_steps [OF gs(1) [unfolded if_P [OF True]]]) simp
  next
    case False
    show ?thesis by (rule update_cpu_steps [OF gs(1) [unfolded if_not_P [OF False]] drv_gip_ok [OF assms(1,2)] assms(3) l])
  qed
  then show ?thesis unfolding gs(2) by (rule stores_page_drv [OF assms(1,2)])
qed

lemma master_drv:
  assumes "drv_inv w"
  shows "drv_inv (w\<lparr>w_devext := (w_devext w)\<lparr>dx_idGipMaster := m\<rparr>\<rparr>)" (is "drv_inv ?w")
proof -
  have v: "sess_view f ?w = sess_view f w" for f by (simp add: sess_view_def)
  show ?thesis by (rule drv_inv_views [OF assms]) (simp_all add: drv_views v)
qed

lemma MpEvent_drv:
  assumes "drv_inv w" "supdrvGipMpEvent gh (\<lambda>_ cs. cs) idCpu ev idCpu (w_devext w) = Some dx"
  shows "drv_inv (w\<lparr>w_devext := dx\<rparr>)"
proof (cases "dx_pGip (w_devext w)")
  case None
  have "dx = w_devext w \<or> dx = (w_devext w)\<lparr>dx_idGipMaster := gip_new_master gh idCpu\<rparr>"
    using assms(2) None by (auto simp: supdrvGipMpEvent_def)
  then show ?thesis using master_drv [OF assms(1)] assms(1) by auto
next
  case (Some gip)
  note ok = drv_gip_ok [OF assms(1) Some]
  obtain g where g: "gip_ok g" "dx = (w_devext w)\<lparr>dx_pGip := Some g\<rparr> \<or> (\<exists>m. dx = (w_devext w)\<lparr>dx_pGip := Some g, dx_idGipMaster := m\<rparr>)"
  proof (cases ev)
    case RTMPEVENT_ONLINE
    then obtain g where g: "supdrvGipMpEventOnline gh (\<lambda>_ cs. cs) idCpu gip idCpu = Some g" "dx = (w_devext w)\<lparr>dx_pGip := Some g\<rparr>"
      using assms(2) Some by (auto simp: supdrvGipMpEvent_def)
    then show ?thesis using that MpEventOnline_clock(1) [OF ok g(1)] by blast
  next
    case RTMPEVENT_OFFLINE
    then obtain g where g: "supdrvGipMpEventOffline gh gip idCpu = Some g"
        "dx = (w_devext w)\<lparr>dx_pGip := Some g\<rparr> \<or> (\<exists>m. dx = (w_devext w)\<lparr>dx_pGip := Some g, dx_idGipMaster := m\<rparr>)"
      using assms(2) Some by (auto simp: supdrvGipMpEvent_def bind_eq_Some_conv split: if_splits)
    have "gip_ok g" using g(1) ok by (auto simp: supdrvGipMpEventOffline_def gip_set_cpu_def gip_ok_def Let_def split: if_splits)
    then show ?thesis using that g(2) by blast
  qed
  note P = gip_page_drv [OF assms(1) Some g(1)]
  have "drv_inv (w\<lparr>w_devext := (w_devext w)\<lparr>dx_pGip := Some g\<rparr>\<rparr>)" using P [of "dx_idGipMaster (w_devext w)"] by simp
  then show ?thesis using g(2) P by blast
qed

subsection \<open>Everything that can happen\<close>

text \<open>
  A process can make any request, with any sizes, and change it while the driver works on it; a module passes any packet that
  is as long as it says. A step is taken when the code is defined for it: a request that overruns a name, reads behind
  its buffer or follows a dangling pointer has no successor here (SupReach, SupLinux and SupIdc say which these
  are). Left out is one step the code does define, and which breaks its own invariant: a module that finds a symbol in a
  loaded image, and so takes a reference that is not counted (\<open>idc_uncounted\<close>). The timer of the asynchronous mode runs on
  every CPU, and a module can be any memory with factories.

  The hypotheses on the steps are about the surroundings. The answers of the host, the entry points of the VMM and the
  services, and what other threads do during a wait are those of \<open>env_fits\<close>, \<open>idc_fits\<close> and \<open>kept\<close>; no count is about to wrap
  (\<open>counts_fit\<close>), there are fewer than \<open>2 ^ 32\<close> sessions, and a copy to or from a process has the size asked for (\<open>lx_ok\<close>).
\<close>

inductive dev_reach :: "r0host \<Rightarrow> supdrv \<Rightarrow> bool" for hst where
  load: "supdrvInitDevExt hst gh pfn pvDev pNew locks sel cbSession supdrv0 ntf fns = Some (rc, w, ntf', fns') \<Longrightarrow>
    RT_SUCCESS rc \<Longrightarrow> 0 < unat (gh_ArraySize gh) \<Longrightarrow> dev_reach hst w"
| opened: "dev_reach hst w \<Longrightarrow> pNew = 0 \<or> RT_VALID_PTR pNew \<and> w_sess w pNew = None \<Longrightarrow> card (dom (w_sess w)) + 1 < 2 ^ 32 \<Longrightarrow>
    VBoxDrvLinuxCreate hard uid gid pNew rcSpinlock fMem rcLock procs w = (rc, p, w') \<Longrightarrow> dev_reach hst w'"
| ioctl: "dev_reach hst w \<Longrightarrow> w_sess w sp = Some s \<Longrightarrow> env_hst env = hst \<Longrightarrow> env_fits env w \<Longrightarrow> counts_fit w \<Longrightarrow> lx_ok u \<Longrightarrow>
    \<forall>c. kept w (run c w) \<Longrightarrow>
    VBoxDrvLinuxIOCtl u env run uCmd ulArg w l sp = Some (rc, out, w', l') \<Longrightarrow> dev_reach hst w'"
| closed: "dev_reach hst w \<Longrightarrow> w_sess w sp = Some s \<Longrightarrow> VBoxDrvLinuxClose hst w sp = Some (rc, w') \<Longrightarrow> dev_reach hst w'"
| module: "dev_reach hst w \<Longrightarrow> dev_reach hst (w\<lparr>w_factories := F\<rparr>)"
| idc: "dev_reach hst w \<Longrightarrow> idc_hst ienv = hst \<Longrightarrow> idc_fits ienv w \<Longrightarrow> get32 b 0 = Some cb \<Longrightarrow> unat cb = length b \<Longrightarrow> 16 \<le> length b \<Longrightarrow>
    get64 b 8 = Some sp \<Longrightarrow> SUPDrvLinuxIDC ienv uReq w b = Some (rc, b', w') \<Longrightarrow> uReq = SUP_IDC_CODE 3 \<longrightarrow> w' = w \<Longrightarrow> dev_reach hst w'"
| sync_timer: "dev_reach hst w \<Longrightarrow> supdrvGipSyncTimer gh self (w_devext w) iTick = Some dx \<Longrightarrow> dev_reach hst (w\<lparr>w_devext := dx\<rparr>)"
| async_timer: "dev_reach hst w \<Longrightarrow> dx_pGip (w_devext w) = Some gip \<Longrightarrow> gip_u32Mode gip = SUPGIPMODE_ASYNC_TSC \<Longrightarrow>
    supdrvGipAsyncTimer gh (\<lambda>_ cs. cs) self (w_devext w) iTick = Some dx \<Longrightarrow> dev_reach hst (w\<lparr>w_devext := dx\<rparr>)"
| cpu_event: "dev_reach hst w \<Longrightarrow> supdrvGipMpEvent gh (\<lambda>_ cs. cs) idCpu ev idCpu (w_devext w) = Some dx \<Longrightarrow>
    dev_reach hst (w\<lparr>w_devext := dx\<rparr>)"

lemma module_drv:
  assumes "drv_inv w"
  shows "drv_inv (w\<lparr>w_factories := F\<rparr>)" (is "drv_inv ?w")
proof -
  have v: "sess_view f ?w = sess_view f w" for f by (simp add: sess_view_def)
  show ?thesis by (rule drv_inv_views [OF assms]) (simp_all add: drv_views v)
qed

lemma dev_reach_ok:
  assumes "dev_reach hst w" "host_ok hst" "\<forall>n. hst_Free hst n = VINF_SUCCESS"
  shows "drv_inv w"
  using assms(1)
proof induction
  case (load gh pfn pvDev pNew locks sel cbSession ntf fns rc w ntf' fns')
  show ?case by (rule drv_start_inv [OF supdrvInitDevExt_start [OF load(1,2) assms(2) load(3)]])
next
  case (opened w pNew hard uid gid rcSpinlock fMem rcLock procs rc p w')
  show ?case by (rule conjunct1 [OF LinuxCreate_drv [OF opened.IH opened(2,3,4)]])
next
  case (ioctl w sp s env u run uCmd ulArg l rc out w' l')
  from LinuxIOCtl_some [OF ioctl.IH ioctl(2,4-8)] show ?case by (simp add: kept_def)
next
  case (closed w sp s rc w')
  from CloseSession_drv [OF closed.IH closed(2) assms(3)] show ?case using closed(3) by (auto simp: VBoxDrvLinuxClose_def)
next
  case (module w F)
  show ?case by (rule module_drv [OF module.IH])
next
  case (idc w ienv b cb sp uReq rc b' w')
  show ?case
  proof (cases "uReq = SUP_IDC_CODE 3")
    case True
    then show ?thesis using idc.IH idc(9) by simp
  next
    case False
    from LinuxIDC_ok [OF idc.IH idc(3-7), of uReq] False idc(8) show ?thesis by (auto simp: idc_safe_def split: if_splits)
  qed
next
  case (sync_timer w gh self iTick dx)
  show ?case by (rule SyncTimer_drv [OF sync_timer.IH sync_timer(2)])
next
  case (async_timer w gip gh self iTick dx)
  show ?case by (rule AsyncTimer_drv [OF async_timer.IH async_timer(2-4)])
next
  case (cpu_event w gh idCpu ev dx)
  show ?case by (rule MpEvent_drv [OF cpu_event.IH cpu_event(2)])
qed

subsection \<open>Properties\<close>

text \<open>
  C1: whatever processes ask for through the device and kernel modules through their interface, in any order and
  between ticks of the timer and CPUs that come and go, as far as the code is defined for it and no module has found a
  symbol in a loaded image: the driver stays in order. An object exists exactly while some session refers to it and its
  count is the number of references, the users of the GIP are the sessions that refer to it, the
  timer runs exactly while there are any, no two images have the same name, and every session
  is valid and has its handle table.
\<close>

theorem dev_reach_inv:
  assumes "dev_reach hst w" "host_ok hst" "\<forall>n. hst_Free hst n = VINF_SUCCESS"
  shows "drv_inv w \<and> (\<forall>p. p \<in> dom (w_objs w) \<longleftrightarrow> 0 < total_refs w p) \<and>
    (\<forall>p ob. w_objs w p = Some ob \<longrightarrow> unat (obj_cUsage ob) = total_refs w p) \<and>
    unat (dx_cGipUsers (w_devext w)) = sess_total gip_refs w \<and>
    (gip_running (w_trace w) \<longleftrightarrow> (\<exists>p s. w_sess w p = Some s \<and> ses_fGipReferenced s)) \<and>
    (\<forall>p q im jm. w_imgs w p = Some im \<longrightarrow> w_imgs w q = Some jm \<longrightarrow> cstr (img_szName im) = cstr (img_szName jm) \<longrightarrow> p = q) \<and>
    (\<forall>p s. w_sess w p = Some s \<longrightarrow> SUP_IS_SESSION_VALID p s \<and> ses_hHandleTable s \<noteq> None)"
  using drv_inv_facts [OF dev_reach_ok [OF assms]] dev_reach_ok [OF assms] by blast

text \<open>
  C3: from every such state the sessions of all processes and modules can be closed, in any order, and then
  what the sessions had is gone: there is no object left, nobody uses the GIP, its timer is stopped, no factory of a session
  is registered, every memory object a session tracked is freed with its mapping in ring-3, and every image has
  given up exactly the references the sessions had recorded; it is unloaded if there were no others.
\<close>

theorem dev_close_all:
  assumes "dev_reach hst w" "host_ok hst" "\<forall>n. hst_Free hst n = VINF_SUCCESS" "distinct ps" "set ps = dom (w_sess w)"
  shows "\<exists>w'. close_all hst w ps = Some w' \<and> w_sess w' = Map.empty \<and> w_objs w' = Map.empty \<and> dx_pObjs (w_devext w') = [] \<and>
    dx_cGipUsers (w_devext w') = 0 \<and> \<not> gip_running (w_trace w') \<and>
    (\<forall>r\<in>set (dx_pComponentFactoryHead (w_devext w')). reg_pSession r \<notin> set ps) \<and>
    (\<forall>p s r. w_sess w p = Some s \<longrightarrow> r \<in> set (mem_refs s) \<longrightarrow> w_memobjs w' (mr_MemObj r) = None \<and>
       (mr_MapObjR3 r \<noteq> 0 \<longrightarrow> w_memobjs w' (mr_MapObjR3 r) = None)) \<and>
    (\<forall>p. w_imgs w' p = Option.bind (w_imgs w p) (\<lambda>im. if ldr_total w p < unat (img_cUsage im)
       then Some (im\<lparr>img_cUsage := img_cUsage im - of_nat (ldr_total w p)\<rparr>) else None))"
  unfolding img_left_def [symmetric] by (rule close_all_idle_drv [OF dev_reach_ok [OF assms(1-3)] assms(3-5)])

subsection \<open>Witnesses\<close>

text \<open>A process opens the device, then a kernel module connects.\<close>

lemma dev_ex_open: "\<exists>w s. dev_reach host_ex w \<and> w_sess w = [0x10000 \<mapsto> s]"
proof -
  obtain w ntf' fns' where l: "supdrvInitDevExt host_ex gip_ex_host 0x7000 0x8000 0x9000 (0, 0, 0, 0) (0x10, 0x18, 0x18, 0, 0, 0) 64
    supdrv0 reach_ex_ntf [] = Some (VINF_SUCCESS, w, ntf', fns')" using init_ex by blast
  have a: "0 < unat (gh_ArraySize gip_ex_host)" by (simp add: gip_ex_host_def)
  have r: "dev_reach host_ex w" by (rule dev_reach.load [OF l _ a]) simp
  have st: "drv_start w" by (rule supdrvInitDevExt_start [OF l _ host_ex_ok(1) a]) simp
  note i = drv_start_inv [OF st]
  have e: "w_sess w = Map.empty" using st by (simp add: drv_start_def)
  obtain rc p w' where c: "VBoxDrvLinuxCreate None 1000 1000 0x10000 0 True 0 (7, 0x1234) w = (rc, p, w')" by (metis surj_pair)
  have n: "(0x10000 :: addr) = 0 \<or> RT_VALID_PTR 0x10000 \<and> w_sess w 0x10000 = None" "card (dom (w_sess w)) + 1 < 2 ^ 32"
    using e by (simp_all add: RT_VALID_PTR_def)
  have "rc = 0"
    using c by (auto simp: VBoxDrvLinuxCreate_def supdrvCreateSession_def RTHandleTableCreateEx_init VBoxDrvLinuxErr2LinuxErr_def)
  with LinuxCreate_drv [OF i n c] e have d: "dom (w_sess w') = {0x10000}" by simp
  then obtain s where s: "w_sess w' 0x10000 = Some s" by blast
  have "w_sess w' = [0x10000 \<mapsto> s]" using s d by (fastforce simp: fun_eq_iff dom_def)
  then show ?thesis using dev_reach.opened [OF r n c] by blast
qed

lemma dev_ex: "\<exists>w. dev_reach host_ex w \<and> dom (w_sess w) = {0x10000, 0x20000}"
proof -
  obtain w s where w: "dev_reach host_ex w" "w_sess w = [0x10000 \<mapsto> s]" using dev_ex_open by blast
  note i = dev_reach_ok [OF w(1) host_ex_ok(1) host_ex_frees]
  note F = idc_ex_fits [OF w(2)]
  let ?v = "0x10000 :: u32"
  let ?b = "idc_packet idc_ex_env 40 0 (le_bytes 4 (0x69726f74 :: u32) @ le_bytes 4 ?v @ le_bytes 4 ?v)"
  note P = connect_packet [of idc_ex_env ?v ?v]
  obtain wS where c: "supdrvCreateSession (idc_pNew idc_ex_env) (idc_rcSpinlock idc_ex_env) (idc_fMem idc_ex_env) (idc_rcLock idc_ex_env)
     (idc_procs idc_ex_env) False w = (0, 0x20000, wS)" using idc_ex_session by blast
  have v: "idc_verdict ?v ?v = 0" by (simp add: idc_verdict_def)
  obtain b' where b': "idc_new_session idc_ex_env w ?b = Some (VINF_SUCCESS, b', wS)" using new_session_ok [OF _ c, of ?b] P(1) by auto
  have "idc_connect idc_ex_env w 0 ?b = Some (VINF_SUCCESS, b', wS)"
    using b' v P by (simp add: idc_connect_def REQ_CHECK_IDC_SIZE_def)
  then have r: "SUPDrvLinuxIDC idc_ex_env (SUP_IDC_CODE 1) w ?b = Some (VINF_SUCCESS, b', wS)"
    using F(2) P(3) by (simp add: SUPDrvLinuxIDC_def supdrvIDC_def idc_switch_def)
  have a: "SUP_IDC_CODE 1 = SUP_IDC_CODE 3 \<longrightarrow> wS = w" by (simp add: idc_codes)
  have h: "idc_hst idc_ex_env = host_ex" by (simp add: idc_ex_env_def)
  have l: "unat (40 :: u32) = length ?b" "16 \<le> length ?b" using P(1) by simp_all
  have fit: "idc_pNew idc_ex_env = 0 \<or> RT_VALID_PTR (idc_pNew idc_ex_env) \<and> w_sess w (idc_pNew idc_ex_env) = None" "card (dom (w_sess w)) + 1 < 2 ^ 32"
    using F(1) by (simp_all add: idc_fits_def)
  have "dom (w_sess wS) = insert 0x20000 (dom (w_sess w))"
    using CreateSession_drv [OF i fit c] by (simp add: idc_ex_env_def)
  then have "dom (w_sess wS) = {0x10000, 0x20000}" using w(2) by auto
  then show ?thesis using dev_reach.idc [OF w(1) h F(1) P(2) l P(3) r a] by blast
qed

theorem dev_reach_inv_witness:
  "\<exists>w. dev_reach host_ex w \<and> dom (w_sess w) = {0x10000, 0x20000} \<and> drv_inv w"
  using dev_ex dev_reach_inv [OF _ host_ex_ok(1) host_ex_frees] by blast

theorem dev_close_all_witness:
  "\<exists>w w'. dev_reach host_ex w \<and> close_all host_ex w [0x20000, 0x10000] = Some w' \<and> w_sess w \<noteq> Map.empty \<and> w_objs w' = Map.empty"
proof -
  obtain w where w: "dev_reach host_ex w" "dom (w_sess w) = {0x10000, 0x20000}" using dev_ex by blast
  have "distinct [0x20000 :: addr, 0x10000]" "set [0x20000, 0x10000] = dom (w_sess w)" using w(2) by auto
  from dev_close_all [OF w(1) host_ex_ok(1) host_ex_frees this] obtain w' where
    "close_all host_ex w [0x20000, 0x10000] = Some w'" "w_objs w' = Map.empty" by blast
  moreover have "w_sess w \<noteq> Map.empty" using w(2) by auto
  ultimately show ?thesis using w(1) by blast
qed

end
